(* ===== verification/Prelude.thy ===== *)
theory Prelude
  imports Main "HOL-Library.Word" "HOL-Library.Signed_Division"
begin

unbundle bit_operations_syntax

text \<open>
  The vocabulary every component shares: the machine integers of the i686 target, the byte-addressed
  memory with little-endian 32-bit cells, the status codes of \<^verbatim>\<open>src/src/status.h\<close>, and the
  word and arithmetic lemmas the component proofs use.

  Conventions.  A C \<open>unsigned\<close>/\<open>size_t\<close>/pointer is a \<open>32 word\<close>; \<open>uint8_t\<close>/\<open>char\<close> is an
  \<open>8 word\<close>, read with \<open>sint\<close> where the C compares it as a signed \<open>char\<close> (gcc on i686).  A C
  \<open>int\<close> is an \<open>int\<close>; where the source casts between the two, the model writes \<open>as_u32\<close> or
  \<open>as_int\<close>.  \<open>sdiv\<close> and \<open>smod\<close> are C's division, which truncates towards zero.
\<close>

type_synonym u8 = "8 word"
type_synonym u16 = "16 word"
type_synonym u32 = "32 word"

type_synonym mem = "u32 \<Rightarrow> u8"

named_theorems unat_simps \<open>natural-number readings of word expressions\<close>

subsection \<open>Status codes\<close>

definition PEACHOS_ALL_OK :: int where [simp]: "PEACHOS_ALL_OK = 0"
definition EIO :: int where [simp]: "EIO = 1"
definition EINVARG :: int where [simp]: "EINVARG = 2"
definition ENOMEM :: int where [simp]: "ENOMEM = 3"
definition EBADPATH :: int where [simp]: "EBADPATH = 4"
definition EFSNOTUS :: int where [simp]: "EFSNOTUS = 5"
definition ERDONLY :: int where [simp]: "ERDONLY = 6"
definition EUNIMP :: int where [simp]: "EUNIMP = 7"
definition EISTKN :: int where [simp]: "EISTKN = 8"
definition EINFORMAT :: int where [simp]: "EINFORMAT = 9"

subsection \<open>Conversions between C's integers\<close>

definition as_u32 :: "int \<Rightarrow> u32" where
  "as_u32 i = word_of_int i"

definition as_int :: "u32 \<Rightarrow> int" where
  "as_int w = sint w"

definition ISERR :: "int \<Rightarrow> bool" where [simp]: "ISERR v \<longleftrightarrow> v < 0"

definition sgn_char :: "u8 \<Rightarrow> int" where
  "sgn_char c = sint c"

lemma unat_as_u32: "0 \<le> i \<Longrightarrow> i < 4294967296 \<Longrightarrow> unat (as_u32 i) = nat i"
  by (simp add: as_u32_def unsigned_of_int take_bit_int_eq_self)

lemma as_int_nonneg:
  assumes "unat w < 2147483648"
  shows "as_int w = int (unat w)"
proof -
  have "int (unat w) < 2147483648" using assms by linarith
  then have "uint w < 2 ^ 31" by simp
  moreover have "- (2 ^ 31) \<le> uint w"
    by (rule order_trans [OF _ uint_ge_0]) simp
  ultimately show ?thesis
    by (simp add: as_int_def sint_uint signed_take_bit_int_eq_self)
qed

lemma as_u32_as_int [simp]: "as_u32 (as_int w) = w"
  by (simp add: as_u32_def as_int_def)

lemma as_u32_of_nat [simp]: "as_u32 (int n) = of_nat n"
  by (simp add: as_u32_def)

lemma as_u32_add: "as_u32 (i + j) = as_u32 i + as_u32 j"
  by (simp add: as_u32_def)

subsection \<open>Word arithmetic read as natural numbers\<close>

lemma unat_bound32: "unat (w :: u32) < 4294967296"
  using unsigned_less [of w] by simp

lemma unat_of_nat32 [unat_simps]: "n < 4294967296 \<Longrightarrow> unat (of_nat n :: u32) = n"
  by (simp add: unat_of_nat)

lemma unat_add32 [unat_simps]: "unat (a + b :: u32) = (unat a + unat b) mod 4294967296"
  by (simp add: unat_word_ariths)

lemma unat_sub32 [unat_simps]:
  "unat (a - b :: u32) = (if unat b \<le> unat a then unat a - unat b
     else unat a + 4294967296 - unat b)"
  by (subst unat_sub_if') simp

lemma unat_mult32 [unat_simps]: "unat (a * b :: u32) = (unat a * unat b) mod 4294967296"
  by (simp add: unat_word_ariths)

lemma word32_eq_iff_unat: "(a :: u32) = b \<longleftrightarrow> unat a = unat b"
  by (simp add: word_eq_iff_unsigned)

lemma of_nat_inj32:
  "m < 4294967296 \<Longrightarrow> n < 4294967296 \<Longrightarrow> (of_nat m = (of_nat n :: u32)) = (m = n)"
  by (simp add: word_of_nat_eq_iff take_bit_nat_eq_self)

lemma add_of_nat_neq:
  "m < 4294967296 \<Longrightarrow> n < 4294967296 \<Longrightarrow> m \<noteq> n \<Longrightarrow> (a :: u32) + of_nat m \<noteq> a + of_nat n"
  by (simp add: of_nat_inj32)

lemma unat_offset: "n < 4294967296 \<Longrightarrow> unat ((a :: u32) + of_nat n - a) = n"
  by (simp add: unat_of_nat32)

lemma offset_of_unat: "(a :: u32) = p + of_nat (unat (a - p))"
  by simp

lemma addr_eq_iff: "k < 4294967296 \<Longrightarrow> (a :: u32) = e + of_nat k \<longleftrightarrow> unat (a - e) = k"
  using offset_of_unat [of a e] unat_offset [of k e] by auto

lemma unat_sub_eq_0: "unat ((a :: u32) - p) = 0 \<longleftrightarrow> a = p"
  by (simp add: unat_eq_0)

lemma unat_sub_Suc:
  assumes "unat ((a :: u32) - p) \<noteq> 0"
  shows "unat (a - (p + 1)) = unat (a - p) - 1"
proof -
  have "a - p \<noteq> 0" using assms by auto
  then have "unat (a - p - 1) = unat (a - p) - 1" by (rule unat_minus_one)
  then show ?thesis by (simp add: diff_diff_eq)
qed

lemma unat_sub_self_1: "unat ((p :: u32) - (p + 1)) = 4294967295"
proof -
  have "p - (p + 1) = - 1" by simp
  then show ?thesis by (simp add: unsigned_minus_1_eq_mask mask_eq_exp_minus_1)
qed

lemma unat_aligned_dvd: "(w :: u32) mod 4096 = 0 \<longleftrightarrow> 4096 dvd unat w"
  by (simp add: word32_eq_iff_unat unat_mod dvd_eq_mod_eq_0)

end
