(* ===== verification/Memory.thy ===== *)
theory Memory
  imports Prelude
begin

text \<open>
  \<^verbatim>\<open>src/src/memory/memory.c\<close>: \<open>memset\<close>, \<open>memcmp\<close> and \<open>memcpy\<close> as the byte loops the
  code runs over the memory, with the closed form of the memory each loop leaves behind; and the
  little-endian 32-bit cell the hardware reads and writes for \<open>uint32_t\<close> accesses.
\<close>

subsection \<open>The loops\<close>

function memset_loop :: "mem \<Rightarrow> u32 \<Rightarrow> u8 \<Rightarrow> nat \<Rightarrow> nat \<Rightarrow> mem" where
  "memset_loop m p c i sz =
     (if i < sz then memset_loop (m(p + of_nat i := c)) p c (Suc i) sz else m)"
  by pat_completeness auto
termination
  by (relation "measure (\<lambda>(m, p, c, i, sz). sz - i)") auto

declare memset_loop.simps [simp del]

definition memset :: "mem \<Rightarrow> u32 \<Rightarrow> int \<Rightarrow> u32 \<Rightarrow> mem" where
  "memset m p c sz = memset_loop m p (word_of_int c) 0 (unat sz)"

primrec memcmp_loop :: "mem \<Rightarrow> u32 \<Rightarrow> u32 \<Rightarrow> nat \<Rightarrow> int" where
  "memcmp_loop m c1 c2 0 = 0"
| "memcmp_loop m c1 c2 (Suc count) =
     (if m c1 \<noteq> m c2 then (if sgn_char (m c1) < sgn_char (m c2) then -1 else 1)
      else memcmp_loop m (c1 + 1) (c2 + 1) count)"

definition memcmp :: "mem \<Rightarrow> u32 \<Rightarrow> u32 \<Rightarrow> int \<Rightarrow> int" where
  "memcmp m s1 s2 count = memcmp_loop m s1 s2 (nat count)"

primrec memcpy_loop :: "mem \<Rightarrow> u32 \<Rightarrow> u32 \<Rightarrow> nat \<Rightarrow> mem" where
  "memcpy_loop m d s 0 = m"
| "memcpy_loop m d s (Suc len) = memcpy_loop (m(d := m s)) (d + 1) (s + 1) len"

definition memcpy :: "mem \<Rightarrow> u32 \<Rightarrow> u32 \<Rightarrow> int \<Rightarrow> mem" where
  \<comment> \<open>\<open>while (len--)\<close> stops at zero only, so a negative length runs its unsigned value\<close>
  "memcpy m dest src len = memcpy_loop m dest src (unat (as_u32 len))"

subsection \<open>What the loops leave\<close>

lemma memset_loop_at:
  "sz \<le> 4294967296 \<Longrightarrow>
   memset_loop m p c i sz a = (if i \<le> unat (a - p) \<and> unat (a - p) < sz then c else m a)"
proof (induction m p c i sz rule: memset_loop.induct)
  case (1 m p c i sz)
  show ?case
  proof (cases "i < sz")
    case True
    then have IH: "memset_loop (m(p + of_nat i := c)) p c (Suc i) sz a =
        (if Suc i \<le> unat (a - p) \<and> unat (a - p) < sz then c else (m(p + of_nat i := c)) a)"
      using "1.IH" "1.prems" by blast
    have "a = p + of_nat i \<longleftrightarrow> unat (a - p) = i"
      using True "1.prems" offset_of_unat [of a p] unat_offset [of i p] by auto
    then show ?thesis
      using True IH by (subst memset_loop.simps) auto
  next
    case False
    then show ?thesis by (subst memset_loop.simps) auto
  qed
qed

lemma memset_at:
  "memset m p c sz a = (if unat (a - p) < unat sz then word_of_int c else m a)"
  using unat_bound32 [of sz] by (simp add: memset_def memset_loop_at)

lemma memset_other: "unat sz \<le> unat (a - p) \<Longrightarrow> memset m p c sz a = m a"
  by (simp add: memset_at)

lemma memcmp_loop_zero_iff:
  "memcmp_loop m c1 c2 n = 0 \<longleftrightarrow> (\<forall>i<n. m (c1 + of_nat i) = m (c2 + of_nat i))"
proof (induction n arbitrary: c1 c2)
  case 0
  then show ?case by simp
next
  case (Suc n)
  have "(\<forall>i<Suc n. m (c1 + of_nat i) = m (c2 + of_nat i)) \<longleftrightarrow>
      m c1 = m c2 \<and> (\<forall>i<n. m (c1 + 1 + of_nat i) = m (c2 + 1 + of_nat i))"
    by (subst All_less_Suc2) (simp add: add.assoc)
  then show ?case using Suc by simp
qed

lemma memcmp_loop_first_diff:
  assumes "i < n" and "m (c1 + of_nat i) \<noteq> m (c2 + of_nat i)"
    and "\<forall>j<i. m (c1 + of_nat j) = m (c2 + of_nat j)"
  shows "memcmp_loop m c1 c2 n =
    (if sgn_char (m (c1 + of_nat i)) < sgn_char (m (c2 + of_nat i)) then -1 else 1)"
  using assms
proof (induction n arbitrary: c1 c2 i)
  case 0
  then show ?case by simp
next
  case (Suc n)
  show ?case
  proof (cases i)
    case 0
    then show ?thesis using Suc.prems by simp
  next
    case (Suc k)
    have "m c1 = m c2" using Suc.prems(3) Suc by force
    moreover have "\<forall>j<k. m (c1 + 1 + of_nat j) = m (c2 + 1 + of_nat j)"
    proof (intro allI impI)
      fix j assume "j < k"
      then have "m (c1 + of_nat (Suc j)) = m (c2 + of_nat (Suc j))"
        using Suc.prems(3) Suc by blast
      then show "m (c1 + 1 + of_nat j) = m (c2 + 1 + of_nat j)"
        by (simp add: add.assoc)
    qed
    ultimately show ?thesis
      using Suc.IH [of k "c1 + 1" "c2 + 1"] Suc.prems(1,2) Suc by (simp add: add.assoc)
  qed
qed

lemma memcpy_loop_at:
  assumes "n \<le> 4294967296" and "d = s \<or> n \<le> unat (d - s)"
  shows "memcpy_loop m d s n a = (if unat (a - d) < n then m (s + (a - d)) else m a)"
  using assms
proof (induction n arbitrary: m d s)
  case 0
  then show ?case by simp
next
  case (Suc n)
  have dist: "d + 1 = s + 1 \<or> n \<le> unat (d + 1 - (s + 1))"
    using Suc.prems(2) by auto
  have IH: "memcpy_loop (m(d := m s)) (d + 1) (s + 1) n a =
      (if unat (a - (d + 1)) < n then (m(d := m s)) (s + 1 + (a - (d + 1))) else (m(d := m s)) a)"
    by (rule Suc.IH) (use Suc.prems(1) dist in auto)
  have src: "s + 1 + (a - (d + 1)) = s + (a - d)" by simp
  show ?case
  proof (cases "a = d")
    case True
    have "n \<le> 4294967295" using Suc.prems(1) by simp
    then have "\<not> unat (a - (d + 1)) < n" using True unat_sub_self_1 [of d] by simp
    then show ?thesis using IH True by simp
  next
    case False
    then have nz: "unat (a - d) \<noteq> 0" by (simp add: unat_sub_eq_0)
    then have step: "unat (a - (d + 1)) = unat (a - d) - 1" by (rule unat_sub_Suc)
    have "(m(d := m s)) (s + (a - d)) = m (s + (a - d))" if "unat (a - d) < Suc n"
    proof (cases "s + (a - d) = d")
      case True
      then have "a - d = d - s" by (metis add_diff_cancel_left')
      then have "d = s" using Suc.prems(2) that by auto
      then have "a = d" using True by simp
      then show ?thesis using False by simp
    qed simp
    then show ?thesis using IH False nz step src by auto
  qed
qed

lemma memcpy_at:
  assumes "dest = src \<or> unat (as_u32 len) \<le> unat (dest - src)"
  shows "memcpy m dest src len a =
    (if unat (a - dest) < unat (as_u32 len) then m (src + (a - dest)) else m a)"
  using assms unat_bound32 [of "as_u32 len"] by (simp add: memcpy_def memcpy_loop_at)

subsection \<open>Little-endian 32-bit cells\<close>

definition load32 :: "mem \<Rightarrow> u32 \<Rightarrow> u32" where
  "load32 m a = ucast (m a) OR push_bit 8 (ucast (m (a + 1)))
     OR push_bit 16 (ucast (m (a + 2))) OR push_bit 24 (ucast (m (a + 3)))"

definition store32 :: "mem \<Rightarrow> u32 \<Rightarrow> u32 \<Rightarrow> mem" where
  "store32 m a v = m(a := ucast v, a + 1 := ucast (drop_bit 8 v),
     a + 2 := ucast (drop_bit 16 v), a + 3 := ucast (drop_bit 24 v))"

lemma four_bytes:
  fixes v :: u32
  shows "ucast (ucast v :: u8) OR push_bit 8 (ucast (ucast (drop_bit 8 v) :: u8))
     OR push_bit 16 (ucast (ucast (drop_bit 16 v) :: u8))
     OR push_bit 24 (ucast (ucast (drop_bit 24 v) :: u8)) = v"
proof (rule bit_word_eqI)
  fix n assume "n < LENGTH(32)"
  then have n: "n < 32" by simp
  then consider "n < 8" | "8 \<le> n" "n < 16" | "16 \<le> n" "n < 24" | "24 \<le> n" "n < 32"
    by linarith
  then show "bit (ucast (ucast v :: u8) OR push_bit 8 (ucast (ucast (drop_bit 8 v) :: u8))
     OR push_bit 16 (ucast (ucast (drop_bit 16 v) :: u8))
     OR push_bit 24 (ucast (ucast (drop_bit 24 v) :: u8)) :: u32) n = bit v n"
    by cases (auto simp: bit_simps)
qed

lemma load32_store32_same [simp]: "load32 (store32 m a v) a = v"
proof -
  have "a \<noteq> a + 1" "a \<noteq> a + 2" "a \<noteq> a + 3" "a + 1 \<noteq> a + 2" "a + 1 \<noteq> a + 3" "a + 2 \<noteq> a + 3"
    by simp_all
  then show ?thesis
    by (simp add: load32_def store32_def four_bytes)
qed

definition cells_apart :: "u32 \<Rightarrow> u32 \<Rightarrow> bool" where
  "cells_apart a b \<longleftrightarrow> 4 \<le> unat (a - b) \<and> 4 \<le> unat (b - a)"

lemma store32_other: "4 \<le> unat (x - a) \<Longrightarrow> store32 m a v x = m x"
proof -
  assume *: "4 \<le> unat (x - a)"
  have "x \<noteq> a" "x \<noteq> a + 1" "x \<noteq> a + 2" "x \<noteq> a + 3" using * by auto
  then show ?thesis by (simp add: store32_def)
qed

lemma load32_cong:
  "m a = m' a \<Longrightarrow> m (a + 1) = m' (a + 1) \<Longrightarrow> m (a + 2) = m' (a + 2) \<Longrightarrow> m (a + 3) = m' (a + 3)
   \<Longrightarrow> load32 m a = load32 m' a"
  by (simp add: load32_def)

end
