(* ===== verification/Allocator.thy ===== *)
theory Allocator
  imports Prelude
begin

text \<open>
  The contract of a block allocator, on which the kernel heap's clients rely.  An abstract allocator
  state is a partial map \<open>A\<close>: \<open>A b = Some n\<close> says that a live allocation of \<open>n\<close> consecutive blocks
  starts at block \<open>b\<close>.  The locale \<open>allocator\<close> states what allocation and deallocation promise about
  \<open>A\<close>; its lemmas are the consequences clients use (fresh pointers, balanced use, bulk deallocation,
  how many single-block requests must succeed).
\<close>

subsection \<open>Allocation maps\<close>

definition covered :: "(nat \<rightharpoonup> nat) \<Rightarrow> nat \<Rightarrow> bool" where
  "covered A i \<longleftrightarrow> (\<exists>s n. A s = Some n \<and> s \<le> i \<and> i < s + n)"

definition room :: "nat \<Rightarrow> (nat \<rightharpoonup> nat) \<Rightarrow> nat \<Rightarrow> nat \<Rightarrow> bool" where
  "room cap A n s \<longleftrightarrow> s + n \<le> cap \<and> (\<forall>i. s \<le> i \<and> i < s + n \<longrightarrow> \<not> covered A i)"

definition first_fit :: "nat \<Rightarrow> (nat \<rightharpoonup> nat) \<Rightarrow> nat \<Rightarrow> nat \<Rightarrow> bool" where
  "first_fit cap A n s \<longleftrightarrow> room cap A n s \<and> (\<forall>r. r < s \<longrightarrow> \<not> room cap A n r)"

definition free_blocks :: "nat \<Rightarrow> (nat \<rightharpoonup> nat) \<Rightarrow> nat" where
  "free_blocks cap A = card {i. i < cap \<and> \<not> covered A i}"

lemma covered_upd:
  "A s = None \<Longrightarrow> covered (A(s \<mapsto> n)) i \<longleftrightarrow> s \<le> i \<and> i < s + n \<or> covered A i"
  by (auto simp: covered_def)

lemma covered_empty [simp]: "\<not> covered Map.empty i"
  by (simp add: covered_def)

lemma first_fit_exists: "\<exists>s. room cap A n s \<Longrightarrow> \<exists>s. first_fit cap A n s"
  unfolding first_fit_def using exists_least_iff [of "room cap A n"] by blast

lemma room_one: "room cap A (Suc 0) i \<longleftrightarrow> i < cap \<and> \<not> covered A i"
  by (auto simp: room_def less_Suc_eq_le dest: le_antisym)

lemma room_empty: "s + n \<le> cap \<Longrightarrow> room cap Map.empty n s"
  by (simp add: room_def)

lemma free_blocks_empty: "free_blocks cap Map.empty = cap"
  by (simp add: free_blocks_def)

lemma free_blocks_one:
  assumes "A b = None" and "room cap A 1 b"
  shows "free_blocks cap A = Suc (free_blocks cap (A(b \<mapsto> 1)))"
proof -
  have "{i. i < cap \<and> \<not> covered A i} = insert b {i. i < cap \<and> \<not> covered (A(b \<mapsto> 1)) i}"
    using assms by (auto simp: covered_upd room_one)
  moreover have "b \<notin> {i. i < cap \<and> \<not> covered (A(b \<mapsto> 1)) i}"
    using assms by (simp add: covered_upd)
  ultimately show ?thesis by (simp add: free_blocks_def)
qed

lemma free_blocks_room: "0 < free_blocks cap A \<Longrightarrow> \<exists>b. first_fit cap A 1 b"
proof -
  assume "0 < free_blocks cap A"
  then have "{i. i < cap \<and> \<not> covered A i} \<noteq> {}"
    unfolding free_blocks_def by (metis card.empty less_irrefl)
  then have "\<exists>b. room cap A 1 b" by (auto simp: room_one)
  then show ?thesis by (rule first_fit_exists)
qed

subsection \<open>The contract\<close>

locale allocator =
  fixes rep :: "'s \<Rightarrow> (nat \<rightharpoonup> nat) \<Rightarrow> bool"
    and cap :: nat
    and blocks :: "'z \<Rightarrow> nat"
    and addr :: "nat \<Rightarrow> 'p"
    and alloc :: "'z \<Rightarrow> 's \<Rightarrow> 'p \<times> 's"
    and dealloc :: "'p \<Rightarrow> 's \<Rightarrow> 's"
  assumes alloc_addr: "rep s A \<Longrightarrow> 0 < blocks z \<Longrightarrow> first_fit cap A (blocks z) b \<Longrightarrow>
      fst (alloc z s) = addr b"
    and alloc_rep: "rep s A \<Longrightarrow> 0 < blocks z \<Longrightarrow> first_fit cap A (blocks z) b \<Longrightarrow>
      rep (snd (alloc z s)) (A(b \<mapsto> blocks z))"
    and dealloc_rep: "rep s A \<Longrightarrow> A b = Some n \<Longrightarrow> rep (dealloc (addr b) s) (A(b := None))"
    and rep_pos: "rep s A \<Longrightarrow> A b = Some n \<Longrightarrow> 0 < n \<and> b + n \<le> cap"
    and addr_inj: "b < cap \<Longrightarrow> c < cap \<Longrightarrow> addr b = addr c \<Longrightarrow> b = c"
begin

lemma fit_unused: "rep s A \<Longrightarrow> 0 < n \<Longrightarrow> first_fit cap A n b \<Longrightarrow> A b = None"
proof (rule ccontr)
  assume s: "rep s A" and n: "0 < n" and f: "first_fit cap A n b" and "A b \<noteq> None"
  then obtain k where k: "A b = Some k" by auto
  then have "covered A b"
    using rep_pos [OF s k] unfolding covered_def by (intro exI [of _ b] exI [of _ k]) simp
  then show False using f n by (simp add: first_fit_def room_def)
qed

lemma alloc_fresh:
  assumes "rep s A" and "0 < blocks z" and "first_fit cap A (blocks z) b"
    and "A c = Some n"
  shows "fst (alloc z s) \<noteq> addr c"
proof
  assume "fst (alloc z s) = addr c"
  then have "addr b = addr c" using alloc_addr assms(1-3) by simp
  moreover have "b < cap" using assms(2,3) by (simp add: first_fit_def room_def)
  moreover have "c < cap" using rep_pos [OF assms(1,4)] by simp
  ultimately have "b = c" by (intro addr_inj)
  then show False using fit_unused [OF assms(1-3)] assms(4) by simp
qed

lemma alloc_dealloc:
  assumes "rep s A" and "0 < blocks z" and "first_fit cap A (blocks z) b"
  shows "rep (dealloc (fst (alloc z s)) (snd (alloc z s))) A"
proof -
  have "A b = None" by (rule fit_unused [OF assms])
  then have "(A(b \<mapsto> blocks z))(b := None) = A" by auto
  then show ?thesis
    using dealloc_rep [OF alloc_rep [OF assms], of b "blocks z"] alloc_addr [OF assms] by simp
qed

lemma dealloc_all:
  assumes "rep s A" and "distinct bs" and "set bs \<subseteq> dom A"
  shows "rep (fold (\<lambda>b. dealloc (addr b)) bs s) (A |` (- set bs))"
  using assms
proof (induction bs arbitrary: s A)
  case Nil
  then show ?case by (simp add: restrict_map_def)
next
  case (Cons b bs)
  then obtain n where "A b = Some n" by auto
  then have "rep (dealloc (addr b) s) (A(b := None))"
    using Cons.prems(1) by (intro dealloc_rep)
  moreover have "set bs \<subseteq> dom (A(b := None))" using Cons.prems by auto
  moreover have "distinct bs" using Cons.prems(2) by simp
  ultimately have "rep (fold (\<lambda>b. dealloc (addr b)) bs (dealloc (addr b) s)) ((A(b := None)) |` (- set bs))"
    by (intro Cons.IH)
  moreover have eq: "(A(b := None)) |` (- set bs) = A |` (- set (b # bs))"
    by (auto simp: restrict_map_def fun_eq_iff)
  ultimately show ?case by (simp only: fold_simps eq)
qed

lemma alloc_one_available:
  assumes "rep s A" and "blocks z = 1" and "0 < free_blocks cap A"
  obtains b where "first_fit cap A 1 b" "fst (alloc z s) = addr b" "A b = None" "room cap A 1 b"
    "rep (snd (alloc z s)) (A(b \<mapsto> 1))" "free_blocks cap A = Suc (free_blocks cap (A(b \<mapsto> 1)))"
proof -
  obtain b where b: "first_fit cap A 1 b" using free_blocks_room [OF assms(3)] by auto
  have none: "A b = None" using fit_unused [OF assms(1) _ b] by simp
  have room: "room cap A 1 b" using b by (simp add: first_fit_def)
  show thesis
    using that b alloc_addr [OF assms(1), of z b] alloc_rep [OF assms(1), of z b] assms(2) b none room
      free_blocks_one [OF none room] by simp
qed

end

end
