(* ===== verification/Heap.thy ===== *)
theory Heap
  imports Memory Allocator
begin

text \<open>
  \<^verbatim>\<open>src/src/memory/heap/heap.c\<close>: the block allocator.  A table of one byte per 4096-byte block
  lies in memory; \<open>entries\<close> is its address and an access \<open>entries[i]\<close> is the byte at \<open>entries + i\<close>,
  so an index outside the table reads or writes whatever memory lies there.

  The functions follow the code statement by statement.  The second half gives the abstract
  allocator they refine: a partial map \<open>A\<close> from the first block of each live allocation to its
  number of blocks (\<open>heap_rep\<close>), on which \<open>heap_malloc\<close> is first-fit and \<open>heap_free\<close> a deletion.
\<close>

subsection \<open>State\<close>

definition PEACHOS_HEAP_BLOCK_SIZE :: u32 where [simp]: "PEACHOS_HEAP_BLOCK_SIZE = 4096"
definition HEAP_BLOCK_TABLE_ENTRY_TAKEN :: u8 where [simp]: "HEAP_BLOCK_TABLE_ENTRY_TAKEN = 0x01"
definition HEAP_BLOCK_TABLE_ENTRY_FREE :: u8 where [simp]: "HEAP_BLOCK_TABLE_ENTRY_FREE = 0x00"
definition HEAP_BLOCK_HAS_NEXT :: u8 where [simp]: "HEAP_BLOCK_HAS_NEXT = 0x80"
definition HEAP_BLOCK_IS_FIRST :: u8 where [simp]: "HEAP_BLOCK_IS_FIRST = 0x40"

record heap_table =
  entries :: u32
  ht_total :: u32

record heap =
  table_of :: heap_table
  saddr :: u32

subsection \<open>Operations\<close>

definition heap_validate_table :: "u32 \<Rightarrow> u32 \<Rightarrow> heap_table \<Rightarrow> int" where
  "heap_validate_table ptr endp t =
     (let table_size = endp - ptr;
          total_blocks = table_size div PEACHOS_HEAP_BLOCK_SIZE
      in if ht_total t \<noteq> total_blocks then - EINVARG else 0)"

definition heap_validate_alignment :: "u32 \<Rightarrow> bool" where
  "heap_validate_alignment ptr \<longleftrightarrow> ptr mod PEACHOS_HEAP_BLOCK_SIZE = 0"

definition heap_create :: "heap \<Rightarrow> u32 \<Rightarrow> u32 \<Rightarrow> heap_table \<Rightarrow> mem \<Rightarrow> int \<times> heap \<times> mem" where
  "heap_create h ptr endp t m =
     (if \<not> heap_validate_alignment ptr \<or> \<not> heap_validate_alignment endp then (- EINVARG, h, m)
      else let h' = h\<lparr>saddr := ptr, table_of := t\<rparr>;
               res = heap_validate_table ptr endp t
           in if res < 0 then (res, h', m)
              else (res, h', memset m (entries t) (uint HEAP_BLOCK_TABLE_ENTRY_FREE) (ht_total t)))"

definition heap_align_value_to_upper :: "u32 \<Rightarrow> u32" where
  "heap_align_value_to_upper val =
     (if val mod PEACHOS_HEAP_BLOCK_SIZE = 0 then val
      else val - val mod PEACHOS_HEAP_BLOCK_SIZE + PEACHOS_HEAP_BLOCK_SIZE)"

definition heap_get_entry_type :: "u8 \<Rightarrow> u8" where
  "heap_get_entry_type entry = entry AND 0x0f"

function start_block_loop :: "mem \<Rightarrow> heap_table \<Rightarrow> u32 \<Rightarrow> nat \<Rightarrow> int \<Rightarrow> int \<Rightarrow> int" where
  "start_block_loop m t n i bc bs =
     (if i < unat (ht_total t) then
        if heap_get_entry_type (m (entries t + of_nat i)) \<noteq> HEAP_BLOCK_TABLE_ENTRY_FREE
        then start_block_loop m t n (Suc i) 0 (- 1)
        else let bs' = (if bs = - 1 then as_int (of_nat i) else bs);
                 bc' = bc + 1
             in if as_u32 bc' = n then bs' else start_block_loop m t n (Suc i) bc' bs'
      else bs)"
  by pat_completeness auto
termination
  by (relation "measure (\<lambda>(m, t, n, i, bc, bs). unat (ht_total t) - i)") auto

declare start_block_loop.simps [simp del]

definition heap_get_start_block :: "heap \<Rightarrow> u32 \<Rightarrow> mem \<Rightarrow> int" where
  "heap_get_start_block h total_blocks m =
     (let bs = start_block_loop m (table_of h) total_blocks 0 0 (- 1)
      in if bs = - 1 then - ENOMEM else bs)"

definition heap_block_to_address :: "heap \<Rightarrow> int \<Rightarrow> u32" where
  "heap_block_to_address h block = saddr h + as_u32 (block * 4096)"

function mark_taken_loop :: "mem \<Rightarrow> u32 \<Rightarrow> int \<Rightarrow> int \<Rightarrow> u8 \<Rightarrow> mem" where
  "mark_taken_loop m e i end_block entry =
     (if i \<le> end_block then
        let m' = m(e + as_u32 i := entry);
            entry' = HEAP_BLOCK_TABLE_ENTRY_TAKEN;
            entry'' = (if i \<noteq> end_block - 1 then entry' OR HEAP_BLOCK_HAS_NEXT else entry')
        in mark_taken_loop m' e (i + 1) end_block entry''
      else m)"
  by pat_completeness auto
termination
  by (relation "measure (\<lambda>(m, e, i, end_block, entry). nat (end_block + 1 - i))") auto

declare mark_taken_loop.simps [simp del]

definition heap_mark_blocks_taken :: "heap \<Rightarrow> int \<Rightarrow> int \<Rightarrow> mem \<Rightarrow> mem" where
  "heap_mark_blocks_taken h start_block total_blocks m =
     (let end_block = (start_block + total_blocks) - 1;
          entry = HEAP_BLOCK_TABLE_ENTRY_TAKEN OR HEAP_BLOCK_IS_FIRST;
          entry' = (if total_blocks > 1 then entry OR HEAP_BLOCK_HAS_NEXT else entry)
      in mark_taken_loop m (entries (table_of h)) start_block end_block entry')"

definition heap_malloc_blocks :: "heap \<Rightarrow> u32 \<Rightarrow> mem \<Rightarrow> u32 \<times> mem" where
  "heap_malloc_blocks h total_blocks m =
     (let start_block = heap_get_start_block h total_blocks m
      in if start_block < 0 then (0, m)
         else (heap_block_to_address h start_block,
               heap_mark_blocks_taken h start_block (as_int total_blocks) m))"

function mark_free_loop :: "mem \<Rightarrow> u32 \<Rightarrow> int \<Rightarrow> int \<Rightarrow> mem" where
  "mark_free_loop m e i tot =
     (if i < tot then
        let entry = m (e + as_u32 i);
            m' = m(e + as_u32 i := HEAP_BLOCK_TABLE_ENTRY_FREE)
        in if entry AND HEAP_BLOCK_HAS_NEXT = 0 then m'
           else mark_free_loop m' e (i + 1) tot
      else m)"
  by pat_completeness auto
termination
  by (relation "measure (\<lambda>(m, e, i, tot). nat (tot - i))") auto

declare mark_free_loop.simps [simp del]

definition heap_mark_blocks_free :: "heap \<Rightarrow> int \<Rightarrow> mem \<Rightarrow> mem" where
  "heap_mark_blocks_free h starting_block m =
     mark_free_loop m (entries (table_of h)) starting_block (as_int (ht_total (table_of h)))"

definition heap_address_to_block :: "heap \<Rightarrow> u32 \<Rightarrow> int" where
  "heap_address_to_block h address = as_int (address - saddr h) sdiv 4096"

definition heap_malloc :: "heap \<Rightarrow> u32 \<Rightarrow> mem \<Rightarrow> u32 \<times> mem" where
  "heap_malloc h sz m =
     (let aligned_size = heap_align_value_to_upper sz;
          total_blocks = aligned_size div PEACHOS_HEAP_BLOCK_SIZE
      in heap_malloc_blocks h total_blocks m)"

definition heap_free :: "heap \<Rightarrow> u32 \<Rightarrow> mem \<Rightarrow> mem" where
  "heap_free h ptr m = heap_mark_blocks_free h (heap_address_to_block h ptr) m"

subsection \<open>The scan for a start block\<close>

text \<open>
  \<open>trail F i\<close> is the length of the run of free blocks that ends just before \<open>i\<close>: what the loop
  keeps in \<open>bc\<close>, with \<open>bs\<close> the first block of that run.
\<close>

definition entry_at :: "mem \<Rightarrow> heap_table \<Rightarrow> nat \<Rightarrow> u8" where
  "entry_at m t i = m (entries t + of_nat i)"

definition block_free :: "mem \<Rightarrow> heap_table \<Rightarrow> nat \<Rightarrow> bool" where
  "block_free m t i \<longleftrightarrow> heap_get_entry_type (entry_at m t i) = HEAP_BLOCK_TABLE_ENTRY_FREE"

primrec trail :: "(nat \<Rightarrow> bool) \<Rightarrow> nat \<Rightarrow> nat" where
  "trail F 0 = 0"
| "trail F (Suc i) = (if F i then Suc (trail F i) else 0)"

definition trail_start :: "(nat \<Rightarrow> bool) \<Rightarrow> nat \<Rightarrow> int" where
  "trail_start F i = (if trail F i = 0 then - 1 else int (i - trail F i))"

lemma trail_le: "trail F i \<le> i"
  by (induction i) auto

lemma trail_ge_iff: "n \<le> trail F i \<longleftrightarrow> n \<le> i \<and> (\<forall>j. i - n \<le> j \<and> j < i \<longrightarrow> F j)"
proof (induction i arbitrary: n)
  case 0
  then show ?case by simp
next
  case (Suc i)
  show ?case
  proof (cases n)
    case 0
    then show ?thesis by auto
  next
    case (Suc k)
    have "(\<forall>j. Suc i - n \<le> j \<and> j < Suc i \<longrightarrow> F j) \<longleftrightarrow> F i \<and> (\<forall>j. i - k \<le> j \<and> j < i \<longrightarrow> F j)"
      using Suc by (auto simp: less_Suc_eq)
    then show ?thesis using Suc Suc.IH [of k] by auto
  qed
qed

lemma trail_start_ge: "trail F i \<noteq> 0 \<Longrightarrow> 0 \<le> trail_start F i"
  by (simp add: trail_start_def)

lemma start_block_loop_step:
  assumes "unat (ht_total t) < 2147483648" and "i < unat (ht_total t)"
  shows "start_block_loop m t n i (int (trail (block_free m t) i)) (trail_start (block_free m t) i) =
    (if block_free m t i \<and> trail (block_free m t) (Suc i) = unat n
     then trail_start (block_free m t) (Suc i)
     else start_block_loop m t n (Suc i) (int (trail (block_free m t) (Suc i)))
            (trail_start (block_free m t) (Suc i)))"
proof -
  let ?F = "block_free m t"
  have le: "trail ?F i \<le> i" by (rule trail_le)
  have i: "as_int (of_nat i) = int i"
    using assms by (simp add: as_int_nonneg unat_of_nat32)
  have cmp: "as_u32 (int (trail ?F i) + 1) = n \<longleftrightarrow> Suc (trail ?F i) = unat n"
  proof -
    have "as_u32 (int (trail ?F i) + 1) = of_nat (Suc (trail ?F i))"
      by (simp flip: as_u32_of_nat add: add.commute)
    then show ?thesis
      using assms le by (simp add: word32_eq_iff_unat unat_of_nat32 del: of_nat_Suc)
  qed
  have ts: "?F i \<Longrightarrow> trail_start ?F (Suc i) = (if trail_start ?F i = - 1 then int i else trail_start ?F i)"
    using le by (simp add: trail_start_def)
  show ?thesis
  proof (cases "?F i")
    case True
    then have "heap_get_entry_type (entry_at m t i) = HEAP_BLOCK_TABLE_ENTRY_FREE"
      by (simp add: block_free_def)
    then have "start_block_loop m t n i (int (trail ?F i)) (trail_start ?F i) =
        (if as_u32 (int (trail ?F i) + 1) = n then trail_start ?F (Suc i)
         else start_block_loop m t n (Suc i) (int (trail ?F i) + 1) (trail_start ?F (Suc i)))"
      unfolding ts [OF True] using assms(2) i
      by (subst start_block_loop.simps) (simp only: entry_at_def Let_def if_True if_False simp_thms)
    then show ?thesis using True cmp by (simp add: add.commute)
  next
    case False
    then show ?thesis
      using assms(2)
      by (subst start_block_loop.simps) (simp add: block_free_def entry_at_def trail_start_def)
  qed
qed

text \<open>
  The loop stops at the first \<open>k\<close> whose trailing run has length \<open>n\<close>, and otherwise leaves the
  start of the run that the table ends with.
\<close>

lemma start_block_loop_spec:
  fixes m :: mem and t :: heap_table
  defines "F \<equiv> block_free m t" and "N \<equiv> unat (ht_total t)"
  assumes "N < 2147483648" and "i \<le> N" and "\<forall>k\<le>i. trail F k = 0 \<or> trail F k \<noteq> unat n"
  shows "(\<exists>k. i < k \<and> k \<le> N \<and> trail F k = unat n \<and> 0 < unat n
            \<and> (\<forall>k'<k. trail F k' = 0 \<or> trail F k' \<noteq> unat n)
            \<and> start_block_loop m t n i (int (trail F i)) (trail_start F i) = int (k - unat n))
         \<or> (\<forall>k\<le>N. trail F k = 0 \<or> trail F k \<noteq> unat n)
            \<and> start_block_loop m t n i (int (trail F i)) (trail_start F i) = trail_start F N"
  using assms(3-5)
proof (induction "N - i" arbitrary: i)
  case 0
  then have "i = N" by simp
  then show ?case
    using 0 by (subst (1 2) start_block_loop.simps) (simp add: N_def)
next
  case (Suc d)
  then have lt: "i < N" by simp
  note step = start_block_loop_step [OF Suc.prems(1) [unfolded N_def] lt [unfolded N_def],
      of m n, folded F_def]
  show ?case
  proof (cases "F i \<and> trail F (Suc i) = unat n")
    case True
    then have "start_block_loop m t n i (int (trail F i)) (trail_start F i) = int (Suc i - unat n)"
      using step by (auto simp: trail_start_def)
    then show ?thesis
      using True Suc.prems lt by (intro disjI1 exI [of _ "Suc i"]) auto
  next
    case False
    then have same: "start_block_loop m t n i (int (trail F i)) (trail_start F i) =
        start_block_loop m t n (Suc i) (int (trail F (Suc i))) (trail_start F (Suc i))"
      using step by simp
    have inv: "\<forall>k\<le>Suc i. trail F k = 0 \<or> trail F k \<noteq> unat n"
      using False Suc.prems(3) by (auto simp: le_Suc_eq)
    have "(\<exists>k. Suc i < k \<and> k \<le> N \<and> trail F k = unat n \<and> 0 < unat n
            \<and> (\<forall>k'<k. trail F k' = 0 \<or> trail F k' \<noteq> unat n)
            \<and> start_block_loop m t n (Suc i) (int (trail F (Suc i))) (trail_start F (Suc i)) = int (k - unat n))
         \<or> (\<forall>k\<le>N. trail F k = 0 \<or> trail F k \<noteq> unat n)
            \<and> start_block_loop m t n (Suc i) (int (trail F (Suc i))) (trail_start F (Suc i)) = trail_start F N"
      by (rule Suc.hyps(1)) (use Suc.hyps(2) lt Suc.prems(1) inv in auto)
    then show ?thesis unfolding same using Suc_lessD by blast
  qed
qed

subsection \<open>The table writes\<close>

text \<open>The entry of block \<open>j\<close> of an allocation of \<open>n\<close> blocks.\<close>

definition blk_entry :: "nat \<Rightarrow> nat \<Rightarrow> u8" where
  "blk_entry n j =
     (if j = 0 then (if 1 < n then 0xC1 else 0x41) else if j + 1 < n then 0x81 else 0x01)"

lemma blk_entry_type [simp]: "heap_get_entry_type (blk_entry n j) = 1"
  by (simp add: heap_get_entry_type_def blk_entry_def)

lemma blk_entry_has_next:
  "j < n \<Longrightarrow> (blk_entry n j AND HEAP_BLOCK_HAS_NEXT = 0) = (Suc j = n)"
  by (auto simp: blk_entry_def)

lemma mark_taken_loop_at:
  assumes "s + n \<le> 4294967296" and "j \<le> n" and "j < n \<Longrightarrow> entry = blk_entry n j"
  shows "mark_taken_loop m e (int (s + j)) (int (s + n) - 1) entry a =
    (if s + j \<le> unat (a - e) \<and> unat (a - e) < s + n then blk_entry n (unat (a - e) - s) else m a)"
  using assms(2,3)
proof (induction "n - j" arbitrary: m j entry)
  case 0
  then show ?case by (subst mark_taken_loop.simps) auto
next
  case (Suc d)
  then have lt: "j < n" by simp
  define entry2 where "entry2 = (if int (s + j) \<noteq> int (s + n) - 1 - 1 then 0x81 else 0x01 :: u8)"
  have nxt: "Suc j < n \<Longrightarrow> entry2 = blk_entry n (Suc j)"
    by (auto simp: entry2_def blk_entry_def)
  have step: "mark_taken_loop m e (int (s + j)) (int (s + n) - 1) entry =
      mark_taken_loop (m(e + of_nat (s + j) := entry)) e (int (s + Suc j)) (int (s + n) - 1) entry2"
    using lt by (subst mark_taken_loop.simps)
      (simp add: Let_def entry2_def as_u32_add ac_simps flip: of_nat_add)
  have IH: "mark_taken_loop (m(e + of_nat (s + j) := entry)) e (int (s + Suc j)) (int (s + n) - 1) entry2 a
    = (if s + Suc j \<le> unat (a - e) \<and> unat (a - e) < s + n then blk_entry n (unat (a - e) - s)
       else (m(e + of_nat (s + j) := entry)) a)"
    by (rule Suc.hyps(1)) (use Suc.hyps(2) lt nxt in auto)
  have "s + j < 4294967296" using assms(1) lt by simp
  then have at: "a = e + of_nat (s + j) \<longleftrightarrow> unat (a - e) = s + j" by (rule addr_eq_iff)
  show ?case
    unfolding step IH fun_upd_apply at using Suc.prems(2) lt by auto
qed

lemma heap_mark_blocks_taken_at:
  assumes "s + n \<le> 4294967296" and "0 < n"
  shows "heap_mark_blocks_taken h (int s) (int n) m a =
    (let k = unat (a - entries (table_of h))
     in if s \<le> k \<and> k < s + n then blk_entry n (k - s) else m a)"
proof -
  have "heap_mark_blocks_taken h (int s) (int n) m =
      mark_taken_loop m (entries (table_of h)) (int (s + 0)) (int (s + n) - 1) (blk_entry n 0)"
    using assms(2) by (simp add: heap_mark_blocks_taken_def blk_entry_def Let_def)
  then show ?thesis
    using mark_taken_loop_at [of s n 0 "blk_entry n 0" m "entries (table_of h)" a] assms
    by (simp add: Let_def)
qed

lemma heap_mark_blocks_taken_0: "heap_mark_blocks_taken h s 0 m = m"
  by (simp add: heap_mark_blocks_taken_def Let_def mark_taken_loop.simps)

lemma mark_free_loop_at:
  assumes "int (s + n) \<le> tot" and "s + n \<le> 4294967296" and "j < n"
    and "\<forall>i. j \<le> i \<and> i < n \<longrightarrow> m (e + of_nat (s + i)) = blk_entry n i"
  shows "mark_free_loop m e (int (s + j)) tot a =
    (if s + j \<le> unat (a - e) \<and> unat (a - e) < s + n then 0 else m a)"
  using assms(3,4)
proof (induction "n - Suc j" arbitrary: m j)
  case 0
  then have last: "Suc j = n" by simp
  have "s + j < 4294967296" using assms(2) last by simp
  then have at: "a = e + of_nat (s + j) \<longleftrightarrow> unat (a - e) = s + j" by (rule addr_eq_iff)
  have "int (s + j) < tot" using assms(1) last by simp
  moreover have "m (e + of_nat (s + j)) AND HEAP_BLOCK_HAS_NEXT = 0"
    using 0 last blk_entry_has_next by auto
  ultimately have "mark_free_loop m e (int (s + j)) tot = m(e + of_nat (s + j) := 0)"
    by (subst mark_free_loop.simps) (simp add: Let_def as_u32_add flip: of_nat_add)
  then show ?case using at last by auto
next
  case (Suc d)
  then have lt: "Suc j < n" by simp
  have b: "s + j < 4294967296" using assms(2) lt by simp
  then have at: "a = e + of_nat (s + j) \<longleftrightarrow> unat (a - e) = s + j" by (rule addr_eq_iff)
  have "int (s + j) < tot" using assms(1) lt by simp
  moreover have "m (e + of_nat (s + j)) AND HEAP_BLOCK_HAS_NEXT \<noteq> 0"
    using Suc.prems lt blk_entry_has_next [of j n] by auto
  ultimately have step: "mark_free_loop m e (int (s + j)) tot =
      mark_free_loop (m(e + of_nat (s + j) := 0)) e (int (s + Suc j)) tot"
    by (subst mark_free_loop.simps) (simp add: Let_def as_u32_add ac_simps flip: of_nat_add)
  have "e + of_nat (s + i) \<noteq> e + of_nat (s + j)" if "Suc j \<le> i" "i < n" for i
    by (rule add_of_nat_neq) (use that assms(2) b in auto)
  then have rest: "\<forall>i. Suc j \<le> i \<and> i < n \<longrightarrow>
      (m(e + of_nat (s + j) := 0)) (e + of_nat (s + i)) = blk_entry n i"
    using Suc.prems(2) by auto
  have IH: "mark_free_loop (m(e + of_nat (s + j) := 0)) e (int (s + Suc j)) tot a
    = (if s + Suc j \<le> unat (a - e) \<and> unat (a - e) < s + n then 0
       else (m(e + of_nat (s + j) := 0)) a)"
    by (rule Suc.hyps(1)) (use Suc.hyps(2) lt rest in auto)
  show ?case
    unfolding step IH fun_upd_apply at using lt by auto
qed

subsection \<open>The abstract allocator\<close>

text \<open>
  \<open>A s = Some n\<close>: a live allocation of \<open>n\<close> blocks starts at block \<open>s\<close>.  \<open>heap_rep\<close> says that the
  table in memory encodes exactly the allocations of \<open>A\<close> and that they do not overlap.
\<close>

definition heap_rep :: "heap_table \<Rightarrow> mem \<Rightarrow> (nat \<rightharpoonup> nat) \<Rightarrow> bool" where
  "heap_rep t m A \<longleftrightarrow>
     unat (ht_total t) < 2147483648 \<and>
     (\<forall>s n. A s = Some n \<longrightarrow> 0 < n \<and> s + n \<le> unat (ht_total t)
        \<and> (\<forall>j<n. entry_at m t (s + j) = blk_entry n j)) \<and>
     (\<forall>i<unat (ht_total t). \<not> covered A i \<longrightarrow> entry_at m t i = HEAP_BLOCK_TABLE_ENTRY_FREE) \<and>
     (\<forall>s n s' n'. A s = Some n \<longrightarrow> A s' = Some n' \<longrightarrow> s < s' \<longrightarrow> s + n \<le> s')"

lemma heap_repD:
  assumes "heap_rep t m A"
  shows heap_rep_total: "unat (ht_total t) < 2147483648"
    and heap_rep_alloc: "A s = Some n \<Longrightarrow> 0 < n \<and> s + n \<le> unat (ht_total t)"
    and heap_rep_entry: "A s = Some n \<Longrightarrow> j < n \<Longrightarrow> entry_at m t (s + j) = blk_entry n j"
    and heap_rep_zero: "i < unat (ht_total t) \<Longrightarrow> \<not> covered A i \<Longrightarrow> entry_at m t i = 0"
    and heap_rep_apart: "A s = Some n \<Longrightarrow> A s' = Some n' \<Longrightarrow> s < s' \<Longrightarrow> s + n \<le> s'"
  using assms by (auto simp: heap_rep_def)

lemma heap_rep_cong:
  assumes "heap_rep t m A"
    and "\<And>i. i < unat (ht_total t) \<Longrightarrow> entry_at m' t i = entry_at m t i"
  shows "heap_rep t m' A"
proof -
  have "entry_at m' t (s + j) = blk_entry n j" if "A s = Some n" "j < n" for s n j
    using that assms(2) [of "s + j"] heap_rep_alloc [OF assms(1)] heap_rep_entry [OF assms(1)]
    by (metis add_less_cancel_left order_less_le_trans)
  then show ?thesis
    using assms(1) assms(2) unfolding heap_rep_def by simp
qed

lemma heap_rep_block_free:
  assumes "heap_rep t m A" and "i < unat (ht_total t)"
  shows "block_free m t i \<longleftrightarrow> \<not> covered A i"
proof (cases "covered A i")
  case True
  then obtain s n where "A s = Some n" "s \<le> i" "i < s + n" by (auto simp: covered_def)
  then have "entry_at m t i = blk_entry n (i - s)"
    using heap_rep_entry [OF assms(1), of s n "i - s"] by simp
  then show ?thesis using True by (simp add: block_free_def)
next
  case False
  then show ?thesis
    using heap_rep_zero [OF assms] by (simp add: block_free_def heap_get_entry_type_def)
qed

lemma room_iff_trail:
  assumes "heap_rep t m A" and "s + n \<le> unat (ht_total t)"
  shows "room (unat (ht_total t)) A n s \<longleftrightarrow> n \<le> trail (block_free m t) (s + n)"
  using assms(2) heap_rep_block_free [OF assms(1)] by (auto simp: room_def trail_ge_iff)

lemma heap_get_start_block_fit:
  assumes rep: "heap_rep (table_of h) m A" and "0 < unat n" and fit: "first_fit (unat (ht_total (table_of h))) A (unat n) s"
  shows "heap_get_start_block h n m = int s"
proof -
  let ?t = "table_of h"
  let ?F = "block_free m ?t"
  have b: "s + unat n \<le> unat (ht_total ?t)" using fit by (simp add: first_fit_def room_def)
  have tr: "unat n \<le> trail ?F (s + unat n)"
    using fit room_iff_trail [OF rep b] by (simp add: first_fit_def)
  have "trail ?F (s + unat n) = unat n"
  proof (rule ccontr)
    assume "trail ?F (s + unat n) \<noteq> unat n"
    then have longer: "Suc (unat n) \<le> trail ?F (s + unat n)" using tr by simp
    then obtain s0 where s: "s = Suc s0"
      using trail_le [of ?F "s + unat n"] by (cases s) auto
    then have "unat n \<le> trail ?F (s0 + unat n)"
      using longer by (simp split: if_splits)
    then have "room (unat (ht_total ?t)) A (unat n) s0"
      using room_iff_trail [OF rep, of s0 "unat n"] b s by simp
    then show False using fit s by (simp add: first_fit_def)
  qed
  note exact = this
  have "heap_get_start_block h n m =
      (let bs = start_block_loop m ?t n 0 (int (trail ?F 0)) (trail_start ?F 0)
       in if bs = - 1 then - ENOMEM else bs)"
    by (simp add: heap_get_start_block_def trail_start_def)
  moreover have "start_block_loop m ?t n 0 (int (trail ?F 0)) (trail_start ?F 0) = int s"
    using start_block_loop_spec [OF heap_rep_total [OF rep], of 0 m n, simplified]
  proof (elim disjE exE conjE)
    fix k
    assume k: "k \<le> unat (ht_total ?t)" "trail ?F k = unat n"
      and least: "\<forall>k'<k. trail ?F k' = 0 \<or> trail ?F k' \<noteq> unat n"
      and res: "start_block_loop m ?t n 0 0 (trail_start ?F 0) = int (k - unat n)"
    have "unat n \<le> k" using trail_le [of ?F k] k(2) by simp
    then have "room (unat (ht_total ?t)) A (unat n) (k - unat n)"
      using room_iff_trail [OF rep, of "k - unat n" "unat n"] k by simp
    then have "\<not> k - unat n < s" using fit by (auto simp: first_fit_def)
    moreover have "\<not> s + unat n < k" using least exact assms(2) by auto
    ultimately have "k - unat n = s" using \<open>unat n \<le> k\<close> by simp
    then show ?thesis using res by simp
  next
    assume "\<forall>k\<le>unat (ht_total ?t). trail ?F k = 0 \<or> trail ?F k \<noteq> unat n"
    then show ?thesis using exact b assms(2) by auto
  qed
  ultimately show ?thesis by simp
qed

lemma covered_in_range: "heap_rep t m A \<Longrightarrow> covered A i \<Longrightarrow> i < unat (ht_total t)"
  using heap_rep_alloc by (fastforce simp: covered_def)

lemma room_unused: "heap_rep t m A \<Longrightarrow> room (unat (ht_total t)) A n s \<Longrightarrow> 0 < n \<Longrightarrow> A s = None"
  using heap_rep_alloc [of t m A s] by (force simp: room_def covered_def)

lemma covered_del:
  assumes rep: "heap_rep t m A" and s: "A s = Some n"
  shows "covered (A(s := None)) i \<longleftrightarrow> covered A i \<and> \<not> (s \<le> i \<and> i < s + n)"
proof
  assume "covered (A(s := None)) i"
  then obtain r k where r: "A r = Some k" "r \<noteq> s" "r \<le> i" "i < r + k"
    by (auto simp: covered_def split: if_splits)
  then have "r + k \<le> s \<or> s + n \<le> r"
    using heap_rep_apart [OF rep] s by (metis nat_neq_iff)
  then show "covered A i \<and> \<not> (s \<le> i \<and> i < s + n)" using r by (auto simp: covered_def)
next
  assume c: "covered A i \<and> \<not> (s \<le> i \<and> i < s + n)"
  then obtain r k where r: "A r = Some k" "r \<le> i" "i < r + k"
    by (auto simp: covered_def)
  then have "(A(s := None)) r = Some k" using c s by auto
  then show "covered (A(s := None)) i" using r unfolding covered_def by blast
qed

lemma heap_rep_alloc_upd:
  assumes rep: "heap_rep t m A" and room: "room (unat (ht_total t)) A n s" and n: "0 < n"
    and upd: "\<And>i. i < unat (ht_total t) \<Longrightarrow>
      entry_at m' t i = (if s \<le> i \<and> i < s + n then blk_entry n (i - s) else entry_at m t i)"
  shows "heap_rep t m' (A(s \<mapsto> n))"
proof -
  have none: "A s = None" by (rule room_unused [OF rep room n])
  have outside: "\<not> (s \<le> r + j \<and> r + j < s + n)" if "A r = Some k" "j < k" for r k j
    using room that unfolding room_def covered_def by (meson le_add1 nat_add_left_cancel_less)
  have old: "r + k \<le> s \<or> s + n \<le> r" if r: "A r = Some k" for r k
  proof -
    have "0 < k" using heap_rep_alloc [OF rep r] by simp
    show ?thesis
    proof (rule ccontr)
      assume "\<not> ?thesis"
      then have "s \<le> r \<and> r < s + n \<or> r < s \<and> s - r < k" by linarith
      then show False
        using outside [OF r, of 0] outside [OF r, of "s - r"] n \<open>0 < k\<close> by auto
    qed
  qed
  have "\<forall>j<k. entry_at m' t (r + j) = blk_entry k j" if "A r = Some k" for r k
    using that outside upd heap_rep_alloc [OF rep that] heap_rep_entry [OF rep that] by auto
  moreover have "\<forall>j<n. entry_at m' t (s + j) = blk_entry n j"
    using upd room by (auto simp: room_def)
  moreover have "A r = Some k \<Longrightarrow> s < r \<Longrightarrow> s + n \<le> r" for r k
    using old [of r k] by linarith
  moreover have "A r = Some k \<Longrightarrow> r < s \<Longrightarrow> r + k \<le> s" for r k
    using old [of r k] by linarith
  ultimately show ?thesis
    using heap_rep_total [OF rep] heap_rep_alloc [OF rep] heap_rep_zero [OF rep]
      heap_rep_apart [OF rep] room n none upd
    by (auto simp: heap_rep_def covered_upd room_def)
qed

lemma heap_rep_free_upd:
  assumes rep: "heap_rep t m A" and s: "A s = Some n"
    and upd: "\<And>i. i < unat (ht_total t) \<Longrightarrow>
      entry_at m' t i = (if s \<le> i \<and> i < s + n then 0 else entry_at m t i)"
  shows "heap_rep t m' (A(s := None))"
proof -
  have old: "r + k \<le> s \<or> s + n \<le> r" if "A r = Some k" "r \<noteq> s" for r k
    using heap_rep_apart [OF rep] s that by (metis nat_neq_iff)
  have "\<forall>j<k. entry_at m' t (r + j) = blk_entry k j" if "A r = Some k" "r \<noteq> s" for r k
    using old [OF that] upd heap_rep_alloc [OF rep that(1)] heap_rep_entry [OF rep that(1)] by auto
  then show ?thesis
    using heap_rep_total [OF rep] heap_rep_alloc [OF rep] heap_rep_zero [OF rep]
      heap_rep_apart [OF rep] upd
    by (auto simp: heap_rep_def covered_del [OF rep s])
qed

subsection \<open>The operations on the abstract allocator\<close>

lemma heap_malloc_blocks_fit:
  assumes rep: "heap_rep (table_of h) m A" and n: "0 < unat n"
    and fit: "first_fit (unat (ht_total (table_of h))) A (unat n) s"
  shows "heap_malloc_blocks h n m =
    (saddr h + of_nat s * 4096, heap_mark_blocks_taken h (int s) (int (unat n)) m)"
proof -
  have "unat n < 2147483648"
    using fit heap_rep_total [OF rep] by (auto simp: first_fit_def room_def)
  then show ?thesis
    using heap_get_start_block_fit [OF rep n fit]
    by (simp add: heap_malloc_blocks_def heap_block_to_address_def as_int_nonneg as_u32_def)
qed

lemma mark_taken_rep:
  assumes rep: "heap_rep (table_of h) m A" and n: "0 < n" and room: "room (unat (ht_total (table_of h))) A n s"
  shows "heap_rep (table_of h) (heap_mark_blocks_taken h (int s) (int n) m) (A(s \<mapsto> n))"
proof (rule heap_rep_alloc_upd [OF rep room n])
  fix i assume "i < unat (ht_total (table_of h))"
  then have "unat (entries (table_of h) + of_nat i - entries (table_of h)) = i"
    using heap_rep_total [OF rep] by (simp only: unat_offset)
  moreover have "s + n \<le> 4294967296"
    using room heap_rep_total [OF rep] by (simp add: room_def)
  ultimately show "entry_at (heap_mark_blocks_taken h (int s) (int n) m) (table_of h) i =
      (if s \<le> i \<and> i < s + n then blk_entry n (i - s) else entry_at m (table_of h) i)"
    using n by (simp only: entry_at_def heap_mark_blocks_taken_at Let_def)
qed

lemma mark_taken_frame:
  assumes rep: "heap_rep (table_of h) m A" and n: "0 < n" and room: "room (unat (ht_total (table_of h))) A n s"
    and a: "unat (ht_total (table_of h)) \<le> unat (a - entries (table_of h))"
  shows "heap_mark_blocks_taken h (int s) (int n) m a = m a"
proof -
  have "s + n \<le> 4294967296"
    using room heap_rep_total [OF rep] by (simp add: room_def)
  then show ?thesis
    using n a room by (auto simp: heap_mark_blocks_taken_at Let_def room_def)
qed

lemma heap_address_to_block_of:
  assumes "s < 524288"
  shows "heap_address_to_block h (saddr h + of_nat s * 4096) = int s"
proof -
  have "unat (of_nat s * 4096 :: u32) = s * 4096"
    using assms by (simp add: unat_mult32 unat_of_nat32)
  then have "as_int (of_nat s * 4096) = int s * 4096"
    using assms by (simp add: as_int_nonneg)
  then show ?thesis
    by (simp add: heap_address_to_block_def signed_divide_int_def sgn_if)
qed

lemma heap_free_block:
  assumes rep: "heap_rep (table_of h) m A" and s: "A s = Some n"
    and small: "unat (ht_total (table_of h)) \<le> 524288"
  shows "heap_free h (saddr h + of_nat s * 4096) m a =
    (let k = unat (a - entries (table_of h)) in if s \<le> k \<and> k < s + n then 0 else m a)"
proof -
  have sn: "0 < n" "s + n \<le> unat (ht_total (table_of h))"
    using heap_rep_alloc [OF rep s] by auto
  then have blk: "heap_address_to_block h (saddr h + of_nat s * 4096) = int s"
    using small by (intro heap_address_to_block_of) simp
  have "as_int (ht_total (table_of h)) = int (unat (ht_total (table_of h)))"
    using small by (intro as_int_nonneg) simp
  then have "mark_free_loop m (entries (table_of h)) (int (s + 0)) (as_int (ht_total (table_of h))) a =
    (if s + 0 \<le> unat (a - entries (table_of h)) \<and> unat (a - entries (table_of h)) < s + n
     then 0 else m a)"
    by (intro mark_free_loop_at)
       (use sn small heap_rep_entry [OF rep s, unfolded entry_at_def] in \<open>auto simp del: of_nat_unat\<close>)
  then show ?thesis
    by (simp add: heap_free_def heap_mark_blocks_free_def blk Let_def)
qed

lemma heap_free_rep:
  assumes rep: "heap_rep (table_of h) m A" and s: "A s = Some n"
    and small: "unat (ht_total (table_of h)) \<le> 524288"
  shows "heap_rep (table_of h) (heap_free h (saddr h + of_nat s * 4096) m) (A(s := None))"
proof (rule heap_rep_free_upd [OF rep s])
  fix i assume "i < unat (ht_total (table_of h))"
  then have "unat (entries (table_of h) + of_nat i - entries (table_of h)) = i"
    using small by (simp only: unat_offset)
  then show "entry_at (heap_free h (saddr h + of_nat s * 4096) m) (table_of h) i =
      (if s \<le> i \<and> i < s + n then 0 else entry_at m (table_of h) i)"
    by (simp only: entry_at_def heap_free_block [OF rep s small] Let_def)
qed

subsection \<open>Sizes in bytes and in blocks\<close>

definition blocks_of :: "u32 \<Rightarrow> nat" where
  "blocks_of sz = (unat sz + 4095) div 4096"

lemma unat_heap_align:
  "unat (heap_align_value_to_upper v) =
     (if unat v \<le> 4294963200 then 4096 * ((unat v + 4095) div 4096) else 0)"
proof -
  have b: "unat v < 4294967296" by (rule unat_bound32)
  have m: "unat (v mod 4096) = unat v mod 4096" by (simp add: unat_mod)
  have le: "v mod 4096 \<le> v" by (simp add: word_le_nat_alt m)
  have low: "unat (v - v mod 4096) = unat v - unat v mod 4096"
    by (simp only: unat_sub [OF le] m)
  define q r where "q = unat v div 4096" and "r = unat v mod 4096"
  have v: "unat v = 4096 * q + r" and r: "r < 4096" by (simp_all add: q_def r_def)
  have q: "q < 1048576" using v b by linarith
  have q_r: "unat v - unat v mod 4096 = 4096 * q" using v r_def by linarith
  show ?thesis
  proof (cases "r = 0")
    case True
    then have "v mod 4096 = 0" using m by (simp add: unat_eq_0 r_def)
    moreover have "(unat v + 4095) div 4096 = q"
      by (rule div_nat_eqI) (use v True in simp_all)
    moreover have "unat v \<le> 4294963200" using v True q by linarith
    ultimately show ?thesis using v True by (simp add: heap_align_value_to_upper_def)
  next
    case False
    then have "v mod 4096 \<noteq> 0" using m by (metis r_def unat_0)
    then have "heap_align_value_to_upper v = v - v mod 4096 + 4096"
      by (simp only: heap_align_value_to_upper_def PEACHOS_HEAP_BLOCK_SIZE_def if_False)
    then have "unat (heap_align_value_to_upper v) = (4096 * q + unat (4096 :: u32)) mod 4294967296"
      by (simp only: unat_add32 low q_r)
    then have "unat (heap_align_value_to_upper v) = (4096 * q + 4096) mod 4294967296" by simp
    moreover have "(unat v + 4095) div 4096 = Suc q"
      by (rule div_nat_eqI) (use v r False in simp_all)
    moreover have "unat v \<le> 4294963200 \<longrightarrow> 4096 * q + 4096 < 4294967296"
      using v False q by linarith
    moreover have "\<not> unat v \<le> 4294963200 \<longrightarrow> 1048575 \<le> q"
      using v r by linarith
    then have "\<not> unat v \<le> 4294963200 \<longrightarrow> 4096 * q + 4096 = 4294967296"
      using q by linarith
    ultimately show ?thesis by auto
  qed
qed

lemma unat_total_blocks:
  "unat (heap_align_value_to_upper sz div 4096) = (if unat sz \<le> 4294963200 then blocks_of sz else 0)"
  by (simp add: unat_div unat_heap_align blocks_of_def)

lemma blocks_of_pos: "0 < unat sz \<Longrightarrow> 0 < blocks_of sz"
  by (simp add: blocks_of_def)

lemma blocks_of_bound: "blocks_of sz \<le> 1048576"
  using unat_bound32 [of sz] by (simp add: blocks_of_def)

lemma heap_malloc_fit:
  assumes rep: "heap_rep (table_of h) m A" and sz: "0 < unat sz" "unat sz \<le> 4294963200"
    and fit: "first_fit (unat (ht_total (table_of h))) A (blocks_of sz) s"
  shows "heap_malloc h sz m =
    (saddr h + of_nat s * 4096, heap_mark_blocks_taken h (int s) (int (blocks_of sz)) m)"
proof -
  have n: "unat (heap_align_value_to_upper sz div 4096) = blocks_of sz"
    using sz(2) by (simp add: unat_total_blocks)
  then show ?thesis
    using heap_malloc_blocks_fit [OF rep, of "heap_align_value_to_upper sz div 4096" s] fit
      blocks_of_pos [OF sz(1)]
    by (simp add: heap_malloc_def Let_def)
qed

subsection \<open>When nothing fits\<close>

lemma heap_get_start_block_nofit:
  assumes rep: "heap_rep (table_of h) m A"
    and nofit: "unat n = 0 \<or> (\<forall>s. \<not> room (unat (ht_total (table_of h))) A (unat n) s)"
  shows "heap_get_start_block h n m =
    (let k = trail (block_free m (table_of h)) (unat (ht_total (table_of h)))
     in if k = 0 then - ENOMEM else int (unat (ht_total (table_of h)) - k))"
proof -
  let ?t = "table_of h"
  let ?F = "block_free m ?t"
  have "start_block_loop m ?t n 0 0 (trail_start ?F 0) = trail_start ?F (unat (ht_total ?t))"
    using start_block_loop_spec [OF heap_rep_total [OF rep], of 0 m n, simplified]
  proof (elim disjE exE conjE)
    fix k
    assume k: "k \<le> unat (ht_total ?t)" "trail ?F k = unat n" "0 < unat n"
    have "unat n \<le> k" using trail_le [of ?F k] k(2) by simp
    then have "room (unat (ht_total ?t)) A (unat n) (k - unat n)"
      using room_iff_trail [OF rep, of "k - unat n" "unat n"] k by simp
    then show ?thesis using nofit k(3) by auto
  qed
  then show ?thesis
    by (simp add: heap_get_start_block_def trail_start_def Let_def)
qed

lemma trail_tail_free:
  assumes rep: "heap_rep t m A" and "0 < unat (ht_total t)"
    and last: "\<not> covered A (unat (ht_total t) - 1)"
  defines "k \<equiv> trail (block_free m t) (unat (ht_total t))"
  shows "0 < k" and "k \<le> unat (ht_total t)"
    and "\<forall>i. unat (ht_total t) - k \<le> i \<and> i < unat (ht_total t) \<longrightarrow> \<not> covered A i"
proof -
  obtain N where N: "unat (ht_total t) = Suc N" using assms(2) by (cases "unat (ht_total t)") auto
  have "block_free m t N" using heap_rep_block_free [OF rep, of N] last N by simp
  then show "0 < k" by (simp add: k_def N)
  show "k \<le> unat (ht_total t)" unfolding k_def by (rule trail_le)
  have "\<forall>j. unat (ht_total t) - k \<le> j \<and> j < unat (ht_total t) \<longrightarrow> block_free m t j"
    using trail_ge_iff [of k "block_free m t" "unat (ht_total t)"] by (simp add: k_def)
  then show "\<forall>i. unat (ht_total t) - k \<le> i \<and> i < unat (ht_total t) \<longrightarrow> \<not> covered A i"
    using heap_rep_block_free [OF rep] by auto
qed

lemma trail_tail_taken:
  assumes rep: "heap_rep t m A" and "covered A (unat (ht_total t) - 1)"
  shows "trail (block_free m t) (unat (ht_total t)) = 0"
  using assms(2) heap_rep_block_free [OF rep]
  by (cases "unat (ht_total t)") (auto dest: covered_in_range [OF rep])

subsection \<open>Properties\<close>

text \<open>A four-block heap in zeroed memory, on which the properties are instantiated.\<close>

definition small_table :: heap_table where
  "small_table = \<lparr>entries = 0x7E00, ht_total = 4\<rparr>"

definition small_heap :: heap where
  "small_heap = \<lparr>table_of = small_table, saddr = 0x1000000\<rparr>"

lemma small_heap_simps [simp]:
  "entries small_table = 0x7E00" "ht_total small_table = 4"
  "table_of small_heap = small_table" "saddr small_heap = 0x1000000"
  by (simp_all add: small_table_def small_heap_def)

lemma heap_rep_empty:
  "unat (ht_total t) < 2147483648 \<Longrightarrow> (\<And>i. i < unat (ht_total t) \<Longrightarrow> entry_at m t i = 0)
   \<Longrightarrow> heap_rep t m Map.empty"
  by (simp add: heap_rep_def)

lemma small_heap_rep: "heap_rep small_table (\<lambda>_. 0) Map.empty"
  by (rule heap_rep_empty) (simp_all add: entry_at_def)

lemma small_heap_first_fit: "n \<le> 4 \<Longrightarrow> first_fit 4 Map.empty n 0"
  by (simp add: first_fit_def room_empty)

text \<open>
  the rounding of a request to whole blocks, on every 32-bit value: the least multiple of 4096
  that is at least \<open>v\<close> when there is one in 32 bits, and zero for the requests above
  \<open>0xFFFFF000\<close>, whose rounding wraps around.
\<close>
theorem heap_align_value_to_upper_spec:
  "unat (heap_align_value_to_upper v) =
     (if unat v \<le> 4294963200 then 4096 * ((unat v + 4095) div 4096) else 0)"
  by (rule unat_heap_align)

text \<open>
  C11: \<open>heap_malloc\<close> refines first-fit allocation.  When a run of enough free blocks exists, the
  returned address is that of the first block of the lowest such run, no live allocation started
  there, the new table encodes exactly the old allocations and the new one, and no byte outside the
  table changes.
\<close>
theorem heap_malloc_first_fit:
  assumes "heap_rep (table_of h) m A" and "0 < unat sz" and "unat sz \<le> 4294963200"
    and "first_fit (unat (ht_total (table_of h))) A (blocks_of sz) s"
  shows "fst (heap_malloc h sz m) = saddr h + of_nat s * 4096
    \<and> A s = None
    \<and> heap_rep (table_of h) (snd (heap_malloc h sz m)) (A(s \<mapsto> blocks_of sz))
    \<and> (\<forall>a. unat (ht_total (table_of h)) \<le> unat (a - entries (table_of h)) \<longrightarrow>
          snd (heap_malloc h sz m) a = m a)"
proof -
  have room: "room (unat (ht_total (table_of h))) A (blocks_of sz) s"
    using assms(4) by (simp add: first_fit_def)
  note pos = blocks_of_pos [OF assms(2)]
  show ?thesis
    using heap_malloc_fit [OF assms] room_unused [OF assms(1) room pos]
      mark_taken_rep [OF assms(1) pos room] mark_taken_frame [OF assms(1) pos room]
    by simp
qed

theorem heap_malloc_first_fit_witness:
  "fst (heap_malloc small_heap 5000 (\<lambda>_. 0)) = 0x1000000
   \<and> heap_rep small_table (snd (heap_malloc small_heap 5000 (\<lambda>_. 0))) [0 \<mapsto> 2]"
proof -
  have b: "blocks_of 5000 = 2" by (simp add: blocks_of_def)
  have "fst (heap_malloc small_heap 5000 (\<lambda>_. 0)) = saddr small_heap + of_nat 0 * 4096
    \<and> (Map.empty :: nat \<rightharpoonup> nat) 0 = None
    \<and> heap_rep (table_of small_heap) (snd (heap_malloc small_heap 5000 (\<lambda>_. 0))) [0 \<mapsto> blocks_of 5000]
    \<and> (\<forall>a. unat (ht_total (table_of small_heap)) \<le> unat (a - entries (table_of small_heap)) \<longrightarrow>
          snd (heap_malloc small_heap 5000 (\<lambda>_. 0)) a = 0)"
    by (rule heap_malloc_first_fit) (simp_all add: small_heap_rep small_heap_first_fit b)
  then show ?thesis by (simp add: b)
qed

text \<open>
  C12: \<open>heap_free\<close> of the address of a live allocation releases exactly that allocation: the new
  table encodes the remaining ones, and only the table bytes of the freed blocks change.
\<close>
theorem heap_free_releases:
  assumes "heap_rep (table_of h) m A" and "A s = Some n"
    and "unat (ht_total (table_of h)) \<le> 524288"
  shows "heap_rep (table_of h) (heap_free h (saddr h + of_nat s * 4096) m) (A(s := None))
    \<and> (\<forall>a. \<not> (s \<le> unat (a - entries (table_of h)) \<and> unat (a - entries (table_of h)) < s + n) \<longrightarrow>
          heap_free h (saddr h + of_nat s * 4096) m a = m a)"
  using heap_free_rep [OF assms] heap_free_block [OF assms] by (auto simp: Let_def)

theorem heap_free_releases_witness:
  "\<exists>m. heap_rep small_table m [1 \<mapsto> 2]
     \<and> heap_rep small_table (heap_free small_heap (0x1000000 + of_nat 1 * 4096) m) Map.empty"
proof -
  define m where "m = heap_mark_blocks_taken small_heap (int 1) (int 2) (\<lambda>_. 0)"
  have rep: "heap_rep small_table m [1 \<mapsto> 2]"
    using mark_taken_rep [of small_heap "\<lambda>_. 0" Map.empty 2 1] small_heap_rep
    by (simp add: m_def room_empty)
  then have "heap_rep (table_of small_heap) (heap_free small_heap (saddr small_heap + of_nat 1 * 4096) m)
      ([1 \<mapsto> 2](1 := None))"
    using heap_free_releases [of small_heap m "[1 \<mapsto> 2]" 1 2] by simp
  moreover have "[1 \<mapsto> 2](1 := None) = (Map.empty :: nat \<rightharpoonup> nat)" by auto
  ultimately have "heap_rep small_table (heap_free small_heap (0x1000000 + of_nat 1 * 4096) m) Map.empty"
    by (simp only: small_heap_simps)
  with rep show ?thesis by blast
qed

text \<open>
  allocating and freeing again restores every byte of memory.
\<close>
theorem heap_malloc_free_roundtrip:
  assumes "heap_rep (table_of h) m A" and "0 < unat sz" and "unat sz \<le> 4294963200"
    and "first_fit (unat (ht_total (table_of h))) A (blocks_of sz) s"
    and "unat (ht_total (table_of h)) \<le> 524288"
  shows "heap_free h (fst (heap_malloc h sz m)) (snd (heap_malloc h sz m)) = m"
proof
  fix a
  let ?k = "unat (a - entries (table_of h))"
  have room: "room (unat (ht_total (table_of h))) A (blocks_of sz) s"
    using assms(4) by (simp add: first_fit_def)
  note pos = blocks_of_pos [OF assms(2)]
  have rep: "heap_rep (table_of h) (snd (heap_malloc h sz m)) (A(s \<mapsto> blocks_of sz))"
    using mark_taken_rep [OF assms(1) pos room] by (simp add: heap_malloc_fit [OF assms(1-4)])
  have free: "heap_free h (fst (heap_malloc h sz m)) (snd (heap_malloc h sz m)) a =
      (if s \<le> ?k \<and> ?k < s + blocks_of sz then 0 else snd (heap_malloc h sz m) a)"
    using heap_free_block [OF rep, of s "blocks_of sz" a] assms(5)
    by (simp add: heap_malloc_fit [OF assms(1-4)] Let_def)
  have bound: "s + blocks_of sz \<le> 4294967296"
    using room assms(5) by (simp add: room_def)
  show "heap_free h (fst (heap_malloc h sz m)) (snd (heap_malloc h sz m)) a = m a"
  proof (cases "s \<le> ?k \<and> ?k < s + blocks_of sz")
    case True
    then have "?k < unat (ht_total (table_of h))" and "\<not> covered A ?k"
      using room by (auto simp: room_def)
    then have "entry_at m (table_of h) ?k = 0" by (rule heap_rep_zero [OF assms(1)])
    then show ?thesis using free True by (simp add: entry_at_def)
  next
    case False
    then show ?thesis
      using free heap_mark_blocks_taken_at [OF bound pos]
      by (auto simp: heap_malloc_fit [OF assms(1-4)] Let_def)
  qed
qed

theorem heap_malloc_free_roundtrip_witness:
  "heap_free small_heap (fst (heap_malloc small_heap 9000 (\<lambda>_. 0)))
     (snd (heap_malloc small_heap 9000 (\<lambda>_. 0))) = (\<lambda>_. 0)"
  by (rule heap_malloc_free_roundtrip [of _ _ Map.empty _ 0])
     (simp_all add: small_heap_rep small_heap_first_fit blocks_of_def)

text \<open>
  when no run of free blocks is long enough and the last block is taken, \<open>heap_malloc\<close> returns
  the null pointer and changes nothing.
\<close>
theorem heap_malloc_exhausted:
  assumes "heap_rep (table_of h) m A" and "0 < unat sz" and "unat sz \<le> 4294963200"
    and "\<forall>s. \<not> room (unat (ht_total (table_of h))) A (blocks_of sz) s"
    and "covered A (unat (ht_total (table_of h)) - 1)"
  shows "heap_malloc h sz m = (0, m)"
proof -
  have "heap_get_start_block h (heap_align_value_to_upper sz div 4096) m = - ENOMEM"
    using heap_get_start_block_nofit [OF assms(1), of "heap_align_value_to_upper sz div 4096"]
      assms(3,4) trail_tail_taken [OF assms(1,5)]
    by (simp add: unat_total_blocks Let_def)
  then show ?thesis by (simp add: heap_malloc_def heap_malloc_blocks_def Let_def)
qed

theorem heap_malloc_exhausted_witness:
  "heap_malloc small_heap 4097 (heap_mark_blocks_taken small_heap (int 1) (int 3) (\<lambda>_. 0))
   = (0, heap_mark_blocks_taken small_heap (int 1) (int 3) (\<lambda>_. 0))"
proof (rule heap_malloc_exhausted [of _ _ "[1 \<mapsto> 3]"])
  show "heap_rep (table_of small_heap)
      (heap_mark_blocks_taken small_heap (int 1) (int 3) (\<lambda>_. 0)) [1 \<mapsto> 3]"
    using mark_taken_rep [of small_heap "\<lambda>_. 0" Map.empty 3 1] small_heap_rep
    by (simp add: room_empty)
  have c: "covered [1 \<mapsto> 3] i \<longleftrightarrow> 1 \<le> i \<and> i < 4" for i
    by (auto simp: covered_upd)
  show "\<forall>s. \<not> room (unat (ht_total (table_of small_heap))) [1 \<mapsto> 3] (blocks_of 4097) s"
  proof (intro allI notI)
    fix s assume "room (unat (ht_total (table_of small_heap))) [1 \<mapsto> 3] (blocks_of 4097) s"
    then have "s + 2 \<le> 4" and "\<not> covered [1 \<mapsto> 3] (s + 1)"
      by (simp_all add: room_def blocks_of_def)
    then show False using c [of "s + 1"] by simp
  qed
  show "covered [1 \<mapsto> 3] (unat (ht_total (table_of small_heap)) - 1)" using c [of 3] by simp
qed simp_all

text \<open>
  when no run is long enough but the last block is free, \<open>heap_malloc\<close> does not fail.  The scan
  leaves the start of the short run at the end of the table in \<open>bs\<close>, so the request is placed there:
  the returned region runs past the end of the heap, and the entries of its missing blocks are
  written over the memory that follows the table.
\<close>
theorem heap_malloc_past_end:
  assumes "heap_rep (table_of h) m A" and "0 < unat sz" and "unat sz \<le> 4294963200"
    and "\<forall>s. \<not> room (unat (ht_total (table_of h))) A (blocks_of sz) s"
    and "0 < unat (ht_total (table_of h))"
    and "\<not> covered A (unat (ht_total (table_of h)) - 1)"
  shows "\<exists>s. s < unat (ht_total (table_of h)) \<and> unat (ht_total (table_of h)) < s + blocks_of sz
    \<and> fst (heap_malloc h sz m) = saddr h + of_nat s * 4096
    \<and> (\<forall>a. snd (heap_malloc h sz m) a =
          (let k = unat (a - entries (table_of h))
           in if s \<le> k \<and> k < s + blocks_of sz then blk_entry (blocks_of sz) (k - s) else m a))"
proof -
  let ?N = "unat (ht_total (table_of h))"
  let ?n = "heap_align_value_to_upper sz div 4096"
  define k where "k = trail (block_free m (table_of h)) ?N"
  note tail = trail_tail_free [OF assms(1,5,6), folded k_def]
  have n: "unat ?n = blocks_of sz" using assms(3) by (simp add: unat_total_blocks)
  have N: "?N < 2147483648" by (rule heap_rep_total [OF assms(1)])
  have "\<not> room ?N A (blocks_of sz) (?N - k)" using assms(4) by blast
  then have long: "?N < ?N - k + blocks_of sz"
    using tail by (auto simp: room_def)
  have start: "heap_get_start_block h ?n m = int (?N - k)"
    using heap_get_start_block_nofit [OF assms(1), of ?n] assms(4) n tail(1)
    by (simp add: Let_def k_def)
  have "as_int ?n = int (blocks_of sz)"
    using blocks_of_bound [of sz] n by (subst as_int_nonneg) simp_all
  then have res: "heap_malloc h sz m =
      (saddr h + of_nat (?N - k) * 4096, heap_mark_blocks_taken h (int (?N - k)) (int (blocks_of sz)) m)"
    using start
    by (simp add: heap_malloc_def heap_malloc_blocks_def heap_block_to_address_def as_u32_def Let_def)
  have "?N - k + blocks_of sz \<le> 4294967296" using N blocks_of_bound [of sz] by simp
  then have "\<forall>a. snd (heap_malloc h sz m) a =
      (let j = unat (a - entries (table_of h))
       in if ?N - k \<le> j \<and> j < ?N - k + blocks_of sz
          then blk_entry (blocks_of sz) (j - (?N - k)) else m a)"
    using blocks_of_pos [OF assms(2)] by (simp add: res heap_mark_blocks_taken_at Let_def)
  then show ?thesis
    using res tail(1,2) long by (intro exI [of _ "?N - k"]) simp
qed

theorem heap_malloc_past_end_witness:
  "\<exists>s. s < 4 \<and> 4 < s + 5 \<and> fst (heap_malloc small_heap 20000 (\<lambda>_. 0)) = 0x1000000 + of_nat s * 4096"
proof -
  have b: "blocks_of 20000 = 5" by (simp add: blocks_of_def)
  have "\<exists>s. s < unat (ht_total (table_of small_heap)) \<and> unat (ht_total (table_of small_heap)) < s + blocks_of 20000
    \<and> fst (heap_malloc small_heap 20000 (\<lambda>_. 0)) = saddr small_heap + of_nat s * 4096
    \<and> (\<forall>a. snd (heap_malloc small_heap 20000 (\<lambda>_. 0)) a =
          (let k = unat (a - entries (table_of small_heap))
           in if s \<le> k \<and> k < s + blocks_of 20000 then blk_entry (blocks_of 20000) (k - s) else 0))"
    using heap_malloc_past_end [of small_heap "\<lambda>_. 0" Map.empty 20000] by (simp add: small_heap_rep b room_def)
  then show ?thesis unfolding b by auto
qed

text \<open>
  a request above \<open>0xFFFFF000\<close> bytes rounds to zero blocks.  \<open>heap_malloc\<close> then returns the
  address of the free run at the end of the table, non-null, with nothing marked as taken.
\<close>
theorem heap_malloc_size_wraps:
  assumes "heap_rep (table_of h) m A" and "4294963200 < unat sz"
    and "0 < unat (ht_total (table_of h))"
    and "\<not> covered A (unat (ht_total (table_of h)) - 1)"
  shows "\<exists>s. s < unat (ht_total (table_of h)) \<and> \<not> covered A s
    \<and> heap_malloc h sz m = (saddr h + of_nat s * 4096, m)"
proof -
  let ?N = "unat (ht_total (table_of h))"
  let ?n = "heap_align_value_to_upper sz div 4096"
  define k where "k = trail (block_free m (table_of h)) ?N"
  note tail = trail_tail_free [OF assms(1,3,4), folded k_def]
  have "unat ?n = 0" using assms(2) by (simp add: unat_total_blocks)
  then have n: "?n = 0" by (simp add: unat_eq_0)
  have start: "heap_get_start_block h 0 m = int (?N - k)"
    using heap_get_start_block_nofit [OF assms(1), of 0] tail(1) by (simp add: Let_def k_def)
  have "heap_malloc h sz m = (saddr h + of_nat (?N - k) * 4096, m)"
    using start
    by (simp add: heap_malloc_def n heap_malloc_blocks_def heap_block_to_address_def as_u32_def
        as_int_def heap_mark_blocks_taken_0 Let_def)
  moreover have "?N - k < ?N" using tail(1,2) by simp
  ultimately show ?thesis
    using tail(3) by (intro exI [of _ "?N - k"]) auto
qed

theorem heap_malloc_size_wraps_witness:
  "\<exists>s. s < 4 \<and> heap_malloc small_heap 0xFFFFFFFF (\<lambda>_. 0) = (0x1000000 + of_nat s * 4096, (\<lambda>_. 0))"
  using heap_malloc_size_wraps [of small_heap "\<lambda>_. 0" Map.empty "0xFFFFFFFF"] small_heap_rep by auto

text \<open>
  \<open>heap_create\<close> accepts exactly the aligned pools whose size the table describes; then the table
  represents the empty allocator over the pool.  Otherwise it returns \<open>-EINVARG\<close> and leaves the memory
  alone.
\<close>
theorem heap_create_spec:
  "case heap_create h ptr endp t m of (res, h', m') \<Rightarrow>
     if ptr mod 4096 = 0 \<and> endp mod 4096 = 0 \<and> ht_total t = (endp - ptr) div 4096
     then res = 0 \<and> saddr h' = ptr \<and> table_of h' = t \<and> heap_rep t m' Map.empty
     else res = - EINVARG \<and> m' = m"
proof -
  have "unat ((endp - ptr) div 4096) < 2147483648"
    using unat_bound32 [of "endp - ptr"] by (simp add: unat_div)
  moreover have "entry_at (memset m (entries t) 0 (ht_total t)) t i = 0" if "i < unat (ht_total t)" for i
  proof -
    have "i < 4294967296" using that unat_bound32 [of "ht_total t"] by simp
    then have "unat (entries t + of_nat i - entries t) = i" by (rule unat_offset)
    then show ?thesis using that by (simp only: entry_at_def memset_at) simp
  qed
  ultimately show ?thesis
    by (auto simp: heap_create_def heap_validate_alignment_def heap_validate_table_def Let_def
        intro: heap_rep_empty)
qed

end
