(* ===== verification/KHeap.thy ===== *)
theory KHeap
  imports Heap
begin

text \<open>
  \<^verbatim>\<open>src/src/memory/heap/kheap.c\<close>: the kernel heap, one \<open>heap\<close> of 25600 blocks over the 100 MB
  from \<open>0x1000000\<close>, with its table at \<open>0x7E00\<close>.  \<open>kmem\<close> is the kernel memory every component that
  allocates works on; components extend the record with the objects they keep.

  \<open>kheap_rep\<close> is the invariant clients hold; \<open>kmalloc\<close>/\<open>kfree\<close> and \<open>kzalloc\<close>/\<open>kfree\<close> are shown to
  satisfy the contract \<open>allocator\<close>.
\<close>

subsection \<open>State and operations\<close>

definition PEACHOS_HEAP_SIZE_BYTES :: int where [simp]: "PEACHOS_HEAP_SIZE_BYTES = 104857600"
definition PEACHOS_HEAP_ADDRESS :: u32 where [simp]: "PEACHOS_HEAP_ADDRESS = 0x01000000"
definition PEACHOS_HEAP_TABLE_ADDRESS :: u32 where [simp]: "PEACHOS_HEAP_TABLE_ADDRESS = 0x00007E00"

record kmem =
  ram :: mem
  kernel_heap :: heap

definition kheap_init :: "'a kmem_scheme \<Rightarrow> string \<times> 'a kmem_scheme" where
  \<comment> \<open>the first component is what the code prints\<close>
  "kheap_init k =
     (let total_table_entries = PEACHOS_HEAP_SIZE_BYTES sdiv uint PEACHOS_HEAP_BLOCK_SIZE;
          kernel_heap_table = \<lparr>entries = PEACHOS_HEAP_TABLE_ADDRESS, ht_total = as_u32 total_table_entries\<rparr>;
          endp = PEACHOS_HEAP_ADDRESS + as_u32 PEACHOS_HEAP_SIZE_BYTES;
          (res, h, m) = heap_create (kernel_heap k) PEACHOS_HEAP_ADDRESS endp kernel_heap_table (ram k);
          k' = k\<lparr>kernel_heap := h, ram := m\<rparr>
      in if res < 0 then (''Failed to create heap'' @ [CHR 0x0A], k') else ([], k'))"

definition kmalloc :: "u32 \<Rightarrow> 'a kmem_scheme \<Rightarrow> u32 \<times> 'a kmem_scheme" where
  "kmalloc sz k = (let (ptr, m) = heap_malloc (kernel_heap k) sz (ram k) in (ptr, k\<lparr>ram := m\<rparr>))"

definition kzalloc :: "u32 \<Rightarrow> 'a kmem_scheme \<Rightarrow> u32 \<times> 'a kmem_scheme" where
  "kzalloc sz k =
     (let (ptr, k') = kmalloc sz k
      in if ptr = 0 then (0, k') else (ptr, k'\<lparr>ram := memset (ram k') ptr 0 sz\<rparr>))"

definition kfree :: "u32 \<Rightarrow> 'a kmem_scheme \<Rightarrow> 'a kmem_scheme" where
  "kfree ptr k = k\<lparr>ram := heap_free (kernel_heap k) ptr (ram k)\<rparr>"

subsection \<open>The invariant\<close>

definition kernel_table :: heap_table where
  "kernel_table = \<lparr>entries = 0x7E00, ht_total = 25600\<rparr>"

definition the_heap :: heap where
  "the_heap = \<lparr>table_of = kernel_table, saddr = 0x1000000\<rparr>"

lemma the_heap_simps [simp]:
  "entries kernel_table = 0x7E00" "ht_total kernel_table = 25600"
  "table_of the_heap = kernel_table" "saddr the_heap = 0x1000000"
  by (simp_all add: kernel_table_def the_heap_def)

definition kheap_rep :: "'a kmem_scheme \<Rightarrow> (nat \<rightharpoonup> nat) \<Rightarrow> bool" where
  "kheap_rep k A \<longleftrightarrow> kernel_heap k = the_heap \<and> heap_rep kernel_table (ram k) A"

definition blk_addr :: "nat \<Rightarrow> u32" where
  "blk_addr b = 0x1000000 + of_nat b * 4096"

lemma kheap_repD:
  assumes "kheap_rep k A"
  shows "kernel_heap k = the_heap" "heap_rep kernel_table (ram k) A"
  using assms by (simp_all add: kheap_rep_def)

lemma unat_blk_addr: "b < 25600 \<Longrightarrow> unat (blk_addr b) = 16777216 + b * 4096"
  by (simp add: blk_addr_def unat_simps)

lemma unat_blk_byte:
  "b * 4096 + i < 104857600 \<Longrightarrow> unat (blk_addr b + of_nat i) = 16777216 + b * 4096 + i"
  by (simp add: unat_blk_addr unat_simps)

lemma blk_addr_inj: "b < 25600 \<Longrightarrow> c < 25600 \<Longrightarrow> blk_addr b = blk_addr c \<Longrightarrow> b = c"
  by (drule arg_cong [of _ _ unat]) (simp add: unat_blk_addr)

lemma blk_addr_nonzero: "b < 25600 \<Longrightarrow> blk_addr b \<noteq> 0"
  by (metis unat_blk_addr unat_0 add_is_0 zero_neq_numeral)

text \<open>The table and the pool do not overlap.\<close>

lemma pool_not_table:
  "16777216 \<le> unat a \<Longrightarrow> unat (ht_total kernel_table) \<le> unat (a - entries kernel_table)"
  by (simp add: unat_sub32)

lemma table_cell_low: "i < 25600 \<Longrightarrow> unat (0x7E00 + of_nat i :: u32) = 32256 + i"
  by (simp add: unat_simps)

lemma table_cell_not_low:
  assumes "i < 25600" and "unat (w :: u32) < 32256"
  shows "0x7E00 + of_nat i \<noteq> w"
proof
  assume "0x7E00 + of_nat i = w"
  then show False using table_cell_low [OF assms(1)] assms(2) by simp
qed

lemma heap_rep_pool_write:
  assumes "heap_rep kernel_table m A" and "\<And>a. unat a < 16777216 \<Longrightarrow> m' a = m a"
  shows "heap_rep kernel_table m' A"
proof -
  have eq: "entry_at m' kernel_table i = entry_at m kernel_table i" if "i < 25600" for i
    using that assms(2) [of "0x7E00 + of_nat i"] by (simp add: entry_at_def table_cell_low)
  show ?thesis
    by (rule heap_rep_cong [OF assms(1)]) (simp add: eq)
qed

lemma kheap_rep_ram_write:
  assumes "kheap_rep k A" and "\<And>a. unat a < 16777216 \<Longrightarrow> m' a = ram k a"
  shows "kheap_rep (k\<lparr>ram := m'\<rparr>) A"
  using assms heap_rep_pool_write by (fastforce simp: kheap_rep_def)


lemma table_write_low: "unat (a - 0x7E00 :: u32) < 25600 \<Longrightarrow> unat a < 16777216"
  by (simp add: unat_sub32 split: if_splits)

subsection \<open>The operations on the invariant\<close>

lemma fit_size:
  assumes "first_fit 25600 A (blocks_of sz) b"
  shows "unat sz \<le> 4294963200"
proof -
  have "blocks_of sz \<le> 25600" using assms by (simp add: first_fit_def room_def)
  then have "(unat sz + 4095) div 4096 \<le> 25600" by (simp add: blocks_of_def)
  then show ?thesis by linarith
qed

lemma kmalloc_fit:
  assumes "kheap_rep k A" and "0 < blocks_of sz" and "first_fit 25600 A (blocks_of sz) b"
  shows "kmalloc sz k = (blk_addr b,
    k\<lparr>ram := heap_mark_blocks_taken the_heap (int b) (int (blocks_of sz)) (ram k)\<rparr>)"
proof -
  have "0 < unat sz" using assms(2) by (simp add: blocks_of_def)
  moreover have "first_fit (unat (ht_total (table_of the_heap))) A (blocks_of sz) b"
    using assms(3) by simp
  ultimately show ?thesis
    using heap_malloc_fit [of the_heap "ram k" A sz b] kheap_repD [OF assms(1)] fit_size [OF assms(3)]
    by (simp add: kmalloc_def blk_addr_def)
qed

lemma kmalloc_rep:
  assumes "kheap_rep k A" and "0 < blocks_of sz" and "first_fit 25600 A (blocks_of sz) b"
  shows "kheap_rep (snd (kmalloc sz k)) (A(b \<mapsto> blocks_of sz))"
proof -
  have "room (unat (ht_total (table_of the_heap))) A (blocks_of sz) b"
    using assms(3) by (simp add: first_fit_def)
  then have "heap_rep (table_of the_heap)
      (heap_mark_blocks_taken the_heap (int b) (int (blocks_of sz)) (ram k)) (A(b \<mapsto> blocks_of sz))"
    using assms(2) kheap_repD [OF assms(1)] by (intro mark_taken_rep) simp_all
  then show ?thesis
    using kmalloc_fit [OF assms] kheap_repD [OF assms(1)] by (simp add: kheap_rep_def)
qed

lemma kmalloc_frame:
  assumes "kheap_rep k A" and "0 < blocks_of sz" and "first_fit 25600 A (blocks_of sz) b"
    and "25600 \<le> unat (a - 0x7E00)"
  shows "ram (snd (kmalloc sz k)) a = ram k a"
  using kmalloc_fit [OF assms(1-3)] kheap_repD [OF assms(1)] assms
    mark_taken_frame [of the_heap "ram k" A "blocks_of sz" b a]
  by (simp add: first_fit_def)

lemma kfree_rep:
  assumes "kheap_rep k A" and "A b = Some n"
  shows "kheap_rep (kfree (blk_addr b) k) (A(b := None))"
  using heap_free_rep [of the_heap "ram k" A b n] kheap_repD [OF assms(1)] assms(2)
  by (simp add: kheap_rep_def kfree_def blk_addr_def)

lemma kfree_frame:
  assumes "kheap_rep k A" and "A b = Some n" and "25600 \<le> unat (a - 0x7E00)"
  shows "ram (kfree (blk_addr b) k) a = ram k a"
  using heap_free_block [of the_heap "ram k" A b n a] kheap_repD [OF assms(1)] assms(2,3)
    heap_rep_alloc [of kernel_table "ram k" A b n]
  by (simp add: kfree_def blk_addr_def Let_def)

lemma kheap_rep_pos: "kheap_rep k A \<Longrightarrow> A b = Some n \<Longrightarrow> 0 < n \<and> b + n \<le> 25600"
  using heap_rep_alloc [of kernel_table "ram k" A b n] by (simp add: kheap_rep_def)

interpretation km: allocator kheap_rep 25600 blocks_of blk_addr kmalloc kfree
proof unfold_locales
  fix k :: "'a kmem_scheme" and A :: "nat \<rightharpoonup> nat" and z :: u32 and b :: nat
  assume "kheap_rep k A" and "0 < blocks_of z" and "first_fit 25600 A (blocks_of z) b"
  then show "fst (kmalloc z k) = blk_addr b"
    and "kheap_rep (snd (kmalloc z k)) (A(b \<mapsto> blocks_of z))"
    by (rule kmalloc_fit [THEN arg_cong [of _ _ fst], simplified], rule kmalloc_rep)
qed (auto intro: kfree_rep blk_addr_inj dest: kheap_rep_pos)

lemma kzalloc_fit:
  assumes "kheap_rep k A" and "0 < blocks_of sz" and "first_fit 25600 A (blocks_of sz) b"
  shows "kzalloc sz k = (blk_addr b,
    snd (kmalloc sz k)\<lparr>ram := memset (ram (snd (kmalloc sz k))) (blk_addr b) 0 sz\<rparr>)"
proof -
  have "b < 25600" using assms(2,3) by (simp add: first_fit_def room_def)
  then show ?thesis
    using kmalloc_fit [OF assms] by (simp add: kzalloc_def blk_addr_nonzero)
qed

lemma fit_bytes:
  assumes "first_fit 25600 A (blocks_of sz) b"
  shows "b * 4096 + unat sz \<le> 104857600"
proof -
  have "b + blocks_of sz \<le> 25600" using assms by (simp add: first_fit_def room_def)
  moreover have "unat sz \<le> blocks_of sz * 4096" unfolding blocks_of_def by linarith
  ultimately show ?thesis by linarith
qed

text \<open>The bytes \<open>memset\<close> clears are the first \<open>sz\<close> of the region, all inside the pool.\<close>

lemma pool_offset:
  assumes "b * 4096 + n \<le> 104857600" and "unat (a - blk_addr b) < n"
  shows "unat a = 16777216 + b * 4096 + unat (a - blk_addr b)"
proof -
  have "b * 4096 + unat (a - blk_addr b) < 104857600" using assms by linarith
  then show ?thesis using unat_blk_byte [of b "unat (a - blk_addr b)"] offset_of_unat [of a "blk_addr b"]
    by simp
qed

lemma kzalloc_rep:
  assumes "kheap_rep k A" and "0 < blocks_of sz" and "first_fit 25600 A (blocks_of sz) b"
  shows "kheap_rep (snd (kzalloc sz k)) (A(b \<mapsto> blocks_of sz))"
proof -
  have "memset (ram (snd (kmalloc sz k))) (blk_addr b) 0 sz a = ram (snd (kmalloc sz k)) a"
    if "unat a < 16777216" for a
    using that pool_offset [OF fit_bytes [OF assms(3)], of a] by (auto simp: memset_at)
  then show ?thesis
    using kzalloc_fit [OF assms] kmalloc_rep [OF assms] by (simp add: kheap_rep_ram_write)
qed

interpretation kz: allocator kheap_rep 25600 blocks_of blk_addr kzalloc kfree
proof unfold_locales
  fix k :: "'a kmem_scheme" and A :: "nat \<rightharpoonup> nat" and z :: u32 and b :: nat
  assume "kheap_rep k A" and "0 < blocks_of z" and "first_fit 25600 A (blocks_of z) b"
  then show "fst (kzalloc z k) = blk_addr b"
    and "kheap_rep (snd (kzalloc z k)) (A(b \<mapsto> blocks_of z))"
    by (rule kzalloc_fit [THEN arg_cong [of _ _ fst], simplified], rule kzalloc_rep)
qed (auto intro: kfree_rep blk_addr_inj dest: kheap_rep_pos)

text \<open>What \<open>kzalloc\<close> writes: zeros in the region, the table, and nothing else.\<close>

lemma kzalloc_at:
  assumes "kheap_rep k A" and "0 < blocks_of sz" and "first_fit 25600 A (blocks_of sz) b"
    and "25600 \<le> unat (a - 0x7E00)"
  shows "ram (snd (kzalloc sz k)) a = (if unat (a - blk_addr b) < unat sz then 0 else ram k a)"
  using kzalloc_fit [OF assms(1-3)] kmalloc_frame [OF assms] by (simp add: memset_at)

lemma kzalloc_heap [simp]: "kernel_heap (snd (kzalloc sz k)) = kernel_heap k"
  by (simp add: kzalloc_def kmalloc_def Let_def case_prod_unfold)

lemma kfree_heap [simp]: "kernel_heap (kfree p k) = kernel_heap k"
  by (simp add: kfree_def)

lemma kzalloc_more: "kmem.more (snd (kzalloc sz k)) = kmem.more k"
  by (simp add: kzalloc_def kmalloc_def Let_def case_prod_unfold)

lemma kfree_more: "kmem.more (kfree p k) = kmem.more k"
  by (simp add: kfree_def)


lemma one_page_blocks: "0 < unat sz \<Longrightarrow> unat sz \<le> 4096 \<Longrightarrow> blocks_of sz = 1"
  unfolding blocks_of_def by (rule div_nat_eqI) simp_all

lemma not_covered_free:
  assumes "kheap_rep k A" and "b < 25600" and "\<not> covered A b"
  shows "ram k (0x7E00 + of_nat b) = 0"
  using heap_rep_zero [of kernel_table "ram k" A b] kheap_repD [OF assms(1)] assms(2,3)
  by (simp add: entry_at_def)

text \<open>A live block holds its bytes apart from those of every other live block.\<close>

lemma live_apart:
  assumes "A b = None" and "room 25600 A n b" and "kheap_rep k A"
    and "A c = Some n'" and "i < n' * 4096" and "j < n * 4096"
  shows "blk_addr c + of_nat i \<noteq> blk_addr b + of_nat j"
proof
  assume eq: "blk_addr c + of_nat i = blk_addr b + of_nat j"
  have c: "c + n' \<le> 25600" using kheap_rep_pos [OF assms(3,4)] by simp
  have b: "b + n \<le> 25600" using assms(2) by (simp add: room_def)
  have ci: "c * 4096 + i < 104857600" using c assms(5) by linarith
  have bj: "b * 4096 + j < 104857600" using b assms(6) by linarith
  have same: "c * 4096 + i = b * 4096 + j"
    using arg_cong [OF eq, of unat] unat_blk_byte [OF ci] unat_blk_byte [OF bj] by simp
  then have "(c * 4096 + i) div 4096 = (b * 4096 + j) div 4096" by simp
  then have blk: "c + i div 4096 = b + j div 4096" by simp
  have "i div 4096 < n'" "j div 4096 < n"
    using assms(5,6) by (simp_all add: less_mult_imp_div_less)
  then have "covered A (b + j div 4096)"
    unfolding covered_def using assms(4) blk by (intro exI [of _ c] exI [of _ n']) simp
  moreover have "b \<le> b + j div 4096" "b + j div 4096 < b + n"
    using \<open>j div 4096 < n\<close> by simp_all
  ultimately show False using assms(2) unfolding room_def by blast
qed

lemma live_not_table: "c * 4096 + i < 104857600 \<Longrightarrow> 25600 \<le> unat (blk_addr c + of_nat i - 0x7E00)"
  using pool_not_table [of "blk_addr c + of_nat i"] by (simp add: unat_blk_byte)

text \<open>A request of at most a page, as clients use it.\<close>

lemma other_block_byte:
  assumes "c \<noteq> t" "c < 25600" "t < 25600" "x < 4096"
  shows "4096 \<le> unat (blk_addr c + of_nat x - blk_addr t)"
proof -
  have c: "unat (blk_addr c + of_nat x) = 16777216 + c * 4096 + x"
    by (rule unat_blk_byte) (use assms in linarith)
  have t: "unat (blk_addr t) = 16777216 + t * 4096" by (rule unat_blk_addr [OF assms(3)])
  consider "c + 1 \<le> t" | "t + 1 \<le> c" using assms(1) by linarith
  then show ?thesis
  proof cases
    case 1
    then have "\<not> unat (blk_addr t) \<le> unat (blk_addr c + of_nat x)" using c t assms(4) by linarith
    then show ?thesis unfolding unat_sub32 using c t assms by simp
  next
    case 2
    then have "unat (blk_addr t) + 4096 \<le> unat (blk_addr c + of_nat x)" using c t by linarith
    then show ?thesis unfolding unat_sub32 by simp
  qed
qed

lemma page_alloc:
  assumes "kheap_rep k A" and "0 < unat sz" and "unat sz \<le> 4096" and "0 < free_blocks 25600 A"
  obtains b k1 where "kzalloc sz k = (blk_addr b, k1)" "b < 25600" "A b = None" "\<not> covered A b"
    "kheap_rep k1 (A(b \<mapsto> 1))" "free_blocks 25600 A = Suc (free_blocks 25600 (A(b \<mapsto> 1)))"
    "\<And>a. 25600 \<le> unat (a - 0x7E00) \<Longrightarrow> 4096 \<le> unat (a - blk_addr b) \<Longrightarrow> ram k1 a = ram k a"
    "\<And>i. i < unat sz \<Longrightarrow> ram k1 (blk_addr b + of_nat i) = 0"
    "kmem.more k1 = kmem.more k"
proof -
  have one: "blocks_of sz = 1" using assms(2,3) by (rule one_page_blocks)
  obtain b where b: "first_fit 25600 A 1 b" "fst (kzalloc sz k) = blk_addr b" "A b = None" "room 25600 A 1 b"
    "kheap_rep (snd (kzalloc sz k)) (A(b \<mapsto> 1))"
    "free_blocks 25600 A = Suc (free_blocks 25600 (A(b \<mapsto> 1)))"
    using kz.alloc_one_available [OF assms(1) one assms(4)] by blast
  have b_lt: "b < 25600" using b(4) by (simp add: room_one)
  have fit: "first_fit 25600 A (blocks_of sz) b" using b(1) one by simp
  have pos: "0 < blocks_of sz" using one by simp
  have at: "25600 \<le> unat (a - 0x7E00) \<Longrightarrow>
      ram (snd (kzalloc sz k)) a = (if unat (a - blk_addr b) < unat sz then 0 else ram k a)" for a
    by (rule kzalloc_at [OF assms(1) pos fit])
  show thesis
  proof (rule that [of b "snd (kzalloc sz k)"])
    show "kzalloc sz k = (blk_addr b, snd (kzalloc sz k))" using b(2) by (metis prod.collapse)
    show "ram (snd (kzalloc sz k)) a = ram k a"
      if "25600 \<le> unat (a - 0x7E00)" "4096 \<le> unat (a - blk_addr b)" for a
      using at [OF that(1)] that(2) assms(3) by simp
    show "ram (snd (kzalloc sz k)) (blk_addr b + of_nat i) = 0" if "i < unat sz" for i
    proof -
      have "25600 \<le> unat (blk_addr b + of_nat i - 0x7E00)"
        by (rule live_not_table) (use that assms(3) b_lt in linarith)
      moreover have "unat (of_nat i :: u32) = i"
        by (rule unat_of_nat32) (use that assms(3) in linarith)
      ultimately show ?thesis using at [of "blk_addr b + of_nat i"] that by simp
    qed
    show "b < 25600" by (rule b_lt)
    show "\<not> covered A b" using b(4) by (simp add: room_one)
  qed (use b kzalloc_more in auto)
qed

text \<open>
  A byte is \<open>stable\<close> for a client when no later allocation can change it: it is neither in the table
  nor in a free block.
\<close>

definition stable :: "(nat \<rightharpoonup> nat) \<Rightarrow> u32 \<Rightarrow> bool" where
  "stable A a \<longleftrightarrow> 25600 \<le> unat (a - 0x7E00)
     \<and> (\<forall>b < 25600. \<not> covered A b \<longrightarrow> 4096 \<le> unat (a - blk_addr b))"

lemma stable_upd: "A b = None \<Longrightarrow> stable A a \<Longrightarrow> stable (A(b \<mapsto> n)) a"
  by (auto simp: stable_def covered_upd)

lemma stable_low: "unat a < 0x7E00 \<Longrightarrow> stable A a"
  by (auto simp: stable_def unat_sub32 unat_blk_addr)

lemma covered_self: "kheap_rep k A \<Longrightarrow> A b = Some n \<Longrightarrow> covered A b"
  using kheap_rep_pos [of k A b n] unfolding covered_def by (intro exI [of _ b] exI [of _ n]) simp

lemma stable_block:
  assumes "kheap_rep k A" and "A b = Some 1" and "x < 4096"
  shows "stable A (blk_addr b + of_nat x)"
proof -
  have b: "b < 25600" using kheap_rep_pos [OF assms(1,2)] by simp
  have "25600 \<le> unat (blk_addr b + of_nat x - 0x7E00)"
    by (rule live_not_table) (use b assms(3) in linarith)
  moreover have "4096 \<le> unat (blk_addr b + of_nat x - blk_addr c)" if "c < 25600" "\<not> covered A c" for c
    using that covered_self [OF assms(1,2)] by (intro other_block_byte [OF _ b _ assms(3)]) auto
  ultimately show ?thesis by (simp add: stable_def)
qed

subsection \<open>Properties\<close>

definition boot_kmem :: kmem where
  \<comment> \<open>a memory of zeros before the heap exists\<close>
  "boot_kmem = \<lparr>ram = (\<lambda>_. 0), kernel_heap = \<lparr>table_of = \<lparr>entries = 0, ht_total = 0\<rparr>, saddr = 0\<rparr>\<rparr>"

text \<open>
  \<open>kheap_init\<close> prints nothing and, whatever memory it starts from, leaves the empty allocator
  over the 25600 blocks from \<open>0x1000000\<close>; no byte outside the table changes.
\<close>
theorem kheap_init_spec:
  "fst (kheap_init k) = [] \<and> kheap_rep (snd (kheap_init k)) Map.empty
   \<and> (\<forall>a. 25600 \<le> unat (a - 0x7E00) \<longrightarrow> ram (snd (kheap_init k)) a = ram k a)"
proof -
  have zero: "entry_at (memset (ram k) 0x7E00 0 25600) kernel_table i = 0" if "i < 25600" for i
    using that unat_offset [of i "0x7E00"] by (simp add: entry_at_def memset_at)
  have "heap_rep kernel_table (memset (ram k) 0x7E00 0 25600) Map.empty"
    by (rule heap_rep_empty) (simp_all add: zero)
  then show ?thesis
    by (simp add: kheap_init_def heap_create_def heap_validate_alignment_def heap_validate_table_def
        as_u32_def Let_def kheap_rep_def the_heap_def kernel_table_def memset_other)
qed

theorem kheap_init_spec_witness:
  "kheap_rep (snd (kheap_init boot_kmem)) Map.empty \<and> ram (snd (kheap_init boot_kmem)) 0 = 0"
proof -
  have "25600 \<le> unat (0 - 0x7E00 :: u32)" by (simp add: unat_sub32)
  then have "ram (snd (kheap_init boot_kmem)) 0 = ram boot_kmem 0"
    using kheap_init_spec [of boot_kmem] by blast
  moreover have "ram boot_kmem 0 = 0" by (simp add: boot_kmem_def)
  ultimately show ?thesis using kheap_init_spec [of boot_kmem] by simp
qed

lemma boot_rep: "\<exists>k :: kmem. kheap_rep k Map.empty \<and> (\<forall>a. ram k a = 0)"
proof (intro exI conjI)
  let ?k = "\<lparr>ram = (\<lambda>_. 0), kernel_heap = the_heap\<rparr> :: kmem"
  have "heap_rep kernel_table (\<lambda>_. 0) Map.empty"
    by (rule heap_rep_empty) (simp_all add: entry_at_def)
  then show "kheap_rep ?k Map.empty" by (simp add: kheap_rep_def)
  show "\<forall>a. ram ?k a = 0" by simp
qed

text \<open>
  one-page requests are exact.  With no block free \<open>kmalloc\<close> returns the null pointer and changes
  nothing; otherwise it returns the page-aligned, non-null address of a block that was free, the block
  becomes live, and the number of free blocks falls by one.
\<close>
theorem kmalloc_one_page:
  assumes "kheap_rep k A" and "0 < unat sz" and "unat sz \<le> 4096"
  shows "if free_blocks 25600 A = 0 then kmalloc sz k = (0, k)
    else \<exists>b. b < 25600 \<and> A b = None \<and> \<not> covered A b \<and> fst (kmalloc sz k) = blk_addr b
      \<and> fst (kmalloc sz k) \<noteq> 0 \<and> kheap_rep (snd (kmalloc sz k)) (A(b \<mapsto> 1))
      \<and> free_blocks 25600 A = Suc (free_blocks 25600 (A(b \<mapsto> 1)))"
proof (cases "free_blocks 25600 A = 0")
  case True
  then have "{i. i < 25600 \<and> \<not> covered A i} = {}"
    by (simp add: free_blocks_def)
  then have full: "\<And>i. i < 25600 \<Longrightarrow> covered A i" by blast
  have none: "\<not> room 25600 A (unat (heap_align_value_to_upper sz div 4096)) s" for s
  proof
    assume "room 25600 A (unat (heap_align_value_to_upper sz div 4096)) s"
    then have "room 25600 A 1 s"
      using assms by (simp add: unat_total_blocks one_page_blocks)
    then show False using full [of s] by (auto simp: room_one)
  qed
  have last: "covered A (unat (ht_total kernel_table) - 1)" using full [of 25599] by simp
  have "trail (block_free (ram k) kernel_table) (unat (ht_total kernel_table)) = 0"
    by (rule trail_tail_taken [OF kheap_repD(2) [OF assms(1)] last])
  then have "heap_malloc the_heap sz (ram k) = (0, ram k)"
    using heap_get_start_block_nofit [of the_heap "ram k" A "heap_align_value_to_upper sz div 4096"]
      kheap_repD(2) [OF assms(1)] none
    by (simp add: heap_malloc_def heap_malloc_blocks_def Let_def)
  then show ?thesis
    using True kheap_repD(1) [OF assms(1)] by (simp add: kmalloc_def)
next
  case False
  have one: "blocks_of sz = 1" using assms(2,3) by (rule one_page_blocks)
  obtain b where b: "fst (kmalloc sz k) = blk_addr b" "A b = None" "room 25600 A 1 b"
    "kheap_rep (snd (kmalloc sz k)) (A(b \<mapsto> 1))"
    "free_blocks 25600 A = Suc (free_blocks 25600 (A(b \<mapsto> 1)))"
    using km.alloc_one_available [OF assms(1) one] False by blast
  then show ?thesis using False blk_addr_nonzero [of b] by (auto simp: room_one)
qed

theorem kmalloc_one_page_witness:
  "\<exists>k :: kmem. \<exists>b < 25600. fst (kmalloc 12 k) = blk_addr b \<and> kheap_rep (snd (kmalloc 12 k)) [b \<mapsto> 1]"
proof -
  obtain k :: kmem where k: "kheap_rep k Map.empty" using boot_rep by blast
  show ?thesis using kmalloc_one_page [OF k, of 12] by (auto simp: free_blocks_empty)
qed

text \<open>
  \<open>kzalloc\<close> returns zeroed memory and keeps every live allocation: the first \<open>sz\<close> bytes at the
  returned address are zero, and every byte of every other live block has the value it had.
\<close>
theorem kzalloc_zeroed:
  assumes "kheap_rep k A" and "0 < blocks_of sz" and "first_fit 25600 A (blocks_of sz) b"
  shows "fst (kzalloc sz k) = blk_addr b \<and> kheap_rep (snd (kzalloc sz k)) (A(b \<mapsto> blocks_of sz))
    \<and> (\<forall>i < unat sz. ram (snd (kzalloc sz k)) (blk_addr b + of_nat i) = 0)
    \<and> (\<forall>c n i. A c = Some n \<and> i < n * 4096 \<longrightarrow>
          ram (snd (kzalloc sz k)) (blk_addr c + of_nat i) = ram k (blk_addr c + of_nat i))"
proof (intro conjI allI impI)
  have none: "A b = None" and room: "room 25600 A (blocks_of sz) b"
    using kz.fit_unused [OF assms] assms(3) by (simp_all add: first_fit_def)
  show "fst (kzalloc sz k) = blk_addr b" "kheap_rep (snd (kzalloc sz k)) (A(b \<mapsto> blocks_of sz))"
    using kz.alloc_addr [OF assms] kzalloc_rep [OF assms] by simp_all
  show "ram (snd (kzalloc sz k)) (blk_addr b + of_nat i) = 0" if i: "i < unat sz" for i
  proof -
    have "i < 4294967296" using i unat_bound32 [of sz] by linarith
    then show ?thesis
      using i kzalloc_at [OF assms live_not_table, of b i] fit_bytes [OF assms(3)]
      by (simp add: unat_of_nat32)
  qed
  show "ram (snd (kzalloc sz k)) (blk_addr c + of_nat i) = ram k (blk_addr c + of_nat i)"
    if c: "A c = Some n \<and> i < n * 4096" for c n i
  proof -
    let ?a = "blk_addr c + of_nat i :: u32"
    have "c + n \<le> 25600" using kheap_rep_pos [OF assms(1)] c by simp
    then have "25600 \<le> unat (?a - 0x7E00)" using c by (intro live_not_table) linarith
    moreover have "\<not> unat (?a - blk_addr b) < unat sz"
    proof
      assume less: "unat (?a - blk_addr b) < unat sz"
      have "unat sz \<le> blocks_of sz * 4096" unfolding blocks_of_def by linarith
      then have "unat (?a - blk_addr b) < blocks_of sz * 4096" using less by linarith
      then show False
        using live_apart [OF none room assms(1), of c n i] c offset_of_unat [of ?a "blk_addr b"] by blast
    qed
    ultimately show ?thesis using kzalloc_at [OF assms] by simp
  qed
qed

theorem kzalloc_zeroed_witness:
  "\<exists>k :: kmem. fst (kzalloc 5000 k) = 0x1000000 \<and> ram (snd (kzalloc 5000 k)) (0x1000000 + of_nat 4999) = 0"
proof -
  obtain k :: kmem where k: "kheap_rep k Map.empty" using boot_rep by blast
  have fit: "first_fit 25600 Map.empty (blocks_of 5000) 0"
    by (simp add: first_fit_def room_empty blocks_of_def)
  have a: "blk_addr 0 = 0x1000000" by (simp add: blk_addr_def)
  show ?thesis
    using kzalloc_zeroed [OF k _ fit] unfolding a
    by (intro exI [of _ k] conjI) (auto simp: blocks_of_def dest: spec [of _ 4999])
qed

lemma kfree_0:
  assumes "kheap_rep k A" and "ram k 0x6E00 AND HEAP_BLOCK_HAS_NEXT = 0"
  shows "kfree 0 k = k\<lparr>ram := (ram k)(0x6E00 := 0)\<rparr>"
proof -
  have blk: "heap_address_to_block the_heap 0 = - 4096"
    by (simp add: heap_address_to_block_def as_int_def signed_divide_int_def)
  have cell: "(0x7E00 :: u32) + as_u32 (- 4096) = 0x6E00" by (simp add: as_u32_def)
  have tot: "as_int (25600 :: u32) = 25600" by (simp add: as_int_nonneg)
  show ?thesis
    using assms kheap_repD(1) [OF assms(1)]
    by (simp add: kfree_def heap_free_def blk heap_mark_blocks_free_def tot, subst mark_free_loop.simps)
       (simp add: cell Let_def)
qed

text \<open>
  freeing the null pointer is not ignored.  The block number comes out as \<open>-4096\<close>, and
  \<open>kfree(0)\<close> clears the byte at \<open>0x6E00\<close>, below the table.
\<close>
theorem kfree_null:
  assumes "kheap_rep k A" and "ram k 0x6E00 AND HEAP_BLOCK_HAS_NEXT = 0"
  shows "kfree 0 k = k\<lparr>ram := (ram k)(0x6E00 := 0)\<rparr>"
  by (rule kfree_0 [OF assms])

theorem kfree_null_witness:
  "\<exists>k :: kmem. ram (kfree 0 k) 0x6E00 = 0"
proof -
  obtain k :: kmem where k: "kheap_rep k Map.empty" "\<forall>a. ram k a = 0" using boot_rep by blast
  show ?thesis using kfree_null [OF k(1)] k(2) by (intro exI [of _ k]) simp
qed

text \<open>
  freeing the address of a block that no allocation covers, a second free of a released block
  included, has no effect.
\<close>
theorem kfree_idle:
  assumes "kheap_rep k A" and "b < 25600" and "\<not> covered A b"
  shows "kfree (blk_addr b) k = k"
proof -
  have blk: "heap_address_to_block the_heap (blk_addr b) = int b"
    using heap_address_to_block_of [of b the_heap] assms(2) by (simp add: blk_addr_def)
  have tot: "as_int (25600 :: u32) = 25600" by (simp add: as_int_nonneg)
  have "ram k (0x7E00 + of_nat b) = 0" by (rule not_covered_free [OF assms])
  then have "mark_free_loop (ram k) 0x7E00 (int b) 25600 = ram k"
    using assms(2) by (subst mark_free_loop.simps) (auto simp: Let_def fun_upd_idem)
  then show ?thesis
    using kheap_repD(1) [OF assms(1)]
    by (simp add: kfree_def heap_free_def blk heap_mark_blocks_free_def tot)
qed

theorem kfree_idle_witness:
  "\<exists>k :: kmem. kfree (blk_addr 7) k = k \<and> kheap_rep k Map.empty"
proof -
  obtain k :: kmem where k: "kheap_rep k Map.empty" using boot_rep by blast
  show ?thesis using kfree_idle [OF k, of 7] k by (intro exI [of _ k]) simp
qed

end
