(* ===== verification/Paging.thy ===== *)
theory Paging
  imports KHeap
begin

text \<open>
  \<^verbatim>\<open>src/src/memory/paging/paging.c\<close>: two-level page tables in kernel memory.  Directories, tables
  and the one-word \<open>paging_4gb_chunk\<close> are 32-bit cells of the memory.  The second half shows that on
  a well-formed directory (\<open>dir_wf\<close>) the tables are a total map from pages to entries: \<open>paging_get\<close>
  reads it, \<open>paging_set\<close> updates it at one page, and \<open>paging_map_range\<close>/\<open>paging_map_to\<close> update the
  pages of a range; \<open>paging_new_4gb\<close> builds the identity and \<open>paging_free_4gb\<close> returns its blocks.
\<close>

subsection \<open>Operations\<close>

definition PAGING_CACHE_DISABLED :: u8 where [simp]: "PAGING_CACHE_DISABLED = 0b00010000"
definition PAGING_WRITE_THROUGH :: u8 where [simp]: "PAGING_WRITE_THROUGH = 0b00001000"
definition PAGING_ACCESS_FROM_ALL :: u8 where [simp]: "PAGING_ACCESS_FROM_ALL = 0b00000100"
definition PAGING_IS_WRITEABLE :: u8 where [simp]: "PAGING_IS_WRITEABLE = 0b00000010"
definition PAGING_IS_PRESENT :: u8 where [simp]: "PAGING_IS_PRESENT = 0b00000001"
definition PAGING_TOTAL_ENTRIES_PER_TABLE :: nat where [simp]: "PAGING_TOTAL_ENTRIES_PER_TABLE = 1024"
definition PAGING_PAGE_SIZE :: u32 where [simp]: "PAGING_PAGE_SIZE = 4096"

record paging_state = kmem +
  current_directory :: u32
  cr3 :: u32

definition fill_table :: "u32 \<Rightarrow> u32 \<Rightarrow> u8 \<Rightarrow> mem \<Rightarrow> mem" where
  \<comment> \<open>the inner loop of \<open>paging_new_4gb\<close>\<close>
  "fill_table entry offset flags m =
     fold (\<lambda>b m. store32 m (entry + of_nat (4 * b)) ((offset + of_nat b * PAGING_PAGE_SIZE) OR ucast flags))
       [0..<PAGING_TOTAL_ENTRIES_PER_TABLE] m"

definition new_table_step :: "u8 \<Rightarrow> u32 \<Rightarrow> nat \<Rightarrow> u32 \<times> 'a kmem_scheme \<Rightarrow> u32 \<times> 'a kmem_scheme" where
  \<comment> \<open>the body of the outer loop; the C \<open>int offset\<close> is taken to wrap around\<close>
  "new_table_step flags directory i = (\<lambda>(offset, k).
     let (entry, k1) = kzalloc (4 * of_nat PAGING_TOTAL_ENTRIES_PER_TABLE) k;
         k2 = k1\<lparr>ram := fill_table entry offset flags (ram k1)\<rparr>;
         k3 = k2\<lparr>ram := store32 (ram k2) (directory + of_nat (4 * i))
                (entry OR ucast flags OR ucast PAGING_IS_WRITEABLE)\<rparr>
     in (offset + of_nat PAGING_TOTAL_ENTRIES_PER_TABLE * PAGING_PAGE_SIZE, k3))"

definition paging_new_4gb :: "u8 \<Rightarrow> 'a kmem_scheme \<Rightarrow> u32 \<times> 'a kmem_scheme" where
  "paging_new_4gb flags k =
     (let (directory, k1) = kzalloc (4 * of_nat PAGING_TOTAL_ENTRIES_PER_TABLE) k;
          (offset, k2) = fold (new_table_step flags directory) [0..<PAGING_TOTAL_ENTRIES_PER_TABLE] (0, k1);
          (chunk_4gb, k3) = kzalloc 4 k2
      in (chunk_4gb, k3\<lparr>ram := store32 (ram k3) chunk_4gb directory\<rparr>))"

definition directory_entry :: "mem \<Rightarrow> u32 \<Rightarrow> u32" where
  "directory_entry m chunk = load32 m chunk"

definition paging_4gb_chunk_get_directory :: "mem \<Rightarrow> u32 \<Rightarrow> u32" where
  "paging_4gb_chunk_get_directory m chunk = directory_entry m chunk"

definition paging_load_directory :: "u32 \<Rightarrow> 'a paging_state_scheme \<Rightarrow> 'a paging_state_scheme" where
  \<comment> \<open>\<open>paging.asm\<close>: \<open>mov cr3, eax\<close>\<close>
  "paging_load_directory directory k = k\<lparr>cr3 := directory\<rparr>"

definition paging_switch :: "u32 \<Rightarrow> 'a paging_state_scheme \<Rightarrow> 'a paging_state_scheme" where
  "paging_switch directory k =
     (let k' = paging_load_directory (directory_entry (ram k) directory) k
      in k'\<lparr>current_directory := directory_entry (ram k') directory\<rparr>)"

definition free_table_step :: "u32 \<Rightarrow> nat \<Rightarrow> 'a kmem_scheme \<Rightarrow> 'a kmem_scheme" where
  "free_table_step chunk i k =
     (let entry = load32 (ram k) (directory_entry (ram k) chunk + of_nat (4 * i));
          table = entry AND 0xfffff000
      in kfree table k)"

definition paging_free_4gb :: "u32 \<Rightarrow> 'a kmem_scheme \<Rightarrow> 'a kmem_scheme" where
  "paging_free_4gb chunk k =
     (let k1 = fold (free_table_step chunk) [0..<1024] k;
          k2 = kfree (directory_entry (ram k1) chunk) k1
      in kfree chunk k2)"

definition paging_is_aligned :: "u32 \<Rightarrow> bool" where
  "paging_is_aligned addr \<longleftrightarrow> addr mod PAGING_PAGE_SIZE = 0"

definition paging_get_indexes :: "u32 \<Rightarrow> u32 \<Rightarrow> u32 \<Rightarrow> int \<times> u32 \<times> u32" where
  \<comment> \<open>the last two arguments and results are the values behind the out-pointers\<close>
  "paging_get_indexes virtual_address di ti =
     (if \<not> paging_is_aligned virtual_address then (- EINVARG, di, ti)
      else (0, virtual_address div (of_nat PAGING_TOTAL_ENTRIES_PER_TABLE * PAGING_PAGE_SIZE),
            virtual_address mod (of_nat PAGING_TOTAL_ENTRIES_PER_TABLE * PAGING_PAGE_SIZE) div PAGING_PAGE_SIZE))"

definition paging_align_address :: "u32 \<Rightarrow> u32" where
  "paging_align_address ptr =
     (if ptr mod PAGING_PAGE_SIZE \<noteq> 0 then ptr + PAGING_PAGE_SIZE - ptr mod PAGING_PAGE_SIZE else ptr)"

definition paging_align_to_lower_page :: "u32 \<Rightarrow> u32" where
  "paging_align_to_lower_page addr = addr - addr mod PAGING_PAGE_SIZE"

definition paging_set :: "u32 \<Rightarrow> u32 \<Rightarrow> u32 \<Rightarrow> mem \<Rightarrow> int \<times> mem" where
  "paging_set directory virt val m =
     (if \<not> paging_is_aligned virt then (- EINVARG, m)
      else let (res, directory_index, table_index) = paging_get_indexes virt 0 0
           in if res < 0 then (res, m)
              else let entry = load32 m (directory + 4 * directory_index);
                       table = entry AND 0xfffff000
                   in (0, store32 m (table + 4 * table_index) val))"

definition paging_map :: "u32 \<Rightarrow> u32 \<Rightarrow> u32 \<Rightarrow> int \<Rightarrow> mem \<Rightarrow> int \<times> mem" where
  "paging_map directory virt phys flags m =
     (if virt mod PAGING_PAGE_SIZE \<noteq> 0 \<or> phys mod PAGING_PAGE_SIZE \<noteq> 0 then (- EINVARG, m)
      else paging_set (directory_entry m directory) virt (phys OR as_u32 flags) m)"

function map_range_loop :: "u32 \<Rightarrow> u32 \<Rightarrow> u32 \<Rightarrow> int \<Rightarrow> int \<Rightarrow> int \<Rightarrow> int \<Rightarrow> mem \<Rightarrow> int \<times> mem" where
  "map_range_loop directory virt phys i count flags res m =
     (if i < count then
        let (res', m') = paging_map directory virt phys flags m
        in if res' < 0 then (res', m')
           else map_range_loop directory (virt + PAGING_PAGE_SIZE) (phys + PAGING_PAGE_SIZE)
                  (i + 1) count flags res' m'
      else (res, m))"
  by pat_completeness auto
termination
  by (relation "measure (\<lambda>(d, v, p, i, count, f, r, m). nat (count - i))") auto

declare map_range_loop.simps [simp del]

definition paging_map_range :: "u32 \<Rightarrow> u32 \<Rightarrow> u32 \<Rightarrow> int \<Rightarrow> int \<Rightarrow> mem \<Rightarrow> int \<times> mem" where
  "paging_map_range directory virt phys count flags m = map_range_loop directory virt phys 0 count flags 0 m"

definition paging_map_to :: "u32 \<Rightarrow> u32 \<Rightarrow> u32 \<Rightarrow> u32 \<Rightarrow> int \<Rightarrow> mem \<Rightarrow> int \<times> mem" where
  "paging_map_to directory virt phys phys_end flags m =
     (if virt mod PAGING_PAGE_SIZE \<noteq> 0 then (- EINVARG, m)
      else if phys mod PAGING_PAGE_SIZE \<noteq> 0 then (- EINVARG, m)
      else if phys_end mod PAGING_PAGE_SIZE \<noteq> 0 then (- EINVARG, m)
      else if phys_end < phys then (- EINVARG, m)
      else let total_bytes = phys_end - phys;
               total_pages = as_int (total_bytes div PAGING_PAGE_SIZE)
           in paging_map_range directory virt phys total_pages flags m)"

definition paging_get :: "u32 \<Rightarrow> u32 \<Rightarrow> mem \<Rightarrow> u32" where
  "paging_get directory virt m =
     (let (_, directory_index, table_index) = paging_get_indexes virt 0 0;
          entry = load32 m (directory + 4 * directory_index);
          table = entry AND 0xfffff000
      in load32 m (table + 4 * table_index))"

definition paging_get_physical_address :: "u32 \<Rightarrow> u32 \<Rightarrow> mem \<Rightarrow> u32" where
  "paging_get_physical_address directory virt m =
     (let virt_addr_new = paging_align_to_lower_page virt;
          difference = virt - virt_addr_new
      in (paging_get directory virt_addr_new m AND 0xfffff000) + difference)"

subsection \<open>Cells and pages\<close>

lemma unat_sub_both:
  assumes "unat ((a :: u32) - b) \<noteq> 0"
  shows "unat (a - b) + unat (b - a) = 4294967296"
proof -
  have "(unat (a - b) + unat (b - a)) mod 4294967296 = unat ((a - b) + (b - a))"
    by (simp only: unat_add32)
  then have "(unat (a - b) + unat (b - a)) mod 4294967296 = 0" by simp
  then obtain q where q: "unat (a - b) + unat (b - a) = 4294967296 * q" by auto
  have "unat (a - b) < 4294967296" "unat (b - a) < 4294967296" by (rule unat_bound32)+
  then have "q < 2" "0 < q" using q assms by linarith+
  then show ?thesis using q by simp
qed

lemma load32_store32_apart:
  assumes "cells_apart a b"
  shows "load32 (store32 m b v) a = load32 m a"
proof -
  have far: "4 \<le> unat (a + of_nat j - b)" if "j < 4" for j
  proof -
    have "unat (a - b) + unat (b - a) = 4294967296"
      by (rule unat_sub_both) (use assms in \<open>simp add: cells_apart_def\<close>)
    then have "unat (a - b) + j < 4294967296" using assms that by (simp add: cells_apart_def)
    moreover have "a + of_nat j - b = (a - b) + of_nat j" by simp
    ultimately have "unat (a + of_nat j - b) = unat (a - b) + j"
      using that by (simp only: unat_add32 unat_of_nat32) simp
    then show ?thesis using assms by (simp add: cells_apart_def)
  qed
  show ?thesis
    using far [of 0] far [of 1] far [of 2] far [of 3]
    by (intro load32_cong) (simp_all add: store32_other)
qed

text \<open>\<open>cell b i\<close> is the \<open>i\<close>-th 32-bit cell of the \<open>b\<close>-th block of the pool.\<close>

definition cell :: "nat \<Rightarrow> nat \<Rightarrow> u32" where
  "cell b i = blk_addr b + of_nat (4 * i)"

lemma unat_cell: "b < 25600 \<Longrightarrow> i < 1024 \<Longrightarrow> unat (cell b i) = 16777216 + 4096 * b + 4 * i"
  unfolding cell_def by (subst unat_blk_byte) linarith+

lemma cells_apart_unat:
  assumes "unat a + 4 \<le> unat b" and "unat b + 4 \<le> 4294967296"
  shows "cells_apart a b" and "cells_apart b a"
proof -
  have "4 \<le> unat (a - b)"
    using assms by (simp add: unat_sub32)
  moreover have "4 \<le> unat (b - a)"
    using assms by (simp add: unat_sub32)
  ultimately show "cells_apart a b" "cells_apart b a" by (simp_all add: cells_apart_def)
qed

lemma cell_apart:
  assumes "b < 25600" "c < 25600" "i < 1024" "j < 1024" "(b, i) \<noteq> (c, j)"
  shows "cells_apart (cell b i) (cell c j)"
proof -
  note u = unat_cell [OF assms(1,3)] unat_cell [OF assms(2,4)]
  have "1024 * b + i \<noteq> 1024 * c + j"
  proof
    assume e: "1024 * b + i = 1024 * c + j"
    then have "b = c" using assms(3,4) by linarith
    then show False using e assms(5) by simp
  qed
  then consider "1024 * b + i + 1 \<le> 1024 * c + j" | "1024 * c + j + 1 \<le> 1024 * b + i"
    by linarith
  then show ?thesis
  proof cases
    case 1
    then show ?thesis by (intro cells_apart_unat) (use u assms in linarith)+
  next
    case 2
    then show ?thesis by (intro cells_apart_unat) (use u assms in linarith)+
  qed
qed

lemma load_cell_store_cell:
  assumes "b < 25600" "c < 25600" "i < 1024" "j < 1024"
  shows "load32 (store32 m (cell c j) v) (cell b i) = (if (b, i) = (c, j) then v else load32 m (cell b i))"
  using assms load32_store32_apart [OF cell_apart, of b c i j m v] by auto


subsection \<open>Alignment and indices\<close>

definition page_of :: "u32 \<Rightarrow> nat" where
  "page_of v = unat v div 4096"

lemma page_of_bound: "page_of v < 1048576"
  using unat_bound32 [of v] unfolding page_of_def by linarith

lemma page_indices: "page_of v div 1024 < 1024" "page_of v mod 1024 < 1024"
  using page_of_bound [of v] by linarith simp

lemma aligned_page: "v mod 4096 = 0 \<Longrightarrow> unat v = 4096 * page_of v"
  unfolding unat_aligned_dvd page_of_def by simp

lemma page_of_inj: "v mod 4096 = 0 \<Longrightarrow> w mod 4096 = 0 \<Longrightarrow> page_of v = page_of w \<longleftrightarrow> v = w"
  by (auto simp: word32_eq_iff_unat aligned_page)

lemma page_split:
  "(page_of v div 1024, page_of v mod 1024) = (page_of w div 1024, page_of w mod 1024)
   \<longleftrightarrow> page_of v = page_of w"
  by (metis Pair_inject div_mult_mod_eq)

lemma paging_is_aligned_iff: "paging_is_aligned v \<longleftrightarrow> v mod 4096 = 0"
  by (simp only: paging_is_aligned_def PAGING_PAGE_SIZE_def)

lemma indexes_unat:
  fixes v :: u32
  shows "unat (v div 4194304) = page_of v div 1024"
    and "unat (v mod 4194304 div 4096) = page_of v mod 1024"
proof -
  have "unat (v div 4194304) = unat v div 4194304" by (simp only: unat_div unat_numeral) simp
  then show "unat (v div 4194304) = page_of v div 1024"
    by (simp add: page_of_def flip: div_mult2_eq)
  have "unat (v mod 4194304 div 4096) = unat v mod (4096 * 1024) div 4096"
    by (simp only: unat_div unat_mod unat_numeral) simp
  also have "\<dots> = (4096 * (unat v div 4096 mod 1024) + unat v mod 4096) div 4096"
    by (simp only: mod_mult2_eq)
  also have "\<dots> = unat v div 4096 mod 1024" by (rule div_nat_eqI) simp_all
  finally show "unat (v mod 4194304 div 4096) = page_of v mod 1024" by (simp only: page_of_def)
qed

lemma paging_get_indexes_aligned:
  assumes "v mod 4096 = 0"
  shows "paging_get_indexes v di ti = (0, of_nat (page_of v div 1024), of_nat (page_of v mod 1024))"
proof -
  have "(of_nat PAGING_TOTAL_ENTRIES_PER_TABLE * PAGING_PAGE_SIZE :: u32) = 4194304" by simp
  moreover have "v div 4194304 = of_nat (page_of v div 1024)"
    "v mod 4194304 div 4096 = of_nat (page_of v mod 1024)"
    by (simp_all only: flip: indexes_unat) (simp_all)
  ultimately show ?thesis
    using assms by (simp only: paging_get_indexes_def paging_is_aligned_iff PAGING_PAGE_SIZE_def if_False simp_thms)
qed

text \<open>The flag bits stay below the frame address.\<close>

lemma frame_mask:
  assumes "w mod 4096 = (0 :: u32)" and "f < 4096"
  shows "(w OR f) AND 0xfffff000 = w"
proof (rule bit_word_eqI)
  fix n assume "n < LENGTH(32)"
  then have n: "n < 32" by simp
  have "take_bit 12 w = 0" using assms(1) by (simp add: take_bit_eq_mod)
  then have low: "\<not> bit w i" if "i < 12" for i
    using that by (metis bit_0_eq bit_take_bit_iff bot_apply bot_bool_def)
  have "take_bit 12 f = f"
    using assms(2) by (simp add: take_bit_eq_mod word_mod_less_divisor mod_word_less)
  then have high: "\<not> bit f i" if "12 \<le> i" for i
    using that by (metis bit_take_bit_iff not_le)
  have "(0xfffff000 :: u32) = push_bit 12 (mask 20)" by (simp add: mask_eq_exp_minus_1)
  then have mask: "bit (0xfffff000 :: u32) n \<longleftrightarrow> 12 \<le> n"
    using n by (simp only: bit_push_bit_iff bit_mask_iff) auto
  show "bit ((w OR f) AND 0xfffff000) n = bit w n"
    using low high mask by (auto simp: bit_and_iff bit_or_iff not_le)
qed

lemma frame_mask_flags8:
  assumes "w mod 4096 = (0 :: u32)"
  shows "(w OR ucast (f :: u8)) AND 0xfffff000 = w" and "(w OR ucast f OR 2) AND 0xfffff000 = w"
proof -
  have "unat f < 256" using unsigned_less [of f] by simp
  then have "(ucast f :: u32) < 4096" by (simp add: word_less_nat_alt unsigned_ucast_eq take_bit_nat_eq_self)
  then show "(w OR ucast f) AND 0xfffff000 = w" by (rule frame_mask [OF assms])
  have "(ucast f OR 2 :: u32) = ucast (f OR 2)" by (simp add: unsigned_or_eq)
  moreover have "unat (f OR 2) < 256" using unsigned_less [of "f OR 2"] by simp
  then have "(ucast (f OR 2) :: u32) < 4096" by (simp add: word_less_nat_alt unsigned_ucast_eq take_bit_nat_eq_self)
  ultimately have "(ucast f OR 2 :: u32) < 4096" by simp
  then show "(w OR ucast f OR 2) AND 0xfffff000 = w" by (rule frame_mask [OF assms])
qed

lemma blk_addr_aligned: "b < 25600 \<Longrightarrow> blk_addr b mod 4096 = 0"
  by (simp add: unat_aligned_dvd unat_blk_addr dvd_add)


subsection \<open>A directory as a map from pages to entries\<close>

text \<open>
  \<open>dir_wf m d T\<close>: block \<open>d\<close> of the pool holds a directory whose entries point to the tables in the
  blocks \<open>T\<close>, all distinct.  The entry of page \<open>p\<close> is then the cell \<open>entry_cell T p\<close>.
\<close>

definition dir_wf :: "mem \<Rightarrow> nat \<Rightarrow> nat list \<Rightarrow> bool" where
  "dir_wf m d T \<longleftrightarrow> distinct (d # T) \<and> d < 25600 \<and> (\<forall>t\<in>set T. t < 25600) \<and> length T = 1024
     \<and> (\<forall>j<1024. load32 m (cell d j) AND 0xfffff000 = blk_addr (T ! j))"

definition entry_cell :: "nat list \<Rightarrow> nat \<Rightarrow> u32" where
  "entry_cell T p = cell (T ! (p div 1024)) (p mod 1024)"

lemma dir_wfD:
  assumes "dir_wf m d T"
  shows "d < 25600" "length T = 1024" "d \<notin> set T" "distinct T"
    and "j < 1024 \<Longrightarrow> T ! j < 25600"
    and "j < 1024 \<Longrightarrow> load32 m (cell d j) AND 0xfffff000 = blk_addr (T ! j)"
  using assms by (auto simp: dir_wf_def)

lemma paging_get_eq:
  assumes "dir_wf m d T" and "v mod 4096 = 0"
  shows "paging_get (blk_addr d) v m = load32 m (entry_cell T (page_of v))"
proof -
  have "load32 m (cell d (page_of v div 1024)) AND 0xfffff000 = blk_addr (T ! (page_of v div 1024))"
    using dir_wfD(6) [OF assms(1) page_indices(1)] .
  then show ?thesis
    by (simp add: paging_get_def paging_get_indexes_aligned [OF assms(2)] entry_cell_def cell_def)
qed

lemma paging_set_eq:
  assumes "dir_wf m d T" and "v mod 4096 = 0"
  shows "paging_set (blk_addr d) v val m = (0, store32 m (entry_cell T (page_of v)) val)"
proof -
  have "load32 m (cell d (page_of v div 1024)) AND 0xfffff000 = blk_addr (T ! (page_of v div 1024))"
    using dir_wfD(6) [OF assms(1) page_indices(1)] .
  moreover have "paging_is_aligned v" using assms(2) by (simp only: paging_is_aligned_iff)
  ultimately show ?thesis
    by (simp add: paging_set_def paging_get_indexes_aligned [OF assms(2)] entry_cell_def cell_def)
qed

lemma dir_wf_set:
  assumes "dir_wf m d T"
  shows "dir_wf (store32 m (entry_cell T (page_of v)) val) d T"
proof -
  have "load32 (store32 m (entry_cell T (page_of v)) val) (cell d j) = load32 m (cell d j)"
    if "j < 1024" for j
  proof -
    have "T ! (page_of v div 1024) \<noteq> d"
      using dir_wfD(2,3) [OF assms] page_indices(1) [of v] nth_mem by metis
    then show ?thesis
      unfolding entry_cell_def
      using dir_wfD(1) [OF assms] dir_wfD(5) [OF assms page_indices(1)] page_indices(2) that
      by (subst load_cell_store_cell) auto
  qed
  then show ?thesis using assms by (simp add: dir_wf_def)
qed

lemma entry_cell_load_store:
  assumes "dir_wf m d T"
  shows "load32 (store32 m' (entry_cell T (page_of v)) val) (entry_cell T (page_of w)) =
    (if page_of w = page_of v then val else load32 m' (entry_cell T (page_of w)))"
proof -
  have "T ! (page_of w div 1024) = T ! (page_of v div 1024) \<longleftrightarrow> page_of w div 1024 = page_of v div 1024"
    using dir_wfD(2,4) [OF assms] page_indices(1) by (simp add: nth_eq_iff_index_eq)
  then have "(T ! (page_of w div 1024), page_of w mod 1024) = (T ! (page_of v div 1024), page_of v mod 1024)
      \<longleftrightarrow> page_of w = page_of v"
    using page_split [of w v] by auto
  then show ?thesis
    unfolding entry_cell_def
    using load_cell_store_cell [of "T ! (page_of w div 1024)" "T ! (page_of v div 1024)"
        "page_of w mod 1024" "page_of v mod 1024" m' val]
      dir_wfD(5) [OF assms page_indices(1)] page_indices(2) by simp
qed

lemma paging_get_set:
  assumes "dir_wf m d T" and "v mod 4096 = 0" and "w mod 4096 = 0"
  shows "paging_get (blk_addr d) w (snd (paging_set (blk_addr d) v val m)) =
    (if w = v then val else paging_get (blk_addr d) w m)"
  using assms(2,3)
  by (simp add: paging_set_eq [OF assms(1)] paging_get_eq [OF dir_wf_set [OF assms(1)]]
      paging_get_eq [OF assms(1)] entry_cell_load_store [OF assms(1)] page_of_inj)


subsection \<open>Ranges\<close>

definition chunk_wf :: "mem \<Rightarrow> nat \<Rightarrow> nat \<Rightarrow> nat list \<Rightarrow> bool" where
  "chunk_wf m c d T \<longleftrightarrow> dir_wf m d T \<and> c < 25600 \<and> c \<noteq> d \<and> c \<notin> set T \<and> load32 m (blk_addr c) = blk_addr d"

lemma chunk_wfD:
  assumes "chunk_wf m c d T"
  shows "dir_wf m d T" "c < 25600" "c \<noteq> d" "c \<notin> set T" "directory_entry m (blk_addr c) = blk_addr d"
  using assms by (simp_all add: chunk_wf_def directory_entry_def)

lemma cell_0: "cell b 0 = blk_addr b"
  by (simp add: cell_def)

lemma chunk_wf_set:
  assumes "chunk_wf m c d T"
  shows "chunk_wf (store32 m (entry_cell T (page_of v)) val) c d T"
proof -
  have "T ! (page_of v div 1024) \<noteq> c"
    using chunk_wfD(4) [OF assms] dir_wfD(2) [OF chunk_wfD(1) [OF assms]] page_indices(1) [of v] nth_mem
    by metis
  then have "load32 (store32 m (entry_cell T (page_of v)) val) (cell c 0) = load32 m (cell c 0)"
    unfolding entry_cell_def
    using chunk_wfD(2) [OF assms] dir_wfD(5) [OF chunk_wfD(1) [OF assms] page_indices(1)]
      page_indices(2) [of v]
    by (subst load_cell_store_cell) auto
  then show ?thesis using assms dir_wf_set by (simp add: chunk_wf_def cell_0)
qed

lemma aligned_add: "v mod 4096 = 0 \<Longrightarrow> (v + 4096 :: u32) mod 4096 = 0"
  unfolding unat_aligned_dvd by (simp add: unat_add32 dvd_mod)

lemma aligned_sub:
  assumes "(v :: u32) mod 4096 = 0" and "w mod 4096 = 0"
  shows "(w - v) mod 4096 = 0"
proof -
  have "4096 dvd unat w + 4294967296"
    using assms(2) unfolding unat_aligned_dvd by (intro dvd_add) simp_all
  then show ?thesis
    using assms unfolding unat_aligned_dvd unat_sub32 by (auto intro: dvd_diff_nat)
qed

lemma next_page_distance:
  assumes "(v :: u32) mod 4096 = 0" and "w mod 4096 = 0"
  shows "unat (w - (v + 4096)) = (if w = v then 4294963200 else unat (w - v) - 4096)"
    and "w \<noteq> v \<Longrightarrow> 4096 \<le> unat (w - v)"
proof -
  show ge: "4096 \<le> unat (w - v)" if "w \<noteq> v"
  proof -
    have "unat (w - v) \<noteq> 0" using that by (simp add: unat_sub_eq_0)
    moreover have "4096 dvd unat (w - v)" using aligned_sub [OF assms] by (simp only: unat_aligned_dvd)
    ultimately show ?thesis by (simp add: dvd_imp_le)
  qed
  have "w - (v + 4096) = (w - v) - 4096" by simp
  then show "unat (w - (v + 4096)) = (if w = v then 4294963200 else unat (w - v) - 4096)"
    using ge by (cases "w = v") (simp_all only: unat_sub32 unat_numeral if_True if_False diff_self, simp_all)
qed

lemma paging_map_eq:
  assumes "chunk_wf m c d T" and "virt mod 4096 = 0" and "phys mod 4096 = 0"
  shows "paging_map (blk_addr c) virt phys flags m
    = (0, store32 m (entry_cell T (page_of virt)) (phys OR as_u32 flags))"
  using assms(2,3) paging_set_eq [OF chunk_wfD(1) [OF assms(1)] assms(2)]
  by (simp add: paging_map_def chunk_wfD(5) [OF assms(1)])

lemma map_range_loop_spec:
  assumes "chunk_wf m c d T" and "virt mod 4096 = 0" and "phys mod 4096 = 0"
    and "n = nat (count - i)" and "n \<le> 1048576"
  shows "case map_range_loop (blk_addr c) virt phys i count flags 0 m of (res, m') \<Rightarrow>
    res = 0 \<and> chunk_wf m' c d T \<and>
    (\<forall>w. w mod 4096 = 0 \<longrightarrow> paging_get (blk_addr d) w m' =
       (if unat (w - virt) < 4096 * n then (phys + (w - virt)) OR as_u32 flags
        else paging_get (blk_addr d) w m))"
  using assms
proof (induction n arbitrary: m virt phys i)
  case 0
  then show ?case by (subst map_range_loop.simps) simp
next
  case (Suc n)
  define m1 where "m1 = store32 m (entry_cell T (page_of virt)) (phys OR as_u32 flags)"
  have m1: "m1 = snd (paging_set (blk_addr d) virt (phys OR as_u32 flags) m)"
    using paging_set_eq [OF chunk_wfD(1) [OF Suc.prems(1)] Suc.prems(2)] by (simp add: m1_def)
  have lt: "i < count" using Suc.prems(4) by simp
  have step: "map_range_loop (blk_addr c) virt phys i count flags 0 m =
      map_range_loop (blk_addr c) (virt + 4096) (phys + 4096) (i + 1) count flags 0 m1"
    using lt paging_map_eq [OF Suc.prems(1-3), of flags]
    by (subst map_range_loop.simps) (simp add: m1_def)
  have wf1: "chunk_wf m1 c d T" unfolding m1_def by (rule chunk_wf_set [OF Suc.prems(1)])
  obtain res m' where run: "map_range_loop (blk_addr c) (virt + 4096) (phys + 4096) (i + 1) count flags 0 m1 = (res, m')"
    by fastforce
  have IH: "res = 0" "chunk_wf m' c d T" "\<And>w. w mod 4096 = 0 \<Longrightarrow> paging_get (blk_addr d) w m' =
       (if unat (w - (virt + 4096)) < 4096 * n then (phys + 4096 + (w - (virt + 4096))) OR as_u32 flags
        else paging_get (blk_addr d) w m1)"
    using Suc.IH [OF wf1 aligned_add [OF Suc.prems(2)] aligned_add [OF Suc.prems(3)], of "i + 1"]
      Suc.prems(4,5) run by auto
  have "paging_get (blk_addr d) w m' =
       (if unat (w - virt) < 4096 * Suc n then (phys + (w - virt)) OR as_u32 flags
        else paging_get (blk_addr d) w m)" if w: "w mod 4096 = 0" for w
  proof -
    have get1: "paging_get (blk_addr d) w m1 = (if w = virt then phys OR as_u32 flags else paging_get (blk_addr d) w m)"
      unfolding m1 by (rule paging_get_set [OF chunk_wfD(1) [OF Suc.prems(1)] Suc.prems(2) w])
    show ?thesis
    proof (cases "w = virt")
      case True
      then have "\<not> unat (w - (virt + 4096)) < 4096 * n"
        using next_page_distance(1) [OF Suc.prems(2) w] Suc.prems(5) by simp
      then show ?thesis using IH(3) [OF w] get1 True by simp
    next
      case False
      then have "unat (w - (virt + 4096)) < 4096 * n \<longleftrightarrow> unat (w - virt) < 4096 * Suc n"
        using next_page_distance [OF Suc.prems(2) w] by auto
      then show ?thesis using IH(3) [OF w] get1 False by simp
    qed
  qed
  then show ?case unfolding step run using IH(1,2) by simp
qed


subsection \<open>Building an address space\<close>

lemma store_cell_frame:
  assumes "4096 \<le> unat (a - blk_addr t)" and "i < 1024"
  shows "store32 m (cell t i) v a = m a"
proof (rule store32_other)
  have "a - cell t i = (a - blk_addr t) - of_nat (4 * i)" by (simp add: cell_def)
  moreover have "unat (of_nat (4 * i) :: u32) = 4 * i"
    by (rule unat_of_nat32) (use assms(2) in simp)
  ultimately have "unat (a - cell t i) = unat (a - blk_addr t) - 4 * i"
    using assms by (simp only: unat_sub32) simp
  then show "4 \<le> unat (a - cell t i)" using assms by linarith
qed

lemma map_range_loop_frame:
  assumes "chunk_wf m c d T" and "virt mod 4096 = 0" and "phys mod 4096 = 0"
    and "n = nat (count - i)" and "\<forall>t \<in> set T. 4096 \<le> unat (a - blk_addr t)"
  shows "snd (map_range_loop (blk_addr c) virt phys i count flags 0 m) a = m a"
  using assms(1-4)
proof (induction n arbitrary: m virt phys i)
  case 0
  then show ?case by (subst map_range_loop.simps) simp
next
  case (Suc n)
  let ?m = "store32 m (entry_cell T (page_of virt)) (phys OR as_u32 flags)"
  have lt: "i < count" using Suc.prems(4) by simp
  have "T ! (page_of virt div 1024) \<in> set T"
    using dir_wfD(2) [OF chunk_wfD(1) [OF Suc.prems(1)]] page_indices(1) [of virt] by simp
  then have "?m a = m a"
    unfolding entry_cell_def using assms(5) by (intro store_cell_frame [OF _ page_indices(2)]) blast
  moreover have "map_range_loop (blk_addr c) virt phys i count flags 0 m =
      map_range_loop (blk_addr c) (virt + 4096) (phys + 4096) (i + 1) count flags 0 ?m"
    using lt paging_map_eq [OF Suc.prems(1-3), of flags]
    by (subst map_range_loop.simps) simp
  moreover have "snd (map_range_loop (blk_addr c) (virt + 4096) (phys + 4096) (i + 1) count flags 0 ?m) a = ?m a"
    by (rule Suc.IH [OF chunk_wf_set [OF Suc.prems(1)] aligned_add [OF Suc.prems(2)] aligned_add [OF Suc.prems(3)]])
      (use Suc.prems(4) in simp)
  ultimately show ?case by simp
qed

lemma paging_map_to_loop:
  assumes "virt mod 4096 = 0" "phys mod 4096 = 0" "phys_end mod 4096 = 0" "phys \<le> phys_end"
  shows "paging_map_to dir virt phys phys_end flags m =
      map_range_loop dir virt phys 0 (int (page_of (phys_end - phys))) flags 0 m"
    and "unat (phys_end - phys) = 4096 * page_of (phys_end - phys)"
proof -
  let ?n = "page_of (phys_end - phys)"
  have al: "(phys_end - phys) mod 4096 = 0" using assms by (intro aligned_sub) simp_all
  show "unat (phys_end - phys) = 4096 * ?n" by (rule aligned_page [OF al])
  have u: "unat ((phys_end - phys) div 4096) = ?n" by (simp only: unat_div page_of_def) simp
  have n: "?n < 1048576" by (rule page_of_bound)
  then have "as_int ((phys_end - phys) div 4096) = int ?n"
    using u by (subst as_int_nonneg) simp_all
  then show "paging_map_to dir virt phys phys_end flags m = map_range_loop dir virt phys 0 (int ?n) flags 0 m"
    using assms leD [of phys phys_end] unfolding paging_map_to_def paging_map_range_def
    by (simp only: PAGING_PAGE_SIZE_def Let_def if_False simp_thms refl)
qed

text \<open>\<open>n\<close> pages of the pool mapped at once, as the clients of \<open>paging_map_to\<close> do.\<close>

lemma map_pages:
  assumes wf: "chunk_wf m c d T" and al: "virt mod 4096 = 0" "phys mod 4096 = 0" "unat phys + 4096 * n < 4294967296"
  obtains m' where "paging_map_to (blk_addr c) virt phys (phys + of_nat (4096 * n)) flags m = (0, m')"
    "chunk_wf m' c d T"
    "\<And>w. w mod 4096 = 0 \<Longrightarrow> paging_get (blk_addr d) w m' =
       (if unat (w - virt) < 4096 * n then (phys + (w - virt)) OR as_u32 flags else paging_get (blk_addr d) w m)"
    "\<And>a. \<forall>t \<in> set T. 4096 \<le> unat (a - blk_addr t) \<Longrightarrow> m' a = m a"
proof -
  let ?e = "phys + of_nat (4096 * n)"
  have u: "unat (of_nat (4096 * n) :: u32) = 4096 * n" by (rule unat_of_nat32) (use al(3) in linarith)
  then have e: "unat ?e = unat phys + 4096 * n" using al(3) by (simp only: unat_add32) simp
  have le: "phys \<le> ?e" unfolding word_le_nat_alt e by simp
  have "4096 dvd unat ?e" unfolding e using al(2) by (simp add: unat_aligned_dvd)
  then have ea: "?e mod 4096 = 0" by (simp only: unat_aligned_dvd)
  have diff: "unat (?e - phys) = 4096 * n" using u by simp
  then have n: "page_of (?e - phys) = n" by (simp add: page_of_def)
  obtain res m' where run: "map_range_loop (blk_addr c) virt phys 0 (int n) flags 0 m = (res, m')" by fastforce
  have bound: "n \<le> 1048576" using al(3) by linarith
  have "res = 0 \<and> chunk_wf m' c d T \<and> (\<forall>w. w mod 4096 = 0 \<longrightarrow> paging_get (blk_addr d) w m' =
       (if unat (w - virt) < 4096 * n then (phys + (w - virt)) OR as_u32 flags else paging_get (blk_addr d) w m))"
    using map_range_loop_spec [OF wf al(1,2), of n "int n" 0 flags] bound run by simp
  moreover have "m' a = m a" if "\<forall>t \<in> set T. 4096 \<le> unat (a - blk_addr t)" for a
    using map_range_loop_frame [OF wf al(1,2) _ that, of n "int n" 0 flags] run by simp
  moreover have "paging_map_to (blk_addr c) virt phys ?e flags m = (res, m')"
    using paging_map_to_loop(1) [OF al(1,2) ea le, of "blk_addr c" flags m] run unfolding n by simp
  ultimately show thesis using that by blast
qed

lemma load_cell_cong:
  assumes "\<And>x. x < 4096 \<Longrightarrow> m' (blk_addr c + of_nat x) = m (blk_addr c + of_nat x)" and "j < 1024"
  shows "load32 m' (cell c j) = load32 m (cell c j)"
proof -
  have eq: "m' (cell c j + of_nat k) = m (cell c j + of_nat k)" if "k < 4" for k
  proof -
    have "cell c j + of_nat k = blk_addr c + of_nat (4 * j + k)" by (simp add: cell_def add.assoc)
    then show ?thesis using assms(1) [of "4 * j + k"] assms(2) that by (simp only:)
  qed
  show ?thesis
    using eq [of 0] eq [of 1] eq [of 2] eq [of 3] by (intro load32_cong) simp_all
qed

lemma fill_fold_spec:
  fixes g :: "nat \<Rightarrow> u32"
  assumes "t < 25600" and "n \<le> 1024"
  defines "f \<equiv> \<lambda>b m. store32 m (blk_addr t + of_nat (4 * b)) (g b)"
  shows "b < 1024 \<Longrightarrow> load32 (fold f [0..<n] m) (cell t b) = (if b < n then g b else load32 m (cell t b))"
    and "4096 \<le> unat (a - blk_addr t) \<Longrightarrow> fold f [0..<n] m a = m a"
  using assms(2)
proof (induction n)
  case 0
  { case 1 then show ?case by simp }
  { case 2 then show ?case by simp }
next
  case (Suc n)
  have step: "fold f [0..<Suc n] m = store32 (fold f [0..<n] m) (cell t n) (g n)"
    by (simp add: f_def cell_def)
  { case 1
    then show ?case
      unfolding step using Suc.IH(1) assms(1) by (subst load_cell_store_cell) auto }
  { case 2
    then show ?case
      unfolding step using Suc.IH(2) by (subst store_cell_frame) auto }
qed

lemma fill_table_spec:
  assumes "t < 25600"
  shows "b < 1024 \<Longrightarrow> load32 (fill_table (blk_addr t) offset flags m) (cell t b)
      = (offset + of_nat b * 4096) OR ucast flags"
    and "4096 \<le> unat (a - blk_addr t) \<Longrightarrow> fill_table (blk_addr t) offset flags m a = m a"
  unfolding fill_table_def using fill_fold_spec [OF assms, of 1024] by simp_all

definition ones :: "nat list \<Rightarrow> (nat \<rightharpoonup> nat)" where
  "ones T = (\<lambda>b. if b \<in> set T then Some 1 else None)"

definition tables_built :: "'a kmem_scheme \<Rightarrow> (nat \<rightharpoonup> nat) \<Rightarrow> nat \<Rightarrow> u8 \<Rightarrow> nat list \<Rightarrow> 'a kmem_scheme \<Rightarrow> bool" where
  \<comment> \<open>the invariant of the outer loop after \<open>length T\<close> rounds, from the state \<open>k0\<close> with allocations \<open>A\<close>\<close>
  "tables_built k0 A d flags T k \<longleftrightarrow>
     kheap_rep k (A ++ ones T) \<and> distinct T \<and> (\<forall>t\<in>set T. t < 25600 \<and> A t = None)
     \<and> free_blocks 25600 A = free_blocks 25600 (A ++ ones T) + length T
     \<and> (\<forall>j<length T. load32 (ram k) (cell d j) = blk_addr (T ! j) OR ucast flags OR 2)
     \<and> (\<forall>j<length T. \<forall>b<1024. load32 (ram k) (cell (T ! j) b)
          = (of_nat j * 4194304 + of_nat b * 4096) OR ucast flags)
     \<and> (\<forall>a. 25600 \<le> unat (a - 0x7E00) \<longrightarrow> 4096 \<le> unat (a - blk_addr d) \<longrightarrow>
          (\<forall>t\<in>set T. 4096 \<le> unat (a - blk_addr t)) \<longrightarrow> ram k a = ram k0 a)
     \<and> kmem.more k = kmem.more k0"

lemma ones_snoc: "A ++ ones (T @ [b]) = (A ++ ones T)(b \<mapsto> 1)"
  by (auto simp: ones_def map_add_def fun_eq_iff)

lemma new_table_step_inv:
  assumes inv: "tables_built k0 A d flags T k" and len: "length T < 1024" and d: "A d = Some 1" "d < 25600"
    and free: "length T < free_blocks 25600 A"
  shows "\<exists>b k'. new_table_step flags (blk_addr d) (length T) (of_nat (length T) * 4194304, k)
      = (of_nat (Suc (length T)) * 4194304, k') \<and> tables_built k0 A d flags (T @ [b]) k'"
proof -
  let ?B = "A ++ ones T" and ?i = "length T"
  have rep: "kheap_rep k ?B" using inv by (simp add: tables_built_def)
  have pos: "0 < free_blocks 25600 ?B" using inv free by (simp add: tables_built_def)
  obtain b k1 where k1: "kzalloc 4096 k = (blk_addr b, k1)" "b < 25600" "?B b = None"
    "kheap_rep k1 (?B(b \<mapsto> 1))" "free_blocks 25600 ?B = Suc (free_blocks 25600 (?B(b \<mapsto> 1)))"
    "\<And>a. 25600 \<le> unat (a - 0x7E00) \<Longrightarrow> 4096 \<le> unat (a - blk_addr b) \<Longrightarrow> ram k1 a = ram k a"
    "kmem.more k1 = kmem.more k"
    by (rule page_alloc [OF rep, of 4096]) (simp, simp, rule pos, blast)
  define m2 where "m2 = fill_table (blk_addr b) (of_nat ?i * 4194304) flags (ram k1)"
  define m3 where "m3 = store32 m2 (cell d ?i) (blk_addr b OR ucast flags OR 2)"
  have fresh: "b \<notin> set T" "A b = None" "b \<noteq> d"
    using k1(3) d(1) by (auto simp: ones_def map_add_def split: option.splits if_splits)
  have step: "new_table_step flags (blk_addr d) ?i (of_nat ?i * 4194304, k)
      = (of_nat (Suc ?i) * 4194304, k1\<lparr>ram := m3\<rparr>)"
    by (simp add: new_table_step_def k1(1) m2_def m3_def cell_def algebra_simps)
  have frame: "m3 a = ram k a"
    if "25600 \<le> unat (a - 0x7E00)" "4096 \<le> unat (a - blk_addr d)" "4096 \<le> unat (a - blk_addr b)" for a
    using that k1(6) len by (simp add: m3_def m2_def store_cell_frame fill_table_spec(2) [OF k1(2)])
  have block: "load32 m2 (cell c j) = load32 (ram k) (cell c j)"
    if "c \<noteq> b" "c < 25600" "j < 1024" for c j
  proof (rule load_cell_cong [OF _ that(3)])
    fix x :: nat assume x: "x < 4096"
    have "4096 \<le> unat (blk_addr c + of_nat x - blk_addr b)"
      by (rule other_block_byte [OF that(1,2) k1(2) x])
    moreover have "25600 \<le> unat (blk_addr c + of_nat x - 0x7E00)"
      by (rule live_not_table) (use that(2) x in linarith)
    ultimately show "m2 (blk_addr c + of_nat x) = ram k (blk_addr c + of_nat x)"
      using k1(6) by (simp add: m2_def fill_table_spec(2) [OF k1(2)])
  qed
  have store: "load32 m3 (cell c j) = (if (c, j) = (d, ?i) then blk_addr b OR ucast flags OR 2 else load32 m2 (cell c j))"
    if "c < 25600" "j < 1024" for c j
    unfolding m3_def by (rule load_cell_store_cell) (use that d(2) len in auto)
  have T: "t < 25600 \<and> t \<noteq> d \<and> t \<noteq> b" if "t \<in> set T" for t
    using that inv d(1) fresh(1) by (auto simp: tables_built_def)
  have inv': "distinct T" "\<forall>t\<in>set T. t < 25600 \<and> A t = None"
    "free_blocks 25600 A = free_blocks 25600 ?B + ?i"
    "\<forall>j<?i. load32 (ram k) (cell d j) = blk_addr (T ! j) OR ucast flags OR 2"
    "\<forall>j<?i. \<forall>x<1024. load32 (ram k) (cell (T ! j) x) = (of_nat j * 4194304 + of_nat x * 4096) OR ucast flags"
    "kmem.more k = kmem.more k0"
    using inv by (simp_all add: tables_built_def)
  have "tables_built k0 A d flags (T @ [b]) (k1\<lparr>ram := m3\<rparr>)"
    unfolding tables_built_def
  proof (intro conjI)
    have low: "m3 a = ram k1 a" if "unat a < 16777216" for a
    proof -
      have "4096 \<le> unat (a - blk_addr c)" if "c < 25600" for c
        unfolding unat_sub32 using \<open>unat a < 16777216\<close> unat_blk_addr [OF that] that by simp
      then show ?thesis
        using len d(2) k1(2) by (simp add: m3_def m2_def store_cell_frame fill_table_spec(2))
    qed
    show "kheap_rep (k1\<lparr>ram := m3\<rparr>) (A ++ ones (T @ [b]))"
      unfolding ones_snoc by (rule kheap_rep_ram_write [OF k1(4) low])
    show "distinct (T @ [b])" "\<forall>t\<in>set (T @ [b]). t < 25600 \<and> A t = None"
      using inv'(1,2) fresh k1(2) by auto
    show "free_blocks 25600 A = free_blocks 25600 (A ++ ones (T @ [b])) + length (T @ [b])"
      unfolding ones_snoc using inv'(3) k1(5) by simp
    show "\<forall>j<length (T @ [b]). load32 (ram (k1\<lparr>ram := m3\<rparr>)) (cell d j) = blk_addr ((T @ [b]) ! j) OR ucast flags OR 2"
      using inv'(4) len d(2) fresh(3) by (auto simp: store block nth_append less_Suc_eq)
    show "\<forall>j<length (T @ [b]). \<forall>x<1024. load32 (ram (k1\<lparr>ram := m3\<rparr>)) (cell ((T @ [b]) ! j) x)
        = (of_nat j * 4194304 + of_nat x * 4096) OR ucast flags"
    proof (intro allI impI)
      fix j x assume j: "j < length (T @ [b])" and x: "(x :: nat) < 1024"
      show "load32 (ram (k1\<lparr>ram := m3\<rparr>)) (cell ((T @ [b]) ! j) x) = (of_nat j * 4194304 + of_nat x * 4096) OR ucast flags"
      proof (cases "j < ?i")
        case True
        then have "T ! j \<in> set T" by simp
        then show ?thesis using True x inv'(5) T [of "T ! j"] by (simp add: store block nth_append)
      next
        case False
        then have "j = ?i" using j by simp
        then show ?thesis
          using x fresh(3) k1(2) by (simp add: store m2_def fill_table_spec(1) [OF k1(2) x])
      qed
    qed
    show "\<forall>a. 25600 \<le> unat (a - 0x7E00) \<longrightarrow> 4096 \<le> unat (a - blk_addr d) \<longrightarrow>
        (\<forall>t\<in>set (T @ [b]). 4096 \<le> unat (a - blk_addr t)) \<longrightarrow> ram (k1\<lparr>ram := m3\<rparr>) a = ram k0 a"
      using inv frame by (simp add: tables_built_def)
    show "kmem.more (k1\<lparr>ram := m3\<rparr>) = kmem.more k0" using k1(7) inv'(6) by simp
  qed
  then show ?thesis using step by blast
qed


lemma new_tables_built:
  assumes "kheap_rep k0 A" and "A d = Some 1" and "d < 25600"
  shows "n \<le> 1024 \<Longrightarrow> n \<le> free_blocks 25600 A \<Longrightarrow> \<exists>T k'. length T = n \<and>
    fold (new_table_step flags (blk_addr d)) [0..<n] (0, k0) = (of_nat n * 4194304, k') \<and>
    tables_built k0 A d flags T k'"
proof (induction n)
  case 0
  have "ones [] = Map.empty" by (simp add: ones_def)
  then have "tables_built k0 A d flags [] k0" using assms(1) by (simp add: tables_built_def)
  then show ?case by (intro exI [of _ "[]"] exI [of _ k0]) simp
next
  case (Suc n)
  then obtain T k1 where T: "length T = n" "tables_built k0 A d flags T k1"
    "fold (new_table_step flags (blk_addr d)) [0..<n] (0, k0) = (of_nat n * 4194304, k1)" by auto
  then obtain b k' where "new_table_step flags (blk_addr d) n (of_nat n * 4194304, k1)
      = (of_nat (Suc n) * 4194304, k') \<and> tables_built k0 A d flags (T @ [b]) k'"
    using new_table_step_inv [OF T(2) _ assms(2,3)] Suc.prems by auto
  then show ?case using T by (intro exI [of _ "T @ [b]"] exI [of _ k']) simp
qed

lemma aligned_to_lower: "paging_align_to_lower_page v mod 4096 = 0"
  "unat (paging_align_to_lower_page v) = 4096 * (unat v div 4096)"
proof -
  have m: "unat (v mod 4096) = unat v mod 4096" by (simp add: unat_mod)
  have "v mod 4096 \<le> v" by (simp add: word_le_nat_alt m)
  then have "unat (v - v mod 4096) = unat v - unat v mod 4096" by (simp only: unat_sub m)
  then show u: "unat (paging_align_to_lower_page v) = 4096 * (unat v div 4096)"
    by (simp only: paging_align_to_lower_page_def PAGING_PAGE_SIZE_def minus_mod_eq_mult_div)
  then show "paging_align_to_lower_page v mod 4096 = 0"
    unfolding unat_aligned_dvd by simp
qed

lemma page_value:
  assumes "v mod 4096 = 0"
  shows "of_nat (page_of v div 1024) * 4194304 + of_nat (page_of v mod 1024) * 4096 = v"
proof -
  have "page_of v div 1024 * 4194304 + page_of v mod 1024 * 4096 = unat v"
    using aligned_page [OF assms] div_mult_mod_eq [of "page_of v" 1024] by linarith
  then have "of_nat (page_of v div 1024 * 4194304 + page_of v mod 1024 * 4096) = (of_nat (unat v) :: u32)"
    by (rule arg_cong)
  then show ?thesis by simp
qed

text \<open>Bytes of other live allocations lie outside a live page.\<close>

lemma live_other_page:
  assumes "kheap_rep k A" and "A c = Some n" and "A t = Some 1" and "c \<noteq> t" and "x < n * 4096"
  shows "4096 \<le> unat (blk_addr c + of_nat x - blk_addr t)"
proof -
  have sep: "c + n \<le> t \<or> t + 1 \<le> c"
    using heap_rep_apart [OF kheap_repD(2) [OF assms(1)]] assms(2-4) by (metis nat_neq_iff)
  have "c + n \<le> 25600" "t + 1 \<le> 25600"
    using kheap_rep_pos [OF assms(1)] assms(2,3) by blast+
  then have cx: "c * 4096 + x < 104857600" "t < 25600" using assms(5) by linarith+
  have "unat (blk_addr c + of_nat x) = 16777216 + c * 4096 + x" "unat (blk_addr t) = 16777216 + t * 4096"
    using unat_blk_byte [OF cx(1)] unat_blk_addr [OF cx(2)] by simp_all
  moreover have "c * 4096 + x < t * 4096 \<or> t * 4096 + 4096 \<le> c * 4096 + x"
    using sep assms(5) by linarith
  ultimately show ?thesis unfolding unat_sub32 using cx by auto
qed

lemma tables_built_dir_wf:
  assumes inv: "tables_built k0 A d flags T k" and d: "A d = Some 1" "d < 25600" and len: "length T = 1024"
  shows "dir_wf (ram k) d T"
    and "v mod 4096 = 0 \<Longrightarrow> load32 (ram k) (entry_cell T (page_of v)) = v OR ucast flags"
proof -
  have T: "distinct T" "\<forall>t\<in>set T. t < 25600 \<and> A t = None"
    "\<forall>j<length T. load32 (ram k) (cell d j) = blk_addr (T ! j) OR ucast flags OR 2"
    "\<forall>j<length T. \<forall>b<1024. load32 (ram k) (cell (T ! j) b) = (of_nat j * 4194304 + of_nat b * 4096) OR ucast flags"
    using inv by (simp_all add: tables_built_def)
  have "load32 (ram k) (cell d j) AND 0xfffff000 = blk_addr (T ! j)" if "j < 1024" for j
  proof -
    have "T ! j < 25600" using T(2) that len by simp
    then show ?thesis using T(3) that len frame_mask_flags8(2) [OF blk_addr_aligned] by simp
  qed
  then show "dir_wf (ram k) d T" using T d len by (auto simp: dir_wf_def)
  show "load32 (ram k) (entry_cell T (page_of v)) = v OR ucast flags" if "v mod 4096 = 0"
    using T(4) len page_indices [of v] page_value [OF that] by (simp add: entry_cell_def)
qed

definition dir_present :: "mem \<Rightarrow> nat \<Rightarrow> bool" where
  \<comment> \<open>every entry of the directory in block \<open>d\<close> is present\<close>
  "dir_present m d \<longleftrightarrow> (\<forall>j < 1024. bit (load32 m (cell d j)) 0)"

lemma not_covered_new:
  assumes "kheap_rep k (A ++ ones bs)" and "\<forall>b \<in> set bs. A b = None" and "t \<in> set bs"
  shows "\<not> covered A t"
proof
  assume "covered A t"
  then obtain b n where b: "A b = Some n" "b \<le> t" "t < b + n" by (auto simp: covered_def)
  have "b \<noteq> t" "b \<notin> set bs" using b(1) assms(2,3) by auto
  then have "(A ++ ones bs) b = Some n" "(A ++ ones bs) t = Some 1" "b < t"
    using b assms(3) by (simp_all add: ones_def map_add_def)
  then have "b + n \<le> t" using heap_rep_apart [OF kheap_repD(2) [OF assms(1)]] by metis
  then show False using b(3) by simp
qed

lemma paging_new_4gb_built:
  assumes rep: "kheap_rep k A" and free: "1026 \<le> free_blocks 25600 A"
  shows "\<exists>c d T k'. paging_new_4gb flags k = (blk_addr c, k') \<and> chunk_wf (ram k') c d T
    \<and> kheap_rep k' (A ++ ones (c # d # T)) \<and> (\<forall>b\<in>set (c # d # T). A b = None)
    \<and> free_blocks 25600 A = free_blocks 25600 (A ++ ones (c # d # T)) + 1026
    \<and> (\<forall>v. v mod 4096 = 0 \<longrightarrow> paging_get (blk_addr d) v (ram k') = v OR ucast flags)
    \<and> (\<forall>b n x. A b = Some n \<and> x < n * 4096 \<longrightarrow> ram k' (blk_addr b + of_nat x) = ram k (blk_addr b + of_nat x))
    \<and> kmem.more k' = kmem.more k
    \<and> (bit flags 0 \<longrightarrow> dir_present (ram k') d) \<and> (\<forall>a. stable A a \<longrightarrow> ram k' a = ram k a)"
proof -
  have pos: "0 < free_blocks 25600 A" using free by simp
  obtain d k1 where d: "kzalloc 4096 k = (blk_addr d, k1)" "d < 25600" "A d = None"
    "kheap_rep k1 (A(d \<mapsto> 1))" "free_blocks 25600 A = Suc (free_blocks 25600 (A(d \<mapsto> 1)))"
    "\<And>a. 25600 \<le> unat (a - 0x7E00) \<Longrightarrow> 4096 \<le> unat (a - blk_addr d) \<Longrightarrow> ram k1 a = ram k a"
    "kmem.more k1 = kmem.more k"
    by (rule page_alloc [OF rep, of 4096]) (simp, simp, rule pos, blast)
  let ?D = "A(d \<mapsto> 1)"
  have "1024 \<le> free_blocks 25600 ?D" using d(5) free by simp
  then obtain T k2 where T: "length T = 1024" "tables_built k1 ?D d flags T k2"
    "fold (new_table_step flags (blk_addr d)) [0..<1024] (0, k1) = (of_nat 1024 * 4194304, k2)"
    using new_tables_built [OF d(4) _ d(2), of 1024 flags] by auto
  let ?E = "?D ++ ones T"
  have inv: "kheap_rep k2 ?E" "free_blocks 25600 ?D = free_blocks 25600 ?E + 1024"
    "\<forall>t\<in>set T. t < 25600 \<and> ?D t = None"
    "kmem.more k2 = kmem.more k1"
    using T(1,2) by (simp_all add: tables_built_def)
  have frame2: "ram k2 a = ram k1 a" if "25600 \<le> unat (a - 0x7E00)" "4096 \<le> unat (a - blk_addr d)"
    "\<forall>t\<in>set T. 4096 \<le> unat (a - blk_addr t)" for a
    using T(2) that by (simp add: tables_built_def)
  have pos2: "0 < free_blocks 25600 ?E" using d(5) inv(2) free by simp
  obtain c k3 where c: "kzalloc 4 k2 = (blk_addr c, k3)" "c < 25600" "?E c = None"
    "kheap_rep k3 (?E(c \<mapsto> 1))" "free_blocks 25600 ?E = Suc (free_blocks 25600 (?E(c \<mapsto> 1)))"
    "\<And>a. 25600 \<le> unat (a - 0x7E00) \<Longrightarrow> 4096 \<le> unat (a - blk_addr c) \<Longrightarrow> ram k3 a = ram k2 a"
    "kmem.more k3 = kmem.more k2"
    by (rule page_alloc [OF inv(1), of 4]) (simp, simp, rule pos2, blast)
  define m where "m = store32 (ram k3) (cell c 0) (blk_addr d)"
  define k' where "k' = k3\<lparr>ram := m\<rparr>"
  have new: "paging_new_4gb flags k = (blk_addr c, k')"
    using T(3) by (simp add: paging_new_4gb_def d(1) c(1) k'_def m_def cell_0)
  have fresh: "c \<noteq> d" "c \<notin> set T" "A c = None" "d \<notin> set T"
    using c(3) inv(3) by (auto simp: ones_def map_add_def split: if_splits)
  have eqA: "?E(c \<mapsto> 1) = A ++ ones (c # d # T)"
    by (auto simp: ones_def map_add_def fun_eq_iff)
  have frame3: "m a = ram k2 a" if "25600 \<le> unat (a - 0x7E00)" "4096 \<le> unat (a - blk_addr c)" for a
    using that c(6) by (simp add: m_def store_cell_frame)
  have same: "load32 m (cell b j) = load32 (ram k2) (cell b j)" if "b \<noteq> c" "b < 25600" "j < 1024" for b j
  proof (rule load_cell_cong [OF frame3 that(3)])
    fix x :: nat assume x: "x < 4096"
    show "25600 \<le> unat (blk_addr b + of_nat x - 0x7E00)"
      by (rule live_not_table) (use that(2) x in linarith)
    show "4096 \<le> unat (blk_addr b + of_nat x - blk_addr c)"
      by (rule other_block_byte [OF that(1,2) c(2) x])
  qed
  have wf2: "dir_wf (ram k2) d T" and val2: "\<And>v. v mod 4096 = 0 \<Longrightarrow>
      load32 (ram k2) (entry_cell T (page_of v)) = v OR ucast flags"
    using tables_built_dir_wf [OF T(2) _ d(2) T(1)] by simp_all
  have wf: "dir_wf m d T"
    using wf2 fresh d(2) unfolding dir_wf_def by (simp add: same)
  have chunk: "chunk_wf m c d T"
    using wf c(2) fresh by (simp add: chunk_wf_def m_def cell_0)
  have ident: "paging_get (blk_addr d) v m = v OR ucast flags" if "v mod 4096 = 0" for v
  proof -
    have "T ! (page_of v div 1024) \<in> set T" using T(1) page_indices(1) by simp
    then show ?thesis
      unfolding paging_get_eq [OF wf that] val2 [OF that, symmetric] unfolding entry_cell_def
      using fresh(2) inv(3) page_indices(2) by (intro same) auto
  qed
  have low: "m a = ram k3 a" if "unat a < 16777216" for a
  proof -
    have "4096 \<le> unat (a - blk_addr c)"
      unfolding unat_sub32 using \<open>unat a < 16777216\<close> unat_blk_addr [OF c(2)] c(2) by simp
    then show ?thesis by (simp add: m_def store_cell_frame)
  qed
  have rep': "kheap_rep k' (A ++ ones (c # d # T))"
    unfolding k'_def using kheap_rep_ram_write [OF c(4) low] unfolding eqA .
  have live: "m (blk_addr b + of_nat x) = ram k (blk_addr b + of_nat x)" if "A b = Some n" "x < n * 4096" for b n x
  proof -
    let ?a = "blk_addr b + of_nat x :: u32"
    let ?F = "A ++ ones (c # d # T)"
    have bnd: "b + n \<le> 25600" using kheap_rep_pos [OF rep that(1)] by simp
    have tab: "25600 \<le> unat (?a - 0x7E00)"
      by (rule live_not_table) (use bnd that(2) in linarith)
    have nb: "b \<notin> set (c # d # T)" using that(1) fresh inv(3) d(3) by (auto split: if_splits)
    have b: "?F b = Some n" using that(1) nb by (simp add: ones_def map_add_def)
    have far: "4096 \<le> unat (?a - blk_addr t)" if t: "t \<in> set (c # d # T)" for t
    proof -
      note x = \<open>x < n * 4096\<close>
      have "?F t = Some 1" using t by (simp add: ones_def map_add_def)
      moreover have "b \<noteq> t" using t nb by blast
      ultimately show ?thesis by (rule live_other_page [OF rep' b _ _ x])
    qed
    show ?thesis
      using frame3 [OF tab far] frame2 [OF tab far] d(6) [OF tab far] far by simp
  qed
  have none: "\<forall>b\<in>set (c # d # T). A b = None"
    using fresh d(3) inv(3) by (auto split: if_splits)
  have "m a = ram k a" if st: "stable A a" for a
  proof -
    have far: "4096 \<le> unat (a - blk_addr t)" if t: "t \<in> set (c # d # T)" for t
    proof -
      have "t < 25600" using t c(2) d(2) inv(3) by auto
      moreover have "\<not> covered A t" by (rule not_covered_new [OF rep' none t])
      ultimately show ?thesis using st unfolding stable_def by blast
    qed
    show ?thesis
      using st frame3 [OF _ far] frame2 [OF _ far] d(6) [OF _ far] far by (simp add: stable_def)
  qed
  moreover have "dir_present m d" if "bit flags 0"
    unfolding dir_present_def
  proof (intro allI impI)
    fix j :: nat assume j: "j < 1024"
    have "load32 m (cell d j) = load32 (ram k2) (cell d j)" by (rule same [OF _ d(2) j]) (use fresh in simp)
    moreover have "load32 (ram k2) (cell d j) = blk_addr (T ! j) OR ucast flags OR 2"
      using T(1,2) j by (simp add: tables_built_def)
    ultimately show "bit (load32 m (cell d j)) 0" using that by (simp add: bit_simps)
  qed
  moreover have "free_blocks 25600 A = free_blocks 25600 (A ++ ones (c # d # T)) + 1026"
    using d(5) inv(2) c(5) unfolding eqA by simp
  moreover have "kmem.more k' = kmem.more k" using c(7) inv(4) d(7) by (simp add: k'_def)
  moreover have "ram k' = m" by (simp add: k'_def)
  ultimately show ?thesis
    using new chunk rep' ident live none
    by (intro exI [of _ c] exI [of _ d] exI [of _ T] exI [of _ k']) simp
qed


subsection \<open>Releasing an address space\<close>

lemma kfree_all_frame:
  assumes "kheap_rep k A" and "distinct bs" and "set bs \<subseteq> dom A" and "25600 \<le> unat (a - 0x7E00)"
  shows "ram (fold (\<lambda>b. kfree (blk_addr b)) bs k) a = ram k a"
  using assms
proof (induction bs arbitrary: k A)
  case Nil
  then show ?case by simp
next
  case (Cons b bs)
  then obtain n where b: "A b = Some n" by auto
  have "ram (fold (\<lambda>b. kfree (blk_addr b)) bs (kfree (blk_addr b) k)) a = ram (kfree (blk_addr b) k) a"
    by (rule Cons.IH [OF kfree_rep [OF Cons.prems(1) b]]) (use Cons.prems in auto)
  then show ?case using kfree_frame [OF Cons.prems(1) b Cons.prems(4)] by simp
qed

lemma free_tables:
  assumes rep: "kheap_rep k A" and wf: "chunk_wf (ram k) c d T" and live: "set T \<subseteq> dom A" and n: "n \<le> 1024"
  shows "fold (free_table_step (blk_addr c)) [0..<n] k = fold (\<lambda>b. kfree (blk_addr b)) (take n T) k"
  using n
proof (induction n)
  case 0
  then show ?case by simp
next
  case (Suc n)
  let ?k = "fold (\<lambda>b. kfree (blk_addr b)) (take n T) k"
  have IH: "fold (free_table_step (blk_addr c)) [0..<n] k = ?k" using Suc by simp
  have len: "length T = 1024" "distinct T" and d: "d < 25600"
    using dir_wfD [OF chunk_wfD(1) [OF wf]] by simp_all
  have take: "distinct (take n T)" "set (take n T) \<subseteq> dom A"
    using len(2) live set_take_subset [of n T] by auto
  have same: "load32 (ram ?k) (cell b j) = load32 (ram k) (cell b j)" if "b < 25600" "j < 1024" for b j
  proof (rule load_cell_cong [OF kfree_all_frame [OF rep take] that(2)])
    fix x :: nat assume "x < 4096"
    then show "25600 \<le> unat (blk_addr b + of_nat x - 0x7E00)"
      using that(1) by (intro live_not_table) linarith
  qed
  have "load32 (ram ?k) (cell c 0) = blk_addr d"
    using same [of c 0] chunk_wfD(2,5) [OF wf] by (simp add: cell_0 directory_entry_def)
  moreover have "load32 (ram ?k) (cell d n) AND 0xfffff000 = blk_addr (T ! n)"
    using same [of d n] d dir_wfD(6) [OF chunk_wfD(1) [OF wf], of n] Suc.prems by simp
  ultimately have "free_table_step (blk_addr c) n ?k = kfree (blk_addr (T ! n)) ?k"
    by (simp add: free_table_step_def directory_entry_def cell_0) (simp add: cell_def)
  then show ?case
    using IH Suc.prems len(1) by (simp add: take_Suc_conv_app_nth)
qed

lemma paging_free_4gb_fold:
  assumes rep: "kheap_rep k A" and wf: "chunk_wf (ram k) c d T" and live: "set T \<subseteq> dom A"
  shows "paging_free_4gb (blk_addr c) k = fold (\<lambda>b. kfree (blk_addr b)) (T @ [d, c]) k"
proof -
  have T: "length T = 1024" "distinct T" using dir_wfD [OF chunk_wfD(1) [OF wf]] by simp_all
  let ?k = "fold (\<lambda>b. kfree (blk_addr b)) T k"
  have tabs: "fold (free_table_step (blk_addr c)) [0..<1024] k = ?k"
    using free_tables [OF rep wf live, of 1024] T(1) by simp
  have "load32 (ram ?k) (cell c 0) = load32 (ram k) (cell c 0)"
  proof (rule load_cell_cong [OF kfree_all_frame [OF rep T(2) live]])
    fix x :: nat assume "x < 4096"
    then show "25600 \<le> unat (blk_addr c + of_nat x - 0x7E00)"
      using chunk_wfD(2) [OF wf] by (intro live_not_table) linarith
  qed simp
  then have "directory_entry (ram ?k) (blk_addr c) = blk_addr d"
    using chunk_wfD(5) [OF wf] by (simp add: directory_entry_def cell_0)
  then show ?thesis by (simp add: paging_free_4gb_def tabs)
qed

lemma restrict_ones:
  assumes "\<forall>b\<in>set bs. A b = None" and "set cs = set bs"
  shows "(A ++ ones bs) |` (- set cs) = A"
  using assms by (auto simp: restrict_map_def ones_def map_add_def fun_eq_iff)

lemma frame_mask_flags:
  assumes "w mod 4096 = (0 :: u32)" and "0 \<le> flags" and "flags < 4096"
  shows "(w OR as_u32 flags) AND 0xfffff000 = w"
proof (rule frame_mask [OF assms(1)])
  have "unat (as_u32 flags) = nat flags" using assms by (intro unat_as_u32) simp_all
  then show "as_u32 flags < 4096" using assms(2,3) by (simp add: word_less_nat_alt)
qed

lemma page_base_diff:
  assumes "v mod 4096 = (0 :: u32)" and "x < 4096"
  shows "paging_align_to_lower_page (v + of_nat x) = v"
proof -
  have "4096 dvd unat v" using assms(1) by (simp only: unat_aligned_dvd)
  then obtain q where q: "unat v = 4096 * q" ..
  then have "q < 1048576" using unat_bound32 [of v] by linarith
  then have sum: "unat (v + of_nat x) = 4096 * q + x"
    using assms(2) q by (simp add: unat_add32 unat_of_nat32)
  have "(4096 * q + x) div 4096 = q" by (rule div_nat_eqI) (use assms(2) in simp_all)
  then have "unat (paging_align_to_lower_page (v + of_nat x)) = unat v"
    by (simp only: aligned_to_lower(2) sum q)
  then show ?thesis by (simp only: word32_eq_iff_unat)
qed


subsection \<open>Properties\<close>

text \<open>
  \<open>paging_new_4gb\<close> builds the identity.  With 1026 blocks free it takes exactly 1026 fresh one-block
  allocations (chunk, directory, 1024 tables), wires them into a well-formed chunk in which every page
  maps to itself with the flags given, so that every virtual address translates to itself, and every
  byte of the allocations that were live before keeps its value.
\<close>
theorem paging_new_4gb_identity:
  assumes "kheap_rep k A" and "1026 \<le> free_blocks 25600 A"
  shows "\<exists>c d T k'. paging_new_4gb flags k = (blk_addr c, k') \<and> chunk_wf (ram k') c d T
    \<and> kheap_rep k' (A ++ ones (c # d # T)) \<and> (\<forall>b\<in>set (c # d # T). A b = None)
    \<and> free_blocks 25600 A = free_blocks 25600 (A ++ ones (c # d # T)) + 1026
    \<and> (\<forall>v. v mod 4096 = 0 \<longrightarrow> paging_get (blk_addr d) v (ram k') = v OR ucast flags)
    \<and> (\<forall>v. paging_get_physical_address (blk_addr d) v (ram k') = v)
    \<and> (\<forall>b n x. A b = Some n \<and> x < n * 4096 \<longrightarrow> ram k' (blk_addr b + of_nat x) = ram k (blk_addr b + of_nat x))"
proof -
  obtain c d T k' where new: "paging_new_4gb flags k = (blk_addr c, k')" "chunk_wf (ram k') c d T"
    "kheap_rep k' (A ++ ones (c # d # T))" "\<forall>b\<in>set (c # d # T). A b = None"
    "free_blocks 25600 A = free_blocks 25600 (A ++ ones (c # d # T)) + 1026"
    and ident: "\<forall>v. v mod 4096 = 0 \<longrightarrow> paging_get (blk_addr d) v (ram k') = v OR ucast flags"
    and live: "\<forall>b n x. A b = Some n \<and> x < n * 4096 \<longrightarrow> ram k' (blk_addr b + of_nat x) = ram k (blk_addr b + of_nat x)"
    using paging_new_4gb_built [OF assms, of flags] by blast
  have "paging_get_physical_address (blk_addr d) v (ram k') = v" for v
    using ident aligned_to_lower(1) [of v] frame_mask_flags8(1) [OF aligned_to_lower(1) [of v], of flags]
    by (simp only: paging_get_physical_address_def Let_def) simp
  then show ?thesis
    using new ident live by (intro exI [of _ c] exI [of _ d] exI [of _ T] exI [of _ k']) simp
qed

theorem paging_new_4gb_identity_witness:
  "\<exists>k k' :: kmem. \<exists>c d. paging_new_4gb 7 k = (blk_addr c, k')
     \<and> paging_get_physical_address (blk_addr d) 0x12345678 (ram k') = 0x12345678"
proof -
  obtain k :: kmem where k: "kheap_rep k Map.empty" using boot_rep by blast
  have "1026 \<le> free_blocks 25600 Map.empty" by (simp add: free_blocks_empty)
  from paging_new_4gb_identity [OF k this, of 7] show ?thesis by blast
qed

text \<open>
  C14: \<open>paging_free_4gb\<close> releases exactly the 1026 blocks \<open>paging_new_4gb\<close> took: after building an
  address space and freeing it the allocator is in the abstract state it started from.
\<close>
theorem paging_new_free_4gb:
  assumes "kheap_rep k A" and "1026 \<le> free_blocks 25600 A"
  shows "kheap_rep (paging_free_4gb (fst (paging_new_4gb flags k)) (snd (paging_new_4gb flags k))) A"
proof -
  obtain c d T k' where new: "paging_new_4gb flags k = (blk_addr c, k')" "chunk_wf (ram k') c d T"
    "kheap_rep k' (A ++ ones (c # d # T))" "\<forall>b\<in>set (c # d # T). A b = None"
    using paging_new_4gb_built [OF assms, of flags] by blast
  let ?F = "A ++ ones (c # d # T)"
  have dom: "set (c # d # T) \<subseteq> dom ?F" by (auto simp: ones_def map_add_def)
  then have "set T \<subseteq> dom ?F" by simp
  note fold = paging_free_4gb_fold [OF new(3,2) this]
  have "distinct (T @ [d, c])" "set (T @ [d, c]) = set (c # d # T)"
    using chunk_wfD [OF new(2)] dir_wfD(3,4) [OF chunk_wfD(1) [OF new(2)]] by auto
  then have "kheap_rep (fold (\<lambda>b. kfree (blk_addr b)) (T @ [d, c]) k') (?F |` (- set (T @ [d, c])))"
    using dom by (intro kz.dealloc_all [OF new(3)]) simp_all
  moreover have "?F |` (- set (T @ [d, c])) = A"
    by (rule restrict_ones [OF new(4)]) auto
  ultimately show ?thesis using fold by (simp add: new(1))
qed

theorem paging_new_free_4gb_witness:
  "\<exists>k :: kmem. kheap_rep (paging_free_4gb (fst (paging_new_4gb 7 k)) (snd (paging_new_4gb 7 k))) Map.empty"
proof -
  obtain k :: kmem where k: "kheap_rep k Map.empty" using boot_rep by blast
  have "1026 \<le> free_blocks 25600 Map.empty" by (simp add: free_blocks_empty)
  from paging_new_free_4gb [OF k this, of 7] show ?thesis by blast
qed

lemma some_chunk: "\<exists>m c d T. chunk_wf m c d T"
proof -
  obtain k :: kmem where k: "kheap_rep k Map.empty" using boot_rep by blast
  have "1026 \<le> free_blocks 25600 Map.empty" by (simp add: free_blocks_empty)
  then show ?thesis using paging_new_4gb_built [OF k] by blast
qed

text \<open>
  C13: on a well-formed chunk \<open>paging_map\<close> and \<open>paging_get\<close> refine a total map from pages to
  entries.  Mapping an aligned page returns 0, updates that entry, keeps every other one and the
  chunk well formed; afterwards each address of the page translates to the frame at the same offset.
  A misaligned address is refused with \<open>-EINVARG\<close> and nothing is written.
\<close>
theorem paging_map_refines:
  assumes "chunk_wf m c d T" and "0 \<le> flags" and "flags < 4096"
  shows "case paging_map (blk_addr c) virt phys flags m of (res, m') \<Rightarrow>
    if virt mod 4096 = 0 \<and> phys mod 4096 = 0
    then res = 0 \<and> chunk_wf m' c d T
      \<and> (\<forall>w. w mod 4096 = 0 \<longrightarrow> paging_get (blk_addr d) w m' =
            (if w = virt then phys OR as_u32 flags else paging_get (blk_addr d) w m))
      \<and> (\<forall>x < 4096. paging_get_physical_address (blk_addr d) (virt + of_nat x) m' = phys + of_nat x)
    else res = - EINVARG \<and> m' = m"
proof (cases "virt mod 4096 = 0 \<and> phys mod 4096 = 0")
  case True
  then have v: "virt mod 4096 = 0" and p: "phys mod 4096 = 0" by simp_all
  let ?e = "phys OR as_u32 flags"
  let ?m = "store32 m (entry_cell T (page_of virt)) ?e"
  have eq: "paging_map (blk_addr c) virt phys flags m = (0, ?m)"
    by (rule paging_map_eq [OF assms(1) v p])
  have get: "paging_get (blk_addr d) w ?m = (if w = virt then ?e else paging_get (blk_addr d) w m)"
    if "w mod 4096 = 0" for w
    using paging_get_set [OF chunk_wfD(1) [OF assms(1)] v that, of ?e]
      paging_set_eq [OF chunk_wfD(1) [OF assms(1)] v, of ?e] by simp
  have "paging_get_physical_address (blk_addr d) (virt + of_nat x) ?m = phys + of_nat x" if "x < 4096" for x
    using get [OF v] frame_mask_flags [OF p assms(2,3)]
    by (simp add: paging_get_physical_address_def page_base_diff [OF v that] Let_def)
  then show ?thesis
    using True get chunk_wf_set [OF assms(1)] unfolding eq by simp
next
  case False
  then show ?thesis by (auto simp: paging_map_def)
qed

theorem paging_map_refines_witness:
  "\<exists>m c d. paging_get_physical_address (blk_addr d) 0x400123
     (snd (paging_map (blk_addr c) 0x400000 0x1000000 7 m)) = 0x1000123"
proof -
  obtain m c d T where wf: "chunk_wf m c d T" using some_chunk by blast
  from paging_map_refines [OF wf, of 7 "0x400000" "0x1000000"]
  have "\<forall>x < 4096. paging_get_physical_address (blk_addr d) (0x400000 + of_nat x)
      (snd (paging_map (blk_addr c) 0x400000 0x1000000 7 m)) = 0x1000000 + of_nat x"
    by (auto split: prod.splits)
  from this [rule_format, of "0x123"] show ?thesis by auto
qed

text \<open>
  \<open>paging_map_range\<close> maps \<open>count\<close> consecutive pages to consecutive frames (both wrapping at the
  end of the address space) and leaves every other entry alone; if an address is misaligned it returns
  \<open>-EINVARG\<close> before any write; a non-positive count does nothing.
\<close>
theorem paging_map_range_spec:
  assumes "chunk_wf m c d T" and "count \<le> 1048576"
  shows "case paging_map_range (blk_addr c) virt phys count flags m of (res, m') \<Rightarrow>
    if count \<le> 0 then res = 0 \<and> m' = m
    else if virt mod 4096 = 0 \<and> phys mod 4096 = 0
    then res = 0 \<and> chunk_wf m' c d T
      \<and> (\<forall>w. w mod 4096 = 0 \<longrightarrow> paging_get (blk_addr d) w m' =
            (if unat (w - virt) < 4096 * nat count then (phys + (w - virt)) OR as_u32 flags
             else paging_get (blk_addr d) w m))
    else res = - EINVARG \<and> m' = m"
proof (cases "count \<le> 0")
  case True
  then show ?thesis
    unfolding paging_map_range_def by (subst map_range_loop.simps) simp
next
  case False
  show ?thesis
  proof (cases "virt mod 4096 = 0 \<and> phys mod 4096 = 0")
    case True
    then show ?thesis
      using map_range_loop_spec [OF assms(1), of virt phys "nat count" count 0 flags] assms(2) False
      unfolding paging_map_range_def by auto
  next
    case misaligned: False
    then have "paging_map (blk_addr c) virt phys flags m = (- EINVARG, m)"
      by (auto simp: paging_map_def)
    then have "paging_map_range (blk_addr c) virt phys count flags m = (- EINVARG, m)"
      using \<open>\<not> count \<le> 0\<close> unfolding paging_map_range_def by (subst map_range_loop.simps) simp
    then show ?thesis using \<open>\<not> count \<le> 0\<close> misaligned by auto
  qed
qed

theorem paging_map_range_spec_witness:
  "\<exists>m c d. fst (paging_map_range (blk_addr c) 0x400000 0x2000 2 7 m) = 0
     \<and> paging_get (blk_addr d) 0x401000 (snd (paging_map_range (blk_addr c) 0x400000 0x2000 2 7 m)) = 0x3007"
proof -
  obtain m c d T where wf: "chunk_wf m c d T" using some_chunk by blast
  from paging_map_range_spec [OF wf, of 2 "0x400000" "0x2000" 7]
  show ?thesis by (intro exI [of _ m] exI [of _ c] exI [of _ d]) (auto simp: as_u32_def split: prod.splits dest!: spec [of _ "0x401000"])
qed

text \<open>
  \<open>paging_map_to\<close> checks its three addresses and their order and only then maps the pages of
  \<open>[phys, phys_end)\<close> at \<open>virt\<close>.
\<close>
theorem paging_map_to_spec:
  assumes "chunk_wf m c d T"
  shows "case paging_map_to (blk_addr c) virt phys phys_end flags m of (res, m') \<Rightarrow>
    if virt mod 4096 = 0 \<and> phys mod 4096 = 0 \<and> phys_end mod 4096 = 0 \<and> phys \<le> phys_end
    then res = 0 \<and> chunk_wf m' c d T
      \<and> (\<forall>w. w mod 4096 = 0 \<longrightarrow> paging_get (blk_addr d) w m' =
            (if w - virt < phys_end - phys then (phys + (w - virt)) OR as_u32 flags
             else paging_get (blk_addr d) w m))
    else res = - EINVARG \<and> m' = m"
proof (cases "virt mod 4096 = 0 \<and> phys mod 4096 = 0 \<and> phys_end mod 4096 = 0 \<and> phys \<le> phys_end")
  case False
  then show ?thesis by (auto simp: paging_map_to_def not_le)
next
  case True
  let ?n = "page_of (phys_end - phys)"
  have n: "?n < 1048576" by (rule page_of_bound)
  have bytes: "unat (phys_end - phys) = 4096 * ?n"
    and "paging_map_to (blk_addr c) virt phys phys_end flags m = map_range_loop (blk_addr c) virt phys 0 (int ?n) flags 0 m"
    using paging_map_to_loop [of virt phys phys_end] True by simp_all
  then show ?thesis
    using map_range_loop_spec [OF assms, of virt phys ?n "int ?n" 0 flags] True n
    by (auto simp: word_less_nat_alt bytes)
qed

theorem paging_map_to_spec_witness:
  "\<exists>m c d. paging_get (blk_addr d) 0x401000
     (snd (paging_map_to (blk_addr c) 0x400000 0x2000 0x4000 7 m)) = 0x3007"
proof -
  obtain m c d T where wf: "chunk_wf m c d T" using some_chunk by blast
  from paging_map_to_spec [OF wf, of "0x400000" "0x2000" "0x4000" 7]
  show ?thesis by (intro exI [of _ m] exI [of _ c] exI [of _ d]) (auto simp: as_u32_def split: prod.splits dest!: spec [of _ "0x401000"])
qed

lemma paging_align_heap: "paging_align_address v = heap_align_value_to_upper v"
  by (simp add: paging_align_address_def heap_align_value_to_upper_def)

text \<open>
  \<open>paging_align_address\<close> rounds up to the next page and \<open>paging_align_to_lower_page\<close> down; above
  \<open>0xFFFFF000\<close> rounding up wraps to address zero.
\<close>
theorem paging_align_spec:
  "unat (paging_align_address v) = (if unat v \<le> 4294963200 then 4096 * ((unat v + 4095) div 4096) else 0)
   \<and> unat (paging_align_to_lower_page v) = 4096 * (unat v div 4096)"
proof -
  show ?thesis unfolding paging_align_heap using unat_heap_align [of v] aligned_to_lower(2) [of v] by simp
qed

end
