(* ===== verification/Disk.thy ===== *)
theory Disk
  imports Paging "HOL-Library.Monad_Syntax"
begin

text \<open>
  \<^verbatim>\<open>src/src/disk/disk.c\<close> and \<^verbatim>\<open>src/src/disk/streamer.c\<close>: reading sectors from the ATA disk by
  programmed I/O, and the byte streams built on them.

  The drive is the environment: \<open>ata\<close> is its register file with the disk image behind it, and
  \<open>ata_outb\<close>, \<open>ata_insb\<close>, \<open>ata_insw\<close> are its documented answers to the port instructions (LBA28
  addressing, command \<open>0x20\<close>, status bit \<open>0x08\<close>, 16-bit data port).  What the code writes through a
  \<open>buf\<close>/\<open>out\<close> pointer is returned as the list of bytes written, in order; the caller places them.
  The contract \<open>block_device\<close> is what streams need of the disk; \<open>disk_read_block\<close> provides it.
\<close>

subsection \<open>The drive\<close>

record ata =
  ata_drive :: u8
  ata_count :: u8
  ata_lo :: u8
  ata_mid :: u8
  ata_hi :: u8
  ata_image :: "nat \<Rightarrow> u8"
  ata_status :: "nat \<Rightarrow> u8"
  ata_polls :: nat
  ata_pos :: nat

definition ata_lba :: "ata \<Rightarrow> nat" where
  "ata_lba d = unat (ata_lo d) + 256 * unat (ata_mid d) + 65536 * unat (ata_hi d)
     + 16777216 * (unat (ata_drive d) mod 16)"

definition ata_outb :: "u16 \<Rightarrow> u8 \<Rightarrow> ata \<Rightarrow> ata" where
  "ata_outb port v d =
     (if port = 0x1F2 then d\<lparr>ata_count := v\<rparr>
      else if port = 0x1F3 then d\<lparr>ata_lo := v\<rparr>
      else if port = 0x1F4 then d\<lparr>ata_mid := v\<rparr>
      else if port = 0x1F5 then d\<lparr>ata_hi := v\<rparr>
      else if port = 0x1F6 then d\<lparr>ata_drive := v\<rparr>
      else if port = 0x1F7 \<and> v = 0x20 then d\<lparr>ata_pos := 512 * ata_lba d\<rparr>
      else d)"

definition ata_insb :: "u16 \<Rightarrow> ata \<Rightarrow> u8 \<times> ata" where
  "ata_insb port d = (ata_status d (ata_polls d), d\<lparr>ata_polls := Suc (ata_polls d)\<rparr>)"

definition ata_insw :: "u16 \<Rightarrow> ata \<Rightarrow> u16 \<times> ata" where
  "ata_insw port d =
     (ucast (ata_image d (ata_pos d)) OR push_bit 8 (ucast (ata_image d (ata_pos d + 1))),
      d\<lparr>ata_pos := ata_pos d + 2\<rparr>)"

subsection \<open>State\<close>

record disk =
  disk_type :: u32
  sector_size :: int
  disk_id :: int
  disk_filesystem :: u32
  fs_private :: u32

record disk_stream =
  pos :: int
  stream_disk :: u32

text \<open>\<open>disk_addr\<close> is the address of the one \<open>struct disk\<close>; streams live in the heap, at their address.\<close>

record io_state = paging_state +
  drive :: ata
  the_disk :: disk
  disk_addr :: u32
  streams :: "u32 \<Rightarrow> disk_stream"

definition PEACHOS_SECTOR_SIZE :: int where [simp]: "PEACHOS_SECTOR_SIZE = 512"
definition PEACHOS_DISK_TYPE_REAL :: u32 where [simp]: "PEACHOS_DISK_TYPE_REAL = 0"

subsection \<open>Reading sectors\<close>

definition as_u8 :: "int \<Rightarrow> u8" where
  "as_u8 i = word_of_int i"

partial_function (option) wait_ready :: "ata \<Rightarrow> ata option" where
  "wait_ready d = (let (c, d') = ata_insb 0x1F7 d in if c AND 0x08 = 0 then wait_ready d' else Some d')"

primrec read_words :: "nat \<Rightarrow> ata \<Rightarrow> u8 list \<times> ata" where
  "read_words 0 d = ([], d)"
| "read_words (Suc n) d =
     (let (w, d') = ata_insw 0x1F0 d; (bs, d'') = read_words n d'
      in (ucast w # ucast (drop_bit 8 w) # bs, d''))"

primrec read_sectors :: "nat \<Rightarrow> ata \<Rightarrow> (u8 list \<times> ata) option" where
  "read_sectors 0 d = Some ([], d)"
| "read_sectors (Suc n) d =
     do { d' \<leftarrow> wait_ready d;
          let (bs, d'') = read_words 256 d';
          (bs', d''') \<leftarrow> read_sectors n d'';
          Some (bs @ bs', d''') }"

definition disk_read_sector :: "int \<Rightarrow> int \<Rightarrow> ata \<Rightarrow> (int \<times> u8 list \<times> ata) option" where
  "disk_read_sector lba tot d =
     (let d = ata_outb 0x1F6 (as_u8 (drop_bit 24 lba OR 0xE0)) d;
          d = ata_outb 0x1F2 (as_u8 tot) d;
          d = ata_outb 0x1F3 (as_u8 (lba AND 0xff)) d;
          d = ata_outb 0x1F4 (as_u8 (drop_bit 8 lba)) d;
          d = ata_outb 0x1F5 (as_u8 (drop_bit 16 lba)) d;
          d = ata_outb 0x1F7 0x20 d
      in do { (bs, d) \<leftarrow> read_sectors (nat tot) d; Some (0, bs, d) })"

definition disk_get :: "int \<Rightarrow> 'a io_state_scheme \<Rightarrow> u32" where
  "disk_get index k = (if index \<noteq> 0 then 0 else disk_addr k)"

definition disk_read_block :: "u32 \<Rightarrow> u32 \<Rightarrow> int \<Rightarrow> 'a io_state_scheme \<Rightarrow> (int \<times> u8 list \<times> 'a io_state_scheme) option" where
  "disk_read_block idisk lba tot k =
     (if idisk \<noteq> disk_addr k then Some (- EIO, [], k)
      else do { (res, bs, d) \<leftarrow> disk_read_sector (as_int lba) tot (drive k);
                Some (res, bs, k\<lparr>drive := d\<rparr>) })"

subsection \<open>Streams\<close>

lemma smod_512: "(p :: int) smod 512 < 512" "- 512 < (p :: int) smod 512"
  by (auto simp: signed_modulo_int_def sgn_if)

lemma smod_512_nonneg: "0 \<le> (p :: int) \<Longrightarrow> p smod 512 = p mod 512" "0 \<le> (p :: int) \<Longrightarrow> p sdiv 512 = p div 512"
  by (simp_all add: signed_modulo_int_def signed_divide_int_def sgn_if)

definition diskstreamer_new :: "int \<Rightarrow> 'a io_state_scheme \<Rightarrow> u32 \<times> 'a io_state_scheme" where
  "diskstreamer_new dsk_id k =
     (let disk = disk_get dsk_id k
      in if disk = 0 then (0, k)
         else let (streamer, k') = kzalloc 8 k
              in (streamer, k'\<lparr>streams := (streams k')(streamer := \<lparr>pos = 0, stream_disk = disk\<rparr>)\<rparr>))"

definition diskstreamer_seek :: "u32 \<Rightarrow> int \<Rightarrow> 'a io_state_scheme \<Rightarrow> int \<times> 'a io_state_scheme" where
  "diskstreamer_seek stream p k = (0, k\<lparr>streams := (streams k)(stream := (streams k stream)\<lparr>pos := p\<rparr>)\<rparr>)"

text \<open>
  The recursion of \<open>diskstreamer_read\<close>, over the block reader \<open>rd\<close> it calls.  An access \<open>buf[offset+i]\<close>
  below the buffer (a negative position) is undefined: \<open>None\<close>.
\<close>

function stream_read :: "(int \<Rightarrow> 's \<Rightarrow> (int \<times> u8 list \<times> 's) option) \<Rightarrow> int \<Rightarrow> int \<Rightarrow> 's
    \<Rightarrow> (int \<times> u8 list \<times> int \<times> 's) option" where
  "stream_read rd p tot s =
     (let sector = p sdiv PEACHOS_SECTOR_SIZE;
          offset = p smod PEACHOS_SECTOR_SIZE;
          overflow = (offset + tot \<ge> PEACHOS_SECTOR_SIZE);
          total_to_read = (if overflow then tot - ((offset + tot) - PEACHOS_SECTOR_SIZE) else tot)
      in case rd sector s of
           None \<Rightarrow> None
         | Some (res, buf, s') \<Rightarrow>
             if res < 0 then Some (res, [], p, s')
             else if offset < 0 \<and> 0 < total_to_read then None
             else
               let out = take (nat total_to_read) (drop (nat offset) buf);
                   p' = p + total_to_read
               in if overflow then
                    case stream_read rd p' (tot - total_to_read) s' of
                      None \<Rightarrow> None
                    | Some (res', out', p'', s'') \<Rightarrow> Some (res', out @ out', p'', s'')
                  else Some (res, out, p', s'))"
  by pat_completeness auto
termination
proof (relation "measure (\<lambda>(rd, p, tot, s). nat tot)", goal_cases)
  case 1
  show ?case by simp
next
  case (2 rd p tot s)
  then show ?case using smod_512 [of p] by (auto simp: zless_nat_conj)
qed

declare stream_read.simps [simp del]

definition diskstreamer_read :: "u32 \<Rightarrow> int \<Rightarrow> 'a io_state_scheme \<Rightarrow> (int \<times> u8 list \<times> 'a io_state_scheme) option" where
  "diskstreamer_read stream tot k =
     do { (res, out, p, k') \<leftarrow> stream_read (\<lambda>sector. disk_read_block (stream_disk (streams k stream)) (as_u32 sector) 1)
            (pos (streams k stream)) tot k;
          Some (res, out, k'\<lparr>streams := (streams k')(stream := (streams k' stream)\<lparr>pos := p\<rparr>)\<rparr>) }"

definition diskstreamer_close :: "u32 \<Rightarrow> 'a io_state_scheme \<Rightarrow> 'a io_state_scheme" where
  "diskstreamer_close stream k = kfree stream k"

subsection \<open>The contract of a block device\<close>

text \<open>
  \<open>img s\<close> is the content behind the device in state \<open>s\<close>.  Reading a sector below the limit succeeds,
  delivers its 512 bytes and keeps the content.
\<close>

definition img_slice :: "(nat \<Rightarrow> u8) \<Rightarrow> nat \<Rightarrow> nat \<Rightarrow> u8 list" where
  "img_slice f a n = map f [a..<a + n]"

lemma slice_append: "img_slice f a m @ img_slice f (a + m) n = img_slice f a (m + n)"
  using upt_add_eq_append [of a "a + m" n] by (simp add: img_slice_def add.assoc flip: map_append)

lemma slice_sub: "o' + n \<le> m \<Longrightarrow> take n (drop o' (img_slice f a m)) = img_slice f (a + o') n"
  by (simp add: img_slice_def take_map drop_map)

lemma length_slice [simp]: "length (img_slice f a n) = n"
  by (simp add: img_slice_def)

locale block_device =
  fixes rd :: "int \<Rightarrow> 's \<Rightarrow> (int \<times> u8 list \<times> 's) option"
    and img :: "'s \<Rightarrow> nat \<Rightarrow> u8"
    and inv :: "'s \<Rightarrow> bool"
    and sectors :: nat
  assumes read_ok: "inv s \<Longrightarrow> n < sectors \<Longrightarrow>
      \<exists>s'. rd (int n) s = Some (0, img_slice (img s) (512 * n) 512, s') \<and> inv s' \<and> img s' = img s"
begin

text \<open>A stream read is a slice of the image: it returns, and the position advances by its length.\<close>

lemma stream_slice:
  assumes "inv s" and "p + n < 512 * sectors"
  shows "\<exists>s'. stream_read rd (int p) (int n) s = Some (0, img_slice (img s) p n, int (p + n), s')
    \<and> inv s' \<and> img s' = img s"
  using assms
proof (induction n arbitrary: p s rule: less_induct)
  case (less n)
  define q r where "q = p div 512" and "r = p mod 512"
  have p: "p = 512 * q + r" "r < 512" by (simp_all add: q_def r_def)
  have q: "q < sectors" using p less.prems(2) by linarith
  obtain s1 where s1: "rd (int q) s = Some (0, img_slice (img s) (512 * q) 512, s1)" "inv s1" "img s1 = img s"
    using read_ok [OF less.prems(1) q] by blast
  have idx: "int p sdiv 512 = int q" "int p smod 512 = int r"
    using smod_512_nonneg [of "int p"] by (simp_all add: q_def r_def zdiv_int zmod_int)
  show ?case
  proof (cases "512 \<le> r + n")
    case False
    then have "stream_read rd (int p) (int n) s =
        Some (0, take n (drop r (img_slice (img s) (512 * q) 512)), int (p + n), s1)"
      using s1(1) by (subst stream_read.simps) (simp add: idx Let_def)
    moreover have "take n (drop r (img_slice (img s) (512 * q) 512)) = img_slice (img s) p n"
      using False p by (simp add: slice_sub)
    ultimately show ?thesis using s1 by auto
  next
    case True
    define k where "k = 512 - r"
    have k: "0 < k" "k \<le> n" using p(2) True by (simp_all add: k_def)
    have "n - k < n" "p + k + (n - k) < 512 * sectors" using k less.prems(2) by simp_all
    from less.IH [OF this(1) s1(2) this(2)]
    obtain s2 where s2: "stream_read rd (int (p + k)) (int (n - k)) s1
        = Some (0, img_slice (img s1) (p + k) (n - k), int (p + n), s2)" "inv s2" "img s2 = img s1"
      using k by auto
    have ints: "int n - (int r + int n - 512) = int k" "int p + int k = int (p + k)" "int n - int k = int (n - k)"
      using k p(2) by (simp_all add: k_def)
    have sec: "take k (drop r (img_slice (img s) (512 * q) 512)) = img_slice (img s) p k"
      using slice_sub [of r k 512 "img s" "512 * q"] p by (simp only: k_def)
    have "stream_read rd (int p) (int n) s =
        Some (0, img_slice (img s) p k @ img_slice (img s1) (p + k) (n - k), int (p + n), s2)"
      using s1(1) s2(1) True
      by (subst stream_read.simps) (simp add: idx ints sec Let_def del: of_nat_add of_nat_diff)
    moreover have "img_slice (img s) p k @ img_slice (img s1) (p + k) (n - k) = img_slice (img s) p n"
      using k s1(3) by (simp add: slice_append)
    ultimately show ?thesis using s1(3) s2 by auto
  qed
qed

text \<open>Consecutive reads continue where the previous one stopped.\<close>

lemma stream_twice:
  assumes "inv s" and "p + m + n < 512 * sectors"
  shows "\<exists>s1 s2. stream_read rd (int p) (int m) s = Some (0, img_slice (img s) p m, int (p + m), s1)
    \<and> stream_read rd (int (p + m)) (int n) s1 = Some (0, img_slice (img s) (p + m) n, int (p + m + n), s2)
    \<and> img_slice (img s) p m @ img_slice (img s) (p + m) n = img_slice (img s) p (m + n)"
proof -
  obtain s1 where s1: "stream_read rd (int p) (int m) s = Some (0, img_slice (img s) p m, int (p + m), s1)"
    "inv s1" "img s1 = img s"
    using stream_slice [OF assms(1), of p m] assms(2) by auto
  obtain s2 where "stream_read rd (int (p + m)) (int n) s1 = Some (0, img_slice (img s1) (p + m) n, int (p + m + n), s2)"
    using stream_slice [OF s1(2), of "p + m" n] assms(2) by auto
  then show ?thesis using s1 by (auto simp: slice_append)
qed

end


subsection \<open>The disk provides the contract\<close>

definition ata_responsive :: "ata \<Rightarrow> bool" where
  \<comment> \<open>after every poll the drive raises DRQ again at some later poll\<close>
  "ata_responsive d \<longleftrightarrow> (\<forall>n. \<exists>k\<ge>n. ata_status d k AND 0x08 \<noteq> 0)"

lemma wait_ready_returns:
  assumes "ata_status d k AND 0x08 \<noteq> 0" and "ata_polls d \<le> k"
  shows "\<exists>n. wait_ready d = Some (d\<lparr>ata_polls := n\<rparr>)"
  using assms
proof (induction "k - ata_polls d" arbitrary: d)
  case 0
  then have "k = ata_polls d" by simp
  then show ?case using 0 by (subst wait_ready.simps) (auto simp: ata_insb_def)
next
  case (Suc j)
  show ?case
  proof (cases "ata_status d (ata_polls d) AND 0x08 = 0")
    case False
    then show ?thesis by (subst wait_ready.simps) (auto simp: ata_insb_def)
  next
    case True
    let ?d = "d\<lparr>ata_polls := Suc (ata_polls d)\<rparr>"
    have "\<exists>n. wait_ready ?d = Some (?d\<lparr>ata_polls := n\<rparr>)"
      using Suc.hyps(1) [of ?d] Suc.hyps(2) Suc.prems by simp
    then show ?thesis using True by (subst wait_ready.simps) (auto simp: ata_insb_def)
  qed
qed

lemma word_bytes:
  fixes a b :: u8
  defines "w \<equiv> ucast a OR push_bit 8 (ucast b) :: u16"
  shows "ucast w = a" and "ucast (drop_bit 8 w) = b"
proof -
  show "ucast w = a"
  proof (rule bit_word_eqI)
    fix n assume "n < LENGTH(8)"
    then show "bit (ucast w :: u8) n = bit a n" by (auto simp: w_def bit_simps)
  qed
  show "ucast (drop_bit 8 w) = b"
  proof (rule bit_word_eqI)
    fix n assume "n < LENGTH(8)"
    then show "bit (ucast (drop_bit 8 w) :: u8) n = bit b n"
      using bit_imp_le_length [of a "8 + n"] by (auto simp: w_def bit_simps)
  qed
qed

lemma read_words_slice:
  "read_words n d = (img_slice (ata_image d) (ata_pos d) (2 * n), d\<lparr>ata_pos := ata_pos d + 2 * n\<rparr>)"
proof (induction n arbitrary: d)
  case 0
  then show ?case by (simp add: img_slice_def)
next
  case (Suc n)
  let ?d = "d\<lparr>ata_pos := ata_pos d + 2\<rparr>"
  have "read_words (Suc n) d = (ata_image d (ata_pos d) # ata_image d (ata_pos d + 1) # fst (read_words n ?d),
      snd (read_words n ?d))"
    by (simp only: read_words.simps ata_insw_def Let_def prod.case case_prod_unfold fst_conv snd_conv word_bytes)
  moreover have "img_slice (ata_image d) (ata_pos d) (2 * Suc n) =
      ata_image d (ata_pos d) # ata_image d (ata_pos d + 1) # img_slice (ata_image d) (ata_pos d + 2) (2 * n)"
    by (simp add: img_slice_def upt_conv_Cons del: upt_Suc)
  ultimately show ?case using Suc [of ?d] by simp
qed

lemma read_sectors_slice:
  assumes "ata_responsive d"
  shows "\<exists>d'. read_sectors n d = Some (img_slice (ata_image d) (ata_pos d) (512 * n), d')
    \<and> ata_image d' = ata_image d \<and> ata_status d' = ata_status d"
  using assms
proof (induction n arbitrary: d)
  case 0
  then show ?case by (simp add: img_slice_def)
next
  case (Suc n)
  obtain k where "ata_polls d \<le> k" "ata_status d k AND 0x08 \<noteq> 0"
    using Suc.prems by (auto simp: ata_responsive_def)
  then obtain j where j: "wait_ready d = Some (d\<lparr>ata_polls := j\<rparr>)"
    using wait_ready_returns by blast
  let ?d = "d\<lparr>ata_polls := j, ata_pos := ata_pos d + 512\<rparr>"
  have "ata_responsive ?d" using Suc.prems by (simp add: ata_responsive_def)
  then obtain d' where d': "read_sectors n ?d = Some (img_slice (ata_image d) (ata_pos d + 512) (512 * n), d')"
    "ata_image d' = ata_image d" "ata_status d' = ata_status d"
    using Suc.IH [of ?d] by auto
  have words: "read_words 256 (d\<lparr>ata_polls := j\<rparr>) = (img_slice (ata_image d) (ata_pos d) 512, ?d)"
    using read_words_slice [of 256 "d\<lparr>ata_polls := j\<rparr>"] by simp
  have "read_sectors (Suc n) d
      = Some (img_slice (ata_image d) (ata_pos d) 512 @ img_slice (ata_image d) (ata_pos d + 512) (512 * n), d')"
    using j words d'(1) by simp
  also have "\<dots> = Some (img_slice (ata_image d) (ata_pos d) (512 * Suc n), d')"
    by (simp add: slice_append)
  finally show ?case using d'(2,3) by blast
qed

lemma unat_as_u8: "unat (as_u8 i) = nat (i mod 256)"
  by (simp add: as_u8_def unsigned_of_int take_bit_eq_mod)

lemma drive_select: "0 \<le> x \<Longrightarrow> x < 16 \<Longrightarrow> nat ((x OR 0xE0) mod 256) mod 16 = nat (x :: int)"
proof -
  assume "0 \<le> x" "x < 16"
  then have "x = 0 \<or> x = 1 \<or> x = 2 \<or> x = 3 \<or> x = 4 \<or> x = 5 \<or> x = 6 \<or> x = 7 \<or> x = 8 \<or> x = 9
      \<or> x = 10 \<or> x = 11 \<or> x = 12 \<or> x = 13 \<or> x = 14 \<or> x = 15" by presburger
  then show ?thesis by (elim disjE) simp_all
qed

lemma lba28:
  assumes "0 \<le> lba" and "lba < 268435456"
  shows "nat (lba mod 256) + 256 * nat (lba div 256 mod 256) + 65536 * nat (lba div 65536 mod 256)
    + 16777216 * nat (lba div 16777216) = nat lba"
proof -
  obtain n where n: "lba = int n" using assms(1) nonneg_int_cases by blast
  have "n mod 256 + 256 * (n div 256 mod 256) + 65536 * (n div 256 div 256 mod 256)
      + 16777216 * (n div 256 div 256 div 256) = n"
    using div_mult_mod_eq [of n 256] div_mult_mod_eq [of "n div 256" 256]
      div_mult_mod_eq [of "n div 256 div 256" 256] by linarith
  then have "n mod 256 + 256 * (n div 256 mod 256) + 65536 * (n div 65536 mod 256)
      + 16777216 * (n div 16777216) = n"
    by (simp flip: div_mult2_eq)
  moreover have "nat (lba mod 256) = n mod 256" "nat (lba div 256 mod 256) = n div 256 mod 256"
    "nat (lba div 65536 mod 256) = n div 65536 mod 256" "nat (lba div 16777216) = n div 16777216" "nat lba = n"
    by (simp_all add: n nat_mod_distrib nat_div_distrib)
  ultimately show ?thesis by simp
qed


lemma disk_read_sector_slice:
  assumes "ata_responsive d" and "0 \<le> lba" and "lba < 268435456"
  shows "\<exists>d'. disk_read_sector lba tot d = Some (0, img_slice (ata_image d) (512 * nat lba) (512 * nat tot), d')
    \<and> ata_image d' = ata_image d \<and> ata_responsive d'"
proof -
  define d0 where "d0 = d\<lparr>ata_drive := as_u8 (drop_bit 24 lba OR 0xE0), ata_count := as_u8 tot,
    ata_lo := as_u8 (lba AND 0xff), ata_mid := as_u8 (drop_bit 8 lba), ata_hi := as_u8 (drop_bit 16 lba)\<rparr>"
  have regs: "disk_read_sector lba tot d =
      (do { (bs, d) \<leftarrow> read_sectors (nat tot) (d0\<lparr>ata_pos := 512 * ata_lba d0\<rparr>); Some (0, bs, d) })"
    by (simp add: disk_read_sector_def ata_outb_def d0_def Let_def)
  have top: "0 \<le> lba div 16777216" "lba div 16777216 < 16" using assms(2,3) by simp_all
  have "ata_lba d0 = nat (lba mod 256) + 256 * nat (lba div 256 mod 256) + 65536 * nat (lba div 65536 mod 256)
      + 16777216 * nat (lba div 16777216)"
  proof -
    have "lba AND 0xff = lba mod 256"
      using take_bit_eq_mask [of 8 lba] by (simp add: take_bit_eq_mod mask_eq_exp_minus_1)
    then show ?thesis
      using drive_select [OF top] by (simp add: ata_lba_def d0_def unat_as_u8 drop_bit_eq_div)
  qed
  then have lba: "ata_lba d0 = nat lba" using lba28 [OF assms(2,3)] by simp
  have "ata_responsive (d0\<lparr>ata_pos := 512 * nat lba\<rparr>)"
    using assms(1) by (simp add: ata_responsive_def d0_def)
  from read_sectors_slice [OF this, of "nat tot"]
  obtain d' where "read_sectors (nat tot) (d0\<lparr>ata_pos := 512 * nat lba\<rparr>)
      = Some (img_slice (ata_image d) (512 * nat lba) (512 * nat tot), d')"
    "ata_image d' = ata_image d" "ata_status d' = ata_status d"
    by (auto simp: d0_def)
  then show ?thesis using assms(1) by (simp add: regs lba ata_responsive_def)
qed

definition reader :: "'a io_state_scheme \<Rightarrow> int \<Rightarrow> 'a io_state_scheme \<Rightarrow> (int \<times> u8 list \<times> 'a io_state_scheme) option" where
  "reader k0 sector = disk_read_block (disk_addr k0) (as_u32 sector) 1"

definition reading :: "'a io_state_scheme \<Rightarrow> 'a io_state_scheme \<Rightarrow> bool" where
  \<comment> \<open>only the drive has moved since \<open>k0\<close>\<close>
  "reading k0 k \<longleftrightarrow> (\<exists>d. k = k0\<lparr>drive := d\<rparr> \<and> ata_responsive d)"

interpretation bd: block_device "reader k0" "\<lambda>k. ata_image (drive k)" "reading k0" 4194304
  for k0 :: "'a io_state_scheme"
proof
  fix k :: "'a io_state_scheme" and n :: nat
  assume "reading k0 k" and n: "n < 4194304"
  then obtain d where d: "k = k0\<lparr>drive := d\<rparr>" "ata_responsive d" by (auto simp: reading_def)
  have i: "as_int (as_u32 (int n)) = int n"
    using n by (simp only: as_u32_of_nat) (simp add: as_int_nonneg unat_of_nat32)
  obtain d' where "disk_read_sector (int n) 1 d = Some (0, img_slice (ata_image d) (512 * n) 512, d')"
    "ata_image d' = ata_image d" "ata_responsive d'"
    using disk_read_sector_slice [OF d(2), of "int n" 1] n by auto
  then show "\<exists>k'. reader k0 (int n) k = Some (0, img_slice (ata_image (drive k)) (512 * n) 512, k')
      \<and> reading k0 k' \<and> ata_image (drive k') = ata_image (drive k)"
    using d(1) i by (auto simp: reader_def disk_read_block_def reading_def)
qed

subsection \<open>Properties\<close>

text \<open>
  on a drive that keeps becoming ready, \<open>disk_read_sector\<close> returns, for every LBA28 address,
  exactly the \<open>tot\<close> sectors of the image that start at \<open>lba\<close>: the register values it computes select
  that sector and its polling loops end.
\<close>
theorem disk_read_sector_spec:
  assumes "ata_responsive d" and "0 \<le> lba" and "lba < 268435456"
  shows "\<exists>d'. disk_read_sector lba tot d = Some (0, img_slice (ata_image d) (512 * nat lba) (512 * nat tot), d')
    \<and> ata_image d' = ata_image d"
  using disk_read_sector_slice [OF assms] by blast

definition test_drive :: ata where
  \<comment> \<open>byte \<open>i\<close> of the image is \<open>i mod 256\<close>; the drive is ready at every other poll\<close>
  "test_drive = \<lparr>ata_drive = 0, ata_count = 0, ata_lo = 0, ata_mid = 0, ata_hi = 0,
     ata_image = (\<lambda>i. of_nat i), ata_status = (\<lambda>n. if even n then 0x50 else 0x58), ata_polls = 0, ata_pos = 0\<rparr>"

lemma test_drive_responsive: "ata_responsive test_drive"
  unfolding ata_responsive_def
proof
  fix n
  show "\<exists>k\<ge>n. ata_status test_drive k AND 0x08 \<noteq> 0"
    by (rule exI [of _ "2 * n + 1"]) (simp add: test_drive_def)
qed

theorem disk_read_sector_spec_witness:
  "\<exists>d'. disk_read_sector 0x1234567 2 test_drive
     = Some (0, img_slice (ata_image test_drive) (512 * 0x1234567) 1024, d')"
  using disk_read_sector_spec [OF test_drive_responsive, of "0x1234567" 2] by auto

lemma stream_run:
  assumes "stream_disk (streams k st) = disk_addr k" and "ata_responsive (drive k)"
    and "pos (streams k st) = int p" and "p + n < 2147483648"
  shows "\<exists>d. diskstreamer_read st (int n) k = Some (0, img_slice (ata_image (drive k)) p n,
      k\<lparr>drive := d, streams := (streams k)(st := (streams k st)\<lparr>pos := int (p + n)\<rparr>)\<rparr>)
    \<and> ata_image d = ata_image (drive k) \<and> ata_responsive d"
proof -
  have "reading k k" using assms(2) by (auto simp: reading_def intro: exI [of _ "drive k"])
  then obtain k' where k': "stream_read (reader k) (int p) (int n) k
      = Some (0, img_slice (ata_image (drive k)) p n, int (p + n), k')"
    "reading k k'" "ata_image (drive k') = ata_image (drive k)"
    using bd.stream_slice [of k k p n] assms(4) by auto
  have "(\<lambda>sector. disk_read_block (stream_disk (streams k st)) (as_u32 sector) 1) = reader k"
    by (simp add: fun_eq_iff reader_def assms(1))
  then show ?thesis
    using k' assms(3) by (auto simp: diskstreamer_read_def reading_def)
qed

text \<open>
  C37: a stream reads the bytes of the disk image at its position, whatever sector boundaries the
  request crosses, and advances by as many; nothing but the drive and the position changes.
\<close>
theorem diskstreamer_read_spec:
  assumes "stream_disk (streams k st) = disk_addr k" and "ata_responsive (drive k)"
    and "pos (streams k st) = int p" and "p + n < 2147483648"
  shows "\<exists>d. diskstreamer_read st (int n) k = Some (0, img_slice (ata_image (drive k)) p n,
      k\<lparr>drive := d, streams := (streams k)(st := (streams k st)\<lparr>pos := int (p + n)\<rparr>)\<rparr>)
    \<and> ata_image d = ata_image (drive k) \<and> ata_responsive d"
  using assms by (rule stream_run)

definition test_io :: io_state where
  "test_io = \<lparr>ram = (\<lambda>_. 0), kernel_heap = the_heap, current_directory = 0, cr3 = 0, drive = test_drive,
     the_disk = \<lparr>disk_type = 0, sector_size = 512, disk_id = 0, disk_filesystem = 0, fs_private = 0\<rparr>,
     disk_addr = 0x200000, streams = (\<lambda>_. \<lparr>pos = 510, stream_disk = 0x200000\<rparr>)\<rparr>"

theorem diskstreamer_read_spec_witness:
  "\<exists>k'. diskstreamer_read 0x1000000 4 test_io = Some (0, [254, 255, 0, 1], k') \<and> pos (streams k' 0x1000000) = 514"
proof -
  have "stream_disk (streams test_io 0x1000000) = disk_addr test_io" "ata_responsive (drive test_io)"
    "pos (streams test_io 0x1000000) = int 510"
    using test_drive_responsive by (simp_all add: test_io_def)
  from diskstreamer_read_spec [OF this, of 4]
  show ?thesis by (auto simp: img_slice_def test_io_def test_drive_def upt_rec)
qed

end
