(* ===== verification/CString.thy ===== *)
theory CString
  imports Memory
begin

text \<open>
  \<^verbatim>\<open>src/src/string/string.c\<close>: NUL-terminated strings in memory.  \<open>cstr m p s\<close> says that the bytes
  \<open>s\<close> and a terminator lie at \<open>p\<close>.  The loops of \<open>strlen\<close> and \<open>strcpy\<close> have no bound of their own:
  they are partial functions, \<open>None\<close> when the loop never meets a NUL, and their theorems state that they
  return.
\<close>

primrec cstr :: "mem \<Rightarrow> u32 \<Rightarrow> u8 list \<Rightarrow> bool" where
  "cstr m p [] \<longleftrightarrow> m p = 0"
| "cstr m p (c # s) \<longleftrightarrow> m p = c \<and> c \<noteq> 0 \<and> cstr m (p + 1) s"

subsection \<open>Operations\<close>

definition tolower :: "u8 \<Rightarrow> u8" where
  "tolower s1 = (if sgn_char s1 \<ge> 65 \<and> sgn_char s1 \<le> 90 then s1 + 32 else s1)"

partial_function (option) strlen_loop :: "mem \<Rightarrow> u32 \<Rightarrow> int \<Rightarrow> int option" where
  "strlen_loop m ptr i = (if m ptr \<noteq> 0 then strlen_loop m (ptr + 1) (i + 1) else Some i)"

definition strlen :: "mem \<Rightarrow> u32 \<Rightarrow> int option" where
  "strlen m ptr = strlen_loop m ptr 0"

function strnlen_loop :: "mem \<Rightarrow> u32 \<Rightarrow> int \<Rightarrow> int \<Rightarrow> int" where
  "strnlen_loop m ptr i mx =
     (if i < mx then if m (ptr + as_u32 i) = 0 then i else strnlen_loop m ptr (i + 1) mx else i)"
  by pat_completeness auto
termination by (relation "measure (\<lambda>(m, p, i, mx). nat (mx - i))") auto

definition strnlen :: "mem \<Rightarrow> u32 \<Rightarrow> int \<Rightarrow> int" where
  "strnlen m ptr mx = strnlen_loop m ptr 0 mx"

partial_function (option) strcpy_loop :: "mem \<Rightarrow> u32 \<Rightarrow> u32 \<Rightarrow> mem option" where
  "strcpy_loop m dest src =
     (if m src \<noteq> 0 then strcpy_loop (m(dest := m src)) (dest + 1) (src + 1)
      else Some (m(dest := 0)))"

definition strcpy :: "mem \<Rightarrow> u32 \<Rightarrow> u32 \<Rightarrow> (u32 \<times> mem) option" where
  "strcpy m dest src = map_option (Pair dest) (strcpy_loop m dest src)"

function strncpy_loop :: "mem \<Rightarrow> u32 \<Rightarrow> u32 \<Rightarrow> int \<Rightarrow> int \<Rightarrow> int \<times> mem" where
  "strncpy_loop m dest src i count =
     (if i < count - 1 then
        if m (src + as_u32 i) = 0 then (i, m)
        else strncpy_loop (m(dest + as_u32 i := m (src + as_u32 i))) dest src (i + 1) count
      else (i, m))"
  by pat_completeness auto
termination by (relation "measure (\<lambda>(m, d, s, i, count). nat (count - i))") auto

definition strncpy :: "mem \<Rightarrow> u32 \<Rightarrow> u32 \<Rightarrow> int \<Rightarrow> u32 \<times> mem" where
  "strncpy m dest src count =
     (let (i, m') = strncpy_loop m dest src 0 count in (dest, m'(dest + as_u32 i := 0)))"

primrec istrncmp_loop :: "mem \<Rightarrow> u32 \<Rightarrow> u32 \<Rightarrow> nat \<Rightarrow> int" where
  "istrncmp_loop m s1 s2 0 = 0"
| "istrncmp_loop m s1 s2 (Suc n) =
     (let u1 = m s1; u2 = m s2
      in if u1 \<noteq> u2 \<and> tolower u1 \<noteq> tolower u2 then uint u1 - uint u2
         else if u1 = 0 then 0 else istrncmp_loop m (s1 + 1) (s2 + 1) n)"

definition istrncmp :: "mem \<Rightarrow> u32 \<Rightarrow> u32 \<Rightarrow> int \<Rightarrow> int" where
  "istrncmp m s1 s2 n = istrncmp_loop m s1 s2 (nat n)"

primrec strncmp_loop :: "mem \<Rightarrow> u32 \<Rightarrow> u32 \<Rightarrow> nat \<Rightarrow> int" where
  "strncmp_loop m s1 s2 0 = 0"
| "strncmp_loop m s1 s2 (Suc n) =
     (let u1 = m s1; u2 = m s2
      in if u1 \<noteq> u2 then uint u1 - uint u2
         else if u1 = 0 then 0 else strncmp_loop m (s1 + 1) (s2 + 1) n)"

definition strncmp :: "mem \<Rightarrow> u32 \<Rightarrow> u32 \<Rightarrow> int \<Rightarrow> int" where
  "strncmp m str1 str2 n = strncmp_loop m str1 str2 (nat n)"

function strnlen_terminator_loop :: "mem \<Rightarrow> u32 \<Rightarrow> int \<Rightarrow> int \<Rightarrow> u8 \<Rightarrow> int" where
  "strnlen_terminator_loop m str i mx terminator =
     (if i < mx then
        if m (str + as_u32 i) = 0 \<or> m (str + as_u32 i) = terminator then i
        else strnlen_terminator_loop m str (i + 1) mx terminator
      else i)"
  by pat_completeness auto
termination by (relation "measure (\<lambda>(m, p, i, mx, t). nat (mx - i))") auto

definition strnlen_terminator :: "mem \<Rightarrow> u32 \<Rightarrow> int \<Rightarrow> u8 \<Rightarrow> int" where
  "strnlen_terminator m str mx terminator = strnlen_terminator_loop m str 0 mx terminator"

definition isdigit :: "u8 \<Rightarrow> bool" where
  "isdigit c \<longleftrightarrow> sgn_char c \<ge> 48 \<and> sgn_char c \<le> 57"

definition tonumericdigit :: "u8 \<Rightarrow> int" where
  "tonumericdigit c = sgn_char c - 48"

text \<open>\<open>itoa\<close> works in a static buffer of 12 bytes, at the address \<open>buf\<close> the linker gives it.\<close>

function itoa_loop :: "mem \<Rightarrow> u32 \<Rightarrow> int \<Rightarrow> int \<Rightarrow> int \<times> mem" where
  "itoa_loop m buf loc i =
     (if i \<noteq> 0 then
        itoa_loop (m(buf + as_u32 (loc - 1) := word_of_int (48 - i smod 10))) buf (loc - 1) (i sdiv 10)
      else (loc, m))"
  by pat_completeness auto
termination
proof (relation "measure (\<lambda>(m, t, loc, i). nat \<bar>i\<bar>)")
  fix m :: mem and t :: u32 and loc i :: int
  assume "i \<noteq> 0"
  then show "((m(t + as_u32 (loc - 1) := word_of_int (48 - i smod 10)), t, loc - 1, i sdiv 10), m, t, loc, i)
      \<in> measure (\<lambda>(m, t, loc, i). nat \<bar>i\<bar>)"
    by (auto simp: signed_divide_int_def sgn_if)
qed simp

declare strnlen_loop.simps [simp del] strncpy_loop.simps [simp del]
  strnlen_terminator_loop.simps [simp del] itoa_loop.simps [simp del]

definition itoa :: "mem \<Rightarrow> u32 \<Rightarrow> int \<Rightarrow> u32 \<times> mem" where
  "itoa m buf i =
     (let loc = 11;
          m = m(buf + 11 := 0);
          neg = (if i \<ge> 0 then False else True);
          i = (if i \<ge> 0 then - i else i);
          (loc, m) = itoa_loop m buf loc i;
          (loc, m) = (if loc = 11 then (loc - 1, m(buf + as_u32 (loc - 1) := 48)) else (loc, m));
          (loc, m) = (if neg then (loc - 1, m(buf + as_u32 (loc - 1) := 45)) else (loc, m))
      in (buf + as_u32 loc, m))"

subsection \<open>Strings and lists\<close>

lemma cstr_iff:
  "cstr m p s \<longleftrightarrow> (\<forall>i < length s. m (p + of_nat i) = s ! i \<and> s ! i \<noteq> 0) \<and> m (p + of_nat (length s)) = 0"
proof (induction s arbitrary: p)
  case Nil
  then show ?case by simp
next
  case (Cons c s)
  have "(\<forall>i < length (c # s). m (p + of_nat i) = (c # s) ! i \<and> (c # s) ! i \<noteq> 0) \<longleftrightarrow>
      m p = c \<and> c \<noteq> 0 \<and> (\<forall>i < length s. m (p + 1 + of_nat i) = s ! i \<and> s ! i \<noteq> 0)"
    unfolding length_Cons by (subst All_less_Suc2) (auto simp: add.assoc)
  moreover have "m (p + of_nat (length (c # s))) = m (p + 1 + of_nat (length s))"
    by (simp add: add.assoc)
  ultimately show ?case using Cons.IH [of "p + 1"] by auto
qed

lemma cstr_unique: "cstr m p s \<Longrightarrow> cstr m p t \<Longrightarrow> s = t"
proof (induction s arbitrary: p t)
  case Nil
  then show ?case by (cases t) auto
next
  case (Cons c s)
  then show ?case by (cases t) auto
qed

lemma strlen_loop_cstr: "cstr m p s \<Longrightarrow> strlen_loop m p i = Some (i + int (length s))"
  by (induction s arbitrary: p i) (subst strlen_loop.simps; simp)+

lemma cstr_drop: "cstr m p s \<Longrightarrow> n \<le> length s \<Longrightarrow> cstr m (p + of_nat n) (drop n s)"
proof (induction n arbitrary: p s)
  case 0
  then show ?case by simp
next
  case (Suc n)
  then obtain c r where "s = c # r" by (cases s) auto
  then show ?case using Suc.IH [of "p + 1" r] Suc.prems by (simp add: add.assoc)
qed

lemma strnlen_loop_cstr:
  assumes "cstr m p s"
  shows "i \<le> length s \<Longrightarrow> strnlen_loop m p (int i) mx = max (int i) (min (int (length s)) mx)"
proof (induction "length s - i" arbitrary: i)
  case 0
  then show ?case using assms by (subst strnlen_loop.simps) (simp add: cstr_iff)
next
  case (Suc d)
  then have "m (p + of_nat i) \<noteq> 0" using assms by (simp add: cstr_iff)
  then show ?case
    using Suc.hyps(1) [of "Suc i"] Suc.hyps(2) Suc.prems
    by (subst strnlen_loop.simps) (auto simp: add.commute)
qed


subsection \<open>Copies\<close>

text \<open>
  \<open>apart d s n\<close>: writing the \<open>n\<close> bytes at \<open>d\<close> upwards does not touch a byte of the \<open>n\<close> at \<open>s\<close> before
  it is read.
\<close>

definition apart :: "u32 \<Rightarrow> u32 \<Rightarrow> nat \<Rightarrow> bool" where
  "apart d s n \<longleftrightarrow> n \<le> unat (s - d) \<and> n \<le> unat (d - s)"

lemma apart_neq: "apart d s n \<Longrightarrow> i < n \<Longrightarrow> j < n \<Longrightarrow> n < 4294967296 \<Longrightarrow> s + of_nat i \<noteq> d + of_nat j"
proof
  assume a: "apart d s n" "i < n" "j < n" "n < 4294967296" and eq: "s + of_nat i = d + of_nat j"
  show False
  proof (cases "i \<le> j")
    case True
    then have "s - d = of_nat (j - i)" using eq by (simp add: of_nat_diff algebra_simps)
    then have "unat (s - d) = j - i" using a(3,4) by (simp add: unat_of_nat32 del: of_nat_diff)
    then show False using a(1,3) unfolding apart_def by linarith
  next
    case False
    then have "d - s = of_nat (i - j)" using eq by (simp add: of_nat_diff algebra_simps)
    then have "unat (d - s) = i - j" using a(2,4) by (simp add: unat_of_nat32 del: of_nat_diff)
    then show False using a(1,2) unfolding apart_def by linarith
  qed
qed

lemma apart_Suc:
  assumes "apart d s (Suc n)"
  shows "apart (d + 1) (s + 1) n" and "d \<noteq> s"
  using assms by (auto simp: apart_def)

lemma cstr_cong:
  "cstr m p s \<Longrightarrow> (\<And>i. i \<le> length s \<Longrightarrow> m' (p + of_nat i) = m (p + of_nat i)) \<Longrightarrow> cstr m' p s"
  by (simp add: cstr_iff)

lemma strcpy_loop_cstr:
  assumes "cstr m src s" and "apart dest src (Suc (length s))" and "length s < 4294967295"
  shows "\<exists>m'. strcpy_loop m dest src = Some m' \<and> cstr m' dest s
    \<and> (\<forall>a. length s < unat (a - dest) \<longrightarrow> m' a = m a)"
  using assms
proof (induction s arbitrary: m dest src)
  case Nil
  then show ?case
    by (subst strcpy_loop.simps) (auto intro!: exI [of _ "m(dest := 0)"])
next
  case (Cons c s)
  let ?m = "m(dest := m src)"
  have n: "Suc (length (c # s)) < 4294967296" using Cons.prems(3) by simp
  have keep: "src + of_nat i \<noteq> dest + of_nat 0" if "i \<le> length (c # s)" for i
    by (rule apart_neq [OF Cons.prems(2) _ _ n]) (use that in auto)
  have same: "?m (src + 1 + of_nat i) = m (src + 1 + of_nat i)" if "i \<le> length s" for i
    using keep [of "Suc i"] that by (simp add: add.assoc)
  have "cstr m (src + 1) s" using Cons.prems(1) by simp
  then have "cstr ?m (src + 1) s"
  proof (rule cstr_cong)
    fix i assume "i \<le> length s"
    then show "?m (src + 1 + of_nat i) = m (src + 1 + of_nat i)" by (rule same)
  qed
  moreover have "apart (dest + 1) (src + 1) (Suc (length s))"
    using apart_Suc(1) [OF Cons.prems(2)] by simp
  ultimately obtain m' where m': "strcpy_loop ?m (dest + 1) (src + 1) = Some m'" "cstr m' (dest + 1) s"
    "\<And>a. length s < unat (a - (dest + 1)) \<Longrightarrow> m' a = ?m a"
    using Cons.IH [of ?m "src + 1" "dest + 1"] Cons.prems(3) by (auto simp del: fun_upd_apply)
  have run: "strcpy_loop m dest src = Some m'"
    using Cons.prems(1) m'(1) by (subst strcpy_loop.simps) simp
  have head: "m' dest = c"
  proof -
    have "length s < unat (dest - (dest + 1))"
      using Cons.prems(3) unat_sub_self_1 [of dest] by simp
    then show ?thesis using m'(3) [of dest] Cons.prems(1) by simp
  qed
  have "m' a = m a" if "length (c # s) < unat (a - dest)" for a
  proof -
    have ne: "unat (a - dest) \<noteq> 0" using that by simp
    then have "a \<noteq> dest" by auto
    moreover have "length s < unat (a - (dest + 1))" using unat_sub_Suc [OF ne] that by simp
    ultimately show ?thesis using m'(3) by simp
  qed
  then show ?case using run head m'(2) Cons.prems(1) by auto
qed

lemma strncpy_loop_cstr:
  assumes "cstr m0 src s" and "apart dest src (Suc (length s))" and "length s < 4294967295"
    and "\<forall>k \<le> length s. m (src + of_nat k) = m0 (src + of_nat k)"
    and "\<forall>k < i. m (dest + of_nat k) = s ! k" and "i \<le> length s"
    and "\<forall>a. i \<le> unat (a - dest) \<longrightarrow> m a = m0 a"
  shows "\<exists>n m'. strncpy_loop m dest src (int i) count = (int n, m')
    \<and> n = max i (min (length s) (nat (count - 1)))
    \<and> (\<forall>k < n. m' (dest + of_nat k) = s ! k) \<and> (\<forall>a. n \<le> unat (a - dest) \<longrightarrow> m' a = m0 a)"
  using assms(4-7)
proof (induction "length s - i" arbitrary: i m)
  case 0
  then have i: "i = length s" by simp
  then have "m (src + of_nat i) = 0" using 0 assms(1) by (simp add: cstr_iff)
  then have "strncpy_loop m dest src (int i) count = (int i, m)"
    by (subst strncpy_loop.simps) simp
  then show ?case using 0 i by (intro exI [of _ i] exI [of _ m]) simp
next
  case (Suc d)
  then have lt: "i < length s" by simp
  show ?case
  proof (cases "int i < count - 1")
    case False
    then have "strncpy_loop m dest src (int i) count = (int i, m)"
      by (subst strncpy_loop.simps) simp
    then show ?thesis using Suc.prems False by (intro exI [of _ i] exI [of _ m]) auto
  next
    case True
    have src: "m (src + of_nat i) = s ! i" "s ! i \<noteq> 0"
      using Suc.prems(1) assms(1) lt by (simp_all add: cstr_iff)
    let ?m = "m(dest + of_nat i := s ! i)"
    have n: "Suc (length s) < 4294967296" using assms(3) by simp
    have step: "strncpy_loop m dest src (int i) count = strncpy_loop ?m dest src (int (Suc i)) count"
      using True src by (subst strncpy_loop.simps) (simp add: add.commute)
    have "src + of_nat k \<noteq> dest + of_nat i" if "k \<le> length s" for k
      by (rule apart_neq [OF assms(2) _ _ n]) (use that lt in auto)
    then have c1: "\<forall>k \<le> length s. ?m (src + of_nat k) = m0 (src + of_nat k)"
      using Suc.prems(1) by simp
    have c2: "\<forall>k < Suc i. ?m (dest + of_nat k) = s ! k"
      using Suc.prems(2) lt assms(3) by (auto simp: less_Suc_eq of_nat_inj32)
    have c3: "\<forall>a. Suc i \<le> unat (a - dest) \<longrightarrow> ?m a = m0 a"
      using Suc.prems(4) lt assms(3) by (auto simp: unat_of_nat32)
    have "\<exists>n m'. strncpy_loop ?m dest src (int (Suc i)) count = (int n, m')
      \<and> n = max (Suc i) (min (length s) (nat (count - 1)))
      \<and> (\<forall>k < n. m' (dest + of_nat k) = s ! k) \<and> (\<forall>a. n \<le> unat (a - dest) \<longrightarrow> m' a = m0 a)"
      by (rule Suc.hyps(1) [OF _ c1 c2 _ c3]) (use Suc.hyps(2) lt in auto)
    moreover have "max (Suc i) (min (length s) (nat (count - 1))) = max i (min (length s) (nat (count - 1)))"
      using True lt by auto
    ultimately show ?thesis unfolding step by simp
  qed
qed

subsection \<open>Comparisons\<close>

lemma uint8_eq: "uint (a :: u8) = uint b \<longleftrightarrow> a = b" "uint (a :: u8) = 0 \<longleftrightarrow> a = 0"
  by (auto simp: unsigned_word_eqI)

lemma cstr_Nil_head: "cstr m p s \<Longrightarrow> (m p = 0) = (s = [])"
  by (cases s) auto

lemma strncmp_loop_cstr:
  "cstr m p s \<Longrightarrow> cstr m q t \<Longrightarrow> strncmp_loop m p q n = 0 \<longleftrightarrow> take n s = take n t"
proof (induction n arbitrary: p q s t)
  case 0
  then show ?case by simp
next
  case (Suc n)
  then show ?case by (cases s; cases t) (auto simp: Let_def uint8_eq)
qed

lemma tolower_zero: "tolower c = 0 \<longleftrightarrow> c = 0"
  "tolower c = tolower 0 \<longleftrightarrow> c = 0" "tolower 0 = tolower c \<longleftrightarrow> c = 0"
proof -
  have z: "tolower c = 0 \<longleftrightarrow> c = 0" for c
  proof (cases "sgn_char c \<ge> 65 \<and> sgn_char c \<le> 90")
    case True
    have "sgn_char 224 = - 32" "sgn_char 0 = 0" by (simp_all add: sgn_char_def)
    then have ne: "c \<noteq> 224" "c \<noteq> 0" using True by auto
    have "c + 32 \<noteq> 0"
    proof
      assume "c + 32 = 0"
      then have "c = 0 - 32" by (metis add_diff_cancel_right')
      then show False using ne(1) by simp
    qed
    moreover have "tolower c = c + 32" using True by (simp only: tolower_def if_True simp_thms)
    ultimately show ?thesis using ne(2) by (simp only:)
  next
    case False
    then show ?thesis by (auto simp: tolower_def)
  qed
  have "tolower 0 = 0" using z [of 0] by simp
  then show "tolower c = 0 \<longleftrightarrow> c = 0" "tolower c = tolower 0 \<longleftrightarrow> c = 0" "tolower 0 = tolower c \<longleftrightarrow> c = 0"
    using z [of c] by metis+
qed

lemma istrncmp_loop_cstr:
  "cstr m p s \<Longrightarrow> cstr m q t \<Longrightarrow>
   istrncmp_loop m p q n = 0 \<longleftrightarrow> map tolower (take n s) = map tolower (take n t)"
proof (induction n arbitrary: p q s t)
  case 0
  then show ?case by simp
next
  case (Suc n)
  then show ?case
    by (cases s; cases t) (auto simp: Let_def tolower_zero uint8_eq)
qed


subsection \<open>Decimal digits\<close>

fun dec :: "nat \<Rightarrow> u8 list" where
  "dec n = (if n = 0 then [] else dec (n div 10) @ [48 + of_nat (n mod 10)])"

declare dec.simps [simp del]

definition decimal :: "int \<Rightarrow> u8 list" where
  "decimal i = (if i < 0 then [45] else []) @ (if i = 0 then [48] else dec (nat \<bar>i\<bar>))"

definition digits_value :: "u8 list \<Rightarrow> int" where
  "digits_value ds = foldl (\<lambda>v c. 10 * v + tonumericdigit c) 0 ds"

definition parse_decimal :: "u8 list \<Rightarrow> int" where
  \<comment> \<open>the number a signed decimal string denotes\<close>
  "parse_decimal s = (case s of [] \<Rightarrow> 0 | c # cs \<Rightarrow> if c = 45 then - digits_value cs else digits_value s)"

lemma dec_0 [simp]: "dec 0 = []"
  by (simp add: dec.simps)

lemma dec_step: "0 < n \<Longrightarrow> dec n = dec (n div 10) @ [48 + of_nat (n mod 10)]"
  by (subst dec.simps) simp

lemma digit_byte:
  assumes "d < 10"
  shows "isdigit (48 + of_nat d)" and "tonumericdigit (48 + of_nat d) = int d"
    and "48 + of_nat d \<noteq> (0 :: u8)" and "48 + of_nat d \<noteq> (45 :: u8)"
proof -
  have "d \<in> {0, 1, 2, 3, 4, 5, 6, 7, 8, 9}" using assms by auto
  then show "isdigit (48 + of_nat d)" "tonumericdigit (48 + of_nat d) = int d"
    "48 + of_nat d \<noteq> (0 :: u8)" "48 + of_nat d \<noteq> (45 :: u8)"
    by (auto simp: isdigit_def tonumericdigit_def sgn_char_def)
qed

lemma dec_digits: "\<forall>c \<in> set (dec n). isdigit c \<and> c \<noteq> 0 \<and> c \<noteq> 45"
proof (induction n rule: dec.induct)
  case (1 n)
  then show ?case using digit_byte [of "n mod 10"] by (cases "n = 0") (auto simp: dec_step)
qed

lemma dec_value: "digits_value (dec n) = int n"
proof (induction n rule: dec.induct)
  case (1 n)
  have "digits_value (dec n) = 10 * digits_value (dec (n div 10)) + int (n mod 10)" if "0 < n"
    using that digit_byte(2) [of "n mod 10"] by (simp add: dec_step digits_value_def)
  moreover have "int n = 10 * int (n div 10) + int (n mod 10)" by presburger
  ultimately show ?case using 1 by (cases "n = 0") (simp_all add: digits_value_def)
qed

lemma dec_length: "n < 10 ^ k \<Longrightarrow> length (dec n) \<le> k"
proof (induction k arbitrary: n)
  case 0
  then show ?case by simp
next
  case (Suc k)
  then have "n div 10 < 10 ^ k" by (simp add: less_mult_imp_div_less mult.commute)
  then show ?case using Suc.IH [of "n div 10"] by (cases "n = 0") (simp_all add: dec_step)
qed

lemma dec_nonempty: "0 < n \<Longrightarrow> dec n \<noteq> []"
  by (simp add: dec_step)

lemma parse_decimal_decimal: "parse_decimal (decimal i) = i"
proof (cases "i = 0")
  case True
  then show ?thesis
    by (simp add: decimal_def parse_decimal_def digits_value_def tonumericdigit_def sgn_char_def)
next
  case False
  then obtain c cs where c: "dec (nat \<bar>i\<bar>) = c # cs"
    using dec_nonempty [of "nat \<bar>i\<bar>"] by (cases "dec (nat \<bar>i\<bar>)") auto
  then have "c \<noteq> 45" using dec_digits [of "nat \<bar>i\<bar>"] by simp
  then show ?thesis
    using False c dec_value [of "nat \<bar>i\<bar>"] by (auto simp: decimal_def parse_decimal_def)
qed

lemma smod_digit: "0 < n \<Longrightarrow> 48 - (- int n) smod 10 = 48 + int (n mod 10)"
  "0 < n \<Longrightarrow> (- int n) sdiv 10 = - int (n div 10)"
  by (simp_all add: signed_modulo_int_def signed_divide_int_def sgn_if zdiv_int zmod_int)

text \<open>The digit loop fills the bytes below \<open>loc\<close>.\<close>

lemma itoa_loop_spec:
  assumes "length (dec n) \<le> L" and "L < 4294967296"
  shows "\<exists>m'. itoa_loop m buf (int L) (- int n) = (int (L - length (dec n)), m')
    \<and> (\<forall>a. m' a = (let k = unat (a - buf)
        in if L - length (dec n) \<le> k \<and> k < L then dec n ! (k - (L - length (dec n))) else m a))"
  using assms
proof (induction n arbitrary: L m rule: dec.induct)
  case (1 n)
  show ?case
  proof (cases "n = 0")
    case True
    then show ?thesis by (subst itoa_loop.simps) (auto simp: Let_def)
  next
    case False
    then have n: "0 < n" by simp
    let ?p = "dec (n div 10)"
    have d: "dec n = ?p @ [48 + of_nat (n mod 10)]" by (rule dec_step [OF n])
    then have L: "length ?p \<le> L - 1" "0 < L" using "1.prems"(1) by simp_all
    let ?m = "m(buf + of_nat (L - 1) := 48 + of_nat (n mod 10))"
    have a: "int L - 1 = int (L - 1)" "- int n \<noteq> 0" using L n by simp_all
    have b: "word_of_int (48 - (- int n) smod 10) = (48 + of_nat (n mod 10) :: u8)"
      by (simp only: smod_digit(1) [OF n]) simp
    have step: "itoa_loop m buf (int L) (- int n) = itoa_loop ?m buf (int (L - 1)) (- int (n div 10))"
      by (subst itoa_loop.simps)
        (simp only: a b smod_digit(2) [OF n] as_u32_of_nat if_True not_False_eq_True)
    have "L - 1 < 4294967296" using "1.prems"(2) by simp
    from "1.IH" [OF False L(1) this, of ?m]
    obtain m' where m': "itoa_loop ?m buf (int (L - 1)) (- int (n div 10)) = (int (L - 1 - length ?p), m')"
      "\<And>a. m' a = (let k = unat (a - buf)
        in if L - 1 - length ?p \<le> k \<and> k < L - 1 then ?p ! (k - (L - 1 - length ?p)) else ?m a)"
      by blast
    have lo: "L - length (dec n) = L - 1 - length ?p" using d by simp
    have "m' a = (let k = unat (a - buf)
        in if L - length (dec n) \<le> k \<and> k < L then dec n ! (k - (L - length (dec n))) else m a)" for a
    proof -
      have at: "a = buf + of_nat (L - 1) \<longleftrightarrow> unat (a - buf) = L - 1"
        using "1.prems"(2) by (intro addr_eq_iff) simp
      show ?thesis
        unfolding m'(2) lo Let_def fun_upd_apply at using L
        by (auto simp: d nth_append)
    qed
    then show ?thesis unfolding step m'(1) lo by blast
  qed
qed


lemma cstr_at:
  assumes "\<forall>c \<in> set s. c \<noteq> 0" and "lo + length s < 4294967296"
    and "\<And>k. k < length s \<Longrightarrow> m (buf + of_nat (lo + k)) = s ! k"
    and "m (buf + of_nat (lo + length s)) = 0"
  shows "cstr m (buf + of_nat lo) s"
  using assms by (auto simp: cstr_iff add.assoc)

lemma itoa_nonzero:
  assumes "i \<noteq> 0" and "\<bar>i\<bar> \<le> 2147483648"
  shows "\<exists>lo m'. itoa m buf i = (buf + of_nat lo, m') \<and> lo + length (decimal i) = 11
    \<and> (\<forall>a. m' a = (let k = unat (a - buf)
        in if lo \<le> k \<and> k < 11 then decimal i ! (k - lo) else if k = 11 then 0 else m a))"
proof -
  define n where "n = nat \<bar>i\<bar>"
  have n: "0 < n" "n < 10 ^ 10" using assms by (simp_all add: n_def)
  have len: "length (dec n) \<le> 10" "0 < length (dec n)"
    using dec_length [OF n(2)] dec_nonempty [OF n(1)] by simp_all
  define L where "L = 11 - length (dec n)"
  have L: "0 < L" "L < 11" "L + length (dec n) = 11" using len by (simp_all add: L_def)
  let ?m0 = "m(buf + 11 := 0)"
  obtain m1 where m1: "itoa_loop ?m0 buf 11 (- int n) = (int L, m1)"
    "\<And>a. m1 a = (let k = unat (a - buf) in if L \<le> k \<and> k < 11 then dec n ! (k - L) else ?m0 a)"
    using itoa_loop_spec [of n 11 "?m0" buf] len L_def by auto
  have arg: "(if 0 \<le> i then - i else i) = - int n" by (simp add: n_def)
  have at11: "a = buf + 11 \<longleftrightarrow> unat (a - buf) = 11" for a
    using addr_eq_iff [of 11 a buf] by simp
  show ?thesis
  proof (cases "i < 0")
    case False
    then have res: "itoa m buf i = (buf + of_nat L, m1)" and dec_i: "decimal i = dec n"
      using assms(1) L(2) arg m1(1) by (simp_all add: itoa_def decimal_def n_def Let_def)
    show ?thesis
      by (intro exI [of _ L] exI [of _ m1]) (auto simp: res dec_i L(3) m1(2) Let_def at11)
  next
    case True
    let ?m2 = "m1(buf + of_nat (L - 1) := 45)"
    have "int L - 1 = int (L - 1)" using L by simp
    then have "as_u32 (int L - 1) = of_nat (L - 1)" by (simp only: as_u32_of_nat)
    then have res: "itoa m buf i = (buf + of_nat (L - 1), ?m2)"
      using True L(2) arg m1(1) by (simp add: itoa_def Let_def)
    have dec_i: "decimal i = 45 # dec n" using True by (simp add: decimal_def n_def)
    have at: "a = buf + of_nat (L - 1) \<longleftrightarrow> unat (a - buf) = L - 1" for a
      using L by (intro addr_eq_iff) simp
    have "?m2 a = (let k = unat (a - buf) in if L - 1 \<le> k \<and> k < 11 then (45 # dec n) ! (k - (L - 1))
        else if k = 11 then 0 else m a)" for a
    proof -
      have c: "(45 # dec n) ! (k - (L - 1)) = dec n ! (k - L)" if "L \<le> k" for k
      proof -
        have "k - (L - 1) = Suc (k - L)" using that L(1) by simp
        then show ?thesis by simp
      qed
      show ?thesis unfolding fun_upd_apply at m1(2) Let_def at11 using L c by auto
    qed
    then show ?thesis
      using L by (intro exI [of _ "L - 1"] exI [of _ ?m2]) (simp only: res dec_i, simp)
  qed
qed


subsection \<open>Properties\<close>

definition hello :: "u32 \<Rightarrow> u8" where
  \<comment> \<open>the string ``Hello'' at address 256, zeros elsewhere\<close>
  "hello = (\<lambda>_. 0)(256 := 72, 257 := 101, 258 := 108, 259 := 108, 260 := 111)"

lemma hello_cstr: "cstr hello 256 [72, 101, 108, 108, 111]"
  by (simp add: hello_def)

text \<open>
  on a string \<open>s\<close> the length functions return: \<open>strlen\<close> its length, \<open>strnlen\<close> the smaller of
  its length and a non-negative bound.
\<close>
theorem strlen_strnlen_spec:
  assumes "cstr m p s"
  shows "strlen m p = Some (int (length s)) \<and> (0 \<le> mx \<longrightarrow> strnlen m p mx = min (int (length s)) mx)"
  using strlen_loop_cstr [OF assms, of 0] strnlen_loop_cstr [OF assms, of 0 mx]
  by (simp add: strlen_def strnlen_def)

theorem strlen_strnlen_spec_witness: "strlen hello 256 = Some 5 \<and> strnlen hello 256 3 = 3"
  using strlen_strnlen_spec [OF hello_cstr, of 3] by simp

lemma strncpy_cstr:
  assumes "cstr m src s" and "apart dest src (Suc (length s))" and "length s < 4294967295"
  shows "case strncpy m dest src count of (p, m') \<Rightarrow> p = dest \<and> cstr m' dest (take (nat (count - 1)) s)
    \<and> (\<forall>a. min (length s) (nat (count - 1)) < unat (a - dest) \<longrightarrow> m' a = m a)"
proof -
  let ?n = "min (length s) (nat (count - 1))"
  obtain m1 where m1: "strncpy_loop m dest src 0 count = (int ?n, m1)"
    "\<And>k. k < ?n \<Longrightarrow> m1 (dest + of_nat k) = s ! k" "\<And>a. ?n \<le> unat (a - dest) \<Longrightarrow> m1 a = m a"
    using strncpy_loop_cstr [OF assms, of m 0 count] by auto
  let ?m = "m1(dest + of_nat ?n := 0)"
  have n: "?n < 4294967296" using assms(3) by simp
  have "cstr ?m dest (take (nat (count - 1)) s)"
    unfolding cstr_iff
  proof (intro conjI allI impI)
    fix i assume i: "i < length (take (nat (count - 1)) s)"
    then have lt: "i < ?n" by simp
    then have "dest + of_nat i \<noteq> dest + of_nat ?n" using n by (intro add_of_nat_neq) linarith+
    then show "?m (dest + of_nat i) = take (nat (count - 1)) s ! i" using m1(2) [OF lt] i by simp
    show "take (nat (count - 1)) s ! i \<noteq> 0" using assms(1) i by (simp add: cstr_iff)
  next
    show "?m (dest + of_nat (length (take (nat (count - 1)) s))) = 0" by (simp add: min.commute)
  qed
  moreover have "?m a = m a" if "?n < unat (a - dest)" for a
    using that m1(3) addr_eq_iff [OF n, of a dest] by simp
  ultimately show "case strncpy m dest src count of (p, m') \<Rightarrow>
      p = dest \<and> cstr m' dest (take (nat (count - 1)) s)
      \<and> (\<forall>a. ?n < unat (a - dest) \<longrightarrow> m' a = m a)"
    using m1(1) by (simp add: strncpy_def)
qed

text \<open>
  both copies terminate the destination.  \<open>strcpy\<close> returns and leaves the whole string at
  \<open>dest\<close>; \<open>strncpy\<close> leaves its first \<open>count - 1\<close> bytes with a terminator; neither writes beyond
  the terminator.  (A \<open>count\<close> of zero or less still writes the terminator.)
\<close>
theorem strcpy_strncpy_spec:
  assumes "cstr m src s" and "apart dest src (Suc (length s))" and "length s < 4294967295"
  shows "(\<exists>m'. strcpy m dest src = Some (dest, m') \<and> cstr m' dest s
        \<and> (\<forall>a. length s < unat (a - dest) \<longrightarrow> m' a = m a))
    \<and> (case strncpy m dest src count of (p, m') \<Rightarrow>
         p = dest \<and> cstr m' dest (take (nat (count - 1)) s)
         \<and> (\<forall>a. min (length s) (nat (count - 1)) < unat (a - dest) \<longrightarrow> m' a = m a))"
proof (rule conjI)
  show "\<exists>m'. strcpy m dest src = Some (dest, m') \<and> cstr m' dest s
      \<and> (\<forall>a. length s < unat (a - dest) \<longrightarrow> m' a = m a)"
    using strcpy_loop_cstr [OF assms] by (auto simp: strcpy_def)
  show "case strncpy m dest src count of (p, m') \<Rightarrow> p = dest \<and> cstr m' dest (take (nat (count - 1)) s)
      \<and> (\<forall>a. min (length s) (nat (count - 1)) < unat (a - dest) \<longrightarrow> m' a = m a)"
    by (rule strncpy_cstr [OF assms])
qed

theorem strcpy_strncpy_spec_witness:
  "(\<exists>m'. strcpy hello 1024 256 = Some (1024, m') \<and> cstr m' 1024 [72, 101, 108, 108, 111])
   \<and> cstr (snd (strncpy hello 1024 256 3)) 1024 [72, 101]"
proof -
  have "apart 1024 256 (Suc (length [72, 101, 108, 108, 111 :: u8]))"
    by (simp add: apart_def unat_sub32)
  from strcpy_strncpy_spec [OF hello_cstr this, of 3] show ?thesis
    by (auto split: prod.splits)
qed

text \<open>
  the comparisons return 0 exactly when the first \<open>n\<close> bytes of the two strings agree:
  \<open>strncmp\<close> byte for byte, \<open>istrncmp\<close> up to the case of ASCII letters.
\<close>
theorem strncmp_istrncmp_spec:
  assumes "cstr m p s" and "cstr m q t"
  shows "(strncmp m p q n = 0 \<longleftrightarrow> take (nat n) s = take (nat n) t)
    \<and> (istrncmp m p q n = 0 \<longleftrightarrow> map tolower (take (nat n) s) = map tolower (take (nat n) t))"
  using strncmp_loop_cstr [OF assms] istrncmp_loop_cstr [OF assms]
  by (simp add: strncmp_def istrncmp_def)

theorem strncmp_istrncmp_spec_witness:
  "strncmp hello 256 257 1 \<noteq> 0 \<and> istrncmp hello 258 259 1 = 0"
proof -
  have "cstr hello 257 [101, 108, 108, 111]" "cstr hello 258 [108, 108, 111]" "cstr hello 259 [108, 111]"
    by (simp_all add: hello_def)
  then show ?thesis
    using strncmp_istrncmp_spec [OF hello_cstr, of 257 _ 1]
      strncmp_istrncmp_spec [of hello 258 _ 259 _ 1] by fastforce
qed

text \<open>
  \<open>itoa\<close> is correct on every 32-bit \<open>int\<close>, the smallest included: the pointer it returns
  lies in its buffer, the string there is the decimal rendering, which parses back to \<open>i\<close>, and no byte
  outside the 12 of the buffer is written.
\<close>
theorem itoa_spec:
  assumes "- 2147483648 \<le> i" and "i \<le> 2147483647"
  shows "case itoa m buf i of (p, m') \<Rightarrow>
    cstr m' p (decimal i) \<and> parse_decimal (decimal i) = i \<and> unat (p - buf) < 12
    \<and> (\<forall>a. 12 \<le> unat (a - buf) \<longrightarrow> m' a = m a)"
proof (cases "i = 0")
  case True
  have "unat (buf + 10 - buf :: u32) = 10" by simp
  moreover have "12 \<le> unat (a - buf) \<Longrightarrow> a \<noteq> buf + 10 \<and> a \<noteq> buf + 11" for a by auto
  ultimately show ?thesis
    using True parse_decimal_decimal [of 0]
    by (simp add: itoa_def itoa_loop.simps decimal_def Let_def add.assoc as_u32_def)
next
  case False
  have ab: "\<bar>i\<bar> \<le> 2147483648" using assms by linarith
  obtain lo m' where r: "itoa m buf i = (buf + of_nat lo, m')" "lo + length (decimal i) = 11"
    "\<And>a. m' a = (let k = unat (a - buf)
        in if lo \<le> k \<and> k < 11 then decimal i ! (k - lo) else if k = 11 then 0 else m a)"
    using itoa_nonzero [OF False _, of m buf] ab by auto
  have nz: "\<forall>c \<in> set (decimal i). c \<noteq> 0"
    using False dec_digits [of "nat \<bar>i\<bar>"] by (auto simp: decimal_def)
  have "cstr m' (buf + of_nat lo) (decimal i)"
  proof (rule cstr_at [OF nz])
    show "lo + length (decimal i) < 4294967296" using r(2) by simp
    show "m' (buf + of_nat (lo + k)) = decimal i ! k" if "k < length (decimal i)" for k
      using that r(2) unat_offset [of "lo + k" buf] by (simp only: r(3) Let_def) simp
    show "m' (buf + of_nat (lo + length (decimal i))) = 0"
      using unat_offset [of 11 buf] by (simp only: r(2,3) Let_def) simp
  qed
  then show ?thesis
    using r(1,2) parse_decimal_decimal [of i] unat_offset [of lo buf] by (auto simp: r(3) Let_def)
qed

theorem itoa_spec_witness:
  "case itoa (\<lambda>_. 1) 4096 (- 2147483648) of (p, m') \<Rightarrow> cstr m' p (decimal (- 2147483648)) \<and> unat (p - 4096) < 12"
  using itoa_spec [where i = "- 2147483648" and m = "\<lambda>_. 1" and buf = 4096] by (auto split: prod.splits)

end
