(* ===== verification/Pparser.thy ===== *)
theory Pparser
  imports Disk CString
begin

text \<open>
  \<^verbatim>\<open>src/src/fs/pparser.c\<close>: parsing a path such as \<open>0:/dir/file\<close> into a heap-allocated root and a
  linked list of parts, and releasing it.  Roots and parts are objects of the heap, kept at their
  addresses; the text of each part is bytes of the memory.  Parsing is \<open>None\<close> where \<open>strlen\<close> would
  run forever.
\<close>

subsection \<open>State\<close>

record path_root =
  drive_no :: int
  first_part :: u32

record path_part =
  part_str :: u32
  part_next :: u32

record path_state = io_state +
  path_roots :: "u32 \<Rightarrow> path_root"
  path_parts :: "u32 \<Rightarrow> path_part"

definition PEACHOS_MAX_PATH :: int where [simp]: "PEACHOS_MAX_PATH = 108"

subsection \<open>Operations\<close>

primrec memcmp_lit :: "mem \<Rightarrow> u32 \<Rightarrow> u8 list \<Rightarrow> int" where
  \<comment> \<open>\<open>memcmp\<close> of memory with the bytes of a string literal\<close>
  "memcmp_lit m p [] = 0"
| "memcmp_lit m p (c # cs) =
     (if m p \<noteq> c then (if sgn_char (m p) < sgn_char c then -1 else 1) else memcmp_lit m (p + 1) cs)"

definition pathparser_path_valid_format :: "mem \<Rightarrow> u32 \<Rightarrow> bool" where
  "pathparser_path_valid_format m filename =
     (let len = strnlen m filename PEACHOS_MAX_PATH
      in len \<ge> 3 \<and> isdigit (m filename) \<and> memcmp_lit m (filename + 1) [0x3A, 0x2F] = 0)"

definition pathparser_get_drive_by_path :: "mem \<Rightarrow> u32 \<Rightarrow> int \<times> u32" where
  \<comment> \<open>the result and the advanced path\<close>
  "pathparser_get_drive_by_path m path =
     (if \<not> pathparser_path_valid_format m path then (- EBADPATH, path)
      else (tonumericdigit (m path), path + 3))"

definition pathparser_create_root :: "int \<Rightarrow> 'a path_state_scheme \<Rightarrow> u32 \<times> 'a path_state_scheme" where
  "pathparser_create_root drive_number k =
     (let (path_r, k) = kzalloc 8 k
      in (path_r, k\<lparr>path_roots := (path_roots k)(path_r := \<lparr>drive_no = drive_number, first_part = 0\<rparr>)\<rparr>))"

partial_function (option) path_part_loop :: "mem \<Rightarrow> u32 \<Rightarrow> u32 \<Rightarrow> u32 \<Rightarrow> (u32 \<times> u32 \<times> mem) option" where
  "path_part_loop m result i path =
     (if m path \<noteq> 0x2F \<and> m path \<noteq> 0x00
      then path_part_loop (m(result + i := m path)) result (i + 1) (path + 1)
      else Some (i, path, m))"

definition pathparser_get_path_part :: "u32 \<Rightarrow> 'a path_state_scheme \<Rightarrow> (u32 \<times> u32 \<times> 'a path_state_scheme) option" where
  \<comment> \<open>the part, the advanced path and the state\<close>
  "pathparser_get_path_part path k =
     (let (result_path_part, k) = kzalloc (as_u32 PEACHOS_MAX_PATH) k
      in do { (i, path, m) \<leftarrow> path_part_loop (ram k) result_path_part 0 path;
              let k = k\<lparr>ram := m\<rparr>;
              let path = (if ram k path = 0x2F then path + 1 else path);
              if i = 0 then Some (0, path, kfree result_path_part k)
              else Some (result_path_part, path, k) })"

definition pathparser_parse_path_part :: "u32 \<Rightarrow> u32 \<Rightarrow> 'a path_state_scheme \<Rightarrow> (u32 \<times> u32 \<times> 'a path_state_scheme) option" where
  "pathparser_parse_path_part last_part path k =
     do { (path_part_str, path, k) \<leftarrow> pathparser_get_path_part path k;
          if path_part_str = 0 then Some (0, path, k)
          else
            let (part, k) = kzalloc 8 k;
                k = k\<lparr>path_parts := (path_parts k)(part := \<lparr>part_str = path_part_str, part_next = 0\<rparr>)\<rparr>;
                k = (if last_part \<noteq> 0
                     then k\<lparr>path_parts := (path_parts k)(last_part := (path_parts k last_part)\<lparr>part_next := part\<rparr>)\<rparr>
                     else k)
            in Some (part, path, k) }"

partial_function (option) parse_parts_loop :: "u32 \<Rightarrow> u32 \<Rightarrow> 'a path_state_scheme \<Rightarrow> 'a path_state_scheme option" where
  \<comment> \<open>\<open>while(part)\<close> of \<open>pathparser_parse\<close>\<close>
  "parse_parts_loop part path k =
     (if part \<noteq> 0
      then Option.bind (pathparser_parse_path_part part path k) (\<lambda>(part, path, k). parse_parts_loop part path k)
      else Some k)"

partial_function (option) free_parts_loop :: "u32 \<Rightarrow> 'a path_state_scheme \<Rightarrow> 'a path_state_scheme option" where
  "free_parts_loop part k =
     (if part \<noteq> 0
      then let next_part = part_next (path_parts k part);
               k = kfree (part_str (path_parts k part)) k;
               k = kfree part k
           in free_parts_loop next_part k
      else Some k)"

definition pathparser_free :: "u32 \<Rightarrow> 'a path_state_scheme \<Rightarrow> 'a path_state_scheme option" where
  "pathparser_free root k =
     do { k \<leftarrow> free_parts_loop (first_part (path_roots k root)) k; Some (kfree root k) }"

definition pathparser_parse :: "u32 \<Rightarrow> 'a path_state_scheme \<Rightarrow> (u32 \<times> 'a path_state_scheme) option" where
  "pathparser_parse path k =
     do { len \<leftarrow> strlen (ram k) path;
          if len > PEACHOS_MAX_PATH then Some (0, k)
          else
            let (res, tmp_path) = pathparser_get_drive_by_path (ram k) path
            in if res < 0 then Some (0, k)
               else
                 let (path_root, k) = pathparser_create_root res k
                 in if path_root = 0 then Some (path_root, k)
                    else
                      do { (first, tmp_path, k) \<leftarrow> pathparser_parse_path_part 0 tmp_path k;
                           if first = 0 then Some (path_root, k)
                           else do {
                             let k = k\<lparr>path_roots := (path_roots k)(path_root := (path_roots k path_root)\<lparr>first_part := first\<rparr>)\<rparr>;
                             (part, tmp_path, k) \<leftarrow> pathparser_parse_path_part first tmp_path k;
                             k \<leftarrow> parse_parts_loop part tmp_path k;
                             Some (path_root, k) } } }"


subsection \<open>One part\<close>

definition part_of :: "u8 list \<Rightarrow> u8 list" where
  "part_of r = takeWhile (\<lambda>c. c \<noteq> 0x2F) r"

definition after_part :: "u8 list \<Rightarrow> u8 list" where
  "after_part r = tl (dropWhile (\<lambda>c. c \<noteq> 0x2F) r)"

lemma part_of_length: "length (part_of r) \<le> length r"
  by (simp add: part_of_def length_takeWhile_le)

lemma part_of_nonzero: "cstr m p r \<Longrightarrow> \<forall>c \<in> set (part_of r). c \<noteq> 0"
  unfolding part_of_def cstr_iff by (metis in_set_conv_nth set_takeWhileD)

lemma cstr_rest:
  assumes "cstr m p r"
  shows "cstr m (if m (p + of_nat (length (part_of r))) = 0x2F then p + of_nat (length (part_of r)) + 1
      else p + of_nat (length (part_of r))) (after_part r)"
proof -
  let ?d = "dropWhile (\<lambda>c. c \<noteq> 0x2F) r"
  have d: "?d = drop (length (part_of r)) r"
    by (simp add: part_of_def dropWhile_eq_drop)
  then have c: "cstr m (p + of_nat (length (part_of r))) ?d"
    using cstr_drop [OF assms part_of_length] by simp
  show ?thesis
  proof (cases ?d)
    case Nil
    then show ?thesis using c unfolding after_part_def Nil by simp
  next
    case (Cons x xs)
    then have "x = 0x2F" using hd_dropWhile [of "\<lambda>c. c \<noteq> 0x2F" r] by simp
    then show ?thesis using c Cons by (simp add: after_part_def)
  qed
qed

lemma path_part_loop_spec:
  assumes "cstr m p r" and "\<forall>i \<le> length r. N \<le> unat (p + of_nat i - res)"
    and "j + length (part_of r) \<le> N" and "N < 4294967296"
  shows "\<exists>m'. path_part_loop m res (of_nat j) p
      = Some (of_nat (j + length (part_of r)), p + of_nat (length (part_of r)), m')
    \<and> (\<forall>x < length (part_of r). m' (res + of_nat (j + x)) = part_of r ! x)
    \<and> (\<forall>a. \<not> (j \<le> unat (a - res) \<and> unat (a - res) < j + length (part_of r)) \<longrightarrow> m' a = m a)"
  using assms
proof (induction r arbitrary: m p j)
  case Nil
  then show ?case by (subst path_part_loop.simps) (auto simp: part_of_def)
next
  case (Cons c r)
  have mp: "m p = c" "c \<noteq> 0" "cstr m (p + 1) r" using Cons.prems(1) by simp_all
  show ?case
  proof (cases "c = 0x2F")
    case True
    then show ?thesis using mp by (subst path_part_loop.simps) (auto simp: part_of_def)
  next
    case False
    have po: "part_of (c # r) = c # part_of r" using False by (simp add: part_of_def)
    let ?m = "m(res + of_nat j := c)"
    have step: "path_part_loop m res (of_nat j) p = path_part_loop ?m res (of_nat (Suc j)) (p + 1)"
      using False mp by (subst path_part_loop.simps) (simp add: add.commute)
    have j: "j < N" using Cons.prems(3) po by simp
    have far: "\<forall>i \<le> length r. N \<le> unat (p + 1 + of_nat i - res)"
    proof (intro allI impI)
      fix i assume "i \<le> length r"
      then have "N \<le> unat (p + of_nat (Suc i) - res)" using Cons.prems(2) by auto
      then show "N \<le> unat (p + 1 + of_nat i - res)" by (simp add: add.assoc)
    qed
    have keep: "?m (p + 1 + of_nat i) = m (p + 1 + of_nat i)" if "i \<le> length r" for i
      using far that j Cons.prems(4) addr_eq_iff [of j "p + 1 + of_nat i" res] by auto
    have c1: "cstr ?m (p + 1) r"
    proof (rule cstr_cong [OF mp(3)])
      fix i assume "i \<le> length r"
      then show "?m (p + 1 + of_nat i) = m (p + 1 + of_nat i)" by (rule keep)
    qed
    have pre: "Suc j + length (part_of r) \<le> N" using Cons.prems(3) po by simp
    from Cons.IH [OF c1 far pre Cons.prems(4)]
    obtain m' where m': "path_part_loop ?m res (of_nat (Suc j)) (p + 1)
        = Some (of_nat (Suc j + length (part_of r)), p + 1 + of_nat (length (part_of r)), m')"
      "\<And>x. x < length (part_of r) \<Longrightarrow> m' (res + of_nat (Suc j + x)) = part_of r ! x"
      "\<And>a. \<not> (Suc j \<le> unat (a - res) \<and> unat (a - res) < Suc j + length (part_of r)) \<Longrightarrow> m' a = ?m a"
      by blast
    have at: "a = res + of_nat j \<longleftrightarrow> unat (a - res) = j" for a
      using j Cons.prems(4) by (intro addr_eq_iff) simp
    have "m' (res + of_nat (j + x)) = part_of (c # r) ! x" if "x < length (part_of (c # r))" for x
    proof (cases x)
      case 0
      have "unat (res + of_nat j - res) = j" using at by blast
      then have "m' (res + of_nat j) = ?m (res + of_nat j)" by (intro m'(3)) simp
      then show ?thesis using 0 po by simp
    next
      case (Suc y)
      then show ?thesis using m'(2) [of y] that po by simp
    qed
    moreover have "m' a = m a"
      if "\<not> (j \<le> unat (a - res) \<and> unat (a - res) < j + length (part_of (c # r)))" for a
      using that m'(3) [of a] at [of a] po by auto
    ultimately show ?thesis unfolding step using m'(1) po by (auto simp: add.assoc)
  qed
qed

lemma same_more:
  "kmem.more (k' :: 'a path_state_scheme) = kmem.more k \<Longrightarrow> path_parts k' = path_parts k \<and> path_roots k' = path_roots k"
  by (cases k; cases k') auto


lemma page_part_spec:
  fixes k :: "'a path_state_scheme"
  assumes rep: "kheap_rep k A" and free: "0 < free_blocks 25600 A"
    and r: "cstr (ram k) p r" "length r \<le> 107" and st: "\<forall>i \<le> length r. stable A (p + of_nat i)"
  shows "\<exists>b p' k'. pathparser_get_path_part p k = Some (if part_of r = [] then 0 else blk_addr b, p', k')
    \<and> b < 25600 \<and> A b = None \<and> \<not> covered A b
    \<and> kheap_rep k' (if part_of r = [] then A else A(b \<mapsto> 1))
    \<and> free_blocks 25600 A = Suc (free_blocks 25600 (A(b \<mapsto> 1)))
    \<and> cstr (ram k') p' (after_part r) \<and> (\<forall>i \<le> length (after_part r). stable A (p' + of_nat i))
    \<and> (part_of r \<noteq> [] \<longrightarrow> cstr (ram k') (blk_addr b) (part_of r))
    \<and> (\<forall>a. stable A a \<longrightarrow> ram k' a = ram k a) \<and> kmem.more k' = kmem.more k"
proof -
  obtain b k1 where k1: "kzalloc 108 k = (blk_addr b, k1)" "b < 25600" "A b = None" "\<not> covered A b"
    "kheap_rep k1 (A(b \<mapsto> 1))" "free_blocks 25600 A = Suc (free_blocks 25600 (A(b \<mapsto> 1)))"
    "\<And>a. 25600 \<le> unat (a - 0x7E00) \<Longrightarrow> 4096 \<le> unat (a - blk_addr b) \<Longrightarrow> ram k1 a = ram k a"
    "\<And>i. i < 108 \<Longrightarrow> ram k1 (blk_addr b + of_nat i) = 0"
    "kmem.more k1 = kmem.more k"
    by (rule page_alloc [OF rep, of 108]) (simp, simp, rule free, auto)
  have far: "4096 \<le> unat (a - blk_addr b)" "25600 \<le> unat (a - 0x7E00)" if "stable A a" for a
    using that k1(2,4) by (auto simp: stable_def)
  have same1: "ram k1 a = ram k a" if "stable A a" for a
    using k1(7) far [OF that] by blast
  have r1: "cstr (ram k1) p r"
    by (rule cstr_cong [OF r(1)]) (use same1 st in blast)
  let ?n = "length (part_of r)"
  have n: "?n \<le> 107" using part_of_length [of r] r(2) by simp
  obtain m where m: "path_part_loop (ram k1) (blk_addr b) 0 p = Some (of_nat ?n, p + of_nat ?n, m)"
    "\<And>x. x < ?n \<Longrightarrow> m (blk_addr b + of_nat x) = part_of r ! x"
    "\<And>a. \<not> unat (a - blk_addr b) < ?n \<Longrightarrow> m a = ram k1 a"
    using path_part_loop_spec [OF r1, of 4096 "blk_addr b" 0] far(1) st n by auto
  have same: "m a = ram k a" if "stable A a" for a
    using m(3) [of a] far(1) [OF that] n same1 [OF that] by simp
  have rm: "cstr m p r" by (rule cstr_cong [OF r(1)]) (use same st in blast)
  define p' where "p' = (if m (p + of_nat ?n) = 0x2F then p + of_nat ?n + 1 else p + of_nat ?n)"
  have rest: "cstr m p' (after_part r)" unfolding p'_def by (rule cstr_rest [OF rm])
  have st': "stable A (p' + of_nat i)" if i: "i \<le> length (after_part r)" for i
  proof -
    have len: "length (dropWhile (\<lambda>c. c \<noteq> 0x2F) r) = length r - ?n"
      by (simp add: part_of_def dropWhile_eq_drop)
    show ?thesis
    proof (cases "m (p + of_nat ?n) = 0x2F")
      case True
      then have "?n \<noteq> length r" using rm by (auto simp: cstr_iff)
      then have "?n + 1 + i \<le> length r"
        using i len part_of_length [of r] by (simp add: after_part_def)
      then have "stable A (p + of_nat (?n + 1 + i))" using st by blast
      then show ?thesis using True by (simp add: p'_def ac_simps)
    next
      case False
      have "?n + i \<le> length r" using i len part_of_length [of r] by (simp add: after_part_def)
      then have "stable A (p + of_nat (?n + i))" using st by blast
      then show ?thesis using False by (simp add: p'_def add.assoc)
    qed
  qed
  let ?k2 = "k1\<lparr>ram := m\<rparr>"
  have low: "m a = ram k1 a" if "unat a < 16777216" for a
  proof -
    have "4096 \<le> unat (a - blk_addr b)"
      unfolding unat_sub32 using that unat_blk_addr [OF k1(2)] k1(2) by simp
    then show ?thesis using m(3) n by simp
  qed
  have rep2: "kheap_rep ?k2 (A(b \<mapsto> 1))" by (rule kheap_rep_ram_write [OF k1(5) low])
  have zero: "of_nat ?n = (0 :: u32) \<longleftrightarrow> part_of r = []"
    using n of_nat_inj32 [of ?n 0] by simp
  have run: "pathparser_get_path_part p k = Some (if part_of r = [] then 0 else blk_addr b, p',
      if part_of r = [] then kfree (blk_addr b) ?k2 else ?k2)"
    using m(1) zero by (simp add: pathparser_get_path_part_def k1(1) as_u32_def p'_def)
  show ?thesis
  proof (cases "part_of r = []")
    case True
    have b1: "(A(b \<mapsto> 1)) b = Some 1" by simp
    have "(A(b \<mapsto> 1))(b := None) = A" using k1(3) by auto
    then have "kheap_rep (kfree (blk_addr b) ?k2) A" using kfree_rep [OF rep2 b1] by (simp only:)
    moreover have keep: "ram (kfree (blk_addr b) ?k2) a = ram k a" if "stable A a" for a
      using kfree_frame [OF rep2 b1 far(2) [OF that]] same [OF that] by simp
    moreover have "cstr (ram (kfree (blk_addr b) ?k2)) p' (after_part r)"
    proof (rule cstr_cong [OF rest])
      fix i assume "i \<le> length (after_part r)"
      then have "stable A (p' + of_nat i)" by (rule st')
      then show "ram (kfree (blk_addr b) ?k2) (p' + of_nat i) = m (p' + of_nat i)"
        using keep same by simp
    qed
    ultimately show ?thesis
      using True run k1(2-4,6,9) st' kfree_more [of "blk_addr b" ?k2]
      by (intro exI [of _ b] exI [of _ p'] exI [of _ "kfree (blk_addr b) ?k2"]) simp
  next
    case False
    have "cstr m (blk_addr b) (part_of r)"
      unfolding cstr_iff
    proof (intro conjI allI impI)
      fix i assume "i < ?n"
      then show "m (blk_addr b + of_nat i) = part_of r ! i" "part_of r ! i \<noteq> 0"
        using m(2) part_of_nonzero [OF r(1)] by simp_all
    next
      have "unat (of_nat ?n :: u32) = ?n" by (rule unat_of_nat32) (use n in simp)
      then have "m (blk_addr b + of_nat ?n) = ram k1 (blk_addr b + of_nat ?n)" by (intro m(3)) simp
      then show "m (blk_addr b + of_nat ?n) = 0" using k1(8) [of ?n] n by simp
    qed
    then show ?thesis
      using False run k1(2-4,6,9) st' same rest rep2
      by (intro exI [of _ b] exI [of _ p'] exI [of _ ?k2]) simp
  qed
qed


lemma kheap_rep_path [simp]:
  "kheap_rep (k\<lparr>path_parts := x\<rparr>) A = kheap_rep k A" "kheap_rep (k\<lparr>path_roots := y\<rparr>) A = kheap_rep k A"
  by (simp_all add: kheap_rep_def)

lemma stable_cong_cstr:
  assumes "cstr m p r" and "\<And>a. stable A a \<Longrightarrow> m' a = m a" and "\<And>i. i \<le> length r \<Longrightarrow> stable A (p + of_nat i)"
  shows "cstr m' p r"
proof (rule cstr_cong [OF assms(1)])
  fix i assume "i \<le> length r"
  then show "m' (p + of_nat i) = m (p + of_nat i)" using assms(2,3) by blast
qed

lemma parse_part_empty:
  fixes k :: "'a path_state_scheme"
  assumes rep: "kheap_rep k A" and free: "0 < free_blocks 25600 A"
    and r: "cstr (ram k) p r" "length r \<le> 107" and st: "\<forall>i \<le> length r. stable A (p + of_nat i)"
    and h: "part_of r = []"
  shows "\<exists>p' k'. pathparser_parse_path_part lp p k = Some (0, p', k') \<and> kheap_rep k' A
    \<and> (\<forall>a. stable A a \<longrightarrow> ram k' a = ram k a) \<and> path_parts k' = path_parts k \<and> path_roots k' = path_roots k"
proof -
  obtain b p' k' where g: "pathparser_get_path_part p k = Some (0, p', k')" "kheap_rep k' A"
    "\<forall>a. stable A a \<longrightarrow> ram k' a = ram k a" "kmem.more k' = kmem.more k"
    using page_part_spec [OF rep free r st] h by auto
  then show ?thesis using same_more [OF g(4)] by (simp add: pathparser_parse_path_part_def)
qed

lemma parse_part_some:
  fixes k :: "'a path_state_scheme"
  assumes rep: "kheap_rep k A" and free: "2 \<le> free_blocks 25600 A"
    and r: "cstr (ram k) p r" "length r \<le> 107" and st: "\<forall>i \<le> length r. stable A (p + of_nat i)"
    and h: "part_of r \<noteq> []"
  shows "\<exists>b c p' k'. pathparser_parse_path_part lp p k = Some (blk_addr c, p', k')
    \<and> b < 25600 \<and> c < 25600 \<and> A b = None \<and> A c = None \<and> b \<noteq> c
    \<and> kheap_rep k' (A(b \<mapsto> 1, c \<mapsto> 1))
    \<and> free_blocks 25600 A = free_blocks 25600 (A(b \<mapsto> 1, c \<mapsto> 1)) + 2
    \<and> cstr (ram k') p' (after_part r) \<and> (\<forall>i \<le> length (after_part r). stable A (p' + of_nat i))
    \<and> cstr (ram k') (blk_addr b) (part_of r)
    \<and> (\<forall>a. stable A a \<longrightarrow> ram k' a = ram k a)
    \<and> path_parts k' = (let pp = (path_parts k)(blk_addr c := \<lparr>part_str = blk_addr b, part_next = 0\<rparr>)
        in if lp \<noteq> 0 then pp(lp := (pp lp)\<lparr>part_next := blk_addr c\<rparr>) else pp)
    \<and> path_roots k' = path_roots k"
proof -
  have pos: "0 < free_blocks 25600 A" using free by simp
  obtain b p' k1 where g: "pathparser_get_path_part p k = Some (blk_addr b, p', k1)"
    "b < 25600" "A b = None" "kheap_rep k1 (A(b \<mapsto> 1))"
    "free_blocks 25600 A = Suc (free_blocks 25600 (A(b \<mapsto> 1)))"
    "cstr (ram k1) p' (after_part r)" "\<forall>i \<le> length (after_part r). stable A (p' + of_nat i)"
    "cstr (ram k1) (blk_addr b) (part_of r)"
    "\<forall>a. stable A a \<longrightarrow> ram k1 a = ram k a" "kmem.more k1 = kmem.more k"
    using page_part_spec [OF rep pos r st] h by auto
  let ?B = "A(b \<mapsto> 1)"
  have pos1: "0 < free_blocks 25600 ?B" using free g(5) by simp
  obtain c k2 where c: "kzalloc 8 k1 = (blk_addr c, k2)" "c < 25600" "?B c = None" "\<not> covered ?B c"
    "kheap_rep k2 (?B(c \<mapsto> 1))" "free_blocks 25600 ?B = Suc (free_blocks 25600 (?B(c \<mapsto> 1)))"
    "\<And>a. 25600 \<le> unat (a - 0x7E00) \<Longrightarrow> 4096 \<le> unat (a - blk_addr c) \<Longrightarrow> ram k2 a = ram k1 a"
    "kmem.more k2 = kmem.more k1"
    by (rule page_alloc [OF g(4), of 8]) (simp, simp, rule pos1, auto)
  have same2: "ram k2 a = ram k1 a" if "stable ?B a" for a
    using that c(2,4,7) by (auto simp: stable_def)
  have stB: "stable A a \<Longrightarrow> stable ?B a" for a using stable_upd g(3) by blast
  have str: "cstr (ram k2) (blk_addr b) (part_of r)"
  proof (rule stable_cong_cstr [OF g(8) same2])
    fix i assume "i \<le> length (part_of r)"
    then have "i < 4096" using part_of_length [of r] r(2) by simp
    then show "stable ?B (blk_addr b + of_nat i)" by (intro stable_block [OF g(4)]) simp_all
  qed
  have rest: "cstr (ram k2) p' (after_part r)"
    by (rule stable_cong_cstr [OF g(6) same2]) (use g(7) stB in auto)
  have nz: "blk_addr b \<noteq> 0" by (rule blk_addr_nonzero [OF g(2)])
  define k3 where "k3 = k2\<lparr>path_parts := (let pp = (path_parts k)(blk_addr c := \<lparr>part_str = blk_addr b, part_next = 0\<rparr>)
        in if lp \<noteq> 0 then pp(lp := (pp lp)\<lparr>part_next := blk_addr c\<rparr>) else pp)\<rparr>"
  have pp: "path_parts k2 = path_parts k" "path_roots k2 = path_roots k"
    using same_more [of k2 k] c(8) g(10) by simp_all
  have run: "pathparser_parse_path_part lp p k = Some (blk_addr c, p', k3)"
    using g(1) nz by (simp add: pathparser_parse_path_part_def c(1) k3_def pp Let_def)
  have ne: "b \<noteq> c" "A c = None" using c(3) by (auto split: if_splits)
  have "ram k3 = ram k2" "path_roots k3 = path_roots k" by (simp_all add: k3_def pp)
  moreover have "kheap_rep k3 (A(b \<mapsto> 1, c \<mapsto> 1))" using c(5) by (simp add: k3_def)
  moreover have "\<forall>a. stable A a \<longrightarrow> ram k2 a = ram k a" using g(9) same2 stB by simp
  moreover have "free_blocks 25600 A = free_blocks 25600 (A(b \<mapsto> 1, c \<mapsto> 1)) + 2" using g(5) c(6) by simp
  ultimately show ?thesis
    using run g(2,3,7) c(2) ne str rest
    by (intro exI [of _ b] exI [of _ c] exI [of _ p'] exI [of _ k3]) (simp add: k3_def)
qed

subsection \<open>The list of parts\<close>

lemma after_part_shorter: "part_of r \<noteq> [] \<Longrightarrow> length (after_part r) < length r"
proof -
  assume h: "part_of r \<noteq> []"
  have "length (dropWhile (\<lambda>c. c \<noteq> 0x2F) r) = length r - length (part_of r)"
    by (simp add: part_of_def dropWhile_eq_drop)
  then show ?thesis using h part_of_length [of r] by (cases "part_of r") (auto simp: after_part_def)
qed

function path_split :: "u8 list \<Rightarrow> u8 list list" where
  "path_split r = (if part_of r = [] then [] else part_of r # path_split (after_part r))"
  by pat_completeness auto
termination
  by (relation "measure length") (auto intro: after_part_shorter)

declare path_split.simps [simp del]

primrec blocks :: "(nat \<times> nat \<times> u8 list) list \<Rightarrow> nat list" where
  "blocks [] = []"
| "blocks (x # xs) = fst (snd x) # fst x # blocks xs"

primrec chain :: "'a path_state_scheme \<Rightarrow> (nat \<times> nat \<times> u8 list) list \<Rightarrow> u32 \<Rightarrow> bool" where
  \<comment> \<open>a list of parts in memory: the block of each \<open>path_part\<close>, of its text, and the text\<close>
  "chain k [] q \<longleftrightarrow> q = 0"
| "chain k (x # xs) q \<longleftrightarrow> q = blk_addr (fst x) \<and> part_str (path_parts k q) = blk_addr (fst (snd x))
     \<and> cstr (ram k) (blk_addr (fst (snd x))) (snd (snd x)) \<and> chain k xs (part_next (path_parts k q))"


lemma chain_cong:
  assumes "\<And>x. x \<in> set xs \<Longrightarrow> path_parts k' (blk_addr (fst x)) = path_parts k (blk_addr (fst x))"
    and "\<And>x. x \<in> set xs \<Longrightarrow> cstr (ram k') (blk_addr (fst (snd x))) (snd (snd x))"
  shows "chain k xs q \<Longrightarrow> chain k' xs q"
  using assms by (induction xs arbitrary: q) auto

text \<open>
  \<open>parsed k0 A l xs k\<close>: from the state \<open>k0\<close> with allocations \<open>A\<close>, the parts \<open>xs\<close> have been hung behind
  the part at \<open>l\<close>, and nothing else a client can see has changed.
\<close>

definition parsed :: "'a path_state_scheme \<Rightarrow> (nat \<rightharpoonup> nat) \<Rightarrow> u32 \<Rightarrow> (nat \<times> nat \<times> u8 list) list \<Rightarrow> 'a path_state_scheme \<Rightarrow> bool" where
  "parsed k0 A l xs k \<longleftrightarrow> chain k xs (part_next (path_parts k l))
     \<and> part_str (path_parts k l) = part_str (path_parts k0 l)
     \<and> kheap_rep k (A ++ ones (blocks xs)) \<and> distinct (blocks xs)
     \<and> (\<forall>b \<in> set (blocks xs). b < 25600 \<and> A b = None)
     \<and> (\<forall>a. stable A a \<longrightarrow> ram k a = ram k0 a)
     \<and> (\<forall>q. q \<noteq> l \<longrightarrow> q \<notin> blk_addr ` set (blocks xs) \<longrightarrow> path_parts k q = path_parts k0 q)
     \<and> path_roots k = path_roots k0"

lemma fst_in_blocks: "x \<in> set xs \<Longrightarrow> fst x \<in> set (blocks xs) \<and> fst (snd x) \<in> set (blocks xs)"
  by (induction xs) auto

lemma ones_two: "A(b \<mapsto> 1, c \<mapsto> 1) ++ ones bs = A ++ ones (b # c # bs)" if "b \<noteq> c"
  using that by (auto simp: ones_def map_add_def fun_eq_iff)

lemma parse_loop_spec:
  fixes k :: "'a path_state_scheme"
  assumes "kheap_rep k A" and "l < 25600" and "A l \<noteq> None" and "part_next (path_parts k (blk_addr l)) = 0"
    and "cstr (ram k) p r" and "length r \<le> 107" and "\<forall>i \<le> length r. stable A (p + of_nat i)"
    and "2 * length (path_split r) < free_blocks 25600 A"
  shows "\<exists>xs k'. Option.bind (pathparser_parse_path_part (blk_addr l) p k)
      (\<lambda>(part, path, k). parse_parts_loop part path k) = Some k'
    \<and> map (\<lambda>x. snd (snd x)) xs = path_split r \<and> parsed k A (blk_addr l) xs k'"
  using assms
proof (induction r arbitrary: k A l p rule: path_split.induct)
  case (1 r)
  have pos: "0 < free_blocks 25600 A" using "1.prems"(8) by simp
  show ?case
  proof (cases "part_of r = []")
    case True
    obtain p' k' where e: "pathparser_parse_path_part (blk_addr l) p k = Some (0, p', k')" "kheap_rep k' A"
      "\<forall>a. stable A a \<longrightarrow> ram k' a = ram k a" "path_parts k' = path_parts k" "path_roots k' = path_roots k"
      using parse_part_empty [OF "1.prems"(1) pos "1.prems"(5-7) True] by blast
    have "parse_parts_loop 0 p' k' = Some k'" by (subst parse_parts_loop.simps) simp
    moreover have "parsed k A (blk_addr l) [] k'"
      using e "1.prems"(4) by (simp add: parsed_def ones_def)
    ultimately show ?thesis
      using e(1) True by (intro exI [of _ "[]"] exI [of _ k']) (simp add: path_split.simps)
  next
    case False
    have split: "path_split r = part_of r # path_split (after_part r)"
      using False by (subst path_split.simps) simp
    have two: "2 \<le> free_blocks 25600 A" using "1.prems"(8) split by simp
    obtain b c p' k1 where g: "pathparser_parse_path_part (blk_addr l) p k = Some (blk_addr c, p', k1)"
      "b < 25600" "c < 25600" "A b = None" "A c = None" "b \<noteq> c"
      "kheap_rep k1 (A(b \<mapsto> 1, c \<mapsto> 1))"
      "free_blocks 25600 A = free_blocks 25600 (A(b \<mapsto> 1, c \<mapsto> 1)) + 2"
      "cstr (ram k1) p' (after_part r)" "\<forall>i \<le> length (after_part r). stable A (p' + of_nat i)"
      "cstr (ram k1) (blk_addr b) (part_of r)" "\<forall>a. stable A a \<longrightarrow> ram k1 a = ram k a"
      "path_parts k1 = (let pp = (path_parts k)(blk_addr c := \<lparr>part_str = blk_addr b, part_next = 0\<rparr>)
        in if blk_addr l \<noteq> 0 then pp(blk_addr l := (pp (blk_addr l))\<lparr>part_next := blk_addr c\<rparr>) else pp)"
      "path_roots k1 = path_roots k"
      using parse_part_some [OF "1.prems"(1) two "1.prems"(5-7) False, of "blk_addr l"] by blast
    let ?A = "A(b \<mapsto> 1, c \<mapsto> 1)"
    have l: "l \<noteq> b" "l \<noteq> c" using "1.prems"(3) g(4,5) by auto
    have al: "blk_addr l \<noteq> 0" "blk_addr l \<noteq> blk_addr c" "blk_addr c \<noteq> 0"
      using blk_addr_nonzero "1.prems"(2) g(3) blk_addr_inj [OF "1.prems"(2) g(3)] l by auto
    have pp1: "path_parts k1 = (path_parts k)(blk_addr c := \<lparr>part_str = blk_addr b, part_next = 0\<rparr>,
        blk_addr l := (path_parts k (blk_addr l))\<lparr>part_next := blk_addr c\<rparr>)"
      using g(13) al by (simp add: Let_def)
    have stA: "stable A a \<Longrightarrow> stable ?A a" for a
      using stable_upd [of A b a 1] stable_upd [of "A(b \<mapsto> 1)" c a 1] g(4-6) by simp
    have i1: "length (after_part r) \<le> 107"
      using after_part_shorter [OF False] "1.prems"(6) by simp
    have i2: "2 * length (path_split (after_part r)) < free_blocks 25600 ?A"
      using "1.prems"(8) split g(8) by simp
    have i3: "\<forall>i \<le> length (after_part r). stable ?A (p' + of_nat i)" using g(10) stA by blast
    have i4: "?A c \<noteq> None" by simp
    have i5: "part_next (path_parts k1 (blk_addr c)) = 0" using al(2) by (simp add: pp1)
    obtain xs k' where IH:
      "Option.bind (pathparser_parse_path_part (blk_addr c) p' k1) (\<lambda>(part, path, k). parse_parts_loop part path k) = Some k'"
      "map (\<lambda>x. snd (snd x)) xs = path_split (after_part r)" "parsed k1 ?A (blk_addr c) xs k'"
      using "1.IH" [OF False g(7,3) i4 i5 g(9) i1 i3 i2] by blast
    have run: "Option.bind (pathparser_parse_path_part (blk_addr l) p k)
        (\<lambda>(part, path, k). parse_parts_loop part path k) = Some k'"
      using g(1) al(3) IH(1) by (simp add: parse_parts_loop.simps [of "blk_addr c"])
    have P: "chain k' xs (part_next (path_parts k' (blk_addr c)))"
      "part_str (path_parts k' (blk_addr c)) = blk_addr b"
      "kheap_rep k' (?A ++ ones (blocks xs))" "distinct (blocks xs)"
      "\<forall>x \<in> set (blocks xs). x < 25600 \<and> ?A x = None"
      "\<And>a. stable ?A a \<Longrightarrow> ram k' a = ram k1 a"
      "\<And>q. q \<noteq> blk_addr c \<Longrightarrow> q \<notin> blk_addr ` set (blocks xs) \<Longrightarrow> path_parts k' q = path_parts k1 q"
      "path_roots k' = path_roots k1"
      using IH(3) al(2) by (auto simp: parsed_def pp1)
    have nb: "blk_addr l \<notin> blk_addr ` set (blocks xs)"
    proof
      assume "blk_addr l \<in> blk_addr ` set (blocks xs)"
      then obtain x where x: "x \<in> set (blocks xs)" "blk_addr l = blk_addr x" by auto
      then have "l = x" using P(5) "1.prems"(2) by (intro blk_addr_inj) auto
      then show False using P(5) x(1) "1.prems"(3) l by auto
    qed
    have lk: "path_parts k' (blk_addr l) = (path_parts k (blk_addr l))\<lparr>part_next := blk_addr c\<rparr>"
      using P(7) [OF al(2) nb] al by (simp add: pp1)
    have str: "cstr (ram k') (blk_addr b) (part_of r)"
    proof (rule stable_cong_cstr [OF g(11) P(6)])
      fix i assume "i \<le> length (part_of r)"
      then have "i < 4096" using part_of_length [of r] "1.prems"(6) by simp
      then show "stable ?A (blk_addr b + of_nat i)" using g(6) by (intro stable_block [OF g(7)]) simp_all
    qed
    let ?xs = "(c, b, part_of r) # xs"
    have "parsed k A (blk_addr l) ?xs k'"
      unfolding parsed_def
    proof (intro conjI)
      show "chain k' ?xs (part_next (path_parts k' (blk_addr l)))" using P(1,2) str by (simp add: lk)
      show "part_str (path_parts k' (blk_addr l)) = part_str (path_parts k (blk_addr l))" by (simp add: lk)
      show "kheap_rep k' (A ++ ones (blocks ?xs))" using P(3) ones_two [OF g(6), of A] by simp
      show "distinct (blocks ?xs)" "\<forall>x \<in> set (blocks ?xs). x < 25600 \<and> A x = None"
        using P(4,5) g(2-6) by (auto split: if_splits)
      show "\<forall>a. stable A a \<longrightarrow> ram k' a = ram k a" using P(6) stA g(12) by simp
      show "\<forall>q. q \<noteq> blk_addr l \<longrightarrow> q \<notin> blk_addr ` set (blocks ?xs) \<longrightarrow> path_parts k' q = path_parts k q"
        using P(7) by (simp add: pp1)
      show "path_roots k' = path_roots k" using P(8) g(14) by simp
    qed
    then show ?thesis
      using run IH(2) split by (intro exI [of _ ?xs] exI [of _ k']) simp
  qed
qed


subsection \<open>Releasing the list\<close>

lemma kfree_parts [simp]: "path_parts (kfree q (k :: 'a path_state_scheme)) = path_parts k"
  "path_roots (kfree q k) = path_roots k"
  using same_more [OF kfree_more [of q k]] by simp_all

lemma free_parts_loop_spec:
  fixes k :: "'a path_state_scheme"
  assumes "chain k0 xs q" and "path_parts k = path_parts k0" and "\<forall>b \<in> set (blocks xs). b < 25600"
  shows "free_parts_loop q k = Some (fold (\<lambda>b. kfree (blk_addr b)) (blocks xs) k)"
  using assms
proof (induction xs arbitrary: q k)
  case Nil
  then show ?case by (subst free_parts_loop.simps) simp
next
  case (Cons x xs)
  have "q \<noteq> 0" using Cons.prems blk_addr_nonzero by auto
  then have "free_parts_loop q k
      = free_parts_loop (part_next (path_parts k0 q)) (kfree q (kfree (part_str (path_parts k0 q)) k))"
    using Cons.prems(2) by (subst free_parts_loop.simps) (simp add: Let_def)
  also have "\<dots> = Some (fold (\<lambda>b. kfree (blk_addr b)) (blocks xs) (kfree q (kfree (part_str (path_parts k0 q)) k)))"
    using Cons.prems by (intro Cons.IH) auto
  finally show ?case using Cons.prems(1) by auto
qed

lemma pathparser_free_fold:
  fixes k :: "'a path_state_scheme"
  assumes "chain k xs (first_part (path_roots k (blk_addr rb)))" and "\<forall>b \<in> set (blocks xs). b < 25600"
  shows "pathparser_free (blk_addr rb) k = Some (fold (\<lambda>b. kfree (blk_addr b)) (blocks xs @ [rb]) k)"
  using free_parts_loop_spec [OF assms(1) refl assms(2)] by (simp add: pathparser_free_def)

subsection \<open>Whole paths\<close>

definition valid_path :: "u8 list \<Rightarrow> bool" where
  \<comment> \<open>a digit, \<open>:/\<close>, at most 108 bytes\<close>
  "valid_path s \<longleftrightarrow> 3 \<le> length s \<and> length s \<le> 108 \<and> isdigit (s ! 0) \<and> s ! 1 = 0x3A \<and> s ! 2 = 0x2F"

lemma path_format:
  assumes "cstr m p s" and "length s \<le> 108"
  shows "pathparser_path_valid_format m p \<longleftrightarrow> valid_path s"
proof -
  have len: "strnlen m p 108 = int (length s)"
    using strnlen_loop_cstr [OF assms(1), of 0 108] assms(2) by (simp add: strnlen_def)
  show ?thesis
  proof (cases "3 \<le> length s")
    case False
    then show ?thesis by (simp add: pathparser_path_valid_format_def len valid_path_def)
  next
    case True
    have "m (p + of_nat i) = s ! i" if "i < length s" for i
      using that assms(1) unfolding cstr_iff by blast
    from this [of 0] this [of 1] this [of 2] have "m p = s ! 0" "m (p + 1) = s ! 1" "m (p + 2) = s ! 2"
      using True by force+
    then show ?thesis
      using True assms(2)
      by (auto simp: pathparser_path_valid_format_def len valid_path_def add.assoc)
  qed
qed

lemma digit_nonneg: "isdigit c \<Longrightarrow> 0 \<le> tonumericdigit c"
  by (simp add: isdigit_def tonumericdigit_def)

lemma parse_invalid:
  fixes k :: "'a path_state_scheme"
  assumes "cstr (ram k) p s" and "\<not> valid_path s"
  shows "pathparser_parse p k = Some (0, k)"
proof -
  have len: "strlen (ram k) p = Some (int (length s))"
    using strlen_loop_cstr [OF assms(1), of 0] by (simp add: strlen_def)
  show ?thesis
    using path_format [OF assms(1)] assms(2)
    by (cases "length s \<le> 108") (simp_all add: pathparser_parse_def len pathparser_get_drive_by_path_def)
qed

definition parsed_path :: "'a path_state_scheme \<Rightarrow> (nat \<rightharpoonup> nat) \<Rightarrow> u8 list \<Rightarrow> nat \<Rightarrow> (nat \<times> nat \<times> u8 list) list
    \<Rightarrow> 'a path_state_scheme \<Rightarrow> bool" where
  "parsed_path k0 A s rb xs k \<longleftrightarrow>
     drive_no (path_roots k (blk_addr rb)) = tonumericdigit (s ! 0)
     \<and> chain k xs (first_part (path_roots k (blk_addr rb)))
     \<and> map (\<lambda>x. snd (snd x)) xs = path_split (drop 3 s)
     \<and> kheap_rep k (A ++ ones (rb # blocks xs)) \<and> distinct (rb # blocks xs)
     \<and> (\<forall>b \<in> set (rb # blocks xs). b < 25600 \<and> A b = None)
     \<and> (\<forall>a. stable A a \<longrightarrow> ram k a = ram k0 a)"


lemma parse_valid:
  fixes k :: "'a path_state_scheme"
  assumes rep: "kheap_rep k A" and s: "cstr (ram k) p s" "valid_path s"
    and st: "\<forall>i \<le> length s. stable A (p + of_nat i)"
    and free: "2 * length (path_split (drop 3 s)) + 2 \<le> free_blocks 25600 A"
  shows "\<exists>rb xs k'. pathparser_parse p k = Some (blk_addr rb, k') \<and> parsed_path k A s rb xs k'"
proof -
  let ?r = "drop 3 s"
  have len: "3 \<le> length s" "length s \<le> 108" "isdigit (s ! 0)"
    using s(2) by (simp_all add: valid_path_def)
  have slen: "strlen (ram k) p = Some (int (length s))"
    using strlen_loop_cstr [OF s(1), of 0] by (simp add: strlen_def)
  have fmt: "pathparser_path_valid_format (ram k) p" using path_format [OF s(1) len(2)] s(2) by simp
  have head: "ram k p = s ! 0" using s(1) len(1) by (cases s) auto
  have pos: "0 < free_blocks 25600 A" using free by simp
  obtain rb k1 where k1: "kzalloc 8 k = (blk_addr rb, k1)" "rb < 25600" "A rb = None" "\<not> covered A rb"
    "kheap_rep k1 (A(rb \<mapsto> 1))" "free_blocks 25600 A = Suc (free_blocks 25600 (A(rb \<mapsto> 1)))"
    "\<And>a. 25600 \<le> unat (a - 0x7E00) \<Longrightarrow> 4096 \<le> unat (a - blk_addr rb) \<Longrightarrow> ram k1 a = ram k a"
    by (rule page_alloc [OF rep, of 8]) (simp, simp, rule pos, auto)
  let ?A = "A(rb \<mapsto> 1)"
  define d where "d = tonumericdigit (s ! 0)"
  define k2 where "k2 = k1\<lparr>path_roots := (path_roots k1)(blk_addr rb := \<lparr>drive_no = d, first_part = 0\<rparr>)\<rparr>"
  have root: "pathparser_create_root d k = (blk_addr rb, k2)"
    by (simp add: pathparser_create_root_def k1(1) k2_def)
  have same1: "ram k1 a = ram k a" if "stable A a" for a
    using that k1(2,4,7) by (auto simp: stable_def)
  have stA: "stable A a \<Longrightarrow> stable ?A a" for a using stable_upd k1(3) by blast
  have d: "\<not> d < 0" using digit_nonneg [OF len(3)] by (simp add: d_def)
  have nz: "blk_addr rb \<noteq> 0" by (rule blk_addr_nonzero [OF k1(2)])
  have run0: "pathparser_parse p k =
      do { (first, tmp_path, k) \<leftarrow> pathparser_parse_path_part 0 (p + 3) k2;
           if first = 0 then Some (blk_addr rb, k)
           else do {
             let k = k\<lparr>path_roots := (path_roots k)(blk_addr rb := (path_roots k (blk_addr rb))\<lparr>first_part := first\<rparr>)\<rparr>;
             (part, tmp_path, k) \<leftarrow> pathparser_parse_path_part first tmp_path k;
             k \<leftarrow> parse_parts_loop part tmp_path k;
             Some (blk_addr rb, k) } }"
    using len d nz by (simp add: pathparser_parse_def slen pathparser_get_drive_by_path_def fmt head root flip: d_def)
  have rep2: "kheap_rep k2 ?A" using k1(5) by (simp add: k2_def)
  have c2: "cstr (ram k2) (p + 3) ?r"
  proof -
    have "cstr (ram k1) p s" by (rule stable_cong_cstr [OF s(1) same1]) (use st in auto)
    then show ?thesis using cstr_drop [of "ram k1" p s 3] len(1) by (simp add: k2_def)
  qed
  have rlen: "length ?r \<le> 107" using len(2) by simp
  have st2: "\<forall>i \<le> length ?r. stable ?A (p + 3 + of_nat i)"
  proof (intro allI impI)
    fix i assume "i \<le> length ?r"
    then have "3 + i \<le> length s" using len(1) by simp
    then have "stable A (p + of_nat (3 + i))" using st by blast
    then show "stable ?A (p + 3 + of_nat i)" using stA by (simp add: add.assoc)
  qed
  have free2: "2 * length (path_split ?r) < free_blocks 25600 ?A" using free k1(6) by simp
  show ?thesis
  proof (cases "part_of ?r = []")
    case True
    have pos2: "0 < free_blocks 25600 ?A" using free2 by simp
    obtain p' k3 where e: "pathparser_parse_path_part 0 (p + 3) k2 = Some (0, p', k3)" "kheap_rep k3 ?A"
      "\<forall>a. stable ?A a \<longrightarrow> ram k3 a = ram k2 a" "path_parts k3 = path_parts k2" "path_roots k3 = path_roots k2"
      using parse_part_empty [OF rep2 pos2 c2 rlen st2 True] by blast
    have "ones [rb] = [rb \<mapsto> 1]" by (auto simp: ones_def)
    then have "parsed_path k A s rb [] k3"
      using e True k1(2,3) stA same1
      by (simp add: parsed_path_def k2_def d_def path_split.simps)
    then show ?thesis using e(1) by (auto simp: run0)
  next
    case False
    have split: "path_split ?r = part_of ?r # path_split (after_part ?r)"
      using False by (subst path_split.simps) simp
    have two: "2 \<le> free_blocks 25600 ?A" using free2 split by simp
    obtain b c p' k3 where g: "pathparser_parse_path_part 0 (p + 3) k2 = Some (blk_addr c, p', k3)"
      "b < 25600" "c < 25600" "?A b = None" "?A c = None" "b \<noteq> c"
      "kheap_rep k3 (?A(b \<mapsto> 1, c \<mapsto> 1))"
      "free_blocks 25600 ?A = free_blocks 25600 (?A(b \<mapsto> 1, c \<mapsto> 1)) + 2"
      "cstr (ram k3) p' (after_part ?r)" "\<forall>i \<le> length (after_part ?r). stable ?A (p' + of_nat i)"
      "cstr (ram k3) (blk_addr b) (part_of ?r)" "\<forall>a. stable ?A a \<longrightarrow> ram k3 a = ram k2 a"
      "path_parts k3 = (path_parts k2)(blk_addr c := \<lparr>part_str = blk_addr b, part_next = 0\<rparr>)"
      "path_roots k3 = path_roots k2"
      using parse_part_some [OF rep2 two c2 rlen st2 False, of 0] by (auto simp: Let_def)
    let ?C = "?A(b \<mapsto> 1, c \<mapsto> 1)"
    define k4 where "k4 = k3\<lparr>path_roots := (path_roots k3)(blk_addr rb := (path_roots k3 (blk_addr rb))\<lparr>first_part := blk_addr c\<rparr>)\<rparr>"
    have stC: "stable ?A a \<Longrightarrow> stable ?C a" for a
      using stable_upd [of ?A b a 1] stable_upd [of "?A(b \<mapsto> 1)" c a 1] g(4-6) by simp
    have i: "kheap_rep k4 ?C" "?C c \<noteq> None" "part_next (path_parts k4 (blk_addr c)) = 0"
      "cstr (ram k4) p' (after_part ?r)" "length (after_part ?r) \<le> 107"
      "\<forall>i \<le> length (after_part ?r). stable ?C (p' + of_nat i)"
      "2 * length (path_split (after_part ?r)) < free_blocks 25600 ?C"
      using g(7-10,13) stC after_part_shorter [OF False] rlen free2 split
      by (simp_all add: k4_def)
    obtain xs k5 where L: "Option.bind (pathparser_parse_path_part (blk_addr c) p' k4)
        (\<lambda>(part, path, k). parse_parts_loop part path k) = Some k5"
      "map (\<lambda>x. snd (snd x)) xs = path_split (after_part ?r)" "parsed k4 ?C (blk_addr c) xs k5"
      using parse_loop_spec [OF i(1) g(3) i(2-7)] by blast
    then obtain part p5 k5' where L1: "pathparser_parse_path_part (blk_addr c) p' k4 = Some (part, p5, k5')"
      "parse_parts_loop part p5 k5' = Some k5"
      by (auto simp: bind_eq_Some_conv)
    have run: "pathparser_parse p k = Some (blk_addr rb, k5)"
      using L1 blk_addr_nonzero [OF g(3)] by (simp add: run0 g(1) k4_def)
    let ?xs = "(c, b, part_of ?r) # xs"
    have P: "chain k5 xs (part_next (path_parts k5 (blk_addr c)))"
      "part_str (path_parts k5 (blk_addr c)) = blk_addr b"
      "kheap_rep k5 (?C ++ ones (blocks xs))" "distinct (blocks xs)"
      "\<forall>x \<in> set (blocks xs). x < 25600 \<and> ?C x = None"
      "\<And>a. stable ?C a \<Longrightarrow> ram k5 a = ram k4 a" "path_roots k5 = path_roots k4"
      using L(3) by (auto simp: parsed_def k4_def g(13))
    have str: "cstr (ram k5) (blk_addr b) (part_of ?r)"
    proof (rule stable_cong_cstr [where A = ?C])
      show "cstr (ram k4) (blk_addr b) (part_of ?r)" using g(11) by (simp add: k4_def)
      show "ram k5 a = ram k4 a" if "stable ?C a" for a using P(6) [OF that] .
      fix i assume "i \<le> length (part_of ?r)"
      then have "i < 4096" using part_of_length [of ?r] rlen by linarith
      then show "stable ?C (blk_addr b + of_nat i)" using g(6) by (intro stable_block [OF i(1)]) simp_all
    qed
    have ones: "?C ++ ones (blocks xs) = A ++ ones (rb # blocks ?xs)"
      using g(4-6) by (auto simp: ones_def map_add_def fun_eq_iff)
    have "parsed_path k A s rb ?xs k5"
      unfolding parsed_path_def
    proof (intro conjI)
      show "drive_no (path_roots k5 (blk_addr rb)) = tonumericdigit (s ! 0)"
        by (simp add: P(7) k4_def g(14) k2_def d_def)
      show "chain k5 ?xs (first_part (path_roots k5 (blk_addr rb)))"
        using P(1,2) str by (simp add: P(7) k4_def)
      show "map (\<lambda>x. snd (snd x)) ?xs = path_split ?r" using L(2) split by simp
      show "kheap_rep k5 (A ++ ones (rb # blocks ?xs))" using P(3) unfolding ones .
      show "distinct (rb # blocks ?xs)" "\<forall>x \<in> set (rb # blocks ?xs). x < 25600 \<and> A x = None"
        using P(4,5) g(2-6) k1(2,3) by (auto split: if_splits)
      show "\<forall>a. stable A a \<longrightarrow> ram k5 a = ram k a"
        using P(6) stC stA g(12) same1 by (simp add: k4_def k2_def)
    qed
    then show ?thesis using run by blast
  qed
qed


subsection \<open>Properties\<close>

text \<open>
  C38: \<open>pathparser_parse\<close> refines splitting at the slashes.  On a string in stable memory it always
  returns.  A path that is not a digit, \<open>:/\<close> and at most 108 bytes in all yields the null pointer and
  changes nothing; a valid one yields a root with the drive number whose list of parts is the text
  between the slashes, up to the first empty part, all of it in fresh live blocks, and no stable byte
  has changed.
\<close>
theorem pathparser_parse_spec:
  fixes k :: "'a path_state_scheme"
  assumes "kheap_rep k A" and "cstr (ram k) p s" and "\<forall>i \<le> length s. stable A (p + of_nat i)"
    and "2 * length (path_split (drop 3 s)) + 2 \<le> free_blocks 25600 A"
  shows "if valid_path s
    then \<exists>rb xs k'. pathparser_parse p k = Some (blk_addr rb, k') \<and> parsed_path k A s rb xs k'
    else pathparser_parse p k = Some (0, k)"
  using parse_valid [OF assms(1,2) _ assms(3,4)] parse_invalid [OF assms(2)] by simp

definition test_path :: "u32 \<Rightarrow> u8" where
  \<comment> \<open>\<open>0:/a/b\<close> at address 16, zeros elsewhere\<close>
  "test_path = (\<lambda>_. 0)(16 := 0x30, 17 := 0x3A, 18 := 0x2F, 19 := 0x61, 20 := 0x2F, 21 := 0x62)"

definition test_paths :: path_state where
  "test_paths = \<lparr>ram = test_path, kernel_heap = the_heap, current_directory = 0, cr3 = 0, drive = test_drive,
     the_disk = \<lparr>disk_type = 0, sector_size = 512, disk_id = 0, disk_filesystem = 0, fs_private = 0\<rparr>,
     disk_addr = 0x200000, streams = (\<lambda>_. \<lparr>pos = 0, stream_disk = 0x200000\<rparr>),
     path_roots = (\<lambda>_. \<lparr>drive_no = 0, first_part = 0\<rparr>), path_parts = (\<lambda>_. \<lparr>part_str = 0, part_next = 0\<rparr>)\<rparr>"

lemma test_paths_ready:
  defines "s \<equiv> [0x30, 0x3A, 0x2F, 0x61, 0x2F, 0x62] :: u8 list"
  shows "kheap_rep test_paths Map.empty" "cstr (ram test_paths) 16 s"
    "\<forall>i \<le> length s. stable Map.empty (16 + of_nat i)" "valid_path s"
    "path_split (drop 3 s) = [[0x61], [0x62]]"
    "2 * length (path_split (drop 3 s)) + 2 \<le> free_blocks 25600 Map.empty"
proof -
  have "test_path (0x7E00 + of_nat i) = 0" if "i < 25600" for i
  proof -
    have ne: "0x7E00 + of_nat i \<noteq> (w :: u32)" if "unat w < 32" for w
      using that \<open>i < 25600\<close> by (intro table_cell_not_low) simp_all
    show ?thesis unfolding test_path_def by (simp add: ne)
  qed
  then have "heap_rep kernel_table test_path Map.empty"
    by (intro heap_rep_empty) (simp_all add: entry_at_def)
  then show "kheap_rep test_paths Map.empty" by (simp add: kheap_rep_def test_paths_def)
  show "cstr (ram test_paths) 16 s" by (simp add: test_paths_def s_def test_path_def)
  show "\<forall>i \<le> length s. stable Map.empty (16 + of_nat i)"
  proof (intro allI impI stable_low)
    fix i assume "i \<le> length s"
    then have "i \<le> 6" by (simp add: s_def)
    then show "unat (16 + of_nat i :: u32) < 0x7E00" by (simp add: unat_add32 unat_of_nat32)
  qed
  show "valid_path s" by (simp add: valid_path_def s_def isdigit_def sgn_char_def)
  show split: "path_split (drop 3 s) = [[0x61], [0x62]]"
    by (simp add: s_def path_split.simps part_of_def after_part_def)
  show "2 * length (path_split (drop 3 s)) + 2 \<le> free_blocks 25600 Map.empty"
    by (simp add: split free_blocks_empty)
qed

theorem pathparser_parse_spec_witness:
  "\<exists>rb xs k'. pathparser_parse 16 test_paths = Some (blk_addr rb, k')
     \<and> drive_no (path_roots k' (blk_addr rb)) = 0
     \<and> chain k' xs (first_part (path_roots k' (blk_addr rb))) \<and> map (\<lambda>x. snd (snd x)) xs = [[0x61], [0x62]]"
proof -
  obtain rb xs k' where P: "pathparser_parse 16 test_paths = Some (blk_addr rb, k')"
    "parsed_path test_paths Map.empty [0x30, 0x3A, 0x2F, 0x61, 0x2F, 0x62] rb xs k'"
    using pathparser_parse_spec [OF test_paths_ready(1-3,6)] test_paths_ready(4) by auto
  then show ?thesis
    using test_paths_ready(5)
    by (intro exI [of _ rb] exI [of _ xs] exI [of _ k'])
      (simp add: parsed_path_def tonumericdigit_def sgn_char_def)
qed

text \<open>
  \<open>pathparser_free\<close> releases everything a parse allocated: parsing a valid path and freeing the
  root returns and leaves the allocator in the abstract state it started from.
\<close>
theorem pathparser_parse_free:
  fixes k :: "'a path_state_scheme"
  assumes "kheap_rep k A" and "cstr (ram k) p s" and "\<forall>i \<le> length s. stable A (p + of_nat i)"
    and "2 * length (path_split (drop 3 s)) + 2 \<le> free_blocks 25600 A" and "valid_path s"
  shows "\<exists>root k' k''. pathparser_parse p k = Some (root, k') \<and> root \<noteq> 0
    \<and> pathparser_free root k' = Some k'' \<and> kheap_rep k'' A"
proof -
  obtain rb xs k' where P: "pathparser_parse p k = Some (blk_addr rb, k')" "parsed_path k A s rb xs k'"
    using parse_valid [OF assms(1,2,5,3,4)] by blast
  let ?bs = "blocks xs @ [rb]" and ?B = "A ++ ones (rb # blocks xs)"
  have rep: "kheap_rep k' ?B" and dist: "distinct ?bs"
    and fresh: "\<forall>b \<in> set (rb # blocks xs). b < 25600 \<and> A b = None"
    using P(2) by (auto simp: parsed_path_def)
  have free: "pathparser_free (blk_addr rb) k' = Some (fold (\<lambda>b. kfree (blk_addr b)) ?bs k')"
    using P(2) by (intro pathparser_free_fold) (auto simp: parsed_path_def)
  have dom: "set ?bs \<subseteq> dom ?B" by (auto simp: ones_def map_add_def)
  have "kheap_rep (fold (\<lambda>b. kfree (blk_addr b)) ?bs k') (?B |` (- set ?bs))"
    by (rule kz.dealloc_all [OF rep dist dom])
  moreover have "?B |` (- set ?bs) = A" using fresh by (intro restrict_ones) auto
  ultimately have "kheap_rep (fold (\<lambda>b. kfree (blk_addr b)) ?bs k') A" by simp
  moreover have "blk_addr rb \<noteq> 0" using fresh blk_addr_nonzero by simp
  ultimately show ?thesis using P(1) free by blast
qed

theorem pathparser_parse_free_witness:
  "\<exists>root k' k''. pathparser_parse 16 test_paths = Some (root, k') \<and> root \<noteq> 0
    \<and> pathparser_free root k' = Some k'' \<and> kheap_rep k'' Map.empty"
  by (rule pathparser_parse_free [OF test_paths_ready(1-3,6,4)])

end
