(* ===== verification/Slots.thy ===== *)
theory Slots
  imports Prelude
begin

text \<open>
  Tables of pointers in which zero marks a free slot: the descriptor table and the filesystem table of
  \<^verbatim>\<open>src/src/fs/file.c\<close>, and the process table.  \<open>find_slot\<close> is the scan they all run; the
  locale \<open>slot_table\<close> is the contract of a table whose users claim the lowest free slot and release it.
\<close>

primrec find_slot_from :: "nat \<Rightarrow> u32 list \<Rightarrow> nat option" where
  "find_slot_from i [] = None"
| "find_slot_from i (x # xs) = (if x = 0 then Some i else find_slot_from (Suc i) xs)"

definition find_slot :: "u32 list \<Rightarrow> nat option" where
  \<comment> \<open>\<open>for (i = 0; i < N; i++) if (table[i] == 0) ...\<close>\<close>
  "find_slot xs = find_slot_from 0 xs"

definition lowest_free :: "u32 list \<Rightarrow> nat \<Rightarrow> bool" where
  "lowest_free xs i \<longleftrightarrow> i < length xs \<and> xs ! i = 0 \<and> (\<forall>j < i. xs ! j \<noteq> 0)"

lemma find_slot_from_Some:
  "find_slot_from n xs = Some i \<longleftrightarrow> n \<le> i \<and> lowest_free xs (i - n)"
proof (induction xs arbitrary: n)
  case Nil
  then show ?case by (simp add: lowest_free_def)
next
  case (Cons x xs)
  have "lowest_free (x # xs) k \<longleftrightarrow> (if x = 0 then k = 0 else 0 < k \<and> lowest_free xs (k - 1))" for k
    by (cases k) (auto simp: lowest_free_def nth_Cons split: nat.splits)
  then show ?case using Cons.IH [of "Suc n"] by (auto simp: Suc_le_eq)
qed

lemma find_slot_Some: "find_slot xs = Some i \<longleftrightarrow> lowest_free xs i"
  by (simp add: find_slot_def find_slot_from_Some)

lemma find_slot_from_None: "find_slot_from n xs = None \<longleftrightarrow> 0 \<notin> set xs"
  by (induction xs arbitrary: n) auto

lemma find_slot_None: "find_slot xs = None \<longleftrightarrow> 0 \<notin> set xs"
  by (simp add: find_slot_def find_slot_from_None)

lemma lowest_free_unique: "lowest_free xs i \<Longrightarrow> lowest_free xs j \<Longrightarrow> i = j"
  by (metis lowest_free_def nat_neq_iff)

locale slot_table =
  fixes table :: "'s \<Rightarrow> u32 list"
    and inv :: "'s \<Rightarrow> bool"
    and ready :: "'s \<Rightarrow> bool"
    and claim :: "'s \<Rightarrow> nat option \<times> 's"
    and release :: "nat \<Rightarrow> 's \<Rightarrow> 's"
  assumes claim_full: "ready s \<Longrightarrow> 0 \<notin> set (table s) \<Longrightarrow> claim s = (None, s)"
    and claim_slot: "ready s \<Longrightarrow> lowest_free (table s) i \<Longrightarrow>
      fst (claim s) = Some i \<and> (\<exists>p. p \<noteq> 0 \<and> table (snd (claim s)) = (table s)[i := p])"
    and claim_inv: "ready s \<Longrightarrow> inv (snd (claim s))"
    and release_slot: "inv s \<Longrightarrow> i < length (table s) \<Longrightarrow> table s ! i \<noteq> 0 \<Longrightarrow>
      table (release i s) = (table s)[i := 0]"
begin

lemma claim_iff: "ready s \<Longrightarrow> (fst (claim s) = None) = (0 \<notin> set (table s))"
proof -
  assume r: "ready s"
  show ?thesis
  proof (cases "find_slot (table s)")
    case None
    then show ?thesis using claim_full [OF r] by (simp add: find_slot_None)
  next
    case (Some i)
    then have "lowest_free (table s) i" by (simp add: find_slot_Some)
    then show ?thesis using claim_slot [OF r, of i] Some find_slot_None [of "table s"] by auto
  qed
qed

lemma claim_lowest:
  assumes "ready s" and "fst (claim s) = Some i"
  shows "lowest_free (table s) i"
proof -
  have "0 \<in> set (table s)" using claim_iff [OF assms(1)] assms(2) by auto
  then obtain j where "find_slot (table s) = Some j" using find_slot_None by (cases "find_slot (table s)") auto
  then have j: "lowest_free (table s) j" by (simp add: find_slot_Some)
  then show ?thesis using claim_slot [OF assms(1) j] assms(2) by simp
qed

lemma claim_release:
  assumes "ready s" and "fst (claim s) = Some i"
  shows "table (release i (snd (claim s))) = table s"
proof -
  have l: "lowest_free (table s) i" by (rule claim_lowest [OF assms])
  then obtain p where p: "p \<noteq> 0" "table (snd (claim s)) = (table s)[i := p]"
    using claim_slot [OF assms(1)] by blast
  have "i < length (table s)" "table s ! i = 0" using l by (simp_all add: lowest_free_def)
  then have "((table s)[i := p])[i := 0] = table s" by (metis list_update_id list_update_overwrite)
  then show ?thesis
    using release_slot [OF claim_inv [OF assms(1)], of i] p \<open>i < length (table s)\<close> by simp
qed

lemma claim_distinct:
  assumes "ready s" and "ready (snd (claim s))" and "fst (claim s) = Some i" and "fst (claim (snd (claim s))) = Some j"
  shows "i < j"
proof -
  have i: "lowest_free (table s) i" by (rule claim_lowest [OF assms(1,3)])
  obtain p where p: "p \<noteq> 0" "table (snd (claim s)) = (table s)[i := p]" using claim_slot [OF assms(1) i] by blast
  have j: "lowest_free ((table s)[i := p]) j" using claim_lowest [OF assms(2,4)] p(2) by simp
  show ?thesis
  proof (rule ccontr)
    assume "\<not> i < j"
    then consider "j < i" | "j = i" by linarith
    then show False
      using i j p(1) by cases (auto simp: lowest_free_def)
  qed
qed

end

end
