(* ===== verification/File.thy ===== *)
theory File
  imports Pparser Slots
begin

text \<open>
  \<^verbatim>\<open>src/src/fs/file.c\<close>: the virtual filesystem layer.  A filesystem is a table of function
  pointers; the operations take the map \<open>vt\<close> from the address of a \<open>struct filesystem\<close> to its
  functions, so that any filesystem can stand behind them.  Descriptors are heap objects, named by
  their place in the table of 512.
\<close>

subsection \<open>State\<close>

record file_stat =
  stat_flags :: u32
  filesize :: u32

record 'k filesystem =
  fs_resolve_fn :: "u32 \<Rightarrow> 'k \<Rightarrow> (int \<times> 'k) option"
  fs_open_fn :: "u32 \<Rightarrow> u32 \<Rightarrow> u32 \<Rightarrow> 'k \<Rightarrow> (u32 \<times> 'k) option"
  fs_read_fn :: "u32 \<Rightarrow> u32 \<Rightarrow> u32 \<Rightarrow> u32 \<Rightarrow> u32 \<Rightarrow> 'k \<Rightarrow> (int \<times> 'k) option"
  fs_seek_fn :: "u32 \<Rightarrow> u32 \<Rightarrow> u32 \<Rightarrow> 'k \<Rightarrow> (int \<times> 'k) option"
  fs_stat_fn :: "u32 \<Rightarrow> u32 \<Rightarrow> file_stat \<Rightarrow> 'k \<Rightarrow> (int \<times> file_stat \<times> 'k) option"
  fs_close_fn :: "u32 \<Rightarrow> 'k \<Rightarrow> (int \<times> 'k) option"

record file_descriptor =
  fd_index :: int
  fd_filesystem :: u32
  fd_private :: u32
  fd_disk :: u32

record file_state = path_state +
  filesystems :: "u32 list"
  file_descriptors :: "u32 list"
  fdescs :: "u32 \<Rightarrow> file_descriptor"

definition PEACHOS_MAX_FILESYSTEMS :: nat where [simp]: "PEACHOS_MAX_FILESYSTEMS = 12"
definition PEACHOS_MAX_FILE_DESCRIPTORS :: nat where [simp]: "PEACHOS_MAX_FILE_DESCRIPTORS = 512"
definition FILE_MODE_READ :: u32 where [simp]: "FILE_MODE_READ = 0"
definition FILE_MODE_WRITE :: u32 where [simp]: "FILE_MODE_WRITE = 1"
definition FILE_MODE_APPEND :: u32 where [simp]: "FILE_MODE_APPEND = 2"
definition FILE_MODE_INVALID :: u32 where [simp]: "FILE_MODE_INVALID = 3"

subsection \<open>The filesystem table\<close>

definition fs_get_free_filesystem :: "'a file_state_scheme \<Rightarrow> nat option" where
  \<comment> \<open>the slot the returned pointer designates\<close>
  "fs_get_free_filesystem k = find_slot (filesystems k)"

definition fs_insert_filesystem :: "u32 \<Rightarrow> 'a file_state_scheme \<Rightarrow> 'a file_state_scheme option" where
  \<comment> \<open>with no free slot the code prints a message and loops: \<open>None\<close>\<close>
  "fs_insert_filesystem fs k =
     (case fs_get_free_filesystem k of None \<Rightarrow> None
      | Some i \<Rightarrow> Some (k\<lparr>filesystems := (filesystems k)[i := fs]\<rparr>))"

definition fs_static_load :: "u32 \<Rightarrow> 'a file_state_scheme \<Rightarrow> 'a file_state_scheme option" where
  \<comment> \<open>the argument is what \<open>fat16_init()\<close> returns\<close>
  "fs_static_load fat16_fs k = fs_insert_filesystem fat16_fs k"

definition fs_load :: "u32 \<Rightarrow> 'a file_state_scheme \<Rightarrow> 'a file_state_scheme option" where
  "fs_load fat16_fs k =
     (let k = k\<lparr>filesystems := replicate PEACHOS_MAX_FILESYSTEMS 0\<rparr> in fs_static_load fat16_fs k)"

definition fs_init :: "u32 \<Rightarrow> 'a file_state_scheme \<Rightarrow> 'a file_state_scheme option" where
  "fs_init fat16_fs k =
     (let k = k\<lparr>file_descriptors := replicate PEACHOS_MAX_FILE_DESCRIPTORS 0\<rparr> in fs_load fat16_fs k)"

primrec fs_resolve_loop :: "(u32 \<Rightarrow> 'k filesystem) \<Rightarrow> u32 \<Rightarrow> u32 list \<Rightarrow> 'k \<Rightarrow> (u32 \<times> 'k) option" where
  "fs_resolve_loop vt disk [] k = Some (0, k)"
| "fs_resolve_loop vt disk (f # fs) k =
     (if f \<noteq> 0 then
        do { (res, k) \<leftarrow> fs_resolve_fn (vt f) disk k;
             if res = 0 then Some (f, k) else fs_resolve_loop vt disk fs k }
      else fs_resolve_loop vt disk fs k)"

definition fs_resolve :: "(u32 \<Rightarrow> 'a file_state_scheme filesystem) \<Rightarrow> u32 \<Rightarrow> 'a file_state_scheme
    \<Rightarrow> (u32 \<times> 'a file_state_scheme) option" where
  "fs_resolve vt disk k = fs_resolve_loop vt disk (filesystems k) k"

definition disk_search_and_init :: "(u32 \<Rightarrow> 'a file_state_scheme filesystem) \<Rightarrow> 'a file_state_scheme
    \<Rightarrow> 'a file_state_scheme option" where
  \<comment> \<open>\<open>disk.c\<close>; a resolver that accepts the disk may have set fields of it before\<close>
  "disk_search_and_init vt k =
     do { let k = k\<lparr>the_disk := \<lparr>disk_type = PEACHOS_DISK_TYPE_REAL, sector_size = PEACHOS_SECTOR_SIZE,
                     disk_id = 0, disk_filesystem = 0, fs_private = 0\<rparr>\<rparr>;
          (fs, k) \<leftarrow> fs_resolve vt (disk_addr k) k;
          Some (k\<lparr>the_disk := (the_disk k)\<lparr>disk_filesystem := fs\<rparr>\<rparr>) }"

subsection \<open>The descriptor table\<close>

definition clear_descriptor :: "u32 \<Rightarrow> 'a file_state_scheme \<Rightarrow> 'a file_state_scheme" where
  "clear_descriptor desc k =
     (let k = k\<lparr>file_descriptors := (file_descriptors k)[nat (fd_index (fdescs k desc) - 1) := 0]\<rparr>
      in kfree desc k)"

definition file_free_descriptor :: "u32 \<Rightarrow> 'a file_state_scheme \<Rightarrow> 'a file_state_scheme option" where
  \<comment> \<open>\<open>None\<close>: the slot to clear lies outside the array\<close>
  "file_free_descriptor desc k =
     (let index = fd_index (fdescs k desc) - 1
      in if index < 0 \<or> index \<ge> int (length (file_descriptors k)) then None else Some (clear_descriptor desc k))"

definition file_new_descriptor :: "u32 \<Rightarrow> 'a file_state_scheme \<Rightarrow> int \<times> u32 \<times> 'a file_state_scheme" where
  \<comment> \<open>the first argument and second result are the value behind \<open>desc_out\<close>\<close>
  "file_new_descriptor desc_out k =
     (case find_slot (file_descriptors k) of
        None \<Rightarrow> (- ENOMEM, desc_out, k)
      | Some i \<Rightarrow>
          let (desc, k) = kzalloc 16 k;
              k = k\<lparr>fdescs := (fdescs k)(desc :=
                      \<lparr>fd_index = int i + 1, fd_filesystem = 0, fd_private = 0, fd_disk = 0\<rparr>)\<rparr>;
              k = k\<lparr>file_descriptors := (file_descriptors k)[i := desc]\<rparr>
          in (0, desc, k))"

definition file_get_descriptor :: "int \<Rightarrow> 'a file_state_scheme \<Rightarrow> u32" where
  "file_get_descriptor fd k =
     (if fd \<le> 0 \<or> fd \<ge> int PEACHOS_MAX_FILE_DESCRIPTORS then 0
      else let index = fd - 1 in file_descriptors k ! nat index)"

subsection \<open>The calls\<close>

definition strncmp_lit :: "mem \<Rightarrow> u32 \<Rightarrow> u8 \<Rightarrow> int" where
  \<comment> \<open>\<open>strncmp(str, "c", 1)\<close>\<close>
  "strncmp_lit m str c = (if m str \<noteq> c then uint (m str) - uint c else 0)"

definition file_get_mode_by_string :: "mem \<Rightarrow> u32 \<Rightarrow> u32" where
  "file_get_mode_by_string m str =
     (if strncmp_lit m str 0x72 = 0 then FILE_MODE_READ
      else if strncmp_lit m str 0x77 = 0 then FILE_MODE_WRITE
      else if strncmp_lit m str 0x61 = 0 then FILE_MODE_APPEND
      else FILE_MODE_INVALID)"

definition fopen_body :: "(u32 \<Rightarrow> 'a file_state_scheme filesystem) \<Rightarrow> u32 \<Rightarrow> u32 \<Rightarrow> 'a file_state_scheme
    \<Rightarrow> (int \<times> 'a file_state_scheme) option" where
  \<comment> \<open>\<open>fopen\<close> up to its label \<open>out\<close>\<close>
  "fopen_body vt filename mode_str k =
     do { (root_path, k) \<leftarrow> pathparser_parse filename k;
          if root_path = 0 then Some (- EINVARG, k)
          else if first_part (path_roots k root_path) = 0 then Some (- EINVARG, k)
          else
            let disk = disk_get (drive_no (path_roots k root_path)) k
            in if disk = 0 then Some (- EIO, k)
               else if disk_filesystem (the_disk k) = 0 then Some (- EIO, k)
               else
                 let mode = file_get_mode_by_string (ram k) mode_str
                 in if mode = FILE_MODE_INVALID then Some (- EINVARG, k)
                    else
                      do { (private, k) \<leftarrow> fs_open_fn (vt (disk_filesystem (the_disk k))) disk
                              (first_part (path_roots k root_path)) mode k;
                           if as_int private < 0 then Some (as_int private, k)
                           else
                             let (res, desc, k) = file_new_descriptor 0 k
                             in if res < 0 then Some (res, k)
                                else
                                  let k = k\<lparr>fdescs := (fdescs k)(desc := (fdescs k desc)
                                            \<lparr>fd_filesystem := disk_filesystem (the_disk k),
                                             fd_private := private, fd_disk := disk\<rparr>)\<rparr>
                                  in Some (fd_index (fdescs k desc), k) } }"

definition fopen :: "(u32 \<Rightarrow> 'a file_state_scheme filesystem) \<Rightarrow> u32 \<Rightarrow> u32 \<Rightarrow> 'a file_state_scheme
    \<Rightarrow> (int \<times> 'a file_state_scheme) option" where
  "fopen vt filename mode_str k =
     do { (res, k) \<leftarrow> fopen_body vt filename mode_str k; Some (if res < 0 then 0 else res, k) }"

definition fstat :: "(u32 \<Rightarrow> 'a file_state_scheme filesystem) \<Rightarrow> int \<Rightarrow> file_stat \<Rightarrow> 'a file_state_scheme
    \<Rightarrow> (int \<times> file_stat \<times> 'a file_state_scheme) option" where
  "fstat vt fd st k =
     (let desc = file_get_descriptor fd k
      in if desc = 0 then Some (- EIO, st, k)
         else fs_stat_fn (vt (fd_filesystem (fdescs k desc))) (fd_disk (fdescs k desc))
                (fd_private (fdescs k desc)) st k)"

definition fclose :: "(u32 \<Rightarrow> 'a file_state_scheme filesystem) \<Rightarrow> int \<Rightarrow> 'a file_state_scheme
    \<Rightarrow> (int \<times> 'a file_state_scheme) option" where
  "fclose vt fd k =
     (let desc = file_get_descriptor fd k
      in if desc = 0 then Some (- EIO, k)
         else do { (res, k) \<leftarrow> fs_close_fn (vt (fd_filesystem (fdescs k desc))) (fd_private (fdescs k desc)) k;
                   if res = PEACHOS_ALL_OK then do { k \<leftarrow> file_free_descriptor desc k; Some (res, k) }
                   else Some (res, k) })"

definition fseek :: "(u32 \<Rightarrow> 'a file_state_scheme filesystem) \<Rightarrow> int \<Rightarrow> int \<Rightarrow> u32 \<Rightarrow> 'a file_state_scheme
    \<Rightarrow> (int \<times> 'a file_state_scheme) option" where
  "fseek vt fd offset whence k =
     (let desc = file_get_descriptor fd k
      in if desc = 0 then Some (- EIO, k)
         else fs_seek_fn (vt (fd_filesystem (fdescs k desc))) (fd_private (fdescs k desc)) (as_u32 offset) whence k)"

definition fread :: "(u32 \<Rightarrow> 'a file_state_scheme filesystem) \<Rightarrow> u32 \<Rightarrow> u32 \<Rightarrow> u32 \<Rightarrow> int \<Rightarrow> 'a file_state_scheme
    \<Rightarrow> (int \<times> 'a file_state_scheme) option" where
  "fread vt ptr sz nmemb fd k =
     (if sz = 0 \<or> nmemb = 0 \<or> fd < 1 then Some (- EINVARG, k)
      else let desc = file_get_descriptor fd k
           in if desc = 0 then Some (- EINVARG, k)
              else fs_read_fn (vt (fd_filesystem (fdescs k desc))) (fd_disk (fdescs k desc))
                     (fd_private (fdescs k desc)) sz nmemb ptr k)"


subsection \<open>The descriptor table keeps its invariant\<close>

text \<open>
  \<open>file_inv k A\<close>: the heap represents \<open>A\<close>, the table has its 512 slots, and every occupied slot \<open>i\<close>
  points to a live one-block object whose \<open>index\<close> is \<open>i + 1\<close>.
\<close>

definition file_inv :: "'a file_state_scheme \<Rightarrow> (nat \<rightharpoonup> nat) \<Rightarrow> bool" where
  "file_inv k A \<longleftrightarrow> kheap_rep k A \<and> length (file_descriptors k) = 512
     \<and> (\<forall>i < 512. file_descriptors k ! i \<noteq> 0 \<longrightarrow>
          (\<exists>b. file_descriptors k ! i = blk_addr b \<and> A b = Some 1)
          \<and> fd_index (fdescs k (file_descriptors k ! i)) = int i + 1)"

lemma file_same_more:
  "kmem.more (k' :: 'a file_state_scheme) = kmem.more k \<Longrightarrow>
   file_descriptors k' = file_descriptors k \<and> fdescs k' = fdescs k \<and> filesystems k' = filesystems k"
  by (cases k; cases k') auto

lemma kheap_rep_file [simp]:
  "kheap_rep (k\<lparr>file_descriptors := x\<rparr>) A = kheap_rep k A" "kheap_rep (k\<lparr>fdescs := y\<rparr>) A = kheap_rep k A"
  by (simp_all add: kheap_rep_def)

lemma file_invD:
  assumes "file_inv k A"
  shows "kheap_rep k A" "length (file_descriptors k) = 512"
    and "i < 512 \<Longrightarrow> file_descriptors k ! i \<noteq> 0 \<Longrightarrow> \<exists>b. file_descriptors k ! i = blk_addr b \<and> A b = Some 1"
    and "i < 512 \<Longrightarrow> file_descriptors k ! i \<noteq> 0 \<Longrightarrow> fd_index (fdescs k (file_descriptors k ! i)) = int i + 1"
  using assms unfolding file_inv_def by blast+

lemma live_blk: "kheap_rep k A \<Longrightarrow> A b = Some n \<Longrightarrow> b < 25600"
  by (auto dest: kheap_rep_pos)

lemma file_slots_distinct:
  assumes "file_inv k A" and "i < 512" and "j < 512" and "file_descriptors k ! i \<noteq> 0"
    and "file_descriptors k ! i = file_descriptors k ! j"
  shows "i = j"
proof -
  have i: "fd_index (fdescs k (file_descriptors k ! i)) = int i + 1"
    by (rule file_invD(4) [OF assms(1,2,4)])
  have "file_descriptors k ! j \<noteq> 0" using assms(4) unfolding assms(5) .
  then have "fd_index (fdescs k (file_descriptors k ! j)) = int j + 1"
    by (rule file_invD(4) [OF assms(1,3)])
  then show ?thesis using i unfolding assms(5) by linarith
qed

lemma new_descriptor:
  fixes k :: "'a file_state_scheme"
  assumes inv: "file_inv k A" and free: "0 < free_blocks 25600 A" and low: "lowest_free (file_descriptors k) i"
  shows "\<exists>b k'. file_new_descriptor d k = (0, blk_addr b, k') \<and> b < 25600 \<and> A b = None
    \<and> file_inv k' (A(b \<mapsto> 1)) \<and> file_descriptors k' = (file_descriptors k)[i := blk_addr b]
    \<and> fdescs k' = (fdescs k)(blk_addr b := \<lparr>fd_index = int i + 1, fd_filesystem = 0, fd_private = 0, fd_disk = 0\<rparr>)"
proof -
  have rep: "kheap_rep k A" and len: "length (file_descriptors k) = 512"
    using file_invD [OF inv] by simp_all
  obtain b k1 where k1: "kzalloc 16 k = (blk_addr b, k1)" "b < 25600" "A b = None"
    "kheap_rep k1 (A(b \<mapsto> 1))" "kmem.more k1 = kmem.more k"
    by (rule page_alloc [OF rep, of 16]) (simp, simp, rule free, auto)
  have same: "file_descriptors k1 = file_descriptors k" "fdescs k1 = fdescs k"
    using file_same_more [OF k1(5)] by simp_all
  have i: "i < 512" using low len by (simp add: lowest_free_def)
  let ?D = "\<lparr>fd_index = int i + 1, fd_filesystem = 0, fd_private = 0, fd_disk = 0\<rparr>"
  define k' where "k' = k1\<lparr>fdescs := (fdescs k)(blk_addr b := ?D),
      file_descriptors := (file_descriptors k)[i := blk_addr b]\<rparr>"
  have run: "file_new_descriptor d k = (0, blk_addr b, k')"
    using low by (simp add: file_new_descriptor_def find_slot_Some [THEN iffD2] k1(1) same k'_def)
  have other: "file_descriptors k ! j \<noteq> blk_addr b" if j: "j < 512" for j
  proof
    assume eq: "file_descriptors k ! j = blk_addr b"
    then have "file_descriptors k ! j \<noteq> 0" using blk_addr_nonzero [OF k1(2)] by simp
    then obtain c where c: "file_descriptors k ! j = blk_addr c" "A c = Some 1"
      using file_invD(3) [OF inv j] by blast
    then have "c = b" using eq blk_addr_inj [OF live_blk [OF rep c(2)] k1(2)] by simp
    then show False using c(2) k1(3) by simp
  qed
  have "file_inv k' (A(b \<mapsto> 1))"
    unfolding file_inv_def
  proof (intro conjI allI impI)
    show "kheap_rep k' (A(b \<mapsto> 1))" using k1(4) by (simp add: k'_def)
    show "length (file_descriptors k') = 512" using len by (simp add: k'_def)
    fix j assume j: "j < 512" and nz: "file_descriptors k' ! j \<noteq> 0"
    show "\<exists>c. file_descriptors k' ! j = blk_addr c \<and> (A(b \<mapsto> 1)) c = Some 1"
    proof (cases "j = i")
      case True
      then show ?thesis using len i by (auto simp: k'_def)
    next
      case False
      then have "file_descriptors k ! j \<noteq> 0" using nz by (simp add: k'_def)
      then obtain c where "file_descriptors k ! j = blk_addr c" "A c = Some 1"
        using file_invD(3) [OF inv j] by blast
      then show ?thesis using False by (intro exI [of _ c]) (simp add: k'_def)
    qed
    show "fd_index (fdescs k' (file_descriptors k' ! j)) = int j + 1"
    proof (cases "j = i")
      case True
      then show ?thesis using len i by (simp add: k'_def)
    next
      case False
      then have "file_descriptors k ! j \<noteq> 0" using nz by (simp add: k'_def)
      then show ?thesis using False other [OF j] file_invD(4) [OF inv j] by (simp add: k'_def)
    qed
  qed
  then show ?thesis using run k1(2,3) by (intro exI [of _ b] exI [of _ k']) (simp add: k'_def)
qed

lemma free_descriptor:
  fixes k :: "'a file_state_scheme"
  assumes inv: "file_inv k A" and i: "i < 512" and b: "file_descriptors k ! i = blk_addr b" "A b = Some 1"
  shows "file_inv (clear_descriptor (blk_addr b) k) (A(b := None))"
    and "file_descriptors (clear_descriptor (blk_addr b) k) = (file_descriptors k)[i := 0]"
    and "fdescs (clear_descriptor (blk_addr b) k) = fdescs k"
    and "file_free_descriptor (blk_addr b) k = Some (clear_descriptor (blk_addr b) k)"
proof -
  have rep: "kheap_rep k A" and len: "length (file_descriptors k) = 512"
    using file_invD [OF inv] by simp_all
  have nz: "file_descriptors k ! i \<noteq> 0" using b blk_addr_nonzero [OF live_blk [OF rep b(2)]] by simp
  have "fd_index (fdescs k (blk_addr b)) = int i + 1" using file_invD(4) [OF inv i nz] b(1) by simp
  then show "file_free_descriptor (blk_addr b) k = Some (clear_descriptor (blk_addr b) k)"
    using i len by (simp add: file_free_descriptor_def)
  have idx: "nat (fd_index (fdescs k (blk_addr b)) - 1) = i"
    using file_invD(4) [OF inv i nz] b(1) by simp
  let ?k = "k\<lparr>file_descriptors := (file_descriptors k)[i := 0]\<rparr>"
  have run: "clear_descriptor (blk_addr b) k = kfree (blk_addr b) ?k"
    by (simp add: clear_descriptor_def idx)
  have more: "file_descriptors (kfree (blk_addr b) ?k) = (file_descriptors k)[i := 0]"
    "fdescs (kfree (blk_addr b) ?k) = fdescs k"
    using file_same_more [OF kfree_more [of "blk_addr b" ?k]] by simp_all
  then show "file_descriptors (clear_descriptor (blk_addr b) k) = (file_descriptors k)[i := 0]"
    "fdescs (clear_descriptor (blk_addr b) k) = fdescs k" using run by simp_all
  show "file_inv (clear_descriptor (blk_addr b) k) (A(b := None))"
    unfolding file_inv_def run more
  proof (intro conjI allI impI)
    show "kheap_rep (kfree (blk_addr b) ?k) (A(b := None))"
      by (rule kfree_rep [of ?k A, OF _ b(2)]) (simp add: rep)
    show "length ((file_descriptors k)[i := 0]) = 512" using len by simp
    fix j assume j: "j < 512" and nzj: "(file_descriptors k)[i := 0] ! j \<noteq> 0"
    have ij: "j \<noteq> i" using nzj len i by auto
    then have nz': "file_descriptors k ! j \<noteq> 0" using nzj by simp
    then obtain c where c: "file_descriptors k ! j = blk_addr c" "A c = Some 1"
      using file_invD(3) [OF inv j] by blast
    have "c \<noteq> b" using file_slots_distinct [OF inv j i nz'] c(1) b(1) ij by auto
    then show "\<exists>c. (file_descriptors k)[i := 0] ! j = blk_addr c \<and> (A(b := None)) c = Some 1"
      using c ij by (intro exI [of _ c]) simp
    show "fd_index (fdescs k ((file_descriptors k)[i := 0] ! j)) = int j + 1"
      using ij file_invD(4) [OF inv j nz'] by simp
  qed
qed

definition fd_claim :: "'a file_state_scheme \<Rightarrow> nat option \<times> 'a file_state_scheme" where
  \<comment> \<open>\<open>file_new_descriptor\<close> seen as a claim on the table\<close>
  "fd_claim k = (let (res, desc, k') = file_new_descriptor 0 k
     in (if res < 0 then None else Some (nat (fd_index (fdescs k' desc) - 1)), k'))"

definition fd_release :: "nat \<Rightarrow> 'a file_state_scheme \<Rightarrow> 'a file_state_scheme" where
  "fd_release i k = clear_descriptor (file_descriptors k ! i) k"

interpretation fdt: slot_table file_descriptors "\<lambda>k. \<exists>A. file_inv k A"
  "\<lambda>k. \<exists>A. file_inv k A \<and> 0 < free_blocks 25600 A" fd_claim fd_release
proof
  fix k :: "'a file_state_scheme"
  assume "\<exists>A. file_inv k A \<and> 0 < free_blocks 25600 A" and "0 \<notin> set (file_descriptors k)"
  then show "fd_claim k = (None, k)"
    using find_slot_None [of "file_descriptors k"] by (simp add: fd_claim_def file_new_descriptor_def)
next
  fix k :: "'a file_state_scheme" and i
  assume "\<exists>A. file_inv k A \<and> 0 < free_blocks 25600 A" and low: "lowest_free (file_descriptors k) i"
  then obtain A where "file_inv k A" "0 < free_blocks 25600 A" by blast
  from new_descriptor [OF this low, of 0]
  obtain b k' where n: "file_new_descriptor 0 k = (0, blk_addr b, k')" "b < 25600"
    "file_descriptors k' = (file_descriptors k)[i := blk_addr b]"
    "fdescs k' = (fdescs k)(blk_addr b := \<lparr>fd_index = int i + 1, fd_filesystem = 0, fd_private = 0, fd_disk = 0\<rparr>)"
    by blast
  then show "fst (fd_claim k) = Some i \<and> (\<exists>p. p \<noteq> 0 \<and> file_descriptors (snd (fd_claim k)) = (file_descriptors k)[i := p])"
    using blk_addr_nonzero [OF n(2)] by (auto simp: fd_claim_def)
next
  fix k :: "'a file_state_scheme"
  assume "\<exists>A. file_inv k A \<and> 0 < free_blocks 25600 A"
  then obtain A where A: "file_inv k A" "0 < free_blocks 25600 A" by blast
  show "\<exists>A. file_inv (snd (fd_claim k)) A"
  proof (cases "find_slot (file_descriptors k)")
    case None
    then show ?thesis using A(1) by (auto simp: fd_claim_def file_new_descriptor_def)
  next
    case (Some i)
    then have "lowest_free (file_descriptors k) i" by (simp add: find_slot_Some)
    from new_descriptor [OF A this, of 0] show ?thesis by (auto simp: fd_claim_def)
  qed
next
  fix k :: "'a file_state_scheme" and i
  assume "\<exists>A. file_inv k A" and i: "i < length (file_descriptors k)" "file_descriptors k ! i \<noteq> 0"
  then obtain A where A: "file_inv k A" by blast
  have "i < 512" using i(1) file_invD(2) [OF A] by simp
  moreover from this obtain b where "file_descriptors k ! i = blk_addr b" "A b = Some 1"
    using file_invD(3) [OF A _ i(2)] by blast
  ultimately show "file_descriptors (fd_release i k) = (file_descriptors k)[i := 0]"
    using free_descriptor(2) [OF A] by (simp add: fd_release_def)
qed


subsection \<open>Properties\<close>

text \<open>
  C39: \<open>file_new_descriptor\<close> fails with \<open>-ENOMEM\<close> exactly when no slot is free.  Otherwise it takes the
  lowest free slot \<open>i\<close>, fills it with a fresh live descriptor of index \<open>i + 1\<close>, keeps the invariant,
  and freeing that descriptor restores the table.
\<close>
theorem file_new_descriptor_spec:
  fixes k :: "'a file_state_scheme"
  assumes "file_inv k A" and "0 < free_blocks 25600 A"
  shows "if 0 \<notin> set (file_descriptors k) then file_new_descriptor d k = (- ENOMEM, d, k)
    else \<exists>i b k'. lowest_free (file_descriptors k) i \<and> file_new_descriptor d k = (0, blk_addr b, k')
      \<and> A b = None \<and> file_inv k' (A(b \<mapsto> 1)) \<and> fd_index (fdescs k' (blk_addr b)) = int i + 1
      \<and> file_descriptors k' = (file_descriptors k)[i := blk_addr b]
      \<and> (\<exists>k''. file_free_descriptor (blk_addr b) k' = Some k'' \<and> file_descriptors k'' = file_descriptors k)"
proof (cases "find_slot (file_descriptors k)")
  case None
  then show ?thesis using find_slot_None [of "file_descriptors k"] by (simp add: file_new_descriptor_def)
next
  case (Some i)
  then have low: "lowest_free (file_descriptors k) i" by (simp add: find_slot_Some)
  obtain b k' where n: "file_new_descriptor d k = (0, blk_addr b, k')" "A b = None" "file_inv k' (A(b \<mapsto> 1))"
    "file_descriptors k' = (file_descriptors k)[i := blk_addr b]"
    "fdescs k' = (fdescs k)(blk_addr b := \<lparr>fd_index = int i + 1, fd_filesystem = 0, fd_private = 0, fd_disk = 0\<rparr>)"
    using new_descriptor [OF assms low, of d] by blast
  have claim: "fd_claim k = (Some i, k')"
  proof -
    have "file_new_descriptor 0 k = (0, blk_addr b, k')"
      using n(1) low by (simp add: file_new_descriptor_def find_slot_Some [THEN iffD2])
    then show ?thesis by (simp add: fd_claim_def n(5))
  qed
  have "file_descriptors (fd_release i k') = file_descriptors k"
    using fdt.claim_release [of k i] claim assms by auto
  moreover have "file_descriptors k' ! i = blk_addr b" using n(4) low by (simp add: lowest_free_def)
  moreover have "0 \<in> set (file_descriptors k)" using Some find_slot_None [of "file_descriptors k"] by auto
  ultimately have rest: "0 \<in> set (file_descriptors k)"
    "file_descriptors (clear_descriptor (blk_addr b) k') = file_descriptors k"
    by (simp_all add: fd_release_def)
  have "i < 512" using low file_invD(2) [OF assms(1)] by (simp add: lowest_free_def)
  moreover have "file_descriptors k' ! i = blk_addr b" using n(4) low by (simp add: lowest_free_def)
  moreover have "(A(b \<mapsto> 1)) b = Some 1" by simp
  ultimately have freed: "file_free_descriptor (blk_addr b) k' = Some (clear_descriptor (blk_addr b) k')"
    by (rule free_descriptor(4) [OF n(3)])
  have undone: "\<exists>k''. file_free_descriptor (blk_addr b) k' = Some k'' \<and> file_descriptors k'' = file_descriptors k"
    using freed rest(2) by simp
  have "fd_index (fdescs k' (blk_addr b)) = int i + 1" by (simp add: n(5))
  then have "\<exists>i b k'. lowest_free (file_descriptors k) i \<and> file_new_descriptor d k = (0, blk_addr b, k')
      \<and> A b = None \<and> file_inv k' (A(b \<mapsto> 1)) \<and> fd_index (fdescs k' (blk_addr b)) = int i + 1
      \<and> file_descriptors k' = (file_descriptors k)[i := blk_addr b]
      \<and> (\<exists>k''. file_free_descriptor (blk_addr b) k' = Some k'' \<and> file_descriptors k'' = file_descriptors k)"
    using low n(1-4) undone by blast
  then show ?thesis using rest(1) by simp
qed

definition test_files :: file_state where
  "test_files = \<lparr>ram = test_path, kernel_heap = the_heap, current_directory = 0, cr3 = 0, drive = test_drive,
     the_disk = \<lparr>disk_type = 0, sector_size = 512, disk_id = 0, disk_filesystem = 0, fs_private = 0\<rparr>,
     disk_addr = 0x200000, streams = (\<lambda>_. \<lparr>pos = 0, stream_disk = 0x200000\<rparr>),
     path_roots = (\<lambda>_. \<lparr>drive_no = 0, first_part = 0\<rparr>), path_parts = (\<lambda>_. \<lparr>part_str = 0, part_next = 0\<rparr>),
     filesystems = replicate 12 0, file_descriptors = replicate 512 0,
     fdescs = (\<lambda>_. \<lparr>fd_index = 0, fd_filesystem = 0, fd_private = 0, fd_disk = 0\<rparr>)\<rparr>"

lemma test_files_rep: "kheap_rep test_files Map.empty"
  using test_paths_ready(1) by (simp add: kheap_rep_def test_files_def test_paths_def)

lemma test_files_inv: "file_inv test_files Map.empty"
  using test_files_rep by (simp add: file_inv_def) (simp add: test_files_def)

theorem file_new_descriptor_spec_witness:
  "\<exists>b k'. file_new_descriptor 0 test_files = (0, blk_addr b, k') \<and> fd_index (fdescs k' (blk_addr b)) = 1"
proof -
  have "0 < free_blocks 25600 Map.empty" by (simp add: free_blocks_empty)
  from file_new_descriptor_spec [OF test_files_inv this, of 0]
  have "\<exists>i b k'. lowest_free (file_descriptors test_files) i \<and> file_new_descriptor 0 test_files = (0, blk_addr b, k')
      \<and> fd_index (fdescs k' (blk_addr b)) = int i + 1"
    by (auto simp: test_files_def)
  moreover have "lowest_free (file_descriptors test_files) 0" by (simp add: lowest_free_def test_files_def)
  ultimately show ?thesis using lowest_free_unique by fastforce
qed

text \<open>
  the 512th descriptor is lost.  \<open>file_new_descriptor\<close> hands out index 512 when the last slot is
  the lowest free one, but every call on descriptor 512 is refused, so it can never be read, stated,
  moved or closed again.
\<close>
theorem descriptor_512_refused:
  fixes k :: "'a file_state_scheme"
  assumes "lowest_free (file_descriptors k) 511"
  shows "\<exists>desc k'. file_new_descriptor d k = (0, desc, k') \<and> fd_index (fdescs k' desc) = 512
    \<and> fclose vt 512 k' = Some (- EIO, k') \<and> fstat vt 512 st k' = Some (- EIO, st, k')
    \<and> fseek vt 512 off w k' = Some (- EIO, k') \<and> fread vt p sz nm 512 k' = Some (- EINVARG, k')"
proof -
  have none: "file_get_descriptor 512 k'' = 0" for k'' :: "'a file_state_scheme"
    by (simp add: file_get_descriptor_def)
  obtain desc k1 where k1: "kzalloc 16 k = (desc, k1)" by fastforce
  show ?thesis
    using assms
    by (simp add: file_new_descriptor_def find_slot_Some [THEN iffD2] k1 fclose_def fstat_def
        fseek_def fread_def none)
qed

theorem descriptor_512_refused_witness:
  "\<exists>desc k'. file_new_descriptor 0 (test_files\<lparr>file_descriptors := replicate 511 1 @ [0]\<rparr>) = (0, desc, k')
    \<and> fd_index (fdescs k' desc) = 512"
proof -
  have "lowest_free (file_descriptors (test_files\<lparr>file_descriptors := replicate 511 1 @ [0]\<rparr>)) 511"
    by (simp add: lowest_free_def nth_append)
  from descriptor_512_refused [OF this, of 0] show ?thesis by blast
qed

text \<open>
  \<open>fclose\<close>.  On an open descriptor whose filesystem closes it, the call returns 0, the descriptor
  object is released, its slot is free again and every other slot keeps its descriptor; if the
  filesystem refuses, its code is returned and the descriptor stays open; a descriptor that is not open
  gives \<open>-EIO\<close>.  (The filesystem may change the heap, not the descriptor table.)
\<close>
theorem fclose_spec:
  fixes k :: "'a file_state_scheme"
  assumes desc_def: "desc = file_get_descriptor fd k" and fd: "0 < fd" "fd < 512"
    and close: "fs_close_fn (vt (fd_filesystem (fdescs k desc))) (fd_private (fdescs k desc)) k = Some (r, k1)"
      "file_inv k1 A" "file_descriptors k1 = file_descriptors k"
  shows "if desc = 0 then fclose vt fd k = Some (- EIO, k)
    else if r \<noteq> 0 then fclose vt fd k = Some (r, k1)
    else \<exists>b k'. desc = blk_addr b \<and> A b = Some 1 \<and> fclose vt fd k = Some (0, k')
      \<and> file_inv k' (A(b := None)) \<and> file_descriptors k' = (file_descriptors k)[nat fd - 1 := 0]
      \<and> file_get_descriptor fd k' = 0"
proof -
  let ?i = "nat fd - 1"
  have i: "?i < 512" "nat (fd - 1) = ?i" using fd by simp_all
  have get: "file_get_descriptor fd k'' = file_descriptors k'' ! ?i" for k'' :: "'a file_state_scheme"
    using fd i by (simp add: file_get_descriptor_def)
  show ?thesis
  proof (cases "desc = 0")
    case True
    then show ?thesis by (simp add: fclose_def desc_def)
  next
    case open_: False
    then have nz: "file_descriptors k1 ! ?i \<noteq> 0" using close(3) by (simp add: desc_def get)
    then obtain b where b: "file_descriptors k1 ! ?i = blk_addr b" "A b = Some 1"
      using file_invD(3) [OF close(2) i(1)] by blast
    have desc: "desc = blk_addr b" using b(1) close(3) by (simp add: desc_def get)
    have run: "fclose vt fd k = Some (r, if r = 0 then clear_descriptor desc k1 else k1)"
      using open_ close(1) free_descriptor(4) [OF close(2) i(1) b] desc
      by (simp add: fclose_def Let_def flip: desc_def)
    show ?thesis
    proof (cases "r = 0")
      case False
      then show ?thesis using open_ run by simp
    next
      case True
      let ?k = "clear_descriptor (blk_addr b) k1"
      have "file_get_descriptor fd ?k = 0"
        using free_descriptor(2) [OF close(2) i(1) b] file_invD(2) [OF close(2)] i(1) by (simp add: get)
      then have "\<exists>b k'. desc = blk_addr b \<and> A b = Some 1 \<and> fclose vt fd k = Some (0, k')
          \<and> file_inv k' (A(b := None)) \<and> file_descriptors k' = (file_descriptors k)[?i := 0]
          \<and> file_get_descriptor fd k' = 0"
        using run True desc b(2) free_descriptor(1,2) [OF close(2) i(1) b] close(3) by auto
      then show ?thesis using open_ True by simp
    qed
  qed
qed

definition null_fs :: "u32 \<Rightarrow> 'k filesystem" where
  \<comment> \<open>a filesystem without files, whose \<open>close\<close> succeeds\<close>
  "null_fs p = \<lparr>fs_resolve_fn = (\<lambda>d k. Some (0, k)), fs_open_fn = (\<lambda>d f m k. Some (- 1, k)),
     fs_read_fn = (\<lambda>d p s n out k. Some (0, k)), fs_seek_fn = (\<lambda>p off w k. Some (0, k)),
     fs_stat_fn = (\<lambda>d p st k. Some (0, st, k)), fs_close_fn = (\<lambda>p k. Some (0, k))\<rparr>"

theorem fclose_spec_witness:
  "\<exists>k k' :: file_state. file_get_descriptor 1 k \<noteq> 0 \<and> fclose null_fs 1 k = Some (0, k') \<and> file_get_descriptor 1 k' = 0"
proof -
  have free: "0 < free_blocks 25600 Map.empty" by (simp add: free_blocks_empty)
  have low: "lowest_free (file_descriptors test_files) 0" by (simp add: lowest_free_def test_files_def)
  obtain b and k :: file_state where k: "b < 25600" "file_inv k [b \<mapsto> 1]"
    "file_descriptors k = (file_descriptors test_files)[0 := blk_addr b]"
    using new_descriptor [OF test_files_inv free low, of 0] by blast
  have nz: "file_get_descriptor 1 k \<noteq> 0"
    using blk_addr_nonzero [OF k(1)] by (simp add: file_get_descriptor_def k(3)) (simp add: test_files_def)
  have "fs_close_fn (null_fs (fd_filesystem (fdescs k (file_get_descriptor 1 k))))
      (fd_private (fdescs k (file_get_descriptor 1 k))) k = Some (0, k)"
    by (simp add: null_fs_def)
  then show ?thesis
    using fclose_spec [of "file_get_descriptor 1 k" 1 k null_fs 0 k "[b \<mapsto> 1]"] k(2) nz by auto
qed

text \<open>
  \<open>fopen\<close> never releases the path it parses.  Opening a valid path on a drive other than 0 fails
  (the result is 0), and the root, the parts and their texts, \<open>2 n + 1\<close> blocks for \<open>n\<close> parts, stay
  allocated for good.
\<close>
theorem fopen_leaks_path:
  fixes k :: "'a file_state_scheme"
  assumes "kheap_rep k A" and "cstr (ram k) p s" and "\<forall>i \<le> length s. stable A (p + of_nat i)"
    and "2 * length (path_split (drop 3 s)) + 2 \<le> free_blocks 25600 A"
    and "valid_path s" and "tonumericdigit (s ! 0) \<noteq> 0" and "path_split (drop 3 s) \<noteq> []"
  shows "\<exists>k' bs. fopen vt p mode k = Some (0, k') \<and> kheap_rep k' (A ++ ones bs)
    \<and> distinct bs \<and> length bs = 2 * length (path_split (drop 3 s)) + 1 \<and> (\<forall>b \<in> set bs. A b = None)"
proof -
  obtain rb xs k' where P: "pathparser_parse p k = Some (blk_addr rb, k')" "parsed_path k A s rb xs k'"
    using parse_valid [OF assms(1,2,5,3,4)] by blast
  have Q: "drive_no (path_roots k' (blk_addr rb)) = tonumericdigit (s ! 0)"
    "chain k' xs (first_part (path_roots k' (blk_addr rb)))"
    "map (\<lambda>x. snd (snd x)) xs = path_split (drop 3 s)"
    "kheap_rep k' (A ++ ones (rb # blocks xs))" "distinct (rb # blocks xs)"
    "\<forall>b \<in> set (rb # blocks xs). b < 25600 \<and> A b = None"
    using P(2) unfolding parsed_path_def by blast+
  obtain x ys where xs: "xs = x # ys" using Q(3) assms(7) by (cases xs) auto
  have "blk_addr rb \<noteq> 0" using Q(6) blk_addr_nonzero by simp
  moreover have "first_part (path_roots k' (blk_addr rb)) \<noteq> 0"
    using Q(2,6) xs blk_addr_nonzero by auto
  ultimately have "fopen vt p mode k = Some (0, k')"
    using P(1) Q(1) assms(6) by (simp add: fopen_def fopen_body_def disk_get_def)
  moreover have "length (blocks xs) = 2 * length xs" by (induction xs) auto
  then have "length (rb # blocks xs) = 2 * length (path_split (drop 3 s)) + 1"
    using arg_cong [OF Q(3), of length] by simp
  ultimately show ?thesis using Q(4-6) by blast
qed


text \<open>A state with the path \<open>1:/a\<close> at address 16.\<close>

definition other_drive :: file_state where
  "other_drive = test_files\<lparr>ram := test_path(16 := 0x31, 20 := 0)\<rparr>"

theorem fopen_leaks_path_witness:
  "\<exists>k' bs. fopen null_fs 16 0 other_drive = Some (0, k') \<and> length bs = 3 \<and> kheap_rep k' (Map.empty ++ ones bs)"
proof -
  let ?s = "[0x31, 0x3A, 0x2F, 0x61] :: u8 list"
  have rep: "kheap_rep other_drive Map.empty"
  proof -
    have same: "entry_at (test_path(16 := 0x31, 20 := 0)) kernel_table i = entry_at test_path kernel_table i"
      if "i < unat (ht_total kernel_table)" for i
    proof -
      have "0x7E00 + of_nat i \<noteq> (16 :: u32)" "0x7E00 + of_nat i \<noteq> (20 :: u32)"
        by (rule table_cell_not_low; use that in simp)+
      then show ?thesis by (simp only: entry_at_def the_heap_simps fun_upd_apply if_False)
    qed
    have "heap_rep kernel_table test_path Map.empty"
      using test_paths_ready(1) by (simp add: kheap_rep_def test_paths_def)
    then have "heap_rep kernel_table (test_path(16 := 0x31, 20 := 0)) Map.empty"
      by (rule heap_rep_cong [OF _ same])
    then show ?thesis by (simp add: kheap_rep_def other_drive_def test_files_def)
  qed
  have c: "cstr (ram other_drive) 16 ?s" by (simp add: other_drive_def test_path_def)
  have st: "\<forall>i \<le> length ?s. stable Map.empty (16 + of_nat i)"
  proof (intro allI impI stable_low)
    fix i assume "i \<le> length ?s"
    then have "i \<le> 4" by simp
    then show "unat (16 + of_nat i :: u32) < 0x7E00" by (simp add: unat_add32 unat_of_nat32)
  qed
  have split: "path_split (drop 3 ?s) = [[0x61]]"
    by (simp add: path_split.simps part_of_def after_part_def)
  have valid: "valid_path ?s" "tonumericdigit (?s ! 0) \<noteq> 0"
    by (simp_all add: valid_path_def isdigit_def tonumericdigit_def sgn_char_def)
  have "2 * length (path_split (drop 3 ?s)) + 2 \<le> free_blocks 25600 Map.empty"
    unfolding split by (simp add: free_blocks_empty)
  from fopen_leaks_path [OF rep c st this valid, of null_fs 0] show ?thesis
    unfolding split by auto
qed

end
