(* ===== verification/ElfLoader.thy ===== *)
theory ElfLoader
  imports File
begin

text \<open>
  \<^verbatim>\<open>src/src/loader/formats/elfloader.c\<close> and \<^verbatim>\<open>elf.h\<close>: loading a 32-bit ELF
  executable.  The file image lies in memory; \<open>elf_header\<close> and \<open>elf32_phdr\<close> are the packed structures
  the code reads through pointers into it.  A \<open>struct elf_file\<close> is a heap object in a typed store.
\<close>

subsection \<open>Data\<close>

definition load16 :: "mem \<Rightarrow> u32 \<Rightarrow> u16" where
  "load16 m p = ucast (m p) + 256 * ucast (m (p + 1))"

record elf32_phdr =
  p_type :: u32
  p_offset :: u32
  p_vaddr :: u32
  p_paddr :: u32
  p_filesz :: u32
  p_memsz :: u32
  p_flags :: u32
  p_align :: u32

definition phdr_at :: "mem \<Rightarrow> u32 \<Rightarrow> elf32_phdr" where
  "phdr_at m p = \<lparr>p_type = load32 m p, p_offset = load32 m (p + 4), p_vaddr = load32 m (p + 8),
     p_paddr = load32 m (p + 12), p_filesz = load32 m (p + 16), p_memsz = load32 m (p + 20),
     p_flags = load32 m (p + 24), p_align = load32 m (p + 28)\<rparr>"

record elf32_shdr =
  sh_name :: u32
  sh_type :: u32
  sh_flags :: u32
  sh_addr :: u32
  sh_offset :: u32
  sh_size :: u32
  sh_link :: u32
  sh_info :: u32
  sh_addralign :: u32
  sh_entsize :: u32

definition shdr_at :: "mem \<Rightarrow> u32 \<Rightarrow> elf32_shdr" where
  "shdr_at m p = \<lparr>sh_name = load32 m p, sh_type = load32 m (p + 4), sh_flags = load32 m (p + 8),
     sh_addr = load32 m (p + 12), sh_offset = load32 m (p + 16), sh_size = load32 m (p + 20),
     sh_link = load32 m (p + 24), sh_info = load32 m (p + 28), sh_addralign = load32 m (p + 32),
     sh_entsize = load32 m (p + 36)\<rparr>"

record elf_header =
  e_ident :: "u8 list"
  e_type :: u16
  e_machine :: u16
  e_version :: u32
  e_entry :: u32
  e_phoff :: u32
  e_shoff :: u32
  e_flags :: u32
  e_ehsize :: u16
  e_phentsize :: u16
  e_phnum :: u16
  e_shentsize :: u16
  e_shnum :: u16
  e_shstrndx :: u16

definition EI_NIDENT :: nat where [simp]: "EI_NIDENT = 16"
definition EI_CLASS :: nat where [simp]: "EI_CLASS = 4"
definition EI_DATA :: nat where [simp]: "EI_DATA = 5"

definition header_at :: "mem \<Rightarrow> u32 \<Rightarrow> elf_header" where
  "header_at m p = \<lparr>e_ident = map (\<lambda>i. m (p + of_nat i)) [0..<EI_NIDENT],
     e_type = load16 m (p + 16), e_machine = load16 m (p + 18), e_version = load32 m (p + 20),
     e_entry = load32 m (p + 24), e_phoff = load32 m (p + 28), e_shoff = load32 m (p + 32),
     e_flags = load32 m (p + 36), e_ehsize = load16 m (p + 40), e_phentsize = load16 m (p + 42),
     e_phnum = load16 m (p + 44), e_shentsize = load16 m (p + 46), e_shnum = load16 m (p + 48),
     e_shstrndx = load16 m (p + 50)\<rparr>"

definition PF_W :: u32 where [simp]: "PF_W = 2"
definition PT_LOAD :: u32 where [simp]: "PT_LOAD = 1"
definition ET_EXEC :: u16 where [simp]: "ET_EXEC = 2"
definition ELFCLASSNONE :: u8 where [simp]: "ELFCLASSNONE = 0"
definition ELFCLASS32 :: u8 where [simp]: "ELFCLASS32 = 1"
definition ELFDATANONE :: u8 where [simp]: "ELFDATANONE = 0"
definition ELFDATA2LSB :: u8 where [simp]: "ELFDATA2LSB = 1"
definition PEACHOS_PROGRAM_VIRTUAL_ADDRESS :: u32 where [simp]: "PEACHOS_PROGRAM_VIRTUAL_ADDRESS = 0x400000"

record elf_file =
  ef_filename :: "u8 list"
  in_memory_size :: int
  ef_memory :: u32
  virtual_base_address :: u32
  virtual_end_address :: u32
  physical_base_address :: u32
  physical_end_address :: u32

definition zero_elf_file :: elf_file where
  \<comment> \<open>the object as \<open>kzalloc\<close> leaves it\<close>
  "zero_elf_file = \<lparr>ef_filename = replicate (nat PEACHOS_MAX_PATH) 0, in_memory_size = 0, ef_memory = 0,
     virtual_base_address = 0, virtual_end_address = 0, physical_base_address = 0, physical_end_address = 0\<rparr>"

record elf_state = file_state +
  elf_files :: "u32 \<Rightarrow> elf_file"

subsection \<open>Accessors\<close>

definition elf_signature :: "u8 list" where
  "elf_signature = [0x7F, 0x45, 0x4C, 0x46]"

definition elf_valid_signature :: "mem \<Rightarrow> u32 \<Rightarrow> bool" where
  "elf_valid_signature m buffer \<longleftrightarrow> memcmp_lit m buffer elf_signature = 0"

definition elf_valid_class :: "elf_header \<Rightarrow> bool" where
  "elf_valid_class header \<longleftrightarrow>
     e_ident header ! EI_CLASS = ELFCLASSNONE \<or> e_ident header ! EI_CLASS = ELFCLASS32"

definition elf_valid_encoding :: "elf_header \<Rightarrow> bool" where
  "elf_valid_encoding header \<longleftrightarrow>
     e_ident header ! EI_DATA = ELFDATANONE \<or> e_ident header ! EI_DATA = ELFDATA2LSB"

definition elf_is_executable :: "elf_header \<Rightarrow> bool" where
  "elf_is_executable header \<longleftrightarrow> e_type header = ET_EXEC \<and> e_entry header \<ge> PEACHOS_PROGRAM_VIRTUAL_ADDRESS"

definition elf_has_program_header :: "elf_header \<Rightarrow> bool" where
  "elf_has_program_header header \<longleftrightarrow> e_phoff header \<noteq> 0"

definition elf_memory :: "u32 \<Rightarrow> 'a elf_state_scheme \<Rightarrow> u32" where
  "elf_memory f k = ef_memory (elf_files k f)"

definition elf_header :: "u32 \<Rightarrow> 'a elf_state_scheme \<Rightarrow> u32" where
  "elf_header f k = ef_memory (elf_files k f)"

definition elf_sheader :: "mem \<Rightarrow> u32 \<Rightarrow> u32" where
  "elf_sheader m header = header + e_shoff (header_at m header)"

definition elf_pheader :: "mem \<Rightarrow> u32 \<Rightarrow> u32" where
  "elf_pheader m header =
     (if e_phoff (header_at m header) = 0 then 0 else header + e_phoff (header_at m header))"

definition elf_program_header :: "mem \<Rightarrow> u32 \<Rightarrow> int \<Rightarrow> u32" where
  "elf_program_header m header index = elf_pheader m header + 32 * as_u32 index"

definition elf_section :: "mem \<Rightarrow> u32 \<Rightarrow> int \<Rightarrow> u32" where
  "elf_section m header index = elf_sheader m header + 40 * as_u32 index"

definition elf_phdr_phys_address :: "u32 \<Rightarrow> elf32_phdr \<Rightarrow> 'a elf_state_scheme \<Rightarrow> u32" where
  "elf_phdr_phys_address f phdr k = elf_memory f k + p_offset phdr"

definition elf_str_table :: "mem \<Rightarrow> u32 \<Rightarrow> u32" where
  "elf_str_table m header =
     header + sh_offset (shdr_at m (elf_section m header (uint (e_shstrndx (header_at m header)))))"

definition elf_get_entry :: "mem \<Rightarrow> u32 \<Rightarrow> u32" where
  "elf_get_entry m header = e_entry (header_at m header)"

definition elf_get_entry_ptr :: "mem \<Rightarrow> u32 \<Rightarrow> u32" where
  "elf_get_entry_ptr m header = e_entry (header_at m header)"

definition elf_virtual_base :: "u32 \<Rightarrow> 'a elf_state_scheme \<Rightarrow> u32" where
  "elf_virtual_base f k = virtual_base_address (elf_files k f)"
definition elf_virtual_end :: "u32 \<Rightarrow> 'a elf_state_scheme \<Rightarrow> u32" where
  "elf_virtual_end f k = virtual_end_address (elf_files k f)"
definition elf_phys_base :: "u32 \<Rightarrow> 'a elf_state_scheme \<Rightarrow> u32" where
  "elf_phys_base f k = physical_base_address (elf_files k f)"
definition elf_phys_end :: "u32 \<Rightarrow> 'a elf_state_scheme \<Rightarrow> u32" where
  "elf_phys_end f k = physical_end_address (elf_files k f)"

subsection \<open>Processing the image\<close>

definition elf_validate_loaded :: "mem \<Rightarrow> u32 \<Rightarrow> int" where
  "elf_validate_loaded m header =
     (if elf_valid_signature m header \<and> elf_valid_class (header_at m header)
         \<and> elf_valid_encoding (header_at m header) \<and> elf_has_program_header (header_at m header)
      then PEACHOS_ALL_OK else - EINFORMAT)"

definition elf_process_phdr_pt_load :: "u32 \<Rightarrow> elf32_phdr \<Rightarrow> 'a elf_state_scheme \<Rightarrow> int \<times> 'a elf_state_scheme" where
  "elf_process_phdr_pt_load f phdr k =
     (let ef = elf_files k f;
          ef = (if virtual_base_address ef \<ge> p_vaddr phdr \<or> virtual_base_address ef = 0 then
                  ef\<lparr>virtual_base_address := p_paddr phdr,
                     physical_base_address := ef_memory ef + p_offset phdr\<rparr>
                else ef);
          end_virtual_address = p_vaddr phdr + p_filesz phdr;
          ef = (if virtual_end_address ef \<le> end_virtual_address \<or> virtual_end_address ef = 0 then
                  ef\<lparr>virtual_end_address := end_virtual_address,
                     physical_end_address := ef_memory ef + p_offset phdr + p_filesz phdr\<rparr>
                else ef)
      in (0, k\<lparr>elf_files := (elf_files k)(f := ef)\<rparr>))"

definition elf_process_pheader :: "u32 \<Rightarrow> elf32_phdr \<Rightarrow> 'a elf_state_scheme \<Rightarrow> int \<times> 'a elf_state_scheme" where
  "elf_process_pheader f phdr k =
     (if p_type phdr = PT_LOAD then elf_process_phdr_pt_load f phdr k else (0, k))"

primrec pheaders_loop :: "nat \<Rightarrow> nat \<Rightarrow> u32 \<Rightarrow> u32 \<Rightarrow> int \<Rightarrow> 'a elf_state_scheme \<Rightarrow> int \<times> 'a elf_state_scheme" where
  \<comment> \<open>the first argument is \<open>e_phnum - i\<close>\<close>
  "pheaders_loop 0 i header f res k = (res, k)"
| "pheaders_loop (Suc n) i header f res k =
     (let phdr = elf_program_header (ram k) header (int i);
          (res, k) = elf_process_pheader f (phdr_at (ram k) phdr) k
      in if res < 0 then (res, k) else pheaders_loop n (Suc i) header f res k)"

definition elf_process_pheaders :: "u32 \<Rightarrow> 'a elf_state_scheme \<Rightarrow> int \<times> 'a elf_state_scheme" where
  "elf_process_pheaders f k =
     (let header = elf_header f k
      in pheaders_loop (unat (e_phnum (header_at (ram k) header))) 0 header f 0 k)"

definition elf_process_loaded :: "u32 \<Rightarrow> 'a elf_state_scheme \<Rightarrow> int \<times> 'a elf_state_scheme" where
  "elf_process_loaded f k =
     (let header = elf_header f k;
          res = elf_validate_loaded (ram k) header
      in if res < 0 then (res, k) else elf_process_pheaders f k)"

subsection \<open>Loading and closing\<close>

text \<open>
  \<open>r\<close> is the address of the literal \<open>"r"\<close>, \<open>st\<close> the stack variable \<open>stat\<close> before \<open>fstat\<close> fills it,
  \<open>file_out\<close> the value behind the out-pointer.  \<open>elf_load_body\<close> runs to the label \<open>out\<close>; it returns
  \<open>fd\<close> and \<open>res\<close>.
\<close>

definition elf_load_body :: "(u32 \<Rightarrow> 'a elf_state_scheme filesystem) \<Rightarrow> u32 \<Rightarrow> file_stat \<Rightarrow> u32 \<Rightarrow> u32
    \<Rightarrow> 'a elf_state_scheme \<Rightarrow> (int \<times> int \<times> u32 \<times> 'a elf_state_scheme) option" where
  "elf_load_body vt r st filename file_out k =
     (let (f, k) = kzalloc 132 k;
          k = k\<lparr>elf_files := (elf_files k)(f := zero_elf_file)\<rparr>
      in do { (res, k) \<leftarrow> fopen vt filename r k;
              if res < 0 then Some (0, res, file_out, k)
              else do { let fd = res;
                        (res, st, k) \<leftarrow> fstat vt fd st k;
                        if res < 0 then Some (fd, res, file_out, k)
                        else do { let (p, k) = kzalloc (filesize st) k;
                                  let k = k\<lparr>elf_files := (elf_files k)(f := (elf_files k f)\<lparr>ef_memory := p\<rparr>)\<rparr>;
                                  (res, k) \<leftarrow> fread vt p (filesize st) 1 fd k;
                                  if res < 0 then Some (fd, res, file_out, k)
                                  else let (res, k) = elf_process_loaded f k
                                       in Some (fd, res, if res < 0 then file_out else f, k) } } })"

definition elf_load :: "(u32 \<Rightarrow> 'a elf_state_scheme filesystem) \<Rightarrow> u32 \<Rightarrow> file_stat \<Rightarrow> u32 \<Rightarrow> u32
    \<Rightarrow> 'a elf_state_scheme \<Rightarrow> (int \<times> u32 \<times> 'a elf_state_scheme) option" where
  "elf_load vt r st filename file_out k =
     do { (fd, res, file_out, k) \<leftarrow> elf_load_body vt r st filename file_out k;
          (_, k) \<leftarrow> fclose vt fd k;
          Some (res, file_out, k) }"

definition elf_close :: "u32 \<Rightarrow> 'a elf_state_scheme \<Rightarrow> 'a elf_state_scheme" where
  "elf_close f k = (if f = 0 then k else kfree f (kfree (ef_memory (elf_files k f)) k))"


subsection \<open>The loadable segments\<close>

text \<open>
  \<open>phdrs m h\<close> are the program headers of the image at \<open>h\<close>, \<open>loads m h\<close> those of type \<open>PT_LOAD\<close>.
  \<open>pt_load\<close> is what one loadable header does to the file object.
\<close>

definition phdrs :: "mem \<Rightarrow> u32 \<Rightarrow> elf32_phdr list" where
  "phdrs m h = map (\<lambda>i. phdr_at m (elf_program_header m h (int i))) [0..<unat (e_phnum (header_at m h))]"

definition loads :: "mem \<Rightarrow> u32 \<Rightarrow> elf32_phdr list" where
  "loads m h = filter (\<lambda>ph. p_type ph = PT_LOAD) (phdrs m h)"

definition segment_end :: "elf32_phdr \<Rightarrow> u32" where
  "segment_end ph = p_vaddr ph + p_filesz ph"

definition pt_load :: "elf32_phdr \<Rightarrow> elf_file \<Rightarrow> elf_file" where
  "pt_load ph ef = ef
     \<lparr>virtual_base_address := (if virtual_base_address ef \<ge> p_vaddr ph \<or> virtual_base_address ef = 0
        then p_paddr ph else virtual_base_address ef),
      physical_base_address := (if virtual_base_address ef \<ge> p_vaddr ph \<or> virtual_base_address ef = 0
        then ef_memory ef + p_offset ph else physical_base_address ef),
      virtual_end_address := (if virtual_end_address ef \<le> segment_end ph \<or> virtual_end_address ef = 0
        then segment_end ph else virtual_end_address ef),
      physical_end_address := (if virtual_end_address ef \<le> segment_end ph \<or> virtual_end_address ef = 0
        then ef_memory ef + p_offset ph + p_filesz ph else physical_end_address ef)\<rparr>"

definition with_elf :: "u32 \<Rightarrow> elf_file \<Rightarrow> 'a elf_state_scheme \<Rightarrow> 'a elf_state_scheme" where
  "with_elf f ef k = k\<lparr>elf_files := (elf_files k)(f := ef)\<rparr>"

lemma with_elf_simps [simp]:
  "with_elf f ef (with_elf f ef' k) = with_elf f ef k" "with_elf f (elf_files k f) k = k"
  "elf_files (with_elf f ef k) f = ef" "ram (with_elf f ef k) = ram k"
  by (simp_all add: with_elf_def)

lemma process_pheader_eq:
  "elf_process_pheader f ph k =
     (0, if p_type ph = PT_LOAD then with_elf f (pt_load ph (elf_files k f)) k else k)"
  by (simp add: elf_process_pheader_def elf_process_phdr_pt_load_def pt_load_def segment_end_def with_elf_def Let_def)

lemma pheaders_loop_fold:
  fixes k :: "'a elf_state_scheme"
  shows "pheaders_loop n i h f 0 k = (0, with_elf f
     (fold pt_load (filter (\<lambda>ph. p_type ph = PT_LOAD)
       (map (\<lambda>i. phdr_at (ram k) (elf_program_header (ram k) h (int i))) [i..<i + n])) (elf_files k f)) k)"
proof (induction n arbitrary: i k)
  case 0
  then show ?case by simp
next
  case (Suc n)
  let ?ph = "phdr_at (ram k) (elf_program_header (ram k) h (int i))"
  let ?k = "if p_type ?ph = PT_LOAD then with_elf f (pt_load ?ph (elf_files k f)) k else k"
  have up: "[i..<i + Suc n] = i # [Suc i..<Suc i + n]" by (subst upt_conv_Cons) simp_all
  have "pheaders_loop (Suc n) i h f 0 k = pheaders_loop n (Suc i) h f 0 ?k"
    by (simp only: pheaders_loop.simps process_pheader_eq Let_def prod.case) simp
  then show ?case unfolding Suc.IH up
    by (cases "p_type ?ph = PT_LOAD") (simp_all del: upt_Suc)
qed

lemma process_pheaders_fold:
  "elf_process_pheaders f k =
     (0, with_elf f (fold pt_load (loads (ram k) (ef_memory (elf_files k f))) (elf_files k f)) k)"
  by (simp add: elf_process_pheaders_def elf_header_def loads_def phdrs_def pheaders_loop_fold Let_def)

text \<open>
  \<open>spans ef hs\<close>: the bounds recorded in \<open>ef\<close> are those of the segments \<open>hs\<close>, and the physical addresses
  are where the image holds a lowest and a highest segment.
\<close>

definition spans :: "elf_file \<Rightarrow> elf32_phdr list \<Rightarrow> bool" where
  "spans ef hs \<longleftrightarrow>
     (\<forall>ph \<in> set hs. virtual_base_address ef \<le> p_vaddr ph \<and> segment_end ph \<le> virtual_end_address ef)
   \<and> (\<exists>ph \<in> set hs. virtual_base_address ef = p_vaddr ph \<and> physical_base_address ef = ef_memory ef + p_offset ph)
   \<and> (\<exists>ph \<in> set hs. virtual_end_address ef = segment_end ph
        \<and> physical_end_address ef = ef_memory ef + p_offset ph + p_filesz ph)"

definition plain_segment :: "elf32_phdr \<Rightarrow> bool" where
  \<comment> \<open>not at address 0, not wrapping, its physical address field equal to its virtual one\<close>
  "plain_segment ph \<longleftrightarrow> p_vaddr ph \<noteq> 0 \<and> p_paddr ph = p_vaddr ph
     \<and> unat (p_vaddr ph) + unat (p_filesz ph) < 4294967296"

lemma plain_end: "plain_segment ph \<Longrightarrow> segment_end ph \<noteq> 0"
  by (auto simp: plain_segment_def segment_end_def word32_eq_iff_unat unat_add32 simp del: unat_eq_0)

lemma pt_load_spans:
  assumes "plain_segment ph" and "spans ef hs" and "\<forall>ph \<in> set hs. plain_segment ph"
  shows "spans (pt_load ph ef) (hs @ [ph])"
proof -
  have nz: "virtual_base_address ef \<noteq> 0" "virtual_end_address ef \<noteq> 0"
    using assms(2,3) plain_end unfolding spans_def plain_segment_def by auto
  have paddr: "p_paddr ph = p_vaddr ph" using assms(1) by (simp add: plain_segment_def)
  let ?ef = "pt_load ph ef"
  have low: "\<forall>q \<in> set (hs @ [ph]). virtual_base_address ?ef \<le> p_vaddr q"
    using assms(2) nz paddr by (auto simp: spans_def pt_load_def)
  have high: "\<forall>q \<in> set (hs @ [ph]). segment_end q \<le> virtual_end_address ?ef"
    using assms(2) nz by (auto simp: spans_def pt_load_def)
  have base: "\<exists>q \<in> set (hs @ [ph]). virtual_base_address ?ef = p_vaddr q
      \<and> physical_base_address ?ef = ef_memory ?ef + p_offset q"
    using assms(2) nz paddr by (auto simp: spans_def pt_load_def)
  have top: "\<exists>q \<in> set (hs @ [ph]). virtual_end_address ?ef = segment_end q
      \<and> physical_end_address ?ef = ef_memory ?ef + p_offset q + p_filesz q"
    using assms(2) nz by (auto simp: spans_def pt_load_def)
  show ?thesis unfolding spans_def using low high base top by blast
qed

lemma pt_load_first:
  assumes "plain_segment ph" and "virtual_base_address ef = 0" and "virtual_end_address ef = 0"
  shows "spans (pt_load ph ef) [ph]"
  using assms by (simp add: spans_def pt_load_def plain_segment_def)

lemma fold_pt_load_spans:
  assumes "hs \<noteq> []" and "\<forall>ph \<in> set hs. plain_segment ph"
    and "virtual_base_address ef = 0" and "virtual_end_address ef = 0"
  shows "spans (fold pt_load hs ef) hs"
  using assms(1,2)
proof (induction hs rule: rev_nonempty_induct)
  case (single ph)
  then show ?case using pt_load_first assms(3,4) by simp
next
  case (snoc ph hs)
  then show ?case using pt_load_spans by simp
qed

lemma fold_pt_load_memory [simp]: "ef_memory (fold pt_load hs ef) = ef_memory ef"
  by (induction hs arbitrary: ef) (simp_all add: pt_load_def)

definition elf_image :: "mem \<Rightarrow> u32 \<Rightarrow> bool" where
  \<comment> \<open>magic number, 32-bit or unspecified class, little-endian or unspecified encoding, a header table\<close>
  "elf_image m h \<longleftrightarrow> m h = 0x7F \<and> m (h + 1) = 0x45 \<and> m (h + 2) = 0x4C \<and> m (h + 3) = 0x46
     \<and> m (h + 4) \<le> 1 \<and> m (h + 5) \<le> 1 \<and> load32 m (h + 28) \<noteq> 0"

lemma le_1_byte: "(c :: u8) \<le> 1 \<longleftrightarrow> c = 0 \<or> c = 1"
  by (metis word_le_sub1 word_not_simps(1) word_neq_0_conv add_0 le_less word_less_1 linorder_not_le)

lemma validate_iff: "elf_validate_loaded m h = (if elf_image m h then 0 else - 9)"
proof -
  have "elf_valid_signature m h \<longleftrightarrow> m h = 0x7F \<and> m (h + 1) = 0x45 \<and> m (h + 2) = 0x4C \<and> m (h + 3) = 0x46"
    by (simp add: elf_valid_signature_def elf_signature_def add.assoc)
  moreover have "elf_valid_class (header_at m h) \<longleftrightarrow> m (h + 4) \<le> 1"
    by (simp add: elf_valid_class_def header_at_def le_1_byte)
  moreover have "elf_valid_encoding (header_at m h) \<longleftrightarrow> m (h + 5) \<le> 1"
    by (simp add: elf_valid_encoding_def header_at_def le_1_byte)
  moreover have "elf_has_program_header (header_at m h) \<longleftrightarrow> load32 m (h + 28) \<noteq> 0"
    by (simp add: elf_has_program_header_def header_at_def)
  ultimately show ?thesis by (simp add: elf_validate_loaded_def elf_image_def)
qed


lemma kheap_rep_elf [simp]: "kheap_rep (k\<lparr>elf_files := x\<rparr>) A = kheap_rep k A"
  by (simp add: kheap_rep_def)

subsection \<open>Properties\<close>

text \<open>
  C22: processing a loaded image.  A file object whose memory is not an ELF image the loader supports is
  refused with \<open>-EINFORMAT\<close> and nothing changes.  Otherwise the call succeeds, changes only this file
  object, and when the image has loadable segments (not at address 0, not wrapping, physical address equal
  to the virtual one) it records their lowest address and highest end, with where the image holds a
  segment that starts, and one that ends, there; without loadable segments the object is unchanged.
\<close>
theorem elf_process_loaded_spec:
  fixes k :: "'a elf_state_scheme"
  assumes "elf_header f k = h" and "virtual_base_address (elf_files k f) = 0"
    and "virtual_end_address (elf_files k f) = 0" and "\<forall>ph \<in> set (loads (ram k) h). plain_segment ph"
  shows "if \<not> elf_image (ram k) h then elf_process_loaded f k = (- EINFORMAT, k)
    else \<exists>ef. elf_process_loaded f k = (0, k\<lparr>elf_files := (elf_files k)(f := ef)\<rparr>) \<and> ef_memory ef = h
      \<and> (if loads (ram k) h = [] then ef = elf_files k f else spans ef (loads (ram k) h))"
proof -
  let ?ef = "fold pt_load (loads (ram k) h) (elf_files k f)"
  have h: "ef_memory (elf_files k f) = h" using assms(1) by (simp add: elf_header_def)
  have run: "elf_process_loaded f k = (if elf_image (ram k) h then (0, with_elf f ?ef k) else (- 9, k))"
    using process_pheaders_fold [of f k] by (simp add: elf_process_loaded_def assms(1) validate_iff h)
  have spans: "loads (ram k) h \<noteq> [] \<Longrightarrow> spans ?ef (loads (ram k) h)"
    using fold_pt_load_spans [OF _ assms(4,2,3)] by blast
  show ?thesis
  proof (cases "elf_image (ram k) h")
    case True
    then have "elf_process_loaded f k = (0, k\<lparr>elf_files := (elf_files k)(f := ?ef)\<rparr>)"
      using run by (simp add: with_elf_def)
    moreover have "ef_memory ?ef = h" by (simp add: h)
    moreover have "if loads (ram k) h = [] then ?ef = elf_files k f else spans ?ef (loads (ram k) h)"
      using spans by simp
    ultimately show ?thesis using True by (simp only: not_True_eq_False if_False) blast
  qed (use run in simp)
qed

text \<open>An image at address \<open>0x100\<close> with one header: type 1, offset \<open>0x1000\<close>, address \<open>0x400000\<close>, size 16.\<close>

definition test_image :: mem where
  "test_image = (\<lambda>_. 0)(0x100 := 0x7F, 0x101 := 0x45, 0x102 := 0x4C, 0x103 := 0x46, 0x104 := 1, 0x105 := 1,
     0x11C := 52, 0x12C := 1,
     0x134 := 1, 0x139 := 0x10, 0x13E := 0x40, 0x142 := 0x40, 0x144 := 16)"

definition test_elf :: elf_state where
  "test_elf = \<lparr>ram = test_image, kernel_heap = the_heap, current_directory = 0, cr3 = 0, drive = test_drive,
     the_disk = \<lparr>disk_type = 0, sector_size = 512, disk_id = 0, disk_filesystem = 0, fs_private = 0\<rparr>,
     disk_addr = 0x200000, streams = (\<lambda>_. \<lparr>pos = 0, stream_disk = 0x200000\<rparr>),
     path_roots = (\<lambda>_. \<lparr>drive_no = 0, first_part = 0\<rparr>), path_parts = (\<lambda>_. \<lparr>part_str = 0, part_next = 0\<rparr>),
     filesystems = replicate 12 0, file_descriptors = replicate 512 0,
     fdescs = (\<lambda>_. \<lparr>fd_index = 0, fd_filesystem = 0, fd_private = 0, fd_disk = 0\<rparr>),
     elf_files = (\<lambda>_. zero_elf_file\<lparr>ef_memory := 0x100\<rparr>)\<rparr>"

lemma test_image_loads:
  "loads test_image 0x100 =
    [\<lparr>p_type = 1, p_offset = 0x1000, p_vaddr = 0x400000, p_paddr = 0x400000, p_filesz = 16, p_memsz = 0,
      p_flags = 0, p_align = 0\<rparr>]"
  by (simp add: loads_def phdrs_def header_at_def load16_def phdr_at_def elf_program_header_def
      elf_pheader_def load32_def test_image_def as_u32_def)

theorem elf_process_loaded_spec_witness:
  "\<exists>ef. elf_process_loaded 8 test_elf = (0, test_elf\<lparr>elf_files := (elf_files test_elf)(8 := ef)\<rparr>)
     \<and> virtual_base_address ef = 0x400000 \<and> physical_end_address ef = 0x1110"
proof -
  have m: "ram test_elf = test_image" by (simp add: test_elf_def)
  have img: "elf_image test_image 0x100" by (simp add: elf_image_def test_image_def load32_def)
  have "elf_header 8 test_elf = 0x100" "virtual_base_address (elf_files test_elf 8) = 0"
    "virtual_end_address (elf_files test_elf 8) = 0"
    by (simp_all add: elf_header_def test_elf_def zero_elf_file_def)
  moreover have "\<forall>ph \<in> set (loads (ram test_elf) 0x100). plain_segment ph"
    by (simp add: m test_image_loads plain_segment_def)
  ultimately obtain ef where ef: "elf_process_loaded 8 test_elf = (0, test_elf\<lparr>elf_files := (elf_files test_elf)(8 := ef)\<rparr>)"
    "ef_memory ef = 0x100" "spans ef (loads test_image 0x100)"
    using elf_process_loaded_spec [of 8 test_elf "0x100"] img
    unfolding m test_image_loads by (simp only: not_True_eq_False if_False list.distinct) blast
  have "virtual_base_address ef = 0x400000" "physical_end_address ef = 0x1110"
    using ef(2,3) by (simp_all add: test_image_loads spans_def)
  then show ?thesis using ef(1) by blast
qed

text \<open>
  \<open>elf_load\<close> of a path the parser refuses.  \<open>fopen\<close> reports failure as 0, which \<open>elf_load\<close> does not
  recognise; the call goes on with descriptor 0, \<open>fstat\<close> refuses it, and the result is \<open>-EIO\<close> with
  nothing handed out.  The file object allocated first stays allocated.
\<close>
theorem elf_load_bad_path:
  fixes k :: "'a elf_state_scheme"
  assumes "kheap_rep k A" and "0 < free_blocks 25600 A" and "cstr (ram k) p s" and "\<not> valid_path s"
    and "\<forall>i \<le> length s. stable A (p + of_nat i)"
  shows "\<exists>b k'. elf_load vt r st p file_out k = Some (- EIO, file_out, k') \<and> A b = None
    \<and> kheap_rep k' (A(b \<mapsto> 1))"
proof -
  obtain b k1 where k1: "kzalloc 132 k = (blk_addr b, k1)" "b < 25600" "A b = None" "\<not> covered A b"
    "kheap_rep k1 (A(b \<mapsto> 1))"
    and frame: "\<And>a. 25600 \<le> unat (a - 0x7E00) \<Longrightarrow> 4096 \<le> unat (a - blk_addr b) \<Longrightarrow> ram k1 a = ram k a"
    by (rule page_alloc [OF assms(1), of 132]) (simp, simp, rule assms(2), blast)
  let ?k = "k1\<lparr>elf_files := (elf_files k1)(blk_addr b := zero_elf_file)\<rparr>"
  have "stable A a \<Longrightarrow> ram k1 a = ram k a" for a
    using frame k1(2,4) unfolding stable_def by blast
  then have "cstr (ram k1) p s" using stable_cong_cstr [OF assms(3)] assms(5) by blast
  then have "pathparser_parse p ?k = Some (0, ?k)" by (intro parse_invalid [OF _ assms(4)]) simp
  then have "fopen vt p r ?k = Some (0, ?k)" by (simp add: fopen_def fopen_body_def)
  moreover have "fstat vt 0 st ?k = Some (- 1, st, ?k)" "fclose vt 0 ?k = Some (- 1, ?k)"
    by (simp_all add: fstat_def fclose_def file_get_descriptor_def)
  ultimately have "elf_load vt r st p file_out k = Some (- EIO, file_out, ?k)"
    by (simp add: elf_load_def elf_load_body_def k1(1) Let_def)
  then show ?thesis using k1(3,5) by (intro exI [of _ b] exI [of _ ?k]) simp
qed

theorem elf_load_bad_path_witness:
  "\<exists>b k'. elf_load null_fs 0 \<lparr>stat_flags = 0, filesize = 0\<rparr> 0x10 7
      (test_elf\<lparr>ram := (\<lambda>_. 0)\<rparr>) = Some (- EIO, 7, k') \<and> kheap_rep k' [b \<mapsto> 1]"
proof -
  have "heap_rep kernel_table (\<lambda>_. 0) Map.empty" by (rule heap_rep_empty) (simp_all add: entry_at_def)
  then have rep: "kheap_rep (test_elf\<lparr>ram := (\<lambda>_. 0)\<rparr>) Map.empty"
    by (simp add: kheap_rep_def test_elf_def)
  have free: "0 < free_blocks 25600 Map.empty" by (simp add: free_blocks_empty)
  have c: "cstr (ram (test_elf\<lparr>ram := (\<lambda>_. 0)\<rparr>)) 0x10 []" by simp
  have bad: "\<not> valid_path []" by (simp add: valid_path_def)
  have st: "\<forall>i \<le> length ([] :: u8 list). stable Map.empty (0x10 + of_nat i)" by (simp add: stable_low)
  show ?thesis
    using elf_load_bad_path [OF rep free c bad st, of null_fs 0 "\<lparr>stat_flags = 0, filesize = 0\<rparr>" 7] by blast
qed

text \<open>
  The recorded virtual base is the header's \<open>p_paddr\<close>, although it is compared with \<open>p_vaddr\<close>: for an
  image with one loadable segment whose two addresses differ it is not where the segment is linked.
\<close>
lemma elf_virtual_base_is_paddr:
  assumes "elf_image (ram k) (elf_header f k)" and "loads (ram k) (elf_header f k) = [ph]"
    and "virtual_base_address (elf_files k f) = 0"
  shows "elf_virtual_base f (snd (elf_process_loaded f k)) = p_paddr ph"
  using assms process_pheaders_fold [of f k]
  by (simp add: elf_process_loaded_def validate_iff elf_header_def elf_virtual_base_def pt_load_def)

end
