(* ===== verification/Task.thy ===== *)
theory Task
  imports ElfLoader
begin

text \<open>
  \<^verbatim>\<open>src/src/task/task.c\<close>: the tasks, their circular schedule and their address spaces,
  with the structures of \<^verbatim>\<open>task.h\<close> and \<^verbatim>\<open>process.h\<close>.  Tasks and processes are heap objects in
  typed stores, indexed by address.  The processor state the code touches is \<open>cr3\<close> (from the paging
  state) and the data segment selector; the step into user mode, which does not return, is the register
  file it loads.
\<close>

subsection \<open>Structures\<close>

record registers =
  r_edi :: u32
  r_esi :: u32
  r_ebp :: u32
  r_ebx :: u32
  r_edx :: u32
  r_ecx :: u32
  r_eax :: u32
  r_ip :: u32
  r_cs :: u32
  r_flags :: u32
  r_esp :: u32
  r_ss :: u32

record interrupt_frame =
  f_edi :: u32
  f_esi :: u32
  f_ebp :: u32
  f_reserved :: u32
  f_ebx :: u32
  f_edx :: u32
  f_ecx :: u32
  f_eax :: u32
  f_ip :: u32
  f_cs :: u32
  f_flags :: u32
  f_esp :: u32
  f_ss :: u32

record task =
  page_directory :: u32
  task_regs :: registers
  task_process :: u32
  next_task :: u32
  prev_task :: u32

record process_allocation =
  alloc_ptr :: u32
  alloc_size :: u32

text \<open>
  \<open>head\<close> and \<open>tail\<close> are C's \<open>int\<close>: counters that only grow, used modulo 1024.  The model keeps them as integers;
  they agree with the code's until one process has been sent \<open>2 ^ 31\<close> keys.
\<close>

record keyboard_buffer =
  kb_buffer :: "u8 list"
  kb_tail :: int
  kb_head :: int

record process_arguments =
  argc :: int
  argv :: u32

record process =
  process_id :: u16
  process_filename :: "u8 list"
  process_task :: u32
  allocations :: "process_allocation list"
  filetype :: u8
  process_ptr :: u32  \<comment> \<open>the union of \<open>ptr\<close> and \<open>elf_file\<close>\<close>
  process_stack :: u32
  process_size :: u32
  keyboard :: keyboard_buffer
  arguments :: process_arguments
  process_shell :: u32

record task_state = elf_state +
  kernel_chunk :: u32
  data_selector :: u32  \<comment> \<open>\<open>ds\<close>, \<open>es\<close>, \<open>fs\<close> and \<open>gs\<close>\<close>
  current_task :: u32
  task_head :: u32
  task_tail :: u32
  tasks :: "u32 \<Rightarrow> task"
  procs :: "u32 \<Rightarrow> process"

definition PROCESS_FILETYPE_ELF :: u8 where [simp]: "PROCESS_FILETYPE_ELF = 0"
definition PROCESS_FILETYPE_BINARY :: u8 where [simp]: "PROCESS_FILETYPE_BINARY = 1"
definition USER_DATA_SEGMENT :: u32 where [simp]: "USER_DATA_SEGMENT = 0x23"
definition USER_CODE_SEGMENT :: u32 where [simp]: "USER_CODE_SEGMENT = 0x1B"
definition KERNEL_DATA_SELECTOR :: u32 where [simp]: "KERNEL_DATA_SELECTOR = 0x10"
definition PEACHOS_PROGRAM_VIRTUAL_STACK_ADDRESS_START :: u32 where
  [simp]: "PEACHOS_PROGRAM_VIRTUAL_STACK_ADDRESS_START = 0x3FF000"

definition zero_registers :: registers where
  "zero_registers = \<lparr>r_edi = 0, r_esi = 0, r_ebp = 0, r_ebx = 0, r_edx = 0, r_ecx = 0, r_eax = 0,
     r_ip = 0, r_cs = 0, r_flags = 0, r_esp = 0, r_ss = 0\<rparr>"

definition zero_task :: task where
  "zero_task = \<lparr>page_directory = 0, task_regs = zero_registers, task_process = 0, next_task = 0, prev_task = 0\<rparr>"

definition set_task :: "u32 \<Rightarrow> task \<Rightarrow> 'a task_state_scheme \<Rightarrow> 'a task_state_scheme" where
  "set_task t x k = k\<lparr>tasks := (tasks k)(t := x)\<rparr>"

definition ERROR :: "int \<Rightarrow> u32" where [simp]: "ERROR v = as_u32 v"
definition ERROR_I :: "u32 \<Rightarrow> int" where [simp]: "ERROR_I p = as_int p"

subsection \<open>Address spaces\<close>

definition kernel_registers :: "'a task_state_scheme \<Rightarrow> 'a task_state_scheme" where
  "kernel_registers k = k\<lparr>data_selector := KERNEL_DATA_SELECTOR\<rparr>"

definition user_registers :: "'a task_state_scheme \<Rightarrow> 'a task_state_scheme" where
  "user_registers k = k\<lparr>data_selector := USER_DATA_SEGMENT\<rparr>"

definition kernel_page :: "'a task_state_scheme \<Rightarrow> 'a task_state_scheme" where
  "kernel_page k = (let k = kernel_registers k in paging_switch (kernel_chunk k) k)"

definition translate :: "'a task_state_scheme \<Rightarrow> u32 \<Rightarrow> u32 option" where
  \<comment> \<open>what the processor does with an address under the directory in \<open>cr3\<close>; \<open>None\<close> is a page fault.
    The kernel runs at ring 0 without write protection, so only the present bits matter\<close>
  "translate k va =
     (let pde = load32 (ram k) (cr3 k + 4 * (va div 0x400000));
          pte = load32 (ram k) ((pde AND 0xfffff000) + 4 * ((va div 0x1000) mod 1024))
      in if bit pde 0 \<and> bit pte 0 then Some ((pte AND 0xfffff000) + va mod 0x1000) else None)"

definition virt_read :: "'a task_state_scheme \<Rightarrow> u32 \<Rightarrow> u8 option" where
  "virt_read k va = map_option (ram k) (translate k va)"

definition virt_write :: "u32 \<Rightarrow> u8 \<Rightarrow> 'a task_state_scheme \<Rightarrow> 'a task_state_scheme option" where
  "virt_write va c k = map_option (\<lambda>pa. k\<lparr>ram := (ram k)(pa := c)\<rparr>) (translate k va)"

definition virt_read32 :: "'a task_state_scheme \<Rightarrow> u32 \<Rightarrow> u32 option" where
  "virt_read32 k va =
     do { a \<leftarrow> virt_read k va; b \<leftarrow> virt_read k (va + 1); c \<leftarrow> virt_read k (va + 2); d \<leftarrow> virt_read k (va + 3);
          Some (ucast a + 256 * ucast b + 65536 * ucast c + 16777216 * ucast d) }"

subsection \<open>The list of tasks\<close>

definition task_get_next :: "'a task_state_scheme \<Rightarrow> u32" where
  "task_get_next k =
     (if next_task (tasks k (current_task k)) = 0 then task_head k
      else next_task (tasks k (current_task k)))"

definition task_list_remove :: "u32 \<Rightarrow> 'a task_state_scheme \<Rightarrow> 'a task_state_scheme" where
  "task_list_remove t k =
     (let k = (if prev_task (tasks k t) \<noteq> 0
               then set_task (prev_task (tasks k t))
                      ((tasks k (prev_task (tasks k t)))\<lparr>next_task := next_task (tasks k t)\<rparr>) k
               else k);
          k = (if t = task_head k then k\<lparr>task_head := next_task (tasks k t)\<rparr> else k);
          k = (if t = task_tail k then k\<lparr>task_tail := prev_task (tasks k t)\<rparr> else k)
      in if t = current_task k then k\<lparr>current_task := task_get_next k\<rparr> else k)"

definition task_free :: "u32 \<Rightarrow> 'a task_state_scheme \<Rightarrow> 'a task_state_scheme" where
  "task_free t k =
     (let k = paging_free_4gb (page_directory (tasks k t)) k; k = task_list_remove t k in kfree t k)"

definition task_init :: "u32 \<Rightarrow> u32 \<Rightarrow> 'a task_state_scheme \<Rightarrow> int \<times> 'a task_state_scheme" where
  "task_init t p k =
     (let k = set_task t zero_task k;
          (dir, k) = paging_new_4gb (PAGING_IS_PRESENT OR PAGING_ACCESS_FROM_ALL) k;
          k = set_task t ((tasks k t)\<lparr>page_directory := dir\<rparr>) k
      in if dir = 0 then (- EIO, k)
         else
           let ip = (if filetype (procs k p) = PROCESS_FILETYPE_ELF
                     then e_entry (header_at (ram k) (elf_header (process_ptr (procs k p)) k))
                     else PEACHOS_PROGRAM_VIRTUAL_ADDRESS);
               regs = (task_regs (tasks k t))\<lparr>r_ip := ip, r_ss := USER_DATA_SEGMENT, r_cs := USER_CODE_SEGMENT,
                        r_esp := PEACHOS_PROGRAM_VIRTUAL_STACK_ADDRESS_START\<rparr>
           in (0, set_task t ((tasks k t)\<lparr>task_regs := regs, task_process := p\<rparr>) k))"

definition task_new :: "u32 \<Rightarrow> 'a task_state_scheme \<Rightarrow> u32 \<times> 'a task_state_scheme" where
  "task_new p k =
     (let (t, k) = kzalloc 64 k
      in if t = 0 then (ERROR (- ENOMEM), task_free t k)
         else
           let k = set_task t zero_task k;
               (res, k) = task_init t p k
           in if res \<noteq> PEACHOS_ALL_OK
              then if ISERR res then (ERROR res, task_free t k) else (t, k)
              else if task_head k = 0
              then (t, k\<lparr>task_head := t, task_tail := t, current_task := t\<rparr>)
              else
                let k = set_task (task_tail k) ((tasks k (task_tail k))\<lparr>next_task := t\<rparr>) k;
                    k = set_task t ((tasks k t)\<lparr>prev_task := task_tail k\<rparr>) k
                in (t, k\<lparr>task_tail := t\<rparr>))"

subsection \<open>Switching\<close>

definition task_switch :: "u32 \<Rightarrow> 'a task_state_scheme \<Rightarrow> 'a task_state_scheme" where
  "task_switch t k = (let k = k\<lparr>current_task := t\<rparr> in paging_switch (page_directory (tasks k t)) k)"

definition user_regs :: "u32 \<Rightarrow> registers \<Rightarrow> registers" where
  \<comment> \<open>the registers after \<open>iretd\<close>; the flags pushed are the kernel's, with interrupts on\<close>
  "user_regs kernel_flags regs = regs\<lparr>r_flags := kernel_flags OR 0x200\<rparr>"

definition task_return :: "u32 \<Rightarrow> registers \<Rightarrow> 'a task_state_scheme \<Rightarrow> registers \<times> 'a task_state_scheme" where
  \<comment> \<open>\<open>task.asm\<close>: \<open>ds\<close>, \<open>es\<close>, \<open>fs\<close> and \<open>gs\<close> get the low half of the saved \<open>ss\<close>\<close>
  "task_return kernel_flags regs k = (user_regs kernel_flags regs, k\<lparr>data_selector := r_ss regs AND 0xFFFF\<rparr>)"

definition task_next :: "u32 \<Rightarrow> 'a task_state_scheme \<Rightarrow> (registers \<times> 'a task_state_scheme) option" where
  \<comment> \<open>\<open>None\<close>: \<open>panic\<close>\<close>
  "task_next kernel_flags k =
     (let t = task_get_next k
      in if t = 0 then None
         else let k = task_switch t k in Some (task_return kernel_flags (task_regs (tasks k t)) k))"

definition task_save_state :: "u32 \<Rightarrow> interrupt_frame \<Rightarrow> 'a task_state_scheme \<Rightarrow> 'a task_state_scheme" where
  "task_save_state t frame k =
     set_task t ((tasks k t)\<lparr>task_regs :=
       \<lparr>r_edi = f_edi frame, r_esi = f_esi frame, r_ebp = f_ebp frame, r_ebx = f_ebx frame,
        r_edx = f_edx frame, r_ecx = f_ecx frame, r_eax = f_eax frame, r_ip = f_ip frame, r_cs = f_cs frame,
        r_flags = f_flags frame, r_esp = f_esp frame, r_ss = f_ss frame\<rparr>\<rparr>) k"

definition task_current_save_state :: "interrupt_frame \<Rightarrow> 'a task_state_scheme \<Rightarrow> 'a task_state_scheme option" where
  "task_current_save_state frame k =
     (if current_task k = 0 then None else Some (task_save_state (current_task k) frame k))"

definition task_page :: "'a task_state_scheme \<Rightarrow> 'a task_state_scheme" where
  "task_page k = (let k = user_registers k in task_switch (current_task k) k)"

definition task_page_task :: "u32 \<Rightarrow> 'a task_state_scheme \<Rightarrow> 'a task_state_scheme" where
  "task_page_task t k = (let k = user_registers k in paging_switch (page_directory (tasks k t)) k)"

definition task_run_first_ever_task :: "u32 \<Rightarrow> 'a task_state_scheme \<Rightarrow> (registers \<times> 'a task_state_scheme) option" where
  "task_run_first_ever_task kernel_flags k =
     (if current_task k = 0 then None
      else let k = task_switch (task_head k) k
           in Some (task_return kernel_flags (task_regs (tasks k (task_head k))) k))"

subsection \<open>Reaching into a task's memory\<close>

fun virt_strncpy_loop :: "u32 \<Rightarrow> u32 \<Rightarrow> nat \<Rightarrow> int \<Rightarrow> 'a task_state_scheme \<Rightarrow> (int \<times> 'a task_state_scheme) option" where
  \<comment> \<open>the loop of \<open>strncpy\<close> where the addresses go through the page tables; the third argument is the
    number of rounds left, \<open>count - 1 - i\<close>\<close>
  "virt_strncpy_loop dest src 0 i k = Some (i, k)"
| "virt_strncpy_loop dest src (Suc n) i k =
     do { c \<leftarrow> virt_read k (src + as_u32 i);
          if c = 0 then Some (i, k)
          else do { k \<leftarrow> virt_write (dest + as_u32 i) c k; virt_strncpy_loop dest src n (i + 1) k } }"

definition virt_strncpy :: "u32 \<Rightarrow> u32 \<Rightarrow> int \<Rightarrow> 'a task_state_scheme \<Rightarrow> 'a task_state_scheme option" where
  "virt_strncpy dest src count k =
     do { (i, k) \<leftarrow> virt_strncpy_loop dest src (nat (count - 1)) 0 k; virt_write (dest + as_u32 i) 0 k }"

definition copy_string_from_task :: "u32 \<Rightarrow> u32 \<Rightarrow> u32 \<Rightarrow> int \<Rightarrow> 'a task_state_scheme
    \<Rightarrow> (int \<times> 'a task_state_scheme) option" where
  "copy_string_from_task t virtual phys max_len k =
     (if max_len \<ge> uint PAGING_PAGE_SIZE then Some (- EINVARG, k)
      else
        let (tmp, k) = kzalloc (as_u32 max_len) k
        in if tmp = 0 then Some (- ENOMEM, k)
           else
             let task_directory = directory_entry (ram k) (page_directory (tasks k t));
                 old_entry = paging_get task_directory tmp (ram k);
                 (_, m) = paging_map (page_directory (tasks k t)) tmp tmp
                   (uint (PAGING_IS_WRITEABLE OR PAGING_IS_PRESENT OR PAGING_ACCESS_FROM_ALL)) (ram k);
                 k = paging_switch (page_directory (tasks k t)) (k\<lparr>ram := m\<rparr>)
             in do { k \<leftarrow> virt_strncpy tmp virtual max_len k;
                     let k = kernel_page k;
                     let (res, m) = paging_set task_directory tmp old_entry (ram k);
                     let k = k\<lparr>ram := m\<rparr>;
                     if res < 0 then Some (- EIO, kfree tmp k)
                     else let (_, m) = strncpy (ram k) phys tmp max_len
                          in Some (res, kfree tmp (k\<lparr>ram := m\<rparr>)) })"

definition task_get_stack_item :: "u32 \<Rightarrow> int \<Rightarrow> 'a task_state_scheme \<Rightarrow> (u32 \<times> 'a task_state_scheme) option" where
  "task_get_stack_item t index k =
     (let sp_ptr = r_esp (task_regs (tasks k t));
          k = task_page_task t k
      in do { result \<leftarrow> virt_read32 k (sp_ptr + 4 * as_u32 index); Some (result, kernel_page k) })"

definition task_virtual_address_to_physical :: "u32 \<Rightarrow> u32 \<Rightarrow> 'a task_state_scheme \<Rightarrow> u32" where
  "task_virtual_address_to_physical t va k =
     paging_get_physical_address (directory_entry (ram k) (page_directory (tasks k t))) va (ram k)"


subsection \<open>The schedule\<close>

text \<open>
  \<open>seg f ts e\<close>: the \<open>next\<close> pointers lead through \<open>ts\<close> and on to \<open>e\<close>.  \<open>task_ring k ts\<close>: the list from
  \<open>task_head\<close> holds exactly the tasks \<open>ts\<close>.
\<close>

primrec seg :: "(u32 \<Rightarrow> task) \<Rightarrow> u32 list \<Rightarrow> u32 \<Rightarrow> bool" where
  "seg f [] e \<longleftrightarrow> True"
| "seg f (t # ts) e \<longleftrightarrow> next_task (f t) = hd (ts @ [e]) \<and> seg f ts e"

definition task_ring :: "'a task_state_scheme \<Rightarrow> u32 list \<Rightarrow> bool" where
  "task_ring k ts \<longleftrightarrow> distinct ts \<and> 0 \<notin> set ts \<and> seg (tasks k) ts 0
     \<and> task_head k = hd (ts @ [0]) \<and> task_tail k = last (0 # ts)"

lemma seg_append: "seg f (xs @ ys) e \<longleftrightarrow> seg f xs (hd (ys @ [e])) \<and> seg f ys e"
proof (induction xs)
  case Nil
  then show ?case by simp
next
  case (Cons x xs)
  then show ?case by (cases xs) auto
qed

lemma seg_cong: "(\<And>t. t \<in> set ts \<Longrightarrow> next_task (g t) = next_task (f t)) \<Longrightarrow> seg g ts e = seg f ts e"
  by (induction ts) auto

lemma seg_nth:
  "seg f ts 0 \<Longrightarrow> i < length ts \<Longrightarrow> next_task (f (ts ! i)) = (if Suc i < length ts then ts ! Suc i else 0)"
proof (induction ts arbitrary: i)
  case Nil
  then show ?case by simp
next
  case (Cons t ts)
  then show ?case by (cases i; cases ts) auto
qed

lemma ring_nth_nonzero: "task_ring k ts \<Longrightarrow> i < length ts \<Longrightarrow> ts ! i \<noteq> 0"
  unfolding task_ring_def using nth_mem by fastforce

lemma ring_get_next:
  assumes "task_ring k ts" and "i < length ts" and "current_task k = ts ! i"
  shows "task_get_next k = ts ! (Suc i mod length ts)"
proof -
  have next_t: "next_task (tasks k (ts ! i)) = (if Suc i < length ts then ts ! Suc i else 0)"
    using assms(1,2) by (intro seg_nth) (simp_all add: task_ring_def)
  show ?thesis
  proof (cases "Suc i < length ts")
    case True
    then show ?thesis
      using next_t ring_nth_nonzero [OF assms(1) True] by (simp add: task_get_next_def assms(3))
  next
    case False
    then have i: "Suc i = length ts" using assms(2) by simp
    have "task_head k = ts ! 0" using assms(1,2) by (cases ts) (simp_all add: task_ring_def)
    then show ?thesis using next_t False by (simp add: task_get_next_def assms(3) i)
  qed
qed

lemma paging_switch_fields [simp]:
  "tasks (paging_switch d k) = tasks k" "task_head (paging_switch d k) = task_head k"
  "task_tail (paging_switch d k) = task_tail k" "current_task (paging_switch d k) = current_task k"
  "kernel_chunk (paging_switch d k) = kernel_chunk k" "procs (paging_switch d k) = procs k"
  "ram (paging_switch d k) = ram k" "cr3 (paging_switch d k) = directory_entry (ram k) d"
  "kernel_heap (paging_switch d k) = kernel_heap k"
  by (simp_all add: paging_switch_def paging_load_directory_def Let_def)

lemma task_switch_fields [simp]:
  "tasks (task_switch t k) = tasks k" "task_head (task_switch t k) = task_head k"
  "task_tail (task_switch t k) = task_tail k" "current_task (task_switch t k) = t"
  "ram (task_switch t k) = ram k" "cr3 (task_switch t k) = directory_entry (ram k) (page_directory (tasks k t))"
  by (simp_all add: task_switch_def Let_def)

lemma task_ring_switch [simp]: "task_ring (task_switch t k) ts = task_ring k ts"
  by (simp add: task_ring_def)

definition entered_task :: "u32 \<Rightarrow> 'a task_state_scheme \<Rightarrow> 'a task_state_scheme" where
  \<comment> \<open>the state in which a task goes on\<close>
  "entered_task t k = (task_switch t k)\<lparr>data_selector := r_ss (task_regs (tasks k t)) AND 0xFFFF\<rparr>"

lemma entered_task_fields [simp]:
  "current_task (entered_task t k) = t" "tasks (entered_task t k) = tasks k" "ram (entered_task t k) = ram k"
  "cr3 (entered_task t k) = directory_entry (ram k) (page_directory (tasks k t))"
  "task_ring (entered_task t k) ts = task_ring k ts"
proof -
  have "tasks (entered_task t k) = tasks k" "task_head (entered_task t k) = task_head k" "task_tail (entered_task t k) = task_tail k"
    by (simp_all add: entered_task_def)
  then show "task_ring (entered_task t k) ts = task_ring k ts" by (simp add: task_ring_def)
qed (simp_all add: entered_task_def)

lemma task_return_entered:
  "task_return fl (task_regs (tasks (task_switch t k) t)) (task_switch t k) = (user_regs fl (task_regs (tasks k t)), entered_task t k)"
  by (simp add: task_return_def entered_task_def)

lemma ring_task_next:
  assumes "task_ring k ts" and "i < length ts" and "current_task k = ts ! i"
  shows "task_next fl k = Some (user_regs fl (task_regs (tasks k (ts ! (Suc i mod length ts)))),
      entered_task (ts ! (Suc i mod length ts)) k)"
proof -
  have "ts ! (Suc i mod length ts) \<noteq> 0"
    using assms(2) by (intro ring_nth_nonzero [OF assms(1)] mod_less_divisor) linarith
  then show ?thesis by (simp only: task_next_def ring_get_next [OF assms] Let_def task_return_entered if_False)
qed

text \<open>\<open>n\<close> timer interrupts in a row.\<close>

primrec task_rounds :: "u32 \<Rightarrow> nat \<Rightarrow> registers \<times> 'a task_state_scheme \<Rightarrow> (registers \<times> 'a task_state_scheme) option" where
  "task_rounds fl 0 s = Some s"
| "task_rounds fl (Suc n) s = do { s' \<leftarrow> task_rounds fl n s; task_next fl (snd s') }"

lemma task_rounds_ring:
  assumes "task_ring k ts" and "i < length ts" and "current_task k = ts ! i"
  shows "\<exists>k'. task_rounds fl n (r, k) = Some (if n = 0 then r
      else user_regs fl (task_regs (tasks k (ts ! ((i + n) mod length ts)))), k')
    \<and> task_ring k' ts \<and> tasks k' = tasks k \<and> ram k' = ram k \<and> current_task k' = ts ! ((i + n) mod length ts)
    \<and> (n \<noteq> 0 \<longrightarrow> cr3 k' = directory_entry (ram k) (page_directory (tasks k (ts ! ((i + n) mod length ts)))))"
proof (induction n)
  case 0
  show ?case using assms by (intro exI [of _ k]) simp
next
  case (Suc n)
  then obtain s k1 where k1: "task_rounds fl n (r, k) = Some (s, k1)" "task_ring k1 ts" "tasks k1 = tasks k"
    "ram k1 = ram k" "current_task k1 = ts ! ((i + n) mod length ts)"
    by blast
  have lt: "(i + n) mod length ts < length ts" using assms(2) by (intro mod_less_divisor) linarith
  have "Suc ((i + n) mod length ts) mod length ts = (i + Suc n) mod length ts" by (simp add: mod_Suc_eq)
  then have "task_next fl k1 = Some (user_regs fl (task_regs (tasks k (ts ! ((i + Suc n) mod length ts)))),
      entered_task (ts ! ((i + Suc n) mod length ts)) k1)"
    using ring_task_next [OF k1(2) lt k1(5)] k1(3) by simp
  then show ?case using k1(1-4)
    by (intro exI [of _ "entered_task (ts ! ((i + Suc n) mod length ts)) k1"]) (simp add: k1(3,4))
qed


subsection \<open>Removal\<close>

lemma set_task_fields [simp]:
  "tasks (set_task t x k) = (tasks k)(t := x)" "task_head (set_task t x k) = task_head k"
  "task_tail (set_task t x k) = task_tail k" "current_task (set_task t x k) = current_task k"
  "ram (set_task t x k) = ram k" "kernel_heap (set_task t x k) = kernel_heap k"
  "elf_files (set_task t x k) = elf_files k" "procs (set_task t x k) = procs k"
  by (simp_all add: set_task_def)

lemma seg_update: "t \<notin> set xs \<Longrightarrow> seg (f(t := x)) xs e = seg f xs e"
  by (intro seg_cong) auto

lemma seg_retarget:
  assumes "distinct (xs @ [u])" and "seg f (xs @ [u]) e" and "next_task x = e'"
  shows "seg (f(u := x)) (xs @ [u]) e'"
  using assms by (simp add: seg_append seg_update)

lemma list_remove_ring:
  assumes ring: "task_ring k (xs @ t # ys)" and prev: "prev_task (tasks k t) = last (0 # xs)"
  shows "task_ring (task_list_remove t k) (xs @ ys)"
    and "current_task (task_list_remove t k) = (if current_task k = t then hd (ys @ xs @ [0]) else current_task k)"
    and "s \<noteq> last (0 # xs) \<Longrightarrow> tasks (task_list_remove t k) s = tasks k s"
    and "s \<noteq> 0 \<Longrightarrow> prev_task (tasks (task_list_remove t k) s) = prev_task (tasks k s)"
proof -
  have D: "distinct (xs @ t # ys)" "0 \<notin> set (xs @ t # ys)" "seg (tasks k) (xs @ t # ys) 0"
    and ends: "task_head k = hd ((xs @ t # ys) @ [0])" "task_tail k = last (0 # xs @ t # ys)"
    using ring by (simp_all add: task_ring_def)
  have nxt: "next_task (tasks k t) = hd (ys @ [0])" and ys: "seg (tasks k) ys 0" and xs: "seg (tasks k) xs t"
    using D(3) by (simp_all add: seg_append)
  have ys0: "hd (ys @ [0]) = 0 \<longleftrightarrow> ys = []" using D(2) by (cases ys) auto
  let ?k = "task_list_remove t k"
  have "task_ring ?k (xs @ ys)
    \<and> current_task ?k = (if current_task k = t then hd (ys @ xs @ [0]) else current_task k)
    \<and> (s \<noteq> last (0 # xs) \<longrightarrow> tasks ?k s = tasks k s)
    \<and> (s \<noteq> 0 \<longrightarrow> prev_task (tasks ?k s) = prev_task (tasks k s))"
  proof (cases xs rule: rev_cases)
    case Nil
    then have p0: "prev_task (tasks k t) = 0" "task_head k = t" using prev ends by simp_all
    have tail: "task_tail k = t \<longleftrightarrow> ys = []" using ends(2) D(1) Nil by (cases ys rule: rev_cases) auto
    show ?thesis
      using p0 tail nxt ys D ys0 ends Nil
      by (cases ys) (auto simp: task_list_remove_def task_ring_def task_get_next_def Let_def)
  next
    case (snoc zs u)
    then have u: "prev_task (tasks k t) = u" "u \<noteq> 0" "u \<noteq> t" "u \<notin> set ys" "u \<notin> set zs" "task_head k \<noteq> t"
      using prev D(1,2) ends(1) by (cases zs; auto)+
    have tail: "task_tail k = t \<longleftrightarrow> ys = []" using ends(2) D(1) snoc by (cases ys rule: rev_cases) auto
    let ?x = "(tasks k u)\<lparr>next_task := hd (ys @ [0])\<rparr>"
    have s: "seg ((tasks k)(u := ?x)) (xs @ ys) 0"
      unfolding seg_append using ys u(4) seg_retarget [of zs u "tasks k" t ?x "hd (ys @ [0])"] xs D(1) snoc
      by (simp add: seg_update)
    have run: "tasks ?k = (tasks k)(u := ?x)" "task_head ?k = task_head k"
      "task_tail ?k = (if ys = [] then u else task_tail k)"
      "current_task ?k = (if current_task k = t then if ys = [] then task_head k else hd ys else current_task k)"
      using u tail nxt ys0 by (auto simp: task_list_remove_def task_get_next_def Let_def hd_append)
    have "task_ring ?k (xs @ ys)"
      using s D ends run snoc by (cases ys rule: rev_cases) (auto simp: task_ring_def hd_append)
    moreover have "task_head k = hd (xs @ [0])" using ends(1) snoc by (simp add: hd_append)
    ultimately show ?thesis
      using run snoc by (auto simp: hd_append)
  qed
  then show "task_ring ?k (xs @ ys)"
    "current_task ?k = (if current_task k = t then hd (ys @ xs @ [0]) else current_task k)"
    "s \<noteq> last (0 # xs) \<Longrightarrow> tasks ?k s = tasks k s"
    "s \<noteq> 0 \<Longrightarrow> prev_task (tasks ?k s) = prev_task (tasks k s)"
    by blast+
qed


subsection \<open>Properties of the schedule\<close>

text \<open>A state of three tasks at 1, 2 and 3, the first running.\<close>

definition test_tasks :: task_state where
  "test_tasks = elf_state.extend test_elf
     (task_state.fields 0 0x10 1 1 3
       (\<lambda>t. zero_task\<lparr>next_task := (if t = 1 then 2 else if t = 2 then 3 else 0),
                       prev_task := (if t = 3 then 2 else if t = 2 then 1 else 0)\<rparr>)
       (\<lambda>p. \<lparr>process_id = 0, process_filename = replicate 108 0, process_task = 0,
             allocations = replicate 1024 \<lparr>alloc_ptr = 0, alloc_size = 0\<rparr>, filetype = 1, process_ptr = 0,
             process_stack = 0, process_size = 0,
             keyboard = \<lparr>kb_buffer = replicate 1024 0, kb_tail = 0, kb_head = 0\<rparr>,
             arguments = \<lparr>argc = 0, argv = 0\<rparr>, process_shell = 0\<rparr>))"

lemma test_tasks_ring:
  "task_ring test_tasks [1, 2, 3]" "current_task test_tasks = 1" "next_task (tasks test_tasks 2) = 3"
  "prev_task (tasks test_tasks 1) = 0" "prev_task (tasks test_tasks 2) = 1" "prev_task (tasks test_tasks 3) = 2"
  by (simp_all add: task_ring_def test_tasks_def elf_state.defs task_state.defs zero_task_def)

text \<open>
  the schedule is a round robin.  From the \<open>i\<close>-th task of the ring, \<open>n\<close> timer interrupts resume the
  \<open>(i + n)\<close>-th modulo the number of tasks: \<open>task_next\<close> never panics, the registers loaded are that task's
  (with interrupts on), its directory is in \<open>cr3\<close>, and the ring is kept.  So every task runs again within
  as many interrupts as there are tasks.
\<close>
theorem task_next_round_robin:
  fixes k :: "'a task_state_scheme"
  assumes "task_ring k ts" and "i < length ts" and "current_task k = ts ! i" and "0 < n"
  shows "(\<exists>k'. task_rounds fl n (r, k)
        = Some (user_regs fl (task_regs (tasks k (ts ! ((i + n) mod length ts)))), k')
      \<and> task_ring k' ts \<and> current_task k' = ts ! ((i + n) mod length ts)
      \<and> cr3 k' = directory_entry (ram k) (page_directory (tasks k (ts ! ((i + n) mod length ts)))))
    \<and> (\<forall>t \<in> set ts. \<exists>m. 0 < m \<and> m \<le> length ts \<and> ts ! ((i + m) mod length ts) = t)"
proof (intro conjI ballI)
  show "\<exists>k'. task_rounds fl n (r, k)
        = Some (user_regs fl (task_regs (tasks k (ts ! ((i + n) mod length ts)))), k')
      \<and> task_ring k' ts \<and> current_task k' = ts ! ((i + n) mod length ts)
      \<and> cr3 k' = directory_entry (ram k) (page_directory (tasks k (ts ! ((i + n) mod length ts))))"
    using task_rounds_ring [OF assms(1-3), of fl n r] assms(4) by auto
  fix t assume "t \<in> set ts"
  then obtain j where j: "j < length ts" "ts ! j = t" by (auto simp: in_set_conv_nth)
  let ?m = "if i < j then j - i else j + length ts - i"
  have "0 < ?m \<and> ?m \<le> length ts \<and> (i + ?m) mod length ts = j" using assms(2) j(1) by auto
  then show "\<exists>m. 0 < m \<and> m \<le> length ts \<and> ts ! ((i + m) mod length ts) = t" using j(2) by metis
qed

theorem task_next_round_robin_witness:
  "(\<exists>k'. task_rounds 0 2 (zero_registers, test_tasks)
      = Some (user_regs 0 (task_regs (tasks test_tasks 3)), k') \<and> current_task k' = 3)
    \<and> (\<exists>m. 0 < m \<and> m \<le> length [1, 2, 3 :: u32] \<and> [1, 2, 3 :: u32] ! ((0 + m) mod length [1, 2, 3 :: u32]) = 2)"
proof -
  have "(0 :: nat) < length [1, 2, 3 :: u32]" "current_task test_tasks = [1, 2, 3] ! 0" "(0 :: nat) < 2"
    using test_tasks_ring by simp_all
  note run = task_next_round_robin [OF test_tasks_ring(1) this, of 0 zero_registers]
  have "\<exists>k'. task_rounds 0 2 (zero_registers, test_tasks)
      = Some (user_regs 0 (task_regs (tasks test_tasks ([1, 2, 3] ! ((0 + 2) mod length [1, 2, 3 :: u32])))), k')
      \<and> current_task k' = [1, 2, 3] ! ((0 + 2) mod length [1, 2, 3 :: u32])"
    using run by blast
  moreover have "[1, 2, 3] ! ((0 + 2) mod length [1, 2, 3 :: u32]) = (3 :: u32)" by simp
  moreover have "2 \<in> set [1, 2, 3 :: u32]" by simp
  ultimately show ?thesis using run by metis
qed

text \<open>
  interrupted and resumed.  After an interrupt has saved a frame and every other task has had its turn,
  the next \<open>task_next\<close> loads exactly the registers of that frame, under the same directory -- except the
  flags, which \<open>task_return\<close> takes from the kernel.
\<close>
theorem task_resumes:
  fixes k :: "'a task_state_scheme"
  assumes "task_ring k ts" and "i < length ts" and "current_task k = ts ! i"
  shows "\<exists>k1 k'. task_current_save_state fr k = Some k1
    \<and> task_rounds fl (length ts) (r, k1) = Some (\<lparr>r_edi = f_edi fr, r_esi = f_esi fr, r_ebp = f_ebp fr,
        r_ebx = f_ebx fr, r_edx = f_edx fr, r_ecx = f_ecx fr, r_eax = f_eax fr, r_ip = f_ip fr,
        r_cs = f_cs fr, r_flags = fl OR 0x200, r_esp = f_esp fr, r_ss = f_ss fr\<rparr>, k')
    \<and> current_task k' = current_task k
    \<and> cr3 k' = directory_entry (ram k) (page_directory (tasks k (current_task k)))"
proof -
  let ?k = "task_save_state (ts ! i) fr k"
  have nz: "ts ! i \<noteq> 0" by (rule ring_nth_nonzero [OF assms(1,2)])
  have save: "task_current_save_state fr k = Some ?k"
    using nz by (simp add: task_current_save_state_def assms(3))
  have "seg (tasks ?k) ts 0 = seg (tasks k) ts 0" by (intro seg_cong) (simp add: task_save_state_def)
  then have "task_ring ?k ts" using assms(1) by (simp add: task_ring_def task_save_state_def)
  moreover have "current_task ?k = ts ! i" by (simp add: task_save_state_def assms(3))
  moreover have "(i + length ts) mod length ts = i" "length ts \<noteq> 0" using assms(2) by auto
  ultimately show ?thesis
    using save task_rounds_ring [of ?k ts i fl "length ts" r] assms(2,3)
    by (auto simp: task_save_state_def user_regs_def)
qed

theorem task_resumes_witness:
  "\<exists>k1 s k'. task_current_save_state \<lparr>f_edi = 1, f_esi = 2, f_ebp = 3, f_reserved = 4, f_ebx = 5, f_edx = 6,
      f_ecx = 7, f_eax = 8, f_ip = 9, f_cs = 10, f_flags = 11, f_esp = 12, f_ss = 13\<rparr> test_tasks = Some k1
    \<and> task_rounds 0 3 (zero_registers, k1) = Some (s, k') \<and> r_ip s = 9 \<and> r_flags s = 0x200"
  using task_resumes [of test_tasks "[1, 2, 3]" 0 "\<lparr>f_edi = 1, f_esi = 2, f_ebp = 3, f_reserved = 4, f_ebx = 5,
      f_edx = 6, f_ecx = 7, f_eax = 8, f_ip = 9, f_cs = 10, f_flags = 11, f_esp = 12, f_ss = 13\<rparr>" 0 zero_registers]
    test_tasks_ring
  by (auto simp: numeral_3_eq_3 [symmetric])

text \<open>
  C21: removing a task.  When the removed task's own \<open>prev\<close> pointer is right, the ring loses exactly that
  task; if it was running, the task after it becomes current (the head after the last), else the current
  task stays.  But no other \<open>prev\<close> pointer changes: the task after the removed one keeps pointing back to
  it.
\<close>
theorem task_list_remove_spec:
  fixes k :: "'a task_state_scheme"
  assumes "task_ring k (xs @ t # ys)" and "prev_task (tasks k t) = last (0 # xs)"
  shows "task_ring (task_list_remove t k) (xs @ ys)
    \<and> current_task (task_list_remove t k) = (if current_task k = t then hd (ys @ xs @ [0]) else current_task k)
    \<and> (\<forall>s. s \<noteq> 0 \<longrightarrow> prev_task (tasks (task_list_remove t k) s) = prev_task (tasks k s))"
  using list_remove_ring [OF assms] by blast

theorem task_list_remove_spec_witness:
  "task_ring (task_list_remove 2 test_tasks) [1, 3] \<and> current_task (task_list_remove 2 test_tasks) = 1"
  using task_list_remove_spec [of test_tasks "[1]" 2 "[3]"] test_tasks_ring by simp

text \<open>
  the stale pointer does harm.  In a ring \<open>a, b, c\<close>, after \<open>b\<close> and then \<open>c\<close> are removed the schedule
  still leads from \<open>a\<close> to \<open>c\<close>, the tail is \<open>b\<close>, and the removal of \<open>c\<close> has written into \<open>b\<close>: two tasks the
  kernel has freed.
\<close>
theorem task_list_remove_dangling:
  fixes k :: "'a task_state_scheme"
  assumes ring: "task_ring k [a, b, c]"
    and prev: "prev_task (tasks k a) = 0" "prev_task (tasks k b) = a" "prev_task (tasks k c) = b"
    and cur: "current_task k = a"
  shows "task_get_next (task_list_remove c (task_list_remove b k)) = c
    \<and> task_tail (task_list_remove c (task_list_remove b k)) = b
    \<and> next_task (tasks (task_list_remove c (task_list_remove b k)) b) = 0"
proof -
  have d: "a \<noteq> 0" "b \<noteq> 0" "c \<noteq> 0" "a \<noteq> b" "a \<noteq> c" "b \<noteq> c" using ring by (auto simp: task_ring_def)
  let ?k = "task_list_remove b k"
  have k1: "task_ring ?k [a, c]" "current_task ?k = a" "prev_task (tasks ?k c) = b"
    using list_remove_ring [of k "[a]" b "[c]"] ring prev cur d by simp_all
  then have "next_task (tasks ?k a) = c" "next_task (tasks ?k c) = 0" "task_tail ?k = c" "task_head ?k = a"
    by (simp_all add: task_ring_def)
  then show ?thesis
    using d k1(2,3) by (simp add: task_list_remove_def [of c] task_get_next_def Let_def)
qed

theorem task_list_remove_dangling_witness:
  "task_get_next (task_list_remove 3 (task_list_remove 2 test_tasks)) = 3"
  using task_list_remove_dangling [of test_tasks 1 2 3] test_tasks_ring by simp


subsection \<open>Creating a task\<close>

lemma task_same_more:
  assumes "kmem.more (k' :: 'a task_state_scheme) = kmem.more k"
  shows "tasks k' = tasks k" "task_head k' = task_head k" "task_tail k' = task_tail k"
    "current_task k' = current_task k" "procs k' = procs k" "elf_files k' = elf_files k"
    "kernel_chunk k' = kernel_chunk k" "cr3 k' = cr3 k" "data_selector k' = data_selector k"
  using assms by (cases k; cases k'; simp)+

lemma kheap_rep_task [simp]:
  "kheap_rep (set_task t x k) A = kheap_rep k A" "kheap_rep (k\<lparr>task_head := h\<rparr>) A = kheap_rep k A"
  "kheap_rep (k\<lparr>task_tail := h\<rparr>) A = kheap_rep k A" "kheap_rep (k\<lparr>current_task := h\<rparr>) A = kheap_rep k A"
  "kheap_rep (k\<lparr>tasks := f\<rparr>) A = kheap_rep k A" "kheap_rep (k\<lparr>procs := g\<rparr>) A = kheap_rep k A"
  by (simp_all add: kheap_rep_def set_task_def)

text \<open>The address a process starts at, and where its image must lie for that to be read later.\<close>

definition entry_point :: "'a task_state_scheme \<Rightarrow> u32 \<Rightarrow> u32" where
  "entry_point k p =
     (if filetype (procs k p) = PROCESS_FILETYPE_ELF
      then e_entry (header_at (ram k) (elf_header (process_ptr (procs k p)) k))
      else PEACHOS_PROGRAM_VIRTUAL_ADDRESS)"

definition image_live :: "'a task_state_scheme \<Rightarrow> (nat \<rightharpoonup> nat) \<Rightarrow> u32 \<Rightarrow> bool" where
  "image_live k A p \<longleftrightarrow> (filetype (procs k p) = PROCESS_FILETYPE_ELF \<longrightarrow>
     (\<exists>b n. elf_header (process_ptr (procs k p)) k = blk_addr b \<and> A b = Some n))"

definition fresh_task :: "u32 \<Rightarrow> u32 \<Rightarrow> u32 \<Rightarrow> task" where
  "fresh_task dir ip p = zero_task
     \<lparr>page_directory := dir, task_process := p,
      task_regs := zero_registers\<lparr>r_ip := ip, r_ss := USER_DATA_SEGMENT, r_cs := USER_CODE_SEGMENT,
        r_esp := PEACHOS_PROGRAM_VIRTUAL_STACK_ADDRESS_START\<rparr>\<rparr>"

lemma entry_point_cong:
  assumes "kheap_rep k A" and "image_live k A p" and "procs k' = procs k" and "elf_files k' = elf_files k"
    and "\<And>b n x. A b = Some n \<Longrightarrow> x < 4096 \<Longrightarrow> ram k' (blk_addr b + of_nat x) = ram k (blk_addr b + of_nat x)"
  shows "entry_point k' p = entry_point k p"
proof (cases "filetype (procs k p) = PROCESS_FILETYPE_ELF")
  case True
  then obtain b n where b: "elf_header (process_ptr (procs k p)) k = blk_addr b" "A b = Some n"
    using assms(2) by (auto simp: image_live_def)
  have "load32 (ram k') (blk_addr b + 24) = load32 (ram k) (blk_addr b + 24)"
    using assms(5) [OF b(2), of 24] assms(5) [OF b(2), of 25] assms(5) [OF b(2), of 26]
      assms(5) [OF b(2), of 27]
    by (simp add: load32_def add.assoc)
  moreover have "elf_header f k' = elf_header f k" for f by (simp add: elf_header_def assms(4))
  ultimately show ?thesis by (simp add: entry_point_def assms(3) True b(1) header_at_def)
qed (simp add: entry_point_def assms(3))

lemma task_init_ok:
  fixes k :: "'a task_state_scheme"
  assumes rep: "kheap_rep k A" and free: "1026 \<le> free_blocks 25600 A" and img: "image_live k A p"
  shows "\<exists>c d T k'. task_init t p k = (0, set_task t (fresh_task (blk_addr c) (entry_point k p) p) k')
    \<and> kheap_rep k' (A ++ ones (c # d # T)) \<and> (\<forall>b \<in> set (c # d # T). A b = None)
    \<and> chunk_wf (ram k') c d T \<and> (\<forall>v. v mod 4096 = 0 \<longrightarrow> paging_get (blk_addr d) v (ram k') = v OR 5)
    \<and> tasks k' = (tasks k)(t := zero_task) \<and> task_head k' = task_head k \<and> task_tail k' = task_tail k
    \<and> current_task k' = current_task k
    \<and> (\<forall>b n x. A b = Some n \<and> x < n * 4096 \<longrightarrow> ram k' (blk_addr b + of_nat x) = ram k (blk_addr b + of_nat x))
    \<and> dir_present (ram k') d \<and> (\<forall>a. stable A a \<longrightarrow> ram k' a = ram k a) \<and> kmem.more k' = kmem.more (set_task t zero_task k)
    \<and> kernel_heap k' = kernel_heap k"
proof -
  have rep0: "kheap_rep (set_task t zero_task k) A" using rep by simp
  obtain c d T k' where new: "paging_new_4gb 5 (set_task t zero_task k) = (blk_addr c, k')" "chunk_wf (ram k') c d T"
    "kheap_rep k' (A ++ ones (c # d # T))" "\<forall>b\<in>set (c # d # T). A b = None"
    "\<forall>v. v mod 4096 = 0 \<longrightarrow> paging_get (blk_addr d) v (ram k') = v OR ucast (5 :: u8)"
    and live: "\<forall>b n x. A b = Some n \<and> x < n * 4096 \<longrightarrow>
      ram k' (blk_addr b + of_nat x) = ram (set_task t zero_task k) (blk_addr b + of_nat x)"
    and more: "kmem.more k' = kmem.more (set_task t zero_task k)"
    and pres: "bit (5 :: u8) 0 \<longrightarrow> dir_present (ram k') d" and frame: "\<forall>a. stable A a \<longrightarrow> ram k' a = ram (set_task t zero_task k) a"
    using paging_new_4gb_built [OF rep0 free, of 5] by blast
  note same = task_same_more [OF more]
  have "entry_point k' p = entry_point k p"
  proof (rule entry_point_cong [OF rep img])
    fix b n x assume "A b = Some n" "(x :: nat) < 4096"
    moreover from this have "x < n * 4096" using kheap_rep_pos [OF rep, of b n] by (cases n) auto
    ultimately show "ram k' (blk_addr b + of_nat x) = ram k (blk_addr b + of_nat x)" using live by simp
  qed (simp_all add: same)
  then have ip: "entry_point k p = entry_point k' p" by (rule sym)
  have nz: "blk_addr c \<noteq> 0" using chunk_wfD(2) [OF new(2)] by (rule blk_addr_nonzero)
  have "task_init t p k = (0, set_task t (fresh_task (blk_addr c) (entry_point k p) p) k')"
    using new(1) nz unfolding ip
    by (simp add: task_init_def Let_def same(1) entry_point_def elf_header_def fresh_task_def zero_task_def set_task_def)
  moreover have "dir_present (ram k') d" using pres by simp
  moreover have "kernel_heap k' = kernel_heap k" using kheap_repD(1) [OF new(3)] kheap_repD(1) [OF rep] by simp
  ultimately show ?thesis using new(2-5) live same more frame by (auto simp del: stable_def)
qed


lemma ones_Cons: "A(b \<mapsto> 1) ++ ones xs = A ++ ones (b # xs)"
  by (auto simp: ones_def map_add_def fun_eq_iff)

definition linked :: "(u32 \<Rightarrow> task) \<Rightarrow> u32 list \<Rightarrow> u32 \<Rightarrow> u32 \<Rightarrow> task" where
  \<comment> \<open>the stores that append \<open>t\<close> to \<open>ts\<close>\<close>
  "linked f ts t = (if ts = [] then f
     else (f(last ts := (f (last ts))\<lparr>next_task := t\<rparr>))(t := (f t)\<lparr>prev_task := last ts\<rparr>))"

lemma ring_append:
  fixes k k' :: "'a task_state_scheme"
  assumes ring: "task_ring k ts" and t: "t \<noteq> 0" "t \<notin> set ts" and x: "next_task (f t) = 0"
    and f: "\<forall>s \<in> set ts. next_task (f s) = next_task (tasks k s)"
    and k': "tasks k' = linked f ts t" "task_head k' = hd (ts @ [t])" "task_tail k' = t"
  shows "task_ring k' (ts @ [t])"
proof (cases ts rule: rev_cases)
  case Nil
  then show ?thesis using t x k' by (simp add: task_ring_def linked_def)
next
  case (snoc us u)
  have D: "distinct ts" "0 \<notin> set ts" "seg (tasks k) ts 0" using ring by (simp_all add: task_ring_def)
  have ne: "t \<noteq> u" using t(2) snoc by simp
  have "seg f ts 0" using D(3) seg_cong [of ts f "tasks k"] f by blast
  then have "seg (f(u := (f u)\<lparr>next_task := t\<rparr>)) ts t"
    using seg_retarget [of us u f 0 "(f u)\<lparr>next_task := t\<rparr>" t] D(1) snoc by simp
  then have "seg ((f(u := (f u)\<lparr>next_task := t\<rparr>))(t := (f t)\<lparr>prev_task := u\<rparr>)) (ts @ [t]) 0"
    using t(2) x by (simp add: seg_append seg_update)
  then show ?thesis using D t snoc k' by (auto simp: task_ring_def hd_append linked_def)
qed

definition task_built :: "'a task_state_scheme \<Rightarrow> (nat \<rightharpoonup> nat) \<Rightarrow> u32 list \<Rightarrow> u32 \<Rightarrow> nat \<Rightarrow> nat \<Rightarrow> nat \<Rightarrow> nat list
    \<Rightarrow> 'a task_state_scheme \<Rightarrow> bool" where
  \<comment> \<open>from \<open>k\<close> with allocations \<open>A\<close> and tasks \<open>ts\<close>, \<open>k'\<close> has a further task at block \<open>b\<close> for process \<open>p\<close>\<close>
  "task_built k A ts p b c d T k' \<longleftrightarrow>
     kheap_rep k' (A ++ ones (b # c # d # T)) \<and> (\<forall>x \<in> set (b # c # d # T). A x = None) \<and> b \<notin> set (c # d # T)
     \<and> task_ring k' (ts @ [blk_addr b]) \<and> current_task k' = (if ts = [] then blk_addr b else current_task k)
     \<and> tasks k' (blk_addr b) = (fresh_task (blk_addr c) (entry_point k p) p)\<lparr>prev_task := last (0 # ts)\<rparr>
     \<and> chunk_wf (ram k') c d T \<and> (\<forall>v. v mod 4096 = 0 \<longrightarrow> paging_get (blk_addr d) v (ram k') = v OR 5)
     \<and> (\<forall>s \<in> set ts. s \<noteq> last ts \<longrightarrow> tasks k' s = tasks k s)"

lemma task_new_built:
  fixes k :: "'a task_state_scheme"
  assumes rep: "kheap_rep k A" and free: "1027 \<le> free_blocks 25600 A" and img: "image_live k A p"
    and ring: "task_ring k ts" and live: "\<forall>s \<in> set ts. \<exists>b n. s = blk_addr b \<and> A b = Some n"
  shows "\<exists>b c d T k'. task_new p k = (blk_addr b, k') \<and> task_built k A ts p b c d T k'
    \<and> dir_present (ram k') d \<and> (\<forall>a. stable A a \<longrightarrow> ram k' a = ram k a) \<and> procs k' = procs k
    \<and> elf_state.truncate k' = elf_state.truncate (k\<lparr>ram := ram k'\<rparr>) \<and> task_state.more k' = task_state.more k"
proof -
  have pos: "0 < free_blocks 25600 A" using free by simp
  obtain b k1 where k1: "kzalloc 64 k = (blk_addr b, k1)" "b < 25600" "A b = None"
    "kheap_rep k1 (A(b \<mapsto> 1))" "free_blocks 25600 A = Suc (free_blocks 25600 (A(b \<mapsto> 1)))"
    "kmem.more k1 = kmem.more k" and nc: "\<not> covered A b"
    and frame: "\<And>a. 25600 \<le> unat (a - 0x7E00) \<Longrightarrow> 4096 \<le> unat (a - blk_addr b) \<Longrightarrow> ram k1 a = ram k a"
    by (rule page_alloc [OF rep, of 64]) (simp, simp, rule pos, blast)
  let ?t = "blk_addr b" and ?A = "A(b \<mapsto> 1)"
  note same = task_same_more [OF k1(6)]
  have t: "?t \<noteq> 0" using k1(2) by (rule blk_addr_nonzero)
  have new: "?t \<notin> set ts"
  proof
    assume "?t \<in> set ts"
    then obtain b' n where b': "?t = blk_addr b'" "A b' = Some n" using live by blast
    have "b' < 25600" by (rule live_blk [OF rep b'(2)])
    then have "b = b'" using b'(1) blk_addr_inj [OF k1(2)] by blast
    then show False using b'(2) k1(3) by simp
  qed
  have ep: "entry_point k1 p = entry_point k p"
  proof (rule entry_point_cong [OF rep img])
    fix c n x assume c: "A c = Some n" "(x :: nat) < 4096"
    have "c < 25600" by (rule live_blk [OF rep c(1)])
    moreover have "c \<noteq> b" using c(1) k1(3) by auto
    ultimately show "ram k1 (blk_addr c + of_nat x) = ram k (blk_addr c + of_nat x)"
      using c(2) k1(2) by (intro frame live_not_table other_block_byte) linarith+
  qed (simp_all add: same)
  let ?k1 = "set_task ?t zero_task k1"
  have rep1: "kheap_rep ?k1 ?A" and free1: "1026 \<le> free_blocks 25600 ?A" using k1(4,5) free by simp_all
  have img1: "image_live ?k1 ?A p"
    using img k1(3) by (auto simp: image_live_def elf_header_def same)
  have ep1: "entry_point ?k1 p = entry_point k p" unfolding ep [symmetric]
    by (simp add: entry_point_def elf_header_def)
  obtain c d T k2 where k2: "task_init ?t p ?k1 = (0, set_task ?t (fresh_task (blk_addr c) (entry_point k p) p) k2)"
    "kheap_rep k2 (?A ++ ones (c # d # T))" "\<forall>x \<in> set (c # d # T). ?A x = None" "chunk_wf (ram k2) c d T"
    "\<forall>v. v mod 4096 = 0 \<longrightarrow> paging_get (blk_addr d) v (ram k2) = v OR 5"
    "tasks k2 = (tasks k)(?t := zero_task)" "task_head k2 = task_head k" "task_tail k2 = task_tail k"
    "current_task k2 = current_task k"
    and pres: "dir_present (ram k2) d" and frame2: "\<forall>a. stable ?A a \<longrightarrow> ram k2 a = ram k1 a"
    and more2: "kmem.more k2 = kmem.more (set_task ?t zero_task ?k1)" and heap2: "kernel_heap k2 = kernel_heap k1"
    using task_init_ok [OF rep1 free1 img1, of ?t] unfolding ep1 by (auto simp: same)
  let ?x = "fresh_task (blk_addr c) (entry_point k p) p"
  let ?k2 = "set_task ?t ?x k2"
  let ?f = "(tasks k)(?t := ?x)"
  have f2: "tasks ?k2 = ?f" using k2(6) by simp
  let ?k' = "k2\<lparr>tasks := linked ?f ts ?t, task_head := hd (ts @ [?t]), task_tail := ?t,
      current_task := (if ts = [] then ?t else current_task k)\<rparr>"
  have head: "task_head k = hd (ts @ [0])" "task_tail k = last (0 # ts)" "0 \<notin> set ts"
    using ring by (simp_all add: task_ring_def)
  have x: "next_task ?x = 0" "prev_task ?x = 0" by (simp_all add: fresh_task_def zero_task_def)
  have step: "task_new p k = (if task_head ?k2 = 0
      then (?t, ?k2\<lparr>task_head := ?t, task_tail := ?t, current_task := ?t\<rparr>)
      else let k = set_task (task_tail ?k2) ((?f (task_tail ?k2))\<lparr>next_task := ?t\<rparr>) ?k2;
               k = set_task ?t ((tasks k ?t)\<lparr>prev_task := task_tail ?k2\<rparr>) k
           in (?t, k\<lparr>task_tail := ?t\<rparr>))"
    using k1(1) t k2(1) f2 by (simp add: task_new_def Let_def)
  have run: "task_new p k = (?t, ?k')"
  proof (cases ts)
    case Nil
    then show ?thesis using step k2(7) head(1) f2 by (simp add: linked_def set_task_def)
  next
    case (Cons u us)
    then have "task_head ?k2 \<noteq> 0" "task_tail ?k2 = last ts" "?t \<noteq> last ts"
      using k2(7,8) head new by auto
    then show ?thesis using step k2(6-9) head(1) Cons
      by (simp add: linked_def set_task_def Let_def)
  qed
  have "task_ring ?k' (ts @ [?t])"
    by (rule ring_append [OF ring t new, of ?f]) (use x new in auto)
  moreover have "tasks ?k' ?t = ?x\<lparr>prev_task := last (0 # ts)\<rparr>"
    using x(2) by (cases "ts = []") (simp_all add: linked_def)
  moreover have "tasks ?k' s = tasks k s" if "s \<in> set ts" "s \<noteq> last ts" for s
    using that new by (cases "ts = []") (auto simp: linked_def)
  moreover have "kheap_rep ?k' (A ++ ones (b # c # d # T))"
    using k2(2) unfolding ones_Cons by simp
  moreover have "\<forall>y \<in> set (b # c # d # T). A y = None"
    using k2(3) k1(3) by (metis fun_upd_apply set_ConsD option.distinct(1))
  moreover have "b \<notin> set (c # d # T)"
  proof
    assume "b \<in> set (c # d # T)"
    then have "?A b = None" using k2(3) by blast
    then show False by simp
  qed
  moreover have "current_task ?k' = (if ts = [] then ?t else current_task k)" "ram ?k' = ram k2" by simp_all
  ultimately have "task_built k A ts p b c d T ?k'"
    using k2(4,5) unfolding task_built_def by (intro conjI) (assumption | simp only: simp_thms | blast)+
  moreover have "ram k2 a = ram k a" if st: "stable A a" for a
  proof -
    have "25600 \<le> unat (a - 0x7E00)" "4096 \<le> unat (a - ?t)" using st nc k1(2) by (simp_all add: stable_def)
    then show ?thesis using frame2 stable_upd [OF k1(3) st] frame by simp
  qed
  moreover have heap1: "kernel_heap k1 = kernel_heap k" using kheap_repD(1) [OF k1(4)] kheap_repD(1) [OF rep] by simp
  have "procs k2 = procs k" "task_state.more k2 = task_state.more k"
    "elf_state.truncate k2 = elf_state.truncate (k\<lparr>ram := ram k2\<rparr>)"
    using more2 k1(6) heap1 heap2 by (cases k; cases k1; cases k2; simp add: set_task_def elf_state.truncate_def)+
  ultimately show ?thesis using run pres
    by (intro exI [of _ b] exI [of _ c] exI [of _ d] exI [of _ T] exI [of _ ?k'])
      (simp add: elf_state.truncate_def del: stable_def)
qed


text \<open>
  C20: \<open>task_new\<close>.  With 1027 free blocks, for a process whose ELF image (if it has one) is live, the call
  returns a fresh task: appended to the ring and, when it is the first, current; its registers are those
  of a program about to start (entry point, user segments, the stack at \<open>0x3FF000\<close>); its directory maps
  every page to itself, present and accessible to the user but read-only; the heap has gained exactly the
  task, the chunk, the directory and its 1024 tables; and no other task but the former last one changes.
\<close>
theorem task_new_spec:
  fixes k :: "'a task_state_scheme"
  assumes "kheap_rep k A" and "1027 \<le> free_blocks 25600 A" and "image_live k A p"
    and "task_ring k ts" and "\<forall>s \<in> set ts. \<exists>b n. s = blk_addr b \<and> A b = Some n"
  shows "\<exists>b c d T k'. task_new p k = (blk_addr b, k')
    \<and> kheap_rep k' (A ++ ones (b # c # d # T)) \<and> (\<forall>x \<in> set (b # c # d # T). A x = None)
    \<and> task_ring k' (ts @ [blk_addr b]) \<and> current_task k' = (if ts = [] then blk_addr b else current_task k)
    \<and> page_directory (tasks k' (blk_addr b)) = blk_addr c \<and> task_process (tasks k' (blk_addr b)) = p
    \<and> prev_task (tasks k' (blk_addr b)) = last (0 # ts)
    \<and> task_regs (tasks k' (blk_addr b)) = zero_registers\<lparr>r_ip := entry_point k p, r_cs := 0x1B,
        r_ss := 0x23, r_esp := 0x3FF000\<rparr>
    \<and> chunk_wf (ram k') c d T \<and> (\<forall>v. v mod 4096 = 0 \<longrightarrow> paging_get (blk_addr d) v (ram k') = v OR 5)
    \<and> (\<forall>s \<in> set ts. s \<noteq> last ts \<longrightarrow> tasks k' s = tasks k s)"
proof -
  obtain b c d T k' where new: "task_new p k = (blk_addr b, k')" "task_built k A ts p b c d T k'"
    using task_new_built [OF assms] by blast
  then show ?thesis unfolding task_built_def
    by (intro exI [where x = b] exI [where x = c] exI [where x = d] exI [where x = T] exI [where x = k'])
      (auto simp: fresh_task_def)
qed

theorem task_new_spec_witness:
  "\<exists>b k'. task_new 0 (test_tasks\<lparr>ram := (\<lambda>_. 0), task_head := 0, task_tail := 0\<rparr>) = (blk_addr b, k')
     \<and> task_ring k' [blk_addr b] \<and> r_ip (task_regs (tasks k' (blk_addr b))) = 0x400000"
proof -
  let ?k = "test_tasks\<lparr>ram := (\<lambda>_. 0), task_head := 0, task_tail := 0\<rparr>"
  have "heap_rep kernel_table (\<lambda>_. 0) Map.empty" by (rule heap_rep_empty) (simp_all add: entry_at_def)
  then have rep: "kheap_rep ?k Map.empty"
    by (simp add: kheap_rep_def test_tasks_def elf_state.defs task_state.defs test_elf_def)
  have ft: "filetype (procs ?k 0) = 1" by (simp add: test_tasks_def elf_state.defs task_state.defs)
  have ep: "entry_point ?k 0 = 0x400000" and img: "image_live ?k Map.empty 0"
    using ft by (simp_all add: entry_point_def image_live_def)
  have ring: "task_ring ?k []" by (simp add: task_ring_def)
  have free: "1027 \<le> free_blocks 25600 Map.empty" by (simp add: free_blocks_empty)
  obtain b k' where "task_new 0 ?k = (blk_addr b, k')" "task_ring k' ([] @ [blk_addr b])"
    "task_regs (tasks k' (blk_addr b)) = zero_registers\<lparr>r_ip := entry_point ?k 0, r_cs := 0x1B,
        r_ss := 0x23, r_esp := 0x3FF000\<rparr>"
    using task_new_spec [OF rep free img ring] by auto
  then show ?thesis by (intro exI [where x = b] exI [where x = k']) (simp add: ep)
qed

end
