(* ===== verification/Process.thy ===== *)
theory Process
  imports Task
begin

text \<open>
  \<^verbatim>\<open>src/src/task/process.c\<close>: the process table, the memory a process owns, loading a
  program and mapping it, and the termination of a process.  \<open>current_process\<close> and \<open>processes\<close> are the
  file's two variables; a process itself is an object of the store \<open>procs\<close> of the task theory.
\<close>

subsection \<open>State\<close>

record process_state = task_state +
  current_process :: u32
  processes :: "u32 list"

definition PEACHOS_MAX_PROCESSES :: int where [simp]: "PEACHOS_MAX_PROCESSES = 12"
definition PEACHOS_MAX_PROGRAM_ALLOCATIONS :: nat where [simp]: "PEACHOS_MAX_PROGRAM_ALLOCATIONS = 1024"
definition PEACHOS_KEYBOARD_BUFFER_SIZE :: nat where [simp]: "PEACHOS_KEYBOARD_BUFFER_SIZE = 1024"
definition PEACHOS_USER_PROGRAM_STACK_SIZE :: u32 where [simp]: "PEACHOS_USER_PROGRAM_STACK_SIZE = 1024 * 16"
definition PEACHOS_PROGRAM_VIRTUAL_STACK_ADDRESS_END :: u32 where
  [simp]: "PEACHOS_PROGRAM_VIRTUAL_STACK_ADDRESS_END = PEACHOS_PROGRAM_VIRTUAL_STACK_ADDRESS_START - 1024 * 16"

definition zero_process :: process where
  "zero_process = \<lparr>process_id = 0, process_filename = replicate (nat PEACHOS_MAX_PATH) 0, process_task = 0,
     allocations = replicate PEACHOS_MAX_PROGRAM_ALLOCATIONS \<lparr>alloc_ptr = 0, alloc_size = 0\<rparr>, filetype = 0,
     process_ptr = 0, process_stack = 0, process_size = 0,
     keyboard = \<lparr>kb_buffer = replicate PEACHOS_KEYBOARD_BUFFER_SIZE 0, kb_tail = 0, kb_head = 0\<rparr>,
     arguments = \<lparr>argc = 0, argv = 0\<rparr>, process_shell = 0\<rparr>"

definition set_proc :: "u32 \<Rightarrow> process \<Rightarrow> 'a task_state_scheme \<Rightarrow> 'a task_state_scheme" where
  "set_proc p x k = k\<lparr>procs := (procs k)(p := x)\<rparr>"

definition process_directory :: "u32 \<Rightarrow> 'a task_state_scheme \<Rightarrow> u32" where
  \<comment> \<open>\<open>process->task->page_directory\<close>\<close>
  "process_directory p k = page_directory (tasks k (process_task (procs k p)))"

definition process_init :: "u32 \<Rightarrow> 'a task_state_scheme \<Rightarrow> 'a task_state_scheme" where
  "process_init p k = set_proc p zero_process k"

definition process_get :: "int \<Rightarrow> 'a process_state_scheme \<Rightarrow> u32" where
  "process_get i k = (if i < 0 \<or> i \<ge> PEACHOS_MAX_PROCESSES then 0 else processes k ! nat i)"

definition process_switch :: "u32 \<Rightarrow> 'a process_state_scheme \<Rightarrow> 'a process_state_scheme" where
  "process_switch p k = k\<lparr>current_process := p\<rparr>"

subsection \<open>Memory of a process\<close>

definition process_find_free_allocation_index :: "u32 \<Rightarrow> 'a task_state_scheme \<Rightarrow> int" where
  "process_find_free_allocation_index p k =
     (case find_slot (map alloc_ptr (allocations (procs k p))) of None \<Rightarrow> - ENOMEM | Some i \<Rightarrow> int i)"

definition process_malloc :: "u32 \<Rightarrow> u32 \<Rightarrow> 'a task_state_scheme \<Rightarrow> u32 \<times> 'a task_state_scheme" where
  "process_malloc p sz k =
     (let (ptr, k) = kzalloc sz k
      in if ptr = 0 then (0, k)
         else
           let index = process_find_free_allocation_index p k
           in if index < 0 then (0, kfree ptr k)
              else
                let (res, m) = paging_map_to (process_directory p k) ptr ptr (paging_align_address (ptr + sz))
                      (uint (PAGING_IS_WRITEABLE OR PAGING_ACCESS_FROM_ALL OR PAGING_IS_PRESENT)) (ram k);
                    k = k\<lparr>ram := m\<rparr>
                in if res < 0 then (0, kfree ptr k)
                   else (ptr, set_proc p ((procs k p)\<lparr>allocations :=
                          (allocations (procs k p))[nat index := \<lparr>alloc_ptr = ptr, alloc_size = sz\<rparr>]\<rparr>) k))"

definition process_is_process_pointer :: "u32 \<Rightarrow> u32 \<Rightarrow> 'a task_state_scheme \<Rightarrow> bool" where
  "process_is_process_pointer p ptr k = list_ex (\<lambda>a. alloc_ptr a = ptr) (allocations (procs k p))"

definition process_get_allocation_by_addr :: "u32 \<Rightarrow> u32 \<Rightarrow> 'a task_state_scheme \<Rightarrow> process_allocation option" where
  "process_get_allocation_by_addr p addr k = find (\<lambda>a. alloc_ptr a = addr) (allocations (procs k p))"

definition process_allocation_unjoin :: "u32 \<Rightarrow> u32 \<Rightarrow> 'a task_state_scheme \<Rightarrow> 'a task_state_scheme" where
  "process_allocation_unjoin p ptr k =
     set_proc p ((procs k p)\<lparr>allocations := map (\<lambda>a. if alloc_ptr a = ptr then \<lparr>alloc_ptr = 0, alloc_size = 0\<rparr> else a)
       (allocations (procs k p))\<rparr>) k"

definition process_free :: "u32 \<Rightarrow> u32 \<Rightarrow> 'a task_state_scheme \<Rightarrow> 'a task_state_scheme" where
  "process_free p ptr k =
     (case process_get_allocation_by_addr p ptr k of
        None \<Rightarrow> k
      | Some a \<Rightarrow>
          let (res, m) = paging_map_to (process_directory p k) (alloc_ptr a) (alloc_ptr a)
                (paging_align_address (alloc_ptr a + alloc_size a)) 0 (ram k);
              k = k\<lparr>ram := m\<rparr>
          in if res < 0 then k
             else let k = process_allocation_unjoin p ptr k in kfree ptr k)"

definition process_terminate_allocations :: "u32 \<Rightarrow> 'a task_state_scheme \<Rightarrow> int \<times> 'a task_state_scheme" where
  "process_terminate_allocations p k =
     (0, fold (\<lambda>i k. process_free p (alloc_ptr (allocations (procs k p) ! i)) k)
           [0..<PEACHOS_MAX_PROGRAM_ALLOCATIONS] k)"

subsection \<open>Termination\<close>

definition process_free_binary_data :: "u32 \<Rightarrow> 'a task_state_scheme \<Rightarrow> int \<times> 'a task_state_scheme" where
  "process_free_binary_data p k = (0, kfree (process_ptr (procs k p)) k)"

definition process_free_elf_data :: "u32 \<Rightarrow> 'a task_state_scheme \<Rightarrow> int \<times> 'a task_state_scheme" where
  "process_free_elf_data p k = (0, elf_close (process_ptr (procs k p)) k)"

definition process_free_program_data :: "u32 \<Rightarrow> 'a task_state_scheme \<Rightarrow> int \<times> 'a task_state_scheme" where
  "process_free_program_data p k =
     (if filetype (procs k p) = PROCESS_FILETYPE_BINARY then process_free_binary_data p k
      else if filetype (procs k p) = PROCESS_FILETYPE_ELF then process_free_elf_data p k
      else (- EINVARG, k))"

definition process_switch_to_any :: "'a process_state_scheme \<Rightarrow> 'a process_state_scheme option" where
  \<comment> \<open>\<open>None\<close>: \<open>panic\<close>\<close>
  "process_switch_to_any k =
     (case find (\<lambda>p. p \<noteq> 0) (processes k) of None \<Rightarrow> None | Some p \<Rightarrow> Some (process_switch p k))"

definition process_unlink :: "u32 \<Rightarrow> 'a process_state_scheme \<Rightarrow> 'a process_state_scheme option" where
  "process_unlink p k =
     (let k = k\<lparr>processes := (processes k)[unat (process_id (procs k p)) := 0]\<rparr>
      in if current_process k = p then process_switch_to_any k else Some k)"

definition process_terminate :: "u32 \<Rightarrow> 'a process_state_scheme \<Rightarrow> (int \<times> 'a process_state_scheme) option" where
  "process_terminate p k =
     (let (res, k) = process_terminate_allocations p k
      in if res < 0 then Some (res, k)
         else let (res, k) = process_free_program_data p k
              in if res < 0 then Some (res, k)
                 else do { let k = kfree (process_stack (procs k p)) k;
                           let k = task_free (process_task (procs k p)) k;
                           k \<leftarrow> process_unlink p k;
                           Some (res, k) })"

subsection \<open>Arguments\<close>

text \<open>
  A \<open>struct command_argument\<close> lies in memory: 512 bytes of text and the pointer \<open>next\<close> behind them.
\<close>

definition argument_next :: "mem \<Rightarrow> u32 \<Rightarrow> u32" where
  "argument_next m a = load32 m (a + 512)"

definition process_get_arguments :: "u32 \<Rightarrow> 'a task_state_scheme \<Rightarrow> int \<times> u32" where
  "process_get_arguments p k = (argc (arguments (procs k p)), argv (arguments (procs k p)))"

partial_function (option) count_arguments_loop :: "mem \<Rightarrow> u32 \<Rightarrow> int \<Rightarrow> int option" where
  "count_arguments_loop m current i =
     (if current \<noteq> 0 then count_arguments_loop m (argument_next m current) (i + 1) else Some i)"

definition process_count_command_arguments :: "mem \<Rightarrow> u32 \<Rightarrow> int option" where
  "process_count_command_arguments m root = count_arguments_loop m root 0"

partial_function (option) inject_loop :: "u32 \<Rightarrow> u32 \<Rightarrow> u32 \<Rightarrow> int \<Rightarrow> 'a task_state_scheme
    \<Rightarrow> (int \<times> 'a task_state_scheme) option" where
  "inject_loop p av current i k =
     (if current \<noteq> 0 then
        let (argument_str, k) = process_malloc p 512 k
        in if argument_str = 0 then Some (- ENOMEM, k)
           else
             let (_, m) = strncpy (ram k) argument_str current 512;
                 m = store32 m (av + 4 * as_u32 i) argument_str
             in inject_loop p av (argument_next m current) (i + 1) (k\<lparr>ram := m\<rparr>)
      else Some (0, k))"

definition process_inject_arguments :: "u32 \<Rightarrow> u32 \<Rightarrow> 'a task_state_scheme \<Rightarrow> (int \<times> 'a task_state_scheme) option" where
  "process_inject_arguments p root k =
     do { ac \<leftarrow> process_count_command_arguments (ram k) root;
          if ac = 0 then Some (- EIO, k)
          else let (av, k) = process_malloc p (4 * as_u32 ac) k
               in if av = 0 then Some (- ENOMEM, k)
                  else do { (res, k) \<leftarrow> inject_loop p av root 0 k;
                            Some (res, if res = 0
                                       then set_proc p ((procs k p)\<lparr>arguments := \<lparr>argc = ac, argv = av\<rparr>\<rparr>) k
                                       else k) } }"


subsection \<open>Loading\<close>

text \<open>
  As for the ELF loader, \<open>vt\<close> gives the functions of a filesystem, \<open>r\<close> is the address of the literal
  \<open>"r"\<close> and \<open>st\<close> the stack variable \<open>stat\<close> before \<open>fstat\<close> fills it.
\<close>

definition load_binary_body :: "(u32 \<Rightarrow> 'a task_state_scheme filesystem) \<Rightarrow> file_stat \<Rightarrow> int \<Rightarrow> u32
    \<Rightarrow> 'a task_state_scheme \<Rightarrow> (int \<times> u32 \<times> 'a task_state_scheme) option" where
  \<comment> \<open>from the check of \<open>fd\<close> to the label \<open>out\<close>: \<open>res\<close> and \<open>program_data_ptr\<close>\<close>
  "load_binary_body vt st fd p k =
     (if fd = 0 then Some (- EIO, 0, k)
      else do { (res, st, k) \<leftarrow> fstat vt fd st k;
                if res \<noteq> PEACHOS_ALL_OK then Some (res, 0, k)
                else let (ptr, k) = kzalloc (filesize st) k
                     in if ptr = 0 then Some (- ENOMEM, 0, k)
                        else do { (n, k) \<leftarrow> fread vt ptr (filesize st) 1 fd k;
                                  if n \<noteq> 1 then Some (- EIO, ptr, k)
                                  else Some (res, ptr, set_proc p ((procs k p)\<lparr>process_size := filesize st,
                                         process_ptr := ptr, filetype := PROCESS_FILETYPE_BINARY\<rparr>) k) } })"

definition process_load_binary :: "(u32 \<Rightarrow> 'a task_state_scheme filesystem) \<Rightarrow> u32 \<Rightarrow> file_stat \<Rightarrow> u32 \<Rightarrow> u32
    \<Rightarrow> 'a task_state_scheme \<Rightarrow> (int \<times> 'a task_state_scheme) option" where
  "process_load_binary vt r st filename p k =
     do { (fd, k) \<leftarrow> fopen vt filename r k;
          (res, ptr, k) \<leftarrow> load_binary_body vt st fd p k;
          let k = (if res < 0 \<and> ptr \<noteq> 0 then kfree ptr k else k);
          (_, k) \<leftarrow> fclose vt fd k;
          Some (res, k) }"

definition process_load_elf :: "(u32 \<Rightarrow> 'a task_state_scheme filesystem) \<Rightarrow> u32 \<Rightarrow> file_stat \<Rightarrow> u32 \<Rightarrow> u32
    \<Rightarrow> 'a task_state_scheme \<Rightarrow> (int \<times> 'a task_state_scheme) option" where
  "process_load_elf vt r st filename p k =
     do { (res, f, k) \<leftarrow> elf_load vt r st filename 0 k;
          if res < 0 then Some (res, k)
          else Some (res, set_proc p ((procs k p)\<lparr>filetype := PROCESS_FILETYPE_ELF, process_ptr := f\<rparr>) k) }"

definition process_load_data :: "(u32 \<Rightarrow> 'a task_state_scheme filesystem) \<Rightarrow> u32 \<Rightarrow> file_stat \<Rightarrow> u32 \<Rightarrow> u32
    \<Rightarrow> 'a task_state_scheme \<Rightarrow> (int \<times> 'a task_state_scheme) option" where
  "process_load_data vt r st filename p k =
     do { (res, k) \<leftarrow> process_load_elf vt r st filename p k;
          if res = - EINFORMAT then process_load_binary vt r st filename p k else Some (res, k) }"

definition process_map_binary :: "u32 \<Rightarrow> 'a task_state_scheme \<Rightarrow> int \<times> 'a task_state_scheme" where
  "process_map_binary p k =
     (let x = procs k p;
          (res, m) = paging_map_to (process_directory p k) PEACHOS_PROGRAM_VIRTUAL_ADDRESS (process_ptr x)
            (paging_align_address (process_ptr x + process_size x))
            (uint (PAGING_IS_PRESENT OR PAGING_IS_WRITEABLE OR PAGING_ACCESS_FROM_ALL)) (ram k)
      in (res, k\<lparr>ram := m\<rparr>))"

primrec map_elf_loop :: "nat \<Rightarrow> nat \<Rightarrow> u32 \<Rightarrow> u32 \<Rightarrow> int \<Rightarrow> 'a task_state_scheme \<Rightarrow> int \<times> 'a task_state_scheme" where
  \<comment> \<open>the first argument is \<open>e_phnum - i\<close>, the third \<open>phdrs\<close>\<close>
  "map_elf_loop 0 i ph p res k = (res, k)"
| "map_elf_loop (Suc n) i ph p res k =
     (let phdr = phdr_at (ram k) (ph + 32 * of_nat i);
          phys = elf_phdr_phys_address (process_ptr (procs k p)) phdr k;
          flags = uint (PAGING_IS_PRESENT OR PAGING_ACCESS_FROM_ALL);
          flags = (if p_flags phdr AND PF_W \<noteq> 0 then flags OR uint PAGING_IS_WRITEABLE else flags);
          (res, m) = paging_map_to (process_directory p k) (paging_align_to_lower_page (p_vaddr phdr))
            (paging_align_to_lower_page phys) (paging_align_address (phys + p_memsz phdr)) flags (ram k);
          k = k\<lparr>ram := m\<rparr>
      in if ISERR res then (res, k) else map_elf_loop n (Suc i) ph p res k)"

definition process_map_elf :: "u32 \<Rightarrow> 'a task_state_scheme \<Rightarrow> int \<times> 'a task_state_scheme" where
  "process_map_elf p k =
     (let header = elf_header (process_ptr (procs k p)) k;
          ph = elf_pheader (ram k) header
      in map_elf_loop (unat (e_phnum (header_at (ram k) header))) 0 ph p 0 k)"

definition process_map_memory :: "u32 \<Rightarrow> 'a task_state_scheme \<Rightarrow> (int \<times> 'a task_state_scheme) option" where
  "process_map_memory p k =
     do { (res, k) \<leftarrow> (if filetype (procs k p) = PROCESS_FILETYPE_BINARY then Some (process_map_binary p k)
                       else if filetype (procs k p) = PROCESS_FILETYPE_ELF then Some (process_map_elf p k)
                       else None);
          if res < 0 then Some (res, k)
          else let (_, m) = paging_map_to (process_directory p k) PEACHOS_PROGRAM_VIRTUAL_STACK_ADDRESS_END
                     (process_stack (procs k p))
                     (paging_align_address (process_stack (procs k p) + PEACHOS_USER_PROGRAM_STACK_SIZE))
                     (uint (PAGING_IS_PRESENT OR PAGING_IS_WRITEABLE OR PAGING_ACCESS_FROM_ALL)) (ram k)
               in Some (res, k\<lparr>ram := m\<rparr>) }"

definition process_get_free_slot :: "'a process_state_scheme \<Rightarrow> int" where
  "process_get_free_slot k = (case find_slot (processes k) of None \<Rightarrow> - EISTKN | Some i \<Rightarrow> int i)"

text \<open>
  \<open>load_for_slot_body\<close> is \<open>process_load_for_slot\<close> up to its label \<open>out\<close>.  It returns \<open>res\<close>, the local
  \<open>_process\<close> (uninitialised, \<open>junk\<close>, on the first error exit) and the value behind the out-pointer.
\<close>

definition load_for_slot_body :: "(u32 \<Rightarrow> 'a process_state_scheme filesystem) \<Rightarrow> u32 \<Rightarrow> file_stat \<Rightarrow> u32 \<Rightarrow> u32
    \<Rightarrow> u32 \<Rightarrow> int \<Rightarrow> 'a process_state_scheme \<Rightarrow> (int \<times> u32 \<times> u32 \<times> 'a process_state_scheme) option" where
  "load_for_slot_body vt r st junk filename out_p slot k =
     (if process_get slot k \<noteq> 0 then Some (- EISTKN, junk, out_p, k)
      else
        let (p, k) = kzalloc 9368 k
        in if p = 0 then Some (- ENOMEM, p, out_p, k)
           else do { let k = process_init p k;
                     (res, k) \<leftarrow> process_load_data vt r st filename p k;
                     if res < 0 then Some (res, p, out_p, k)
                     else
                       let (stack, k) = kzalloc PEACHOS_USER_PROGRAM_STACK_SIZE k
                       in if stack = 0 then Some (- ENOMEM, p, out_p, k)
                          else
                            let (_, m) = strncpy (ram k) (p + 2) filename PEACHOS_MAX_PATH;
                                name = map (\<lambda>i. m (p + 2 + of_nat i)) [0..<nat PEACHOS_MAX_PATH];
                                k = set_proc p ((procs k p)\<lparr>process_filename := name, process_stack := stack,
                                      process_id := word_of_int slot\<rparr>) (k\<lparr>ram := m\<rparr>);
                                (t, k) = task_new p k
                            in if ERROR_I t = 0 then Some (ERROR_I t, p, out_p, k)
                               else do { let k = set_proc p ((procs k p)\<lparr>process_task := t\<rparr>) k;
                                         (res, k) \<leftarrow> process_map_memory p k;
                                         if res < 0 then Some (res, p, out_p, k)
                                         else Some (res, p, p, k\<lparr>processes := (processes k)[nat slot := p]\<rparr>) } })"

definition process_load_for_slot :: "(u32 \<Rightarrow> 'a process_state_scheme filesystem) \<Rightarrow> u32 \<Rightarrow> file_stat \<Rightarrow> u32 \<Rightarrow> u32
    \<Rightarrow> u32 \<Rightarrow> int \<Rightarrow> 'a process_state_scheme \<Rightarrow> (int \<times> u32 \<times> 'a process_state_scheme) option" where
  "process_load_for_slot vt r st junk filename out_p slot k =
     do { (res, p, out_p, k) \<leftarrow> load_for_slot_body vt r st junk filename out_p slot k;
          Some (res, out_p, if ISERR res \<and> p \<noteq> 0 \<and> process_task (procs k p) \<noteq> 0
                            then task_free (process_task (procs k p)) k else k) }"

definition process_load :: "(u32 \<Rightarrow> 'a process_state_scheme filesystem) \<Rightarrow> u32 \<Rightarrow> file_stat \<Rightarrow> u32 \<Rightarrow> u32
    \<Rightarrow> u32 \<Rightarrow> 'a process_state_scheme \<Rightarrow> (int \<times> u32 \<times> 'a process_state_scheme) option" where
  "process_load vt r st junk filename out_p k =
     (let slot = process_get_free_slot k
      in if slot < 0 then Some (- EISTKN, out_p, k) else process_load_for_slot vt r st junk filename out_p slot k)"

definition process_load_switch :: "(u32 \<Rightarrow> 'a process_state_scheme filesystem) \<Rightarrow> u32 \<Rightarrow> file_stat \<Rightarrow> u32 \<Rightarrow> u32
    \<Rightarrow> u32 \<Rightarrow> 'a process_state_scheme \<Rightarrow> (int \<times> u32 \<times> 'a process_state_scheme) option" where
  "process_load_switch vt r st junk filename out_p k =
     do { (res, out_p, k) \<leftarrow> process_load vt r st junk filename out_p k;
          Some (res, out_p, if res = 0 then process_switch out_p k else k) }"

end
