(* ===== verification/Room.thy ===== *)
theory Room
  imports Paging
begin

text \<open>
  Long runs of the kernel make many allocations whose places the specifications leave open.  This theory has the
  condition under which they all succeed, and what one allocation leaves alone.
\<close>

subsection \<open>Bytes an allocation does not touch\<close>

lemma kzalloc_ram:
  assumes "kzalloc sz k = (p, k1)"
  shows "k1 = k\<lparr>ram := ram k1\<rparr>"
proof -
  have "kernel_heap k1 = kernel_heap k" "kmem.more k1 = kmem.more k"
    using kzalloc_heap [of sz k] kzalloc_more [of sz k] assms by simp_all
  then show ?thesis by (cases k; cases k1) simp
qed

lemma kfree_ram: "kfree p k = k\<lparr>ram := ram (kfree p k)\<rparr>"
  by (rule kmem.equality) (simp_all add: kfree_more)

lemma blk_byte_split: "blk_addr b + of_nat x = blk_addr (b + x div 4096) + of_nat (x mod 4096)"
proof -
  have "(of_nat x :: u32) = of_nat (x div 4096) * 4096 + of_nat (x mod 4096)"
    by (metis div_mult_mod_eq of_nat_add of_nat_mult of_nat_numeral)
  then show ?thesis by (simp only: blk_addr_def of_nat_add) (simp only: algebra_simps)
qed

lemma kheap_rep_table_write:
  assumes "kheap_rep k A" and "\<And>a. unat (a - 0x7E00) < 25600 \<Longrightarrow> m' a = ram k a"
  shows "kheap_rep (k\<lparr>ram := m'\<rparr>) A"
proof -
  have "entry_at m' kernel_table i = entry_at (ram k) kernel_table i" if "i < 25600" for i
    using that assms(2) [of "0x7E00 + of_nat i"] by (simp add: entry_at_def unat_of_nat32)
  then have "heap_rep kernel_table m' A"
    by (intro heap_rep_cong [OF kheap_repD(2) [OF assms(1)]]) simp
  then show ?thesis using assms(1) by (simp add: kheap_rep_def)
qed

lemma stable_map_le: "A \<subseteq>\<^sub>m A' \<Longrightarrow> stable A a \<Longrightarrow> stable A' a"
  unfolding stable_def covered_def map_le_def by (metis domI)

lemma stable_live:
  assumes "kheap_rep k A" and "A b = Some n" and "x < n * 4096"
  shows "stable A (blk_addr b + of_nat x)"
proof -
  have bn: "b + n \<le> 25600" using kheap_rep_pos [OF assms(1,2)] by simp
  let ?q = "b + x div 4096" and ?r = "x mod 4096"
  have q: "x div 4096 < n" using assms(3) by (simp add: less_mult_imp_div_less)
  have cov: "covered A ?q" using assms(2) q unfolding covered_def by (intro exI [of _ b] exI [of _ n]) simp
  note at = blk_byte_split [of b x]
  have "25600 \<le> unat (blk_addr b + of_nat x - 0x7E00)"
    by (rule live_not_table) (use bn assms(3) in linarith)
  moreover have "4096 \<le> unat (blk_addr b + of_nat x - blk_addr c)" if "c < 25600" "\<not> covered A c" for c
    unfolding at by (rule other_block_byte) (use that cov q bn in auto)
  ultimately show ?thesis by (simp add: stable_def)
qed

lemma kzalloc_stable:
  assumes "kheap_rep k A" and "0 < unat sz" and "first_fit 25600 A (blocks_of sz) b" and st: "stable A a"
  shows "ram (snd (kzalloc sz k)) a = ram k a"
proof -
  have tab: "25600 \<le> unat (a - 0x7E00)" using st by (simp add: stable_def)
  have "\<not> unat (a - blk_addr b) < unat sz"
  proof
    let ?x = "unat (a - blk_addr b)"
    assume lt: "?x < unat sz"
    have "unat sz \<le> blocks_of sz * 4096" unfolding blocks_of_def by linarith
    then have q: "?x div 4096 < blocks_of sz" using lt by (simp add: less_mult_imp_div_less)
    have room: "room 25600 A (blocks_of sz) b" using assms(3) by (simp add: first_fit_def)
    let ?q = "b + ?x div 4096"
    have u: "\<not> covered A ?q" "?q < 25600" using room q by (auto simp: room_def)
    have "a = blk_addr b + of_nat ?x" by (rule offset_of_unat)
    then have "a = blk_addr ?q + of_nat (?x mod 4096)" by (simp only: blk_byte_split [symmetric])
    then have "unat (a - blk_addr ?q) = unat (blk_addr ?q + of_nat (?x mod 4096) - blk_addr ?q)" by (rule arg_cong)
    also have "\<dots> = ?x mod 4096" by (rule unat_offset) (use mod_less_divisor [of 4096 ?x] in linarith)
    finally have "unat (a - blk_addr ?q) = ?x mod 4096" .
    then have "unat (a - blk_addr ?q) < 4096" by simp
    then show False using st u by (auto simp: stable_def)
  qed
  then show ?thesis using kzalloc_at [OF assms(1) blocks_of_pos [OF assms(2)] assms(3) tab] by simp
qed

subsection \<open>Room for everything to come\<close>

text \<open>
  \<open>roomy A K n\<close>: whichever \<open>K\<close> blocks are taken, \<open>n\<close> adjacent blocks are still free.
\<close>

definition roomy :: "(nat \<rightharpoonup> nat) \<Rightarrow> nat \<Rightarrow> nat \<Rightarrow> bool" where
  "roomy A K n \<longleftrightarrow> (\<forall>X. finite X \<longrightarrow> card X \<le> K \<longrightarrow>
     (\<exists>b. b + n \<le> 25600 \<and> (\<forall>i. b \<le> i \<longrightarrow> i < b + n \<longrightarrow> \<not> covered A i \<and> i \<notin> X)))"

lemma roomyD: "roomy A K n \<Longrightarrow> finite X \<Longrightarrow> card X \<le> K \<Longrightarrow>
    \<exists>b. b + n \<le> 25600 \<and> (\<forall>i. b \<le> i \<longrightarrow> i < b + n \<longrightarrow> \<not> covered A i \<and> i \<notin> X)"
  by (simp add: roomy_def)

lemma roomy_fit: "roomy A K n \<Longrightarrow> \<exists>s. first_fit 25600 A n s"
  by (rule first_fit_exists) (use roomyD [of A K n "{}"] in \<open>auto simp: room_def\<close>)

lemma roomy_less:
  assumes "roomy A K n" and "K' \<le> K" and "n' \<le> n"
  shows "roomy A K' n'"
  unfolding roomy_def
proof (intro allI impI)
  fix X :: "nat set" assume "finite X" "card X \<le> K'"
  then obtain b where b: "b + n \<le> 25600" "\<forall>i. b \<le> i \<longrightarrow> i < b + n \<longrightarrow> \<not> covered A i \<and> i \<notin> X"
    using roomyD [OF assms(1), of X] assms(2) by auto
  then show "\<exists>b. b + n' \<le> 25600 \<and> (\<forall>i. b \<le> i \<longrightarrow> i < b + n' \<longrightarrow> \<not> covered A i \<and> i \<notin> X)"
    using assms(3) by (intro exI [of _ b]) auto
qed

lemma roomy_free:
  assumes "roomy A K n" and "0 < n"
  shows "K < free_blocks 25600 A"
proof (rule ccontr)
  let ?X = "{i. i < 25600 \<and> \<not> covered A i}"
  assume "\<not> K < free_blocks 25600 A"
  then have "card ?X \<le> K" by (simp add: free_blocks_def)
  then obtain b where "b + n \<le> 25600" "\<forall>i. b \<le> i \<longrightarrow> i < b + n \<longrightarrow> \<not> covered A i \<and> i \<notin> ?X"
    using roomyD [OF assms(1), of ?X] by auto
  then show False using assms(2) by auto
qed

lemma roomy_covered:
  assumes "roomy A (K + card Y) n" and "finite Y" and "\<And>i. covered A' i \<Longrightarrow> covered A i \<or> i \<in> Y"
  shows "roomy A' K n"
  unfolding roomy_def
proof (intro allI impI)
  fix X :: "nat set" assume X: "finite X" "card X \<le> K"
  have "card (X \<union> Y) \<le> K + card Y" using card_Un_le [of X Y] X(2) by linarith
  then obtain b where "b + n \<le> 25600" "\<forall>i. b \<le> i \<longrightarrow> i < b + n \<longrightarrow> \<not> covered A i \<and> i \<notin> X \<union> Y"
    using roomyD [OF assms(1), of "X \<union> Y"] X(1) assms(2) by auto
  then show "\<exists>b. b + n \<le> 25600 \<and> (\<forall>i. b \<le> i \<longrightarrow> i < b + n \<longrightarrow> \<not> covered A' i \<and> i \<notin> X)"
    using assms(3) by blast
qed

lemma roomy_restrict:
  assumes "roomy A K n"
  shows "roomy (A |` X) K n"
proof (rule roomy_covered [where Y = "{}" and A = A])
  show "covered (A |` X) i \<Longrightarrow> covered A i \<or> i \<in> {}" for i
    by (auto simp: covered_def restrict_map_def split: if_splits)
qed (use assms in simp_all)

lemma roomy_alloc: "roomy A (K + m) n \<Longrightarrow> A b = None \<Longrightarrow> roomy (A(b \<mapsto> m)) K n"
  by (rule roomy_covered [where Y = "{b..<b + m}" and A = A]) (auto simp: covered_upd)

lemma roomy_ones:
  assumes "roomy A (K + length bs) n"
  shows "roomy (A ++ ones bs) K n"
proof (rule roomy_covered [where Y = "set bs" and A = A])
  show "roomy A (K + card (set bs)) n" by (rule roomy_less [OF assms]) (simp_all add: card_length)
  show "covered (A ++ ones bs) i \<Longrightarrow> covered A i \<or> i \<in> set bs" for i
    by (auto simp: covered_def ones_def map_add_def less_Suc_eq split: option.splits if_splits)
qed simp

lemma roomy_empty:
  assumes "(K + 1) * n \<le> 25600"
  shows "roomy Map.empty K n"
  unfolding roomy_def
proof (intro allI impI)
  fix X :: "nat set" assume X: "finite X" "card X \<le> K"
  have "\<exists>w \<le> K. \<forall>i. w * n \<le> i \<longrightarrow> i < w * n + n \<longrightarrow> i \<notin> X"
  proof (rule ccontr)
    assume "\<not> ?thesis"
    then have "\<forall>w \<in> {..K}. \<exists>i. w * n \<le> i \<and> i < w * n + n \<and> i \<in> X" by auto
    then obtain f where f: "\<forall>w \<in> {..K}. w * n \<le> f w \<and> f w < w * n + n \<and> f w \<in> X" by metis
    have "f w div n = w" if "w \<le> K" for w
    proof (rule div_nat_eqI)
      show "n * w \<le> f w" "f w < n * Suc w" using f that by (auto simp: mult.commute add.commute)
    qed
    then have "inj_on f {..K}" by (metis atMost_iff inj_onI)
    moreover have "f ` {..K} \<subseteq> X" using f by auto
    ultimately have "card {..K} \<le> card X" using card_inj_on_le X(1) by blast
    then show False using X(2) by simp
  qed
  then obtain w where w: "w \<le> K" "\<forall>i. w * n \<le> i \<longrightarrow> i < w * n + n \<longrightarrow> i \<notin> X" by blast
  have "w * n \<le> K * n" using w(1) by (rule mult_le_mono1)
  then have "w * n + n \<le> 25600" using assms by (simp only: add_mult_distrib mult_1)
  then show "\<exists>b. b + n \<le> 25600 \<and> (\<forall>i. b \<le> i \<longrightarrow> i < b + n \<longrightarrow> \<not> covered Map.empty i \<and> i \<notin> X)"
    using w(2) by (intro exI [of _ "w * n"]) auto
qed

lemma kzalloc_room:
  assumes rep: "kheap_rep k A" and sz: "0 < unat sz" "blocks_of sz \<le> n" and room: "roomy A (K + blocks_of sz) n"
  obtains b m where "kzalloc sz k = (blk_addr b, k\<lparr>ram := m\<rparr>)" "b < 25600" "b + blocks_of sz \<le> 25600" "A b = None"
    "\<not> covered A b" "kheap_rep (k\<lparr>ram := m\<rparr>) (A(b \<mapsto> blocks_of sz))" "\<forall>x < unat sz. m (blk_addr b + of_nat x) = 0"
    "\<forall>a. stable A a \<longrightarrow> m a = ram k a" "roomy (A(b \<mapsto> blocks_of sz)) K n"
proof -
  have pos: "0 < blocks_of sz" by (rule blocks_of_pos [OF sz(1)])
  obtain b where fit: "first_fit 25600 A (blocks_of sz) b"
    using roomy_fit [OF roomy_less [OF room _ sz(2)]] by blast
  have cap: "b + blocks_of sz \<le> 25600" "\<not> covered A b" using fit pos by (auto simp: first_fit_def room_def)
  have none: "A b = None" by (rule kz.fit_unused [OF rep pos fit])
  obtain k1 where k1: "kzalloc sz k = (blk_addr b, k1)"
    using kz.alloc_addr [OF rep pos fit] by (metis prod.collapse)
  have "kernel_heap k1 = kernel_heap k" "kmem.more k1 = kmem.more k"
    using kzalloc_heap [of sz k] kzalloc_more [of sz k] k1 by simp_all
  then have up: "k1 = k\<lparr>ram := ram k1\<rparr>" by (cases k; cases k1) simp
  have zero: "ram k1 (blk_addr b + of_nat x) = 0" if x: "x < unat sz" for x
  proof -
    have "unat sz \<le> blocks_of sz * 4096" unfolding blocks_of_def by linarith
    then have "25600 \<le> unat (blk_addr b + of_nat x - 0x7E00)"
      by (intro live_not_table) (use cap x in linarith)
    moreover have "unat (of_nat x :: u32) = x" using x unat_bound32 [of sz] by (intro unat_of_nat32) linarith
    ultimately show ?thesis using kzalloc_at [OF rep pos fit] k1 x by (metis add_diff_cancel_left' snd_conv)
  qed
  have same: "ram k1 a = ram k a" if "stable A a" for a
    using kzalloc_stable [OF rep sz(1) fit that] k1 by simp
  have rep1: "kheap_rep (k\<lparr>ram := ram k1\<rparr>) (A(b \<mapsto> blocks_of sz))"
    using kzalloc_rep [OF rep pos fit] k1 up by (metis snd_conv)
  show thesis
    by (rule that [of b "ram k1"]) (use k1 up cap none pos rep1 zero same roomy_alloc [OF room none] in auto)
qed

lemma fresh_unstable:
  assumes rep: "kheap_rep k (A(b \<mapsto> n))" and "A b = None" and x: "x < n * 4096"
  shows "\<not> stable A (blk_addr b + of_nat x)"
proof
  assume st: "stable A (blk_addr b + of_nat x)"
  let ?q = "b + x div 4096"
  have bn: "b + n \<le> 25600" using kheap_rep_pos [OF rep, of b n] by simp
  have q: "x div 4096 < n" using x by (simp add: less_mult_imp_div_less)
  have "\<not> covered A ?q"
  proof
    assume "covered A ?q"
    then obtain s l where s: "A s = Some l" "s \<le> ?q" "?q < s + l" by (auto simp: covered_def)
    then have sb: "s \<noteq> b" using assms(2) by auto
    then have s': "(A(b \<mapsto> n)) s = Some l" "(A(b \<mapsto> n)) b = Some n" using s(1) by simp_all
    have "s + l \<le> b \<or> b + n \<le> s"
      using heap_rep_apart [OF kheap_repD(2) [OF rep] s'] heap_rep_apart [OF kheap_repD(2) [OF rep] s'(2,1)] sb by linarith
    then show False using s q by linarith
  qed
  then have "4096 \<le> unat (blk_addr b + of_nat x - blk_addr ?q)" using st q bn by (simp add: stable_def)
  moreover have "unat (blk_addr b + of_nat x - blk_addr ?q) = x mod 4096"
    unfolding blk_byte_split [of b x] by (rule unat_offset) (use mod_less_divisor [of 4096 x] in linarith)
  ultimately show False using mod_less_divisor [of 4096 x] by linarith
qed

end
