(* ===== verification/UserCopy.thy ===== *)
theory UserCopy
  imports Task Room
begin

text \<open>
  The correctness of \<open>copy_string_from_task\<close>: how the kernel reads a string that is addressed through a
  task's page tables.  The processor's address translation agrees with the page map of the paging
  theory; the copy goes through a bounce page mapped to itself, whose old entry is put back.
\<close>

subsection \<open>Translation and the page map\<close>

definition entry_to_phys :: "u32 \<Rightarrow> u32 \<Rightarrow> u32 option" where
  "entry_to_phys pte va = (if bit pte 0 then Some ((pte AND 0xfffff000) + va mod 4096) else None)"

lemma page_words:
  fixes va :: u32
  shows "va div 0x400000 = of_nat (page_of va div 1024)" and "va div 0x1000 mod 1024 = of_nat (page_of va mod 1024)"
proof -
  show "va div 0x400000 = of_nat (page_of va div 1024)" by (simp flip: indexes_unat)
  have u: "unat (va div 4096 mod 1024) = page_of va mod 1024"
    by (simp only: unat_div unat_mod unat_numeral page_of_def) simp
  show "va div 0x1000 mod 1024 = of_nat (page_of va mod 1024)"
    unfolding u [symmetric] by simp
qed

lemma translate_eq:
  assumes "dir_wf (ram k) d T" and "dir_present (ram k) d" and "cr3 k = blk_addr d"
  shows "translate k va = entry_to_phys (load32 (ram k) (entry_cell T (page_of va))) va"
proof -
  have c: "cr3 k + 4 * (va div 0x400000) = cell d (page_of va div 1024)"
    unfolding page_words assms(3) cell_def by simp
  have p: "bit (load32 (ram k) (cell d (page_of va div 1024))) 0"
    using assms(2) page_indices(1) [of va] unfolding dir_present_def by blast
  have m: "load32 (ram k) (cell d (page_of va div 1024)) AND 0xfffff000 = blk_addr (T ! (page_of va div 1024))"
    by (rule dir_wfD(6) [OF assms(1) page_indices(1)])
  have e: "blk_addr (T ! (page_of va div 1024)) + 4 * (va div 0x1000 mod 1024) = entry_cell T (page_of va)"
    unfolding page_words entry_cell_def cell_def by simp
  show ?thesis
    unfolding translate_def c Let_def m e entry_to_phys_def using p by simp
qed

text \<open>The bytes of the chunk, the directory and the tables decide the translation.\<close>

definition same_blocks :: "nat list \<Rightarrow> mem \<Rightarrow> mem \<Rightarrow> bool" where
  "same_blocks bs m' m \<longleftrightarrow> (\<forall>b \<in> set bs. \<forall>x < 4096. m' (blk_addr b + of_nat x) = m (blk_addr b + of_nat x))"

lemma same_block_cell: "same_blocks bs m' m \<Longrightarrow> b \<in> set bs \<Longrightarrow> j < 1024 \<Longrightarrow> load32 m' (cell b j) = load32 m (cell b j)"
  by (rule load_cell_cong) (auto simp: same_blocks_def)

lemma same_blocks_far:
  assumes "\<forall>c \<in> set bs. c < 25600" and "b < 25600" "b \<notin> set bs" and "\<forall>a. 4096 \<le> unat (a - blk_addr b) \<longrightarrow> m' a = m a"
  shows "same_blocks bs m' m"
  unfolding same_blocks_def
proof (intro ballI allI impI)
  fix c and x :: nat assume c: "c \<in> set bs" "x < 4096"
  then have "4096 \<le> unat (blk_addr c + of_nat x - blk_addr b)"
    using assms(1-3) by (intro other_block_byte) auto
  then show "m' (blk_addr c + of_nat x) = m (blk_addr c + of_nat x)" using assms(4) by blast
qed

lemma chunk_same:
  assumes "chunk_wf m c d T" and "same_blocks (c # d # T) m' m"
  shows "chunk_wf m' c d T" and "dir_present m d \<Longrightarrow> dir_present m' d"
    and "load32 m' (entry_cell T (page_of v)) = load32 m (entry_cell T (page_of v))"
    and "w mod 4096 = 0 \<Longrightarrow> paging_get (blk_addr d) w m' = paging_get (blk_addr d) w m"
proof -
  note D = chunk_wfD [OF assms(1)] and W = dir_wfD [OF chunk_wfD(1) [OF assms(1)]]
  have dirs: "load32 m' (cell d j) = load32 m (cell d j)" if "j < 1024" for j
    by (rule same_block_cell [OF assms(2) _ that]) simp
  show "dir_present m d \<Longrightarrow> dir_present m' d" using dirs by (simp add: dir_present_def)
  have dw: "dir_wf m' d T" using D(1) dirs by (simp add: dir_wf_def)
  moreover have "load32 m' (cell c 0) = load32 m (cell c 0)"
    by (rule same_block_cell [OF assms(2)]) simp_all
  ultimately show "chunk_wf m' c d T" using assms(1) by (simp add: chunk_wf_def cell_0)
  show entry: "load32 m' (entry_cell T (page_of v)) = load32 m (entry_cell T (page_of v))" for v
    unfolding entry_cell_def using W(2) page_indices [of v] by (intro same_block_cell [OF assms(2)]) simp_all
  show "w mod 4096 = 0 \<Longrightarrow> paging_get (blk_addr d) w m' = paging_get (blk_addr d) w m"
    using entry [of w] by (simp only: paging_get_eq [OF dw] paging_get_eq [OF D(1)])
qed

lemma chunk_blocks: "chunk_wf m c d T \<Longrightarrow> b \<in> set (c # d # T) \<Longrightarrow> b < 25600"
  unfolding chunk_wf_def dir_wf_def by fastforce

text \<open>Putting a cell back.\<close>

lemma load32_bytes:
  "ucast (load32 m a) = m a" "ucast (drop_bit 8 (load32 m a)) = m (a + 1)"
  "ucast (drop_bit 16 (load32 m a)) = m (a + 2)" "ucast (drop_bit 24 (load32 m a)) = m (a + 3)"
  by (rule bit_word_eqI; auto simp: load32_def bit_simps dest: bit_imp_le_length)+

lemma store32_load32:
  assumes "unat (x - a) < 4"
  shows "store32 m a (load32 m0 a) x = m0 x"
proof -
  have "unat (x - a) = 0 \<or> unat (x - a) = 1 \<or> unat (x - a) = 2 \<or> unat (x - a) = 3" using assms by linarith
  then have "x = a \<or> x = a + 1 \<or> x = a + 2 \<or> x = a + 3"
    using addr_eq_iff [of 0 x a] addr_eq_iff [of 1 x a] addr_eq_iff [of 2 x a] addr_eq_iff [of 3 x a] by auto
  then show ?thesis by (auto simp: store32_def load32_bytes)
qed

subsection \<open>Copying through the tables\<close>

lemma nth_nonzero: "0 \<notin> set s \<Longrightarrow> i < length s \<Longrightarrow> s ! i \<noteq> 0"
  by (metis nth_mem)

lemma virt_copy_loop:
  fixes k :: "'a task_state_scheme"
  assumes tr: "\<And>m. \<forall>a. 4096 \<le> unat (a - tmp) \<longrightarrow> m a = ram k a \<Longrightarrow> translate (k\<lparr>ram := m\<rparr>) = tr"
    and src: "\<forall>i \<le> length s. tr (va + of_nat i) = Some (pa i) \<and> 4096 \<le> unat (pa i - tmp)
        \<and> ram k (pa i) = (s @ [0]) ! i"
    and dst: "\<forall>i < 4096. tr (tmp + of_nat i) = Some (tmp + of_nat i)"
    and nz: "0 \<notin> set s"
  shows "n + i < 4096 \<Longrightarrow> i \<le> length s \<Longrightarrow> \<forall>a. 4096 \<le> unat (a - tmp) \<longrightarrow> m0 a = ram k a
    \<Longrightarrow> \<forall>j < i. m0 (tmp + of_nat j) = s ! j
    \<Longrightarrow> \<exists>m'. virt_strncpy_loop tmp va n (int i) (k\<lparr>ram := m0\<rparr>)
          = Some (int (min (length s) (i + n)), k\<lparr>ram := m'\<rparr>)
        \<and> (\<forall>a. 4096 \<le> unat (a - tmp) \<longrightarrow> m' a = ram k a)
        \<and> (\<forall>j < min (length s) (i + n). m' (tmp + of_nat j) = s ! j)"
proof (induction n arbitrary: i m0)
  case 0
  then show ?case by (intro exI [of _ m0]) (simp add: min_def)
next
  case (Suc n)
  have t0: "translate (k\<lparr>ram := m0\<rparr>) = tr" by (rule tr [OF Suc.prems(3)])
  have s: "tr (va + of_nat i) = Some (pa i)" "4096 \<le> unat (pa i - tmp)" "ram k (pa i) = (s @ [0]) ! i"
    using src Suc.prems(2) by blast+
  have rd: "virt_read (k\<lparr>ram := m0\<rparr>) (va + as_u32 (int i)) = Some ((s @ [0]) ! i)"
    using s Suc.prems(3) by (simp add: virt_read_def t0)
  show ?case
  proof (cases "i < length s")
    case False
    then have "i = length s" using Suc.prems(2) by simp
    then show ?thesis using rd Suc.prems(3,4) by (intro exI [of _ m0]) simp
  next
    case True
    have si: "(s @ [0]) ! i = s ! i" "s ! i \<noteq> 0"
      using True nth_nonzero [OF nz True] by (simp_all add: nth_append)
    let ?m = "m0(tmp + of_nat i := s ! i)"
    have wr: "virt_write (tmp + as_u32 (int i)) (s ! i) (k\<lparr>ram := m0\<rparr>) = Some (k\<lparr>ram := ?m\<rparr>)"
      using dst Suc.prems(1) by (simp add: virt_write_def t0)
    have step: "virt_strncpy_loop tmp va (Suc n) (int i) (k\<lparr>ram := m0\<rparr>)
        = virt_strncpy_loop tmp va n (int (Suc i)) (k\<lparr>ram := ?m\<rparr>)"
      using rd wr si by (simp add: add.commute)
    have far: "\<forall>a. 4096 \<le> unat (a - tmp) \<longrightarrow> ?m a = ram k a"
      using Suc.prems(1,3) by (auto simp: unat_of_nat32)
    have pre: "\<forall>j < Suc i. ?m (tmp + of_nat j) = s ! j"
      using Suc.prems(1,4) by (auto simp: less_Suc_eq of_nat_inj32)
    have "\<exists>m'. virt_strncpy_loop tmp va n (int (Suc i)) (k\<lparr>ram := ?m\<rparr>)
          = Some (int (min (length s) (Suc i + n)), k\<lparr>ram := m'\<rparr>)
        \<and> (\<forall>a. 4096 \<le> unat (a - tmp) \<longrightarrow> m' a = ram k a)
        \<and> (\<forall>j < min (length s) (Suc i + n). m' (tmp + of_nat j) = s ! j)"
      by (rule Suc.IH [OF _ _ far pre]) (use Suc.prems(1) True in auto)
    then show ?thesis unfolding step by simp
  qed
qed

lemma virt_copy:
  fixes k :: "'a task_state_scheme"
  assumes tr: "\<And>m. \<forall>a. 4096 \<le> unat (a - tmp) \<longrightarrow> m a = ram k a \<Longrightarrow> translate (k\<lparr>ram := m\<rparr>) = tr"
    and src: "\<forall>i \<le> length s. tr (va + of_nat i) = Some (pa i) \<and> 4096 \<le> unat (pa i - tmp)
        \<and> ram k (pa i) = (s @ [0]) ! i"
    and dst: "\<forall>i < 4096. tr (tmp + of_nat i) = Some (tmp + of_nat i)"
    and nz: "0 \<notin> set s" and n: "count < 4096"
  shows "\<exists>m'. virt_strncpy tmp va count k = Some (k\<lparr>ram := m'\<rparr>)
    \<and> cstr m' tmp (take (nat (count - 1)) s) \<and> (\<forall>a. 4096 \<le> unat (a - tmp) \<longrightarrow> m' a = ram k a)"
proof -
  let ?n = "min (length s) (nat (count - 1))"
  have "\<exists>m'. virt_strncpy_loop tmp va (nat (count - 1)) (int 0) (k\<lparr>ram := ram k\<rparr>)
      = Some (int (min (length s) (0 + nat (count - 1))), k\<lparr>ram := m'\<rparr>)
    \<and> (\<forall>a. 4096 \<le> unat (a - tmp) \<longrightarrow> m' a = ram k a)
    \<and> (\<forall>j < min (length s) (0 + nat (count - 1)). m' (tmp + of_nat j) = s ! j)"
    by (rule virt_copy_loop [OF tr src dst nz]) (use n in auto)
  then obtain m1 where m1: "virt_strncpy_loop tmp va (nat (count - 1)) 0 k = Some (int ?n, k\<lparr>ram := m1\<rparr>)"
    "\<forall>a. 4096 \<le> unat (a - tmp) \<longrightarrow> m1 a = ram k a" "\<forall>j < ?n. m1 (tmp + of_nat j) = s ! j"
    by auto
  have lt: "?n < 4096" using n by simp
  let ?m = "m1(tmp + of_nat ?n := 0)"
  have "virt_write (tmp + as_u32 (int ?n)) 0 (k\<lparr>ram := m1\<rparr>) = Some (k\<lparr>ram := ?m\<rparr>)"
    using dst lt by (simp add: virt_write_def tr [OF m1(2)])
  then have "virt_strncpy tmp va count k = Some (k\<lparr>ram := ?m\<rparr>)" by (simp add: virt_strncpy_def m1(1))
  moreover have "\<forall>a. 4096 \<le> unat (a - tmp) \<longrightarrow> ?m a = ram k a"
    using m1(2) lt by (auto simp: unat_of_nat32)
  moreover have "cstr ?m tmp (take (nat (count - 1)) s)"
    unfolding cstr_iff
  proof (intro conjI allI impI)
    fix i assume "i < length (take (nat (count - 1)) s)"
    then have i: "i < ?n" "i < length s" by simp_all
    then have "tmp + of_nat i \<noteq> tmp + of_nat ?n" using lt by (intro add_of_nat_neq) linarith+
    then show "?m (tmp + of_nat i) = take (nat (count - 1)) s ! i" using m1(3) i by simp
    show "take (nat (count - 1)) s ! i \<noteq> 0" using nth_nonzero [OF nz i(2)] i(1) by simp
  next
    show "?m (tmp + of_nat (length (take (nat (count - 1)) s))) = 0" by (simp add: min.commute)
  qed
  ultimately show ?thesis by blast
qed


subsection \<open>The whole call\<close>

text \<open>
  \<open>user_string k A c d T va s pa\<close>: under the tables \<open>c, d, T\<close>, live on the heap, the string \<open>s\<close> is read at
  the addresses from \<open>va\<close>; its \<open>i\<close>-th byte lies at \<open>pa i\<close>, in neither the heap's table, a free block nor
  a page table, and no address of it falls into a free block.
\<close>

definition user_string :: "'a task_state_scheme \<Rightarrow> (nat \<rightharpoonup> nat) \<Rightarrow> nat \<Rightarrow> nat \<Rightarrow> nat list \<Rightarrow> u32 \<Rightarrow> u8 list
    \<Rightarrow> (nat \<Rightarrow> u32) \<Rightarrow> bool" where
  "user_string k A c d T va s pa \<longleftrightarrow>
     chunk_wf (ram k) c d T \<and> dir_present (ram k) d \<and> (\<forall>b \<in> set (c # d # T). A b = Some 1) \<and> 0 \<notin> set s
     \<and> (\<forall>i \<le> length s. translate (paging_switch (blk_addr c) k) (va + of_nat i) = Some (pa i)
          \<and> ram k (pa i) = (s @ [0]) ! i \<and> stable A (va + of_nat i) \<and> stable A (pa i)
          \<and> (\<forall>b \<in> set T. 4096 \<le> unat (pa i - blk_addr b)))"

lemma page_far:
  assumes "w mod 4096 = (0 :: u32)" and "4096 \<le> unat (v - w)"
  shows "page_of v \<noteq> page_of w"
proof
  assume e: "page_of v = page_of w"
  have "unat w = 4096 * page_of w" by (rule aligned_page [OF assms(1)])
  then have "unat v = unat w + unat v mod 4096"
    using e mult_div_mod_eq [of 4096 "unat v"] by (simp add: page_of_def)
  then have "unat (v - w) = unat v mod 4096" by (simp add: unat_sub32)
  then show False using assms(2) by (metis mod_less_divisor not_le zero_less_numeral)
qed

lemma page_near:
  assumes "w mod 4096 = (0 :: u32)" and "x < 4096"
  shows "page_of (w + of_nat x) = page_of w" and "(w + of_nat x) mod 4096 = of_nat x"
proof -
  have w: "unat w = 4096 * page_of w" by (rule aligned_page [OF assms(1)])
  have "unat w + x < 4294967296" using w page_of_bound [of w] assms(2) by linarith
  then have u: "unat (w + of_nat x) = 4096 * page_of w + x"
    using w assms(2) by (simp add: unat_add32 unat_of_nat32)
  then show "page_of (w + of_nat x) = page_of w" using assms(2) by (simp add: page_of_def)
  have "unat ((w + of_nat x) mod 4096) = unat (of_nat x :: u32)"
    using u assms(2) by (simp only: unat_mod unat_numeral) (simp add: unat_of_nat32)
  then show "(w + of_nat x) mod 4096 = of_nat x" by (simp only: word32_eq_iff_unat)
qed


lemma dir_present_map:
  assumes "chunk_wf m c d T" and "dir_present m d"
  shows "dir_present (store32 m (entry_cell T (page_of v)) val) d"
proof -
  note W = dir_wfD [OF chunk_wfD(1) [OF assms(1)]]
  have "T ! (page_of v div 1024) \<noteq> d" using W(2,3) page_indices(1) [of v] nth_mem by metis
  then show ?thesis
    using assms(2) W(1) W(5) [OF page_indices(1)] page_indices(2)
    by (simp add: dir_present_def entry_cell_def load_cell_store_cell)
qed

text \<open>After the bounce page \<open>tmp\<close> is mapped to itself, nothing else is translated differently.\<close>

lemma bounce_translate:
  fixes k :: "'a task_state_scheme"
  assumes wf: "chunk_wf (ram k) c d T" and pres: "dir_present (ram k) d" and cr3: "cr3 k = blk_addr d"
    and tmp: "tmp mod 4096 = 0" and m: "ram k = store32 m0 (entry_cell T (page_of tmp)) (tmp OR 7)"
  shows "x < 4096 \<Longrightarrow> translate k (tmp + of_nat x) = Some (tmp + of_nat x)"
    and "4096 \<le> unat (va - tmp) \<Longrightarrow>
      translate k va = entry_to_phys (load32 m0 (entry_cell T (page_of va))) va"
proof -
  note tr = translate_eq [OF chunk_wfD(1) [OF wf] pres cr3]
  note ld = entry_cell_load_store [OF chunk_wfD(1) [OF wf], of m0 tmp "tmp OR 7"]
  show "translate k (tmp + of_nat x) = Some (tmp + of_nat x)" if "x < 4096"
  proof -
    have "(tmp OR 7) AND 0xfffff000 = tmp" by (rule frame_mask [OF tmp]) simp
    moreover have "bit (tmp OR 7) 0" by (simp add: bit_or_iff)
    ultimately show ?thesis
      by (simp only: tr page_near [OF tmp that] m ld) (simp add: entry_to_phys_def page_near [OF tmp that])
  qed
  show "translate k va = entry_to_phys (load32 m0 (entry_cell T (page_of va))) va" if "4096 \<le> unat (va - tmp)"
    using page_far [OF tmp that] by (simp only: tr m ld if_False)
qed

lemma stable_far: "stable A a \<Longrightarrow> b < 25600 \<Longrightarrow> \<not> covered A b \<Longrightarrow> 4096 \<le> unat (a - blk_addr b)"
  by (simp add: stable_def)

lemma bounce_copy:
  fixes k :: "'a task_state_scheme"
  assumes rep: "kheap_rep k A" and free: "0 < free_blocks 25600 A" and dir: "page_directory (tasks k t) = blk_addr c"
    and us: "user_string k A c d T va s pa" and n: "0 < count" "count < 4096"
  shows "\<exists>b k1 m m'. kzalloc (as_u32 count) k = (blk_addr b, k1) \<and> b < 25600 \<and> A b = None \<and> \<not> covered A b
    \<and> kheap_rep k1 (A(b \<mapsto> 1)) \<and> kmem.more k1 = kmem.more k
    \<and> (\<forall>a. 25600 \<le> unat (a - 0x7E00) \<longrightarrow> 4096 \<le> unat (a - blk_addr b) \<longrightarrow> ram k1 a = ram k a)
    \<and> (\<forall>a. 4096 \<le> unat (a - blk_addr b) \<longrightarrow> m a = ram k1 a) \<and> cstr m (blk_addr b) (take (nat (count - 1)) s)
    \<and> copy_string_from_task t va phys count k =
        Some (0, kfree (blk_addr b) (kernel_page (paging_switch (blk_addr c) (k1\<lparr>ram := m'\<rparr>))
                   \<lparr>ram := snd (strncpy m phys (blk_addr b) count)\<rparr>))"
proof -
  have U: "chunk_wf (ram k) c d T" "dir_present (ram k) d" "\<forall>b \<in> set (c # d # T). A b = Some 1" "0 \<notin> set s"
    and S: "\<forall>i \<le> length s. translate (paging_switch (blk_addr c) k) (va + of_nat i) = Some (pa i)
          \<and> ram k (pa i) = (s @ [0]) ! i \<and> stable A (va + of_nat i) \<and> stable A (pa i)
          \<and> (\<forall>b \<in> set T. 4096 \<le> unat (pa i - blk_addr b))"
    using us by (simp_all add: user_string_def)
  have cnt: "unat (as_u32 count) = nat count" using n by (simp add: unat_as_u32)
  obtain b k1 where k1: "kzalloc (as_u32 count) k = (blk_addr b, k1)" "b < 25600" "A b = None" "\<not> covered A b"
    "kheap_rep k1 (A(b \<mapsto> 1))" "kmem.more k1 = kmem.more k"
    and frame: "\<And>a. 25600 \<le> unat (a - 0x7E00) \<Longrightarrow> 4096 \<le> unat (a - blk_addr b) \<Longrightarrow> ram k1 a = ram k a"
  proof (rule page_alloc [OF rep, of "as_u32 count"])
    show "0 < unat (as_u32 count)" "unat (as_u32 count) \<le> 4096" "0 < free_blocks 25600 A"
      unfolding cnt using n free by simp_all
  qed blast
  note same = task_same_more [OF k1(6)]
  let ?tmp = "blk_addr b"
  have tmp: "?tmp mod 4096 = 0" by (rule blk_addr_aligned [OF k1(2)])
  have blks: "\<forall>x \<in> set (c # d # T). x < 25600" using chunk_blocks [OF U(1)] by blast
  have bnot: "b \<notin> set (c # d # T)" using U(3) k1(3) by force
  have sb1: "same_blocks (c # d # T) (ram k1) (ram k)"
    unfolding same_blocks_def
  proof (intro ballI allI impI)
    fix x and i :: nat assume x: "x \<in> set (c # d # T)" "i < 4096"
    then have "x < 25600" "x \<noteq> b" using blks bnot by auto
    then show "ram k1 (blk_addr x + of_nat i) = ram k (blk_addr x + of_nat i)"
      using x(2) k1(2) by (intro frame live_not_table other_block_byte) linarith+
  qed
  have wf1: "chunk_wf (ram k1) c d T" and pres1: "dir_present (ram k1) d"
    using chunk_same(1,2) [OF U(1) sb1] U(2) by simp_all
  let ?E = "entry_cell T (page_of ?tmp)"
  let ?old = "load32 (ram k1) ?E"
  let ?m2 = "store32 (ram k1) ?E (?tmp OR 7)"
  have wf2: "chunk_wf ?m2 c d T" by (rule chunk_wf_set [OF wf1])
  have pres2: "dir_present ?m2 d" by (rule dir_present_map [OF wf1 pres1])
  have map2: "paging_map (blk_addr c) ?tmp ?tmp 7 (ram k1) = (0, ?m2)"
    using paging_map_eq [OF wf1 tmp tmp, of 7] by (simp add: as_u32_def)
  let ?k2 = "paging_switch (blk_addr c) (k1\<lparr>ram := ?m2\<rparr>)"
  have cr3: "cr3 ?k2 = blk_addr d" "ram ?k2 = ?m2" using chunk_wfD(5) [OF wf2] by simp_all
  have at2: "chunk_wf (ram ?k2) c d T" "dir_present (ram ?k2) d" using wf2 pres2 cr3(2) by simp_all
  have trk: "translate (?k2\<lparr>ram := m\<rparr>) = translate ?k2" if "\<forall>a. 4096 \<le> unat (a - ?tmp) \<longrightarrow> m a = ram ?k2 a" for m
  proof
    fix w
    have sb: "same_blocks (c # d # T) m ?m2" using same_blocks_far [OF blks k1(2) bnot] that cr3(2) by auto
    show "translate (?k2\<lparr>ram := m\<rparr>) w = translate ?k2 w"
      using translate_eq [of "?k2\<lparr>ram := m\<rparr>" d T w] translate_eq [of ?k2 d T w] chunk_same(1-3) [OF wf2 sb]
        chunk_wfD(1) wf2 pres2 cr3 by simp
  qed
  have mem: "?m2 (pa i) = ram k (pa i)" if "i \<le> length s" for i
  proof -
    have st: "stable A (pa i)" "\<forall>b \<in> set T. 4096 \<le> unat (pa i - blk_addr b)" using S that by blast+
    have "T ! (page_of ?tmp div 1024) \<in> set T"
      using dir_wfD(2) [OF chunk_wfD(1) [OF U(1)]] page_indices(1) [of ?tmp] by simp
    then have "?m2 (pa i) = ram k1 (pa i)"
      unfolding entry_cell_def using st(2) by (intro store_cell_frame [OF _ page_indices(2)]) blast
    also have "\<dots> = ram k (pa i)"
      by (rule frame) (use st(1) stable_far [OF st(1) k1(2,4)] in \<open>simp_all add: stable_def\<close>)
    finally show ?thesis .
  qed
  have src: "\<forall>i \<le> length s. translate ?k2 (va + of_nat i) = Some (pa i) \<and> 4096 \<le> unat (pa i - ?tmp)
        \<and> ram ?k2 (pa i) = (s @ [0]) ! i"
  proof (intro allI impI conjI)
    fix i assume i: "i \<le> length s"
    have far: "4096 \<le> unat (va + of_nat i - ?tmp)" using S i stable_far k1(2,4) by blast
    have "translate ?k2 (va + of_nat i) = entry_to_phys (load32 (ram k1) (entry_cell T (page_of (va + of_nat i)))) (va + of_nat i)"
      by (rule bounce_translate(2) [OF at2 cr3(1) tmp cr3(2) far])
    also have "\<dots> = translate (paging_switch (blk_addr c) k) (va + of_nat i)"
      using translate_eq [of "paging_switch (blk_addr c) k" d T "va + of_nat i"] U(1,2) chunk_wfD(1,5)
        chunk_same(3) [OF U(1) sb1] by simp
    finally show "translate ?k2 (va + of_nat i) = Some (pa i)" using S i by simp
    show "4096 \<le> unat (pa i - ?tmp)" using S i stable_far k1(2,4) by blast
    show "ram ?k2 (pa i) = (s @ [0]) ! i" using mem [OF i] S i cr3(2) by simp
  qed
  have dst: "\<forall>i < 4096. translate ?k2 (?tmp + of_nat i) = Some (?tmp + of_nat i)"
    using bounce_translate(1) [OF at2 cr3(1) tmp cr3(2)] by blast
  obtain m3 where m3: "virt_strncpy ?tmp va count ?k2 = Some (?k2\<lparr>ram := m3\<rparr>)"
    "cstr m3 ?tmp (take (nat (count - 1)) s)" "\<forall>a. 4096 \<le> unat (a - ?tmp) \<longrightarrow> m3 a = ?m2 a"
    using virt_copy [OF trk src dst U(4), of count] n(2) cr3(2) by auto
  let ?m = "store32 m3 ?E ?old"
  have sb3: "same_blocks (c # d # T) m3 ?m2" by (rule same_blocks_far [OF blks k1(2) bnot m3(3)])
  have wf3: "dir_wf m3 d T" by (rule chunk_wfD(1) [OF chunk_same(1) [OF wf2 sb3]])
  have set3: "paging_set (blk_addr d) ?tmp ?old m3 = (0, ?m)" by (rule paging_set_eq [OF wf3 tmp])
  have get1: "paging_get (blk_addr d) ?tmp (ram k1) = ?old" by (rule paging_get_eq [OF chunk_wfD(1) [OF wf1] tmp])
  have "?m a = ram k1 a" if "4096 \<le> unat (a - ?tmp)" for a
  proof (cases "unat (a - ?E) < 4")
    case True
    then show ?thesis by (rule store32_load32)
  next
    case False
    then show ?thesis using m3(3) that by (simp add: store32_other)
  qed
  moreover have "cstr ?m ?tmp (take (nat (count - 1)) s)"
  proof (rule cstr_cong [OF m3(2)])
    fix i assume "i \<le> length (take (nat (count - 1)) s)"
    then have "i \<le> nat (count - 1)" by simp
    then have i: "i < 4096" using n(2) by arith
    have "T ! (page_of ?tmp div 1024) \<in> set T"
      using dir_wfD(2) [OF chunk_wfD(1) [OF U(1)]] page_indices(1) [of ?tmp] by simp
    then have "4096 \<le> unat (?tmp + of_nat i - blk_addr (T ! (page_of ?tmp div 1024)))"
      using bnot blks by (intro other_block_byte [OF _ k1(2) _ i]) auto
    then show "?m (?tmp + of_nat i) = m3 (?tmp + of_nat i)"
      unfolding entry_cell_def by (rule store_cell_frame [OF _ page_indices(2)])
  qed
  moreover have "copy_string_from_task t va phys count k =
        Some (0, kfree ?tmp (kernel_page (paging_switch (blk_addr c) (k1\<lparr>ram := m3\<rparr>))
                   \<lparr>ram := snd (strncpy ?m phys ?tmp count)\<rparr>))"
  proof -
    have nz: "?tmp \<noteq> 0" by (rule blk_addr_nonzero [OF k1(2)])
    have small: "\<not> 4096 \<le> count" using n by simp
    have dir1: "page_directory (tasks k1 t) = blk_addr c" by (simp only: same(1) dir)
    have de: "directory_entry (ram k1) (blk_addr c) = blk_addr d" by (rule chunk_wfD(5) [OF wf1])
    have kp: "kernel_page (?k2\<lparr>ram := m3\<rparr>) = kernel_page (paging_switch (blk_addr c) (k1\<lparr>ram := m3\<rparr>))"
      by (simp add: kernel_page_def kernel_registers_def paging_switch_def paging_load_directory_def Let_def
          chunk_wfD(5) [OF wf2] chunk_wfD(5) [OF chunk_same(1) [OF wf2 sb3]])
    have ram5: "ram (kernel_page (?k2\<lparr>ram := m3\<rparr>)) = m3"
      by (simp add: kernel_page_def kernel_registers_def Let_def)
    have flags: "uint (PAGING_IS_WRITEABLE OR PAGING_IS_PRESENT OR PAGING_ACCESS_FROM_ALL) = 7" by simp
    show ?thesis
      unfolding copy_string_from_task_def k1(1) prod.case Let_def dir1 de get1 flags map2
      using small nz m3(1) set3 ram5 kp
      by (simp add: case_prod_unfold)
  qed
  ultimately show ?thesis using k1 frame by blast
qed


lemma copy_string_from_task_run:
  fixes k :: "'a task_state_scheme"
  assumes rep: "kheap_rep k A" and free: "0 < free_blocks 25600 A" and dir: "page_directory (tasks k t) = blk_addr c"
    and us: "user_string k A c d T va s pa" and n: "0 < count" "count < 4096"
    and buf: "\<forall>i < nat count. stable A (phys + of_nat i)
      \<and> (\<forall>b \<in> set (c # d # T). 4096 \<le> unat (phys + of_nat i - blk_addr b))"
  shows "\<exists>k'. copy_string_from_task t va phys count k = Some (0, k')
    \<and> cstr (ram k') phys (take (nat (count - 1)) s) \<and> kheap_rep k' A \<and> chunk_wf (ram k') c d T
    \<and> (\<forall>v. v mod 4096 = 0 \<longrightarrow> paging_get (blk_addr d) v (ram k') = paging_get (blk_addr d) v (ram k))
    \<and> (\<forall>a. stable A a \<and> nat count \<le> unat (a - phys) \<longrightarrow> ram k' a = ram k a)"
proof -
  obtain b k1 m m' where B: "b < 25600" "A b = None" "\<not> covered A b" "kheap_rep k1 (A(b \<mapsto> 1))"
    and frame: "\<forall>a. 25600 \<le> unat (a - 0x7E00) \<longrightarrow> 4096 \<le> unat (a - blk_addr b) \<longrightarrow> ram k1 a = ram k a"
    and m: "\<forall>a. 4096 \<le> unat (a - blk_addr b) \<longrightarrow> m a = ram k1 a" "cstr m (blk_addr b) (take (nat (count - 1)) s)"
    and run: "copy_string_from_task t va phys count k =
        Some (0, kfree (blk_addr b) (kernel_page (paging_switch (blk_addr c) (k1\<lparr>ram := m'\<rparr>))
                   \<lparr>ram := snd (strncpy m phys (blk_addr b) count)\<rparr>))"
    using bounce_copy [OF rep free dir us n, of phys] by blast
  let ?tmp = "blk_addr b" and ?s = "take (nat (count - 1)) s"
  have len: "length ?s < nat count" "nat count \<le> 4096" using n by auto
  have U: "chunk_wf (ram k) c d T" "\<forall>x \<in> set (c # d # T). A x = Some 1" using us by (simp_all add: user_string_def)
  have far_buf: "4096 \<le> unat (phys + of_nat i - ?tmp)" if "i < nat count" for i
    using buf that stable_far B(1,3) by blast
  have off: "a = phys + of_nat (unat (a - phys))" "unat (a - phys) < nat count"
    if "\<not> nat count \<le> unat (a - phys)" for a using that by simp_all
  have "Suc (length ?s) \<le> unat (?tmp - phys)"
  proof (rule ccontr)
    assume "\<not> Suc (length ?s) \<le> unat (?tmp - phys)"
    then have "\<not> nat count \<le> unat (?tmp - phys)" using len by linarith
    then have "4096 \<le> unat (?tmp - ?tmp)" using off [of ?tmp] far_buf by metis
    then show False by simp
  qed
  moreover have "Suc (length ?s) \<le> unat (phys - ?tmp)" using far_buf [of 0] len n by simp
  ultimately have ap: "apart phys ?tmp (Suc (length ?s))" by (simp add: apart_def)
  obtain m6 where m6: "strncpy m phys ?tmp count = (phys, m6)" "cstr m6 phys (take (nat (count - 1)) ?s)"
    "\<forall>a. min (length ?s) (nat (count - 1)) < unat (a - phys) \<longrightarrow> m6 a = m a"
    using strncpy_cstr [OF m(2) ap, of count] n by (cases "strncpy m phys ?tmp count") auto
  have out: "m6 a = m a" if "nat count \<le> unat (a - phys)" for a
  proof -
    have "min (length ?s) (nat (count - 1)) < unat (a - phys)" using that len by linarith
    then show ?thesis using m6(3) by blast
  qed
  let ?k5 = "kernel_page (paging_switch (blk_addr c) (k1\<lparr>ram := m'\<rparr>))\<lparr>ram := m6\<rparr>"
  have "kheap_rep (k1\<lparr>ram := m6\<rparr>) (A(b \<mapsto> 1))"
  proof (rule kheap_rep_table_write [OF B(4)])
    fix a :: u32 assume a: "unat (a - 0x7E00) < 25600"
    have "unat a < 16777216" by (rule table_write_low [OF a])
    then have "4096 \<le> unat (a - ?tmp)" using B(1) by (simp add: unat_sub32 unat_blk_addr)
    moreover have "nat count \<le> unat (a - phys)"
    proof (rule ccontr)
      assume "\<not> nat count \<le> unat (a - phys)"
      then have "stable A a" using off [of a] buf by metis
      then show False using a by (simp add: stable_def)
    qed
    ultimately show "m6 a = ram k1 a" using out m(1) by simp
  qed
  then have rep5: "kheap_rep ?k5 (A(b \<mapsto> 1))"
    by (simp add: kheap_rep_def kernel_page_def kernel_registers_def Let_def)
  have rep6: "kheap_rep (kfree ?tmp ?k5) A"
    using kfree_rep [OF rep5, of b 1] B(2) by (simp add: fun_upd_idem)
  have keep: "ram (kfree ?tmp ?k5) a = m6 a" if "25600 \<le> unat (a - 0x7E00)" for a
    using kfree_frame [OF rep5 _ that, of b 1] by simp
  have rest: "ram (kfree ?tmp ?k5) a = ram k a"
    if "25600 \<le> unat (a - 0x7E00)" "4096 \<le> unat (a - ?tmp)" "nat count \<le> unat (a - phys)" for a
    using that keep out m(1) frame by simp
  have "cstr (ram (kfree ?tmp ?k5)) phys ?s"
  proof (rule cstr_cong)
    show "cstr m6 phys ?s" using m6(2) by simp
    fix i assume "i \<le> length ?s"
    then have "i < nat count" using len(1) by linarith
    then have "stable A (phys + of_nat i)" using buf by blast
    then show "ram (kfree ?tmp ?k5) (phys + of_nat i) = m6 (phys + of_nat i)"
      by (intro keep) (simp add: stable_def)
  qed
  moreover have "ram (kfree ?tmp ?k5) a = ram k a" if "stable A a" "nat count \<le> unat (a - phys)" for a
    using that stable_far [OF that(1) B(1,3)] by (intro rest) (simp_all add: stable_def)
  moreover have "same_blocks (c # d # T) (ram (kfree ?tmp ?k5)) (ram k)"
    unfolding same_blocks_def
  proof (intro ballI allI impI rest)
    fix x and i :: nat assume x: "x \<in> set (c # d # T)" "i < 4096"
    have lt: "x < 25600" by (rule chunk_blocks [OF U(1) x(1)])
    have "x \<noteq> b" using U(2) x(1) B(2) by force
    then show "4096 \<le> unat (blk_addr x + of_nat i - ?tmp)" by (rule other_block_byte [OF _ lt B(1) x(2)])
    show "25600 \<le> unat (blk_addr x + of_nat i - 0x7E00)" using lt x(2) by (intro live_not_table) linarith
    show "nat count \<le> unat (blk_addr x + of_nat i - phys)"
    proof (rule ccontr)
      assume "\<not> nat count \<le> unat (blk_addr x + of_nat i - phys)"
      then have "4096 \<le> unat (blk_addr x + of_nat i - blk_addr x)"
        using off [of "blk_addr x + of_nat i"] buf x(1) by metis
      then show False using x(2) by (simp add: unat_of_nat32)
    qed
  qed
  ultimately show ?thesis
    using run m6(1) rep6 chunk_same(1,4) [OF U(1)]
    by (intro exI [of _ "kfree ?tmp ?k5"]) simp
qed

text \<open>
  C10: \<open>copy_string_from_task\<close>.  For a string a task can address, and a kernel buffer outside the heap's
  table, its free blocks and the task's tables, the call returns 0 and leaves in the buffer the first
  \<open>count - 1\<close> bytes of the string, terminated; the bounce page is released, every entry of the task's
  tables is what it was, and no other byte of live memory changes.
\<close>
theorem copy_string_from_task_spec:
  fixes k :: "'a task_state_scheme"
  assumes "kheap_rep k A" and "0 < free_blocks 25600 A" and "page_directory (tasks k t) = blk_addr c"
    and "user_string k A c d T va s pa" and "0 < count" "count < 4096"
    and "\<forall>i < nat count. stable A (phys + of_nat i)
      \<and> (\<forall>b \<in> set (c # d # T). 4096 \<le> unat (phys + of_nat i - blk_addr b))"
  shows "\<exists>k'. copy_string_from_task t va phys count k = Some (0, k')
    \<and> cstr (ram k') phys (take (nat (count - 1)) s) \<and> kheap_rep k' A \<and> chunk_wf (ram k') c d T
    \<and> (\<forall>v. v mod 4096 = 0 \<longrightarrow> paging_get (blk_addr d) v (ram k') = paging_get (blk_addr d) v (ram k))
    \<and> (\<forall>a. stable A a \<and> nat count \<le> unat (a - phys) \<longrightarrow> ram k' a = ram k a)"
  by (rule copy_string_from_task_run [OF assms])


text \<open>
  A fresh address space: the first page is mapped to itself, low memory is as before.  A string there can
  be read by the task.
\<close>

lemma fresh_space:
  fixes k :: "'a task_state_scheme"
  assumes rep: "kheap_rep k Map.empty"
  obtains c d T k' where "chunk_wf (ram k') c d T" "dir_present (ram k') d" "kheap_rep k' (ones (c # d # T))"
    "0 < free_blocks 25600 (ones (c # d # T))" "kmem.more k' = kmem.more k"
    "\<forall>a. unat a < 0x7E00 \<longrightarrow> ram k' a = ram k a" "\<forall>a. stable Map.empty a \<longrightarrow> ram k' a = ram k a"
    "\<forall>v. unat v < 4096 \<longrightarrow> translate (paging_switch (blk_addr c) k') v = Some v"
proof -
  have free: "1026 \<le> free_blocks 25600 Map.empty" by (simp add: free_blocks_empty)
  obtain c d T and k' :: "'a task_state_scheme" where new: "chunk_wf (ram k') c d T"
    "kheap_rep k' (Map.empty ++ ones (c # d # T))"
    "free_blocks 25600 Map.empty = free_blocks 25600 (Map.empty ++ ones (c # d # T)) + 1026"
    "\<forall>v. v mod 4096 = 0 \<longrightarrow> paging_get (blk_addr d) v (ram k') = v OR ucast (5 :: u8)"
    "bit (5 :: u8) 0 \<longrightarrow> dir_present (ram k') d" "\<forall>a. stable Map.empty a \<longrightarrow> ram k' a = ram k a"
    "kmem.more k' = kmem.more k"
    using paging_new_4gb_built [OF rep free, of 5] by blast
  have "bit (5 :: u8) 0" by simp
  then have pres: "dir_present (ram k') d" using new(5) by blast
  have "translate (paging_switch (blk_addr c) k') v = Some v" if v: "unat v < 4096" for v
  proof -
    have pg: "page_of v = 0" "page_of 0 = 0" using v by (simp_all add: page_of_def)
    have "load32 (ram k') (entry_cell T 0) = 5"
      using new(4) paging_get_eq [OF chunk_wfD(1) [OF new(1)], of 0] pg(2) by simp
    moreover have "v mod 4096 = v"
      using v by (simp only: word32_eq_iff_unat unat_mod unat_numeral) simp
    ultimately show ?thesis
      using translate_eq [of "paging_switch (blk_addr c) k'" d T v] new(1) pres
        chunk_wfD(1,5) [OF new(1)] pg(1) by (simp add: entry_to_phys_def)
  qed
  moreover have "0 < free_blocks 25600 (ones (c # d # T))" using new(3) by (simp add: free_blocks_empty)
  moreover have "\<forall>a. unat a < 0x7E00 \<longrightarrow> ram k' a = ram k a" using new(6) stable_low by blast
  ultimately show thesis using that new(1,2,6,7) pres by (auto simp del: stable_def)
qed

lemma fresh_user_string:
  assumes "chunk_wf (ram k) c d T" and "dir_present (ram k) d" and "0 \<notin> set s"
    and "\<forall>v. unat v < 4096 \<longrightarrow> translate (paging_switch (blk_addr c) k) v = Some v"
    and va: "unat va + length s < 4096" and mem: "\<And>i. i \<le> length s \<Longrightarrow> ram k (va + of_nat i) = (s @ [0]) ! i"
  shows "user_string k (ones (c # d # T)) c d T va s (\<lambda>i. va + of_nat i)"
proof -
  have u: "unat (va + of_nat i) = unat va + i" if "i \<le> length s" for i
    using that va by (simp add: unat_add32 unat_of_nat32)
  have "4096 \<le> unat (va + of_nat i - blk_addr b)" if "b \<in> set T" "i \<le> length s" for b i
    using chunk_blocks [OF assms(1), of b] that u [OF that(2)] va by (simp add: unat_sub32 unat_blk_addr)
  moreover have "stable B (va + of_nat i)" if "i \<le> length s" for B i
    using u [OF that] va that by (intro stable_low) linarith
  moreover have "translate (paging_switch (blk_addr c) k) (va + of_nat i) = Some (va + of_nat i)" if "i \<le> length s" for i
    using assms(4) u [OF that] va that by simp
  ultimately show ?thesis
    unfolding user_string_def using assms(1-3) mem by (simp add: ones_def)
qed

text \<open>A heap with nothing allocated in a memory that is zero but for its first page.\<close>

lemma empty_heap:
  assumes "\<And>a. 4096 \<le> unat a \<Longrightarrow> m a = 0" and "kernel_heap k = the_heap"
  shows "kheap_rep (k\<lparr>ram := m\<rparr>) Map.empty"
proof -
  have "m (0x7E00 + of_nat i) = 0" if "i < 25600" for i
    using that by (intro assms(1)) (simp add: unat_add32 unat_of_nat32)
  then have "heap_rep kernel_table m Map.empty" by (intro heap_rep_empty) (simp_all add: entry_at_def)
  then show ?thesis using assms(2) by (simp add: kheap_rep_def)
qed

text \<open>A task with a fresh address space that holds the string \<open>A\<close> at address 16.\<close>

lemma some_user_string:
  "\<exists>(k :: task_state) A c d T. kheap_rep k A \<and> 0 < free_blocks 25600 A \<and> page_directory (tasks k 1) = blk_addr c
     \<and> user_string k A c d T 16 [0x41] (\<lambda>i. 16 + of_nat i)"
proof -
  let ?m = "(\<lambda>_. 0)(16 := 0x41) :: mem"
  have "kheap_rep (test_tasks\<lparr>ram := ?m\<rparr>) Map.empty"
    by (rule empty_heap) (auto simp: test_tasks_def elf_state.defs task_state.defs test_elf_def)
  then obtain c d T and k' :: task_state where new: "chunk_wf (ram k') c d T" "dir_present (ram k') d"
    "kheap_rep k' (ones (c # d # T))" "0 < free_blocks 25600 (ones (c # d # T))"
    "\<forall>a. unat a < 0x7E00 \<longrightarrow> ram k' a = ram (test_tasks\<lparr>ram := ?m\<rparr>) a"
    "\<forall>v. unat v < 4096 \<longrightarrow> translate (paging_switch (blk_addr c) k') v = Some v"
    by (rule fresh_space) blast
  let ?k' = "k'\<lparr>tasks := (\<lambda>_. zero_task\<lparr>page_directory := blk_addr c\<rparr>)\<rparr>"
  have mem: "ram ?k' (16 + of_nat i) = ([0x41] @ [0]) ! i" if "i \<le> length [0x41 :: u8]" for i
    using that new(5) by (cases i) (auto simp: unat_add32)
  have "translate (paging_switch (blk_addr c) ?k') v = translate (paging_switch (blk_addr c) k') v" for v
    by (simp add: translate_def)
  then have "user_string ?k' (ones (c # d # T)) c d T 16 [0x41] (\<lambda>i. 16 + of_nat i)"
    using new(1,2,6) by (intro fresh_user_string mem) simp_all
  moreover have "kheap_rep ?k' (ones (c # d # T))" using new(3) by simp
  moreover have "page_directory (tasks ?k' 1) = blk_addr c" by simp
  ultimately show ?thesis using new(4) by blast
qed

theorem copy_string_from_task_spec_witness:
  "\<exists>(k :: task_state) k'. copy_string_from_task 1 16 256 4 k = Some (0, k') \<and> cstr (ram k') 256 [0x41]"
proof -
  obtain k :: task_state and A c d T where k: "kheap_rep k A" "0 < free_blocks 25600 A"
    "page_directory (tasks k 1) = blk_addr c" "user_string k A c d T 16 [0x41] (\<lambda>i. 16 + of_nat i)"
    using some_user_string by blast
  have wf: "chunk_wf (ram k) c d T" using k(4) by (simp add: user_string_def)
  have blk: "b < 25600" if "b \<in> set (c # d # T)" for b by (rule chunk_blocks [OF wf that])
  have "\<forall>i < nat 4. stable A (256 + of_nat i) \<and> (\<forall>b \<in> set (c # d # T). 4096 \<le> unat (256 + of_nat i - blk_addr b))"
  proof (intro allI impI conjI ballI)
    fix i assume i: "i < nat 4"
    then have u: "unat (256 + of_nat i :: u32) = 256 + i" by (simp add: unat_add32 unat_of_nat32)
    then show "stable A (256 + of_nat i)" using i by (intro stable_low) simp
    fix b assume "b \<in> set (c # d # T)"
    then show "4096 \<le> unat (256 + of_nat i - blk_addr b)"
      using blk [of b] u i by (simp add: unat_sub32 unat_blk_addr)
  qed
  from copy_string_from_task_spec [OF k _ _ this] show ?thesis by auto
qed

end
