(* ===== verification/ProcessMemory.thy ===== *)
theory ProcessMemory
  imports Process UserCopy
begin

text \<open>
  What a process owns: the invariant of its allocation table against the heap and its page tables, and
  that \<open>process_malloc\<close> and \<open>process_free\<close> keep it.
\<close>

subsection \<open>The allocation table\<close>

text \<open>
  \<open>allocs_ok A bad al\<close>: \<open>al\<close> has its 1024 slots, a slot is empty or holds a live allocation of just the
  blocks its size takes, no address occurs twice, and no slot holds one of the blocks \<open>bad\<close>.
\<close>

abbreviation no_alloc :: process_allocation where
  "no_alloc \<equiv> \<lparr>alloc_ptr = 0, alloc_size = 0\<rparr>"

definition alloc_ok :: "(nat \<rightharpoonup> nat) \<Rightarrow> nat set \<Rightarrow> process_allocation \<Rightarrow> bool" where
  "alloc_ok A bad a \<longleftrightarrow> a = no_alloc \<or>
     (\<exists>b. b < 25600 \<and> b \<notin> bad \<and> alloc_ptr a = blk_addr b \<and> A b = Some (blocks_of (alloc_size a)))"

definition allocs_ok :: "(nat \<rightharpoonup> nat) \<Rightarrow> nat set \<Rightarrow> process_allocation list \<Rightarrow> bool" where
  "allocs_ok A bad al \<longleftrightarrow> length al = 1024 \<and> (\<forall>a \<in> set al. alloc_ok A bad a)
     \<and> (\<forall>i < 1024. \<forall>j < 1024. alloc_ptr (al ! i) \<noteq> 0 \<longrightarrow> alloc_ptr (al ! i) = alloc_ptr (al ! j) \<longrightarrow> i = j)"

definition clear_ptr :: "u32 \<Rightarrow> process_allocation list \<Rightarrow> process_allocation list" where
  "clear_ptr ptr al = map (\<lambda>a. if alloc_ptr a = ptr then no_alloc else a) al"

lemma alloc_ok_empty: "alloc_ok A bad a \<Longrightarrow> alloc_ptr a = 0 \<Longrightarrow> a = no_alloc"
  using blk_addr_nonzero by (fastforce simp: alloc_ok_def)

lemma allocs_okD:
  assumes "allocs_ok A bad al"
  shows "length al = 1024" "i < 1024 \<Longrightarrow> alloc_ok A bad (al ! i)"
    and "i < 1024 \<Longrightarrow> j < 1024 \<Longrightarrow> alloc_ptr (al ! i) \<noteq> 0 \<Longrightarrow> alloc_ptr (al ! i) = alloc_ptr (al ! j) \<Longrightarrow> i = j"
  using assms unfolding allocs_ok_def by (simp, simp, blast)

lemma allocs_okI:
  assumes "length al = 1024" and "\<And>i. i < 1024 \<Longrightarrow> alloc_ok A bad (al ! i)"
    and "\<And>i j. i < 1024 \<Longrightarrow> j < 1024 \<Longrightarrow> alloc_ptr (al ! i) \<noteq> 0 \<Longrightarrow> alloc_ptr (al ! i) = alloc_ptr (al ! j) \<Longrightarrow> i = j"
  shows "allocs_ok A bad al"
  unfolding allocs_ok_def using assms by (metis in_set_conv_nth)

lemma alloc_ok_live: "alloc_ok A bad a \<Longrightarrow> alloc_ptr a = blk_addr b \<Longrightarrow> b < 25600 \<Longrightarrow> A b \<noteq> None"
  using blk_addr_inj blk_addr_nonzero by (fastforce simp: alloc_ok_def)

lemma alloc_ok_new: "A b = None \<Longrightarrow> alloc_ok A bad a \<Longrightarrow> alloc_ok (A(b \<mapsto> n)) bad a"
  unfolding alloc_ok_def by (metis fun_upd_other option.distinct(1))

lemma allocs_ok_add:
  assumes ok: "allocs_ok A bad al" and i: "i < 1024" "alloc_ptr (al ! i) = 0"
    and b: "b < 25600" "A b = None" "b \<notin> bad"
  shows "allocs_ok (A(b \<mapsto> blocks_of sz)) bad (al[i := \<lparr>alloc_ptr = blk_addr b, alloc_size = sz\<rparr>])"
proof (rule allocs_okI)
  let ?x = "\<lparr>alloc_ptr = blk_addr b, alloc_size = sz\<rparr>"
  have other: "alloc_ptr (al ! j) \<noteq> blk_addr b" if "j < 1024" for j
    using alloc_ok_live [OF allocs_okD(2) [OF ok that] _ b(1)] b(2) by blast
  show "length (al[i := ?x]) = 1024" using allocs_okD(1) [OF ok] by simp
  show "alloc_ok (A(b \<mapsto> blocks_of sz)) bad (al[i := ?x] ! j)" if "j < 1024" for j
  proof (cases "j = i")
    case True
    then show ?thesis using b that allocs_okD(1) [OF ok] by (simp add: alloc_ok_def) blast
  next
    case False
    then show ?thesis using alloc_ok_new [OF b(2) allocs_okD(2) [OF ok that]] by simp
  qed
  show "j = l" if "j < 1024" "l < 1024" "alloc_ptr (al[i := ?x] ! j) \<noteq> 0"
    "alloc_ptr (al[i := ?x] ! j) = alloc_ptr (al[i := ?x] ! l)" for j l
  proof -
    have nth: "al[i := ?x] ! n = (if n = i then ?x else al ! n)" for n
      using i(1) allocs_okD(1) [OF ok] by (simp add: nth_list_update)
    show ?thesis
      using that other [OF that(1)] other [OF that(2)] allocs_okD(3) [OF ok that(1,2)] unfolding nth
      by (auto split: if_splits)
  qed
qed

lemma allocs_ok_clear:
  assumes ok: "allocs_ok A bad al" and b: "b < 25600"
  shows "allocs_ok (A(b := None)) bad (clear_ptr (blk_addr b) al)"
proof (rule allocs_okI)
  show "length (clear_ptr (blk_addr b) al) = 1024" using allocs_okD(1) [OF ok] by (simp add: clear_ptr_def)
  show "alloc_ok (A(b := None)) bad (clear_ptr (blk_addr b) al ! j)" if "j < 1024" for j
    using allocs_okD(2) [OF ok that] that allocs_okD(1) [OF ok] by (auto simp: clear_ptr_def alloc_ok_def)
  show "j = l" if "j < 1024" "l < 1024" "alloc_ptr (clear_ptr (blk_addr b) al ! j) \<noteq> 0"
    "alloc_ptr (clear_ptr (blk_addr b) al ! j) = alloc_ptr (clear_ptr (blk_addr b) al ! l)" for j l
    using that allocs_okD(1,3) [OF ok] by (auto simp: clear_ptr_def split: if_splits)
qed

lemma clear_added:
  assumes ok: "allocs_ok A bad al" and i: "i < 1024" "alloc_ptr (al ! i) = 0" and b: "b < 25600" "A b = None"
  shows "clear_ptr (blk_addr b) (al[i := \<lparr>alloc_ptr = blk_addr b, alloc_size = sz\<rparr>]) = al"
proof (rule nth_equalityI)
  show "length (clear_ptr (blk_addr b) (al[i := \<lparr>alloc_ptr = blk_addr b, alloc_size = sz\<rparr>])) = length al"
    by (simp add: clear_ptr_def)
  fix j assume "j < length (clear_ptr (blk_addr b) (al[i := \<lparr>alloc_ptr = blk_addr b, alloc_size = sz\<rparr>]))"
  then have j: "j < 1024" using allocs_okD(1) [OF ok] by (simp add: clear_ptr_def)
  have "alloc_ptr (al ! j) \<noteq> blk_addr b"
    using alloc_ok_live [OF allocs_okD(2) [OF ok j] _ b(1)] b(2) by blast
  moreover have "al ! i = no_alloc" by (rule alloc_ok_empty [OF allocs_okD(2) [OF ok i(1)] i(2)])
  ultimately show "clear_ptr (blk_addr b) (al[i := \<lparr>alloc_ptr = blk_addr b, alloc_size = sz\<rparr>]) ! j = al ! j"
    using j allocs_okD(1) [OF ok] by (cases "j = i") (auto simp: clear_ptr_def)
qed

lemma find_alloc:
  assumes "allocs_ok A bad al" and "i < 1024" and "alloc_ptr (al ! i) = ptr" and "ptr \<noteq> 0"
  shows "find (\<lambda>a. alloc_ptr a = ptr) al = Some (al ! i)"
proof -
  have "i < length al" using assms(2) allocs_okD(1) [OF assms(1)] by simp
  moreover have "alloc_ptr (al ! j) \<noteq> ptr" if "j < i" for j
    using allocs_okD(3) [OF assms(1), of i j] assms(2-4) that by auto
  ultimately show ?thesis using assms(3) by (auto simp: find_Some_iff)
qed

subsection \<open>The invariant\<close>

definition process_ok :: "'a task_state_scheme \<Rightarrow> (nat \<rightharpoonup> nat) \<Rightarrow> nat \<Rightarrow> nat \<Rightarrow> nat list \<Rightarrow> u32 \<Rightarrow> bool" where
  "process_ok k A c d T p \<longleftrightarrow> kheap_rep k A \<and> chunk_wf (ram k) c d T \<and> process_directory p k = blk_addr c
     \<and> (\<forall>x \<in> set (c # d # T). A x = Some 1) \<and> allocs_ok A (set (c # d # T)) (allocations (procs k p))"

lemma process_okD:
  assumes "process_ok k A c d T p"
  shows "kheap_rep k A" "chunk_wf (ram k) c d T" "process_directory p k = blk_addr c"
    "x \<in> set (c # d # T) \<Longrightarrow> A x = Some 1" "allocs_ok A (set (c # d # T)) (allocations (procs k p))"
  using assms unfolding process_ok_def by blast+

lemma region_end:
  assumes "b + blocks_of sz \<le> 25600"
  shows "paging_align_address (blk_addr b + sz) = blk_addr b + of_nat (4096 * blocks_of sz)"
    and "unat (blk_addr b) + 4096 * blocks_of sz < 4294967296"
proof -
  let ?n = "blocks_of sz"
  have sz: "unat sz \<le> 4096 * ?n" unfolding blocks_of_def by linarith
  have up: "(unat sz + 4095) div 4096 = ?n" by (simp add: blocks_of_def)
  show bound: "unat (blk_addr b) + 4096 * ?n < 4294967296"
  proof (cases "b < 25600")
    case True
    then show ?thesis using assms unat_blk_addr [OF True] by linarith
  next
    case False
    then have "b = 25600" "?n = 0" using assms by simp_all
    then show ?thesis using unat_bound32 [of "blk_addr b"] by simp
  qed
  have ub: "unat (blk_addr b) = 16777216 + b * 4096"
    using assms by (simp add: blk_addr_def unat_add32 unat_mult32 unat_of_nat32)
  have u: "unat (blk_addr b + sz) = 16777216 + b * 4096 + unat sz"
    using bound ub sz by (simp add: unat_add32)
  have le: "unat (blk_addr b + sz) \<le> 4294963200" using u assms sz by linarith
  have "(unat (blk_addr b + sz) + 4095) div 4096 = ((4096 + b) * 4096 + (unat sz + 4095)) div 4096"
    unfolding u by (simp add: algebra_simps)
  also have "\<dots> = 4096 + b + (unat sz + 4095) div 4096" by (subst div_mult_self3) simp_all
  also have "\<dots> = 4096 + b + ?n" unfolding up by simp
  finally have "unat (heap_align_value_to_upper (blk_addr b + sz)) = 4096 * (4096 + b + ?n)"
    using le by (simp only: unat_heap_align if_True)
  moreover have "unat (blk_addr b + of_nat (4096 * ?n)) = 4096 * (4096 + b + ?n)"
    using bound ub by (simp add: unat_add32 unat_of_nat32 unat_mult32)
  ultimately show "paging_align_address (blk_addr b + sz) = blk_addr b + of_nat (4096 * ?n)"
    unfolding paging_align_heap by (simp only: word32_eq_iff_unat)
qed


lemma set_proc_fields [simp]:
  "procs (set_proc p x k) = (procs k)(p := x)" "tasks (set_proc p x k) = tasks k" "ram (set_proc p x k) = ram k"
  "kernel_heap (set_proc p x k) = kernel_heap k" "kheap_rep (set_proc p x k) A = kheap_rep k A"
  by (simp_all add: set_proc_def)

text \<open>Bytes of the tables are far from the heap's table and from other blocks.\<close>

lemma table_byte_far:
  assumes "unat (a - 0x7E00 :: u32) < 25600" and "t < 25600"
  shows "4096 \<le> unat (a - blk_addr t)"
proof -
  have "unat a < 16777216" by (rule table_write_low [OF assms(1)])
  then show ?thesis using assms(2) by (simp add: unat_sub32 unat_blk_addr)
qed

lemma process_map_rep:
  assumes ok: "process_ok k A c d T p" and m: "\<And>a. \<forall>t \<in> set T. 4096 \<le> unat (a - blk_addr t) \<Longrightarrow> m a = ram k a"
  shows "kheap_rep (k\<lparr>ram := m\<rparr>) A"
proof (rule kheap_rep_table_write [OF process_okD(1) [OF ok] m])
  fix a :: u32 assume a: "unat (a - 0x7E00) < 25600"
  have "t < 25600" if "t \<in> set T" for t using chunk_blocks [OF process_okD(2) [OF ok]] that by simp
  then show "\<forall>t \<in> set T. 4096 \<le> unat (a - blk_addr t)" using table_byte_far [OF a] by blast
qed

lemma kfree_same_blocks:
  assumes "kheap_rep k A" and "A b = Some n" and "\<forall>x \<in> set bs. x < 25600"
  shows "same_blocks bs (ram (kfree (blk_addr b) k)) (ram k)"
  unfolding same_blocks_def
proof (intro ballI allI impI)
  fix x and i :: nat assume x: "x \<in> set bs" "i < 4096"
  have "x < 25600" using assms(3) x(1) by blast
  then show "ram (kfree (blk_addr b) k) (blk_addr x + of_nat i) = ram k (blk_addr x + of_nat i)"
    using x(2) by (intro kfree_frame [OF assms(1,2)] live_not_table) linarith
qed

lemma process_free_block:
  fixes k :: "'a task_state_scheme"
  assumes ok: "process_ok k A c d T p" and i: "i < 1024" "alloc_ptr (allocations (procs k p) ! i) = blk_addr b"
    and b: "b < 25600"
  shows "\<exists>k'. process_free p (blk_addr b) k = k' \<and> process_ok k' (A(b := None)) c d T p
    \<and> allocations (procs k' p) = clear_ptr (blk_addr b) (allocations (procs k p))
    \<and> (\<forall>w. w mod 4096 = 0 \<longrightarrow> paging_get (blk_addr d) w (ram k') =
        (if unat (w - blk_addr b) < 4096 * the (A b) then w else paging_get (blk_addr d) w (ram k)))
    \<and> (\<forall>a. unat a < 0x7E00 \<longrightarrow> ram k' a = ram k a)"
proof -
  let ?al = "allocations (procs k p)" and ?ptr = "blk_addr b"
  note okD = process_okD [OF ok]
  have nz: "?ptr \<noteq> 0" by (rule blk_addr_nonzero [OF b])
  obtain n where a: "?al ! i = \<lparr>alloc_ptr = ?ptr, alloc_size = alloc_size (?al ! i)\<rparr>"
    "n = blocks_of (alloc_size (?al ! i))" "A b = Some n" "b \<notin> set (c # d # T)"
    using allocs_okD(2) [OF okD(5) i(1)] i(2) nz b blk_addr_inj unfolding alloc_ok_def by fastforce
  have n: "0 < n" "b + n \<le> 25600" using kheap_rep_pos [OF okD(1) a(3)] by simp_all
  have blks: "\<forall>x \<in> set (c # d # T). x < 25600" using chunk_blocks [OF okD(2)] by blast
  have find: "process_get_allocation_by_addr p ?ptr k = Some (?al ! i)"
    unfolding process_get_allocation_by_addr_def by (rule find_alloc [OF okD(5) i nz])
  have end_: "paging_align_address (?ptr + alloc_size (?al ! i)) = ?ptr + of_nat (4096 * n)"
    "unat ?ptr + 4096 * n < 4294967296"
    using region_end [of b "alloc_size (?al ! i)"] n(2) a(2) by simp_all
  have al: "?ptr mod 4096 = 0" by (rule blk_addr_aligned [OF b])
  obtain m where m: "paging_map_to (blk_addr c) ?ptr ?ptr (?ptr + of_nat (4096 * n)) 0 (ram k) = (0, m)"
    "chunk_wf m c d T"
    "\<And>w. w mod 4096 = 0 \<Longrightarrow> paging_get (blk_addr d) w m =
       (if unat (w - ?ptr) < 4096 * n then (?ptr + (w - ?ptr)) OR as_u32 0 else paging_get (blk_addr d) w (ram k))"
    "\<And>a. \<forall>t \<in> set T. 4096 \<le> unat (a - blk_addr t) \<Longrightarrow> m a = ram k a"
    by (rule map_pages [OF okD(2) al al end_(2), of 0]) blast
  let ?k1 = "process_allocation_unjoin p ?ptr (k\<lparr>ram := m\<rparr>)"
  have run: "process_free p ?ptr k = kfree ?ptr ?k1"
    using m(1) i(2) end_(1) okD(3) by (simp add: process_free_def find Let_def process_directory_def)
  have rep1: "kheap_rep ?k1 A" using process_map_rep [OF ok m(4)] by (simp add: process_allocation_unjoin_def)
  let ?k2 = "kfree ?ptr ?k1"
  note more = task_same_more [OF kfree_more [of ?ptr ?k1]]
  have rep2: "kheap_rep ?k2 (A(b := None))" by (rule kfree_rep [OF rep1 a(3)])
  have al2: "allocations (procs ?k2 p) = clear_ptr ?ptr ?al"
    unfolding more by (simp add: process_allocation_unjoin_def clear_ptr_def)
  have ram1: "ram ?k1 = m" by (simp add: process_allocation_unjoin_def)
  have sb: "same_blocks (c # d # T) (ram ?k2) m"
    using kfree_same_blocks [OF rep1 a(3) blks] by (simp only: ram1)
  have dir: "process_directory p ?k2 = blk_addr c"
    using okD(3) unfolding process_directory_def more by (simp add: process_allocation_unjoin_def)
  have "process_ok ?k2 (A(b := None)) c d T p"
    unfolding process_ok_def al2
    using rep2 chunk_same(1) [OF m(2) sb] dir okD(4) a(4) allocs_ok_clear [OF okD(5) b] by auto
  moreover have "paging_get (blk_addr d) w (ram ?k2) =
      (if unat (w - ?ptr) < 4096 * the (A b) then w else paging_get (blk_addr d) w (ram k))" if "w mod 4096 = 0" for w
    using chunk_same(4) [OF m(2) sb that] m(3) [OF that] a(3) by (simp add: as_u32_def)
  moreover have "ram ?k2 a' = ram k a'" if low: "unat a' < 0x7E00" for a'
  proof -
    have "\<forall>t \<in> set T. 4096 \<le> unat (a' - blk_addr t)"
    proof
      fix t assume "t \<in> set T"
      then have "t < 25600" using blks by simp
      then show "4096 \<le> unat (a' - blk_addr t)" using low by (simp add: unat_sub32 unat_blk_addr)
    qed
    moreover have "25600 \<le> unat (a' - 0x7E00)" using low by (simp add: unat_sub32)
    ultimately show ?thesis using m(4) kfree_frame [OF rep1 a(3)] ram1 by simp
  qed
  ultimately show ?thesis using run al2 by blast
qed


text \<open>An allocation of any size, as a client with live tables sees it.\<close>

lemma region_alloc:
  assumes rep: "kheap_rep k A" and sz: "0 < unat sz" and fit: "first_fit 25600 A (blocks_of sz) b"
    and live: "\<forall>x \<in> set bs. A x = Some 1"
  obtains k1 where "kzalloc sz k = (blk_addr b, k1)" "b < 25600" "b + blocks_of sz \<le> 25600" "A b = None"
    "kheap_rep k1 (A(b \<mapsto> blocks_of sz))" "kmem.more k1 = kmem.more k" "same_blocks bs (ram k1) (ram k)"
    "\<And>x. x < unat sz \<Longrightarrow> ram k1 (blk_addr b + of_nat x) = 0"
proof -
  let ?n = "blocks_of sz" and ?k1 = "snd (kzalloc sz k)"
  have pos: "0 < ?n" by (rule blocks_of_pos [OF sz])
  have none: "A b = None" by (rule kz.fit_unused [OF rep pos fit])
  have room: "room 25600 A ?n b" and n: "b + ?n \<le> 25600" using fit by (simp_all add: first_fit_def room_def)
  have szn: "unat sz \<le> ?n * 4096" unfolding blocks_of_def by linarith
  have "kzalloc sz k = (blk_addr b, ?k1)" using kzalloc_fit [OF rep pos fit] by simp
  moreover have "same_blocks bs (ram ?k1) (ram k)"
    unfolding same_blocks_def
  proof (intro ballI allI impI)
    fix x and i :: nat assume x: "x \<in> set bs" "i < 4096"
    let ?a = "blk_addr x + of_nat i :: u32"
    have Ax: "A x = Some 1" using live x(1) by blast
    have "x < 25600" using kheap_rep_pos [OF rep Ax] by simp
    then have tab: "25600 \<le> unat (?a - 0x7E00)" using x(2) by (intro live_not_table) linarith
    have "\<not> unat (?a - blk_addr b) < unat sz"
    proof
      assume lt: "unat (?a - blk_addr b) < unat sz"
      have "?a \<noteq> blk_addr b + of_nat (unat (?a - blk_addr b))"
        by (rule live_apart [OF none room rep Ax]) (use x(2) lt szn in linarith)+
      then show False using offset_of_unat [of ?a "blk_addr b"] by simp
    qed
    then show "ram ?k1 ?a = ram k ?a" using kzalloc_at [OF rep pos fit tab] by simp
  qed
  moreover have "ram ?k1 (blk_addr b + of_nat x) = 0" if "x < unat sz" for x
  proof -
    have "b * 4096 + x < 104857600" using that szn n by linarith
    then have tab: "25600 \<le> unat (blk_addr b + of_nat x - 0x7E00 :: u32)" by (rule live_not_table)
    have "x < 4294967296" using that unat_bound32 [of sz] by linarith
    then have "unat (blk_addr b + of_nat x - blk_addr b :: u32) = x" by (rule unat_offset)
    then show ?thesis using kzalloc_at [OF rep pos fit tab] that by simp
  qed
  ultimately show thesis
    using that n pos none kzalloc_rep [OF rep pos fit] kzalloc_more by auto
qed

lemma lowest_slot: "lowest_free (map f al) i \<Longrightarrow> i < length al \<and> f (al ! i) = 0"
  by (auto simp: lowest_free_def)

lemma process_malloc_run:
  fixes k :: "'a task_state_scheme"
  assumes ok: "process_ok k A c d T p" and sz: "0 < unat sz" and fit: "first_fit 25600 A (blocks_of sz) b"
  shows "\<exists>k'. if 0 \<notin> set (map alloc_ptr (allocations (procs k p)))
    then process_malloc p sz k = (0, k') \<and> process_ok k' A c d T p
      \<and> allocations (procs k' p) = allocations (procs k p)
    else process_malloc p sz k = (blk_addr b, k') \<and> process_ok k' (A(b \<mapsto> blocks_of sz)) c d T p
      \<and> (\<exists>i. lowest_free (map alloc_ptr (allocations (procs k p))) i \<and> allocations (procs k' p) =
            (allocations (procs k p))[i := \<lparr>alloc_ptr = blk_addr b, alloc_size = sz\<rparr>])
      \<and> (\<forall>w. w mod 4096 = 0 \<longrightarrow> paging_get (blk_addr d) w (ram k') =
          (if unat (w - blk_addr b) < 4096 * blocks_of sz then w OR 7 else paging_get (blk_addr d) w (ram k)))
      \<and> (\<forall>x < unat sz. ram k' (blk_addr b + of_nat x) = 0)"
proof -
  let ?al = "allocations (procs k p)" and ?n = "blocks_of sz" and ?ptr = "blk_addr b"
  note okD = process_okD [OF ok]
  have blks: "\<forall>x \<in> set (c # d # T). x < 25600" using chunk_blocks [OF okD(2)] by blast
  obtain k1 where k1: "kzalloc sz k = (?ptr, k1)" "b < 25600" "b + ?n \<le> 25600" "A b = None"
    "kheap_rep k1 (A(b \<mapsto> ?n))" "kmem.more k1 = kmem.more k" "same_blocks (c # d # T) (ram k1) (ram k)"
    "\<And>x. x < unat sz \<Longrightarrow> ram k1 (?ptr + of_nat x) = 0"
    by (rule region_alloc [OF okD(1) sz fit]) (use okD(4) in blast)+
  have fresh: "b \<notin> set (c # d # T)" using okD(4) k1(4) by (metis option.distinct(1))
  note more = task_same_more [OF k1(6)]
  have nz: "?ptr \<noteq> 0" by (rule blk_addr_nonzero [OF k1(2)])
  have wf1: "chunk_wf (ram k1) c d T" by (rule chunk_same(1) [OF okD(2) k1(7)])
  have dir1: "process_directory p k1 = blk_addr c" using okD(3) by (simp add: process_directory_def more)
  show ?thesis
  proof (cases "find_slot (map alloc_ptr ?al)")
    case None
    let ?k' = "kfree ?ptr k1"
    note more' = task_same_more [OF kfree_more [of ?ptr k1]]
    have full: "0 \<notin> set (map alloc_ptr ?al)" using None by (simp add: find_slot_None)
    have idx: "process_find_free_allocation_index p k1 = - 3"
      using None by (simp add: process_find_free_allocation_index_def more)
    have run: "process_malloc p sz k = (0, ?k')"
      using nz idx by (simp add: process_malloc_def k1(1) Let_def)
    have rep: "kheap_rep ?k' A"
      using kfree_rep [OF k1(5), of b ?n] k1(4) by (simp add: fun_upd_idem)
    have "same_blocks (c # d # T) (ram ?k') (ram k1)"
      by (rule kfree_same_blocks [OF k1(5) _ blks, of b ?n]) simp
    then have "chunk_wf (ram ?k') c d T" by (rule chunk_same(1) [OF wf1])
    then have "process_ok ?k' A c d T p"
      using okD(4,5) dir1 rep unfolding process_ok_def process_directory_def more' more by auto
    moreover have "allocations (procs ?k' p) = ?al" unfolding more' more ..
    ultimately show ?thesis unfolding if_P [OF full] using run by blast
  next
    case (Some i)
    then have low: "lowest_free (map alloc_ptr ?al) i" by (simp add: find_slot_Some)
    have i: "i < 1024" "alloc_ptr (?al ! i) = 0" using lowest_slot [OF low] allocs_okD(1) [OF okD(5)] by simp_all
    have some: "\<not> 0 \<notin> set (map alloc_ptr ?al)" using Some find_slot_None by (metis option.distinct(1))
    have idx: "process_find_free_allocation_index p k1 = int i"
      using Some by (simp add: process_find_free_allocation_index_def more)
    have al: "?ptr mod 4096 = 0" by (rule blk_addr_aligned [OF k1(2)])
    obtain m where m: "paging_map_to (blk_addr c) ?ptr ?ptr (?ptr + of_nat (4096 * ?n)) 7 (ram k1) = (0, m)"
      "chunk_wf m c d T"
      "\<And>w. w mod 4096 = 0 \<Longrightarrow> paging_get (blk_addr d) w m =
        (if unat (w - ?ptr) < 4096 * ?n then (?ptr + (w - ?ptr)) OR as_u32 7 else paging_get (blk_addr d) w (ram k1))"
      "\<And>a. \<forall>t \<in> set T. 4096 \<le> unat (a - blk_addr t) \<Longrightarrow> m a = ram k1 a"
      by (rule map_pages [OF wf1 al al region_end(2) [OF k1(3)], of 7]) blast
    let ?k' = "set_proc p ((procs k p)\<lparr>allocations := ?al[i := \<lparr>alloc_ptr = ?ptr, alloc_size = sz\<rparr>]\<rparr>) (k1\<lparr>ram := m\<rparr>)"
    have flags: "uint (PAGING_IS_WRITEABLE OR PAGING_ACCESS_FROM_ALL OR PAGING_IS_PRESENT) = 7" by simp
    have run: "process_malloc p sz k = (?ptr, ?k')"
      unfolding process_malloc_def k1(1) prod.case Let_def idx dir1 region_end(1) [OF k1(3)] flags m(1)
      using nz by (simp add: more)
    have "kheap_rep (k1\<lparr>ram := m\<rparr>) (A(b \<mapsto> ?n))"
    proof (rule kheap_rep_table_write [OF k1(5) m(4)])
      fix a :: u32 assume a: "unat (a - 0x7E00) < 25600"
      show "\<forall>t \<in> set T. 4096 \<le> unat (a - blk_addr t)" using table_byte_far [OF a] blks by simp
    qed
    moreover have "process_directory p ?k' = blk_addr c" using dir1 by (simp add: process_directory_def more)
    moreover have "allocs_ok (A(b \<mapsto> ?n)) (set (c # d # T)) (?al[i := \<lparr>alloc_ptr = ?ptr, alloc_size = sz\<rparr>])"
      by (rule allocs_ok_add [OF okD(5) i k1(2,4) fresh])
    moreover have "\<forall>x \<in> set (c # d # T). (A(b \<mapsto> ?n)) x = Some 1" using okD(4) fresh by (metis fun_upd_other)
    ultimately have "process_ok ?k' (A(b \<mapsto> ?n)) c d T p" using m(2) unfolding process_ok_def by simp
    moreover have "paging_get (blk_addr d) w (ram ?k') =
        (if unat (w - ?ptr) < 4096 * ?n then w OR 7 else paging_get (blk_addr d) w (ram k))" if "w mod 4096 = 0" for w
      using m(3) [OF that] chunk_same(4) [OF okD(2) k1(7) that] by (simp add: as_u32_def)
    moreover have "ram ?k' (?ptr + of_nat x) = 0" if x: "x < unat sz" for x
    proof -
      have xn: "x < ?n * 4096" using x unfolding blocks_of_def by linarith
      have "4096 \<le> unat (?ptr + of_nat x - blk_addr t)" if t: "t \<in> set T" for t
      proof (rule live_other_page [OF k1(5) _ _ _ xn])
        show "(A(b \<mapsto> ?n)) b = Some ?n" by simp
        show "b \<noteq> t" "(A(b \<mapsto> ?n)) t = Some 1" using t fresh okD(4) by (auto simp: fun_upd_def)
      qed
      then show ?thesis using m(4) k1(8) [OF x] by simp
    qed
    ultimately show ?thesis using some run low by (simp only: if_False) (intro exI [of _ ?k'], auto)
  qed
qed


subsection \<open>Properties\<close>

text \<open>
  \<open>process_malloc\<close>.  When the heap has a first fit for the request, a process with an empty slot in
  its table gets that region: zeroed, recorded in the lowest empty slot, mapped to itself, present and
  writable for the user, with every other page of its address space as before.  A process whose table is
  full gets the null pointer, and nothing it or the heap holds changes.
\<close>
theorem process_malloc_spec:
  fixes k :: "'a task_state_scheme"
  assumes "process_ok k A c d T p" and "0 < unat sz" and "first_fit 25600 A (blocks_of sz) b"
  shows "\<exists>k'. if 0 \<notin> set (map alloc_ptr (allocations (procs k p)))
    then process_malloc p sz k = (0, k') \<and> process_ok k' A c d T p
      \<and> allocations (procs k' p) = allocations (procs k p)
    else process_malloc p sz k = (blk_addr b, k') \<and> process_ok k' (A(b \<mapsto> blocks_of sz)) c d T p
      \<and> (\<exists>i. lowest_free (map alloc_ptr (allocations (procs k p))) i \<and> allocations (procs k' p) =
            (allocations (procs k p))[i := \<lparr>alloc_ptr = blk_addr b, alloc_size = sz\<rparr>])
      \<and> (\<forall>w. w mod 4096 = 0 \<longrightarrow> paging_get (blk_addr d) w (ram k') =
          (if unat (w - blk_addr b) < 4096 * blocks_of sz then w OR 7 else paging_get (blk_addr d) w (ram k)))
      \<and> (\<forall>x < unat sz. ram k' (blk_addr b + of_nat x) = 0)"
  by (rule process_malloc_run [OF assms])

text \<open>
  C7: \<open>process_free\<close> undoes \<open>process_malloc\<close>.  The region returned is released again, its slot is empty,
  and the process's table is what it was; in the address space the pages of the region have lost all
  their flags (they are not present any more), and no other page changes.
\<close>
theorem process_malloc_free_roundtrip:
  fixes k :: "'a task_state_scheme"
  assumes ok: "process_ok k A c d T p" and sz: "0 < unat sz" and fit: "first_fit 25600 A (blocks_of sz) b"
    and slot: "0 \<in> set (map alloc_ptr (allocations (procs k p)))"
  shows "\<exists>k' k''. process_malloc p sz k = (blk_addr b, k') \<and> process_free p (blk_addr b) k' = k''
    \<and> process_ok k'' A c d T p \<and> allocations (procs k'' p) = allocations (procs k p)
    \<and> (\<forall>w. w mod 4096 = 0 \<longrightarrow> paging_get (blk_addr d) w (ram k'') =
        (if unat (w - blk_addr b) < 4096 * blocks_of sz then w else paging_get (blk_addr d) w (ram k)))"
proof -
  let ?al = "allocations (procs k p)" and ?n = "blocks_of sz"
  have some: "\<not> 0 \<notin> set (map alloc_ptr ?al)" using slot by simp
  obtain k' i where k': "process_malloc p sz k = (blk_addr b, k')" "process_ok k' (A(b \<mapsto> ?n)) c d T p"
    "lowest_free (map alloc_ptr ?al) i"
    "allocations (procs k' p) = ?al[i := \<lparr>alloc_ptr = blk_addr b, alloc_size = sz\<rparr>]"
    "\<forall>w. w mod 4096 = 0 \<longrightarrow> paging_get (blk_addr d) w (ram k') =
      (if unat (w - blk_addr b) < 4096 * ?n then w OR 7 else paging_get (blk_addr d) w (ram k))"
    using process_malloc_run [OF ok sz fit] unfolding if_not_P [OF some] by blast
  note al = process_okD(5) [OF ok]
  have i: "i < 1024" "alloc_ptr (?al ! i) = 0" using lowest_slot [OF k'(3)] allocs_okD(1) [OF al] by simp_all
  have none: "A b = None" by (rule kz.fit_unused [OF process_okD(1) [OF ok] blocks_of_pos [OF sz] fit])
  have b: "b < 25600" using fit blocks_of_pos [OF sz] by (simp add: first_fit_def room_def)
  have at: "alloc_ptr (allocations (procs k' p) ! i) = blk_addr b" using k'(4) i allocs_okD(1) [OF al] by simp
  obtain k'' where k'': "process_free p (blk_addr b) k' = k''" "process_ok k'' ((A(b \<mapsto> ?n))(b := None)) c d T p"
    "allocations (procs k'' p) = clear_ptr (blk_addr b) (allocations (procs k' p))"
    "\<forall>w. w mod 4096 = 0 \<longrightarrow> paging_get (blk_addr d) w (ram k'') =
      (if unat (w - blk_addr b) < 4096 * the ((A(b \<mapsto> ?n)) b) then w else paging_get (blk_addr d) w (ram k'))"
    using process_free_block [OF k'(2) i(1) at b] by blast
  have "process_ok k'' A c d T p" using k''(2) none by (simp add: fun_upd_idem)
  moreover have "allocations (procs k'' p) = ?al" using k''(3) k'(4) clear_added [OF al i b none] by simp
  moreover have "paging_get (blk_addr d) w (ram k'') =
      (if unat (w - blk_addr b) < 4096 * ?n then w else paging_get (blk_addr d) w (ram k))" if "w mod 4096 = 0" for w
    using k''(4) k'(5) that by simp
  ultimately show ?thesis using k'(1) k''(1) by blast
qed

lemma process_free_empty:
  fixes k :: "'a task_state_scheme"
  assumes ok: "process_ok k A c d T p" and slot: "0 \<in> set (map alloc_ptr (allocations (procs k p)))"
    and entry: "ram k 0x6E00 AND HEAP_BLOCK_HAS_NEXT = 0"
  shows "process_free p 0 k = k\<lparr>ram := (ram k)(0x6E00 := 0)\<rparr>"
proof -
  let ?al = "allocations (procs k p)"
  note al = process_okD(5) [OF ok]
  have empty: "a = no_alloc" if "a \<in> set ?al" "alloc_ptr a = 0" for a
    using that al alloc_ok_empty unfolding allocs_ok_def by blast
  have "find (\<lambda>a. alloc_ptr a = 0) ?al \<noteq> None" using slot by (auto simp: find_None_iff)
  then obtain a where a: "find (\<lambda>a. alloc_ptr a = 0) ?al = Some a" by blast
  then obtain i where "i < length ?al" "alloc_ptr (?al ! i) = 0" "a = ?al ! i"
    unfolding find_Some_iff by blast
  then have "a = no_alloc" using empty nth_mem by blast
  then have find: "process_get_allocation_by_addr p 0 k = Some no_alloc"
    using a by (simp add: process_get_allocation_by_addr_def)
  have "clear_ptr 0 ?al = ?al" unfolding clear_ptr_def using empty by (intro map_idI) auto
  then have unjoin: "process_allocation_unjoin p 0 k = k"
    by (simp add: process_allocation_unjoin_def set_proc_def clear_ptr_def)
  have "map_range_loop dir 0 0 0 0 0 0 (ram k) = (0, ram k)" for dir
    by (subst map_range_loop.simps) simp
  then have "paging_map_to dir 0 0 (paging_align_address (0 + 0)) 0 (ram k) = (0, ram k)" for dir
    by (simp add: paging_map_to_def paging_align_address_def paging_map_range_def as_int_def)
  then have "process_free p 0 k = kfree 0 k" by (simp add: process_free_def find unjoin)
  then show ?thesis using kfree_0 [OF process_okD(1) [OF ok] entry] by simp
qed

text \<open>
  \<open>process_free\<close> of a null pointer.  A process with an empty slot counts null as one of its
  allocations: the call goes through to \<open>kfree(NULL)\<close>, which clears the byte at \<open>0x6E00\<close>, outside the
  heap's table; nothing else changes.  (Termination runs this for every empty slot.)
\<close>
theorem process_free_null:
  fixes k :: "'a task_state_scheme"
  assumes "process_ok k A c d T p" and "0 \<in> set (map alloc_ptr (allocations (procs k p)))"
    and "ram k 0x6E00 AND HEAP_BLOCK_HAS_NEXT = 0"
  shows "process_free p 0 k = k\<lparr>ram := (ram k)(0x6E00 := 0)\<rparr>"
  by (rule process_free_empty [OF assms])

text \<open>
  The loop of \<open>process_terminate_allocations\<close>, after the first \<open>i\<close> slots: \<open>released al i A\<close> is what is left of
  the heap's allocations, \<open>in_freed al i w\<close> says that the page \<open>w\<close> lay in a region freed.
\<close>

definition released :: "process_allocation list \<Rightarrow> nat \<Rightarrow> (nat \<rightharpoonup> nat) \<Rightarrow> nat \<rightharpoonup> nat" where
  "released al i A = A |` {b. \<forall>j < i. alloc_ptr (al ! j) \<noteq> blk_addr b}"

definition in_freed :: "process_allocation list \<Rightarrow> nat \<Rightarrow> u32 \<Rightarrow> bool" where
  "in_freed al i w \<longleftrightarrow> (\<exists>j < i. alloc_ptr (al ! j) \<noteq> 0
     \<and> unat (w - alloc_ptr (al ! j)) < 4096 * blocks_of (alloc_size (al ! j)))"

definition emptied :: "process_allocation list \<Rightarrow> nat \<Rightarrow> process_allocation list" where
  "emptied al i = replicate i no_alloc @ drop i al"

lemma nth_emptied: "i \<le> length al \<Longrightarrow> j < length al \<Longrightarrow> emptied al i ! j = (if j < i then no_alloc else al ! j)"
  by (simp add: emptied_def nth_append)

lemma emptied_step:
  assumes "allocs_ok A bad al" and "i < 1024"
  shows "alloc_ptr (al ! i) = 0 \<Longrightarrow> emptied al (Suc i) = emptied al i"
    and "alloc_ptr (al ! i) \<noteq> 0 \<Longrightarrow> emptied al (Suc i) = clear_ptr (alloc_ptr (al ! i)) (emptied al i)"
proof -
  note al = allocs_okD [OF assms(1)]
  have len: "length (emptied al l) = 1024" if "l \<le> 1024" for l using that al(1) by (simp add: emptied_def)
  have nth: "emptied al l ! j = (if j < l then no_alloc else al ! j)" if "l \<le> 1024" "j < 1024" for l j
    using nth_emptied that al(1) by simp
  show "emptied al (Suc i) = emptied al i" if "alloc_ptr (al ! i) = 0"
  proof (rule nth_equalityI)
    show "length (emptied al (Suc i)) = length (emptied al i)" using len assms(2) by simp
    fix j assume "j < length (emptied al (Suc i))"
    then have j: "j < 1024" using len [of "Suc i"] assms(2) by simp
    have "al ! i = no_alloc" by (rule alloc_ok_empty [OF al(2) [OF assms(2)] that])
    then show "emptied al (Suc i) ! j = emptied al i ! j"
      using nth [OF _ j] assms(2) by (auto simp: less_Suc_eq)
  qed
  show "emptied al (Suc i) = clear_ptr (alloc_ptr (al ! i)) (emptied al i)" if nz: "alloc_ptr (al ! i) \<noteq> 0"
  proof (rule nth_equalityI)
    show "length (emptied al (Suc i)) = length (clear_ptr (alloc_ptr (al ! i)) (emptied al i))"
      using len assms(2) by (simp add: clear_ptr_def)
    fix j assume "j < length (emptied al (Suc i))"
    then have j: "j < 1024" using len [of "Suc i"] assms(2) by simp
    have "alloc_ptr (al ! j) = alloc_ptr (al ! i) \<longleftrightarrow> j = i" using al(3) [OF assms(2) j nz] by auto
    then show "emptied al (Suc i) ! j = clear_ptr (alloc_ptr (al ! i)) (emptied al i) ! j"
      using nth [OF _ j] assms(2) len [of i] j by (auto simp: clear_ptr_def less_Suc_eq)
  qed
qed

lemma released_step:
  assumes "kheap_rep k A" and "allocs_ok A bad al" and "i < 1024"
  shows "alloc_ptr (al ! i) = 0 \<Longrightarrow> released al (Suc i) A = released al i A"
    and "alloc_ptr (al ! i) = blk_addr b \<Longrightarrow> b < 25600 \<Longrightarrow> released al (Suc i) A = (released al i A)(b := None)"
proof -
  have dom: "x < 25600" if "A x \<noteq> None" for x using kheap_rep_pos [OF assms(1)] that by fastforce
  show "released al (Suc i) A = released al i A" if "alloc_ptr (al ! i) = 0"
  proof
    fix x show "released al (Suc i) A x = released al i A x"
      using that dom [of x] blk_addr_nonzero [of x]
      by (cases "A x") (auto simp: released_def restrict_map_def less_Suc_eq)
  qed
  show "released al (Suc i) A = (released al i A)(b := None)" if "alloc_ptr (al ! i) = blk_addr b" "b < 25600"
  proof
    fix x show "released al (Suc i) A x = ((released al i A)(b := None)) x"
      using that dom [of x] blk_addr_inj [of b x]
      by (cases "A x") (auto simp: released_def restrict_map_def less_Suc_eq)
  qed
qed

lemma process_free_step:
  fixes k :: "'a task_state_scheme"
  assumes ok: "process_ok k A c d T p" and entry: "ram k 0x6E00 AND HEAP_BLOCK_HAS_NEXT = 0"
    and i: "i < 1024" "alloc_ptr (allocations (procs k p) ! i) = 0"
  shows "process_ok (process_free p 0 k) A c d T p" "allocations (procs (process_free p 0 k) p) = allocations (procs k p)"
    "ram (process_free p 0 k) 0x6E00 AND HEAP_BLOCK_HAS_NEXT = 0"
    "w mod 4096 = 0 \<Longrightarrow> paging_get (blk_addr d) w (ram (process_free p 0 k)) = paging_get (blk_addr d) w (ram k)"
proof -
  note okD = process_okD [OF ok]
  have "allocations (procs k p) ! i \<in> set (allocations (procs k p))"
    using i(1) allocs_okD(1) [OF okD(5)] by simp
  then have "0 \<in> set (map alloc_ptr (allocations (procs k p)))" using i(2) by force
  note run = process_free_empty [OF ok this entry]
  let ?m = "(ram k)(0x6E00 := 0)"
  have blks: "\<forall>x \<in> set (c # d # T). x < 25600" using chunk_blocks [OF okD(2)] by blast
  have sb: "same_blocks (c # d # T) ?m (ram k)"
    unfolding same_blocks_def
  proof (intro ballI allI impI)
    fix x and j :: nat assume x: "x \<in> set (c # d # T)" "j < 4096"
    have "x < 25600" using blks x(1) by blast
    then have "unat (blk_addr x + of_nat j :: u32) = 16777216 + x * 4096 + j"
      using x(2) by (simp add: unat_add32 unat_blk_addr unat_of_nat32)
    then have "blk_addr x + of_nat j \<noteq> (0x6E00 :: u32)" by auto
    then show "?m (blk_addr x + of_nat j) = ram k (blk_addr x + of_nat j)" by simp
  qed
  have "kheap_rep (k\<lparr>ram := ?m\<rparr>) A"
    by (rule kheap_rep_table_write [OF okD(1)]) (auto simp: unat_sub32)
  then show "process_ok (process_free p 0 k) A c d T p"
    using chunk_same(1) [OF okD(2) sb] okD(3-5) unfolding run process_ok_def
    by (simp add: process_directory_def)
  show "allocations (procs (process_free p 0 k) p) = allocations (procs k p)"
    "ram (process_free p 0 k) 0x6E00 AND HEAP_BLOCK_HAS_NEXT = 0"
    unfolding run by simp_all
  show "paging_get (blk_addr d) w (ram (process_free p 0 k)) = paging_get (blk_addr d) w (ram k)" if "w mod 4096 = 0"
    unfolding run using chunk_same(4) [OF okD(2) sb that] by simp
qed

lemma terminate_loop:
  fixes k :: "'a task_state_scheme"
  assumes ok: "process_ok k A c d T p" and entry: "ram k 0x6E00 AND HEAP_BLOCK_HAS_NEXT = 0"
    and al: "al = allocations (procs k p)"
  shows "i \<le> 1024 \<Longrightarrow> \<exists>k'. fold (\<lambda>i k. process_free p (alloc_ptr (allocations (procs k p) ! i)) k) [0..<i] k = k'
    \<and> process_ok k' (released al i A) c d T p \<and> allocations (procs k' p) = emptied al i
    \<and> ram k' 0x6E00 AND HEAP_BLOCK_HAS_NEXT = 0
    \<and> (\<forall>w. w mod 4096 = 0 \<longrightarrow> paging_get (blk_addr d) w (ram k') =
          (if in_freed al i w then w else paging_get (blk_addr d) w (ram k)))"
proof (induction i)
  case 0
  then show ?case using ok entry al by (simp add: released_def restrict_map_def emptied_def in_freed_def)
next
  case (Suc i)
  note aok = process_okD(5) [OF ok, folded al]
  have i: "i < 1024" using Suc.prems by simp
  obtain k1 where k1: "fold (\<lambda>i k. process_free p (alloc_ptr (allocations (procs k p) ! i)) k) [0..<i] k = k1"
    "process_ok k1 (released al i A) c d T p" "allocations (procs k1 p) = emptied al i"
    "ram k1 0x6E00 AND HEAP_BLOCK_HAS_NEXT = 0"
    "\<forall>w. w mod 4096 = 0 \<longrightarrow> paging_get (blk_addr d) w (ram k1) =
       (if in_freed al i w then w else paging_get (blk_addr d) w (ram k))"
    using Suc by auto
  let ?ptr = "alloc_ptr (al ! i)"
  have slot: "alloc_ptr (allocations (procs k1 p) ! i) = ?ptr"
    using k1(3) i allocs_okD(1) [OF aok] by (simp add: nth_emptied)
  have run: "fold (\<lambda>i k. process_free p (alloc_ptr (allocations (procs k p) ! i)) k) [0..<Suc i] k = process_free p ?ptr k1"
    using k1(1) slot by simp
  show ?case
  proof (cases "?ptr = 0")
    case True
    then have "alloc_ptr (allocations (procs k1 p) ! i) = 0" using slot by simp
    note step = process_free_step [OF k1(2,4) i this]
    have "in_freed al (Suc i) w = in_freed al i w" for w using True by (auto simp: in_freed_def less_Suc_eq)
    then show ?thesis
      using step k1(3,5) emptied_step(1) [OF aok i True] released_step(1) [OF process_okD(1) [OF ok] aok i True]
      unfolding run True by auto
  next
    case False
    obtain b where b: "b < 25600" "?ptr = blk_addr b" "A b = Some (blocks_of (alloc_size (al ! i)))"
      using allocs_okD(2) [OF aok i] False unfolding alloc_ok_def by auto
    have live: "released al i A b = Some (blocks_of (alloc_size (al ! i)))"
    proof -
      have "alloc_ptr (al ! j) \<noteq> blk_addr b" if "j < i" for j
        using allocs_okD(3) [OF aok i _ False, of j] that i b(2) by auto
      then show ?thesis using b(3) by (simp add: released_def)
    qed
    obtain k2 where k2: "process_free p (blk_addr b) k1 = k2" "process_ok k2 ((released al i A)(b := None)) c d T p"
      "allocations (procs k2 p) = clear_ptr (blk_addr b) (allocations (procs k1 p))"
      "\<forall>w. w mod 4096 = 0 \<longrightarrow> paging_get (blk_addr d) w (ram k2) =
        (if unat (w - blk_addr b) < 4096 * the (released al i A b) then w else paging_get (blk_addr d) w (ram k1))"
      "\<forall>a. unat a < 0x7E00 \<longrightarrow> ram k2 a = ram k1 a"
      using process_free_block [OF k1(2) i slot [unfolded b(2)] b(1)] by blast
    have "in_freed al (Suc i) w \<longleftrightarrow> unat (w - blk_addr b) < 4096 * the (released al i A b) \<or> in_freed al i w" for w
      using False live b(2) by (auto simp: in_freed_def less_Suc_eq)
    then have "\<forall>w. w mod 4096 = 0 \<longrightarrow> paging_get (blk_addr d) w (ram k2) =
        (if in_freed al (Suc i) w then w else paging_get (blk_addr d) w (ram k))"
      using k2(4) k1(5) by simp
    moreover have "ram k2 0x6E00 AND HEAP_BLOCK_HAS_NEXT = 0" using k2(5) k1(4) by simp
    moreover have "allocations (procs k2 p) = emptied al (Suc i)"
      using k2(3) k1(3) emptied_step(2) [OF aok i False] b(2) by simp
    moreover have "process_ok k2 (released al (Suc i) A) c d T p"
      using k2(2) released_step(2) [OF process_okD(1) [OF ok] aok i b(2,1)] by simp
    ultimately show ?thesis unfolding run b(2) using k2(1) by blast
  qed
qed

text \<open>
  termination gives back all the memory a process has allocated.  \<open>process_terminate_allocations\<close>
  releases exactly the regions of the allocation table, empties all 1024 slots, keeps the heap and the
  page tables well formed, and takes the flags off exactly the pages of those regions; the byte at
  \<open>0x6E00\<close>, which the empty slots hit, is assumed not to look like a block with a successor.
\<close>
theorem process_terminate_allocations_spec:
  fixes k :: "'a task_state_scheme"
  assumes ok: "process_ok k A c d T p" and entry: "ram k 0x6E00 AND HEAP_BLOCK_HAS_NEXT = 0"
  shows "\<exists>k'. process_terminate_allocations p k = (0, k')
    \<and> process_ok k' (A |` {b. \<forall>a \<in> set (allocations (procs k p)). alloc_ptr a \<noteq> blk_addr b}) c d T p
    \<and> allocations (procs k' p) = replicate 1024 no_alloc
    \<and> (\<forall>w. w mod 4096 = 0 \<longrightarrow> paging_get (blk_addr d) w (ram k') =
          (if in_freed (allocations (procs k p)) 1024 w then w else paging_get (blk_addr d) w (ram k)))"
proof -
  let ?al = "allocations (procs k p)"
  have len: "length ?al = 1024" by (rule allocs_okD(1) [OF process_okD(5) [OF ok]])
  have "released ?al 1024 A = A |` {b. \<forall>a \<in> set ?al. alloc_ptr a \<noteq> blk_addr b}"
    using len by (simp add: released_def all_set_conv_all_nth)
  moreover have "emptied ?al 1024 = replicate 1024 no_alloc" using len by (simp add: emptied_def)
  ultimately show ?thesis
    using terminate_loop [OF ok entry refl, of 1024] unfolding process_terminate_allocations_def by simp
qed

text \<open>A process with a fresh address space and an empty allocation table.\<close>

lemma some_process:
  "\<exists>(k :: task_state) A c d T. process_ok k A c d T 1 \<and> 0 < free_blocks 25600 A
     \<and> allocations (procs k 1) = replicate 1024 no_alloc \<and> (\<forall>a. unat a < 0x7E00 \<longrightarrow> ram k a = 0)"
proof -
  have "heap_rep kernel_table (\<lambda>_. 0) Map.empty" by (rule heap_rep_empty) (simp_all add: entry_at_def)
  then have rep: "kheap_rep (test_tasks\<lparr>ram := (\<lambda>_. 0)\<rparr>) Map.empty"
    by (simp add: kheap_rep_def test_tasks_def elf_state.defs task_state.defs test_elf_def)
  have free: "1026 \<le> free_blocks 25600 Map.empty" by (simp add: free_blocks_empty)
  obtain c d T and k' :: task_state where new: "chunk_wf (ram k') c d T" "kheap_rep k' (Map.empty ++ ones (c # d # T))"
    "free_blocks 25600 Map.empty = free_blocks 25600 (Map.empty ++ ones (c # d # T)) + 1026"
    "\<forall>a. stable Map.empty a \<longrightarrow> ram k' a = ram (test_tasks\<lparr>ram := (\<lambda>_. 0)\<rparr>) a"
    using paging_new_4gb_built [OF rep free, of 5] by blast
  let ?A = "Map.empty ++ ones (c # d # T)"
  let ?k = "k'\<lparr>tasks := (\<lambda>_. zero_task\<lparr>page_directory := blk_addr c\<rparr>), procs := (\<lambda>_. zero_process)\<rparr>"
  have al: "allocations (procs ?k 1) = replicate 1024 no_alloc" by (simp add: zero_process_def)
  have "allocs_ok ?A (set (c # d # T)) (replicate 1024 no_alloc)"
    by (rule allocs_okI) (simp_all add: alloc_ok_def)
  then have "process_ok ?k ?A c d T 1"
    using new(1,2) unfolding process_ok_def al by (simp add: process_directory_def ones_def map_add_def)
  moreover have "0 < free_blocks 25600 ?A" using new(3) by (simp add: free_blocks_empty)
  moreover have "ram ?k a = 0" if "unat a < 0x7E00" for a
    using new(4) stable_low [OF that] by simp
  ultimately show ?thesis using al by blast
qed

theorem process_free_null_witness:
  "\<exists>k :: task_state. process_free 1 0 k = k\<lparr>ram := (ram k)(0x6E00 := 0)\<rparr>"
proof -
  obtain k :: task_state and A c d T where k: "process_ok k A c d T 1"
    "allocations (procs k 1) = replicate 1024 no_alloc" "\<forall>a. unat a < 0x7E00 \<longrightarrow> ram k a = 0"
    using some_process by blast
  have slot: "0 \<in> set (map alloc_ptr (allocations (procs k 1)))" by (simp add: k(2))
  have "ram k 0x6E00 AND HEAP_BLOCK_HAS_NEXT = 0" using k(3) by simp
  from process_free_null [OF k(1) slot this] show ?thesis by blast
qed

theorem process_terminate_allocations_spec_witness:
  "\<exists>k k' :: task_state. process_terminate_allocations 1 k = (0, k') \<and> allocations (procs k' 1) = replicate 1024 no_alloc"
proof -
  obtain k :: task_state and A c d T where k: "process_ok k A c d T 1" "\<forall>a. unat a < 0x7E00 \<longrightarrow> ram k a = 0"
    using some_process by blast
  have "ram k 0x6E00 AND HEAP_BLOCK_HAS_NEXT = 0" using k(2) by simp
  from process_terminate_allocations_spec [OF k(1) this] show ?thesis by blast
qed

theorem process_malloc_spec_witness:
  "\<exists>(k :: task_state) k' b. process_malloc 1 100 k = (blk_addr b, k') \<and> b < 25600
     \<and> alloc_ptr (allocations (procs k' 1) ! 0) = blk_addr b"
proof -
  obtain k :: task_state and A c d T where k: "process_ok k A c d T 1" "0 < free_blocks 25600 A"
    "allocations (procs k 1) = replicate 1024 no_alloc"
    using some_process by blast
  have n: "blocks_of 100 = 1" by (simp add: blocks_of_def)
  obtain b where b: "first_fit 25600 A (blocks_of 100) b" using free_blocks_room [OF k(2)] n by auto
  have lt: "b < 25600" using b n by (simp add: first_fit_def room_def)
  have some: "\<not> 0 \<notin> set (map alloc_ptr (allocations (procs k 1)))" by (simp add: k(3))
  have sz: "0 < unat (100 :: u32)" by simp
  obtain k' i where k': "process_malloc 1 100 k = (blk_addr b, k')"
    "lowest_free (map alloc_ptr (allocations (procs k 1))) i"
    "allocations (procs k' 1) = (allocations (procs k 1))[i := \<lparr>alloc_ptr = blk_addr b, alloc_size = 100\<rparr>]"
    using process_malloc_spec [OF k(1) sz b] unfolding if_not_P [OF some] by blast
  have "lowest_free (map alloc_ptr (allocations (procs k 1))) 0" by (simp add: lowest_free_def k(3))
  then have "i = 0" using lowest_free_unique k'(2) by blast
  then show ?thesis using k'(1,3) lt by (intro exI [of _ k] exI [of _ k'] exI [of _ b]) (simp add: k(3))
qed

theorem process_malloc_free_roundtrip_witness:
  "\<exists>(k :: task_state) k' k'' b. process_malloc 1 100 k = (blk_addr b, k') \<and> process_free 1 (blk_addr b) k' = k''
     \<and> allocations (procs k'' 1) = allocations (procs k 1)"
proof -
  obtain k :: task_state and A c d T where k: "process_ok k A c d T 1" "0 < free_blocks 25600 A"
    "allocations (procs k 1) = replicate 1024 no_alloc"
    using some_process by blast
  have n: "blocks_of 100 = 1" by (simp add: blocks_of_def)
  obtain b where b: "first_fit 25600 A (blocks_of 100) b" using free_blocks_room [OF k(2)] n by auto
  have "0 \<in> set (map alloc_ptr (allocations (procs k 1)))" "0 < unat (100 :: u32)" by (simp_all add: k(3))
  from process_malloc_free_roundtrip [OF k(1) this(2) b this(1)] show ?thesis by blast
qed

end
