(* ===== verification/Screen.thy ===== *)
theory Screen
  imports ProcessMemory
begin

text \<open>
  \<^verbatim>\<open>src/src/video/video.c\<close> and \<^verbatim>\<open>src/src/task/shell.c\<close>: the text terminals, one per shell, and
  the switch between shells.  A shell draws into its own buffer of 4096 bytes, which is copied to the
  video memory at \<open>0xB8000\<close> while the shell is the current one.

  \<open>struct shell\<close> and \<open>struct terminal\<close> are objects of the stores \<open>shell_objs\<close> and \<open>terminals\<close>; the buffers
  are bytes of memory.  An index outside the array \<open>shells\<close> is \<open>None\<close>.
\<close>

subsection \<open>State\<close>

record terminal =
  trow :: u16
  tcol :: u16

record shell =
  shell_id :: int
  sh_video_mem :: u32
  sh_terminal :: u32
  sh_process :: "u32 list"
  sh_current_process :: u32

record screen_state = process_state +
  shells :: "u32 list"
  current_shell :: u32
  shell_objs :: "u32 \<Rightarrow> shell"
  terminals :: "u32 \<Rightarrow> terminal"
  terminal_row :: u16
  terminal_col :: u16
  backspace :: bool

definition VGA_WIDTH :: int where [simp]: "VGA_WIDTH = 80"
definition VGA_HEIGHT :: int where [simp]: "VGA_HEIGHT = 25"
definition PEACHOS_COLOR :: u8 where [simp]: "PEACHOS_COLOR = 240"
definition video_mem :: u32 where [simp]: "video_mem = 0xB8000"

definition zero_shell :: shell where
  "zero_shell = \<lparr>shell_id = 0, sh_video_mem = 0, sh_terminal = 0, sh_process = [0, 0], sh_current_process = 0\<rparr>"

definition set_shell :: "u32 \<Rightarrow> shell \<Rightarrow> 'a screen_state_scheme \<Rightarrow> 'a screen_state_scheme" where
  "set_shell s x k = k\<lparr>shell_objs := (shell_objs k)(s := x)\<rparr>"

definition store16 :: "mem \<Rightarrow> u32 \<Rightarrow> u16 \<Rightarrow> mem" where
  "store16 m a v = m(a := ucast v, a + 1 := ucast (drop_bit 8 v))"

definition load16 :: "mem \<Rightarrow> u32 \<Rightarrow> u16" where
  "load16 m a = ucast (m a) OR push_bit 8 (ucast (m (a + 1)))"

subsection \<open>The terminal\<close>

definition get_current_task_shell :: "'a screen_state_scheme \<Rightarrow> u32" where
  "get_current_task_shell k = process_shell (procs k (task_process (tasks k (current_task k))))"

definition get_current_shell :: "'a screen_state_scheme \<Rightarrow> u32" where
  "get_current_shell k = current_shell k"

definition terminal_init :: "'a screen_state_scheme \<Rightarrow> 'a screen_state_scheme" where
  "terminal_init k =
     (let t = terminals k (sh_terminal (shell_objs k (get_current_task_shell k)))
      in k\<lparr>terminal_row := trow t, terminal_col := tcol t\<rparr>)"

definition terminal_save :: "u32 \<Rightarrow> 'a screen_state_scheme \<Rightarrow> 'a screen_state_scheme" where
  "terminal_save t k = k\<lparr>terminals := (terminals k)(t := \<lparr>trow = terminal_row k, tcol = terminal_col k\<rparr>)\<rparr>"

definition terminal_make_char :: "u8 \<Rightarrow> u8 \<Rightarrow> u16" where
  \<comment> \<open>both characters are signed\<close>
  "terminal_make_char c colour = word_of_int (push_bit 8 (sgn_char colour) OR sgn_char c)"

definition terminal_putchar :: "int \<Rightarrow> int \<Rightarrow> u8 \<Rightarrow> u8 \<Rightarrow> 'a screen_state_scheme \<Rightarrow> 'a screen_state_scheme" where
  "terminal_putchar x y c colour k =
     (let s = shell_objs k (get_current_task_shell k);
          k = k\<lparr>ram := store16 (ram k) (sh_video_mem s + 2 * as_u32 (y * VGA_WIDTH + x)) (terminal_make_char c colour)\<rparr>
      in if shell_id (shell_objs k (get_current_shell k)) = shell_id s
         then k\<lparr>ram := memcpy (ram k) video_mem (sh_video_mem s) 4096\<rparr>
         else k)"

definition save_current :: "'a screen_state_scheme \<Rightarrow> 'a screen_state_scheme" where
  \<comment> \<open>\<open>terminal_save(get_current_task_shell()->terminal)\<close>\<close>
  "save_current k = terminal_save (sh_terminal (shell_objs k (get_current_task_shell k))) k"

text \<open>\<open>terminal_writechar\<close> and \<open>terminal_backspace\<close> call each other.\<close>

function terminal_writechar :: "u8 \<Rightarrow> u8 \<Rightarrow> 'a screen_state_scheme \<Rightarrow> 'a screen_state_scheme"
  and terminal_backspace :: "'a screen_state_scheme \<Rightarrow> 'a screen_state_scheme" where
  "terminal_writechar c colour k =
     (let k = (if \<not> backspace k then terminal_init k else k)
      in if c = 10 then save_current (k\<lparr>terminal_row := terminal_row k + 1, terminal_col := 0\<rparr>)
         else if c = 8 then save_current (terminal_backspace k)
         else
           let k = terminal_putchar (uint (terminal_col k)) (uint (terminal_row k)) c colour k;
               k = k\<lparr>terminal_col := terminal_col k + 1\<rparr>;
               k = (if uint (terminal_col k) \<ge> VGA_WIDTH
                    then k\<lparr>terminal_col := 0, terminal_row := terminal_row k + 1\<rparr> else k)
           in save_current k)"
| "terminal_backspace k =
     (let k = k\<lparr>backspace := True\<rparr>
      in if terminal_row k = 0 \<and> terminal_col k = 0 then k
         else
           let k = (if terminal_col k = 0
                    then k\<lparr>terminal_row := terminal_row k - 1, terminal_col := word_of_int VGA_WIDTH\<rparr> else k);
               k = k\<lparr>terminal_col := terminal_col k - 1\<rparr>;
               k = terminal_writechar 32 PEACHOS_COLOR k
           in k\<lparr>terminal_col := terminal_col k - 1, backspace := False\<rparr>)"
  by pat_completeness auto
termination
  by (relation "measure (\<lambda>x. case x of Inl (c, colour, k) \<Rightarrow> if c = 8 then 2 else 0 | Inr k \<Rightarrow> 1)") auto

declare terminal_writechar.simps [simp del] terminal_backspace.simps [simp del]

definition print :: "u32 \<Rightarrow> 'a screen_state_scheme \<Rightarrow> 'a screen_state_scheme option" where
  "print str k =
     do { len \<leftarrow> strlen (ram k) str;
          Some (fold (\<lambda>i k. terminal_writechar (ram k (str + of_nat i)) PEACHOS_COLOR k) [0..<unat (as_u32 len)] k) }"

subsection \<open>Shells\<close>

definition shell_at :: "'a screen_state_scheme \<Rightarrow> int \<Rightarrow> u32 option" where
  \<comment> \<open>\<open>shells[id]\<close>\<close>
  "shell_at k i = (if 0 \<le> i \<and> i < int (length (shells k)) then Some (shells k ! nat i) else None)"

definition shell_slot_available :: "int \<Rightarrow> 'a screen_state_scheme \<Rightarrow> bool option" where
  "shell_slot_available i k = map_option (\<lambda>s. s = 0) (shell_at k i)"

definition shell_switch :: "int \<Rightarrow> 'a screen_state_scheme \<Rightarrow> (int \<times> 'a screen_state_scheme) option" where
  "shell_switch i k =
     do { s \<leftarrow> shell_at k i;
          if s = 0 then Some (- EINVARG, k)
          else let k = k\<lparr>current_shell := s\<rparr>;
                   k = process_switch (sh_process (shell_objs k s) ! 0) k
               in Some (0, k\<lparr>ram := memcpy (ram k) 0xB8000 (sh_video_mem (shell_objs k s)) 4096\<rparr>) }"

definition shell_switch_to_next :: "'a screen_state_scheme \<Rightarrow> 'a screen_state_scheme option" where
  "shell_switch_to_next k =
     do { let i = shell_id (shell_objs k (current_shell k));
          s \<leftarrow> shell_at k (i + 1);
          (_, k) \<leftarrow> (if i = 0 \<and> s \<noteq> 0 then shell_switch (i + 1) k
                      else if i = 0 \<and> s = 0 then shell_switch i k
                      else if i \<noteq> 0 \<and> s \<noteq> 0 then shell_switch (i + 1) k
                      else shell_switch 0 k);
          Some k }"

definition shell_initialize :: "u32 \<Rightarrow> 'a screen_state_scheme \<Rightarrow> 'a screen_state_scheme" where
  "shell_initialize s k =
     fold (\<lambda>y k. fold (\<lambda>x k. k\<lparr>ram := store16 (ram k)
              (sh_video_mem (shell_objs k s) + 2 * as_u32 (int y * VGA_WIDTH + int x))
              (terminal_make_char 32 PEACHOS_COLOR)\<rparr>) [0..<nat VGA_WIDTH] k) [0..<nat VGA_HEIGHT] k"

text \<open>
  \<open>path\<close> is the address of the literal \<open>"0:/shell.elf"\<close>, \<open>itoa_buf\<close> of \<open>itoa\<close>'s buffer and \<open>arg\<close> of the
  local \<open>argument\<close>; \<open>junk_p\<close> is the uninitialised local \<open>shell_process\<close>, \<open>out_s\<close> is the value behind the out-pointer before the call.
\<close>

definition shell_new :: "(u32 \<Rightarrow> 'a screen_state_scheme filesystem) \<Rightarrow> u32 \<Rightarrow> file_stat \<Rightarrow> u32 \<Rightarrow> u32 \<Rightarrow> u32 \<Rightarrow> u32
    \<Rightarrow> u32 \<Rightarrow> int \<Rightarrow> u32 \<Rightarrow> 'a screen_state_scheme \<Rightarrow> (int \<times> u32 \<times> 'a screen_state_scheme) option" where
  "shell_new vt r st junk junk_p path itoa_buf arg i out_s k =
     do { free \<leftarrow> shell_slot_available i k;
          if \<not> free then Some (- EINVARG, out_s, k)
          else do {
            let (s, k) = kzalloc 24 k;
            let k = set_shell s (zero_shell\<lparr>shell_id := i\<rparr>) k;
            let (video_buf, k) = kzalloc 4096 k;
            let k = set_shell s ((shell_objs k s)\<lparr>sh_video_mem := video_buf\<rparr>) k;
            let (t, k) = kzalloc 4 k;
            let k = k\<lparr>terminals := (terminals k)(t := \<lparr>trow = 0, tcol = 0\<rparr>)\<rparr>;
            let k = set_shell s ((shell_objs k s)\<lparr>sh_terminal := t\<rparr>) k;
            (res, p, k) \<leftarrow> process_load_switch vt r st junk path junk_p k;
            if res < 0 then Some (- EIO, out_s, k)
            else do {
              let k = set_proc p ((procs k p)\<lparr>process_shell := s\<rparr>) k;
              let k = set_shell s ((shell_objs k s)\<lparr>sh_process := (sh_process (shell_objs k s))[0 := p]\<rparr>) k;
              let (text_at, m) = itoa (ram k) itoa_buf i;
              (_, m) \<leftarrow> strcpy m arg text_at;
              let k = k\<lparr>ram := store32 m (arg + 512) 0\<rparr>;
              (_, k) \<leftarrow> process_inject_arguments p arg k;
              let k = shell_initialize s k;
              let k = k\<lparr>shells := (shells k)[nat i := s]\<rparr>;
              (_, k) \<leftarrow> shell_switch i k;
              Some (res, s, k) } } }"

end
