(* ===== verification/Terminal.thy ===== *)
theory Terminal
  imports Screen
begin

text \<open>
  What the terminals of \<^verbatim>\<open>src/src/video/video.c\<close> do, against an abstract terminal: a grid of cells and a
  cursor per shell, and a screen that shows the grid of the current shell.
\<close>

subsection \<open>Cells of a text buffer\<close>

definition cells :: "mem \<Rightarrow> u32 \<Rightarrow> u16 list" where
  "cells m v = map (\<lambda>i. load16 m (v + of_nat (2 * i))) [0..<2048]"

definition pages_apart :: "u32 \<Rightarrow> u32 \<Rightarrow> bool" where
  \<comment> \<open>two regions of 4096 bytes do not overlap\<close>
  "pages_apart v w \<longleftrightarrow> 4096 \<le> unat (v - w) \<and> 4096 \<le> unat (w - v)"

lemma length_cells [simp]: "length (cells m v) = 2048"
  by (simp add: cells_def)

lemma nth_cells: "i < 2048 \<Longrightarrow> cells m v ! i = load16 m (v + of_nat (2 * i))"
  by (simp add: cells_def)

lemma apart_sym: "pages_apart v w \<Longrightarrow> pages_apart w v"
  by (simp add: pages_apart_def)

lemma load16_store16 [simp]: "load16 (store16 m a x) a = x"
proof -
  have "(ucast (ucast x :: u8) :: u16) OR push_bit 8 (ucast (ucast (drop_bit 8 x) :: u8)) = x"
    by (rule bit_eqI) (auto simp: bit_simps)
  then show ?thesis by (simp add: load16_def store16_def)
qed

lemma suc_addr: "(v :: u32) + of_nat n + 1 = v + of_nat (n + 1)"
  by (simp add: ac_simps)

lemma load16_cong: "m' a = m a \<Longrightarrow> m' (a + 1) = m (a + 1) \<Longrightarrow> load16 m' a = load16 m a"
  by (simp add: load16_def)

lemma cells_cong:
  assumes "\<And>x. x < 4096 \<Longrightarrow> m' (v + of_nat x) = m (v + of_nat x)"
  shows "cells m' v = cells m v"
proof (rule nth_equalityI)
  fix i assume "i < length (cells m' v)"
  then have i: "i < 2048" by simp
  have "m' (v + of_nat (2 * i) + 1) = m (v + of_nat (2 * i) + 1)"
    unfolding suc_addr by (rule assms) (use i in simp)
  moreover have "m' (v + of_nat (2 * i)) = m (v + of_nat (2 * i))" by (rule assms) (use i in simp)
  ultimately show "cells m' v ! i = cells m v ! i" unfolding nth_cells [OF i] by (intro load16_cong)
qed simp

lemma apart_byte:
  assumes "pages_apart v w" and "x < 4096"
  shows "4096 \<le> unat (v + of_nat x - w)"
proof (rule ccontr)
  assume "\<not> 4096 \<le> unat (v + of_nat x - w)"
  then have lt: "unat (v + of_nat x - w) < 4096" by simp
  have ux: "unat (of_nat x :: u32) = x" using assms(2) by (simp add: unat_of_nat32)
  show False
  proof (cases "unat (v + of_nat x - w) < x")
    case True
    have "w - v = of_nat x - (v + of_nat x - w)" by simp
    then have "unat (w - v) = x - unat (v + of_nat x - w)"
      using True ux by (simp only: unat_sub32) simp
    then show False using assms unfolding pages_apart_def by linarith
  next
    case False
    have "v - w = (v + of_nat x - w) - of_nat x" by simp
    then have "unat (v - w) = unat (v + of_nat x - w) - x"
      using False ux by (simp only: unat_sub32) simp
    then show False using assms lt unfolding pages_apart_def by linarith
  qed
qed

lemma store16_frame:
  assumes "2 * i < 4096" and "4096 \<le> unat (a - v)"
  shows "store16 m (v + of_nat (2 * i)) x a = m a"
proof -
  have "a \<noteq> v + of_nat (2 * i)" "a \<noteq> v + of_nat (2 * i + 1)"
    using assms by (simp_all only: addr_eq_iff) auto
  then show ?thesis unfolding store16_def suc_addr by (simp only: fun_upd_apply if_False)
qed

lemma cells_apart_cong:
  assumes "\<And>a. 4096 \<le> unat (a - v) \<Longrightarrow> m' a = m a" and "pages_apart w v"
  shows "cells m' w = cells m w"
  using assms apart_byte by (intro cells_cong) blast

lemma cells_store16:
  assumes "i < 2048"
  shows "cells (store16 m (v + of_nat (2 * i)) x) v = (cells m v)[i := x]"
proof (rule nth_equalityI)
  fix j assume "j < length (cells (store16 m (v + of_nat (2 * i)) x) v)"
  then have j: "j < 2048" by simp
  show "cells (store16 m (v + of_nat (2 * i)) x) v ! j = (cells m v)[i := x] ! j"
  proof (cases "j = i")
    case True
    then show ?thesis using assms by (simp add: nth_cells)
  next
    case False
    have ne: "v + of_nat p \<noteq> v + of_nat q" if "p < 4096" "q < 4096" "p \<noteq> q" for p q
      using that by (simp add: of_nat_inj32)
    have nes: "v + of_nat (2 * j) \<noteq> v + of_nat (2 * i)" "v + of_nat (2 * j) \<noteq> v + of_nat (2 * i + 1)"
      "v + of_nat (2 * j + 1) \<noteq> v + of_nat (2 * i)" "v + of_nat (2 * j + 1) \<noteq> v + of_nat (2 * i + 1)"
      by (rule ne; use assms j False in presburger)+
    have "load16 (store16 m (v + of_nat (2 * i)) x) (v + of_nat (2 * j)) = load16 m (v + of_nat (2 * j))"
      by (rule load16_cong) (simp_all only: store16_def suc_addr fun_upd_apply nes if_False)
    then show ?thesis using assms j False by (simp add: nth_cells del: of_nat_mult)
  qed
qed simp

lemma memcpy_4096: "pages_apart d s \<Longrightarrow> memcpy m d s 4096 a = (if unat (a - d) < 4096 then m (s + (a - d)) else m a)"
  by (subst memcpy_at) (simp_all add: pages_apart_def unat_as_u32)

lemma cells_memcpy: "pages_apart d s \<Longrightarrow> cells (memcpy m d s 4096) d = cells m s"
proof (rule nth_equalityI)
  assume d: "pages_apart d s"
  fix i assume "i < length (cells (memcpy m d s 4096) d)"
  then have i: "i < 2048" by simp
  have at: "memcpy m d s 4096 (d + of_nat x) = m (s + of_nat x)" if "x < 4096" for x
    using that by (simp add: memcpy_4096 [OF d] unat_of_nat32)
  have "load16 (memcpy m d s 4096) (d + of_nat (2 * i)) = load16 m (s + of_nat (2 * i))"
    unfolding load16_def suc_addr using at [of "2 * i"] at [of "2 * i + 1"] i by (simp del: of_nat_mult of_nat_add of_nat_Suc)
  then show "cells (memcpy m d s 4096) d ! i = cells m s ! i" using i by (simp add: nth_cells del: of_nat_mult)
qed simp

subsection \<open>The abstract terminal\<close>

record window =
  wcells :: "u16 list"
  wrow :: nat
  wcol :: nat

definition glyph :: "u8 \<Rightarrow> u16" where
  "glyph c = terminal_make_char c PEACHOS_COLOR"

definition win_put :: "u8 \<Rightarrow> window \<Rightarrow> window" where
  "win_put c w =
     (let cs = (wcells w)[80 * wrow w + wcol w := glyph c]
      in if wcol w + 1 < 80 then \<lparr>wcells = cs, wrow = wrow w, wcol = wcol w + 1\<rparr>
         else \<lparr>wcells = cs, wrow = wrow w + 1, wcol = 0\<rparr>)"

definition win_back :: "window \<Rightarrow> window" where
  "win_back w = \<lparr>wcells = (wcells w)[80 * wrow w + (wcol w - 1) := glyph 32], wrow = wrow w, wcol = wcol w - 1\<rparr>"

definition win_char :: "u8 \<Rightarrow> window \<Rightarrow> window" where
  "win_char c w =
     (if c = 10 then w\<lparr>wrow := wrow w + 1, wcol := 0\<rparr> else if c = 8 then win_back w else win_put c w)"

text \<open>The shell of an object, its buffer, its cursor, and the window they make.\<close>

definition buffer_of :: "'a screen_state_scheme \<Rightarrow> u32 \<Rightarrow> u32" where
  "buffer_of k s = sh_video_mem (shell_objs k s)"

definition cursor_of :: "'a screen_state_scheme \<Rightarrow> u32 \<Rightarrow> terminal" where
  "cursor_of k s = terminals k (sh_terminal (shell_objs k s))"

definition window :: "'a screen_state_scheme \<Rightarrow> u32 \<Rightarrow> window" where
  "window k s = \<lparr>wcells = cells (ram k) (buffer_of k s), wrow = unat (trow (cursor_of k s)), wcol = unat (tcol (cursor_of k s))\<rparr>"

definition shells_apart :: "u32 set \<Rightarrow> 'a screen_state_scheme \<Rightarrow> bool" where
  "shells_apart S k \<longleftrightarrow> (\<forall>s \<in> S. pages_apart video_mem (buffer_of k s)
     \<and> (\<forall>r \<in> S. r \<noteq> s \<longrightarrow> pages_apart (buffer_of k r) (buffer_of k s)
          \<and> sh_terminal (shell_objs k r) \<noteq> sh_terminal (shell_objs k s) \<and> shell_id (shell_objs k r) \<noteq> shell_id (shell_objs k s)))"

definition screen_ok :: "u32 set \<Rightarrow> 'a screen_state_scheme \<Rightarrow> bool" where
  "screen_ok S k \<longleftrightarrow> shells_apart S k \<and> current_shell k \<in> S \<and> \<not> backspace k
     \<and> (\<forall>s \<in> S. unat (tcol (cursor_of k s)) < 80)
     \<and> cells (ram k) video_mem = wcells (window k (current_shell k))"

subsection \<open>One character\<close>

definition moved :: "mem \<Rightarrow> u16 \<Rightarrow> u16 \<Rightarrow> bool \<Rightarrow> 'a screen_state_scheme \<Rightarrow> 'a screen_state_scheme" where
  \<comment> \<open>the state after a character: memory, cursor and the flag are new\<close>
  "moved m r c b k = k\<lparr>ram := m, terminal_row := r, terminal_col := c, backspace := b,
     terminals := (terminals k)(sh_terminal (shell_objs k (get_current_task_shell k)) := \<lparr>trow = r, tcol = c\<rparr>)\<rparr>"

definition put_mem :: "int \<Rightarrow> int \<Rightarrow> u8 \<Rightarrow> u8 \<Rightarrow> 'a screen_state_scheme \<Rightarrow> mem" where
  "put_mem x y c colour k = ram (terminal_putchar x y c colour k)"

lemma putchar_ram: "terminal_putchar x y c colour k = k\<lparr>ram := put_mem x y c colour k\<rparr>"
  by (simp add: put_mem_def terminal_putchar_def Let_def)

lemma put_mem_cong:
  "put_mem x y c colour (k\<lparr>terminal_row := r, terminal_col := l\<rparr>) = put_mem x y c colour k"
  "put_mem x y c colour (k\<lparr>backspace := b, terminal_row := r, terminal_col := l\<rparr>) = put_mem x y c colour k"
  "put_mem x y c colour (k\<lparr>terminal_row := r, backspace := b, terminal_col := l\<rparr>) = put_mem x y c colour k"
  "put_mem x y c colour (k\<lparr>backspace := b\<rparr>) = put_mem x y c colour k"
  by (simp_all add: put_mem_def terminal_putchar_def Let_def get_current_task_shell_def get_current_shell_def)

lemma writechar_printable:
  assumes "c \<noteq> 10" and "c \<noteq> 8"
    and "r = (if backspace k then terminal_row k else trow (cursor_of k (get_current_task_shell k)))"
    and "l = (if backspace k then terminal_col k else tcol (cursor_of k (get_current_task_shell k)))"
  shows "terminal_writechar c colour k =
    (if uint (l + 1) < 80 then moved (put_mem (uint l) (uint r) c colour k) r (l + 1) (backspace k) k
     else moved (put_mem (uint l) (uint r) c colour k) (r + 1) 0 (backspace k) k)"
proof -
  let ?k = "k\<lparr>terminal_row := r, terminal_col := l\<rparr>"
  have "(if \<not> backspace k then terminal_init k else k) = ?k"
    using assms(3,4) by (simp add: terminal_init_def cursor_of_def Let_def)
  then show ?thesis
    using assms(1,2) unfolding terminal_writechar.simps [of c] putchar_ram [of _ _ _ _ ?k] 
    by (simp add: Let_def put_mem_cong moved_def save_current_def terminal_save_def get_current_task_shell_def putchar_ram)
qed

lemma writechar_newline:
  "\<not> backspace k \<Longrightarrow> terminal_writechar 10 colour k =
     moved (ram k) (trow (cursor_of k (get_current_task_shell k)) + 1) 0 False k"
  by (simp add: terminal_writechar.simps [of 10] Let_def terminal_init_def moved_def save_current_def terminal_save_def
    get_current_task_shell_def cursor_of_def)

lemma writechar_backspace:
  assumes b: "\<not> backspace k" and r: "r = trow (cursor_of k (get_current_task_shell k))"
    and l: "l = tcol (cursor_of k (get_current_task_shell k))"
  shows "r = 0 \<Longrightarrow> l = 0 \<Longrightarrow> terminal_writechar 8 colour k = moved (ram k) 0 0 True k"
    and "l \<noteq> 0 \<Longrightarrow> uint l < 80 \<Longrightarrow> terminal_writechar 8 colour k =
           moved (put_mem (uint (l - 1)) (uint r) 32 PEACHOS_COLOR k) r (l - 1) False k"
    and "r \<noteq> 0 \<Longrightarrow> l = 0 \<Longrightarrow> terminal_writechar 8 colour k =
           moved (put_mem 79 (uint (r - 1)) 32 PEACHOS_COLOR k) r (- 1) False k"
proof -
  let ?k = "k\<lparr>terminal_row := r, terminal_col := l\<rparr>"
  have init: "terminal_init k = ?k" using r l by (simp add: terminal_init_def cursor_of_def Let_def)
  have start: "terminal_writechar 8 colour k = save_current (terminal_backspace ?k)"
    using b by (simp add: terminal_writechar.simps [of 8] Let_def init)
  show "terminal_writechar 8 colour k = moved (ram k) 0 0 True k" if "r = 0" "l = 0"
    using that unfolding start
    by (simp add: terminal_backspace.simps Let_def moved_def save_current_def terminal_save_def get_current_task_shell_def)
  show "terminal_writechar 8 colour k = moved (put_mem (uint (l - 1)) (uint r) 32 PEACHOS_COLOR k) r (l - 1) False k"
    if nz: "l \<noteq> 0" and lt: "uint l < 80"
  proof -
    let ?k1 = "k\<lparr>terminal_row := r, backspace := True, terminal_col := l - 1\<rparr>"
    have up: "l - 1 + 1 = l" by (rule diff_add_cancel)
    have "terminal_writechar 32 PEACHOS_COLOR ?k1 = moved (put_mem (uint (l - 1)) (uint r) 32 PEACHOS_COLOR ?k1) r l True ?k1"
      using lt by (subst writechar_printable [where r = r and l = "l - 1"]) (simp_all only: up if_True, simp_all)
    then show ?thesis
      using nz unfolding start
      by (simp add: terminal_backspace.simps Let_def put_mem_cong moved_def save_current_def terminal_save_def get_current_task_shell_def)
  qed
  show "terminal_writechar 8 colour k = moved (put_mem 79 (uint (r - 1)) 32 PEACHOS_COLOR k) r (- 1) False k"
    if nz: "r \<noteq> 0" and z: "l = 0"
  proof -
    let ?k1 = "k\<lparr>backspace := True, terminal_row := r - 1, terminal_col := 79\<rparr>"
    have "terminal_writechar 32 PEACHOS_COLOR ?k1 = moved (put_mem 79 (uint (r - 1)) 32 PEACHOS_COLOR ?k1) r 0 True ?k1"
      by (subst writechar_printable [where r = "r - 1" and l = 79]) (simp_all add: put_mem_cong)
    then show ?thesis
      using nz z unfolding start
      by (simp add: terminal_backspace.simps Let_def put_mem_cong moved_def save_current_def terminal_save_def get_current_task_shell_def)
  qed
qed

subsection \<open>What a character leaves in memory\<close>

lemma put_mem_spec:
  assumes pages_apart: "shells_apart S k" and s: "get_current_task_shell k \<in> S" "current_shell k \<in> S"
    and pos: "80 * y + x < 2048"
  shows "cells (put_mem (int x) (int y) c colour k) (buffer_of k (get_current_task_shell k)) =
      (cells (ram k) (buffer_of k (get_current_task_shell k)))[80 * y + x := terminal_make_char c colour]"
    and "\<And>r. r \<in> S \<Longrightarrow> r \<noteq> get_current_task_shell k \<Longrightarrow>
      cells (put_mem (int x) (int y) c colour k) (buffer_of k r) = cells (ram k) (buffer_of k r)"
    and "cells (put_mem (int x) (int y) c colour k) video_mem =
      (if current_shell k = get_current_task_shell k
       then (cells (ram k) (buffer_of k (get_current_task_shell k)))[80 * y + x := terminal_make_char c colour]
       else cells (ram k) video_mem)"
    and "\<And>a. 4096 \<le> unat (a - buffer_of k (get_current_task_shell k)) \<Longrightarrow> 4096 \<le> unat (a - video_mem) \<Longrightarrow>
      put_mem (int x) (int y) c colour k a = ram k a"
proof -
  let ?s = "get_current_task_shell k" and ?v = "buffer_of k (get_current_task_shell k)"
  let ?m = "store16 (ram k) (?v + of_nat (2 * (80 * y + x))) (terminal_make_char c colour)"
  have addr: "?v + 2 * as_u32 (int y * VGA_WIDTH + int x) = ?v + of_nat (2 * (80 * y + x))"
    by (simp add: as_u32_def algebra_simps)
  have same: "shell_id (shell_objs k (current_shell k)) = shell_id (shell_objs k ?s) \<longleftrightarrow> current_shell k = ?s"
    using pages_apart s unfolding shells_apart_def by (cases "current_shell k = ?s") auto
  have run: "put_mem (int x) (int y) c colour k = (if current_shell k = ?s then memcpy ?m video_mem ?v 4096 else ?m)"
    unfolding put_mem_def terminal_putchar_def Let_def buffer_of_def [symmetric] addr
    by (simp only: same get_current_shell_def screen_state.simps kmem.simps simp_thms split: if_split) (simp add: same)
  have vr: "pages_apart video_mem (buffer_of k r)" if "r \<in> S" for r
    using pages_apart that unfolding shells_apart_def by blast
  have vid: "pages_apart video_mem ?v" by (rule vr [OF s(1)])
  have frame: "?m a = ram k a" if "4096 \<le> unat (a - ?v)" for a
    by (rule store16_frame) (use pos that in simp_all)
  have cp: "memcpy ?m video_mem ?v 4096 a = ?m a" if "4096 \<le> unat (a - video_mem)" for a
    using memcpy_4096 [OF vid] that by simp
  have m: "cells ?m ?v = (cells (ram k) ?v)[80 * y + x := terminal_make_char c colour]" by (rule cells_store16 [OF pos])
  have keep: "cells (memcpy ?m video_mem ?v 4096) (buffer_of k r) = cells ?m (buffer_of k r)" if "r \<in> S" for r
    by (rule cells_apart_cong [OF cp apart_sym [OF vr [OF that]]])
  show "cells (put_mem (int x) (int y) c colour k) ?v = (cells (ram k) ?v)[80 * y + x := terminal_make_char c colour]"
    unfolding run using m keep [OF s(1)] by simp
  show "cells (put_mem (int x) (int y) c colour k) (buffer_of k r) = cells (ram k) (buffer_of k r)"
    if "r \<in> S" "r \<noteq> ?s" for r
  proof -
    have "pages_apart (buffer_of k r) ?v" using pages_apart s(1) that unfolding shells_apart_def by blast
    then have "cells ?m (buffer_of k r) = cells (ram k) (buffer_of k r)" 
      by (intro cells_apart_cong [where m' = ?m and v = ?v] frame)
    then show ?thesis unfolding run using keep [OF that(1)] by simp
  qed
  show "cells (put_mem (int x) (int y) c colour k) video_mem = (if current_shell k = ?s
      then (cells (ram k) ?v)[80 * y + x := terminal_make_char c colour] else cells (ram k) video_mem)"
    unfolding run using cells_memcpy [OF vid] m cells_apart_cong [OF frame vid] by simp
  show "put_mem (int x) (int y) c colour k a = ram k a"
    if "4096 \<le> unat (a - ?v)" "4096 \<le> unat (a - video_mem)" for a
    unfolding run using cp [OF that(2)] frame [OF that(1)] by simp
qed

subsection \<open>Refinement\<close>

text \<open>\<open>drew S k k' w\<close>: the step from \<open>k\<close> to \<open>k'\<close> gave the task's shell the window \<open>w\<close> and touched no other.\<close>

definition drew :: "u32 set \<Rightarrow> 'a screen_state_scheme \<Rightarrow> 'a screen_state_scheme \<Rightarrow> window \<Rightarrow> bool" where
  "drew S k k' w \<longleftrightarrow> screen_ok S k' \<and> window k' (get_current_task_shell k) = w
     \<and> (\<forall>r \<in> S. r \<noteq> get_current_task_shell k \<longrightarrow> window k' r = window k r)
     \<and> shell_objs k' = shell_objs k \<and> current_shell k' = current_shell k
     \<and> get_current_task_shell k' = get_current_task_shell k
     \<and> (\<forall>a. 4096 \<le> unat (a - buffer_of k (get_current_task_shell k)) \<longrightarrow> 4096 \<le> unat (a - video_mem) \<longrightarrow>
          ram k' a = ram k a)"

lemma screen_okD:
  assumes "screen_ok S k"
  shows "shells_apart S k" "current_shell k \<in> S" "\<not> backspace k" "s \<in> S \<Longrightarrow> unat (tcol (cursor_of k s)) < 80"
    "cells (ram k) video_mem = wcells (window k (current_shell k))"
  using assms by (simp_all add: screen_ok_def)

lemma moved_fields [simp]:
  "shell_objs (moved m r l b k) = shell_objs k" "current_shell (moved m r l b k) = current_shell k"
  "get_current_task_shell (moved m r l b k) = get_current_task_shell k" "ram (moved m r l b k) = m"
  "backspace (moved m r l b k) = b" "buffer_of (moved m r l b k) s = buffer_of k s"
  "shells_apart S (moved m r l b k) = shells_apart S k"
  by (simp_all add: moved_def get_current_task_shell_def buffer_of_def shells_apart_def)

lemma moved_cursor:
  assumes "shells_apart S k" and "get_current_task_shell k \<in> S" and "s \<in> S"
  shows "cursor_of (moved m r l b k) s =
    (if s = get_current_task_shell k then \<lparr>trow = r, tcol = l\<rparr> else cursor_of k s)"
  using assms unfolding cursor_of_def moved_fields
  by (cases "s = get_current_task_shell k") (auto simp: moved_def shells_apart_def)

lemma moved_drew:
  assumes ok: "screen_ok S k" and s: "get_current_task_shell k \<in> S" and l: "unat l < 80"
    and own: "cells m (buffer_of k (get_current_task_shell k)) = cs"
    and others: "\<And>r. r \<in> S \<Longrightarrow> r \<noteq> get_current_task_shell k \<Longrightarrow>
      cells m (buffer_of k r) = cells (ram k) (buffer_of k r)"
    and vid: "cells m video_mem = (if current_shell k = get_current_task_shell k then cs else cells (ram k) video_mem)"
    and frame: "\<And>a. 4096 \<le> unat (a - buffer_of k (get_current_task_shell k)) \<Longrightarrow> 4096 \<le> unat (a - video_mem) \<Longrightarrow>
      m a = ram k a"
  shows "drew S k (moved m r l False k) \<lparr>wcells = cs, wrow = unat r, wcol = unat l\<rparr>"
proof -
  note D = screen_okD [OF ok]
  note cur = moved_cursor [OF D(1) s]
  have own': "window (moved m r l False k) (get_current_task_shell k) = \<lparr>wcells = cs, wrow = unat r, wcol = unat l\<rparr>"
    using own by (simp add: window_def cur [OF s])
  have others': "window (moved m r l False k) q = window k q" if "q \<in> S" "q \<noteq> get_current_task_shell k" for q
    using others [OF that] that by (simp add: window_def cur [OF that(1)])
  have "unat (tcol (cursor_of (moved m r l False k) q)) < 80" if "q \<in> S" for q
    using cur [OF that] D(4) [OF that] l by simp
  moreover have "cells m video_mem = wcells (window (moved m r l False k) (current_shell k))"
    using vid D(5) own' others' [OF D(2)] by (cases "current_shell k = get_current_task_shell k") simp_all
  ultimately have "screen_ok S (moved m r l False k)" using D(1,2) by (simp add: screen_ok_def)
  then show ?thesis using own' others' frame by (simp add: drew_def)
qed

lemma writechar_drew:
  assumes ok: "screen_ok S k" and s: "get_current_task_shell k \<in> S"
    and row: "wrow (window k (get_current_task_shell k)) < 25"
    and bk: "c = 8 \<longrightarrow> 0 < wcol (window k (get_current_task_shell k))"
  shows "drew S k (terminal_writechar c PEACHOS_COLOR k) (win_char c (window k (get_current_task_shell k)))"
proof -
  let ?s = "get_current_task_shell k"
  let ?r = "trow (cursor_of k ?s)" and ?l = "tcol (cursor_of k ?s)"
  note D = screen_okD [OF ok]
  have l: "unat ?l < 80" by (rule D(4) [OF s])
  have r: "unat ?r < 25" using row by (simp add: window_def)
  have ui: "uint w = int (unat w)" for w :: u16 by simp
  have r1: "unat (?r + 1) = unat ?r + 1" using r by (simp add: unat_word_ariths)
  have put: "drew S k (moved (put_mem (int x) (int (unat ?r)) ch PEACHOS_COLOR k) r' l' False k)
      \<lparr>wcells = (cells (ram k) (buffer_of k ?s))[80 * unat ?r + x := glyph ch], wrow = unat r', wcol = unat l'\<rparr>"
    if "unat l' < 80" "x < 80" for x ch r' l'
  proof -
    have "80 * unat ?r + x < 2048" using r that(2) by linarith
    note P = put_mem_spec [OF D(1) s D(2) this, where c = ch and colour = PEACHOS_COLOR, folded glyph_def]
    show ?thesis by (rule moved_drew [OF ok s that(1) P])
  qed
  consider "c = 10" | "c = 8" | "c \<noteq> 10" "c \<noteq> 8" by blast
  then show ?thesis
  proof cases
    case 1
    have "drew S k (moved (ram k) (?r + 1) 0 False k) \<lparr>wcells = cells (ram k) (buffer_of k ?s), wrow = unat (?r + 1), wcol = unat (0 :: u16)\<rparr>"
      by (rule moved_drew [OF ok s]) (use D(5) in \<open>simp_all add: window_def\<close>)
    then show ?thesis
      using r1 writechar_newline [OF D(3)] 1 by (simp add: win_char_def window_def)
  next
    case 2
    then have pos: "0 < unat ?l" using bk by (simp add: window_def)
    then have nz: "?l \<noteq> 0" by auto
    have l1: "unat (?l - 1) = unat ?l - 1" by (rule unat_minus_one [OF nz])
    have u: "uint ?l < 80" using l ui [of ?l] by linarith
    have "uint (?l - 1) = int (unat ?l - 1)" using l1 ui [of "?l - 1"] by simp
    moreover have "uint ?r = int (unat ?r)" by (rule ui)
    moreover have "unat (?l - 1) < 80" using l l1 by linarith
    ultimately show ?thesis
      using writechar_backspace(2) [OF D(3) refl refl nz u] put [of "?l - 1" "unat ?l - 1" 32 ?r] l l1 2
      by (simp add: win_char_def win_back_def window_def)
  next
    case 3
    have run: "terminal_writechar c PEACHOS_COLOR k =
      (if uint (?l + 1) < 80 then moved (put_mem (uint ?l) (uint ?r) c PEACHOS_COLOR k) ?r (?l + 1) (backspace k) k
       else moved (put_mem (uint ?l) (uint ?r) c PEACHOS_COLOR k) (?r + 1) 0 (backspace k) k)"
      using D(3) by (intro writechar_printable [OF 3]) simp_all
    have l1: "unat (?l + 1) = unat ?l + 1" using l by (simp add: unat_word_ariths)
    have u: "uint (?l + 1) < 80 \<longleftrightarrow> unat ?l + 1 < 80" using l1 ui [of "?l + 1"] by linarith
    have il: "uint ?l = int (unat ?l)" and ir: "uint ?r = int (unat ?r)" by (rule ui)+
    show ?thesis
    proof (cases "unat ?l + 1 < 80")
      case True
      then show ?thesis
        using put [of "?l + 1" "unat ?l" c ?r] l l1 D(3) 3 unfolding run il ir
        by (simp add: u win_char_def win_put_def window_def)
    next
      case False
      then show ?thesis
        using put [of 0 "unat ?l" c "?r + 1"] l r1 D(3) 3 unfolding run il ir
        by (simp add: u win_char_def win_put_def window_def)
    qed
  qed
qed

subsection \<open>Strings\<close>

definition off_screen :: "'a screen_state_scheme \<Rightarrow> u32 \<Rightarrow> nat \<Rightarrow> bool" where
  \<comment> \<open>the bytes of a string and its terminator are in neither the video memory nor the task's buffer\<close>
  "off_screen k str n \<longleftrightarrow> (\<forall>i \<le> n. 4096 \<le> unat (str + of_nat i - video_mem)
     \<and> 4096 \<le> unat (str + of_nat i - buffer_of k (get_current_task_shell k)))"

definition fits :: "u8 list \<Rightarrow> window \<Rightarrow> bool" where
  \<comment> \<open>no character of the string is written below the last line, none is a backspace\<close>
  "fits cs w \<longleftrightarrow> 8 \<notin> set cs \<and> (\<forall>n < length cs. wrow (fold win_char (take n cs) w) < 25)"

lemma fits_Cons: "fits (c # cs) w \<longleftrightarrow> c \<noteq> 8 \<and> wrow w < 25 \<and> fits cs (win_char c w)"
  by (auto simp: fits_def All_less_Suc2)

lemma drew_trans:
  assumes "drew S k k1 w1" and "drew S k1 k2 w2"
  shows "drew S k k2 w2"
  using assms unfolding drew_def by (auto simp: buffer_of_def)

lemma print_loop:
  assumes "screen_ok S k" and "get_current_task_shell k \<in> S" and "off_screen k str (length cs)"
    and "\<And>i. i < length cs \<Longrightarrow> ram k (str + of_nat i) = cs ! i"
    and "fits (drop n cs) (window k (get_current_task_shell k))" and "n \<le> length cs"
  shows "drew S k (fold (\<lambda>i k. terminal_writechar (ram k (str + of_nat i)) PEACHOS_COLOR k) [n..<length cs] k)
    (fold win_char (drop n cs) (window k (get_current_task_shell k)))"
  using assms
proof (induction "length cs - n" arbitrary: n k)
  case 0
  then show ?case by (simp add: drew_def)
next
  case (Suc d)
  let ?s = "get_current_task_shell k"
  have n: "n < length cs" using Suc.hyps(2) by simp
  have drop: "drop n cs = cs ! n # drop (Suc n) cs" using n by (simp add: Cons_nth_drop_Suc)
  let ?k = "terminal_writechar (ram k (str + of_nat n)) PEACHOS_COLOR k"
  have c: "ram k (str + of_nat n) = cs ! n" by (rule Suc.prems(4) [OF n])
  have ft: "cs ! n \<noteq> 8" "wrow (window k ?s) < 25" "fits (drop (Suc n) cs) (win_char (cs ! n) (window k ?s))"
    using Suc.prems(5) unfolding drop fits_Cons by simp_all
  have step: "drew S k ?k (win_char (cs ! n) (window k ?s))"
    unfolding c by (rule writechar_drew [OF Suc.prems(1,2) ft(2)]) (use ft(1) in simp)
  then have D: "screen_ok S ?k" "window ?k ?s = win_char (cs ! n) (window k ?s)" "get_current_task_shell ?k = ?s"
    "\<And>r. buffer_of ?k r = buffer_of k r"
    "\<And>a. 4096 \<le> unat (a - buffer_of k ?s) \<Longrightarrow> 4096 \<le> unat (a - video_mem) \<Longrightarrow> ram ?k a = ram k a"
    unfolding drew_def buffer_of_def by simp_all
  have off: "off_screen ?k str (length cs)" using Suc.prems(3) unfolding off_screen_def D(3,4) .
  have "ram ?k (str + of_nat i) = cs ! i" if "i < length cs" for i
    using D(5) [of "str + of_nat i"] Suc.prems(3) Suc.prems(4) [OF that] that unfolding off_screen_def by simp
  then have "drew S ?k (fold (\<lambda>i k. terminal_writechar (ram k (str + of_nat i)) PEACHOS_COLOR k) [Suc n..<length cs] ?k)
      (fold win_char (drop (Suc n) cs) (window ?k (get_current_task_shell ?k)))"
    using Suc.hyps n Suc.prems(2) ft(3) D(1,2,3) off by (intro Suc.hyps(1)) simp_all
  then have "drew S k (fold (\<lambda>i k. terminal_writechar (ram k (str + of_nat i)) PEACHOS_COLOR k) [Suc n..<length cs] ?k)
      (fold win_char (drop (Suc n) cs) (win_char (cs ! n) (window k ?s)))"
    using drew_trans [OF step] D(2,3) by simp
  then show ?case using n by (simp add: drop upt_conv_Cons)
qed

lemma print_run:
  assumes "screen_ok S k" and "get_current_task_shell k \<in> S"
    and "cstr (ram k) str cs" and "off_screen k str (length cs)"
    and "fits cs (window k (get_current_task_shell k))" and "length cs < 2147483648"
  shows "\<exists>k'. print str k = Some k' \<and> screen_ok S k'
    \<and> window k' (get_current_task_shell k) = fold win_char cs (window k (get_current_task_shell k))
    \<and> (\<forall>r \<in> S. r \<noteq> get_current_task_shell k \<longrightarrow> window k' r = window k r)
    \<and> (\<forall>a. 4096 \<le> unat (a - buffer_of k (get_current_task_shell k)) \<longrightarrow> 4096 \<le> unat (a - video_mem) \<longrightarrow>
         ram k' a = ram k a)"
proof -
  have at: "ram k (str + of_nat i) = cs ! i" if "i < length cs" for i using assms(3) that by (simp add: cstr_iff)
  have "strlen (ram k) str = Some (int (length cs))"
    using strlen_loop_cstr [OF assms(3), of 0] by (simp add: strlen_def)
  then have "print str k = Some (fold (\<lambda>i k. terminal_writechar (ram k (str + of_nat i)) PEACHOS_COLOR k) [0..<length cs] k)"
    using assms(6) by (simp add: print_def unat_of_nat32)
  moreover note print_loop [OF assms(1,2,4) at, of 0, simplified, OF assms(5)]
  ultimately show ?thesis unfolding drew_def by simp
qed

text \<open>
  C17: \<open>print\<close> refines the abstract terminal.  Printing a string writes its characters one after the
  other into the window of the shell the running task belongs to (new lines and line ends included), no
  other shell's window changes, the screen goes on showing the window of the current shell, and memory
  outside the buffer and the video memory is as before.  This holds for strings that fit: no character of them is
  a backspace (those have lemmas of their own) and none is written below the last of the 25 lines.  The terminal
  does not scroll; what a character further down does is \<open>terminal_overruns_buffer\<close>.
\<close>
theorem print_spec:
  assumes "screen_ok S k" and "get_current_task_shell k \<in> S"
    and "cstr (ram k) str cs" and "off_screen k str (length cs)"
    and "fits cs (window k (get_current_task_shell k))" and "length cs < 2147483648"
  shows "\<exists>k'. print str k = Some k' \<and> screen_ok S k'
    \<and> window k' (get_current_task_shell k) = fold win_char cs (window k (get_current_task_shell k))
    \<and> (\<forall>r \<in> S. r \<noteq> get_current_task_shell k \<longrightarrow> window k' r = window k r)
    \<and> (\<forall>a. 4096 \<le> unat (a - buffer_of k (get_current_task_shell k)) \<longrightarrow> 4096 \<le> unat (a - video_mem) \<longrightarrow>
         ram k' a = ram k a)"
  by (rule print_run [OF assms])

lemma glyph_low: "ucast (glyph c) = c"
proof -
  have "(4095 :: int) = mask 12" by (simp add: mask_eq_exp_minus_1)
  then have "bit (4095 :: int) n" if "n < 8" for n using that by (simp only: bit_mask_iff) simp
  then show ?thesis
    unfolding glyph_def terminal_make_char_def by (intro bit_eqI) (simp add: bit_simps sgn_char_def bit_or_iff)
qed

text \<open>
  there is no scrolling.  A printable character with the cursor at cell 2048 or behind it (line 25 from column 48 on,
  or any line below) is stored outside the 4096 bytes of the shell's buffer, over whatever lies there.
\<close>
theorem terminal_overruns_buffer:
  assumes "screen_ok S k" and "get_current_task_shell k \<in> S" and "c \<noteq> 8" and "c \<noteq> 10"
    and "2048 \<le> 80 * wrow (window k (get_current_task_shell k)) + wcol (window k (get_current_task_shell k))"
    and "a = buffer_of k (get_current_task_shell k)
      + of_nat (2 * (80 * wrow (window k (get_current_task_shell k)) + wcol (window k (get_current_task_shell k))))"
    and "4096 \<le> unat (a - video_mem)"
  shows "4096 \<le> unat (a - buffer_of k (get_current_task_shell k)) \<and> ram (terminal_writechar c PEACHOS_COLOR k) a = c"
proof -
  let ?s = "get_current_task_shell k"
  let ?r = "trow (cursor_of k ?s)" and ?l = "tcol (cursor_of k ?s)" and ?b = "buffer_of k ?s"
  note D = screen_okD [OF assms(1)]
  have apart: "pages_apart video_mem ?b" using D(1) assms(2) by (simp add: shells_apart_def)
  define p where "p = 80 * unat ?r + unat ?l"
  have p: "2048 \<le> p" "2 * p < 4294967296" and a: "a = ?b + of_nat (2 * p)"
    using assms(5,6) unsigned_less [where 'a = nat, of ?r] unsigned_less [where 'a = nat, of ?l] by (simp_all add: window_def p_def)
  have at: "?b + 2 * as_u32 (uint ?r * 80 + uint ?l) = a"
    unfolding a p_def by (simp add: as_u32_def algebra_simps)
  have "put_mem (uint ?l) (uint ?r) c PEACHOS_COLOR k a = store16 (ram k) a (glyph c) a"
    using assms(7) unfolding put_mem_def terminal_putchar_def Let_def
    by (simp add: at [unfolded buffer_of_def] memcpy_4096 [OF apart, unfolded buffer_of_def video_mem_def] glyph_def)
  also have "\<dots> = c" by (simp add: store16_def glyph_low)
  finally have "ram (terminal_writechar c PEACHOS_COLOR k) a = c"
    unfolding writechar_printable [OF assms(4,3) refl refl] using D(3) by (simp add: moved_def)
  moreover have "unat (a - ?b) = 2 * p" using p(2) by (simp add: a unat_of_nat32 del: of_nat_mult)
  ultimately show ?thesis using p(1) by simp
qed

text \<open>
  backspace takes back a character.  After a printable character that does not end its line, a
  backspace puts the cursor back where it was and leaves a blank in the cell; everything else on the
  window is as before the character.
\<close>
theorem terminal_backspace_undoes:
  assumes "screen_ok S k" and "get_current_task_shell k \<in> S"
    and "wrow (window k (get_current_task_shell k)) < 25" and "wcol (window k (get_current_task_shell k)) < 79"
    and "c \<noteq> 8" and "c \<noteq> 10"
  shows "\<exists>k'. terminal_writechar 8 PEACHOS_COLOR (terminal_writechar c PEACHOS_COLOR k) = k' \<and> screen_ok S k'
    \<and> window k' (get_current_task_shell k) = (window k (get_current_task_shell k))
         \<lparr>wcells := (wcells (window k (get_current_task_shell k)))
           [80 * wrow (window k (get_current_task_shell k)) + wcol (window k (get_current_task_shell k)) := glyph 32]\<rparr>"
proof -
  let ?s = "get_current_task_shell k" and ?w = "window k (get_current_task_shell k)"
  let ?k1 = "terminal_writechar c PEACHOS_COLOR k"
  have "drew S k ?k1 (win_char c ?w)" by (rule writechar_drew [OF assms(1-3)]) (use assms(5) in simp)
  then have D: "screen_ok S ?k1" "get_current_task_shell ?k1 = ?s" "window ?k1 ?s = win_char c ?w"
    unfolding drew_def by simp_all
  have w: "win_char c ?w = \<lparr>wcells = (wcells ?w)[80 * wrow ?w + wcol ?w := glyph c], wrow = wrow ?w, wcol = wcol ?w + 1\<rparr>"
    using assms(4-6) by (simp add: win_char_def win_put_def)
  have "drew S ?k1 (terminal_writechar 8 PEACHOS_COLOR ?k1) (win_char 8 (window ?k1 ?s))"
    using writechar_drew [OF D(1)] D(2,3) assms(2,3) w by simp
  then show ?thesis unfolding drew_def D(2,3) w by (simp add: win_char_def win_back_def)
qed

text \<open>
  backspace at the start of a line.  With the cursor at column 0 below the first line, a backspace
  leaves it at column 65535 of the same line: the blank written into the last cell of the line above has
  already moved the cursor on to column 0, which is decremented again.  The next character is stored at
  \<open>2 * (80 * row + 65535)\<close>, far behind the 4096 bytes of the shell's buffer.
\<close>
theorem terminal_backspace_line_start:
  assumes "screen_ok S k" and "get_current_task_shell k \<in> S"
    and "wcol (window k (get_current_task_shell k)) = 0" and "0 < wrow (window k (get_current_task_shell k))"
    and "c \<noteq> 8" and "c \<noteq> 10" and "current_shell k \<noteq> get_current_task_shell k"
  shows "\<exists>k'. terminal_writechar 8 PEACHOS_COLOR k = k' \<and> get_current_task_shell k' = get_current_task_shell k
    \<and> cursor_of k' (get_current_task_shell k) = \<lparr>trow = trow (cursor_of k (get_current_task_shell k)), tcol = 65535\<rparr>
    \<and> load16 (ram (terminal_writechar c PEACHOS_COLOR k')) (buffer_of k (get_current_task_shell k)
         + of_nat (2 * (80 * wrow (window k (get_current_task_shell k)) + 65535))) = glyph c"
proof -
  let ?s = "get_current_task_shell k"
  let ?r = "trow (cursor_of k ?s)"
  let ?k1 = "moved (put_mem 79 (uint (?r - 1)) 32 PEACHOS_COLOR k) ?r (- 1) False k"
  note D = screen_okD [OF assms(1)]
  have "?r \<noteq> 0" using assms(4) by (auto simp: window_def)
  moreover have "tcol (cursor_of k ?s) = 0" using assms(3) by (simp add: window_def unat_eq_0)
  ultimately have run: "terminal_writechar 8 PEACHOS_COLOR k = ?k1"
    using writechar_backspace(3) [OF D(3) refl refl] by simp
  have cur: "cursor_of ?k1 ?s = \<lparr>trow = ?r, tcol = 65535\<rparr>"
    using moved_cursor [OF D(1) assms(2,2)] by simp
  have col: "(if backspace ?k1 then terminal_col ?k1 else tcol (cursor_of ?k1 (get_current_task_shell ?k1))) = 65535"
    and row: "(if backspace ?k1 then terminal_row ?k1 else trow (cursor_of ?k1 (get_current_task_shell ?k1))) = ?r"
    using cur by simp_all
  have wrap: "(65536 :: u16) = 0" by simp
  have "terminal_writechar c PEACHOS_COLOR ?k1 =
    moved (put_mem 65535 (uint ?r) c PEACHOS_COLOR ?k1) ?r 0 (backspace ?k1) ?k1"
    using writechar_printable [OF assms(6,5) row [symmetric] col [symmetric]] wrap by simp
  then have m: "ram (terminal_writechar c PEACHOS_COLOR ?k1) = put_mem 65535 (uint ?r) c PEACHOS_COLOR ?k1" by simp
  have ids: "shell_id (shell_objs k (current_shell k)) \<noteq> shell_id (shell_objs k ?s)"
    using D(1,2) assms(2,7) unfolding shells_apart_def by blast
  have ur: "uint ?r = int (wrow (window k ?s))" by (simp add: window_def)
  have "buffer_of k ?s + 2 * as_u32 (uint ?r * VGA_WIDTH + 65535)
      = buffer_of k ?s + of_nat (2 * (80 * wrow (window k ?s) + 65535))"
    unfolding ur by (simp add: as_u32_def algebra_simps)
  then have "put_mem 65535 (uint ?r) c PEACHOS_COLOR ?k1 =
      store16 (ram ?k1) (buffer_of k ?s + of_nat (2 * (80 * wrow (window k ?s) + 65535))) (glyph c)"
    using ids unfolding put_mem_def terminal_putchar_def Let_def
    by (simp add: get_current_shell_def glyph_def buffer_of_def)
  then have "load16 (ram (terminal_writechar c PEACHOS_COLOR ?k1)) (buffer_of k ?s
      + of_nat (2 * (80 * wrow (window k ?s) + 65535))) = glyph c"
    unfolding m by (simp only: load16_store16)
  then show ?thesis using cur unfolding run by simp
qed

text \<open>
  backspace in the top left corner leaves the flag \<open>backspace\<close> set, so the cursor of the next writer is
  not loaded: a character printed by a task of another shell goes to the corner of that shell's window
  instead of its cursor, and sets its cursor to column 1 of line 0.
\<close>
theorem terminal_backspace_corner:
  assumes "screen_ok S k" and "get_current_task_shell k \<in> S"
    and "wcol (window k (get_current_task_shell k)) = 0" and "wrow (window k (get_current_task_shell k)) = 0"
    and "get_current_task_shell (k\<lparr>current_task := t\<rparr>) \<in> S" and "c \<noteq> 8" and "c \<noteq> 10"
  shows "\<exists>k'. terminal_writechar c PEACHOS_COLOR ((terminal_writechar 8 PEACHOS_COLOR k)\<lparr>current_task := t\<rparr>) = k'
    \<and> cursor_of k' (get_current_task_shell (k\<lparr>current_task := t\<rparr>)) = \<lparr>trow = 0, tcol = 1\<rparr>
    \<and> cells (ram k') (buffer_of k (get_current_task_shell (k\<lparr>current_task := t\<rparr>))) =
        (cells (ram k) (buffer_of k (get_current_task_shell (k\<lparr>current_task := t\<rparr>))))[0 := glyph c]"
proof -
  let ?s = "get_current_task_shell k" and ?r = "get_current_task_shell (k\<lparr>current_task := t\<rparr>)"
  let ?k1 = "moved (ram k) 0 0 True k"
  let ?k2 = "?k1\<lparr>current_task := t\<rparr>"
  note D = screen_okD [OF assms(1)]
  have z: "trow (cursor_of k ?s) = 0" "tcol (cursor_of k ?s) = 0"
    using assms(3,4) by (simp_all add: window_def unat_eq_0)
  have run: "terminal_writechar 8 PEACHOS_COLOR k = ?k1"
    using writechar_backspace(1) [OF D(3) refl refl z] by simp
  have s2: "get_current_task_shell ?k2 = ?r" "current_shell ?k2 = current_shell k" "shells_apart S ?k2"
    "buffer_of ?k2 = buffer_of k" "ram ?k2 = ram k" "backspace ?k2" "terminal_row ?k2 = 0" "terminal_col ?k2 = 0"
    using D(1) by (simp_all add: moved_def get_current_task_shell_def shells_apart_def buffer_of_def fun_eq_iff)
  have w: "terminal_writechar c PEACHOS_COLOR ?k2 = moved (put_mem 0 0 c PEACHOS_COLOR ?k2) 0 1 True ?k2"
    using writechar_printable [OF assms(7,6), of 0 ?k2 0] s2 by simp
  have "cursor_of (moved (put_mem 0 0 c PEACHOS_COLOR ?k2) 0 1 True ?k2) ?r = \<lparr>trow = 0, tcol = 1\<rparr>"
    using moved_cursor [OF s2(3), of ?r] assms(5) s2(1) by simp
  moreover have "cells (put_mem 0 0 c PEACHOS_COLOR ?k2) (buffer_of k ?r) = (cells (ram k) (buffer_of k ?r))[0 := glyph c]"
    using put_mem_spec(1) [OF s2(3), where x = 0 and y = 0 and c = c and colour = PEACHOS_COLOR] assms(5) D(2) s2
    by (simp add: glyph_def)
  ultimately show ?thesis unfolding run w by simp
qed

subsection \<open>Switching between shells\<close>

text \<open>\<open>shell_list k ss\<close>: the shells of the array \<open>shells\<close>, from slot 0 on, each with its index as identifier.\<close>

definition shell_list :: "'a screen_state_scheme \<Rightarrow> u32 list \<Rightarrow> bool" where
  "shell_list k ss \<longleftrightarrow> shells k = ss @ replicate (12 - length ss) 0 \<and> 0 < length ss \<and> length ss \<le> 11 \<and> 0 \<notin> set ss
     \<and> distinct ss \<and> (\<forall>i < length ss. shell_id (shell_objs k (ss ! i)) = int i)"

lemma shell_list_at:
  assumes "shell_list k ss" and "i \<le> length ss"
  shows "shell_at k (int i) = Some (if i < length ss then ss ! i else 0)"
  using assms by (auto simp: shell_list_def shell_at_def nth_append)

text \<open>\<open>switched k s\<close>: the state after the switch to the shell \<open>s\<close>.\<close>

definition switched :: "'a screen_state_scheme \<Rightarrow> u32 \<Rightarrow> 'a screen_state_scheme" where
  "switched k s = k\<lparr>current_shell := s, current_process := sh_process (shell_objs k s) ! 0,
     ram := memcpy (ram k) video_mem (buffer_of k s) 4096\<rparr>"

lemma shell_switch_to:
  assumes "shell_at k i = Some s" and "s \<noteq> 0"
  shows "shell_switch i k = Some (0, switched k s)"
  using assms by (simp add: shell_switch_def switched_def buffer_of_def process_switch_def Let_def)

lemma switched_fields [simp]:
  "shell_objs (switched k s) = shell_objs k" "shells (switched k s) = shells k" "current_shell (switched k s) = s"
  "current_process (switched k s) = sh_process (shell_objs k s) ! 0"
  "terminals (switched k s) = terminals k" "backspace (switched k s) = backspace k" "buffer_of (switched k s) = buffer_of k"
  "cursor_of (switched k s) = cursor_of k" "shells_apart S (switched k s) = shells_apart S k"
  "shell_list (switched k s) ss = shell_list k ss"
  "get_current_task_shell (switched k s) = get_current_task_shell k"
  by (simp_all add: switched_def buffer_of_def cursor_of_def fun_eq_iff shells_apart_def shell_list_def get_current_task_shell_def)

lemma switched_ok:
  assumes ok: "screen_ok S k" and s: "s \<in> S"
  shows "screen_ok S (switched k s)" and "r \<in> S \<Longrightarrow> window (switched k s) r = window k r"
    and "cells (ram (switched k s)) video_mem = wcells (window k s)"
proof -
  note D = screen_okD [OF ok]
  have ap: "pages_apart video_mem (buffer_of k r)" if "r \<in> S" for r
    using D(1) that unfolding shells_apart_def by blast
  have ram: "ram (switched k s) = memcpy (ram k) video_mem (buffer_of k s) 4096" by (simp add: switched_def)
  have keep: "memcpy (ram k) video_mem (buffer_of k s) 4096 a = ram k a" if "4096 \<le> unat (a - video_mem)" for a
    using memcpy_4096 [OF ap [OF s]] that by simp
  show win: "window (switched k s) r = window k r" if "r \<in> S" for r
    using cells_apart_cong [OF keep apart_sym [OF ap [OF that]]] by (simp add: window_def ram)
  show vid: "cells (ram (switched k s)) video_mem = wcells (window k s)"
    unfolding ram cells_memcpy [OF ap [OF s]] by (simp add: window_def)
  show "screen_ok S (switched k s)"
    using D(1,3,4) s vid win [OF s] by (simp add: screen_ok_def)
qed

lemma shell_switch_to_next_step:
  assumes l: "shell_list k ss" and i: "i < length ss" "current_shell k = ss ! i"
  shows "shell_switch_to_next k = Some (switched k (ss ! (Suc i mod length ss)))"
proof -
  have shell: "shell_id (shell_objs k (current_shell k)) = int i" using l i by (simp add: shell_list_def)
  have nxt: "shell_at k (int i + 1) = Some (if Suc i < length ss then ss ! Suc i else 0)"
    using shell_list_at [OF l, of "Suc i"] i(1) by (simp add: add.commute)
  have first: "shell_at k 0 = Some (ss ! 0)" using shell_list_at [OF l, of 0] i(1) by auto
  have nz: "ss ! j \<noteq> 0" if "j < length ss" for j
    using l that nth_mem [of j ss] unfolding shell_list_def by metis
  show ?thesis
  proof (cases "Suc i < length ss")
    case True
    have "shell_switch (int i + 1) k = Some (0, switched k (ss ! Suc i))"
      by (rule shell_switch_to) (use nxt True nz [OF True] in simp_all)
    then show ?thesis
      using True nz [OF True] nxt by (cases "i = 0") (simp_all add: shell_switch_to_next_def shell Let_def)
  next
    case False
    then have "Suc i = length ss" using i(1) by simp
    moreover have "shell_switch 0 k = Some (0, switched k (ss ! 0))"
      using i(1) by (intro shell_switch_to [OF first] nz) linarith
    ultimately show ?thesis by (simp add: shell_switch_to_next_def shell nxt Let_def)
  qed
qed

primrec switch_times :: "nat \<Rightarrow> 'a screen_state_scheme \<Rightarrow> 'a screen_state_scheme option" where
  "switch_times 0 k = Some k"
| "switch_times (Suc n) k = Option.bind (switch_times n k) shell_switch_to_next"

text \<open>
  C18: the switch key goes round the shells.  With shells in the first slots of the table, \<open>n\<close> presses take
  the screen from the \<open>i\<close>-th to the \<open>(i + n)\<close>-th modulo their number, so every shell is reached; the screen
  shows that shell's window as it was left, its first process is the one the keyboard feeds, and no
  window changes.
\<close>
theorem shell_switch_round:
  assumes "screen_ok (set ss) k" and "shell_list k ss" and "i < length ss" and "current_shell k = ss ! i"
  shows "\<exists>k'. switch_times n k = Some k' \<and> screen_ok (set ss) k' \<and> current_shell k' = ss ! ((i + n) mod length ss)
    \<and> (\<forall>r \<in> set ss. window k' r = window k r)
    \<and> cells (ram k') video_mem = wcells (window k (ss ! ((i + n) mod length ss)))
    \<and> (0 < n \<longrightarrow> current_process k' = sh_process (shell_objs k (ss ! ((i + n) mod length ss))) ! 0)"
proof -
  have "\<exists>k'. switch_times n k = Some k' \<and> screen_ok (set ss) k' \<and> shell_list k' ss \<and> shell_objs k' = shell_objs k
    \<and> current_shell k' = ss ! ((i + n) mod length ss) \<and> (\<forall>r \<in> set ss. window k' r = window k r)
    \<and> (0 < n \<longrightarrow> current_process k' = sh_process (shell_objs k (ss ! ((i + n) mod length ss))) ! 0)"
  proof (induction n)
    case 0
    then show ?case using assms by simp
  next
    case (Suc n)
    then obtain k' where k': "switch_times n k = Some k'" "screen_ok (set ss) k'" "shell_list k' ss"
      "shell_objs k' = shell_objs k" "current_shell k' = ss ! ((i + n) mod length ss)"
      "\<forall>r \<in> set ss. window k' r = window k r"
      by blast
    have len: "0 < length ss" using assms(3) by linarith
    let ?s = "ss ! (Suc (i + n) mod length ss)"
    have mem: "?s \<in> set ss" by (rule nth_mem) (use len in simp)
    have "shell_switch_to_next k' = Some (switched k' ?s)"
      using shell_switch_to_next_step [OF k'(3) _ k'(5)] len by (simp add: mod_Suc_eq)
    then show ?case
      using k' switched_ok [OF k'(2) mem] by simp
  qed
  moreover have "ss ! ((i + n) mod length ss) \<in> set ss" 
    by (intro nth_mem mod_less_divisor) (use assms(3) in linarith)
  ultimately show ?thesis using screen_okD(5) by (metis (no_types, lifting))
qed

subsection \<open>An instance\<close>

text \<open>Two shells, 1 and 2, on an empty screen; task 1 belongs to the first, task 2 to the second.\<close>

definition test_screen :: "u16 \<Rightarrow> u16 \<Rightarrow> u32 \<Rightarrow> screen_state" where
  "test_screen r l t = process_state.extend
    (task_state.extend
      (elf_state.extend (test_elf\<lparr>ram := (\<lambda>_. 0)\<rparr>)
        (task_state.fields 0 0x10 t 1 2
          (\<lambda>t. zero_task\<lparr>task_process := t, next_task := (if t = 1 then 2 else 0), prev_task := (if t = 2 then 1 else 0)\<rparr>)
          (\<lambda>p. zero_process\<lparr>process_shell := p\<rparr>)))
      (process_state.fields 1 ([1, 2] @ replicate 10 0)))
    (screen_state.fields ([1, 2] @ replicate 10 0) 1
      (\<lambda>s. zero_shell\<lparr>shell_id := (if s = 1 then 0 else 1), sh_video_mem := (if s = 1 then 0x1000000 else 0x1002000),
         sh_terminal := s, sh_process := [s, 0]\<rparr>)
      (\<lambda>_. \<lparr>trow = r, tcol = l\<rparr>) 0 0 False)"

lemma test_screen_fields:
  "ram (test_screen r l t) = (\<lambda>_. 0)" "current_shell (test_screen r l t) = 1" "\<not> backspace (test_screen r l t)"
  "get_current_task_shell (test_screen r l t) = t" "cursor_of (test_screen r l t) s = \<lparr>trow = r, tcol = l\<rparr>"
  "buffer_of (test_screen r l t) s = (if s = 1 then 0x1000000 else 0x1002000)"
  "shell_list (test_screen r l t) [1, 2]" "(test_screen r l t)\<lparr>current_task := u\<rparr> = test_screen r l u"
  by (simp_all add: test_screen_def elf_state.defs task_state.defs process_state.defs screen_state.defs test_elf_def
      get_current_task_shell_def zero_task_def zero_process_def cursor_of_def buffer_of_def zero_shell_def shell_list_def
      All_less_Suc2)

lemma test_screen_ok:
  assumes "unat l < 80"
  shows "screen_ok {1, 2} (test_screen r l t)" and "screen_ok (set [1, 2]) (test_screen r l t)"
    and "window (test_screen r l t) s = \<lparr>wcells = replicate 2048 0, wrow = unat r, wcol = unat l\<rparr>"
proof -
  have zero: "cells (\<lambda>_. 0) v = replicate 2048 0" for v
    by (rule nth_equalityI) (simp_all add: nth_cells load16_def)
  show win: "window (test_screen r l t) s = \<lparr>wcells = replicate 2048 0, wrow = unat r, wcol = unat l\<rparr>" for s
    by (simp add: window_def test_screen_fields zero)
  have "shells_apart {1, 2} (test_screen r l t)"
    by (simp add: shells_apart_def test_screen_fields pages_apart_def)
       (simp add: test_screen_def elf_state.defs task_state.defs process_state.defs screen_state.defs zero_shell_def)
  then show "screen_ok {1, 2} (test_screen r l t)"
    unfolding screen_ok_def using assms by (simp add: win test_screen_fields zero)
  then show "screen_ok (set [1, 2]) (test_screen r l t)" by simp
qed

lemma screen_ok_ram:
  assumes "screen_ok S k" and "\<And>v. v \<in> insert video_mem (buffer_of k ` S) \<Longrightarrow> cells m v = cells (ram k) v"
  shows "screen_ok S (k\<lparr>ram := m\<rparr>)" and "s \<in> S \<Longrightarrow> window (k\<lparr>ram := m\<rparr>) s = window k s"
proof -
  have f: "buffer_of (k\<lparr>ram := m\<rparr>) = buffer_of k" "cursor_of (k\<lparr>ram := m\<rparr>) = cursor_of k"
    by (simp_all add: fun_eq_iff buffer_of_def cursor_of_def)
  show win: "window (k\<lparr>ram := m\<rparr>) s = window k s" if "s \<in> S" for s
    using assms(2) that by (simp add: window_def f)
  have "shells_apart S (k\<lparr>ram := m\<rparr>)" using screen_okD(1) [OF assms(1)] by (simp add: shells_apart_def f)
  then show "screen_ok S (k\<lparr>ram := m\<rparr>)"
    using assms win [of "current_shell k"] unfolding screen_ok_def by (simp add: f)
qed

definition test_page :: screen_state where
  \<comment> \<open>the string \<^verbatim>\<open>Hi\<close>, an end of line and \<^verbatim>\<open>!\<close> lie at \<^verbatim>\<open>0x500\<close>\<close>
  "test_page = (test_screen 3 5 1)\<lparr>ram := (\<lambda>_. 0)(0x500 := 0x48, 0x501 := 0x69, 0x502 := 10, 0x503 := 0x21)\<rparr>"

lemma test_page_ok:
  "screen_ok {1, 2} test_page" "get_current_task_shell test_page = 1" "cstr (ram test_page) 0x500 [0x48, 0x69, 10, 0x21]"
  "off_screen test_page 0x500 (length ([0x48, 0x69, 10, 0x21] :: u8 list))" "window test_page 1 = \<lparr>wcells = replicate 2048 0, wrow = 3, wcol = 5\<rparr>"
proof -
  let ?m = "((\<lambda>_. 0)(0x500 := 0x48, 0x501 := 0x69, 0x502 := 10, 0x503 := 0x21)) :: mem"
  note ok = test_screen_ok [of 5 3 1]
  have away: "x < 4096 \<Longrightarrow> ?m (v + of_nat x) = 0" if "v \<in> {0xB8000, 0x1000000, 0x1002000}" for v x
  proof -
    assume x: "x < 4096"
    then have "unat (v + of_nat x) = unat v + x" using that by (auto simp: unat_add32 unat_of_nat32)
    then have "0x504 \<le> unat (v + of_nat x)" using that by auto
    then have "v + of_nat x \<noteq> 0x500" "v + of_nat x \<noteq> 0x501" "v + of_nat x \<noteq> 0x502" "v + of_nat x \<noteq> 0x503" by auto
    then show ?thesis by simp
  qed
  have same: "cells ?m v = cells (ram (test_screen 3 5 1)) v"
    if "v \<in> insert video_mem (buffer_of (test_screen 3 5 1) ` {1, 2})" for v
  proof (rule cells_cong)
    fix x :: nat assume x: "x < 4096"
    have "v \<in> {0xB8000, 0x1000000, 0x1002000}" using that by (auto simp: test_screen_fields)
    from away [OF this x] show "?m (v + of_nat x) = ram (test_screen 3 5 1) (v + of_nat x)"
      unfolding test_screen_fields .
  qed
  show "screen_ok {1, 2} test_page" unfolding test_page_def by (rule screen_ok_ram(1) [OF _ same]) (use ok(1) in simp_all)
  show "window test_page 1 = \<lparr>wcells = replicate 2048 0, wrow = 3, wcol = 5\<rparr>"
    unfolding test_page_def using screen_ok_ram(2) [OF ok(1) same, where s = 1] ok(3) by simp
  show t: "get_current_task_shell test_page = 1"
    using test_screen_fields(4) [of 3 5 1] by (simp add: test_page_def get_current_task_shell_def)
  show "cstr (ram test_page) 0x500 [0x48, 0x69, 10, 0x21]"
    by (simp add: test_page_def cstr_def All_less_Suc2)
  have "buffer_of test_page 1 = 0x1000000"
    using test_screen_fields(6) [of 3 5 1 1] by (simp add: test_page_def buffer_of_def)
  then show "off_screen test_page 0x500 (length ([0x48, 0x69, 10, 0x21] :: u8 list))"
    unfolding off_screen_def t by (simp add: less_Suc_eq_le [symmetric] All_less_Suc2)
qed

theorem print_spec_witness:
  "\<exists>k'. print 0x500 test_page = Some k' \<and> wrow (window k' 1) = 4 \<and> wcol (window k' 1) = 1
    \<and> wcells (window k' 1) ! 245 = 0xF048 \<and> wcells (window k' 1) ! 246 = 0xF069 \<and> wcells (window k' 1) ! 320 = 0xF021"
proof -
  have "fits [0x48, 0x69, 10, 0x21] (window test_page 1)"
    by (simp add: fits_Cons test_page_ok(5) win_char_def win_put_def) (simp add: fits_def)
  then obtain k' where k': "print 0x500 test_page = Some k'"
    "window k' 1 = fold win_char [0x48, 0x69, 10, 0x21] (window test_page 1)"
    using print_spec [where S = "{1, 2}" and k = test_page and str = "0x500" and cs = "[0x48, 0x69, 10, 0x21]"] test_page_ok
    by auto
  have g: "glyph 0x48 = 0xF048" "glyph 0x69 = 0xF069" "glyph 0x21 = 0xF021"
    by (simp_all add: glyph_def terminal_make_char_def sgn_char_def)
  show ?thesis
    by (rule exI [of _ k']) (simp add: k' test_page_ok(5) win_char_def win_put_def nth_list_update g)
qed

theorem terminal_overruns_buffer_witness:
  "4096 \<le> unat ((0x1001040 :: u32) - buffer_of (test_screen 26 0 1) 1)
    \<and> ram (terminal_writechar 65 PEACHOS_COLOR (test_screen 26 0 1)) 0x1001040 = 65"
proof -
  note ok = test_screen_ok [of 0 26 1]
  show ?thesis
    using terminal_overruns_buffer [where S = "{1, 2}" and k = "test_screen 26 0 1" and c = 65 and a = "0x1001040"] ok(1) ok(3) [of 1]
    by (simp add: test_screen_fields)
qed

theorem terminal_backspace_undoes_witness:
  "\<exists>k'. terminal_writechar 8 PEACHOS_COLOR (terminal_writechar 65 PEACHOS_COLOR (test_screen 3 5 1)) = k'
     \<and> wcol (window k' 1) = 5"
proof -
  note ok = test_screen_ok [of 5 3 1]
  have "\<And>s. window (test_screen 3 5 1) s = \<lparr>wcells = replicate 2048 0, wrow = 3, wcol = 5\<rparr>" using ok(3) by simp
  then show ?thesis
    using terminal_backspace_undoes [where S = "{1, 2}" and k = "test_screen 3 5 1" and c = 65] ok(1)
    unfolding test_screen_fields by auto
qed

theorem terminal_backspace_line_start_witness:
  "\<exists>k'. terminal_writechar 8 PEACHOS_COLOR (test_screen 3 0 2) = k' \<and> cursor_of k' 2 = \<lparr>trow = 3, tcol = 65535\<rparr>"
proof -
  note ok = test_screen_ok [of 0 3 2]
  have "wcol (window (test_screen 3 0 2) 2) = 0" "0 < wrow (window (test_screen 3 0 2) 2)" using ok(3) by simp_all
  then show ?thesis
    using terminal_backspace_line_start [where S = "{1, 2}" and k = "test_screen 3 0 2" and c = 65] ok(1) unfolding test_screen_fields by auto
qed

theorem terminal_backspace_corner_witness:
  "\<exists>k'. terminal_writechar 65 PEACHOS_COLOR ((terminal_writechar 8 PEACHOS_COLOR (test_screen 0 0 1))\<lparr>current_task := 2\<rparr>) = k'
     \<and> cursor_of k' 2 = \<lparr>trow = 0, tcol = 1\<rparr>"
proof -
  note ok = test_screen_ok [of 0 0 1]
  have "wcol (window (test_screen 0 0 1) 1) = 0" "wrow (window (test_screen 0 0 1) 1) = 0" using ok(3) by simp_all
  then show ?thesis
    using terminal_backspace_corner [where S = "{1, 2}" and k = "test_screen 0 0 1" and t = 2 and c = 65] ok(1) unfolding test_screen_fields by auto
qed

theorem shell_switch_round_witness:
  "\<exists>k'. switch_times 1 (test_screen 3 5 1) = Some k' \<and> current_shell k' = 2"
proof -
  note ok = test_screen_ok [of 5 3 1]
  have "(0 :: nat) < length [1, 2 :: u32]" "current_shell (test_screen 3 5 1) = [1, 2] ! 0"
    by (simp_all add: test_screen_fields)
  moreover have "(0 + 1) mod length [1, 2 :: u32] = 1" by simp
  ultimately show ?thesis
    using shell_switch_round [OF ok(2) test_screen_fields(7), where n = 1 and i = 0] by auto
qed

end
