(* ===== verification/Keyboard.thy ===== *)
theory Keyboard
  imports Terminal
begin

text \<open>
  \<^verbatim>\<open>src/src/keyboard/keyboard.c\<close> and \<^verbatim>\<open>src/src/keyboard/classic.c\<close>: the list of keyboard drivers, the
  ring buffer of keys each process has, and the interrupt handler of the PS/2 keyboard.

  Function pointers are values of \<open>interrupt_callback\<close> and \<open>keyboard_init_function\<close>.  The controller is the
  environment: the \<open>n\<close>-th read of a port \<open>q\<close> delivers \<open>port_in k q n\<close>; writes are logged in \<open>port_out\<close>.
\<close>

subsection \<open>State\<close>

datatype keyboard_init_function = No_init | Classic_keyboard_init

datatype interrupt_callback =
  No_callback | Idt_handle_execption | Idt_clock | Classic_keyboard_interrupt_handler

record keyboard_driver =
  kbd_init :: keyboard_init_function
  capslock_state :: int
  next_keyboard :: u32

record kernel_state = screen_state +
  interrupt_callbacks :: "interrupt_callback list"
  keyboards :: "u32 \<Rightarrow> keyboard_driver"
  classic_keyboard :: u32
  keyboard_list_head :: u32
  keyboard_list_last :: u32
  port_in :: "u16 \<Rightarrow> nat \<Rightarrow> u8"
  port_reads :: "u16 \<Rightarrow> nat"
  port_out :: "(u16 \<times> u8) list"
  after_scan_set :: u8  \<comment> \<open>the byte the linker places behind \<open>keyboard_scan_set_one\<close>\<close>

definition PEACHOS_TOTAL_INTERRUPTS :: int where [simp]: "PEACHOS_TOTAL_INTERRUPTS = 512"
definition KEYBOARD_CAPS_LOCK_ON :: int where [simp]: "KEYBOARD_CAPS_LOCK_ON = 1"
definition KEYBOARD_CAPS_LOCK_OFF :: int where [simp]: "KEYBOARD_CAPS_LOCK_OFF = 0"
definition PS2_PORT :: u16 where [simp]: "PS2_PORT = 0x64"
definition KEYBOARD_INPUT_PORT :: u16 where [simp]: "KEYBOARD_INPUT_PORT = 0x60"
definition PS2_COMMAND_ENABLE_FIRST_PORT :: u8 where [simp]: "PS2_COMMAND_ENABLE_FIRST_PORT = 0xAE"
definition CLASSIC_KEYBOARD_KEY_RELEASED :: u8 where [simp]: "CLASSIC_KEYBOARD_KEY_RELEASED = 0x80"
definition CLASSIC_KEYBOARD_CAPSLOCK :: u8 where [simp]: "CLASSIC_KEYBOARD_CAPSLOCK = 0x3A"
definition ISR_KEYBOARD_INTERRUPT :: int where [simp]: "ISR_KEYBOARD_INTERRUPT = 0x21"

definition insb :: "u16 \<Rightarrow> 'a kernel_state_scheme \<Rightarrow> u8 \<times> 'a kernel_state_scheme" where
  "insb q k = (port_in k q (port_reads k q), k\<lparr>port_reads := (port_reads k)(q := Suc (port_reads k q))\<rparr>)"

definition outb :: "u16 \<Rightarrow> u8 \<Rightarrow> 'a kernel_state_scheme \<Rightarrow> 'a kernel_state_scheme" where
  "outb q v k = k\<lparr>port_out := port_out k @ [(q, v)]\<rparr>"

definition idt_register_interrupt_callback :: "int \<Rightarrow> interrupt_callback \<Rightarrow> 'a kernel_state_scheme
    \<Rightarrow> int \<times> 'a kernel_state_scheme" where
  "idt_register_interrupt_callback interrupt f k =
     (if interrupt < 0 \<or> interrupt \<ge> PEACHOS_TOTAL_INTERRUPTS then (- EINVARG, k)
      else (0, k\<lparr>interrupt_callbacks := (interrupt_callbacks k)[nat interrupt := f]\<rparr>))"

subsection \<open>Drivers\<close>

definition keyboard_set_capslock :: "u32 \<Rightarrow> int \<Rightarrow> 'a kernel_state_scheme \<Rightarrow> 'a kernel_state_scheme" where
  "keyboard_set_capslock kb state k = k\<lparr>keyboards := (keyboards k)(kb := (keyboards k kb)\<lparr>capslock_state := state\<rparr>)\<rparr>"

definition keyboard_get_capslock :: "u32 \<Rightarrow> 'a kernel_state_scheme \<Rightarrow> int" where
  "keyboard_get_capslock kb k = capslock_state (keyboards k kb)"

definition classic_keyboard_init :: "'a kernel_state_scheme \<Rightarrow> int \<times> 'a kernel_state_scheme" where
  "classic_keyboard_init k =
     (let (_, k) = idt_register_interrupt_callback ISR_KEYBOARD_INTERRUPT Classic_keyboard_interrupt_handler k;
          k = keyboard_set_capslock (classic_keyboard k) KEYBOARD_CAPS_LOCK_OFF k
      in (0, outb PS2_PORT PS2_COMMAND_ENABLE_FIRST_PORT k))"

definition call_keyboard_init :: "keyboard_init_function \<Rightarrow> 'a kernel_state_scheme \<Rightarrow> int \<times> 'a kernel_state_scheme" where
  \<comment> \<open>\<open>keyboard->init()\<close>\<close>
  "call_keyboard_init f k = (case f of Classic_keyboard_init \<Rightarrow> classic_keyboard_init k | No_init \<Rightarrow> (0, k))"

definition keyboard_insert :: "u32 \<Rightarrow> 'a kernel_state_scheme \<Rightarrow> int \<times> 'a kernel_state_scheme" where
  "keyboard_insert kb k =
     (if kbd_init (keyboards k kb) = No_init then (- EINVARG, k)
      else
        let k = (if keyboard_list_last k \<noteq> 0
                 then k\<lparr>keyboards := (keyboards k)(keyboard_list_last k :=
                             (keyboards k (keyboard_list_last k))\<lparr>next_keyboard := kb\<rparr>),
                        keyboard_list_last := kb\<rparr>
                 else k\<lparr>keyboard_list_head := kb, keyboard_list_last := kb\<rparr>)
        in call_keyboard_init (kbd_init (keyboards k kb)) k)"

definition classic_init :: "'a kernel_state_scheme \<Rightarrow> u32" where
  "classic_init k = classic_keyboard k"

definition keyboard_init :: "'a kernel_state_scheme \<Rightarrow> 'a kernel_state_scheme" where
  "keyboard_init k = snd (keyboard_insert (classic_init k) k)"

subsection \<open>The key buffer of a process\<close>

definition keyboard_get_tail_index :: "keyboard_buffer \<Rightarrow> int" where
  \<comment> \<open>\<open>tail % sizeof(buffer)\<close>, an unsigned remainder\<close>
  "keyboard_get_tail_index b = uint (as_u32 (kb_tail b) mod 1024)"

definition set_keys :: "u32 \<Rightarrow> keyboard_buffer \<Rightarrow> 'a task_state_scheme \<Rightarrow> 'a task_state_scheme" where
  "set_keys p b k = set_proc p ((procs k p)\<lparr>keyboard := b\<rparr>) k"

definition keyboard_backspace :: "u32 \<Rightarrow> 'a task_state_scheme \<Rightarrow> 'a task_state_scheme" where
  "keyboard_backspace p k =
     (let b = keyboard (procs k p);
          b = b\<lparr>kb_tail := kb_tail b - 1\<rparr>
      in set_keys p (b\<lparr>kb_buffer := (kb_buffer b)[nat (keyboard_get_tail_index b) := 0]\<rparr>) k)"

definition keyboard_push :: "u8 \<Rightarrow> 'a process_state_scheme \<Rightarrow> 'a process_state_scheme" where
  "keyboard_push c k =
     (let p = current_process k
      in if p = 0 then k
         else if c = 0 then k
         else let b = keyboard (procs k p)
              in set_keys p (b\<lparr>kb_buffer := (kb_buffer b)[nat (keyboard_get_tail_index b) := c],
                               kb_tail := kb_tail b + 1\<rparr>) k)"

definition keyboard_pop :: "'a process_state_scheme \<Rightarrow> u8 \<times> 'a process_state_scheme" where
  "keyboard_pop k =
     (if current_task k = 0 then (0, k)
      else
        let p = task_process (tasks k (current_task k));
            b = keyboard (procs k p);
            real_index = nat (uint (as_u32 (kb_head b) mod 1024));
            c = kb_buffer b ! real_index
        in if c = 0 then (0, k)
           else (c, set_keys p (b\<lparr>kb_buffer := (kb_buffer b)[real_index := 0], kb_head := kb_head b + 1\<rparr>) k))"

subsection \<open>The PS/2 keyboard\<close>

definition keyboard_scan_set_one :: "u8 list" where
  "keyboard_scan_set_one =
     [0x00, 0x1B, 49, 50, 51, 52, 53,
      54, 55, 56, 57, 48, 45, 61,
      0x08, 9, 81, 87, 69, 82, 84,
      89, 85, 73, 79, 80, 91, 93,
      0x0d, 0x00, 65, 83, 68, 70, 71,
      72, 74, 75, 76, 59, 39, 96,
      0x00, 92, 90, 88, 67, 86, 66,
      78, 77, 44, 46, 47, 0x00, 42,
      0x00, 0x20, 0x00, 0x00, 0x00, 0x00,
      0x00, 0x00, 0x00, 0x00, 0x00, 0x00,
      0x00, 55, 56, 57, 45, 52, 53,
      54, 43, 49, 50, 51, 48, 46]"

definition classic_keyboard_scancode_to_char :: "u8 \<Rightarrow> 'a kernel_state_scheme \<Rightarrow> u8" where
  \<comment> \<open>the bound lets the index one past the end through\<close>
  "classic_keyboard_scancode_to_char scancode k =
     (if length keyboard_scan_set_one < unat scancode then 0
      else
        let c = (keyboard_scan_set_one @ [after_scan_set k]) ! unat scancode
        in if keyboard_get_capslock (classic_keyboard k) k = KEYBOARD_CAPS_LOCK_OFF
              \<and> sgn_char c \<ge> 65 \<and> sgn_char c \<le> 90 then c + 32 else c)"

definition classic_keyboard_interrupt_handler :: "'a kernel_state_scheme \<Rightarrow> 'a kernel_state_scheme option" where
  "classic_keyboard_interrupt_handler k =
     (let k = kernel_page k;
          (scancode, k) = insb KEYBOARD_INPUT_PORT k;
          (_, k) = insb KEYBOARD_INPUT_PORT k
      in if scancode AND CLASSIC_KEYBOARD_KEY_RELEASED \<noteq> 0 then Some k
         else
           let k = (if scancode = CLASSIC_KEYBOARD_CAPSLOCK
                    then let old_state = keyboard_get_capslock (classic_keyboard k) k
                         in keyboard_set_capslock (classic_keyboard k)
                              (if old_state = KEYBOARD_CAPS_LOCK_ON then KEYBOARD_CAPS_LOCK_OFF else KEYBOARD_CAPS_LOCK_ON) k
                    else k);
               c = classic_keyboard_scancode_to_char scancode k
           in if c = 96 then shell_switch_to_next k
              else let k = (if c \<noteq> 0 then keyboard_push c k else k) in Some (task_page k))"

subsection \<open>Queues\<close>

text \<open>
  \<open>source\<close> is what a reader relies on: taking from an empty source gives \<open>nothing\<close> and changes nothing,
  taking from another gives its first element.  A \<open>fifo\<close> is a source with a writer.
\<close>

primrec take_out :: "('s \<Rightarrow> 'x \<times> 's) \<Rightarrow> nat \<Rightarrow> 's \<Rightarrow> 'x list \<times> 's" where
  "take_out deq 0 s = ([], s)"
| "take_out deq (Suc n) s = (let (x, s) = deq s; (xs, s) = take_out deq n s in (x # xs, s))"

locale source =
  fixes rep :: "'s \<Rightarrow> 'x list \<Rightarrow> bool"
    and deq :: "'s \<Rightarrow> 'x \<times> 's"
    and nothing :: 'x
  assumes deq_Nil: "rep s [] \<Longrightarrow> deq s = (nothing, s)"
    and deq_Cons: "rep s (x # q) \<Longrightarrow> fst (deq s) = x \<and> rep (snd (deq s)) q"
begin

lemma drain: "rep s q \<Longrightarrow> \<exists>s'. take_out deq (length q) s = (q, s') \<and> rep s' []"
proof (induction q arbitrary: s)
  case Nil
  then show ?case by simp
next
  case (Cons x q)
  obtain s1 where s1: "deq s = (x, s1)" "rep s1 q" using deq_Cons [OF Cons.prems] by (metis prod.collapse)
  then show ?case using Cons.IH [OF s1(2)] by auto
qed

end

locale fifo = source +
  fixes enq :: "'b \<Rightarrow> 'a \<Rightarrow> 'a"
    and cap :: nat
  assumes enq_rep: "rep s q \<Longrightarrow> length q < cap \<Longrightarrow> x \<noteq> nothing \<Longrightarrow> rep (enq x s) (q @ [x])"
begin

lemma enq_all: "rep s q \<Longrightarrow> length q + length xs \<le> cap \<Longrightarrow> nothing \<notin> set xs \<Longrightarrow> rep (fold enq xs s) (q @ xs)"
proof (induction xs arbitrary: s q)
  case Nil
  then show ?case by simp
next
  case (Cons x xs)
  have "rep (enq x s) (q @ [x])" by (rule enq_rep) (use Cons.prems in auto)
  then show ?case using Cons.IH [of "enq x s" "q @ [x]"] Cons.prems by simp
qed

lemma in_order:
  assumes "rep s q" and "length q + length xs \<le> cap" and "nothing \<notin> set xs"
  shows "\<exists>s'. take_out deq (length q + length xs) (fold enq xs s) = (q @ xs, s') \<and> rep s' []"
  using drain [OF enq_all [OF assms]] by simp

end

subsection \<open>The ring buffer\<close>

text \<open>
  \<open>keys_at b q d\<close>: from \<open>head\<close> on, round the buffer, lie the keys \<open>q\<close> and then only zeros; \<open>tail\<close> is \<open>d\<close>
  cells beyond their end.  The buffer works as a queue while \<open>d = 0\<close>.
\<close>

definition keys_at :: "keyboard_buffer \<Rightarrow> u8 list \<Rightarrow> nat \<Rightarrow> bool" where
  "keys_at b q d \<longleftrightarrow> length (kb_buffer b) = 1024 \<and> length q \<le> 1024 \<and> 0 \<notin> set q
     \<and> kb_tail b = kb_head b + int (length q + d)
     \<and> (\<forall>i < 1024. kb_buffer b ! nat ((kb_head b + int i) mod 1024) = (if i < length q then q ! i else 0))"

definition key_state :: "u32 \<Rightarrow> nat \<Rightarrow> 'a process_state_scheme \<Rightarrow> u8 list \<Rightarrow> bool" where
  \<comment> \<open>process \<open>p\<close> is the one keys go to and the one that runs\<close>
  "key_state p d k q \<longleftrightarrow> p \<noteq> 0 \<and> current_process k = p \<and> current_task k \<noteq> 0
     \<and> task_process (tasks k (current_task k)) = p \<and> keys_at (keyboard (procs k p)) q d"

lemma index_mod: "uint (as_u32 x mod 1024) = x mod 1024"
proof -
  have "uint (as_u32 x mod 1024) = (x mod 4294967296) mod 1024"
    by (simp add: as_u32_def uint_mod unsigned_of_int take_bit_eq_mod)
  also have "\<dots> = x mod 1024" by (rule mod_mod_cancel) simp
  finally show ?thesis .
qed

lemma ring_inj: "i < 1024 \<Longrightarrow> j < 1024 \<Longrightarrow> (h + int i) mod 1024 = (h + int j) mod 1024 \<longleftrightarrow> i = j"
proof
  assume *: "i < 1024" "j < 1024" "(h + int i) mod 1024 = (h + int j) mod 1024"
  then have "1024 dvd (int i - int j)" by (simp add: mod_eq_dvd_iff)
  then obtain m where m: "int i - int j = 1024 * m" by (elim dvdE)
  then have "- 1024 < 1024 * m" "1024 * m < 1024" using *(1,2) by linarith+
  then have "m = 0" by linarith
  then show "i = j" using m by simp
qed simp

lemma ring_at:
  fixes buf :: "u8 list"
  assumes "length buf = 1024" and "i < 1024" and "j < 1024"
  shows "(buf[nat ((h + int i) mod 1024) := c]) ! nat ((h + int j) mod 1024) =
    (if j = i then c else buf ! nat ((h + int j) mod 1024))"
proof -
  have lt: "nat ((h + int n) mod 1024) < 1024" for n by (simp add: nat_less_iff)
  have "nat ((h + int i) mod 1024) = nat ((h + int j) mod 1024) \<longleftrightarrow> i = j"
    using ring_inj [OF assms(2,3)] by (simp add: eq_nat_nat_iff)
  then show ?thesis using assms(1) lt [of i] lt [of j] by (auto simp: nth_list_update)
qed

lemma keys_push:
  assumes "keys_at b q 0" and "length q < 1024" and "c \<noteq> 0"
  shows "keys_at (b\<lparr>kb_buffer := (kb_buffer b)[nat (keyboard_get_tail_index b) := c], kb_tail := kb_tail b + 1\<rparr>) (q @ [c]) 0"
proof -
  have ix: "keyboard_get_tail_index b = (kb_head b + int (length q)) mod 1024"
    using assms(1) by (simp add: keyboard_get_tail_index_def index_mod keys_at_def)
  show ?thesis
    using assms unfolding keys_at_def ix by (auto simp: ring_at nth_append)
qed

lemma keys_pop:
  assumes "keys_at b (x # q) d"
  shows "kb_buffer b ! nat (uint (as_u32 (kb_head b) mod 1024)) = x" and "x \<noteq> 0"
    and "keys_at (b\<lparr>kb_buffer := (kb_buffer b)[nat (uint (as_u32 (kb_head b) mod 1024)) := 0], kb_head := kb_head b + 1\<rparr>) q d"
proof -
  have cells: "kb_buffer b ! nat ((kb_head b + int i) mod 1024) = (if i < Suc (length q) then (x # q) ! i else 0)"
    if "i < 1024" for i
    using assms that by (simp add: keys_at_def)
  show "kb_buffer b ! nat (uint (as_u32 (kb_head b) mod 1024)) = x"
    using cells [of 0] by (simp add: index_mod)
  show "x \<noteq> 0" using assms by (auto simp: keys_at_def)
  have len: "length (kb_buffer b) = 1024" using assms by (simp add: keys_at_def)
  have "(kb_buffer b)[nat (kb_head b mod 1024) := 0] ! nat ((kb_head b + 1 + int i) mod 1024) =
      (if i < length q then q ! i else 0)" if i: "i < 1024" for i
  proof (cases "i = 1023")
    case True
    then have "(kb_head b + 1 + int i) mod 1024 = kb_head b mod 1024" by (simp add: add.assoc)
    moreover have "length q \<le> i" using assms True by (simp add: keys_at_def)
    ultimately show ?thesis using len by (simp add: nat_less_iff)
  next
    case False
    then have s: "Suc i < 1024" using i by simp
    have "kb_head b + 1 + int i = kb_head b + int (Suc i)" by simp
    then show ?thesis
      using ring_at [OF len, of 0 "Suc i" "kb_head b" 0] cells [OF s] s by (simp only: of_nat_0 add_0_right) simp
  qed
  then show "keys_at (b\<lparr>kb_buffer := (kb_buffer b)[nat (uint (as_u32 (kb_head b) mod 1024)) := 0], kb_head := kb_head b + 1\<rparr>) q d"
    using assms unfolding keys_at_def index_mod by auto
qed

lemma keys_empty:
  "keys_at b [] d \<Longrightarrow> kb_buffer b ! nat (uint (as_u32 (kb_head b) mod 1024)) = 0"
proof -
  assume "keys_at b [] d"
  then have "kb_buffer b ! nat ((kb_head b + int 0) mod 1024) = 0" unfolding keys_at_def by fastforce
  then show ?thesis by (simp add: index_mod)
qed

lemma key_state_pop:
  "key_state p d k [] \<Longrightarrow> keyboard_pop k = (0, k)"
  "key_state p d k (x # q) \<Longrightarrow> fst (keyboard_pop k) = x \<and> key_state p d (snd (keyboard_pop k)) q"
  using keys_empty keys_pop
  by (auto simp: key_state_def keyboard_pop_def Let_def set_keys_def set_proc_def)

lemma key_state_push:
  "key_state p 0 k q \<Longrightarrow> length q < 1024 \<Longrightarrow> c \<noteq> 0 \<Longrightarrow> key_state p 0 (keyboard_push c k) (q @ [c])"
  using keys_push by (auto simp: key_state_def keyboard_push_def Let_def set_keys_def set_proc_def)

interpretation keys: fifo "key_state p 0" keyboard_pop 0 keyboard_push 1024
  for p
  by unfold_locales (fact key_state_pop key_state_push)+

interpretation shifted_keys: source "key_state p d" keyboard_pop 0
  for p and d
  by unfold_locales (fact key_state_pop)+

text \<open>
  C16: typed keys arrive in order.  While the process in the foreground is the one that runs, pushing keys
  into its buffer and popping them again gives back what was in the buffer and then the keys, in the order
  typed, as long as no more than 1024 are pending; after that \<open>keyboard_pop\<close> returns 0 and changes
  nothing.  The positions \<open>head\<close> and \<open>tail\<close> may have gone round the buffer any number of times.
\<close>
theorem keyboard_fifo:
  assumes "key_state p 0 k q" and "length q + length cs \<le> 1024" and "0 \<notin> set cs"
  shows "\<exists>k'. take_out keyboard_pop (length q + length cs) (fold keyboard_push cs k) = (q @ cs, k')
    \<and> key_state p 0 k' [] \<and> keyboard_pop k' = (0, k')"
  using keys.in_order [OF assms] keys.deq_Nil by blast

lemma push_full:
  assumes "key_state p 0 k q" and "length q = 1024" and "c \<noteq> 0"
  shows "key_state p 1 (keyboard_push c k) (c # tl q)"
proof -
  let ?b = "keyboard (procs k p)"
  have b: "keys_at ?b q 0" using assms(1) by (simp add: key_state_def)
  then have len: "length (kb_buffer ?b) = 1024" and tail: "kb_tail ?b = kb_head ?b + 1024"
    and cell: "\<And>i. i < 1024 \<Longrightarrow> kb_buffer ?b ! nat ((kb_head ?b + int i) mod 1024) = q ! i"
    using assms(2) by (simp_all add: keys_at_def)
  have nth: "(c # tl q) ! i = (if i = 0 then c else q ! i)" if "i < 1024" for i
    using assms(2) that by (cases i) (simp_all add: nth_tl)
  have ix: "keyboard_get_tail_index ?b = (kb_head ?b + int 0) mod 1024"
    by (simp add: keyboard_get_tail_index_def index_mod tail)
  have "(kb_buffer ?b)[nat (keyboard_get_tail_index ?b) := c] ! nat ((kb_head ?b + int i) mod 1024) = (c # tl q) ! i"
    if "i < 1024" for i
    unfolding ix by (subst ring_at [OF len _ that]) (use cell [OF that] nth [OF that] in simp_all)
  moreover have "0 \<notin> set (c # tl q)"
    using b assms(3) unfolding keys_at_def by (auto dest: list.set_sel(2) [rotated] simp: in_set_conv_nth nth_tl)
  ultimately have "keys_at (?b\<lparr>kb_buffer := (kb_buffer ?b)[nat (keyboard_get_tail_index ?b) := c], kb_tail := kb_tail ?b + 1\<rparr>)
      (c # tl q) 1"
    using assms(2) len tail by (simp add: keys_at_def)
  then show ?thesis
    using assms(1,3) by (simp add: key_state_def keyboard_push_def Let_def set_keys_def set_proc_def)
qed

lemma push_shifted:
  assumes "key_state p 1 k []" and "c \<noteq> 0"
  shows "fst (keyboard_pop (keyboard_push c k)) = 0"
proof -
  let ?b = "keyboard (procs k p)"
  have b: "keys_at ?b [] 1" using assms(1) by (simp add: key_state_def)
  then have len: "length (kb_buffer ?b) = 1024" and tail: "kb_tail ?b = kb_head ?b + 1" by (simp_all add: keys_at_def)
  have ix: "keyboard_get_tail_index ?b = (kb_head ?b + int 1) mod 1024"
    by (simp add: keyboard_get_tail_index_def index_mod tail)
  have "(kb_buffer ?b)[nat (keyboard_get_tail_index ?b) := c] ! nat ((kb_head ?b + int 0) mod 1024) = 0"
    unfolding ix by (subst ring_at [OF len]) (use keys_empty [OF b] in \<open>simp_all add: index_mod\<close>)
  then show ?thesis
    using assms by (simp add: key_state_def keyboard_push_def keyboard_pop_def Let_def set_keys_def set_proc_def index_mod)
qed

text \<open>
  overrunning the key buffer.  \<open>keyboard_push\<close> does not see that the 1024 cells are full: the new key
  replaces the oldest and comes out before all the others, and from then on \<open>tail\<close> is a cell ahead of the
  end of the keys, so that, once the buffer has been emptied, the next key typed is not found by
  \<open>keyboard_pop\<close>.
\<close>
theorem keyboard_overrun:
  assumes "key_state p 0 k q" and "length q = 1024" and "c \<noteq> 0" and "c' \<noteq> 0"
  shows "\<exists>k'. take_out keyboard_pop 1024 (keyboard_push c k) = (c # tl q, k')
    \<and> fst (keyboard_pop (keyboard_push c' k')) = 0"
proof -
  have "length (c # tl q) = 1024" using assms(2) by simp
  then obtain k' where k': "take_out keyboard_pop 1024 (keyboard_push c k) = (c # tl q, k')" "key_state p 1 k' []"
    using shifted_keys.drain [OF push_full [OF assms(1-3)]] by metis
  then show ?thesis using push_shifted [OF k'(2) assms(4)] by blast
qed

subsection \<open>A key press\<close>

lemma kernel_page_fields [simp]:
  "procs (kernel_page k) = procs k" "tasks (kernel_page k) = tasks k" "ram (kernel_page k) = ram k"
  "current_task (kernel_page k) = current_task k" "kernel_heap (kernel_page k) = kernel_heap k"
  "task_head (kernel_page k) = task_head k" "kernel_chunk (kernel_page k) = kernel_chunk k"
  by (simp_all add: kernel_page_def kernel_registers_def paging_switch_def paging_load_directory_def Let_def)

lemma kernel_page_outer [simp]:
  "current_process (kernel_page k) = current_process (k :: 'a kernel_state_scheme)"
  "keyboards (kernel_page k) = keyboards k" "classic_keyboard (kernel_page k) = classic_keyboard k"
  "port_in (kernel_page k) = port_in k" "port_reads (kernel_page k) = port_reads k"
  "after_scan_set (kernel_page k) = after_scan_set k"
  by (simp_all add: kernel_page_def kernel_registers_def paging_switch_def paging_load_directory_def Let_def)

text \<open>
  the keyboard interrupt.  A key press whose scan code stands for a character other than the switch
  key appends that character, with Caps Lock off in lower case, to the buffer of the process in the
  foreground, whichever task was interrupted; no other process gets it, and the handler ends in the
  address space of the interrupted task with the user's data segments.
\<close>
theorem classic_keyboard_key_press:
  assumes "scancode = port_in k 0x60 (port_reads k 0x60)" and "scancode AND 0x80 = 0" and "scancode \<noteq> 0x3A"
    and "c = classic_keyboard_scancode_to_char scancode k" and "c \<noteq> 0" and "c \<noteq> 96"
    and "current_process k \<noteq> 0" and "keys_at (keyboard (procs k (current_process k))) q 0" and "length q < 1024"
  shows "\<exists>k'. classic_keyboard_interrupt_handler k = Some k' \<and> current_process k' = current_process k
    \<and> keys_at (keyboard (procs k' (current_process k))) (q @ [c]) 0
    \<and> (\<forall>p. p \<noteq> current_process k \<longrightarrow> procs k' p = procs k p) \<and> ram k' = ram k
    \<and> cr3 k' = directory_entry (ram k) (page_directory (tasks k (current_task k))) \<and> data_selector k' = USER_DATA_SEGMENT"
proof -
  let ?k = "snd (insb KEYBOARD_INPUT_PORT (snd (insb KEYBOARD_INPUT_PORT (kernel_page k))))"
  have same: "classic_keyboard_scancode_to_char scancode ?k = c"
    unfolding assms(4) classic_keyboard_scancode_to_char_def by (simp add: insb_def keyboard_get_capslock_def)
  have "classic_keyboard_interrupt_handler k = Some (task_page (keyboard_push c ?k))"
    using assms(1-3,5,6) same
    by (simp add: classic_keyboard_interrupt_handler_def insb_def Let_def)
  moreover have "keys_at (keyboard (procs (task_page (keyboard_push c ?k)) (current_process k))) (q @ [c]) 0"
    using keys_push [OF assms(8,9,5)] assms(5,7)
    by (simp add: task_page_def user_registers_def task_switch_def paging_switch_def paging_load_directory_def keyboard_push_def insb_def Let_def
        set_keys_def set_proc_def)
  ultimately show ?thesis
    using assms(5,7)
    by (simp add: task_page_def user_registers_def task_switch_def paging_switch_def paging_load_directory_def keyboard_push_def insb_def Let_def
        set_keys_def set_proc_def)
qed

text \<open>
  The table leaves out Num Lock and Scroll Lock: Num Lock types a 7 and the keypad is shifted by two keys.
  The bound of the lookup admits the index one past its end.
\<close>

lemma classic_keyboard_keypad:
  "classic_keyboard_scancode_to_char 0x45 k = 55" "classic_keyboard_scancode_to_char 0x47 k = 57"
  by (simp_all add: classic_keyboard_scancode_to_char_def keyboard_scan_set_one_def sgn_char_def)

lemma classic_keyboard_past_end:
  "sgn_char (after_scan_set k) < 65 \<Longrightarrow> classic_keyboard_scancode_to_char 0x52 k = after_scan_set k"
  by (simp add: classic_keyboard_scancode_to_char_def keyboard_scan_set_one_def nth_append Let_def)

subsection \<open>Instances\<close>

definition test_kernel :: "u8 \<Rightarrow> kernel_state" where
  "test_kernel sc = screen_state.extend (test_screen 3 5 2)
     (kernel_state.fields (replicate 512 No_callback)
       (\<lambda>_. \<lparr>kbd_init = Classic_keyboard_init, capslock_state = 0, next_keyboard = 0\<rparr>) 4 0 0 (\<lambda>_ _. sc) (\<lambda>_. 0) [] 0)"

lemma test_keys:
  "keys_at \<lparr>kb_buffer = replicate 1024 0, kb_tail = 0, kb_head = 0\<rparr> [] 0" "key_state 1 0 (test_screen 3 5 1) []"
proof -
  show 1: "keys_at \<lparr>kb_buffer = replicate 1024 0, kb_tail = 0, kb_head = 0\<rparr> [] 0"
    by (simp add: keys_at_def nat_less_iff)
  then show "key_state 1 0 (test_screen 3 5 1) []"
    by (simp add: key_state_def test_screen_def elf_state.defs task_state.defs process_state.defs screen_state.defs
        zero_task_def zero_process_def)
qed

theorem keyboard_fifo_witness:
  "\<exists>k'. take_out keyboard_pop 2 (fold keyboard_push [104, 105] (test_screen 3 5 1)) = ([104, 105], k')"
proof -
  have "length ([] :: u8 list) + length [104, 105 :: u8] \<le> 1024" "0 \<notin> set [104, 105 :: u8]" by simp_all
  from keyboard_fifo [OF test_keys(2) this] show ?thesis by (simp only: list.size numeral_2_eq_2 add_0 append_Nil) auto
qed

theorem keyboard_overrun_witness:
  "\<exists>k' :: screen_state. fst (keyboard_pop (keyboard_push 65 k')) = 0"
proof -
  have "key_state 1 0 (fold keyboard_push (replicate 1024 66) (test_screen 3 5 1)) ([] @ replicate 1024 66)"
    by (rule keys.enq_all [OF test_keys(2)]) simp_all
  from keyboard_overrun [OF this, of 67 65] show ?thesis by auto
qed

theorem classic_keyboard_key_press_witness:
  "\<exists>k'. classic_keyboard_interrupt_handler (test_kernel 0x10) = Some k' \<and> keys_at (keyboard (procs k' 1)) [113] 0"
proof -
  let ?k = "test_kernel 0x10"
  have f: "port_in ?k = (\<lambda>_ _. 0x10)" "current_process ?k = 1" "keyboards ?k (classic_keyboard ?k) =
      \<lparr>kbd_init = Classic_keyboard_init, capslock_state = 0, next_keyboard = 0\<rparr>"
    "keyboard (procs ?k 1) = \<lparr>kb_buffer = replicate 1024 0, kb_tail = 0, kb_head = 0\<rparr>"
    by (simp_all add: test_kernel_def test_screen_def elf_state.defs task_state.defs process_state.defs screen_state.defs
        kernel_state.defs zero_process_def)
  have "113 = classic_keyboard_scancode_to_char 0x10 ?k"
    by (simp add: classic_keyboard_scancode_to_char_def keyboard_get_capslock_def f keyboard_scan_set_one_def sgn_char_def)
  then show ?thesis
    using classic_keyboard_key_press [of "0x10" ?k 113 "[]"] test_keys(1) by (simp add: f) blast
qed

end
