(* ===== verification/Interrupts.thy ===== *)
theory Interrupts
  imports Keyboard
begin

text \<open>
  \<^verbatim>\<open>src/src/idt/idt.c\<close>, the interrupt stubs of \<^verbatim>\<open>src/src/idt/idt.asm\<close> and the system calls of
  \<^verbatim>\<open>src/src/isr80h/\<close>: the descriptor table, the tables of callbacks and commands, and what happens
  between an interrupt and the return to user mode.

  A handler either returns or leaves for user mode through \<open>task_return\<close> (\<open>outcome\<close>); \<open>None\<close> is a panic, a
  page fault of the kernel or a loop without end.  The commands are values of \<open>isr80h_command\<close>.
\<close>

subsection \<open>State\<close>

record idt_desc =
  offset_1 :: u16
  selector :: u16
  zero_byte :: u8
  type_attr :: u8
  offset_2 :: u16

record idtr_desc =
  idtr_limit :: u16
  idtr_base :: u32

datatype isr80h_command =
  No_command | Command0_sum | Command1_print | Command2_getkey | Command3_putchar | Command4_malloc
  | Command5_free | Command6_process_load_start | Command7_invoke_system_command
  | Command8_get_program_arguments | Command9_exit

record sys_state = kernel_state +
  isr80h_commands :: "isr80h_command list"
  idt_descriptors :: "idt_desc list"
  idtr_descriptor :: idtr_desc
  clock_c :: int  \<comment> \<open>the variable \<open>c\<close> of \<open>idt.c\<close>\<close>

text \<open>
  What the model does not compute: the functions of the filesystems, addresses of literals and of local
  arrays (\<open>buf\<close>, \<open>filename\<close>, \<open>path\<close>), uninitialised locals, the kernel's flags at \<open>task_return\<close>.
\<close>

record 'k sys_env =
  fs_functions :: "u32 \<Rightarrow> 'k filesystem"
  lit_r :: u32
  stat_init :: file_stat
  junk_process :: u32
  buf_at :: u32
  filename_at :: u32
  path_at :: u32
  lit_root :: u32  \<comment> \<open>the literal \<open>"0:/"\<close>\<close>
  kernel_flags :: u32

datatype ('v, 'k) outcome = Returned 'v 'k | Entered registers 'k

definition KERNEL_CODE_SELECTOR :: u16 where [simp]: "KERNEL_CODE_SELECTOR = 8"
definition PEACHOS_MAX_ISR80H_COMMANDS :: int where [simp]: "PEACHOS_MAX_ISR80H_COMMANDS = 1024"

subsection \<open>The descriptor table\<close>

definition idt_set :: "int \<Rightarrow> u32 \<Rightarrow> 'a sys_state_scheme \<Rightarrow> 'a sys_state_scheme" where
  "idt_set interrupt_no address k = k\<lparr>idt_descriptors := (idt_descriptors k)[nat interrupt_no :=
     \<lparr>offset_1 = ucast (address AND 0x0000ffff), selector = KERNEL_CODE_SELECTOR, zero_byte = 0,
      type_attr = 0xEE, offset_2 = ucast (drop_bit 16 address)\<rparr>]\<rparr>"

definition idt_zero_descriptor :: idt_desc where
  "idt_zero_descriptor = \<lparr>offset_1 = 0, selector = 0, zero_byte = 0, type_attr = 0, offset_2 = 0\<rparr>"

definition idt_init :: "u32 list \<Rightarrow> u32 \<Rightarrow> u32 \<Rightarrow> 'a sys_state_scheme \<Rightarrow> 'a sys_state_scheme" where
  \<comment> \<open>\<open>stubs\<close> is \<open>interrupt_pointer_table\<close>, \<open>wrapper\<close> the address of \<open>isr80h_wrapper\<close>, \<open>table\<close> that of \<open>idt_descriptors\<close>\<close>
  "idt_init stubs wrapper table k =
     (let k = k\<lparr>idt_descriptors := replicate (nat PEACHOS_TOTAL_INTERRUPTS) idt_zero_descriptor\<rparr>;
          k = k\<lparr>idtr_descriptor := \<lparr>idtr_limit = word_of_int (8 * PEACHOS_TOTAL_INTERRUPTS - 1), idtr_base = table\<rparr>\<rparr>;
          k = fold (\<lambda>i. idt_set (int i) (stubs ! i)) [0..<nat PEACHOS_TOTAL_INTERRUPTS] k;
          k = idt_set 0x80 wrapper k;
          k = fold (\<lambda>i k. snd (idt_register_interrupt_callback (int i) Idt_handle_execption k)) [0..<0x20] k
      in snd (idt_register_interrupt_callback 0x20 Idt_clock k))"

definition no_interrupt_handler :: "'a kernel_state_scheme \<Rightarrow> 'a kernel_state_scheme" where
  "no_interrupt_handler k = outb 0x20 0x20 k"

definition idt_zero :: "u32 \<Rightarrow> 'a screen_state_scheme \<Rightarrow> 'a screen_state_scheme option" where
  \<comment> \<open>the argument is the address of \<open>"Divide by zero error\n"\<close>\<close>
  "idt_zero message k = print message k"

subsection \<open>Callbacks\<close>

definition enter :: "(registers \<times> 'k) option \<Rightarrow> ('v, 'k) outcome option" where
  \<comment> \<open>\<open>task_next\<close> and \<open>task_return\<close> do not return to their caller\<close>
  "enter r = map_option (\<lambda>(regs, k). Entered regs k) r"

definition idt_handle_execption :: "'a sys_state_scheme sys_env \<Rightarrow> 'a sys_state_scheme
    \<Rightarrow> (unit, 'a sys_state_scheme) outcome option" where
  "idt_handle_execption e k =
     do { (_, k) \<leftarrow> process_terminate (task_process (tasks k (current_task k))) k;
          enter (task_next (kernel_flags e) k) }"

definition idt_clock :: "'a sys_state_scheme sys_env \<Rightarrow> 'a sys_state_scheme
    \<Rightarrow> (unit, 'a sys_state_scheme) outcome option" where
  "idt_clock e k =
     (let k = outb 0x20 0x20 k
      in if clock_c k < 10 then Some (Returned () (k\<lparr>clock_c := clock_c k + 1\<rparr>))
         else enter (task_next (kernel_flags e) k))"

definition call_interrupt_callback :: "interrupt_callback \<Rightarrow> 'a sys_state_scheme sys_env \<Rightarrow> 'a sys_state_scheme
    \<Rightarrow> (unit, 'a sys_state_scheme) outcome option" where
  "call_interrupt_callback f e k =
     (case f of No_callback \<Rightarrow> Some (Returned () k)
      | Idt_handle_execption \<Rightarrow> idt_handle_execption e k
      | Idt_clock \<Rightarrow> idt_clock e k
      | Classic_keyboard_interrupt_handler \<Rightarrow> map_option (Returned ()) (classic_keyboard_interrupt_handler k))"

definition interrupt_handler :: "'a sys_state_scheme sys_env \<Rightarrow> nat \<Rightarrow> interrupt_frame \<Rightarrow> 'a sys_state_scheme
    \<Rightarrow> (unit, 'a sys_state_scheme) outcome option" where
  "interrupt_handler e interrupt frame k =
     (let k = kernel_page k;
          f = interrupt_callbacks k ! interrupt
      in do { r \<leftarrow> (if f \<noteq> No_callback
                    then do { k \<leftarrow> task_current_save_state frame k; call_interrupt_callback f e k }
                    else Some (Returned () k));
              case r of Entered regs k \<Rightarrow> Some (Entered regs k)
              | Returned _ k \<Rightarrow> Some (Returned () (outb 0x20 0x20 (task_page k))) })"

subsection \<open>Stubs\<close>

definition frame_of :: "registers \<Rightarrow> u32 \<Rightarrow> interrupt_frame" where
  \<comment> \<open>what the processor and \<open>pushad\<close> push for an interrupt in user mode; \<open>esp0\<close> is pushed by \<open>pushad\<close>\<close>
  "frame_of regs esp0 = \<lparr>f_edi = r_edi regs, f_esi = r_esi regs, f_ebp = r_ebp regs, f_reserved = esp0,
     f_ebx = r_ebx regs, f_edx = r_edx regs, f_ecx = r_ecx regs, f_eax = r_eax regs, f_ip = r_ip regs,
     f_cs = r_cs regs, f_flags = r_flags regs, f_esp = r_esp regs, f_ss = r_ss regs\<rparr>"

definition int_stub :: "'a sys_state_scheme sys_env \<Rightarrow> nat \<Rightarrow> u32 \<Rightarrow> registers \<times> 'a sys_state_scheme
    \<Rightarrow> (registers \<times> 'a sys_state_scheme) option" where
  \<comment> \<open>\<open>int0\<close> to \<open>int511\<close>: \<open>popad\<close> and \<open>iret\<close> restore the interrupted registers\<close>
  "int_stub e interrupt esp0 u =
     (case interrupt_handler e interrupt (frame_of (fst u) esp0) (snd u) of
        None \<Rightarrow> None
      | Some (Returned _ k) \<Rightarrow> Some (fst u, k)
      | Some (Entered regs k) \<Rightarrow> Some (regs, k))"

subsection \<open>System calls\<close>

definition isr80h_command0_sum :: "'a task_state_scheme \<Rightarrow> (u32 \<times> 'a task_state_scheme) option" where
  "isr80h_command0_sum k =
     do { (v2, k) \<leftarrow> task_get_stack_item (current_task k) 1 k;
          (v1, k) \<leftarrow> task_get_stack_item (current_task k) 0 k;
          Some (v1 + v2, k) }"

definition isr80h_command1_print :: "'a sys_state_scheme sys_env \<Rightarrow> 'a sys_state_scheme
    \<Rightarrow> (u32 \<times> 'a sys_state_scheme) option" where
  "isr80h_command1_print e k =
     do { (msg, k) \<leftarrow> task_get_stack_item (current_task k) 0 k;
          (_, k) \<leftarrow> copy_string_from_task (current_task k) msg (buf_at e) 1024 k;
          k \<leftarrow> print (buf_at e) k;
          Some (0, k) }"

definition isr80h_command2_getKey :: "'a process_state_scheme \<Rightarrow> (u32 \<times> 'a process_state_scheme) option" where
  "isr80h_command2_getKey k = (let (c, k) = keyboard_pop k in Some (as_u32 (sgn_char c), k))"

definition isr80h_command3_putchar :: "'a screen_state_scheme \<Rightarrow> (u32 \<times> 'a screen_state_scheme) option" where
  "isr80h_command3_putchar k =
     do { (c, k) \<leftarrow> task_get_stack_item (current_task k) 0 k;
          Some (0, terminal_writechar (ucast c) PEACHOS_COLOR k) }"

definition isr80h_command4_malloc :: "'a task_state_scheme \<Rightarrow> (u32 \<times> 'a task_state_scheme) option" where
  "isr80h_command4_malloc k =
     do { (sz, k) \<leftarrow> task_get_stack_item (current_task k) 0 k;
          Some (process_malloc (task_process (tasks k (current_task k))) sz k) }"

definition isr80h_command5_free :: "'a task_state_scheme \<Rightarrow> (u32 \<times> 'a task_state_scheme) option" where
  "isr80h_command5_free k =
     do { (ptr_to_free, k) \<leftarrow> task_get_stack_item (current_task k) 0 k;
          Some (0, process_free (task_process (tasks k (current_task k))) ptr_to_free k) }"

definition start_process :: "'a sys_state_scheme sys_env \<Rightarrow> u32 \<Rightarrow> 'a sys_state_scheme
    \<Rightarrow> (u32, 'a sys_state_scheme) outcome option" where
  \<comment> \<open>\<open>task_switch(process->task); task_return(&process->task->registers)\<close>\<close>
  "start_process e p k =
     (let t = process_task (procs k p); k = task_switch t k
      in enter (Some (task_return (kernel_flags e) (task_regs (tasks k t)) k)))"

definition isr80h_command6_process_load_start :: "'a sys_state_scheme sys_env \<Rightarrow> 'a sys_state_scheme
    \<Rightarrow> (u32, 'a sys_state_scheme) outcome option" where
  "isr80h_command6_process_load_start e k =
     do { (filename_user_ptr, k) \<leftarrow> task_get_stack_item (current_task k) 0 k;
          (res, k) \<leftarrow> copy_string_from_task (current_task k) filename_user_ptr (filename_at e) PEACHOS_MAX_PATH k;
          if res < 0 then Some (Returned 0 k)
          else do { (_, m) \<leftarrow> strcpy (ram k) (path_at e) (lit_root e);
                    (_, m) \<leftarrow> strcpy m (path_at e + 3) (filename_at e);
                    (res, p, k) \<leftarrow> process_load_switch (fs_functions e) (lit_r e) (stat_init e) (junk_process e)
                      (path_at e) 0 (k\<lparr>ram := m\<rparr>);
                    if res < 0 then Some (Returned 0 k) else start_process e p k } }"

definition isr80h_command7_invoke_system_command :: "'a sys_state_scheme sys_env \<Rightarrow> 'a sys_state_scheme
    \<Rightarrow> (u32, 'a sys_state_scheme) outcome option" where
  "isr80h_command7_invoke_system_command e k =
     do { (va, k) \<leftarrow> task_get_stack_item (current_task k) 0 k;
          let args = task_virtual_address_to_physical (current_task k) va k;
          empty \<leftarrow> (if args = 0 then Some True else map_option (\<lambda>n. n = 0) (strlen (ram k) args));
          if empty then Some (Returned (ERROR (- EINVARG)) k)
          else do { (_, m) \<leftarrow> strcpy (ram k) (path_at e) (lit_root e);
                    let (_, m) = strncpy m (path_at e + 3) args PEACHOS_MAX_PATH;
                    (res, p, k) \<leftarrow> process_load_switch (fs_functions e) (lit_r e) (stat_init e) (junk_process e)
                      (path_at e) 0 (k\<lparr>ram := m\<rparr>);
                    if res < 0 then Some (Returned (ERROR res) k)
                    else do { (res, k) \<leftarrow> process_inject_arguments p args k;
                              if res < 0 then Some (Returned (ERROR res) k) else start_process e p k } } }"

definition isr80h_command8_get_program_arguments :: "'a task_state_scheme \<Rightarrow> (u32 \<times> 'a task_state_scheme) option" where
  "isr80h_command8_get_program_arguments k =
     do { (va, k) \<leftarrow> task_get_stack_item (current_task k) 0 k;
          let args = task_virtual_address_to_physical (current_task k) va k;
          let (ac, av) = process_get_arguments (task_process (tasks k (current_task k))) k;
          Some (0, k\<lparr>ram := store32 (store32 (ram k) args (as_u32 ac)) (args + 4) av\<rparr>) }"

definition isr80h_command9_exit :: "'a sys_state_scheme sys_env \<Rightarrow> 'a sys_state_scheme
    \<Rightarrow> (u32, 'a sys_state_scheme) outcome option" where
  "isr80h_command9_exit e k =
     do { (_, k) \<leftarrow> process_terminate (task_process (tasks k (current_task k))) k;
          enter (task_next (kernel_flags e) k) }"

definition isr80h_register_command :: "int \<Rightarrow> isr80h_command \<Rightarrow> 'a sys_state_scheme \<Rightarrow> 'a sys_state_scheme option" where
  "isr80h_register_command command_id f k =
     (if command_id < 0 \<or> command_id \<ge> PEACHOS_MAX_ISR80H_COMMANDS then None
      else if isr80h_commands k ! nat command_id \<noteq> No_command then None
      else Some (k\<lparr>isr80h_commands := (isr80h_commands k)[nat command_id := f]\<rparr>))"

definition isr80h_register_commands :: "'a sys_state_scheme \<Rightarrow> 'a sys_state_scheme option" where
  "isr80h_register_commands k =
     do { k \<leftarrow> isr80h_register_command 0 Command0_sum k;
          k \<leftarrow> isr80h_register_command 1 Command1_print k;
          k \<leftarrow> isr80h_register_command 2 Command2_getkey k;
          k \<leftarrow> isr80h_register_command 3 Command3_putchar k;
          k \<leftarrow> isr80h_register_command 4 Command4_malloc k;
          k \<leftarrow> isr80h_register_command 5 Command5_free k;
          k \<leftarrow> isr80h_register_command 6 Command6_process_load_start k;
          k \<leftarrow> isr80h_register_command 7 Command7_invoke_system_command k;
          k \<leftarrow> isr80h_register_command 8 Command8_get_program_arguments k;
          isr80h_register_command 9 Command9_exit k }"

definition returned :: "('v \<times> 'k) option \<Rightarrow> ('v, 'k) outcome option" where
  "returned r = map_option (\<lambda>(v, k). Returned v k) r"

definition call_isr80h_command :: "isr80h_command \<Rightarrow> 'a sys_state_scheme sys_env \<Rightarrow> 'a sys_state_scheme
    \<Rightarrow> (u32, 'a sys_state_scheme) outcome option" where
  "call_isr80h_command f e k =
     (case f of No_command \<Rightarrow> None
      | Command0_sum \<Rightarrow> returned (isr80h_command0_sum k)
      | Command1_print \<Rightarrow> returned (isr80h_command1_print e k)
      | Command2_getkey \<Rightarrow> returned (isr80h_command2_getKey k)
      | Command3_putchar \<Rightarrow> returned (isr80h_command3_putchar k)
      | Command4_malloc \<Rightarrow> returned (isr80h_command4_malloc k)
      | Command5_free \<Rightarrow> returned (isr80h_command5_free k)
      | Command6_process_load_start \<Rightarrow> isr80h_command6_process_load_start e k
      | Command7_invoke_system_command \<Rightarrow> isr80h_command7_invoke_system_command e k
      | Command8_get_program_arguments \<Rightarrow> returned (isr80h_command8_get_program_arguments k)
      | Command9_exit \<Rightarrow> isr80h_command9_exit e k)"

definition isr80h_handle_command :: "'a sys_state_scheme sys_env \<Rightarrow> int \<Rightarrow> 'a sys_state_scheme
    \<Rightarrow> (u32, 'a sys_state_scheme) outcome option" where
  "isr80h_handle_command e command k =
     (if command < 0 \<or> command \<ge> PEACHOS_MAX_ISR80H_COMMANDS then Some (Returned 0 k)
      else let f = isr80h_commands k ! nat command
           in if f = No_command then None else call_isr80h_command f e k)"

definition isr80h_handler :: "'a sys_state_scheme sys_env \<Rightarrow> int \<Rightarrow> interrupt_frame \<Rightarrow> 'a sys_state_scheme
    \<Rightarrow> (u32, 'a sys_state_scheme) outcome option" where
  "isr80h_handler e command frame k =
     do { k \<leftarrow> task_current_save_state frame (kernel_page k);
          r \<leftarrow> isr80h_handle_command e command k;
          case r of Entered regs k \<Rightarrow> Some (Entered regs k)
          | Returned v k \<Rightarrow> Some (Returned v (task_page k)) }"

definition isr80h_wrapper :: "'a sys_state_scheme sys_env \<Rightarrow> u32 \<Rightarrow> registers \<times> 'a sys_state_scheme
    \<Rightarrow> (registers \<times> 'a sys_state_scheme) option" where
  \<comment> \<open>the stub of interrupt \<open>0x80\<close>: the command is in \<open>eax\<close>, and so is the result\<close>
  "isr80h_wrapper e esp0 u =
     (case isr80h_handler e (as_int (r_eax (fst u))) (frame_of (fst u) esp0) (snd u) of
        None \<Rightarrow> None
      | Some (Returned v k) \<Rightarrow> Some ((fst u)\<lparr>r_eax := v\<rparr>, k)
      | Some (Entered regs k) \<Rightarrow> Some (regs, k))"

end
