(* ===== verification/Scheduling.thy ===== *)
theory Scheduling
  imports Interrupts
begin

text \<open>
  Interrupts as steps of a machine: what interrupts, exceptions and system calls do to the tasks, and that a task
  notices nothing of the time it is not running.
\<close>

subsection \<open>The machine\<close>

text \<open>
  A configuration is the register file of the running task and the state of the kernel.  A step is an
  interrupt from outside (clock, keyboard, any vector without a callback), an exception of the running task, a
  system call of it, or whatever it computes itself: it may change its registers and memory, but not where its
  page directory is.  The system calls 6 and 7, which load a program and enter it, are not steps here: they
  add a task, whose place the heap decides.
\<close>

datatype event = Irq nat | Fault u32 | Call u32 isr80h_command | Compute u32

definition command_called :: "registers \<Rightarrow> 'a sys_state_scheme \<Rightarrow> isr80h_command" where
  "command_called r k = (let n = as_int (r_eax r)
     in if n < 0 \<or> n \<ge> PEACHOS_MAX_ISR80H_COMMANDS then No_command else isr80h_commands k ! nat n)"

definition loads_program :: "isr80h_command \<Rightarrow> bool" where
  "loads_program c \<longleftrightarrow> c = Command6_process_load_start \<or> c = Command7_invoke_system_command"

inductive cpu_step :: "'a sys_state_scheme sys_env \<Rightarrow> event \<Rightarrow> registers \<times> 'a sys_state_scheme
    \<Rightarrow> registers \<times> 'a sys_state_scheme \<Rightarrow> bool" for e where
  irq: "int_stub e n esp0 (r, k) = Some u' \<Longrightarrow> interrupt_callbacks k ! n \<noteq> Idt_handle_execption
    \<Longrightarrow> cpu_step e (Irq n) (r, k) u'"
| fault: "int_stub e n esp0 (r, k) = Some u' \<Longrightarrow> interrupt_callbacks k ! n = Idt_handle_execption
    \<Longrightarrow> cpu_step e (Fault (current_task k)) (r, k) u'"
| syscall: "isr80h_wrapper e esp0 (r, k) = Some u' \<Longrightarrow> \<not> loads_program (command_called r k)
    \<Longrightarrow> cpu_step e (Call (current_task k) (command_called r k)) (r, k) u'"
| user: "directory_entry m (page_directory (tasks k (current_task k)))
      = directory_entry (ram k) (page_directory (tasks k (current_task k)))
    \<Longrightarrow> cpu_step e (Compute (current_task k)) (r, k) (r', k\<lparr>ram := m\<rparr>)"

inductive_cases cpu_stepE: "cpu_step e l u u'"

primrec acts :: "u32 \<Rightarrow> event \<Rightarrow> bool" where
  \<comment> \<open>the step is one of the task's own\<close>
  "acts t (Irq n) \<longleftrightarrow> False"
| "acts t (Fault s) \<longleftrightarrow> s = t"
| "acts t (Call s c) \<longleftrightarrow> s = t"
| "acts t (Compute s) \<longleftrightarrow> s = t"

primrec ends_task :: "event \<Rightarrow> bool" where
  "ends_task (Irq n) \<longleftrightarrow> False"
| "ends_task (Fault s) \<longleftrightarrow> True"
| "ends_task (Call s c) \<longleftrightarrow> c = Command9_exit"
| "ends_task (Compute s) \<longleftrightarrow> False"

inductive cpu_run :: "'a sys_state_scheme sys_env \<Rightarrow> event list \<Rightarrow> registers \<times> 'a sys_state_scheme
    \<Rightarrow> registers \<times> 'a sys_state_scheme \<Rightarrow> bool" for e where
  stop: "cpu_run e [] u u"
| go: "cpu_run e ls u u' \<Longrightarrow> cpu_step e l u' u'' \<Longrightarrow> cpu_run e (ls @ [l]) u u''"

inductive_simps cpu_run_Nil: "cpu_run e [] u u'"

definition task_context :: "registers \<times> 'a sys_state_scheme \<Rightarrow> u32 \<Rightarrow> registers" where
  \<comment> \<open>the registers a task has, or will have when it runs again\<close>
  "task_context u t = (if t = current_task (snd u) then fst u else task_regs (tasks (snd u) t))"

definition same_but_flags :: "registers \<Rightarrow> registers \<Rightarrow> bool" where
  "same_but_flags r r' \<longleftrightarrow> r\<lparr>r_flags := 0\<rparr> = r'\<lparr>r_flags := 0\<rparr>"

definition sched_ok :: "u32 list \<Rightarrow> registers \<times> 'a sys_state_scheme \<Rightarrow> bool" where
  "sched_ok ts u \<longleftrightarrow> task_ring (snd u) ts \<and> current_task (snd u) \<in> set ts
     \<and> cr3 (snd u) = directory_entry (ram (snd u)) (page_directory (tasks (snd u) (current_task (snd u))))
     \<and> interrupt_callbacks (snd u) ! 0x20 = Idt_clock
     \<and> interrupt_callbacks (snd u) ! 0x21 = Classic_keyboard_interrupt_handler"

text \<open>\<open>same_tasks k' k\<close>: a handler that has nothing to do with the schedule.\<close>

definition same_tasks :: "'a kernel_state_scheme \<Rightarrow> 'a kernel_state_scheme \<Rightarrow> bool" where
  "same_tasks k' k \<longleftrightarrow> tasks k' = tasks k \<and> task_head k' = task_head k \<and> task_tail k' = task_tail k
     \<and> current_task k' = current_task k \<and> interrupt_callbacks k' = interrupt_callbacks k"

lemma same_tasks_refl: "same_tasks k k"
  by (simp add: same_tasks_def)

lemma same_tasks_trans: "same_tasks k2 k1 \<Longrightarrow> same_tasks k1 k \<Longrightarrow> same_tasks k2 k"
  by (simp add: same_tasks_def)

lemma task_ring_same: "same_tasks k' k \<Longrightarrow> task_ring k' ts = task_ring k ts"
  by (simp add: same_tasks_def task_ring_def)

lemma same_tasks_basic:
  "same_tasks (kernel_page k) k" "same_tasks (snd (insb q k)) k" "same_tasks (outb q v k) k"
  "same_tasks (keyboard_set_capslock kb c k) k" "same_tasks (keyboard_push ch k) k" "same_tasks (task_page k) k"
  by (simp_all add: same_tasks_def kernel_page_def kernel_registers_def paging_switch_def paging_load_directory_def Let_def
      insb_def outb_def keyboard_set_capslock_def keyboard_push_def set_keys_def set_proc_def task_page_def
      user_registers_def task_switch_def)

lemma same_tasks_shell_switch: "shell_switch i k = Some (r, k') \<Longrightarrow> same_tasks k' k"
  by (auto simp: shell_switch_def Let_def bind_eq_Some_conv same_tasks_def process_switch_def split: if_splits)

lemma same_tasks_switch_key: "shell_switch_to_next k = Some k' \<Longrightarrow> same_tasks k' k"
  by (auto simp: shell_switch_to_next_def Let_def bind_eq_Some_conv dest: same_tasks_shell_switch split: if_splits)

lemma same_tasks_keyboard:
  assumes "classic_keyboard_interrupt_handler k = Some k'"
  shows "same_tasks k' k"
proof -
  obtain sc k1 where k1: "insb KEYBOARD_INPUT_PORT (kernel_page k) = (sc, k1)" by fastforce
  obtain junk k2 where k2: "insb KEYBOARD_INPUT_PORT k1 = (junk, k2)" by fastforce
  have s2: "same_tasks k2 k"
    using same_tasks_basic(1) [of k] same_tasks_basic(2) [of KEYBOARD_INPUT_PORT "kernel_page k"]
      same_tasks_basic(2) [of KEYBOARD_INPUT_PORT k1] k1 k2 same_tasks_trans by (metis snd_conv)
  define k3 where "k3 = (if sc = CLASSIC_KEYBOARD_CAPSLOCK
      then keyboard_set_capslock (classic_keyboard k2)
             (if keyboard_get_capslock (classic_keyboard k2) k2 = KEYBOARD_CAPS_LOCK_ON
              then KEYBOARD_CAPS_LOCK_OFF else KEYBOARD_CAPS_LOCK_ON) k2 else k2)"
  have s3: "same_tasks k3 k"
    unfolding k3_def using s2 same_tasks_basic(4) same_tasks_trans by (metis (full_types))
  let ?c = "classic_keyboard_scancode_to_char sc k3"
  define k4 where "k4 = (if ?c \<noteq> 0 then keyboard_push ?c k3 else k3)"
  have run: "classic_keyboard_interrupt_handler k = (if sc AND CLASSIC_KEYBOARD_KEY_RELEASED \<noteq> 0 then Some k2
      else if ?c = 96 then shell_switch_to_next k3 else Some (task_page k4))"
    by (simp only: classic_keyboard_interrupt_handler_def Let_def k1 k2 prod.case k3_def k4_def)
  have "same_tasks k4 k3" unfolding k4_def by (simp add: same_tasks_basic(5) same_tasks_refl)
  then have push: "same_tasks (task_page k4) k"
    using same_tasks_trans [OF same_tasks_basic(6)] same_tasks_trans s3 by blast
  consider "k' = k2" | "shell_switch_to_next k3 = Some k'" | "k' = task_page k4"
    using assms unfolding run by (metis option.inject)
  then show ?thesis
  proof cases
    case 2
    then show ?thesis using same_tasks_trans [OF same_tasks_switch_key s3] by blast
  qed (use s2 push in simp_all)
qed

subsection \<open>System calls and the schedule\<close>

lemma same_tasks_ram [simp]: "same_tasks (k\<lparr>ram := m\<rparr>) k"
  by (simp add: same_tasks_def)

lemma same_tasks_kfree [simp]: "same_tasks (kfree p k) k"
  by (simp add: kfree_def)

lemma same_tasks_set_proc [simp]: "same_tasks (set_proc p x k) k"
  by (simp add: same_tasks_def set_proc_def)

lemma same_tasks_paging [simp]: "same_tasks (paging_switch d k) k" "same_tasks (task_page_task t k) k"
  by (simp_all add: same_tasks_def task_page_task_def user_registers_def paging_switch_def paging_load_directory_def Let_def)

lemma kzalloc_only_ram: "kzalloc n k = (p, k') \<Longrightarrow> k' = k\<lparr>ram := ram k'\<rparr>"
  by (auto simp: kzalloc_def kmalloc_def Let_def split: prod.splits if_splits)

lemma same_tasks_kzalloc: "kzalloc n k = (p, k') \<Longrightarrow> same_tasks k' k"
  using kzalloc_only_ram same_tasks_ram by metis

lemma same_tasks_stack_item: "task_get_stack_item t i k = Some (w, k') \<Longrightarrow> same_tasks k' k"
  unfolding task_get_stack_item_def Let_def bind_eq_Some_conv
  using same_tasks_trans [OF same_tasks_basic(1) same_tasks_paging(2)] by auto

lemma same_tasks_virt_strncpy: "virt_strncpy dest src n k = Some k' \<Longrightarrow> same_tasks k' k"
proof -
  have w: "same_tasks k2 k1" if "virt_write va c k1 = Some k2" for va c and k1 k2 :: "'a kernel_state_scheme"
    using that by (auto simp: virt_write_def)
  have loop: "virt_strncpy_loop dest src n i k = Some (j, k') \<Longrightarrow> same_tasks k' k" for n i j and k k' :: "'a kernel_state_scheme"
  proof (induction n arbitrary: i k)
    case (Suc n)
    obtain ch where ch: "virt_read k (src + as_u32 i) = Some ch"
      using Suc.prems by (auto simp: bind_eq_Some_conv)
    show ?case
    proof (cases "ch = 0")
      case True
      then show ?thesis using Suc.prems ch by (simp add: same_tasks_refl)
    next
      case False
      then obtain k1 where k1: "virt_write (dest + as_u32 i) ch k = Some k1"
        "virt_strncpy_loop dest src n (i + 1) k1 = Some (j, k')"
        using Suc.prems ch by (auto simp: bind_eq_Some_conv)
      show ?thesis using same_tasks_trans [OF Suc.IH [OF k1(2)] w [OF k1(1)]] .
    qed
  qed (simp add: same_tasks_refl)
  assume "virt_strncpy dest src n k = Some k'"
  then obtain i k1 where k1: "virt_strncpy_loop dest src (nat (n - 1)) 0 k = Some (i, k1)"
    "virt_write (dest + as_u32 i) 0 k1 = Some k'"
    by (auto simp: virt_strncpy_def bind_eq_Some_conv)
  show "same_tasks k' k" using same_tasks_trans [OF w [OF k1(2)] loop [OF k1(1)]] .
qed

lemma same_tasks_copy_string:
  assumes "copy_string_from_task t virtual phys n k = Some (r, k')"
  shows "same_tasks k' k"
proof (cases "n \<ge> uint PAGING_PAGE_SIZE")
  case True
  then show ?thesis using assms by (simp add: copy_string_from_task_def same_tasks_refl)
next
  case False
  obtain tmp k1 where k1: "kzalloc (as_u32 n) k = (tmp, k1)" by fastforce
  have s1: "same_tasks k1 k" by (rule same_tasks_kzalloc [OF k1])
  have later: "same_tasks k' k1 \<Longrightarrow> ?thesis" using same_tasks_trans s1 by blast
  show ?thesis
  proof (cases "tmp = 0")
    case True
    then show ?thesis using assms False k1 s1 by (simp add: copy_string_from_task_def)
  next
    case nz: False
    let ?d = "directory_entry (ram k1) (page_directory (tasks k1 t))"
    obtain x m where m: "paging_map (page_directory (tasks k1 t)) tmp tmp
        (uint (PAGING_IS_WRITEABLE OR PAGING_IS_PRESENT OR PAGING_ACCESS_FROM_ALL)) (ram k1) = (x, m)" by fastforce
    define k2 where "k2 = paging_switch (page_directory (tasks k1 t)) (k1\<lparr>ram := m\<rparr>)"
    note run = assms [unfolded copy_string_from_task_def if_not_P [OF False] k1 Let_def prod.case if_not_P [OF nz] m k2_def [symmetric]]
    obtain k3 where k3: "virt_strncpy tmp virtual n k2 = Some k3" using run by (auto simp: bind_eq_Some_conv)
    obtain y m2 where m2: "paging_set ?d tmp (paging_get ?d tmp (ram k1)) (ram (kernel_page k3)) = (y, m2)" by fastforce
    obtain z m3 where m3: "strncpy m2 phys tmp n = (z, m3)" by fastforce
    have k': "\<exists>m'. k' = kfree tmp ((kernel_page k3)\<lparr>ram := m'\<rparr>)"
      using run unfolding k3 option.simps bind.bind_lunit m2 prod.case by (cases "y < 0") (auto simp: m3)
    have "same_tasks k2 k1" unfolding k2_def using same_tasks_trans [OF same_tasks_paging(1) same_tasks_ram] .
    moreover have "same_tasks k3 k2" by (rule same_tasks_virt_strncpy [OF k3])
    moreover have "same_tasks k' k3"
      using k' same_tasks_trans [OF same_tasks_kfree same_tasks_trans [OF same_tasks_ram same_tasks_basic(1)]] by blast
    ultimately show ?thesis using later same_tasks_trans by blast
  qed
qed

lemma same_tasks_writechar: "same_tasks (terminal_writechar c colour k) k"
proof -
  have init: "same_tasks (if \<not> backspace k then terminal_init k else k) k" for k :: "'a kernel_state_scheme"
    by (simp add: terminal_init_def Let_def same_tasks_def)
  have save: "same_tasks (save_current k) k" for k :: "'a kernel_state_scheme"
    by (simp add: save_current_def terminal_save_def same_tasks_def)
  have put: "same_tasks (terminal_putchar x y c colour k) k" for x y c colour and k :: "'a kernel_state_scheme"
    unfolding putchar_ram by (rule same_tasks_ram)
  have plain: "same_tasks (terminal_writechar c colour k) k" if "c \<noteq> 8" for c colour and k :: "'a kernel_state_scheme"
  proof (cases "c = 10")
    case True
    have "same_tasks (terminal_writechar 10 colour k) (if \<not> backspace k then terminal_init k else k)"
      unfolding terminal_writechar.simps [of 10] Let_def
      by (simp add: save_current_def terminal_save_def same_tasks_def)
    then show ?thesis unfolding True using init same_tasks_trans by blast
  next
    case False
    show ?thesis unfolding writechar_printable [OF False that refl refl]
      by (simp add: moved_def same_tasks_def)
  qed
  have bs: "same_tasks (terminal_backspace k) k" for k :: "'a kernel_state_scheme"
    unfolding terminal_backspace.simps Let_def
    using plain [of 32] by (simp add: same_tasks_def)
  show ?thesis
  proof (cases "c = 8")
    case True
    have "terminal_writechar 8 colour k = save_current (terminal_backspace (if \<not> backspace k then terminal_init k else k))"
      by (simp add: terminal_writechar.simps [of 8] Let_def)
    then show ?thesis unfolding True using same_tasks_trans [OF save same_tasks_trans [OF bs init]] by metis
  qed (rule plain)
qed

lemma same_tasks_print: "print str k = Some k' \<Longrightarrow> same_tasks k' k"
proof -
  have "same_tasks (fold (\<lambda>i k. terminal_writechar (f i k) PEACHOS_COLOR k) is k) k" for f "is" and k :: "'a kernel_state_scheme"
  proof (induction "is" arbitrary: k)
    case (Cons i "is")
    then show ?case using same_tasks_writechar same_tasks_trans by (metis (no_types, lifting) fold_simps(2))
  qed (simp add: same_tasks_refl)
  then show "print str k = Some k' \<Longrightarrow> same_tasks k' k" unfolding print_def by (auto simp: bind_eq_Some_conv)
qed

lemma same_tasks_malloc: "process_malloc p n k = (r, k') \<Longrightarrow> same_tasks k' k"
proof -
  assume run: "process_malloc p n k = (r, k')"
  obtain q k1 where k1: "kzalloc n k = (q, k1)" by fastforce
  have s1: "same_tasks k1 k" by (rule same_tasks_kzalloc [OF k1])
  have "same_tasks k' k1"
    using run unfolding process_malloc_def k1 Let_def
    by (auto split: prod.splits if_splits simp: same_tasks_refl kfree_def same_tasks_def set_proc_def)
  then show ?thesis using s1 by (rule same_tasks_trans)
qed

lemma same_tasks_free: "same_tasks (process_free p q k) k"
  by (auto simp: process_free_def process_allocation_unjoin_def Let_def kfree_def same_tasks_def set_proc_def
    split: option.splits prod.splits if_splits)

text \<open>
  The end of a process moves tasks in the ring and gives their memory back, but no task's saved registers change.
\<close>

definition regs_kept :: "'a kernel_state_scheme \<Rightarrow> 'a kernel_state_scheme \<Rightarrow> bool" where
  "regs_kept k' k \<longleftrightarrow> (\<forall>t. task_regs (tasks k' t) = task_regs (tasks k t))"

lemma regs_kept_same: "same_tasks k' k \<Longrightarrow> regs_kept k' k"
  by (simp add: same_tasks_def regs_kept_def)

lemma regs_kept_trans: "regs_kept k2 k1 \<Longrightarrow> regs_kept k1 k \<Longrightarrow> regs_kept k2 k"
  by (simp add: regs_kept_def)

lemma same_tasks_fold: "(\<And>x k. same_tasks (f x k) k) \<Longrightarrow> same_tasks (fold f xs k) k"
proof (induction xs arbitrary: k)
  case (Cons x xs)
  then show ?case using same_tasks_trans by (metis fold_simps(2))
qed (simp add: same_tasks_refl)

lemma same_tasks_free_4gb: "same_tasks (paging_free_4gb c k) k"
proof -
  have "same_tasks (fold (free_table_step c) [0..<1024] k) k"
    by (rule same_tasks_fold) (simp add: free_table_step_def Let_def)
  then show ?thesis
    unfolding paging_free_4gb_def Let_def using same_tasks_kfree same_tasks_trans by metis
qed

lemma regs_kept_task_free: "regs_kept (task_free t k) k"
proof -
  have "regs_kept (task_list_remove t k) k" for k :: "'a kernel_state_scheme"
    by (auto simp: task_list_remove_def Let_def regs_kept_def set_task_def)
  then show ?thesis
    unfolding task_free_def Let_def
    using regs_kept_trans regs_kept_same [OF same_tasks_kfree] regs_kept_same [OF same_tasks_free_4gb] by metis
qed

lemma same_tasks_program_data: "process_free_program_data p k = (r, k') \<Longrightarrow> same_tasks k' k"
proof -
  have "same_tasks (kfree a (kfree b k)) k" for a b using same_tasks_kfree same_tasks_trans by metis
  then show "process_free_program_data p k = (r, k') \<Longrightarrow> same_tasks k' k"
    by (auto simp: process_free_program_data_def process_free_binary_data_def process_free_elf_data_def elf_close_def
      same_tasks_refl split: if_splits)
qed

lemma same_tasks_unlink: "process_unlink p k = Some k' \<Longrightarrow> same_tasks k' k"
  by (auto simp: process_unlink_def Let_def process_switch_to_any_def process_switch_def same_tasks_def
    split: option.splits if_splits)

lemma regs_kept_terminate:
  assumes "process_terminate p k = Some (r, k')"
  shows "regs_kept k' k"
proof -
  define k1 where "k1 = snd (process_terminate_allocations p k)"
  have "same_tasks k1 k"
    unfolding k1_def process_terminate_allocations_def snd_conv by (rule same_tasks_fold) (rule same_tasks_free)
  obtain r2 k2 where k2: "process_free_program_data p k1 = (r2, k2)" by fastforce
  then have s2: "same_tasks k2 k" using same_tasks_program_data same_tasks_trans \<open>same_tasks k1 k\<close> by blast
  have run: "process_terminate p k = (if r2 < 0 then Some (r2, k2) else do {
      k \<leftarrow> process_unlink p (task_free (process_task (procs (kfree (process_stack (procs k2 p)) k2) p))
              (kfree (process_stack (procs k2 p)) k2));
      Some (r2, k) })"
    using k2 by (simp add: process_terminate_def process_terminate_allocations_def k1_def Let_def)
  show ?thesis
  proof (cases "r2 < 0")
    case True
    then show ?thesis using assms run s2 regs_kept_same by simp
  next
    case False
    let ?k3 = "kfree (process_stack (procs k2 p)) k2"
    obtain k4 where "process_unlink p (task_free (process_task (procs ?k3 p)) ?k3) = Some k4" "k' = k4"
      using assms run False by (auto simp: bind_eq_Some_conv)
    then have "regs_kept k' (task_free (process_task (procs ?k3 p)) ?k3)" using same_tasks_unlink regs_kept_same by blast
    moreover have "regs_kept ?k3 k" using same_tasks_trans [OF same_tasks_kfree s2] regs_kept_same by blast
    ultimately show ?thesis using regs_kept_task_free regs_kept_trans by blast
  qed
qed

lemma task_next_entered:
  "task_next fl k = Some (r, k') \<Longrightarrow> \<exists>n. r = user_regs fl (task_regs (tasks k n)) \<and> k' = entered_task n k"
  unfolding task_next_def Let_def task_return_entered by (auto split: if_splits)

text \<open>\<open>leaves fl out k\<close>: a handler leaves the kernel by the registers saved for some task.\<close>

definition leaves :: "u32 \<Rightarrow> registers \<times> 'a kernel_state_scheme \<Rightarrow> 'a kernel_state_scheme \<Rightarrow> bool" where
  "leaves fl u k \<longleftrightarrow> (\<exists>k1 n. regs_kept k1 k \<and> u = (user_regs fl (task_regs (tasks k1 n)), entered_task n k1))"

lemma leaves_next: "task_next fl k1 = Some u \<Longrightarrow> regs_kept k1 k \<Longrightarrow> leaves fl u k"
  using task_next_entered [of fl k1 "fst u" "snd u"] unfolding leaves_def by (metis prod.collapse)

lemma callback_outcome:
  assumes "call_interrupt_callback f e k = Some out"
  shows "case out of Returned _ k' \<Rightarrow> same_tasks k' k | Entered r k' \<Rightarrow> leaves (kernel_flags e) (r, k') k"
proof (cases f)
  case No_callback
  then show ?thesis using assms by (auto simp: call_interrupt_callback_def same_tasks_refl)
next
  case Idt_handle_execption
  then obtain x k1 u where "process_terminate (task_process (tasks k (current_task k))) k = Some (x, k1)"
    "task_next (kernel_flags e) k1 = Some u" "out = Entered (fst u) (snd u)"
    using assms by (auto simp: call_interrupt_callback_def idt_handle_execption_def enter_def bind_eq_Some_conv)
  then show ?thesis using leaves_next regs_kept_terminate by fastforce
next
  case Idt_clock
  show ?thesis
  proof (cases "clock_c (outb 0x20 0x20 k) < 10")
    case True
    then show ?thesis using assms Idt_clock
      by (auto simp: call_interrupt_callback_def idt_clock_def Let_def same_tasks_def outb_def)
  next
    case False
    then obtain u where "task_next (kernel_flags e) (outb 0x20 0x20 k) = Some u" "out = Entered (fst u) (snd u)"
      using assms Idt_clock by (auto simp: call_interrupt_callback_def idt_clock_def enter_def Let_def)
    then show ?thesis using leaves_next [OF _ regs_kept_same [OF same_tasks_basic(3)]] by fastforce
  qed
next
  case Classic_keyboard_interrupt_handler
  then show ?thesis using assms same_tasks_keyboard by (auto simp: call_interrupt_callback_def)
qed

lemma same_tasks_sum: "isr80h_command0_sum k = Some (v, k') \<Longrightarrow> same_tasks k' k"
  unfolding isr80h_command0_sum_def
  by (auto simp: bind_eq_Some_conv dest!: same_tasks_stack_item intro: same_tasks_trans)

lemma same_tasks_print_call: "isr80h_command1_print e k = Some (v, k') \<Longrightarrow> same_tasks k' k"
  unfolding isr80h_command1_print_def
  by (auto simp: bind_eq_Some_conv dest!: same_tasks_stack_item same_tasks_copy_string same_tasks_print intro: same_tasks_trans)

lemma same_tasks_getkey: "isr80h_command2_getKey k = Some (v, k') \<Longrightarrow> same_tasks k' k"
  by (auto simp: isr80h_command2_getKey_def keyboard_pop_def Let_def set_keys_def same_tasks_refl split: if_splits)

lemma same_tasks_putchar_call: "isr80h_command3_putchar k = Some (v, k') \<Longrightarrow> same_tasks k' k"
  unfolding isr80h_command3_putchar_def
  by (auto simp: bind_eq_Some_conv dest!: same_tasks_stack_item intro: same_tasks_trans same_tasks_writechar)

lemma same_tasks_malloc_call: "isr80h_command4_malloc k = Some (v, k') \<Longrightarrow> same_tasks k' k"
  unfolding isr80h_command4_malloc_def
  by (auto simp: bind_eq_Some_conv dest!: same_tasks_stack_item same_tasks_malloc intro: same_tasks_trans)

lemma same_tasks_free_call: "isr80h_command5_free k = Some (v, k') \<Longrightarrow> same_tasks k' k"
  unfolding isr80h_command5_free_def
  by (auto simp: bind_eq_Some_conv dest!: same_tasks_stack_item intro: same_tasks_trans same_tasks_free)

lemma same_tasks_arguments_call: "isr80h_command8_get_program_arguments k = Some (v, k') \<Longrightarrow> same_tasks k' k"
  unfolding isr80h_command8_get_program_arguments_def process_get_arguments_def Let_def
  by (auto simp: bind_eq_Some_conv dest!: same_tasks_stack_item intro: same_tasks_trans same_tasks_ram)

lemmas same_tasks_calls = same_tasks_sum same_tasks_print_call same_tasks_getkey same_tasks_putchar_call
  same_tasks_malloc_call same_tasks_free_call same_tasks_arguments_call

lemma command_outcome:
  assumes run: "call_isr80h_command f e k = Some out" and "\<not> loads_program f"
  shows "case out of Returned _ k' \<Rightarrow> f \<noteq> Command9_exit \<and> same_tasks k' k
    | Entered r k' \<Rightarrow> f = Command9_exit \<and> leaves (kernel_flags e) (r, k') k"
proof (cases f)
  case Command9_exit
  then obtain x k1 u where "process_terminate (task_process (tasks k (current_task k))) k = Some (x, k1)"
    "task_next (kernel_flags e) k1 = Some u" "out = Entered (fst u) (snd u)"
    using run by (auto simp: call_isr80h_command_def isr80h_command9_exit_def enter_def bind_eq_Some_conv)
  then show ?thesis using leaves_next regs_kept_terminate Command9_exit by fastforce
qed (use assms in \<open>auto simp: call_isr80h_command_def loads_program_def returned_def dest: same_tasks_calls\<close>)

subsection \<open>Single interrupts\<close>

lemma save_state_fields:
  "tasks (task_save_state t (frame_of r esp0) k) = (tasks k)(t := (tasks k t)\<lparr>task_regs := r\<rparr>)"
  "task_ring (task_save_state t (frame_of r esp0) k) ts = task_ring k ts"
proof -
  show 1: "tasks (task_save_state t (frame_of r esp0) k) = (tasks k)(t := (tasks k t)\<lparr>task_regs := r\<rparr>)"
    by (cases r) (simp add: task_save_state_def frame_of_def)
  have "task_head (task_save_state t (frame_of r esp0) k) = task_head k"
    "task_tail (task_save_state t (frame_of r esp0) k) = task_tail k"
    by (simp_all add: task_save_state_def)
  moreover have "seg ((tasks k)(t := (tasks k t)\<lparr>task_regs := r\<rparr>)) ts 0 = seg (tasks k) ts 0"
    by (rule seg_cong) simp
  ultimately show "task_ring (task_save_state t (frame_of r esp0) k) ts = task_ring k ts"
    unfolding task_ring_def 1 by (simp only:)
qed

lemma save_state_outer:
  "current_task (task_save_state t f k) = current_task k" "ram (task_save_state t f k) = ram k"
  "interrupt_callbacks (task_save_state t f (k :: 'a kernel_state_scheme)) = interrupt_callbacks k"
  by (simp_all add: task_save_state_def set_task_def)

lemma task_page_cr3:
  "cr3 (task_page k) = directory_entry (ram k) (page_directory (tasks k (current_task k)))" "ram (task_page k) = ram k"
  by (simp_all add: task_page_def user_registers_def)

lemma same_but_flags_refl [simp]: "same_but_flags r r"
  by (simp add: same_but_flags_def)

lemma same_but_flags_return [simp]: "same_but_flags (user_regs fl r) r"
  by (simp add: same_but_flags_def user_regs_def)

lemma same_but_flags_trans: "same_but_flags a b \<Longrightarrow> same_but_flags b c \<Longrightarrow> same_but_flags a c"
  by (simp add: same_but_flags_def)

text \<open>A handler that returns: the interrupted task goes on where it was.\<close>

lemma returns_ok:
  assumes ok: "sched_ok ts (r, k)" and t: "current_task k = t"
    and k1: "same_tasks k1 (task_save_state t (frame_of r0 esp0) (kernel_page k)) \<or> same_tasks k1 k"
    and k': "k' = task_page k1 \<or> k' = outb 0x20 0x20 (task_page k1)"
  shows "sched_ok ts (r', k')" and "current_task k' = t"
proof -
  have outb: "same_tasks (outb 0x20 0x20 (task_page k1)) (task_page k1)" by (rule same_tasks_basic(3))
  have same: "same_tasks k' k1" using k' same_tasks_basic(6) same_tasks_trans [OF outb] by blast
  let ?k0 = "task_save_state t (frame_of r0 esp0) (kernel_page k)"
  have k0: "current_task ?k0 = t" "interrupt_callbacks ?k0 = interrupt_callbacks k" "task_ring ?k0 ts = task_ring k ts"
  proof -
    have kp: "current_task (kernel_page k) = t" "interrupt_callbacks (kernel_page k) = interrupt_callbacks k"
      using same_tasks_basic(1) [of k] t by (simp_all add: same_tasks_def)
    show "current_task ?k0 = t" "interrupt_callbacks ?k0 = interrupt_callbacks k" by (simp_all only: save_state_outer kp)
    show "task_ring ?k0 ts = task_ring k ts" unfolding save_state_fields by (rule task_ring_same [OF same_tasks_basic(1)])
  qed
  have k1': "current_task k1 = t" "interrupt_callbacks k1 = interrupt_callbacks k" "task_ring k1 ts = task_ring k ts"
  proof -
    have "current_task k1 = t \<and> interrupt_callbacks k1 = interrupt_callbacks k \<and> task_ring k1 ts = task_ring k ts"
      using k1
    proof
      assume s: "same_tasks k1 ?k0"
      show ?thesis using s k0 task_ring_same [OF s] by (simp add: same_tasks_def)
    next
      assume s: "same_tasks k1 k"
      show ?thesis using s t task_ring_same [OF s] by (simp add: same_tasks_def)
    qed
    then show "current_task k1 = t" "interrupt_callbacks k1 = interrupt_callbacks k" "task_ring k1 ts = task_ring k ts" by blast+
  qed
  then have fields: "current_task k' = t" "interrupt_callbacks k' = interrupt_callbacks k" "task_ring k' ts = task_ring k ts"
    using same task_ring_same [OF same] by (simp_all add: same_tasks_def)
  have "cr3 k' = directory_entry (ram k') (page_directory (tasks k' (current_task k')))"
  proof -
    have "tasks k' = tasks k1" "current_task k' = current_task k1" using same by (simp_all add: same_tasks_def)
    then show ?thesis using k' by (auto simp: outb_def task_page_cr3)
  qed
  then show "sched_ok ts (r', k')" using ok fields t by (simp add: sched_ok_def)
  show "current_task k' = t" by (rule fields(1))
qed

text \<open>A handler that leaves for the next task.\<close>

lemma enters_ok:
  assumes ok: "sched_ok ts (r, k)" and i: "i < length ts" "current_task k = ts ! i"
    and k1: "same_tasks k1 (task_save_state (ts ! i) (frame_of r esp0) (kernel_page k))"
  shows "\<exists>r' k'. task_next fl k1 = Some (r', k') \<and> sched_ok ts (r', k') \<and> current_task k' = ts ! (Suc i mod length ts)
    \<and> clock_c k' = clock_c k1 \<and> (\<forall>s \<in> set ts. same_but_flags (task_context (r', k') s) (task_context (r, k) s))"
proof -
  let ?t = "ts ! i" and ?n = "ts ! (Suc i mod length ts)"
  have fields: "tasks k1 = (tasks k)(?t := (tasks k ?t)\<lparr>task_regs := r\<rparr>)" "current_task k1 = ?t"
    "interrupt_callbacks k1 = interrupt_callbacks k"
    using k1 i(2) same_tasks_basic(1) [of k] unfolding same_tasks_def save_state_fields save_state_outer by simp_all
  have ring: "task_ring k1 ts"
    using ok task_ring_same [OF k1] save_state_fields(2) task_ring_same [OF same_tasks_basic(1)]
    unfolding sched_ok_def by (metis snd_conv)
  let ?r' = "user_regs fl (task_regs (tasks k1 ?n))" and ?k' = "entered_task ?n k1"
  have run: "task_next fl k1 = Some (?r', ?k')" by (rule ring_task_next [OF ring i(1) fields(2)])
  have n: "?n \<in> set ts" by (intro nth_mem mod_less_divisor) (use i(1) in linarith)
  have "interrupt_callbacks ?k' = interrupt_callbacks k1"
    "clock_c ?k' = clock_c k1"
    by (simp_all add: entered_task_def task_switch_def paging_switch_def paging_load_directory_def Let_def)
  then have ok': "sched_ok ts (?r', ?k')" using ok ring n fields(3) by (simp add: sched_ok_def)
  have "same_but_flags (task_context (?r', ?k') s) (task_context (r, k) s)" for s
  proof (cases "s = ?n")
    case True
    have "task_regs (tasks k1 ?n) = task_context (r, k) ?n" using fields(1) i(2) by (simp add: task_context_def)
    then show ?thesis using True by (simp add: task_context_def)
  next
    case False
    then show ?thesis using fields(1) i(2) by (simp add: task_context_def)
  qed
  then show ?thesis using run ok' \<open>clock_c ?k' = clock_c k1\<close> by auto
qed

lemma kernel_page_sys [simp]:
  "interrupt_callbacks (kernel_page k) = interrupt_callbacks k" "clock_c (kernel_page (k :: 'a sys_state_scheme)) = clock_c k"
  "isr80h_commands (kernel_page k) = isr80h_commands k"
  by (simp_all add: kernel_page_def kernel_registers_def paging_switch_def paging_load_directory_def Let_def)

lemma save_current:
  "current_task k \<noteq> 0 \<Longrightarrow> task_current_save_state f (kernel_page k) = Some (task_save_state (current_task k) f (kernel_page k))"
  by (simp add: task_current_save_state_def)

lemma sched_current: "sched_ok ts (r, k) \<Longrightarrow> current_task k \<noteq> 0"
  unfolding sched_ok_def task_ring_def by auto

text \<open>\<open>saved r k esp0\<close>: the state in which a handler or a system call runs.\<close>

definition saved :: "registers \<Rightarrow> 'a sys_state_scheme \<Rightarrow> u32 \<Rightarrow> 'a sys_state_scheme" where
  "saved r k esp0 = task_save_state (current_task k) (frame_of r esp0) (kernel_page k)"

lemma saved_fields:
  "task_regs (tasks (saved r k esp0) s) = task_context (r, k) s" "current_task (saved r k esp0) = current_task k"
  "clock_c (saved r k esp0) = clock_c k" "isr80h_commands (saved r k esp0) = isr80h_commands k"
proof -
  have "tasks (kernel_page k) = tasks k" using same_tasks_basic(1) [of k] by (simp add: same_tasks_def)
  then show "task_regs (tasks (saved r k esp0) s) = task_context (r, k) s"
    by (simp add: saved_def save_state_fields task_context_def)
  show "current_task (saved r k esp0) = current_task k"
    using same_tasks_basic(1) [of k] by (simp add: saved_def save_state_outer same_tasks_def)
qed (simp_all add: saved_def task_save_state_def set_task_def)

lemma int_stub_callback:
  assumes "current_task k \<noteq> 0" and "interrupt_callbacks k ! n = f" and "f \<noteq> No_callback"
    and "call_interrupt_callback f e (saved r k esp0) = c"
  shows "int_stub e n esp0 (r, k) = (case c of None \<Rightarrow> None
    | Some (Returned _ k') \<Rightarrow> Some (r, outb 0x20 0x20 (task_page k')) | Some (Entered r' k') \<Rightarrow> Some (r', k'))"
proof -
  have "interrupt_handler e n (frame_of r esp0) k = Option.bind c (\<lambda>x. case x of Entered regs k \<Rightarrow> Some (Entered regs k)
      | Returned _ k \<Rightarrow> Some (Returned () (outb 0x20 0x20 (task_page k))))"
    using assms(2-4) save_current [OF assms(1), of "frame_of r esp0"]
    by (simp add: interrupt_handler_def Let_def saved_def)
  then show ?thesis by (cases c) (auto simp: int_stub_def split: outcome.split)
qed

lemma int_stub_cases:
  assumes "int_stub e n esp0 (r, k) = Some u'"
  obtains (quiet) "u' = (r, outb 0x20 0x20 (task_page (kernel_page k)))"
    | (returned) k1 where "call_interrupt_callback (interrupt_callbacks k ! n) e (saved r k esp0) = Some (Returned () k1)"
        "u' = (r, outb 0x20 0x20 (task_page k1))"
    | (entered) r' k' where "call_interrupt_callback (interrupt_callbacks k ! n) e (saved r k esp0) = Some (Entered r' k')"
        "u' = (r', k')"
proof (cases "interrupt_callbacks k ! n = No_callback")
  case True
  then show ?thesis using assms quiet by (auto simp: int_stub_def interrupt_handler_def Let_def)
next
  case False
  then have nz: "current_task k \<noteq> 0"
    using assms same_tasks_basic(1) [of k]
    by (auto simp: int_stub_def interrupt_handler_def Let_def task_current_save_state_def same_tasks_def split: if_splits)
  note stub = int_stub_callback [OF nz refl False refl, of e esp0 r]
  obtain out where out: "call_interrupt_callback (interrupt_callbacks k ! n) e (saved r k esp0) = Some out"
    using assms stub by (cases "call_interrupt_callback (interrupt_callbacks k ! n) e (saved r k esp0)") simp_all
  show ?thesis
  proof (cases out)
    case (Returned x k1)
    then show ?thesis using out assms stub returned by simp
  next
    case (Entered r' k')
    then show ?thesis using out assms stub entered by simp
  qed
qed

lemma wrapper_cases:
  assumes "isr80h_wrapper e esp0 (r, k) = Some u'"
  obtains (unknown) "u' = (r\<lparr>r_eax := 0\<rparr>, task_page (saved r k esp0))" "command_called r k = No_command"
    | (returned) v k1 where "call_isr80h_command (command_called r k) e (saved r k esp0) = Some (Returned v k1)"
        "u' = (r\<lparr>r_eax := v\<rparr>, task_page k1)"
    | (entered) r' k' where "call_isr80h_command (command_called r k) e (saved r k esp0) = Some (Entered r' k')" "u' = (r', k')"
proof -
  have nz: "current_task k \<noteq> 0"
    using assms same_tasks_basic(1) [of k]
    by (auto simp: isr80h_wrapper_def isr80h_handler_def task_current_save_state_def same_tasks_def split: if_splits)
  note save = save_current [OF nz, of "frame_of r esp0", folded saved_def]
  let ?n = "as_int (r_eax r)"
  let ?c = "isr80h_handle_command e ?n (saved r k esp0)"
  have run: "isr80h_wrapper e esp0 (r, k) = (case ?c of None \<Rightarrow> None
      | Some (Returned v k1) \<Rightarrow> Some (r\<lparr>r_eax := v\<rparr>, task_page k1) | Some (Entered r' k') \<Rightarrow> Some (r', k'))"
    by (cases ?c) (auto simp: isr80h_wrapper_def isr80h_handler_def save split: outcome.split)
  obtain out where out: "?c = Some out" using assms run by (cases ?c) simp_all
  have u': "u' = (case out of Entered r' k' \<Rightarrow> (r', k') | Returned v k1 \<Rightarrow> (r\<lparr>r_eax := v\<rparr>, task_page k1))"
    using assms run unfolding out by (cases out) simp_all
  show ?thesis
  proof (cases "?n < 0 \<or> ?n \<ge> PEACHOS_MAX_ISR80H_COMMANDS")
    case True
    then show ?thesis using out u' unknown by (auto simp: isr80h_handle_command_def command_called_def Let_def)
  next
    case False
    then have "command_called r k = isr80h_commands (saved r k esp0) ! nat ?n"
      by (auto simp: command_called_def Let_def saved_fields)
    then have call: "call_isr80h_command (command_called r k) e (saved r k esp0) = Some out"
      using out False by (auto simp: isr80h_handle_command_def Let_def split: if_splits)
    show ?thesis
    proof (cases out)
      case (Returned v k1)
      then show ?thesis using u' call returned by simp
    next
      case (Entered r' k')
      then show ?thesis using u' call entered by simp
    qed
  qed
qed

lemma returned_context:
  assumes "same_tasks k1 (saved r k esp0) \<or> same_tasks k1 k" and "k' = task_page k1 \<or> k' = outb 0x20 0x20 (task_page k1)"
    and "r' = r \<or> s \<noteq> current_task k"
  shows "task_context (r', k') s = task_context (r, k) s"
proof -
  have outb: "same_tasks (outb 0x20 0x20 (task_page k1)) (task_page k1)" by (rule same_tasks_basic(3))
  have "same_tasks k' k1" using assms(2) same_tasks_basic(6) same_tasks_trans [OF outb] by blast
  then have k': "tasks k' = tasks k1" "current_task k' = current_task k1" by (simp_all add: same_tasks_def)
  have "current_task k1 = current_task k \<and> (s \<noteq> current_task k \<longrightarrow> task_regs (tasks k1 s) = task_context (r, k) s)"
    using assms(1)
  proof
    assume "same_tasks k1 (saved r k esp0)"
    then show ?thesis using saved_fields(1,2) [of r k esp0] by (simp add: same_tasks_def)
  next
    assume "same_tasks k1 k"
    then show ?thesis by (simp add: same_tasks_def task_context_def)
  qed
  then show ?thesis using k' assms(3) by (auto simp: task_context_def)
qed

lemma leaves_context:
  assumes "leaves fl u (saved r k esp0)"
  shows "same_but_flags (task_context u s) (task_context (r, k) s)"
proof -
  obtain k1 n where k1: "regs_kept k1 (saved r k esp0)" "u = (user_regs fl (task_regs (tasks k1 n)), entered_task n k1)"
    using assms by (auto simp: leaves_def)
  have "task_regs (tasks k1 s) = task_context (r, k) s" for s
    using k1(1) saved_fields(1) by (simp add: regs_kept_def)
  then show ?thesis unfolding k1(2) by (cases "s = n") (simp_all add: task_context_def)
qed

text \<open>Interrupts and exceptions change no task's registers; a system call only those of its caller.\<close>

lemma int_stub_context:
  assumes "int_stub e n esp0 (r, k) = Some u'"
  shows "same_but_flags (task_context u' s) (task_context (r, k) s)"
  using assms
proof (cases rule: int_stub_cases)
  case quiet
  show ?thesis
    unfolding quiet returned_context [OF disjI2 [OF same_tasks_basic(1)] disjI2 [OF refl] disjI1 [OF refl]] by simp
next
  case (returned k1)
  have "same_tasks k1 (saved r k esp0)" using callback_outcome [OF returned(1)] by simp
  from returned_context [OF disjI1 [OF this] disjI2 [OF refl] disjI1 [OF refl]] show ?thesis unfolding returned(2) by simp
next
  case (entered r' k')
  then show ?thesis using callback_outcome [OF entered(1)] leaves_context by simp
qed

lemma wrapper_context:
  assumes "isr80h_wrapper e esp0 (r, k) = Some u'" and "\<not> loads_program (command_called r k)" and "s \<noteq> current_task k"
  shows "same_but_flags (task_context u' s) (task_context (r, k) s)"
  using assms(1)
proof (cases rule: wrapper_cases)
  case unknown
  show ?thesis
    unfolding unknown(1) returned_context [OF disjI1 [OF same_tasks_refl] disjI1 [OF refl] disjI2 [OF assms(3)]] by simp
next
  case (returned v k1)
  have "same_tasks k1 (saved r k esp0)" using command_outcome [OF returned(1) assms(2)] by simp
  from returned_context [OF disjI1 [OF this] disjI1 [OF refl] disjI2 [OF assms(3)]] show ?thesis unfolding returned(2) by simp
next
  case (entered r' k')
  have "leaves (kernel_flags e) (r', k') (saved r k esp0)" using command_outcome [OF entered(1) assms(2)] by simp
  from leaves_context [OF this] show ?thesis unfolding entered(2) .
qed

lemma clock_step:
  assumes ok: "sched_ok ts (r, k)" and i: "i < length ts" "current_task k = ts ! i" and cb: "interrupt_callbacks k ! n = Idt_clock"
  shows "\<exists>r' k'. int_stub e n esp0 (r, k) = Some (r', k') \<and> sched_ok ts (r', k')
    \<and> current_task k' = ts ! (if clock_c k < 10 then i else Suc i mod length ts)
    \<and> clock_c k' = (if clock_c k < 10 then clock_c k + 1 else clock_c k)"
proof -
  let ?k0 = "saved r k esp0"
  have nc: "Idt_clock \<noteq> No_callback" by simp
  note stub = int_stub_callback [OF sched_current [OF ok] cb nc]
  have k0: "?k0 = task_save_state (ts ! i) (frame_of r esp0) (kernel_page k)" unfolding saved_def i(2) ..
  have c0: "clock_c ?k0 = clock_c k" by (rule saved_fields(3))
  show ?thesis
  proof (cases "clock_c k < 10")
    case True
    let ?k1 = "(outb 0x20 0x20 ?k0)\<lparr>clock_c := clock_c k + 1\<rparr>"
    let ?k' = "outb 0x20 0x20 (task_page ?k1)"
    have "call_interrupt_callback Idt_clock e ?k0 = Some (Returned () ?k1)"
      using True c0 by (simp add: call_interrupt_callback_def idt_clock_def outb_def)
    from stub [OF this] have run: "int_stub e n esp0 (r, k) = Some (r, ?k')" by simp
    have "same_tasks ?k1 ?k0" by (simp add: same_tasks_def outb_def)
    note R = returns_ok [OF ok i(2) disjI1 [OF this [unfolded k0]] disjI2 [OF refl], folded k0]
    have clk: "clock_c ?k' = clock_c k + 1"
      by (simp add: outb_def task_page_def user_registers_def task_switch_def paging_switch_def paging_load_directory_def Let_def)
    from run R clk show ?thesis unfolding if_P [OF True] by blast
  next
    case False
    define k2 where "k2 = outb 0x20 0x20 ?k0"
    have call: "call_interrupt_callback Idt_clock e ?k0 = enter (task_next (kernel_flags e) k2)"
      using False c0 by (simp add: call_interrupt_callback_def idt_clock_def outb_def k2_def)
    have "int_stub e n esp0 (r, k) = task_next (kernel_flags e) k2"
      unfolding stub [OF call] enter_def by (cases "task_next (kernel_flags e) k2") auto
    moreover have "same_tasks k2 ?k0" unfolding k2_def by (rule same_tasks_basic(3))
    moreover have "clock_c k2 = clock_c k" using c0 by (simp add: outb_def k2_def)
    ultimately show ?thesis using False enters_ok [OF ok i, of k2 esp0 "kernel_flags e", folded k0] by auto
  qed
qed

subsection \<open>Runs\<close>

lemma cpu_step_context:
  assumes "cpu_step e l u u'" and "\<not> acts t l"
  shows "same_but_flags (task_context u' t) (task_context u t)"
  using assms
proof (cases rule: cpu_step.cases)
  case (user m k r r')
  then show ?thesis using assms(2) by (auto simp: task_context_def)
qed (use assms(2) in \<open>auto simp: int_stub_context wrapper_context\<close>)

lemma irq_sched:
  assumes ok: "sched_ok ts (r, k)" and run: "int_stub e n esp0 (r, k) = Some u'" and cb: "interrupt_callbacks k ! n \<noteq> Idt_handle_execption"
  shows "sched_ok ts u'"
proof -
  have ret: "sched_ok ts (r, outb 0x20 0x20 (task_page k1))" if "same_tasks k1 (saved r k esp0) \<or> same_tasks k1 k" for k1
    using returns_ok(1) [OF ok refl that [unfolded saved_def] disjI2 [OF refl]] .
  show ?thesis
  proof (cases "interrupt_callbacks k ! n = Idt_clock")
    case True
    have "current_task k \<in> set ts" using ok by (simp add: sched_ok_def)
    then obtain i where i: "i < length ts" "current_task k = ts ! i" by (metis in_set_conv_nth)
    then show ?thesis using clock_step [OF ok i True, of e esp0] run by auto
  next
    case False
    from run show ?thesis
    proof (cases rule: int_stub_cases)
      case quiet
      then show ?thesis using ret same_tasks_basic(1) by blast
    next
      case (returned k1)
      then show ?thesis using callback_outcome [OF returned(1)] ret by simp
    next
      case (entered r' k')
      have "interrupt_callbacks k ! n \<in> {No_callback, Classic_keyboard_interrupt_handler}"
        using cb False by (cases "interrupt_callbacks k ! n") auto
      then show ?thesis using entered(1) by (auto simp: call_interrupt_callback_def)
    qed
  qed
qed

lemma syscall_sched:
  assumes ok: "sched_ok ts (r, k)" and run: "isr80h_wrapper e esp0 (r, k) = Some u'"
    and c: "\<not> loads_program (command_called r k)" "command_called r k \<noteq> Command9_exit"
  shows "sched_ok ts u'"
proof -
  have ret: "sched_ok ts (r', task_page k1)" if "same_tasks k1 (saved r k esp0)" for r' k1
    using returns_ok(1) [OF ok refl disjI1 [OF that [unfolded saved_def]] disjI1 [OF refl]] .
  from run show ?thesis
  proof (cases rule: wrapper_cases)
    case unknown
    then show ?thesis using ret same_tasks_refl by blast
  next
    case (returned v k1)
    then show ?thesis using command_outcome [OF returned(1) c(1)] ret by simp
  next
    case (entered r' k')
    then show ?thesis using command_outcome [OF entered(1) c(1)] c(2) by simp
  qed
qed

lemma cpu_step_sched:
  assumes "sched_ok ts u" and "cpu_step e l u u'" and "\<not> ends_task l"
  shows "sched_ok ts u'"
  using assms(2)
proof (cases rule: cpu_step.cases)
  case (irq n esp0 r k)
  then show ?thesis using irq_sched assms(1) by blast
next
  case (syscall esp0 r k)
  then show ?thesis using syscall_sched assms(1,3) by simp
next
  case (user m k r r')
  then show ?thesis using assms(1) by (simp add: sched_ok_def task_ring_def)
qed (use assms(3) in simp)


primrec ticks :: "'a sys_state_scheme sys_env \<Rightarrow> u32 \<Rightarrow> nat \<Rightarrow> registers \<times> 'a sys_state_scheme
    \<Rightarrow> (registers \<times> 'a sys_state_scheme) option" where
  "ticks e esp0 0 u = Some u"
| "ticks e esp0 (Suc n) u = Option.bind (ticks e esp0 n u) (int_stub e 0x20 esp0)"

text \<open>
  C5: the clock shares the processor.  The first ten interrupts of the clock since the start go back to the
  interrupted task; each one after that resumes the next task of the ring with the registers it was
  interrupted with (flags apart), so that \<open>n\<close> interrupts lead from the \<open>i\<close>-th task to the one \<open>n - (10 - c)\<close>
  places on.  No interrupt panics.
\<close>
theorem clock_shares:
  assumes "sched_ok ts (r, k)" and "i < length ts" and "current_task k = ts ! i" and "0 \<le> clock_c k" and "clock_c k \<le> 10"
  shows "\<exists>u'. ticks e esp0 n (r, k) = Some u' \<and> sched_ok ts u'
    \<and> current_task (snd u') = ts ! ((i + (n - nat (10 - clock_c k))) mod length ts)
    \<and> same_but_flags (fst u') (task_context (r, k) (current_task (snd u')))"
proof -
  have "\<exists>u'. ticks e esp0 n (r, k) = Some u' \<and> sched_ok ts u'
    \<and> current_task (snd u') = ts ! ((i + (n - nat (10 - clock_c k))) mod length ts)
    \<and> clock_c (snd u') = min 10 (clock_c k + int n)
    \<and> (\<forall>s \<in> set ts. same_but_flags (task_context u' s) (task_context (r, k) s))"
  proof (induction n)
    case 0
    then show ?case using assms by simp
  next
    case (Suc n)
    let ?j = "(i + (n - nat (10 - clock_c k))) mod length ts"
    obtain r1 k1 where k1: "ticks e esp0 n (r, k) = Some (r1, k1)" "sched_ok ts (r1, k1)" "current_task k1 = ts ! ?j"
      "clock_c k1 = min 10 (clock_c k + int n)"
      "\<forall>s \<in> set ts. same_but_flags (task_context (r1, k1) s) (task_context (r, k) s)"
      using Suc by auto
    have j: "?j < length ts" using assms(2) by (intro mod_less_divisor) linarith
    have cb: "interrupt_callbacks k1 ! 0x20 = Idt_clock" using k1(2) by (simp add: sched_ok_def)
    obtain r2 k2 where k2: "int_stub e 0x20 esp0 (r1, k1) = Some (r2, k2)" "sched_ok ts (r2, k2)"
      "current_task k2 = ts ! (if clock_c k1 < 10 then ?j else Suc ?j mod length ts)"
      "clock_c k2 = (if clock_c k1 < 10 then clock_c k1 + 1 else clock_c k1)"
      using clock_step [OF k1(2) j k1(3) cb, of e esp0] by blast
    have "\<forall>s \<in> set ts. same_but_flags (task_context (r2, k2) s) (task_context (r1, k1) s)"
      using int_stub_context [OF k2(1)] by blast
    note k2 = k2 this
    have "(if clock_c k1 < 10 then ?j else Suc ?j mod length ts) = (i + (Suc n - nat (10 - clock_c k))) mod length ts"
    proof (cases "clock_c k1 < 10")
      case True
      then have "n - nat (10 - clock_c k) = 0" "Suc n - nat (10 - clock_c k) = 0" using k1(4) by linarith+
      then show ?thesis using True by simp
    next
      case False
      then have "Suc n - nat (10 - clock_c k) = Suc (n - nat (10 - clock_c k))" using k1(4) by linarith
      then show ?thesis using False by (simp add: mod_Suc_eq)
    qed
    moreover have "clock_c k2 = min 10 (clock_c k + int (Suc n))" using k2(4) k1(4) by auto
    moreover have "\<forall>s \<in> set ts. same_but_flags (task_context (r2, k2) s) (task_context (r, k) s)"
      using k1(5) k2(5) same_but_flags_trans by blast
    ultimately show ?case using k1(1) k2(1-3) by simp
  qed
  then obtain u' where u': "ticks e esp0 n (r, k) = Some u'" "sched_ok ts u'"
    "current_task (snd u') = ts ! ((i + (n - nat (10 - clock_c k))) mod length ts)"
    "\<forall>s \<in> set ts. same_but_flags (task_context u' s) (task_context (r, k) s)"
    by blast
  have "current_task (snd u') \<in> set ts" using u'(2) by (simp add: sched_ok_def)
  then have "same_but_flags (task_context u' (current_task (snd u'))) (task_context (r, k) (current_task (snd u')))"
    using u'(4) by blast
  moreover have "task_context u' (current_task (snd u')) = fst u'" by (simp add: task_context_def)
  ultimately show ?thesis using u'(1-3) by metis
qed

subsection \<open>An instance\<close>

text \<open>
  Two tasks, 1 and 2, of two shells whose buffers are in low memory; the second task runs, the first shell
  is shown, the clock has done its first ten ticks.
\<close>

definition test_env :: "sys_state sys_env" where
  "test_env = \<lparr>fs_functions = undefined, lit_r = 0, stat_init = \<lparr>stat_flags = 0, filesize = 0\<rparr>, junk_process = 0,
     buf_at = 0x500, filename_at = 0x900, path_at = 0xA00, lit_root = 0xB00, kernel_flags = 2\<rparr>"

definition test_sys :: "mem \<Rightarrow> sys_state" where
  "test_sys m = kernel_state.extend
     ((test_kernel 0)\<lparr>ram := m,
        shell_objs := (\<lambda>s. zero_shell\<lparr>shell_id := (if s = 1 then 0 else 1),
          sh_video_mem := (if s = 1 then 0x1000 else 0x3000), sh_terminal := s, sh_process := [s, 0]\<rparr>),
        interrupt_callbacks := (replicate 512 No_callback)[0x20 := Idt_clock, 0x21 := Classic_keyboard_interrupt_handler]\<rparr>)
     (sys_state.fields ([Command0_sum, Command1_print, Command2_getkey, Command3_putchar, Command4_malloc] @ replicate 1019 No_command)
        [] \<lparr>idtr_limit = 0, idtr_base = 0\<rparr> 10)"

lemmas test_sys_defs = test_sys_def test_kernel_def test_screen_def elf_state.defs task_state.defs process_state.defs
  screen_state.defs kernel_state.defs sys_state.defs test_elf_def

lemma test_sys_fields:
  "ram (test_sys m) = m" "current_task (test_sys m) = 2" "kernel_heap (test_sys m) = the_heap" "clock_c (test_sys m) = 10"
  "current_shell (test_sys m) = 1" "\<not> backspace (test_sys m)" "get_current_task_shell (test_sys m) = 2"
  "buffer_of (test_sys m) s = (if s = 1 then 0x1000 else 0x3000)" "cursor_of (test_sys m) s = \<lparr>trow = 3, tcol = 5\<rparr>"
  "isr80h_commands (test_sys m) ! 1 = Command1_print" "isr80h_commands (test_sys m) ! 4 = Command4_malloc"
  "task_process (tasks (test_sys m) t) = t" "procs (test_sys m) p = zero_process\<lparr>process_shell := p\<rparr>"
  by (simp_all add: test_sys_defs zero_task_def zero_process_def get_current_task_shell_def buffer_of_def cursor_of_def)

lemma test_sys_sched: "sched_ok [1, 2] (r, test_sys (\<lambda>_. 0))"
  by (simp add: sched_ok_def task_ring_def test_sys_defs zero_task_def directory_entry_def load32_def)

theorem clock_shares_witness:
  "\<exists>u'. ticks test_env 0 3 (zero_registers, test_sys (\<lambda>_. 0)) = Some u' \<and> current_task (snd u') = 1"
proof -
  have len: "length [1, 2 :: u32] = 2" by simp
  have "(1 :: nat) < length [1, 2 :: u32]" "current_task (test_sys (\<lambda>_. 0)) = [1, 2] ! 1" "0 \<le> clock_c (test_sys (\<lambda>_. 0))"
    "clock_c (test_sys (\<lambda>_. 0)) \<le> 10" by (simp_all add: test_sys_fields)
  note C = clock_shares [OF test_sys_sched this, where n = 3 and e = test_env]
  have "(1 + (3 - nat (10 - clock_c (test_sys (\<lambda>_. 0))))) mod length [1, 2 :: u32] = 0"
    unfolding len by (simp add: test_sys_fields)
  then show ?thesis using C [where ?esp0.0 = 0 and r = zero_registers] by auto
qed


end
