(* ===== verification/Syscalls.thy ===== *)
theory Syscalls
  imports Scheduling
begin

text \<open>
  From the interrupt to the result: the tables the kernel sets up, the dispatch of system calls, and whole
  system calls from the user's registers to the user's registers.
\<close>

subsection \<open>Tables\<close>

lemma fold_list_update:
  assumes "\<And>i k. get (f i k) = (get k)[i := v i]"
  shows "length (get (fold f [0..<n] k)) = length (get k)"
    and "j < length (get k) \<Longrightarrow> get (fold f [0..<n] k) ! j = (if j < n then v j else get k ! j)"
  by (induction n) (auto simp: assms nth_list_update less_Suc_eq)

definition idt_address :: "idt_desc \<Rightarrow> u32" where
  \<comment> \<open>the handler address the processor reads from a descriptor\<close>
  "idt_address d = ucast (offset_1 d) OR push_bit 16 (ucast (offset_2 d))"

lemma idt_halves: "(ucast (ucast (a AND 0xffff :: u32) :: u16) :: u32) OR push_bit 16 (ucast (ucast (drop_bit 16 a) :: u16)) = a"
proof (rule bit_word_eqI)
  fix n assume "n < LENGTH(32)"
  moreover have "bit (0xffff :: u32) n \<longleftrightarrow> n < 16" if "n < 32"
  proof -
    have "(0xffff :: u32) = mask 16" by (simp add: mask_eq_exp_minus_1)
    then show ?thesis using that by (simp only: bit_mask_iff) simp
  qed
  ultimately show "bit ((ucast (ucast (a AND 0xffff) :: u16) :: u32) OR push_bit 16 (ucast (ucast (drop_bit 16 a) :: u16))) n = bit a n"
    by (auto simp: bit_simps)
qed

text \<open>
  \<open>idt_init\<close>.  All 512 descriptors are interrupt gates of the kernel's code segment that any
  privilege level may raise; from each the processor reads the address of its stub, from number \<open>0x80\<close> that
  of the system call stub.  The callbacks of the 32 exceptions terminate the process, that of \<open>0x20\<close> is the
  clock; the other callbacks stay.
\<close>
theorem idt_init_spec:
  assumes "length (interrupt_callbacks k) = 512"
  shows "\<exists>k'. idt_init stubs wrapper table k = k' \<and> length (idt_descriptors k') = 512
    \<and> idtr_descriptor k' = \<lparr>idtr_limit = 4095, idtr_base = table\<rparr>
    \<and> (\<forall>i < 512. idt_address (idt_descriptors k' ! i) = (if i = 0x80 then wrapper else stubs ! i)
         \<and> selector (idt_descriptors k' ! i) = KERNEL_CODE_SELECTOR \<and> type_attr (idt_descriptors k' ! i) = 0xEE)
    \<and> (\<forall>i < 512. interrupt_callbacks k' ! i = (if i < 0x20 then Idt_handle_execption
         else if i = 0x20 then Idt_clock else interrupt_callbacks k ! i))"
proof -
  let ?d = "\<lambda>a. \<lparr>offset_1 = ucast (a AND 0x0000ffff), selector = KERNEL_CODE_SELECTOR, zero_byte = 0,
      type_attr = 0xEE, offset_2 = ucast (drop_bit 16 a)\<rparr>"
  let ?k1 = "k\<lparr>idt_descriptors := replicate 512 idt_zero_descriptor, idtr_descriptor := \<lparr>idtr_limit = 4095, idtr_base = table\<rparr>\<rparr>"
  let ?k2 = "fold (\<lambda>i. idt_set (int i) (stubs ! i)) [0..<512] ?k1"
  let ?k3 = "idt_set 0x80 wrapper ?k2"
  let ?k4 = "fold (\<lambda>i k. snd (idt_register_interrupt_callback (int i) Idt_handle_execption k)) [0..<0x20] ?k3"
  let ?k' = "snd (idt_register_interrupt_callback 0x20 Idt_clock ?k4)"
  have run: "idt_init stubs wrapper table k = ?k'" by (simp add: idt_init_def Let_def)
  have set: "idt_descriptors (idt_set (int i) a k) = (idt_descriptors k)[i := ?d a]"
    "interrupt_callbacks (idt_set (int i) a k) = interrupt_callbacks k" "idtr_descriptor (idt_set (int i) a k) = idtr_descriptor k"
    for i a and k :: "'a sys_state_scheme"
    by (simp_all add: idt_set_def)
  have reg: "idt_descriptors (snd (idt_register_interrupt_callback j f k)) = idt_descriptors k"
    "idtr_descriptor (snd (idt_register_interrupt_callback j f k)) = idtr_descriptor k" for j f and k :: "'a sys_state_scheme"
    by (simp_all add: idt_register_interrupt_callback_def)
  have cb: "interrupt_callbacks (snd (idt_register_interrupt_callback (int i) f k)) =
      (if i < 512 then (interrupt_callbacks k)[i := f] else interrupt_callbacks k)" for i f and k :: "'a sys_state_scheme"
    by (simp add: idt_register_interrupt_callback_def)
  have regs: "idt_descriptors (fold (\<lambda>i k. snd (idt_register_interrupt_callback (int i) f k)) [0..<n] k) = idt_descriptors k"
    "idtr_descriptor (fold (\<lambda>i k. snd (idt_register_interrupt_callback (int i) f k)) [0..<n] k) = idtr_descriptor k"
    for n f and k :: "'a sys_state_scheme"
    by (induction n) (simp_all add: reg)
  have sets: "interrupt_callbacks (fold (\<lambda>i. idt_set (int i) (stubs ! i)) [0..<n] k) = interrupt_callbacks k"
    "idtr_descriptor (fold (\<lambda>i. idt_set (int i) (stubs ! i)) [0..<n] k) = idtr_descriptor k" for n and k :: "'a sys_state_scheme"
    by (induction n) (simp_all add: set)
  note F = fold_list_update [where get = idt_descriptors and f = "\<lambda>i. idt_set (int i) (stubs ! i)" and v = "\<lambda>i. ?d (stubs ! i)", OF set(1)]
  have d2: "length (idt_descriptors ?k2) = 512" "j < 512 \<Longrightarrow> idt_descriptors ?k2 ! j = ?d (stubs ! j)" for j
    using F(1) [of 512 ?k1] F(2) [of j ?k1 512] by simp_all
  have d': "idt_descriptors ?k' = (idt_descriptors ?k2)[0x80 := ?d wrapper]"
    using set(1) [of "0x80"] by (simp add: reg regs)
  have desc: "idt_descriptors ?k' ! i = ?d (if i = 0x80 then wrapper else stubs ! i)" if "i < 512" for i
    unfolding d' using d2 that by (simp add: nth_list_update)
  have cb3: "interrupt_callbacks ?k3 = interrupt_callbacks k" using set(2) [of "0x80"] sets(1) by simp
  have "length (interrupt_callbacks (fold (\<lambda>i k. snd (idt_register_interrupt_callback (int i) f k)) [0..<n] q)) = length (interrupt_callbacks q)
    \<and> (\<forall>j < 512. interrupt_callbacks (fold (\<lambda>i k. snd (idt_register_interrupt_callback (int i) f k)) [0..<n] q) ! j =
      (if j < n then f else interrupt_callbacks q ! j))"
    if "n \<le> 512" "length (interrupt_callbacks q) = 512" for n f and q :: "'a sys_state_scheme"
    using that by (induction n) (auto simp: cb nth_list_update less_Suc_eq)
  then have c4: "length (interrupt_callbacks ?k4) = 512"
    "j < 512 \<Longrightarrow> interrupt_callbacks ?k4 ! j = (if j < 0x20 then Idt_handle_execption else interrupt_callbacks k ! j)" for j
    using assms cb3 by simp_all
  have "interrupt_callbacks ?k' = (interrupt_callbacks ?k4)[0x20 := Idt_clock]" using cb [of "0x20"] by simp
  then have "interrupt_callbacks ?k' ! i = (if i < 0x20 then Idt_handle_execption
      else if i = 0x20 then Idt_clock else interrupt_callbacks k ! i)" if "i < 512" for i
    using c4 that by (simp add: nth_list_update)
  moreover have "idtr_descriptor ?k' = \<lparr>idtr_limit = 4095, idtr_base = table\<rparr>"
    using set(3) [of "0x80"] by (simp add: reg regs sets)
  moreover have "length (idt_descriptors ?k') = 512" unfolding d' using d2(1) by simp
  ultimately show ?thesis unfolding run using desc by (simp add: idt_address_def idt_halves)
qed

subsection \<open>Dispatch\<close>

definition commands :: "isr80h_command list" where
  "commands = [Command0_sum, Command1_print, Command2_getkey, Command3_putchar, Command4_malloc, Command5_free,
     Command6_process_load_start, Command7_invoke_system_command, Command8_get_program_arguments, Command9_exit]"

lemma register_commands:
  assumes "isr80h_commands k = replicate 1024 No_command"
  shows "isr80h_register_commands k = Some (k\<lparr>isr80h_commands := commands @ replicate 1014 No_command\<rparr>)"
proof -
  have "replicate 1024 No_command = replicate 10 No_command @ replicate 1014 No_command" by (simp flip: replicate_add)
  then have "isr80h_commands k = No_command # No_command # No_command # No_command # No_command # No_command # No_command
      # No_command # No_command # No_command # replicate 1014 No_command"
    using assms by (simp add: eval_nat_numeral)
  then show ?thesis
    by (simp add: isr80h_register_commands_def isr80h_register_command_def commands_def eval_nat_numeral)
qed

lemma nth_commands: "i < 1024 \<Longrightarrow> (commands @ replicate 1014 No_command) ! i = (if i < 10 then commands ! i else No_command)"
proof -
  have "length commands = 10" by (simp add: commands_def)
  then show "i < 1024 \<Longrightarrow> (commands @ replicate 1014 No_command) ! i = (if i < 10 then commands ! i else No_command)"
    by (simp add: nth_append)
qed

text \<open>
  C19: the system calls.  Once the kernel has registered its commands, a call with a number from 0 to 9 runs
  the command of that number, a number outside the table of 1024 does nothing and returns 0, and any
  other number halts the kernel in a panic: any program can stop the machine.
\<close>
theorem isr80h_dispatch:
  assumes "isr80h_commands k = replicate 1024 No_command"
  shows "\<exists>k'. isr80h_register_commands k = Some k' \<and> (\<forall>i. isr80h_handle_command e i k' =
    (if i < 0 \<or> 1024 \<le> i then Some (Returned 0 k')
     else if i < 10 then call_isr80h_command (commands ! nat i) e k' else None))"
proof (intro exI conjI allI)
  let ?k' = "k\<lparr>isr80h_commands := commands @ replicate 1014 No_command\<rparr>"
  show "isr80h_register_commands k = Some ?k'" by (rule register_commands [OF assms])
  fix i :: int
  have known: "commands ! nat i \<noteq> No_command" if "0 \<le> i" "i < 10"
  proof -
    have "nat i < length commands" using that by (simp add: commands_def)
    then have "commands ! nat i \<in> set commands" by (rule nth_mem)
    then show ?thesis by (auto simp: commands_def)
  qed
  show "isr80h_handle_command e i ?k' = (if i < 0 \<or> 1024 \<le> i then Some (Returned 0 ?k')
     else if i < 10 then call_isr80h_command (commands ! nat i) e ?k' else None)"
  proof (cases "i < 0 \<or> 1024 \<le> i")
    case True
    then show ?thesis by (simp add: isr80h_handle_command_def)
  next
    case False
    then have "nat i < 1024" by linarith
    note this [THEN nth_commands]
    then show ?thesis using False known by (auto simp: isr80h_handle_command_def Let_def)
  qed
qed

subsection \<open>The way in and out\<close>

text \<open>\<open>in_kernel k r esp0\<close>: the state in which the command runs, \<open>back k\<close> the one in which the user goes on.\<close>

definition in_kernel :: "registers \<Rightarrow> u32 \<Rightarrow> 'a sys_state_scheme \<Rightarrow> 'a sys_state_scheme" where
  "in_kernel r esp0 k = task_save_state (current_task k) (frame_of r esp0) (kernel_page k)"

lemma in_kernel_fields [simp]:
  "ram (in_kernel r esp0 k) = ram k" "kernel_heap (in_kernel r esp0 k) = kernel_heap k" "procs (in_kernel r esp0 k) = procs k"
  "current_task (in_kernel r esp0 k) = current_task k" "isr80h_commands (in_kernel r esp0 k) = isr80h_commands k"
  "tasks (in_kernel r esp0 k) = (tasks k)(current_task k := (tasks k (current_task k))\<lparr>task_regs := r\<rparr>)"
  by (simp_all add: in_kernel_def save_state_fields save_state_outer)
     (simp_all add: task_save_state_def set_task_def kernel_page_def kernel_registers_def paging_switch_def
       paging_load_directory_def Let_def)

lemma wrapper_returns:
  assumes "current_task k \<noteq> 0" and "r_eax r = of_nat n" and "n < 1024" and "isr80h_commands k ! n = f" and "f \<noteq> No_command"
    and "call_isr80h_command f e (in_kernel r esp0 k) = Some (Returned v k')"
  shows "isr80h_wrapper e esp0 (r, k) = Some (r\<lparr>r_eax := v\<rparr>, task_page k')"
proof -
  have "unat (of_nat n :: u32) = n" using assms(3) by (simp add: unat_of_nat32)
  then have n: "as_int (r_eax r) = int n" using assms(2,3) by (simp add: as_int_nonneg)
  have save: "task_current_save_state (frame_of r esp0) (kernel_page k) = Some (in_kernel r esp0 k)"
    using save_current [OF assms(1)] by (simp add: in_kernel_def)
  have "isr80h_handle_command e (int n) (in_kernel r esp0 k) = Some (Returned v k')"
    using assms(3-6) by (simp add: isr80h_handle_command_def Let_def)
  then show ?thesis by (simp add: isr80h_wrapper_def isr80h_handler_def save n)
qed

text \<open>\<open>user_word k va w\<close>: the running task finds the word \<open>w\<close> at its address \<open>va\<close>.\<close>

definition user_word :: "'a task_state_scheme \<Rightarrow> u32 \<Rightarrow> u32 \<Rightarrow> bool" where
  "user_word k va w \<longleftrightarrow> virt_read32 (task_page_task (current_task k) k) va = Some w"

lemma virt_read32_cong: "ram k' = ram k \<Longrightarrow> cr3 k' = cr3 k \<Longrightarrow> virt_read32 k' va = virt_read32 k va"
  by (simp add: virt_read32_def virt_read_def translate_def)

definition seen :: "'a task_state_scheme \<Rightarrow> 'a task_state_scheme" where
  \<comment> \<open>after a look at the task's stack\<close>
  "seen k = kernel_page (task_page_task (current_task k) k)"

lemma task_page_task_fields [simp]:
  "ram (task_page_task t k) = ram k" "cr3 (task_page_task t k) = directory_entry (ram k) (page_directory (tasks k t))"
  by (simp_all add: task_page_task_def user_registers_def Let_def)

lemma stack_item:
  assumes "user_word k (r_esp r + 4 * as_u32 i) w"
  shows "task_get_stack_item (current_task k) i (in_kernel r esp0 k) = Some (w, seen (in_kernel r esp0 k))"
proof -
  have "virt_read32 (task_page_task (current_task k) (in_kernel r esp0 k)) (r_esp r + 4 * as_u32 i)
      = virt_read32 (task_page_task (current_task k) k) (r_esp r + 4 * as_u32 i)"
    by (rule virt_read32_cong) simp_all
  then show ?thesis using assms by (simp add: task_get_stack_item_def user_word_def seen_def Let_def)
qed

lemma seen_fields [simp]:
  "ram (seen k) = ram k" "kernel_heap (seen k) = kernel_heap k" "procs (seen k) = procs k" "tasks (seen k) = tasks k"
  "current_task (seen k) = current_task k" "kernel_chunk (seen k) = kernel_chunk k"
  by (simp_all add: seen_def task_page_task_def user_registers_def paging_switch_def paging_load_directory_def Let_def)

subsection \<open>Allocation\<close>

lemma process_ok_cong:
  fixes k k' :: "'a task_state_scheme"
  assumes "kernel_heap k' = kernel_heap k" and "ram k' = ram k" and "procs k' p = procs k p"
    and "\<And>t. page_directory (tasks k' t) = page_directory (tasks k t)"
  shows "process_ok k' A c d T p = process_ok k A c d T p"
  using assms by (simp add: process_ok_def kheap_rep_def process_directory_def)

lemma task_page_fields [simp]:
  "kernel_heap (task_page k) = kernel_heap k" "procs (task_page k) = procs k" "tasks (task_page k) = tasks k"
  "current_task (task_page k) = current_task k"
  by (simp_all add: task_page_def user_registers_def task_switch_def paging_switch_def paging_load_directory_def Let_def)

lemma process_ok_in: "process_ok (seen (in_kernel r esp0 k)) A c d T p = process_ok k A c d T p"
  by (rule process_ok_cong) simp_all

lemma process_ok_out: "process_ok (task_page k) A c d T p = process_ok k A c d T p"
  by (rule process_ok_cong) (simp_all add: task_page_cr3)

text \<open>
  C6: system call 4.  A program that puts 4 in \<open>eax\<close>, a size on its stack and raises interrupt \<open>0x80\<close> goes on
  with all its registers as they were but \<open>eax\<close>, which holds the address of a fresh region of the heap:
  zeroed, recorded in its process, and mapped to itself, present and writable, in its page tables, all
  other pages as before.
\<close>
theorem isr80h_malloc:
  fixes k :: "'a sys_state_scheme"
  assumes ok: "process_ok k A c d T (task_process (tasks k (current_task k)))" and cur: "current_task k \<noteq> 0"
    and call: "r_eax r = 4" "isr80h_commands k ! 4 = Command4_malloc" and arg: "user_word k (r_esp r) sz"
    and sz: "0 < unat sz" "first_fit 25600 A (blocks_of sz) b"
    and slot: "0 \<in> set (map alloc_ptr (allocations (procs k (task_process (tasks k (current_task k))))))"
  shows "\<exists>k'. isr80h_wrapper e esp0 (r, k) = Some (r\<lparr>r_eax := blk_addr b\<rparr>, k')
    \<and> process_ok k' (A(b \<mapsto> blocks_of sz)) c d T (task_process (tasks k (current_task k)))
    \<and> (\<exists>i. lowest_free (map alloc_ptr (allocations (procs k (task_process (tasks k (current_task k)))))) i
         \<and> allocations (procs k' (task_process (tasks k (current_task k)))) =
            (allocations (procs k (task_process (tasks k (current_task k)))))[i := \<lparr>alloc_ptr = blk_addr b, alloc_size = sz\<rparr>])
    \<and> (\<forall>w. w mod 4096 = 0 \<longrightarrow> paging_get (blk_addr d) w (ram k') =
         (if unat (w - blk_addr b) < 4096 * blocks_of sz then w OR 7 else paging_get (blk_addr d) w (ram k)))
    \<and> (\<forall>x < unat sz. ram k' (blk_addr b + of_nat x) = 0)"
proof -
  let ?p = "task_process (tasks k (current_task k))" and ?k = "seen (in_kernel r esp0 k)"
  have ok': "process_ok ?k A c d T ?p" using ok by (simp only: process_ok_in)
  have same: "allocations (procs ?k ?p) = allocations (procs k ?p)" "ram ?k = ram k" by simp_all
  have some: "\<not> 0 \<notin> set (map alloc_ptr (allocations (procs k ?p)))" using slot by simp
  obtain k' i where k': "process_malloc ?p sz ?k = (blk_addr b, k')" "process_ok k' (A(b \<mapsto> blocks_of sz)) c d T ?p"
    "lowest_free (map alloc_ptr (allocations (procs k ?p))) i"
    "allocations (procs k' ?p) = (allocations (procs k ?p))[i := \<lparr>alloc_ptr = blk_addr b, alloc_size = sz\<rparr>]"
    "\<forall>w. w mod 4096 = 0 \<longrightarrow> paging_get (blk_addr d) w (ram k') =
       (if unat (w - blk_addr b) < 4096 * blocks_of sz then w OR 7 else paging_get (blk_addr d) w (ram k))"
    "\<forall>x < unat sz. ram k' (blk_addr b + of_nat x) = 0"
    using process_malloc_run [OF ok' sz] unfolding same if_not_P [OF some] by blast
  have "task_get_stack_item (current_task k) 0 (in_kernel r esp0 k) = Some (sz, ?k)"
    by (rule stack_item) (use arg in \<open>simp add: as_u32_def\<close>)
  then have "call_isr80h_command Command4_malloc e (in_kernel r esp0 k) = Some (Returned (blk_addr b) k')"
    by (simp add: call_isr80h_command_def isr80h_command4_malloc_def returned_def k'(1))
  then have "isr80h_wrapper e esp0 (r, k) = Some (r\<lparr>r_eax := blk_addr b\<rparr>, task_page k')"
    using wrapper_returns [OF cur, where n = 4] call by simp
  moreover have "process_ok (task_page k') (A(b \<mapsto> blocks_of sz)) c d T ?p" using k'(2) process_ok_out by blast
  ultimately show ?thesis
    using k'(3-6) task_page_cr3(2) [of k'] task_page_fields(2) [of k'] by (intro exI [of _ "task_page k'"]) auto
qed

subsection \<open>An instance\<close>

text \<open>
  A machine whose running task has a fresh address space, a stack at \<open>0x100\<close> with the word 16 on top, and at
  16 the string \<open>A\<close>.
\<close>

definition user_image :: mem where
  "user_image = (\<lambda>_. 0)(16 := 0x41, 0x100 := 16)"

lemma some_machine:
  "\<exists>(k :: sys_state) m c d T. k = (test_sys m)\<lparr>tasks := (\<lambda>t. (tasks (test_sys m) t)\<lparr>page_directory := blk_addr c\<rparr>)\<rparr>
     \<and> (\<forall>a. unat a < 0x7E00 \<longrightarrow> m a = user_image a) \<and> (\<forall>a. stable Map.empty a \<longrightarrow> m a = user_image a)
     \<and> process_ok k (ones (c # d # T)) c d T 2 \<and> 0 < free_blocks 25600 (ones (c # d # T))
     \<and> user_string k (ones (c # d # T)) c d T 16 [0x41] (\<lambda>i. 16 + of_nat i) \<and> user_word k 0x100 16"
proof -
  let ?k0 = "test_sys user_image"
  have "kheap_rep (?k0\<lparr>ram := user_image\<rparr>) Map.empty"
    by (rule empty_heap) (auto simp: test_sys_fields user_image_def)
  moreover have "?k0\<lparr>ram := user_image\<rparr> = ?k0" by (simp add: test_sys_defs)
  ultimately have "kheap_rep ?k0 Map.empty" by simp
  then obtain c d T and k1 :: sys_state where new: "chunk_wf (ram k1) c d T" "dir_present (ram k1) d"
    "kheap_rep k1 (ones (c # d # T))" "0 < free_blocks 25600 (ones (c # d # T))" "kmem.more k1 = kmem.more ?k0"
    "\<forall>a. unat a < 0x7E00 \<longrightarrow> ram k1 a = ram ?k0 a" "\<forall>a. stable Map.empty a \<longrightarrow> ram k1 a = ram ?k0 a"
    "\<forall>v. unat v < 4096 \<longrightarrow> translate (paging_switch (blk_addr c) k1) v = Some v"
    by (rule fresh_space) blast
  let ?A = "ones (c # d # T)" and ?m = "ram k1"
  have "kernel_heap k1 = the_heap" using new(3) by (simp add: kheap_rep_def)
  then have k1: "k1 = test_sys ?m"
    using new(5) by (cases k1) (simp add: test_sys_defs)
  let ?k = "(test_sys ?m)\<lparr>tasks := (\<lambda>t. (tasks (test_sys ?m) t)\<lparr>page_directory := blk_addr c\<rparr>)\<rparr>"
  have low: "?m a = user_image a" if "unat a < 0x7E00" for a using new(6) that by (simp add: test_sys_fields)
  have rep: "kheap_rep ?k ?A" using new(3) by (simp add: kheap_rep_def test_sys_fields)
  have tr: "translate (paging_switch (blk_addr c) ?k) v = Some v" if "unat v < 4096" for v
  proof -
    have "translate (paging_switch (blk_addr c) ?k) v = translate (paging_switch (blk_addr c) k1) v"
      by (simp add: translate_def test_sys_fields)
    then show ?thesis using new(8) that by simp
  qed
  have "user_string ?k ?A c d T 16 [0x41] (\<lambda>i. 16 + of_nat i)"
  proof (rule fresh_user_string)
    show "ram ?k (16 + of_nat i) = ([0x41] @ [0]) ! i" if "i \<le> length [0x41 :: u8]" for i
      using that low by (cases i) (auto simp: test_sys_fields user_image_def)
  qed (use new(1,2) tr in \<open>simp_all add: test_sys_fields\<close>)
  moreover have "user_word ?k 0x100 16"
  proof -
    have "virt_read (task_page_task 2 ?k) v = Some (user_image v)" if "unat v < 4096" for v
    proof -
      have "translate (task_page_task 2 ?k) v = translate (paging_switch (blk_addr c) ?k) v" by (simp add: translate_def)
      then show ?thesis using tr [OF that] low that by (simp add: virt_read_def test_sys_fields)
    qed
    then show ?thesis by (simp add: user_word_def virt_read32_def test_sys_fields user_image_def)
  qed
  moreover have "process_ok ?k ?A c d T 2"
  proof -
    have "allocs_ok ?A (set (c # d # T)) (replicate 1024 no_alloc)" by (rule allocs_okI) (simp_all add: alloc_ok_def)
    then have "allocs_ok ?A (set (c # d # T)) (allocations (procs ?k 2))" by (simp add: test_sys_fields zero_process_def)
    then show ?thesis
      unfolding process_ok_def using rep new(1) by (simp add: process_directory_def test_sys_fields ones_def)
  qed
  ultimately show ?thesis using new(4,7) low
    by (intro exI [of _ ?k] exI [of _ ?m] exI [of _ c] exI [of _ d] exI [of _ T]) (simp add: test_sys_fields)
qed

theorem idt_init_spec_witness:
  "\<exists>k'. idt_init (replicate 512 0x100000) 0x200000 0x300000 (test_sys (\<lambda>_. 0)) = k'
     \<and> idt_address (idt_descriptors k' ! 0x80) = 0x200000"
proof -
  have "length (interrupt_callbacks (test_sys (\<lambda>_. 0))) = 512" by (simp add: test_sys_defs)
  from idt_init_spec [OF this, of "replicate 512 0x100000" "0x200000" "0x300000"] show ?thesis by auto
qed

theorem isr80h_dispatch_witness:
  "\<exists>k'. isr80h_register_commands ((test_sys (\<lambda>_. 0))\<lparr>isr80h_commands := replicate 1024 No_command\<rparr>) = Some k'
     \<and> isr80h_handle_command test_env 11 k' = None"
proof -
  let ?k = "(test_sys (\<lambda>_. 0))\<lparr>isr80h_commands := replicate 1024 No_command\<rparr>"
  have "isr80h_commands ?k = replicate 1024 No_command" by simp
  then obtain k' where k': "isr80h_register_commands ?k = Some k'" "\<forall>i. isr80h_handle_command test_env i k' =
    (if i < 0 \<or> 1024 \<le> i then Some (Returned 0 k')
     else if i < 10 then call_isr80h_command (commands ! nat i) test_env k' else None)"
    using isr80h_dispatch [of ?k test_env] by blast
  from k'(2) [rule_format, of 11] k'(1) show ?thesis by (intro exI [of _ k']) simp
qed

theorem isr80h_malloc_witness:
  "\<exists>(k :: sys_state) k' b. isr80h_wrapper test_env 0 (zero_registers\<lparr>r_eax := 4, r_esp := 0x100\<rparr>, k)
     = Some (zero_registers\<lparr>r_eax := blk_addr b, r_esp := 0x100\<rparr>, k') \<and> ram k' (blk_addr b) = 0"
proof -
  obtain k :: sys_state and m c d T where k: "k = (test_sys m)\<lparr>tasks := (\<lambda>t. (tasks (test_sys m) t)\<lparr>page_directory := blk_addr c\<rparr>)\<rparr>"
    "process_ok k (ones (c # d # T)) c d T 2" "0 < free_blocks 25600 (ones (c # d # T))" "user_word k 0x100 16"
    using some_machine by blast
  let ?r = "zero_registers\<lparr>r_eax := 4, r_esp := 0x100\<rparr>"
  have f: "current_task k = 2" "task_process (tasks k (current_task k)) = 2" "isr80h_commands k ! 4 = Command4_malloc"
    "0 \<in> set (map alloc_ptr (allocations (procs k 2)))"
    unfolding k(1) by (simp_all add: test_sys_fields zero_process_def)
  have n: "blocks_of 16 = 1" by (simp add: blocks_of_def)
  obtain b where b: "first_fit 25600 (ones (c # d # T)) (blocks_of 16) b" using free_blocks_room [OF k(3)] n by auto
  have "r_eax ?r = 4" "r_esp ?r = 0x100" "0 < unat (16 :: u32)" by simp_all
  then obtain k' where k': "isr80h_wrapper test_env 0 (?r, k) = Some (?r\<lparr>r_eax := blk_addr b\<rparr>, k')"
    "\<forall>x < unat (16 :: u32). ram k' (blk_addr b + of_nat x) = 0"
    using isr80h_malloc [where k = k and r = ?r and e = test_env and ?esp0.0 = 0 and sz = 16, unfolded f(2), OF k(2) _ _ f(3) _ _ b f(4)]
      f(1) k(4) by auto
  have "?r\<lparr>r_eax := blk_addr b\<rparr> = zero_registers\<lparr>r_eax := blk_addr b, r_esp := 0x100\<rparr>" by simp
  moreover have "ram k' (blk_addr b) = 0" using k'(2) [rule_format, of 0] by simp
  ultimately show ?thesis using k'(1) by metis
qed

end
