(* ===== verification/Console.thy ===== *)
theory Console
  imports Syscalls
begin

text \<open>
  The system call that prints, from the string in the memory of the program to the screen: the copy into
  the kernel and the terminal put together.
\<close>

subsection \<open>What the copy leaves alone\<close>

definition rest_same :: "'a task_state_scheme \<Rightarrow> 'a task_state_scheme \<Rightarrow> bool" where
  "rest_same k' k \<longleftrightarrow> tasks k' = tasks k \<and> procs k' = procs k \<and> current_task k' = current_task k
     \<and> kernel_chunk k' = kernel_chunk k \<and> task_state.more k' = task_state.more k"

lemma rest_same_refl: "rest_same k k"
  by (simp add: rest_same_def)

lemma rest_same_trans: "rest_same k2 k1 \<Longrightarrow> rest_same k1 k \<Longrightarrow> rest_same k2 k"
  by (simp add: rest_same_def)

lemma rest_same_basic:
  "rest_same (k\<lparr>ram := m\<rparr>) k" "rest_same (paging_switch p k) k" "rest_same (kernel_page k) k"
  "rest_same (task_page_task t k) k"
  by (simp_all add: rest_same_def paging_switch_def paging_load_directory_def kernel_page_def kernel_registers_def
      task_page_task_def user_registers_def Let_def)

lemma rest_same_kmem: "kmem.more k' = kmem.more k \<Longrightarrow> rest_same k' k"
  by (cases k; cases k') (simp add: rest_same_def)

lemma rest_same_heap: "rest_same (snd (kzalloc sz k)) k" "rest_same (kfree p k) k"
  by (rule rest_same_kmem, simp add: kzalloc_more kfree_more)+

lemma rest_same_write: "virt_write a c k = Some k' \<Longrightarrow> rest_same k' k"
  by (auto simp: virt_write_def rest_same_basic)

lemma rest_same_strncpy_loop: "virt_strncpy_loop dest src n i k = Some (j, k') \<Longrightarrow> rest_same k' k"
proof (induction n arbitrary: i k)
  case 0
  then show ?case by (simp add: rest_same_refl)
next
  case (Suc n)
  then show ?case
    by (auto simp: bind_eq_Some_conv rest_same_refl split: if_splits
        intro: rest_same_trans [OF _ rest_same_write])
qed

lemma rest_same_strncpy: "virt_strncpy dest src n k = Some k' \<Longrightarrow> rest_same k' k"
  by (auto simp: virt_strncpy_def bind_eq_Some_conv
      intro: rest_same_trans [OF rest_same_write rest_same_strncpy_loop])

lemma rest_same_copy:
  assumes "copy_string_from_task t va phys n k = Some (r, k')"
  shows "rest_same k' k"
proof (cases "n \<ge> uint PAGING_PAGE_SIZE")
  case True
  then show ?thesis using assms by (auto simp: copy_string_from_task_def rest_same_refl)
next
  case False
  obtain tmp k1 where k1: "kzalloc (as_u32 n) k = (tmp, k1)" by fastforce
  then have s1: "rest_same k1 k" using rest_same_heap(1) [of "as_u32 n" k] by simp
  show ?thesis
  proof (cases "tmp = 0")
    case True
    then show ?thesis using assms False k1 s1 by (simp add: copy_string_from_task_def)
  next
    case nz: False
    let ?dir = "directory_entry (ram k1) (page_directory (tasks k1 t))"
    let ?old = "paging_get ?dir tmp (ram k1)"
    let ?m = "snd (paging_map (page_directory (tasks k1 t)) tmp tmp 7 (ram k1))"
    let ?k2 = "paging_switch (page_directory (tasks k1 t)) (k1\<lparr>ram := ?m\<rparr>)"
    have bits: "uint (PAGING_IS_WRITEABLE OR PAGING_IS_PRESENT OR PAGING_ACCESS_FROM_ALL) = 7" by simp
    have copy: "copy_string_from_task t va phys n k = Option.bind (virt_strncpy tmp va n ?k2) (\<lambda>k3.
        let k4 = (kernel_page k3)\<lparr>ram := snd (paging_set ?dir tmp ?old (ram (kernel_page k3)))\<rparr>
        in if fst (paging_set ?dir tmp ?old (ram (kernel_page k3))) < 0 then Some (- EIO, kfree tmp k4)
           else Some (fst (paging_set ?dir tmp ?old (ram (kernel_page k3))),
                      kfree tmp (k4\<lparr>ram := snd (strncpy (ram k4) phys tmp n)\<rparr>)))"
      by (simp only: copy_string_from_task_def if_not_P [OF False] if_not_P [OF nz] k1 Let_def case_prod_unfold fst_conv snd_conv bits)
    have "rest_same ?k2 k"
      using rest_same_trans [OF rest_same_basic(2) rest_same_trans [OF rest_same_basic(1) s1]] .
    then have s3: "rest_same ((kernel_page k3)\<lparr>ram := m\<rparr>) k" if "virt_strncpy tmp va n ?k2 = Some k3" for k3 m
      using rest_same_trans [OF rest_same_basic(1) rest_same_trans [OF rest_same_basic(3)
          rest_same_trans [OF rest_same_strncpy [OF that]]]] by blast
    obtain k3 where k3: "virt_strncpy tmp va n ?k2 = Some k3" using assms unfolding copy by (cases "virt_strncpy tmp va n ?k2") simp_all
    note s4 = s3 [OF k3]
    have "rest_same (kfree tmp ((kernel_page k3)\<lparr>ram := m\<rparr>)) k" "rest_same (kfree tmp ((kernel_page k3)\<lparr>ram := m, ram := m'\<rparr>)) k" for m m'
      by (rule rest_same_trans [OF rest_same_heap(2) s4], rule rest_same_trans [OF rest_same_heap(2) rest_same_trans [OF rest_same_basic(1) s4]])
    then show ?thesis using assms unfolding copy k3 by (auto simp: Let_def split: if_split_asm)
  qed
qed

definition same_screen :: "'a screen_state_scheme \<Rightarrow> 'a screen_state_scheme \<Rightarrow> bool" where
  "same_screen k' k \<longleftrightarrow> shell_objs k' = shell_objs k \<and> terminals k' = terminals k \<and> current_shell k' = current_shell k
     \<and> backspace k' = backspace k \<and> get_current_task_shell k' = get_current_task_shell k"

lemma same_screen_trans: "same_screen k2 k1 \<Longrightarrow> same_screen k1 k \<Longrightarrow> same_screen k2 k"
  by (simp add: same_screen_def)

lemma rest_same_screen: "rest_same k' k \<Longrightarrow> same_screen k' k"
  by (cases k; cases k'; simp add: rest_same_def same_screen_def get_current_task_shell_def)

lemma same_screen_in: "same_screen (in_kernel r esp0 k) k"
  by (simp add: same_screen_def get_current_task_shell_def)
     (simp add: in_kernel_def task_save_state_def set_task_def kernel_page_def kernel_registers_def paging_switch_def
       paging_load_directory_def Let_def)

lemma rest_same_wrap: "rest_same (seen k) k" "rest_same (task_page k) k"
  by (simp_all add: rest_same_def seen_def task_page_task_def task_page_def task_switch_def user_registers_def
      kernel_page_def kernel_registers_def paging_switch_def paging_load_directory_def Let_def)

subsection \<open>The screen during the copy\<close>

text \<open>The windows and the screen depend on the bytes of their buffers only.\<close>

lemma window_cong:
  assumes ss: "same_screen k' k" and s: "\<And>x. x < 4096 \<Longrightarrow> ram k' (buffer_of k s + of_nat x) = ram k (buffer_of k s + of_nat x)"
  shows "window k' s = window k s"
proof -
  have "cells (ram k') (buffer_of k s) = cells (ram k) (buffer_of k s)" by (intro cells_cong s)
  then show ?thesis using ss by (simp add: same_screen_def window_def buffer_of_def cursor_of_def)
qed

lemma screen_ok_cong:
  assumes ok: "screen_ok S k" and ss: "same_screen k' k"
    and s: "\<And>s x. s \<in> S \<Longrightarrow> x < 4096 \<Longrightarrow> ram k' (buffer_of k s + of_nat x) = ram k (buffer_of k s + of_nat x)"
    and v: "\<And>x. x < 4096 \<Longrightarrow> ram k' (video_mem + of_nat x) = ram k (video_mem + of_nat x)"
  shows "screen_ok S k'"
proof -
  note D = screen_okD [OF ok]
  have "window k' (current_shell k) = window k (current_shell k)" by (rule window_cong [OF ss s [OF D(2)]])
  moreover have "cells (ram k') video_mem = cells (ram k) video_mem" by (intro cells_cong v)
  ultimately show ?thesis
    using D ss by (simp add: same_screen_def screen_ok_def shells_apart_def buffer_of_def cursor_of_def)
qed

lemma user_string_cong:
  assumes "ram k' = ram k"
  shows "user_string k' A c d T va s pa = user_string k A c d T va s pa"
proof -
  have "translate (paging_switch (blk_addr c) k') v = translate (paging_switch (blk_addr c) k) v" for v
    using assms by (simp add: translate_def)
  then show ?thesis using assms by (simp add: user_string_def)
qed

text \<open>\<open>screen_kept A S k buf\<close>: neither the heap nor the local array \<open>buf\<close> of the kernel touches a byte of the screen.\<close>

definition screen_kept :: "(nat \<rightharpoonup> nat) \<Rightarrow> u32 set \<Rightarrow> 'a screen_state_scheme \<Rightarrow> u32 \<Rightarrow> bool" where
  "screen_kept A S k buf \<longleftrightarrow> (\<forall>v \<in> insert video_mem (buffer_of k ` S). \<forall>x < 4096.
     stable A (v + of_nat x) \<and> 1024 \<le> unat (v + of_nat x - buf))"

lemma screen_kept_off:
  assumes "screen_kept A S k buf" and "v \<in> insert video_mem (buffer_of k ` S)" and "i < 1024"
  shows "4096 \<le> unat (buf + of_nat i - v)"
proof (rule ccontr)
  assume lt: "\<not> 4096 \<le> unat (buf + of_nat i - v)"
  let ?x = "unat (buf + of_nat i - v)"
  have "v + of_nat ?x = buf + of_nat i" by simp
  then have "unat (v + of_nat ?x - buf) = i" using assms(3) by (simp only: unat_offset)
  moreover have "?x < 4096" using lt by (simp only: not_le)
  then have "1024 \<le> unat (v + of_nat ?x - buf)" using assms(1,2) unfolding screen_kept_def by blast
  ultimately show False using assms(3) by simp
qed

text \<open>
  C3: system call 1.  A program that puts 1 in \<open>eax\<close>, the address of a string on its stack and raises
  interrupt \<open>0x80\<close> finds the string written into the window of its shell, character by character from the
  cursor on, whether that shell is shown or not; the other windows are as before, the screen still shows
  the window of the current shell, and the program goes on with its registers as they were and 0 in
  \<open>eax\<close>.  The string has fewer than 1024 bytes, the heap has a free block for the copy, and the text fits: no
  backspace in it and nothing written below the last line, since the terminal does not scroll.
\<close>
theorem isr80h_print:
  fixes k :: "'a sys_state_scheme"
  assumes cur: "current_task k \<noteq> 0" and call: "r_eax r = 1" "isr80h_commands k ! 1 = Command1_print"
    and arg: "user_word k (r_esp r) va" and us: "user_string k A c d T va s pa" and len: "length s < 1024"
    and rep: "kheap_rep k A" "0 < free_blocks 25600 A" "page_directory (tasks k (current_task k)) = blk_addr c"
    and buf: "\<forall>i < 1024. stable A (buf_at e + of_nat i)
      \<and> (\<forall>b \<in> set (c # d # T). 4096 \<le> unat (buf_at e + of_nat i - blk_addr b))"
    and screen: "screen_ok S k" "get_current_task_shell k \<in> S" "screen_kept A S k (buf_at e)"
    and fits: "fits s (window k (get_current_task_shell k))"
  shows "\<exists>k'. isr80h_wrapper e esp0 (r, k) = Some (r\<lparr>r_eax := 0\<rparr>, k') \<and> screen_ok S k'
    \<and> window k' (get_current_task_shell k) = fold win_char s (window k (get_current_task_shell k))
    \<and> (\<forall>q \<in> S. q \<noteq> get_current_task_shell k \<longrightarrow> window k' q = window k q)"
proof -
  let ?t = "current_task k" and ?s = "get_current_task_shell k"
  let ?k1 = "seen (in_kernel r esp0 k)"
  have item: "task_get_stack_item ?t 0 (in_kernel r esp0 k) = Some (va, ?k1)"
    by (rule stack_item) (use arg in \<open>simp add: as_u32_def\<close>)
  have "kheap_rep ?k1 A" using rep(1) by (simp add: kheap_rep_def)
  moreover have "page_directory (tasks ?k1 ?t) = blk_addr c" using rep(3) by simp
  moreover have "user_string ?k1 A c d T va s pa" using us by (simp add: user_string_cong [of ?k1 k])
  moreover have "take (nat (1024 - 1)) s = s" using len by simp
  ultimately obtain k2 where k2: "copy_string_from_task ?t va (buf_at e) 1024 ?k1 = Some (0, k2)" "cstr (ram k2) (buf_at e) s"
    "\<forall>a. stable A a \<and> 1024 \<le> unat (a - buf_at e) \<longrightarrow> ram k2 a = ram k a"
    using copy_string_from_task_run [of ?k1 A ?t c d T va s pa 1024 "buf_at e"] rep(2) buf by auto
  have ss: "same_screen k2 k"
    using same_screen_trans [OF rest_same_screen [OF rest_same_trans [OF rest_same_copy [OF k2(1)] rest_same_wrap(1)]] same_screen_in] .
  then have S: "get_current_task_shell k2 = ?s" "buffer_of k2 = buffer_of k"
    by (auto simp: same_screen_def buffer_of_def)
  have byte: "ram k2 (v + of_nat x) = ram k (v + of_nat x)" if "v \<in> insert video_mem (buffer_of k ` S)" "x < 4096" for v x
    using k2(3) screen(3) that unfolding screen_kept_def by blast
  have ok2: "screen_ok S k2" by (rule screen_ok_cong [OF screen(1) ss]) (auto intro!: byte)
  have win2: "window k2 q = window k q" if "q \<in> S" for q using that by (intro window_cong [OF ss] byte) auto
  have off: "off_screen k2 (buf_at e) (length s)"
    unfolding off_screen_def S using screen_kept_off [OF screen(3)] screen(2) len by auto
  obtain k3 where k3: "print (buf_at e) k2 = Some k3" "screen_ok S k3" "window k3 ?s = fold win_char s (window k ?s)"
    "\<forall>q \<in> S. q \<noteq> ?s \<longrightarrow> window k3 q = window k q"
    using print_run [OF ok2 _ k2(2) off] screen(2) fits len win2 unfolding S by auto
  let ?k' = "task_page k3"
  have ss': "same_screen ?k' k3" by (rule rest_same_screen [OF rest_same_wrap(2)])
  have r': "ram ?k' = ram k3" by (simp add: task_page_cr3)
  have "screen_ok S ?k'" by (rule screen_ok_cong [OF k3(2) ss']) (simp_all add: r')
  moreover have "window ?k' q = window k3 q" for q by (rule window_cong [OF ss']) (simp add: r')
  moreover have "isr80h_wrapper e esp0 (r, k) = Some (r\<lparr>r_eax := 0\<rparr>, ?k')"
  proof (rule wrapper_returns [OF cur, where n = 1])
    show "call_isr80h_command Command1_print e (in_kernel r esp0 k) = Some (Returned 0 k3)"
      by (simp add: call_isr80h_command_def isr80h_command1_print_def item k2(1) k3(1) returned_def)
  qed (use call in simp_all)
  ultimately show ?thesis using k3(3,4) by simp
qed

theorem isr80h_print_witness:
  "\<exists>(k :: sys_state) k'. isr80h_wrapper test_env 0 (zero_registers\<lparr>r_eax := 1, r_esp := 0x100\<rparr>, k)
     = Some (zero_registers\<lparr>r_eax := 0, r_esp := 0x100\<rparr>, k') \<and> wcol (window k' 2) = 6"
proof -
  obtain k :: sys_state and m c d T where k: "k = (test_sys m)\<lparr>tasks := (\<lambda>t. (tasks (test_sys m) t)\<lparr>page_directory := blk_addr c\<rparr>)\<rparr>"
    "\<forall>a. unat a < 0x7E00 \<longrightarrow> m a = user_image a" "\<forall>a. stable Map.empty a \<longrightarrow> m a = user_image a"
    "process_ok k (ones (c # d # T)) c d T 2" "0 < free_blocks 25600 (ones (c # d # T))"
    "user_string k (ones (c # d # T)) c d T 16 [0x41] (\<lambda>i. 16 + of_nat i)" "user_word k 0x100 16"
    using some_machine by blast
  let ?A = "ones (c # d # T)" and ?r = "zero_registers\<lparr>r_eax := 1, r_esp := 0x100\<rparr>"
  have f: "current_task k = 2" "isr80h_commands k ! 1 = Command1_print" "get_current_task_shell k = 2"
    "page_directory (tasks k (current_task k)) = blk_addr c" "current_shell k = 1" "\<not> backspace k" "ram k = m"
    "\<And>s. buffer_of k s = (if s = 1 then 0x1000 else 0x3000)" "\<And>s. cursor_of k s = \<lparr>trow = 3, tcol = 5\<rparr>"
    unfolding k(1) using test_sys_fields by (simp_all add: get_current_task_shell_def buffer_of_def cursor_of_def)
  have wf: "chunk_wf m c d T" using k(4) f(7) process_okD(2) by metis
  have u: "unat (v + of_nat x :: u32) = unat v + x" if "unat v < 0x100000" "x < 4096" for v x
    using that by (simp add: unat_add32 unat_of_nat32)
  have vid: "stable B (0xB8000 + of_nat x)" if "x < 4096" for B x
    using u [of "0xB8000" x] u [of "0xB0200" x] that by (auto simp: stable_def unat_sub32 unat_blk_addr)
  have zero: "m (v + of_nat x) = 0" if "v \<in> {0xB8000, 0x1000, 0x3000}" "x < 4096" for v x
  proof -
    have "unat (v + of_nat x) \<noteq> 16" "unat (v + of_nat x) \<noteq> 0x100" using that u [of v x] by auto
    then have "user_image (v + of_nat x) = 0" by (auto simp: user_image_def)
    moreover have "m (v + of_nat x) = user_image (v + of_nat x)"
      using that k(2,3) vid u [of v x] by auto
    ultimately show ?thesis by simp
  qed
  have blank: "cells m v = replicate 2048 0" if "v \<in> {0xB8000, 0x1000, 0x3000}" for v
  proof -
    have "cells m v = cells (\<lambda>_. 0) v" by (rule cells_cong) (use zero that in simp)
    also have "\<dots> = replicate 2048 0" by (rule nth_equalityI) (simp_all add: nth_cells load16_def)
    finally show ?thesis .
  qed
  have win: "window k s = \<lparr>wcells = replicate 2048 0, wrow = 3, wcol = 5\<rparr>" for s
    unfolding window_def f(7,8,9) using blank by simp
  have ids: "shell_id (shell_objs k 1) = 0" "shell_id (shell_objs k 2) = 1" "sh_terminal (shell_objs k s) = s" for s
    unfolding k(1) by (simp_all add: test_sys_defs)
  have "shells_apart {1, 2} k" by (simp add: shells_apart_def f(8) pages_apart_def ids)
  then have ok: "screen_ok {1, 2} k" unfolding screen_ok_def using f(5,6) blank by (simp add: win f(7,9))
  have kept: "screen_kept ?A {1, 2} k (buf_at test_env)"
    unfolding screen_kept_def
  proof (intro ballI allI impI)
    fix v x assume v: "v \<in> insert video_mem (buffer_of k ` {1, 2})" and x: "(x :: nat) < 4096"
    then have v': "v \<in> {0xB8000, 0x1000, 0x3000}" by (auto simp: f(8))
    then have "stable ?A (v + of_nat x)" using vid x u [of v x] stable_low by auto
    moreover have "1024 \<le> unat (v + of_nat x - 0x500)" using v' x u [of v x] by (auto simp: unat_sub32)
    ultimately show "stable ?A (v + of_nat x) \<and> 1024 \<le> unat (v + of_nat x - buf_at test_env)" by (simp add: test_env_def)
  qed
  have buf: "\<forall>i < 1024. stable ?A (buf_at test_env + of_nat i)
      \<and> (\<forall>b \<in> set (c # d # T). 4096 \<le> unat (buf_at test_env + of_nat i - blk_addr b))"
  proof (intro allI impI conjI ballI)
    fix i :: nat assume i: "i < 1024"
    then have ui: "unat (buf_at test_env + of_nat i) = 0x500 + i" using u [of "0x500" i] by (simp add: test_env_def)
    then show "stable ?A (buf_at test_env + of_nat i)" using i by (intro stable_low) simp
    fix b assume "b \<in> set (c # d # T)"
    then show "4096 \<le> unat (buf_at test_env + of_nat i - blk_addr b)"
      using chunk_blocks [OF wf, of b] ui i by (simp add: unat_sub32 unat_blk_addr)
  qed
  have "fits [0x41] (window k 2)" by (simp add: fits_Cons win) (simp add: fits_def)
  moreover have "r_eax ?r = 1" "r_esp ?r = 0x100" by simp_all
  ultimately obtain k' where k': "isr80h_wrapper test_env 0 (?r, k) = Some (?r\<lparr>r_eax := 0\<rparr>, k')"
    "window k' 2 = fold win_char [0x41] (window k 2)"
    using isr80h_print [where k = k and r = ?r and e = test_env and ?esp0.0 = 0 and S = "{1, 2}", unfolded f(3),
        OF _ _ f(2) _ k(6) _ process_okD(1) [OF k(4)] k(5) f(4) buf ok _ kept] f(1) k(7) by auto
  have "?r\<lparr>r_eax := 0\<rparr> = zero_registers\<lparr>r_eax := 0, r_esp := 0x100\<rparr>" by simp
  moreover have "wcol (window k' 2) = 6" unfolding k'(2) win by (simp add: win_char_def win_put_def)
  ultimately show ?thesis using k'(1) by metis
qed

end
