(* ===== verification/Fat16.thy ===== *)
theory Fat16
  imports File
begin

text \<open>
  \<^verbatim>\<open>src/src/fs/fat/fat16.c\<close>: the FAT16 filesystem, the one implementation of the function table of
  \<^verbatim>\<open>File\<close>.  Its structures are bytes of the memory, at the offsets gcc gives them on i686: what is
  read from the disk is read straight into them, and \<open>..._at m a\<close> is the structure at address \<open>a\<close>.

  The \<open>struct disk*\<close> the functions pass along is always the one disk, \<open>the_disk\<close>.  A structure on the
  stack that the disk is read into is the list of the bytes delivered; the stack buffer
  \<open>tmp_filename\<close> is the argument \<open>tmp\<close>, its address.
\<close>

subsection \<open>Structures\<close>

definition load16 :: "mem \<Rightarrow> u32 \<Rightarrow> u16" where
  "load16 m a = ucast (m a) OR push_bit 8 (ucast (m (a + 1)))"

definition load_bytes :: "mem \<Rightarrow> u32 \<Rightarrow> nat \<Rightarrow> u8 list" where
  "load_bytes m a n = map (\<lambda>i. m (a + of_nat i)) [0..<n]"

primrec put_bytes :: "u32 \<Rightarrow> u8 list \<Rightarrow> mem \<Rightarrow> mem" where
  \<comment> \<open>the bytes a callee writes through an \<open>out\<close> pointer, in order\<close>
  "put_bytes a [] m = m"
| "put_bytes a (b # bs) m = put_bytes (a + 1) bs (m(a := b))"

definition poke32 :: "u32 \<Rightarrow> u32 \<Rightarrow> 'a kmem_scheme \<Rightarrow> 'a kmem_scheme" where
  "poke32 a v k = k\<lparr>ram := store32 (ram k) a v\<rparr>"

record fat_header_extended =
  drive_number :: u8
  win_nt_bit :: u8
  signature :: u8
  volume_id :: u32
  volume_id_string :: "u8 list"
  system_id_string :: "u8 list"

record fat_header =
  short_jmp_ins :: "u8 list"
  oem_identifier :: "u8 list"
  bytes_per_sector :: u16
  sectors_per_cluster :: u8
  reserved_sectors :: u16
  fat_copies :: u8
  root_dir_entries :: u16
  number_of_sectors :: u16
  media_type :: u8
  sectors_per_fat :: u16
  sectors_per_track :: u16
  number_of_heads :: u16
  hidden_setors :: u32
  sectors_big :: u32

record fat_h =
  primary_header :: fat_header
  extended_header :: fat_header_extended

record fat_directory_item =
  item_name :: "u8 list"
  item_ext :: "u8 list"
  attribute :: u8
  item_reserved :: u8
  creation_time_tenths_of_a_sec :: u8
  creation_time :: u16
  creation_date :: u16
  last_access :: u16
  high_16_bits_first_cluster :: u16
  last_mod_time :: u16
  last_mod_date :: u16
  low_16_bits_first_cluster :: u16
  item_filesize :: u32

record fat_directory =
  dir_item :: u32
  dir_total :: int
  sector_pos :: int
  ending_sector_pos :: int

record fat_item =
  item_ptr :: u32
  item_type :: u32

record fat_file_descriptor =
  desc_item :: u32
  desc_pos :: u32

record fat_private =
  header :: fat_h
  root_directory :: fat_directory
  cluster_read_stream :: u32
  fat_read_stream :: u32
  directory_stream :: u32

definition fat_header_at :: "mem \<Rightarrow> u32 \<Rightarrow> fat_header" where
  "fat_header_at m a =
     \<lparr>short_jmp_ins = load_bytes m a 3, oem_identifier = load_bytes m (a + 3) 8,
      bytes_per_sector = load16 m (a + 11), sectors_per_cluster = m (a + 13),
      reserved_sectors = load16 m (a + 14), fat_copies = m (a + 16), root_dir_entries = load16 m (a + 17),
      number_of_sectors = load16 m (a + 19), media_type = m (a + 21), sectors_per_fat = load16 m (a + 22),
      sectors_per_track = load16 m (a + 24), number_of_heads = load16 m (a + 26),
      hidden_setors = load32 m (a + 28), sectors_big = load32 m (a + 32)\<rparr>"

definition fat_header_extended_at :: "mem \<Rightarrow> u32 \<Rightarrow> fat_header_extended" where
  "fat_header_extended_at m a =
     \<lparr>drive_number = m a, win_nt_bit = m (a + 1), signature = m (a + 2), volume_id = load32 m (a + 3),
      volume_id_string = load_bytes m (a + 7) 11, system_id_string = load_bytes m (a + 18) 8\<rparr>"

definition fat_h_at :: "mem \<Rightarrow> u32 \<Rightarrow> fat_h" where
  "fat_h_at m a = \<lparr>primary_header = fat_header_at m a, extended_header = fat_header_extended_at m (a + 36)\<rparr>"

definition fat_directory_item_at :: "mem \<Rightarrow> u32 \<Rightarrow> fat_directory_item" where
  "fat_directory_item_at m a =
     \<lparr>item_name = load_bytes m a 8, item_ext = load_bytes m (a + 8) 3, attribute = m (a + 11),
      item_reserved = m (a + 12), creation_time_tenths_of_a_sec = m (a + 13), creation_time = load16 m (a + 14),
      creation_date = load16 m (a + 16), last_access = load16 m (a + 18),
      high_16_bits_first_cluster = load16 m (a + 20), last_mod_time = load16 m (a + 22),
      last_mod_date = load16 m (a + 24), low_16_bits_first_cluster = load16 m (a + 26),
      item_filesize = load32 m (a + 28)\<rparr>"

definition fat_directory_at :: "mem \<Rightarrow> u32 \<Rightarrow> fat_directory" where
  "fat_directory_at m a =
     \<lparr>dir_item = load32 m a, dir_total = as_int (load32 m (a + 4)), sector_pos = as_int (load32 m (a + 8)),
      ending_sector_pos = as_int (load32 m (a + 12))\<rparr>"

definition fat_item_at :: "mem \<Rightarrow> u32 \<Rightarrow> fat_item" where
  "fat_item_at m a = \<lparr>item_ptr = load32 m a, item_type = load32 m (a + 4)\<rparr>"

definition fat_file_descriptor_at :: "mem \<Rightarrow> u32 \<Rightarrow> fat_file_descriptor" where
  "fat_file_descriptor_at m a = \<lparr>desc_item = load32 m a, desc_pos = load32 m (a + 4)\<rparr>"

definition fat_private_at :: "mem \<Rightarrow> u32 \<Rightarrow> fat_private" where
  "fat_private_at m a =
     \<lparr>header = fat_h_at m a, root_directory = fat_directory_at m (a + 64),
      cluster_read_stream = load32 m (a + 80), fat_read_stream = load32 m (a + 84),
      directory_stream = load32 m (a + 88)\<rparr>"

definition FAT_ITEM_TYPE_DIRECTORY :: u32 where [simp]: "FAT_ITEM_TYPE_DIRECTORY = 0"
definition FAT_ITEM_TYPE_FILE :: u32 where [simp]: "FAT_ITEM_TYPE_FILE = 1"
definition FAT_FILE_READ_ONLY :: u8 where [simp]: "FAT_FILE_READ_ONLY = 0x01"
definition FAT_FILE_SUBDIRECTORY :: u8 where [simp]: "FAT_FILE_SUBDIRECTORY = 0x10"
definition PEACHOS_FAT16_FAT_ENTRY_SIZE :: int where [simp]: "PEACHOS_FAT16_FAT_ENTRY_SIZE = 2"
definition PEACHOS_FAT16_BAD_SECTOR :: int where [simp]: "PEACHOS_FAT16_BAD_SECTOR = 0xFF7"
definition FILE_STAT_READ_ONLY :: u32 where [simp]: "FILE_STAT_READ_ONLY = 1"
definition SEEK_SET :: u32 where [simp]: "SEEK_SET = 0"
definition SEEK_CUR :: u32 where [simp]: "SEEK_CUR = 1"
definition SEEK_END :: u32 where [simp]: "SEEK_END = 2"

definition the_private :: "'a io_state_scheme \<Rightarrow> fat_private" where
  \<comment> \<open>\<open>*(struct fat_private*)disk->fs_private\<close>\<close>
  "the_private k = fat_private_at (ram k) (fs_private (the_disk k))"

definition read_into :: "u32 \<Rightarrow> u32 \<Rightarrow> int \<Rightarrow> 'a io_state_scheme \<Rightarrow> (int \<times> 'a io_state_scheme) option" where
  \<comment> \<open>\<open>diskstreamer_read(stream, out, tot)\<close> into the memory at \<open>out\<close>\<close>
  "read_into stream out tot k =
     do { (res, bs, k) \<leftarrow> diskstreamer_read stream tot k; Some (res, k\<lparr>ram := put_bytes out bs (ram k)\<rparr>) }"

subsection \<open>Mounting\<close>

definition fat16_init :: "u32 \<Rightarrow> 'a kmem_scheme \<Rightarrow> u32 \<times> 'a kmem_scheme" where
  \<comment> \<open>\<open>name\<close> is at offset 24 of \<open>struct filesystem\<close>, behind the six functions\<close>
  "fat16_init fs k = (fs, k\<lparr>ram := put_bytes (fs + 24) [0x46, 0x41, 0x54, 0x31, 0x36, 0] (ram k)\<rparr>)"

definition fat16_init_private :: "u32 \<Rightarrow> 'a io_state_scheme \<Rightarrow> 'a io_state_scheme" where
  "fat16_init_private p k =
     (let k = k\<lparr>ram := memset (ram k) p 0 92\<rparr>;
          (s, k) = diskstreamer_new (disk_id (the_disk k)) k;
          k = poke32 (p + 80) s k;
          (s, k) = diskstreamer_new (disk_id (the_disk k)) k;
          k = poke32 (p + 84) s k;
          (s, k) = diskstreamer_new (disk_id (the_disk k)) k
      in poke32 (p + 88) s k)"

definition fat16_sector_to_absolute :: "int \<Rightarrow> 'a io_state_scheme \<Rightarrow> int" where
  "fat16_sector_to_absolute sector k = sector * sector_size (the_disk k)"

partial_function (option) count_items_loop :: "u32 \<Rightarrow> int \<Rightarrow> 'a io_state_scheme \<Rightarrow> (int \<times> 'a io_state_scheme) option" where
  "count_items_loop stream i k =
     do { (res, item, k) \<leftarrow> diskstreamer_read stream 32 k;
          if res \<noteq> PEACHOS_ALL_OK then Some (- EIO, k)
          else if item ! 0 = 0x00 then Some (i, k)
          else if item ! 0 = 0xE5 then count_items_loop stream i k
          else count_items_loop stream (i + 1) k }"

definition fat16_get_total_items_for_directory :: "u32 \<Rightarrow> 'a io_state_scheme \<Rightarrow> (int \<times> 'a io_state_scheme) option" where
  "fat16_get_total_items_for_directory directory_start_sector k =
     (let directory_start_pos = as_int (directory_start_sector * as_u32 (sector_size (the_disk k)));
          stream = directory_stream (the_private k);
          (res, k) = diskstreamer_seek stream directory_start_pos k
      in if res \<noteq> PEACHOS_ALL_OK then Some (- EIO, k) else count_items_loop stream 0 k)"

definition fat16_get_root_directory :: "u32 \<Rightarrow> u32 \<Rightarrow> 'a io_state_scheme \<Rightarrow> (int \<times> 'a io_state_scheme) option" where
  "fat16_get_root_directory p directory k =
     (let h = primary_header (header (fat_private_at (ram k) p));
          root_dir_sector_pos = uint (fat_copies h) * uint (sectors_per_fat h) + uint (reserved_sectors h);
          root_dir_size = uint (root_dir_entries h) * 32
      in do { (total_items, k) \<leftarrow> fat16_get_total_items_for_directory (as_u32 root_dir_sector_pos) k;
              let (dir, k) = kzalloc (as_u32 root_dir_size) k;
              if dir = 0 then Some (- ENOMEM, k)
              else
                let stream = directory_stream (fat_private_at (ram k) p);
                    (res, k) = diskstreamer_seek stream (fat16_sector_to_absolute root_dir_sector_pos k) k
                in if res \<noteq> PEACHOS_ALL_OK then Some (- EIO, kfree dir k)
                   else do { (res, k) \<leftarrow> read_into stream dir root_dir_size k;
                             if res \<noteq> PEACHOS_ALL_OK then Some (- EIO, kfree dir k)
                             else
                               let k = poke32 directory dir k;
                                   k = poke32 (directory + 4) (as_u32 total_items) k;
                                   k = poke32 (directory + 8) (as_u32 root_dir_sector_pos) k
                               in Some (0, poke32 (directory + 12)
                                       (as_u32 (root_dir_sector_pos + root_dir_size sdiv sector_size (the_disk k))) k) } })"

definition fat16_resolve_body :: "u32 \<Rightarrow> u32 \<Rightarrow> 'a io_state_scheme \<Rightarrow> (int \<times> 'a io_state_scheme) option" where
  \<comment> \<open>\<open>fat16_resolve\<close> between the stream's allocation and \<open>out\<close>\<close>
  "fat16_resolve_body stream p k =
     (if stream = 0 then Some (- ENOMEM, k)
      else do { (res, k) \<leftarrow> read_into stream p 62 k;
                if res \<noteq> PEACHOS_ALL_OK then Some (- EIO, k)
                else if signature (extended_header (header (fat_private_at (ram k) p))) \<noteq> 0x29 then Some (- EFSNOTUS, k)
                else do { (res, k) \<leftarrow> fat16_get_root_directory p (p + 64) k;
                          if res \<noteq> PEACHOS_ALL_OK then Some (- EIO, k) else Some (0, k) } })"

definition fat16_resolve :: "u32 \<Rightarrow> u32 \<Rightarrow> 'a io_state_scheme \<Rightarrow> (int \<times> 'a io_state_scheme) option" where
  "fat16_resolve fs dsk k =
     (let (p, k) = kzalloc 92 k;
          k = fat16_init_private p k;
          k = k\<lparr>the_disk := (the_disk k)\<lparr>disk_filesystem := fs, fs_private := p\<rparr>\<rparr>;
          (stream, k) = diskstreamer_new (disk_id (the_disk k)) k
      in do { (res, k) \<leftarrow> fat16_resolve_body stream p k;
              let k = (if stream \<noteq> 0 then diskstreamer_close stream k else k);
              Some (res, if res < 0 then let k = kfree p k in k\<lparr>the_disk := (the_disk k)\<lparr>fs_private := 0\<rparr>\<rparr> else k) })"

subsection \<open>Names\<close>

function proper_string_loop :: "u32 \<Rightarrow> u32 \<Rightarrow> u32 \<Rightarrow> u32 \<Rightarrow> mem \<Rightarrow> u32 \<times> mem" where
  "proper_string_loop out inp i sz m =
     (if m inp \<noteq> 0x00 \<and> m inp \<noteq> 0x20 then
        let m = m(out := m inp)
        in if i \<ge> sz - 1 then (out + 1, m) else proper_string_loop (out + 1) (inp + 1) (i + 1) sz m
      else (out, m))"
  by pat_completeness auto
termination
proof (relation "measure (\<lambda>(out, inp, i, sz, m). unat (sz - 1 - i))", goal_cases)
  case (2 out inp i sz m x)
  then have "i < sz - 1" by simp
  then have "sz - 1 - i \<noteq> 0" by auto
  from unat_minus_one [OF this] this show ?case by (simp add: diff_diff_eq unat_gt_0)
qed simp

declare proper_string_loop.simps [simp del]

definition fat16_to_proper_string :: "u32 \<Rightarrow> u32 \<Rightarrow> u32 \<Rightarrow> mem \<Rightarrow> u32 \<times> mem" where
  \<comment> \<open>the result is the value behind \<open>out\<close>, advanced to the terminator\<close>
  "fat16_to_proper_string out inp sz m =
     (let (out, m) = proper_string_loop out inp 0 sz m in (out, m(out := 0x00)))"

definition fat16_get_full_relative_filename :: "u32 \<Rightarrow> u32 \<Rightarrow> int \<Rightarrow> mem \<Rightarrow> mem" where
  "fat16_get_full_relative_filename item out max_len m =
     (let m = memset m out 0 (as_u32 max_len);
          (out_tmp, m) = fat16_to_proper_string out item 8 m
      in if m (item + 8) \<noteq> 0x00 \<and> m (item + 8) \<noteq> 0x20
         then let m = m(out_tmp := 0x2E) in snd (fat16_to_proper_string (out_tmp + 1) (item + 8) 3 m)
         else m)"

definition fat16_clone_directory_item :: "u32 \<Rightarrow> int \<Rightarrow> 'a kmem_scheme \<Rightarrow> u32 \<times> 'a kmem_scheme" where
  "fat16_clone_directory_item item sz k =
     (if as_u32 sz < 32 then (0, k)
      else let (item_copy, k) = kzalloc (as_u32 sz) k
           in if item_copy = 0 then (0, k)
              else (item_copy, k\<lparr>ram := memcpy (ram k) item_copy item sz\<rparr>))"

subsection \<open>Clusters\<close>

definition fat16_get_first_cluster :: "fat_directory_item \<Rightarrow> u32" where
  "fat16_get_first_cluster item = ucast (high_16_bits_first_cluster item) OR ucast (low_16_bits_first_cluster item)"

definition fat16_cluster_to_sector :: "fat_private \<Rightarrow> int \<Rightarrow> int" where
  "fat16_cluster_to_sector p cluster =
     ending_sector_pos (root_directory p) + (cluster - 2) * uint (sectors_per_cluster (primary_header (header p)))"

definition fat16_get_first_fat_sector :: "fat_private \<Rightarrow> u32" where
  "fat16_get_first_fat_sector p = ucast (reserved_sectors (primary_header (header p)))"

definition fat16_get_fat_entry :: "int \<Rightarrow> 'a io_state_scheme \<Rightarrow> (int \<times> 'a io_state_scheme) option" where
  "fat16_get_fat_entry cluster k =
     (let p = the_private k;
          stream = fat_read_stream p
      in if stream = 0 then Some (-1, k)
         else
           let fat_table_position = fat16_get_first_fat_sector p * as_u32 (sector_size (the_disk k));
               (res, k) = diskstreamer_seek stream
                 (as_int (fat_table_position * as_u32 (cluster * PEACHOS_FAT16_FAT_ENTRY_SIZE))) k
           in if res < 0 then Some (res, k)
              else do { (res, bs, k) \<leftarrow> diskstreamer_read stream 2 k;
                        if res < 0 then Some (res, k) else Some (uint (bs ! 0) + 256 * uint (bs ! 1), k) })"

primrec cluster_loop :: "nat \<Rightarrow> int \<Rightarrow> 'a io_state_scheme \<Rightarrow> (int \<times> 'a io_state_scheme) option" where
  "cluster_loop 0 cluster_to_use k = Some (cluster_to_use, k)"
| "cluster_loop (Suc n) cluster_to_use k =
     do { (entry, k) \<leftarrow> fat16_get_fat_entry cluster_to_use k;
          if entry = 0xFF8 \<or> entry = 0xFFF then Some (- EIO, k)
          else if entry = PEACHOS_FAT16_BAD_SECTOR then Some (- EIO, k)
          else if entry = 0xFF0 \<or> entry = 0xFF6 then Some (- EIO, k)
          else if entry = 0x00 then Some (- EIO, k)
          else cluster_loop n entry k }"

definition size_of_cluster_bytes :: "'a io_state_scheme \<Rightarrow> int" where
  "size_of_cluster_bytes k =
     uint (sectors_per_cluster (primary_header (header (the_private k)))) * sector_size (the_disk k)"

definition fat16_get_cluster_for_offset :: "int \<Rightarrow> int \<Rightarrow> 'a io_state_scheme \<Rightarrow> (int \<times> 'a io_state_scheme) option" where
  \<comment> \<open>a cluster of no bytes makes the division trap: \<open>None\<close>\<close>
  "fat16_get_cluster_for_offset starting_cluster offset k =
     (if size_of_cluster_bytes k = 0 then None
      else let clusters_ahead = offset sdiv size_of_cluster_bytes k
           in cluster_loop (nat clusters_ahead) starting_cluster k)"

partial_function (option) fat16_read_internal_from_stream :: "u32 \<Rightarrow> int \<Rightarrow> int \<Rightarrow> int \<Rightarrow> u32 \<Rightarrow> 'a io_state_scheme
    \<Rightarrow> (int \<times> 'a io_state_scheme) option" where
  "fat16_read_internal_from_stream stream cluster offset tot out k =
     (let size_of_cluster = size_of_cluster_bytes k
      in do { (cluster_to_use, k) \<leftarrow> fat16_get_cluster_for_offset cluster offset k;
              if cluster_to_use < 0 then Some (cluster_to_use, k)
              else
                let offset_from_cluster = offset smod size_of_cluster;
                    starting_sector = fat16_cluster_to_sector (the_private k) cluster_to_use;
                    starting_pos = starting_sector * sector_size (the_disk k) + offset_from_cluster;
                    total_to_read = (if tot > size_of_cluster then size_of_cluster else tot);
                    (res, k) = diskstreamer_seek stream starting_pos k
                in if res \<noteq> PEACHOS_ALL_OK then Some (res, k)
                   else do { (res, k) \<leftarrow> read_into stream out total_to_read k;
                             if res \<noteq> PEACHOS_ALL_OK then Some (res, k)
                             else if tot - total_to_read > 0
                             then fat16_read_internal_from_stream stream cluster (offset + total_to_read)
                                    (tot - total_to_read) (out + as_u32 total_to_read) k
                             else Some (res, k) } })"

definition fat16_read_internal :: "int \<Rightarrow> int \<Rightarrow> int \<Rightarrow> u32 \<Rightarrow> 'a io_state_scheme \<Rightarrow> (int \<times> 'a io_state_scheme) option" where
  "fat16_read_internal starting_cluster offset tot out k =
     fat16_read_internal_from_stream (cluster_read_stream (the_private k)) starting_cluster offset tot out k"

subsection \<open>Directories\<close>

definition fat16_free_directory :: "u32 \<Rightarrow> 'a kmem_scheme \<Rightarrow> 'a kmem_scheme" where
  "fat16_free_directory directory k =
     (if directory = 0 then k
      else let item = dir_item (fat_directory_at (ram k) directory);
               k = (if item \<noteq> 0 then kfree item k else k)
           in kfree directory k)"

definition fat16_fat_item_free :: "u32 \<Rightarrow> 'a kmem_scheme \<Rightarrow> 'a kmem_scheme" where
  "fat16_fat_item_free item k =
     (let i = fat_item_at (ram k) item;
          k = (if item_type i = FAT_ITEM_TYPE_DIRECTORY then fat16_free_directory (item_ptr i) k
               else if item_type i = FAT_ITEM_TYPE_FILE then kfree (item_ptr i) k else k)
      in kfree item k)"

definition fat16_load_fat_directory_body :: "u32 \<Rightarrow> 'a io_state_scheme \<Rightarrow> (int \<times> u32 \<times> 'a io_state_scheme) option" where
  \<comment> \<open>\<open>fat16_load_fat_directory\<close> up to its label \<open>out\<close>, with the variables \<open>res\<close> and \<open>directory\<close>\<close>
  "fat16_load_fat_directory_body item k =
     (let i = fat_directory_item_at (ram k) item
      in if attribute i AND FAT_FILE_SUBDIRECTORY = 0 then Some (- EINVARG, 0, k)
         else
           let (directory, k) = kzalloc 16 k
           in if directory = 0 then Some (- ENOMEM, directory, k)
              else
                let cluster = as_int (fat16_get_first_cluster (fat_directory_item_at (ram k) item));
                    cluster_sector = fat16_cluster_to_sector (the_private k) cluster
                in do { (total_items, k) \<leftarrow> fat16_get_total_items_for_directory (as_u32 cluster_sector) k;
                        let k = poke32 (directory + 4) (as_u32 total_items) k;
                        let directory_size = as_int (as_u32 (dir_total (fat_directory_at (ram k) directory)) * 32);
                        let (items, k) = kzalloc (as_u32 directory_size) k;
                        let k = poke32 directory items k;
                        if items = 0 then Some (- ENOMEM, directory, k)
                        else do { (res, k) \<leftarrow> fat16_read_internal cluster 0 directory_size items k;
                                  Some (res, directory, k) } })"

definition fat16_load_fat_directory :: "u32 \<Rightarrow> 'a io_state_scheme \<Rightarrow> (u32 \<times> 'a io_state_scheme) option" where
  "fat16_load_fat_directory item k =
     do { (res, directory, k) \<leftarrow> fat16_load_fat_directory_body item k;
          Some (directory, if res \<noteq> PEACHOS_ALL_OK then fat16_free_directory directory k else k) }"

definition fat16_new_fat_item_for_directory_item :: "u32 \<Rightarrow> 'a io_state_scheme \<Rightarrow> (u32 \<times> 'a io_state_scheme) option" where
  "fat16_new_fat_item_for_directory_item item k =
     (let (f_item, k) = kzalloc 8 k
      in if f_item = 0 then Some (0, k)
         else if attribute (fat_directory_item_at (ram k) item) AND FAT_FILE_SUBDIRECTORY \<noteq> 0 then
           do { (directory, k) \<leftarrow> fat16_load_fat_directory item k;
                Some (f_item, poke32 (f_item + 4) FAT_ITEM_TYPE_DIRECTORY (poke32 f_item directory k)) }
         else
           let k = poke32 (f_item + 4) FAT_ITEM_TYPE_FILE k;
               (copy, k) = fat16_clone_directory_item item 32 k
           in Some (f_item, poke32 f_item copy k))"

partial_function (option) find_item_loop :: "u32 \<Rightarrow> u32 \<Rightarrow> u32 \<Rightarrow> int \<Rightarrow> u32 \<Rightarrow> 'a io_state_scheme
    \<Rightarrow> (u32 \<times> 'a io_state_scheme) option" where
  "find_item_loop tmp directory name i f_item k =
     (if i < dir_total (fat_directory_at (ram k) directory) then
        let item = dir_item (fat_directory_at (ram k) directory) + 32 * as_u32 i;
            k = k\<lparr>ram := fat16_get_full_relative_filename item tmp PEACHOS_MAX_PATH (ram k)\<rparr>
        in if istrncmp (ram k) tmp name PEACHOS_MAX_PATH = 0 then
             do { (f_item, k) \<leftarrow> fat16_new_fat_item_for_directory_item
                    (dir_item (fat_directory_at (ram k) directory) + 32 * as_u32 i) k;
                  find_item_loop tmp directory name (i + 1) f_item k }
           else find_item_loop tmp directory name (i + 1) f_item k
      else Some (f_item, k))"

definition fat16_find_item_in_directory :: "u32 \<Rightarrow> u32 \<Rightarrow> u32 \<Rightarrow> 'a io_state_scheme \<Rightarrow> (u32 \<times> 'a io_state_scheme) option" where
  "fat16_find_item_in_directory tmp directory name k = find_item_loop tmp directory name 0 0 k"

partial_function (option) directory_entry_loop :: "u32 \<Rightarrow> u32 \<Rightarrow> u32 \<Rightarrow> 'a path_state_scheme
    \<Rightarrow> (u32 \<times> 'a path_state_scheme) option" where
  "directory_entry_loop tmp current_item next_part k =
     (if next_part \<noteq> 0 then
        if item_type (fat_item_at (ram k) current_item) \<noteq> FAT_ITEM_TYPE_DIRECTORY then Some (0, k)
        else do { (tmp_item, k) \<leftarrow> fat16_find_item_in_directory tmp
                    (item_ptr (fat_item_at (ram k) current_item)) (part_str (path_parts k next_part)) k;
                  let k = fat16_fat_item_free current_item k;
                  directory_entry_loop tmp tmp_item (part_next (path_parts k next_part)) k }
      else Some (current_item, k))"

definition fat16_get_directory_entry :: "u32 \<Rightarrow> u32 \<Rightarrow> 'a path_state_scheme \<Rightarrow> (u32 \<times> 'a path_state_scheme) option" where
  "fat16_get_directory_entry tmp path k =
     do { (root_item, k) \<leftarrow> fat16_find_item_in_directory tmp (fs_private (the_disk k) + 64)
            (part_str (path_parts k path)) k;
          if root_item = 0 then Some (0, k)
          else directory_entry_loop tmp root_item (part_next (path_parts k path)) k }"

subsection \<open>Files\<close>

definition fat16_open :: "u32 \<Rightarrow> u32 \<Rightarrow> u32 \<Rightarrow> u32 \<Rightarrow> 'a path_state_scheme \<Rightarrow> (u32 \<times> 'a path_state_scheme) option" where
  \<comment> \<open>\<open>ERROR(err_code)\<close> is the code itself, as a pointer\<close>
  "fat16_open tmp dsk path mode k =
     (if mode \<noteq> FILE_MODE_READ then Some (as_u32 (- ERDONLY), k)
      else let (descriptor, k) = kzalloc 8 k
           in if descriptor = 0 then Some (as_u32 (- ENOMEM), k)
              else do { (item, k) \<leftarrow> fat16_get_directory_entry tmp path k;
                        let k = poke32 descriptor item k;
                        if item = 0 then Some (as_u32 (- EIO), kfree descriptor k)
                        else Some (descriptor, poke32 (descriptor + 4) 0 k) })"

definition fat16_free_file_descriptor :: "u32 \<Rightarrow> 'a kmem_scheme \<Rightarrow> 'a kmem_scheme" where
  "fat16_free_file_descriptor desc k =
     (let k = fat16_fat_item_free (desc_item (fat_file_descriptor_at (ram k) desc)) k in kfree desc k)"

definition fat16_close :: "u32 \<Rightarrow> 'a kmem_scheme \<Rightarrow> (int \<times> 'a kmem_scheme) option" where
  "fat16_close private k = Some (0, fat16_free_file_descriptor private k)"

definition fat16_stat :: "u32 \<Rightarrow> u32 \<Rightarrow> file_stat \<Rightarrow> 'a kmem_scheme \<Rightarrow> (int \<times> file_stat \<times> 'a kmem_scheme) option" where
  "fat16_stat dsk private st k =
     (let item = fat_item_at (ram k) (desc_item (fat_file_descriptor_at (ram k) private))
      in if item_type item \<noteq> FAT_ITEM_TYPE_FILE then Some (- EINVARG, st, k)
         else
           let ritem = fat_directory_item_at (ram k) (item_ptr item);
               st = st\<lparr>filesize := item_filesize ritem, stat_flags := 0x00\<rparr>;
               st = (if attribute ritem AND FAT_FILE_READ_ONLY \<noteq> 0
                     then st\<lparr>stat_flags := stat_flags st OR FILE_STAT_READ_ONLY\<rparr> else st)
           in Some (0, st, k))"

primrec read_loop :: "nat \<Rightarrow> u32 \<Rightarrow> u32 \<Rightarrow> int \<Rightarrow> u32 \<Rightarrow> int \<Rightarrow> 'a io_state_scheme \<Rightarrow> (int \<times> 'a io_state_scheme) option" where
  \<comment> \<open>the remaining iterations first; the last argument but one is \<open>nmemb\<close> as the result\<close>
  "read_loop 0 item sz offset out nmemb k = Some (nmemb, k)"
| "read_loop (Suc n) item sz offset out nmemb k =
     do { (res, k) \<leftarrow> fat16_read_internal (as_int (fat16_get_first_cluster (fat_directory_item_at (ram k) item)))
            offset (as_int sz) out k;
          if ISERR res then Some (res, k)
          else read_loop n item sz (as_int (as_u32 offset + sz)) (out + sz) nmemb k }"

definition fat16_read :: "u32 \<Rightarrow> u32 \<Rightarrow> u32 \<Rightarrow> u32 \<Rightarrow> u32 \<Rightarrow> 'a io_state_scheme \<Rightarrow> (int \<times> 'a io_state_scheme) option" where
  "fat16_read dsk descriptor sz nmemb out_ptr k =
     (let fat_desc = fat_file_descriptor_at (ram k) descriptor;
          item = item_ptr (fat_item_at (ram k) (desc_item fat_desc));
          offset = as_int (desc_pos fat_desc)
      in read_loop (unat nmemb) item sz offset out_ptr (as_int nmemb) k)"

definition fat16_seek :: "u32 \<Rightarrow> u32 \<Rightarrow> u32 \<Rightarrow> 'a kmem_scheme \<Rightarrow> (int \<times> 'a kmem_scheme) option" where
  "fat16_seek private offset seek_mode k =
     (let desc = fat_file_descriptor_at (ram k) private;
          item = fat_item_at (ram k) (desc_item desc)
      in if item_type item \<noteq> FAT_ITEM_TYPE_FILE then Some (- EINVARG, k)
         else if offset \<ge> item_filesize (fat_directory_item_at (ram k) (item_ptr item)) then Some (- EIO, k)
         else if seek_mode = SEEK_SET then Some (0, poke32 (private + 4) offset k)
         else if seek_mode = SEEK_END then Some (- EUNIMP, k)
         else if seek_mode = SEEK_CUR then Some (0, poke32 (private + 4) (desc_pos desc + offset) k)
         else Some (- EINVARG, k))"

definition fat16_fs :: "u32 \<Rightarrow> u32 \<Rightarrow> 'a file_state_scheme filesystem" where
  \<comment> \<open>the table at the address \<open>fs\<close>; the file layer calls it through its map from addresses to tables\<close>
  "fat16_fs fs tmp =
     \<lparr>fs_resolve_fn = fat16_resolve fs, fs_open_fn = fat16_open tmp, fs_read_fn = fat16_read,
      fs_seek_fn = fat16_seek, fs_stat_fn = fat16_stat, fs_close_fn = fat16_close\<rparr>"

end
