(* ===== verification/FatRead.thy ===== *)
theory FatRead
  imports Fat16
begin

text \<open>
  What reading through \<^verbatim>\<open>fat16.c\<close> delivers: the bytes of a file along the chain of its clusters, and
  where the code looks the chain up.
\<close>

subsection \<open>Bytes written through a pointer\<close>

lemma put_bytes_append: "put_bytes a (bs @ cs) m = put_bytes (a + of_nat (length bs)) cs (put_bytes a bs m)"
  by (induction bs arbitrary: a m) (simp_all add: ac_simps)

lemma put_bytes_at:
  "length bs \<le> 4294967296 \<Longrightarrow>
   put_bytes a bs m x = (if unat (x - a) < length bs then bs ! unat (x - a) else m x)"
proof (induction bs arbitrary: a m)
  case (Cons b bs)
  show ?case
  proof (cases "x = a")
    case True
    then have "\<not> unat (x - (a + 1)) < length bs" using Cons.prems unat_sub_self_1 [of a] by simp
    then show ?thesis using True Cons by simp
  next
    case False
    then have nz: "unat (x - a) \<noteq> 0" by (simp add: unat_sub_eq_0)
    then show ?thesis using Cons False unat_sub_Suc [OF nz] by (auto simp: nth_Cons')
  qed
qed simp

definition same_bytes :: "u32 \<Rightarrow> nat \<Rightarrow> mem \<Rightarrow> mem \<Rightarrow> bool" where
  "same_bytes a n m m' \<longleftrightarrow> (\<forall>i < n. m (a + of_nat i) = m' (a + of_nat i))"

lemma same_bytes_numeral:
  "same_bytes a n m m' \<Longrightarrow> numeral w < n \<Longrightarrow> m (a + numeral w) = m' (a + numeral w)"
  "same_bytes a n m m' \<Longrightarrow> 1 < n \<Longrightarrow> m (a + 1) = m' (a + 1)"
  "same_bytes a n m m' \<Longrightarrow> 0 < n \<Longrightarrow> m a = m' a"
proof -
  assume s: "same_bytes a n m m'"
  show "numeral w < n \<Longrightarrow> m (a + numeral w) = m' (a + numeral w)"
    using s [unfolded same_bytes_def, rule_format, of "numeral w"] by simp
  show "1 < n \<Longrightarrow> m (a + 1) = m' (a + 1)" using s [unfolded same_bytes_def, rule_format, of 1] by simp
  show "0 < n \<Longrightarrow> m a = m' a" using s [unfolded same_bytes_def, rule_format, of 0] by simp
qed

lemma same_bytes_refl [simp]: "same_bytes a n m m" by (simp add: same_bytes_def)

lemma same_bytes_trans: "same_bytes a n m m' \<Longrightarrow> same_bytes a n m' m'' \<Longrightarrow> same_bytes a n m m''"
  by (simp add: same_bytes_def)

definition disjoint_from :: "u32 \<Rightarrow> nat \<Rightarrow> u32 \<Rightarrow> nat \<Rightarrow> bool" where
  \<comment> \<open>the \<open>n\<close> bytes at \<open>a\<close> share none with the \<open>l\<close> bytes at \<open>b\<close>\<close>
  "disjoint_from a n b l \<longleftrightarrow> (\<forall>i < n. l \<le> unat (a + of_nat i - b))"

lemma same_bytes_put:
  "disjoint_from a n b (length bs) \<Longrightarrow> length bs \<le> 4294967296 \<Longrightarrow> same_bytes a n m (put_bytes b bs m)"
  by (auto simp: same_bytes_def disjoint_from_def put_bytes_at)

lemma disjoint_from_shorter: "disjoint_from a n b l \<Longrightarrow> l' \<le> l \<Longrightarrow> disjoint_from a n b l'"
  by (fastforce simp: disjoint_from_def)

lemma load_bytes_same: "same_bytes a n m m' \<Longrightarrow> j + l \<le> n \<Longrightarrow> load_bytes m (a + of_nat j) l = load_bytes m' (a + of_nat j) l"
  unfolding load_bytes_def same_bytes_def
proof (rule map_cong [OF refl])
  fix i assume s: "\<forall>i < n. m (a + of_nat i) = m' (a + of_nat i)" and "j + l \<le> n" "i \<in> set [0..<l]"
  then have "m (a + of_nat (j + i)) = m' (a + of_nat (j + i))" by (intro s [rule_format]) simp
  then show "m (a + of_nat j + of_nat i) = m' (a + of_nat j + of_nat i)" by (simp add: add.assoc)
qed

lemma load_bytes_numeral:
  "same_bytes a n m m' \<Longrightarrow> numeral w + l \<le> n \<Longrightarrow> load_bytes m (a + numeral w) l = load_bytes m' (a + numeral w) l"
  "same_bytes a n m m' \<Longrightarrow> l \<le> n \<Longrightarrow> load_bytes m a l = load_bytes m' a l"
  using load_bytes_same [of a n m m' "numeral w" l] load_bytes_same [of a n m m' 0 l] by simp_all

lemmas same_loads = same_bytes_numeral load_bytes_numeral

lemma fat_private_at_same:
  assumes "same_bytes p 92 m m'"
  shows "fat_private_at m p = fat_private_at m' p"
  by (simp add: fat_private_at_def fat_h_at_def fat_header_at_def fat_header_extended_at_def fat_directory_at_def
      load32_def load16_def add.assoc same_loads [OF assms])

lemma fat_directory_item_at_same:
  assumes "same_bytes p 32 m m'"
  shows "fat_directory_item_at m p = fat_directory_item_at m' p"
  by (simp add: fat_directory_item_at_def load32_def load16_def add.assoc same_loads [OF assms])

subsection \<open>Streams over a mounted disk\<close>

definition advanced :: "'a io_state_scheme \<Rightarrow> mem \<Rightarrow> 'a io_state_scheme \<Rightarrow> bool" where
  \<comment> \<open>\<open>k'\<close> is \<open>k\<close> with the memory \<open>m\<close> after the drive has been read: only it and stream positions moved\<close>
  "advanced k m k' \<longleftrightarrow> (\<exists>d s. k' = k\<lparr>ram := m, drive := d, streams := s\<rparr> \<and> ata_image d = ata_image (drive k)
     \<and> ata_responsive d \<and> (\<forall>st. stream_disk (s st) = stream_disk (streams k st)))"

lemma advancedD:
  assumes "advanced k m k'"
  shows "ram k' = m" "the_disk k' = the_disk k" "disk_addr k' = disk_addr k"
    "ata_image (drive k') = ata_image (drive k)" "ata_responsive (drive k')"
    "stream_disk (streams k' st) = stream_disk (streams k st)" "kernel_heap k' = kernel_heap k"
  using assms by (auto simp: advanced_def)

lemma advanced_trans: "advanced k m k' \<Longrightarrow> advanced k' m' k'' \<Longrightarrow> advanced k m' k''"
  by (fastforce simp: advanced_def)

lemma advanced_refl: "ata_responsive (drive k) \<Longrightarrow> advanced k (ram k) k"
  unfolding advanced_def by (intro exI [of _ "drive k"] exI [of _ "streams k"]) (cases k, simp)

lemma advanced_ram:
  assumes "advanced k m k'"
  shows "advanced k m' (k'\<lparr>ram := m'\<rparr>)"
proof -
  obtain d s where k': "k' = k\<lparr>ram := m, drive := d, streams := s\<rparr>" "ata_image d = ata_image (drive k)"
    "ata_responsive d" "\<forall>st. stream_disk (s st) = stream_disk (streams k st)"
    using assms unfolding advanced_def by blast
  have "k'\<lparr>ram := m'\<rparr> = k\<lparr>ram := m', drive := d, streams := s\<rparr>" by (simp add: k'(1))
  then show ?thesis using k'(2-4) unfolding advanced_def by blast
qed

lemma seek_advanced: "ata_responsive (drive k) \<Longrightarrow> advanced k (ram k) (snd (diskstreamer_seek st p k))"
  unfolding advanced_def diskstreamer_seek_def 
  by (intro exI [of _ "drive k"] exI [of _ "(streams k)(st := (streams k st)\<lparr>pos := p\<rparr>)"]) (cases k, simp)

lemma seek_read:
  fixes k :: "'a io_state_scheme"
  assumes "stream_disk (streams k st) = disk_addr k" and "ata_responsive (drive k)" and "p + n < 2147483648"
  shows "\<exists>k'. diskstreamer_read st (int n) (snd (diskstreamer_seek st (int p) k))
      = Some (0, img_slice (ata_image (drive k)) p n, k') \<and> advanced k (ram k) k'
      \<and> pos (streams k' st) = int (p + n)"
proof -
  let ?k = "snd (diskstreamer_seek st (int p) k)"
  have k: "stream_disk (streams ?k st) = disk_addr ?k" "ata_responsive (drive ?k)" "pos (streams ?k st) = int p"
    using assms by (simp_all add: diskstreamer_seek_def)
  obtain d where d: "diskstreamer_read st (int n) ?k = Some (0, img_slice (ata_image (drive ?k)) p n,
      ?k\<lparr>drive := d, streams := (streams ?k)(st := (streams ?k st)\<lparr>pos := int (p + n)\<rparr>)\<rparr>)"
    "ata_image d = ata_image (drive ?k)" "ata_responsive d"
    using stream_run [OF k assms(3)] by blast
  let ?s = "(streams k)(st := (streams k st)\<lparr>pos := int (p + n)\<rparr>)"
  have "?k\<lparr>drive := d, streams := (streams ?k)(st := (streams ?k st)\<lparr>pos := int (p + n)\<rparr>)\<rparr>
      = k\<lparr>ram := ram k, drive := d, streams := ?s\<rparr>"
    by (cases k) (simp add: diskstreamer_seek_def)
  moreover have "advanced k (ram k) (k\<lparr>ram := ram k, drive := d, streams := ?s\<rparr>)"
    using d(2,3) unfolding advanced_def by (intro exI [of _ d] exI [of _ ?s]) (simp add: diskstreamer_seek_def)
  ultimately show ?thesis using d(1) by (simp add: diskstreamer_seek_def)
qed

subsection \<open>The mounted disk\<close>

text \<open>
  \<open>mounted k\<close>: the disk has its private structure, with streams on it for data and for the allocation
  table; sectors have 512 bytes and clusters at least one sector.
\<close>

definition mounted :: "'a io_state_scheme \<Rightarrow> bool" where
  "mounted k \<longleftrightarrow> ata_responsive (drive k) \<and> sector_size (the_disk k) = 512
     \<and> sectors_per_cluster (primary_header (header (the_private k))) \<noteq> 0
     \<and> fat_read_stream (the_private k) \<noteq> 0
     \<and> (\<forall>st \<in> {fat_read_stream (the_private k), cluster_read_stream (the_private k), directory_stream (the_private k)}.
          stream_disk (streams k st) = disk_addr k)"

lemma mountedD:
  assumes "mounted k"
  shows "ata_responsive (drive k)" "sector_size (the_disk k) = 512"
    "sectors_per_cluster (primary_header (header (the_private k))) \<noteq> 0" "fat_read_stream (the_private k) \<noteq> 0"
    "stream_disk (streams k (fat_read_stream (the_private k))) = disk_addr k"
    "stream_disk (streams k (cluster_read_stream (the_private k))) = disk_addr k"
    "stream_disk (streams k (directory_stream (the_private k))) = disk_addr k"
  using assms by (simp_all add: mounted_def)

definition keeps_private :: "'a io_state_scheme \<Rightarrow> mem \<Rightarrow> bool" where
  "keeps_private k m \<longleftrightarrow> same_bytes (fs_private (the_disk k)) 92 (ram k) m"

lemma keeps_private_refl [simp]: "keeps_private k (ram k)"
  by (simp add: keeps_private_def)

lemma the_private_advanced: "advanced k m k' \<Longrightarrow> keeps_private k m \<Longrightarrow> the_private k' = the_private k"
  unfolding the_private_def keeps_private_def by (simp add: advancedD fat_private_at_same)

lemma mounted_advanced: "mounted k \<Longrightarrow> advanced k m k' \<Longrightarrow> keeps_private k m \<Longrightarrow> mounted k'"
  unfolding mounted_def by (simp add: advancedD the_private_advanced)

definition reserved :: "'a io_state_scheme \<Rightarrow> nat" where
  "reserved k = unat (reserved_sectors (primary_header (header (the_private k))))"

definition cluster_bytes :: "'a io_state_scheme \<Rightarrow> nat" where
  "cluster_bytes k = 512 * unat (sectors_per_cluster (primary_header (header (the_private k))))"

definition word_at :: "(nat \<Rightarrow> u8) \<Rightarrow> nat \<Rightarrow> nat" where
  "word_at img a = unat (img a) + 256 * unat (img (a + 1))"

definition fat_entry :: "'a io_state_scheme \<Rightarrow> nat \<Rightarrow> nat" where
  \<comment> \<open>the entry of cluster \<open>c\<close> in the table that starts behind the reserved sectors\<close>
  "fat_entry k c = word_at (ata_image (drive k)) (512 * reserved k + 2 * c)"

definition looked_up :: "'a io_state_scheme \<Rightarrow> nat \<Rightarrow> nat" where
  \<comment> \<open>the entry the code reads for cluster \<open>c\<close>\<close>
  "looked_up k c = word_at (ata_image (drive k)) (512 * reserved k * (2 * c))"

lemma size_of_cluster: "mounted k \<Longrightarrow> size_of_cluster_bytes k = int (cluster_bytes k)"
  by (simp add: size_of_cluster_bytes_def cluster_bytes_def mountedD)

lemma cluster_bytes_pos: "mounted k \<Longrightarrow> 0 < cluster_bytes k"
  using mountedD(3) [of k] by (simp add: cluster_bytes_def unat_gt_0)

lemma as_int_of_nat: "n < 2147483648 \<Longrightarrow> as_int (of_nat n) = int n"
  by (subst as_int_nonneg) (simp_all add: unat_of_nat32)

lemma fat_entry_run:
  assumes "mounted k" and "512 * reserved k * (2 * c) + 2 < 2147483648"
  shows "\<exists>k'. fat16_get_fat_entry (int c) k = Some (int (looked_up k c), k') \<and> advanced k (ram k) k'"
proof -
  let ?p = "512 * reserved k * (2 * c)"
  have w: "fat16_get_first_fat_sector (the_private k) * as_u32 512 * as_u32 (int c * 2) = of_nat ?p"
    by (simp add: fat16_get_first_fat_sector_def reserved_def as_u32_def ac_simps unsigned_ucast_eq
        flip: word_of_nat_eq_iff)
  have "as_int (of_nat ?p) = int ?p" by (rule as_int_of_nat) (use assms(2) in simp)
  then have p: "as_int (fat16_get_first_fat_sector (the_private k) * as_u32 (sector_size (the_disk k))
      * as_u32 (int c * PEACHOS_FAT16_FAT_ENTRY_SIZE)) = int ?p"
    using w mountedD(2) [OF assms(1)] by simp
  from seek_read [OF mountedD(5) [OF assms(1)] mountedD(1) [OF assms(1)] assms(2)]
  obtain k' where k': "diskstreamer_read (fat_read_stream (the_private k)) (int 2)
      (snd (diskstreamer_seek (fat_read_stream (the_private k)) (int ?p) k))
      = Some (0, img_slice (ata_image (drive k)) ?p 2, k')" "advanced k (ram k) k'" by blast
  have bs: "img_slice (ata_image (drive k)) ?p 2 = [ata_image (drive k) ?p, ata_image (drive k) (?p + 1)]"
    by (simp add: img_slice_def upt_rec)
  have "fat16_get_fat_entry (int c) k = Some (int (looked_up k c), k')"
    using k'(1) unfolding fat16_get_fat_entry_def Let_def p bs
    by (simp add: mountedD(4) [OF assms(1)] diskstreamer_seek_def looked_up_def word_at_def)
  then show ?thesis using k'(2) by blast
qed

subsection \<open>Following the chain\<close>

definition bad_entry :: "nat \<Rightarrow> bool" where
  "bad_entry e \<longleftrightarrow> e \<in> {0, 0xFF0, 0xFF6, 0xFF7, 0xFF8, 0xFFF}"

definition lookup_after :: "'a io_state_scheme \<Rightarrow> nat \<Rightarrow> nat \<Rightarrow> nat" where
  \<comment> \<open>the cluster the code arrives at \<open>n\<close> of its lookups after \<open>c\<close>; the file's own chain is \<open>file_cluster\<close> below\<close>
  "lookup_after k c n = (looked_up k ^^ n) c"

definition lookups_ok :: "'a io_state_scheme \<Rightarrow> nat \<Rightarrow> nat \<Rightarrow> bool" where
  \<comment> \<open>\<open>n\<close> of the code's lookups from \<open>c\<close> on meet none of the marks it stops at\<close>
  "lookups_ok k c n \<longleftrightarrow> (\<forall>i < n. 512 * reserved k * (2 * lookup_after k c i) + 2 < 2147483648
     \<and> \<not> bad_entry (lookup_after k c (Suc i)))"

lemma lookup_after_0 [simp]: "lookup_after k c 0 = c"
  by (simp add: lookup_after_def)

lemma lookup_after_Suc: "lookup_after k c (Suc n) = lookup_after k (looked_up k c) n"
  by (simp add: lookup_after_def funpow_swap1)

lemma lookups_ok_Suc:
  "lookups_ok k c (Suc n) \<longleftrightarrow> 512 * reserved k * (2 * c) + 2 < 2147483648 \<and> \<not> bad_entry (looked_up k c)
     \<and> lookups_ok k (looked_up k c) n"
  unfolding lookups_ok_def by (subst All_less_Suc2) (auto simp: lookup_after_Suc)

lemma view_advanced:
  assumes "advanced k m k'" and "keeps_private k m"
  shows "reserved k' = reserved k" "cluster_bytes k' = cluster_bytes k" "looked_up k' = looked_up k"
    "lookup_after k' = lookup_after k" "lookups_ok k' = lookups_ok k"
proof -
  note same = the_private_advanced [OF assms] advancedD [OF assms(1)]
  show r: "reserved k' = reserved k" and "cluster_bytes k' = cluster_bytes k"
    by (simp_all add: reserved_def cluster_bytes_def same)
  show l: "looked_up k' = looked_up k" by (simp add: fun_eq_iff looked_up_def r same)
  show c: "lookup_after k' = lookup_after k" by (simp add: fun_eq_iff lookup_after_def l)
  show "lookups_ok k' = lookups_ok k" by (simp add: fun_eq_iff lookups_ok_def c r)
qed

lemma cluster_loop_run:
  "mounted k \<Longrightarrow> lookups_ok k c n \<Longrightarrow>
   \<exists>k'. cluster_loop n (int c) k = Some (int (lookup_after k c n), k') \<and> advanced k (ram k) k'"
proof (induction n arbitrary: c k)
  case 0
  then show ?case using advanced_refl [OF mountedD(1)] by auto
next
  case (Suc n)
  note f = Suc.prems(2) [unfolded lookups_ok_Suc]
  from fat_entry_run [OF Suc.prems(1)] f obtain k1
    where k1: "fat16_get_fat_entry (int c) k = Some (int (looked_up k c), k1)" "advanced k (ram k) k1" by blast
  note same = view_advanced [OF k1(2) keeps_private_refl]
  have ram: "ram k1 = ram k" using k1(2) by (rule advancedD)
  obtain k2 where k2: "cluster_loop n (int (looked_up k c)) k1 = Some (int (lookup_after k (looked_up k c) n), k2)"
    "advanced k1 (ram k1) k2"
    using Suc.IH [OF mounted_advanced [OF Suc.prems(1) k1(2) keeps_private_refl], of "looked_up k c"] f
    unfolding same by blast
  have "\<not> bad_entry (looked_up k c)" using f by blast
  then have "cluster_loop (Suc n) (int c) k = cluster_loop n (int (looked_up k c)) k1"
    by (simp add: k1(1) bad_entry_def)
  then show ?case
    using k2 advanced_trans [OF k1(2) k2(2)] ram by (simp add: lookup_after_Suc)
qed

definition cluster_start :: "'a io_state_scheme \<Rightarrow> nat \<Rightarrow> int" where
  \<comment> \<open>where a cluster begins in the image\<close>
  "cluster_start k c = 512 * fat16_cluster_to_sector (the_private k) (int c)"

definition read_byte :: "'a io_state_scheme \<Rightarrow> nat \<Rightarrow> nat \<Rightarrow> nat \<Rightarrow> u8" where
  \<comment> \<open>the \<open>j\<close>-th byte a read at offset \<open>o\<close> delivers\<close>
  "read_byte k c off j = ata_image (drive k)
     (nat (cluster_start k (lookup_after k c (off div cluster_bytes k + j div cluster_bytes k)))
      + off mod cluster_bytes k + j mod cluster_bytes k)"

definition lookup_readable :: "'a io_state_scheme \<Rightarrow> nat \<Rightarrow> nat \<Rightarrow> nat \<Rightarrow> bool" where
  \<comment> \<open>the code's lookups reach all the clusters a read of \<open>n\<close> bytes at offset \<open>off\<close> uses, and they lie in the first 2 GB\<close>
  "lookup_readable k c off n \<longleftrightarrow> lookups_ok k c (off div cluster_bytes k + (n - 1) div cluster_bytes k)
     \<and> (\<forall>i \<le> (n - 1) div cluster_bytes k.
          let a = cluster_start k (lookup_after k c (off div cluster_bytes k + i))
          in 0 \<le> a \<and> a + 2 * int (cluster_bytes k) < 2147483648)"

lemma lookups_ok_less: "lookups_ok k c n \<Longrightarrow> m \<le> n \<Longrightarrow> lookups_ok k c m"
  by (simp add: lookups_ok_def)

lemma chunk_map:
  assumes "n \<le> cluster_bytes k"
  shows "map (read_byte k c off) [0..<n]
    = img_slice (ata_image (drive k)) (nat (cluster_start k (lookup_after k c (off div cluster_bytes k))) + off mod cluster_bytes k) n"
  (is "?l = ?r")
proof (rule nth_equalityI)
  show "length ?l = length ?r" by simp
  fix j assume "j < length ?l"
  then have "j < n" "j < cluster_bytes k" using assms by simp_all
  then show "?l ! j = ?r ! j" by (simp add: read_byte_def img_slice_def)
qed

lemma read_byte_next:
  "0 < cluster_bytes k \<Longrightarrow> read_byte k c (off + cluster_bytes k) j = read_byte k c off (j + cluster_bytes k)"
  using div_add_self2 [of "cluster_bytes k" j] div_add_self2 [of "cluster_bytes k" off] by (simp add: read_byte_def)

lemma lookup_readable_next:
  assumes "lookup_readable k c off n" and "cluster_bytes k < n" and "0 < cluster_bytes k"
  shows "lookup_readable k c (off + cluster_bytes k) (n - cluster_bytes k)"
proof -
  let ?C = "cluster_bytes k"
  have "(n - 1) div ?C = Suc ((n - ?C - 1) div ?C)"
    using assms(2,3) div_add_self2 [of ?C "n - ?C - 1"] by simp
  note n = this
  have q: "(off + ?C) div ?C = Suc (off div ?C)" using assms(3) div_add_self2 [of ?C off] by simp
  show ?thesis
    unfolding lookup_readable_def q
  proof (intro conjI allI impI)
    show "lookups_ok k c (Suc (off div ?C) + (n - ?C - 1) div ?C)" using assms(1) unfolding lookup_readable_def n by simp
    fix i assume "i \<le> (n - ?C - 1) div ?C"
    then have "Suc i \<le> (n - 1) div ?C" using n by simp
    with assms(1) show "let a = cluster_start k (lookup_after k c (Suc (off div ?C) + i))
        in 0 \<le> a \<and> a + 2 * int ?C < 2147483648"
      unfolding lookup_readable_def by (auto dest: spec [where x = "Suc i"])
  qed
qed

lemma disjoint_from_rest:
  assumes "disjoint_from a n b l" and "t \<le> l" and "l < 4294967296"
  shows "disjoint_from a n (b + of_nat t) (l - t)"
  unfolding disjoint_from_def
proof (intro allI impI)
  fix i assume "i < n"
  then have i: "l \<le> unat (a + of_nat i - b)" using assms(1) by (simp add: disjoint_from_def)
  have t: "unat (of_nat t :: u32) = t" using assms by (simp add: unat_of_nat32)
  have "unat (a + of_nat i - b - of_nat t) = unat (a + of_nat i - b) - t"
    using i assms(2) t by (simp only: unat_sub32 [of "a + of_nat i - b" "of_nat t"] t) simp
  then show "l - t \<le> unat (a + of_nat i - (b + of_nat t))" using i by (simp add: diff_diff_eq)
qed

lemma data_advanced:
  assumes "advanced k m k'" and "keeps_private k m"
  shows "cluster_start k' = cluster_start k" "read_byte k' = read_byte k" "lookup_readable k' = lookup_readable k"
  using view_advanced [OF assms] the_private_advanced [OF assms] advancedD(4) [OF assms(1)]
  by (simp_all add: fun_eq_iff cluster_start_def read_byte_def lookup_readable_def)

text \<open>One cluster's worth: the lookup, the seek and the read.\<close>

lemma read_chunk:
  fixes k :: "'a io_state_scheme"
  assumes m: "mounted k" and st: "stream_disk (streams k st) = disk_addr k" and r: "lookup_readable k c off n"
    and t: "t \<le> n" "t \<le> cluster_bytes k"
  defines "p \<equiv> nat (cluster_start k (lookup_after k c (off div cluster_bytes k))) + off mod cluster_bytes k"
  shows "\<exists>k1 k2. fat16_get_cluster_for_offset (int c) (int off) k
        = Some (int (lookup_after k c (off div cluster_bytes k)), k1) \<and> advanced k (ram k) k1
    \<and> fat16_cluster_to_sector (the_private k1) (int (lookup_after k c (off div cluster_bytes k)))
        * sector_size (the_disk k1) + int off smod size_of_cluster_bytes k = int p
    \<and> read_into st out (int t) (snd (diskstreamer_seek st (int p) k1)) = Some (0, k2)
    \<and> advanced k (put_bytes out (map (read_byte k c off) [0..<t]) (ram k)) k2"
proof -
  let ?C = "cluster_bytes k"
  let ?q = "lookup_after k c (off div ?C)"
  have C: "0 < ?C" by (rule cluster_bytes_pos [OF m])
  have size: "size_of_cluster_bytes k = int ?C" by (rule size_of_cluster [OF m])
  have "lookups_ok k c (off div ?C)" using r by (auto simp: lookup_readable_def intro: lookups_ok_less)
  from cluster_loop_run [OF m this] obtain k1
    where k1: "cluster_loop (off div ?C) (int c) k = Some (int ?q, k1)" "advanced k (ram k) k1" by blast
  have sd: "int off sdiv int ?C = int (off div ?C)" "int off smod int ?C = int (off mod ?C)"
    by (simp_all add: signed_divide_int_def signed_modulo_int_def sgn_if zdiv_int zmod_int)
  have get: "fat16_get_cluster_for_offset (int c) (int off) k = Some (int ?q, k1)"
    using C k1(1) by (simp add: fat16_get_cluster_for_offset_def size sd)
  have start: "0 \<le> cluster_start k ?q" "cluster_start k ?q + 2 * int ?C < 2147483648"
    using r [unfolded lookup_readable_def] by (auto dest: spec [where x = 0] simp: Let_def)
  have pos: "fat16_cluster_to_sector (the_private k1) (int ?q) * sector_size (the_disk k1)
      + int off smod size_of_cluster_bytes k = int p"
    using start(1) unfolding the_private_advanced [OF k1(2) keeps_private_refl] advancedD(2) [OF k1(2)] mountedD(2) [OF m] size sd
    by (simp add: p_def cluster_start_def)
  have "off mod ?C < ?C" using C by simp
  then have bound: "p + t < 2147483648" using start t(2) unfolding p_def by linarith
  have "stream_disk (streams k1 st) = disk_addr k1" using st advancedD [OF k1(2)] by simp
  from seek_read [OF this advancedD(5) [OF k1(2)] bound] obtain k2
    where k2: "diskstreamer_read st (int t) (snd (diskstreamer_seek st (int p) k1))
        = Some (0, img_slice (ata_image (drive k1)) p t, k2)" "advanced k1 (ram k1) k2" by blast
  have bytes: "img_slice (ata_image (drive k1)) p t = map (read_byte k c off) [0..<t]"
    unfolding chunk_map [OF t(2)] advancedD(4) [OF k1(2)] p_def ..
  have r2: "ram k2 = ram k" using advancedD(1) [OF k2(2)] advancedD(1) [OF k1(2)] by simp
  have "advanced k (put_bytes out (map (read_byte k c off) [0..<t]) (ram k))
      (k2\<lparr>ram := put_bytes out (map (read_byte k c off) [0..<t]) (ram k2)\<rparr>)"
    unfolding r2 by (rule advanced_ram [OF advanced_trans [OF k1(2) k2(2)]])
  moreover have "read_into st out (int t) (snd (diskstreamer_seek st (int p) k1))
      = Some (0, k2\<lparr>ram := put_bytes out (map (read_byte k c off) [0..<t]) (ram k2)\<rparr>)"
    unfolding read_into_def k2(1) bytes by simp
  ultimately show ?thesis using get k1(2) pos by blast
qed

lemma read_internal_run:
  fixes k :: "'a io_state_scheme"
  assumes "mounted k" and "stream_disk (streams k st) = disk_addr k" and "lookup_readable k c off n"
    and "disjoint_from (fs_private (the_disk k)) 92 out n" and "n < 4294967296"
  shows "\<exists>k'. fat16_read_internal_from_stream st (int c) (int off) (int n) out k = Some (0, k')
    \<and> advanced k (put_bytes out (map (read_byte k c off) [0..<n]) (ram k)) k'"
  using assms
proof (induction n arbitrary: k off out rule: less_induct)
  case (less n)
  let ?C = "cluster_bytes k"
  let ?t = "min n ?C"
  note m = less.prems(1) and st = less.prems(2)
  have C: "0 < ?C" by (rule cluster_bytes_pos [OF m])
  have t: "?t \<le> n" "?t \<le> ?C" by simp_all
  obtain k1 k2 where
    k1: "fat16_get_cluster_for_offset (int c) (int off) k = Some (int (lookup_after k c (off div ?C)), k1)" and
    pos: "fat16_cluster_to_sector (the_private k1) (int (lookup_after k c (off div ?C)))
        * sector_size (the_disk k1) + int off smod size_of_cluster_bytes k
        = int (nat (cluster_start k (lookup_after k c (off div ?C))) + off mod ?C)" and
    k2: "read_into st out (int ?t) (snd (diskstreamer_seek st
        (int (nat (cluster_start k (lookup_after k c (off div ?C))) + off mod ?C)) k1)) = Some (0, k2)" and
    adv: "advanced k (put_bytes out (map (read_byte k c off) [0..<?t]) (ram k)) k2"
    using read_chunk [OF m st less.prems(3) t, of out] by blast
  have tot: "(if int n > size_of_cluster_bytes k then size_of_cluster_bytes k else int n) = int ?t"
    by (simp add: size_of_cluster [OF m] min_def)
  have step: "fat16_read_internal_from_stream st (int c) (int off) (int n) out k =
      (if int n - int ?t > 0 then fat16_read_internal_from_stream st (int c) (int off + int ?t) (int n - int ?t)
         (out + as_u32 (int ?t)) k2 else Some (0, k2))"
    by (subst fat16_read_internal_from_stream.simps)
      (simp add: k1 tot pos k2 Let_def diskstreamer_seek_def [THEN arg_cong [where f = fst]] case_prod_beta del: of_nat_add of_nat_min)
  show ?case
  proof (cases "n \<le> ?C")
    case True
    then have "?t = n" by simp
    then show ?thesis using step adv by simp
  next
    case False
    then have tC: "?t = ?C" and lt: "n - ?C < n" "?C < n" using C by simp_all
    let ?m = "put_bytes out (map (read_byte k c off) [0..<?C]) (ram k)"
    have adv: "advanced k ?m k2" using adv unfolding tC .
    have keep: "keeps_private k ?m"
      unfolding keeps_private_def
      by (rule same_bytes_put) (use lt less.prems(5) in \<open>auto intro: disjoint_from_shorter [OF less.prems(4)]\<close>)
    note view = view_advanced [OF adv keep] data_advanced [OF adv keep] advancedD [OF adv]
    have "\<exists>k'. fat16_read_internal_from_stream st (int c) (int (off + ?C)) (int (n - ?C)) (out + of_nat ?C) k2 = Some (0, k')
        \<and> advanced k2 (put_bytes (out + of_nat ?C) (map (read_byte k2 c (off + ?C)) [0..<n - ?C]) (ram k2)) k'"
    proof (rule less.IH [OF lt(1) mounted_advanced [OF m adv keep]])
      show "stream_disk (streams k2 st) = disk_addr k2" using st by (simp add: view)
      show "lookup_readable k2 c (off + ?C) (n - ?C)" unfolding view by (rule lookup_readable_next [OF less.prems(3) lt(2) C])
      show "disjoint_from (fs_private (the_disk k2)) 92 (out + of_nat ?C) (n - ?C)"
        unfolding view by (rule disjoint_from_rest [OF less.prems(4)]) (use lt less.prems(5) in simp_all)
      show "n - ?C < 4294967296" using less.prems(5) by simp
    qed
    then obtain k' where k': "fat16_read_internal_from_stream st (int c) (int (off + ?C)) (int (n - ?C)) (out + of_nat ?C) k2 = Some (0, k')"
      "advanced k2 (put_bytes (out + of_nat ?C) (map (read_byte k2 c (off + ?C)) [0..<n - ?C]) (ram k2)) k'" by blast
    have run: "fat16_read_internal_from_stream st (int c) (int off) (int n) out k = Some (0, k')"
      using step k'(1) lt unfolding tC by simp
    have eq1: "map (read_byte k2 c (off + ?C)) [0..<n - ?C] = map (\<lambda>j. read_byte k c off (j + ?C)) [0..<n - ?C]"
      using C by (simp add: view read_byte_next)
    have eq2: "[0..<n] = [0..<?C] @ map (\<lambda>j. j + ?C) [0..<n - ?C]"
      using lt upt_add_eq_append [of 0 ?C "n - ?C"] map_add_upt [of ?C "n - ?C"] by simp
    have "put_bytes (out + of_nat ?C) (map (read_byte k2 c (off + ?C)) [0..<n - ?C]) (ram k2)
        = put_bytes out (map (read_byte k c off) [0..<n]) (ram k)"
      unfolding eq1 eq2 map_append put_bytes_append map_map comp_def by (simp add: view)
    then show ?thesis using run advanced_trans [OF adv k'(2)] by auto
  qed
qed

subsection \<open>Reading a file\<close>

text \<open>
  The file is what the allocation table says: cluster \<open>file_cluster k c n\<close> is found by following \<open>fat_entry\<close>.  The
  code follows \<open>looked_up\<close>; a read gives the file's bytes as far as the two words agree on the links used.
\<close>

definition file_cluster :: "'a io_state_scheme \<Rightarrow> nat \<Rightarrow> nat \<Rightarrow> nat" where
  \<comment> \<open>the cluster \<open>n\<close> links behind \<open>c\<close> in the allocation table\<close>
  "file_cluster k c n = (fat_entry k ^^ n) c"

definition file_byte :: "'a io_state_scheme \<Rightarrow> nat \<Rightarrow> nat \<Rightarrow> u8" where
  \<comment> \<open>the byte at offset \<open>j\<close> of the file whose first cluster is \<open>c\<close>\<close>
  "file_byte k c j = ata_image (drive k)
     (nat (cluster_start k (file_cluster k c (j div cluster_bytes k))) + j mod cluster_bytes k)"

definition links_agree :: "'a io_state_scheme \<Rightarrow> nat \<Rightarrow> nat \<Rightarrow> bool" where
  \<comment> \<open>for the first \<open>n\<close> links from \<open>c\<close> on, the word the code looks up is the entry of the table\<close>
  "links_agree k c n \<longleftrightarrow> (\<forall>i < n. looked_up k (file_cluster k c i) = fat_entry k (file_cluster k c i))"

definition readable :: "'a io_state_scheme \<Rightarrow> nat \<Rightarrow> nat \<Rightarrow> nat \<Rightarrow> bool" where
  \<comment> \<open>the code can read the \<open>n\<close> bytes at offset \<open>off\<close>, and finds the table's links on its way there\<close>
  "readable k c off n \<longleftrightarrow> lookup_readable k c off n \<and> links_agree k c ((off + n - 1) div cluster_bytes k)"

lemma lookup_after_file: "links_agree k c n \<Longrightarrow> i \<le> n \<Longrightarrow> lookup_after k c i = file_cluster k c i"
proof (induction i)
  case (Suc i)
  then show ?case by (simp add: lookup_after_def file_cluster_def links_agree_def Suc_le_eq)
qed (simp add: lookup_after_def file_cluster_def)

lemma file_cluster_0 [simp]: "file_cluster k c 0 = c"
  by (simp add: file_cluster_def)

lemma links_agree_0 [simp]: "links_agree k c 0"
  by (simp add: links_agree_def)

definition one_piece :: "'a io_state_scheme \<Rightarrow> nat \<Rightarrow> nat \<Rightarrow> bool" where
  \<comment> \<open>a read that starts at a cluster or stays within one\<close>
  "one_piece k off n \<longleftrightarrow> off mod cluster_bytes k = 0 \<or> off mod cluster_bytes k + n \<le> cluster_bytes k"

lemma read_byte_file_byte:
  assumes "one_piece k off n" and "j < n" and "0 < cluster_bytes k"
    and "links_agree k c ((off + n - 1) div cluster_bytes k)"
  shows "read_byte k c off j = file_byte k c (off + j)"
proof -
  let ?C = "cluster_bytes k"
  have "off = off div ?C * ?C + off mod ?C" by simp
  then have off: "(off + j) div ?C = off div ?C + (off mod ?C + j) div ?C" "(off + j) mod ?C = (off mod ?C + j) mod ?C"
    using assms(3) div_mult_self3 [of ?C "off div ?C" "off mod ?C + j"] by (simp_all add: mod_add_left_eq add.assoc)
  have "(off mod ?C + j) div ?C = j div ?C \<and> (off mod ?C + j) mod ?C = off mod ?C + j mod ?C"
  proof (cases "off mod ?C = 0")
    case False
    then have "off mod ?C + j < ?C" using assms(1,2) by (simp add: one_piece_def)
    then show ?thesis by simp
  qed simp
  moreover have "lookup_after k c ((off + j) div ?C) = file_cluster k c ((off + j) div ?C)"
    by (rule lookup_after_file [OF assms(4)]) (use assms(2) in \<open>simp add: div_le_mono\<close>)
  ultimately show ?thesis using off by (simp add: read_byte_def file_byte_def add.assoc)
qed

lemma file_cong:
  assumes "the_private k' = the_private k" and "ata_image (drive k') = ata_image (drive k)"
  shows "readable k' = readable k" "file_byte k' = file_byte k"
proof -
  have r: "reserved k' = reserved k" and c: "cluster_bytes k' = cluster_bytes k" and s: "cluster_start k' = cluster_start k"
    by (simp_all add: fun_eq_iff reserved_def cluster_bytes_def cluster_start_def assms(1))
  have l: "looked_up k' = looked_up k" and f: "fat_entry k' = fat_entry k"
    by (simp_all add: fun_eq_iff looked_up_def fat_entry_def r assms(2))
  have a: "lookup_after k' = lookup_after k" and b: "file_cluster k' = file_cluster k"
    by (intro ext; simp only: lookup_after_def file_cluster_def l f)+
  show "readable k' = readable k"
    by (simp add: fun_eq_iff readable_def lookup_readable_def lookups_ok_def links_agree_def r c a b s l f)
  show "file_byte k' = file_byte k" by (simp add: fun_eq_iff file_byte_def c b s assms(2))
qed

lemma file_byte_advanced:
  assumes "advanced k m k'" and "keeps_private k m"
  shows "readable k' = readable k" "file_byte k' = file_byte k"
  by (rule file_cong; simp add: advancedD [OF assms(1)] the_private_advanced [OF assms])+

definition out_of_the_way :: "'a io_state_scheme \<Rightarrow> u32 \<Rightarrow> u32 \<Rightarrow> nat \<Rightarrow> bool" where
  \<comment> \<open>the buffer shares nothing with the private structure and the directory item of the file\<close>
  "out_of_the_way k item out n \<longleftrightarrow> disjoint_from (fs_private (the_disk k)) 92 out n \<and> disjoint_from item 32 out n
     \<and> n < 2147483648"

definition first_cluster_at :: "'a kmem_scheme \<Rightarrow> u32 \<Rightarrow> u32" where
  "first_cluster_at k item = fat16_get_first_cluster (fat_directory_item_at (ram k) item)"

definition records_readable :: "'a io_state_scheme \<Rightarrow> nat \<Rightarrow> nat \<Rightarrow> nat \<Rightarrow> nat \<Rightarrow> bool" where
  "records_readable k c off sz n \<longleftrightarrow> (\<forall>i < n. readable k c (off + i * sz) sz \<and> one_piece k (off + i * sz) sz)"

lemma read_loop_run:
  fixes k :: "'a io_state_scheme"
  assumes "mounted k" and "out_of_the_way k item out (n * sz)" and "records_readable k c off sz n"
    and "first_cluster_at k item = of_nat c" and "c < 2147483648" and "off + n * sz < 2147483648" and "sz < 2147483648"
  shows "\<exists>k'. read_loop n item (of_nat sz) (int off) out r k = Some (r, k')
    \<and> advanced k (put_bytes out (map (\<lambda>j. file_byte k c (off + j)) [0..<n * sz]) (ram k)) k'"
  using assms
proof (induction n arbitrary: k off out)
  case 0
  then show ?case using advanced_refl [OF mountedD(1)] by auto
next
  case (Suc n)
  note m = Suc.prems(1)
  let ?st = "cluster_read_stream (the_private k)"
  let ?bs = "map (\<lambda>j. file_byte k c (off + j)) [0..<sz]"
  let ?m = "put_bytes out ?bs (ram k)"
  have C: "0 < cluster_bytes k" by (rule cluster_bytes_pos [OF m])
  have rd: "lookup_readable k c off sz" "one_piece k off sz" "links_agree k c ((off + sz - 1) div cluster_bytes k)"
    using Suc.prems(3) [unfolded records_readable_def, rule_format, of 0] by (simp_all add: readable_def)
  have way: "disjoint_from (fs_private (the_disk k)) 92 out (Suc n * sz)" "disjoint_from item 32 out (Suc n * sz)"
    "Suc n * sz < 2147483648"
    using Suc.prems(2) by (auto simp: out_of_the_way_def)
  have d: "disjoint_from (fs_private (the_disk k)) 92 out sz" "disjoint_from item 32 out sz"
    using way by (auto elim: disjoint_from_shorter)
  have bs: "map (read_byte k c off) [0..<sz] = ?bs"
    using read_byte_file_byte [OF rd(2) _ C rd(3)] by simp
  have "sz < 4294967296" using Suc.prems(7) by simp
  from read_internal_run [OF m mountedD(6) [OF m] rd(1) d(1) this] obtain k1
    where k1: "fat16_read_internal_from_stream ?st (int c) (int off) (int sz) out k = Some (0, k1)" "advanced k ?m k1"
    unfolding bs by blast
  have keep: "keeps_private k ?m"
    unfolding keeps_private_def by (rule same_bytes_put) (use d Suc.prems(7) in simp_all)
  note view = data_advanced [OF k1(2) keep] view_advanced [OF k1(2) keep] file_byte_advanced [OF k1(2) keep]
    advancedD [OF k1(2)]
  have "same_bytes item 32 (ram k) ?m" by (rule same_bytes_put) (use d Suc.prems(7) in simp_all)
  then have item: "first_cluster_at k1 item = of_nat c"
    using Suc.prems(4) by (simp add: first_cluster_at_def view fat_directory_item_at_same)
  have ints: "as_int (of_nat sz) = int sz" "as_int (of_nat c) = int c"
    "as_int (as_u32 (int off) + of_nat sz) = int (off + sz)"
    using Suc.prems(5-7) as_int_of_nat [of "off + sz"] by (simp_all add: as_int_of_nat)
  have step: "read_loop (Suc n) item (of_nat sz) (int off) out r k
      = read_loop n item (of_nat sz) (int (off + sz)) (out + of_nat sz) r k1"
    using k1(1) Suc.prems(4) ints by (simp add: fat16_read_internal_def first_cluster_at_def del: of_nat_add)
  have "\<exists>k'. read_loop n item (of_nat sz) (int (off + sz)) (out + of_nat sz) r k1 = Some (r, k')
    \<and> advanced k1 (put_bytes (out + of_nat sz) (map (\<lambda>j. file_byte k1 c (off + sz + j)) [0..<n * sz]) (ram k1)) k'"
  proof (rule Suc.IH [OF mounted_advanced [OF m k1(2) keep] _ _ item Suc.prems(5)])
    show "out_of_the_way k1 item (out + of_nat sz) (n * sz)"
      using disjoint_from_rest [OF way(1), of sz] disjoint_from_rest [OF way(2), of sz] way(3)
      by (simp add: out_of_the_way_def view)
    show "records_readable k1 c (off + sz) sz n"
      unfolding records_readable_def view one_piece_def
    proof (intro allI impI)
      fix i assume "i < n"
      then show "readable k c (off + sz + i * sz) sz \<and> ((off + sz + i * sz) mod cluster_bytes k = 0
          \<or> (off + sz + i * sz) mod cluster_bytes k + sz \<le> cluster_bytes k)"
        using Suc.prems(3) [unfolded records_readable_def one_piece_def, rule_format, of "Suc i"] by (simp add: add.assoc)
    qed
    show "off + sz + n * sz < 2147483648" using Suc.prems(6) by simp
  qed (rule Suc.prems(7))
  then obtain k' where k': "read_loop n item (of_nat sz) (int (off + sz)) (out + of_nat sz) r k1 = Some (r, k')"
    "advanced k1 (put_bytes (out + of_nat sz) (map (\<lambda>j. file_byte k c (off + sz + j)) [0..<n * sz]) ?m) k'"
    unfolding view by blast
  have "[0..<Suc n * sz] = [0..<sz] @ map (\<lambda>j. j + sz) [0..<n * sz]"
    using upt_add_eq_append [of 0 sz "n * sz"] map_add_upt [of sz "n * sz"] by (simp add: add.commute)
  then have all: "map (\<lambda>j. file_byte k c (off + j)) [0..<Suc n * sz]
      = ?bs @ map (\<lambda>j. file_byte k c (off + sz + j)) [0..<n * sz]"
    by (simp add: comp_def ac_simps)
  show ?case
    using step k'(1) advanced_trans [OF k1(2) k'(2)] unfolding all put_bytes_append by simp
qed

subsection \<open>Open files\<close>

lemma store32_put: "store32 m a v = put_bytes a [ucast v, ucast (drop_bit 8 v), ucast (drop_bit 16 v), ucast (drop_bit 24 v)] m"
  by (simp add: store32_def add.assoc)

lemma same_bytes_store32:
  assumes "disjoint_from a n b 4"
  shows "same_bytes a n m (store32 m b v)"
proof -
  let ?bs = "[ucast v, ucast (drop_bit 8 v), ucast (drop_bit 16 v), ucast (drop_bit 24 v)] :: u8 list"
  have l: "length ?bs = 4" by simp
  show ?thesis unfolding store32_put by (rule same_bytes_put) (unfold l, rule assms, simp)
qed

lemma load32_same: "same_bytes a 4 m m' \<Longrightarrow> load32 m a = load32 m' a"
  by (simp add: load32_def same_loads)

lemma same_bytes_sub: "same_bytes a n m m' \<Longrightarrow> j + l \<le> n \<Longrightarrow> same_bytes (a + of_nat j) l m m'"
  unfolding same_bytes_def
proof (intro allI impI)
  fix i assume s: "\<forall>i < n. m (a + of_nat i) = m' (a + of_nat i)" and "j + l \<le> n" "i < l"
  then have "m (a + of_nat (j + i)) = m' (a + of_nat (j + i))" by (intro s [rule_format]) simp
  then show "m (a + of_nat j + of_nat i) = m' (a + of_nat j + of_nat i)" by (simp add: add.assoc)
qed

lemma fat_item_at_same:
  assumes "same_bytes f 8 m m'"
  shows "fat_item_at m f = fat_item_at m' f"
  using load32_same [OF same_bytes_sub [OF assms, of 0 4]] load32_same [OF same_bytes_sub [OF assms, of 4 4]]
  by (simp add: fat_item_at_def)

text \<open>
  \<open>open_file vt k fd p f item c\<close>: \<open>fd\<close> is open on a FAT16 file; \<open>p\<close> is its \<open>fat_file_descriptor\<close>, \<open>f\<close> its
  \<open>fat_item\<close>, \<open>item\<close> the directory item and \<open>c\<close> the first cluster.
\<close>

definition open_file :: "(u32 \<Rightarrow> 'a file_state_scheme filesystem) \<Rightarrow> 'a file_state_scheme \<Rightarrow> int \<Rightarrow> u32 \<Rightarrow> u32 \<Rightarrow> u32 \<Rightarrow> nat \<Rightarrow> bool" where
  "open_file vt k fd p f item c \<longleftrightarrow> 1 \<le> fd \<and> file_get_descriptor fd k \<noteq> 0
     \<and> (\<exists>fs tmp. vt (fd_filesystem (fdescs k (file_get_descriptor fd k))) = fat16_fs fs tmp)
     \<and> fd_private (fdescs k (file_get_descriptor fd k)) = p
     \<and> load32 (ram k) p = f \<and> fat_item_at (ram k) f = \<lparr>item_ptr = item, item_type = FAT_ITEM_TYPE_FILE\<rparr>
     \<and> first_cluster_at k item = of_nat c \<and> c < 2147483648"

definition away_from_file :: "'a io_state_scheme \<Rightarrow> u32 \<Rightarrow> u32 \<Rightarrow> u32 \<Rightarrow> u32 \<Rightarrow> nat \<Rightarrow> bool" where
  \<comment> \<open>the \<open>n\<close> bytes at \<open>a\<close> are none of the structures an open file consists of\<close>
  "away_from_file k p f item a n \<longleftrightarrow> disjoint_from (fs_private (the_disk k)) 92 a n \<and> disjoint_from p 4 a n
     \<and> disjoint_from f 8 a n \<and> disjoint_from item 32 a n \<and> n < 2147483648"

lemma open_file_same:
  fixes k k' :: "'a file_state_scheme"
  assumes "open_file vt k fd p f item c" and "file_descriptors k' = file_descriptors k" "fdescs k' = fdescs k"
    and "same_bytes p 4 (ram k) (ram k')" "same_bytes f 8 (ram k) (ram k')" "same_bytes item 32 (ram k) (ram k')"
  shows "open_file vt k' fd p f item c"
proof -
  have "file_get_descriptor fd k' = file_get_descriptor fd k" by (simp add: file_get_descriptor_def assms(2))
  then show ?thesis
    using assms(1,3) load32_same [OF assms(4)] fat_item_at_same [OF assms(5)] fat_directory_item_at_same [OF assms(6)]
    by (simp add: open_file_def first_cluster_at_def)
qed

lemma advanced_file:
  fixes k k' :: "'a file_state_scheme"
  assumes "advanced k m k'"
  shows "file_descriptors k' = file_descriptors k" "fdescs k' = fdescs k"
  using assms by (auto simp: advanced_def)

lemma fread_run:
  fixes k :: "'a file_state_scheme"
  assumes "mounted k" and "open_file vt k fd p f item c" and "load32 (ram k) (p + 4) = of_nat off"
    and "out_of_the_way k item out (n * sz)" and "records_readable k c off sz n"
    and "off + n * sz < 2147483648" and "0 < sz" "0 < n" and "sz < 2147483648" and "n < 2147483648"
  shows "\<exists>k'. fread vt out (of_nat sz) (of_nat n) fd k = Some (int n, k')
    \<and> advanced k (put_bytes out (map (\<lambda>j. file_byte k c (off + j)) [0..<n * sz]) (ram k)) k'"
proof -
  note o = assms(2) [unfolded open_file_def]
  obtain fs tmp where vt: "vt (fd_filesystem (fdescs k (file_get_descriptor fd k))) = fat16_fs fs tmp" using o by blast
  have nz: "(of_nat sz :: u32) \<noteq> 0" "(of_nat n :: u32) \<noteq> 0" "unat (of_nat n :: u32) = n"
    using assms(7-10) by (simp_all add: word32_eq_iff_unat unat_of_nat32)
  have off: "as_int (of_nat off) = int off" "as_int (of_nat n) = int n"
    by (rule as_int_of_nat; use assms(6,10) in simp)+
  have "\<not> fd < 1" "file_get_descriptor fd k \<noteq> 0" "fd_private (fdescs k (file_get_descriptor fd k)) = p" using o by auto
  then have "fread vt out (of_nat sz) (of_nat n) fd k
      = fat16_read (fd_disk (fdescs k (file_get_descriptor fd k))) p (of_nat sz) (of_nat n) out k"
    using nz by (simp add: fread_def Let_def vt fat16_fs_def)
  also have "\<dots> = read_loop n item (of_nat sz) (int off) out (int n) k"
    using o assms(3) nz off by (simp add: fat16_read_def Let_def fat_file_descriptor_at_def)
  finally show ?thesis
    using read_loop_run [OF assms(1,4,5) _ _ assms(6,9), of "int n"] o by simp
qed

subsection \<open>The properties\<close>

text \<open>
  C35: seeking in an open FAT16 file and reading \<open>n\<close> records of \<open>sz\<close> bytes through the file layer returns \<open>n\<close> and
  fills the buffer with the file's bytes from the new position on, taken from the clusters the allocation table
  chains to its first one, wherever they lie; nothing else in memory changes but the position of the descriptor.
  The records lie in one cluster each or start at one, in clusters within the first 2 GB; for the links the read
  follows (none within the first cluster) the word at the place the code looks up, \<open>512 r (2 c)\<close>, has to be the
  entry of the table at \<open>512 r + 2 c\<close> and none of the marks the code refuses.
\<close>
theorem fat16_seek_fread:
  fixes k :: "'a file_state_scheme"
  assumes m: "mounted k" and o: "open_file vt k fd p f item c"
    and desc: "away_from_file k p f item (p + 4) 4" and out: "away_from_file k p f item out (n * sz)"
    and off: "off < unat (item_filesize (fat_directory_item_at (ram k) item))"
    and r: "records_readable k c off sz n" "off + n * sz < 2147483648"
    and sz: "0 < sz" "0 < n" "sz < 2147483648" "n < 2147483648"
  shows "\<exists>k1 k2. fseek vt fd (int off) SEEK_SET k = Some (0, k1)
    \<and> fread vt out (of_nat sz) (of_nat n) fd k1 = Some (int n, k2)
    \<and> ram k2 = put_bytes out (map (\<lambda>j. file_byte k c (off + j)) [0..<n * sz]) (store32 (ram k) (p + 4) (of_nat off))"
proof -
  let ?m = "store32 (ram k) (p + 4) (of_nat off)"
  let ?k = "poke32 (p + 4) (of_nat off) k"
  note D = desc [unfolded away_from_file_def]
  have ram: "ram ?k = ?m" by (simp add: poke32_def)
  have same: "same_bytes p 4 (ram k) (ram ?k)" "same_bytes f 8 (ram k) (ram ?k)" "same_bytes item 32 (ram k) (ram ?k)"
    unfolding ram using D by (simp_all add: same_bytes_store32)
  have keep: "keeps_private k ?m" unfolding keeps_private_def using D by (simp add: same_bytes_store32)
  have adv: "advanced k ?m ?k"
    using advanced_ram [OF advanced_refl [OF mountedD(1) [OF m]]] by (simp add: poke32_def)
  have fields: "file_descriptors ?k = file_descriptors k" "fdescs ?k = fdescs k" by (simp_all add: poke32_def)
  have o': "open_file vt ?k fd p f item c" by (rule open_file_same [OF o fields same])
  note view = view_advanced [OF adv keep] data_advanced [OF adv keep] file_byte_advanced [OF adv keep] advancedD [OF adv]
  obtain fs tmp where vt: "vt (fd_filesystem (fdescs k (file_get_descriptor fd k))) = fat16_fs fs tmp"
    using o [unfolded open_file_def] by blast
  have small: "off < 4294967296" using r(2) by simp
  have "\<not> item_filesize (fat_directory_item_at (ram k) item) \<le> of_nat off"
    using off small by (simp add: word_le_nat_alt unat_of_nat32)
  then have seek: "fseek vt fd (int off) SEEK_SET k = Some (0, ?k)"
    using o vt by (simp add: open_file_def fseek_def Let_def fat16_fs_def fat16_seek_def fat_file_descriptor_at_def)
  have "\<exists>k2. fread vt out (of_nat sz) (of_nat n) fd ?k = Some (int n, k2)
    \<and> advanced ?k (put_bytes out (map (\<lambda>j. file_byte ?k c (off + j)) [0..<n * sz]) (ram ?k)) k2"
  proof (rule fread_run [OF mounted_advanced [OF m adv keep] o' _ _ _ r(2) sz])
    show "load32 (ram ?k) (p + 4) = of_nat off" by (simp add: ram)
    show "out_of_the_way ?k item out (n * sz)" using out by (simp add: out_of_the_way_def away_from_file_def view)
    show "records_readable ?k c off sz n"
      using r(1) by (simp add: records_readable_def view one_piece_def)
  qed
  then show ?thesis using seek advancedD(1) unfolding view by blast
qed

text \<open>
  reading does not move the position: two successive reads deliver the same bytes, those at the position
  of the descriptor.
\<close>
theorem fread_again:
  fixes k :: "'a file_state_scheme"
  assumes m: "mounted k" and o: "open_file vt k fd p f item c" and pos: "load32 (ram k) (p + 4) = of_nat off"
    and out: "away_from_file k p f item out (n * sz)" "disjoint_from (p + 4) 4 out (n * sz)"
    and out': "away_from_file k p f item out' (n * sz)"
    and r: "records_readable k c off sz n" "off + n * sz < 2147483648"
    and sz: "0 < sz" "0 < n" "sz < 2147483648" "n < 2147483648"
  shows "\<exists>k1 k2. fread vt out (of_nat sz) (of_nat n) fd k = Some (int n, k1)
    \<and> fread vt out' (of_nat sz) (of_nat n) fd k1 = Some (int n, k2)
    \<and> ram k1 = put_bytes out (map (\<lambda>j. file_byte k c (off + j)) [0..<n * sz]) (ram k)
    \<and> ram k2 = put_bytes out' (map (\<lambda>j. file_byte k c (off + j)) [0..<n * sz]) (ram k1)"
proof -
  let ?bs = "map (\<lambda>j. file_byte k c (off + j)) [0..<n * sz]"
  let ?m = "put_bytes out ?bs (ram k)"
  note A = out [unfolded away_from_file_def]
  have l: "length ?bs \<le> 4294967296" using A by simp
  obtain k1 where k1: "fread vt out (of_nat sz) (of_nat n) fd k = Some (int n, k1)" "advanced k ?m k1"
    using fread_run [OF m o pos _ r sz, of out] A by (auto simp: out_of_the_way_def)
  have ram: "ram k1 = ?m" by (rule advancedD(1) [OF k1(2)])
  have same: "same_bytes p 4 (ram k) (ram k1)" "same_bytes f 8 (ram k) (ram k1)" "same_bytes item 32 (ram k) (ram k1)"
    "same_bytes (p + 4) 4 (ram k) (ram k1)" "same_bytes (fs_private (the_disk k)) 92 (ram k) ?m"
    unfolding ram by (rule same_bytes_put [OF _ l]; use A in simp)+
  have keep: "keeps_private k ?m" unfolding keeps_private_def by (rule same(5))
  note view = view_advanced [OF k1(2) keep] data_advanced [OF k1(2) keep] file_byte_advanced [OF k1(2) keep] advancedD [OF k1(2)]
  have "\<exists>k2. fread vt out' (of_nat sz) (of_nat n) fd k1 = Some (int n, k2)
    \<and> advanced k1 (put_bytes out' (map (\<lambda>j. file_byte k1 c (off + j)) [0..<n * sz]) (ram k1)) k2"
  proof (rule fread_run [OF mounted_advanced [OF m k1(2) keep] _ _ _ _ r(2) sz])
    show "open_file vt k1 fd p f item c" by (rule open_file_same [OF o advanced_file [OF k1(2)] same(1-3)])
    show "load32 (ram k1) (p + 4) = of_nat off" using pos load32_same [OF same(4)] by simp
    show "out_of_the_way k1 item out' (n * sz)" using out' by (simp add: out_of_the_way_def away_from_file_def view)
    show "records_readable k1 c off sz n" using r(1) by (simp add: records_readable_def view one_piece_def)
  qed
  then obtain k2 where k2: "fread vt out' (of_nat sz) (of_nat n) fd k1 = Some (int n, k2)"
    "advanced k1 (put_bytes out' ?bs ?m) k2" unfolding view by blast
  have "ram k2 = put_bytes out' ?bs (ram k1)" using advancedD(1) [OF k2(2)] unfolding ram .
  then show ?thesis using k1(1) k2(1) ram by blast
qed

text \<open>
  the allocation table is looked up in the wrong place.  The entry of cluster \<open>c\<close> stands \<open>2 c\<close> bytes behind
  the reserved sectors; the code multiplies where it should add and reads at \<open>512 r (2 c)\<close> instead.
\<close>
theorem fat16_get_fat_entry_spec:
  assumes "mounted k" and "512 * reserved k * (2 * c) + 2 < 2147483648"
  shows "\<exists>k'. fat16_get_fat_entry (int c) k = Some (int (word_at (ata_image (drive k)) (512 * reserved k * (2 * c))), k')
    \<and> ram k' = ram k"
  using fat_entry_run [OF assms] advancedD(1) unfolding looked_up_def by blast

text \<open>
  C36: a read of at most one cluster's bytes takes them from consecutive places of the disk, also when it starts in
  the middle of a cluster and runs over its end: then its tail is the cluster behind it on the disk, not
  the next one of the file.  The cluster it starts in is the one the code's own lookups lead to.
\<close>
theorem fat16_read_internal_contiguous:
  fixes k :: "'a io_state_scheme"
  assumes "mounted k" and "lookup_readable k c off n" and "n \<le> cluster_bytes k"
    and "disjoint_from (fs_private (the_disk k)) 92 out n" and "n < 4294967296"
  shows "\<exists>k'. fat16_read_internal (int c) (int off) (int n) out k = Some (0, k')
    \<and> ram k' = put_bytes out (img_slice (ata_image (drive k))
        (nat (cluster_start k (lookup_after k c (off div cluster_bytes k))) + off mod cluster_bytes k) n) (ram k)"
  using read_internal_run [OF assms(1) mountedD(6) [OF assms(1)] assms(2,4,5)] advancedD(1)
  unfolding fat16_read_internal_def chunk_map [OF assms(3)] by blast

subsection \<open>A small disk\<close>

text \<open>
  One reserved sector, clusters of one sector, data from sector 6 on.  The allocation table says that cluster 5
  follows cluster 2 and cluster 6 follows cluster 5.  Where the code looks for the entry of cluster 2 stands a 5 too,
  but its place for cluster 5 lies in the data of the file itself.  The file open as descriptor 1 begins in cluster 2.
\<close>

definition fat_bytes :: "u32 \<Rightarrow> u8" where
  "fat_bytes a = case_option 0 id (map_of
     [(0x100D, 1), (0x100E, 1), (0x104C, 6), (0x1051, 0x40), (0x1055, 0x41), (0x1059, 0x42),
      (0x2001, 0x21), (0x2101, 0x22), (0x2104, 1), (0x221A, 2), (0x221C, 0x58), (0x221D, 2)] a)"

definition fat_image :: "nat \<Rightarrow> u8" where
  "fat_image n = (if n = 516 then 5 else if n = 522 then 6 else if n = 2048 then 5 else if 4608 \<le> n then 0xBB
     else if 3584 \<le> n then 0xCC else if 3072 \<le> n then 0xAA else 0)"

definition fat_test :: file_state where
  "fat_test = \<lparr>ram = fat_bytes, kernel_heap = the_heap, current_directory = 0, cr3 = 0,
     drive = test_drive\<lparr>ata_image := fat_image\<rparr>,
     the_disk = \<lparr>disk_type = 0, sector_size = 512, disk_id = 0, disk_filesystem = 0x5000, fs_private = 0x1000\<rparr>,
     disk_addr = 0x200000, streams = (\<lambda>_. \<lparr>pos = 0, stream_disk = 0x200000\<rparr>),
     path_roots = (\<lambda>_. \<lparr>drive_no = 0, first_part = 0\<rparr>), path_parts = (\<lambda>_. \<lparr>part_str = 0, part_next = 0\<rparr>),
     filesystems = replicate 12 0, file_descriptors = 0x6000 # replicate 511 0,
     fdescs = (\<lambda>_. \<lparr>fd_index = 1, fd_filesystem = 0x5000, fd_private = 0x2000, fd_disk = 0x200000\<rparr>)\<rparr>"

lemma fat_test_private:
  "sectors_per_cluster (primary_header (header (the_private fat_test))) = 1"
  "reserved_sectors (primary_header (header (the_private fat_test))) = 1"
  "ending_sector_pos (root_directory (the_private fat_test)) = 6"
  "cluster_read_stream (the_private fat_test) = 0x4000" "fat_read_stream (the_private fat_test) = 0x4100"
  "directory_stream (the_private fat_test) = 0x4200"
  by (simp_all add: the_private_def fat_private_at_def fat_h_at_def fat_header_at_def fat_directory_at_def
      load16_def load32_def fat_test_def fat_bytes_def as_int_def)

lemma fat_test_mounted: "mounted fat_test"
  using test_drive_responsive
  by (simp add: mounted_def fat_test_private) (simp add: fat_test_def ata_responsive_def)

lemma fat_test_chain:
  "cluster_bytes fat_test = 512" "reserved fat_test = 1" "looked_up fat_test 2 = 5" "fat_entry fat_test 2 = 5"
  "looked_up fat_test 5 = 0xBBBB" "fat_entry fat_test 5 = 6"
  by (simp_all add: cluster_bytes_def reserved_def fat_test_private looked_up_def fat_entry_def word_at_def)
    (simp_all add: fat_test_def fat_image_def)

lemma fat_test_start: "cluster_start fat_test c = 512 * (int c + 4)"
  by (simp add: cluster_start_def fat16_cluster_to_sector_def fat_test_private)

lemma fat_test_open: "open_file (\<lambda>_. fat16_fs 0x5000 0x7000) fat_test 1 0x2000 0x2100 0x2200 2"
  unfolding open_file_def
  by (auto simp: fat_test_def file_get_descriptor_def fat_bytes_def load32_def load16_def fat_item_at_def
      first_cluster_at_def fat16_get_first_cluster_def fat_directory_item_at_def)

lemma disjoint_from_below:
  assumes "unat a + n \<le> unat b" and "unat b + l \<le> 4294967296"
  shows "disjoint_from a n b l"
  unfolding disjoint_from_def
proof (intro allI impI)
  fix i assume i: "i < n"
  have "unat b < 4294967296" by (rule unat_bound32)
  then have "unat (a + of_nat i) = unat a + i" using i assms(1) by (simp add: unat_add32 unat_of_nat32)
  then show "l \<le> unat (a + of_nat i - b)" using i assms by (simp add: unat_sub32)
qed

lemma disjoint_from_above:
  assumes "unat b + l \<le> unat a" and "unat a + n \<le> 4294967296"
  shows "disjoint_from a n b l"
  unfolding disjoint_from_def
proof (intro allI impI)
  fix i assume i: "i < n"
  then have "unat (a + of_nat i) = unat a + i" using assms(2) by (simp add: unat_add32 unat_of_nat32)
  then show "l \<le> unat (a + of_nat i - b)" using assms by (simp add: unat_sub32)
qed

lemma fat_test_away:
  "n < 0x1000 \<Longrightarrow> away_from_file fat_test 0x2000 0x2100 0x2200 0x3000 n"
  "n < 0x1000 \<Longrightarrow> away_from_file fat_test 0x2000 0x2100 0x2200 0x4000 n"
  "away_from_file fat_test 0x2000 0x2100 0x2200 0x2004 4"
  by (simp_all add: away_from_file_def fat_test_def disjoint_from_above disjoint_from_below)

lemma fat_test_cluster_after: "lookup_after fat_test 2 (Suc 0) = 5" "file_cluster fat_test 2 (Suc 0) = 5"
  by (simp_all add: lookup_after_Suc file_cluster_def fat_test_chain)

lemma fat_test_links: "m < 1024 \<Longrightarrow> links_agree fat_test 2 (m div 512)"
proof -
  assume "m < 1024"
  then have "m div 512 = 0 \<or> m div 512 = Suc 0" by linarith
  then show ?thesis by (auto simp: links_agree_def fat_test_chain)
qed

lemma fat_test_readable:
  assumes "off + n \<le> 1024" and "0 < n" and "n \<le> 512"
  shows "readable fat_test 2 off n"
proof -
  have off: "off < 1024" and n: "0 < n" "n \<le> 512" and b: "off + n - 1 < 1024" using assms by simp_all
  have "(n - 1) div 512 = 0" using n by simp
  moreover have "off div 512 = 0 \<or> off div 512 = Suc 0" using off by linarith
  ultimately show ?thesis
    using fat_test_links [OF b]
    by (auto simp: readable_def lookup_readable_def fat_test_chain fat_test_start lookups_ok_def fat_test_cluster_after bad_entry_def Let_def)
qed

theorem fat16_seek_fread_witness:
  "\<exists>k1 k2. fseek (\<lambda>_. fat16_fs 0x5000 0x7000) 1 (int 512) SEEK_SET fat_test = Some (0, k1)
    \<and> fread (\<lambda>_. fat16_fs 0x5000 0x7000) 0x3000 (of_nat 8) (of_nat 1) 1 k1 = Some (int 1, k2) \<and> ram k2 0x3000 = 0xBB"
proof -
  have "512 < unat (item_filesize (fat_directory_item_at (ram fat_test) 0x2200))"
    by (simp add: fat_directory_item_at_def load32_def fat_test_def fat_bytes_def)
  moreover have "records_readable fat_test 2 512 8 1"
    by (simp add: records_readable_def one_piece_def fat_test_chain fat_test_readable)
  moreover have "away_from_file fat_test 0x2000 0x2100 0x2200 (0x2000 + 4) 4" using fat_test_away(3) by simp
  ultimately obtain k1 k2 where k: "fseek (\<lambda>_. fat16_fs 0x5000 0x7000) 1 (int 512) SEEK_SET fat_test = Some (0, k1)"
    "fread (\<lambda>_. fat16_fs 0x5000 0x7000) 0x3000 (of_nat 8) (of_nat 1) 1 k1 = Some (int 1, k2)"
    "ram k2 = put_bytes 0x3000 (map (\<lambda>j. file_byte fat_test 2 (512 + j)) [0..<1 * 8])
       (store32 (ram fat_test) (0x2000 + 4) (of_nat 512))"
    using fat16_seek_fread [OF fat_test_mounted fat_test_open _ fat_test_away(1), of 1 8 512] by auto
  have "ram k2 0x3000 = file_byte fat_test 2 512"
    unfolding k(3) by (simp add: put_bytes_at)
  also have "\<dots> = 0xBB"
    by (simp add: file_byte_def fat_test_chain fat_test_cluster_after fat_test_start) (simp add: fat_test_def fat_image_def)
  finally show ?thesis using k(1,2) by blast
qed

theorem fread_again_witness:
  "\<exists>k1 k2. fread (\<lambda>_. fat16_fs 0x5000 0x7000) 0x3000 (of_nat 8) (of_nat 1) 1 fat_test = Some (int 1, k1)
    \<and> fread (\<lambda>_. fat16_fs 0x5000 0x7000) 0x4000 (of_nat 8) (of_nat 1) 1 k1 = Some (int 1, k2)
    \<and> ram k1 0x3000 = 0xAA \<and> ram k2 0x4000 = 0xAA"
proof -
  have "records_readable fat_test 2 0 8 1"
    by (simp add: records_readable_def one_piece_def fat_test_chain fat_test_readable)
  moreover have "load32 (ram fat_test) (0x2000 + 4) = of_nat 0"
    by (simp add: load32_def fat_test_def fat_bytes_def)
  moreover have "disjoint_from (0x2000 + 4) 4 0x3000 (1 * 8)" by (rule disjoint_from_below) simp_all
  ultimately obtain k1 k2 where k: "fread (\<lambda>_. fat16_fs 0x5000 0x7000) 0x3000 (of_nat 8) (of_nat 1) 1 fat_test = Some (int 1, k1)"
    "fread (\<lambda>_. fat16_fs 0x5000 0x7000) 0x4000 (of_nat 8) (of_nat 1) 1 k1 = Some (int 1, k2)"
    "ram k1 = put_bytes 0x3000 (map (\<lambda>j. file_byte fat_test 2 (0 + j)) [0..<1 * 8]) (ram fat_test)"
    "ram k2 = put_bytes 0x4000 (map (\<lambda>j. file_byte fat_test 2 (0 + j)) [0..<1 * 8]) (ram k1)"
    using fread_again [OF fat_test_mounted fat_test_open _ fat_test_away(1) _ fat_test_away(2), of 0 1 8] by auto
  have byte: "file_byte fat_test 2 0 = 0xAA"
    by (simp add: file_byte_def fat_test_chain fat_test_start) (simp add: fat_test_def fat_image_def)
  have "ram k1 0x3000 = 0xAA" "ram k2 0x4000 = 0xAA"
    unfolding k(4) unfolding k(3) by (simp_all add: put_bytes_at byte)
  then show ?thesis using k(1,2) by blast
qed

theorem fat16_get_fat_entry_spec_witness:
  "\<exists>k'. fat16_get_fat_entry 5 fat_test = Some (0xBBBB, k') \<and> fat_entry fat_test 5 = 6"
  using fat16_get_fat_entry_spec [OF fat_test_mounted, of 5] fat_test_chain
  by (simp add: looked_up_def) blast

theorem fat16_read_internal_contiguous_witness:
  "\<exists>k'. fat16_read_internal 2 500 20 0x3000 fat_test = Some (0, k') \<and> ram k' 0x300C = 0xCC
    \<and> file_byte fat_test 2 512 = 0xBB"
proof -
  have "disjoint_from (fs_private (the_disk fat_test)) 92 0x3000 20"
    using fat_test_away(1) [of 20] by (simp add: away_from_file_def)
  from fat16_read_internal_contiguous [OF fat_test_mounted _ _ this, of 2 500] obtain k'
    where k': "fat16_read_internal 2 500 20 0x3000 fat_test = Some (0, k')"
      "ram k' = put_bytes 0x3000 (img_slice (ata_image (drive fat_test)) (3072 + 500) 20) (ram fat_test)"
    using fat_test_readable [of 500 20] by (auto simp: readable_def fat_test_chain fat_test_start)
  have "ram k' 0x300C = 0xCC" "file_byte fat_test 2 512 = 0xBB"
    unfolding k'(2) file_byte_def fat_test_chain fat_test_start
    by (simp_all add: put_bytes_at img_slice_def fat_test_cluster_after fat_test_start) (simp_all add: fat_test_def fat_image_def)
  then show ?thesis using k'(1) by blast
qed

end
