(* ===== verification/FatDir.thy ===== *)
theory FatDir
  imports FatRead
begin

text \<open>
  Directories in \<^verbatim>\<open>fat16.c\<close>: the names of their items, their length, and opening and closing a file.
\<close>

subsection \<open>Names\<close>

definition trim_name :: "u8 list \<Rightarrow> u8 list" where
  "trim_name = takeWhile (\<lambda>c. c \<noteq> 0 \<and> c \<noteq> 0x20)"

definition full_name :: "u8 list \<Rightarrow> u8 list \<Rightarrow> u8 list" where
  \<comment> \<open>\<open>NAME.EXT\<close>, or \<open>NAME\<close> without an extension\<close>
  "full_name name ext = trim_name name @ (if ext ! 0 \<noteq> 0 \<and> ext ! 0 \<noteq> 0x20 then 0x2E # trim_name ext else [])"

lemma load_bytes_Suc: "load_bytes m a (Suc n) = m a # load_bytes m (a + 1) n"
  by (simp add: load_bytes_def upt_conv_Cons map_Suc_upt [symmetric] add.assoc del: upt_Suc)

lemma load_bytes_cong: "same_bytes a n m m' \<Longrightarrow> load_bytes m a n = load_bytes m' a n"
  by (simp add: load_bytes_def same_bytes_def)

lemma length_load_bytes [simp]: "length (load_bytes m a n) = n"
  by (simp add: load_bytes_def)

lemma disjoint_from_step:
  assumes "disjoint_from a (Suc n) b (Suc l)" and "l < 4294967295"
  shows "disjoint_from (a + 1) n (b + 1) l"
  unfolding disjoint_from_def
proof (intro allI impI)
  fix i assume "i < n"
  then have i: "Suc l \<le> unat (a + of_nat (Suc i) - b)" using assms(1) unfolding disjoint_from_def by (metis Suc_mono)
  have "unat (a + of_nat (Suc i) - (b + 1)) = unat (a + of_nat (Suc i) - b) - 1"
    by (rule unat_sub_Suc) (use i in simp)
  then show "l \<le> unat (a + 1 + of_nat i - (b + 1))" using i by (simp add: add.assoc)
qed

lemma disjoint_from_part:
  assumes "disjoint_from a n b l" and "j + n' \<le> n" and "l' \<le> l"
  shows "disjoint_from (a + of_nat j) n' b l'"
  unfolding disjoint_from_def
proof (intro allI impI)
  fix i assume "i < n'"
  then have "l \<le> unat (a + of_nat (j + i) - b)" using assms(1,2) unfolding disjoint_from_def by (metis add_less_cancel_left order_less_le_trans)
  then show "l' \<le> unat (a + of_nat j + of_nat i - b)" using assms(3) by (simp add: add.assoc)
qed

lemma proper_string_loop_run:
  assumes "unat i + n = unat sz" and "0 < n" and "disjoint_from inp n out n"
  shows "proper_string_loop out inp i sz m
    = (out + of_nat (length (trim_name (load_bytes m inp n))), put_bytes out (trim_name (load_bytes m inp n)) m)"
  using assms
proof (induction n arbitrary: out inp i m)
  case (Suc n)
  let ?m = "m(out := m inp)"
  have sz: "unat (sz - 1) = unat sz - 1" using Suc.prems(1) by (intro unat_minus_one) auto
  show ?case
  proof (cases "m inp \<noteq> 0 \<and> m inp \<noteq> 0x20")
    case False
    then show ?thesis by (subst proper_string_loop.simps) (auto simp: load_bytes_Suc trim_name_def)
  next
    case True
    note char = True
    have stop: "sz - 1 \<le> i \<longleftrightarrow> n = 0" unfolding word_le_nat_alt sz using Suc.prems(1) by linarith
    have step: "proper_string_loop out inp i sz m
        = (if n = 0 then (out + 1, ?m) else proper_string_loop (out + 1) (inp + 1) (i + 1) sz ?m)"
      using True by (subst proper_string_loop.simps) (simp add: stop Let_def)
    show ?thesis
    proof (cases "n = 0")
      case True
      then show ?thesis using step char by (simp add: load_bytes_Suc trim_name_def load_bytes_def fun_upd_def)
    next
      case False
      have d: "disjoint_from (inp + 1) n (out + 1) n"
        by (rule disjoint_from_step [OF Suc.prems(3)]) (use Suc.prems(1) unat_bound32 [of sz] in linarith)
      have n4: "Suc n < 4294967296" using Suc.prems(1) unat_bound32 [of sz] by linarith
      have same: "same_bytes (inp + 1) n m ?m"
        unfolding same_bytes_def
      proof (intro allI impI)
        fix j assume "j < n"
        then have "Suc n \<le> unat (inp + of_nat (Suc j) - out)" using Suc.prems(3) unfolding disjoint_from_def by (metis Suc_mono)
        then have "inp + 1 + of_nat j \<noteq> out" by (auto simp: add.assoc)
        then show "m (inp + 1 + of_nat j) = ?m (inp + 1 + of_nat j)" by simp
      qed
      have "unat (i + 1) = unat i + 1"
        using Suc.prems(1) False unat_bound32 [of sz] by (simp add: unat_add32)
      then have "proper_string_loop (out + 1) (inp + 1) (i + 1) sz ?m
          = (out + 1 + of_nat (length (trim_name (load_bytes ?m (inp + 1) n))),
             put_bytes (out + 1) (trim_name (load_bytes ?m (inp + 1) n)) ?m)"
        by (intro Suc.IH d) (use Suc.prems(1) False in simp_all)
      then show ?thesis
        using step False char by (simp add: load_bytes_Suc [of m] trim_name_def load_bytes_cong [OF same, symmetric])
    qed
  qed
qed simp

lemma to_proper_string_run:
  assumes "0 < unat sz" and "disjoint_from inp (unat sz) out (unat sz)"
  shows "fat16_to_proper_string out inp sz m
    = (out + of_nat (length (trim_name (load_bytes m inp (unat sz)))), put_bytes out (trim_name (load_bytes m inp (unat sz)) @ [0]) m)"
  using proper_string_loop_run [of 0 "unat sz" sz inp out m] assms
  by (simp add: fat16_to_proper_string_def put_bytes_append)

lemma memset_put:
  assumes "length xs \<le> n" and "n < 4294967296"
  shows "put_bytes a xs (memset m a 0 (of_nat n)) = put_bytes a (xs @ replicate (n - length xs) 0) m"
proof
  fix x show "put_bytes a xs (memset m a 0 (of_nat n)) x = put_bytes a (xs @ replicate (n - length xs) 0) m x"
    using assms by (simp add: put_bytes_at memset_at unat_of_nat32 nth_append)
qed

lemma trim_name_length: "length (trim_name xs) \<le> length xs"
  by (simp add: trim_name_def length_takeWhile_le)

definition item_filename :: "mem \<Rightarrow> u32 \<Rightarrow> u8 list" where
  "item_filename m item = full_name (item_name (fat_directory_item_at m item)) (item_ext (fat_directory_item_at m item))"

lemma full_relative_filename_run:
  assumes "disjoint_from item 32 out 108"
  shows "fat16_get_full_relative_filename item out 108 m
    = put_bytes out (item_filename m item @ replicate (108 - length (item_filename m item)) 0) m"
proof -
  let ?M = "memset m out 0 108"
  let ?name = "trim_name (load_bytes m item 8)" and ?ext = "trim_name (load_bytes m (item + 8) 3)"
  have M: "?M = put_bytes out (replicate 108 0) m"
    using memset_put [of "[]" 108 out m] by simp
  have same: "same_bytes item 32 m (put_bytes out bs m)" if "length bs \<le> 108" for bs
    by (rule same_bytes_put) (use assms disjoint_from_shorter [OF assms that] that in simp_all)
  have ln: "length ?name \<le> 8" "length ?ext \<le> 3" using trim_name_length [of "load_bytes m item 8"] trim_name_length [of "load_bytes m (item + 8) 3"] by simp_all
  have d8: "disjoint_from item 8 out 8" using disjoint_from_part [OF assms, of 0 8 8] by simp
  have 1: "fat16_to_proper_string out item 8 ?M = (out + of_nat (length ?name), put_bytes out (?name @ [0]) ?M)"
    using to_proper_string_run [of 8 item out ?M] d8 load_bytes_numeral(2) [OF same, of "replicate 108 0" 8] by (simp add: M)
  let ?M1 = "put_bytes out (?name @ [0]) ?M"
  have M1: "?M1 = put_bytes out (?name @ [0] @ replicate (99 - length ?name + 8) 0) m"
    using memset_put [of "?name @ [0]" 108 out m] ln by simp
  have same1: "same_bytes item 32 m ?M1" unfolding M1 by (rule same) (use ln in simp)
  have ext0: "?M1 (item + 8) = load_bytes m (item + 8) 3 ! 0"
    using same_bytes_numeral(1) [OF same1, of "num.Bit0 (num.Bit0 (num.Bit0 num.One))"] by (simp add: load_bytes_def)
  let ?M2 = "?M1(out + of_nat (length ?name) := 0x2E)"
  have M2: "?M2 = put_bytes out (?name @ [0x2E]) ?M" by (simp add: put_bytes_append)
  have M2': "?M2 = put_bytes out (?name @ [0x2E] @ replicate (99 - length ?name + 8) 0) m"
    unfolding M2 using memset_put [of "?name @ [0x2E]" 108 out m] ln by simp
  have same2: "same_bytes item 32 m ?M2" unfolding M2' by (rule same) (use ln in simp)
  have d3: "disjoint_from (item + 8) 3 (out + of_nat (length ?name) + 1) 3"
  proof -
    have "disjoint_from item 32 (out + of_nat (Suc (length ?name))) (108 - Suc (length ?name))"
      by (rule disjoint_from_rest [OF assms]) (use ln in simp_all)
    then show ?thesis using disjoint_from_part [of item 32 _ _ 8 3 3] ln by (simp add: ac_simps)
  qed
  have 2: "fat16_to_proper_string (out + of_nat (length ?name) + 1) (item + 8) 3 ?M2
      = (out + of_nat (length ?name) + 1 + of_nat (length ?ext), put_bytes (out + of_nat (length ?name) + 1) (?ext @ [0]) ?M2)"
    using to_proper_string_run [of 3 "item + 8" "out + of_nat (length ?name) + 1" ?M2] d3 load_bytes_numeral(1) [OF same2, of "num.Bit0 (num.Bit0 (num.Bit0 num.One))" 3]
    by simp
  have all: "put_bytes (out + of_nat (length ?name) + 1) (?ext @ [0]) ?M2 = put_bytes out ((?name @ [0x2E] @ ?ext) @ [0]) ?M"
    unfolding M2 by (simp add: put_bytes_append)
  have fin: "put_bytes out (xs @ [0]) ?M = put_bytes out (xs @ replicate (108 - length xs) 0) m" if "length xs < 108" for xs
  proof -
    have "[0] @ replicate (108 - length (xs @ [0])) 0 = (replicate (108 - length xs) 0 :: u8 list)"
      using that by (cases "108 - length xs") simp_all
    then show ?thesis using memset_put [of "xs @ [0]" 108 out m] that by simp
  qed
  have c: "as_u32 108 = 108" by (simp add: as_u32_def)
  have body: "fat16_get_full_relative_filename item out 108 m = (if ?M1 (item + 8) \<noteq> 0 \<and> ?M1 (item + 8) \<noteq> 0x20
      then snd (fat16_to_proper_string (out + of_nat (length ?name) + 1) (item + 8) 3 ?M2) else ?M1)"
    by (simp only: fat16_get_full_relative_filename_def Let_def c 1 prod.case)
  have name: "item_filename m item = ?name @ (if ?M1 (item + 8) \<noteq> 0 \<and> ?M1 (item + 8) \<noteq> 0x20 then 0x2E # ?ext else [])"
    unfolding ext0 by (simp add: item_filename_def full_name_def fat_directory_item_at_def)
  show ?thesis
  proof (cases "?M1 (item + 8) \<noteq> 0 \<and> ?M1 (item + 8) \<noteq> 0x20")
    case True
    then have "item_filename m item = ?name @ [0x2E] @ ?ext" using name by simp
    then show ?thesis using ln fin [of "?name @ [0x2E] @ ?ext"] unfolding body if_P [OF True] 2 snd_conv all by simp
  next
    case False
    then have "item_filename m item = ?name" using name by simp
    then show ?thesis using ln fin [of ?name] unfolding body if_not_P [OF False] by simp
  qed
qed

lemma cstr_put:
  assumes "0 \<notin> set xs" and "length xs < n" and "n \<le> 4294967296"
  shows "cstr (put_bytes a (xs @ replicate (n - length xs) 0) m) a xs"
proof -
  have at: "put_bytes a (xs @ replicate (n - length xs) 0) m (a + of_nat i) = (xs @ replicate (n - length xs) 0) ! i"
    if "i < n" for i
    using that assms by (simp add: put_bytes_at unat_of_nat32)
  have "xs ! i \<noteq> 0" if "i < length xs" for i using assms(1) nth_mem [OF that] by metis
  then show ?thesis using at assms(2) by (auto simp: cstr_iff nth_append)
qed

lemma item_filename_ok: "0 \<notin> set (item_filename m item)" "length (item_filename m item) < 108"
proof -
  have "0 \<notin> set (trim_name xs)" for xs by (auto simp: trim_name_def dest: set_takeWhileD)
  then show "0 \<notin> set (item_filename m item)" by (auto simp: item_filename_def full_name_def)
  show "length (item_filename m item) < 108"
    using trim_name_length [of "load_bytes m item 8"] trim_name_length [of "load_bytes m (item + 8) 3"]
    by (simp add: item_filename_def full_name_def fat_directory_item_at_def)
qed

text \<open>
  \<open>fat16_get_full_relative_filename\<close> leaves the item's name in the buffer as a string: the name up to its
  padding and, if there is an extension, a dot and the extension; it writes nothing outside the buffer.
\<close>
theorem full_relative_filename_spec:
  assumes "disjoint_from item 32 out 108"
  shows "cstr (fat16_get_full_relative_filename item out 108 m) out
      (full_name (item_name (fat_directory_item_at m item)) (item_ext (fat_directory_item_at m item)))
    \<and> (\<forall>x. 108 \<le> unat (x - out) \<longrightarrow> fat16_get_full_relative_filename item out 108 m x = m x)"
  using item_filename_ok [of m item] full_relative_filename_run [OF assms, of m]
  by (simp_all add: cstr_put put_bytes_at item_filename_def)

subsection \<open>The length of a directory\<close>

lemma read_on:
  fixes k :: "'a io_state_scheme"
  assumes "stream_disk (streams k st) = disk_addr k" and "ata_responsive (drive k)"
    and "pos (streams k st) = int p" and "p + n < 2147483648"
  shows "\<exists>k'. diskstreamer_read st (int n) k = Some (0, img_slice (ata_image (drive k)) p n, k') \<and> advanced k (ram k) k'
      \<and> pos (streams k' st) = int (p + n)"
proof -
  have "snd (diskstreamer_seek st (int p) k) = k"
    using assms(3) by (cases k) (auto simp: diskstreamer_seek_def)
  then show ?thesis using seek_read [OF assms(1,2,4)] by simp
qed

definition entry_mark :: "'a io_state_scheme \<Rightarrow> nat \<Rightarrow> nat \<Rightarrow> u8" where
  \<comment> \<open>the first byte of the \<open>i\<close>-th item of the directory that begins at byte \<open>p\<close> of the disk\<close>
  "entry_mark k p i = ata_image (drive k) (p + 32 * i)"

definition used_items :: "'a io_state_scheme \<Rightarrow> nat \<Rightarrow> nat \<Rightarrow> nat" where
  "used_items k p n = length (filter (\<lambda>i. entry_mark k p i \<noteq> 0xE5) [0..<n])"

lemma used_items_Suc:
  "used_items k p (Suc n) = (if entry_mark k p 0 = 0xE5 then 0 else 1) + used_items k (p + 32) n"
proof -
  have "[0..<Suc n] = 0 # map Suc [0..<n]" by (simp add: upt_conv_Cons map_Suc_upt del: upt_Suc)
  moreover have "entry_mark k p (Suc i) = entry_mark k (p + 32) i" for i by (simp add: entry_mark_def add.assoc)
  ultimately show ?thesis by (simp add: used_items_def filter_map comp_def del: upt_Suc)
qed

lemma count_items_run:
  fixes k :: "'a io_state_scheme"
  assumes "stream_disk (streams k st) = disk_addr k" and "ata_responsive (drive k)" and "pos (streams k st) = int p"
    and "\<forall>i < n. entry_mark k p i \<noteq> 0" and "entry_mark k p n = 0" and "p + 32 * n + 32 < 2147483648"
  shows "\<exists>k'. count_items_loop st c k = Some (c + int (used_items k p n), k') \<and> advanced k (ram k) k'"
  using assms
proof (induction n arbitrary: k p c)
  case 0
  from read_on [OF "0.prems"(1-3), of 32] "0.prems"(6) obtain k'
    where k': "diskstreamer_read st 32 k = Some (0, img_slice (ata_image (drive k)) p 32, k')" "advanced k (ram k) k'" by auto
  have "img_slice (ata_image (drive k)) p 32 ! 0 = 0" using "0.prems"(5) by (simp add: img_slice_def entry_mark_def)
  then show ?case using k' by (subst count_items_loop.simps) (simp add: used_items_def)
next
  case (Suc n)
  from read_on [OF Suc.prems(1-3), of 32] Suc.prems(6) obtain k1
    where k1: "diskstreamer_read st 32 k = Some (0, img_slice (ata_image (drive k)) p 32, k1)" "advanced k (ram k) k1"
      "pos (streams k1 st) = int (p + 32)" by auto
  have first: "img_slice (ata_image (drive k)) p 32 ! 0 = entry_mark k p 0" "entry_mark k p 0 \<noteq> 0"
    using Suc.prems(4) by (simp_all add: img_slice_def entry_mark_def, force)
  have marks: "entry_mark k1 (p + 32) i = entry_mark k p (Suc i)" for i
    using advancedD(4) [OF k1(2)] by (simp add: entry_mark_def add.assoc)
  have used: "used_items k1 (p + 32) n = used_items k (p + 32) n"
    using advancedD(4) [OF k1(2)] by (simp add: used_items_def entry_mark_def)
  have ih: "\<exists>k'. count_items_loop st c' k1 = Some (c' + int (used_items k1 (p + 32) n), k') \<and> advanced k1 (ram k1) k'" for c'
  proof (rule Suc.IH)
    show "stream_disk (streams k1 st) = disk_addr k1" using Suc.prems(1) advancedD [OF k1(2)] by simp
    show "ata_responsive (drive k1)" by (rule advancedD(5) [OF k1(2)])
    show "\<forall>i<n. entry_mark k1 (p + 32) i \<noteq> 0" using Suc.prems(4) by (simp add: marks)
    show "entry_mark k1 (p + 32) n = 0" using Suc.prems(5) by (simp add: marks)
  qed (use k1(3) Suc.prems(6) in simp_all)
  have ram: "ram k1 = ram k" by (rule advancedD(1) [OF k1(2)])
  let ?c = "if entry_mark k p 0 = 0xE5 then c else c + 1"
  have "count_items_loop st c k = count_items_loop st ?c k1"
    using first by (subst count_items_loop.simps) (simp add: k1(1))
  moreover obtain k' where "count_items_loop st ?c k1 = Some (?c + int (used_items k (p + 32) n), k')" "advanced k1 (ram k1) k'"
    using ih [of ?c] unfolding used by blast
  moreover have "?c + int (used_items k (p + 32) n) = c + int (used_items k p (Suc n))" by (simp add: used_items_Suc)
  ultimately show ?case using advanced_trans [OF k1(2)] unfolding ram by metis
qed

lemma total_items_run:
  fixes k :: "'a io_state_scheme"
  assumes m: "mounted k" and first: "\<forall>i < n. entry_mark k (512 * s) i \<noteq> 0" "entry_mark k (512 * s) n = 0"
    and bound: "512 * s + 32 * n + 32 < 2147483648"
  shows "\<exists>k'. fat16_get_total_items_for_directory (of_nat s) k = Some (int (used_items k (512 * s) n), k')
    \<and> advanced k (ram k) k'"
proof -
  let ?st = "directory_stream (the_private k)"
  let ?k = "snd (diskstreamer_seek ?st (int (512 * s)) k)"
  have adv: "advanced k (ram k) ?k" by (rule seek_advanced [OF mountedD(1) [OF m]])
  have "of_nat s * as_u32 512 = (of_nat (512 * s) :: u32)" by (simp add: as_u32_def)
  then have start: "as_int (of_nat s * as_u32 (sector_size (the_disk k))) = int (512 * s)"
    unfolding mountedD(2) [OF m] using bound by (simp only: as_int_of_nat)
  have img: "entry_mark ?k = entry_mark k" by (simp add: fun_eq_iff entry_mark_def diskstreamer_seek_def)
  have eq: "fat16_get_total_items_for_directory (of_nat s) k = count_items_loop ?st 0 ?k"
    unfolding fat16_get_total_items_for_directory_def Let_def start by (simp add: diskstreamer_seek_def)
  have "\<exists>k'. count_items_loop ?st 0 ?k = Some (0 + int (used_items ?k (512 * s) n), k') \<and> advanced ?k (ram ?k) k'"
  proof (rule count_items_run)
    show "stream_disk (streams ?k ?st) = disk_addr ?k" using mountedD(7) [OF m] advancedD [OF adv] by simp
    show "ata_responsive (drive ?k)" by (rule advancedD(5) [OF adv])
    show "pos (streams ?k ?st) = int (512 * s)" by (simp add: diskstreamer_seek_def)
    show "\<forall>i<n. entry_mark ?k (512 * s) i \<noteq> 0" "entry_mark ?k (512 * s) n = 0"
      unfolding img by (rule first)+
  qed (rule bound)
  moreover have "used_items ?k (512 * s) n = used_items k (512 * s) n"
    unfolding used_items_def img ..
  ultimately obtain k' where k': "count_items_loop ?st 0 ?k = Some (int (used_items k (512 * s) n), k')" "advanced ?k (ram ?k) k'"
    by auto
  have "advanced k (ram k) k'" using advanced_trans [OF adv k'(2)] advancedD(1) [OF adv] by simp
  then show ?thesis using eq k'(1) by simp
qed

text \<open>
  C34: the scan of a directory ends and counts its items.  If the \<open>n\<close>-th item is the first whose name begins with a
  zero byte, \<open>fat16_get_total_items_for_directory\<close> returns the number of items before it that are not marked
  deleted; memory is untouched.
\<close>
theorem total_items_spec:
  fixes k :: "'a io_state_scheme"
  assumes m: "mounted k" and first: "\<forall>i < n. entry_mark k (512 * s) i \<noteq> 0" "entry_mark k (512 * s) n = 0"
    and bound: "512 * s + 32 * n + 32 < 2147483648"
  shows "\<exists>k'. fat16_get_total_items_for_directory (of_nat s) k = Some (int (used_items k (512 * s) n), k') \<and> ram k' = ram k"
  using total_items_run [OF assms] advancedD(1) by blast

theorem full_relative_filename_spec_witness:
  "cstr (fat16_get_full_relative_filename 0x2200 0x3000 108 (\<lambda>a. if a = 0x2200 then 0x41 else 0x20)) 0x3000 [0x41]"
proof -
  let ?m = "(\<lambda>a. if a = 0x2200 then 0x41 else 0x20) :: mem"
  have "disjoint_from 0x2200 32 0x3000 108" by (rule disjoint_from_below) simp_all
  moreover have "full_name (item_name (fat_directory_item_at ?m 0x2200)) (item_ext (fat_directory_item_at ?m 0x2200)) = [0x41]"
    by (simp add: full_name_def trim_name_def fat_directory_item_at_def load_bytes_def upt_rec)
  ultimately show ?thesis using full_relative_filename_spec [of "0x2200" "0x3000" ?m] by simp
qed

theorem total_items_spec_witness:
  "\<exists>k'. fat16_get_total_items_for_directory 8 (fat_test\<lparr>drive := (drive fat_test)\<lparr>ata_image :=
      (\<lambda>n. if n = 4096 \<or> n = 4160 then 0x41 else if n = 4128 then 0xE5 else 0)\<rparr>\<rparr>) = Some (2, k')"
proof -
  let ?k = "fat_test\<lparr>drive := (drive fat_test)\<lparr>ata_image := (\<lambda>n. if n = 4096 \<or> n = 4160 then 0x41 else if n = 4128 then 0xE5 else 0)\<rparr>\<rparr>"
  have same: "the_private ?k = the_private fat_test" by (simp add: the_private_def)
  have "mounted ?k"
    using fat_test_mounted unfolding mounted_def same by (simp add: ata_responsive_def)
  moreover have "\<forall>i<3. entry_mark ?k (512 * 8) i \<noteq> 0"
  proof (intro allI impI)
    fix i :: nat assume "i < 3"
    then have "i = 0 \<or> i = 1 \<or> i = 2" by linarith
    then show "entry_mark ?k (512 * 8) i \<noteq> 0" by (auto simp: entry_mark_def)
  qed
  moreover have "entry_mark ?k (512 * 8) 3 = 0" by (simp add: entry_mark_def)
  moreover have "used_items ?k (512 * 8) 3 = 2" by (simp add: used_items_def upt_rec entry_mark_def)
  ultimately show ?thesis using total_items_spec [of ?k 3 8] by auto
qed

end
