(* ===== verification/FatOpen.thy ===== *)
theory FatOpen
  imports FatDir
begin

text \<open>
  Opening and closing a file in \<^verbatim>\<open>fat16.c\<close>: the item a name selects in a directory, the three heap objects
  an open file consists of, and their release.
\<close>

subsection \<open>Writing into heap blocks and into the stack\<close>

definition stable_bytes :: "(nat \<rightharpoonup> nat) \<Rightarrow> u32 \<Rightarrow> nat \<Rightarrow> bool" where
  "stable_bytes A a n \<longleftrightarrow> (\<forall>i < n. stable A (a + of_nat i))"

lemma stable_bytes_upd: "A b = None \<Longrightarrow> stable_bytes A a n \<Longrightarrow> stable_bytes (A(b \<mapsto> l)) a n"
  by (simp add: stable_bytes_def stable_upd)

lemma stable_bytes_block: "kheap_rep k A \<Longrightarrow> A b = Some 1 \<Longrightarrow> n \<le> 4096 \<Longrightarrow> stable_bytes A (blk_addr b) n"
  by (simp add: stable_bytes_def stable_block)

lemma kheap_rep_table:
  assumes "kheap_rep k A" and "\<And>i. i < 25600 \<Longrightarrow> m' (0x7E00 + of_nat i) = ram k (0x7E00 + of_nat i)"
  shows "kheap_rep (k\<lparr>ram := m'\<rparr>) A"
proof -
  have "heap_rep kernel_table m' A"
    by (rule heap_rep_cong [OF kheap_repD(2) [OF assms(1)]]) (simp add: entry_at_def kernel_table_def assms(2))
  then show ?thesis using kheap_repD(1) [OF assms(1)] by (simp add: kheap_rep_def)
qed

definition in_block :: "nat \<Rightarrow> mem \<Rightarrow> mem \<Rightarrow> bool" where
  \<comment> \<open>the two memories differ at most in block \<open>b\<close>\<close>
  "in_block b m m' \<longleftrightarrow> (\<forall>x. 4096 \<le> unat (x - blk_addr b) \<longrightarrow> m' x = m x)"

lemma in_block_refl [simp]: "in_block b m m" by (simp add: in_block_def)

lemma in_block_trans: "in_block b m m' \<Longrightarrow> in_block b m' m'' \<Longrightarrow> in_block b m m''"
  by (simp add: in_block_def)

lemma in_block_put:
  assumes "j + length bs \<le> 4096"
  shows "in_block b m (put_bytes (blk_addr b + of_nat j) bs m)"
  unfolding in_block_def
proof (intro allI impI)
  fix x assume x: "4096 \<le> unat (x - blk_addr b)"
  have j: "unat (of_nat j :: u32) = j" using assms by (simp add: unat_of_nat32)
  have "unat (x - blk_addr b - of_nat j) = unat (x - blk_addr b) - j"
    using x assms by (simp only: unat_sub32 [of "x - blk_addr b" "of_nat j"] j) simp
  then have "\<not> unat (x - (blk_addr b + of_nat j)) < length bs" using x assms by (simp add: diff_diff_eq)
  then show "put_bytes (blk_addr b + of_nat j) bs m x = m x" using assms by (simp add: put_bytes_at)
qed

lemma in_block_store32: "j + 4 \<le> 4096 \<Longrightarrow> in_block b m (store32 m (blk_addr b + of_nat j) v)"
  unfolding store32_put by (rule in_block_put) simp

lemma in_block_rep:
  assumes "kheap_rep k A" and "b < 25600" and "in_block b (ram k) m'"
  shows "kheap_rep (k\<lparr>ram := m'\<rparr>) A"
proof (rule kheap_rep_table [OF assms(1)])
  fix i assume i: "i < (25600 :: nat)"
  have "4096 \<le> unat (0x7E00 + of_nat i - blk_addr b)"
    using table_cell_low [OF i] unat_blk_addr [OF assms(2)] i assms(2) by (simp add: unat_sub32)
  then show "m' (0x7E00 + of_nat i) = ram k (0x7E00 + of_nat i)" using assms(3) unfolding in_block_def by blast
qed

lemma in_block_stable:
  assumes "in_block b m m'" and "stable_bytes A a n" and "\<not> covered A b" and "b < 25600"
  shows "same_bytes a n m m'"
  using assms by (simp add: in_block_def same_bytes_def stable_bytes_def stable_def)

lemma in_block_other:
  assumes "in_block b m m'" and "c \<noteq> b" and "b < 25600" and "c < 25600" and "n \<le> 4096"
  shows "same_bytes (blk_addr c) n m m'"
  using assms other_block_byte [of c b] by (simp add: in_block_def same_bytes_def)

lemma memcpy_put:
  assumes "disjoint_from s n d n" and "n < 4294967296"
  shows "memcpy m d s (int n) = put_bytes d (load_bytes m s n) m"
proof
  fix x
  have n: "unat (as_u32 (int n)) = n" using assms(2) by (simp add: unat_of_nat32)
  show "memcpy m d s (int n) x = put_bytes d (load_bytes m s n) m x"
  proof (cases "n = 0")
    case True
    then show ?thesis by (simp add: memcpy_def as_u32_def load_bytes_def)
  next
    case False
    have "n \<le> unat (s - d)" using assms(1) [unfolded disjoint_from_def, rule_format, of 0] False by simp
    have apart: "s = d \<or> n \<le> unat (d - s)"
    proof (rule disjI2, rule ccontr)
      assume "\<not> n \<le> unat (d - s)"
      then have "unat (d - s) < n" by simp
      then have "n \<le> unat (s + of_nat (unat (d - s)) - d)" using assms(1) unfolding disjoint_from_def by blast
      then show False using False by simp
    qed
    then have "d = s \<or> unat (as_u32 (int n)) \<le> unat (d - s)" unfolding n by auto
    from memcpy_at [OF this] show ?thesis
      using assms(2) unfolding n by (simp add: put_bytes_at load_bytes_def)
  qed
qed

subsection \<open>The objects of an open file\<close>

definition copied :: "u32 \<Rightarrow> mem \<Rightarrow> u32 \<Rightarrow> mem \<Rightarrow> nat \<Rightarrow> bool" where
  "copied q m' p m n \<longleftrightarrow> (\<forall>i < n. m' (q + of_nat i) = m (p + of_nat i))"

lemma copied_loads:
  "copied q m' p m n \<Longrightarrow> numeral w < n \<Longrightarrow> m' (q + numeral w) = m (p + numeral w)"
  "copied q m' p m n \<Longrightarrow> 0 < n \<Longrightarrow> m' q = m p"
  "copied q m' p m n \<Longrightarrow> numeral w + l \<le> n \<Longrightarrow> load_bytes m' (q + numeral w) l = load_bytes m (p + numeral w) l"
  "copied q m' p m n \<Longrightarrow> l \<le> n \<Longrightarrow> load_bytes m' q l = load_bytes m p l"
proof -
  assume c: "copied q m' p m n"
  show "numeral w < n \<Longrightarrow> m' (q + numeral w) = m (p + numeral w)"
    using c [unfolded copied_def, rule_format, of "numeral w"] by simp
  show "0 < n \<Longrightarrow> m' q = m p" using c [unfolded copied_def, rule_format, of 0] by simp
  show "numeral w + l \<le> n \<Longrightarrow> load_bytes m' (q + numeral w) l = load_bytes m (p + numeral w) l"
  proof (unfold load_bytes_def, rule map_cong [OF refl])
    fix i assume "numeral w + l \<le> n" "i \<in> set [0..<l]"
    then show "m' (q + numeral w + of_nat i) = m (p + numeral w + of_nat i)"
      using c [unfolded copied_def, rule_format, of "numeral w + i"] by (simp add: add.assoc)
  qed
  show "l \<le> n \<Longrightarrow> load_bytes m' q l = load_bytes m p l"
    using c by (simp add: load_bytes_def copied_def)
qed

lemma fat_directory_item_at_copied:
  assumes "copied q m' p m 32"
  shows "fat_directory_item_at m' q = fat_directory_item_at m p"
  by (simp add: fat_directory_item_at_def load32_def load16_def add.assoc copied_loads [OF assms])

lemma block_store_other:
  assumes "j + 4 \<le> i" and "i < 4096"
  shows "store32 m (blk_addr b + of_nat j) v (blk_addr b + of_nat i) = m (blk_addr b + of_nat i)"
proof -
  have "blk_addr b + of_nat i - (blk_addr b + of_nat j) = of_nat (i - j)" using assms by simp
  then show ?thesis using assms by (intro store32_other) (simp add: unat_of_nat32 del: of_nat_diff)
qed

lemma block_store_below:
  assumes "i < j" and "j < 4096"
  shows "store32 m (blk_addr b + of_nat j) v (blk_addr b + of_nat i) = m (blk_addr b + of_nat i)"
proof (rule store32_other)
  have "unat (of_nat i - of_nat j :: u32) = i + 4294967296 - j"
    using assms by (simp add: unat_sub32 unat_of_nat32)
  then show "4 \<le> unat (blk_addr b + of_nat i - (blk_addr b + of_nat j))" using assms by simp
qed

lemma new_file_item:
  fixes k :: "'a io_state_scheme"
  assumes rep: "kheap_rep k A" and free: "2 \<le> free_blocks 25600 A" and st: "stable_bytes A item 32"
    and plain: "attribute (fat_directory_item_at (ram k) item) AND FAT_FILE_SUBDIRECTORY = 0"
  shows "\<exists>f c k'. fat16_new_fat_item_for_directory_item item k = Some (blk_addr f, k')
    \<and> f < 25600 \<and> c < 25600 \<and> f \<noteq> c \<and> A f = None \<and> A c = None
    \<and> kheap_rep k' (A(f \<mapsto> 1, c \<mapsto> 1)) \<and> kmem.more k' = kmem.more k
    \<and> fat_item_at (ram k') (blk_addr f) = \<lparr>item_ptr = blk_addr c, item_type = FAT_ITEM_TYPE_FILE\<rparr>
    \<and> fat_directory_item_at (ram k') (blk_addr c) = fat_directory_item_at (ram k) item
    \<and> (\<forall>a. stable A a \<longrightarrow> ram k' a = ram k a)"
proof -
  obtain f k1 where k1: "kzalloc 8 k = (blk_addr f, k1)" "f < 25600" "A f = None" "\<not> covered A f"
    "kheap_rep k1 (A(f \<mapsto> 1))" "free_blocks 25600 A = Suc (free_blocks 25600 (A(f \<mapsto> 1)))"
    "\<And>a. 25600 \<le> unat (a - 0x7E00) \<Longrightarrow> 4096 \<le> unat (a - blk_addr f) \<Longrightarrow> ram k1 a = ram k a"
    "kmem.more k1 = kmem.more k"
    by (rule page_alloc [OF rep, of 8]) (use free in auto)
  let ?A1 = "A(f \<mapsto> 1)"
  let ?m2 = "store32 (ram k1) (blk_addr f + of_nat 4) 1"
  let ?k2 = "k1\<lparr>ram := ?m2\<rparr>"
  have b2: "in_block f (ram k1) ?m2" by (rule in_block_store32) simp
  have rep2: "kheap_rep ?k2 ?A1" by (rule in_block_rep [OF k1(5,2) b2])
  have old2: "?m2 a = ram k a" if "stable A a" for a
    using that k1(2,4,7) b2 by (simp add: stable_def in_block_def)
  obtain c k3 where k3: "kzalloc 32 ?k2 = (blk_addr c, k3)" "c < 25600" "?A1 c = None" "\<not> covered ?A1 c"
    "kheap_rep k3 (?A1(c \<mapsto> 1))" "free_blocks 25600 ?A1 = Suc (free_blocks 25600 (?A1(c \<mapsto> 1)))"
    "\<And>a. 25600 \<le> unat (a - 0x7E00) \<Longrightarrow> 4096 \<le> unat (a - blk_addr c) \<Longrightarrow> ram k3 a = ?m2 a"
    "kmem.more k3 = kmem.more ?k2"
    by (rule page_alloc [OF rep2, of 32]) (use free k1(6) in auto)
  have fc: "f \<noteq> c" "A c = None" using k3(3) by (auto split: if_splits)
  have keep3: "ram k3 a = ?m2 a" if "stable ?A1 a" for a using that k3(2,4,7) by (simp add: stable_def)
  have old3: "ram k3 a = ram k a" if "stable A a" for a
    using keep3 [OF stable_upd [of A f, OF k1(3) that]] old2 [OF that] by simp
  let ?m4 = "memcpy (ram k3) (blk_addr c) item 32"
  have st3: "stable ?A1 (item + of_nat i)" if "i < 32" for i
    using that st by (simp add: stable_bytes_def stable_upd [of A f, OF k1(3)])
  have "disjoint_from item 32 (blk_addr c) 32"
    unfolding disjoint_from_def
  proof (intro allI impI)
    fix i :: nat assume "i < 32"
    then have "4096 \<le> unat (item + of_nat i - blk_addr c)" using st3 k3(2,4) by (simp add: stable_def)
    then show "32 \<le> unat (item + of_nat i - blk_addr c)" by simp
  qed
  from memcpy_put [OF this, of "ram k3"] have m4: "?m4 = put_bytes (blk_addr c) (load_bytes (ram k3) item 32) (ram k3)" by simp
  have b4: "in_block c (ram k3) ?m4"
    using in_block_put [of 0 "load_bytes (ram k3) item 32" c "ram k3"] unfolding m4 by simp
  let ?m5 = "store32 ?m4 (blk_addr f + of_nat 0) (blk_addr c)"
  have b5: "in_block f ?m4 ?m5" by (rule in_block_store32) simp
  let ?k5 = "k3\<lparr>ram := ?m5\<rparr>"
  have rep5: "kheap_rep ?k5 (?A1(c \<mapsto> 1))"
    using in_block_rep [OF in_block_rep [OF k3(5,2) b4] k1(2)] b5 by simp
  have item1: "fat_directory_item_at (ram k1) item = fat_directory_item_at (ram k) item"
    using st k1(2,4,7) by (intro fat_directory_item_at_same) (simp add: same_bytes_def stable_bytes_def stable_def)
  have nz: "blk_addr f \<noteq> 0" "blk_addr c \<noteq> 0" using k1(2) k3(2) by (simp_all add: blk_addr_nonzero)
  have run: "fat16_new_fat_item_for_directory_item item k = Some (blk_addr f, ?k5)"
    using nz plain k3(1) by (simp add: fat16_new_fat_item_for_directory_item_def k1(1) item1 poke32_def
        fat16_clone_directory_item_def as_u32_def)
  have c_blk: "ram k3 (blk_addr f + of_nat i) = ?m2 (blk_addr f + of_nat i)" if "i < 4096" for i
    using that stable_block [OF k1(5), of f i] by (intro keep3) simp
  have m5_f: "?m5 (blk_addr f + of_nat i) = ?m2 (blk_addr f + of_nat i)" if "4 \<le> i" "i < 4096" for i
  proof -
    have "?m4 (blk_addr f + of_nat i) = ram k3 (blk_addr f + of_nat i)"
      using b4 other_block_byte [OF fc(1) k1(2) k3(2) that(2)] by (simp add: in_block_def)
    then show ?thesis using block_store_other [of 0 i ?m4 f] that c_blk by simp
  qed
  have "load32 ?m5 (blk_addr f + of_nat 4) = load32 ?m2 (blk_addr f + of_nat 4)"
    using m5_f [of 4] m5_f [of 5] m5_f [of 6] m5_f [of 7] by (intro load32_cong) (simp_all add: add.assoc)
  then have item_f: "fat_item_at ?m5 (blk_addr f) = \<lparr>item_ptr = blk_addr c, item_type = FAT_ITEM_TYPE_FILE\<rparr>"
    using load32_store32_same [of ?m4 "blk_addr f" "blk_addr c"] load32_store32_same [of "ram k1" "blk_addr f + 4" 1]
    by (simp add: fat_item_at_def)
  have "copied (blk_addr c) ?m5 item (ram k) 32"
    unfolding copied_def
  proof (intro allI impI)
    fix i :: nat assume i: "i < 32"
    have "?m5 (blk_addr c + of_nat i) = ?m4 (blk_addr c + of_nat i)"
      using b5 other_block_byte [of c f i] fc k1(2) k3(2) i by (simp add: in_block_def)
    also have "\<dots> = ram k3 (item + of_nat i)" using i unfolding m4 by (simp add: put_bytes_at unat_of_nat32 load_bytes_def)
    also have "\<dots> = ram k (item + of_nat i)" using st i by (intro old3) (simp add: stable_bytes_def)
    finally show "?m5 (blk_addr c + of_nat i) = ram k (item + of_nat i)" .
  qed
  then have item_c: "fat_directory_item_at ?m5 (blk_addr c) = fat_directory_item_at (ram k) item"
    by (rule fat_directory_item_at_copied)
  have old: "?m5 a = ram k a" if "stable A a" for a
  proof -
    have "stable ?A1 a" by (rule stable_upd [of A f, OF k1(3) that])
    then have "4096 \<le> unat (a - blk_addr c)" "4096 \<le> unat (a - blk_addr f)"
      using that k1(2,4) k3(2,4) by (simp_all add: stable_def)
    then show ?thesis using b4 b5 old3 [OF that] by (simp add: in_block_def)
  qed
  show ?thesis
    by (intro exI [of _ f] exI [of _ c] exI [of _ ?k5])
      (use run k1(2,3,8) k3(2,8) fc rep5 item_f item_c old in simp)
qed

subsection \<open>Looking a name up\<close>

definition name_matches :: "mem \<Rightarrow> u32 \<Rightarrow> nat \<Rightarrow> u8 list \<Rightarrow> bool" where
  \<comment> \<open>the \<open>i\<close>-th item of the array \<open>D\<close> has the name, up to the case of letters\<close>
  "name_matches m D i nm \<longleftrightarrow> map tolower (item_filename m (D + of_nat (32 * i))) = map tolower nm"

text \<open>
  \<open>directory_ok k A tmp d D N np nm\<close>: \<open>d\<close> is a directory of \<open>N\<close> items at \<open>D\<close>, \<open>nm\<close> the string at \<open>np\<close>; these lie
  apart from the stack buffer \<open>tmp\<close> and from the free blocks of the heap.
\<close>

definition directory_ok :: "'a kmem_scheme \<Rightarrow> (nat \<rightharpoonup> nat) \<Rightarrow> u32 \<Rightarrow> u32 \<Rightarrow> u32 \<Rightarrow> nat \<Rightarrow> u32 \<Rightarrow> u8 list \<Rightarrow> bool" where
  "directory_ok k A tmp d D N np nm \<longleftrightarrow> kheap_rep k A
     \<and> dir_item (fat_directory_at (ram k) d) = D \<and> dir_total (fat_directory_at (ram k) d) = int N
     \<and> cstr (ram k) np nm \<and> length nm < 108 \<and> 32 * N < 2147483648
     \<and> disjoint_from 0x7E00 25600 tmp 108 \<and> disjoint_from d 16 tmp 108 \<and> disjoint_from D (32 * N) tmp 108
     \<and> disjoint_from np (Suc (length nm)) tmp 108
     \<and> stable_bytes A d 16 \<and> stable_bytes A D (32 * N) \<and> stable_bytes A np (Suc (length nm))"

lemma directory_okD:
  assumes "directory_ok k A tmp d D N np nm"
  shows "kheap_rep k A" "dir_item (fat_directory_at (ram k) d) = D" "dir_total (fat_directory_at (ram k) d) = int N"
    "cstr (ram k) np nm" "length nm < 108" "32 * N < 2147483648" "disjoint_from 0x7E00 25600 tmp 108"
    "disjoint_from d 16 tmp 108" "disjoint_from D (32 * N) tmp 108" "disjoint_from np (Suc (length nm)) tmp 108"
    "stable_bytes A d 16" "stable_bytes A D (32 * N)" "stable_bytes A np (Suc (length nm))"
  using assms unfolding directory_ok_def by blast+

lemma fat_directory_at_same:
  assumes "same_bytes d 16 m m'"
  shows "fat_directory_at m d = fat_directory_at m' d"
  by (simp add: fat_directory_at_def load32_def add.assoc same_loads [OF assms])

lemma cstr_same: "cstr m p s \<Longrightarrow> same_bytes p (Suc (length s)) m m' \<Longrightarrow> cstr m' p s"
  by (simp add: cstr_iff same_bytes_def)

lemma directory_ok_keep:
  assumes "directory_ok k A tmp d D N np nm" and "kheap_rep k' A'"
    and "same_bytes d 16 (ram k) (ram k')" "same_bytes np (Suc (length nm)) (ram k) (ram k')"
    and "\<And>a n. stable_bytes A a n \<Longrightarrow> stable_bytes A' a n"
  shows "directory_ok k' A' tmp d D N np nm"
  using directory_okD [OF assms(1)] assms(2) fat_directory_at_same [OF assms(3)] cstr_same [OF _ assms(4)] assms(5)
  unfolding directory_ok_def by metis

lemma item_filename_same: "same_bytes item 32 m m' \<Longrightarrow> item_filename m item = item_filename m' item"
  by (simp add: item_filename_def fat_directory_item_at_same)

lemma name_matches_same:
  assumes "same_bytes D (32 * N) m m'" and "i < N"
  shows "name_matches m D i nm = name_matches m' D i nm"
  using item_filename_same [OF same_bytes_sub [OF assms(1), of "32 * i" 32]] assms(2) by (simp add: name_matches_def)

lemma tmp_put_same: "disjoint_from a n tmp 108 \<Longrightarrow> length bs \<le> 108 \<Longrightarrow> same_bytes a n m (put_bytes tmp bs m)"
  by (rule same_bytes_put) (auto intro: disjoint_from_shorter)

lemma find_compare:
  fixes k :: "'a io_state_scheme"
  assumes ok: "directory_ok k A tmp d D N np nm" and i: "i < N"
  shows "\<exists>m'. fat16_get_full_relative_filename (D + 32 * as_u32 (int i)) tmp 108 (ram k) = m'
    \<and> (istrncmp m' tmp np 108 = 0) = name_matches (ram k) D i nm
    \<and> (\<forall>a n. disjoint_from a n tmp 108 \<longrightarrow> same_bytes a n (ram k) m')
    \<and> directory_ok (k\<lparr>ram := m'\<rparr>) A tmp d D N np nm"
proof -
  note D = directory_okD [OF ok]
  let ?item = "D + of_nat (32 * i)"
  let ?name = "item_filename (ram k) ?item"
  let ?m = "put_bytes tmp (?name @ replicate (108 - length ?name) 0) (ram k)"
  have item: "D + 32 * as_u32 (int i) = ?item" by simp
  have ln: "length (?name @ replicate (108 - length ?name) 0) = 108" using item_filename_ok(2) [of "ram k" ?item] by simp
  have "disjoint_from ?item 32 tmp 108" by (rule disjoint_from_part [OF D(9)]) (use i in simp_all)
  from full_relative_filename_run [OF this] have run: "fat16_get_full_relative_filename ?item tmp 108 (ram k) = ?m" .
  have same: "same_bytes a n (ram k) ?m" if "disjoint_from a n tmp 108" for a n
    by (rule tmp_put_same [OF that]) (simp only: ln)
  have name: "cstr ?m tmp ?name" by (rule cstr_put) (use item_filename_ok [of "ram k" ?item] in simp_all)
  have nm: "cstr ?m np nm" by (rule cstr_same [OF D(4) same [OF D(10)]])
  have "(istrncmp ?m tmp np 108 = 0) = name_matches (ram k) D i nm"
    using istrncmp_loop_cstr [OF name nm, of 108] item_filename_ok(2) [of "ram k" ?item] D(5)
    by (simp add: istrncmp_def name_matches_def)
  moreover have "kheap_rep (k\<lparr>ram := ?m\<rparr>) A"
    by (rule kheap_rep_table [OF D(1)]) (use same [OF D(7)] in \<open>simp add: same_bytes_def\<close>)
  then have "directory_ok (k\<lparr>ram := ?m\<rparr>) A tmp d D N np nm"
    by (rule directory_ok_keep [OF ok]) (use same D(8,10) in simp_all)
  ultimately show ?thesis using run same unfolding item by blast
qed

lemma find_skip:
  fixes k :: "'a io_state_scheme"
  assumes "directory_ok k A tmp d D N np nm" and "i \<le> j" and "j \<le> N"
    and "\<And>l. i \<le> l \<Longrightarrow> l < j \<Longrightarrow> \<not> name_matches (ram k) D l nm"
  shows "\<exists>m'. find_item_loop tmp d np (int i) f k = find_item_loop tmp d np (int j) f (k\<lparr>ram := m'\<rparr>)
    \<and> (\<forall>a n. disjoint_from a n tmp 108 \<longrightarrow> same_bytes a n (ram k) m')
    \<and> directory_ok (k\<lparr>ram := m'\<rparr>) A tmp d D N np nm"
  using assms
proof (induction "j - i" arbitrary: i k)
  case 0
  then have "i = j" by simp
  then show ?case using 0 by (intro exI [of _ "ram k"]) (cases k, simp)
next
  case (Suc n)
  then have i: "i < N" "i < j" by simp_all
  note D = directory_okD [OF Suc.prems(1)]
  obtain m1 where m1: "fat16_get_full_relative_filename (D + 32 * as_u32 (int i)) tmp 108 (ram k) = m1"
    "(istrncmp m1 tmp np 108 = 0) = name_matches (ram k) D i nm"
    "\<forall>a n. disjoint_from a n tmp 108 \<longrightarrow> same_bytes a n (ram k) m1"
    "directory_ok (k\<lparr>ram := m1\<rparr>) A tmp d D N np nm"
    using find_compare [OF Suc.prems(1) i(1)] by blast
  have "\<not> name_matches (ram k) D i nm" using Suc.prems(4) i(2) by simp
  then have step: "find_item_loop tmp d np (int i) f k = find_item_loop tmp d np (int (Suc i)) f (k\<lparr>ram := m1\<rparr>)"
    using i D(2,3) m1(1,2) by (subst find_item_loop.simps) (simp add: Let_def add.commute)
  have D1: "same_bytes D (32 * N) (ram k) m1" using m1(3) D(9) by blast
  have "\<exists>m'. find_item_loop tmp d np (int (Suc i)) f (k\<lparr>ram := m1\<rparr>)
        = find_item_loop tmp d np (int j) f (k\<lparr>ram := m1\<rparr>\<lparr>ram := m'\<rparr>)
    \<and> (\<forall>a n. disjoint_from a n tmp 108 \<longrightarrow> same_bytes a n (ram (k\<lparr>ram := m1\<rparr>)) m')
    \<and> directory_ok (k\<lparr>ram := m1\<rparr>\<lparr>ram := m'\<rparr>) A tmp d D N np nm"
  proof (rule Suc.hyps(1) [OF _ m1(4)])
    fix l assume "Suc i \<le> l" "l < j"
    then show "\<not> name_matches (ram (k\<lparr>ram := m1\<rparr>)) D l nm"
      using Suc.prems(3,4) name_matches_same [OF D1, of l nm] by simp
  qed (use Suc.hyps(2) Suc.prems(3) i in simp_all)
  then show ?case using step m1(3) same_bytes_trans by (simp add: same_bytes_def)
qed

lemma block_off_stack: "unat tmp + 108 \<le> 16777216 \<Longrightarrow> b < 25600 \<Longrightarrow> n \<le> 4096 \<Longrightarrow> disjoint_from (blk_addr b) n tmp 108"
  by (rule disjoint_from_above) (simp_all add: unat_blk_addr)

lemma name_matches_keep:
  assumes "directory_ok k A tmp d D N np nm" and "\<forall>a n. disjoint_from a n tmp 108 \<longrightarrow> same_bytes a n (ram k) m'" and "i < N"
  shows "name_matches m' D i nm = name_matches (ram k) D i nm"
  using name_matches_same [of D N "ram k" m' i nm] assms(2,3) directory_okD(9) [OF assms(1)] by blast

lemma find_none:
  fixes k :: "'a io_state_scheme"
  assumes ok: "directory_ok k A tmp d D N np nm" and none: "\<And>i. i < N \<Longrightarrow> \<not> name_matches (ram k) D i nm"
  shows "\<exists>m'. fat16_find_item_in_directory tmp d np k = Some (0, k\<lparr>ram := m'\<rparr>)
    \<and> directory_ok (k\<lparr>ram := m'\<rparr>) A tmp d D N np nm"
proof -
  obtain m' where m': "find_item_loop tmp d np (int 0) 0 k = find_item_loop tmp d np (int N) 0 (k\<lparr>ram := m'\<rparr>)"
    "directory_ok (k\<lparr>ram := m'\<rparr>) A tmp d D N np nm"
    using find_skip [OF ok, of 0 N 0] none by blast
  have "find_item_loop tmp d np (int N) 0 (k\<lparr>ram := m'\<rparr>) = Some (0, k\<lparr>ram := m'\<rparr>)"
    using directory_okD(3) [OF m'(2)] by (subst find_item_loop.simps) simp
  then show ?thesis using m' by (simp add: fat16_find_item_in_directory_def) blast
qed

lemma find_unique:
  fixes k :: "'a io_state_scheme"
  assumes ok: "directory_ok k A tmp d D N np nm" and low: "unat tmp + 108 \<le> 16777216"
    and j: "j < N" "name_matches (ram k) D j nm" and others: "\<And>i. i < N \<Longrightarrow> i \<noteq> j \<Longrightarrow> \<not> name_matches (ram k) D i nm"
    and plain: "attribute (fat_directory_item_at (ram k) (D + of_nat (32 * j))) AND FAT_FILE_SUBDIRECTORY = 0"
    and free: "2 \<le> free_blocks 25600 A"
  shows "\<exists>f c k'. fat16_find_item_in_directory tmp d np k = Some (blk_addr f, k')
    \<and> f < 25600 \<and> c < 25600 \<and> f \<noteq> c \<and> A f = None \<and> A c = None
    \<and> kheap_rep k' (A(f \<mapsto> 1, c \<mapsto> 1)) \<and> kmem.more k' = kmem.more k
    \<and> fat_item_at (ram k') (blk_addr f) = \<lparr>item_ptr = blk_addr c, item_type = FAT_ITEM_TYPE_FILE\<rparr>
    \<and> fat_directory_item_at (ram k') (blk_addr c) = fat_directory_item_at (ram k) (D + of_nat (32 * j))
    \<and> (\<forall>a n. stable_bytes A a n \<longrightarrow> disjoint_from a n tmp 108 \<longrightarrow> same_bytes a n (ram k) (ram k'))"
proof -
  let ?item = "D + of_nat (32 * j)"
  obtain m1 where m1: "find_item_loop tmp d np (int 0) 0 k = find_item_loop tmp d np (int j) 0 (k\<lparr>ram := m1\<rparr>)"
    "\<forall>a n. disjoint_from a n tmp 108 \<longrightarrow> same_bytes a n (ram k) m1" "directory_ok (k\<lparr>ram := m1\<rparr>) A tmp d D N np nm"
    using find_skip [OF ok, of 0 j 0] others j(1) by force
  obtain m2 where m2: "fat16_get_full_relative_filename (D + 32 * as_u32 (int j)) tmp 108 (ram (k\<lparr>ram := m1\<rparr>)) = m2"
    "(istrncmp m2 tmp np 108 = 0) = name_matches (ram (k\<lparr>ram := m1\<rparr>)) D j nm"
    "\<forall>a n. disjoint_from a n tmp 108 \<longrightarrow> same_bytes a n (ram (k\<lparr>ram := m1\<rparr>)) m2"
    "directory_ok (k\<lparr>ram := m1\<rparr>\<lparr>ram := m2\<rparr>) A tmp d D N np nm"
    using find_compare [OF m1(3) j(1)] by blast
  let ?k2 = "k\<lparr>ram := m2\<rparr>"
  have ok2: "directory_ok ?k2 A tmp d D N np nm" using m2(4) by simp
  have same2: "\<forall>a n. disjoint_from a n tmp 108 \<longrightarrow> same_bytes a n (ram k) m2"
    using m1(2) m2(3) by (simp add: same_bytes_def)
  note D2 = directory_okD [OF ok2]
  have hit: "istrncmp m2 tmp np 108 = 0"
    using m2(2) name_matches_keep [OF ok m1(2) j(1)] j(2) by simp
  have apart: "disjoint_from ?item 32 tmp 108"
    by (rule disjoint_from_part [OF directory_okD(9) [OF ok]]) (use j(1) in simp_all)
  have it2: "fat_directory_item_at m2 ?item = fat_directory_item_at (ram k) ?item"
    using fat_directory_item_at_same same2 apart by metis
  have st: "stable_bytes A ?item 32"
    unfolding stable_bytes_def
  proof (intro allI impI)
    fix i :: nat assume "i < 32"
    then have "32 * j + i < 32 * N" using j(1) by linarith
    from D2(12) [unfolded stable_bytes_def, rule_format, OF this] have "stable A (D + of_nat (32 * j + i))" .
    then show "stable A (?item + of_nat i)" by (simp add: add.assoc)
  qed
  obtain f c k3 where k3: "fat16_new_fat_item_for_directory_item ?item ?k2 = Some (blk_addr f, k3)"
    "f < 25600" "c < 25600" "f \<noteq> c" "A f = None" "A c = None" "kheap_rep k3 (A(f \<mapsto> 1, c \<mapsto> 1))"
    "kmem.more k3 = kmem.more ?k2"
    "fat_item_at (ram k3) (blk_addr f) = \<lparr>item_ptr = blk_addr c, item_type = FAT_ITEM_TYPE_FILE\<rparr>"
    "fat_directory_item_at (ram k3) (blk_addr c) = fat_directory_item_at (ram ?k2) ?item"
    "\<forall>a. stable A a \<longrightarrow> ram k3 a = ram ?k2 a"
    using new_file_item [OF D2(1) free st] plain it2 by auto
  have st3: "stable_bytes A a n \<Longrightarrow> stable_bytes (A(f \<mapsto> 1, c \<mapsto> 1)) a n" for a n
    using k3(4-6) by (intro stable_bytes_upd) auto
  have old3: "same_bytes a n m2 (ram k3)" if "stable_bytes A a n" for a n
    using that k3(11) by (simp add: same_bytes_def stable_bytes_def)
  have ok3: "directory_ok k3 (A(f \<mapsto> 1, c \<mapsto> 1)) tmp d D N np nm"
    by (rule directory_ok_keep [OF ok2 k3(7)]) (use old3 D2(11,13) st3 in simp_all)
  have names3: "name_matches (ram k3) D i nm = name_matches (ram k) D i nm" if "i < N" for i
    using name_matches_same [OF old3 [OF D2(12)] that] name_matches_keep [OF ok same2 that] by simp
  obtain m4 where m4: "find_item_loop tmp d np (int (Suc j)) (blk_addr f) k3 = find_item_loop tmp d np (int N) (blk_addr f) (k3\<lparr>ram := m4\<rparr>)"
    "\<forall>a n. disjoint_from a n tmp 108 \<longrightarrow> same_bytes a n (ram k3) m4" "directory_ok (k3\<lparr>ram := m4\<rparr>) (A(f \<mapsto> 1, c \<mapsto> 1)) tmp d D N np nm"
    using find_skip [OF ok3, of "Suc j" N "blk_addr f"] others names3 j(1) by force
  let ?k4 = "k3\<lparr>ram := m4\<rparr>"
  have "find_item_loop tmp d np (int N) (blk_addr f) ?k4 = Some (blk_addr f, ?k4)"
    using directory_okD(3) [OF m4(3)] by (subst find_item_loop.simps) simp
  moreover have "find_item_loop tmp d np (int j) 0 (k\<lparr>ram := m1\<rparr>) = find_item_loop tmp d np (int (Suc j)) (blk_addr f) k3"
    using j(1) directory_okD(2,3) [OF m1(3)] D2(2) m2(1) hit k3(1)
    by (subst find_item_loop.simps) (simp add: Let_def add.commute)
  ultimately have run: "fat16_find_item_in_directory tmp d np k = Some (blk_addr f, ?k4)"
    using m1(1) m4(1) by (simp add: fat16_find_item_in_directory_def)
  have "same_bytes (blk_addr f) 8 (ram k3) m4" "same_bytes (blk_addr c) 32 (ram k3) m4"
    using m4(2) block_off_stack [OF low k3(2), of 8] block_off_stack [OF low k3(3), of 32] by simp_all
  then have "fat_item_at m4 (blk_addr f) = \<lparr>item_ptr = blk_addr c, item_type = FAT_ITEM_TYPE_FILE\<rparr>"
    "fat_directory_item_at m4 (blk_addr c) = fat_directory_item_at (ram k) ?item"
    using fat_item_at_same fat_directory_item_at_same k3(9,10) it2 by force+
  moreover have "same_bytes a n (ram k) m4" if "stable_bytes A a n" "disjoint_from a n tmp 108" for a n
    using that same2 old3 m4(2) same_bytes_trans by metis
  moreover have "kmem.more ?k4 = kmem.more k" "kheap_rep ?k4 (A(f \<mapsto> 1, c \<mapsto> 1))"
    using k3(8) directory_okD(1) [OF m4(3)] by simp_all
  ultimately show ?thesis using run k3(2-6) by (intro exI [of _ f] exI [of _ c] exI [of _ ?k4]) simp
qed

subsection \<open>Opening and closing\<close>

lemma more_fields:
  fixes k k' :: "'a path_state_scheme"
  assumes "kmem.more k' = kmem.more k"
  shows "the_disk k' = the_disk k" "path_parts k' = path_parts k"
  using assms by (cases k; cases k'; auto)+

text \<open>The descriptor is allocated first: the directory and its names stay as they were.\<close>

lemma open_alloc:
  fixes k :: "'a path_state_scheme"
  assumes ok: "directory_ok k A tmp d D N np nm" and free: "0 < free_blocks 25600 A"
  shows "\<exists>b k1. kzalloc 8 k = (blk_addr b, k1) \<and> b < 25600 \<and> A b = None \<and> directory_ok k1 (A(b \<mapsto> 1)) tmp d D N np nm
    \<and> free_blocks 25600 A = Suc (free_blocks 25600 (A(b \<mapsto> 1))) \<and> kmem.more k1 = kmem.more k \<and> \<not> covered A b
    \<and> (\<forall>a n. stable_bytes A a n \<longrightarrow> same_bytes a n (ram k) (ram k1))"
proof -
  note D = directory_okD [OF ok]
  obtain b k1 where k1: "kzalloc 8 k = (blk_addr b, k1)" "b < 25600" "A b = None" "\<not> covered A b"
    "kheap_rep k1 (A(b \<mapsto> 1))" "free_blocks 25600 A = Suc (free_blocks 25600 (A(b \<mapsto> 1)))"
    "\<And>a. 25600 \<le> unat (a - 0x7E00) \<Longrightarrow> 4096 \<le> unat (a - blk_addr b) \<Longrightarrow> ram k1 a = ram k a"
    "kmem.more k1 = kmem.more k"
    by (rule page_alloc [OF D(1), of 8]) (use free in auto)
  have same: "same_bytes a n (ram k) (ram k1)" if "stable_bytes A a n" for a n
    using that k1(2,4,7) by (simp add: same_bytes_def stable_bytes_def stable_def)
  have "directory_ok k1 (A(b \<mapsto> 1)) tmp d D N np nm"
    by (rule directory_ok_keep [OF ok k1(5)]) (use same D(11,13) stable_bytes_upd [of A b, OF k1(3)] in simp_all)
  then show ?thesis using k1(1-4,6,8) same by blast
qed

lemma close_run:
  assumes rep: "kheap_rep k A" and live: "A b = Some 1" "A f = Some 1" "A c = Some 1" and dist: "b \<noteq> f" "b \<noteq> c" "f \<noteq> c"
    and "desc_item (fat_file_descriptor_at (ram k) (blk_addr b)) = blk_addr f"
    and "fat_item_at (ram k) (blk_addr f) = \<lparr>item_ptr = blk_addr c, item_type = FAT_ITEM_TYPE_FILE\<rparr>"
  shows "\<exists>k'. fat16_close (blk_addr b) k = Some (0, k') \<and> kheap_rep k' (A |` (- {b, f, c})) \<and> kmem.more k' = kmem.more k
    \<and> (\<forall>a. 25600 \<le> unat (a - 0x7E00) \<longrightarrow> ram k' a = ram k a)"
proof -
  let ?k1 = "kfree (blk_addr c) k"
  let ?k2 = "kfree (blk_addr f) ?k1"
  have 1: "kheap_rep ?k1 (A(c := None))" by (rule kfree_rep [OF rep live(3)])
  have 2: "kheap_rep ?k2 (A(c := None, f := None))" by (rule kfree_rep [OF 1, of f 1]) (use live dist in simp)
  have 3: "kheap_rep (kfree (blk_addr b) ?k2) (A(c := None, f := None, b := None))"
    by (rule kfree_rep [OF 2, of b 1]) (use live dist in simp)
  have "A(c := None, f := None, b := None) = A |` (- {b, f, c})" by (auto simp: fun_eq_iff restrict_map_def)
  moreover have "ram (kfree (blk_addr b) ?k2) a = ram k a" if "25600 \<le> unat (a - 0x7E00)" for a
    using kfree_frame [OF rep live(3) that] kfree_frame [OF 1, of f 1 a] kfree_frame [OF 2, of b 1 a] live dist that by simp
  ultimately show ?thesis
    using 3 assms(8,9) by (simp add: fat16_close_def fat16_free_file_descriptor_def fat16_fat_item_free_def kfree_more)
qed

text \<open>
  \<open>opened_at\<close>: the descriptor \<open>b\<close>, the item \<open>f\<close> and the copy \<open>c\<close> of a directory item are in fresh blocks; no byte that
  is in use, the buffer for names apart, has changed.
\<close>

definition opened_at :: "'a kmem_scheme \<Rightarrow> (nat \<rightharpoonup> nat) \<Rightarrow> u32 \<Rightarrow> fat_directory_item \<Rightarrow> nat \<Rightarrow> nat \<Rightarrow> nat \<Rightarrow> 'a kmem_scheme \<Rightarrow> bool" where
  "opened_at k A tmp item b f c k' \<longleftrightarrow> b < 25600 \<and> f < 25600 \<and> c < 25600 \<and> b \<noteq> f \<and> b \<noteq> c \<and> f \<noteq> c
     \<and> A b = None \<and> A f = None \<and> A c = None \<and> kheap_rep k' (A(b \<mapsto> 1, f \<mapsto> 1, c \<mapsto> 1)) \<and> kmem.more k' = kmem.more k
     \<and> fat_file_descriptor_at (ram k') (blk_addr b) = \<lparr>desc_item = blk_addr f, desc_pos = 0\<rparr>
     \<and> fat_item_at (ram k') (blk_addr f) = \<lparr>item_ptr = blk_addr c, item_type = FAT_ITEM_TYPE_FILE\<rparr>
     \<and> fat_directory_item_at (ram k') (blk_addr c) = item
     \<and> (\<forall>a n. stable_bytes A a n \<longrightarrow> disjoint_from a n tmp 108 \<longrightarrow> same_bytes a n (ram k) (ram k'))"

lemma open_run:
  fixes k :: "'a path_state_scheme"
  assumes ok: "directory_ok k A tmp (fs_private (the_disk k) + 64) D N (part_str (path_parts k path)) nm"
    and low: "unat tmp + 108 \<le> 16777216" and whole: "part_next (path_parts k path) = 0"
    and j: "j < N" "name_matches (ram k) D j nm" and others: "\<And>i. i < N \<Longrightarrow> i \<noteq> j \<Longrightarrow> \<not> name_matches (ram k) D i nm"
    and plain: "attribute (fat_directory_item_at (ram k) (D + of_nat (32 * j))) AND FAT_FILE_SUBDIRECTORY = 0"
    and free: "3 \<le> free_blocks 25600 A"
  shows "\<exists>b f c k'. fat16_open tmp dsk path FILE_MODE_READ k = Some (blk_addr b, k')
    \<and> opened_at k A tmp (fat_directory_item_at (ram k) (D + of_nat (32 * j))) b f c k'"
proof -
  let ?d = "fs_private (the_disk k) + 64" and ?np = "part_str (path_parts k path)" and ?item = "D + of_nat (32 * j)"
  have "0 < free_blocks 25600 A" using free by simp
  then obtain b k1 where k1: "kzalloc 8 k = (blk_addr b, k1)" "b < 25600" "A b = None"
    "directory_ok k1 (A(b \<mapsto> 1)) tmp ?d D N ?np nm"
    "free_blocks 25600 A = Suc (free_blocks 25600 (A(b \<mapsto> 1)))" "kmem.more k1 = kmem.more k"
    "\<forall>a n. stable_bytes A a n \<longrightarrow> same_bytes a n (ram k) (ram k1)" "\<not> covered A b"
    using open_alloc [OF ok] by blast
  note more1 = more_fields [OF k1(6)]
  have D1: "same_bytes D (32 * N) (ram k) (ram k1)" using k1(7) directory_okD(12) [OF ok] by blast
  have names1: "name_matches (ram k1) D i nm = name_matches (ram k) D i nm" if "i < N" for i
    using name_matches_same [OF D1 that] by simp
  have item1: "fat_directory_item_at (ram k1) ?item = fat_directory_item_at (ram k) ?item"
    using fat_directory_item_at_same [OF same_bytes_sub [OF D1, of "32 * j" 32]] j(1) by simp
  have ex: "\<exists>f c k'. fat16_find_item_in_directory tmp ?d ?np k1 = Some (blk_addr f, k')
    \<and> f < 25600 \<and> c < 25600 \<and> f \<noteq> c \<and> (A(b \<mapsto> 1)) f = None \<and> (A(b \<mapsto> 1)) c = None
    \<and> kheap_rep k' (A(b \<mapsto> 1, f \<mapsto> 1, c \<mapsto> 1)) \<and> kmem.more k' = kmem.more k1
    \<and> fat_item_at (ram k') (blk_addr f) = \<lparr>item_ptr = blk_addr c, item_type = FAT_ITEM_TYPE_FILE\<rparr>
    \<and> fat_directory_item_at (ram k') (blk_addr c) = fat_directory_item_at (ram k1) ?item
    \<and> (\<forall>a n. stable_bytes (A(b \<mapsto> 1)) a n \<longrightarrow> disjoint_from a n tmp 108 \<longrightarrow> same_bytes a n (ram k1) (ram k'))"
    by (rule find_unique [OF k1(4) low j(1)]) (use names1 j others item1 plain free k1(5) in simp_all)
  then obtain f c k2 where k2: "fat16_find_item_in_directory tmp ?d ?np k1 = Some (blk_addr f, k2)"
    "f < 25600" "c < 25600" "f \<noteq> c" "(A(b \<mapsto> 1)) f = None" "(A(b \<mapsto> 1)) c = None"
    "kheap_rep k2 (A(b \<mapsto> 1, f \<mapsto> 1, c \<mapsto> 1))" "kmem.more k2 = kmem.more k1"
    "fat_item_at (ram k2) (blk_addr f) = \<lparr>item_ptr = blk_addr c, item_type = FAT_ITEM_TYPE_FILE\<rparr>"
    "fat_directory_item_at (ram k2) (blk_addr c) = fat_directory_item_at (ram k) ?item"
    "\<forall>a n. stable_bytes (A(b \<mapsto> 1)) a n \<longrightarrow> disjoint_from a n tmp 108 \<longrightarrow> same_bytes a n (ram k1) (ram k2)"
    unfolding item1 by blast
  have bf: "f \<noteq> b" "c \<noteq> b" "A f = None" "A c = None" using k2(5,6) by (auto split: if_splits)
  let ?m3 = "store32 (ram k2) (blk_addr b + of_nat 0) (blk_addr f)"
  let ?m4 = "store32 ?m3 (blk_addr b + of_nat 4) 0"
  let ?k4 = "k2\<lparr>ram := ?m4\<rparr>"
  have b4: "in_block b (ram k2) ?m4"
    by (rule in_block_trans [OF in_block_store32 in_block_store32]) simp_all
  have nz: "blk_addr b \<noteq> 0" "blk_addr f \<noteq> 0" using k1(2) k2(2) by (simp_all add: blk_addr_nonzero)
  have "fat16_get_directory_entry tmp path k1 = Some (blk_addr f, k2)"
    using k2(1) nz more1 more_fields [OF k2(8)] whole
    by (simp add: fat16_get_directory_entry_def directory_entry_loop.simps)
  then have run: "fat16_open tmp dsk path FILE_MODE_READ k = Some (blk_addr b, ?k4)"
    using nz by (simp add: fat16_open_def k1(1) poke32_def)
  have rep4: "kheap_rep ?k4 (A(b \<mapsto> 1, f \<mapsto> 1, c \<mapsto> 1))" by (rule in_block_rep [OF k2(7) k1(2) b4])
  have item_f: "fat_item_at ?m4 (blk_addr f) = \<lparr>item_ptr = blk_addr c, item_type = FAT_ITEM_TYPE_FILE\<rparr>"
    using fat_item_at_same [OF in_block_other [OF b4 bf(1) k1(2) k2(2), of 8]] k2(9) by simp
  have item_c: "fat_directory_item_at ?m4 (blk_addr c) = fat_directory_item_at (ram k) ?item"
    using fat_directory_item_at_same [OF in_block_other [OF b4 bf(2) k1(2) k2(3), of 32]] k2(10) by simp
  have "?m4 (blk_addr b + of_nat i) = ?m3 (blk_addr b + of_nat i)" if "i < 4" for i
    using that by (rule block_store_below) simp
  from this [of 0] this [of 1] this [of 2] this [of 3]
  have "load32 ?m4 (blk_addr b) = load32 ?m3 (blk_addr b)" by (intro load32_cong) simp_all
  then have desc: "fat_file_descriptor_at ?m4 (blk_addr b) = \<lparr>desc_item = blk_addr f, desc_pos = 0\<rparr>"
    using load32_store32_same [of "ram k2" "blk_addr b" "blk_addr f"] load32_store32_same [of ?m3 "blk_addr b + 4" 0]
    by (simp add: fat_file_descriptor_at_def)
  have frame: "same_bytes a n (ram k) ?m4" if "stable_bytes A a n" "disjoint_from a n tmp 108" for a n
    using k1(7) k2(11) in_block_stable [OF b4 that(1) k1(8,2)] stable_bytes_upd [of A b, OF k1(3) that(1)] that same_bytes_trans by metis
  have "kmem.more ?k4 = kmem.more k" using k1(6) k2(8) by simp
  then show ?thesis
    using run rep4 desc item_f item_c frame k1(2,3) k2(2-4) bf
    by (intro exI [of _ b] exI [of _ f] exI [of _ c] exI [of _ ?k4]) (simp add: opened_at_def)
qed

lemma open_close_run:
  fixes k :: "'a path_state_scheme"
  assumes ok: "directory_ok k A tmp (fs_private (the_disk k) + 64) D N (part_str (path_parts k path)) nm"
    and low: "unat tmp + 108 \<le> 16777216" and whole: "part_next (path_parts k path) = 0"
    and j: "j < N" "name_matches (ram k) D j nm" and others: "\<And>i. i < N \<Longrightarrow> i \<noteq> j \<Longrightarrow> \<not> name_matches (ram k) D i nm"
    and plain: "attribute (fat_directory_item_at (ram k) (D + of_nat (32 * j))) AND FAT_FILE_SUBDIRECTORY = 0"
    and free: "3 \<le> free_blocks 25600 A"
  shows "\<exists>p f c k1 k2. fat16_open tmp dsk path FILE_MODE_READ k = Some (p, k1)
    \<and> fat_file_descriptor_at (ram k1) p = \<lparr>desc_item = f, desc_pos = 0\<rparr>
    \<and> fat_item_at (ram k1) f = \<lparr>item_ptr = c, item_type = FAT_ITEM_TYPE_FILE\<rparr>
    \<and> fat_directory_item_at (ram k1) c = fat_directory_item_at (ram k) (D + of_nat (32 * j))
    \<and> fat16_close p k1 = Some (0, k2) \<and> kheap_rep k2 A"
proof -
  obtain b f c k1 where k1: "fat16_open tmp dsk path FILE_MODE_READ k = Some (blk_addr b, k1)"
    "opened_at k A tmp (fat_directory_item_at (ram k) (D + of_nat (32 * j))) b f c k1"
    using open_run [OF ok low whole j others plain free] by blast
  note O = k1(2) [unfolded opened_at_def]
  have rep: "kheap_rep k1 (A(b \<mapsto> 1, f \<mapsto> 1, c \<mapsto> 1))" using O by blast
  have "(A(b \<mapsto> 1, f \<mapsto> 1, c \<mapsto> 1)) |` (- {b, f, c}) = A" using O by (auto simp: fun_eq_iff restrict_map_def)
  then obtain k2 where "fat16_close (blk_addr b) k1 = Some (0, k2)" "kheap_rep k2 A"
    using close_run [OF rep, of b f c] O by auto
  then show ?thesis using k1(1) O by blast
qed

text \<open>
  C32: opening a file and closing it again.  If exactly one item of the root directory has the name of the path,
  up to the case of letters, and it is no directory, \<open>fat16_open\<close> returns a descriptor at position 0 whose item
  is a copy of that directory item; \<open>fat16_close\<close> then gives back exactly the blocks the open file used.
\<close>
theorem fat16_open_close:
  fixes k :: "'a path_state_scheme"
  assumes ok: "directory_ok k A tmp (fs_private (the_disk k) + 64) D N (part_str (path_parts k path)) nm"
    and low: "unat tmp + 108 \<le> 16777216" and whole: "part_next (path_parts k path) = 0"
    and j: "j < N" "name_matches (ram k) D j nm" and others: "\<And>i. i < N \<Longrightarrow> i \<noteq> j \<Longrightarrow> \<not> name_matches (ram k) D i nm"
    and plain: "attribute (fat_directory_item_at (ram k) (D + of_nat (32 * j))) AND FAT_FILE_SUBDIRECTORY = 0"
    and free: "3 \<le> free_blocks 25600 A"
  shows "\<exists>p f c k1 k2. fat16_open tmp dsk path FILE_MODE_READ k = Some (p, k1)
    \<and> fat_file_descriptor_at (ram k1) p = \<lparr>desc_item = f, desc_pos = 0\<rparr>
    \<and> fat_item_at (ram k1) f = \<lparr>item_ptr = c, item_type = FAT_ITEM_TYPE_FILE\<rparr>
    \<and> fat_directory_item_at (ram k1) c = fat_directory_item_at (ram k) (D + of_nat (32 * j))
    \<and> fat16_close p k1 = Some (0, k2) \<and> kheap_rep k2 A"
  using assms by (rule open_close_run)

lemma open_missing_run:
  fixes k :: "'a path_state_scheme"
  assumes ok: "directory_ok k A tmp (fs_private (the_disk k) + 64) D N (part_str (path_parts k path)) nm"
    and none: "\<And>i. i < N \<Longrightarrow> \<not> name_matches (ram k) D i nm" and free: "0 < free_blocks 25600 A"
  shows "\<exists>p k'. fat16_open tmp dsk path FILE_MODE_READ k = Some (p, k') \<and> as_int p = - EIO \<and> kheap_rep k' A"
proof -
  let ?d = "fs_private (the_disk k) + 64" and ?np = "part_str (path_parts k path)"
  obtain b k1 where k1: "kzalloc 8 k = (blk_addr b, k1)" "b < 25600" "A b = None"
    "directory_ok k1 (A(b \<mapsto> 1)) tmp ?d D N ?np nm" "kmem.more k1 = kmem.more k"
    "\<forall>a n. stable_bytes A a n \<longrightarrow> same_bytes a n (ram k) (ram k1)"
    using open_alloc [OF ok free] by blast
  note more1 = more_fields [OF k1(5)]
  have names1: "name_matches (ram k1) D i nm = name_matches (ram k) D i nm" if "i < N" for i
    using name_matches_same [of D N "ram k" "ram k1" i nm] k1(6) directory_okD(12) [OF ok] that by simp
  obtain m' where m': "fat16_find_item_in_directory tmp ?d ?np k1 = Some (0, k1\<lparr>ram := m'\<rparr>)"
    "directory_ok (k1\<lparr>ram := m'\<rparr>) (A(b \<mapsto> 1)) tmp ?d D N ?np nm"
    using find_none [OF k1(4)] names1 none by blast
  let ?m2 = "store32 m' (blk_addr b + of_nat 0) 0"
  let ?k2 = "k1\<lparr>ram := ?m2\<rparr>"
  have b2: "in_block b m' ?m2" by (rule in_block_store32) simp
  have rep2: "kheap_rep ?k2 (A(b \<mapsto> 1))"
    using in_block_rep [OF directory_okD(1) [OF m'(2)] k1(2)] b2 by simp
  have "kheap_rep (kfree (blk_addr b) ?k2) ((A(b \<mapsto> 1))(b := None))" by (rule kfree_rep [OF rep2, of b 1]) simp
  moreover have "(A(b \<mapsto> 1))(b := None) = A" using k1(3) by auto
  moreover have "fat16_open tmp dsk path FILE_MODE_READ k = Some (as_u32 (- EIO), kfree (blk_addr b) ?k2)"
    using m'(1) blk_addr_nonzero [OF k1(2)] more1
    by (simp add: fat16_open_def k1(1) fat16_get_directory_entry_def poke32_def)
  moreover have "as_int (as_u32 (- EIO)) = - EIO" by (simp add: as_u32_def as_int_def)
  ultimately show ?thesis by auto
qed

text \<open>
  C33: a name the root directory does not have.  \<open>fat16_open\<close> returns the code of an I/O error as its pointer
  and has released the descriptor it had allocated.
\<close>
theorem fat16_open_missing:
  fixes k :: "'a path_state_scheme"
  assumes ok: "directory_ok k A tmp (fs_private (the_disk k) + 64) D N (part_str (path_parts k path)) nm"
    and none: "\<And>i. i < N \<Longrightarrow> \<not> name_matches (ram k) D i nm" and free: "0 < free_blocks 25600 A"
  shows "\<exists>p k'. fat16_open tmp dsk path FILE_MODE_READ k = Some (p, k') \<and> as_int p = - EIO \<and> kheap_rep k' A"
  using assms by (rule open_missing_run)

subsection \<open>A directory with one file\<close>

definition dir_bytes :: "u32 \<Rightarrow> u8" where
  "dir_bytes a = case_option 0 id (map_of
     [(0x1041, 0x23), (0x1044, 1),
      (0x2300, 0x48), (0x2301, 0x49), (0x2302, 0x20), (0x2308, 0x43), (0x2309, 0x20), (0x230B, 0x20), (0x231A, 2),
      (0x2400, 0x68), (0x2401, 0x69), (0x2402, 0x2E), (0x2403, 0x63), (0x2410, 0x7A)] a)"

definition dir_test :: file_state where
  "dir_test = fat_test\<lparr>ram := dir_bytes,
     path_parts := (\<lambda>p. \<lparr>part_str = (if p = 0 then 0x2400 else 0x2410), part_next = 0\<rparr>)\<rparr>"

lemma dir_test_rep: "kheap_rep dir_test Map.empty"
proof -
  have "entry_at dir_bytes kernel_table i = 0" if "i < 25600" for i
  proof -
    have "0x7E00 + of_nat i \<noteq> w" if "unat w < 32256" for w :: u32
      by (rule table_cell_not_low [OF \<open>i < 25600\<close> that])
    then show ?thesis by (simp add: entry_at_def kernel_table_def dir_bytes_def)
  qed
  then have "heap_rep kernel_table dir_bytes Map.empty" by (intro heap_rep_empty) (simp_all add: kernel_table_def)
  then show ?thesis by (simp add: kheap_rep_def dir_test_def fat_test_def)
qed

lemma low_stable_bytes: "unat a + n < 32256 \<Longrightarrow> stable_bytes A a n"
  unfolding stable_bytes_def
proof (intro allI impI stable_low)
  fix i assume "unat a + n < 32256" "i < n"
  then show "unat (a + of_nat i) < 32256" by (simp add: unat_add32 unat_of_nat32)
qed

lemma dir_test_ok:
  "directory_ok dir_test Map.empty 0x7000 (fs_private (the_disk dir_test) + 64) 0x2300 1 (part_str (path_parts dir_test 0)) [0x68, 0x69, 0x2E, 0x63]"
  "directory_ok dir_test Map.empty 0x7000 (fs_private (the_disk dir_test) + 64) 0x2300 1 (part_str (path_parts dir_test 1)) [0x7A]"
  unfolding directory_ok_def
  by (simp_all add: dir_test_rep) (simp_all add: dir_test_def fat_test_def fat_directory_at_def load32_def dir_bytes_def
    as_int_def low_stable_bytes disjoint_from_below disjoint_from_above)

lemma dir_test_name: "item_filename (ram dir_test) 0x2300 = [0x48, 0x49, 0x2E, 0x43]"
  by (simp add: item_filename_def full_name_def trim_name_def fat_directory_item_at_def load_bytes_def upt_rec
      dir_test_def dir_bytes_def)

lemma dir_test_matches:
  "name_matches (ram dir_test) 0x2300 0 [0x68, 0x69, 0x2E, 0x63]" "\<not> name_matches (ram dir_test) 0x2300 0 [0x7A]"
  by (simp_all add: name_matches_def dir_test_name tolower_def sgn_char_def)

theorem fat16_open_close_witness:
  "\<exists>p f c k1 k2. fat16_open 0x7000 0 0 FILE_MODE_READ dir_test = Some (p, k1)
    \<and> fat_file_descriptor_at (ram k1) p = \<lparr>desc_item = f, desc_pos = 0\<rparr>
    \<and> fat_item_at (ram k1) f = \<lparr>item_ptr = c, item_type = FAT_ITEM_TYPE_FILE\<rparr>
    \<and> low_16_bits_first_cluster (fat_directory_item_at (ram k1) c) = 2
    \<and> fat16_close p k1 = Some (0, k2) \<and> kheap_rep k2 Map.empty"
proof -
  have c: "low_16_bits_first_cluster (fat_directory_item_at (ram dir_test) 0x2300) = 2"
    "attribute (fat_directory_item_at (ram dir_test) 0x2300) AND FAT_FILE_SUBDIRECTORY = 0"
    by (simp_all add: fat_directory_item_at_def load16_def dir_test_def dir_bytes_def)
  have "part_next (path_parts dir_test 0) = 0" by (simp add: dir_test_def)
  from fat16_open_close [OF dir_test_ok(1) _ this, of 0 0]
  show ?thesis using c dir_test_matches(1) by (simp add: free_blocks_empty) metis
qed

theorem fat16_open_missing_witness:
  "\<exists>p k'. fat16_open 0x7000 0 1 FILE_MODE_READ dir_test = Some (p, k') \<and> as_int p = -1 \<and> kheap_rep k' Map.empty"
  using fat16_open_missing [OF dir_test_ok(2), of 0] dir_test_matches(2) by (simp add: free_blocks_empty)

end
