(* ===== verification/FatMount.thy ===== *)
theory FatMount
  imports FatOpen Room
begin

text \<open>
  Mounting: \<^verbatim>\<open>fat16_resolve\<close> on a disk with a FAT16 boot sector establishes what reading and opening files
  rely on; on any other disk it fails.
\<close>

subsection \<open>What mounting leaves alone\<close>

definition same_rest :: "'a io_state_scheme \<Rightarrow> 'a io_state_scheme \<Rightarrow> bool" where
  "same_rest k k' \<longleftrightarrow> k' = k\<lparr>ram := ram k', drive := drive k', the_disk := the_disk k', streams := streams k'\<rparr>"

lemma same_rest_refl [simp]: "same_rest k k" by (cases k) (simp add: same_rest_def)

lemma same_rest_trans:
  assumes "same_rest k k'" and "same_rest k' k''"
  shows "same_rest k k''"
proof -
  have "k'' = k'\<lparr>ram := ram k'', drive := drive k'', the_disk := the_disk k'', streams := streams k''\<rparr>"
    using assms(2) by (simp add: same_rest_def)
  also have "\<dots> = k\<lparr>ram := ram k', drive := drive k', the_disk := the_disk k', streams := streams k'\<rparr>
      \<lparr>ram := ram k'', drive := drive k'', the_disk := the_disk k'', streams := streams k''\<rparr>"
    using assms(1) [unfolded same_rest_def] by (rule arg_cong)
  finally show ?thesis by (simp add: same_rest_def)
qed

lemma same_rest_upd [simp]:
  "same_rest k (k\<lparr>ram := m\<rparr>)" "same_rest k (k\<lparr>the_disk := x\<rparr>)" "same_rest k (k\<lparr>streams := s\<rparr>)"
  by (cases k; simp add: same_rest_def)+

lemma same_rest_fields: "same_rest k k' \<Longrightarrow> disk_addr k' = disk_addr k" "same_rest k k' \<Longrightarrow> kernel_heap k' = kernel_heap k"
  unfolding same_rest_def by (metis (no_types) io_state.ext_inject io_state.surjective io_state.update_convs kmem.surjective kmem.update_convs
    io_state.select_convs kmem.select_convs)+

lemma advanced_rest:
  assumes "advanced k m k'"
  shows "same_rest k k'"
proof -
  obtain d s where "k' = k\<lparr>ram := m, drive := d, streams := s\<rparr>" using assms unfolding advanced_def by blast
  then show ?thesis by (cases k) (simp add: same_rest_def)
qed

subsection \<open>Streams\<close>

text \<open>
  \<open>grown k A k' A'\<close>: from \<open>k\<close> to \<open>k'\<close> blocks were allocated and only they were written; the drive
  keeps its image, and no stream that was there changed its disk.
\<close>

definition grown :: "'a io_state_scheme \<Rightarrow> (nat \<rightharpoonup> nat) \<Rightarrow> 'a io_state_scheme \<Rightarrow> (nat \<rightharpoonup> nat) \<Rightarrow> bool" where
  "grown k A k' A' \<longleftrightarrow> kheap_rep k' A' \<and> (\<forall>a. stable A a \<longrightarrow> stable A' a \<and> ram k' a = ram k a) \<and> same_rest k k'
     \<and> the_disk k' = the_disk k \<and> ata_image (drive k') = ata_image (drive k) \<and> ata_responsive (drive k')
     \<and> (\<forall>st. stream_disk (streams k st) = disk_addr k \<longrightarrow> stream_disk (streams k' st) = disk_addr k)"

lemma grownD:
  assumes "grown k A k' A'"
  shows "kheap_rep k' A'" "stable A a \<Longrightarrow> stable A' a" "stable A a \<Longrightarrow> ram k' a = ram k a" "same_rest k k'"
    "the_disk k' = the_disk k" "ata_image (drive k') = ata_image (drive k)" "ata_responsive (drive k')" "disk_addr k' = disk_addr k"
    "stream_disk (streams k st) = disk_addr k \<Longrightarrow> stream_disk (streams k' st) = disk_addr k"
  using assms by (auto simp: grown_def same_rest_fields)

lemma grown_refl: "kheap_rep k A \<Longrightarrow> ata_responsive (drive k) \<Longrightarrow> grown k A k A"
  by (simp add: grown_def)

lemma grown_trans: "grown k A k' A' \<Longrightarrow> grown k' A' k'' A'' \<Longrightarrow> grown k A k'' A''"
  unfolding grown_def by (auto intro: same_rest_trans simp: same_rest_fields)

lemma grown_alloc:
  fixes k :: "'a io_state_scheme"
  assumes "kheap_rep k A" and "ata_responsive (drive k)" and "0 < unat sz" "unat sz \<le> 4096" and "0 < free_blocks 25600 A"
  shows "\<exists>b k1. kzalloc sz k = (blk_addr b, k1) \<and> b < 25600 \<and> A b = None \<and> \<not> covered A b \<and> grown k A k1 (A(b \<mapsto> 1))
    \<and> free_blocks 25600 A = Suc (free_blocks 25600 (A(b \<mapsto> 1))) \<and> streams k1 = streams k"
proof -
  obtain b k1 where k1: "kzalloc sz k = (blk_addr b, k1)" "b < 25600" "A b = None" "\<not> covered A b"
    "kheap_rep k1 (A(b \<mapsto> 1))" "free_blocks 25600 A = Suc (free_blocks 25600 (A(b \<mapsto> 1)))"
    "\<And>a. 25600 \<le> unat (a - 0x7E00) \<Longrightarrow> 4096 \<le> unat (a - blk_addr b) \<Longrightarrow> ram k1 a = ram k a"
    by (rule page_alloc [OF assms(1,3,4,5)]) auto
  have up: "k1 = k\<lparr>ram := ram k1\<rparr>" by (rule kzalloc_ram [OF k1(1)])
  have "the_disk k1 = the_disk k" "drive k1 = drive k" "streams k1 = streams k" "same_rest k k1"
    by (subst up, simp)+
  moreover have "ram k1 a = ram k a" if "stable A a" for a using that k1(2,4,7) by (simp add: stable_def)
  ultimately show ?thesis
    using k1(1-6) assms(2) stable_upd [of A b, OF k1(3)] by (intro exI [of _ b] exI [of _ k1]) (simp add: grown_def)
qed

lemma grown_write:
  \<comment> \<open>writing into a block that is live now and was not before\<close>
  assumes g: "grown k A k' A'" and b: "b < 25600" "\<not> covered A b" and w: "in_block b (ram k') m'"
  shows "grown k A (k'\<lparr>ram := m'\<rparr>) A'"
proof -
  have "kheap_rep (k'\<lparr>ram := m'\<rparr>) A'" by (rule in_block_rep [OF grownD(1) [OF g] b(1) w])
  moreover have "m' a = ram k a" if "stable A a" for a
    using that b w grownD(3) [OF g that] by (simp add: stable_def in_block_def)
  ultimately show ?thesis
    using g same_rest_trans [OF grownD(4) [OF g] same_rest_upd(1)] by (simp add: grown_def)
qed

lemma stream_new:
  fixes k :: "'a io_state_scheme"
  assumes "kheap_rep k A" and "ata_responsive (drive k)" and "0 < free_blocks 25600 A" and "disk_addr k \<noteq> 0"
  shows "\<exists>b k1. diskstreamer_new 0 k = (blk_addr b, k1) \<and> b < 25600 \<and> A b = None \<and> \<not> covered A b \<and> grown k A k1 (A(b \<mapsto> 1))
    \<and> free_blocks 25600 A = Suc (free_blocks 25600 (A(b \<mapsto> 1)))
    \<and> streams k1 = (streams k)(blk_addr b := \<lparr>pos = 0, stream_disk = disk_addr k\<rparr>)"
proof -
  obtain b k1 where k1: "kzalloc 8 k = (blk_addr b, k1)" "b < 25600" "A b = None" "grown k A k1 (A(b \<mapsto> 1))"
    "free_blocks 25600 A = Suc (free_blocks 25600 (A(b \<mapsto> 1)))" "streams k1 = streams k" "\<not> covered A b"
    using grown_alloc [OF assms(1,2) _ _ assms(3), of 8] by auto
  let ?k = "k1\<lparr>streams := (streams k1)(blk_addr b := \<lparr>pos = 0, stream_disk = disk_addr k\<rparr>)\<rparr>"
  have "kheap_rep ?k (A(b \<mapsto> 1))" using grownD(1) [OF k1(4)] by (simp add: kheap_rep_def)
  moreover have "same_rest k ?k" by (rule same_rest_trans [OF grownD(4) [OF k1(4)]]) simp
  ultimately have "grown k A ?k (A(b \<mapsto> 1))" using k1(4) by (simp add: grown_def)
  moreover have "diskstreamer_new 0 k = (blk_addr b, ?k)"
    using assms(4) by (simp add: diskstreamer_new_def disk_get_def k1(1))
  ultimately show ?thesis using k1(2,3,5-7) by (intro exI [of _ b] exI [of _ ?k]) simp
qed

subsection \<open>The private structure\<close>

lemma stream_slot:
  fixes k K :: "'a io_state_scheme"
  assumes g: "grown k A K A1" and b: "b < 25600" "\<not> covered A b" "A1 b = Some 1"
    and disk: "disk_id (the_disk k) = 0" "disk_addr k \<noteq> 0" and free: "0 < free_blocks 25600 A1" and j: "j + 4 \<le> 4096"
  shows "\<exists>c K1. diskstreamer_new (disk_id (the_disk K)) K = (blk_addr c, K1)
    \<and> grown k A (poke32 (blk_addr b + of_nat j) (blk_addr c) K1) (A1(c \<mapsto> 1)) \<and> A1 c = None \<and> c < 25600
    \<and> free_blocks 25600 A1 = Suc (free_blocks 25600 (A1(c \<mapsto> 1)))
    \<and> stream_disk (streams K1 (blk_addr c)) = disk_addr k
    \<and> (\<forall>st. stream_disk (streams K st) = disk_addr k \<longrightarrow> stream_disk (streams K1 st) = disk_addr k)
    \<and> (\<forall>i < 4096. i < j \<or> j + 4 \<le> i \<longrightarrow>
         ram (poke32 (blk_addr b + of_nat j) (blk_addr c) K1) (blk_addr b + of_nat i) = ram K (blk_addr b + of_nat i))"
proof -
  have "disk_addr K \<noteq> 0" using disk(2) grownD(8) [OF g] by simp
  from stream_new [OF grownD(1) [OF g] grownD(7) [OF g] free this] obtain c K1
    where K1: "diskstreamer_new 0 K = (blk_addr c, K1)" "c < 25600" "A1 c = None" "grown K A1 K1 (A1(c \<mapsto> 1))"
      "free_blocks 25600 A1 = Suc (free_blocks 25600 (A1(c \<mapsto> 1)))"
      "streams K1 = (streams K)(blk_addr c := \<lparr>pos = 0, stream_disk = disk_addr K\<rparr>)" by blast
  let ?m = "store32 (ram K1) (blk_addr b + of_nat j) (blk_addr c)"
  have w: "in_block b (ram K1) ?m" by (rule in_block_store32) (use j in simp)
  have g2: "grown k A (K1\<lparr>ram := ?m\<rparr>) (A1(c \<mapsto> 1))"
    by (rule grown_write [OF grown_trans [OF g K1(4)] b(1,2) w])
  have "?m (blk_addr b + of_nat i) = ram K (blk_addr b + of_nat i)" if i: "i < 4096" "i < j \<or> j + 4 \<le> i" for i
  proof -
    have "ram K1 (blk_addr b + of_nat i) = ram K (blk_addr b + of_nat i)"
      by (rule grownD(3) [OF K1(4)]) (rule stable_block [OF grownD(1) [OF g] b(3) i(1)])
    moreover have "?m (blk_addr b + of_nat i) = ram K1 (blk_addr b + of_nat i)"
      using i j block_store_below [of i j] block_store_other [of j i] by auto
    ultimately show ?thesis by simp
  qed
  then show ?thesis
    using K1 g2 disk grownD(5) [OF g] grownD(8) [OF g] by (intro exI [of _ c] exI [of _ K1]) (simp add: poke32_def)
qed

lemma load32_block:
  assumes "\<And>l. l < 4 \<Longrightarrow> m' (blk_addr b + of_nat (j + l)) = m (blk_addr b + of_nat (j + l))"
  shows "load32 m' (blk_addr b + of_nat j) = load32 m (blk_addr b + of_nat j)"
  using assms [of 0] assms [of 1] assms [of 2] assms [of 3] by (intro load32_cong) (simp_all add: ac_simps)

lemma load32_below:
  assumes "\<forall>i < 4096. i < j0 \<or> j0 + 4 \<le> i \<longrightarrow> m' (blk_addr b + of_nat i) = m (blk_addr b + of_nat i)"
    and "j + 4 \<le> j0" "j0 \<le> 4096"
  shows "load32 m' (blk_addr b + of_nat j) = load32 m (blk_addr b + of_nat j)"
  by (rule load32_block) (use assms in \<open>simp del: of_nat_add\<close>)

lemma init_private_run:
  fixes k K :: "'a io_state_scheme"
  assumes g: "grown k A K A1" and b: "b < 25600" "\<not> covered A b" "A1 b = Some 1"
    and disk: "disk_id (the_disk k) = 0" "disk_addr k \<noteq> 0" and free: "3 \<le> free_blocks 25600 A1"
  shows "\<exists>c1 c2 c3 K'. fat16_init_private (blk_addr b) K = K'
    \<and> grown k A K' (A1(c1 \<mapsto> 1, c2 \<mapsto> 1, c3 \<mapsto> 1))
    \<and> A1 c1 = None \<and> A1 c2 = None \<and> A1 c3 = None \<and> c1 \<noteq> c2 \<and> c1 \<noteq> c3 \<and> c2 \<noteq> c3 \<and> c1 < 25600 \<and> c2 < 25600 \<and> c3 < 25600
    \<and> free_blocks 25600 A1 = 3 + free_blocks 25600 (A1(c1 \<mapsto> 1, c2 \<mapsto> 1, c3 \<mapsto> 1))
    \<and> (\<forall>c \<in> {c1, c2, c3}. stream_disk (streams K' (blk_addr c)) = disk_addr k)
    \<and> load32 (ram K') (blk_addr b + of_nat 80) = blk_addr c1 \<and> load32 (ram K') (blk_addr b + of_nat 84) = blk_addr c2
    \<and> load32 (ram K') (blk_addr b + of_nat 88) = blk_addr c3"
proof -
  let ?p = "blk_addr b"
  let ?m0 = "memset (ram K) ?p 0 92"
  let ?K0 = "K\<lparr>ram := ?m0\<rparr>"
  have "in_block b (ram K) ?m0" by (simp add: in_block_def memset_at)
  then have g0: "grown k A ?K0 A1" by (rule grown_write [OF g b(1,2)])
  have free1: "0 < free_blocks 25600 A1" using free by simp
  from stream_slot [OF g0 b(1,2) b(3) disk free1, of 80] obtain c1 K1 where
    s1: "diskstreamer_new (disk_id (the_disk ?K0)) ?K0 = (blk_addr c1, K1)" and
    g1: "grown k A (poke32 (?p + of_nat 80) (blk_addr c1) K1) (A1(c1 \<mapsto> 1))" and
    c1: "A1 c1 = None" "c1 < 25600" "free_blocks 25600 (A1) = Suc (free_blocks 25600 (A1(c1 \<mapsto> 1)))"
      "stream_disk (streams K1 (blk_addr c1)) = disk_addr k" and
    d1: "\<forall>st. stream_disk (streams ?K0 st) = disk_addr k \<longrightarrow> stream_disk (streams K1 st) = disk_addr k" and
    f1: "\<forall>i < 4096. i < 80 \<or> 80 + 4 \<le> i \<longrightarrow>
      ram (poke32 (?p + of_nat 80) (blk_addr c1) K1) (?p + of_nat i) = ram ?K0 (?p + of_nat i)"
    by auto
  let ?K1 = "poke32 (?p + of_nat 80) (blk_addr c1) K1" and ?A1 = "A1(c1 \<mapsto> 1)"
  have b1: "?A1 b = Some 1" using b(3) c1(1) by auto
  have free2: "0 < free_blocks 25600 ?A1" using free c1(3) by simp
  from stream_slot [OF g1 b(1,2) b1 disk free2, of 84] obtain c2 K2 where
    s2: "diskstreamer_new (disk_id (the_disk ?K1)) ?K1 = (blk_addr c2, K2)" and
    g2: "grown k A (poke32 (?p + of_nat 84) (blk_addr c2) K2) (?A1(c2 \<mapsto> 1))" and
    c2: "?A1 c2 = None" "c2 < 25600" "free_blocks 25600 (?A1) = Suc (free_blocks 25600 (?A1(c2 \<mapsto> 1)))"
      "stream_disk (streams K2 (blk_addr c2)) = disk_addr k" and
    d2: "\<forall>st. stream_disk (streams ?K1 st) = disk_addr k \<longrightarrow> stream_disk (streams K2 st) = disk_addr k" and
    f2: "\<forall>i < 4096. i < 84 \<or> 84 + 4 \<le> i \<longrightarrow>
      ram (poke32 (?p + of_nat 84) (blk_addr c2) K2) (?p + of_nat i) = ram ?K1 (?p + of_nat i)"
    by auto
  let ?K2 = "poke32 (?p + of_nat 84) (blk_addr c2) K2" and ?A2 = "?A1(c2 \<mapsto> 1)"
  have b2: "?A2 b = Some 1" using b1 c2(1) by auto
  have free3: "0 < free_blocks 25600 ?A2" using free c1(3) c2(3) by simp
  from stream_slot [OF g2 b(1,2) b2 disk free3, of 88] obtain c3 K3 where
    s3: "diskstreamer_new (disk_id (the_disk ?K2)) ?K2 = (blk_addr c3, K3)" and
    g3: "grown k A (poke32 (?p + of_nat 88) (blk_addr c3) K3) (?A2(c3 \<mapsto> 1))" and
    c3: "?A2 c3 = None" "c3 < 25600" "free_blocks 25600 (?A2) = Suc (free_blocks 25600 (?A2(c3 \<mapsto> 1)))"
      "stream_disk (streams K3 (blk_addr c3)) = disk_addr k" and
    d3: "\<forall>st. stream_disk (streams ?K2 st) = disk_addr k \<longrightarrow> stream_disk (streams K3 st) = disk_addr k" and
    f3: "\<forall>i < 4096. i < 88 \<or> 88 + 4 \<le> i \<longrightarrow>
      ram (poke32 (?p + of_nat 88) (blk_addr c3) K3) (?p + of_nat i) = ram ?K2 (?p + of_nat i)"
    by auto
  let ?K3 = "poke32 (?p + of_nat 88) (blk_addr c3) K3" and ?A3 = "?A2(c3 \<mapsto> 1)"
  have run: "fat16_init_private ?p K = ?K3"
    using s1 s2 s3 by (simp add: fat16_init_private_def Let_def)
  have l1: "load32 (ram ?K1) (?p + of_nat 80) = blk_addr c1" by (simp add: poke32_def)
  have l2: "load32 (ram ?K2) (?p + of_nat 84) = blk_addr c2" by (simp add: poke32_def)
  have l3: "load32 (ram ?K3) (?p + of_nat 88) = blk_addr c3" by (simp add: poke32_def)
  have l21: "load32 (ram ?K2) (?p + of_nat 80) = load32 (ram ?K1) (?p + of_nat 80)"
    by (rule load32_below [OF f2]) simp_all
  have l31: "load32 (ram ?K3) (?p + of_nat 80) = load32 (ram ?K2) (?p + of_nat 80)"
    "load32 (ram ?K3) (?p + of_nat 84) = load32 (ram ?K2) (?p + of_nat 84)"
    by (rule load32_below [OF f3]; simp)+
  have st: "stream_disk (streams ?K3 (blk_addr c)) = disk_addr k" if "c \<in> {c1, c2, c3}" for c
    using that c1(4) c2(4) c3(4) d2 d3 by (auto simp: poke32_def)
  have ne: "c1 \<noteq> c2" "c1 \<noteq> c3" "c2 \<noteq> c3" "A1 c2 = None" "A1 c3 = None" using c2(1) c3(1) by (auto split: if_splits)
  show ?thesis
    using run g3 c1 c2 c3 ne st l1 l2 l3 l21 l31
    by (intro exI [of _ c1] exI [of _ c2] exI [of _ c3] exI [of _ ?K3]) simp
qed

subsection \<open>Reading the boot sector\<close>

definition image_bytes :: "(nat \<Rightarrow> u8) \<Rightarrow> mem" where
  \<comment> \<open>the beginning of the disk, addressed like memory\<close>
  "image_bytes img a = img (unat a)"

lemma fat_h_at_copied:
  assumes "copied q m' p m 62"
  shows "fat_h_at m' q = fat_h_at m p"
proof -
  have "m' (q + 1) = m (p + 1)" using assms [unfolded copied_def, rule_format, of 1] by simp
  then show ?thesis
    by (simp add: fat_h_at_def fat_header_at_def fat_header_extended_at_def load32_def load16_def add.assoc copied_loads [OF assms])
qed

lemma grown_read:
  assumes g: "grown k A K A'" and b: "b < 25600" "\<not> covered A b" and adv: "advanced K m K'" and w: "in_block b (ram K) m"
  shows "grown k A K' A'"
proof -
  have rep: "kheap_rep (K\<lparr>ram := m\<rparr>) A'" by (rule in_block_rep [OF grownD(1) [OF g] b(1) w])
  have "ram K' = m" "kernel_heap K' = kernel_heap K" by (rule advancedD [OF adv])+
  then have "kheap_rep K' A'" using rep by (simp add: kheap_rep_def)
  moreover have "ram K' a = ram k a" if "stable A a" for a
    using that b w grownD(3) [OF g that] advancedD(1) [OF adv] by (simp add: stable_def in_block_def)
  moreover have "same_rest k K'" by (rule same_rest_trans [OF grownD(4) [OF g] advanced_rest [OF adv]])
  moreover have "stream_disk (streams K' st) = stream_disk (streams K st)" for st by (rule advancedD(6) [OF adv])
  ultimately show ?thesis
    using grownD [OF g] advancedD(2,4,5) [OF adv] unfolding grown_def by metis
qed

lemma put_block_at:
  assumes "j + length bs \<le> 4096" and "i < 4096"
  shows "put_bytes (blk_addr b + of_nat j) bs m (blk_addr b + of_nat i)
    = (if j \<le> i \<and> i < j + length bs then bs ! (i - j) else m (blk_addr b + of_nat i))"
proof -
  have "unat (of_nat i - of_nat j :: u32) = (if j \<le> i then i - j else i + 4294967296 - j)"
    using assms by (simp add: unat_sub32 unat_of_nat32)
  then show ?thesis using assms by (auto simp: put_bytes_at)
qed

lemma read_block_run:
  fixes k K :: "'a io_state_scheme"
  assumes g: "grown k A K A'" and b: "b < 25600" "\<not> covered A b"
    and st: "stream_disk (streams K st) = disk_addr K" and p: "pos (streams K st) = int p" "p + n < 2147483648" and n: "n \<le> 4096"
  shows "\<exists>K1. read_into st (blk_addr b) (int n) K = Some (0, K1) \<and> grown k A K1 A'
    \<and> (\<forall>i < 4096. ram K1 (blk_addr b + of_nat i) = (if i < n then ata_image (drive k) (p + i) else ram K (blk_addr b + of_nat i)))
    \<and> in_block b (ram K) (ram K1)
    \<and> (\<forall>st. stream_disk (streams K1 st) = stream_disk (streams K st))"
proof -
  from read_on [OF st grownD(7) [OF g] p] obtain K0 where
    K0: "diskstreamer_read st (int n) K = Some (0, img_slice (ata_image (drive K)) p n, K0)" "advanced K (ram K) K0" by blast
  let ?bs = "img_slice (ata_image (drive K)) p n"
  let ?m = "put_bytes (blk_addr b + of_nat 0) ?bs (ram K)"
  let ?K1 = "K0\<lparr>ram := ?m\<rparr>"
  have adv: "advanced K ?m ?K1" by (rule advanced_ram [OF K0(2)])
  have w: "in_block b (ram K) ?m" by (rule in_block_put) (use n in simp)
  have at: "?m (blk_addr b + of_nat i) = (if i < n then ata_image (drive k) (p + i) else ram K (blk_addr b + of_nat i))"
    if "i < 4096" for i
    using put_block_at [of 0 ?bs i b "ram K"] that n grownD(6) [OF g] by (simp add: img_slice_def)
  have "read_into st (blk_addr b) (int n) K = Some (0, ?K1)"
    using advancedD(1) [OF K0(2)] by (simp add: read_into_def K0(1))
  then show ?thesis
    using grown_read [OF g b adv w] at w advancedD(6) [OF adv] by (intro exI [of _ ?K1]) simp
qed

subsection \<open>The root directory\<close>

lemma grown_fresh:
  assumes g: "grown k A K A1" and "D < 25600" and "\<not> covered A1 D"
  shows "\<not> covered A D"
proof
  assume c: "covered A D"
  have "4096 \<le> unat (blk_addr D - blk_addr e)" if "e < 25600" "\<not> covered A e" for e
    using other_block_byte [of D e 0] that assms(2) c by auto
  moreover have "25600 \<le> unat (blk_addr D - 0x7E00)" using live_not_table [of D 0] assms(2) by simp
  ultimately have "stable A (blk_addr D)" by (simp add: stable_def)
  then have "stable A1 (blk_addr D)" by (rule grownD(2) [OF g])
  then have "4096 \<le> unat (blk_addr D - blk_addr D)" using assms(2,3) unfolding stable_def by blast
  then show False by simp
qed

lemma load_store_block:
  assumes "j + 4 \<le> j' \<or> j' + 4 \<le> j" and "j + 4 \<le> 4096" "j' < 4096"
  shows "load32 (store32 m (blk_addr b + of_nat j') v) (blk_addr b + of_nat j) = load32 m (blk_addr b + of_nat j)"
proof (rule load32_block)
  fix l :: nat assume "l < 4"
  then show "store32 m (blk_addr b + of_nat j') v (blk_addr b + of_nat (j + l)) = m (blk_addr b + of_nat (j + l))"
    using assms block_store_below [of "j + l" j' m b v] block_store_other [of j' "j + l" m b v] by auto
qed

definition root_start :: "fat_header \<Rightarrow> nat" where
  "root_start h = unat (fat_copies h) * unat (sectors_per_fat h) + unat (reserved_sectors h)"

definition root_entries :: "fat_header \<Rightarrow> nat" where
  "root_entries h = unat (root_dir_entries h)"

lemma grown_same_block:
  assumes "grown k A K A1" and "kheap_rep k A" "A b = Some 1" and "n \<le> 4096"
  shows "same_bytes (blk_addr b) n (ram k) (ram K)"
  using grownD(3) [OF assms(1) stable_block [OF assms(2,3)]] assms(4) by (simp add: same_bytes_def)

definition set_directory :: "nat \<Rightarrow> u32 \<Rightarrow> u32 \<Rightarrow> u32 \<Rightarrow> u32 \<Rightarrow> mem \<Rightarrow> mem" where
  \<comment> \<open>the four fields of the root directory in the private structure at block \<open>b\<close>\<close>
  "set_directory b v0 v1 v2 v3 m = store32 (store32 (store32 (store32 m (blk_addr b + of_nat 64) v0) (blk_addr b + of_nat 68) v1)
    (blk_addr b + of_nat 72) v2) (blk_addr b + of_nat 76) v3"

lemma set_directory_at:
  "fat_directory_at (set_directory b v0 v1 v2 v3 m) (blk_addr b + 64)
    = \<lparr>dir_item = v0, dir_total = as_int v1, sector_pos = as_int v2, ending_sector_pos = as_int v3\<rparr>"
proof -
  let ?m = "set_directory b v0 v1 v2 v3 m"
  have "load32 ?m (blk_addr b + of_nat 64) = v0" "load32 ?m (blk_addr b + of_nat 68) = v1"
    "load32 ?m (blk_addr b + of_nat 72) = v2" "load32 ?m (blk_addr b + of_nat 76) = v3"
    unfolding set_directory_def by (simp_all add: load_store_block del: of_nat_numeral)
  then show ?thesis by (simp add: fat_directory_at_def add.assoc)
qed

lemma set_directory_block: "in_block b m (set_directory b v0 v1 v2 v3 m)"
  unfolding set_directory_def by (rule in_block_trans [OF in_block_trans [OF in_block_trans]]; rule in_block_store32) simp_all

lemma set_directory_other:
  assumes "i < 4096" and "i < 64 \<or> 80 \<le> i"
  shows "set_directory b v0 v1 v2 v3 m (blk_addr b + of_nat i) = m (blk_addr b + of_nat i)"
  using assms(2)
proof
  assume "i < 64"
  then show ?thesis unfolding set_directory_def by (simp add: block_store_below del: of_nat_numeral)
next
  assume "80 \<le> i"
  then show ?thesis using assms(1) unfolding set_directory_def by (simp add: block_store_other del: of_nat_numeral)
qed

lemma poke_directory:
  "poke32 (blk_addr b + 64 + 12) v3 (poke32 (blk_addr b + 64 + 8) v2 (poke32 (blk_addr b + 64 + 4) v1 (poke32 (blk_addr b + 64) v0 K)))
   = K\<lparr>ram := set_directory b v0 v1 v2 v3 (ram K)\<rparr>"
  by (simp add: poke32_def set_directory_def add.assoc)

lemma poke_disk: "the_disk (poke32 a v k) = the_disk k"
  by (simp add: poke32_def)

lemma used_items_le: "used_items k p n \<le> n"
  using length_filter_le [of "\<lambda>i. entry_mark k p i \<noteq> 0xE5" "[0..<n]"] by (simp add: used_items_def)

lemma root_directory_run:
  fixes k K :: "'a io_state_scheme"
  assumes g: "grown k A K A1" and b: "b < 25600" "\<not> covered A b" "A1 b = Some 1"
    and fsp: "fs_private (the_disk k) = blk_addr b" and m: "mounted K"
    and h: "primary_header (header (the_private K)) = h" and E: "0 < root_entries h" "root_entries h \<le> 128"
    and first: "\<forall>i < n. entry_mark k (512 * root_start h) i \<noteq> 0" "entry_mark k (512 * root_start h) n = 0"
    and bound: "512 * root_start h + 32 * n + 32 < 2147483648" "512 * root_start h + 4096 < 2147483648"
    and free: "0 < free_blocks 25600 A1"
  shows "\<exists>D K'. fat16_get_root_directory (blk_addr b) (blk_addr b + 64) K = Some (0, K')
    \<and> grown k A K' (A1(D \<mapsto> 1)) \<and> A1 D = None \<and> D < 25600
    \<and> free_blocks 25600 A1 = Suc (free_blocks 25600 (A1(D \<mapsto> 1)))
    \<and> fat_directory_at (ram K') (blk_addr b + 64) = \<lparr>dir_item = blk_addr D, dir_total = int (used_items k (512 * root_start h) n),
        sector_pos = int (root_start h), ending_sector_pos = int (root_start h + root_entries h div 16)\<rparr>
    \<and> (\<forall>i < 32 * root_entries h. ram K' (blk_addr D + of_nat i) = ata_image (drive k) (512 * root_start h + i))
    \<and> (\<forall>i < 4096. i < 64 \<or> 80 \<le> i \<longrightarrow> ram K' (blk_addr b + of_nat i) = ram K (blk_addr b + of_nat i))
    \<and> (\<forall>st. stream_disk (streams K st) = disk_addr k \<longrightarrow> stream_disk (streams K' st) = disk_addr k)"
proof -
  let ?R = "root_start h" and ?N = "root_entries h" and ?p = "blk_addr b"
  let ?st = "directory_stream (the_private K)"
  have priv: "the_private K = fat_private_at (ram K) ?p" using fsp grownD(5) [OF g] by (simp add: the_private_def)
  have marks: "entry_mark K = entry_mark k" "used_items K = used_items k"
    using grownD(6) [OF g] by (simp_all add: fun_eq_iff entry_mark_def used_items_def)
  obtain K1 where K1: "fat16_get_total_items_for_directory (of_nat ?R) K = Some (int (used_items k (512 * ?R) n), K1)"
    "advanced K (ram K) K1"
    using total_items_run [OF m, of n ?R] first bound(1) unfolding marks by blast
  have g1: "grown k A K1 A1" by (rule grown_read [OF g b(1,2) K1(2)]) simp
  have "0 < unat (of_nat (32 * ?N) :: u32)" "unat (of_nat (32 * ?N) :: u32) \<le> 4096"
    using E unat_of_nat32 [of "32 * ?N"] by simp_all
  from grown_alloc [OF grownD(1) [OF g1] grownD(7) [OF g1] this free] obtain D K2
    where K2: "kzalloc (of_nat (32 * ?N)) K1 = (blk_addr D, K2)" "D < 25600" "A1 D = None" "\<not> covered A1 D"
      "grown K1 A1 K2 (A1(D \<mapsto> 1))" "streams K2 = streams K1"
      "free_blocks 25600 A1 = Suc (free_blocks 25600 (A1(D \<mapsto> 1)))" by blast
  have g2: "grown k A K2 (A1(D \<mapsto> 1))" by (rule grown_trans [OF g1 K2(5)])
  have Db: "D \<noteq> b" using K2(3) b(3) by auto
  have fresh: "\<not> covered A D" by (rule grown_fresh [OF g K2(2,4)])
  have same12: "same_bytes ?p 4096 (ram K) (ram K2)"
    using grown_same_block [OF K2(5) grownD(1) [OF g1] b(3), of 4096] advancedD(1) [OF K1(2)] by simp
  have priv2: "fat_private_at (ram K2) ?p = the_private K"
    using fat_private_at_same [of ?p "ram K" "ram K2"] same_bytes_sub [OF same12, of 0 92] unfolding priv by simp
  define K3 where "K3 = snd (diskstreamer_seek ?st (int (512 * ?R)) K2)"
  have adv3: "advanced K2 (ram K2) K3" unfolding K3_def by (rule seek_advanced [OF grownD(7) [OF g2]])
  have g3: "grown k A K3 (A1(D \<mapsto> 1))" by (rule grown_read [OF g2 K2(2) fresh adv3]) simp
  have kept: "stream_disk (streams K3 st) = stream_disk (streams K st)" for st
    using advancedD(6) [OF adv3, of st] advancedD(6) [OF K1(2), of st] K2(6) by simp
  have st3: "stream_disk (streams K3 ?st) = disk_addr K3"
    using kept [of ?st] mountedD(7) [OF m] grownD(8) [OF g3] grownD(8) [OF g] by simp
  have "\<exists>K4. read_into ?st (blk_addr D) (int (32 * ?N)) K3 = Some (0, K4) \<and> grown k A K4 (A1(D \<mapsto> 1))
    \<and> (\<forall>i < 4096. ram K4 (blk_addr D + of_nat i) = (if i < 32 * ?N then ata_image (drive k) (512 * ?R + i) else ram K3 (blk_addr D + of_nat i)))
    \<and> in_block D (ram K3) (ram K4)
    \<and> (\<forall>st. stream_disk (streams K4 st) = stream_disk (streams K3 st))"
    by (rule read_block_run [OF g3 K2(2) fresh st3]) (use E bound(2) in \<open>simp_all add: K3_def diskstreamer_seek_def\<close>)
  then obtain K4 where K4: "read_into ?st (blk_addr D) (int (32 * ?N)) K3 = Some (0, K4)" "grown k A K4 (A1(D \<mapsto> 1))"
    "\<forall>i < 4096. ram K4 (blk_addr D + of_nat i) = (if i < 32 * ?N then ata_image (drive k) (512 * ?R + i) else ram K3 (blk_addr D + of_nat i))"
    "in_block D (ram K3) (ram K4)" "\<forall>st. stream_disk (streams K4 st) = stream_disk (streams K3 st)" by blast
  let ?U = "used_items k (512 * ?R) n"
  let ?K5 = "K4\<lparr>ram := set_directory b (blk_addr D) (of_nat ?U) (of_nat ?R) (of_nat (?R + ?N div 16)) (ram K4)\<rparr>"
  have g5: "grown k A ?K5 (A1(D \<mapsto> 1))" by (rule grown_write [OF K4(2) b(1,2) set_directory_block])
  have nz: "blk_addr D \<noteq> 0" using K2(2) by (rule blk_addr_nonzero)
  have sec: "sector_size (the_disk K2) = 512" "sector_size (the_disk K4) = 512"
    using mountedD(2) [OF m] grownD(5) [OF g] grownD(5) [OF g2] grownD(5) [OF K4(2)] by simp_all
  have h': "primary_header (header (fat_private_at (ram K) ?p)) = h" "directory_stream (fat_private_at (ram K2) ?p) = ?st"
    using h priv priv2 by simp_all
  have ints: "uint (fat_copies h) * uint (sectors_per_fat h) + uint (reserved_sectors h) = int ?R"
    "uint (root_dir_entries h) * 32 = int (32 * ?N)"
    by (simp_all add: root_start_def root_entries_def)
  have sd: "int ?R + int (32 * ?N) sdiv 512 = int (?R + ?N div 16)"
  proof -
    have "int (32 * ?N) sdiv 512 = int (32 * ?N div 512)" by (simp add: signed_divide_int_def sgn_if zdiv_int)
    moreover have "32 * ?N div 512 = ?N div 16" using div_mult2_eq [of "32 * ?N" 32 16] by simp
    ultimately show ?thesis by simp
  qed
  have abs: "fat16_sector_to_absolute (int ?R) K2 = int (512 * ?R)" by (simp add: fat16_sector_to_absolute_def sec)
  have seek: "diskstreamer_seek ?st (int (512 * ?R)) K2 = (0, K3)" by (simp add: K3_def diskstreamer_seek_def)
  have run: "fat16_get_root_directory ?p (?p + 64) K = Some (0, ?K5)"
    by (simp only: fat16_get_root_directory_def Let_def h' ints as_u32_of_nat K1(1) Option.bind.bind_lunit prod.case K2(1) nz
        if_False if_True abs seek PEACHOS_ALL_OK_def simp_thms K4(1) poke_disk sec sd poke_directory)
  have U: "?U < 2147483648" "?R < 2147483648" "?R + ?N div 16 < 2147483648"
    using used_items_le [of k "512 * ?R" n] bound E by simp_all
  have dir: "fat_directory_at (ram ?K5) (?p + 64) = \<lparr>dir_item = blk_addr D, dir_total = int ?U,
      sector_pos = int ?R, ending_sector_pos = int (?R + ?N div 16)\<rparr>"
    using U by (simp add: set_directory_at as_int_of_nat del: of_nat_add)
  have items: "ram ?K5 (blk_addr D + of_nat i) = ata_image (drive k) (512 * ?R + i)" if "i < 32 * ?N" for i
  proof -
    have i: "i < 4096" using that E(2) by simp
    have "ram ?K5 (blk_addr D + of_nat i) = ram K4 (blk_addr D + of_nat i)"
      using in_block_other [OF set_directory_block Db b(1) K2(2), of 4096] i by (simp add: same_bytes_def)
    then show ?thesis using K4(3) that i by simp
  qed
  have rest: "ram ?K5 (?p + of_nat i) = ram K (?p + of_nat i)" if i: "i < 4096" "i < 64 \<or> 80 \<le> i" for i
  proof -
    have "ram ?K5 (?p + of_nat i) = ram K4 (?p + of_nat i)" using set_directory_other [OF i] by simp
    also have "\<dots> = ram K3 (?p + of_nat i)"
      using in_block_other [OF K4(4) Db [symmetric] K2(2) b(1), of 4096] i(1) by (simp add: same_bytes_def)
    also have "\<dots> = ram K2 (?p + of_nat i)" using advancedD(1) [OF adv3] by simp
    also have "\<dots> = ram K (?p + of_nat i)" using same12 i(1) by (simp add: same_bytes_def)
    finally show ?thesis .
  qed
  show ?thesis
    using run g5 K2(2,3,7) dir items rest K4(5) kept
    by (intro exI [of _ D] exI [of _ ?K5]) simp
qed

subsection \<open>Resolving a disk\<close>

definition boot_header :: "'a io_state_scheme \<Rightarrow> fat_h" where
  \<comment> \<open>the header at the beginning of the disk\<close>
  "boot_header k = fat_h_at (image_bytes (ata_image (drive k))) 0"

lemma grown_disk:
  assumes "grown k A K A'"
  shows "grown (k\<lparr>the_disk := x\<rparr>) A (K\<lparr>the_disk := x\<rparr>) A'"
proof -
  have "K = k\<lparr>ram := ram K, drive := drive K, the_disk := the_disk K, streams := streams K\<rparr>"
    using grownD(4) [OF assms] by (simp add: same_rest_def)
  then have "K\<lparr>the_disk := x\<rparr> = k\<lparr>ram := ram K, drive := drive K, the_disk := the_disk K, streams := streams K\<rparr>\<lparr>the_disk := x\<rparr>"
    by (rule arg_cong)
  then have "same_rest (k\<lparr>the_disk := x\<rparr>) (K\<lparr>the_disk := x\<rparr>)" by (simp add: same_rest_def)
  moreover have "kheap_rep (K\<lparr>the_disk := x\<rparr>) A'" using grownD(1) [OF assms] by (simp add: kheap_rep_def)
  ultimately show ?thesis using assms by (simp add: grown_def)
qed

definition mounting_disk :: "u32 \<Rightarrow> u32 \<Rightarrow> disk \<Rightarrow> disk" where
  "mounting_disk fs p d = d\<lparr>disk_filesystem := fs, fs_private := p\<rparr>"

definition resolve_end :: "int \<Rightarrow> u32 \<Rightarrow> 'a io_state_scheme \<Rightarrow> 'a io_state_scheme" where
  \<comment> \<open>the code behind \<^verbatim>\<open>out\<close>, the stream closed\<close>
  "resolve_end r p k = (if r < 0 then let k = kfree p k in k\<lparr>the_disk := (the_disk k)\<lparr>fs_private := 0\<rparr>\<rparr> else k)"

lemma resolve_start:
  fixes k :: "'a io_state_scheme"
  assumes rep: "kheap_rep k A" and resp: "ata_responsive (drive k)" and disk: "disk_id (the_disk k) = 0" "disk_addr k \<noteq> 0"
    and free: "6 \<le> free_blocks 25600 A"
  shows "\<exists>b c1 c2 c3 c4 K4 K5. let A4 = A(b \<mapsto> 1, c1 \<mapsto> 1, c2 \<mapsto> 1, c3 \<mapsto> 1); A5 = A4(c4 \<mapsto> 1);
        k' = k\<lparr>the_disk := mounting_disk fs (blk_addr b) (the_disk k)\<rparr>
    in b < 25600 \<and> \<not> covered A b \<and> A b = None \<and> A c1 = None \<and> A c2 = None \<and> A c3 = None \<and> A4 c4 = None
    \<and> distinct [b, c1, c2, c3] \<and> c1 < 25600 \<and> c2 < 25600 \<and> c3 < 25600 \<and> c4 < 25600
    \<and> free_blocks 25600 A = 5 + free_blocks 25600 A5 \<and> \<not> covered A4 c4
    \<and> (\<forall>r K. fat16_resolve_body (blk_addr c4) (blk_addr b) K4 = Some (r, K) \<longrightarrow>
         fat16_resolve fs dsk k = Some (r, resolve_end r (blk_addr b) (kfree (blk_addr c4) K)))
    \<and> read_into (blk_addr c4) (blk_addr b) 62 K4 = Some (0, K5) \<and> grown k' A K5 A5
    \<and> header (fat_private_at (ram K5) (blk_addr b)) = boot_header k
    \<and> load32 (ram K5) (blk_addr b + 80) = blk_addr c1 \<and> load32 (ram K5) (blk_addr b + 84) = blk_addr c2
    \<and> load32 (ram K5) (blk_addr b + 88) = blk_addr c3
    \<and> (\<forall>c \<in> {c1, c2, c3}. stream_disk (streams K5 (blk_addr c)) = disk_addr k)"
proof -
  have free1: "0 < free_blocks 25600 A" using free by simp
  obtain b K1 where K1: "kzalloc 92 k = (blk_addr b, K1)" "b < 25600" "A b = None" "\<not> covered A b"
    "grown k A K1 (A(b \<mapsto> 1))" "free_blocks 25600 A = Suc (free_blocks 25600 (A(b \<mapsto> 1)))"
    using grown_alloc [OF rep resp _ _ free1, of 92] by auto
  have "3 \<le> free_blocks 25600 (A(b \<mapsto> 1))" using free K1(6) by simp
  then obtain c1 c2 c3 K2 where K2: "fat16_init_private (blk_addr b) K1 = K2"
    "grown k A K2 (A(b \<mapsto> 1, c1 \<mapsto> 1, c2 \<mapsto> 1, c3 \<mapsto> 1))"
    and c: "(A(b \<mapsto> 1)) c1 = None" "(A(b \<mapsto> 1)) c2 = None" "(A(b \<mapsto> 1)) c3 = None"
      "c1 \<noteq> c2" "c1 \<noteq> c3" "c2 \<noteq> c3" "c1 < 25600" "c2 < 25600" "c3 < 25600"
      "free_blocks 25600 (A(b \<mapsto> 1)) = 3 + free_blocks 25600 (A(b \<mapsto> 1, c1 \<mapsto> 1, c2 \<mapsto> 1, c3 \<mapsto> 1))"
      "\<forall>c \<in> {c1, c2, c3}. stream_disk (streams K2 (blk_addr c)) = disk_addr k"
      "load32 (ram K2) (blk_addr b + of_nat 80) = blk_addr c1" "load32 (ram K2) (blk_addr b + of_nat 84) = blk_addr c2"
      "load32 (ram K2) (blk_addr b + of_nat 88) = blk_addr c3"
    using init_private_run [OF K1(5,2,4) _ disk] by auto
  let ?A4 = "A(b \<mapsto> 1, c1 \<mapsto> 1, c2 \<mapsto> 1, c3 \<mapsto> 1)"
  let ?x = "mounting_disk fs (blk_addr b) (the_disk k)"
  let ?k = "k\<lparr>the_disk := ?x\<rparr>" and ?K3 = "K2\<lparr>the_disk := ?x\<rparr>"
  have dist: "distinct [b, c1, c2, c3]" using c(1-6) by (auto split: if_splits)
  have None: "A c1 = None" "A c2 = None" "A c3 = None" using c(1-3) by (auto split: if_splits)
  have g3: "grown ?k A ?K3 ?A4" by (rule grown_disk [OF K2(2)])
  have K3: "?K3 = K2\<lparr>the_disk := (the_disk K2)\<lparr>disk_filesystem := fs, fs_private := blk_addr b\<rparr>\<rparr>"
    using grownD(5) [OF K2(2)] by (simp add: mounting_disk_def)
  have free4: "0 < free_blocks 25600 ?A4" "disk_addr ?K3 \<noteq> 0"
    using free K1(6) c(10) disk(2) grownD(8) [OF g3] by simp_all
  from stream_new [OF grownD(1) [OF g3] grownD(7) [OF g3] free4] obtain c4 K4
    where K4: "diskstreamer_new 0 ?K3 = (blk_addr c4, K4)" "c4 < 25600" "?A4 c4 = None" "grown ?K3 ?A4 K4 (?A4(c4 \<mapsto> 1))"
      "free_blocks 25600 ?A4 = Suc (free_blocks 25600 (?A4(c4 \<mapsto> 1)))"
      "streams K4 = (streams ?K3)(blk_addr c4 := \<lparr>pos = 0, stream_disk = disk_addr ?K3\<rparr>)" "\<not> covered ?A4 c4" by blast
  have g4: "grown ?k A K4 (?A4(c4 \<mapsto> 1))" by (rule grown_trans [OF g3 K4(4)])
  have at: "stream_disk (streams K4 (blk_addr c4)) = disk_addr K4" "pos (streams K4 (blk_addr c4)) = int 0"
    using K4(6) grownD(8) [OF K4(4)] by simp_all
  from read_block_run [OF g4 K1(2,4) at, of 62] obtain K5 where
    K5: "read_into (blk_addr c4) (blk_addr b) 62 K4 = Some (0, K5)" "grown ?k A K5 (?A4(c4 \<mapsto> 1))"
      "\<forall>i < 4096. ram K5 (blk_addr b + of_nat i) = (if i < 62 then ata_image (drive k) i else ram K4 (blk_addr b + of_nat i))"
      "\<forall>st. stream_disk (streams K5 st) = stream_disk (streams K4 st)" by auto
  have c4: "blk_addr c4 \<noteq> 0" by (rule blk_addr_nonzero [OF K4(2)])
  have run: "\<forall>r K. fat16_resolve_body (blk_addr c4) (blk_addr b) K4 = Some (r, K) \<longrightarrow>
         fat16_resolve fs dsk k = Some (r, resolve_end r (blk_addr b) (kfree (blk_addr c4) K))"
    using K4(1) disk(1) c4 unfolding K3
    by (simp add: fat16_resolve_def K1(1) K2(1) grownD(5) [OF K2(2)] diskstreamer_close_def resolve_end_def)
  have "copied (blk_addr b) (ram K5) 0 (image_bytes (ata_image (drive k))) 62"
    using K5(3) by (simp add: copied_def image_bytes_def unat_of_nat32)
  then have hdr: "header (fat_private_at (ram K5) (blk_addr b)) = boot_header k"
    by (simp add: fat_private_at_def boot_header_def fat_h_at_copied)
  have Ab: "?A4 b = Some 1" using dist by auto
  have K45: "ram K4 (blk_addr b + of_nat i) = ram K2 (blk_addr b + of_nat i)" if "i < 4096" for i
    using grownD(3) [OF K4(4) stable_block [OF grownD(1) [OF g3] Ab that]] by simp
  have ptr: "load32 (ram K5) (blk_addr b + of_nat j) = load32 (ram K2) (blk_addr b + of_nat j)" if "62 \<le> j" "j + 4 \<le> 4096" for j
    by (rule load32_block) (use K5(3) K45 that in \<open>simp del: of_nat_add\<close>)
  have st5: "stream_disk (streams K5 (blk_addr c)) = disk_addr k" if "c \<in> {c1, c2, c3}" for c
    using that c(11) grownD(9) [OF K4(4), of "blk_addr c"] grownD(8) [OF g3] K5(4) by auto
  have ball: "\<forall>c \<in> {c1, c2, c3}. stream_disk (streams K5 (blk_addr c)) = disk_addr k" using st5 by blast
  have ptrs: "load32 (ram K5) (blk_addr b + 80) = blk_addr c1" "load32 (ram K5) (blk_addr b + 84) = blk_addr c2"
    "load32 (ram K5) (blk_addr b + 88) = blk_addr c3"
    using ptr [of 80] ptr [of 84] ptr [of 88] c(12-14) by simp_all
  have free5: "free_blocks 25600 A = 5 + free_blocks 25600 (?A4(c4 \<mapsto> 1))" using K4(5) K1(6) c(10) by simp
  show ?thesis
    unfolding Let_def
    by (intro exI [of _ b] exI [of _ c1] exI [of _ c2] exI [of _ c3] exI [of _ c4] exI [of _ K4] exI [of _ K5] conjI)
      (fact K1(2-4) None K4(2,3) dist c(7-9) free5 K4(7) run K5(1,2) hdr ptrs ball)+
qed

lemma fat_private_parts:
  assumes "same_bytes p 62 m m'" and "fat_directory_at m' (p + 64) = d"
    and "load32 m' (p + 80) = s1" "load32 m' (p + 84) = s2" "load32 m' (p + 88) = s3"
  shows "fat_private_at m' p = \<lparr>header = header (fat_private_at m p), root_directory = d,
    cluster_read_stream = s1, fat_read_stream = s2, directory_stream = s3\<rparr>"
  using assms(2-5)
  by (simp add: fat_private_at_def fat_h_at_def fat_header_at_def fat_header_extended_at_def
      load32_def load16_def add.assoc same_loads [OF assms(1)])

lemma kfree_same_block:
  assumes "kheap_rep k A" and "A c = Some n" and "b < 25600"
  shows "same_bytes (blk_addr b) 4096 (ram k) (ram (kfree (blk_addr c) k))"
  unfolding same_bytes_def
proof (intro allI impI)
  fix i :: nat assume "i < 4096"
  then have "25600 \<le> unat (blk_addr b + of_nat i - 0x7E00)" using assms(3) by (intro live_not_table) simp
  then show "ram k (blk_addr b + of_nat i) = ram (kfree (blk_addr c) k) (blk_addr b + of_nat i)"
    using kfree_frame [OF assms(1,2)] by simp
qed

lemma resolve_run:
  fixes k :: "'a io_state_scheme"
  assumes rep: "kheap_rep k A" and resp: "ata_responsive (drive k)" and disk: "disk_id (the_disk k) = 0" "disk_addr k \<noteq> 0"
    and sector: "sector_size (the_disk k) = 512" and free: "6 \<le> free_blocks 25600 A"
    and h: "primary_header (boot_header k) = h" and sig: "signature (extended_header (boot_header k)) = 0x29"
    and spc: "sectors_per_cluster h \<noteq> 0" and E: "0 < root_entries h" "root_entries h \<le> 128"
    and first: "\<forall>i < n. entry_mark k (512 * root_start h) i \<noteq> 0" "entry_mark k (512 * root_start h) n = 0"
    and bound: "512 * root_start h + 32 * n + 32 < 2147483648" "512 * root_start h + 4096 < 2147483648"
  shows "\<exists>b D A' k'. fat16_resolve fs dsk k = Some (0, k') \<and> mounted k' \<and> kheap_rep k' A'
    \<and> A' b = Some 1 \<and> A' D = Some 1 \<and> A \<subseteq>\<^sub>m A' \<and> free_blocks 25600 A = 5 + free_blocks 25600 A' \<and> same_rest k k'
    \<and> the_disk k' = mounting_disk fs (blk_addr b) (the_disk k)
    \<and> header (the_private k') = boot_header k
    \<and> root_directory (the_private k') = \<lparr>dir_item = blk_addr D, dir_total = int (used_items k (512 * root_start h) n),
        sector_pos = int (root_start h), ending_sector_pos = int (root_start h + root_entries h div 16)\<rparr>
    \<and> (\<forall>i < 32 * root_entries h. ram k' (blk_addr D + of_nat i) = ata_image (drive k) (512 * root_start h + i))
    \<and> (\<forall>a. stable A a \<longrightarrow> ram k' a = ram k a)"
proof -
  from resolve_start [OF rep resp disk free, of fs dsk, unfolded Let_def] obtain b c1 c2 c3 c4 K4 K5 where
    b: "b < 25600" "\<not> covered A b" and b4: "distinct [b, c1, c2, c3]" "(A(b \<mapsto> 1, c1 \<mapsto> 1, c2 \<mapsto> 1, c3 \<mapsto> 1)) c4 = None"
    and none: "A b = None" "A c1 = None" "A c2 = None" "A c3 = None"
    and fb: "free_blocks 25600 A = 5 + free_blocks 25600 (A(b \<mapsto> 1, c1 \<mapsto> 1, c2 \<mapsto> 1, c3 \<mapsto> 1, c4 \<mapsto> 1))"
      "\<not> covered (A(b \<mapsto> 1, c1 \<mapsto> 1, c2 \<mapsto> 1, c3 \<mapsto> 1)) c4"
    and run: "\<forall>r K. fat16_resolve_body (blk_addr c4) (blk_addr b) K4 = Some (r, K) \<longrightarrow>
         fat16_resolve fs dsk k = Some (r, resolve_end r (blk_addr b) (kfree (blk_addr c4) K))"
    and K5: "read_into (blk_addr c4) (blk_addr b) 62 K4 = Some (0, K5)"
      "grown (k\<lparr>the_disk := mounting_disk fs (blk_addr b) (the_disk k)\<rparr>) A K5 (A(b \<mapsto> 1, c1 \<mapsto> 1, c2 \<mapsto> 1, c3 \<mapsto> 1, c4 \<mapsto> 1))"
      "header (fat_private_at (ram K5) (blk_addr b)) = boot_header k"
    and c: "load32 (ram K5) (blk_addr b + 80) = blk_addr c1" "load32 (ram K5) (blk_addr b + 84) = blk_addr c2"
      "load32 (ram K5) (blk_addr b + 88) = blk_addr c3" "\<forall>c \<in> {c1, c2, c3}. stream_disk (streams K5 (blk_addr c)) = disk_addr k"
      "c2 < 25600" "c4 < 25600"
    by (elim exE conjE) (rule that)
  let ?k = "k\<lparr>the_disk := mounting_disk fs (blk_addr b) (the_disk k)\<rparr>"
  let ?A5 = "A(b \<mapsto> 1, c1 \<mapsto> 1, c2 \<mapsto> 1, c3 \<mapsto> 1, c4 \<mapsto> 1)"
  have bc: "b \<noteq> c4" "?A5 b = Some 1" "?A5 c4 = Some 1" using b4 by (auto split: if_splits)
  have d5: "the_disk K5 = mounting_disk fs (blk_addr b) (the_disk k)" "disk_addr K5 = disk_addr k" "ata_responsive (drive K5)"
    using grownD(5,7,8) [OF K5(2)] by simp_all
  have priv5: "the_private K5 = fat_private_at (ram K5) (blk_addr b)" by (simp add: the_private_def d5 mounting_disk_def)
  have st5: "cluster_read_stream (the_private K5) = blk_addr c1" "fat_read_stream (the_private K5) = blk_addr c2"
    "directory_stream (the_private K5) = blk_addr c3" "header (the_private K5) = boot_header k"
    using c(1-3) K5(3) unfolding priv5 by (simp_all add: fat_private_at_def)
  have m5: "mounted K5"
    unfolding mounted_def st5 h d5 using d5(3) sector spc c(4) blk_addr_nonzero [OF c(5)] by (simp add: mounting_disk_def)
  have free5: "0 < free_blocks 25600 ?A5" using fb(1) free by simp
  have same: "entry_mark ?k = entry_mark k" "used_items ?k = used_items k"
    by (simp_all add: fun_eq_iff entry_mark_def used_items_def)
  have h5: "primary_header (header (the_private K5)) = h" using st5(4) h by simp
  have fsp: "fs_private (the_disk ?k) = blk_addr b" by (simp add: mounting_disk_def)
  from root_directory_run [OF K5(2) b bc(2) fsp m5 h5 E _ _ bound free5, unfolded same, OF first] obtain D K6 where
    D: "fat16_get_root_directory (blk_addr b) (blk_addr b + 64) K5 = Some (0, K6)" "grown ?k A K6 (?A5(D \<mapsto> 1))"
      "?A5 D = None" "D < 25600"
      "fat_directory_at (ram K6) (blk_addr b + 64) = \<lparr>dir_item = blk_addr D, dir_total = int (used_items k (512 * root_start h) n),
        sector_pos = int (root_start h), ending_sector_pos = int (root_start h + root_entries h div 16)\<rparr>"
      "\<forall>i < 32 * root_entries h. ram K6 (blk_addr D + of_nat i) = ata_image (drive k) (512 * root_start h + i)"
      "\<forall>i < 4096. i < 64 \<or> 80 \<le> i \<longrightarrow> ram K6 (blk_addr b + of_nat i) = ram K5 (blk_addr b + of_nat i)"
      "\<forall>st. stream_disk (streams K5 st) = disk_addr k \<longrightarrow> stream_disk (streams K6 st) = disk_addr k"
      "free_blocks 25600 ?A5 = Suc (free_blocks 25600 (?A5(D \<mapsto> 1)))"
    by auto
  have Dc: "D \<noteq> c4" "D \<noteq> b" using D(3) bc by auto
  let ?K7 = "kfree (blk_addr c4) K6" and ?A7 = "(?A5(D \<mapsto> 1))(c4 := None)"
  have A6: "(?A5(D \<mapsto> 1)) c4 = Some 1" using Dc(1) by simp
  have rep7: "kheap_rep ?K7 ?A7" by (rule kfree_rep [OF grownD(1) [OF D(2)] A6])
  have up7: "?K7 = K6\<lparr>ram := ram ?K7\<rparr>" by (rule kfree_ram)
  have f7: "the_disk ?K7 = the_disk K6" "disk_addr ?K7 = disk_addr K6" "drive ?K7 = drive K6" "streams ?K7 = streams K6"
    by (subst up7, simp)+
  have blk7: "same_bytes (blk_addr e) 4096 (ram K6) (ram ?K7)" if "e < 25600" for e
    by (rule kfree_same_block [OF grownD(1) [OF D(2)] A6 that])
  have "fat16_resolve_body (blk_addr c4) (blk_addr b) K4 = Some (0, K6)"
    using blk_addr_nonzero [OF c(6)] sig K5(3) by (simp add: fat16_resolve_body_def K5(1) D(1))
  then have res: "fat16_resolve fs dsk k = Some (0, ?K7)" using run by (simp add: resolve_end_def)
  have same6: "same_bytes (blk_addr b) 62 (ram K5) (ram K6)" using D(7) by (simp add: same_bytes_def)
  have ptr6: "load32 (ram K6) (blk_addr b + of_nat j) = load32 (ram K5) (blk_addr b + of_nat j)" if "80 \<le> j" "j + 4 \<le> 4096" for j
    by (rule load32_block) (use D(7) that in \<open>simp del: of_nat_add\<close>)
  have priv6: "fat_private_at (ram K6) (blk_addr b) = \<lparr>header = boot_header k,
      root_directory = fat_directory_at (ram K6) (blk_addr b + 64),
      cluster_read_stream = blk_addr c1, fat_read_stream = blk_addr c2, directory_stream = blk_addr c3\<rparr>"
    using fat_private_parts [OF same6 refl] ptr6 [of 80] ptr6 [of 84] ptr6 [of 88] c(1-3) K5(3) by simp
  have d7: "the_disk ?K7 = mounting_disk fs (blk_addr b) (the_disk k)" using grownD(5) [OF D(2)] f7 by simp
  have priv7: "the_private ?K7 = fat_private_at (ram K6) (blk_addr b)"
    using fat_private_at_same [of "blk_addr b" "ram K6" "ram ?K7"] same_bytes_sub [OF blk7 [OF b(1)], of 0 92]
    by (simp add: the_private_def d7 mounting_disk_def)
  have st7: "\<forall>c \<in> {c1, c2, c3}. stream_disk (streams ?K7 (blk_addr c)) = disk_addr k" using c(4) D(8) f7(4) by simp
  have m7: "mounted ?K7"
    unfolding mounted_def priv7 priv6
    using st7 spc h sector blk_addr_nonzero [OF c(5)] grownD(7,8) [OF D(2)]
    by (simp add: f7(2,3) d7) (simp add: mounting_disk_def)
  have items7: "\<forall>i < 32 * root_entries h. ram ?K7 (blk_addr D + of_nat i) = ata_image (drive k) (512 * root_start h + i)"
    using D(6) blk7 [OF D(4)] E(2) by (simp add: same_bytes_def)
  have "ram ?K7 a = ram k a" if a: "stable A a" for a
  proof -
    have "25600 \<le> unat (a - 0x7E00)" using a by (simp add: stable_def)
    then show ?thesis using kfree_frame [OF grownD(1) [OF D(2)] A6] grownD(3) [OF D(2) a] by simp
  qed
  then have frame7: "\<forall>a. stable A a \<longrightarrow> ram ?K7 a = ram k a" by blast
  have sub7: "A \<subseteq>\<^sub>m ?A7" using none b4 D(3) Dc bc by (auto simp: map_le_def split: if_splits)
  let ?A4 = "A(b \<mapsto> 1, c1 \<mapsto> 1, c2 \<mapsto> 1, c3 \<mapsto> 1)"
  have A7: "?A7 = ?A4(D \<mapsto> 1)"
  proof
    fix x show "?A7 x = (?A4(D \<mapsto> 1)) x" by (cases "x = c4") (use b4(2) Dc(1) Dc(1) [symmetric] in \<open>simp_all only: fun_upd_apply if_False if_True simp_thms\<close>)
  qed
  have D4: "?A4 D = None" using D(3) Dc(1) by (simp only: fun_upd_apply if_False)
  have "\<not> covered ?A7 c4" unfolding A7 using fb(2) Dc(1) by (simp only: covered_upd [of ?A4 D, OF D4]) simp
  then have "free_blocks 25600 ?A7 = Suc (free_blocks 25600 (?A7(c4 \<mapsto> 1)))"
    using c(6) by (intro free_blocks_one) (simp_all add: room_one)
  moreover have "?A7(c4 \<mapsto> 1) = ?A5(D \<mapsto> 1)" using A6 by (simp only: fun_upd_upd fun_upd_idem)
  ultimately have fb7: "free_blocks 25600 A = 5 + free_blocks 25600 ?A7" using fb(1) D(9) by simp
  have rest7: "same_rest k ?K7"
    by (subst up7) (rule same_rest_trans [OF same_rest_trans [OF same_rest_upd(2) grownD(4) [OF D(2)]] same_rest_upd(1)])
  have live7: "?A7 b = Some 1" "?A7 D = Some 1" using bc Dc by simp_all
  have hd7: "header (the_private ?K7) = boot_header k"
    "root_directory (the_private ?K7) = \<lparr>dir_item = blk_addr D, dir_total = int (used_items k (512 * root_start h) n),
        sector_pos = int (root_start h), ending_sector_pos = int (root_start h + root_entries h div 16)\<rparr>"
    using priv7 priv6 D(5) by simp_all
  show ?thesis
    by (intro exI [of _ b] exI [of _ D] exI [of _ ?A7] exI [of _ ?K7] conjI)
      (fact res m7 rep7 live7 sub7 fb7 rest7 d7 hd7 items7 frame7)+
qed

lemma resolve_refused:
  fixes k :: "'a io_state_scheme"
  assumes rep: "kheap_rep k A" and resp: "ata_responsive (drive k)" and disk: "disk_id (the_disk k) = 0" "disk_addr k \<noteq> 0"
    and free: "6 \<le> free_blocks 25600 A" and sig: "signature (extended_header (boot_header k)) \<noteq> 0x29"
  shows "\<exists>c1 c2 c3 k'. fat16_resolve fs dsk k = Some (- EFSNOTUS, k') \<and> fs_private (the_disk k') = 0
    \<and> A c1 = None \<and> A c2 = None \<and> A c3 = None \<and> distinct [c1, c2, c3]
    \<and> kheap_rep k' (A(c1 \<mapsto> 1, c2 \<mapsto> 1, c3 \<mapsto> 1))"
proof -
  from resolve_start [OF rep resp disk free, of fs dsk, unfolded Let_def] obtain b c1 c2 c3 c4 K4 K5 where
    b: "A b = None" "A c1 = None" "A c2 = None" "A c3 = None" "distinct [b, c1, c2, c3]"
      "(A(b \<mapsto> 1, c1 \<mapsto> 1, c2 \<mapsto> 1, c3 \<mapsto> 1)) c4 = None"
    and run: "\<forall>r K. fat16_resolve_body (blk_addr c4) (blk_addr b) K4 = Some (r, K) \<longrightarrow>
         fat16_resolve fs dsk k = Some (r, resolve_end r (blk_addr b) (kfree (blk_addr c4) K))"
    and K5: "read_into (blk_addr c4) (blk_addr b) 62 K4 = Some (0, K5)"
      "grown (k\<lparr>the_disk := mounting_disk fs (blk_addr b) (the_disk k)\<rparr>) A K5 (A(b \<mapsto> 1, c1 \<mapsto> 1, c2 \<mapsto> 1, c3 \<mapsto> 1, c4 \<mapsto> 1))"
      "header (fat_private_at (ram K5) (blk_addr b)) = boot_header k" and c4: "c4 < 25600"
    by (elim exE conjE) (rule that)
  let ?A5 = "A(b \<mapsto> 1, c1 \<mapsto> 1, c2 \<mapsto> 1, c3 \<mapsto> 1, c4 \<mapsto> 1)"
  let ?K6 = "kfree (blk_addr b) (kfree (blk_addr c4) K5)"
  have body: "fat16_resolve_body (blk_addr c4) (blk_addr b) K4 = Some (- EFSNOTUS, K5)"
    using blk_addr_nonzero [OF c4] sig K5(3) by (simp add: fat16_resolve_body_def K5(1))
  have ne: "c4 \<noteq> b" "c4 \<noteq> c1" "c4 \<noteq> c2" "c4 \<noteq> c3" using b(6) by (auto split: if_splits)
  have A5: "?A5 c4 = Some 1" "(?A5(c4 := None)) b = Some 1" using b(5) ne by auto
  have "kheap_rep ?K6 (?A5(c4 := None, b := None))"
    by (rule kfree_rep [OF kfree_rep [OF grownD(1) [OF K5(2)] A5(1)] A5(2)])
  moreover have "?A5(c4 := None, b := None) = A(c1 \<mapsto> 1, c2 \<mapsto> 1, c3 \<mapsto> 1)"
    using b ne by (auto simp: fun_eq_iff)
  ultimately have rep6: "kheap_rep (?K6\<lparr>the_disk := (the_disk ?K6)\<lparr>fs_private := 0\<rparr>\<rparr>) (A(c1 \<mapsto> 1, c2 \<mapsto> 1, c3 \<mapsto> 1))"
    by (simp add: kheap_rep_def)
  have "fat16_resolve fs dsk k = Some (- EFSNOTUS, ?K6\<lparr>the_disk := (the_disk ?K6)\<lparr>fs_private := 0\<rparr>\<rparr>)"
    using run body by (simp add: resolve_end_def Let_def)
  then show ?thesis
    using b(2-5) rep6 by (intro exI [of _ c1] exI [of _ c2] exI [of _ c3]
      exI [of _ "?K6\<lparr>the_disk := (the_disk ?K6)\<lparr>fs_private := 0\<rparr>\<rparr>"]) simp
qed

subsection \<open>What mounting promises\<close>

text \<open>
  C30: \<open>fat16_resolve\<close> on a disk whose boot sector has the FAT16 signature.  The disk is mounted: the private
  structure holds the boot sector's header, streams for data, table and directory, and the root directory with the
  entries of the image; five blocks were allocated for good, and nothing else in memory changed.
\<close>
theorem fat16_resolve_mounts:
  fixes k :: "'a io_state_scheme"
  assumes "kheap_rep k A" and "ata_responsive (drive k)" and "disk_id (the_disk k) = 0" "disk_addr k \<noteq> 0"
    and "sector_size (the_disk k) = 512" and "6 \<le> free_blocks 25600 A"
    and "primary_header (boot_header k) = h" and "signature (extended_header (boot_header k)) = 0x29"
    and "sectors_per_cluster h \<noteq> 0" and "0 < root_entries h" "root_entries h \<le> 128"
    and "\<forall>i < n. entry_mark k (512 * root_start h) i \<noteq> 0" "entry_mark k (512 * root_start h) n = 0"
    and "512 * root_start h + 32 * n + 32 < 2147483648" "512 * root_start h + 4096 < 2147483648"
  shows "\<exists>D A' k'. fat16_resolve fs dsk k = Some (0, k') \<and> mounted k' \<and> kheap_rep k' A' \<and> A \<subseteq>\<^sub>m A'
    \<and> free_blocks 25600 A = 5 + free_blocks 25600 A' \<and> disk_filesystem (the_disk k') = fs
    \<and> header (the_private k') = boot_header k
    \<and> root_directory (the_private k') = \<lparr>dir_item = D, dir_total = int (used_items k (512 * root_start h) n),
        sector_pos = int (root_start h), ending_sector_pos = int (root_start h + root_entries h div 16)\<rparr>
    \<and> (\<forall>i < 32 * root_entries h. ram k' (D + of_nat i) = ata_image (drive k) (512 * root_start h + i))
    \<and> (\<forall>a. stable A a \<longrightarrow> ram k' a = ram k a)"
proof -
  have *: "disk_filesystem (mounting_disk fs p x) = fs" for p x by (simp add: mounting_disk_def)
  from resolve_run [OF assms, of fs dsk] show ?thesis by (metis *)
qed

text \<open>
  C31: \<open>fat16_resolve\<close> on any other disk answers \<^verbatim>\<open>-EFSNOTUS\<close> and takes its private structure back.  Of the blocks
  it had allocated, those of the three streams stay allocated.
\<close>
theorem fat16_resolve_refuses:
  fixes k :: "'a io_state_scheme"
  assumes "kheap_rep k A" and "ata_responsive (drive k)" and "disk_id (the_disk k) = 0" "disk_addr k \<noteq> 0"
    and "6 \<le> free_blocks 25600 A" and "signature (extended_header (boot_header k)) \<noteq> 0x29"
  shows "\<exists>c1 c2 c3 k'. fat16_resolve fs dsk k = Some (- EFSNOTUS, k') \<and> fs_private (the_disk k') = 0
    \<and> A c1 = None \<and> A c2 = None \<and> A c3 = None \<and> distinct [c1, c2, c3]
    \<and> kheap_rep k' (A(c1 \<mapsto> 1, c2 \<mapsto> 1, c3 \<mapsto> 1))"
  by (rule resolve_refused [OF assms])

subsection \<open>Opening a file of a mounted disk\<close>

lemma stable_bytes_map_le: "A \<subseteq>\<^sub>m A' \<Longrightarrow> stable_bytes A a n \<Longrightarrow> stable_bytes A' a n"
  by (simp add: stable_bytes_def stable_map_le)

definition image_item :: "'a io_state_scheme \<Rightarrow> fat_header \<Rightarrow> nat \<Rightarrow> fat_directory_item" where
  \<comment> \<open>the \<open>i\<close>-th entry of the root directory on the disk\<close>
  "image_item k h i = fat_directory_item_at (image_bytes (ata_image (drive k))) (of_nat (512 * root_start h + 32 * i))"

definition image_name :: "'a io_state_scheme \<Rightarrow> fat_header \<Rightarrow> nat \<Rightarrow> u8 list" where
  "image_name k h i = full_name (item_name (image_item k h i)) (item_ext (image_item k h i))"

lemma loaded_item:
  fixes k :: "'a io_state_scheme"
  assumes "\<forall>i < 32 * root_entries h. m (D + of_nat i) = ata_image (drive k) (512 * root_start h + i)"
    and "i < root_entries h" and "512 * root_start h + 32 * root_entries h < 4294967296"
  shows "fat_directory_item_at m (D + of_nat (32 * i)) = image_item k h i"
    "item_filename m (D + of_nat (32 * i)) = image_name k h i"
proof -
  have "copied (D + of_nat (32 * i)) m (of_nat (512 * root_start h + 32 * i)) (image_bytes (ata_image (drive k))) 32"
    unfolding copied_def
  proof (intro allI impI)
    fix l :: nat assume l: "l < 32"
    have "m (D + of_nat (32 * i + l)) = ata_image (drive k) (512 * root_start h + (32 * i + l))"
      by (rule assms(1) [rule_format]) (use assms(2) l in linarith)
    moreover have "image_bytes (ata_image (drive k)) (of_nat (512 * root_start h + 32 * i + l))
        = ata_image (drive k) (512 * root_start h + 32 * i + l)"
      unfolding image_bytes_def by (subst unat_of_nat32) (use assms(2,3) l in simp_all)
    ultimately show "m (D + of_nat (32 * i) + of_nat l) = image_bytes (ata_image (drive k)) (of_nat (512 * root_start h + 32 * i) + of_nat l)"
      by (simp add: add.assoc)
  qed
  then show "fat_directory_item_at m (D + of_nat (32 * i)) = image_item k h i"
    unfolding image_item_def by (rule fat_directory_item_at_copied)
  then show "item_filename m (D + of_nat (32 * i)) = image_name k h i"
    by (simp add: item_filename_def image_name_def)
qed

lemma same_rest_more:
  assumes "same_rest k k'"
  shows "io_state.more k' = io_state.more k"
proof -
  have "io_state.more (k\<lparr>ram := m, drive := d, the_disk := x, streams := s\<rparr>) = io_state.more k" for m d x s
    by (cases k) simp
  then show ?thesis using assms unfolding same_rest_def by metis
qed

lemma mounted_directory_ok:
  assumes rep: "kheap_rep k' A'" and live: "A' b = Some 1" "A' D = Some 1" and le: "A \<subseteq>\<^sub>m A'"
    and priv: "fs_private (the_disk k') = blk_addr b"
    and root: "root_directory (the_private k') = \<lparr>dir_item = blk_addr D, dir_total = int N, sector_pos = s, ending_sector_pos = e\<rparr>"
    and frame: "\<forall>a. stable A a \<longrightarrow> ram k' a = m a" and N: "N \<le> 128"
    and np: "cstr m np nm" "length nm < 108" "stable_bytes A np (Suc (length nm))" "disjoint_from np (Suc (length nm)) tmp 108"
    and tmp: "0xE200 \<le> unat tmp" "unat tmp + 108 \<le> 16777216"
  shows "directory_ok k' A' tmp (fs_private (the_disk k') + 64) (blk_addr D) N np nm"
proof -
  have b: "b < 25600" "D < 25600" using kheap_rep_pos [OF rep live(1)] kheap_rep_pos [OF rep live(2)] by simp_all
  have "fat_directory_at (ram k') (blk_addr b + 64) = \<lparr>dir_item = blk_addr D, dir_total = int N, sector_pos = s, ending_sector_pos = e\<rparr>"
    using root priv by (simp add: the_private_def fat_private_at_def)
  moreover have "same_bytes np (Suc (length nm)) m (ram k')"
    using np(3) frame by (simp add: same_bytes_def stable_bytes_def)
  then have "cstr (ram k') np nm" by (rule cstr_same [OF np(1)])
  moreover have "stable_bytes A' (blk_addr b + 64) 16"
    using stable_bytes_block [OF rep live(1), of 80]
    unfolding stable_bytes_def
  proof (intro allI impI)
    fix i :: nat assume s: "80 \<le> (4096 :: nat) \<Longrightarrow> \<forall>i < 80. stable A' (blk_addr b + of_nat i)" and "i < 16"
    then have "stable A' (blk_addr b + of_nat (64 + i))" by (intro s [rule_format]) simp_all
    then show "stable A' (blk_addr b + 64 + of_nat i)" by (simp add: add.assoc)
  qed
  moreover have "stable_bytes A' (blk_addr D) (32 * N)" by (rule stable_bytes_block [OF rep live(2)]) (use N in simp)
  moreover have "stable_bytes A' np (Suc (length nm))" by (rule stable_bytes_map_le [OF le np(3)])
  moreover have "disjoint_from 0x7E00 25600 tmp 108"
    by (rule disjoint_from_below) (use tmp in simp_all)
  moreover have "disjoint_from (blk_addr b + 64) 16 tmp 108"
    by (rule disjoint_from_above) (use tmp b unat_blk_byte [of b 64] in simp_all)
  moreover have "disjoint_from (blk_addr D) (32 * N) tmp 108" by (rule block_off_stack [OF tmp(2) b(2)]) (use N in simp)
  ultimately show ?thesis unfolding directory_ok_def priv using rep np(2,4) N by simp
qed

lemma mounted_search:
  fixes k :: "'a path_state_scheme"
  assumes disk: "kheap_rep k A" "ata_responsive (drive k)" "disk_id (the_disk k) = 0" "disk_addr k \<noteq> 0"
      "sector_size (the_disk k) = 512" "8 \<le> free_blocks 25600 A"
      "primary_header (boot_header k) = h" "signature (extended_header (boot_header k)) = 0x29"
      "sectors_per_cluster h \<noteq> 0" "0 < root_entries h" "root_entries h \<le> 128" "n \<le> root_entries h"
      "\<forall>i < n. entry_mark k (512 * root_start h) i \<noteq> 0" "entry_mark k (512 * root_start h) n = 0"
      "512 * root_start h + 4160 < 2147483648"
    and path: "cstr (ram k) (part_str (path_parts k path)) nm" "length nm < 108" "part_next (path_parts k path) = 0"
      "stable_bytes A (part_str (path_parts k path)) (Suc (length nm))"
      "disjoint_from (part_str (path_parts k path)) (Suc (length nm)) tmp 108"
      "0xE200 \<le> unat tmp" "unat tmp + 108 \<le> 16777216"
  shows "\<exists>D A' k'. fat16_resolve fs dsk k = Some (0, k') \<and> mounted k' \<and> path_parts k' = path_parts k
    \<and> directory_ok k' A' tmp (fs_private (the_disk k') + 64) D (used_items k (512 * root_start h) n)
        (part_str (path_parts k' path)) nm
    \<and> 3 \<le> free_blocks 25600 A'
    \<and> (\<forall>i < used_items k (512 * root_start h) n.
          (name_matches (ram k') D i nm \<longleftrightarrow> map tolower (image_name k h i) = map tolower nm)
          \<and> fat_directory_item_at (ram k') (D + of_nat (32 * i)) = image_item k h i)"
proof -
  let ?np = "part_str (path_parts k path)" and ?U = "used_items k (512 * root_start h) n"
  have six: "6 \<le> free_blocks 25600 A" and bound: "512 * root_start h + 32 * n + 32 < 2147483648"
      "512 * root_start h + 4096 < 2147483648" "512 * root_start h + 32 * root_entries h < 4294967296"
    using disk(6,11,12,15) by simp_all
  have U: "?U \<le> n" by (rule used_items_le)
  obtain b D A' k' where r: "fat16_resolve fs dsk k = Some (0, k')" "mounted k'" "kheap_rep k' A'" "A' b = Some 1" "A' D = Some 1"
    "A \<subseteq>\<^sub>m A'" "free_blocks 25600 A = 5 + free_blocks 25600 A'" "same_rest k k'"
    "the_disk k' = mounting_disk fs (blk_addr b) (the_disk k)"
    "root_directory (the_private k') = \<lparr>dir_item = blk_addr D, dir_total = int ?U,
        sector_pos = int (root_start h), ending_sector_pos = int (root_start h + root_entries h div 16)\<rparr>"
    "\<forall>i < 32 * root_entries h. ram k' (blk_addr D + of_nat i) = ata_image (drive k) (512 * root_start h + i)"
    "\<forall>a. stable A a \<longrightarrow> ram k' a = ram k a"
    using resolve_run [OF disk(1-5) six disk(7-11,13,14) bound(1,2), of fs dsk] by blast
  have priv: "fs_private (the_disk k') = blk_addr b" using r(9) by (simp add: mounting_disk_def)
  have parts: "path_parts k' = path_parts k" using same_rest_more [OF r(8)] by (cases k; cases k') simp
  have ok: "directory_ok k' A' tmp (fs_private (the_disk k') + 64) (blk_addr D) ?U (part_str (path_parts k' path)) nm"
    unfolding parts
    by (rule mounted_directory_ok [OF r(3-6) priv r(10,12) _ path(1,2,4-7)]) (use U disk(11,12) in simp)
  note item = loaded_item [OF r(11) _ bound(3)]
  have names: "name_matches (ram k') (blk_addr D) i nm \<longleftrightarrow> map tolower (image_name k h i) = map tolower nm" if "i < ?U" for i
    unfolding name_matches_def using item(2) [of i] that U disk(12) by simp
  moreover have "fat_directory_item_at (ram k') (blk_addr D + of_nat (32 * i)) = image_item k h i" if "i < ?U" for i
    by (rule item(1)) (use that U disk(12) in simp)
  moreover have "3 \<le> free_blocks 25600 A'" using r(7) disk(6) by simp
  ultimately show ?thesis using r(1,2) ok parts by blast
qed

text \<open>
  C28: mounting a disk and opening a file of it.  If exactly one entry of the root directory on the disk has the
  name of the path, up to the case of letters, is no directory and stands at an index below the number of entries
  that are not deleted, then after \<open>fat16_resolve\<close> the call \<open>fat16_open\<close> succeeds, and the descriptor is at
  position 0 of a copy of the entry on the disk.  The bound on the index is the code's: it searches as many entries
  as it counted that are not deleted, so deleted entries push those at the end out of sight (\<open>fat16_open_hidden\<close>).
\<close>
theorem fat16_mount_open:
  fixes k :: "'a path_state_scheme"
  assumes disk: "kheap_rep k A" "ata_responsive (drive k)" "disk_id (the_disk k) = 0" "disk_addr k \<noteq> 0"
      "sector_size (the_disk k) = 512" "8 \<le> free_blocks 25600 A"
      "primary_header (boot_header k) = h" "signature (extended_header (boot_header k)) = 0x29"
      "sectors_per_cluster h \<noteq> 0" "0 < root_entries h" "root_entries h \<le> 128" "n \<le> root_entries h"
      "\<forall>i < n. entry_mark k (512 * root_start h) i \<noteq> 0" "entry_mark k (512 * root_start h) n = 0"
      "512 * root_start h + 4160 < 2147483648"
    and path: "cstr (ram k) (part_str (path_parts k path)) nm" "length nm < 108" "part_next (path_parts k path) = 0"
      "stable_bytes A (part_str (path_parts k path)) (Suc (length nm))"
      "disjoint_from (part_str (path_parts k path)) (Suc (length nm)) tmp 108"
      "0xE200 \<le> unat tmp" "unat tmp + 108 \<le> 16777216"
    and entry: "j < used_items k (512 * root_start h) n" "map tolower (image_name k h j) = map tolower nm"
      "\<And>i. i < n \<Longrightarrow> i \<noteq> j \<Longrightarrow> map tolower (image_name k h i) \<noteq> map tolower nm"
      "attribute (image_item k h j) AND FAT_FILE_SUBDIRECTORY = 0"
  shows "\<exists>k' p f c k1. fat16_resolve fs dsk k = Some (0, k')
    \<and> fat16_open tmp dsk path FILE_MODE_READ k' = Some (p, k1)
    \<and> fat_file_descriptor_at (ram k1) p = \<lparr>desc_item = f, desc_pos = 0\<rparr>
    \<and> fat_item_at (ram k1) f = \<lparr>item_ptr = c, item_type = FAT_ITEM_TYPE_FILE\<rparr>
    \<and> fat_directory_item_at (ram k1) c = image_item k h j"
proof -
  let ?U = "used_items k (512 * root_start h) n"
  have U: "?U \<le> n" by (rule used_items_le)
  from mounted_search [OF disk path, of fs dsk] obtain D A' k' where
    r: "fat16_resolve fs dsk k = Some (0, k')" "mounted k'" "path_parts k' = path_parts k" and
    ok: "directory_ok k' A' tmp (fs_private (the_disk k') + 64) D ?U (part_str (path_parts k' path)) nm" and
    free: "3 \<le> free_blocks 25600 A'" and
    all: "\<forall>i < ?U. (name_matches (ram k') D i nm \<longleftrightarrow> map tolower (image_name k h i) = map tolower nm)
      \<and> fat_directory_item_at (ram k') (D + of_nat (32 * i)) = image_item k h i"
    by blast
  have names: "name_matches (ram k') D i nm \<longleftrightarrow> map tolower (image_name k h i) = map tolower nm" and
    item: "fat_directory_item_at (ram k') (D + of_nat (32 * i)) = image_item k h i" if "i < ?U" for i
    using all that by simp_all
  have "\<exists>p f c k1 k2. fat16_open tmp dsk path FILE_MODE_READ k' = Some (p, k1)
    \<and> fat_file_descriptor_at (ram k1) p = \<lparr>desc_item = f, desc_pos = 0\<rparr>
    \<and> fat_item_at (ram k1) f = \<lparr>item_ptr = c, item_type = FAT_ITEM_TYPE_FILE\<rparr>
    \<and> fat_directory_item_at (ram k1) c = fat_directory_item_at (ram k') (D + of_nat (32 * j))
    \<and> fat16_close p k1 = Some (0, k2) \<and> kheap_rep k2 A'"
  proof (rule open_close_run [OF ok path(7) _ entry(1) _ _ _ free])
    show "part_next (path_parts k' path) = 0" using path(3) r(3) by simp
    show "name_matches (ram k') D j nm" using names [OF entry(1)] entry(2) by simp
    show "\<not> name_matches (ram k') D i nm" if "i < ?U" "i \<noteq> j" for i using names entry(3) that U by simp
    show "attribute (fat_directory_item_at (ram k') (D + of_nat (32 * j))) AND FAT_FILE_SUBDIRECTORY = 0"
      using item [OF entry(1)] entry(4) by simp
  qed
  then show ?thesis using r(1) item [OF entry(1)] by metis
qed

text \<open>
  C29: deleted entries hide files.  If the only entry with the name of the path stands at an index that is not
  below the number of entries that are not deleted, then the disk is mounted, but \<open>fat16_open\<close> returns the code of
  an I/O error as its pointer: the file is on the disk and is not found.
\<close>
theorem fat16_open_hidden:
  fixes k :: "'a path_state_scheme"
  assumes disk: "kheap_rep k A" "ata_responsive (drive k)" "disk_id (the_disk k) = 0" "disk_addr k \<noteq> 0"
      "sector_size (the_disk k) = 512" "8 \<le> free_blocks 25600 A"
      "primary_header (boot_header k) = h" "signature (extended_header (boot_header k)) = 0x29"
      "sectors_per_cluster h \<noteq> 0" "0 < root_entries h" "root_entries h \<le> 128" "n \<le> root_entries h"
      "\<forall>i < n. entry_mark k (512 * root_start h) i \<noteq> 0" "entry_mark k (512 * root_start h) n = 0"
      "512 * root_start h + 4160 < 2147483648"
    and path: "cstr (ram k) (part_str (path_parts k path)) nm" "length nm < 108" "part_next (path_parts k path) = 0"
      "stable_bytes A (part_str (path_parts k path)) (Suc (length nm))"
      "disjoint_from (part_str (path_parts k path)) (Suc (length nm)) tmp 108"
      "0xE200 \<le> unat tmp" "unat tmp + 108 \<le> 16777216"
    and entry: "used_items k (512 * root_start h) n \<le> j" "j < n" "map tolower (image_name k h j) = map tolower nm"
      "\<And>i. i < n \<Longrightarrow> i \<noteq> j \<Longrightarrow> map tolower (image_name k h i) \<noteq> map tolower nm"
  shows "\<exists>k' p k1. fat16_resolve fs dsk k = Some (0, k') \<and> mounted k'
    \<and> fat16_open tmp dsk path FILE_MODE_READ k' = Some (p, k1) \<and> as_int p = - EIO"
proof -
  let ?U = "used_items k (512 * root_start h) n"
  from mounted_search [OF disk path, of fs dsk] obtain D A' k' where
    r: "fat16_resolve fs dsk k = Some (0, k')" "mounted k'" "path_parts k' = path_parts k" and
    ok: "directory_ok k' A' tmp (fs_private (the_disk k') + 64) D ?U (part_str (path_parts k' path)) nm" and
    free: "3 \<le> free_blocks 25600 A'" and
    all: "\<forall>i < ?U. (name_matches (ram k') D i nm \<longleftrightarrow> map tolower (image_name k h i) = map tolower nm)
      \<and> fat_directory_item_at (ram k') (D + of_nat (32 * i)) = image_item k h i"
    by blast
  have names: "name_matches (ram k') D i nm \<longleftrightarrow> map tolower (image_name k h i) = map tolower nm" and
    "fat_directory_item_at (ram k') (D + of_nat (32 * i)) = image_item k h i" if "i < ?U" for i
    using all that by simp_all
  have "\<not> name_matches (ram k') D i nm" if "i < ?U" for i
  proof -
    have "i < n" "i \<noteq> j" using that entry(1,2) by simp_all
    then show ?thesis using names [OF that] entry(4) by simp
  qed
  then have "\<exists>p k1. fat16_open tmp dsk path FILE_MODE_READ k' = Some (p, k1) \<and> as_int p = - EIO \<and> kheap_rep k1 A'"
    by (rule open_missing_run [OF ok]) (use free in simp_all)
  then show ?thesis using r(1,2) by metis
qed

subsection \<open>A disk with one file\<close>

text \<open>
  One reserved sector, one table of one sector, 16 directory entries in sector 2, of which the first is the file
  \<^verbatim>\<open>HI.C\<close>; the path \<^verbatim>\<open>hi.c\<close> lies at \<^verbatim>\<open>0x2400\<close>.
\<close>

definition mount_image :: "nat \<Rightarrow> u8" where
  "mount_image i = case_option 0 id (map_of
     [(13, 1), (14, 1), (16, 1), (17, 16), (22, 1), (38, 0x29),
      (1024, 0x48), (1025, 0x49), (1026, 0x20), (1032, 0x43), (1033, 0x20), (1035, 0x20), (1050, 2)] i)"

definition mount_test :: "(nat \<Rightarrow> u8) \<Rightarrow> file_state" where
  "mount_test img = dir_test\<lparr>drive := test_drive\<lparr>ata_image := img\<rparr>\<rparr>"

lemma mount_test_start:
  "kheap_rep (mount_test img) Map.empty" "ata_responsive (drive (mount_test img))" "disk_id (the_disk (mount_test img)) = 0"
  "disk_addr (mount_test img) \<noteq> 0" "sector_size (the_disk (mount_test img)) = 512"
  using dir_test_rep test_drive_responsive
  by (simp_all add: mount_test_def kheap_rep_def ata_responsive_def) (simp_all add: dir_test_def fat_test_def)

lemma mount_test_header:
  "signature (extended_header (boot_header (mount_test mount_image))) = 0x29"
  "signature (extended_header (boot_header (mount_test (\<lambda>_. 0)))) = 0"
  "sectors_per_cluster (primary_header (boot_header (mount_test mount_image))) = 1"
  "root_entries (primary_header (boot_header (mount_test mount_image))) = 16"
  "root_start (primary_header (boot_header (mount_test mount_image))) = 2"
  by (simp_all add: boot_header_def fat_h_at_def fat_header_at_def fat_header_extended_at_def root_entries_def root_start_def
      load16_def mount_test_def image_bytes_def mount_image_def)

lemma mount_test_marks:
  "entry_mark (mount_test mount_image) 1024 0 = 0x48" "entry_mark (mount_test mount_image) 1024 1 = 0"
  by (simp_all add: entry_mark_def mount_test_def mount_image_def)

lemma mount_test_used: "used_items (mount_test mount_image) 1024 (Suc 0) = 1"
  by (simp add: used_items_def mount_test_marks)

lemma mount_test_entry:
  "image_name (mount_test mount_image) (primary_header (boot_header (mount_test mount_image))) 0 = [0x48, 0x49, 0x2E, 0x43]"
  "attribute (image_item (mount_test mount_image) (primary_header (boot_header (mount_test mount_image))) 0) = 0x20"
  "low_16_bits_first_cluster (image_item (mount_test mount_image) (primary_header (boot_header (mount_test mount_image))) 0) = 2"
  by (simp_all add: image_name_def image_item_def mount_test_header)
    (simp_all add: full_name_def trim_name_def fat_directory_item_at_def load_bytes_def load16_def upt_rec mount_test_def
      image_bytes_def mount_image_def)

theorem fat16_resolve_mounts_witness:
  "\<exists>D A' k'. fat16_resolve 7 8 (mount_test mount_image) = Some (0, k') \<and> mounted k' \<and> kheap_rep k' A'
    \<and> root_directory (the_private k') = \<lparr>dir_item = D, dir_total = 1, sector_pos = 2, ending_sector_pos = 3\<rparr>
    \<and> ram k' D = 0x48"
proof -
  let ?k = "mount_test mount_image"
  have first: "\<forall>i < 1. entry_mark ?k (512 * root_start (primary_header (boot_header ?k))) i \<noteq> 0"
    "entry_mark ?k (512 * root_start (primary_header (boot_header ?k))) 1 = 0"
    using mount_test_marks by (simp_all add: mount_test_header)
  have img: "ata_image (drive ?k) 1024 = 0x48" using mount_test_marks(1) by (simp add: entry_mark_def)
  from fat16_resolve_mounts [OF mount_test_start _ refl mount_test_header(1) _ _ _ first, of 7 8] obtain D A' k' where
    "fat16_resolve 7 8 ?k = Some (0, k')" "mounted k'" "kheap_rep k' A'"
    "root_directory (the_private k') = \<lparr>dir_item = D, dir_total = 1, sector_pos = 2, ending_sector_pos = 3\<rparr>"
    "\<forall>i < 512. ram k' (D + of_nat i) = ata_image (drive ?k) (1024 + i)"
    by (auto simp: mount_test_header free_blocks_empty mount_test_used)
  moreover from this(5) have "ram k' D = 0x48" using img by (auto dest: spec [where x = 0])
  ultimately show ?thesis by blast
qed

theorem fat16_resolve_refuses_witness:
  "\<exists>c1 c2 c3 k'. fat16_resolve 7 8 (mount_test (\<lambda>_. 0)) = Some (-5, k') \<and> fs_private (the_disk k') = 0
    \<and> distinct [c1, c2, c3] \<and> kheap_rep k' (Map.empty(c1 \<mapsto> 1, c2 \<mapsto> 1, c3 \<mapsto> 1))"
  using fat16_resolve_refuses [OF mount_test_start(1-4), of "\<lambda>_. 0" 7 8]
  by (simp add: mount_test_header free_blocks_empty)

theorem fat16_mount_open_witness:
  "\<exists>k' p f c k1. fat16_resolve 7 8 (mount_test mount_image) = Some (0, k')
    \<and> fat16_open 0x10000 8 0 FILE_MODE_READ k' = Some (p, k1)
    \<and> fat_file_descriptor_at (ram k1) p = \<lparr>desc_item = f, desc_pos = 0\<rparr>
    \<and> fat_item_at (ram k1) f = \<lparr>item_ptr = c, item_type = FAT_ITEM_TYPE_FILE\<rparr>
    \<and> low_16_bits_first_cluster (fat_directory_item_at (ram k1) c) = 2"
proof -
  let ?k = "mount_test mount_image" and ?nm = "[0x68, 0x69, 0x2E, 0x63] :: u8 list"
  let ?h = "primary_header (boot_header ?k)"
  have first: "\<forall>i < 1. entry_mark ?k (512 * root_start ?h) i \<noteq> 0" "entry_mark ?k (512 * root_start ?h) 1 = 0"
    using mount_test_marks by (simp_all add: mount_test_header)
  have part: "part_str (path_parts ?k 0) = 0x2400" "part_next (path_parts ?k 0) = 0"
    by (simp_all add: mount_test_def dir_test_def)
  have s: "cstr (ram ?k) (part_str (path_parts ?k 0)) ?nm"
    using directory_okD(4) [OF dir_test_ok(1)] unfolding part by (simp add: mount_test_def dir_test_def)
  have st: "stable_bytes Map.empty (part_str (path_parts ?k 0)) (Suc (length ?nm))"
    unfolding part by (rule low_stable_bytes) simp
  have off: "disjoint_from (part_str (path_parts ?k 0)) (Suc (length ?nm)) 0x10000 108"
    unfolding part by (rule disjoint_from_below) simp_all
  have eq: "map tolower (image_name ?k ?h 0) = map tolower ?nm"
    by (simp add: mount_test_entry tolower_def sgn_char_def)
  have sub: "attribute (image_item ?k ?h 0) AND FAT_FILE_SUBDIRECTORY = 0" by (simp add: mount_test_entry)
  have "\<exists>k' p f c k1. fat16_resolve 7 8 ?k = Some (0, k')
    \<and> fat16_open 0x10000 8 0 FILE_MODE_READ k' = Some (p, k1)
    \<and> fat_file_descriptor_at (ram k1) p = \<lparr>desc_item = f, desc_pos = 0\<rparr>
    \<and> fat_item_at (ram k1) f = \<lparr>item_ptr = c, item_type = FAT_ITEM_TYPE_FILE\<rparr>
    \<and> fat_directory_item_at (ram k1) c = image_item ?k ?h 0"
    by (rule fat16_mount_open [OF mount_test_start _ refl mount_test_header(1) _ _ _ _ first _ s _ part(2) st off _ _ _ eq _ sub])
      (simp_all add: mount_test_header free_blocks_empty mount_test_used)
  then show ?thesis using mount_test_entry(3) by metis
qed

definition hidden_image :: "nat \<Rightarrow> u8" where
  \<comment> \<open>the same disk with a deleted entry before the file's\<close>
  "hidden_image i = (if i < 1024 then mount_image i else if i < 1056 then (if i = 1024 then 0xE5 else 0) else mount_image (i - 32))"

lemma hidden_header:
  "signature (extended_header (boot_header (mount_test hidden_image))) = 0x29"
  "sectors_per_cluster (primary_header (boot_header (mount_test hidden_image))) = 1"
  "root_entries (primary_header (boot_header (mount_test hidden_image))) = 16"
  "root_start (primary_header (boot_header (mount_test hidden_image))) = 2"
  by (simp_all add: boot_header_def fat_h_at_def fat_header_at_def fat_header_extended_at_def root_entries_def root_start_def
      load16_def mount_test_def image_bytes_def hidden_image_def mount_image_def)

lemma hidden_marks:
  "entry_mark (mount_test hidden_image) 1024 0 = 0xE5" "entry_mark (mount_test hidden_image) 1024 1 = 0x48"
  "entry_mark (mount_test hidden_image) 1024 2 = 0"
  by (simp_all add: entry_mark_def mount_test_def hidden_image_def mount_image_def)

lemma hidden_used: "used_items (mount_test hidden_image) 1024 2 = 1"
  using hidden_marks by (simp add: used_items_def upt_rec)

lemma hidden_entry:
  "image_name (mount_test hidden_image) (primary_header (boot_header (mount_test hidden_image))) 0 = [0xE5]"
  "image_name (mount_test hidden_image) (primary_header (boot_header (mount_test hidden_image))) 1 = [0x48, 0x49, 0x2E, 0x43]"
  by (simp_all add: image_name_def image_item_def hidden_header)
    (simp_all add: full_name_def trim_name_def fat_directory_item_at_def load_bytes_def load16_def upt_rec mount_test_def
      image_bytes_def hidden_image_def mount_image_def)

theorem fat16_open_hidden_witness:
  "\<exists>k' p k1. fat16_resolve 7 8 (mount_test hidden_image) = Some (0, k')
    \<and> fat16_open 0x10000 8 0 FILE_MODE_READ k' = Some (p, k1) \<and> as_int p = -1"
proof -
  let ?k = "mount_test hidden_image" and ?nm = "[0x68, 0x69, 0x2E, 0x63] :: u8 list"
  let ?h = "primary_header (boot_header ?k)"
  have first: "\<forall>i < 2. entry_mark ?k (512 * root_start ?h) i \<noteq> 0" "entry_mark ?k (512 * root_start ?h) 2 = 0"
    using hidden_marks by (auto simp: hidden_header less_2_cases_iff)
  have part: "part_str (path_parts ?k 0) = 0x2400" "part_next (path_parts ?k 0) = 0"
    by (simp_all add: mount_test_def dir_test_def)
  have s: "cstr (ram ?k) (part_str (path_parts ?k 0)) ?nm"
    using directory_okD(4) [OF dir_test_ok(1)] unfolding part by (simp add: mount_test_def dir_test_def)
  have st: "stable_bytes Map.empty (part_str (path_parts ?k 0)) (Suc (length ?nm))"
    unfolding part by (rule low_stable_bytes) simp
  have off: "disjoint_from (part_str (path_parts ?k 0)) (Suc (length ?nm)) 0x10000 108"
    unfolding part by (rule disjoint_from_below) simp_all
  have eq: "map tolower (image_name ?k ?h 1) = map tolower ?nm"
    unfolding hidden_entry by (simp add: tolower_def sgn_char_def)
  have other: "map tolower (image_name ?k ?h i) \<noteq> map tolower ?nm" if "i < 2" "i \<noteq> 1" for i
    using that hidden_entry(1) by (auto simp: less_2_cases_iff)
  have "\<exists>k' p k1. fat16_resolve 7 8 ?k = Some (0, k') \<and> mounted k'
    \<and> fat16_open 0x10000 8 0 FILE_MODE_READ k' = Some (p, k1) \<and> as_int p = - EIO"
    by (rule fat16_open_hidden [OF mount_test_start _ refl hidden_header(1) _ _ _ _ first _ s _ part(2) st off _ _ _ _ eq other])
      (simp_all add: hidden_header free_blocks_empty hidden_used)
  then show ?thesis by auto
qed

end
