(* ===== verification/Gdt.thy ===== *)
theory Gdt
  imports Memory "HOL-Library.Monad_Syntax"
begin

text \<open>
  \<^verbatim>\<open>src/src/gdt/gdt.c\<close>: encoding segment descriptions into the eight-byte descriptors of the
  processor, and the table \<^verbatim>\<open>kernel.c\<close> loads.  \<open>desc_base\<close>, \<open>desc_limit\<close> and \<open>desc_access\<close> are the
  hardware's reading of a descriptor, against which the encoder is proved.  \<open>panic\<close> never returns: a
  call that panics is \<open>None\<close>.
\<close>

record gdt_structured =
  base :: u32
  limit :: u32
  type :: u8

definition encodeGdtEntry :: "mem \<Rightarrow> u32 \<Rightarrow> gdt_structured \<Rightarrow> mem option" where
  "encodeGdtEntry m target source =
     (if limit source > 65536 \<and> limit source AND 0xFFF \<noteq> 0xFFF then None
      else
        let m = m(target + 6 := 0x40);
            (source, m) = (if limit source > 65536
               then (source\<lparr>limit := drop_bit 12 (limit source)\<rparr>, m(target + 6 := 0xC0))
               else (source, m));
            m = m(target := ucast (limit source AND 0xFF));
            m = m(target + 1 := ucast (drop_bit 8 (limit source) AND 0xFF));
            m = m(target + 6 := m (target + 6) OR ucast (drop_bit 16 (limit source) AND 0x0F));
            m = m(target + 2 := ucast (base source AND 0xFF));
            m = m(target + 3 := ucast (drop_bit 8 (base source) AND 0xFF));
            m = m(target + 4 := ucast (drop_bit 16 (base source) AND 0xFF));
            m = m(target + 7 := ucast (drop_bit 24 (base source) AND 0xFF));
            m = m(target + 5 := type source)
        in Some m)"

primrec gdt_structured_to_gdt_from :: "mem \<Rightarrow> u32 \<Rightarrow> gdt_structured list \<Rightarrow> mem option" where
  \<comment> \<open>the loop, from the entry \<open>&gdt[i]\<close> on, over the entries \<open>structured_gdt[i]\<close>, ...\<close>
  "gdt_structured_to_gdt_from m gdt [] = Some m"
| "gdt_structured_to_gdt_from m gdt (s # ss) =
     do { m' \<leftarrow> encodeGdtEntry m gdt s; gdt_structured_to_gdt_from m' (gdt + 8) ss }"

definition gdt_structured_to_gdt :: "mem \<Rightarrow> u32 \<Rightarrow> gdt_structured list \<Rightarrow> int \<Rightarrow> mem option" where
  "gdt_structured_to_gdt m gdt structured_gdt total_entries =
     gdt_structured_to_gdt_from m gdt (take (nat total_entries) structured_gdt)"

definition TSS_SIZE :: u32 where
  \<comment> \<open>\<open>sizeof(struct tss)\<close>: 25 words\<close>
  "TSS_SIZE = 100"

definition gdt_structured :: "u32 \<Rightarrow> gdt_structured list" where
  \<comment> \<open>the table of \<open>kernel.c\<close>; the argument is the address of \<open>tss\<close>\<close>
  "gdt_structured tss =
     [\<lparr>base = 0x00, limit = 0x00, type = 0x00\<rparr>,
      \<lparr>base = 0x00, limit = 0xffffffff, type = 0x9a\<rparr>,
      \<lparr>base = 0x00, limit = 0xffffffff, type = 0x92\<rparr>,
      \<lparr>base = 0x00, limit = 0xffffffff, type = 0xf8\<rparr>,
      \<lparr>base = 0x00, limit = 0xffffffff, type = 0xf2\<rparr>,
      \<lparr>base = tss, limit = TSS_SIZE, type = 0xE9\<rparr>]"

definition kernel_gdt_init :: "mem \<Rightarrow> u32 \<Rightarrow> u32 \<Rightarrow> mem option" where
  \<comment> \<open>the first two calls of \<open>kernel_main\<close>\<close>
  "kernel_gdt_init m gdt_real tss =
     (let m = memset m gdt_real 0x00 (6 * 8)
      in gdt_structured_to_gdt m gdt_real (gdt_structured tss) 6)"

subsection \<open>The processor's reading of a descriptor\<close>

definition desc_base :: "mem \<Rightarrow> u32 \<Rightarrow> u32" where
  "desc_base m d = ucast (m (d + 2)) OR push_bit 8 (ucast (m (d + 3)))
     OR push_bit 16 (ucast (m (d + 4))) OR push_bit 24 (ucast (m (d + 7)))"

definition desc_limit_field :: "mem \<Rightarrow> u32 \<Rightarrow> u32" where
  "desc_limit_field m d = ucast (m d) OR push_bit 8 (ucast (m (d + 1)))
     OR push_bit 16 (ucast (m (d + 6) AND 0x0F))"

definition desc_limit :: "mem \<Rightarrow> u32 \<Rightarrow> u32" where
  \<comment> \<open>with the granularity bit the field counts pages\<close>
  "desc_limit m d =
     (if m (d + 6) AND 0x80 = 0 then desc_limit_field m d
      else push_bit 12 (desc_limit_field m d) OR 0xFFF)"

definition desc_access :: "mem \<Rightarrow> u32 \<Rightarrow> u8" where
  "desc_access m d = m (d + 5)"

definition encodable :: "gdt_structured \<Rightarrow> bool" where
  "encodable s \<longleftrightarrow> limit s \<le> 65536 \<or> limit s AND 0xFFF = 0xFFF"

lemma and_masks:
  "(x :: u32) AND 0xFF = take_bit 8 x" "(x :: u32) AND 0x0F = take_bit 4 x"
  "(x :: u32) AND 0xFFF = take_bit 12 x" "(y :: u8) AND 0x0F = take_bit 4 y"
  by (simp_all add: take_bit_eq_mask mask_eq_exp_minus_1)

lemma low_byte: "ucast (take_bit 8 (x :: u32)) = (ucast x :: u8)"
  by (rule bit_word_eqI) (auto simp only: bit_ucast_iff bit_take_bit_iff len_num1 len_bit0)

text \<open>The limit field is the low 20 bits of the (scaled) limit.\<close>

lemma limit_bytes:
  fixes v :: u32 and g :: u8
  assumes "\<And>i. 20 \<le> i \<Longrightarrow> i < 32 \<Longrightarrow> \<not> bit v i" and "\<And>i. i < 4 \<Longrightarrow> \<not> bit g i"
  shows "ucast (ucast v :: u8) OR push_bit 8 (ucast (ucast (drop_bit 8 v) :: u8))
     OR push_bit 16 (ucast (take_bit 4 (g OR ucast (take_bit 4 (drop_bit 16 v))))) = v"
proof (rule bit_word_eqI)
  fix n assume "n < LENGTH(32)"
  then have n: "n < 32" by simp
  then consider "n < 8" | "8 \<le> n" "n < 16" | "16 \<le> n" "n < 20" | "20 \<le> n" "n < 32"
    by linarith
  then show "bit (ucast (ucast v :: u8) OR push_bit 8 (ucast (ucast (drop_bit 8 v) :: u8))
     OR push_bit 16 (ucast (take_bit 4 (g OR ucast (take_bit 4 (drop_bit 16 v))))) :: u32) n = bit v n"
    by cases (use assms in \<open>auto simp: bit_simps\<close>)
qed


lemma granularity_bit:
  "(0x40 OR ucast (take_bit 4 (x :: u32)) :: u8) AND 0x80 = 0"
  "(0xC0 OR ucast (take_bit 4 (x :: u32)) :: u8) AND 0x80 \<noteq> 0"
proof -
  have e: "(0x80 :: u8) = 2 ^ 7" by simp
  show "(0x40 OR ucast (take_bit 4 (x :: u32)) :: u8) AND 0x80 = 0"
    "(0xC0 OR ucast (take_bit 4 (x :: u32)) :: u8) AND 0x80 \<noteq> 0"
    unfolding e and_exp_eq_0_iff_not_bit by (simp_all add: bit_simps)
qed

lemma low_limit_bits:
  assumes "(v :: u32) \<le> 65536" and "20 \<le> i"
  shows "\<not> bit v i"
proof -
  have "v < 2 ^ 20" using assms(1) by (simp add: word_less_nat_alt word_le_nat_alt)
  then have "take_bit 20 v = v" by (simp add: take_bit_eq_mod mod_word_less)
  then show ?thesis using assms(2) by (metis bit_take_bit_iff not_le)
qed

lemma scaled_limit:
  assumes "(v :: u32) AND 0xFFF = 0xFFF"
  shows "push_bit 12 (drop_bit 12 v) OR 0xFFF = v"
proof (rule bit_word_eqI)
  fix n assume "n < LENGTH(32)"
  then have n: "n < 32" by simp
  have "(0xFFF :: u32) = mask 12" by (simp add: mask_eq_exp_minus_1)
  then have m: "bit (0xFFF :: u32) n \<longleftrightarrow> n < 12" using n by (simp only: bit_mask_iff) auto
  then have "n < 12 \<Longrightarrow> bit v n" using assms by (metis bit_and_iff)
  then show "bit (push_bit 12 (drop_bit 12 v) OR 0xFFF) n = bit v n"
    unfolding bit_or_iff m using n by (auto simp: bit_simps)
qed

lemma eight_offsets:
  assumes "8 \<le> unat (a - (t :: u32))"
  shows "a \<noteq> t" "a \<noteq> t + 1" "a \<noteq> t + 2" "a \<noteq> t + 3" "a \<noteq> t + 4" "a \<noteq> t + 5" "a \<noteq> t + 6" "a \<noteq> t + 7"
  using assms by auto

lemma desc_cong:
  assumes "\<And>i. i < 8 \<Longrightarrow> m' (d + of_nat i) = m (d + of_nat i)"
  shows "desc_base m' d = desc_base m d" "desc_limit m' d = desc_limit m d" "desc_access m' d = desc_access m d"
  using assms [of 0] assms [of 1] assms [of 2] assms [of 3] assms [of 4] assms [of 5] assms [of 6] assms [of 7]
  by (simp_all add: desc_base_def desc_limit_def desc_limit_field_def desc_access_def)

lemma encodeGdtEntry_ok:
  assumes "encodable s"
  shows "\<exists>m'. encodeGdtEntry m t s = Some m' \<and> desc_base m' t = base s \<and> desc_limit m' t = limit s
    \<and> desc_access m' t = type s \<and> (\<forall>a. 8 \<le> unat (a - t) \<longrightarrow> m' a = m a)"
proof -
  define g :: u8 where "g = (if limit s > 65536 then 0xC0 else 0x40)"
  define v where "v = (if limit s > 65536 then drop_bit 12 (limit s) else limit s)"
  define m' where "m' = m(t + 6 := g OR ucast (take_bit 4 (drop_bit 16 v)), t := ucast v,
    t + 1 := ucast (drop_bit 8 v), t + 2 := ucast (base s), t + 3 := ucast (drop_bit 8 (base s)),
    t + 4 := ucast (drop_bit 16 (base s)), t + 7 := ucast (drop_bit 24 (base s)), t + 5 := type s)"
  have run: "encodeGdtEntry m t s = Some m'"
    using assms unfolding encodable_def encodeGdtEntry_def
    by (auto simp: Let_def m'_def g_def v_def and_masks low_byte fun_eq_iff not_le)
  have bytes: "m' t = ucast v" "m' (t + 1) = ucast (drop_bit 8 v)"
    "m' (t + 6) = g OR ucast (take_bit 4 (drop_bit 16 v))"
    "m' (t + 2) = ucast (base s)" "m' (t + 3) = ucast (drop_bit 8 (base s))"
    "m' (t + 4) = ucast (drop_bit 16 (base s))" "m' (t + 7) = ucast (drop_bit 24 (base s))"
    "m' (t + 5) = type s"
    by (simp_all add: m'_def)
  have vhigh: "\<not> bit v i" if "20 \<le> i" "i < 32" for i
    using that low_limit_bits [of "limit s" i] bit_imp_le_length [of "limit s" "12 + i"]
    by (auto simp: v_def bit_simps)
  have glow: "\<not> bit g i" if "i < 4" for i
  proof -
    have "i \<in> {0, 1, 2, 3}" using that by auto
    then show ?thesis by (auto simp: g_def)
  qed
  have field: "desc_limit_field m' t = v"
    using limit_bytes [OF vhigh glow] by (simp add: desc_limit_field_def bytes and_masks)
  have "desc_limit m' t = limit s"
  proof (cases "limit s > 65536")
    case True
    then have "limit s AND 0xFFF = 0xFFF" using assms by (auto simp: encodable_def)
    then show ?thesis
      using True granularity_bit(2) scaled_limit [of "limit s"]
      by (simp add: desc_limit_def field bytes g_def v_def)
  next
    case False
    then show ?thesis
      using granularity_bit(1) by (simp add: desc_limit_def field bytes g_def v_def)
  qed
  moreover have "desc_base m' t = base s"
    using four_bytes [of "base s"] by (simp add: desc_base_def bytes)
  moreover have "8 \<le> unat (a - t) \<Longrightarrow> m' a = m a" for a
    using eight_offsets [of a t] by (simp add: m'_def)
  ultimately show ?thesis using run bytes(8) by (auto simp: desc_access_def)
qed


definition describes :: "mem \<Rightarrow> u32 \<Rightarrow> gdt_structured \<Rightarrow> bool" where
  \<comment> \<open>the descriptor at \<open>d\<close> means the segment \<open>s\<close> to the processor\<close>
  "describes m d s \<longleftrightarrow> desc_base m d = base s \<and> desc_limit m d = limit s \<and> desc_access m d = type s"

lemma gdt_table_from:
  assumes "\<forall>s \<in> set ss. encodable s" and "8 * length ss < 4294967296"
  shows "\<exists>m'. gdt_structured_to_gdt_from m gdt ss = Some m'
    \<and> (\<forall>i < length ss. describes m' (gdt + of_nat (8 * i)) (ss ! i))
    \<and> (\<forall>a. 8 * length ss \<le> unat (a - gdt) \<longrightarrow> m' a = m a)"
  using assms
proof (induction ss arbitrary: m gdt)
  case Nil
  then show ?case by simp
next
  case (Cons s ss)
  obtain m1 where m1: "encodeGdtEntry m gdt s = Some m1" "describes m1 gdt s"
    "\<And>a. 8 \<le> unat (a - gdt) \<Longrightarrow> m1 a = m a"
    using encodeGdtEntry_ok [of s m gdt] Cons.prems(1) by (auto simp: describes_def)
  obtain m' where m': "gdt_structured_to_gdt_from m1 (gdt + 8) ss = Some m'"
    "\<And>i. i < length ss \<Longrightarrow> describes m' (gdt + 8 + of_nat (8 * i)) (ss ! i)"
    "\<And>a. 8 * length ss \<le> unat (a - (gdt + 8)) \<Longrightarrow> m' a = m1 a"
    using Cons.IH [of m1 "gdt + 8"] Cons.prems by auto
  have "describes m' gdt s"
  proof -
    have "m' (gdt + of_nat i) = m1 (gdt + of_nat i)" if "i < 8" for i
    proof (rule m'(3))
      have "gdt + of_nat i - (gdt + 8) = of_nat i - 8" by simp
      then show "8 * length ss \<le> unat (gdt + of_nat i - (gdt + 8))"
        using that Cons.prems(2) by (simp only: unat_sub32 unat_of_nat32) simp
    qed
    then show ?thesis using m1(2) desc_cong [of m' gdt m1] by (simp add: describes_def)
  qed
  then have "describes m' (gdt + of_nat (8 * i)) ((s # ss) ! i)" if "i < length (s # ss)" for i
  proof (cases i)
    case 0
    then show ?thesis using \<open>describes m' gdt s\<close> by simp
  next
    case (Suc j)
    then show ?thesis using m'(2) [of j] that by (simp add: add.assoc)
  qed
  moreover have "m' a = m a" if "8 * length (s # ss) \<le> unat (a - gdt)" for a
  proof -
    have "a - (gdt + 8) = (a - gdt) - 8" by simp
    then have "unat (a - (gdt + 8)) = unat (a - gdt) - 8"
      using that by (simp only: unat_sub32) simp
    then show ?thesis using m'(3) [of a] m1(3) [of a] that by simp
  qed
  ultimately show ?case using m1(1) m'(1) by auto
qed

subsection \<open>Properties\<close>

text \<open>
  \<open>encodeGdtEntry\<close> panics exactly on the limits the descriptor format cannot hold (above
  \<open>65536\<close> with low bits that are not all ones); otherwise the eight bytes it writes mean to the
  processor the base, limit and type it was given, and no other byte changes.
\<close>
theorem encodeGdtEntry_roundtrip:
  "case encodeGdtEntry m t s of
     None \<Rightarrow> limit s > 65536 \<and> limit s AND 0xFFF \<noteq> 0xFFF
   | Some m' \<Rightarrow> describes m' t s \<and> (\<forall>a. 8 \<le> unat (a - t) \<longrightarrow> m' a = m a)"
proof (cases "encodable s")
  case True
  then show ?thesis using encodeGdtEntry_ok [OF True, of m t] by (auto simp: describes_def)
next
  case False
  then show ?thesis by (auto simp: encodable_def encodeGdtEntry_def not_le)
qed

theorem encodeGdtEntry_roundtrip_witness:
  "\<exists>m'. encodeGdtEntry (\<lambda>_. 0) 512 \<lparr>base = 0x12345678, limit = 0xABCDEFFF, type = 0x9a\<rparr> = Some m'
     \<and> desc_base m' 512 = 0x12345678 \<and> desc_limit m' 512 = 0xABCDEFFF"
  using encodeGdtEntry_roundtrip [where m = "\<lambda>_. 0" and t = 512
      and s = "\<lparr>base = 0x12345678, limit = 0xABCDEFFF, type = 0x9a\<rparr>"]
  by (auto simp: describes_def split: option.splits)

text \<open>
  the table \<open>kernel_main\<close> builds at boot never panics and its six descriptors mean what the
  source lists, the TSS descriptor pointing at \<open>tss\<close>.
\<close>
theorem kernel_gdt_init_spec:
  "\<exists>m'. kernel_gdt_init m gdt_real tss = Some m'
    \<and> (\<forall>i < 6. describes m' (gdt_real + of_nat (8 * i)) (gdt_structured tss ! i))
    \<and> (\<forall>a. 48 \<le> unat (a - gdt_real) \<longrightarrow> m' a = m a)"
proof -
  have len: "length (gdt_structured tss) = 6" by (simp add: gdt_structured_def)
  have enc: "\<forall>s \<in> set (gdt_structured tss). encodable s"
    by (simp add: gdt_structured_def encodable_def TSS_SIZE_def)
  obtain m' where m': "gdt_structured_to_gdt_from (memset m gdt_real 0 48) gdt_real (gdt_structured tss) = Some m'"
    "\<And>i. i < 6 \<Longrightarrow> describes m' (gdt_real + of_nat (8 * i)) (gdt_structured tss ! i)"
    "\<And>a. 48 \<le> unat (a - gdt_real) \<Longrightarrow> m' a = memset m gdt_real 0 48 a"
    using gdt_table_from [OF enc, of "memset m gdt_real 0 48" gdt_real] by (auto simp: len)
  then show ?thesis
    by (auto simp: kernel_gdt_init_def gdt_structured_to_gdt_def len memset_other)
qed

theorem kernel_gdt_init_spec_witness:
  "\<exists>m'. kernel_gdt_init (\<lambda>_. 0) 512 0x1000 = Some m' \<and> desc_base m' 552 = 0x1000"
proof -
  obtain m' where m': "kernel_gdt_init (\<lambda>_. 0) 512 0x1000 = Some m'"
    "\<forall>i < 6. describes m' (512 + of_nat (8 * i)) (gdt_structured 0x1000 ! i)"
    using kernel_gdt_init_spec [of "\<lambda>_. 0" 512 "0x1000"] by blast
  from m'(2) [rule_format, of 5] have "describes m' 552 (gdt_structured 0x1000 ! 5)" by simp
  then show ?thesis using m'(1) by (simp add: describes_def gdt_structured_def)
qed

end
