(* ===== verification/Boot.thy ===== *)
theory Boot
  imports Console FatMount Gdt
begin

text \<open>
  \<^verbatim>\<open>src/src/kernel.c\<close>: \<open>kernel_main\<close>, in three parts.  \<open>kernel_devices\<close> sets up segments, heap, filesystems
  and the disk, \<open>kernel_machine\<close> interrupts, the task state segment, the kernel's address space, system calls and
  the keyboard, \<open>kernel_shells\<close> starts five shells and enters the first task.  The main property is that on a
  FAT16 disk the first two parts return, with every structure the later code relies on in place.
\<close>

text \<open>
  What the link editor and the stack frame decide: the addresses of the static objects, of the stubs of
  \<^verbatim>\<open>idt.asm\<close>, of literals and of the buffers \<open>shell_new\<close> uses; the uninitialised locals \<open>shell0\<close> to \<open>shell4\<close>.
\<close>

record 'k boot_env =
  sys_env_of :: "'k sys_env"
  gdt_real_at :: u32
  tss_at :: u32
  fat16_fs_at :: u32
  stubs_at :: "u32 list"
  wrapper_at :: u32
  idt_at :: u32
  lit_heap :: u32  \<comment> \<open>the literal \<open>"Failed to create heap\n"\<close>\<close>
  lit_shell :: u32  \<comment> \<open>the literal \<open>"0:/shell.elf"\<close>\<close>
  itoa_at :: u32
  argument_at :: u32
  junk_shell :: u32

definition kheap_start :: "u32 \<Rightarrow> 'a screen_state_scheme \<Rightarrow> 'a screen_state_scheme option" where
  \<comment> \<open>\<open>kheap_init()\<close> with the \<open>print\<close> of its message\<close>
  "kheap_start message k = (let (out, k) = kheap_init k in if out = [] then Some k else print message k)"

definition kernel_devices :: "'a sys_state_scheme boot_env \<Rightarrow> 'a sys_state_scheme \<Rightarrow> 'a sys_state_scheme option" where
  "kernel_devices e k =
     do { m \<leftarrow> kernel_gdt_init (ram k) (gdt_real_at e) (tss_at e);
          let k = k\<lparr>ram := m\<rparr>;
          k \<leftarrow> kheap_start (lit_heap e) k;
          let (fs, k) = fat16_init (fat16_fs_at e) k;
          k \<leftarrow> fs_init fs k;
          disk_search_and_init (fs_functions (sys_env_of e)) k }"

definition tss_setup :: "u32 \<Rightarrow> mem \<Rightarrow> mem" where
  \<comment> \<open>\<open>esp0\<close> and \<open>ss0\<close> are at offsets 4 and 8\<close>
  "tss_setup tss m =
     (let m = memset m tss 0x00 TSS_SIZE;
          m = store32 m (tss + 4) 0x600000
      in store32 m (tss + 8) KERNEL_DATA_SELECTOR)"

definition kernel_machine :: "'a sys_state_scheme boot_env \<Rightarrow> 'a sys_state_scheme \<Rightarrow> 'a sys_state_scheme option" where
  "kernel_machine e k =
     do { let k = idt_init (stubs_at e) (wrapper_at e) (idt_at e) k;
          let k = k\<lparr>ram := tss_setup (tss_at e) (ram k)\<rparr>;
          let (chunk, k) = paging_new_4gb (PAGING_IS_WRITEABLE OR PAGING_IS_PRESENT OR PAGING_ACCESS_FROM_ALL) k;
          let k = k\<lparr>kernel_chunk := chunk\<rparr>;
          let k = paging_switch (kernel_chunk k) k;
          k \<leftarrow> isr80h_register_commands k;
          Some (keyboard_init k) }"

definition kernel_shell :: "'a sys_state_scheme boot_env \<Rightarrow> int \<Rightarrow> 'a sys_state_scheme \<Rightarrow> 'a sys_state_scheme option" where
  \<comment> \<open>\<open>shell_new(i, &shelli)\<close>, whose result is ignored\<close>
  "kernel_shell e i k =
     do { let s = sys_env_of e;
          (_, _, k) \<leftarrow> shell_new (fs_functions s) (lit_r s) (stat_init s) (junk_process s) (junk_process s)
             (lit_shell e) (itoa_at e) (argument_at e) i (junk_shell e) k;
          Some k }"

definition kernel_shells :: "'a sys_state_scheme boot_env \<Rightarrow> 'a sys_state_scheme
    \<Rightarrow> (registers \<times> 'a sys_state_scheme) option" where
  "kernel_shells e k =
     do { k \<leftarrow> kernel_shell e 0 k;
          k \<leftarrow> kernel_shell e 1 k;
          k \<leftarrow> kernel_shell e 2 k;
          k \<leftarrow> kernel_shell e 3 k;
          k \<leftarrow> kernel_shell e 4 k;
          task_run_first_ever_task (kernel_flags (sys_env_of e)) k }"

definition kernel_main :: "'a sys_state_scheme boot_env \<Rightarrow> 'a sys_state_scheme
    \<Rightarrow> (registers \<times> 'a sys_state_scheme) option" where
  "kernel_main e k =
     do { k \<leftarrow> kernel_devices e k;
          k \<leftarrow> kernel_machine e k;
          kernel_shells e k }"

subsection \<open>What the machine brings\<close>

definition in_image :: "u32 \<Rightarrow> nat \<Rightarrow> bool" where
  \<comment> \<open>the \<open>n\<close> bytes at \<open>a\<close> lie between the load address of the kernel and the heap\<close>
  "in_image a n \<longleftrightarrow> 0x100000 \<le> unat a \<and> unat a + n \<le> 0x1000000"

definition fat16_volume :: "'a io_state_scheme \<Rightarrow> nat \<Rightarrow> bool" where
  \<comment> \<open>the disk carries a FAT16 boot sector and a root directory of at most 128 entries; the entry \<open>n\<close> ends it\<close>
  "fat16_volume k n \<longleftrightarrow>
     (let h = primary_header (boot_header k); p = 512 * root_start h
      in signature (extended_header (boot_header k)) = 0x29 \<and> sectors_per_cluster h \<noteq> 0
       \<and> 0 < root_entries h \<and> root_entries h \<le> 128
       \<and> (\<forall>i < n. entry_mark k p i \<noteq> 0) \<and> entry_mark k p n = 0
       \<and> p + 32 * n + 32 < 2147483648 \<and> p + 4096 < 2147483648)"

definition boot_ready :: "'a sys_state_scheme boot_env \<Rightarrow> u32 \<Rightarrow> 'a sys_state_scheme \<Rightarrow> nat \<Rightarrow> bool" where
  \<comment> \<open>the static variables have their initial values, the table of FAT16 is what \<^verbatim>\<open>fat16.c\<close> defines, the static
    objects the code fills lie apart in the image of the kernel\<close>
  "boot_ready e tmp k n \<longleftrightarrow>
     fat16_volume k n \<and> ata_responsive (drive k) \<and> disk_addr k \<noteq> 0
     \<and> isr80h_commands k = replicate 1024 No_command \<and> interrupt_callbacks k = replicate 512 No_callback
     \<and> kbd_init (keyboards k (classic_keyboard k)) = Classic_keyboard_init \<and> keyboard_list_last k = 0
     \<and> fs_functions (sys_env_of e) (fat16_fs_at e) = fat16_fs (fat16_fs_at e) tmp
     \<and> in_image (gdt_real_at e) 48 \<and> in_image (tss_at e) 100 \<and> in_image (fat16_fs_at e) 30
     \<and> disjoint_from (gdt_real_at e) 48 (tss_at e) 100 \<and> disjoint_from (gdt_real_at e) 48 (fat16_fs_at e + 24) 6"

lemma in_image_stable:
  assumes "in_image a n" and "i < n"
  shows "stable A (a + of_nat i)"
proof -
  have u: "unat (a + of_nat i) = unat a + i"
    using assms by (simp add: in_image_def unat_add32 unat_of_nat32)
  then have "0x100000 \<le> unat (a + of_nat i)" "unat (a + of_nat i) < 0x1000000"
    using assms by (auto simp: in_image_def)
  then show ?thesis by (auto simp: stable_def unat_sub32 unat_blk_addr)
qed

lemma image_off_table:
  assumes "in_image a n" and "i < 25600"
  shows "n \<le> unat (0x7E00 + of_nat i - a)"
proof -
  have "unat (0x7E00 + of_nat i :: u32) = 32256 + i" by (rule table_cell_low [OF assms(2)])
  then show ?thesis unfolding unat_sub32 using assms by (simp add: in_image_def) linarith
qed

lemma stable_not_table: "stable A a \<Longrightarrow> 25600 \<le> unat (a - 0x7E00)"
  by (simp add: stable_def)

lemma describes_cong:
  assumes "\<And>i. i < 8 \<Longrightarrow> m' (d + of_nat i) = m (d + of_nat i)"
  shows "describes m' d s = describes m d s"
  using assms by (simp add: describes_def desc_cong [of m' d m])

lemma gdt_kept:
  assumes "\<forall>i < 6. describes m (g + of_nat (8 * i)) (t ! i)" and "same_bytes g 48 m' m"
  shows "\<forall>i < 6. describes m' (g + of_nat (8 * i)) (t ! i)"
proof (intro allI impI)
  fix i :: nat assume i: "i < 6"
  have "m' (g + of_nat (8 * i) + of_nat j) = m (g + of_nat (8 * i) + of_nat j)" if "j < 8" for j
    using assms(2) i that unfolding same_bytes_def by (auto dest: spec [of _ "8 * i + j"] simp: add.assoc)
  then show "describes m' (g + of_nat (8 * i)) (t ! i)" using assms(1) i describes_cong by blast
qed

subsection \<open>Devices\<close>

lemma kheap_start_run:
  "\<exists>k'. kheap_start message k = Some k' \<and> kheap_rep k' Map.empty \<and> kmem.more k' = kmem.more k
    \<and> (\<forall>a. stable Map.empty a \<longrightarrow> ram k' a = ram k a)"
proof (intro exI conjI)
  have "kheap_init k = ([], snd (kheap_init k))" using kheap_init_spec [of k] by (simp add: prod_eq_iff)
  then show "kheap_start message k = Some (snd (kheap_init k))"
    by (metis (mono_tags, lifting) kheap_start_def case_prod_conv)
  show "kheap_rep (snd (kheap_init k)) Map.empty" "\<forall>a. stable Map.empty a \<longrightarrow> ram (snd (kheap_init k)) a = ram k a"
    using kheap_init_spec [of k] stable_not_table by blast+
  show "kmem.more (snd (kheap_init k)) = kmem.more k"
    by (simp add: kheap_init_def Let_def split: prod.split)
qed

lemma fs_init_run:
  "fs_init fs k = Some (k\<lparr>file_descriptors := replicate 512 0, filesystems := fs # replicate 11 0\<rparr>)"
proof -
  have r: "replicate 12 (0 :: u32) = 0 # replicate 11 0" using replicate_Suc [of 11 "0 :: u32"] by simp
  show ?thesis
    by (simp add: fs_init_def fs_load_def fs_static_load_def fs_insert_filesystem_def fs_get_free_filesystem_def
      find_slot_def r)
qed

definition fat16_name :: "u8 list" where
  \<comment> \<open>\<open>"FAT16"\<close>\<close>
  "fat16_name = [0x46, 0x41, 0x54, 0x31, 0x36, 0]"

lemma fat16_init_eq: "fat16_init fs k = (fs, k\<lparr>ram := put_bytes (fs + 24) fat16_name (ram k)\<rparr>)"
  by (simp add: fat16_init_def fat16_name_def)

lemma length_fat16_name: "length fat16_name = 6" by (simp add: fat16_name_def)

lemma put_bytes_off:
  "length bs \<le> unat (x - a) \<Longrightarrow> length bs \<le> 4294967296 \<Longrightarrow> put_bytes a bs m x = m x"
  by (simp add: put_bytes_at)

lemma devices_run:
  assumes "boot_ready e tmp k n"
  shows "\<exists>b A k'. kernel_devices e k = Some k' \<and> mounted k' \<and> kheap_rep k' A \<and> A b = Some 1
    \<and> free_blocks 25600 A = 25595 \<and> fs_private (the_disk k') = blk_addr b \<and> disk_filesystem (the_disk k') = fat16_fs_at e
    \<and> header (the_private k') = boot_header k
    \<and> filesystems k' = fat16_fs_at e # replicate 11 0 \<and> file_descriptors k' = replicate 512 0
    \<and> file_state.more k' = file_state.more k
    \<and> (\<forall>i < 6. describes (ram k') (gdt_real_at e + of_nat (8 * i)) (gdt_structured (tss_at e) ! i))"
proof -
  have ready: "fat16_volume k n" "ata_responsive (drive k)" "disk_addr k \<noteq> 0" "isr80h_commands k = replicate 1024 No_command"
    "fs_functions (sys_env_of e) (fat16_fs_at e) = fat16_fs (fat16_fs_at e) tmp"
    "in_image (gdt_real_at e) 48" "in_image (fat16_fs_at e) 30" "disjoint_from (gdt_real_at e) 48 (fat16_fs_at e + 24) 6"
    using assms by (simp_all add: boot_ready_def)
  let ?fat = "fat16_fs_at e" and ?g = "gdt_real_at e" and ?t = "gdt_structured (tss_at e)"
  obtain m where m: "kernel_gdt_init (ram k) ?g (tss_at e) = Some m"
    "\<forall>i < 6. describes m (?g + of_nat (8 * i)) (?t ! i)"
    using kernel_gdt_init_spec by blast
  obtain k2 where k2: "kheap_start (lit_heap e) (k\<lparr>ram := m\<rparr>) = Some k2" "kheap_rep k2 Map.empty"
    "kmem.more k2 = kmem.more (k\<lparr>ram := m\<rparr>)" "\<forall>a. stable Map.empty a \<longrightarrow> ram k2 a = m a"
    using kheap_start_run [of "lit_heap e" "k\<lparr>ram := m\<rparr>"] by auto
  let ?m3 = "put_bytes (?fat + 24) fat16_name (ram k2)"
  let ?K = "k2\<lparr>ram := ?m3, file_descriptors := replicate 512 0, filesystems := ?fat # replicate 11 0,
     the_disk := \<lparr>disk_type = 0, sector_size = 512, disk_id = 0, disk_filesystem = 0, fs_private = 0\<rparr>\<rparr>"
  have more: "kmem.more k2 = kmem.more k" using k2(3) by (cases k) simp
  have fields: "drive ?K = drive k" "disk_addr ?K = disk_addr k" "file_state.more ?K = file_state.more k"
    using more by (cases k; cases k2; simp)+
  have img: "boot_header ?K = boot_header k" "entry_mark ?K = entry_mark k"
    using fields(1) by (simp_all add: boot_header_def entry_mark_def fun_eq_iff)
  have "in_image (?fat + 24) 6" using ready(7) by (simp add: in_image_def unat_add32)
  then have "length fat16_name \<le> unat (0x7E00 + of_nat i - (?fat + 24))" if "i < 25600" for i
    unfolding length_fat16_name by (rule image_off_table [OF _ that])
  then have low: "?m3 (0x7E00 + of_nat i) = ram k2 (0x7E00 + of_nat i)" if "i < 25600" for i
    using that by (intro put_bytes_off) (auto simp only: length_fat16_name)
  have rep: "kheap_rep ?K Map.empty" using kheap_rep_table [OF k2(2) low] by (simp add: kheap_rep_def)
  let ?h = "primary_header (boot_header k)"
  have hyp: "ata_responsive (drive ?K)" "disk_id (the_disk ?K) = 0" "disk_addr ?K \<noteq> 0" "sector_size (the_disk ?K) = 512"
    "6 \<le> free_blocks 25600 Map.empty" "primary_header (boot_header ?K) = ?h" "signature (extended_header (boot_header ?K)) = 0x29"
    "sectors_per_cluster ?h \<noteq> 0" "0 < root_entries ?h" "root_entries ?h \<le> 128"
    "\<forall>i < n. entry_mark ?K (512 * root_start ?h) i \<noteq> 0" "entry_mark ?K (512 * root_start ?h) n = 0"
    "512 * root_start ?h + 32 * n + 32 < 2147483648" "512 * root_start ?h + 4096 < 2147483648"
    using ready(1-3) fields(1,2) unfolding img fat16_volume_def Let_def by (simp_all add: free_blocks_empty)
  have "\<exists>b D A' k'. fat16_resolve ?fat (disk_addr ?K) ?K = Some (0, k') \<and> mounted k' \<and> kheap_rep k' A'
    \<and> A' b = Some 1 \<and> A' D = Some 1 \<and> Map.empty \<subseteq>\<^sub>m A' \<and> free_blocks 25600 Map.empty = 5 + free_blocks 25600 A' \<and> same_rest ?K k'
    \<and> the_disk k' = mounting_disk ?fat (blk_addr b) (the_disk ?K) \<and> header (the_private k') = boot_header ?K
    \<and> (\<forall>a. stable Map.empty a \<longrightarrow> ram k' a = ram ?K a)"
    using resolve_run [OF rep hyp, where fs = ?fat and dsk = "disk_addr ?K"] by blast
  then obtain b A' k' where res: "fat16_resolve ?fat (disk_addr ?K) ?K = Some (0, k')" "mounted k'" "kheap_rep k' A'" "A' b = Some 1"
    "free_blocks 25600 Map.empty = 5 + free_blocks 25600 A'" "same_rest ?K k'"
    "the_disk k' = mounting_disk ?fat (blk_addr b) (the_disk ?K)" "header (the_private k') = boot_header ?K"
    "\<forall>a. stable Map.empty a \<longrightarrow> ram k' a = ram ?K a"
    by blast
  have nz: "?fat \<noteq> 0" using ready(7) by (auto simp: in_image_def)
  have fs: "disk_filesystem (the_disk k') = ?fat" "fs_private (the_disk k') = blk_addr b"
    using res(7) by (simp_all add: mounting_disk_def)
  then have d: "(the_disk k')\<lparr>disk_filesystem := ?fat\<rparr> = the_disk k'" by (cases "the_disk k'") simp
  have run: "kernel_devices e k = Some k'"
    using m(1) k2(1) nz res(1) d
    by (simp add: kernel_devices_def fat16_init_eq fs_init_run disk_search_and_init_def fs_resolve_def ready(5) fat16_fs_def)
  have rest: "io_state.more k' = io_state.more ?K" by (rule same_rest_more [OF res(6)])
  then have tables: "filesystems k' = ?fat # replicate 11 0" "file_descriptors k' = replicate 512 0"
    "file_state.more k' = file_state.more k"
    using fields(3) by (cases k'; cases k2; simp)+
  have "same_bytes ?g 48 (ram k') m"
    unfolding same_bytes_def
  proof (intro allI impI)
    fix i :: nat assume i: "i < 48"
    have st: "stable Map.empty (?g + of_nat i)" by (rule in_image_stable [OF ready(6) i])
    have "same_bytes ?g 48 (ram k2) ?m3" by (rule same_bytes_put) (simp_all add: ready(8) length_fat16_name)
    then have "?m3 (?g + of_nat i) = ram k2 (?g + of_nat i)" using i by (simp add: same_bytes_def)
    then show "ram k' (?g + of_nat i) = m (?g + of_nat i)" using res(9) k2(4) st by simp
  qed
  note gdt = gdt_kept [OF m(2) this]
  have "free_blocks 25600 A' = 25595" using res(5) by (simp add: free_blocks_empty)
  then show ?thesis
    using run res(2-4) fs res(8) img(1) tables gdt
    by (intro exI [of _ b] exI [of _ A'] exI [of _ k']) simp
qed

subsection \<open>The machine\<close>

lemma idt_init_keeps:
  assumes "\<And>i a k. f (idt_set i a k) = f k" and "\<And>i h k. f (snd (idt_register_interrupt_callback i h k)) = f k"
    and "\<And>d k. f (k\<lparr>idt_descriptors := d\<rparr>) = f k" and "\<And>r k. f (k\<lparr>idtr_descriptor := r\<rparr>) = f k"
  shows "f (idt_init stubs wrapper table k) = f k"
proof -
  have "f (fold (\<lambda>i. idt_set (int i) (stubs ! i)) ns k) = f k" for ns k
    by (induction ns arbitrary: k) (simp_all add: assms)
  moreover have "f (fold (\<lambda>i k. snd (idt_register_interrupt_callback (int i) h k)) ns k) = f k" for ns h k
    by (induction ns arbitrary: k) (simp_all add: assms)
  ultimately show ?thesis by (simp only: idt_init_def Let_def assms)
qed

lemma idt_init_fields:
  "io_state.truncate (idt_init stubs wrapper table k) = io_state.truncate k"
  "filesystems (idt_init stubs wrapper table k) = filesystems k" "file_descriptors (idt_init stubs wrapper table k) = file_descriptors k"
  "isr80h_commands (idt_init stubs wrapper table k) = isr80h_commands k" "keyboards (idt_init stubs wrapper table k) = keyboards k"
  "classic_keyboard (idt_init stubs wrapper table k) = classic_keyboard k"
  "keyboard_list_last (idt_init stubs wrapper table k) = keyboard_list_last k"
  "length (interrupt_callbacks (idt_init stubs wrapper table k)) = length (interrupt_callbacks k)"
  by (rule idt_init_keeps; simp add: idt_set_def idt_register_interrupt_callback_def io_state.truncate_def)+

lemma identity_space:
  fixes k :: "'a task_state_scheme"
  assumes "chunk_wf (ram k) c d T" and "dir_present (ram k) d" and "cr3 k = blk_addr d"
    and "\<And>v. v mod 4096 = 0 \<Longrightarrow> paging_get (blk_addr d) v (ram k) = v OR 7"
  shows "translate k va = Some va"
proof -
  let ?v = "paging_align_to_lower_page va"
  have page: "page_of ?v = page_of va" using aligned_to_lower(2) [of va] by (simp add: page_of_def)
  have a: "?v mod 4096 = 0" by (rule aligned_to_lower(1))
  have e: "load32 (ram k) (entry_cell T (page_of va)) = ?v OR 7"
    using paging_get_eq [OF chunk_wfD(1) [OF assms(1)] a] assms(4) [OF a] page by simp
  have "(?v OR 7) AND 0xfffff000 = ?v" by (rule frame_mask [OF a]) simp
  moreover have "bit (?v OR 7) 0" by (simp add: bit_or_iff)
  moreover have "?v + va mod 4096 = va" by (simp add: paging_align_to_lower_page_def)
  ultimately show ?thesis
    unfolding translate_eq [OF chunk_wfD(1) [OF assms(1)] assms(2,3)] e entry_to_phys_def by simp
qed

lemma tss_setup_spec:
  "load32 (tss_setup tss m) (tss + 4) = 0x600000" "load32 (tss_setup tss m) (tss + 8) = 0x10"
  "100 \<le> unat (a - tss) \<Longrightarrow> tss_setup tss m a = m a"
proof -
  show "load32 (tss_setup tss m) (tss + 8) = 0x10" by (simp add: tss_setup_def Let_def load32_store32_same)
  have "cells_apart (tss + 4) (tss + 8)" by (simp add: cells_apart_def)
  then show "load32 (tss_setup tss m) (tss + 4) = 0x600000"
    by (simp add: tss_setup_def Let_def load32_store32_apart load32_store32_same)
  show "tss_setup tss m a = m a" if far: "100 \<le> unat (a - tss)"
  proof -
    have sub: "4 \<le> unat (y - 8)" "4 \<le> unat (y - 4)" if "100 \<le> unat y" for y :: u32
      using that by (simp_all add: unat_sub32)
    have "4 \<le> unat (a - (tss + 8))" "4 \<le> unat (a - (tss + 4))"
      using sub [OF far] by (simp_all only: diff_diff_eq)
    moreover have "unat TSS_SIZE \<le> unat (a - tss)" using far by (simp add: TSS_SIZE_def)
    ultimately show ?thesis by (simp add: tss_setup_def Let_def store32_other memset_other)
  qed
qed

definition boot_idt :: "'a sys_state_scheme boot_env \<Rightarrow> 'a sys_state_scheme \<Rightarrow> bool" where
  \<comment> \<open>every interrupt reaches its stub, \<open>0x80\<close> the system call stub; exceptions, clock and keyboard have callbacks\<close>
  "boot_idt e k \<longleftrightarrow> length (idt_descriptors k) = 512 \<and> idtr_descriptor k = \<lparr>idtr_limit = 4095, idtr_base = idt_at e\<rparr>
     \<and> (\<forall>i < 512. idt_address (idt_descriptors k ! i) = (if i = 0x80 then wrapper_at e else stubs_at e ! i))
     \<and> (\<forall>i < 512. interrupt_callbacks k ! i = (if i < 0x20 then Idt_handle_execption else if i = 0x20 then Idt_clock
          else if i = 0x21 then Classic_keyboard_interrupt_handler else No_callback))"

lemma keyboard_init_run:
  assumes "kbd_init (keyboards k (classic_keyboard k)) = Classic_keyboard_init" and "keyboard_list_last k = 0"
  shows "keyboard_init k = outb 0x64 0xAE (keyboard_set_capslock (classic_keyboard k) 0
    (k\<lparr>keyboard_list_head := classic_keyboard k, keyboard_list_last := classic_keyboard k,
       interrupt_callbacks := (interrupt_callbacks k)[0x21 := Classic_keyboard_interrupt_handler]\<rparr>))"
  using assms by (simp add: keyboard_init_def keyboard_insert_def classic_init_def call_keyboard_init_def classic_keyboard_init_def
      idt_register_interrupt_callback_def)

lemma machine_run:
  assumes rep: "kheap_rep k A" and free: "1026 \<le> free_blocks 25600 A" and tss: "in_image (tss_at e) 100"
    and tables: "isr80h_commands k = replicate 1024 No_command" "interrupt_callbacks k = replicate 512 No_callback"
    and kb: "kbd_init (keyboards k (classic_keyboard k)) = Classic_keyboard_init" "keyboard_list_last k = 0"
  shows "\<exists>c d T k'. kernel_machine e k = Some k' \<and> boot_idt e k'
    \<and> isr80h_commands k' = commands @ replicate 1014 No_command
    \<and> keyboard_list_head k' = classic_keyboard k \<and> keyboard_list_last k' = classic_keyboard k
    \<and> kheap_rep k' (A ++ ones (c # d # T)) \<and> (\<forall>b \<in> set (c # d # T). A b = None)
    \<and> free_blocks 25600 A = free_blocks 25600 (A ++ ones (c # d # T)) + 1026
    \<and> chunk_wf (ram k') c d T \<and> kernel_chunk k' = blk_addr c \<and> (\<forall>va. translate k' va = Some va)
    \<and> load32 (ram k') (tss_at e + 4) = 0x600000 \<and> load32 (ram k') (tss_at e + 8) = 0x10
    \<and> (\<forall>a. stable A a \<longrightarrow> 100 \<le> unat (a - tss_at e) \<longrightarrow> ram k' a = ram k a)
    \<and> drive k' = drive k \<and> the_disk k' = the_disk k \<and> disk_addr k' = disk_addr k \<and> streams k' = streams k
    \<and> filesystems k' = filesystems k \<and> file_descriptors k' = file_descriptors k"
proof -
  let ?k1 = "idt_init (stubs_at e) (wrapper_at e) (idt_at e) k" and ?t = "tss_at e"
  let ?k2 = "?k1\<lparr>ram := tss_setup ?t (ram ?k1)\<rparr>"
  have l: "length (interrupt_callbacks k) = 512" using tables(2) by simp
  have idt: "length (idt_descriptors ?k1) = 512" "idtr_descriptor ?k1 = \<lparr>idtr_limit = 4095, idtr_base = idt_at e\<rparr>"
    "\<forall>i < 512. idt_address (idt_descriptors ?k1 ! i) = (if i = 0x80 then wrapper_at e else stubs_at e ! i)"
    "\<forall>i < 512. interrupt_callbacks ?k1 ! i = (if i < 0x20 then Idt_handle_execption else if i = 0x20 then Idt_clock
       else interrupt_callbacks k ! i)"
    using idt_init_spec [OF l, of "stubs_at e" "wrapper_at e" "idt_at e"] by blast+
  note keep = idt_init_fields [of "stubs_at e" "wrapper_at e" "idt_at e" k]
  have io: "ram ?k1 = ram k" "kernel_heap ?k1 = kernel_heap k" "drive ?k1 = drive k" "the_disk ?k1 = the_disk k"
    "disk_addr ?k1 = disk_addr k" "streams ?k1 = streams k"
    using keep(1) by (simp_all add: io_state.truncate_def)
  have "kheap_rep ?k1 A" using rep io by (simp add: kheap_rep_def)
  then have rep2: "kheap_rep ?k2 A"
    by (rule kheap_rep_table) (intro tss_setup_spec(3) image_off_table [OF tss])
  obtain c d T k3 where new: "paging_new_4gb 7 ?k2 = (blk_addr c, k3)" "chunk_wf (ram k3) c d T"
    "kheap_rep k3 (A ++ ones (c # d # T))" "\<forall>b \<in> set (c # d # T). A b = None"
    "free_blocks 25600 A = free_blocks 25600 (A ++ ones (c # d # T)) + 1026"
    "\<forall>v. v mod 4096 = 0 \<longrightarrow> paging_get (blk_addr d) v (ram k3) = v OR ucast (7 :: u8)"
    "kmem.more k3 = kmem.more ?k2" "bit (7 :: u8) 0 \<longrightarrow> dir_present (ram k3) d" "\<forall>a. stable A a \<longrightarrow> ram k3 a = ram ?k2 a"
    using paging_new_4gb_built [OF rep2 free, of 7] by blast
  define m where "m = ram k3"
  have k3: "k3 = ?k2\<lparr>ram := m\<rparr>"
    using new(7) kheap_repD(1) [OF new(3)] kheap_repD(1) [OF rep2] by (intro kmem.equality) (simp_all add: m_def)
  let ?k5 = "paging_switch (blk_addr c) (k3\<lparr>kernel_chunk := blk_addr c\<rparr>)"
  define k6 where "k6 = ?k5\<lparr>isr80h_commands := commands @ replicate 1014 No_command\<rparr>"
  have fields: "isr80h_commands ?k5 = isr80h_commands k" "keyboards k6 = keyboards k" "classic_keyboard k6 = classic_keyboard k"
    "keyboard_list_last k6 = keyboard_list_last k" "interrupt_callbacks k6 = interrupt_callbacks ?k1"
    "idt_descriptors k6 = idt_descriptors ?k1" "idtr_descriptor k6 = idtr_descriptor ?k1"
    "filesystems k6 = filesystems k" "file_descriptors k6 = file_descriptors k" "ram k6 = m" "drive k6 = drive k"
    "the_disk k6 = the_disk k" "disk_addr k6 = disk_addr k" "streams k6 = streams k" "kernel_chunk k6 = blk_addr c"
    "isr80h_commands k6 = commands @ replicate 1014 No_command" "cr3 k6 = directory_entry m (blk_addr c)" "kernel_heap k6 = kernel_heap k3"
    unfolding k6_def k3 by (simp_all add: paging_switch_def paging_load_directory_def keep io)
  have run: "kernel_machine e k = Some (keyboard_init k6)"
    using new(1) register_commands [of ?k5] fields(1) tables(1)
    by (simp add: kernel_machine_def Let_def k6_def)
  have kbd: "kbd_init (keyboards k6 (classic_keyboard k6)) = Classic_keyboard_init" "keyboard_list_last k6 = 0"
    using fields(2-4) kb by simp_all
  define k' where "k' = keyboard_init k6"
  note init = keyboard_init_run [OF kbd, folded k'_def]
  have fin: "ram k' = m" "cr3 k' = directory_entry m (blk_addr c)" "kernel_heap k' = kernel_heap k3" "kernel_chunk k' = blk_addr c"
    "isr80h_commands k' = commands @ replicate 1014 No_command" "drive k' = drive k" "the_disk k' = the_disk k"
    "disk_addr k' = disk_addr k" "streams k' = streams k" "filesystems k' = filesystems k" "file_descriptors k' = file_descriptors k"
    "idt_descriptors k' = idt_descriptors ?k1" "idtr_descriptor k' = idtr_descriptor ?k1"
    "interrupt_callbacks k' = (interrupt_callbacks ?k1)[0x21 := Classic_keyboard_interrupt_handler]"
    "keyboard_list_head k' = classic_keyboard k" "keyboard_list_last k' = classic_keyboard k"
    unfolding init by (simp_all add: outb_def keyboard_set_capslock_def fields)
  have wf: "chunk_wf (ram k') c d T" using new(2) by (simp add: fin m_def)
  have ident: "translate k' va = Some va" for va
  proof (rule identity_space [OF wf])
    show "dir_present (ram k') d" using new(8) by (simp add: fin m_def)
    show "cr3 k' = blk_addr d" using chunk_wfD(5) [OF wf] by (simp add: fin)
    show "\<And>v. v mod 4096 = 0 \<Longrightarrow> paging_get (blk_addr d) v (ram k') = v OR 7" using new(6) by (simp add: fin m_def)
  qed
  have ram: "ram k' a = tss_setup ?t (ram k) a" if "stable A a" for a
    using new(9) that by (simp add: fin m_def io)
  have B: "ram k' (?t + of_nat i) = tss_setup ?t (ram k) (?t + of_nat i)" if "i < 100" for i
    using ram in_image_stable [OF tss that] by blast
  have "load32 (ram k') (?t + 4) = load32 (tss_setup ?t (ram k)) (?t + 4)"
    using B [of 4] B [of 5] B [of 6] B [of 7] by (intro load32_cong) (simp_all add: add.assoc)
  moreover have "load32 (ram k') (?t + 8) = load32 (tss_setup ?t (ram k)) (?t + 8)"
    using B [of 8] B [of 9] B [of 10] B [of 11] by (intro load32_cong) (simp_all add: add.assoc)
  moreover have "length (interrupt_callbacks ?k1) = 512" using keep l by simp
  moreover from this have "boot_idt e k'"
    unfolding boot_idt_def fin using idt tables(2) by (simp add: nth_list_update)
  moreover have "kheap_rep k' (A ++ ones (c # d # T))"
    using new(3) by (simp add: kheap_rep_def fin m_def)
  ultimately show ?thesis
    using run [folded k'_def] new(4,5) wf ident ram tss_setup_spec
    by (intro exI [of _ c] exI [of _ d] exI [of _ T] exI [of _ k']) (simp add: fin)
qed

lemma boot_run:
  assumes "boot_ready e tmp k n"
  shows "\<exists>A k2. kernel_main e k = kernel_shells e k2
    \<and> kheap_rep k2 A \<and> free_blocks 25600 A = 24569
    \<and> mounted k2 \<and> disk_filesystem (the_disk k2) = fat16_fs_at e \<and> header (the_private k2) = boot_header k
    \<and> filesystems k2 = fat16_fs_at e # replicate 11 0 \<and> file_descriptors k2 = replicate 512 0
    \<and> (\<forall>i < 6. describes (ram k2) (gdt_real_at e + of_nat (8 * i)) (gdt_structured (tss_at e) ! i))
    \<and> load32 (ram k2) (tss_at e + 4) = 0x600000 \<and> load32 (ram k2) (tss_at e + 8) = 0x10
    \<and> boot_idt e k2 \<and> isr80h_commands k2 = commands @ replicate 1014 No_command
    \<and> keyboard_list_head k2 = classic_keyboard k \<and> (\<forall>va. translate k2 va = Some va)"
proof -
  obtain b A k1 where dev: "kernel_devices e k = Some k1" "mounted k1" "kheap_rep k1 A" "A b = Some 1"
    "free_blocks 25600 A = 25595" "fs_private (the_disk k1) = blk_addr b" "disk_filesystem (the_disk k1) = fat16_fs_at e"
    "header (the_private k1) = boot_header k" "filesystems k1 = fat16_fs_at e # replicate 11 0"
    "file_descriptors k1 = replicate 512 0" "file_state.more k1 = file_state.more k"
    "\<forall>i < 6. describes (ram k1) (gdt_real_at e + of_nat (8 * i)) (gdt_structured (tss_at e) ! i)"
    using devices_run [OF assms] by blast
  have ready: "in_image (gdt_real_at e) 48" "in_image (tss_at e) 100" "disjoint_from (gdt_real_at e) 48 (tss_at e) 100"
    "isr80h_commands k = replicate 1024 No_command" "interrupt_callbacks k = replicate 512 No_callback"
    "kbd_init (keyboards k (classic_keyboard k)) = Classic_keyboard_init" "keyboard_list_last k = 0"
    using assms by (simp_all add: boot_ready_def)
  have same: "isr80h_commands k1 = isr80h_commands k" "interrupt_callbacks k1 = interrupt_callbacks k"
    "keyboards k1 = keyboards k" "classic_keyboard k1 = classic_keyboard k" "keyboard_list_last k1 = keyboard_list_last k"
    using dev(11) by (cases k; cases k1; simp)+
  have free: "1026 \<le> free_blocks 25600 A" using dev(5) by simp
  obtain c d T k2 where mach: "kernel_machine e k1 = Some k2" "boot_idt e k2"
    "isr80h_commands k2 = commands @ replicate 1014 No_command" "keyboard_list_head k2 = classic_keyboard k1"
    "kheap_rep k2 (A ++ ones (c # d # T))" "free_blocks 25600 A = free_blocks 25600 (A ++ ones (c # d # T)) + 1026"
    "\<forall>va. translate k2 va = Some va" "load32 (ram k2) (tss_at e + 4) = 0x600000" "load32 (ram k2) (tss_at e + 8) = 0x10"
    and frame: "\<forall>a. stable A a \<longrightarrow> 100 \<le> unat (a - tss_at e) \<longrightarrow> ram k2 a = ram k1 a"
    and io: "drive k2 = drive k1" "the_disk k2 = the_disk k1" "disk_addr k2 = disk_addr k1" "streams k2 = streams k1"
    "filesystems k2 = filesystems k1" "file_descriptors k2 = file_descriptors k1"
    using machine_run [OF dev(3) free ready(2), unfolded same, OF ready(4-7)] unfolding same [symmetric] by (elim exE conjE) (rule that)
  have "same_bytes (gdt_real_at e) 48 (ram k2) (ram k1)"
    using frame in_image_stable [OF ready(1)] ready(3) by (simp add: same_bytes_def disjoint_from_def)
  note gdt = gdt_kept [OF dev(12) this]
  have bk: "b < 25600" using kheap_rep_pos [OF dev(3,4)] by simp
  have off: "100 \<le> unat (blk_addr b + of_nat x - tss_at e)" if "x < 92" for x
  proof -
    have "unat (blk_addr b + of_nat x) = 16777216 + b * 4096 + x" by (rule unat_blk_byte) (use bk that in linarith)
    then show ?thesis unfolding unat_sub32 using ready(2) by (simp add: in_image_def) linarith
  qed
  have "same_bytes (blk_addr b) 92 (ram k2) (ram k1)"
    using frame off stable_block [OF dev(3,4)] by (simp add: same_bytes_def)
  then have priv: "the_private k2 = the_private k1"
    by (simp add: the_private_def io(2) dev(6) fat_private_at_same)
  have "mounted k2" using dev(2) by (simp add: mounted_def priv io)
  moreover have "kernel_main e k = kernel_shells e k2" by (simp add: kernel_main_def dev(1) mach(1))
  moreover have "free_blocks 25600 (A ++ ones (c # d # T)) = 24569" using mach(6) dev(5) by simp
  ultimately show ?thesis
    using mach(2-5,7-9) dev(7-10) gdt priv io(2,5,6) same(4)
    by (intro exI [of _ "A ++ ones (c # d # T)"] exI [of _ k2]) simp
qed

subsection \<open>Starting the kernel\<close>

text \<open>
  C15: \<open>kernel_main\<close> on a disk with a FAT16 volume reaches the start of the shells.  By then the disk is mounted with
  FAT16 and its boot sector, the six segment descriptors and the stack of the task state segment are what
  the source lists, every interrupt has its stub and callback, the ten system calls and the keyboard driver are
  registered, the kernel's address space maps every address to itself, and of the heap's 25600 blocks 24569 are free.
\<close>
theorem kernel_boots:
  assumes "boot_ready e tmp k n"
  shows "\<exists>A k2. kernel_main e k = kernel_shells e k2
    \<and> kheap_rep k2 A \<and> free_blocks 25600 A = 24569
    \<and> mounted k2 \<and> disk_filesystem (the_disk k2) = fat16_fs_at e \<and> header (the_private k2) = boot_header k
    \<and> filesystems k2 = fat16_fs_at e # replicate 11 0 \<and> file_descriptors k2 = replicate 512 0
    \<and> (\<forall>i < 6. describes (ram k2) (gdt_real_at e + of_nat (8 * i)) (gdt_structured (tss_at e) ! i))
    \<and> load32 (ram k2) (tss_at e + 4) = 0x600000 \<and> load32 (ram k2) (tss_at e + 8) = 0x10
    \<and> boot_idt e k2 \<and> isr80h_commands k2 = commands @ replicate 1014 No_command
    \<and> keyboard_list_head k2 = classic_keyboard k \<and> (\<forall>va. translate k2 va = Some va)"
  by (rule boot_run [OF assms])

definition boot_test_env :: "sys_state boot_env" where
  "boot_test_env = \<lparr>sys_env_of = test_env\<lparr>fs_functions := (\<lambda>f. fat16_fs f 0x7000)\<rparr>, gdt_real_at = 0x110000, tss_at = 0x111000,
     fat16_fs_at = 0x112000, stubs_at = replicate 512 0x100500, wrapper_at = 0x100600, idt_at = 0x113000,
     lit_heap = 0x114000, lit_shell = 0x114100, itoa_at = 0x115000, argument_at = 0x1FF000, junk_shell = 0\<rparr>"

definition boot_test :: sys_state where
  "boot_test = (test_sys (\<lambda>_. 0))\<lparr>drive := drive (mount_test mount_image), disk_addr := 0x116000,
     isr80h_commands := replicate 1024 No_command, interrupt_callbacks := replicate 512 No_callback,
     keyboards := (\<lambda>_. \<lparr>kbd_init = Classic_keyboard_init, capslock_state = 0, next_keyboard = 0\<rparr>), keyboard_list_last := 0\<rparr>"

lemma boot_test_ready: "boot_ready boot_test_env 0x7000 boot_test 1"
proof -
  have d: "drive boot_test = drive (mount_test mount_image)" by (simp add: boot_test_def)
  have h: "boot_header boot_test = boot_header (mount_test mount_image)" by (simp add: boot_header_def d)
  have m: "entry_mark boot_test 1024 0 = 0x48" "entry_mark boot_test 1024 1 = 0"
    using mount_test_marks by (simp_all add: entry_mark_def d)
  have "fat16_volume boot_test 1" unfolding fat16_volume_def h using m by (simp add: Let_def mount_test_header)
  moreover have "ata_responsive (drive boot_test)" using mount_test_start(2) [of mount_image] by (simp add: d)
  moreover have "disjoint_from 0x110000 48 0x111000 100" "disjoint_from 0x110000 48 0x112018 6"
    by (rule disjoint_from_below; simp)+
  ultimately show ?thesis
    by (simp add: boot_ready_def boot_test_env_def in_image_def) (simp add: boot_test_def)
qed

theorem kernel_boots_witness:
  "\<exists>k2. kernel_main boot_test_env boot_test = kernel_shells boot_test_env k2 \<and> mounted k2
    \<and> translate k2 0xB8000 = Some 0xB8000 \<and> load32 (ram k2) 0x111004 = 0x600000"
proof -
  have "tss_at boot_test_env + 4 = 0x111004" by (simp add: boot_test_env_def)
  then show ?thesis using kernel_boots [OF boot_test_ready] by metis
qed

end
