(* ===== verification/Rtc.thy ===== *)
theory Rtc
  imports Prelude
begin

text \<open>
  \<^verbatim>\<open>src/src/rtc/rtc.c\<close>: the real time clock.  The chip (an MC146818 behind the ports \<open>0x70\<close> and
  \<open>0x71\<close>) is the environment: the \<open>n\<close>-th read of the data port delivers \<open>rtc_register c n r\<close>, where \<open>r\<close> is the
  register selected last.
\<close>

subsection \<open>State and operations\<close>

record cmos =
  rtc_register :: "nat \<Rightarrow> u8 \<Rightarrow> u8"
  rtc_selected :: u8
  rtc_reads :: nat

record time =
  hour :: u32
  second :: u32
  minute :: u32

record datetime =
  day :: u32
  month :: u32
  year :: u32
  date_time :: time

definition rtc_select :: "u8 \<Rightarrow> cmos \<Rightarrow> cmos" where
  \<comment> \<open>\<open>outb(0x70, reg)\<close>\<close>
  "rtc_select r c = c\<lparr>rtc_selected := r\<rparr>"

definition rtc_data :: "cmos \<Rightarrow> u8 \<times> cmos" where
  \<comment> \<open>\<open>insb(0x71)\<close>\<close>
  "rtc_data c = (rtc_register c (rtc_reads c) (rtc_selected c), c\<lparr>rtc_reads := Suc (rtc_reads c)\<rparr>)"

definition is_updating :: "cmos \<Rightarrow> bool \<times> cmos" where
  "is_updating c = (let (v, c) = rtc_data (rtc_select 0x0A c) in (v AND 0x80 \<noteq> 0, c))"

partial_function (option) wait_update :: "cmos \<Rightarrow> cmos option" where
  "wait_update c = (let (updating, c) = is_updating c in if updating then wait_update c else Some c)"

definition rtc_read :: "int \<Rightarrow> cmos \<Rightarrow> (u8 \<times> cmos) option" where
  "rtc_read reg c = map_option (\<lambda>c. rtc_data (rtc_select (word_of_int reg) c)) (wait_update c)"

definition rtc_get_seconds :: "cmos \<Rightarrow> (u8 \<times> cmos) option" where
  "rtc_get_seconds c = map_option (\<lambda>(s, c). ((s AND 0x0F) + (s div 16) * 10, c)) (rtc_read 0 c)"

definition rtc_get_minutes :: "cmos \<Rightarrow> (u8 \<times> cmos) option" where
  "rtc_get_minutes c = map_option (\<lambda>(m, c). ((m AND 0x0F) + (m div 16) * 10, c)) (rtc_read 2 c)"

definition rtc_get_hours :: "cmos \<Rightarrow> (u8 \<times> cmos) option" where
  "rtc_get_hours c =
     map_option (\<lambda>(h, c). (((h AND 0x0F) + ((h AND 0x70) div 16) * 10) OR (h AND 0x80), c)) (rtc_read 4 c)"

definition rtc_get_time :: "cmos \<Rightarrow> (time \<times> cmos) option" where
  "rtc_get_time c =
     Option.bind (rtc_get_hours c) (\<lambda>(h, c). Option.bind (rtc_get_minutes c) (\<lambda>(m, c).
       Option.bind (rtc_get_seconds c) (\<lambda>(s, c). Some (\<lparr>hour = ucast h, second = ucast s, minute = ucast m\<rparr>, c))))"

definition rtc_get_date_time :: "cmos \<Rightarrow> (datetime \<times> cmos) option" where
  "rtc_get_date_time c =
     Option.bind (rtc_read 7 c) (\<lambda>(d, c). Option.bind (rtc_read 8 c) (\<lambda>(m, c). Option.bind (rtc_read 9 c) (\<lambda>(y, c).
       Option.bind (rtc_get_time c) (\<lambda>(t, c).
         Some (\<lparr>day = ucast d, month = ucast m, year = ucast y, date_time = t\<rparr>, c)))))"

subsection \<open>Waiting\<close>

lemma wait_update_step:
  "wait_update c = (if rtc_register c (rtc_reads c) 0x0A AND 0x80 \<noteq> 0
     then wait_update (c\<lparr>rtc_selected := 0x0A, rtc_reads := Suc (rtc_reads c)\<rparr>)
     else Some (c\<lparr>rtc_selected := 0x0A, rtc_reads := Suc (rtc_reads c)\<rparr>))"
  by (subst wait_update.simps) (simp add: is_updating_def rtc_data_def rtc_select_def Let_def)

definition quiet :: "cmos \<Rightarrow> nat \<Rightarrow> bool" where
  \<comment> \<open>at this read the chip is not updating\<close>
  "quiet c n \<longleftrightarrow> rtc_register c n 0x0A AND 0x80 = 0"

lemma wait_update_quiet:
  "quiet c (rtc_reads c + n) \<Longrightarrow> (\<And>i. i < n \<Longrightarrow> \<not> quiet c (rtc_reads c + i))
   \<Longrightarrow> wait_update c = Some (c\<lparr>rtc_selected := 0x0A, rtc_reads := Suc (rtc_reads c + n)\<rparr>)"
proof (induction n arbitrary: c)
  case 0
  then show ?case by (subst wait_update_step) (simp add: quiet_def)
next
  case (Suc n)
  have busy: "\<not> quiet c (rtc_reads c)" using Suc.prems(2) [of 0] by simp
  let ?c = "c\<lparr>rtc_selected := 0x0A, rtc_reads := Suc (rtc_reads c)\<rparr>"
  have "wait_update ?c = Some (?c\<lparr>rtc_selected := 0x0A, rtc_reads := Suc (rtc_reads ?c + n)\<rparr>)"
    by (rule Suc.IH) (use Suc.prems(1) Suc.prems(2) [of "Suc _"] in \<open>simp_all add: quiet_def\<close>)
  then show ?case using busy by (subst wait_update_step) (simp add: quiet_def)
qed

lemma wait_update_returns: "wait_update c = Some c' \<Longrightarrow> \<exists>n. quiet c (rtc_reads c + n)"
proof (erule wait_update.raw_induct [where P = "\<lambda>c _. \<exists>n. quiet c (rtc_reads c + n)", rotated])
  fix w :: "cmos \<Rightarrow> cmos option" and c c'
  assume IH: "\<And>c c'. w c = Some c' \<Longrightarrow> \<exists>n. quiet c (rtc_reads c + n)"
    and run: "(let (updating, c) = is_updating c in if updating then w c else Some c) = Some c'"
  show "\<exists>n. quiet c (rtc_reads c + n)"
  proof (cases "quiet c (rtc_reads c)")
    case True
    then show ?thesis by (intro exI [of _ 0]) simp
  next
    case False
    let ?c = "c\<lparr>rtc_selected := 0x0A, rtc_reads := Suc (rtc_reads c)\<rparr>"
    have "w ?c = Some c'"
      using run False by (simp add: is_updating_def rtc_data_def rtc_select_def Let_def quiet_def)
    from IH [OF this] obtain n where "quiet ?c (rtc_reads ?c + n)" by blast
    then show ?thesis by (intro exI [of _ "Suc n"]) (simp add: quiet_def)
  qed
qed

text \<open>
  C40: when \<open>read\<close> returns.  A read of a register ends exactly if the chip is ever seen without its update
  flag, and then delivers what the register holds right after the first such moment.
\<close>
theorem rtc_read_terminates:
  "(\<exists>r. rtc_read reg c = Some r) = (\<exists>n. quiet c (rtc_reads c + n))
   \<and> (\<forall>n. quiet c (rtc_reads c + n) \<and> \<not> (\<exists>i < n. quiet c (rtc_reads c + i)) \<longrightarrow>
        map_option fst (rtc_read reg c) = Some (rtc_register c (Suc (rtc_reads c + n)) (word_of_int reg)))"
proof -
  have "\<exists>r. rtc_read reg c = Some r" if "quiet c (rtc_reads c + n)" for n
  proof -
    let ?n = "LEAST n. quiet c (rtc_reads c + n)"
    have "quiet c (rtc_reads c + ?n)" using that by (rule LeastI)
    moreover have "\<not> quiet c (rtc_reads c + i)" if "i < ?n" for i using that by (rule not_less_Least)
    ultimately show ?thesis using wait_update_quiet [of c ?n] by (simp add: rtc_read_def)
  qed
  moreover have "\<exists>n. quiet c (rtc_reads c + n)" if "rtc_read reg c = Some r" for r
    using that wait_update_returns by (auto simp: rtc_read_def)
  moreover have "map_option fst (rtc_read reg c) = Some (rtc_register c (Suc (rtc_reads c + n)) (word_of_int reg))"
    if "quiet c (rtc_reads c + n)" "\<not> (\<exists>i < n. quiet c (rtc_reads c + i))" for n
    using wait_update_quiet [of c n] that by (auto simp: rtc_read_def rtc_data_def rtc_select_def)
  ultimately show ?thesis by blast
qed

subsection \<open>The time\<close>

definition bcd :: "nat \<Rightarrow> u8" where
  "bcd n = of_nat (n div 10 * 16 + n mod 10)"

definition shows_time :: "cmos \<Rightarrow> nat \<Rightarrow> nat \<Rightarrow> nat \<Rightarrow> bool" where
  \<comment> \<open>while it is read, the chip shows a time in BCD and 24 hour format and is not updating\<close>
  "shows_time c h m s \<longleftrightarrow> (\<forall>n \<ge> rtc_reads c. quiet c n \<and> rtc_register c n 4 = bcd h
     \<and> rtc_register c n 2 = bcd m \<and> rtc_register c n 0 = bcd s)"

lemma bcd_decode: "n < 100 \<Longrightarrow> (bcd n AND 0x0F) + (bcd n div 16) * 10 = of_nat n"
proof -
  have all: "\<forall>n \<in> set [0..<100]. (bcd n AND 0x0F) + (bcd n div 16) * 10 = of_nat n" by code_simp
  assume "n < 100"
  then show ?thesis using all by simp
qed

lemma bcd_hours: "n < 24 \<Longrightarrow> ((bcd n AND 0x0F) + ((bcd n AND 0x70) div 16) * 10) OR (bcd n AND 0x80) = of_nat n"
proof -
  have all: "\<forall>n \<in> set [0..<24]. ((bcd n AND 0x0F) + ((bcd n AND 0x70) div 16) * 10) OR (bcd n AND 0x80) = of_nat n" by code_simp
  assume "n < 24"
  then show ?thesis using all by simp
qed

lemma rtc_read_now:
  "quiet c (rtc_reads c) \<Longrightarrow> rtc_read reg c = Some (rtc_register c (Suc (rtc_reads c)) (word_of_int reg),
     c\<lparr>rtc_selected := word_of_int reg, rtc_reads := Suc (Suc (rtc_reads c))\<rparr>)"
  using wait_update_quiet [of c 0] by (simp add: rtc_read_def rtc_data_def rtc_select_def)

text \<open>
  \<open>rtc_get_time\<close> decodes the clock: when the chip shows \<open>h:m:s\<close> in BCD, in 24 hour format, and is not
  updating, the call returns these three numbers after six reads.
\<close>
theorem rtc_get_time_spec:
  assumes "shows_time c h m s" and "h < 24" and "m < 60" and "s < 60"
  shows "\<exists>c'. rtc_get_time c = Some (\<lparr>hour = of_nat h, second = of_nat s, minute = of_nat m\<rparr>, c')
    \<and> rtc_reads c' = rtc_reads c + 6"
proof -
  have now: "rtc_read reg (c\<lparr>rtc_selected := r, rtc_reads := n\<rparr>) = Some (rtc_register c (Suc n) (word_of_int reg),
      c\<lparr>rtc_selected := word_of_int reg, rtc_reads := Suc (Suc n)\<rparr>)" if "rtc_reads c \<le> n" for reg r n
    using assms(1) that rtc_read_now [of "c\<lparr>rtc_selected := r, rtc_reads := n\<rparr>"] by (simp add: shows_time_def quiet_def)
  have first: "rtc_read 4 c = Some (bcd h, c\<lparr>rtc_selected := 4, rtc_reads := Suc (Suc (rtc_reads c))\<rparr>)"
    using assms(1) rtc_read_now [of c 4] by (simp add: shows_time_def)
  have regs: "rtc_register c n 2 = bcd m" "rtc_register c n 0 = bcd s" if "rtc_reads c \<le> n" for n
    using assms(1) that by (simp_all add: shows_time_def)
  have of_nat: "ucast (of_nat n :: u8) = (of_nat n :: u32)" if "n < 100" for n
    using that by (simp add: unsigned_of_nat take_bit_nat_eq_self)
  show ?thesis
    using assms(2-4)
    by (simp add: rtc_get_time_def rtc_get_hours_def rtc_get_minutes_def rtc_get_seconds_def first now regs bcd_decode bcd_hours of_nat)
qed

text \<open>The date is delivered as it stands in the chip: on the tenth of a month \<open>day\<close> is 16.\<close>

lemma rtc_date_is_bcd:
  assumes "\<And>n. rtc_register c n 7 = bcd 10" and "rtc_get_date_time c = Some (t, c')" and "\<And>n. quiet c n"
  shows "day t = 16"
proof -
  have "rtc_read 7 c = Some (16, c\<lparr>rtc_selected := 7, rtc_reads := Suc (Suc (rtc_reads c))\<rparr>)"
    using assms(1) rtc_read_now [OF assms(3), of 7] by (simp add: bcd_def)
  then show ?thesis using assms(2) by (auto simp: rtc_get_date_time_def bind_eq_Some_conv)
qed

theorem rtc_get_time_spec_witness:
  "\<exists>c'. rtc_get_time \<lparr>rtc_register = (\<lambda>_ r. if r = 4 then bcd 23 else if r = 2 then bcd 59 else if r = 0 then bcd 8 else 0),
     rtc_selected = 0, rtc_reads = 0\<rparr> = Some (\<lparr>hour = 23, second = 8, minute = 59\<rparr>, c')"
proof -
  let ?c = "\<lparr>rtc_register = (\<lambda>_ r. if r = 4 then bcd 23 else if r = 2 then bcd 59 else if r = 0 then bcd 8 else 0),
     rtc_selected = 0, rtc_reads = 0\<rparr>"
  have "shows_time ?c 23 59 8" by (simp add: shows_time_def quiet_def)
  from rtc_get_time_spec [OF this] show ?thesis by auto
qed

theorem rtc_read_terminates_witness:
  "map_option fst (rtc_read 7 \<lparr>rtc_register = (\<lambda>n r. if r = 7 then 5 else if n < 3 then 0x80 else 0), rtc_selected = 0, rtc_reads = 0\<rparr>)
     = Some 5"
proof -
  let ?c = "\<lparr>rtc_register = (\<lambda>n r. if r = 7 then 5 else if n < 3 then 0x80 else 0), rtc_selected = 0, rtc_reads = 0\<rparr>"
  have "quiet ?c (rtc_reads ?c + 3)" "\<not> (\<exists>i < 3. quiet ?c (rtc_reads ?c + i))" by (auto simp: quiet_def)
  then show ?thesis using rtc_read_terminates [of 7 ?c] by auto
qed

end
