(* ===== verification/UserString.thy ===== *)
theory UserString
  imports CString
begin

text \<open>
  \<^verbatim>\<open>src/programs/stdlib/src/string.c\<close>, \<^verbatim>\<open>memory.c\<close> and the \<open>itoa\<close> of \<^verbatim>\<open>stdlib.c\<close>: the library of the user programs,
  over the memory a program sees.  The functions the kernel has too carry the suffix \<open>_u\<close>; they are shown equal to the
  kernel's, \<open>istrncmp\<close> apart.  \<open>strtok\<close> cuts a string into its words.
\<close>

subsection \<open>\<^verbatim>\<open>memory.c\<close>\<close>

function memset_u_loop :: "mem \<Rightarrow> u32 \<Rightarrow> u8 \<Rightarrow> nat \<Rightarrow> nat \<Rightarrow> mem" where
  "memset_u_loop m p c i sz =
     (if i < sz then memset_u_loop (m(p + of_nat i := c)) p c (Suc i) sz else m)"
  by pat_completeness auto
termination
  by (relation "measure (\<lambda>(m, p, c, i, sz). sz - i)") auto

definition memset_u :: "mem \<Rightarrow> u32 \<Rightarrow> int \<Rightarrow> u32 \<Rightarrow> u32 \<times> mem" where
  "memset_u m p c sz = (p, memset_u_loop m p (word_of_int c) 0 (unat sz))"

primrec memcmp_u_loop :: "mem \<Rightarrow> u32 \<Rightarrow> u32 \<Rightarrow> nat \<Rightarrow> int" where
  "memcmp_u_loop m c1 c2 0 = 0"
| "memcmp_u_loop m c1 c2 (Suc count) =
     (if m c1 \<noteq> m c2 then (if sgn_char (m c1) < sgn_char (m c2) then -1 else 1)
      else memcmp_u_loop m (c1 + 1) (c2 + 1) count)"

definition memcmp_u :: "mem \<Rightarrow> u32 \<Rightarrow> u32 \<Rightarrow> int \<Rightarrow> int" where
  "memcmp_u m s1 s2 count = memcmp_u_loop m s1 s2 (nat count)"

primrec memcpy_u_loop :: "mem \<Rightarrow> u32 \<Rightarrow> u32 \<Rightarrow> nat \<Rightarrow> mem" where
  "memcpy_u_loop m d s 0 = m"
| "memcpy_u_loop m d s (Suc len) = memcpy_u_loop (m(d := m s)) (d + 1) (s + 1) len"

definition memcpy_u :: "mem \<Rightarrow> u32 \<Rightarrow> u32 \<Rightarrow> int \<Rightarrow> u32 \<times> mem" where
  "memcpy_u m dest src len = (dest, memcpy_u_loop m dest src (unat (as_u32 len)))"

subsection \<open>\<^verbatim>\<open>string.c\<close>\<close>

definition tolower_u :: "u8 \<Rightarrow> u8" where
  "tolower_u s1 = (if sgn_char s1 \<ge> 65 \<and> sgn_char s1 \<le> 90 then s1 + 32 else s1)"

partial_function (option) strlen_u_loop :: "mem \<Rightarrow> u32 \<Rightarrow> int \<Rightarrow> int option" where
  "strlen_u_loop m ptr i = (if m ptr \<noteq> 0 then strlen_u_loop m (ptr + 1) (i + 1) else Some i)"

definition strlen_u :: "mem \<Rightarrow> u32 \<Rightarrow> int option" where
  "strlen_u m ptr = strlen_u_loop m ptr 0"

function strnlen_u_loop :: "mem \<Rightarrow> u32 \<Rightarrow> int \<Rightarrow> int \<Rightarrow> int" where
  "strnlen_u_loop m ptr i mx =
     (if i < mx then if m (ptr + as_u32 i) = 0 then i else strnlen_u_loop m ptr (i + 1) mx else i)"
  by pat_completeness auto
termination by (relation "measure (\<lambda>(m, p, i, mx). nat (mx - i))") auto

definition strnlen_u :: "mem \<Rightarrow> u32 \<Rightarrow> int \<Rightarrow> int" where
  "strnlen_u m ptr mx = strnlen_u_loop m ptr 0 mx"

partial_function (option) strcpy_u_loop :: "mem \<Rightarrow> u32 \<Rightarrow> u32 \<Rightarrow> mem option" where
  "strcpy_u_loop m dest src =
     (if m src \<noteq> 0 then strcpy_u_loop (m(dest := m src)) (dest + 1) (src + 1)
      else Some (m(dest := 0)))"

definition strcpy_u :: "mem \<Rightarrow> u32 \<Rightarrow> u32 \<Rightarrow> (u32 \<times> mem) option" where
  "strcpy_u m dest src = map_option (Pair dest) (strcpy_u_loop m dest src)"

function strncpy_u_loop :: "mem \<Rightarrow> u32 \<Rightarrow> u32 \<Rightarrow> int \<Rightarrow> int \<Rightarrow> int \<times> mem" where
  "strncpy_u_loop m dest src i count =
     (if i < count - 1 then
        if m (src + as_u32 i) = 0 then (i, m)
        else strncpy_u_loop (m(dest + as_u32 i := m (src + as_u32 i))) dest src (i + 1) count
      else (i, m))"
  by pat_completeness auto
termination by (relation "measure (\<lambda>(m, d, s, i, count). nat (count - i))") auto

definition strncpy_u :: "mem \<Rightarrow> u32 \<Rightarrow> u32 \<Rightarrow> int \<Rightarrow> u32 \<times> mem" where
  "strncpy_u m dest src count =
     (let (i, m') = strncpy_u_loop m dest src 0 count in (dest, m'(dest + as_u32 i := 0)))"

primrec istrncmp_u_loop :: "mem \<Rightarrow> u32 \<Rightarrow> u32 \<Rightarrow> nat \<Rightarrow> int" where
  \<comment> \<open>\<^verbatim>\<open>return u1 = u2\<close> is an assignment: its value is \<open>u2\<close>\<close>
  "istrncmp_u_loop m s1 s2 0 = 0"
| "istrncmp_u_loop m s1 s2 (Suc n) =
     (let u1 = m s1; u2 = m s2
      in if u1 \<noteq> u2 \<and> tolower_u u1 \<noteq> tolower_u u2 then uint u2
         else if u1 = 0 then 0 else istrncmp_u_loop m (s1 + 1) (s2 + 1) n)"

definition istrncmp_u :: "mem \<Rightarrow> u32 \<Rightarrow> u32 \<Rightarrow> int \<Rightarrow> int" where
  "istrncmp_u m s1 s2 n = istrncmp_u_loop m s1 s2 (nat n)"

primrec strncmp_u_loop :: "mem \<Rightarrow> u32 \<Rightarrow> u32 \<Rightarrow> nat \<Rightarrow> int" where
  "strncmp_u_loop m s1 s2 0 = 0"
| "strncmp_u_loop m s1 s2 (Suc n) =
     (let u1 = m s1; u2 = m s2
      in if u1 \<noteq> u2 then uint u1 - uint u2
         else if u1 = 0 then 0 else strncmp_u_loop m (s1 + 1) (s2 + 1) n)"

definition strncmp_u :: "mem \<Rightarrow> u32 \<Rightarrow> u32 \<Rightarrow> int \<Rightarrow> int" where
  "strncmp_u m str1 str2 n = strncmp_u_loop m str1 str2 (nat n)"

function strnlen_terminator_u_loop :: "mem \<Rightarrow> u32 \<Rightarrow> int \<Rightarrow> int \<Rightarrow> u8 \<Rightarrow> int" where
  "strnlen_terminator_u_loop m str i mx terminator =
     (if i < mx then
        if m (str + as_u32 i) = 0 \<or> m (str + as_u32 i) = terminator then i
        else strnlen_terminator_u_loop m str (i + 1) mx terminator
      else i)"
  by pat_completeness auto
termination by (relation "measure (\<lambda>(m, p, i, mx, t). nat (mx - i))") auto

definition strnlen_terminator_u :: "mem \<Rightarrow> u32 \<Rightarrow> int \<Rightarrow> u8 \<Rightarrow> int" where
  "strnlen_terminator_u m str mx terminator = strnlen_terminator_u_loop m str 0 mx terminator"

definition isdigit_u :: "u8 \<Rightarrow> bool" where
  "isdigit_u c \<longleftrightarrow> sgn_char c \<ge> 48 \<and> sgn_char c \<le> 57"

definition tonumericdigit_u :: "u8 \<Rightarrow> int" where
  "tonumericdigit_u c = sgn_char c - 48"

function itoa_u_loop :: "mem \<Rightarrow> u32 \<Rightarrow> int \<Rightarrow> int \<Rightarrow> int \<times> mem" where
  "itoa_u_loop m buf loc i =
     (if i \<noteq> 0 then
        itoa_u_loop (m(buf + as_u32 (loc - 1) := word_of_int (48 - i smod 10))) buf (loc - 1) (i sdiv 10)
      else (loc, m))"
  by pat_completeness auto
termination
proof (relation "measure (\<lambda>(m, t, loc, i). nat \<bar>i\<bar>)")
  fix m :: mem and t :: u32 and loc i :: int
  assume "i \<noteq> 0"
  then show "((m(t + as_u32 (loc - 1) := word_of_int (48 - i smod 10)), t, loc - 1, i sdiv 10), m, t, loc, i)
      \<in> measure (\<lambda>(m, t, loc, i). nat \<bar>i\<bar>)"
    by (auto simp: signed_divide_int_def sgn_if)
qed simp

declare memset_u_loop.simps [simp del] strnlen_u_loop.simps [simp del] strncpy_u_loop.simps [simp del]
  strnlen_terminator_u_loop.simps [simp del] itoa_u_loop.simps [simp del]

definition itoa_u :: "mem \<Rightarrow> u32 \<Rightarrow> int \<Rightarrow> u32 \<times> mem" where
  \<comment> \<open>in the static buffer \<open>buf\<close>\<close>
  "itoa_u m buf i =
     (let loc = 11;
          m = m(buf + 11 := 0);
          neg = (if i \<ge> 0 then False else True);
          i = (if i \<ge> 0 then - i else i);
          (loc, m) = itoa_u_loop m buf loc i;
          (loc, m) = (if loc = 11 then (loc - 1, m(buf + as_u32 (loc - 1) := 48)) else (loc, m));
          (loc, m) = (if neg then (loc - 1, m(buf + as_u32 (loc - 1) := 45)) else (loc, m))
      in (buf + as_u32 loc, m))"

subsection \<open>\<open>strtok\<close>\<close>

function delimiter_loop :: "mem \<Rightarrow> u8 \<Rightarrow> u32 \<Rightarrow> int \<Rightarrow> int \<Rightarrow> int" where
  \<comment> \<open>\<^verbatim>\<open>for (i = 0; i < len; i++) if (c == delimiters[i]) break;\<close>\<close>
  "delimiter_loop m c delimiters i len =
     (if i < len then if c = m (delimiters + as_u32 i) then i else delimiter_loop m c delimiters (i + 1) len else i)"
  by pat_completeness auto
termination by (relation "measure (\<lambda>(m, c, d, i, len). nat (len - i))") auto

declare delimiter_loop.simps [simp del]

partial_function (option) strtok_skip :: "mem \<Rightarrow> u32 \<Rightarrow> int \<Rightarrow> u32 \<Rightarrow> u32 option" where
  \<comment> \<open>the loop \<^verbatim>\<open>while (1)\<close>\<close>
  "strtok_skip m delimiters len p_start =
     (let i = delimiter_loop m (m p_start) delimiters 0 len
      in if i < len then strtok_skip m delimiters len (p_start + 1) else Some p_start)"

partial_function (option) strtok_end :: "mem \<Rightarrow> u32 \<Rightarrow> int \<Rightarrow> u32 \<Rightarrow> (u32 \<times> mem) option" where
  \<comment> \<open>the search for the end of the word\<close>
  "strtok_end m delimiters len sp =
     (if m sp \<noteq> 0 then
        let i = delimiter_loop m (m sp) delimiters 0 len
        in if i < len then Some (sp + 1, m(sp := 0)) else strtok_end m delimiters len (sp + 1)
      else Some (sp, m))"

definition strtok :: "mem \<Rightarrow> u32 \<Rightarrow> u32 \<Rightarrow> u32 \<Rightarrow> (u32 \<times> u32 \<times> mem) option" where
  \<comment> \<open>\<open>sp\<close> is the static variable; the result, its new value and the memory\<close>
  "strtok m sp str delimiters =
     (case strlen_u m delimiters of None \<Rightarrow> None
      | Some len \<Rightarrow>
          if str = 0 \<and> sp = 0 then Some (0, sp, m)
          else let sp = (if str \<noteq> 0 \<and> sp = 0 then str else sp)
               in case strtok_skip m delimiters len sp of None \<Rightarrow> None
                  | Some p_start \<Rightarrow>
                      if m p_start = 0 then Some (0, 0, m)
                      else case strtok_end m delimiters len p_start of None \<Rightarrow> None
                           | Some (sp, m) \<Rightarrow> Some (p_start, sp, m))"

subsection \<open>The kernel's functions\<close>

lemma option_same: "(\<And>r. a = Some r \<Longrightarrow> b = Some r) \<Longrightarrow> (\<And>r. b = Some r \<Longrightarrow> a = Some r) \<Longrightarrow> a = b"
  by (cases a; cases b) auto

lemma strlen_loop_same: "strlen_u_loop m p i = strlen_loop m p i"
proof (rule option_same)
  show "strlen_loop m p i = Some r" if "strlen_u_loop m p i = Some r" for r
    by (rule strlen_u_loop.raw_induct [OF _ that]) (subst strlen_loop.simps, auto split: if_splits)
  show "strlen_u_loop m p i = Some r" if "strlen_loop m p i = Some r" for r
    by (rule strlen_loop.raw_induct [OF _ that]) (subst strlen_u_loop.simps, auto split: if_splits)
qed

lemma strcpy_loop_same: "strcpy_u_loop m d s = strcpy_loop m d s"
proof (rule option_same)
  show "strcpy_loop m d s = Some r" if "strcpy_u_loop m d s = Some r" for r
    by (rule strcpy_u_loop.raw_induct [OF _ that]) (subst strcpy_loop.simps, auto split: if_splits)
  show "strcpy_u_loop m d s = Some r" if "strcpy_loop m d s = Some r" for r
    by (rule strcpy_loop.raw_induct [OF _ that]) (subst strcpy_u_loop.simps, auto split: if_splits)
qed

lemma memset_loop_same: "memset_u_loop m p c i sz = memset_loop m p c i sz"
  by (induction m p c i sz rule: memset_loop.induct) (subst memset_loop.simps, subst memset_u_loop.simps, simp del: fun_upd_apply)

lemma strnlen_loop_same: "strnlen_u_loop m p i mx = strnlen_loop m p i mx"
  by (induction m p i mx rule: strnlen_loop.induct) (subst strnlen_loop.simps, subst strnlen_u_loop.simps, simp)

lemma strncpy_loop_same: "strncpy_u_loop m d s i c = strncpy_loop m d s i c"
  by (induction m d s i c rule: strncpy_loop.induct) (subst strncpy_loop.simps, subst strncpy_u_loop.simps, simp del: fun_upd_apply)

lemma strnlen_terminator_loop_same: "strnlen_terminator_u_loop m s i mx c = strnlen_terminator_loop m s i mx c"
  by (induction m s i mx c rule: strnlen_terminator_loop.induct)
    (subst strnlen_terminator_loop.simps, subst strnlen_terminator_u_loop.simps, simp)

lemma itoa_loop_same: "itoa_u_loop m b l i = itoa_loop m b l i"
  by (induction m b l i rule: itoa_loop.induct) (subst itoa_loop.simps, subst itoa_u_loop.simps, simp del: fun_upd_apply)

lemma memcpy_loop_same: "memcpy_u_loop m d s n = memcpy_loop m d s n"
  by (induction n arbitrary: m d s) simp_all

lemma memcmp_loop_same: "memcmp_u_loop m p q n = memcmp_loop m p q n"
  by (induction n arbitrary: p q) simp_all

lemma strncmp_loop_same: "strncmp_u_loop m p q n = strncmp_loop m p q n"
  by (induction n arbitrary: p q) (simp_all add: Let_def)

lemma library_same:
  "strlen_u = strlen" "strnlen_u = strnlen" "strcpy_u = strcpy" "strncpy_u = strncpy" "strncmp_u = strncmp"
  "strnlen_terminator_u = strnlen_terminator" "tolower_u = tolower" "isdigit_u = isdigit" "tonumericdigit_u = tonumericdigit"
  "itoa_u = itoa" "memcmp_u = memcmp" "snd (memset_u m p c sz) = memset m p c sz" "snd (memcpy_u m d s n) = memcpy m d s n"
  by (simp_all add: fun_eq_iff strlen_u_def strlen_def strlen_loop_same strnlen_u_def strnlen_def strnlen_loop_same
      strcpy_u_def strcpy_def strcpy_loop_same strncpy_u_def strncpy_def strncpy_loop_same strncmp_u_def strncmp_def strncmp_loop_same
      strnlen_terminator_u_def strnlen_terminator_def strnlen_terminator_loop_same tolower_u_def tolower_def
      isdigit_u_def isdigit_def tonumericdigit_u_def tonumericdigit_def itoa_u_def itoa_def itoa_loop_same
      memcmp_u_def memcmp_def memcmp_loop_same memset_u_def memset_def memset_loop_same memcpy_u_def memcpy_def memcpy_loop_same)

text \<open>The one that differs finds a string equal to every proper beginning of it.\<close>

lemma istrncmp_u_loop_cstr:
  "cstr m p s \<Longrightarrow> cstr m q t \<Longrightarrow>
   istrncmp_u_loop m p q n = 0 \<longleftrightarrow> map tolower (take n s) = map tolower (take n t)
     \<or> (length t < n \<and> length t < length s \<and> map tolower (take (length t) s) = map tolower t)"
proof (induction n arbitrary: p q s t)
  case 0
  then show ?case by simp
next
  case (Suc n)
  then show ?case
    by (cases s; cases t) (auto simp: Let_def tolower_zero uint8_eq library_same(7))
qed

text \<open>
  where the library of the programs differs from the kernel's.  \<open>istrncmp\<close> finds two strings equal exactly if the
  kernel's does, or if the second is a proper beginning of the first, up to the case of letters, that ends before the
  \<open>n\<close>-th byte.
\<close>
theorem istrncmp_prefix:
  assumes "cstr m p s" and "cstr m q t"
  shows "istrncmp_u m p q n = 0 \<longleftrightarrow> istrncmp m p q n = 0
    \<or> (int (length t) < n \<and> length t < length s \<and> map tolower (take (length t) s) = map tolower t)"
  using istrncmp_u_loop_cstr [OF assms, of "nat n"] istrncmp_loop_cstr [OF assms, of "nat n"]
  by (auto simp: istrncmp_u_def istrncmp_def zless_nat_eq_int_zless)

theorem istrncmp_prefix_witness:
  "istrncmp_u hello 256 261 1025 = 0 \<and> istrncmp hello 256 261 1025 \<noteq> 0"
  using istrncmp_prefix [OF hello_cstr, of 261 "[]" 1025] istrncmp_loop_cstr [OF hello_cstr, of 261 "[]" 1025]
  by (simp add: hello_def istrncmp_def)

subsection \<open>Words\<close>

function tokens :: "u8 set \<Rightarrow> u8 list \<Rightarrow> u8 list list" where
  \<comment> \<open>the maximal runs of bytes outside \<open>D\<close>\<close>
  "tokens D s = (let r = dropWhile (\<lambda>c. c \<in> D) s
     in if r = [] then [] else takeWhile (\<lambda>c. c \<notin> D) r # tokens D (dropWhile (\<lambda>c. c \<notin> D) r))"
  by pat_completeness auto
termination
proof (relation "measure (\<lambda>(D, s). length s)")
  fix D :: "u8 set" and s r
  assume r: "r = dropWhile (\<lambda>c. c \<in> D) s" "r \<noteq> []"
  then have "hd r \<notin> D" using hd_dropWhile by metis
  then have "length (dropWhile (\<lambda>c. c \<notin> D) r) < length r"
    using r(2) length_dropWhile_le [of "\<lambda>c. c \<notin> D" "tl r"] by (cases r) (simp_all add: less_Suc_eq_le)
  moreover have "length r \<le> length s" using r(1) by (simp add: length_dropWhile_le)
  ultimately show "((D, dropWhile (\<lambda>c. c \<notin> D) r), (D, s)) \<in> measure (\<lambda>(D, s). length s)" by simp
qed simp

declare tokens.simps [simp del]

lemma delimiter_loop_found:
  "i \<le> length ds \<Longrightarrow> \<forall>j < length ds. m (d + of_nat j) = ds ! j \<Longrightarrow>
   delimiter_loop m c d (int i) (int (length ds)) < int (length ds) \<longleftrightarrow> c \<in> set (drop i ds)"
proof (induction "length ds - i" arbitrary: i)
  case 0
  then show ?case by (subst delimiter_loop.simps) simp
next
  case (Suc n)
  then have i: "i < length ds" by simp
  then have split: "drop i ds = ds ! i # drop (Suc i) ds" by (simp add: Cons_nth_drop_Suc)
  have "delimiter_loop m c d (int (Suc i)) (int (length ds)) < int (length ds) \<longleftrightarrow> c \<in> set (drop (Suc i) ds)"
    by (rule Suc.hyps(1)) (use Suc.hyps(2) Suc.prems i in auto)
  then show ?case using i Suc.prems(2) by (subst delimiter_loop.simps) (auto simp: split add.commute)
qed

lemma delimiter_found:
  "cstr m d ds \<Longrightarrow> delimiter_loop m c d 0 (int (length ds)) < int (length ds) \<longleftrightarrow> c \<in> set ds"
  using delimiter_loop_found [of 0 ds m d c] by (simp add: cstr_iff)

lemma cstr_nonzero: "cstr m p s \<Longrightarrow> 0 \<notin> set s"
  by (auto simp: cstr_iff in_set_conv_nth)

lemma strtok_skip_run:
  "cstr m d ds \<Longrightarrow> cstr m p s \<Longrightarrow>
   strtok_skip m d (int (length ds)) p = Some (p + of_nat (length (takeWhile (\<lambda>c. c \<in> set ds) s)))"
proof (induction s arbitrary: p)
  case Nil
  then show ?case using cstr_nonzero [of m d ds] by (subst strtok_skip.simps) (simp add: delimiter_found Let_def)
next
  case (Cons c s)
  then show ?case by (subst strtok_skip.simps) (simp add: delimiter_found Let_def add.assoc)
qed

lemma strtok_end_run:
  "cstr m d ds \<Longrightarrow> cstr m p s \<Longrightarrow>
   strtok_end m d (int (length ds)) p =
     (let w = takeWhile (\<lambda>c. c \<notin> set ds) s
      in if w = s then Some (p + of_nat (length s), m)
         else Some (p + of_nat (length w) + 1, m(p + of_nat (length w) := 0)))"
proof (induction s arbitrary: p)
  case Nil
  then show ?case by (subst strtok_end.simps) simp
next
  case (Cons c s)
  then show ?case
    by (subst strtok_end.simps) (auto simp: delimiter_found Let_def add.assoc)
qed

definition split_string :: "mem \<Rightarrow> u32 \<Rightarrow> u8 list \<Rightarrow> bool" where
  \<comment> \<open>a string that neither wraps around nor has a byte at address 0\<close>
  "split_string m p s \<longleftrightarrow> cstr m p s \<and> p \<noteq> 0 \<and> unat p + length s < 4294967296"

lemma split_string_drop:
  assumes "split_string m p s" and "n \<le> length s"
  shows "split_string m (p + of_nat n) (drop n s)"
proof -
  have n: "unat (p + of_nat n) = unat p + n" using assms by (simp add: split_string_def unat_add32 unat_of_nat32)
  moreover have "0 < unat p" using assms(1) by (simp add: split_string_def unat_gt_0)
  ultimately have "p + of_nat n \<noteq> 0" by (metis add_gr_0 gr_implies_not0 unsigned_0)
  then show ?thesis using assms n cstr_drop [of m p s n] by (simp add: split_string_def)
qed

lemma split_string_nz: "split_string m p s \<Longrightarrow> n \<le> length s \<Longrightarrow> p + of_nat n \<noteq> 0"
  using split_string_drop [of m p s n] by (simp add: split_string_def)

lemma split_string_cut:
  assumes "split_string m p (w @ c # r)"
  shows "split_string (m(p + of_nat (length w) := 0)) p w"
    "split_string (m(p + of_nat (length w) := 0)) (p + of_nat (length w) + 1) r"
proof -
  let ?m = "m(p + of_nat (length w) := 0)"
  have s: "cstr m p (w @ c # r)" "p \<noteq> 0" "unat p + length (w @ c # r) < 4294967296"
    using assms by (simp_all add: split_string_def)
  have ne: "p + of_nat i \<noteq> p + of_nat (length w)" if "i < length w" for i
    using that s(3) by (intro add_of_nat_neq) simp_all
  have "m (p + of_nat i) = w ! i \<and> w ! i \<noteq> 0" if "i < length w" for i
    using s(1) that by (auto simp: cstr_iff nth_append dest!: spec [where x = i])
  then have "cstr ?m p w" using ne by (simp add: cstr_iff)
  then show "split_string ?m p w" using s(2,3) by (simp add: split_string_def)
  have e: "p + of_nat (length w) + 1 = p + of_nat (Suc (length w))" by simp
  have old: "split_string m (p + of_nat (length w) + 1) r"
    using split_string_drop [OF assms, of "Suc (length w)"] by (simp add: e)
  have ne2: "p + of_nat (length w) + 1 + of_nat i \<noteq> p + of_nat (length w)" if "i \<le> length r" for i
  proof -
    have "p + of_nat (length w + 1 + i) \<noteq> p + of_nat (length w)"
      using that s(3) by (intro add_of_nat_neq) simp_all
    then show ?thesis by (simp add: add.assoc)
  qed
  have "cstr ?m (p + of_nat (length w) + 1) r"
  proof (rule cstr_cong)
    show "cstr m (p + of_nat (length w) + 1) r" using old by (simp only: split_string_def)
  qed (simp only: fun_upd_apply ne2 if_False)
  then show "split_string ?m (p + of_nat (length w) + 1) r" using old by (simp only: split_string_def simp_thms)
qed

lemma tokens_Nil: "dropWhile (\<lambda>c. c \<in> D) s = [] \<Longrightarrow> tokens D s = []"
  by (subst tokens.simps) (simp add: Let_def)

lemma tokens_Cons:
  assumes "dropWhile (\<lambda>c. c \<in> D) s = w @ r" and "w \<noteq> []" and "\<forall>c \<in> set w. c \<notin> D" and "r = [] \<or> hd r \<in> D"
  shows "tokens D s = w # tokens D r"
proof -
  have "takeWhile (\<lambda>c. c \<notin> D) (w @ r) = w" "dropWhile (\<lambda>c. c \<notin> D) (w @ r) = r"
    using assms(3,4) by (cases r; simp add: takeWhile_append dropWhile_append)+
  then show ?thesis using assms(1,2) by (subst tokens.simps) (simp add: Let_def)
qed

lemma tokens_skip: "c \<in> D \<Longrightarrow> tokens D (c # r) = tokens D r"
  by (simp only: tokens.simps [of D "c # r"] tokens.simps [of D r] dropWhile.simps if_True)

lemma strtok_run:
  assumes d: "cstr m d ds" and s: "split_string m p s" and start: "str = p \<and> sp = 0 \<or> sp = p"
    and off: "\<And>i. i \<le> length ds \<Longrightarrow> length s \<le> unat (d + of_nat i - p)"
  shows "case tokens (set ds) s of
      [] \<Rightarrow> strtok m sp str d = Some (0, 0, m)
    | w # ws \<Rightarrow> \<exists>q sp' m' r. strtok m sp str d = Some (q, sp', m') \<and> split_string m' q w \<and> split_string m' sp' r
        \<and> tokens (set ds) r = ws \<and> (\<exists>j n. q = p + of_nat j \<and> sp' = p + of_nat n \<and> n + length r = length s \<and> j + length w \<le> n)
        \<and> (\<forall>a. length s \<le> unat (a - p) \<longrightarrow> m' a = m a)"
proof -
  let ?D = "set ds" and ?k = "length (takeWhile (\<lambda>c. c \<in> set ds) s)"
  have len: "strlen_u m d = Some (int (length ds))" using strlen_loop_cstr [OF d, of 0] by (simp add: library_same strlen_def)
  have c: "cstr m p s" "p \<noteq> 0" using s by (simp_all add: split_string_def)
  have skip: "strtok_skip m d (int (length ds)) p = Some (p + of_nat ?k)" by (rule strtok_skip_run [OF d c(1)])
  have k: "?k \<le> length s" by (rule length_takeWhile_le)
  have rest: "drop ?k s = dropWhile (\<lambda>c. c \<in> ?D) s" by (simp add: dropWhile_eq_drop)
  note here = split_string_drop [OF s k, unfolded rest]
  have start': "(str = 0 \<and> sp = 0) = False" "(if str \<noteq> 0 \<and> sp = 0 then str else sp) = p" using start c(2) by auto
  show ?thesis
  proof (cases "dropWhile (\<lambda>c. c \<in> ?D) s = []")
    case True
    have "m (p + of_nat ?k) = 0" using here [unfolded True] by (simp add: split_string_def)
    then show ?thesis
      by (simp only: tokens_Nil [OF True] list.case strtok_def len option.case start' if_False Let_def skip if_True) simp
  next
    case False
    let ?t = "dropWhile (\<lambda>c. c \<in> ?D) s"
    define w r where w: "w = takeWhile (\<lambda>c. c \<notin> ?D) ?t" and r: "r = dropWhile (\<lambda>c. c \<notin> ?D) ?t"
    have t: "?t = w @ r" by (simp add: w r)
    have "hd ?t \<notin> ?D" using hd_dropWhile [OF False] .
    then have "w \<noteq> []" using False by (cases ?t) (simp_all add: w)
    moreover have "\<forall>c \<in> set w. c \<notin> ?D" unfolding w by (auto dest: set_takeWhileD)
    moreover have rD: "r = [] \<or> hd r \<in> ?D" using hd_dropWhile [of "\<lambda>c. c \<notin> ?D" ?t] by (auto simp: r)
    ultimately have tok: "tokens ?D s = w # tokens ?D r" by (rule tokens_Cons [OF t])
    have nz: "m (p + of_nat ?k) \<noteq> 0" using here False by (cases ?t) (auto simp: split_string_def)
    have ls: "length s = ?k + length w + length r" using arg_cong [OF t, of length] rest k by (metis length_append length_drop le_add_diff_inverse add.assoc)
    have e: "strtok_end m d (int (length ds)) (p + of_nat ?k) =
        (if w = ?t then Some (p + of_nat ?k + of_nat (length ?t), m)
         else Some (p + of_nat ?k + of_nat (length w) + 1, m(p + of_nat ?k + of_nat (length w) := 0)))"
      using strtok_end_run [OF d, of "p + of_nat ?k" ?t] here by (simp only: w [symmetric] Let_def split_string_def simp_thms)
    have st: "strtok m sp str d = (case strtok_end m d (int (length ds)) (p + of_nat ?k) of None \<Rightarrow> None
        | Some (sp, m) \<Rightarrow> Some (p + of_nat ?k, sp, m))"
      by (simp only: strtok_def len option.case start' if_False Let_def skip nz)
    show ?thesis
    proof (cases r)
      case Nil
      then have wt: "w = ?t" using t by simp
      then have run: "strtok m sp str d = Some (p + of_nat ?k, p + of_nat (length s), m)"
        using st e ls Nil by (simp add: add.assoc)
      have "split_string m (p + of_nat (length s)) []" using split_string_drop [OF s, of "length s"] by simp
      then show ?thesis
        unfolding tok list.case using run here wt Nil ls
        by (intro exI [of _ "p + of_nat ?k"] exI [of _ "p + of_nat (length s)"] exI [of _ m] exI [of _ "[]"] conjI
            exI [of _ ?k] exI [of _ "length s"]) simp_all
    next
      case (Cons c r')
      let ?q = "p + of_nat ?k"
      let ?m = "m(?q + of_nat (length w) := 0)"
      have run: "strtok m sp str d = Some (?q, ?q + of_nat (length w) + 1, ?m)"
        using st e Cons t by simp
      note cut = split_string_cut [OF here [unfolded t Cons]]
      have a: "?q + of_nat (length w) + 1 = p + of_nat (?k + length w + 1)" by simp
      have bound: "?k + length w < 4294967296" using s ls by (simp add: split_string_def)
      have frame: "?m x = m x" if "length s \<le> unat (x - p)" for x
      proof -
        have "unat (p + of_nat (?k + length w) - p) = ?k + length w" by (rule unat_offset [OF bound])
        then have "x \<noteq> p + of_nat (?k + length w)" using that ls Cons by auto
        then show ?thesis by (simp add: add.assoc)
      qed
      have "tokens ?D r = tokens ?D r'" using rD Cons by (simp add: tokens_skip)
      then show ?thesis
        unfolding tok list.case using run cut frame ls Cons
        by (intro exI [of _ ?q] exI [of _ "?q + of_nat (length w) + 1"] exI [of _ ?m] exI [of _ r'] conjI
            exI [of _ ?k] exI [of _ "?k + length w + 1"]) (simp_all add: add.assoc)
    qed
  qed
qed

lemma strtok_stale:
  \<comment> \<open>while \<open>sp\<close> is set a new string is ignored\<close>
  assumes "sp \<noteq> 0"
  shows "strtok m sp str d = strtok m sp 0 d"
proof -
  have "\<not> (x = 0 \<and> sp = 0)" "(if x \<noteq> 0 \<and> sp = 0 then x else sp) = sp" for x using assms by simp_all
  then show ?thesis unfolding strtok_def by (simp only: if_False)
qed

end
