(* ===== verification/UserLib.thy ===== *)
theory UserLib
  imports UserString "HOL-Library.Monad_Syntax"
begin

text \<open>
  \<^verbatim>\<open>src/programs/stdlib/src\<close>: the stubs of \<^verbatim>\<open>peachos.asm\<close>, \<^verbatim>\<open>peachos.c\<close>, \<^verbatim>\<open>stdio.c\<close>, \<^verbatim>\<open>stdlib.c\<close> and \<^verbatim>\<open>start.c\<close>.
  A program's state is the memory it sees, the variable \<^verbatim>\<open>sp\<close> of \<^verbatim>\<open>strtok\<close>, and the world behind \<^verbatim>\<open>int 0x80\<close>.
  The instruction is a parameter: it takes the number in \<^verbatim>\<open>eax\<close> and the words on the stack, and \<open>None\<close> is a call
  that does not come back.  Addresses of literals and of local arrays are parameters too.
\<close>

record 'w user_state =
  umem :: mem
  strtok_sp :: u32
  world :: 'w

type_synonym 'w int80 = "u32 \<Rightarrow> u32 list \<Rightarrow> 'w user_state \<Rightarrow> (u32 \<times> 'w user_state) option"

subsection \<open>The stubs\<close>

definition print_u :: "'w int80 \<Rightarrow> u32 \<Rightarrow> 'w user_state \<Rightarrow> 'w user_state option" where
  "print_u int80 message u = map_option snd (int80 1 [message] u)"

definition peachos_getkey :: "'w int80 \<Rightarrow> 'w user_state \<Rightarrow> (int \<times> 'w user_state) option" where
  "peachos_getkey int80 u = map_option (\<lambda>(v, u). (as_int v, u)) (int80 2 [] u)"

definition peachos_putchar :: "'w int80 \<Rightarrow> u8 \<Rightarrow> 'w user_state \<Rightarrow> 'w user_state option" where
  "peachos_putchar int80 c u = map_option snd (int80 3 [scast c] u)"

definition peachos_malloc :: "'w int80 \<Rightarrow> u32 \<Rightarrow> 'w user_state \<Rightarrow> (u32 \<times> 'w user_state) option" where
  "peachos_malloc int80 sz u = int80 4 [sz] u"

definition peachos_free :: "'w int80 \<Rightarrow> u32 \<Rightarrow> 'w user_state \<Rightarrow> 'w user_state option" where
  "peachos_free int80 ptr u = map_option snd (int80 5 [ptr] u)"

definition peachos_process_load_start :: "'w int80 \<Rightarrow> u32 \<Rightarrow> 'w user_state \<Rightarrow> 'w user_state option" where
  "peachos_process_load_start int80 filename u = map_option snd (int80 6 [filename] u)"

definition peachos_system :: "'w int80 \<Rightarrow> u32 \<Rightarrow> 'w user_state \<Rightarrow> (int \<times> 'w user_state) option" where
  "peachos_system int80 arguments u = map_option (\<lambda>(v, u). (as_int v, u)) (int80 7 [arguments] u)"

definition peachos_process_get_arguments :: "'w int80 \<Rightarrow> u32 \<Rightarrow> 'w user_state \<Rightarrow> 'w user_state option" where
  "peachos_process_get_arguments int80 arguments u = map_option snd (int80 8 [arguments] u)"

definition peachos_exit :: "'w int80 \<Rightarrow> 'w user_state \<Rightarrow> 'w user_state option" where
  "peachos_exit int80 u = map_option snd (int80 9 [] u)"

subsection \<open>\<^verbatim>\<open>stdlib.c\<close> and \<^verbatim>\<open>stdio.c\<close>\<close>

definition malloc :: "'w int80 \<Rightarrow> u32 \<Rightarrow> 'w user_state \<Rightarrow> (u32 \<times> 'w user_state) option" where
  "malloc int80 sz u = peachos_malloc int80 sz u"

definition free :: "'w int80 \<Rightarrow> u32 \<Rightarrow> 'w user_state \<Rightarrow> 'w user_state option" where
  "free int80 ptr u = peachos_free int80 ptr u"

definition putchar :: "'w int80 \<Rightarrow> int \<Rightarrow> 'w user_state \<Rightarrow> (int \<times> 'w user_state) option" where
  "putchar int80 c u = do { u \<leftarrow> peachos_putchar int80 (word_of_int c) u; Some (0, u) }"

partial_function (option) printf_loop :: "'w int80 \<Rightarrow> u32 \<Rightarrow> u32 \<Rightarrow> u32 list \<Rightarrow> 'w user_state \<Rightarrow> 'w user_state option" where
  \<comment> \<open>\<open>ap\<close> are the arguments not yet read, \<open>text\<close> the static buffer of \<open>itoa\<close>\<close>
  "printf_loop int80 itoa_text p ap u =
     (if umem u p = 0 then Some u
      else if umem u p \<noteq> 37 then do { (_, u) \<leftarrow> putchar int80 (sgn_char (umem u p)) u; printf_loop int80 itoa_text (p + 1) ap u }
      else let p = p + 1
           in if umem u p = 105 then
                (case ap of [] \<Rightarrow> None
                 | ival # ap \<Rightarrow> let (s, m) = itoa_u (umem u) itoa_text (as_int ival)
                               in do { u \<leftarrow> print_u int80 s (u\<lparr>umem := m\<rparr>); printf_loop int80 itoa_text (p + 1) ap u })
              else if umem u p = 115 then
                (case ap of [] \<Rightarrow> None
                 | sval # ap \<Rightarrow> do { u \<leftarrow> print_u int80 sval u; printf_loop int80 itoa_text (p + 1) ap u })
              else do { (_, u) \<leftarrow> putchar int80 (sgn_char (umem u p)) u; printf_loop int80 itoa_text (p + 1) ap u })"

definition printf :: "'w int80 \<Rightarrow> u32 \<Rightarrow> u32 \<Rightarrow> u32 list \<Rightarrow> 'w user_state \<Rightarrow> (int \<times> 'w user_state) option" where
  "printf int80 itoa_text fmt ap u = do { u \<leftarrow> printf_loop int80 itoa_text fmt ap u; Some (0, u) }"

subsection \<open>\<^verbatim>\<open>peachos.c\<close>\<close>

text \<open>\<^verbatim>\<open>struct command_argument\<close>: 512 bytes of text, then the pointer to the next one.\<close>

definition set_argument :: "u32 \<Rightarrow> u32 \<Rightarrow> mem \<Rightarrow> mem" where
  \<comment> \<open>\<^verbatim>\<open>strncpy(c->argument, token, sizeof(c->argument)); c->next = 0\<close>\<close>
  "set_argument c token m = store32 (snd (strncpy_u m c token 512)) (c + 512) 0"

definition call_strtok :: "u32 \<Rightarrow> u32 \<Rightarrow> 'w user_state \<Rightarrow> (u32 \<times> 'w user_state) option" where
  "call_strtok str delimiters u =
     map_option (\<lambda>(q, sp, m). (q, u\<lparr>umem := m, strtok_sp := sp\<rparr>)) (strtok (umem u) (strtok_sp u) str delimiters)"

partial_function (option) parse_command_loop :: "'w int80 \<Rightarrow> u32 \<Rightarrow> u32 \<Rightarrow> u32 \<Rightarrow> 'w user_state \<Rightarrow> 'w user_state option" where
  "parse_command_loop int80 space current token u =
     (if token = 0 then Some u
      else do { (new_command, u) \<leftarrow> peachos_malloc int80 516 u;
                if new_command = 0 then Some u
                else let u = u\<lparr>umem := set_argument new_command token (umem u)\<rparr>;
                         u = u\<lparr>umem := store32 (umem u) (current + 512) new_command\<rparr>
                     in do { (token, u) \<leftarrow> call_strtok 0 space u;
                             parse_command_loop int80 space new_command token u } })"

definition peachos_parse_command :: "'w int80 \<Rightarrow> u32 \<Rightarrow> u32 \<Rightarrow> u32 \<Rightarrow> int \<Rightarrow> 'w user_state \<Rightarrow> (u32 \<times> 'w user_state) option" where
  \<comment> \<open>\<open>scommand\<close> is the local array, \<open>space\<close> the literal of the delimiters\<close>
  "peachos_parse_command int80 scommand space command mx u =
     (if as_u32 mx \<ge> 1025 then Some (0, u)
      else let u = u\<lparr>umem := snd (strncpy_u (umem u) scommand command 1025)\<rparr>
           in do { (token, u) \<leftarrow> call_strtok scommand space u;
                   if token = 0 then Some (0, u)
                   else do { (root_command, u) \<leftarrow> peachos_malloc int80 516 u;
                             if root_command = 0 then Some (root_command, u)
                             else let u = u\<lparr>umem := set_argument root_command token (umem u)\<rparr>
                                  in do { (token, u) \<leftarrow> call_strtok 0 space u;
                                          u \<leftarrow> parse_command_loop int80 space root_command token u;
                                          Some (root_command, u) } } })"

partial_function (option) peachos_getkeyblock :: "'w int80 \<Rightarrow> 'w user_state \<Rightarrow> (int \<times> 'w user_state) option" where
  "peachos_getkeyblock int80 u =
     do { (val, u) \<leftarrow> peachos_getkey int80 u; if val = 0 then peachos_getkeyblock int80 u else Some (val, u) }"

partial_function (option) readline_loop :: "'w int80 \<Rightarrow> u32 \<Rightarrow> int \<Rightarrow> bool \<Rightarrow> int \<Rightarrow> 'w user_state \<Rightarrow> (int \<times> 'w user_state) option" where
  "readline_loop int80 out mx output_while_typing i u =
     (if i < mx - 1 then
        do { (val, u) \<leftarrow> peachos_getkeyblock int80 u;
             let key = word_of_int val :: u8
             in if key = 13 then Some (i, u)
                else do { u \<leftarrow> (if output_while_typing then peachos_putchar int80 key u else Some u);
                          if key = 0x08 \<and> i \<ge> 1
                          then readline_loop int80 out mx output_while_typing (i - 2 + 1) (u\<lparr>umem := (umem u)(out + as_u32 (i - 1) := 0)\<rparr>)
                          else readline_loop int80 out mx output_while_typing (i + 1) (u\<lparr>umem := (umem u)(out + as_u32 i := key)\<rparr>) } }
      else Some (i, u))"

definition peachos_terminal_readline :: "'w int80 \<Rightarrow> u32 \<Rightarrow> int \<Rightarrow> bool \<Rightarrow> 'w user_state \<Rightarrow> 'w user_state option" where
  "peachos_terminal_readline int80 out mx output_while_typing u =
     do { (i, u) \<leftarrow> readline_loop int80 out mx output_while_typing 0 u;
          Some (u\<lparr>umem := (umem u)(out + as_u32 i := 0)\<rparr>) }"

definition peachos_system_run :: "'w int80 \<Rightarrow> u32 \<Rightarrow> u32 \<Rightarrow> u32 \<Rightarrow> u32 \<Rightarrow> 'w user_state \<Rightarrow> (int \<times> 'w user_state) option" where
  "peachos_system_run int80 scommand space buf command u =
     (let u = u\<lparr>umem := snd (strncpy_u (umem u) buf command 1024)\<rparr>
      in do { (root_command_argument, u) \<leftarrow> peachos_parse_command int80 scommand space buf 1024 u;
              if root_command_argument = 0 then Some (-1, u) else peachos_system int80 root_command_argument u })"

subsection \<open>\<^verbatim>\<open>start.c\<close> and \<^verbatim>\<open>start.asm\<close>\<close>

definition c_start :: "'w int80 \<Rightarrow> (int \<Rightarrow> u32 \<Rightarrow> 'w user_state \<Rightarrow> (int \<times> 'w user_state) option) \<Rightarrow> u32
    \<Rightarrow> 'w user_state \<Rightarrow> 'w user_state option" where
  \<comment> \<open>\<open>arguments\<close> is the local structure of \<^verbatim>\<open>argc\<close> and \<^verbatim>\<open>argv\<close>\<close>
  "c_start int80 main arguments u =
     do { u \<leftarrow> peachos_process_get_arguments int80 arguments u;
          (res, u) \<leftarrow> main (as_int (load32 (umem u) arguments)) (load32 (umem u) (arguments + 4)) u;
          Some u }"

definition program_start :: "'w int80 \<Rightarrow> (int \<Rightarrow> u32 \<Rightarrow> 'w user_state \<Rightarrow> (int \<times> 'w user_state) option) \<Rightarrow> u32
    \<Rightarrow> 'w user_state \<Rightarrow> 'w user_state option" where
  \<comment> \<open>\<^verbatim>\<open>_start\<close>\<close>
  "program_start int80 main arguments u = do { u \<leftarrow> c_start int80 main arguments u; peachos_exit int80 u }"

subsection \<open>What the programs rely on\<close>

text \<open>
  What a program can tell of the world: the memory \<^verbatim>\<open>malloc\<close> may still hand out, how many more requests it will
  serve, the text shown so far, and what the coming calls of \<^verbatim>\<open>getkey\<close> will return (0: no key is waiting).
\<close>

record 'w view =
  free_mem :: "'w \<Rightarrow> u32 set"
  avail :: "'w \<Rightarrow> nat"
  shown :: "'w \<Rightarrow> u8 list"
  polls :: "'w \<Rightarrow> nat \<Rightarrow> u8"

definition shows_on :: "'w view \<Rightarrow> 'w \<Rightarrow> 'w \<Rightarrow> u8 list \<Rightarrow> bool" where
  \<comment> \<open>from \<open>w\<close> to \<open>w'\<close> the text was shown and nothing else happened\<close>
  "shows_on v w w' s \<longleftrightarrow> shown v w' = shown v w @ s \<and> polls v w' = polls v w \<and> free_mem v w' = free_mem v w \<and> avail v w' = avail v w"

text \<open>
  What the programs rely on.  \<open>print_serves\<close> and \<open>putchar_serves\<close> are the calls as documented, without the
  limits of this kernel: \<open>isr80h_print\<close> needs a free block for the copy and a line left in the window.
\<close>

definition print_serves :: "'w int80 \<Rightarrow> 'w view \<Rightarrow> bool" where
  "print_serves int80 v \<longleftrightarrow> (\<forall>p s u. cstr (umem u) p s \<and> length s < 1024 \<longrightarrow>
     (\<exists>r w'. int80 1 [p] u = Some (r, u\<lparr>world := w'\<rparr>) \<and> shows_on v (world u) w' s))"

definition getkey_serves :: "'w int80 \<Rightarrow> 'w view \<Rightarrow> bool" where
  "getkey_serves int80 v \<longleftrightarrow> (\<forall>u. \<exists>w'. int80 2 [] u = Some (scast (polls v (world u) 0), u\<lparr>world := w'\<rparr>)
     \<and> polls v w' = (\<lambda>n. polls v (world u) (Suc n)) \<and> shown v w' = shown v (world u)
     \<and> free_mem v w' = free_mem v (world u) \<and> avail v w' = avail v (world u))"

definition putchar_serves :: "'w int80 \<Rightarrow> 'w view \<Rightarrow> bool" where
  "putchar_serves int80 v \<longleftrightarrow> (\<forall>c u. \<exists>r w'. int80 3 [scast c] u = Some (r, u\<lparr>world := w'\<rparr>) \<and> shows_on v (world u) w' [c])"

definition malloc_serves :: "'w int80 \<Rightarrow> 'w view \<Rightarrow> bool" where
  "malloc_serves int80 v \<longleftrightarrow> (\<forall>sz u. unat sz \<le> 4096 \<longrightarrow> (\<exists>p m' w'. int80 4 [sz] u = Some (p, u\<lparr>umem := m', world := w'\<rparr>)
     \<and> shown v w' = shown v (world u) \<and> polls v w' = polls v (world u)
     \<and> (\<forall>a. a \<notin> free_mem v (world u) \<longrightarrow> m' a = umem u a) \<and> free_mem v w' \<subseteq> free_mem v (world u)
     \<and> avail v w' = avail v (world u) - 1 \<and> (p = 0 \<longleftrightarrow> avail v (world u) = 0)
     \<and> (p \<noteq> 0 \<longrightarrow> (\<forall>a. unat (a - p) < unat sz \<longrightarrow> a \<in> free_mem v (world u) \<and> a \<notin> free_mem v w'))))"

subsection \<open>Keys\<close>

primrec typed :: "(nat \<Rightarrow> u8) \<Rightarrow> u8 list \<Rightarrow> (nat \<Rightarrow> u8) \<Rightarrow> bool" where
  \<comment> \<open>the polls \<open>f\<close> deliver the keys, any number of zeros before each, and go on with \<open>g\<close>\<close>
  "typed f [] g \<longleftrightarrow> f = g"
| "typed f (c # cs) g \<longleftrightarrow> c \<noteq> 0 \<and> (\<exists>n. (\<forall>i < n. f i = 0) \<and> f n = c \<and> typed (\<lambda>i. f (Suc n + i)) cs g)"

lemma typed_nonzero: "typed f cs g \<Longrightarrow> 0 \<notin> set cs"
  by (induction cs arbitrary: f) auto

lemma typed_append: "typed f (cs @ ds) g \<longleftrightarrow> (\<exists>h. typed f cs h \<and> typed h ds g)"
  by (induction cs arbitrary: f) auto

lemma char_as_int: "as_int (scast (c :: u8)) = sgn_char c" "(word_of_int (sgn_char c) :: u8) = c"
proof -
  have "- (2 ^ 7) \<le> sint c" "sint c < 2 ^ 7" using sint_ge [of c] sint_lt [of c] by simp_all
  then show "as_int (scast c) = sgn_char c"
    by (simp add: as_int_def sgn_char_def signed_scast_eq signed_take_bit_int_eq_self)
qed (simp add: sgn_char_def)

lemma sgn_char_zero: "sgn_char c = 0 \<longleftrightarrow> c = 0"
  unfolding sgn_char_def by (metis signed_0 signed_word_eqI)

lemma getkeyblock_run:
  assumes g: "getkey_serves int80 v"
  shows "(\<forall>i < n. polls v (world u) i = 0) \<Longrightarrow> polls v (world u) n = c \<Longrightarrow> c \<noteq> 0 \<Longrightarrow>
    \<exists>w'. peachos_getkeyblock int80 u = Some (sgn_char c, u\<lparr>world := w'\<rparr>)
      \<and> polls v w' = (\<lambda>i. polls v (world u) (Suc n + i)) \<and> shown v w' = shown v (world u)
      \<and> free_mem v w' = free_mem v (world u) \<and> avail v w' = avail v (world u)"
proof (induction n arbitrary: u)
  case 0
  obtain w' where w': "int80 2 [] u = Some (scast (polls v (world u) 0), u\<lparr>world := w'\<rparr>)"
    "polls v w' = (\<lambda>n. polls v (world u) (Suc n))" "shown v w' = shown v (world u)"
    "free_mem v w' = free_mem v (world u)" "avail v w' = avail v (world u)"
    using g unfolding getkey_serves_def by blast
  then show ?case
    using 0 by (intro exI [of _ w'], subst peachos_getkeyblock.simps) (simp add: peachos_getkey_def char_as_int sgn_char_zero)
next
  case (Suc n)
  obtain w1 where w1: "int80 2 [] u = Some (scast (polls v (world u) 0), u\<lparr>world := w1\<rparr>)"
    "polls v w1 = (\<lambda>n. polls v (world u) (Suc n))" "shown v w1 = shown v (world u)"
    "free_mem v w1 = free_mem v (world u)" "avail v w1 = avail v (world u)"
    using g unfolding getkey_serves_def by blast
  have "polls v (world u) 0 = 0" using Suc.prems(1) by simp
  then have step: "peachos_getkeyblock int80 u = peachos_getkeyblock int80 (u\<lparr>world := w1\<rparr>)"
    using w1(1) by (subst peachos_getkeyblock.simps) (simp add: peachos_getkey_def as_int_def)
  show ?case
    using Suc.IH [of "u\<lparr>world := w1\<rparr>"] Suc.prems w1(2-5) by (simp add: step)
qed

subsection \<open>Reading a line\<close>

definition edit :: "u8 list \<Rightarrow> u8 \<Rightarrow> u8 list" where
  "edit b key = (if key = 8 \<and> b \<noteq> [] then butlast b else b @ [key])"

lemma edit_nonzero: "0 \<notin> set b \<Longrightarrow> key \<noteq> 0 \<Longrightarrow> 0 \<notin> set (edit b key)"
  by (auto simp: edit_def dest: in_set_butlastD)

lemma edits_nonzero: "0 \<notin> set ks \<Longrightarrow> 0 \<notin> set b \<Longrightarrow> 0 \<notin> set (foldl edit b ks)"
proof (induction ks arbitrary: b)
  case (Cons k ks)
  then show ?case using edit_nonzero [of b k] by simp
qed simp

definition fits :: "int \<Rightarrow> u8 list \<Rightarrow> u8 list \<Rightarrow> bool" where
  \<comment> \<open>while the keys are typed the line stays shorter than the buffer\<close>
  "fits mx b ks \<longleftrightarrow> (\<forall>n \<le> length ks. int (length (foldl edit b (take n ks))) < mx - 1)"

lemma line_fits_Cons: "fits mx b (k # ks) \<longleftrightarrow> int (length b) < mx - 1 \<and> fits mx (edit b k) ks"
proof -
  have "(\<forall>n \<le> length (k # ks). P n) \<longleftrightarrow> P 0 \<and> (\<forall>n \<le> length ks. P (Suc n))" for P
    using All_less_Suc2 [of "Suc (length ks)" P] by (simp add: less_Suc_eq_le)
  from this [of "\<lambda>n. int (length (foldl edit b (take n (k # ks)))) < mx - 1"]
  show ?thesis unfolding fits_def by (simp only: take_Suc_Cons foldl_Cons take_0 foldl_Nil)
qed

lemma user_swap: "u\<lparr>world := w, umem := m\<rparr> = u\<lparr>umem := m, world := w\<rparr>"
  by (cases u) simp

lemma readline_loop_run:
  assumes g: "getkey_serves int80 v" and p: "putchar_serves int80 v" and mx: "mx < 2147483648"
  shows "typed (polls v (world u)) (ks @ [13]) h \<Longrightarrow> 13 \<notin> set ks \<Longrightarrow> fits mx b ks \<Longrightarrow>
      \<forall>i < length b. umem u (out + of_nat i) = b ! i \<Longrightarrow>
    \<exists>m' w'. readline_loop int80 out mx echo (int (length b)) u = Some (int (length (foldl edit b ks)), u\<lparr>umem := m', world := w'\<rparr>)
      \<and> (\<forall>i < length (foldl edit b ks). m' (out + of_nat i) = foldl edit b ks ! i)
      \<and> (\<forall>a. nat mx \<le> unat (a - out) \<longrightarrow> m' a = umem u a)
      \<and> polls v w' = h \<and> shown v w' = shown v (world u) @ (if echo then ks else [])
      \<and> free_mem v w' = free_mem v (world u) \<and> avail v w' = avail v (world u)"
proof (induction ks arbitrary: u b)
  case Nil
  then obtain n where n: "\<forall>i < n. polls v (world u) i = 0" "polls v (world u) n = 13" "(\<lambda>i. polls v (world u) (Suc n + i)) = h" by auto
  obtain w' where w': "peachos_getkeyblock int80 u = Some (sgn_char 13, u\<lparr>world := w'\<rparr>)"
    "polls v w' = h" "shown v w' = shown v (world u)" "free_mem v w' = free_mem v (world u)" "avail v w' = avail v (world u)"
    using getkeyblock_run [OF g n(1,2)] n(3) by auto
  have "int (length b) < mx - 1" using Nil.prems(3) by (simp add: fits_def)
  then have "readline_loop int80 out mx echo (int (length b)) u = Some (int (length b), u\<lparr>world := w'\<rparr>)"
    by (subst readline_loop.simps) (simp add: w'(1) char_as_int)
  then show ?case using Nil.prems(4) w'(2-5) by (intro exI [of _ "umem u"] exI [of _ w']) simp
next
  case (Cons k ks)
  obtain n where n: "\<forall>i < n. polls v (world u) i = 0" "polls v (world u) n = k" "k \<noteq> 0"
    "typed (\<lambda>i. polls v (world u) (Suc n + i)) (ks @ [13]) h" using Cons.prems(1) by auto
  obtain w1 where w1: "peachos_getkeyblock int80 u = Some (sgn_char k, u\<lparr>world := w1\<rparr>)"
    "typed (polls v w1) (ks @ [13]) h" "shown v w1 = shown v (world u)" "free_mem v w1 = free_mem v (world u)" "avail v w1 = avail v (world u)"
    using getkeyblock_run [OF g n(1-3)] n(4) by auto
  obtain w2 where w2: "(if echo then peachos_putchar int80 k (u\<lparr>world := w1\<rparr>) else Some (u\<lparr>world := w1\<rparr>)) = Some (u\<lparr>world := w2\<rparr>)"
    "polls v w2 = polls v w1" "shown v w2 = shown v w1 @ (if echo then [k] else [])" "free_mem v w2 = free_mem v w1" "avail v w2 = avail v w1"
  proof (cases echo)
    case True
    have "\<exists>r w'. int80 3 [scast k] (u\<lparr>world := w1\<rparr>) = Some (r, u\<lparr>world := w1\<rparr>\<lparr>world := w'\<rparr>) \<and> shows_on v (world (u\<lparr>world := w1\<rparr>)) w' [k]"
      using p unfolding putchar_serves_def by blast
    then show ?thesis using that True by (auto simp: peachos_putchar_def shows_on_def)
  qed (use that [of w1] in simp)
  have f: "int (length b) < mx - 1" "fits mx (edit b k) ks" using Cons.prems(3) by (simp_all add: line_fits_Cons)
  have k: "k \<noteq> 13" "13 \<notin> set ks" using Cons.prems(2) by auto
  let ?m = "if k = 8 \<and> b \<noteq> [] then (umem u)(out + of_nat (length b - 1) := 0) else (umem u)(out + of_nat (length b) := k)"
  let ?u = "u\<lparr>umem := ?m, world := w2\<rparr>"
  have len: "length b < 4294967296" using f(1) mx by linarith
  have run: "readline_loop int80 out mx echo (int (length b)) u = readline_loop int80 out mx echo (int (length (edit b k))) ?u"
  proof -
    have start: "readline_loop int80 out mx echo (int (length b)) u =
        (if k = 8 \<and> int (length b) \<ge> 1
         then readline_loop int80 out mx echo (int (length b) - 2 + 1) (u\<lparr>world := w2\<rparr>\<lparr>umem := (umem (u\<lparr>world := w2\<rparr>))(out + as_u32 (int (length b) - 1) := 0)\<rparr>)
         else readline_loop int80 out mx echo (int (length b) + 1) (u\<lparr>world := w2\<rparr>\<lparr>umem := (umem (u\<lparr>world := w2\<rparr>))(out + as_u32 (int (length b)) := k)\<rparr>))"
      by (subst readline_loop.simps)
        (simp only: f(1) if_True w1(1) Option.bind.bind_lunit prod.case char_as_int Let_def k(1) if_False w2(1))
    show ?thesis
    proof (cases "k = 8 \<and> b \<noteq> []")
      case True
      then have b: "int (length b) - 2 + 1 = int (length b - 1)" "int (length b) - 1 = int (length b - 1)" "1 \<le> int (length b)"
        by (cases b; simp)+
      show ?thesis using True b(3) unfolding start b(1,2) as_u32_of_nat by (simp add: edit_def user_swap del: of_nat_diff)
    next
      case False
      then have "\<not> (k = 8 \<and> int (length b) \<ge> 1)" by (cases b) auto
      then have "readline_loop int80 out mx echo (int (length b)) u =
        readline_loop int80 out mx echo (int (length b) + 1) (u\<lparr>world := w2\<rparr>\<lparr>umem := (umem (u\<lparr>world := w2\<rparr>))(out + as_u32 (int (length b)) := k)\<rparr>)"
        unfolding start by (simp only: if_False)
      then show ?thesis using False by (auto simp add: edit_def add.commute user_swap)
    qed
  qed
  have content: "\<forall>i < length (edit b k). umem ?u (out + of_nat i) = edit b k ! i"
  proof -
    have ne: "out + of_nat i \<noteq> out + of_nat (length b - 1)" if "i < length b - 1" for i
      using that len by (intro add_of_nat_neq) simp_all
    have "out + of_nat i \<noteq> out + of_nat (length b)" if "i < length b" for i
      using that len by (intro add_of_nat_neq) simp_all
    then show ?thesis using Cons.prems(4) ne
      by (auto simp: edit_def nth_butlast nth_append less_Suc_eq simp del: of_nat_diff)
  qed
  have outside: "?m a = umem u a" if "nat mx \<le> unat (a - out)" for a
  proof -
    have "a \<noteq> out + of_nat j" if "j \<le> length b" for j
      using \<open>nat mx \<le> unat (a - out)\<close> that f(1) len addr_eq_iff [of j a out] by auto
    then show ?thesis by simp
  qed
  have "\<exists>m' w'. readline_loop int80 out mx echo (int (length (edit b k))) ?u = Some (int (length (foldl edit (edit b k) ks)), ?u\<lparr>umem := m', world := w'\<rparr>)
      \<and> (\<forall>i < length (foldl edit (edit b k) ks). m' (out + of_nat i) = foldl edit (edit b k) ks ! i)
      \<and> (\<forall>a. nat mx \<le> unat (a - out) \<longrightarrow> m' a = umem ?u a)
      \<and> polls v w' = h \<and> shown v w' = shown v (world ?u) @ (if echo then ks else [])
      \<and> free_mem v w' = free_mem v (world ?u) \<and> avail v w' = avail v (world ?u)"
    by (rule Cons.IH) (use w1(2) w2(2) k(2) f(2) content in simp_all)
  then obtain m' w' where "readline_loop int80 out mx echo (int (length (edit b k))) ?u = Some (int (length (foldl edit (edit b k) ks)), u\<lparr>umem := m', world := w'\<rparr>)"
    "\<forall>i < length (foldl edit (edit b k) ks). m' (out + of_nat i) = foldl edit (edit b k) ks ! i"
    "\<forall>a. nat mx \<le> unat (a - out) \<longrightarrow> m' a = ?m a"
    "polls v w' = h" "shown v w' = shown v w2 @ (if echo then ks else [])" "free_mem v w' = free_mem v w2" "avail v w' = avail v w2"
    by auto
  then show ?case
    unfolding run using outside w1(3-5) w2(3-5) by (intro exI [of _ m'] exI [of _ w']) simp
qed

lemma edit_length: "length (foldl edit b ks) \<le> length b + length ks"
proof (induction ks arbitrary: b)
  case (Cons k ks)
  have "length (edit b k) \<le> Suc (length b)" by (auto simp: edit_def)
  then show ?case using Cons [of "edit b k"] by simp
qed simp

lemma readline_run:
  assumes g: "getkey_serves int80 v" and p: "putchar_serves int80 v" and mx: "mx < 2147483648"
    and keys: "typed (polls v (world u)) (ks @ [13]) h" "13 \<notin> set ks" "fits mx [] ks"
  shows "\<exists>m' w'. peachos_terminal_readline int80 out mx echo u = Some (u\<lparr>umem := m', world := w'\<rparr>)
    \<and> cstr m' out (foldl edit [] ks) \<and> (\<forall>a. nat mx \<le> unat (a - out) \<longrightarrow> m' a = umem u a)
    \<and> polls v w' = h \<and> shown v w' = shown v (world u) @ (if echo then ks else [])
    \<and> free_mem v w' = free_mem v (world u) \<and> avail v w' = avail v (world u)"
proof -
  let ?b = "foldl edit [] ks"
  obtain m1 w' where r: "readline_loop int80 out mx echo 0 u = Some (int (length ?b), u\<lparr>umem := m1, world := w'\<rparr>)"
    "\<forall>i < length ?b. m1 (out + of_nat i) = ?b ! i" "\<forall>a. nat mx \<le> unat (a - out) \<longrightarrow> m1 a = umem u a"
    "polls v w' = h" "shown v w' = shown v (world u) @ (if echo then ks else [])"
    "free_mem v w' = free_mem v (world u)" "avail v w' = avail v (world u)"
    using readline_loop_run [OF g p mx keys, of out echo] by auto
  have len: "int (length ?b) < mx - 1" using keys(3) by (auto simp: fits_def)
  have "0 \<notin> set ks" using typed_nonzero [OF keys(1)] by simp
  then have nz: "0 \<notin> set ?b" by (rule edits_nonzero) simp
  let ?m = "m1(out + of_nat (length ?b) := 0)"
  have ne: "out + of_nat i \<noteq> out + of_nat (length ?b)" if "i < length ?b" for i
    using that len mx by (intro add_of_nat_neq) linarith+
  have "cstr ?m out ?b"
    unfolding cstr_iff using r(2) ne nz by (metis fun_upd_apply nth_mem)
  moreover have "?m a = umem u a" if a: "nat mx \<le> unat (a - out)" for a
  proof -
    have "length ?b < 4294967296" using len mx by linarith
    then have "a \<noteq> out + of_nat (length ?b)" using a len addr_eq_iff [of "length ?b" a out] by auto
    then show ?thesis using r(3) a by simp
  qed
  moreover have "peachos_terminal_readline int80 out mx echo u = Some (u\<lparr>umem := ?m, world := w'\<rparr>)"
    unfolding peachos_terminal_readline_def r(1) by (simp add: user_swap)
  ultimately show ?thesis using r(4-7) by (intro exI [of _ ?m] exI [of _ w']) simp
qed

text \<open>
  C25: reading a line.  While the typed keys fit into the buffer, \<open>peachos_terminal_readline\<close> returns after the
  return key, however long the keys take; the buffer holds the edited line: backspace removes the last character, and on
  an empty line it is itself stored.  The keys are echoed, and nothing outside the buffer is written.
\<close>
theorem terminal_readline_spec:
  assumes "getkey_serves int80 v" and "putchar_serves int80 v" and "mx < 2147483648"
    and "typed (polls v (world u)) (ks @ [13]) h" and "13 \<notin> set ks" and "fits mx [] ks"
  shows "\<exists>u'. peachos_terminal_readline int80 out mx echo u = Some u' \<and> cstr (umem u') out (foldl edit [] ks)
    \<and> (\<forall>a. nat mx \<le> unat (a - out) \<longrightarrow> umem u' a = umem u a)
    \<and> polls v (world u') = h \<and> shown v (world u') = shown v (world u) @ (if echo then ks else [])"
proof -
  obtain m' w' where "peachos_terminal_readline int80 out mx echo u = Some (u\<lparr>umem := m', world := w'\<rparr>)"
    "cstr m' out (foldl edit [] ks)" "\<forall>a. nat mx \<le> unat (a - out) \<longrightarrow> m' a = umem u a"
    "polls v w' = h" "shown v w' = shown v (world u) @ (if echo then ks else [])"
    using readline_run [OF assms, of out echo] by blast
  then show ?thesis by (intro exI [of _ "u\<lparr>umem := m', world := w'\<rparr>"]) simp
qed

subsection \<open>A small system\<close>

text \<open>Sixteen blocks from \<^verbatim>\<open>0x10000000\<close> on, a screen and a keyboard.\<close>

record test_world =
  tw_blocks :: nat
  tw_shown :: "u8 list"
  tw_polls :: "nat \<Rightarrow> u8"

definition test_view :: "test_world view" where
  "test_view = \<lparr>free_mem = (\<lambda>w. {a. 0x10000000 + 4096 * tw_blocks w \<le> unat a \<and> unat a < 0x10010000}),
     avail = (\<lambda>w. 16 - tw_blocks w), shown = tw_shown, polls = tw_polls\<rparr>"

definition test_int80 :: "test_world int80" where
  "test_int80 n args u =
     (let w = world u
      in if n = 1 then Some (0, u\<lparr>world := w\<lparr>tw_shown := tw_shown w @ takeWhile (\<lambda>c. c \<noteq> 0) (map (\<lambda>i. umem u (args ! 0 + of_nat i)) [0..<1024])\<rparr>\<rparr>)
         else if n = 2 then Some (scast (tw_polls w 0), u\<lparr>world := w\<lparr>tw_polls := (\<lambda>n. tw_polls w (Suc n))\<rparr>\<rparr>)
         else if n = 3 then Some (0, u\<lparr>world := w\<lparr>tw_shown := tw_shown w @ [ucast (args ! 0)]\<rparr>\<rparr>)
         else if n = 4 then if tw_blocks w < 16
              then Some (0x10000000 + 4096 * of_nat (tw_blocks w), u\<lparr>world := w\<lparr>tw_blocks := Suc (tw_blocks w)\<rparr>\<rparr>) else Some (0, u)
         else None)"

lemma take_string: "cstr m p s \<Longrightarrow> length s < n \<Longrightarrow> takeWhile (\<lambda>c. c \<noteq> 0) (map (\<lambda>i. m (p + of_nat i)) [0..<n]) = s"
proof (rule takeWhile_eq_take_P_nth [THEN trans])
  assume c: "cstr m p s" "length s < n"
  show "take (length s) (map (\<lambda>i. m (p + of_nat i)) [0..<n]) = s"
    using c by (intro nth_equalityI) (simp_all add: cstr_iff)
  show "\<And>i. i < length s \<Longrightarrow> i < length (map (\<lambda>i. m (p + of_nat i)) [0..<n]) \<Longrightarrow> map (\<lambda>i. m (p + of_nat i)) [0..<n] ! i \<noteq> 0"
    using c by (auto simp: cstr_iff)
  show "length s < length (map (\<lambda>i. m (p + of_nat i)) [0..<n]) \<Longrightarrow> \<not> map (\<lambda>i. m (p + of_nat i)) [0..<n] ! length s \<noteq> 0"
    using c by (auto simp: cstr_iff)
qed

lemma test_print: "print_serves test_int80 test_view"
  unfolding print_serves_def
proof (intro allI impI)
  fix p s and u :: "test_world user_state"
  assume "cstr (umem u) p s \<and> length s < 1024"
  then have "takeWhile (\<lambda>c. c \<noteq> 0) (map (\<lambda>i. umem u (p + of_nat i)) [0..<1024]) = s" by (intro take_string) simp_all
  then show "\<exists>r w'. test_int80 1 [p] u = Some (r, u\<lparr>world := w'\<rparr>) \<and> shows_on test_view (world u) w' s"
    by (intro exI [of _ 0] exI [of _ "(world u)\<lparr>tw_shown := tw_shown (world u) @ s\<rparr>"])
      (simp add: test_int80_def shows_on_def test_view_def Let_def del: upt_Suc)
qed

lemma test_getkey: "getkey_serves test_int80 test_view"
  unfolding getkey_serves_def
proof
  fix u :: "test_world user_state"
  show "\<exists>w'. test_int80 2 [] u = Some (scast (polls test_view (world u) 0), u\<lparr>world := w'\<rparr>)
     \<and> polls test_view w' = (\<lambda>n. polls test_view (world u) (Suc n)) \<and> shown test_view w' = shown test_view (world u)
     \<and> free_mem test_view w' = free_mem test_view (world u) \<and> avail test_view w' = avail test_view (world u)"
    by (intro exI [of _ "(world u)\<lparr>tw_polls := (\<lambda>n. tw_polls (world u) (Suc n))\<rparr>"]) (simp add: test_int80_def test_view_def Let_def)
qed

lemma test_putchar: "putchar_serves test_int80 test_view"
  unfolding putchar_serves_def
proof (intro allI)
  fix c :: u8 and u :: "test_world user_state"
  have "ucast (scast c :: u32) = c" by (rule bit_word_eqI) (simp add: bit_simps)
  then show "\<exists>r w'. test_int80 3 [scast c] u = Some (r, u\<lparr>world := w'\<rparr>) \<and> shows_on test_view (world u) w' [c]"
    by (intro exI [of _ 0] exI [of _ "(world u)\<lparr>tw_shown := tw_shown (world u) @ [c]\<rparr>"])
      (simp add: test_int80_def shows_on_def test_view_def Let_def)
qed

lemma test_malloc: "malloc_serves test_int80 test_view"
  unfolding malloc_serves_def
proof (intro allI impI)
  fix sz :: u32 and u :: "test_world user_state"
  assume sz: "unat sz \<le> 4096"
  let ?n = "tw_blocks (world u)"
  show "\<exists>p m' w'. test_int80 4 [sz] u = Some (p, u\<lparr>umem := m', world := w'\<rparr>)
     \<and> shown test_view w' = shown test_view (world u) \<and> polls test_view w' = polls test_view (world u)
     \<and> (\<forall>a. a \<notin> free_mem test_view (world u) \<longrightarrow> m' a = umem u a) \<and> free_mem test_view w' \<subseteq> free_mem test_view (world u)
     \<and> avail test_view w' = avail test_view (world u) - 1 \<and> (p = 0 \<longleftrightarrow> avail test_view (world u) = 0)
     \<and> (p \<noteq> 0 \<longrightarrow> (\<forall>a. unat (a - p) < unat sz \<longrightarrow> a \<in> free_mem test_view (world u) \<and> a \<notin> free_mem test_view w'))"
  proof (cases "?n < 16")
    case False
    then show ?thesis
      by (intro exI [of _ 0] exI [of _ "umem u"] exI [of _ "world u"]) (simp add: test_int80_def test_view_def Let_def)
  next
    case True
    let ?p = "0x10000000 + 4096 * of_nat ?n :: u32"
    have "unat (4096 * of_nat ?n :: u32) = 4096 * ?n" using True by (simp add: unat_mult32 unat_of_nat32)
    then have p: "unat ?p = 0x10000000 + 4096 * ?n" using True by (simp add: unat_add32)
    then have nz: "?p \<noteq> 0" by auto
    have reg: "0x10000000 + 4096 * ?n \<le> unat a \<and> unat a < 0x10000000 + 4096 * Suc ?n \<and> unat a < 0x10010000" if "unat (a - ?p) < unat sz" for a
    proof -
      have "a = ?p + of_nat (unat (a - ?p))" by simp
      then have "unat a = (unat ?p + unat (a - ?p)) mod 4294967296" using unat_add32 [of ?p "a - ?p"] by simp
      then show ?thesis using that sz p True by simp
    qed
    have "test_int80 4 [sz] u = Some (?p, u\<lparr>umem := umem u, world := (world u)\<lparr>tw_blocks := Suc ?n\<rparr>\<rparr>)"
      using True by (simp add: test_int80_def Let_def)
    moreover have "a \<in> free_mem test_view (world u) \<and> a \<notin> free_mem test_view ((world u)\<lparr>tw_blocks := Suc ?n\<rparr>)"
      if "unat (a - ?p) < unat sz" for a using reg [OF that] by (simp add: test_view_def)
    ultimately show ?thesis
      using True nz
      by (intro exI [of _ ?p] exI [of _ "umem u"] exI [of _ "(world u)\<lparr>tw_blocks := Suc ?n\<rparr>"])
        (auto simp: test_view_def)
  qed
qed

definition test_user :: "u32 \<Rightarrow> u8 list \<Rightarrow> (nat \<Rightarrow> u8) \<Rightarrow> test_world user_state" where
  \<comment> \<open>a program with the text at \<open>p\<close> and a blank at \<^verbatim>\<open>0x200\<close>, and its keys\<close>
  "test_user p s keys = \<lparr>umem = (\<lambda>a. if a = 0x200 then 32 else if unat (a - p) < length s then s ! unat (a - p) else 0),
     strtok_sp = 0, world = \<lparr>tw_blocks = 0, tw_shown = [], tw_polls = keys\<rparr>\<rparr>"

definition test_keys :: "nat \<Rightarrow> u8" where
  \<comment> \<open>backspace, c, d, backspace, return, with an empty poll before each\<close>
  "test_keys n = (if n = 1 then 8 else if n = 3 then 99 else if n = 5 then 100 else if n = 7 then 8 else if n = 9 then 13 else 0)"

lemma one_zero_poll: "f 0 = 0 \<Longrightarrow> f 1 = c \<Longrightarrow> c \<noteq> 0 \<Longrightarrow> typed (\<lambda>i. f (2 + i)) cs g \<Longrightarrow> typed f (c # cs) g"
  by (auto intro!: exI [of _ 1])

lemma test_typed: "typed test_keys ([8, 99, 100, 8] @ [13]) (\<lambda>_. 0)"
  unfolding append_Cons append_Nil
  by (intro one_zero_poll) (simp_all add: test_keys_def fun_eq_iff)

theorem terminal_readline_spec_witness:
  "\<exists>u'. peachos_terminal_readline test_int80 0x300 1024 True (test_user 0 [] test_keys) = Some u'
    \<and> cstr (umem u') 0x300 [8, 99] \<and> tw_shown (world u') = [8, 99, 100, 8]"
proof -
  let ?u = "test_user 0 [] test_keys"
  have "typed (polls test_view (world ?u)) ([8, 99, 100, 8] @ [13]) (\<lambda>_. 0)"
    using test_typed by (simp add: test_view_def test_user_def)
  moreover have "fits 1024 [] [8, 99, 100, 8]" by (simp add: line_fits_Cons edit_def) (simp add: fits_def)
  ultimately obtain u' where "peachos_terminal_readline test_int80 0x300 1024 True ?u = Some u'"
    "cstr (umem u') 0x300 (foldl edit [] [8, 99, 100, 8])"
    "shown test_view (world u') = shown test_view (world ?u) @ (if True then [8, 99, 100, 8] else [])"
    using terminal_readline_spec [OF test_getkey test_putchar, of 1024 ?u "[8, 99, 100, 8]" "\<lambda>_. 0" "0x300" True] by auto
  then show ?thesis by (intro exI [of _ u']) (simp add: edit_def test_view_def, simp add: test_user_def)
qed

end
