(* ===== verification/UserParse.thy ===== *)
theory UserParse
  imports UserLib
begin

text \<open>
  The command parser of the programs: \<^verbatim>\<open>peachos_parse_command\<close> builds the chain of the words of a line.
\<close>

subsection \<open>Copying an argument\<close>

lemma strncpy_loop_far:
  assumes src: "\<forall>k \<le> length s. m0 (src + of_nat k) = (s @ [0]) ! k" and nz: "0 \<notin> set s"
    and far: "\<forall>k \<le> length s. n \<le> unat (src + of_nat k - dest)" and n: "n < 4294967296"
  shows "i \<le> length s \<Longrightarrow> i < n \<Longrightarrow> \<forall>k < i. m (dest + of_nat k) = s ! k \<Longrightarrow> \<forall>a. n \<le> unat (a - dest) \<longrightarrow> m a = m0 a \<Longrightarrow>
    \<exists>j m'. strncpy_loop m dest src (int i) (int n) = (int j, m') \<and> j = min (length s) (n - 1)
      \<and> (\<forall>k < j. m' (dest + of_nat k) = s ! k) \<and> (\<forall>a. n \<le> unat (a - dest) \<longrightarrow> m' a = m0 a)"
proof (induction "n - i" arbitrary: i m)
  case 0
  then show ?case by simp
next
  case (Suc d)
  have at: "m (src + of_nat i) = (s @ [0]) ! i" using Suc.prems(1,4) src far by simp
  show ?case
  proof (cases "i < n - 1 \<and> i < length s")
    case False
    then have e: "i = n - 1 \<or> i = length s" using Suc.prems(1,2) by auto
    then have "i = min (length s) (n - 1)" using Suc.prems(1,2) by auto
    moreover have "strncpy_loop m dest src (int i) (int n) = (int i, m)"
      using at e by (subst strncpy_loop.simps) auto
    ultimately show ?thesis using Suc.prems(3,4) by (intro exI [of _ i] exI [of _ m]) simp
  next
    case True
    let ?m = "m(dest + of_nat i := s ! i)"
    have "s ! i \<noteq> 0" using True nz by (metis nth_mem)
    then have step: "strncpy_loop m dest src (int i) (int n) = strncpy_loop ?m dest src (int (Suc i)) (int n)"
      using True at by (subst strncpy_loop.simps) (auto simp: nth_append add.commute)
    have ne: "dest + of_nat k \<noteq> dest + of_nat i" if "k < i" for k
      using that Suc.prems(2) n by (intro add_of_nat_neq) simp_all
    have "?m a = m0 a" if "n \<le> unat (a - dest)" for a
    proof -
      have "a \<noteq> dest + of_nat i" using that True n addr_eq_iff [of i a dest] by auto
      then show ?thesis using that Suc.prems(4) by simp
    qed
    moreover have "\<forall>k < Suc i. ?m (dest + of_nat k) = s ! k" using Suc.prems(3) ne by (simp add: less_Suc_eq)
    moreover have "Suc i < n" "Suc i \<le> length s" "d = n - Suc i" using True Suc.hyps(2) by linarith+
    ultimately show ?thesis unfolding step by (intro Suc.hyps(1)) simp_all
  qed
qed

lemma strncpy_far:
  assumes "cstr m src s" and "\<forall>k \<le> length s. n \<le> unat (src + of_nat k - dest)" and "0 < n" "n < 4294967296"
  shows "cstr (snd (strncpy m dest src (int n))) dest (take (n - 1) s)
    \<and> (\<forall>a. n \<le> unat (a - dest) \<longrightarrow> snd (strncpy m dest src (int n)) a = m a)"
proof -
  have src: "\<forall>k \<le> length s. m (src + of_nat k) = (s @ [0]) ! k"
    using assms(1) by (auto simp: cstr_iff nth_append)
  let ?j = "min (length s) (n - 1)"
  obtain m' where m': "strncpy_loop m dest src 0 (int n) = (int ?j, m')"
    "\<forall>k < ?j. m' (dest + of_nat k) = s ! k" "\<forall>a. n \<le> unat (a - dest) \<longrightarrow> m' a = m a"
    using strncpy_loop_far [OF src cstr_nonzero [OF assms(1)] assms(2,4), of 0 m] assms(3) by auto
  let ?m = "m'(dest + of_nat ?j := 0)"
  have r: "snd (strncpy m dest src (int n)) = ?m" using m'(1) by (simp add: strncpy_def)
  have ne: "dest + of_nat k \<noteq> dest + of_nat ?j" if "k < ?j" for k
    using that assms(4) by (intro add_of_nat_neq) linarith+
  have "s ! k \<noteq> 0" if "k < length s" for k using that cstr_nonzero [OF assms(1)] by (metis nth_mem)
  then have "cstr ?m dest (take (n - 1) s)"
    unfolding cstr_iff using m'(2) ne by (simp add: min.commute)
  moreover have "?m a = m a" if a: "n \<le> unat (a - dest)" for a
  proof -
    have "?j < 4294967296" using assms(4) by linarith
    then have "a \<noteq> dest + of_nat ?j" using a assms(3) addr_eq_iff [of ?j a dest] by auto
    then show ?thesis using m'(3) a by simp
  qed
  ultimately show ?thesis unfolding r by simp
qed

definition span :: "u32 \<Rightarrow> nat \<Rightarrow> u32 set" where
  \<comment> \<open>the \<open>n\<close> bytes from \<open>p\<close> on\<close>
  "span p n = {a. unat (a - p) < n}"

lemma span_sub: "j + l \<le> n \<Longrightarrow> n < 4294967296 \<Longrightarrow> span (p + of_nat j) l \<subseteq> span p n"
proof
  fix a assume l: "j + l \<le> n" "n < 4294967296" and "a \<in> span (p + of_nat j) l"
  then have u: "unat (a - (p + of_nat j)) < l" by (simp add: span_def)
  have "a = p + of_nat (j + unat (a - (p + of_nat j)))" by simp
  then have "unat (a - p) = j + unat (a - (p + of_nat j))"
    using unat_offset [of "j + unat (a - (p + of_nat j))" p] u l by simp
  then show "a \<in> span p n" using u l by (simp add: span_def)
qed

lemma span_at: "i < n \<Longrightarrow> n < 4294967296 \<Longrightarrow> p + of_nat i \<in> span p n"
  by (simp add: span_def unat_of_nat32)

lemma store32_span: "a \<notin> span p 4 \<Longrightarrow> store32 m p x a = m a"
  by (simp add: span_def store32_other)

lemma load32_span:
  assumes "\<And>a. a \<in> span p 4 \<Longrightarrow> m' a = m a"
  shows "load32 m' p = load32 m p"
  using assms [of p] assms [of "p + 1"] assms [of "p + 2"] assms [of "p + 3"]
  by (intro load32_cong) (simp_all add: span_def)

lemma cstr_span: "cstr m p s \<Longrightarrow> (\<And>a. a \<in> span p (Suc (length s)) \<Longrightarrow> m' a = m a) \<Longrightarrow> length s < 4294967295 \<Longrightarrow> cstr m' p s"
  by (rule cstr_cong) (simp_all add: span_at del: of_nat_Suc)

lemma split_string_span:
  "split_string m p s \<Longrightarrow> (\<And>a. a \<in> span p (Suc (length s)) \<Longrightarrow> m' a = m a) \<Longrightarrow> split_string m' p s"
  unfolding split_string_def using cstr_span [of m p s m'] unat_gt_0 [of p] by auto

lemma set_argument_run:
  assumes "cstr m token w" and "span token (Suc (length w)) \<inter> span c 512 = {}" and "length w < 4294967295"
  shows "cstr (set_argument c token m) c (take 511 w)" "load32 (set_argument c token m) (c + 512) = 0"
    "a \<notin> span c 516 \<Longrightarrow> set_argument c token m a = m a"
proof -
  let ?m = "snd (strncpy m c token (int 512))"
  have "\<forall>k \<le> length w. 512 \<le> unat (token + of_nat k - c)"
  proof (intro allI impI)
    fix k assume "k \<le> length w"
    then have "token + of_nat k \<in> span token (Suc (length w))" using assms(3) by (intro span_at) simp_all
    then have "token + of_nat k \<notin> span c 512" using assms(2) by blast
    then show "512 \<le> unat (token + of_nat k - c)" by (simp add: span_def)
  qed
  from strncpy_far [OF assms(1) this] have cp: "cstr ?m c (take 511 w)" "\<And>a. 512 \<le> unat (a - c) \<Longrightarrow> ?m a = m a" by simp_all
  have def: "set_argument c token m = store32 ?m (c + 512) 0" by (simp add: set_argument_def library_same)
  show "load32 (set_argument c token m) (c + 512) = 0" by (simp add: def load32_store32_same)
  have sub: "span (c + 512) 4 \<subseteq> span c 516" using span_sub [of 512 4 516 c] by simp
  show "set_argument c token m a = m a" if "a \<notin> span c 516"
  proof -
    have "a \<notin> span (c + 512) 4" using that sub by blast
    then show ?thesis using cp(2) [of a] that by (simp add: def store32_span) (simp add: span_def)
  qed
  show "cstr (set_argument c token m) c (take 511 w)"
    unfolding def
  proof (rule cstr_span [OF cp(1)])
    fix a assume "a \<in> span c (Suc (length (take 511 w)))"
    then have "unat (a - c) < 512" by (simp add: span_def)
    then have "4 \<le> unat (a - (c + 512))" by (simp add: diff_diff_eq [symmetric] unat_sub32 [of "a - c" 512])
    then show "store32 ?m (c + 512) 0 a = ?m a" by (intro store32_span) (simp add: span_def)
  qed simp
qed

subsection \<open>The chain\<close>

primrec argument_chain :: "mem \<Rightarrow> u32 \<Rightarrow> u8 list list \<Rightarrow> bool" where
  "argument_chain m p [] \<longleftrightarrow> p = 0"
| "argument_chain m p (w # ws) \<longleftrightarrow> p \<noteq> 0 \<and> cstr m p w \<and> argument_chain m (load32 m (p + 512)) ws"

definition malloced :: "'w view \<Rightarrow> 'w user_state \<Rightarrow> u32 \<Rightarrow> u32 \<Rightarrow> 'w user_state \<Rightarrow> bool" where
  \<comment> \<open>what a call of \<^verbatim>\<open>malloc\<close> leaves, with the pointer \<open>p\<close> it returned\<close>
  "malloced v u sz p u' \<longleftrightarrow> strtok_sp u' = strtok_sp u \<and> shown v (world u') = shown v (world u) \<and> polls v (world u') = polls v (world u)
     \<and> (\<forall>a. a \<notin> free_mem v (world u) \<longrightarrow> umem u' a = umem u a) \<and> free_mem v (world u') \<subseteq> free_mem v (world u)
     \<and> avail v (world u') = avail v (world u) - 1 \<and> (p = 0 \<longleftrightarrow> avail v (world u) = 0)
     \<and> (p \<noteq> 0 \<longrightarrow> span p (unat sz) \<subseteq> free_mem v (world u) - free_mem v (world u'))"

lemma malloc_run:
  assumes "malloc_serves int80 v" and "unat sz \<le> 4096"
  shows "\<exists>p u'. peachos_malloc int80 sz u = Some (p, u') \<and> malloced v u sz p u'"
proof -
  obtain p m' w' where r: "int80 4 [sz] u = Some (p, u\<lparr>umem := m', world := w'\<rparr>)"
    "shown v w' = shown v (world u)" "polls v w' = polls v (world u)"
    "\<forall>a. a \<notin> free_mem v (world u) \<longrightarrow> m' a = umem u a" "free_mem v w' \<subseteq> free_mem v (world u)"
    "avail v w' = avail v (world u) - 1" "p = 0 \<longleftrightarrow> avail v (world u) = 0"
    "p \<noteq> 0 \<longrightarrow> (\<forall>a. unat (a - p) < unat sz \<longrightarrow> a \<in> free_mem v (world u) \<and> a \<notin> free_mem v w')"
    using mp [OF spec [OF spec [OF assms(1) [unfolded malloc_serves_def], of sz], of u] assms(2)] by (elim exE conjE) (rule that)
  have "malloced v u sz p (u\<lparr>umem := m', world := w'\<rparr>)"
  proof -
    have "p \<noteq> 0 \<longrightarrow> span p (unat sz) \<subseteq> free_mem v (world u) - free_mem v w'" using r(8) by (auto simp: span_def)
    then show ?thesis using r(2-7) unfolding malloced_def by simp
  qed
  then show ?thesis using r(1) by (simp add: peachos_malloc_def)
qed

lemma strtok_step:
  assumes space: "cstr m space [32]" and s: "split_string m p s" and start: "str = p \<and> sp = 0 \<or> sp = p"
    and off: "span space 2 \<inter> span p (length s) = {}" and u: "umem u = m" "strtok_sp u = sp"
  shows "case tokens {32} s of
      [] \<Rightarrow> call_strtok str space u = Some (0, u\<lparr>strtok_sp := 0\<rparr>)
    | w # ws \<Rightarrow> \<exists>q sp' m' r. call_strtok str space u = Some (q, u\<lparr>umem := m', strtok_sp := sp'\<rparr>)
        \<and> split_string m' q w \<and> split_string m' sp' r \<and> tokens {32} r = ws \<and> (\<forall>a. a \<notin> span p (length s) \<longrightarrow> m' a = m a)
        \<and> span q (Suc (length w)) \<subseteq> span p (Suc (length s)) \<and> span sp' (Suc (length r)) \<subseteq> span p (Suc (length s))"
proof -
  have off': "length s \<le> unat (space + of_nat i - p)" if "i \<le> length [32 :: u8]" for i
  proof -
    have "space + of_nat i \<in> span space 2" by (rule span_at) (use that in simp_all)
    then have "space + of_nat i \<notin> span p (length s)" using off by blast
    then show ?thesis by (simp add: span_def)
  qed
  have D: "set [32 :: u8] = {32}" by simp
  have run: "case tokens {32} s of
      [] \<Rightarrow> strtok m sp str space = Some (0, 0, m)
    | w # ws \<Rightarrow> \<exists>q sp' m' r. strtok m sp str space = Some (q, sp', m') \<and> split_string m' q w \<and> split_string m' sp' r
        \<and> tokens {32} r = ws \<and> (\<exists>j n. q = p + of_nat j \<and> sp' = p + of_nat n \<and> n + length r = length s \<and> j + length w \<le> n)
        \<and> (\<forall>a. length s \<le> unat (a - p) \<longrightarrow> m' a = m a)"
    by (rule strtok_run [OF space s start off', unfolded D])
  have len: "Suc (length s) < 4294967296" using s unat_gt_0 [of p] by (auto simp: split_string_def)
  show ?thesis
  proof (cases "tokens {32} s")
    case Nil
    then show ?thesis using run u by (cases u) (simp add: call_strtok_def)
  next
    case (Cons w ws)
    then obtain q sp' m' r j n where r: "strtok m sp str space = Some (q, sp', m')" "split_string m' q w" "split_string m' sp' r"
      "tokens {32} r = ws" "q = p + of_nat j" "sp' = p + of_nat n" "n + length r = length s" "j + length w \<le> n"
      "\<forall>a. length s \<le> unat (a - p) \<longrightarrow> m' a = m a" using run by auto
    have "span q (Suc (length w)) \<subseteq> span p (Suc (length s))" "span sp' (Suc (length r)) \<subseteq> span p (Suc (length s))"
      unfolding r(5,6) by (rule span_sub [OF _ len], use r(7,8) in simp)+
    then show ?thesis using r(1-4,9) u unfolding Cons list.case
      by (intro exI [of _ q] exI [of _ sp'] exI [of _ m'] exI [of _ r]) (simp add: call_strtok_def span_def)
  qed
qed

definition cutting :: "'w user_state \<Rightarrow> u32 set \<Rightarrow> u32 \<Rightarrow> u8 list list \<Rightarrow> bool" where
  \<comment> \<open>between two calls of \<open>strtok\<close>: \<open>tok\<close> is the word just found, the words behind it lie at \<open>sp\<close>\<close>
  "cutting u B tok ws \<longleftrightarrow> (case ws of [] \<Rightarrow> tok = 0 \<and> strtok_sp u = 0
     | w # ws \<Rightarrow> split_string (umem u) tok w \<and> span tok (Suc (length w)) \<subseteq> B
        \<and> (\<exists>r. split_string (umem u) (strtok_sp u) r \<and> tokens {32} r = ws \<and> span (strtok_sp u) (Suc (length r)) \<subseteq> B))"

lemma cutting_keep:
  assumes "cutting u B tok ws" and "strtok_sp u' = strtok_sp u" and "\<forall>a \<in> B. umem u' a = umem u a"
  shows "cutting u' B tok ws"
proof (cases ws)
  case (Cons w ws')
  then show ?thesis
    using assms split_string_span [of "umem u" tok w "umem u'"] split_string_span [of "umem u" "strtok_sp u" _ "umem u'"]
    unfolding cutting_def by (simp add: subset_iff) metis
qed (use assms in \<open>simp add: cutting_def\<close>)

lemma cutting_step:
  assumes c: "split_string (umem u) p r" "tokens {32} r = ws" "span p (Suc (length r)) \<subseteq> B"
    and str: "str = p \<and> strtok_sp u = 0 \<or> strtok_sp u = p"
    and space: "cstr (umem u) space [32]" "span space 2 \<inter> B = {}"
  shows "\<exists>tok u'. call_strtok str space u = Some (tok, u') \<and> cutting u' B tok ws \<and> world u' = world u
    \<and> (\<forall>a. a \<notin> B \<longrightarrow> umem u' a = umem u a) \<and> (tok = 0 \<longleftrightarrow> ws = [])"
proof -
  have sub: "span p (length r) \<subseteq> span p (Suc (length r))" by (auto simp: span_def)
  then have off: "span space 2 \<inter> span p (length r) = {}" using c(3) space(2) by blast
  note step = strtok_step [OF space(1) c(1) str off refl refl]
  show ?thesis
  proof (cases ws)
    case Nil
    then show ?thesis using step c(2) by (auto simp: cutting_def)
  next
    case (Cons w ws')
    with step c(2) obtain q sp' m' r' where s: "call_strtok str space u = Some (q, u\<lparr>umem := m', strtok_sp := sp'\<rparr>)"
      "split_string m' q w" "split_string m' sp' r'" "tokens {32} r' = ws'" "\<forall>a. a \<notin> span p (length r) \<longrightarrow> m' a = umem u a"
      "span q (Suc (length w)) \<subseteq> span p (Suc (length r))" "span sp' (Suc (length r')) \<subseteq> span p (Suc (length r))"
      by auto
    have "cutting (u\<lparr>umem := m', strtok_sp := sp'\<rparr>) B q ws"
      unfolding cutting_def Cons list.case using s(2-4) order_trans [OF s(6) c(3)] order_trans [OF s(7) c(3)] by auto
    moreover have "m' a = umem u a" if "a \<notin> B" for a using s(5) that sub c(3) by blast
    moreover have "q \<noteq> 0" using s(2) by (simp add: split_string_def)
    ultimately show ?thesis using s(1) Cons
      by (intro exI [of _ q] exI [of _ "u\<lparr>umem := m', strtok_sp := sp'\<rparr>"]) simp
  qed
qed

text \<open>A word copied into a new node.\<close>

lemma new_node:
  assumes serves: "malloc_serves int80 v" and w: "split_string (umem u) tok w" "span tok (Suc (length w)) \<inter> free_mem v (world u) = {}"
  shows "\<exists>new u'. peachos_malloc int80 516 u = Some (new, u') \<and> malloced v u 516 new u'
    \<and> (new \<noteq> 0 \<longrightarrow> span new 516 \<subseteq> free_mem v (world u) \<and> span new 516 \<inter> free_mem v (world u') = {}
        \<and> cstr (set_argument new tok (umem u')) new (take 511 w) \<and> load32 (set_argument new tok (umem u')) (new + 512) = 0
        \<and> (\<forall>a. a \<notin> free_mem v (world u) \<longrightarrow> set_argument new tok (umem u') a = umem u a))"
proof -
  obtain new u' where r: "peachos_malloc int80 516 u = Some (new, u')" "malloced v u 516 new u'"
    using malloc_run [OF serves, of 516 u] by auto
  note m = r(2) [unfolded malloced_def]
  have lw: "length w < 4294967295" using w(1) unat_gt_0 [of tok] by (auto simp: split_string_def)
  have "span new 516 \<subseteq> free_mem v (world u) \<and> span new 516 \<inter> free_mem v (world u') = {}
        \<and> cstr (set_argument new tok (umem u')) new (take 511 w) \<and> load32 (set_argument new tok (umem u')) (new + 512) = 0
        \<and> (\<forall>a. a \<notin> free_mem v (world u) \<longrightarrow> set_argument new tok (umem u') a = umem u a)" if "new \<noteq> 0"
  proof -
    have sp: "span new 516 \<subseteq> free_mem v (world u) - free_mem v (world u')" using m that by simp
    have "span new 512 \<subseteq> span new 516" by (auto simp: span_def)
    then have dis: "span tok (Suc (length w)) \<inter> span new 512 = {}" using w(2) sp by blast
    have "cstr (umem u') tok w"
      using cstr_span [of "umem u" tok w "umem u'"] w m lw by (auto simp: split_string_def)
    note s = set_argument_run [OF this dis lw]
    have "set_argument new tok (umem u') a = umem u a" if "a \<notin> free_mem v (world u)" for a
      using s(3) [of a] sp that m by auto
    then show ?thesis using s(1,2) sp by blast
  qed
  then show ?thesis using r by blast
qed

definition apart_from :: "'w view \<Rightarrow> 'w user_state \<Rightarrow> u32 set \<Rightarrow> u32 \<Rightarrow> bool" where
  \<comment> \<open>the buffer \<open>B\<close>, the literal at \<open>space\<close> and the memory of the heap are three\<close>
  "apart_from v u B space \<longleftrightarrow> cstr (umem u) space [32] \<and> free_mem v (world u) \<inter> B = {} \<and> span space 2 \<inter> (B \<union> free_mem v (world u)) = {}"

definition quiet :: "'w view \<Rightarrow> 'w user_state \<Rightarrow> 'w user_state \<Rightarrow> bool" where
  \<comment> \<open>nothing was shown, no key was read, and no memory came back\<close>
  "quiet v u u' \<longleftrightarrow> shown v (world u') = shown v (world u) \<and> polls v (world u') = polls v (world u)
     \<and> free_mem v (world u') \<subseteq> free_mem v (world u)"

lemma quiet_trans: "quiet v u u' \<Longrightarrow> quiet v u' u'' \<Longrightarrow> quiet v u u''"
  by (auto simp: quiet_def)

lemma apart_from_keep:
  assumes "apart_from v u B space" and "free_mem v (world u') \<subseteq> free_mem v (world u)" and "\<forall>a \<in> span space 2. umem u' a = umem u a"
  shows "apart_from v u' B space"
proof -
  have "space \<in> span space 2" "space + 1 \<in> span space 2" by (simp_all add: span_def)
  then have "umem u' space = umem u space" "umem u' (space + 1) = umem u (space + 1)" using assms(3) by blast+
  then show ?thesis using assms(1,2) unfolding apart_from_def by auto
qed

text \<open>A node whose link changes keeps its text.\<close>

lemma node_text_keep:
  assumes "cstr m p (take 511 w)" and "\<And>a. unat (a - p) < 512 \<Longrightarrow> m' a = m a"
  shows "cstr m' p (take 511 w)"
  by (rule cstr_span [OF assms(1)]) (use assms(2) in \<open>auto simp: span_def\<close>)

lemma not_in_link: "unat (a - p) < 512 \<Longrightarrow> a \<notin> span (p + 512) 4"
  by (simp add: span_def diff_diff_eq [symmetric] unat_sub32 [of "a - p" 512])

lemma parse_loop_run:
  fixes u :: "'w user_state"
  assumes serves: "malloc_serves int80 v"
  shows "cutting u B tok ws \<Longrightarrow> apart_from v u B space \<Longrightarrow> load32 (umem u) (cur + 512) = 0 \<Longrightarrow>
      span (cur + 512) 4 \<inter> (B \<union> free_mem v (world u) \<union> span space 2) = {} \<Longrightarrow>
    \<exists>u'. parse_command_loop int80 space cur tok u = Some u'
      \<and> argument_chain (umem u') (load32 (umem u') (cur + 512)) (take (avail v (world u)) (map (take 511) ws))
      \<and> (length ws \<le> avail v (world u) \<longrightarrow> strtok_sp u' = 0) \<and> quiet v u u'
      \<and> avail v (world u') = avail v (world u) - length ws
      \<and> (\<forall>a. a \<notin> B \<union> free_mem v (world u) \<union> span (cur + 512) 4 \<longrightarrow> umem u' a = umem u a)"
proof (induction ws arbitrary: cur tok u)
  case Nil
  then show ?case by (subst parse_command_loop.simps) (simp add: cutting_def quiet_def)
next
  case (Cons w ws)
  let ?F = "free_mem v (world u)"
  obtain r where c: "split_string (umem u) tok w" "span tok (Suc (length w)) \<subseteq> B" "split_string (umem u) (strtok_sp u) r"
    "tokens {32} r = ws" "span (strtok_sp u) (Suc (length r)) \<subseteq> B"
    using Cons.prems(1) by (auto simp: cutting_def)
  note ap = Cons.prems(2) [unfolded apart_from_def]
  have tok: "tok \<noteq> 0" using c(1) by (simp add: split_string_def)
  have "span tok (Suc (length w)) \<inter> ?F = {}" using c(2) ap by blast
  from new_node [OF serves c(1) this] obtain new u1 where
    new: "peachos_malloc int80 516 u = Some (new, u1)" "malloced v u 516 new u1"
    and node: "new \<noteq> 0 \<longrightarrow> span new 516 \<subseteq> ?F \<and> span new 516 \<inter> free_mem v (world u1) = {}
        \<and> cstr (set_argument new tok (umem u1)) new (take 511 w) \<and> load32 (set_argument new tok (umem u1)) (new + 512) = 0
        \<and> (\<forall>a. a \<notin> ?F \<longrightarrow> set_argument new tok (umem u1) a = umem u a)" by blast
  note m = new(2) [unfolded malloced_def]
  have q1: "quiet v u u1" using m by (simp add: quiet_def)
  show ?case
  proof (cases "new = 0")
    case True
    then have run: "parse_command_loop int80 space cur tok u = Some u1"
      using tok new(1) by (subst parse_command_loop.simps) simp
    have "load32 (umem u1) (cur + 512) = load32 (umem u) (cur + 512)"
      by (rule load32_span) (use m Cons.prems(4) in blast)
    moreover have "avail v (world u) = 0" using m True by simp
    ultimately show ?thesis using run q1 m Cons.prems(3) by (intro exI [of _ u1]) simp
  next
    case False
    let ?m3 = "set_argument new tok (umem u1)"
    let ?m4 = "store32 ?m3 (cur + 512) new"
    let ?u4 = "u1\<lparr>umem := ?m4\<rparr>"
    note node = node [rule_format, OF False]
    have m4: "?m4 a = umem u a" if "a \<notin> ?F" "a \<notin> span (cur + 512) 4" for a
      using that node by (simp add: store32_span)
    have B4: "\<forall>a \<in> B. ?m4 a = umem u a" and S4: "\<forall>a \<in> span space 2. ?m4 a = umem u a"
      using m4 ap Cons.prems(4) by blast+
    have ap4: "apart_from v ?u4 B space"
      by (rule apart_from_keep [OF Cons.prems(2)]) (use m S4 in simp_all)
    note ap4' = ap4 [unfolded apart_from_def]
    have sp4: "strtok_sp ?u4 = strtok_sp u" using m by simp
    have r4: "split_string (umem ?u4) (strtok_sp u) r"
      by (rule split_string_span [OF c(3)]) (use B4 c(5) in auto)
    have "\<exists>tok' u5. call_strtok 0 space ?u4 = Some (tok', u5) \<and> cutting u5 B tok' ws \<and> world u5 = world ?u4
        \<and> (\<forall>a. a \<notin> B \<longrightarrow> umem u5 a = umem ?u4 a) \<and> (tok' = 0 \<longleftrightarrow> ws = [])"
      by (rule cutting_step [OF r4 c(4,5)]) (use sp4 ap4' in auto)
    then obtain tok' u5 where u5: "call_strtok 0 space ?u4 = Some (tok', u5)" "cutting u5 B tok' ws" "world u5 = world u1"
      "\<forall>a. a \<notin> B \<longrightarrow> umem u5 a = ?m4 a" by auto
    have run: "parse_command_loop int80 space cur tok u = parse_command_loop int80 space new tok' u5"
      using tok new(1) False u5(1) by (subst parse_command_loop.simps) simp
    have nB: "span new 516 \<inter> B = {}" "span new 516 \<inter> span space 2 = {}" "span new 516 \<inter> span (cur + 512) 4 = {}"
      using node ap Cons.prems(4) by blast+
    have sub: "span (new + 512) 4 \<subseteq> span new 516" using span_sub [of 512 4 516 new] by simp
    have m5: "umem u5 a = ?m3 a" if "a \<in> span new 516" for a
    proof -
      have "a \<notin> B" "a \<notin> span (cur + 512) 4" using that nB by blast+
      then show ?thesis using u5(4) by (simp add: store32_span)
    qed
    have ap5: "apart_from v u5 B space"
    proof (rule apart_from_keep [OF ap4])
      show "free_mem v (world u5) \<subseteq> free_mem v (world ?u4)" using u5(3) by simp
      show "\<forall>a \<in> span space 2. umem u5 a = umem ?u4 a" using u5(4) ap by auto
    qed
    have l5: "load32 (umem u5) (new + 512) = 0"
      using load32_span [of "new + 512" "umem u5" ?m3] m5 sub node by auto
    have out5: "span (new + 512) 4 \<inter> (B \<union> free_mem v (world u5) \<union> span space 2) = {}"
      using sub nB node u5(3) by auto
    from Cons.IH [OF u5(2) ap5 l5 out5] obtain u' where
      u': "parse_command_loop int80 space new tok' u5 = Some u'"
        "argument_chain (umem u') (load32 (umem u') (new + 512)) (take (avail v (world u1)) (map (take 511) ws))"
        "length ws \<le> avail v (world u1) \<longrightarrow> strtok_sp u' = 0" "quiet v u5 u'" "avail v (world u') = avail v (world u1) - length ws"
        "\<forall>a. a \<notin> B \<union> free_mem v (world u1) \<union> span (new + 512) 4 \<longrightarrow> umem u' a = umem u5 a"
      using u5(3) by auto
    have av: "avail v (world u) = Suc (avail v (world u1))" using m False by (cases "avail v (world u)") simp_all
    have F1: "free_mem v (world u1) \<subseteq> ?F" using m by blast
    note frame' = u'(6)
    have "umem u' a = ?m4 a" if "a \<in> span (cur + 512) 4" for a
    proof -
      have "a \<notin> B" "a \<notin> free_mem v (world u1)" "a \<notin> span (new + 512) 4"
        using that Cons.prems(4) F1 nB(3) sub by blast+
      then show ?thesis using frame' u5(4) by simp
    qed
    then have link: "load32 (umem u') (cur + 512) = new"
      using load32_span [of "cur + 512" "umem u'" ?m4] by simp
    have "cstr (umem u') new (take 511 w)"
    proof (rule node_text_keep)
      show "cstr ?m3 new (take 511 w)" using node by blast
      fix a assume a: "unat (a - new) < 512"
      then have a516: "a \<in> span new 516" by (simp add: span_def)
      then have "a \<notin> B" "a \<notin> free_mem v (world u1)" using nB node by blast+
      then show "umem u' a = ?m3 a" using frame' not_in_link [OF a] m5 [OF a516] by simp
    qed
    then have chain: "argument_chain (umem u') (load32 (umem u') (cur + 512)) (take (avail v (world u)) (map (take 511) (w # ws)))"
      using u'(2) link False av by simp
    have frame: "umem u' a = umem u a" if a: "a \<notin> B \<union> ?F \<union> span (cur + 512) 4" for a
    proof -
      have "a \<notin> span (new + 512) 4" using a sub node by blast
      then show ?thesis using frame' u5(4) m4 [of a] a F1 by auto
    qed
    have q: "quiet v u u'"
      using quiet_trans [OF q1] u'(4) u5(3) by (simp add: quiet_def)
    show ?thesis using run u'(1,3,5) chain frame q av by (intro exI [of _ u']) simp
  qed
qed

lemma parse_command_run:
  fixes u :: "'w user_state"
  assumes serves: "malloc_serves int80 v" and ap: "apart_from v u (span scommand 1025) space"
    and s: "cstr (umem u) command s" "length s \<le> 1024" "span command (Suc (length s)) \<inter> span scommand 1025 = {}"
    and buf: "scommand \<noteq> 0" "unat scommand + 1025 \<le> 4294967296" and sp: "strtok_sp u = 0" and mx: "as_u32 mx < 1025"
  shows "\<exists>p u'. peachos_parse_command int80 scommand space command mx u = Some (p, u')
    \<and> argument_chain (umem u') p (take (avail v (world u)) (map (take 511) (tokens {32} s)))
    \<and> (length (tokens {32} s) \<le> avail v (world u) \<longrightarrow> strtok_sp u' = 0) \<and> quiet v u u'
    \<and> avail v (world u') = avail v (world u) - length (tokens {32} s)
    \<and> (\<forall>a. a \<notin> span scommand 1025 \<union> free_mem v (world u) \<longrightarrow> umem u' a = umem u a)"
proof -
  let ?B = "span scommand 1025" and ?F = "free_mem v (world u)" and ?ws = "tokens {32} s"
  let ?m0 = "snd (strncpy (umem u) scommand command (int 1025))"
  have "\<forall>k \<le> length s. 1025 \<le> unat (command + of_nat k - scommand)"
  proof (intro allI impI)
    fix k assume "k \<le> length s"
    then have "command + of_nat k \<in> span command (Suc (length s))" using s(2) by (intro span_at) simp_all
    then have "command + of_nat k \<notin> ?B" using s(3) by blast
    then show "1025 \<le> unat (command + of_nat k - scommand)" by (simp add: span_def)
  qed
  from strncpy_far [OF s(1) this] have m0: "cstr ?m0 scommand s" "\<And>a. a \<notin> ?B \<Longrightarrow> ?m0 a = umem u a"
    using s(2) by (simp_all add: span_def)
  let ?u0 = "u\<lparr>umem := ?m0\<rparr>"
  have ap0: "apart_from v ?u0 ?B space"
    by (rule apart_from_keep [OF ap]) (use m0(2) ap in \<open>auto simp: apart_from_def\<close>)
  note ap0' = ap0 [unfolded apart_from_def]
  have ss: "split_string (umem ?u0) scommand s" using m0(1) buf s(2) by (simp add: split_string_def)
  have sB: "span scommand (Suc (length s)) \<subseteq> ?B" using s(2) by (auto simp: span_def)
  have "\<exists>tok u1. call_strtok scommand space ?u0 = Some (tok, u1) \<and> cutting u1 ?B tok ?ws \<and> world u1 = world ?u0
      \<and> (\<forall>a. a \<notin> ?B \<longrightarrow> umem u1 a = umem ?u0 a) \<and> (tok = 0 \<longleftrightarrow> ?ws = [])"
    by (rule cutting_step [OF ss refl sB]) (use sp ap0' in auto)
  then obtain tok u1 where u1: "call_strtok scommand space ?u0 = Some (tok, u1)" "cutting u1 ?B tok ?ws" "world u1 = world u"
    "\<forall>a. a \<notin> ?B \<longrightarrow> umem u1 a = umem u a" "tok = 0 \<longleftrightarrow> ?ws = []" using m0(2) by auto
  have go: "peachos_parse_command int80 scommand space command mx u = (if tok = 0 then Some (0, u1)
      else do { (root, u) \<leftarrow> peachos_malloc int80 516 u1;
                if root = 0 then Some (root, u)
                else let u = u\<lparr>umem := set_argument root tok (umem u)\<rparr>
                     in do { (token, u) \<leftarrow> call_strtok 0 space u;
                             u \<leftarrow> parse_command_loop int80 space root token u; Some (root, u) } })"
  proof -
    have "\<not> as_u32 mx \<ge> 1025" using mx by simp
    then show ?thesis using u1(1) by (simp add: peachos_parse_command_def library_same)
  qed
  show ?thesis
  proof (cases ?ws)
    case Nil
    then have "tok = 0" "strtok_sp u1 = 0" using u1(2) by (simp_all add: cutting_def)
    then show ?thesis using go u1(3,4) Nil by (intro exI [of _ 0] exI [of _ u1]) (simp add: quiet_def)
  next
    case (Cons w ws)
    then obtain r where c: "split_string (umem u1) tok w" "span tok (Suc (length w)) \<subseteq> ?B" "split_string (umem u1) (strtok_sp u1) r"
      "tokens {32} r = ws" "span (strtok_sp u1) (Suc (length r)) \<subseteq> ?B"
      using u1(2) by (auto simp: cutting_def)
    have "span tok (Suc (length w)) \<inter> free_mem v (world u1) = {}" using c(2) ap u1(3) by (auto simp: apart_from_def)
    from new_node [OF serves c(1) this] obtain root u2 where
      new: "peachos_malloc int80 516 u1 = Some (root, u2)" "malloced v u1 516 root u2"
      and node: "root \<noteq> 0 \<longrightarrow> span root 516 \<subseteq> free_mem v (world u1) \<and> span root 516 \<inter> free_mem v (world u2) = {}
          \<and> cstr (set_argument root tok (umem u2)) root (take 511 w) \<and> load32 (set_argument root tok (umem u2)) (root + 512) = 0
          \<and> (\<forall>a. a \<notin> free_mem v (world u1) \<longrightarrow> set_argument root tok (umem u2) a = umem u1 a)" by blast
    note m = new(2) [unfolded malloced_def u1(3)]
    show ?thesis
    proof (cases "root = 0")
      case True
      then have "peachos_parse_command int80 scommand space command mx u = Some (0, u2)"
        using go new(1) u1(5) Cons by simp
      then show ?thesis using m True u1(4) Cons by (intro exI [of _ 0] exI [of _ u2]) (simp add: quiet_def)
    next
      case False
      let ?m3 = "set_argument root tok (umem u2)"
      let ?u3 = "u2\<lparr>umem := ?m3\<rparr>"
      note node = node [rule_format, OF False, unfolded u1(3)]
      have B3: "\<forall>a \<in> ?B. ?m3 a = umem u1 a" using node ap unfolding apart_from_def by blast
      have ap3: "apart_from v ?u3 ?B space"
      proof (rule apart_from_keep [OF ap])
        show "free_mem v (world ?u3) \<subseteq> ?F" using m by simp
        show "\<forall>a \<in> span space 2. umem ?u3 a = umem u a"
        proof
          fix a assume "a \<in> span space 2"
          then have "a \<notin> ?B" "a \<notin> ?F" using ap unfolding apart_from_def by blast+
          then show "umem ?u3 a = umem u a" using node u1(4) by simp
        qed
      qed
      note ap3' = ap3 [unfolded apart_from_def]
      have r3: "split_string (umem ?u3) (strtok_sp u1) r" by (rule split_string_span [OF c(3)]) (use B3 c(5) in auto)
      have "\<exists>tok' u4. call_strtok 0 space ?u3 = Some (tok', u4) \<and> cutting u4 ?B tok' ws \<and> world u4 = world ?u3
          \<and> (\<forall>a. a \<notin> ?B \<longrightarrow> umem u4 a = umem ?u3 a) \<and> (tok' = 0 \<longleftrightarrow> ws = [])"
        by (rule cutting_step [OF r3 c(4,5)]) (use m ap3' in auto)
      then obtain tok' u4 where u4: "call_strtok 0 space ?u3 = Some (tok', u4)" "cutting u4 ?B tok' ws" "world u4 = world u2"
        "\<forall>a. a \<notin> ?B \<longrightarrow> umem u4 a = ?m3 a" by auto
      have nB: "span root 516 \<inter> ?B = {}" "span root 516 \<inter> span space 2 = {}" using node ap unfolding apart_from_def by blast+
      have sub: "span (root + 512) 4 \<subseteq> span root 516" using span_sub [of 512 4 516 root] by simp
      have m4: "umem u4 a = ?m3 a" if "a \<in> span root 516" for a using u4(4) nB that by blast
      have ap4: "apart_from v u4 ?B space"
        by (rule apart_from_keep [OF ap3]) (use u4(3,4) ap in \<open>auto simp: apart_from_def\<close>)
      have l4: "load32 (umem u4) (root + 512) = 0"
        using load32_span [of "root + 512" "umem u4" ?m3] m4 sub node by auto
      have out4: "span (root + 512) 4 \<inter> (?B \<union> free_mem v (world u4) \<union> span space 2) = {}"
        using sub nB node u4(3) by auto
      from parse_loop_run [OF serves u4(2) ap4 l4 out4] obtain u' where
        u': "parse_command_loop int80 space root tok' u4 = Some u'"
          "argument_chain (umem u') (load32 (umem u') (root + 512)) (take (avail v (world u2)) (map (take 511) ws))"
          "length ws \<le> avail v (world u2) \<longrightarrow> strtok_sp u' = 0" "quiet v u4 u'" "avail v (world u') = avail v (world u2) - length ws"
          "\<forall>a. a \<notin> ?B \<union> free_mem v (world u2) \<union> span (root + 512) 4 \<longrightarrow> umem u' a = umem u4 a"
        using u4(3) by auto
      have av: "avail v (world u) = Suc (avail v (world u2))" using m False by (cases "avail v (world u)") simp_all
      have run: "peachos_parse_command int80 scommand space command mx u = Some (root, u')"
        using go new(1) False u1(5) Cons u4(1) u'(1) by simp
      have "cstr (umem u') root (take 511 w)"
      proof (rule node_text_keep)
        show "cstr ?m3 root (take 511 w)" using node by blast
        fix a assume a: "unat (a - root) < 512"
        then have a516: "a \<in> span root 516" by (simp add: span_def)
        then have "a \<notin> ?B" "a \<notin> free_mem v (world u2)" using nB node by blast+
        then show "umem u' a = ?m3 a" using u'(6) not_in_link [OF a] m4 [OF a516] by simp
      qed
      then have chain: "argument_chain (umem u') root (take (avail v (world u)) (map (take 511) ?ws))"
        using u'(2) False av Cons by simp
      have frame: "umem u' a = umem u a" if a: "a \<notin> ?B \<union> ?F" for a
      proof -
        have "a \<notin> span (root + 512) 4" using a sub node by blast
        moreover have "a \<notin> free_mem v (world u2)" using a m by blast
        ultimately show ?thesis using u'(6) u4(4) node u1(4) a by simp
      qed
      have "quiet v u u'" using u'(4) u4(3) m by (auto simp: quiet_def)
      then show ?thesis using run chain frame u'(3,5) av Cons by (intro exI [of _ root] exI [of _ u']) simp
    qed
  qed
qed

text \<open>
  C24: parsing a command.  \<open>peachos_parse_command\<close> returns the chain of the blank-separated words of the line,
  each cut to 511 bytes, in their order; if \<^verbatim>\<open>malloc\<close> serves only \<open>n\<close> requests, the chain of the first \<open>n\<close>.  Only the local
  buffer and fresh memory are written; \<open>strtok\<close> is ready for a new line if there was memory for all words.
\<close>
theorem parse_command_spec:
  assumes "malloc_serves int80 v" and "apart_from v u (span scommand 1025) space"
    and "cstr (umem u) command s" "length s \<le> 1024" "span command (Suc (length s)) \<inter> span scommand 1025 = {}"
    and "scommand \<noteq> 0" "unat scommand + 1025 \<le> 4294967296" and "strtok_sp u = 0" and "as_u32 mx < 1025"
  shows "\<exists>p u'. peachos_parse_command int80 scommand space command mx u = Some (p, u')
    \<and> argument_chain (umem u') p (take (avail v (world u)) (map (take 511) (tokens {32} s)))
    \<and> (length (tokens {32} s) \<le> avail v (world u) \<longrightarrow> strtok_sp u' = 0)
    \<and> (\<forall>a. a \<notin> span scommand 1025 \<union> free_mem v (world u) \<longrightarrow> umem u' a = umem u a)"
  using parse_command_run [OF assms] by blast

lemma test_user_cstr: "0 \<notin> set s \<Longrightarrow> length s < 4294967296 \<Longrightarrow> 0x200 \<notin> span p (Suc (length s)) \<Longrightarrow> cstr (umem (test_user p s ks)) p s"
  unfolding cstr_iff
proof (intro conjI allI impI)
  assume a: "0 \<notin> set s" "length s < 4294967296" "0x200 \<notin> span p (Suc (length s))"
  have ne: "p + of_nat i \<noteq> 0x200" if "i \<le> length s" for i
  proof
    assume "p + of_nat i = 0x200"
    then have "0x200 = p + of_nat i" by simp
    then have "unat (0x200 - p) = i" using addr_eq_iff [of i "0x200" p] that a(2) by simp
    then show False using a(3) that by (simp add: span_def)
  qed
  show "umem (test_user p s ks) (p + of_nat i) = s ! i" if "i < length s" for i
    using ne [of i] that a(2) by (simp add: test_user_def unat_of_nat32)
  show "s ! i \<noteq> 0" if "i < length s" for i using a(1) that by (metis nth_mem)
  show "umem (test_user p s ks) (p + of_nat (length s)) = 0"
    using ne [of "length s"] a(2) by (simp add: test_user_def unat_of_nat32)
qed

lemma test_apart:
  assumes "0x200 \<notin> B" "0x201 \<notin> B" "\<And>a. a \<in> B \<Longrightarrow> unat a < 0x10000000" and "length s \<le> unat (0x201 - p)"
  shows "apart_from test_view (test_user p s ks) B 0x200"
proof -
  have sp: "a = 0x200 \<or> a = 0x201" if "a \<in> span 0x200 2" for a
  proof -
    have "a - 0x200 = 0 \<or> a - 0x200 = 1" 
      using that by (simp only: span_def mem_Collect_eq word32_eq_iff_unat [of "a - 0x200"] unsigned_0 unsigned_1) linarith
    moreover have "a = 0x200 + (a - 0x200)" by simp
    ultimately show ?thesis by (elim disjE) simp_all
  qed
  have "cstr (umem (test_user p s ks)) 0x200 [32]" using assms(4) by (simp add: test_user_def)
  moreover have "free_mem test_view (world (test_user p s ks)) \<inter> B = {}"
    using assms(3) by (force simp: test_view_def test_user_def)
  moreover have "span 0x200 2 \<inter> (B \<union> free_mem test_view (world (test_user p s ks))) = {}"
    using sp assms(1,2) by (force simp: test_view_def test_user_def)
  ultimately show ?thesis by (simp add: apart_from_def)
qed

theorem parse_command_spec_witness:
  "\<exists>p u'. peachos_parse_command test_int80 0x1000 0x200 0x100 1024 (test_user 0x100 [32, 108, 115, 32, 32, 120] test_keys) = Some (p, u')
    \<and> argument_chain (umem u') p [[108, 115], [120]]"
proof -
  let ?s = "[32, 108, 115, 32, 32, 120] :: u8 list"
  let ?u = "test_user 0x100 ?s test_keys"
  have B: "unat a < 0x1000 + 1025 \<and> 0x1000 \<le> unat a" if "a \<in> span 0x1000 1025" for a :: u32
    using that unat_sub32 [of a "0x1000"] unat_bound32 [of a] by (simp add: span_def split: if_splits)
  have ap: "apart_from test_view ?u (span 0x1000 1025) 0x200"
  proof (rule test_apart)
    show "unat a < 0x10000000" if "a \<in> span 0x1000 1025" for a using B [OF that] by simp
  qed (simp_all add: span_def unat_sub32)
  have s: "cstr (umem ?u) 0x100 ?s" by (rule test_user_cstr) (simp_all add: span_def)
  have dis: "span 0x100 (Suc (length ?s)) \<inter> span 0x1000 1025 = {}"
  proof -
    have "unat a < 0x200" if "a \<in> span 0x100 7" for a :: u32
      using that unat_sub32 [of a "0x100"] unat_bound32 [of a] by (simp add: span_def split: if_splits)
    then have "span 0x100 7 \<inter> span (0x1000 :: u32) 1025 = {}" using B by (fastforce dest: B)
    moreover have "Suc (length ?s) = 7" by simp
    ultimately show ?thesis by (simp only:)
  qed
  have tok: "tokens {32} ?s = [[108, 115], [120]]" by (simp add: tokens.simps)
  have "strtok_sp ?u = 0" "avail test_view (world ?u) = 16" by (simp_all add: test_user_def test_view_def)
  then show ?thesis
    using parse_command_spec [OF test_malloc ap s _ dis, of 1024] tok by (auto simp: as_u32_def)
qed

end
