(* ===== verification/UserShell.thy ===== *)
theory UserShell
  imports UserParse
begin

text \<open>
  \<^verbatim>\<open>src/programs/shell/src/shell.c\<close> and \<^verbatim>\<open>src/programs/blank/blank.c\<close>: what the shell shows for a line typed, and
  formatted output.  \<open>lit\<close> is where the compiler put a literal.
\<close>

definition bytes :: "string \<Rightarrow> u8 list" where
  "bytes s = map of_char s"

lemma bytes_simps [simp]: "bytes [] = []" "bytes (c # s) = of_char c # bytes s"
  by (simp_all add: bytes_def)

definition newline :: "u8 list" where "newline = [10]"

subsection \<open>The programs\<close>

definition current_directory :: "u8 list" where "current_directory = bytes ''0:/''"

definition cd_reply :: "u8 list" where "cd_reply = newline @ bytes ''Changing directory...''"

definition ls_reply :: "u8 list" where
  "ls_reply = newline @ bytes '' filename          date            permissions     ''"

definition help_ls :: "u8 list" where "help_ls = newline @ bytes ''ls - list directory contents'' @ newline"

definition help_pwd :: "u8 list" where "help_pwd = bytes ''pwd - print current working directory'' @ newline"

definition help_cd :: "u8 list" where
  "help_cd = bytes ''cd - change current directory to the given directory'' @ newline"

definition parsenexec :: "'w int80 \<Rightarrow> (u8 list \<Rightarrow> u32) \<Rightarrow> u32 \<Rightarrow> u32 \<Rightarrow> 'w user_state \<Rightarrow> 'w user_state option" where
  "parsenexec int80 lit scommand command u =
     do { (commands, u) \<leftarrow> peachos_parse_command int80 scommand (lit (bytes '' '')) command 1024 u;
          u \<leftarrow> (if istrncmp_u (umem u) (lit (bytes ''cd'')) commands 1025 = 0 then print_u int80 (lit cd_reply) u else Some u);
          u \<leftarrow> (if istrncmp_u (umem u) (lit (bytes ''ls'')) commands 1025 = 0 then print_u int80 (lit ls_reply) u else Some u);
          u \<leftarrow> (if istrncmp_u (umem u) (lit (bytes ''pwd'')) commands 1025 = 0
               then do { u \<leftarrow> print_u int80 (lit newline) u; print_u int80 (lit current_directory) u } else Some u);
          if istrncmp_u (umem u) (lit (bytes ''-h'')) commands 1025 = 0
          then do { u \<leftarrow> print_u int80 (lit help_ls) u; u \<leftarrow> print_u int80 (lit help_pwd) u; print_u int80 (lit help_cd) u }
          else Some u }"

definition shell_start :: "'w int80 \<Rightarrow> (u8 list \<Rightarrow> u32) \<Rightarrow> u32 \<Rightarrow> u32 \<Rightarrow> 'w user_state \<Rightarrow> 'w user_state option" where
  \<comment> \<open>\<^verbatim>\<open>main\<close> up to its loop\<close>
  "shell_start int80 lit itoa_text argv u =
     do { _ \<leftarrow> strlen_u (umem u) (lit current_directory);
          u \<leftarrow> print_u int80 (lit (bytes ''PeachOS v2.0.0'' @ newline)) u;
          (_, u) \<leftarrow> printf int80 itoa_text (lit (bytes ''Shell ID: %s'' @ newline)) [load32 (umem u) argv] u;
          print_u int80 (lit (bytes ''Press '' @ [39] @ bytes ''~'' @ [39] @ bytes '' to switch between shells'' @ newline)) u }"

definition shell_round :: "'w int80 \<Rightarrow> (u8 list \<Rightarrow> u32) \<Rightarrow> u32 \<Rightarrow> u32 \<Rightarrow> 'w user_state \<Rightarrow> 'w user_state option" where
  \<comment> \<open>the body of the loop \<^verbatim>\<open>while (1)\<close>\<close>
  "shell_round int80 lit scommand buf u =
     do { u \<leftarrow> print_u int80 (lit current_directory) u;
          u \<leftarrow> print_u int80 (lit (bytes ''> '')) u;
          u \<leftarrow> peachos_terminal_readline int80 buf 1024 True u;
          u \<leftarrow> parsenexec int80 lit scommand buf u;
          print_u int80 (lit newline) u }"

primrec shell_rounds :: "'w int80 \<Rightarrow> (u8 list \<Rightarrow> u32) \<Rightarrow> u32 \<Rightarrow> u32 \<Rightarrow> nat \<Rightarrow> 'w user_state \<Rightarrow> 'w user_state option" where
  \<comment> \<open>its first \<open>n\<close> rounds\<close>
  "shell_rounds int80 lit scommand buf 0 u = Some u"
| "shell_rounds int80 lit scommand buf (Suc n) u =
     do { u \<leftarrow> shell_round int80 lit scommand buf u; shell_rounds int80 lit scommand buf n u }"

definition blank_main :: "'w int80 \<Rightarrow> (u8 list \<Rightarrow> u32) \<Rightarrow> u32 \<Rightarrow> int \<Rightarrow> u32 \<Rightarrow> 'w user_state \<Rightarrow> (int \<times> 'w user_state) option" where
  "blank_main int80 lit itoa_text argc argv u =
     do { (_, u) \<leftarrow> printf int80 itoa_text (lit (bytes ''Shell ID: %s'')) [load32 (umem u) argv] u; Some (0, u) }"

subsection \<open>Formatted output\<close>

datatype printf_arg = Int_arg int | Str_arg "u8 list"

fun rendered :: "u8 list \<Rightarrow> printf_arg list \<Rightarrow> u8 list option" where
  "rendered [] args = Some []"
| "rendered (c # f) args =
     (if c \<noteq> 37 then map_option (Cons c) (rendered f args)
      else case f of [] \<Rightarrow> None
        | d # f \<Rightarrow>
            if d = 105 then (case args of Int_arg i # args \<Rightarrow> map_option (append (decimal i)) (rendered f args) | _ \<Rightarrow> None)
            else if d = 115 then (case args of Str_arg s # args \<Rightarrow> map_option (append s) (rendered f args) | _ \<Rightarrow> None)
            else map_option (Cons d) (rendered f args))"

primrec passed :: "mem \<Rightarrow> u32 \<Rightarrow> printf_arg \<Rightarrow> u32 \<Rightarrow> bool" where
  \<comment> \<open>the word on the stack that carries the argument\<close>
  "passed m itoa_text (Int_arg i) w \<longleftrightarrow> w = as_u32 i \<and> - 2147483648 \<le> i \<and> i \<le> 2147483647"
| "passed m itoa_text (Str_arg s) w \<longleftrightarrow> cstr m w s \<and> length s < 1024 \<and> span w (Suc (length s)) \<inter> span itoa_text 12 = {}"

lemma passed_keep:
  assumes "passed m itoa_text a w" and "\<forall>x. x \<notin> span itoa_text 12 \<longrightarrow> m' x = m x"
  shows "passed m' itoa_text a w"
proof (cases a)
  case (Str_arg s)
  have "cstr m' w s"
  proof (rule cstr_span)
    show "m' x = m x" if "x \<in> span w (Suc (length s))" for x using assms Str_arg that by auto
  qed (use assms Str_arg in auto)
  then show ?thesis using assms(1) Str_arg by simp
qed (use assms in simp)

lemma as_int_as_u32: "- 2147483648 \<le> i \<Longrightarrow> i \<le> 2147483647 \<Longrightarrow> as_int (as_u32 i) = i"
  by (simp add: as_int_def as_u32_def signed_of_int signed_take_bit_int_eq_self)

lemma decimal_length: "\<bar>i\<bar> \<le> 2147483648 \<Longrightarrow> length (decimal i) < 1024"
proof -
  assume "\<bar>i\<bar> \<le> 2147483648"
  then have "length (dec (nat \<bar>i\<bar>)) \<le> 10" by (intro dec_length) simp
  then show ?thesis by (auto simp: decimal_def abs_if split: if_splits)
qed

lemma user_print_run:
  assumes "print_serves int80 v" and "cstr (umem u) p s" and "length s < 1024"
  shows "\<exists>w'. print_u int80 p u = Some (u\<lparr>world := w'\<rparr>) \<and> shows_on v (world u) w' s"
  using assms unfolding print_serves_def print_u_def by fastforce

lemma putchar_run:
  assumes "putchar_serves int80 v"
  shows "\<exists>w'. putchar int80 (sgn_char c) u = Some (0, u\<lparr>world := w'\<rparr>) \<and> shows_on v (world u) w' [c]"
proof -
  obtain r w' where "int80 3 [scast c] u = Some (r, u\<lparr>world := w'\<rparr>)" "shows_on v (world u) w' [c]"
    using assms unfolding putchar_serves_def by blast
  then show ?thesis by (intro exI [of _ w']) (simp add: putchar_def peachos_putchar_def char_as_int)
qed

lemma shows_on_trans: "shows_on v w w' s \<Longrightarrow> shows_on v w' w'' t \<Longrightarrow> shows_on v w w'' (s @ t)"
  by (simp add: shows_on_def)

lemma shows_on_refl: "shows_on v w w []"
  by (simp add: shows_on_def)

lemma itoa_run:
  assumes "- 2147483648 \<le> i" and "i \<le> 2147483647"
  shows "\<exists>s m'. itoa_u m t i = (s, m') \<and> cstr m' s (decimal i) \<and> (\<forall>x. x \<notin> span t 12 \<longrightarrow> m' x = m x)"
proof -
  obtain s m' where "itoa m t i = (s, m')" by (cases "itoa m t i")
  then show ?thesis using itoa_spec [OF assms, where m = m and buf = t] by (auto simp: library_same span_def)
qed

definition format_at :: "mem \<Rightarrow> u32 \<Rightarrow> u32 \<Rightarrow> u8 list \<Rightarrow> bool" where
  \<comment> \<open>the format string at \<open>p\<close> lies apart from the buffer of \<open>itoa\<close>\<close>
  "format_at m t p f \<longleftrightarrow> cstr m p f \<and> length f < 4294967295 \<and> span p (Suc (length f)) \<inter> span t 12 = {}"

lemma format_at_Cons: "format_at m t p (c # f) \<Longrightarrow> m p = c \<and> c \<noteq> 0 \<and> format_at m t (p + 1) f"
  using span_sub [of 1 "Suc (length f)" "Suc (Suc (length f))" p] by (auto simp: format_at_def)

lemma format_at_keep:
  assumes "format_at m t p f" and "\<forall>x. x \<notin> span t 12 \<longrightarrow> m' x = m x"
  shows "format_at m' t p f"
proof -
  have "cstr m' p f"
  proof (rule cstr_span)
    show "m' x = m x" if "x \<in> span p (Suc (length f))" for x using assms that by (auto simp: format_at_def)
  qed (use assms in \<open>auto simp: format_at_def\<close>)
  then show ?thesis using assms(1) by (simp add: format_at_def)
qed

definition wrote :: "'w view \<Rightarrow> u32 \<Rightarrow> 'w user_state \<Rightarrow> 'w user_state \<Rightarrow> u8 list \<Rightarrow> bool" where
  \<comment> \<open>the text was shown, and memory changed in the buffer of \<open>itoa\<close> at most\<close>
  "wrote v t u u' s \<longleftrightarrow> shows_on v (world u) (world u') s \<and> strtok_sp u' = strtok_sp u \<and> (\<forall>x. x \<notin> span t 12 \<longrightarrow> umem u' x = umem u x)"

lemma wrote_trans: "wrote v t u u' s \<Longrightarrow> wrote v t u' u'' s' \<Longrightarrow> wrote v t u u'' (s @ s')"
  by (auto simp: wrote_def intro: shows_on_trans)

lemma wrote_world: "shows_on v (world u) w' s \<Longrightarrow> wrote v t u (u\<lparr>world := w'\<rparr>) s"
  by (simp add: wrote_def)

lemma passed_all_keep:
  "list_all2 (passed (umem u) t) args ws \<Longrightarrow> wrote v t u u' s \<Longrightarrow> list_all2 (passed (umem u') t) args ws"
  by (erule list_all2_mono) (auto simp: wrote_def intro: passed_keep)

lemma printf_loop_run:
  assumes pr: "print_serves int80 v" and pc: "putchar_serves int80 v"
  shows "rendered f args = Some r \<Longrightarrow> format_at (umem u) t p f \<Longrightarrow> list_all2 (passed (umem u) t) args ws \<Longrightarrow>
    \<exists>u'. printf_loop int80 t p ws u = Some u' \<and> wrote v t u u' r"
proof (induction f args arbitrary: p ws u r rule: rendered.induct)
  case (1 args)
  then have "printf_loop int80 t p ws u = Some u" by (subst printf_loop.simps) (simp add: format_at_def)
  moreover have "wrote v t u u []" by (simp add: wrote_def shows_on_refl)
  ultimately show ?case using 1 by auto
next
  case (2 c f args)
  note at = format_at_Cons [OF "2.prems"(2)]
  show ?case
  proof (cases "c = 37")
    case False
    then obtain r' where r: "rendered f args = Some r'" "r = c # r'" using "2.prems"(1) by auto
    obtain w' where w': "putchar int80 (sgn_char c) u = Some (0, u\<lparr>world := w'\<rparr>)" "shows_on v (world u) w' [c]"
      using putchar_run [OF pc] by blast
    obtain u' where "printf_loop int80 t (p + 1) ws (u\<lparr>world := w'\<rparr>) = Some u'" "wrote v t (u\<lparr>world := w'\<rparr>) u' r'"
      using "2.IH"(1) [OF False r(1), of "u\<lparr>world := w'\<rparr>" "p + 1" ws] at "2.prems"(3) by auto
    moreover from this have "printf_loop int80 t p ws u = Some u'"
      using at False w'(1) by (subst printf_loop.simps) simp
    ultimately show ?thesis using wrote_trans [OF wrote_world [OF w'(2)]] r(2) by fastforce
  next
    case True
    then obtain d g where f: "f = d # g" using "2.prems"(1) by (cases f) auto
    note at2 = format_at_Cons [OF at [THEN conjunct2, THEN conjunct2, unfolded f]]
    consider (int) "d = 105" | (str) "d = 115" | (char) "d \<noteq> 105" "d \<noteq> 115" by blast
    then show ?thesis
    proof cases
      case int
      then obtain i as r' where a: "args = Int_arg i # as" "rendered g as = Some r'" "r = decimal i @ r'"
        using "2.prems"(1) True f by (auto split: list.splits printf_arg.splits)
      then obtain w' ws' where ws: "ws = as_u32 i # ws'" "- 2147483648 \<le> i" "i \<le> 2147483647" "list_all2 (passed (umem u) t) as ws'"
        using "2.prems"(3) by (auto simp: list_all2_Cons1)
      obtain s m' where it: "itoa_u (umem u) t i = (s, m')" "cstr m' s (decimal i)" "\<forall>x. x \<notin> span t 12 \<longrightarrow> m' x = umem u x"
        using itoa_run [OF ws(2,3)] by blast
      have "length (decimal i) < 1024" by (rule decimal_length) (use ws(2,3) in simp)
      from user_print_run [OF pr, of "u\<lparr>umem := m'\<rparr>", simplified, OF it(2) this] obtain w1 where
        w1: "print_u int80 s (u\<lparr>umem := m'\<rparr>) = Some (u\<lparr>umem := m', world := w1\<rparr>)" "shows_on v (world u) w1 (decimal i)" by auto
      let ?u = "u\<lparr>umem := m', world := w1\<rparr>"
      have first: "wrote v t u ?u (decimal i)" using w1(2) it(3) by (simp add: wrote_def)
      have "format_at (umem ?u) t (p + 1 + 1) g" using format_at_keep [of "umem u" t "p + 1 + 1" g m'] at2 it(3) by simp
      moreover have "list_all2 (passed (umem ?u) t) as ws'" by (rule passed_all_keep [OF ws(4) first])
      ultimately obtain u' where u': "printf_loop int80 t (p + 1 + 1) ws' ?u = Some u'" "wrote v t ?u u' r'"
        using "2.IH"(2) [OF _ f int a(1) refl a(2)] True by blast
      have "printf_loop int80 t p ws u = Some u'"
        using at at2 True int w1(1) it(1) u'(1) f ws(1-3) by (subst printf_loop.simps) (simp add: Let_def as_int_as_u32)
      then show ?thesis using wrote_trans [OF first u'(2)] a(3) by blast
    next
      case str
      then obtain s as r' where a: "args = Str_arg s # as" "rendered g as = Some r'" "r = s @ r'"
        using "2.prems"(1) True f by (auto split: list.splits printf_arg.splits)
      then obtain q ws' where ws: "ws = q # ws'" "cstr (umem u) q s" "length s < 1024" "list_all2 (passed (umem u) t) as ws'"
        using "2.prems"(3) by (auto simp: list_all2_Cons1)
      obtain w1 where w1: "print_u int80 q u = Some (u\<lparr>world := w1\<rparr>)" "shows_on v (world u) w1 s"
        using user_print_run [OF pr ws(2,3)] by blast
      let ?u = "u\<lparr>world := w1\<rparr>"
      obtain u' where u': "printf_loop int80 t (p + 1 + 1) ws' ?u = Some u'" "wrote v t ?u u' r'"
        using "2.IH"(3) [OF _ f _ str a(1) refl a(2), of ?u "p + 1 + 1" ws'] True str at2 ws(4) by auto
      have "printf_loop int80 t p ws u = Some u'"
        using at at2 True str w1(1) u'(1) f ws(1) by (subst printf_loop.simps) (simp add: Let_def)
      then show ?thesis using wrote_trans [OF wrote_world [OF w1(2)] u'(2)] a(3) by blast
    next
      case char
      then obtain r' where r: "rendered g args = Some r'" "r = d # r'" using "2.prems"(1) True f by auto
      obtain w' where w': "putchar int80 (sgn_char d) u = Some (0, u\<lparr>world := w'\<rparr>)" "shows_on v (world u) w' [d]"
        using putchar_run [OF pc] by blast
      obtain u' where u': "printf_loop int80 t (p + 1 + 1) ws (u\<lparr>world := w'\<rparr>) = Some u'" "wrote v t (u\<lparr>world := w'\<rparr>) u' r'"
        using "2.IH"(4) [OF _ f char r(1), of "u\<lparr>world := w'\<rparr>" "p + 1 + 1" ws] True at2 "2.prems"(3) by auto
      have "printf_loop int80 t p ws u = Some u'"
        using at at2 True char w'(1) u'(1) f by (subst printf_loop.simps) (simp add: Let_def)
      then show ?thesis using wrote_trans [OF wrote_world [OF w'(2)] u'(2)] r(2) by fastforce
    qed
  qed
qed

text \<open>
  C26: formatted output.  \<open>printf\<close> shows the format with \<^verbatim>\<open>%i\<close> replaced by the decimal digits of its argument and \<^verbatim>\<open>%s\<close>
  by its string, returns 0, and changes no memory but the buffer of \<open>itoa\<close>.
\<close>
theorem printf_spec:
  assumes "print_serves int80 v" and "putchar_serves int80 v" and "rendered f args = Some r"
    and "format_at (umem u) t fmt f" and "list_all2 (passed (umem u) t) args ws"
  shows "\<exists>u'. printf int80 t fmt ws u = Some (0, u') \<and> shown v (world u') = shown v (world u) @ r
    \<and> (\<forall>x. x \<notin> span t 12 \<longrightarrow> umem u' x = umem u x)"
  using printf_loop_run [OF assms] by (auto simp: printf_def wrote_def shows_on_def)

theorem printf_spec_witness:
  "\<exists>u'. printf test_int80 0x900 0x100 [as_u32 (- 7)] (test_user 0x100 [73, 37, 105, 33] test_keys) = Some (0, u')
    \<and> tw_shown (world u') = [73, 45, 55, 33]"
proof -
  let ?u = "test_user 0x100 [73, 37, 105, 33] test_keys"
  have c: "cstr (umem ?u) 0x100 [73, 37, 105, 33]" by (rule test_user_cstr) (simp_all add: span_def)
  have "span 0x100 5 \<inter> span (0x900 :: u32) 12 = {}"
  proof -
    have "unat a < 0x200" if "a \<in> span 0x100 5" for a :: u32
      using that unat_sub32 [of a "0x100"] unat_bound32 [of a] by (simp add: span_def split: if_splits)
    moreover have "0x900 \<le> unat a" if "a \<in> span 0x900 12" for a :: u32
      using that unat_sub32 [of a "0x900"] unat_bound32 [of a] by (simp add: span_def split: if_splits)
    ultimately show ?thesis by fastforce
  qed
  moreover have "Suc (length [73, 37, 105, 33 :: u8]) = 5" "length [73, 37, 105, 33 :: u8] < 4294967295" by simp_all
  ultimately have f: "format_at (umem ?u) 0x900 0x100 [73, 37, 105, 33]" using c by (simp only: format_at_def)
  have d: "decimal (- 7) = [45, 55]" by (simp add: decimal_def dec.simps)
  have "rendered [73, 37, 105, 33] [Int_arg (- 7)] = Some [73, 45, 55, 33]" by (simp add: d)
  from printf_spec [OF test_print test_putchar this f, of "[as_u32 (- 7)]"] show ?thesis
    by (auto simp: test_view_def) (simp add: test_user_def)
qed

lemma printf_percent_end:
  \<comment> \<open>a format that ends in \<^verbatim>\<open>%\<close> is read on behind its terminator\<close>
  "umem u p = 37 \<Longrightarrow> umem u (p + 1) = 0 \<Longrightarrow>
   printf_loop int80 t p ap u = do { (_, u) \<leftarrow> putchar int80 0 u; printf_loop int80 t (p + 1 + 1) ap u }"
  by (subst printf_loop.simps) (simp add: Let_def sgn_char_def)

subsection \<open>The shell\<close>

definition shell_literals :: "u8 list list" where
  "shell_literals = [bytes '' '', bytes ''cd'', bytes ''ls'', bytes ''pwd'', bytes ''-h'', bytes ''> '', newline, current_directory,
     cd_reply, ls_reply, help_ls, help_pwd, help_cd]"

definition answers :: "u8 list \<Rightarrow> u8 list \<Rightarrow> bool" where
  \<comment> \<open>the built-in command takes the word for its own: the word is a beginning of it\<close>
  "answers b z \<longleftrightarrow> length z \<le> length b \<and> map tolower (take (length z) b) = map tolower z"

definition shell_reply :: "u8 list \<Rightarrow> u8 list" where
  "shell_reply z = (if answers (bytes ''cd'') z then cd_reply else []) @ (if answers (bytes ''ls'') z then ls_reply else [])
     @ (if answers (bytes ''pwd'') z then newline @ current_directory else [])
     @ (if answers (bytes ''-h'') z then help_ls @ help_pwd @ help_cd else [])"

definition literals_ok :: "'w view \<Rightarrow> (u8 list \<Rightarrow> u32) \<Rightarrow> u32 set \<Rightarrow> 'w user_state \<Rightarrow> bool" where
  "literals_ok v lit B u \<longleftrightarrow> (\<forall>s \<in> set shell_literals. cstr (umem u) (lit s) s
     \<and> span (lit s) (Suc (length s)) \<inter> (B \<union> free_mem v (world u)) = {})"

lemma literal_length: "\<forall>s \<in> set shell_literals. length s < 1024"
  by (simp add: shell_literals_def cd_reply_def ls_reply_def help_ls_def help_pwd_def help_cd_def newline_def current_directory_def)

lemma literals_keep:
  assumes "literals_ok v lit B u" and "\<forall>a. a \<notin> B \<union> free_mem v (world u) \<longrightarrow> umem u' a = umem u a"
    and "free_mem v (world u') \<subseteq> free_mem v (world u)"
  shows "literals_ok v lit B u'"
  unfolding literals_ok_def
proof
  fix s assume s: "s \<in> set shell_literals"
  then have l: "cstr (umem u) (lit s) s" "span (lit s) (Suc (length s)) \<inter> (B \<union> free_mem v (world u)) = {}"
    using assms(1) by (auto simp: literals_ok_def)
  have "cstr (umem u') (lit s) s"
  proof (rule cstr_span [OF l(1)])
    show "umem u' a = umem u a" if "a \<in> span (lit s) (Suc (length s))" for a using that l(2) assms(2) by blast
    show "length s < 4294967295" using s literal_length by fastforce
  qed
  then show "cstr (umem u') (lit s) s \<and> span (lit s) (Suc (length s)) \<inter> (B \<union> free_mem v (world u')) = {}"
    using l(2) assms(3) by blast
qed

lemma answers_run:
  assumes "cstr m p b" and "cstr m q z" and "length b < 1025" "length z < 1025"
  shows "istrncmp_u m p q 1025 = 0 \<longleftrightarrow> answers b z"
proof -
  have "istrncmp_u m p q 1025 = 0 \<longleftrightarrow> map tolower b = map tolower z
      \<or> (length z < length b \<and> map tolower (take (length z) b) = map tolower z)"
    using istrncmp_u_loop_cstr [OF assms(1,2), of 1025] assms(3,4) by (simp add: istrncmp_u_def take_all)
  also have "\<dots> \<longleftrightarrow> answers b z"
  proof -
    have "length b = length z" if "map tolower b = map tolower z" using that by (rule map_eq_imp_length_eq)
    then show ?thesis unfolding answers_def by (auto simp: le_less)
  qed
  finally show ?thesis .
qed

lemma say_run:
  assumes "print_serves int80 v" and "literals_ok v lit B u" and "s \<in> set shell_literals"
  shows "\<exists>w'. print_u int80 (lit s) u = Some (u\<lparr>world := w'\<rparr>) \<and> shows_on v (world u) w' s \<and> literals_ok v lit B (u\<lparr>world := w'\<rparr>)"
proof -
  have c: "cstr (umem u) (lit s) s" "length s < 1024" using assms(2,3) literal_length by (auto simp: literals_ok_def)
  obtain w' where w': "print_u int80 (lit s) u = Some (u\<lparr>world := w'\<rparr>)" "shows_on v (world u) w' s"
    using user_print_run [OF assms(1) c] by blast
  then show ?thesis using literals_keep [OF assms(2), of "u\<lparr>world := w'\<rparr>"] by (auto simp: shows_on_def)
qed

primrec print_all :: "'w int80 \<Rightarrow> (u8 list \<Rightarrow> u32) \<Rightarrow> u8 list list \<Rightarrow> 'w user_state \<Rightarrow> 'w user_state option" where
  "print_all int80 lit [] u = Some u"
| "print_all int80 lit (s # ss) u = do { u \<leftarrow> print_u int80 (lit s) u; print_all int80 lit ss u }"

lemma print_all_run:
  assumes pr: "print_serves int80 v"
  shows "literals_ok v lit B u \<Longrightarrow> set ss \<subseteq> set shell_literals \<Longrightarrow>
    \<exists>w'. print_all int80 lit ss u = Some (u\<lparr>world := w'\<rparr>) \<and> shows_on v (world u) w' (concat ss) \<and> literals_ok v lit B (u\<lparr>world := w'\<rparr>)"
proof (induction ss arbitrary: u)
  case Nil
  then show ?case by (intro exI [of _ "world u"]) (simp add: shows_on_refl)
next
  case (Cons s ss)
  obtain w1 where w1: "print_u int80 (lit s) u = Some (u\<lparr>world := w1\<rparr>)" "shows_on v (world u) w1 s" "literals_ok v lit B (u\<lparr>world := w1\<rparr>)"
    using say_run [OF pr Cons.prems(1), of s] Cons.prems(2) by auto
  obtain w2 where "print_all int80 lit ss (u\<lparr>world := w1\<rparr>) = Some (u\<lparr>world := w2\<rparr>)" "shows_on v w1 w2 (concat ss)"
    "literals_ok v lit B (u\<lparr>world := w2\<rparr>)"
    using Cons.IH [OF w1(3)] Cons.prems(2) by auto
  then show ?case using w1(1,2) shows_on_trans by (intro exI [of _ w2]) (auto intro: shows_on_trans)
qed

lemma reply_run:
  assumes pr: "print_serves int80 v" and lits: "literals_ok v lit B u" and ss: "set ss \<subseteq> set shell_literals"
  shows "\<exists>w'. (if c then print_all int80 lit ss u else Some u) = Some (u\<lparr>world := w'\<rparr>)
    \<and> shows_on v (world u) w' (if c then concat ss else []) \<and> literals_ok v lit B (u\<lparr>world := w'\<rparr>)"
proof (cases c)
  case False
  then show ?thesis using lits by (intro exI [of _ "world u"]) (simp add: shows_on_refl)
qed (use print_all_run [OF pr lits ss] in simp)

lemma parsenexec_alt:
  "parsenexec int80 lit scommand command u =
     do { (p, u) \<leftarrow> peachos_parse_command int80 scommand (lit (bytes '' '')) command 1024 u;
          u \<leftarrow> (if istrncmp_u (umem u) (lit (bytes ''cd'')) p 1025 = 0 then print_all int80 lit [cd_reply] u else Some u);
          u \<leftarrow> (if istrncmp_u (umem u) (lit (bytes ''ls'')) p 1025 = 0 then print_all int80 lit [ls_reply] u else Some u);
          u \<leftarrow> (if istrncmp_u (umem u) (lit (bytes ''pwd'')) p 1025 = 0 then print_all int80 lit [newline, current_directory] u else Some u);
          if istrncmp_u (umem u) (lit (bytes ''-h'')) p 1025 = 0 then print_all int80 lit [help_ls, help_pwd, help_cd] u else Some u }"
  unfolding parsenexec_def print_all.simps bind_runit ..

lemma parsenexec_run:
  assumes pr: "print_serves int80 v" and lits: "literals_ok v lit B u1"
    and parse: "peachos_parse_command int80 scommand (lit (bytes '' '')) command 1024 u = Some (p, u1)"
    and z: "cstr (umem u1) p z" "length z < 1025"
  shows "\<exists>w'. parsenexec int80 lit scommand command u = Some (u1\<lparr>world := w'\<rparr>) \<and> shows_on v (world u1) w' (shell_reply z)
    \<and> literals_ok v lit B (u1\<lparr>world := w'\<rparr>)"
proof -
  have c: "istrncmp_u (umem u1) (lit b) p 1025 = 0 \<longleftrightarrow> answers b z" if b: "b \<in> set shell_literals" for b
  proof (rule answers_run [OF _ z(1) _ z(2)])
    show "cstr (umem u1) (lit b) b" using lits b by (simp add: literals_ok_def)
    show "length b < 1025" using literal_length b by fastforce
  qed
  have lit: "bytes ''cd'' \<in> set shell_literals" "bytes ''ls'' \<in> set shell_literals" "bytes ''pwd'' \<in> set shell_literals"
    "bytes ''-h'' \<in> set shell_literals" "set [cd_reply] \<subseteq> set shell_literals" "set [ls_reply] \<subseteq> set shell_literals"
    "set [newline, current_directory] \<subseteq> set shell_literals" "set [help_ls, help_pwd, help_cd] \<subseteq> set shell_literals"
    by (simp_all add: shell_literals_def)
  obtain w1 where w1: "(if answers (bytes ''cd'') z then print_all int80 lit [cd_reply] u1 else Some u1) = Some (u1\<lparr>world := w1\<rparr>)"
    "shows_on v (world u1) w1 (if answers (bytes ''cd'') z then concat [cd_reply] else [])" "literals_ok v lit B (u1\<lparr>world := w1\<rparr>)"
    using reply_run [OF pr lits lit(5)] by blast
  obtain w2 where w2: "(if answers (bytes ''ls'') z then print_all int80 lit [ls_reply] (u1\<lparr>world := w1\<rparr>) else Some (u1\<lparr>world := w1\<rparr>)) = Some (u1\<lparr>world := w2\<rparr>)"
    "shows_on v w1 w2 (if answers (bytes ''ls'') z then concat [ls_reply] else [])" "literals_ok v lit B (u1\<lparr>world := w2\<rparr>)"
    using reply_run [OF pr w1(3) lit(6), of "answers (bytes ''ls'') z"] by auto
  obtain w3 where w3: "(if answers (bytes ''pwd'') z then print_all int80 lit [newline, current_directory] (u1\<lparr>world := w2\<rparr>) else Some (u1\<lparr>world := w2\<rparr>)) = Some (u1\<lparr>world := w3\<rparr>)"
    "shows_on v w2 w3 (if answers (bytes ''pwd'') z then concat [newline, current_directory] else [])" "literals_ok v lit B (u1\<lparr>world := w3\<rparr>)"
    using reply_run [OF pr w2(3) lit(7), of "answers (bytes ''pwd'') z"] by auto
  obtain w4 where w4: "(if answers (bytes ''-h'') z then print_all int80 lit [help_ls, help_pwd, help_cd] (u1\<lparr>world := w3\<rparr>) else Some (u1\<lparr>world := w3\<rparr>)) = Some (u1\<lparr>world := w4\<rparr>)"
    "shows_on v w3 w4 (if answers (bytes ''-h'') z then concat [help_ls, help_pwd, help_cd] else [])" "literals_ok v lit B (u1\<lparr>world := w4\<rparr>)"
    using reply_run [OF pr w3(3) lit(8), of "answers (bytes ''-h'') z"] by auto
  have um: "umem (u1\<lparr>world := x\<rparr>) = umem u1" for x by simp
  have run: "parsenexec int80 lit scommand command u = Some (u1\<lparr>world := w4\<rparr>)"
    unfolding parsenexec_alt
    by (simp only: parse Option.bind.bind_lunit prod.case um c [OF lit(1)] c [OF lit(2)] c [OF lit(3)] c [OF lit(4)] w1(1) w2(1) w3(1) w4(1))
  have "shell_reply z = ((if answers (bytes ''cd'') z then concat [cd_reply] else []) @ (if answers (bytes ''ls'') z then concat [ls_reply] else []))
      @ (if answers (bytes ''pwd'') z then concat [newline, current_directory] else [])
      @ (if answers (bytes ''-h'') z then concat [help_ls, help_pwd, help_cd] else [])"
    by (simp only: shell_reply_def concat.simps append_Nil2 append_assoc)
  then have "shows_on v (world u1) w4 (shell_reply z)"
    using shows_on_trans [OF shows_on_trans [OF w1(2) w2(2)] shows_on_trans [OF w3(2) w4(2)]] by (simp only: append_assoc)
  then show ?thesis using run w4(3) by blast
qed

definition shell_ready :: "'w view \<Rightarrow> (u8 list \<Rightarrow> u32) \<Rightarrow> u32 \<Rightarrow> u32 \<Rightarrow> 'w user_state \<Rightarrow> bool" where
  \<comment> \<open>the shell before a round: its buffers, its literals and the memory of the heap lie apart\<close>
  "shell_ready v lit scommand buf u \<longleftrightarrow> literals_ok v lit (span scommand 1025 \<union> span buf 1024) u
     \<and> free_mem v (world u) \<inter> (span scommand 1025 \<union> span buf 1024) = {} \<and> span scommand 1025 \<inter> span buf 1024 = {}
     \<and> scommand \<noteq> 0 \<and> unat scommand + 1025 \<le> 4294967296 \<and> strtok_sp u = 0"

definition compared :: "'w view \<Rightarrow> u32 set \<Rightarrow> 'w user_state \<Rightarrow> u8 list list \<Rightarrow> u8 list \<Rightarrow> bool" where
  \<comment> \<open>the string the shell compares with its commands: the first word, or for want of one whatever lies at address 0\<close>
  "compared v B u words z \<longleftrightarrow> (case words of w # ws \<Rightarrow> z = take 511 w
     | [] \<Rightarrow> cstr (umem u) 0 z \<and> length z < 1025 \<and> span 0 (Suc (length z)) \<inter> (B \<union> free_mem v (world u)) = {})"

lemma shell_round_run:
  fixes u :: "'w user_state"
  assumes serves: "print_serves int80 v" "getkey_serves int80 v" "putchar_serves int80 v" "malloc_serves int80 v"
    and ready: "shell_ready v lit scommand buf u"
    and keys: "typed (polls v (world u)) (ks @ [13]) h" "13 \<notin> set ks" "fits 1024 [] ks"
    and words: "tokens {32} (foldl edit [] ks) = words" "length words \<le> avail v (world u)"
    and z: "compared v (span scommand 1025 \<union> span buf 1024) u words z"
  shows "\<exists>u'. shell_round int80 lit scommand buf u = Some u'
    \<and> shown v (world u') = shown v (world u) @ current_directory @ bytes ''> '' @ ks @ shell_reply z @ newline
    \<and> polls v (world u') = h \<and> avail v (world u') = avail v (world u) - length words \<and> shell_ready v lit scommand buf u'"
proof -
  let ?S = "span scommand 1025" and ?B = "span scommand 1025 \<union> span buf 1024" and ?line = "foldl edit [] ks"
  let ?F = "free_mem v (world u)"
  note rd = ready [unfolded shell_ready_def]
  have lits: "literals_ok v lit ?B u" using rd by blast
  have lit: "bytes ''> '' \<in> set shell_literals" "newline \<in> set shell_literals" "current_directory \<in> set shell_literals"
    "bytes '' '' \<in> set shell_literals" by (simp_all add: shell_literals_def)
  obtain w1 where w1: "print_u int80 (lit current_directory) u = Some (u\<lparr>world := w1\<rparr>)" "shows_on v (world u) w1 current_directory"
    "literals_ok v lit ?B (u\<lparr>world := w1\<rparr>)" using say_run [OF serves(1) lits lit(3)] by blast
  obtain w2 where w2: "print_u int80 (lit (bytes ''> '')) (u\<lparr>world := w1\<rparr>) = Some (u\<lparr>world := w2\<rparr>)" "shows_on v w1 w2 (bytes ''> '')"
    "literals_ok v lit ?B (u\<lparr>world := w2\<rparr>)" using say_run [OF serves(1) w1(3) lit(1)] by auto
  have s2: "shown v w2 = shown v (world u) @ current_directory @ bytes ''> ''" "polls v w2 = polls v (world u)"
    "free_mem v w2 = ?F" "avail v w2 = avail v (world u)"
    using w1(2) w2(2) by (simp_all add: shows_on_def)
  have k2: "typed (polls v (world (u\<lparr>world := w2\<rparr>))) (ks @ [13]) h" using keys(1) s2(2) by simp
  obtain m3 w3 where r3: "peachos_terminal_readline int80 buf 1024 True (u\<lparr>world := w2\<rparr>) = Some (u\<lparr>umem := m3, world := w3\<rparr>)"
    "cstr m3 buf ?line" "\<forall>a. 1024 \<le> unat (a - buf) \<longrightarrow> m3 a = umem u a" "polls v w3 = h"
    "shown v w3 = shown v w2 @ ks" "free_mem v w3 = ?F" "avail v w3 = avail v (world u)"
    using readline_run [OF serves(2,3) _ k2 keys(2,3), of buf True] s2(3,4) by (auto simp: user_swap)
  let ?u3 = "u\<lparr>umem := m3, world := w3\<rparr>"
  have m3: "m3 a = umem u a" if "a \<notin> span buf 1024" for a using r3(3) that by (simp add: span_def)
  have lits3: "literals_ok v lit ?B ?u3" by (rule literals_keep [OF lits]) (use m3 r3(6) in auto)
  have line: "length ?line < 1023" using keys(3) by (auto simp: fits_def)
  have space: "cstr (umem ?u3) (lit (bytes '' '')) (bytes '' '')"
    "span (lit (bytes '' '')) (Suc (length (bytes '' ''))) \<inter> (?B \<union> ?F) = {}"
    using lits3 lit(4) r3(6) unfolding literals_ok_def by (simp_all del: bytes_simps) 
  have one: "bytes '' '' = [32]" "Suc (length (bytes '' '')) = 2" by simp_all
  have ap: "apart_from v ?u3 ?S (lit (bytes '' ''))"
  proof -
    have sp: "span (lit (bytes '' '')) 2 \<inter> (?B \<union> ?F) = {}" using space(2) by (simp only: one(2))
    have cs: "cstr (umem ?u3) (lit (bytes '' '')) [32]" using space(1) by (simp only: one(1))
    have "?F \<inter> ?S = {}" "span (lit (bytes '' '')) 2 \<inter> (?S \<union> ?F) = {}" using sp rd by blast+
    then show ?thesis using cs r3(6) by (simp add: apart_from_def del: bytes_simps cstr.simps)
  qed
  have off: "span buf (Suc (length ?line)) \<inter> ?S = {}"
  proof -
    have "span buf (Suc (length ?line)) \<subseteq> span buf 1024" using line by (auto simp: span_def)
    then show ?thesis using rd by blast
  qed
  have c3: "cstr (umem ?u3) buf ?line" "strtok_sp ?u3 = 0" "length ?line \<le> 1024" using r3(2) rd line by simp_all
  obtain p u4 where u4: "peachos_parse_command int80 scommand (lit (bytes '' '')) buf 1024 ?u3 = Some (p, u4)"
    "argument_chain (umem u4) p (take (avail v (world u)) (map (take 511) words))"
    "strtok_sp u4 = 0" "quiet v ?u3 u4" "avail v (world u4) = avail v (world u) - length words"
    "\<forall>a. a \<notin> ?S \<union> ?F \<longrightarrow> umem u4 a = m3 a"
    using parse_command_run [OF serves(4) ap c3(1,3) off _ _ c3(2), of 1024] words r3(6,7) rd by (auto simp: as_u32_def)
  have all: "take (avail v (world u)) (map (take 511) words) = map (take 511) words" using words(2) by simp
  have z4: "cstr (umem u4) p z" "length z < 1025"
  proof -
    show "cstr (umem u4) p z"
    proof (cases words)
      case (Cons w ws)
      then show ?thesis using u4(2) z unfolding all by (simp add: compared_def)
    next
      case Nil
      then have p: "p = 0" and c: "cstr (umem u) 0 z" "length z < 1025" "span 0 (Suc (length z)) \<inter> (?B \<union> ?F) = {}"
        using u4(2) z by (simp_all add: compared_def)
      show ?thesis unfolding p
      proof (rule cstr_span [OF c(1)])
        fix a assume "a \<in> span 0 (Suc (length z))"
        then have "a \<notin> ?S \<union> ?F" "a \<notin> span buf 1024" using c(3) by blast+
        then show "umem u4 a = umem u a" using u4(6) m3 by simp
      qed (use c(2) in simp)
    qed
    show "length z < 1025" using z by (auto simp: compared_def split: list.splits)
  qed
  have lits4: "literals_ok v lit ?B u4"
    by (rule literals_keep [OF lits3]) (use u4(4,6) r3(6) in \<open>auto simp: quiet_def\<close>)
  obtain w5 where w5: "parsenexec int80 lit scommand buf ?u3 = Some (u4\<lparr>world := w5\<rparr>)" "shows_on v (world u4) w5 (shell_reply z)"
    "literals_ok v lit ?B (u4\<lparr>world := w5\<rparr>)"
    using parsenexec_run [OF serves(1) lits4 u4(1) z4] by blast
  obtain w6 where w6: "print_u int80 (lit newline) (u4\<lparr>world := w5\<rparr>) = Some (u4\<lparr>world := w6\<rparr>)" "shows_on v w5 w6 newline"
    "literals_ok v lit ?B (u4\<lparr>world := w6\<rparr>)" using say_run [OF serves(1) w5(3) lit(2)] by auto
  have run: "shell_round int80 lit scommand buf u = Some (u4\<lparr>world := w6\<rparr>)"
    by (simp only: shell_round_def w1(1) w2(1) r3(1) w5(1) w6(1) Option.bind.bind_lunit)
  have s6: "shown v w6 = shown v (world u) @ current_directory @ bytes ''> '' @ ks @ shell_reply z @ newline"
    "polls v w6 = h" "avail v w6 = avail v (world u) - length words" "free_mem v w6 \<subseteq> ?F"
    using w5(2) w6(2) u4(4,5) r3(4-6) s2(1) by (simp_all add: shows_on_def quiet_def)
  have "shell_ready v lit scommand buf (u4\<lparr>world := w6\<rparr>)"
  proof -
    have "free_mem v w6 \<inter> ?B = {}" using s6(4) rd by blast
    then show ?thesis using w6(3) rd u4(3) by (simp add: shell_ready_def)
  qed
  then show ?thesis using run s6(1-3) by (intro exI [of _ "u4\<lparr>world := w6\<rparr>"]) (simp del: bytes_simps)
qed

subsection \<open>A session\<close>

definition line_words :: "u8 list \<Rightarrow> u8 list list" where
  "line_words ks = tokens {32} (foldl edit [] ks)"

definition round_text :: "u8 list \<Rightarrow> u8 list" where
  \<comment> \<open>what the screen shows for one line of keys: the prompt, the echo, the reply\<close>
  "round_text ks = current_directory @ bytes ''> '' @ ks @ shell_reply (take 511 (hd (line_words ks))) @ newline"

definition good_line :: "u8 list \<Rightarrow> bool" where
  "good_line ks \<longleftrightarrow> 13 \<notin> set ks \<and> fits 1024 [] ks \<and> line_words ks \<noteq> []"

lemma shell_rounds_run:
  fixes u :: "'w user_state"
  assumes serves: "print_serves int80 v" "getkey_serves int80 v" "putchar_serves int80 v" "malloc_serves int80 v"
  shows "shell_ready v lit scommand buf u \<Longrightarrow> typed (polls v (world u)) (concat (map (\<lambda>ks. ks @ [13]) lines)) h \<Longrightarrow>
    \<forall>ks \<in> set lines. good_line ks \<Longrightarrow> sum_list (map (\<lambda>ks. length (line_words ks)) lines) \<le> avail v (world u) \<Longrightarrow>
    \<exists>u'. shell_rounds int80 lit scommand buf (length lines) u = Some u'
      \<and> shown v (world u') = shown v (world u) @ concat (map round_text lines) \<and> shell_ready v lit scommand buf u'"
proof (induction lines arbitrary: u)
  case Nil
  then show ?case by simp
next
  case (Cons ks lines)
  obtain h' where h': "typed (polls v (world u)) (ks @ [13]) h'" "typed h' (concat (map (\<lambda>ks. ks @ [13]) lines)) h"
  proof -
    have "typed (polls v (world u)) ((ks @ [13]) @ concat (map (\<lambda>ks. ks @ [13]) lines)) h"
      using Cons.prems(2) by (simp only: list.map concat.simps)
    then show ?thesis using that iffD1 [OF typed_append] by blast
  qed
  have good: "13 \<notin> set ks" "fits 1024 [] ks" "line_words ks \<noteq> []" using Cons.prems(3) by (simp_all add: good_line_def)
  have enough: "length (line_words ks) \<le> avail v (world u)" using Cons.prems(4) by simp
  have z: "compared v (span scommand 1025 \<union> span buf 1024) u (line_words ks) (take 511 (hd (line_words ks)))"
    using good(3) by (cases "line_words ks") (simp_all add: compared_def)
  obtain u1 where u1: "shell_round int80 lit scommand buf u = Some u1" "shown v (world u1) = shown v (world u) @ round_text ks"
    "polls v (world u1) = h'" "avail v (world u1) = avail v (world u) - length (line_words ks)" "shell_ready v lit scommand buf u1"
    using shell_round_run [OF serves Cons.prems(1) h'(1) good(1,2) _ enough z] unfolding line_words_def [symmetric] round_text_def by auto
  obtain u2 where "shell_rounds int80 lit scommand buf (length lines) u1 = Some u2"
    "shown v (world u2) = shown v (world u1) @ concat (map round_text lines)" "shell_ready v lit scommand buf u2"
  proof -
    have "typed (polls v (world u1)) (concat (map (\<lambda>ks. ks @ [13]) lines)) h" "\<forall>ks \<in> set lines. good_line ks"
      "sum_list (map (\<lambda>ks. length (line_words ks)) lines) \<le> avail v (world u1)"
      using h'(2) u1(3,4) Cons.prems(3,4) by simp_all
    then show ?thesis using that Cons.IH [OF u1(5)] by blast
  qed
  then show ?case using u1(1,2) by simp
qed

text \<open>
  C23: a session at the shell.  However slowly the lines are typed, the shell shows for each the prompt, the echo of the
  keys and the replies of the built-in commands that begin with the first word, up to the case of letters; after each it is
  ready for the next, as long as \<^verbatim>\<open>malloc\<close> serves one request for each word: the words are never freed.
\<close>
theorem shell_session_spec:
  assumes "print_serves int80 v" "getkey_serves int80 v" "putchar_serves int80 v" "malloc_serves int80 v"
    and "shell_ready v lit scommand buf u" and "typed (polls v (world u)) (concat (map (\<lambda>ks. ks @ [13]) lines)) h"
    and "\<forall>ks \<in> set lines. good_line ks" and "sum_list (map (\<lambda>ks. length (line_words ks)) lines) \<le> avail v (world u)"
  shows "\<exists>u'. shell_rounds int80 lit scommand buf (length lines) u = Some u'
    \<and> shown v (world u') = shown v (world u) @ concat (map round_text lines) \<and> shell_ready v lit scommand buf u'"
  by (rule shell_rounds_run [OF assms])

text \<open>
  C27: a blank line.  The parser returns the null pointer, and the shell compares its commands with the bytes at address 0
  all the same: if the first of them is 0, every built-in command answers.
\<close>
theorem shell_blank_line:
  assumes "print_serves int80 v" "getkey_serves int80 v" "putchar_serves int80 v" "malloc_serves int80 v"
    and "shell_ready v lit scommand buf u" and "typed (polls v (world u)) (ks @ [13]) h" "13 \<notin> set ks" "fits 1024 [] ks"
    and "line_words ks = []" and "umem u 0 = 0" "0 \<notin> span scommand 1025 \<union> span buf 1024 \<union> free_mem v (world u)"
  shows "\<exists>u'. shell_round int80 lit scommand buf u = Some u'
    \<and> shown v (world u') = shown v (world u) @ current_directory @ bytes ''> '' @ ks @ (cd_reply @ ls_reply @ newline @ current_directory
        @ help_ls @ help_pwd @ help_cd) @ newline"
proof -
  have "a = 0" if "a \<in> span 0 (Suc (length []))" for a using that by (simp add: span_def unat_eq_zero)
  then have "span 0 (Suc (length [])) \<inter> (span scommand 1025 \<union> span buf 1024 \<union> free_mem v (world u)) = {}" using assms(11) by blast
  then have z: "compared v (span scommand 1025 \<union> span buf 1024) u [] []" using assms(10) by (simp add: compared_def)
  have "shell_reply [] = cd_reply @ ls_reply @ newline @ current_directory @ help_ls @ help_pwd @ help_cd"
    by (simp add: shell_reply_def answers_def)
  then show ?thesis
    using shell_round_run [OF assms(1-8) assms(9) [unfolded line_words_def] _ z] by auto
qed

subsection \<open>A shell in memory\<close>

text \<open>The literals lie at \<^verbatim>\<open>0x20000\<close>, 256 bytes apart.\<close>

definition literal_no :: "u8 list \<Rightarrow> nat" where
  "literal_no s = length (takeWhile (\<lambda>t. t \<noteq> s) shell_literals)"

definition test_lit :: "u8 list \<Rightarrow> u32" where
  "test_lit s = 0x20000 + of_nat (256 * literal_no s)"

definition literal_bytes :: mem where
  "literal_bytes a = (let n = unat (a - 0x20000); s = shell_literals ! (n div 256)
     in if n < 256 * length shell_literals \<and> n mod 256 < length s then s ! (n mod 256) else 0)"

definition test_shell :: "u8 list \<Rightarrow> test_world user_state" where
  "test_shell keys = \<lparr>umem = literal_bytes, strtok_sp = 0,
     world = \<lparr>tw_blocks = 0, tw_shown = [], tw_polls = (\<lambda>n. if n < length keys then keys ! n else 0)\<rparr>\<rparr>"

lemma literal_facts: "\<forall>s \<in> set shell_literals. length s < 256 \<and> 0 \<notin> set s"
  by (simp add: shell_literals_def cd_reply_def ls_reply_def help_ls_def help_pwd_def help_cd_def newline_def current_directory_def)

lemma literal_no:
  assumes "s \<in> set shell_literals"
  shows "literal_no s < length shell_literals" "shell_literals ! literal_no s = s"
proof -
  have "takeWhile (\<lambda>t. t \<noteq> s) shell_literals \<noteq> shell_literals" using assms by (metis (mono_tags) set_takeWhileD)
  then show l: "literal_no s < length shell_literals"
    unfolding literal_no_def by (metis length_takeWhile_le le_neq_implies_less take_all takeWhile_eq_take order_refl)
  then show "shell_literals ! literal_no s = s"
    using nth_length_takeWhile [of "\<lambda>t. t \<noteq> s" shell_literals] by (simp add: literal_no_def)
qed

lemma literal_span:
  assumes "s \<in> set shell_literals" and "a \<in> span (test_lit s) (Suc (length s))"
  shows "0x20000 \<le> unat a \<and> unat a < 0x30000"
proof -
  have n: "literal_no s < 13" using literal_no(1) [OF assms(1)] by (simp add: shell_literals_def)
  have l: "length s < 256" using literal_facts assms(1) by blast
  let ?o = "unat (a - test_lit s)"
  have off: "?o \<le> length s" using assms(2) by (simp add: span_def)
  have e: "a = 0x20000 + of_nat (256 * literal_no s + ?o)" by (simp add: test_lit_def)
  have "unat (0x20000 + of_nat m :: u32) = 0x20000 + m" if "m < 65536" for m using that by (simp add: unat_add32 unat_of_nat32)
  from this [of "256 * literal_no s + ?o"] arg_cong [OF e, of unat] have "unat a = 0x20000 + (256 * literal_no s + ?o)"
    using n l off by linarith
  then show ?thesis using n l off by simp
qed

lemma literal_cstr:
  assumes s: "s \<in> set shell_literals"
  shows "cstr literal_bytes (test_lit s) s"
proof -
  have n: "literal_no s < 13" "literal_no s < length shell_literals" "shell_literals ! literal_no s = s"
    using literal_no [OF s] by (simp_all add: shell_literals_def)
  have l: "length s < 256" "0 \<notin> set s" using literal_facts s by blast+
  have at: "literal_bytes (test_lit s + of_nat i) = (if i < length s then s ! i else 0)" if "i \<le> length s" for i
  proof -
    have e: "test_lit s + of_nat i - 0x20000 = of_nat (256 * literal_no s + i)" by (simp add: test_lit_def)
    have off: "unat (test_lit s + of_nat i - 0x20000) = 256 * literal_no s + i"
      unfolding e by (rule unat_of_nat32) (use n(1) l(1) that in linarith)
    have dm: "(256 * literal_no s + i) div 256 = literal_no s" "(256 * literal_no s + i) mod 256 = i" using l(1) that by simp_all
    have "256 * literal_no s + i < 256 * length shell_literals" using n(2) l(1) that by linarith
    then show ?thesis by (simp only: literal_bytes_def Let_def off dm n(3) simp_thms)
  qed
  have "s ! i \<noteq> 0" if "i < length s" for i using l(2) that by (metis nth_mem)
  then show ?thesis unfolding cstr_iff using at by simp
qed

lemma low_span: "a \<in> span p n \<Longrightarrow> unat p + n \<le> 4294967296 \<Longrightarrow> unat p \<le> unat a \<and> unat a < unat p + n"
  using unat_sub32 [of a p] unat_bound32 [of a] by (auto simp: span_def split: if_splits)

lemma test_shell_ready: "shell_ready test_view test_lit 0x1000 0x2000 (test_shell keys)"
proof -
  have b: "unat a < 0x20000" if "a \<in> span 0x1000 1025 \<union> span 0x2000 1024" for a :: u32
    using that low_span [of a "0x1000" 1025] low_span [of a "0x2000" 1024] by auto
  have f: "0x10000000 \<le> unat a" if "a \<in> free_mem test_view (world (test_shell keys))" for a
    using that by (simp add: test_view_def test_shell_def)
  have "literals_ok test_view test_lit (span 0x1000 1025 \<union> span 0x2000 1024) (test_shell keys)"
    unfolding literals_ok_def
  proof
    fix s assume s: "s \<in> set shell_literals"
    have "cstr (umem (test_shell keys)) (test_lit s) s" using literal_cstr [OF s] by (simp add: test_shell_def)
    moreover have "a \<notin> span 0x1000 1025 \<union> span 0x2000 1024 \<union> free_mem test_view (world (test_shell keys))"
      if "a \<in> span (test_lit s) (Suc (length s))" for a
      using literal_span [OF s that] b [of a] f [of a] by (auto simp del: Un_iff)
    ultimately show "cstr (umem (test_shell keys)) (test_lit s) s
        \<and> span (test_lit s) (Suc (length s)) \<inter> (span 0x1000 1025 \<union> span 0x2000 1024 \<union> free_mem test_view (world (test_shell keys))) = {}"
      by blast
  qed
  moreover have "free_mem test_view (world (test_shell keys)) \<inter> (span 0x1000 1025 \<union> span 0x2000 1024) = {}"
    using b f by fastforce
  moreover have "span 0x1000 1025 \<inter> span (0x2000 :: u32) 1024 = {}"
    using low_span [of _ "0x1000" 1025] low_span [of _ "0x2000" 1024] by fastforce
  ultimately show ?thesis by (simp add: shell_ready_def test_shell_def)
qed

lemma typed_now: "0 \<notin> set keys \<Longrightarrow> typed (\<lambda>n. if n < length keys then keys ! n else 0) keys (\<lambda>_. 0)"
proof (induction keys)
  case (Cons k ks)
  have "(\<lambda>i. if Suc 0 + i < length (k # ks) then (k # ks) ! (Suc 0 + i) else 0) = (\<lambda>n. if n < length ks then ks ! n else 0)"
    by (simp add: fun_eq_iff)
  then show ?case using Cons unfolding typed.simps by (intro conjI exI [of _ 0]) simp_all
qed simp

theorem shell_session_spec_witness:
  "\<exists>u'. shell_rounds test_int80 test_lit 0x1000 0x2000 2 (test_shell [76, 83, 13, 99, 13]) = Some u'
    \<and> tw_shown (world u') = (current_directory @ bytes ''> '' @ [76, 83] @ ls_reply @ newline)
        @ current_directory @ bytes ''> '' @ [99] @ cd_reply @ newline"
proof -
  let ?u = "test_shell [76, 83, 13, 99, 13]" and ?lines = "[[76, 83], [99]] :: u8 list list"
  have keys: "concat (map (\<lambda>ks. ks @ [13]) ?lines) = [76, 83, 13, 99, 13]" by simp
  have polls: "polls test_view (world ?u) = (\<lambda>n. if n < length [76, 83, 13, 99, 13 :: u8] then [76, 83, 13, 99, 13] ! n else 0)"
    by (simp add: test_view_def test_shell_def)
  have typed: "typed (polls test_view (world ?u)) (concat (map (\<lambda>ks. ks @ [13]) ?lines)) (\<lambda>_. 0)"
    unfolding keys polls by (rule typed_now) simp
  have words: "line_words [76, 83] = [[76, 83]]" "line_words [99] = [[99]]"
    by (simp_all add: line_words_def edit_def tokens.simps)
  have good: "\<forall>ks \<in> set ?lines. good_line ks" by (simp add: good_line_def words line_fits_Cons edit_def) (simp add: fits_def)
  have sum: "sum_list (map (\<lambda>ks. length (line_words ks)) ?lines) \<le> avail test_view (world ?u)"
    by (simp add: words test_view_def test_shell_def)
  have "tolower 76 = 108" "tolower 83 = 115" "tolower 99 = 99" "tolower 108 = 108" "tolower 112 = 112" "tolower 119 = 119" "tolower 45 = 45" "tolower 115 = 115"
    by (simp_all add: tolower_def sgn_char_def)
  then have reply: "shell_reply [76, 83] = ls_reply" "shell_reply [99] = cd_reply"
    by (simp_all add: shell_reply_def answers_def)
  have screen: "concat (map round_text ?lines) = (current_directory @ bytes ''> '' @ [76, 83] @ ls_reply @ newline)
        @ current_directory @ bytes ''> '' @ [99] @ cd_reply @ newline"
    by (simp add: round_text_def words reply del: bytes_simps)
  obtain u' where "shell_rounds test_int80 test_lit 0x1000 0x2000 (length ?lines) ?u = Some u'"
    "shown test_view (world u') = shown test_view (world ?u) @ concat (map round_text ?lines)"
    using shell_session_spec [OF test_print test_getkey test_putchar test_malloc test_shell_ready typed good sum] by blast
  moreover have "length ?lines = 2" "shown test_view (world ?u) = []" by (simp_all add: test_view_def test_shell_def)
  ultimately show ?thesis unfolding screen by (intro exI [of _ u']) (simp add: test_view_def numeral_2_eq_2 del: bytes_simps)
qed

theorem shell_blank_line_witness:
  "\<exists>u'. shell_round test_int80 test_lit 0x1000 0x2000 (test_shell [32, 13]) = Some u'
    \<and> tw_shown (world u') = current_directory @ bytes ''> '' @ [32] @ (cd_reply @ ls_reply @ newline @ current_directory
        @ help_ls @ help_pwd @ help_cd) @ newline"
proof -
  let ?u = "test_shell [32, 13]"
  have polls: "polls test_view (world ?u) = (\<lambda>n. if n < length [32, 13 :: u8] then [32, 13] ! n else 0)"
    by (simp add: test_view_def test_shell_def)
  have "typed (polls test_view (world ?u)) [32, 13] (\<lambda>_. 0)" unfolding polls by (rule typed_now) simp
  then have typed: "typed (polls test_view (world ?u)) ([32] @ [13]) (\<lambda>_. 0)" by (simp only: append_Cons append_Nil)
  have words: "line_words [32] = []" by (simp add: line_words_def edit_def tokens.simps)
  have fit: "fits 1024 [] [32]" by (simp add: line_fits_Cons edit_def) (simp add: fits_def)
  have zero: "umem ?u 0 = 0" by (simp add: test_shell_def literal_bytes_def unat_sub32 shell_literals_def Let_def)
  have "0 \<notin> span 0x1000 1025 \<union> span 0x2000 1024 \<union> free_mem test_view (world ?u)"
    by (simp add: span_def unat_sub32 test_view_def)
  from shell_blank_line [OF test_print test_getkey test_putchar test_malloc test_shell_ready typed _ fit words zero this]
  show ?thesis by (simp add: test_view_def del: bytes_simps) (simp add: test_shell_def del: bytes_simps)
qed

end
