(* ===== verification/FileDriver.thy ===== *)
theory FileDriver
  imports File Room
begin

text \<open>
  The contract between the file layer and a filesystem behind it, and what the calls of
  \<^verbatim>\<open>file.c\<close> achieve on a filesystem that keeps it: a file can be opened by its path, its size asked for, its
  contents read into a fresh buffer, and closed again.
\<close>

subsection \<open>What the calls leave alone\<close>

text \<open>
  \<open>paths_only\<close>: only memory and the objects of parsed paths differ.  \<open>driver_only\<close>: only memory, the drive and the
  streams on it.  \<open>same_io\<close>: nothing of the disk differs.
\<close>

definition paths_only :: "'a path_state_scheme \<Rightarrow> 'a path_state_scheme \<Rightarrow> bool" where
  "paths_only k k' \<longleftrightarrow> k' = k\<lparr>ram := ram k', path_roots := path_roots k', path_parts := path_parts k'\<rparr>"

definition driver_only :: "'a io_state_scheme \<Rightarrow> 'a io_state_scheme \<Rightarrow> bool" where
  "driver_only k k' \<longleftrightarrow> k' = k\<lparr>ram := ram k', drive := drive k', streams := streams k'\<rparr>"

definition same_io :: "'a io_state_scheme \<Rightarrow> 'a io_state_scheme \<Rightarrow> bool" where
  "same_io k k' \<longleftrightarrow> drive k' = drive k \<and> streams k' = streams k \<and> the_disk k' = the_disk k \<and> disk_addr k' = disk_addr k"

lemma paths_only_iff:
  "paths_only k k' \<longleftrightarrow> kernel_heap k' = kernel_heap k \<and> current_directory k' = current_directory k \<and> cr3 k' = cr3 k \<and> drive k' = drive k \<and> the_disk k' = the_disk k
     \<and> disk_addr k' = disk_addr k \<and> streams k' = streams k \<and> path_state.more k' = path_state.more k"
  unfolding paths_only_def by (cases k; cases k') auto

lemma driver_only_iff:
  "driver_only k k' \<longleftrightarrow> kernel_heap k' = kernel_heap k \<and> current_directory k' = current_directory k \<and> cr3 k' = cr3 k \<and> the_disk k' = the_disk k \<and> disk_addr k' = disk_addr k
     \<and> io_state.more k' = io_state.more k"
  unfolding driver_only_def by (cases k; cases k') auto

lemma paths_only_refl [simp]: "paths_only k k" by (simp add: paths_only_iff)
lemma paths_only_trans: "paths_only k k' \<Longrightarrow> paths_only k' k'' \<Longrightarrow> paths_only k k''" by (simp add: paths_only_iff)
lemma same_io_refl [simp]: "same_io k k" by (simp add: same_io_def)
lemma same_io_trans: "same_io k k' \<Longrightarrow> same_io k' k'' \<Longrightarrow> same_io k k''" by (simp add: same_io_def)
lemma paths_only_io: "paths_only k k' \<Longrightarrow> same_io k k'" by (simp add: paths_only_iff same_io_def)

lemma paths_only_upd [simp]:
  "paths_only k (k\<lparr>ram := m\<rparr>)" "paths_only k (k\<lparr>path_roots := x\<rparr>)" "paths_only k (k\<lparr>path_parts := y\<rparr>)"
  "paths_only k (k'\<lparr>ram := m\<rparr>) = paths_only k k'" "paths_only k (k'\<lparr>path_roots := x\<rparr>) = paths_only k k'"
  "paths_only k (k'\<lparr>path_parts := y\<rparr>) = paths_only k k'" "paths_only (k\<lparr>ram := m\<rparr>) k' = paths_only k k'"
  "paths_only (k\<lparr>path_roots := x\<rparr>) k' = paths_only k k'" "paths_only (k\<lparr>path_parts := y\<rparr>) k' = paths_only k k'"
  by (cases k; cases k'; simp add: paths_only_iff)+

lemma paths_only_kzalloc: "kzalloc sz k = (p, k') \<Longrightarrow> paths_only k k'"
  using kzalloc_ram [of sz k p k'] paths_only_upd(1) by metis

lemma paths_only_kfree [simp]: "paths_only k (kfree p k') = paths_only k k'"
  by (subst kfree_ram) simp

lemma parse_path_part_only:
  fixes k :: "'a path_state_scheme"
  assumes "pathparser_parse_path_part l p k = Some (q, p', k')"
  shows "paths_only k k'"
proof -
  obtain b k1 where k1: "kzalloc (as_u32 108) k = (b, k1)" by fastforce
  note o1 = paths_only_kzalloc [OF k1]
  have part: "paths_only k k2" if "pathparser_get_path_part p k = Some (s, p2, k2)" for s p2 k2
    using that o1 by (auto simp: pathparser_get_path_part_def k1 bind_eq_Some_conv Let_def split: if_splits)
  show ?thesis
  proof (cases "pathparser_get_path_part p k")
    case None
    then show ?thesis using assms by (simp add: pathparser_parse_path_part_def)
  next
    case (Some x)
    obtain s p2 k2 where x: "x = (s, p2, k2)" by (cases x)
    obtain c k3 where k3: "kzalloc 8 k2 = (c, k3)" by fastforce
    have "paths_only k k3" using paths_only_trans [OF part paths_only_kzalloc [OF k3]] Some x by simp
    then show ?thesis
      using assms part Some x by (auto simp: pathparser_parse_path_part_def k3 Let_def split: if_splits)
  qed
qed

lemma parse_parts_loop_only:
  "parse_parts_loop q p k = Some k' \<Longrightarrow> paths_only k k'"
proof (induction rule: parse_parts_loop.raw_induct [rotated 1, consumes 1, case_names step])
  case (step loop q p k k')
  then show ?case
    by (auto split: if_splits simp: bind_eq_Some_conv) (metis parse_path_part_only paths_only_trans)
qed

lemma parse_only:
  assumes "pathparser_parse p k = Some (root, k')"
  shows "paths_only k k'"
proof -
  obtain res tmp where d: "pathparser_get_drive_by_path (ram k) p = (res, tmp)" by fastforce
  obtain b k1 where k1: "kzalloc 8 k = (b, k1)" by fastforce
  define k2 where "k2 = k1\<lparr>path_roots := (path_roots k1)(b := \<lparr>drive_no = res, first_part = 0\<rparr>)\<rparr>"
  have root: "pathparser_create_root res k = (b, k2)" by (simp add: pathparser_create_root_def k1 k2_def)
  have k2: "paths_only k k2" using paths_only_kzalloc [OF k1] by (simp add: k2_def)
  have parts: "paths_only k k'" if "pathparser_parse_path_part 0 tmp k2 = Some (f, t, k3)"
    "pathparser_parse_path_part f t (k3\<lparr>path_roots := x\<rparr>) = Some (q, t', k4)" "parse_parts_loop q t' k4 = Some k'" for f t k3 x q t' k4
    using paths_only_trans [OF k2 parse_path_part_only [OF that(1)]] parse_path_part_only [OF that(2)] parse_parts_loop_only [OF that(3)]
    by (simp add: paths_only_trans)
  have short: "paths_only k k3" if "pathparser_parse_path_part 0 tmp k2 = Some (f, t, k3)" for f t k3
    by (rule paths_only_trans [OF k2 parse_path_part_only [OF that]])
  obtain len where len: "strlen (ram k) p = Some len" using assms by (auto simp: pathparser_parse_def bind_eq_Some_conv)
  show ?thesis
  proof (cases "len > 108 \<or> res < 0 \<or> b = 0")
    case True
    then show ?thesis using assms k2 by (auto simp: pathparser_parse_def len d root Let_def split: if_splits)
  next
    case False
    then obtain f t k3 where f: "pathparser_parse_path_part 0 tmp k2 = Some (f, t, k3)"
      using assms by (auto simp: pathparser_parse_def len d root Let_def bind_eq_Some_conv)
    show ?thesis
    proof (cases "f = 0")
      case True
      then show ?thesis using False assms short [OF f] by (simp add: pathparser_parse_def len d root f)
    next
      case fz: False
      then show ?thesis
        using False assms parts [OF f] by (auto simp: pathparser_parse_def len d root f bind_eq_Some_conv)
    qed
  qed
qed


definition file_only :: "'a file_state_scheme \<Rightarrow> 'a file_state_scheme \<Rightarrow> bool" where
  \<comment> \<open>neither the disk's description, the table of filesystems nor what lies above the file layer differs\<close>
  "file_only k k' \<longleftrightarrow> kernel_heap k' = kernel_heap k \<and> current_directory k' = current_directory k \<and> cr3 k' = cr3 k
     \<and> the_disk k' = the_disk k \<and> disk_addr k' = disk_addr k \<and> filesystems k' = filesystems k \<and> file_state.more k' = file_state.more k"

lemma file_only_trans: "file_only k k' \<Longrightarrow> file_only k' k'' \<Longrightarrow> file_only k k''" by (simp add: file_only_def)

lemma paths_only_file: "paths_only k k' \<Longrightarrow> file_only k k' \<and> file_descriptors k' = file_descriptors k \<and> fdescs k' = fdescs k"
  for k :: "'a file_state_scheme"
  unfolding paths_only_iff file_only_def by (cases k; cases k') auto

lemma driver_only_file: "driver_only k k' \<Longrightarrow> file_only k k' \<and> file_descriptors k' = file_descriptors k \<and> fdescs k' = fdescs k
    \<and> path_roots k' = path_roots k \<and> path_parts k' = path_parts k"
  for k :: "'a file_state_scheme"
  unfolding driver_only_iff file_only_def by (cases k; cases k') auto

lemma kzalloc_unchanged: "kheap_rep k A \<Longrightarrow> 0 < unat sz \<Longrightarrow> \<exists>s. first_fit 25600 A (blocks_of sz) s \<Longrightarrow> stable A a \<Longrightarrow>
    ram (snd (kzalloc sz k)) a = ram k a"
  using kzalloc_stable by blast

lemma new_descriptor_frame:
  fixes k :: "'a file_state_scheme"
  assumes run: "file_new_descriptor d k = (0, desc, k')" and rep: "kheap_rep k A" and free: "0 < free_blocks 25600 A"
  shows "file_only k k' \<and> same_io k k' \<and> path_roots k' = path_roots k \<and> path_parts k' = path_parts k
    \<and> (\<forall>a. stable A a \<longrightarrow> ram k' a = ram k a)"
proof -
  obtain q k1 where k1: "kzalloc 16 k = (q, k1)" by fastforce
  note up = kzalloc_ram [OF k1]
  have "blocks_of 16 = 1" by (simp add: blocks_of_def)
  then have same: "ram k1 a = ram k a" if "stable A a" for a
    using kzalloc_unchanged [OF rep _ _ that, of 16] free_blocks_room [OF free] k1 by simp
  have "the_disk k1 = the_disk k" "disk_addr k1 = disk_addr k" "drive k1 = drive k" "streams k1 = streams k"
    "filesystems k1 = filesystems k" "file_state.more k1 = file_state.more k" "path_roots k1 = path_roots k" "path_parts k1 = path_parts k"
    "kernel_heap k1 = kernel_heap k" "current_directory k1 = current_directory k" "cr3 k1 = cr3 k"
    by (subst up, simp)+
  then show ?thesis
    using run same by (auto simp: file_new_descriptor_def k1 Let_def file_only_def same_io_def split: option.splits)
qed

lemma file_inv_keep:
  fixes k :: "'a file_state_scheme"
  assumes "file_inv k A" and "kheap_rep k' A'" and "file_descriptors k' = file_descriptors k" and "fdescs k' = fdescs k"
    and "\<And>i b. i < 512 \<Longrightarrow> file_descriptors k ! i \<noteq> 0 \<Longrightarrow> file_descriptors k ! i = blk_addr b \<Longrightarrow> A b = Some 1 \<Longrightarrow> A' b = Some 1"
  shows "file_inv k' A'"
  unfolding file_inv_def assms(3,4) using assms(2,5) file_invD [OF assms(1)] by blast

subsection \<open>Arguments of the calls\<close>

text \<open>
  \<open>call_args\<close>: at \<open>p\<close> stands the path \<open>0:/nm\<close> of a file of the root directory, at \<open>r\<close> the mode \<open>"r"\<close>, both in
  memory neither an allocation nor a driver's call changes.
\<close>

definition path_of :: "u8 list \<Rightarrow> u8 list" where
  "path_of nm = [0x30, 0x3A, 0x2F] @ nm"

definition call_args :: "(u32 \<Rightarrow> bool) \<Rightarrow> (nat \<rightharpoonup> nat) \<Rightarrow> mem \<Rightarrow> u32 \<Rightarrow> u32 \<Rightarrow> u8 list \<Rightarrow> bool" where
  "call_args scratch A m p r nm \<longleftrightarrow> nm \<noteq> [] \<and> 0x2F \<notin> set nm \<and> length nm \<le> 105 \<and> cstr m p (path_of nm) \<and> m r = 0x72
     \<and> stable A r \<and> \<not> scratch r \<and> (\<forall>i \<le> length (path_of nm). stable A (p + of_nat i) \<and> \<not> scratch (p + of_nat i))"

definition kept :: "(u32 \<Rightarrow> bool) \<Rightarrow> (nat \<rightharpoonup> nat) \<Rightarrow> mem \<Rightarrow> mem \<Rightarrow> bool" where
  \<comment> \<open>what neither an allocation nor a driver's call may change is the same\<close>
  "kept scratch A m m' \<longleftrightarrow> (\<forall>a. stable A a \<longrightarrow> \<not> scratch a \<longrightarrow> m' a = m a)"

lemma kept_trans: "kept s A m m' \<Longrightarrow> kept s A m' m'' \<Longrightarrow> kept s A m m''" by (simp add: kept_def)
lemma kept_refl [simp]: "kept s A m m" by (simp add: kept_def)

lemma kept_le: "A \<subseteq>\<^sub>m B \<Longrightarrow> kept s B m m' \<Longrightarrow> kept s A m m'"
  using stable_map_le unfolding kept_def by blast

lemma call_args_keep:
  assumes "call_args scratch A m p r nm" and "kept scratch A m m'" and "A \<subseteq>\<^sub>m B"
  shows "call_args scratch B m' p r nm"
proof -
  have "cstr m' p (path_of nm)"
    by (rule cstr_cong [of m]) (use assms(1,2) in \<open>auto simp: call_args_def kept_def\<close>)
  then show ?thesis using assms stable_map_le [OF assms(3)] by (auto simp: call_args_def kept_def)
qed

lemma path_split_name: "nm \<noteq> [] \<Longrightarrow> 0x2F \<notin> set nm \<Longrightarrow> path_split nm = [nm]"
proof -
  assume nm: "nm \<noteq> []" "0x2F \<notin> set nm"
  have "dropWhile (\<lambda>c. c \<noteq> 0x2F) nm = []" using nm(2) by (auto simp: dropWhile_eq_Nil_conv)
  then have "after_part nm = []" unfolding after_part_def by (rule ssubst) simp
  moreover have "part_of nm = nm" using nm(2) by (auto simp: part_of_def takeWhile_eq_all_conv)
  moreover have "path_split [] = []" by (subst path_split.simps) (simp add: part_of_def)
  ultimately show ?thesis using nm(1) by (subst path_split.simps) simp
qed

lemma parse_file_path:
  fixes k :: "'a path_state_scheme"
  assumes rep: "kheap_rep k A" and args: "call_args scratch A (ram k) p r nm" and free: "4 \<le> free_blocks 25600 A"
  shows "\<exists>rb b c k'. pathparser_parse p k = Some (blk_addr rb, k') \<and> paths_only k k' \<and> drive_no (path_roots k' (blk_addr rb)) = 0
    \<and> first_part (path_roots k' (blk_addr rb)) = blk_addr c \<and> path_parts k' (blk_addr c) = \<lparr>part_str = blk_addr b, part_next = 0\<rparr>
    \<and> cstr (ram k') (blk_addr b) nm \<and> kheap_rep k' (A ++ ones [rb, b, c]) \<and> distinct [rb, b, c]
    \<and> (\<forall>x \<in> set [rb, b, c]. x < 25600 \<and> A x = None) \<and> (\<forall>a. stable A a \<longrightarrow> ram k' a = ram k a)"
proof -
  note D = args [unfolded call_args_def]
  have split: "path_split (drop 3 (path_of nm)) = [nm]" using D path_split_name by (simp add: path_of_def)
  have valid: "valid_path (path_of nm)" using D by (simp add: valid_path_def path_of_def isdigit_def sgn_char_def)
  obtain rb xs k' where run: "pathparser_parse p k = Some (blk_addr rb, k')" and P: "parsed_path k A (path_of nm) rb xs k'"
    using parse_valid [OF rep _ valid, of p] D free split by auto
  have "map (\<lambda>x. snd (snd x)) xs = [nm]" using P split by (simp add: parsed_path_def)
  then obtain c b where xs: "xs = [(c, b, nm)]" by (cases xs) auto
  have "tonumericdigit 0x30 = 0" by (simp add: tonumericdigit_def sgn_char_def)
  moreover have "path_parts k' (blk_addr c) = \<lparr>part_str = blk_addr b, part_next = 0\<rparr>"
    using P by (intro path_part.equality) (auto simp: parsed_path_def xs)
  ultimately show ?thesis
    using run parse_only [OF run] P
    by (intro exI [of _ rb] exI [of _ b] exI [of _ c] exI [of _ k']) (simp add: parsed_path_def xs path_of_def)
qed

subsection \<open>A file in memory\<close>

text \<open>
  \<open>above\<close>: the states differ only in what lies above the file layer.  \<open>file_loaded\<close>: from \<open>k\<close> to \<open>k'\<close> a file was read into
  the \<open>n\<close> blocks at \<open>b\<close>, which were free; beside them three blocks \<open>parts\<close> stay behind.
\<close>

definition above :: "'a file_state_scheme \<Rightarrow> 'a file_state_scheme \<Rightarrow> bool" where
  "above k k' \<longleftrightarrow> file_state.truncate k' = file_state.truncate k"

lemma aboveD:
  assumes "above k k'"
  shows "ram k' = ram k" "kernel_heap k' = kernel_heap k" "current_directory k' = current_directory k" "cr3 k' = cr3 k"
    "drive k' = drive k" "the_disk k' = the_disk k" "disk_addr k' = disk_addr k" "streams k' = streams k"
    "path_roots k' = path_roots k" "path_parts k' = path_parts k" "filesystems k' = filesystems k"
    "file_descriptors k' = file_descriptors k" "fdescs k' = fdescs k"
  using assms by (simp_all add: above_def file_state.truncate_def)

lemma above_refl [simp]: "above k k" by (simp add: above_def)

definition file_loaded :: "(u32 \<Rightarrow> bool) \<Rightarrow> 'a file_state_scheme \<Rightarrow> (nat \<rightharpoonup> nat) \<Rightarrow> nat list \<Rightarrow> nat \<Rightarrow> nat \<Rightarrow> u8 list
    \<Rightarrow> 'a file_state_scheme \<Rightarrow> bool" where
  "file_loaded scratch k A parts b n bs k' \<longleftrightarrow>
     file_inv k' ((A ++ ones parts)(b \<mapsto> n)) \<and> file_descriptors k' = file_descriptors k
   \<and> the_disk k' = the_disk k \<and> disk_addr k' = disk_addr k \<and> filesystems k' = filesystems k \<and> kept scratch A (ram k) (ram k')
   \<and> (\<forall>x < length bs. ram k' (blk_addr b + of_nat x) = bs ! x)
   \<and> length parts = 3 \<and> distinct (b # parts) \<and> (\<forall>x \<in> set (b # parts). A x = None)"

subsection \<open>The contract of a filesystem\<close>

text \<open>
  A filesystem driver keeps a \<open>volume\<close> whose root directory \<open>holds\<close> files by name.  Its \<open>open\<close> yields a \<open>handle\<close>,
  which owns the blocks \<open>bs\<close> and reads the contents of the file; a driver may use the bytes \<open>scratch\<close> (its stack frame).
  The client's obligation is to leave all of them alone: the first group of laws says that volume, files and
  handles survive whatever changes only other memory.
\<close>

definition on_disk :: "(u32 \<Rightarrow> 'a file_state_scheme filesystem) \<Rightarrow> 'a file_state_scheme filesystem \<Rightarrow> 'a file_state_scheme \<Rightarrow> bool" where
  "on_disk vt fs k \<longleftrightarrow> disk_addr k \<noteq> 0 \<and> disk_filesystem (the_disk k) \<noteq> 0 \<and> vt (disk_filesystem (the_disk k)) = fs"

definition session :: "('a file_state_scheme \<Rightarrow> (nat \<rightharpoonup> nat) \<Rightarrow> u32 \<Rightarrow> nat list \<Rightarrow> u8 list \<Rightarrow> bool) \<Rightarrow> (u32 \<Rightarrow> 'a file_state_scheme filesystem)
    \<Rightarrow> 'a file_state_scheme filesystem \<Rightarrow> 'a file_state_scheme \<Rightarrow> (nat \<rightharpoonup> nat) \<Rightarrow> int \<Rightarrow> nat \<Rightarrow> nat list \<Rightarrow> u8 list \<Rightarrow> bool" where
  \<comment> \<open>\<open>fd\<close> is a descriptor of the table, at block \<open>d\<close>, behind which stands a handle\<close>
  "session handle vt fs k B fd d own bs \<longleftrightarrow> 1 \<le> fd \<and> fd < 512 \<and> length (file_descriptors k) = 512
     \<and> file_descriptors k ! nat (fd - 1) = blk_addr d \<and> d < 25600 \<and> d \<notin> set own \<and> distinct own
     \<and> vt (fd_filesystem (fdescs k (blk_addr d))) = fs \<and> handle k B (fd_private (fdescs k (blk_addr d))) own bs
     \<and> (\<forall>b \<in> set own. b < 25600 \<and> blk_addr b \<notin> set (file_descriptors k))"

lemma sessionD:
  assumes "session handle vt fs k B fd d own bs"
  shows "1 \<le> fd" "fd < 512" "length (file_descriptors k) = 512" "file_get_descriptor fd k = blk_addr d" "blk_addr d \<noteq> 0"
    "d \<notin> set own" "distinct own" "vt (fd_filesystem (fdescs k (blk_addr d))) = fs"
    "handle k B (fd_private (fdescs k (blk_addr d))) own bs"
  using assms blk_addr_nonzero [of d] by (auto simp: session_def file_get_descriptor_def)

locale filesystem_driver =
  fixes fs :: "'a file_state_scheme filesystem"
    and volume :: "'a file_state_scheme \<Rightarrow> (nat \<rightharpoonup> nat) \<Rightarrow> bool"
    and holds :: "'a file_state_scheme \<Rightarrow> u8 list \<Rightarrow> u8 list \<Rightarrow> bool"
    and handle :: "'a file_state_scheme \<Rightarrow> (nat \<rightharpoonup> nat) \<Rightarrow> u32 \<Rightarrow> nat list \<Rightarrow> u8 list \<Rightarrow> bool"
    and scratch :: "u32 \<Rightarrow> bool"
  assumes volume_keep: "volume k A \<Longrightarrow> same_io k k' \<Longrightarrow> kept scratch A (ram k) (ram k') \<Longrightarrow>
      volume k' A \<and> (holds k nm bs \<longrightarrow> holds k' nm bs)"
    and handle_keep: "handle k A p own bs \<Longrightarrow> same_io k k' \<Longrightarrow> kept scratch A (ram k) (ram k') \<Longrightarrow> handle k' A p own bs"
    and handle_file: "handle k A p own bs \<Longrightarrow> bs \<noteq> [] \<and> length bs < 2147483648 \<and> (\<forall>b \<in> set own. A b = Some 1)"
    and volume_le: "volume k A \<Longrightarrow> A \<subseteq>\<^sub>m B \<Longrightarrow> volume k B"
    and scratch_low: "volume k A \<Longrightarrow> scratch a \<Longrightarrow> unat a < 16777216 \<and> 25600 \<le> unat (a - 0x7E00)"
    and open_file: "kheap_rep k B \<Longrightarrow> volume k A \<Longrightarrow> A \<subseteq>\<^sub>m B \<Longrightarrow> holds k nm bs \<Longrightarrow> cstr (ram k) (part_str (path_parts k part)) nm \<Longrightarrow>
      part_next (path_parts k part) = 0 \<Longrightarrow>
      \<forall>i \<le> length nm. stable B (part_str (path_parts k part) + of_nat i) \<and> \<not> scratch (part_str (path_parts k part) + of_nat i) \<Longrightarrow>
      3 \<le> free_blocks 25600 B \<Longrightarrow>
      \<exists>p own k'. fs_open_fn fs dsk part 0 k = Some (p, k') \<and> 0 \<le> as_int p \<and> length own \<le> 3 \<and> distinct own
        \<and> (\<forall>b \<in> set own. b < 25600 \<and> B b = None) \<and> kheap_rep k' (B ++ ones own) \<and> handle k' (B ++ ones own) p own bs
        \<and> driver_only k k' \<and> kept scratch B (ram k) (ram k') \<and> volume k' A \<and> (\<forall>nm bs. holds k nm bs \<longrightarrow> holds k' nm bs)"
    and stat_file: "handle k A p own bs \<Longrightarrow> \<exists>st'. fs_stat_fn fs dsk p st k = Some (0, st', k) \<and> filesize st' = of_nat (length bs)"
    and read_file: "handle k B p own bs \<Longrightarrow> volume k A \<Longrightarrow> A \<subseteq>\<^sub>m B \<Longrightarrow>
      \<forall>i < length bs. \<not> stable B (out + of_nat i) \<and> \<not> scratch (out + of_nat i) \<Longrightarrow>
      \<exists>k'. fs_read_fn fs dsk p (of_nat (length bs)) 1 out k = Some (1, k')
        \<and> (\<forall>x. ram k' x = (if unat (x - out) < length bs then bs ! unat (x - out) else ram k x))
        \<and> driver_only k k' \<and> volume k' A \<and> handle k' B p own bs \<and> (\<forall>nm bs. holds k nm bs \<longrightarrow> holds k' nm bs)"
    and close_file: "handle k B p own bs \<Longrightarrow> kheap_rep k C \<Longrightarrow> B \<subseteq>\<^sub>m C \<Longrightarrow> distinct own \<Longrightarrow>
      \<exists>m. fs_close_fn fs p k = Some (0, k\<lparr>ram := m\<rparr>) \<and> kheap_rep (k\<lparr>ram := m\<rparr>) (C |` (- set own))
        \<and> (\<forall>a. 25600 \<le> unat (a - 0x7E00) \<longrightarrow> m a = ram k a)"
begin

lemma session_open:
  assumes inv: "file_inv k A" and vol: "volume k A" and held: "holds k nm bs" and disk: "on_disk vt fs k"
    and args: "call_args scratch A (ram k) p r nm" and i: "lowest_free (file_descriptors k) i" "i < 511"
    and room: "roomy A (K + 7) n" "0 < n"
  shows "\<exists>parts own d k'. fopen vt p r k = Some (int i + 1, k') \<and> length parts = 3 \<and> length own \<le> 3
    \<and> distinct (parts @ own @ [d]) \<and> (\<forall>b \<in> set (parts @ own @ [d]). b < 25600 \<and> A b = None)
    \<and> file_inv k' (A ++ ones (parts @ own @ [d])) \<and> session handle vt fs k' (A ++ ones (parts @ own)) (int i + 1) d own bs
    \<and> file_descriptors k' = (file_descriptors k)[i := blk_addr d]
    \<and> file_only k k' \<and> kept scratch A (ram k) (ram k') \<and> volume k' A \<and> (\<forall>nm bs. holds k nm bs \<longrightarrow> holds k' nm bs)
    \<and> roomy (A ++ ones (parts @ own @ [d])) K n"
proof -
  note rep = file_invD(1) [OF inv] and len = file_invD(2) [OF inv]
  have free: "7 < free_blocks 25600 A" using roomy_free [OF room] by simp
  obtain rb b c k1 where k1: "pathparser_parse p k = Some (blk_addr rb, k1)" "paths_only k k1" "drive_no (path_roots k1 (blk_addr rb)) = 0"
    "first_part (path_roots k1 (blk_addr rb)) = blk_addr c" "path_parts k1 (blk_addr c) = \<lparr>part_str = blk_addr b, part_next = 0\<rparr>"
    "cstr (ram k1) (blk_addr b) nm" "kheap_rep k1 (A ++ ones [rb, b, c])" "distinct [rb, b, c]"
    "\<forall>x \<in> set [rb, b, c]. x < 25600 \<and> A x = None" "\<forall>a. stable A a \<longrightarrow> ram k1 a = ram k a"
    using parse_file_path [OF rep args] free by auto
  let ?P = "[rb, b, c]" and ?B = "A ++ ones [rb, b, c]"
  have AB: "A \<subseteq>\<^sub>m ?B" using k1(9) by (auto simp: map_le_def ones_def map_add_def)
  have room1: "roomy ?B (K + 4) n" by (rule roomy_ones) (use room(1) in \<open>simp add: add.commute\<close>)
  have kept1: "kept scratch A (ram k) (ram k1)" using k1(10) by (simp add: kept_def)
  have vol1: "volume k1 A" "\<forall>nm bs. holds k nm bs \<longrightarrow> holds k1 nm bs"
    using volume_keep [OF vol paths_only_io [OF k1(2)] kept1] by blast+
  have Bb: "?B b = Some 1" by (simp add: ones_def)
  have c25: "b < 25600" "c < 25600" "rb < 25600" using k1(9) by simp_all
  have nmst: "\<forall>i \<le> length nm. stable ?B (blk_addr b + of_nat i) \<and> \<not> scratch (blk_addr b + of_nat i)"
  proof (intro allI impI)
    fix i assume "i \<le> length nm"
    then have i: "i < 4096" using args by (simp add: call_args_def)
    have "unat (blk_addr b + of_nat i) = 16777216 + b * 4096 + i" by (rule unat_blk_byte) (use c25 i in linarith)
    then show "stable ?B (blk_addr b + of_nat i) \<and> \<not> scratch (blk_addr b + of_nat i)"
      using stable_block [OF k1(7) Bb i] scratch_low [OF vol, of "blk_addr b + of_nat i"] by linarith
  qed
  have "3 \<le> free_blocks 25600 ?B" using roomy_free [OF room1 room(2)] by simp
  then obtain pr own k2 where k2: "fs_open_fn fs (disk_addr k1) (blk_addr c) 0 k1 = Some (pr, k2)" "0 \<le> as_int pr" "length own \<le> 3" "distinct own"
    "\<forall>x \<in> set own. x < 25600 \<and> ?B x = None" "kheap_rep k2 (?B ++ ones own)" "handle k2 (?B ++ ones own) pr own bs"
    "driver_only k1 k2" "kept scratch ?B (ram k1) (ram k2)" "volume k2 A" "\<forall>nm bs. holds k1 nm bs \<longrightarrow> holds k2 nm bs"
    using open_file [OF k1(7) vol1(1) AB, of nm bs "blk_addr c" "disk_addr k1"] vol1(2) held k1(5,6) nmst by auto
  let ?C = "?B ++ ones own"
  have C: "?C = A ++ ones (?P @ own)" by (auto simp: ones_def map_add_def)
  have BC: "?B \<subseteq>\<^sub>m ?C" using k2(5) by (auto simp: map_le_def ones_def map_add_def split: if_splits option.splits)
  have AC: "A \<subseteq>\<^sub>m ?C" by (rule map_le_trans [OF AB BC])
  have room2: "roomy ?C (K + 1) n" by (rule roomy_ones) (rule roomy_less [OF room1], use k2(3) in simp_all)
  have tab2: "file_descriptors k2 = file_descriptors k" "fdescs k2 = fdescs k"
    using paths_only_file [OF k1(2)] driver_only_file [OF k2(8)] by simp_all
  have inv2: "file_inv k2 ?C"
    by (rule file_inv_keep [OF inv k2(6) tab2]) (metis AC domI map_le_def)
  have pos: "0 < free_blocks 25600 ?C" using roomy_free [OF room2 room(2)] by simp
  obtain d k3 where k3: "file_new_descriptor 0 k2 = (0, blk_addr d, k3)" "d < 25600" "?C d = None" "file_inv k3 (?C(d \<mapsto> 1))"
    "file_descriptors k3 = (file_descriptors k)[i := blk_addr d]"
    "fdescs k3 = (fdescs k)(blk_addr d := \<lparr>fd_index = int i + 1, fd_filesystem = 0, fd_private = 0, fd_disk = 0\<rparr>)"
    using new_descriptor [OF inv2 pos, of i 0] i(1) tab2 by auto
  note f3 = new_descriptor_frame [OF k3(1) k2(6) pos]
  define k4 where "k4 = k3\<lparr>fdescs := (fdescs k3)(blk_addr d := (fdescs k3 (blk_addr d))
      \<lparr>fd_filesystem := disk_filesystem (the_disk k3), fd_private := pr, fd_disk := disk_addr k1\<rparr>)\<rparr>"
  have only: "file_only k k1" "file_only k1 k2" "file_only k2 k3" "file_only k3 k4"
    using paths_only_file [OF k1(2)] driver_only_file [OF k2(8)] f3 by (simp_all add: k4_def file_only_def)
  have only4: "file_only k k4" by (rule file_only_trans [OF only(1) file_only_trans [OF only(2) file_only_trans [OF only(3,4)]]])
  have disk3: "the_disk k1 = the_disk k" "disk_addr k1 = disk_addr k" "the_disk k2 = the_disk k" "the_disk k3 = the_disk k"
    using only by (simp_all add: file_only_def)
  have paths2: "path_roots k2 = path_roots k1" "path_parts k2 = path_parts k1" using driver_only_file [OF k2(8)] by simp_all
  have mode: "file_get_mode_by_string (ram k1) r = 0"
    using args k1(10) by (simp add: call_args_def file_get_mode_by_string_def strncmp_lit_def)
  have nz: "blk_addr rb \<noteq> 0" "blk_addr c \<noteq> 0" using c25 by (simp_all add: blk_addr_nonzero)
  have idx: "fd_index (fdescs k4 (blk_addr d)) = int i + 1" "fd_index (fdescs k3 (blk_addr d)) = int i + 1" by (simp_all add: k4_def k3(6))
  have k4: "k3\<lparr>fdescs := (fdescs k3)(blk_addr d := (fdescs k3 (blk_addr d))
      \<lparr>fd_filesystem := disk_filesystem (the_disk k), fd_private := pr, fd_disk := disk_addr k\<rparr>)\<rparr> = k4" by (simp add: k4_def disk3)
  have run: "fopen vt p r k = Some (int i + 1, k4)"
    using disk nz k2(1,2) k3(1) idx
    by (simp add: fopen_def fopen_body_def k1(1,3,4) disk_get_def on_disk_def disk3 mode paths2 Let_def k4)
  have inv4: "file_inv k4 (?C(d \<mapsto> 1))" using k3(4) idx
    unfolding file_inv_def by (auto simp: k4_def k3(6))
  have D: "?C(d \<mapsto> 1) = A ++ ones (?P @ own @ [d])" by (auto simp: ones_def map_add_def)
  have io4: "same_io k2 k4" using f3 by (simp add: k4_def same_io_def)
  have kept4: "kept scratch ?C (ram k2) (ram k4)" using f3 by (simp add: k4_def kept_def)
  have vol4: "volume k4 A" "\<forall>nm bs. holds k2 nm bs \<longrightarrow> holds k4 nm bs"
    using volume_keep [OF k2(10) io4 kept_le [OF AC kept4]] by blast+
  have h4: "handle k4 ?C pr own bs" by (rule handle_keep [OF k2(7) io4 kept4])
  have notd: "d \<notin> set own" "d \<notin> set ?P" using k3(3) by (auto simp: ones_def map_add_def split: option.splits if_splits)
  have clean: "blk_addr x \<notin> set (file_descriptors k4)" if x: "x \<in> set own" for x
  proof
    assume "blk_addr x \<in> set (file_descriptors k4)"
    then have "blk_addr x = blk_addr d \<or> blk_addr x \<in> set (file_descriptors k)"
      using set_update_subset_insert [of "file_descriptors k" i "blk_addr d"] by (auto simp: k4_def k3(5))
    moreover have "blk_addr x \<noteq> blk_addr d"
      using blk_addr_inj [of x d] x k2(5) k3(2) notd by auto
    ultimately obtain j where j: "j < 512" "file_descriptors k ! j = blk_addr x" by (metis in_set_conv_nth len)
    have xz: "blk_addr x \<noteq> 0" by (rule blk_addr_nonzero) (use x k2(5) in blast)
    then obtain y where y: "blk_addr x = blk_addr y" "A y = Some 1" using file_invD(3) [OF inv j(1)] j(2) by auto
    then have "x = y" using blk_addr_inj [of x y] x k2(5) live_blk [OF rep] by auto
    then show False using y(2) AB x k2(5) by (metis domI map_le_def option.distinct(1))
  qed
  have ses: "session handle vt fs k4 ?C (int i + 1) d own bs"
    using i(2) k3(2) notd(1) k2(4,5) disk h4 clean len
    by (simp add: session_def k4_def k3(5,6) on_disk_def disk3)
  have none: "\<forall>x \<in> set (?P @ own @ [d]). x < 25600 \<and> A x = None"
  proof
    fix x assume "x \<in> set (?P @ own @ [d])"
    then consider "x \<in> set ?P" | "x \<in> set own" | "x = d" by auto
    then show "x < 25600 \<and> A x = None"
      by cases (use k1(9) k2(5) k3(2,3) in \<open>auto simp: map_add_def split: option.splits\<close>)
  qed
  have dist: "distinct (?P @ own @ [d])"
  proof -
    have "set ?P \<inter> set own = {}" using k2(5) by (auto simp: ones_def map_add_def split: option.splits if_splits)
    then show ?thesis using k1(8) k2(4) notd by auto
  qed
  have kept: "kept scratch A (ram k) (ram k4)"
    by (rule kept_trans [OF kept1 kept_trans [OF kept_le [OF AB k2(9)] kept_le [OF AC kept4]]])
  have room4: "roomy (A ++ ones (?P @ own @ [d])) K n"
    unfolding D [symmetric] by (rule roomy_alloc [of ?C K 1 n d, OF room2 k3(3)])
  have tab4: "file_descriptors k4 = (file_descriptors k)[i := blk_addr d]" by (simp add: k4_def k3(5))
  have "\<forall>nm bs. holds k nm bs \<longrightarrow> holds k4 nm bs" using vol1(2) k2(11) vol4(2) by blast
  then show ?thesis
    using run k2(3) dist none inv4 [unfolded D] ses [unfolded C] tab4 only4 kept vol4(1) room4
    by (intro exI [of _ ?P] exI [of _ own] exI [of _ d] exI [of _ k4]) simp
qed

lemma session_stat:
  assumes "session handle vt fs k B fd d own bs"
  shows "\<exists>st'. fstat vt fd st k = Some (0, st', k) \<and> filesize st' = of_nat (length bs)"
  using stat_file [OF sessionD(9) [OF assms]] sessionD(4,5,8) [OF assms] by (simp add: fstat_def Let_def)

lemma session_keep:
  assumes s: "session handle vt fs k B fd d own bs" and "same_io k k'" and "kept scratch B (ram k) (ram k')"
    and "file_descriptors k' = file_descriptors k" and "fdescs k' = fdescs k"
  shows "session handle vt fs k' B fd d own bs"
  using s handle_keep [OF sessionD(9) [OF s] assms(2,3)] by (simp add: session_def assms(4,5))

lemma session_read:
  assumes s: "session handle vt fs k B fd d own bs" and vol: "volume k A" "A \<subseteq>\<^sub>m B"
    and out: "\<forall>i < length bs. \<not> stable B (out + of_nat i) \<and> \<not> scratch (out + of_nat i)"
  shows "\<exists>k'. fread vt out (of_nat (length bs)) 1 fd k = Some (1, k')
        \<and> (\<forall>x. ram k' x = (if unat (x - out) < length bs then bs ! unat (x - out) else ram k x))
        \<and> driver_only k k' \<and> volume k' A \<and> session handle vt fs k' B fd d own bs \<and> (\<forall>nm bs. holds k nm bs \<longrightarrow> holds k' nm bs)"
proof -
  note D = sessionD [OF s]
  have len: "bs \<noteq> []" "length bs < 2147483648" using handle_file [OF D(9)] by simp_all
  have nz: "(of_nat (length bs) :: u32) \<noteq> 0"
    using len by (simp add: word32_eq_iff_unat unat_of_nat32)
  obtain k' where k': "fs_read_fn fs (fd_disk (fdescs k (blk_addr d))) (fd_private (fdescs k (blk_addr d))) (of_nat (length bs)) 1 out k = Some (1, k')"
    "\<forall>x. ram k' x = (if unat (x - out) < length bs then bs ! unat (x - out) else ram k x)"
    "driver_only k k'" "volume k' A" "handle k' B (fd_private (fdescs k (blk_addr d))) own bs" "\<forall>nm bs. holds k nm bs \<longrightarrow> holds k' nm bs"
    using read_file [OF D(9) vol out] by blast
  have "session handle vt fs k' B fd d own bs"
    using s k'(5) driver_only_file [OF k'(3)] by (simp add: session_def)
  moreover have "fread vt out (of_nat (length bs)) 1 fd k = Some (1, k')"
    using k'(1) D(1,4,5,8) nz by (simp add: fread_def Let_def)
  ultimately show ?thesis using k' by blast
qed

lemma session_close:
  assumes s: "session handle vt fs k B fd d own bs" and inv: "file_inv k C" and BC: "B \<subseteq>\<^sub>m C" and d: "C d = Some 1"
  shows "\<exists>k'. fclose vt fd k = Some (0, k') \<and> file_inv k' (C |` (- set (own @ [d])))
    \<and> file_descriptors k' = (file_descriptors k)[nat (fd - 1) := 0]
    \<and> k' = k\<lparr>ram := ram k', file_descriptors := file_descriptors k'\<rparr>
    \<and> (\<forall>a. 25600 \<le> unat (a - 0x7E00) \<longrightarrow> ram k' a = ram k a)"
proof -
  note D = sessionD [OF s]
  let ?i = "nat (fd - 1)" and ?C = "C |` (- set own)"
  obtain m where m: "fs_close_fn fs (fd_private (fdescs k (blk_addr d))) k = Some (0, k\<lparr>ram := m\<rparr>)"
    "kheap_rep (k\<lparr>ram := m\<rparr>) ?C" "\<forall>a. 25600 \<le> unat (a - 0x7E00) \<longrightarrow> m a = ram k a"
    using close_file [OF D(9) file_invD(1) [OF inv] BC D(7)] by blast
  let ?k1 = "k\<lparr>ram := m\<rparr>"
  have own: "\<forall>b \<in> set own. blk_addr b \<notin> set (file_descriptors k)" using s by (simp add: session_def)
  have inv1: "file_inv ?k1 ?C"
  proof (rule file_inv_keep [OF inv m(2)])
    fix j b assume j: "j < 512" "file_descriptors k ! j = blk_addr b" "C b = Some 1"
    have "b \<notin> set own" using own j(1,2) D(3) by (metis nth_mem)
    then show "?C b = Some 1" using j(3) by simp
  qed simp_all
  have i: "?i < 512" using D(1,2) by simp
  have slot: "file_descriptors ?k1 ! ?i = blk_addr d" using s by (simp add: session_def)
  have live: "?C d = Some 1" using d D(6) by simp
  note f = free_descriptor [OF inv1 i slot live]
  let ?k2 = "clear_descriptor (blk_addr d) ?k1"
  have run: "fclose vt fd k = Some (0, ?k2)" using m(1) D(4,5,8) f(4) by (simp add: fclose_def Let_def)
  have cut: "?C(d := None) = C |` (- set (own @ [d]))" by (auto simp: restrict_map_def fun_eq_iff)
  let ?k1' = "?k1\<lparr>file_descriptors := (file_descriptors k)[nat (fd_index (fdescs k (blk_addr d)) - 1) := 0]\<rparr>"
  have k2: "?k2 = kfree (blk_addr d) ?k1'" by (simp add: clear_descriptor_def)
  have rep1: "kheap_rep ?k1' ?C" using m(2) by simp
  have frame: "ram ?k2 a = ram k a" if "25600 \<le> unat (a - 0x7E00)" for a
    unfolding k2 using kfree_frame [OF rep1 live that] m(3) that by simp
  have only: "?k2 = k\<lparr>ram := ram ?k2, file_descriptors := file_descriptors ?k2\<rparr>"
  proof -
    define m2 where "m2 = ram (kfree (blk_addr d) ?k1')"
    have up: "kfree (blk_addr d) ?k1' = ?k1'\<lparr>ram := m2\<rparr>" unfolding m2_def by (rule kfree_ram)
    show ?thesis unfolding k2 up by (cases k) simp
  qed
  have "file_inv ?k2 (C |` (- set (own @ [d])))" using f(1) unfolding cut .
  then show ?thesis
    by (intro exI [of _ ?k2] conjI allI impI) (rule run, assumption, use f(2) only frame in simp_all)
qed

lemma image_alloc:
  assumes s: "session handle vt fs k B fd d own bs" and inv: "file_inv k C" and vol: "volume k A" and AC: "A \<subseteq>\<^sub>m C" and BC: "B \<subseteq>\<^sub>m C"
    and n: "blocks_of (of_nat (length bs)) = n" "n \<le> N" and room: "roomy C (K + n) N"
  obtains b m where "kzalloc (of_nat (length bs)) k = (blk_addr b, k\<lparr>ram := m\<rparr>)" "b < 25600" "b + n \<le> 25600" "C b = None"
    "file_inv (k\<lparr>ram := m\<rparr>) (C(b \<mapsto> n))" "\<forall>a. stable C a \<longrightarrow> m a = ram k a" "roomy (C(b \<mapsto> n)) K N"
    "session handle vt fs (k\<lparr>ram := m\<rparr>) B fd d own bs" "volume (k\<lparr>ram := m\<rparr>) A" "\<forall>nm bs. holds k nm bs \<longrightarrow> holds (k\<lparr>ram := m\<rparr>) nm bs"
    "\<forall>x < length bs. \<not> stable C (blk_addr b + of_nat x) \<and> \<not> scratch (blk_addr b + of_nat x)" "length bs \<le> n * 4096"
proof -
  have len: "bs \<noteq> []" "length bs < 2147483648" using handle_file [OF sessionD(9) [OF s]] by simp_all
  then have sz: "unat (of_nat (length bs) :: u32) = length bs" by (simp add: unat_of_nat32)
  have pos: "0 < unat (of_nat (length bs) :: u32)" using len(1) by (simp add: sz)
  obtain b m where b: "kzalloc (of_nat (length bs)) k = (blk_addr b, k\<lparr>ram := m\<rparr>)" "b < 25600" "b + n \<le> 25600" "C b = None"
    "kheap_rep (k\<lparr>ram := m\<rparr>) (C(b \<mapsto> n))" "\<forall>a. stable C a \<longrightarrow> m a = ram k a" "roomy (C(b \<mapsto> n)) K N"
    by (rule kzalloc_room [OF file_invD(1) [OF inv] pos, unfolded n(1), OF n(2) room]) blast
  have room_n: "length bs \<le> n * 4096" unfolding n(1) [symmetric] blocks_of_def sz by linarith
  have bC: "C x = Some 1 \<Longrightarrow> (C(b \<mapsto> n)) x = Some 1" for x using b(4) by auto
  have inv': "file_inv (k\<lparr>ram := m\<rparr>) (C(b \<mapsto> n))" by (rule file_inv_keep [OF inv b(5)]) (use bC in simp_all)
  have kept: "kept scratch C (ram k) m" using b(6) by (simp add: kept_def)
  have io: "same_io k (k\<lparr>ram := m\<rparr>)" by (simp add: same_io_def)
  have ses: "session handle vt fs (k\<lparr>ram := m\<rparr>) B fd d own bs"
    by (rule session_keep [OF s io]) (use kept_le [OF BC kept] in simp_all)
  have vol': "volume (k\<lparr>ram := m\<rparr>) A" "\<forall>nm bs. holds k nm bs \<longrightarrow> holds (k\<lparr>ram := m\<rparr>) nm bs"
    using volume_keep [OF vol io] kept_le [OF AC kept] by simp_all
  have out: "\<not> stable C (blk_addr b + of_nat x) \<and> \<not> scratch (blk_addr b + of_nat x)" if x: "x < length bs" for x
  proof -
    have "x < n * 4096" using x room_n by simp
    moreover have "unat (blk_addr b + of_nat x) = 16777216 + b * 4096 + x"
      by (rule unat_blk_byte) (use b(3) room_n x in linarith)
    ultimately show ?thesis
      using fresh_unstable [OF b(5,4)] scratch_low [OF vol, of "blk_addr b + of_nat x"] by auto
  qed
  show thesis by (rule that [OF b(1-4) inv' b(6,7) ses vol']) (use out room_n in simp_all)
qed

lemma file_load:
  assumes inv: "file_inv k A" and vol: "volume k A" and held: "holds k nm bs" and disk: "on_disk vt fs k"
    and args: "call_args scratch A (ram k) p r nm" and i: "lowest_free (file_descriptors k) i" "i < 511"
    and n: "blocks_of (of_nat (length bs)) = n" "n \<le> N" "0 < N" and room: "roomy A (K + n + 7) N"
  obtains k1 st' b m parts where "fopen vt p r k = Some (int i + 1, k1)" "fstat vt (int i + 1) st k1 = Some (0, st', k1)"
    "filesize st' = of_nat (length bs)" "kzalloc (of_nat (length bs)) k1 = (blk_addr b, k1\<lparr>ram := m\<rparr>)" "b + n \<le> 25600"
    "length bs \<le> n * 4096" "file_state.more k1 = file_state.more k"
    "\<And>k2. above (k1\<lparr>ram := m\<rparr>) k2 \<Longrightarrow> \<exists>k3. fread vt (blk_addr b) (of_nat (length bs)) 1 (int i + 1) k2 = Some (1, k3)
       \<and> file_state.more k3 = file_state.more k2 \<and> (\<forall>x < length bs. ram k3 (blk_addr b + of_nat x) = bs ! x)
       \<and> (\<forall>k4. above k3 k4 \<longrightarrow> (\<exists>k5. fclose vt (int i + 1) k4 = Some (0, k5) \<and> file_state.more k5 = file_state.more k4
            \<and> file_loaded scratch k A parts b n bs k5 \<and> volume k5 A \<and> (\<forall>nm bs. holds k nm bs \<longrightarrow> holds k5 nm bs)
            \<and> roomy ((A ++ ones parts)(b \<mapsto> n)) K N))"
proof -
  obtain parts own d k1 where k1: "fopen vt p r k = Some (int i + 1, k1)" "length parts = 3" "length own \<le> 3"
    "distinct (parts @ own @ [d])" "\<forall>b \<in> set (parts @ own @ [d]). b < 25600 \<and> A b = None"
    "file_inv k1 (A ++ ones (parts @ own @ [d]))" "session handle vt fs k1 (A ++ ones (parts @ own)) (int i + 1) d own bs"
    "file_descriptors k1 = (file_descriptors k)[i := blk_addr d]"
    "file_only k k1" "kept scratch A (ram k) (ram k1)" "volume k1 A" "\<forall>nm bs. holds k nm bs \<longrightarrow> holds k1 nm bs"
    "roomy (A ++ ones (parts @ own @ [d])) (K + n) N"
    using session_open [OF inv vol held disk args i room n(3)] by blast
  let ?B = "A ++ ones (parts @ own)" and ?C = "A ++ ones (parts @ own @ [d])"
  have AC: "A \<subseteq>\<^sub>m ?C" using k1(5) by (auto simp: map_le_def ones_def map_add_def split: if_splits)
  have BC: "?B \<subseteq>\<^sub>m ?C" using k1(4,5) by (auto simp: map_le_def ones_def map_add_def split: if_splits option.splits)
  have AB: "A \<subseteq>\<^sub>m ?B" using k1(5) by (auto simp: map_le_def ones_def map_add_def split: if_splits)
  obtain st' where st': "fstat vt (int i + 1) st k1 = Some (0, st', k1)" "filesize st' = of_nat (length bs)"
    using session_stat [OF k1(7)] by blast
  obtain b m where b: "kzalloc (of_nat (length bs)) k1 = (blk_addr b, k1\<lparr>ram := m\<rparr>)" "b < 25600" "b + n \<le> 25600" "?C b = None"
    "file_inv (k1\<lparr>ram := m\<rparr>) (?C(b \<mapsto> n))" "\<forall>a. stable ?C a \<longrightarrow> m a = ram k1 a" "roomy (?C(b \<mapsto> n)) K N"
    "session handle vt fs (k1\<lparr>ram := m\<rparr>) ?B (int i + 1) d own bs" "volume (k1\<lparr>ram := m\<rparr>) A"
    "\<forall>nm bs. holds k1 nm bs \<longrightarrow> holds (k1\<lparr>ram := m\<rparr>) nm bs"
    "\<forall>x < length bs. \<not> stable ?C (blk_addr b + of_nat x) \<and> \<not> scratch (blk_addr b + of_nat x)" "length bs \<le> n * 4096"
    by (rule image_alloc [OF k1(7,6,11) AC BC n(1,2) k1(13)]) blast
  let ?D = "?C(b \<mapsto> n)" and ?E = "(A ++ ones parts)(b \<mapsto> n)"
  have bb: "b \<notin> set (parts @ own @ [d])" "A b = None"
    using b(4) by (auto simp: ones_def map_add_def split: option.splits if_splits)
  have cut: "?D |` (- set (own @ [d])) = ?E"
    using k1(4,5) bb by (auto simp: restrict_map_def fun_eq_iff ones_def map_add_def split: option.splits if_splits)
  have CD: "?C \<subseteq>\<^sub>m ?D" using b(4) by (auto simp: map_le_def)
  have BD: "?B \<subseteq>\<^sub>m ?D" by (rule map_le_trans [OF BC CD])
  have Dd: "?D d = Some 1" using bb by (simp add: ones_def)
  have more1: "file_state.more k1 = file_state.more k" using k1(9) by (simp add: file_only_def)
  have bytes: "unat (a - blk_addr b) < length bs \<Longrightarrow> \<not> stable ?C a" for a
    using b(11) offset_of_unat [of a "blk_addr b"] by metis
  have main: "\<exists>k3. fread vt (blk_addr b) (of_nat (length bs)) 1 (int i + 1) k2 = Some (1, k3)
       \<and> file_state.more k3 = file_state.more k2 \<and> (\<forall>x < length bs. ram k3 (blk_addr b + of_nat x) = bs ! x)
       \<and> (\<forall>k4. above k3 k4 \<longrightarrow> (\<exists>k5. fclose vt (int i + 1) k4 = Some (0, k5) \<and> file_state.more k5 = file_state.more k4
            \<and> file_loaded scratch k A parts b n bs k5 \<and> volume k5 A \<and> (\<forall>nm bs. holds k nm bs \<longrightarrow> holds k5 nm bs)
            \<and> roomy ?E K N))" if k2: "above (k1\<lparr>ram := m\<rparr>) k2" for k2
  proof -
    note a2 = aboveD [OF k2]
    have io2: "same_io (k1\<lparr>ram := m\<rparr>) k2" by (simp add: same_io_def a2)
    have ses2: "session handle vt fs k2 ?B (int i + 1) d own bs"
      by (rule session_keep [OF b(8) io2]) (simp_all add: a2)
    have vol2: "volume k2 A" "\<forall>nm bs. holds k nm bs \<longrightarrow> holds k2 nm bs"
      using volume_keep [OF b(9) io2] b(10) k1(12) by (simp_all add: a2)
    have out: "\<forall>x < length bs. \<not> stable ?B (blk_addr b + of_nat x) \<and> \<not> scratch (blk_addr b + of_nat x)"
      using b(11) stable_map_le [OF BC] by blast
    obtain k3 where k3: "fread vt (blk_addr b) (of_nat (length bs)) 1 (int i + 1) k2 = Some (1, k3)"
      "\<forall>x. ram k3 x = (if unat (x - blk_addr b) < length bs then bs ! unat (x - blk_addr b) else ram k2 x)"
      "driver_only k2 k3" "volume k3 A" "session handle vt fs k3 ?B (int i + 1) d own bs" "\<forall>nm bs. holds k2 nm bs \<longrightarrow> holds k3 nm bs"
      using session_read [OF ses2 vol2(1) AB out] by blast
    note d3 = driver_only_file [OF k3(3)]
    have img: "ram k3 (blk_addr b + of_nat x) = bs ! x" if x: "x < length bs" for x
    proof -
      have "x < 25600 * 4096" using x b(3,12) by linarith
      then have "unat (blk_addr b + of_nat x - blk_addr b) = x" by (intro unat_offset) simp
      then show ?thesis using k3(2) x by simp
    qed
    have st3: "ram k3 a = m a" if "stable ?C a" for a using k3(2) bytes [of a] that by (auto simp: a2)
    have tab3: "ram k3 a = m a" if "unat (a - 0x7E00) < 25600" for a
    proof -
      have low: "unat a < 16777216" by (rule table_write_low [OF that])
      have "\<not> unat (a - blk_addr b) < length bs"
        using unat_blk_addr [OF b(2)] low b(3,12) unfolding unat_sub32 by simp
      then show ?thesis using k3(2) by (simp add: a2)
    qed
    have more3: "file_state.more k3 = file_state.more k2" using d3 by (simp add: file_only_def)
    have rep3: "kheap_rep k3 ?D"
    proof -
      have "kheap_rep (k1\<lparr>ram := m, ram := ram k3\<rparr>) ?D"
        by (rule kheap_rep_table_write [OF file_invD(1) [OF b(5)]]) (use tab3 in simp_all)
      moreover have "kernel_heap k3 = kernel_heap k1" using d3 by (simp add: file_only_def a2)
      ultimately show ?thesis by (simp add: kheap_rep_def)
    qed
    have inv3: "file_inv k3 ?D"
      by (rule file_inv_keep [OF b(5) rep3]) (use d3 in \<open>simp_all add: a2\<close>)
    have close: "\<exists>k5. fclose vt (int i + 1) k4 = Some (0, k5) \<and> file_state.more k5 = file_state.more k4
            \<and> file_loaded scratch k A parts b n bs k5 \<and> volume k5 A \<and> (\<forall>nm bs. holds k nm bs \<longrightarrow> holds k5 nm bs)
            \<and> roomy ?E K N" if k4: "above k3 k4" for k4
    proof -
      note a4 = aboveD [OF k4]
      have io4: "same_io k3 k4" by (simp add: same_io_def a4)
      have ses4: "session handle vt fs k4 ?B (int i + 1) d own bs"
        by (rule session_keep [OF k3(5) io4]) (simp_all add: a4)
      have inv4: "file_inv k4 ?D" using inv3 by (simp add: file_inv_def kheap_rep_def a4)
      obtain k5 where k5: "fclose vt (int i + 1) k4 = Some (0, k5)" "file_inv k5 (?D |` (- set (own @ [d])))"
        "file_descriptors k5 = (file_descriptors k4)[nat (int i + 1 - 1) := 0]"
        "k5 = k4\<lparr>ram := ram k5, file_descriptors := file_descriptors k5\<rparr>"
        "\<forall>a. 25600 \<le> unat (a - 0x7E00) \<longrightarrow> ram k5 a = ram k4 a"
        using session_close [OF ses4 inv4 BD Dd] by blast
      have f5: "drive k5 = drive k4" "streams k5 = streams k4" "the_disk k5 = the_disk k4" "disk_addr k5 = disk_addr k4"
        "filesystems k5 = filesystems k4" "file_state.more k5 = file_state.more k4"
        by (subst k5(4), simp)+
      have fds: "file_descriptors k5 = file_descriptors k"
        using i(1) d3 by (simp add: k5(3) a4 a2 k1(8) lowest_free_def) (metis list_update_id)
      have ram5: "ram k5 a = ram k3 a" if "25600 \<le> unat (a - 0x7E00)" for a using k5(5) that by (simp add: a4)
      have kept5: "kept scratch A (ram k) (ram k5)"
        unfolding kept_def
      proof (intro allI impI)
        fix a assume st: "stable A a" "\<not> scratch a"
        have "stable ?C a" by (rule stable_map_le [OF AC st(1)])
        then show "ram k5 a = ram k a"
          using ram5 [of a] st3 b(6) k1(10) st by (simp add: kept_def) (simp add: stable_def)
      qed
      have img5: "\<forall>x < length bs. ram k5 (blk_addr b + of_nat x) = bs ! x"
      proof (intro allI impI)
        fix x assume x: "x < length bs"
        have "25600 \<le> unat (blk_addr b + of_nat x - 0x7E00)" by (rule live_not_table) (use x b(3,12) in linarith)
        then show "ram k5 (blk_addr b + of_nat x) = bs ! x" using ram5 img [OF x] by simp
      qed
      have io5: "same_io k3 k5" by (simp add: same_io_def f5 a4)
      have kept35: "kept scratch A (ram k3) (ram k5)" using ram5 by (simp add: kept_def stable_def)
      have vol5: "volume k5 A" "\<forall>nm bs. holds k nm bs \<longrightarrow> holds k5 nm bs"
        using volume_keep [OF k3(4) io5 kept35] k3(6) vol2(2) by blast+
      have loaded: "file_loaded scratch k A parts b n bs k5"
        using k5(2) [unfolded cut] fds f5 d3 k1(2,4,5,9) kept5 img5 bb
        by (simp add: file_loaded_def a4 file_only_def a2)
      have room5: "roomy ?E K N"
        unfolding cut [symmetric] by (rule roomy_restrict [OF b(7)])
      show ?thesis
        by (intro exI [of _ k5] conjI) (use k5(1) f5(6) loaded vol5 room5 in simp_all)
    qed
    show ?thesis using k3(1) more3 img close by blast
  qed
  show thesis by (rule that [OF k1(1) st' b(1,3,12) more1 main])
qed

end

end
