(* ===== verification/ProcessEnd.thy ===== *)
theory ProcessEnd
  imports ProcessMemory
begin

text \<open>
  The end of a process: \<open>process_terminate\<close> (\<^verbatim>\<open>src/src/task/process.c\<close>) gives back everything the process holds but the block of
  the process structure itself.
\<close>

subsection \<open>What a process holds\<close>

text \<open>
  \<open>data_blocks k p own\<close>: the program of \<open>p\<close> is the blocks \<open>own\<close>, in the order termination frees them: a flat program
  is one region; an ELF program is its image and the \<open>elf_file\<close>.
\<close>

definition data_blocks :: "'a task_state_scheme \<Rightarrow> u32 \<Rightarrow> nat list \<Rightarrow> bool" where
  "data_blocks k p own \<longleftrightarrow>
     (if filetype (procs k p) = PROCESS_FILETYPE_ELF
      then \<exists>e b. own = [b, e] \<and> process_ptr (procs k p) = blk_addr e \<and> ef_memory (elf_files k (blk_addr e)) = blk_addr b
      else \<exists>b. own = [b] \<and> filetype (procs k p) = PROCESS_FILETYPE_BINARY \<and> process_ptr (procs k p) = blk_addr b)"

definition process_live :: "'a task_state_scheme \<Rightarrow> (nat \<rightharpoonup> nat) \<Rightarrow> nat \<Rightarrow> nat \<Rightarrow> nat list \<Rightarrow> u32 \<Rightarrow> nat list \<Rightarrow> nat \<Rightarrow> nat \<Rightarrow> bool" where
  "process_live k A c d T p own s t \<longleftrightarrow> process_ok k A c d T p \<and> data_blocks k p own
     \<and> process_stack (procs k p) = blk_addr s \<and> process_task (procs k p) = blk_addr t
     \<and> distinct (own @ [s] @ T @ [d, c] @ [t]) \<and> set (own @ [s, t]) \<subseteq> dom A
     \<and> (\<forall>a \<in> set (allocations (procs k p)). \<forall>x \<in> set (own @ [s, t]). alloc_ptr a \<noteq> blk_addr x)"

subsection \<open>What releasing memory leaves alone\<close>

definition only_memory :: "u32 \<Rightarrow> 'a task_state_scheme \<Rightarrow> 'a task_state_scheme \<Rightarrow> bool" where
  \<comment> \<open>the states differ at most in memory and the allocation table of \<open>p\<close>\<close>
  "only_memory p k k' \<longleftrightarrow> (\<exists>m al. k' = set_proc p ((procs k p)\<lparr>allocations := al\<rparr>) (k\<lparr>ram := m\<rparr>))"

lemma only_memoryI: "k' = set_proc p ((procs k p)\<lparr>allocations := al\<rparr>) (k\<lparr>ram := m\<rparr>) \<Longrightarrow> only_memory p k k'"
  unfolding only_memory_def by blast

lemma only_memory_refl: "only_memory p k k"
  by (rule only_memoryI [where al = "allocations (procs k p)" and m = "ram k"]) (simp add: set_proc_def)

lemma only_memory_trans: "only_memory p k k' \<Longrightarrow> only_memory p k' k'' \<Longrightarrow> only_memory p k k''"
proof -
  assume "only_memory p k k'" "only_memory p k' k''"
  then obtain m al m' al' where "k' = set_proc p ((procs k p)\<lparr>allocations := al\<rparr>) (k\<lparr>ram := m\<rparr>)"
    "k'' = set_proc p ((procs k' p)\<lparr>allocations := al'\<rparr>) (k'\<lparr>ram := m'\<rparr>)"
    unfolding only_memory_def by blast
  then have "k'' = set_proc p ((procs k p)\<lparr>allocations := al'\<rparr>) (k\<lparr>ram := m'\<rparr>)" by (simp add: set_proc_def)
  then show ?thesis by (rule only_memoryI)
qed

lemma only_memory_ram: "only_memory p k (k\<lparr>ram := m\<rparr>)"
  by (rule only_memoryI [where al = "allocations (procs k p)" and m = m]) (simp add: set_proc_def)

lemma only_memory_kfree: "only_memory p k (kfree a k)"
  unfolding kfree_def by (rule only_memory_ram)

lemma only_memory_free: "only_memory p k (process_free p a k)"
proof (cases "process_get_allocation_by_addr p a k")
  case None
  then show ?thesis by (simp add: process_free_def only_memory_refl)
next
  case (Some x)
  obtain res m where r: "paging_map_to (process_directory p k) (alloc_ptr x) (alloc_ptr x)
      (paging_align_address (alloc_ptr x + alloc_size x)) 0 (ram k) = (res, m)" by fastforce
  let ?k = "k\<lparr>ram := m\<rparr>"
  have "process_allocation_unjoin p a ?k = set_proc p ((procs ?k p)\<lparr>allocations :=
      map (\<lambda>x. if alloc_ptr x = a then no_alloc else x) (allocations (procs ?k p))\<rparr>) (?k\<lparr>ram := m\<rparr>)"
    by (simp add: process_allocation_unjoin_def)
  then have "only_memory p ?k (process_allocation_unjoin p a ?k)" by (rule only_memoryI)
  then have "only_memory p k (kfree a (process_allocation_unjoin p a ?k))"
    by (rule only_memory_trans [OF only_memory_trans [OF only_memory_ram] only_memory_kfree])
  then show ?thesis by (simp add: process_free_def Some r Let_def only_memory_ram)
qed

lemma only_memory_fold:
  assumes "\<And>x k. only_memory p k (f x k)"
  shows "only_memory p k (fold f xs k)"
proof (induction xs arbitrary: k)
  case (Cons x xs)
  then show ?case using assms only_memory_trans by (simp, blast)
qed (simp add: only_memory_refl)

lemma only_memoryD:
  fixes k :: "'a task_state_scheme"
  assumes "only_memory p k k'"
  shows "tasks k' = tasks k" "task_head k' = task_head k" "task_tail k' = task_tail k" "current_task k' = current_task k"
    "elf_files k' = elf_files k" "task_state.more k' = task_state.more k"
    "filetype (procs k' p) = filetype (procs k p)" "process_ptr (procs k' p) = process_ptr (procs k p)"
    "process_stack (procs k' p) = process_stack (procs k p)" "process_task (procs k' p) = process_task (procs k p)"
    "process_id (procs k' p) = process_id (procs k p)" "q \<noteq> p \<Longrightarrow> procs k' q = procs k q"
  using assms unfolding only_memory_def by (auto simp: set_proc_def)

lemma kheap_rep_list_remove: "kheap_rep (task_list_remove t k) A = kheap_rep k A"
  by (simp add: task_list_remove_def Let_def)

lemma list_remove_rest:
  fixes k :: "'a task_state_scheme"
  shows "procs (task_list_remove t k) = procs k" "task_state.more (task_list_remove t k) = task_state.more k"
    "ram (task_list_remove t k) = ram k" "elf_files (task_list_remove t k) = elf_files k"
  by (simp_all add: task_list_remove_def Let_def set_task_def)

subsection \<open>Termination\<close>

lemma free_data_run:
  assumes "data_blocks k p own" and "\<forall>b \<in> set own. b < 25600"
  shows "process_free_program_data p k = (0, fold (\<lambda>b. kfree (blk_addr b)) own k)"
proof (cases "filetype (procs k p) = PROCESS_FILETYPE_ELF")
  case True
  then obtain e b where "own = [b, e]" "process_ptr (procs k p) = blk_addr e" "ef_memory (elf_files k (blk_addr e)) = blk_addr b"
    using assms(1) unfolding data_blocks_def by auto
  then show ?thesis
    using assms(2) True blk_addr_nonzero [of e]
    by (simp add: process_free_program_data_def process_free_elf_data_def elf_close_def)
next
  case False
  then show ?thesis
    using assms(1) by (auto simp: data_blocks_def process_free_program_data_def process_free_binary_data_def)
qed

lemma terminate_run:
  fixes k :: "'a process_state_scheme"
  assumes live: "process_live k A c d T p own s t" and entry: "ram k 0x6E00 AND HEAP_BLOCK_HAS_NEXT = 0"
    and ring: "task_ring k (xs @ blk_addr t # ys)" and prev: "prev_task (tasks k (blk_addr t)) = last (0 # xs)"
    and rest: "current_process k = p \<Longrightarrow> \<exists>q \<in> set ((processes k)[unat (process_id (procs k p)) := 0]). q \<noteq> 0"
  shows "\<exists>k'. process_terminate p k = Some (0, k')
    \<and> kheap_rep k' (A |` {b. (\<forall>a \<in> set (allocations (procs k p)). alloc_ptr a \<noteq> blk_addr b) \<and> b \<notin> set (own @ [s, t, c, d] @ T)})
    \<and> task_ring k' (xs @ ys) \<and> current_task k' = (if current_task k = blk_addr t then hd (ys @ xs @ [0]) else current_task k)
    \<and> processes k' = (processes k)[unat (process_id (procs k p)) := 0]
    \<and> current_process k' = (if current_process k = p then the (find (\<lambda>q. q \<noteq> 0) (processes k')) else current_process k)"
proof -
  note L = live [unfolded process_live_def]
  have ok: "process_ok k A c d T p" and own: "data_blocks k p own" and stk: "process_stack (procs k p) = blk_addr s"
    and tsk: "process_task (procs k p) = blk_addr t" and dist: "distinct (own @ [s] @ T @ [d, c] @ [t])"
    and dom: "set (own @ [s, t]) \<subseteq> dom A" and apart: "\<forall>a \<in> set (allocations (procs k p)). \<forall>x \<in> set (own @ [s, t]). alloc_ptr a \<noteq> blk_addr x"
    using L by blast+
  let ?al = "allocations (procs k p)"
  let ?A1 = "A |` {b. \<forall>a \<in> set ?al. alloc_ptr a \<noteq> blk_addr b}"
  have len: "length ?al = 1024" by (rule allocs_okD(1) [OF process_okD(5) [OF ok]])
  define k1 where "k1 = snd (process_terminate_allocations p k)"
  obtain k1' where "fold (\<lambda>i k. process_free p (alloc_ptr (allocations (procs k p) ! i)) k) [0..<1024] k = k1'"
    "process_ok k1' (released ?al 1024 A) c d T p"
    using terminate_loop [OF ok entry refl order_refl] by blast
  moreover have "released ?al 1024 A = ?A1" using len by (simp add: released_def all_set_conv_all_nth)
  ultimately have k1: "process_terminate_allocations p k = (0, k1)" "process_ok k1 ?A1 c d T p"
    by (simp_all add: k1_def process_terminate_allocations_def)
  have M1: "only_memory p k k1"
    unfolding k1_def process_terminate_allocations_def by (simp, rule only_memory_fold) (rule only_memory_free)
  note m1 = only_memoryD [OF M1]
  note ok1 = process_okD [OF k1(2)]
  let ?fs = "fold (\<lambda>b. kfree (blk_addr b))"
  have lt: "b < 25600" if "b \<in> set (own @ [s, t])" for b
    using live_blk [OF process_okD(1) [OF ok]] dom that by blast
  have own1: "data_blocks k1 p own" using own unfolding data_blocks_def m1 .
  have data: "process_free_program_data p k1 = (0, ?fs own k1)"
    by (rule free_data_run [OF own1]) (use lt in simp)
  define k2 where "k2 = ?fs (own @ [s]) k1"
  have M2: "only_memory p k1 k2" "only_memory p k1 (?fs own k1)"
    unfolding k2_def by (rule only_memory_fold, rule only_memory_kfree)+
  note m2 = only_memoryD [OF only_memory_trans [OF M1 M2(1)]] and mo = only_memoryD [OF only_memory_trans [OF M1 M2(2)]]
  have d1: "set (own @ [s]) \<subseteq> dom ?A1" "t \<in> dom ?A1" using dom apart by auto
  have dist1: "distinct (own @ [s])" using dist by simp
  have rep2: "kheap_rep k2 (?A1 |` (- set (own @ [s])))"
    unfolding k2_def by (rule kz.dealloc_all [OF ok1(1) dist1 d1(1)])
  have T1: "set (T @ [d, c]) \<subseteq> dom ?A1"
  proof
    fix x assume "x \<in> set (T @ [d, c])"
    then have "x \<in> set (c # d # T)" by auto
    then show "x \<in> dom ?A1" using ok1(4) by blast
  qed
  have disj: "set (T @ [d, c]) \<inter> set (own @ [s]) = {}" using dist by auto
  have wf2: "chunk_wf (ram k2) c d T"
  proof (rule chunk_same(1) [OF ok1(2)])
    show "same_blocks (c # d # T) (ram k2) (ram k1)"
      unfolding same_blocks_def k2_def
    proof (intro ballI allI impI)
      fix x and i :: nat assume x: "x \<in> set (c # d # T)" "i < 4096"
      have "x < 25600" using chunk_blocks [OF ok1(2)] x(1) by blast
      then show "ram (?fs (own @ [s]) k1) (blk_addr x + of_nat i) = ram k1 (blk_addr x + of_nat i)"
        using x(2) by (intro kfree_all_frame [OF ok1(1) dist1 d1(1)] live_not_table) linarith
    qed
  qed
  let ?A2 = "?A1 |` (- set (own @ [s]))"
  have T2: "set (T @ [d, c]) \<subseteq> dom ?A2" using T1 disj by auto
  define k3 where "k3 = ?fs (T @ [d, c]) k2"
  have k3: "paging_free_4gb (blk_addr c) k2 = k3"
    unfolding k3_def by (rule paging_free_4gb_fold [OF rep2 wf2]) (use T2 in auto)
  have rep3: "kheap_rep k3 (?A2 |` (- set (T @ [d, c])))"
    unfolding k3_def by (rule kz.dealloc_all [OF rep2 _ T2]) (use dist in simp)
  have M3: "only_memory p k2 k3" unfolding k3_def by (rule only_memory_fold, rule only_memory_kfree)
  note m3 = only_memoryD [OF only_memory_trans [OF only_memory_trans [OF M1 M2(1)] M3]]
  have dir: "page_directory (tasks k2 (blk_addr t)) = blk_addr c"
    using process_okD(3) [OF ok] by (simp add: process_directory_def tsk m2)
  define k4 where "k4 = task_list_remove (blk_addr t) k3"
  have ring3: "task_ring k3 (xs @ blk_addr t # ys)" using ring by (simp add: task_ring_def m3)
  have ring4: "task_ring k4 (xs @ ys)" "current_task k4 = (if current_task k = blk_addr t then hd (ys @ xs @ [0]) else current_task k)"
    using list_remove_ring(1,2) [OF ring3] prev unfolding k4_def by (simp_all add: m3)
  note r4 = list_remove_rest [of "blk_addr t" k3, folded k4_def]
  define k5 where "k5 = kfree (blk_addr t) k4"
  have tfree: "task_free (blk_addr t) k2 = k5" by (simp add: task_free_def Let_def dir k3 k5_def k4_def)
  have "\<forall>a \<in> set ?al. alloc_ptr a \<noteq> blk_addr t" using apart by simp
  then have tA: "(?A2 |` (- set (T @ [d, c]))) t = A t" using dist by (auto simp: restrict_map_def)
  obtain n where n: "A t = Some n" using dom by auto
  have rep5: "kheap_rep k5 ((?A2 |` (- set (T @ [d, c])))(t := None))"
    unfolding k5_def by (rule kfree_rep [of _ _ _ n]) (use rep3 tA n in \<open>simp_all add: k4_def kheap_rep_list_remove\<close>)
  have A5: "(?A2 |` (- set (T @ [d, c])))(t := None) =
      A |` {b. (\<forall>a \<in> set ?al. alloc_ptr a \<noteq> blk_addr b) \<and> b \<notin> set (own @ [s, t, c, d] @ T)}"
    by (auto simp: fun_eq_iff restrict_map_def)
  have M5: "only_memory p k4 k5" unfolding k5_def by (rule only_memory_kfree)
  note m5 = only_memoryD [OF M5]
  have more5: "task_state.more k5 = task_state.more k" "process_id (procs k5 p) = process_id (procs k p)"
    using m5 m3 r4 by simp_all
  have P5: "processes k5 = processes k" "current_process k5 = current_process k"
    using more5(1) by (cases k5; cases k; simp)+
  let ?ps = "(processes k)[unat (process_id (procs k p)) := 0]"
  define k6 where "k6 = k5\<lparr>processes := ?ps\<rparr>"
  have k2': "kfree (blk_addr s) (?fs own k1) = k2" by (simp add: k2_def)
  have run: "process_terminate p k = map_option (Pair 0) (process_unlink p k5)"
    by (cases "process_unlink p k5") (simp_all add: process_terminate_def k1(1) data mo stk k2' m2 tsk tfree)
  have R6: "kheap_rep k' B = kheap_rep k5 B" "task_ring k' zs = task_ring k4 zs" "current_task k' = current_task k4"
    if "k' = k6 \<or> (\<exists>q. k' = process_switch q k6)" for k' B zs
    using that m5(1-4) by (auto simp: kheap_rep_def task_ring_def k6_def process_switch_def)
  show ?thesis
  proof (cases "current_process k = p")
    case False
    then have "process_unlink p k5 = Some k6" by (simp add: process_unlink_def Let_def P5 more5(2) k6_def)
    then have "process_terminate p k = Some (0, k6)" using run by simp
    moreover have "processes k6 = ?ps" "current_process k6 = current_process k" by (simp_all add: k6_def P5)
    ultimately show ?thesis
      using rep5 ring4 R6 [of k6] False unfolding A5 by (intro exI [of _ k6]) simp
  next
    case True
    obtain q where q: "find (\<lambda>q. q \<noteq> 0) ?ps = Some q"
      using rest [OF True] by (cases "find (\<lambda>q. q \<noteq> 0) ?ps") (auto simp: find_None_iff)
    let ?k = "process_switch q k6"
    have "process_unlink p k5 = Some ?k"
      using q True by (simp add: process_unlink_def Let_def P5 more5(2) k6_def process_switch_to_any_def)
    then have "process_terminate p k = Some (0, ?k)" using run by simp
    moreover have "processes ?k = ?ps" "current_process ?k = q" by (simp_all add: k6_def process_switch_def)
    moreover have "?k = k6 \<or> (\<exists>q. ?k = process_switch q k6)" by blast
    note R = R6 [OF this]
    ultimately show ?thesis
      using rep5 ring4 R q True unfolding A5 by (intro exI [of _ ?k]) simp
  qed
qed

end
