(* ===== verification/ProcessLoad.thy ===== *)
theory ProcessLoad
  imports ProcessEnd Room
begin

text \<open>
  Bringing a loaded program into the address space of its task: what \<open>process_map_memory\<close> makes of the page
  tables, for flat binaries and for ELF images, and \<open>process_load_for_slot\<close> around it.
\<close>

subsection \<open>Address spaces\<close>

text \<open>
  An address space is the function from pages to page table entries.  \<open>mapped_range\<close> redirects \<open>n\<close> pages;
  \<open>elf_space\<close> does so for each program header in turn, rounding as the code does.
\<close>

definition mapped_range :: "u32 \<Rightarrow> u32 \<Rightarrow> nat \<Rightarrow> u32 \<Rightarrow> (u32 \<Rightarrow> u32) \<Rightarrow> u32 \<Rightarrow> u32" where
  "mapped_range virt phys n flags f w =
     (if unat (w - virt) < 4096 * n then (phys + (w - virt)) OR flags else f w)"

definition seg_pages :: "u32 \<Rightarrow> elf32_phdr \<Rightarrow> nat" where
  "seg_pages img ph = (unat (img + p_offset ph) mod 4096 + unat (p_memsz ph) + 4095) div 4096"

definition seg_flags :: "elf32_phdr \<Rightarrow> u32" where
  "seg_flags ph = (if p_flags ph AND PF_W \<noteq> 0 then 7 else 5)"

definition seg_map :: "u32 \<Rightarrow> elf32_phdr \<Rightarrow> (u32 \<Rightarrow> u32) \<Rightarrow> u32 \<Rightarrow> u32" where
  "seg_map img ph = mapped_range (paging_align_to_lower_page (p_vaddr ph))
     (paging_align_to_lower_page (img + p_offset ph)) (seg_pages img ph) (seg_flags ph)"

definition elf_space :: "u32 \<Rightarrow> elf32_phdr list \<Rightarrow> (u32 \<Rightarrow> u32) \<Rightarrow> u32 \<Rightarrow> u32" where
  "elf_space img phs f = fold (seg_map img) phs f"

definition seg_ok :: "u32 \<Rightarrow> elf32_phdr \<Rightarrow> bool" where
  \<comment> \<open>the segment does not wrap around the end of memory\<close>
  "seg_ok img ph \<longleftrightarrow> unat img + unat (p_offset ph) + unat (p_memsz ph) \<le> 4294963200"

lemma elf_space_cong: "f w = g w \<Longrightarrow> elf_space img phs f w = elf_space img phs g w"
  unfolding elf_space_def
proof (induction phs arbitrary: f g)
  case (Cons ph phs)
  have "seg_map img ph f w = seg_map img ph g w" using Cons.prems by (simp add: seg_map_def mapped_range_def)
  then show ?case using Cons.IH [of "seg_map img ph f" "seg_map img ph g"] by simp
qed simp

definition off_tables :: "nat list \<Rightarrow> u32 \<Rightarrow> nat \<Rightarrow> bool" where
  \<comment> \<open>the \<open>n\<close> bytes at \<open>a\<close> lie in none of the page tables \<open>T\<close>\<close>
  "off_tables T a n \<longleftrightarrow> (\<forall>j < n. \<forall>t \<in> set T. 4096 \<le> unat (a + of_nat j - blk_addr t))"

lemma off_tables_part: "off_tables T a n \<Longrightarrow> i + l \<le> n \<Longrightarrow> off_tables T (a + of_nat i) l"
  by (auto simp: off_tables_def add.assoc simp flip: of_nat_add)

lemma phdr_at_cong:
  assumes "\<And>j. j < 32 \<Longrightarrow> m' (a + of_nat j) = m (a + of_nat j)"
  shows "phdr_at m' a = phdr_at m a"
proof -
  have "load32 m' (a + of_nat j) = load32 m (a + of_nat j)" if "j + 3 < 32" for j
    using assms [of j] assms [of "j + 1"] assms [of "j + 2"] assms [of "j + 3"] that
    by (simp add: load32_def ac_simps)
  from this [of 0] this [of 4] this [of 8] this [of 12] this [of 16] this [of 20] this [of 24] this [of 28]
  show ?thesis by (simp add: phdr_at_def)
qed

lemma seg_end:
  assumes "seg_ok img ph"
  shows "paging_align_address (img + p_offset ph + p_memsz ph) =
      paging_align_to_lower_page (img + p_offset ph) + of_nat (4096 * seg_pages img ph)"
    and "unat (paging_align_to_lower_page (img + p_offset ph)) + 4096 * seg_pages img ph < 4294967296"
proof -
  let ?a = "img + p_offset ph" and ?s = "unat (p_memsz ph)"
  have bound: "unat img + unat (p_offset ph) + ?s \<le> 4294963200" using assms by (simp add: seg_ok_def)
  then have a: "unat ?a = unat img + unat (p_offset ph)" by (simp add: unat_add32)
  have as: "unat (?a + p_memsz ph) = unat ?a + ?s" using bound a by (simp add: unat_add32)
  have low: "unat (paging_align_to_lower_page ?a) = 4096 * (unat ?a div 4096)" by (rule aligned_to_lower(2))
  have split: "unat ?a + ?s + 4095 = unat ?a div 4096 * 4096 + (unat ?a mod 4096 + ?s + 4095)" by simp
  have up: "(unat ?a + ?s + 4095) div 4096 = unat ?a div 4096 + seg_pages img ph"
    unfolding split seg_pages_def by (subst div_mult_self3) simp_all
  have top: "4096 * ((unat ?a + ?s + 4095) div 4096) < 4294967296"
  proof -
    have "unat ?a + ?s + 4095 < 4294967296" using bound a by linarith
    then show ?thesis by (meson div_times_less_eq_dividend le_less_trans mult.commute times_div_less_eq_dividend)
  qed
  have "unat (paging_align_address (?a + p_memsz ph)) = 4096 * ((unat ?a + ?s + 4095) div 4096)"
    using bound a unfolding paging_align_heap by (simp only: unat_heap_align as) simp
  moreover have sum: "unat (paging_align_to_lower_page ?a) + 4096 * seg_pages img ph = 4096 * ((unat ?a + ?s + 4095) div 4096)"
    unfolding low up by simp
  then show "unat (paging_align_to_lower_page ?a) + 4096 * seg_pages img ph < 4294967296" using top by simp
  moreover from this have "unat (paging_align_to_lower_page ?a + of_nat (4096 * seg_pages img ph)) =
      unat (paging_align_to_lower_page ?a) + 4096 * seg_pages img ph"
    by (simp only: unat_add32 unat_of_nat32) simp
  ultimately show "paging_align_address (?a + p_memsz ph) = paging_align_to_lower_page ?a + of_nat (4096 * seg_pages img ph)"
    unfolding word32_eq_iff_unat using sum by simp
qed

subsection \<open>Mapping the program\<close>

definition elf_phdrs :: "mem \<Rightarrow> u32 \<Rightarrow> nat \<Rightarrow> nat \<Rightarrow> elf32_phdr list" where
  \<comment> \<open>the program headers \<open>i\<close>, ..., \<open>i + n - 1\<close> of the table at \<open>ph\<close>\<close>
  "elf_phdrs m ph i n = map (\<lambda>j. phdr_at m (ph + of_nat (32 * j))) [i..<i + n]"

lemma elf_phdrs_Suc: "elf_phdrs m ph i (Suc n) = phdr_at m (ph + of_nat (32 * i)) # elf_phdrs m ph (Suc i) n"
proof -
  have "[i..<i + Suc n] = i # [Suc i..<Suc i + n]" by (simp add: upt_conv_Cons)
  then show ?thesis by (simp add: elf_phdrs_def del: upt_Suc)
qed

lemma elf_phdrs_cong:
  assumes "\<And>j. j < 32 * n \<Longrightarrow> m' (ph + of_nat (32 * i) + of_nat j) = m (ph + of_nat (32 * i) + of_nat j)"
  shows "elf_phdrs m' ph i n = elf_phdrs m ph i n"
  unfolding elf_phdrs_def
proof (rule map_cong [OF refl])
  fix l assume "l \<in> set [i..<i + n]"
  then have l: "i \<le> l" "l < i + n" by simp_all
  show "phdr_at m' (ph + of_nat (32 * l)) = phdr_at m (ph + of_nat (32 * l))"
  proof (rule phdr_at_cong)
    fix j :: nat assume j: "j < 32"
    have e: "ph + of_nat (32 * l) + of_nat j = ph + of_nat (32 * i) + of_nat (32 * (l - i) + j)"
      unfolding add.assoc of_nat_add [symmetric] using l by simp
    show "m' (ph + of_nat (32 * l) + of_nat j) = m (ph + of_nat (32 * l) + of_nat j)"
      unfolding e by (rule assms) (use l j in simp)
  qed
qed

lemma as_u32_flags: "as_u32 7 = 7" "as_u32 5 = 5" by (simp_all add: as_u32_def)

lemma map_elf_loop_run:
  fixes k :: "'a task_state_scheme"
  assumes "chunk_wf (ram k) c d T" and dir: "process_directory p k = blk_addr c"
    and img: "ef_memory (elf_files k (process_ptr (procs k p))) = img"
    and "off_tables T (ph + of_nat (32 * i)) (32 * n)" and "\<forall>x \<in> set (elf_phdrs (ram k) ph i n). seg_ok img x"
  shows "\<exists>m'. map_elf_loop n i ph p res k = (if n = 0 then res else 0, k\<lparr>ram := m'\<rparr>) \<and> chunk_wf m' c d T
    \<and> (\<forall>w. w mod 4096 = 0 \<longrightarrow> paging_get (blk_addr d) w m' =
         elf_space img (elf_phdrs (ram k) ph i n) (\<lambda>w. paging_get (blk_addr d) w (ram k)) w)
    \<and> (\<forall>a. (\<forall>t \<in> set T. 4096 \<le> unat (a - blk_addr t)) \<longrightarrow> m' a = ram k a)"
  using assms
proof (induction n arbitrary: i k res)
  case 0
  then show ?case by (intro exI [of _ "ram k"]) (simp add: elf_phdrs_def elf_space_def)
next
  case (Suc n)
  let ?ph = "phdr_at (ram k) (ph + of_nat (32 * i))" and ?rest = "elf_phdrs (ram k) ph (Suc i) n"
  let ?v = "paging_align_to_lower_page (p_vaddr ?ph)" and ?f = "paging_align_to_lower_page (img + p_offset ?ph)"
  let ?n = "seg_pages img ?ph" and ?fl = "if p_flags ?ph AND PF_W \<noteq> 0 then 7 else 5 :: int"
  have ok: "seg_ok img ?ph" "\<forall>x \<in> set ?rest. seg_ok img x"
    using Suc.prems(5) by (simp_all add: elf_phdrs_Suc)
  obtain m where m: "paging_map_to (blk_addr c) ?v ?f (?f + of_nat (4096 * ?n)) ?fl (ram k) = (0, m)" "chunk_wf m c d T"
    "\<And>w. w mod 4096 = 0 \<Longrightarrow> paging_get (blk_addr d) w m =
       (if unat (w - ?v) < 4096 * ?n then (?f + (w - ?v)) OR as_u32 ?fl else paging_get (blk_addr d) w (ram k))"
    "\<And>a. \<forall>t \<in> set T. 4096 \<le> unat (a - blk_addr t) \<Longrightarrow> m a = ram k a"
    by (rule map_pages [OF Suc.prems(1) aligned_to_lower(1) [of "p_vaddr ?ph"] aligned_to_lower(1) seg_end(2) [OF ok(1)], of ?fl]) blast
  have fl: "(if p_flags ?ph AND PF_W \<noteq> 0 then uint (PAGING_IS_PRESENT OR PAGING_ACCESS_FROM_ALL) OR uint PAGING_IS_WRITEABLE
      else uint (PAGING_IS_PRESENT OR PAGING_ACCESS_FROM_ALL)) = ?fl"
    by simp
  have phys: "elf_phdr_phys_address (process_ptr (procs k p)) ?ph k = img + p_offset ?ph"
    using Suc.prems(3) by (simp add: elf_phdr_phys_address_def elf_memory_def)
  have at: "ph + 32 * of_nat i = ph + of_nat (32 * i)" by simp
  have run: "map_elf_loop (Suc n) i ph p res k = map_elf_loop n (Suc i) ph p 0 (k\<lparr>ram := m\<rparr>)"
    unfolding map_elf_loop.simps Let_def at phys fl Suc.prems(2) seg_end(1) [OF ok(1)] m(1) by simp
  have off: "off_tables T (ph + of_nat (32 * Suc i)) (32 * n)"
    using off_tables_part [OF Suc.prems(4), of 32 "32 * n"] by (simp add: ac_simps)
  have same: "elf_phdrs m ph (Suc i) n = ?rest"
    by (rule elf_phdrs_cong, rule m(4)) (use off in \<open>simp add: off_tables_def\<close>)
  obtain m' where m': "map_elf_loop n (Suc i) ph p 0 (k\<lparr>ram := m\<rparr>) = (if n = 0 then 0 else 0, k\<lparr>ram := m, ram := m'\<rparr>)"
    "chunk_wf m' c d T" "\<forall>w. w mod 4096 = 0 \<longrightarrow> paging_get (blk_addr d) w m' =
         elf_space img ?rest (\<lambda>w. paging_get (blk_addr d) w m) w"
    "\<forall>a. (\<forall>t \<in> set T. 4096 \<le> unat (a - blk_addr t)) \<longrightarrow> m' a = m a"
    using Suc.IH [of "k\<lparr>ram := m\<rparr>" "Suc i" 0] m(2) Suc.prems(2,3) off ok(2) same
    by (auto simp: process_directory_def)
  have "paging_get (blk_addr d) w m' = elf_space img (elf_phdrs (ram k) ph i (Suc n)) (\<lambda>w. paging_get (blk_addr d) w (ram k)) w"
    if w: "w mod 4096 = 0" for w
  proof -
    have "paging_get (blk_addr d) w m = seg_map img ?ph (\<lambda>w. paging_get (blk_addr d) w (ram k)) w"
      unfolding m(3) [OF w] seg_map_def mapped_range_def seg_flags_def by (simp add: as_u32_flags)
    then have "elf_space img ?rest (\<lambda>w. paging_get (blk_addr d) w m) w =
        elf_space img ?rest (seg_map img ?ph (\<lambda>w. paging_get (blk_addr d) w (ram k))) w"
      by (rule elf_space_cong)
    then show ?thesis using m'(3) w by (simp add: elf_phdrs_Suc elf_space_def)
  qed
  then show ?case using run m' m(4) by (intro exI [of _ m']) simp
qed

text \<open>
  \<open>program_ok k A p b\<close>: the program of \<open>p\<close> lies in the live blocks from \<open>b\<close> on; an ELF image holds its
  table of program headers, and no segment wraps around.  \<open>program_map\<close> is the address space that maps it.
\<close>

definition program_image :: "'a task_state_scheme \<Rightarrow> u32 \<Rightarrow> u32" where
  "program_image k p = (if filetype (procs k p) = PROCESS_FILETYPE_ELF
     then ef_memory (elf_files k (process_ptr (procs k p))) else process_ptr (procs k p))"

definition program_ok :: "'a task_state_scheme \<Rightarrow> (nat \<rightharpoonup> nat) \<Rightarrow> u32 \<Rightarrow> nat \<Rightarrow> bool" where
  "program_ok k A p b \<longleftrightarrow> program_image k p = blk_addr b \<and>
     (if filetype (procs k p) = PROCESS_FILETYPE_ELF
      then (\<exists>n. A b = Some n \<and> unat (e_phoff (header_at (ram k) (blk_addr b))) \<noteq> 0
             \<and> unat (e_phoff (header_at (ram k) (blk_addr b))) + 32 * unat (e_phnum (header_at (ram k) (blk_addr b))) \<le> n * 4096)
           \<and> (\<forall>x \<in> set (phdrs (ram k) (blk_addr b)). seg_ok (blk_addr b) x)
      else filetype (procs k p) = PROCESS_FILETYPE_BINARY \<and> A b = Some (blocks_of (process_size (procs k p))))"

definition program_map :: "'a task_state_scheme \<Rightarrow> u32 \<Rightarrow> (u32 \<Rightarrow> u32) \<Rightarrow> u32 \<Rightarrow> u32" where
  "program_map k p f =
     (if filetype (procs k p) = PROCESS_FILETYPE_ELF then elf_space (program_image k p) (phdrs (ram k) (program_image k p)) f
      else mapped_range 0x400000 (program_image k p) (blocks_of (process_size (procs k p))) 7 f)"

lemma elf_phdrs_all:
  assumes "e_phoff (header_at m h) \<noteq> 0"
  shows "elf_phdrs m (elf_pheader m h) 0 (unat (e_phnum (header_at m h))) = phdrs m h"
  using assms by (simp add: elf_phdrs_def phdrs_def elf_program_header_def as_u32_def)

lemma live_off_tables:
  assumes "kheap_rep k A" and "A b = Some n" and "\<forall>t \<in> set T. A t = Some 1" and "b \<notin> set T" and "i + l \<le> n * 4096"
  shows "off_tables T (blk_addr b + of_nat i) l"
  unfolding off_tables_def
proof (intro allI impI ballI)
  fix j t assume "j < l" and t: "t \<in> set T"
  then have x: "i + j < n * 4096" using assms(5) by linarith
  have "b \<noteq> t" "A t = Some 1" using t assms(3,4) by auto
  then have "4096 \<le> unat (blk_addr b + of_nat (i + j) - blk_addr t)"
    by (intro live_other_page [OF assms(1,2) _ _ x])
  then show "4096 \<le> unat (blk_addr b + of_nat i + of_nat j - blk_addr t)" by (simp add: add.assoc)
qed

lemma map_program_run:
  fixes k :: "'a task_state_scheme"
  assumes rep: "kheap_rep k A" and wf: "chunk_wf (ram k) c d T" and live: "\<forall>t \<in> set T. A t = Some 1"
    and dir: "process_directory p k = blk_addr c" and ok: "program_ok k A p b" and b: "b \<notin> set T"
  shows "\<exists>m. (if filetype (procs k p) = PROCESS_FILETYPE_BINARY then Some (process_map_binary p k)
       else if filetype (procs k p) = PROCESS_FILETYPE_ELF then Some (process_map_elf p k) else None) = Some (0, k\<lparr>ram := m\<rparr>)
    \<and> chunk_wf m c d T
    \<and> (\<forall>w. w mod 4096 = 0 \<longrightarrow> paging_get (blk_addr d) w m = program_map k p (\<lambda>w. paging_get (blk_addr d) w (ram k)) w)
    \<and> (\<forall>a. (\<forall>t \<in> set T. 4096 \<le> unat (a - blk_addr t)) \<longrightarrow> m a = ram k a)"
proof (cases "filetype (procs k p) = PROCESS_FILETYPE_ELF")
  case True
  let ?h = "blk_addr b" and ?n = "unat (e_phnum (header_at (ram k) (blk_addr b)))"
  have img: "ef_memory (elf_files k (process_ptr (procs k p))) = ?h"
    and ph: "e_phoff (header_at (ram k) ?h) \<noteq> 0" and segs: "\<forall>x \<in> set (phdrs (ram k) ?h). seg_ok ?h x"
    using ok True by (auto simp: program_ok_def program_image_def)
  obtain n where n: "A b = Some n" "unat (e_phoff (header_at (ram k) ?h)) + 32 * ?n \<le> n * 4096"
    using ok True by (auto simp: program_ok_def)
  have "off_tables T (?h + of_nat (unat (e_phoff (header_at (ram k) ?h)))) (32 * ?n)"
    by (rule live_off_tables [OF rep n(1) live b n(2)])
  then have off: "off_tables T (elf_pheader (ram k) ?h + of_nat (32 * 0)) (32 * ?n)"
    using ph by (simp add: elf_pheader_def)
  have segs': "\<forall>x \<in> set (elf_phdrs (ram k) (elf_pheader (ram k) ?h) 0 ?n). seg_ok ?h x"
    using segs by (simp only: elf_phdrs_all [OF ph])
  have run: "process_map_elf p k = map_elf_loop ?n 0 (elf_pheader (ram k) ?h) p 0 k"
    by (simp add: process_map_elf_def elf_header_def img Let_def)
  show ?thesis
    using map_elf_loop_run [OF wf dir img off segs', of 0] True
    unfolding run [symmetric] elf_phdrs_all [OF ph] by (simp add: program_map_def program_image_def img)
next
  case False
  then have B: "filetype (procs k p) = PROCESS_FILETYPE_BINARY" "process_ptr (procs k p) = blk_addr b"
    "A b = Some (blocks_of (process_size (procs k p)))"
    using ok by (auto simp: program_ok_def program_image_def)
  let ?n = "blocks_of (process_size (procs k p))" and ?x = "blk_addr b"
  have bn: "b + ?n \<le> 25600" "b < 25600" using kheap_rep_pos [OF rep B(3)] by auto
  obtain m where m: "paging_map_to (blk_addr c) 0x400000 ?x (?x + of_nat (4096 * ?n)) 7 (ram k) = (0, m)" "chunk_wf m c d T"
    "\<And>w. w mod 4096 = 0 \<Longrightarrow> paging_get (blk_addr d) w m =
       (if unat (w - 0x400000) < 4096 * ?n then (?x + (w - 0x400000)) OR as_u32 7 else paging_get (blk_addr d) w (ram k))"
    "\<And>a. \<forall>t \<in> set T. 4096 \<le> unat (a - blk_addr t) \<Longrightarrow> m a = ram k a"
    by (rule map_pages [OF wf _ blk_addr_aligned [OF bn(2)] region_end(2) [OF bn(1)], of "0x400000" 7]) (simp, blast)
  have "process_map_binary p k = (0, k\<lparr>ram := m\<rparr>)"
    using m(1) by (simp add: process_map_binary_def Let_def dir B(2) region_end(1) [OF bn(1)])
  then show ?thesis
    using m(2-4) B(1) False by (intro exI [of _ m]) (simp add: program_map_def program_image_def B(2) mapped_range_def as_u32_flags)
qed

lemma process_map_memory_run:
  fixes k :: "'a task_state_scheme"
  assumes rep: "kheap_rep k A" and wf: "chunk_wf (ram k) c d T" and live: "\<forall>t \<in> set T. A t = Some 1"
    and dir: "process_directory p k = blk_addr c" and ok: "program_ok k A p b" and b: "b \<notin> set T"
    and stack: "process_stack (procs k p) = blk_addr s" "s + 4 \<le> 25600"
  shows "\<exists>m. process_map_memory p k = Some (0, k\<lparr>ram := m\<rparr>) \<and> chunk_wf m c d T
    \<and> (\<forall>w. w mod 4096 = 0 \<longrightarrow> paging_get (blk_addr d) w m =
         mapped_range 0x3FB000 (blk_addr s) 4 7 (program_map k p (\<lambda>w. paging_get (blk_addr d) w (ram k))) w)
    \<and> (\<forall>a. (\<forall>t \<in> set T. 4096 \<le> unat (a - blk_addr t)) \<longrightarrow> m a = ram k a)"
proof -
  obtain m where m: "(if filetype (procs k p) = PROCESS_FILETYPE_BINARY then Some (process_map_binary p k)
       else if filetype (procs k p) = PROCESS_FILETYPE_ELF then Some (process_map_elf p k) else None) = Some (0, k\<lparr>ram := m\<rparr>)"
    "chunk_wf m c d T"
    "\<forall>w. w mod 4096 = 0 \<longrightarrow> paging_get (blk_addr d) w m = program_map k p (\<lambda>w. paging_get (blk_addr d) w (ram k)) w"
    "\<forall>a. (\<forall>t \<in> set T. 4096 \<le> unat (a - blk_addr t)) \<longrightarrow> m a = ram k a"
    using map_program_run [OF rep wf live dir ok b] by blast
  have four: "blocks_of 16384 = 4" by (simp add: blocks_of_def)
  have sl: "s < 25600" using stack(2) by simp
  have reg: "s + blocks_of 16384 \<le> 25600" using stack(2) four by simp
  obtain m' where m': "paging_map_to (blk_addr c) 0x3FB000 (blk_addr s) (blk_addr s + of_nat (4096 * 4)) 7 m = (0, m')" "chunk_wf m' c d T"
    "\<And>w. w mod 4096 = 0 \<Longrightarrow> paging_get (blk_addr d) w m' =
       (if unat (w - 0x3FB000) < 4096 * 4 then (blk_addr s + (w - 0x3FB000)) OR as_u32 7 else paging_get (blk_addr d) w m)"
    "\<And>a. \<forall>t \<in> set T. 4096 \<le> unat (a - blk_addr t) \<Longrightarrow> m' a = m a"
    by (rule map_pages [OF m(2) _ blk_addr_aligned [OF sl] region_end(2) [OF reg, unfolded four], of "0x3FB000" 7]) (simp, blast)
  have e: "paging_align_address (blk_addr s + 0x4000) = blk_addr s + of_nat (4096 * 4)"
    using region_end(1) [OF reg] unfolding four by simp
  have dir': "process_directory p (k\<lparr>ram := m\<rparr>) = blk_addr c" using dir by (simp add: process_directory_def)
  have "process_map_memory p k = Some (0, k\<lparr>ram := m\<rparr>\<lparr>ram := m'\<rparr>)"
    using m(1) m'(1) by (simp add: process_map_memory_def Let_def dir' stack(1) e)
  then show ?thesis
    using m'(2-4) m(3,4) by (intro exI [of _ m']) (simp add: mapped_range_def as_u32_flags)
qed

subsection \<open>Loading into a slot\<close>

lemma strncpy_loop_frame:
  assumes "0 \<le> i" and "i < count" and "count < 2147483648"
  shows "0 \<le> fst (strncpy_loop m dest src i count) \<and> fst (strncpy_loop m dest src i count) < count
    \<and> (\<forall>a. nat count \<le> unat (a - dest) \<longrightarrow> snd (strncpy_loop m dest src i count) a = m a)"
  using assms
proof (induction m dest src i count rule: strncpy_loop.induct)
  case (1 m dest src i count)
  have off: "a \<noteq> dest + as_u32 i" if "nat count \<le> unat (a - dest)" for a
  proof
    assume "a = dest + as_u32 i"
    then have "unat (a - dest) = nat i" using "1.prems" by (simp add: unat_as_u32)
    then show False using that "1.prems" by simp
  qed
  show ?case
  proof (cases "i < count - 1 \<and> m (src + as_u32 i) \<noteq> 0")
    case True
    let ?m = "m(dest + as_u32 i := m (src + as_u32 i))"
    have step: "strncpy_loop m dest src i count = strncpy_loop ?m dest src (i + 1) count"
      using True by (subst strncpy_loop.simps) simp
    have "0 \<le> fst (strncpy_loop ?m dest src (i + 1) count) \<and> fst (strncpy_loop ?m dest src (i + 1) count) < count
      \<and> (\<forall>a. nat count \<le> unat (a - dest) \<longrightarrow> snd (strncpy_loop ?m dest src (i + 1) count) a = ?m a)"
      using True "1.prems" by (intro "1.IH") simp_all
    then show ?thesis unfolding step using off by simp
  next
    case False
    then have "strncpy_loop m dest src i count = (i, m)" by (subst strncpy_loop.simps) auto
    then show ?thesis using "1.prems" by simp
  qed
qed

lemma strncpy_frame:
  assumes "0 < count" and "count < 2147483648" and "nat count \<le> unat (a - dest)"
  shows "snd (strncpy m dest src count) a = m a"
proof -
  obtain i m' where r: "strncpy_loop m dest src 0 count = (i, m')" by fastforce
  note f = strncpy_loop_frame [of 0 count m dest src, unfolded r, OF _ assms(1,2)]
  have "a \<noteq> dest + as_u32 i"
  proof
    assume "a = dest + as_u32 i"
    then have "unat (a - dest) = nat i" using f assms(2) by (simp add: unat_as_u32)
    moreover have "nat i < nat count" using f assms(1) by (simp add: nat_mono_iff)
    ultimately show False using assms(3) by simp
  qed
  then show ?thesis using f assms(3) by (simp add: strncpy_def r)
qed

lemma header_at_cong:
  assumes "\<And>j. j < 52 \<Longrightarrow> m' (a + of_nat j) = m (a + of_nat j)"
  shows "header_at m' a = header_at m a"
proof -
  have "load32 m' (a + of_nat j) = load32 m (a + of_nat j)" if "j + 3 < 52" for j
    using assms [of j] assms [of "j + 1"] assms [of "j + 2"] assms [of "j + 3"] that
    by (simp add: load32_def ac_simps)
  note w = this [of 20] this [of 24] this [of 28] this [of 32] this [of 36]
  have "load16 m' (a + of_nat j) = load16 m (a + of_nat j)" if "j + 1 < 52" for j
    using assms [of j] assms [of "j + 1"] that by (simp add: load16_def ac_simps)
  note h = this [of 16] this [of 18] this [of 40] this [of 42] this [of 44] this [of 46] this [of 48] this [of 50]
  have "map (\<lambda>i. m' (a + of_nat i)) [0..<16] = map (\<lambda>i. m (a + of_nat i)) [0..<16]"
    by (rule map_cong [OF refl]) (simp add: assms)
  then show ?thesis using w h by (simp add: header_at_def del: map_eq_conv)
qed

lemma program_cong:
  fixes k k' :: "'a task_state_scheme"
  assumes rep: "kheap_rep k A" and ok: "program_ok k A p b" and A': "A' b = A b"
    and fields: "filetype (procs k' p) = filetype (procs k p)" "process_ptr (procs k' p) = process_ptr (procs k p)"
      "process_size (procs k' p) = process_size (procs k p)" "elf_files k' = elf_files k"
    and same: "\<forall>n x. A b = Some n \<longrightarrow> x < n * 4096 \<longrightarrow> ram k' (blk_addr b + of_nat x) = ram k (blk_addr b + of_nat x)"
  shows "program_ok k' A' p b" "program_map k' p f = program_map k p f" "entry_point k' p = entry_point k p"
proof -
  have bytes: "A b = Some n \<Longrightarrow> x < n * 4096 \<Longrightarrow> ram k' (blk_addr b + of_nat x) = ram k (blk_addr b + of_nat x)" for n x
    using same by blast
  have img: "program_image k' p = program_image k p" "program_image k p = blk_addr b"
    using fields ok by (simp add: program_image_def, simp add: program_ok_def)
  have "program_ok k' A' p b \<and> program_map k' p f = program_map k p f \<and> entry_point k' p = entry_point k p"
  proof (cases "filetype (procs k p) = PROCESS_FILETYPE_ELF")
    case True
    let ?h = "blk_addr b"
    obtain n where n: "A b = Some n" "unat (e_phoff (header_at (ram k) ?h)) \<noteq> 0"
      "unat (e_phoff (header_at (ram k) ?h)) + 32 * unat (e_phnum (header_at (ram k) ?h)) \<le> n * 4096"
      using ok True by (auto simp: program_ok_def)
    have pos: "0 < n" using kheap_rep_pos [OF rep n(1)] by simp
    have hdr: "header_at (ram k') ?h = header_at (ram k) ?h"
      by (rule header_at_cong, rule bytes [OF n(1)]) (use pos in linarith)
    have ph: "e_phoff (header_at (ram k) ?h) \<noteq> 0" using n(2) by auto
    have pt: "elf_pheader (ram k) ?h = ?h + of_nat (unat (e_phoff (header_at (ram k) ?h)))" using ph by (simp add: elf_pheader_def)
    have "elf_phdrs (ram k') (elf_pheader (ram k) ?h) 0 (unat (e_phnum (header_at (ram k) ?h))) =
        elf_phdrs (ram k) (elf_pheader (ram k) ?h) 0 (unat (e_phnum (header_at (ram k) ?h)))"
    proof (rule elf_phdrs_cong)
      fix j assume "j < 32 * unat (e_phnum (header_at (ram k) ?h))"
      then have "ram k' (?h + of_nat (unat (e_phoff (header_at (ram k) ?h)) + j)) = ram k (?h + of_nat (unat (e_phoff (header_at (ram k) ?h)) + j))"
        by (intro bytes [OF n(1)]) (use n(3) in linarith)
      then show "ram k' (elf_pheader (ram k) ?h + of_nat (32 * 0) + of_nat j) = ram k (elf_pheader (ram k) ?h + of_nat (32 * 0) + of_nat j)"
        by (simp add: pt add.assoc)
    qed
    then have phs: "phdrs (ram k') ?h = phdrs (ram k) ?h"
      using elf_phdrs_all [of "ram k" ?h] elf_phdrs_all [of "ram k'" ?h] ph by (simp add: hdr elf_pheader_def)
    have "elf_header (process_ptr (procs k p)) k = ?h" using img(2) True by (simp add: program_image_def elf_header_def)
    then show ?thesis
      using ok True img fields by (simp add: program_ok_def program_map_def entry_point_def elf_header_def A' hdr phs)
  next
    case False
    then show ?thesis using ok img fields by (simp add: program_ok_def program_map_def entry_point_def A')
  qed
  then show "program_ok k' A' p b" "program_map k' p f = program_map k p f" "entry_point k' p = entry_point k p" by blast+
qed

lemma program_map_at: "f w = g w \<Longrightarrow> program_map k p f w = program_map k p g w"
  using elf_space_cong [of f w g] by (simp add: program_map_def mapped_range_def)

text \<open>
  \<open>process_loaded\<close>: from the state \<open>k\<close>, in which the data of the process \<open>p\<close> is loaded and the stack \<open>s\<close> not yet
  allocated, to \<open>k'\<close> the process got its stack, a task \<open>t\<close> with the address space of its program, and its slot.
\<close>

definition process_loaded :: "'a process_state_scheme \<Rightarrow> (nat \<rightharpoonup> nat) \<Rightarrow> u32 list \<Rightarrow> int \<Rightarrow> nat \<Rightarrow> nat \<Rightarrow> nat \<Rightarrow> nat \<Rightarrow> nat
    \<Rightarrow> nat list \<Rightarrow> 'a process_state_scheme \<Rightarrow> bool" where
  "process_loaded k A ts slot pb s t c d T k' \<longleftrightarrow>
     (let p = blk_addr pb
      in processes k' = (processes k)[nat slot := p] \<and> current_process k' = current_process k
       \<and> process_id (procs k' p) = word_of_int slot \<and> process_stack (procs k' p) = blk_addr s
       \<and> process_task (procs k' p) = blk_addr t \<and> filetype (procs k' p) = filetype (procs k p)
       \<and> process_ptr (procs k' p) = process_ptr (procs k p) \<and> process_size (procs k' p) = process_size (procs k p)
       \<and> elf_files k' = elf_files k \<and> allocations (procs k' p) = replicate 1024 no_alloc
       \<and> A s = None \<and> (\<forall>x \<in> set (t # c # d # T). (A(s \<mapsto> 4)) x = None) \<and> t \<notin> set (c # d # T)
       \<and> task_ring k' (ts @ [blk_addr t]) \<and> task_process (tasks k' (blk_addr t)) = p
       \<and> prev_task (tasks k' (blk_addr t)) = last (0 # ts)
       \<and> task_regs (tasks k' (blk_addr t)) = zero_registers\<lparr>r_ip := entry_point k p, r_ss := 0x23, r_cs := 0x1B, r_esp := 0x3FF000\<rparr>
       \<and> process_ok k' (A(s \<mapsto> 4) ++ ones (t # c # d # T)) c d T p \<and> dir_present (ram k') d
       \<and> (\<forall>w. w mod 4096 = 0 \<longrightarrow> paging_get (blk_addr d) w (ram k') =
            mapped_range 0x3FB000 (blk_addr s) 4 7 (program_map k p (\<lambda>w. w OR 5)) w)
       \<and> (\<forall>x < 16384. ram k' (blk_addr s + of_nat x) = 0)
       \<and> (\<forall>a. stable A a \<longrightarrow> 108 \<le> unat (a - (p + 2)) \<longrightarrow> ram k' a = ram k a))"

lemma loaded_live:
  assumes loaded: "process_loaded k A ts slot pb s t c d T k'" and own: "data_blocks k (blk_addr pb) own"
    and fresh: "distinct own" "set own \<subseteq> dom A"
  shows "process_live k' (A(s \<mapsto> 4) ++ ones (t # c # d # T)) c d T (blk_addr pb) own s t"
proof -
  note Q = loaded [unfolded process_loaded_def Let_def]
  let ?A = "A(s \<mapsto> 4) ++ ones (t # c # d # T)"
  have ok: "process_ok k' ?A c d T (blk_addr pb)" and new: "A s = None" "\<forall>x \<in> set (t # c # d # T). (A(s \<mapsto> 4)) x = None" "t \<notin> set (c # d # T)"
    and al: "allocations (procs k' (blk_addr pb)) = replicate 1024 no_alloc"
    and data: "filetype (procs k' (blk_addr pb)) = filetype (procs k (blk_addr pb))"
      "process_ptr (procs k' (blk_addr pb)) = process_ptr (procs k (blk_addr pb))" "elf_files k' = elf_files k"
    using Q by blast+
  have wf: "chunk_wf (ram k') c d T" by (rule process_okD(2) [OF ok])
  have cdT: "distinct (T @ [d, c])" using chunk_wfD [OF wf] dir_wfD(3,4) [OF chunk_wfD(1) [OF wf]] by auto
  have apart: "x \<notin> set (s # t # c # d # T)" if "x \<in> set own" for x
  proof
    have x: "A x \<noteq> None" using fresh(2) that by blast
    assume "x \<in> set (s # t # c # d # T)"
    then have "x = s \<or> (A(s \<mapsto> 4)) x = None" using new(2) by auto
    then show False using x new(1) by (auto split: if_splits)
  qed
  have s: "s \<notin> set (t # c # d # T)" using new(2) by fastforce
  have "distinct (own @ [s] @ T @ [d, c] @ [t])" using fresh(1) apart s cdT new(3) by auto
  moreover have dom: "set (own @ [s, t]) \<subseteq> dom ?A" using fresh(2) by (auto simp: ones_def map_add_def)
  moreover have "alloc_ptr a \<noteq> blk_addr x" if "a \<in> set (allocations (procs k' (blk_addr pb)))" "x \<in> set (own @ [s, t])" for a x
  proof -
    have "x \<in> dom ?A" by (rule subsetD [OF dom that(2)])
    then obtain l where "?A x = Some l" by (rule exE [OF domD])
    then have "x < 25600" by (rule live_blk [OF process_okD(1) [OF ok]])
    then have "blk_addr x \<noteq> 0" by (rule blk_addr_nonzero)
    then show ?thesis using that(1) al by auto
  qed
  moreover have "data_blocks k' (blk_addr pb) own" using own unfolding data_blocks_def data .
  ultimately show ?thesis using ok Q unfolding process_live_def by blast
qed

lemma load_for_slot_run:
  fixes k :: "'a process_state_scheme"
  assumes slot: "process_get slot k = 0"
    and proc: "kzalloc 9368 k = (blk_addr pb, k1)" "pb < 25600"
    and data: "process_load_data vt r st filename (blk_addr pb) (process_init (blk_addr pb) k1) = Some (res, k2)" "0 \<le> res"
    and rep: "kheap_rep k2 A" and live: "A pb = Some 3" "pb \<noteq> b" and ok: "program_ok k2 A (blk_addr pb) b"
    and al: "allocations (procs k2 (blk_addr pb)) = replicate 1024 no_alloc"
    and stack: "first_fit 25600 A 4 s" and free: "1027 \<le> free_blocks 25600 (A(s \<mapsto> 4))"
    and ring: "task_ring k2 ts" "\<forall>x \<in> set ts. \<exists>b n. x = blk_addr b \<and> A b = Some n"
  shows "\<exists>t c d T k'. process_load_for_slot vt r st junk filename out_p slot k = Some (0, blk_addr pb, k')
    \<and> process_loaded k2 A ts slot pb s t c d T k'"
proof -
  let ?p = "blk_addr pb"
  have pz: "?p \<noteq> 0" by (rule blk_addr_nonzero [OF proc(2)])
  have four: "blocks_of 0x4000 = 4" by (simp add: blocks_of_def)
  have pos: "0 < unat (0x4000 :: u32)" by simp
  have fit: "first_fit 25600 A (blocks_of 0x4000) s" using stack by (simp only: four)
  obtain k3 where k3: "kzalloc 0x4000 k2 = (blk_addr s, k3)" "s < 25600" "s + 4 \<le> 25600" "A s = None"
    "kheap_rep k3 (A(s \<mapsto> 4))" "kmem.more k3 = kmem.more k2"
    "\<And>x. x < 16384 \<Longrightarrow> ram k3 (blk_addr s + of_nat x) = 0"
    by (rule region_alloc [OF rep pos fit, of "[]", unfolded four]) (simp, simp)
  have k3s: "ram k3 a = ram k2 a" if "stable A a" for a
    using kzalloc_stable [OF rep pos fit that] k3(1) by simp
  let ?m3 = "snd (strncpy (ram k3) (?p + 2) filename 108)"
  let ?name = "map (\<lambda>i. ?m3 (?p + 2 + of_nat i)) [0..<nat PEACHOS_MAX_PATH]"
  let ?x = "(procs k3 ?p)\<lparr>process_filename := ?name, process_stack := blk_addr s, process_id := word_of_int slot\<rparr>"
  define k4 where "k4 = set_proc ?p ?x (k3\<lparr>ram := ?m3\<rparr>)"
  let ?A3 = "A(s \<mapsto> 4)"
  note more3 = task_same_more [OF k3(6)]
  have ram4: "ram k4 = ?m3" by (simp add: k4_def)
  have m3: "?m3 a = ram k3 a" if "108 \<le> unat (a - (?p + 2))" for a by (rule strncpy_frame) (use that in simp_all)
  have A3p: "?A3 pb = Some 3" using live(1) k3(4) by (auto simp: fun_upd_def)
  have far: "108 \<le> unat (blk_addr q + of_nat x - (?p + 2))" if q: "?A3 q = Some n" "q \<noteq> pb" "x < n * 4096" for q n x
  proof -
    have sep: "q + n \<le> pb \<or> pb + 3 \<le> q"
      using heap_rep_apart [OF kheap_repD(2) [OF k3(5)]] q(1,2) A3p by (metis nat_neq_iff)
    have bq: "q + n \<le> 25600" "pb + 3 \<le> 25600" using kheap_rep_pos [OF k3(5)] q(1) A3p by blast+
    have "unat (blk_addr q + of_nat x) = 16777216 + q * 4096 + x" by (rule unat_blk_byte) (use bq q(3) in linarith)
    moreover have "unat (?p + 2) = 16777216 + pb * 4096 + 2"
      using unat_blk_byte [of pb 2] bq by simp
    ultimately show ?thesis unfolding unat_sub32 using sep q(3) bq by simp linarith
  qed
  have rep4: "kheap_rep k4 ?A3"
  proof -
    have "kheap_rep (k3\<lparr>ram := ?m3\<rparr>) ?A3"
    proof (rule kheap_rep_table_write [OF k3(5) m3])
      fix a :: u32 assume "unat (a - 0x7E00) < 25600"
      then have "unat a < 16777216" by (rule table_write_low)
      moreover have "unat (?p + 2) = 16777216 + pb * 4096 + 2" using unat_blk_byte [of pb 2] proc(2) by simp
      ultimately show "108 \<le> unat (a - (?p + 2))" unfolding unat_sub32 using proc(2) by simp
    qed
    then show ?thesis by (simp add: k4_def)
  qed
  have A3b: "?A3 b = A b" using ok k3(4) by (auto simp: program_ok_def split: if_splits)
  have img: "\<forall>n x. A b = Some n \<longrightarrow> x < n * 4096 \<longrightarrow> ram k4 (blk_addr b + of_nat x) = ram k2 (blk_addr b + of_nat x)"
    using m3 [OF far] k3s [OF stable_live [OF rep]] A3b live(2) by (simp add: ram4)
  have F4: "filetype (procs k4 ?p) = filetype (procs k2 ?p)" "process_ptr (procs k4 ?p) = process_ptr (procs k2 ?p)"
    "process_size (procs k4 ?p) = process_size (procs k2 ?p)" "elf_files k4 = elf_files k2"
    by (simp_all add: k4_def more3 set_proc_def)
  have prog4: "program_ok k4 ?A3 ?p b" "program_map k4 ?p = program_map k2 ?p" "entry_point k4 ?p = entry_point k2 ?p"
    using program_cong [where k' = k4 and A' = ?A3, OF rep ok A3b F4 img] by (blast, blast intro: ext, blast)
  have il: "image_live k4 ?A3 ?p"
    unfolding image_live_def
  proof
    assume elf: "filetype (procs k4 ?p) = PROCESS_FILETYPE_ELF"
    then obtain n where "?A3 b = Some n" using prog4(1) unfolding program_ok_def if_P [OF elf] by blast
    moreover have "elf_header (process_ptr (procs k4 ?p)) k4 = blk_addr b"
      using prog4(1) elf by (simp add: program_ok_def program_image_def elf_header_def)
    ultimately show "\<exists>b n. elf_header (process_ptr (procs k4 ?p)) k4 = blk_addr b \<and> ?A3 b = Some n" by blast
  qed
  have ring4: "task_ring k4 ts" using ring(1) by (simp add: task_ring_def k4_def set_proc_def more3)
  have live4: "\<forall>x \<in> set ts. \<exists>b n. x = blk_addr b \<and> ?A3 b = Some n"
  proof
    fix x assume "x \<in> set ts"
    then obtain q n where "x = blk_addr q" "A q = Some n" using ring(2) by blast
    then show "\<exists>b n. x = blk_addr b \<and> ?A3 b = Some n" using k3(4) by (intro exI [of _ q] exI [of _ n]) auto
  qed
  obtain t c d T k5 where k5: "task_new ?p k4 = (blk_addr t, k5)" "task_built k4 ?A3 ts ?p t c d T k5" "dir_present (ram k5) d"
    "\<forall>a. stable ?A3 a \<longrightarrow> ram k5 a = ram k4 a" "procs k5 = procs k4"
    "elf_state.truncate k5 = elf_state.truncate (k4\<lparr>ram := ram k5\<rparr>)" "task_state.more k5 = task_state.more k4"
    using task_new_built [OF rep4 free il ring4 live4] by blast
  let ?A5 = "?A3 ++ ones (t # c # d # T)"
  have b5: "kheap_rep k5 ?A5" "\<forall>x \<in> set (t # c # d # T). ?A3 x = None" "task_ring k5 (ts @ [blk_addr t])"
    "tasks k5 (blk_addr t) = (fresh_task (blk_addr c) (entry_point k2 ?p) ?p)\<lparr>prev_task := last (0 # ts)\<rparr>"
    "chunk_wf (ram k5) c d T"
    using k5(2) unfolding task_built_def prog4(3) by blast+
  have id5: "\<forall>v. v mod 4096 = 0 \<longrightarrow> paging_get (blk_addr d) v (ram k5) = v OR 5"
    using k5(2) unfolding task_built_def by (elim conjE) assumption
  have t_new: "t \<notin> set (c # d # T)" using k5(2) unfolding task_built_def by blast
  have elf5: "elf_files k5 = elf_files k4" using k5(6) by (simp add: elf_state.truncate_def)
  have elf52: "elf_files k5 = elf_files k2" using elf5 F4(4) by simp
  define k6 where "k6 = set_proc ?p ((procs k5 ?p)\<lparr>process_task := blk_addr t\<rparr>) k5"
  have p6: "procs k6 ?p = (procs k4 ?p)\<lparr>process_task := blk_addr t\<rparr>" by (simp add: k6_def k5(5))
  have k6f: "ram k6 = ram k5" "tasks k6 = tasks k5" "elf_files k6 = elf_files k5" "task_head k6 = task_head k5" "task_tail k6 = task_tail k5"
    "processes k6 = processes k5" "current_process k6 = current_process k5"
    by (simp_all add: k6_def set_proc_def task_ring_def fun_eq_iff)
  have A5: "?A5 q = ?A3 q" if "?A3 q \<noteq> None" for q
    using b5(2) that by (auto simp: ones_def map_add_def split: option.splits if_splits)
  have A5T: "\<forall>x \<in> set (c # d # T). ?A5 x = Some 1" by (auto simp: ones_def map_add_def)
  have ok6: "process_ok k6 ?A5 c d T ?p"
  proof -
    have "process_directory ?p k6 = blk_addr c" by (simp add: process_directory_def p6 k6f b5(4) fresh_task_def)
    moreover have "allocations (procs k6 ?p) = replicate 1024 no_alloc" by (simp add: p6 k4_def more3 al)
    moreover have "allocs_ok ?A5 (set (c # d # T)) (replicate 1024 no_alloc)"
      by (rule allocs_okI) (simp_all add: alloc_ok_def)
    ultimately show ?thesis using b5(1,5) A5T by (simp add: process_ok_def k6_def)
  qed
  note ok6D = process_okD [OF ok6]
  have F6: "filetype (procs k6 ?p) = filetype (procs k4 ?p)" "process_ptr (procs k6 ?p) = process_ptr (procs k4 ?p)"
    "process_size (procs k6 ?p) = process_size (procs k4 ?p)" "elf_files k6 = elf_files k4"
    by (simp_all add: p6 k6f elf5)
  have Ab: "?A3 b \<noteq> None" using prog4(1) by (auto simp: program_ok_def split: if_splits)
  have img6: "\<forall>n x. ?A3 b = Some n \<longrightarrow> x < n * 4096 \<longrightarrow> ram k6 (blk_addr b + of_nat x) = ram k4 (blk_addr b + of_nat x)"
    using k5(4) stable_live [OF rep4] by (simp add: k6f)
  have prog6: "program_ok k6 ?A5 ?p b" "program_map k6 ?p = program_map k4 ?p"
    using program_cong [where k' = k6 and A' = ?A5, OF rep4 prog4(1) A5 [OF Ab] F6 img6] by (blast, blast intro: ext)
  have bT: "b \<notin> set T" using Ab b5(2) by auto
  have stk: "process_stack (procs k6 ?p) = blk_addr s" by (simp add: p6 k4_def)
  obtain m where m: "process_map_memory ?p k6 = Some (0, k6\<lparr>ram := m\<rparr>)" "chunk_wf m c d T"
    "\<forall>w. w mod 4096 = 0 \<longrightarrow> paging_get (blk_addr d) w m =
       mapped_range 0x3FB000 (blk_addr s) 4 7 (program_map k6 ?p (\<lambda>w. paging_get (blk_addr d) w (ram k6))) w"
    "\<forall>a. (\<forall>t \<in> set T. 4096 \<le> unat (a - blk_addr t)) \<longrightarrow> m a = ram k6 a"
    using process_map_memory_run [OF ok6D(1,2) _ ok6D(3) prog6(1) bT stk k3(3)] A5T by auto
  let ?k' = "k6\<lparr>ram := m, processes := (processes k6)[nat slot := ?p]\<rparr>"
  have A5t: "?A5 t = Some 1" by (simp add: ones_def map_add_def)
  have tl: "t < 25600" by (rule live_blk [OF b5(1) A5t])
  have tz: "blk_addr t \<noteq> 0" "ERROR_I (blk_addr t) \<noteq> 0"
    using blk_addr_nonzero [OF tl] as_int_nonneg [of "blk_addr t"] unat_blk_addr [OF tl] tl by simp_all
  have body: "load_for_slot_body vt r st junk filename out_p slot k = Some (0, ?p, ?p, ?k')"
  proof -
    obtain q w where sn: "strncpy (ram k3) (?p + 2) filename 108 = (q, w)" by fastforce
    have k4: "set_proc ?p ((procs k3 ?p)\<lparr>process_filename := map (\<lambda>i. w (?p + 2 + of_nat i)) [0..<108],
       process_stack := blk_addr s, process_id := word_of_int slot\<rparr>) (k3\<lparr>ram := w\<rparr>) = k4"
      by (simp add: k4_def sn)
    have sz: "blk_addr s \<noteq> 0" by (rule blk_addr_nonzero [OF k3(2)])
    have stk4: "PEACHOS_USER_PROGRAM_STACK_SIZE = 0x4000" by simp
    show ?thesis
      unfolding load_for_slot_body_def stk4
      using slot proc(1) pz data k3(1) sz k5(1) tz m(1)
      by (simp add: Let_def sn k4 k6_def [symmetric] del: ERROR_I_def)
  qed
  have run: "process_load_for_slot vt r st junk filename out_p slot k = Some (0, ?p, ?k')"
    by (simp add: process_load_for_slot_def body)
  have tT: "t' < 25600" "?A3 t' = None" if "t' \<in> set T" for t'
    using live_blk [OF b5(1)] A5T b5(2) that by auto
  have offT: "4096 \<le> unat (blk_addr q + of_nat x - blk_addr t')" if "?A3 q = Some n" "x < n * 4096" "t' \<in> set T" for q n x t'
  proof -
    have E: "?A5 q = Some n" "?A5 t' = Some 1" "q \<noteq> t'" using A5 that tT(2) A5T by auto
    show ?thesis by (rule live_other_page [OF b5(1) E that(2)])
  qed
  have stA3: "stable ?A3 a" if "stable A a" for a by (rule stable_upd [OF k3(4) that])
  have farT: "4096 \<le> unat (a - blk_addr t')" if "stable A a" "t' \<in> set T" for a t'
  proof -
    have "\<not> covered ?A3 t'" by (rule not_covered_new [OF b5(1,2)]) (use that in simp)
    then show ?thesis using stA3 [OF that(1)] tT(1) [OF that(2)] by (simp add: stable_def)
  qed
  have pres: "dir_present m d"
    unfolding dir_present_def
  proof (intro allI impI)
    fix j :: nat assume j: "j < 1024"
    have d: "d < 25600" "d \<notin> set T" using dir_wfD(1,2,3) [OF chunk_wfD(1) [OF m(2)]] by blast+
    have "load32 m (cell d j) = load32 (ram k6) (cell d j)"
    proof (rule load_cell_cong [OF _ j])
      fix x :: nat assume x: "x < 4096"
      have "\<forall>t' \<in> set T. 4096 \<le> unat (blk_addr d + of_nat x - blk_addr t')"
        using other_block_byte [OF _ d(1) tT(1) x] d(2) by metis
      then show "m (blk_addr d + of_nat x) = ram k6 (blk_addr d + of_nat x)" using m(4) by blast
    qed
    then show "bit (load32 m (cell d j)) 0" using k5(3) j by (simp add: k6f dir_present_def)
  qed
  have space: "paging_get (blk_addr d) w m = mapped_range 0x3FB000 (blk_addr s) 4 7 (program_map k2 ?p (\<lambda>w. w OR 5)) w"
    if w: "w mod 4096 = 0" for w
  proof -
    have "paging_get (blk_addr d) w (ram k6) = w OR 5" using id5 w by (simp add: k6f)
    then have "program_map k2 ?p (\<lambda>w. paging_get (blk_addr d) w (ram k6)) w = program_map k2 ?p (\<lambda>w. w OR 5) w"
      by (rule program_map_at)
    then show ?thesis using m(3) w by (simp add: mapped_range_def prog6(2) prog4(2))
  qed
  have zero: "m (blk_addr s + of_nat x) = 0" if x: "x < 16384" for x
  proof -
    have As: "?A3 s = Some 4" "s \<noteq> pb" "x < 4 * 4096" using live(1) k3(4) x by auto
    have "m (blk_addr s + of_nat x) = ram k6 (blk_addr s + of_nat x)" using m(4) offT [OF As(1,3)] by blast
    also have "\<dots> = ram k4 (blk_addr s + of_nat x)" unfolding k6f using k5(4) stable_live [OF rep4 As(1,3)] by blast
    also have "\<dots> = 0" using m3 [OF far [OF As]] k3(7) [OF x] by (simp add: ram4)
    finally show ?thesis .
  qed
  have keep: "m a = ram k2 a" if "stable A a" "108 \<le> unat (a - (?p + 2))" for a
  proof -
    have "m a = ram k6 a" using m(4) farT [OF that(1)] by blast
    also have "\<dots> = ram k4 a" unfolding k6f using k5(4) stA3 [OF that(1)] by blast
    also have "\<dots> = ram k2 a" using m3 [OF that(2)] k3s [OF that(1)] by (simp add: ram4)
    finally show ?thesis .
  qed
  have ok': "process_ok ?k' ?A5 c d T ?p"
    using ok6 m(2) process_map_rep [OF ok6 m(4) [rule_format]]
    by (simp add: process_ok_def process_directory_def kheap_rep_def)
  have more: "processes k6 = processes k2" "current_process k6 = current_process k2"
    using k5(7) k3(6) by (simp_all add: k6f k4_def set_proc_def) (cases k5; cases k3; cases k2; simp)+
  have "process_loaded k2 A ts slot pb s t c d T ?k'"
    unfolding process_loaded_def Let_def
    using ok' pres space zero keep more b5(2-4) k3(4) t_new al
    by (simp add: p6 k6f elf52 k4_def more3 fresh_task_def task_ring_def)
  then show ?thesis using run by blast
qed

end
