(* ===== verification/LoadProgram.thy ===== *)
theory LoadProgram
  imports FileDriver ProcessLoad
begin

text \<open>
  Starting a program from a file: \<open>elf_load\<close>, \<open>process_load_data\<close> and \<open>process_load\<close> on any filesystem that keeps
  the contract of the file layer.
\<close>

subsection \<open>The file as an image\<close>

text \<open>
  \<open>file_mem bs\<close> is a memory with the file at address 0, where its headers can be read.  \<open>flat_file\<close>: the
  file differs from the ELF signature; \<open>elf_program\<close>: it is an ELF image with its program headers inside the file and
  segments that stay inside the address space wherever the image lies.  The address space and entry point
  of the program follow from the bytes.
\<close>

definition file_mem :: "u8 list \<Rightarrow> mem" where
  "file_mem bs a = (if unat a < length bs then bs ! unat a else 0)"

definition flat_file :: "u8 list \<Rightarrow> bool" where
  "flat_file bs \<longleftrightarrow> (\<exists>i < 4. i < length bs \<and> bs ! i \<noteq> elf_signature ! i)"

definition elf_program :: "u8 list \<Rightarrow> bool" where
  "elf_program bs \<longleftrightarrow> 52 \<le> length bs \<and> elf_image (file_mem bs) 0
     \<and> unat (e_phoff (header_at (file_mem bs) 0)) + 32 * unat (e_phnum (header_at (file_mem bs) 0)) \<le> length bs
     \<and> (\<forall>ph \<in> set (phdrs (file_mem bs) 0). unat (p_offset ph) + unat (p_memsz ph) \<le> 4173000000)"

definition file_space :: "u8 list \<Rightarrow> nat \<Rightarrow> (u32 \<Rightarrow> u32) \<Rightarrow> u32 \<Rightarrow> u32" where
  \<comment> \<open>the pages of the program whose file lies at block \<open>b\<close>\<close>
  "file_space bs b f = (if flat_file bs then mapped_range 0x400000 (blk_addr b) (blocks_of (of_nat (length bs))) 7 f
     else elf_space (blk_addr b) (phdrs (file_mem bs) 0) f)"

definition file_entry :: "u8 list \<Rightarrow> u32" where
  "file_entry bs = (if flat_file bs then 0x400000 else e_entry (header_at (file_mem bs) 0))"

definition image_at :: "mem \<Rightarrow> u32 \<Rightarrow> u8 list \<Rightarrow> bool" where
  "image_at m a bs \<longleftrightarrow> (\<forall>x < length bs. m (a + of_nat x) = bs ! x)"

lemma flat_iff:
  "flat_file bs \<longleftrightarrow> 0 < length bs \<and> bs ! 0 \<noteq> 0x7F \<or> 1 < length bs \<and> bs ! 1 \<noteq> 0x45
     \<or> 2 < length bs \<and> bs ! 2 \<noteq> 0x4C \<or> 3 < length bs \<and> bs ! 3 \<noteq> 0x46"
proof -
  have "(\<exists>i < 4. P i) \<longleftrightarrow> P 0 \<or> P 1 \<or> P 2 \<or> P 3" for P :: "nat \<Rightarrow> bool"
    by (auto simp: numeral_eq_Suc less_Suc_eq)
  then show ?thesis by (simp add: flat_file_def elf_signature_def)
qed

lemma file_mem_at: "j < length bs \<Longrightarrow> j < 4294967296 \<Longrightarrow> file_mem bs (of_nat j) = bs ! j"
  by (simp add: file_mem_def unat_of_nat32)

lemma image_byte: "image_at m a bs \<Longrightarrow> j < length bs \<Longrightarrow> length bs < 2147483648 \<Longrightarrow> m (a + of_nat j) = file_mem bs (0 + of_nat j)"
  by (simp add: image_at_def file_mem_at)

lemma image_header:
  assumes "image_at m a bs" and "length bs < 2147483648" and "52 \<le> length bs"
  shows "header_at m a = header_at (file_mem bs) 0"
proof -
  have m: "m (a + of_nat j) = file_mem bs (0 + of_nat j)" if "j < 52" for j
    using image_byte [OF assms(1) _ assms(2)] that assms(3) by simp
  let ?f = "\<lambda>x. file_mem bs (x - a)"
  have "header_at m a = header_at ?f a" by (rule header_at_cong) (simp add: m)
  also have "\<dots> = header_at (file_mem bs) 0"
    by (simp add: header_at_def load32_def load16_def add.assoc)
  finally show ?thesis .
qed

lemma image_phdr:
  assumes "image_at m a bs" and "length bs < 2147483648" and "j + 32 \<le> length bs"
  shows "phdr_at m (a + of_nat j) = phdr_at (file_mem bs) (of_nat j)"
proof -
  let ?f = "\<lambda>x. file_mem bs (x - a)"
  have "m (a + of_nat j + of_nat i) = ?f (a + of_nat j + of_nat i)" if "i < 32" for i
  proof -
    have "m (a + of_nat (j + i)) = file_mem bs (0 + of_nat (j + i))"
      by (rule image_byte [OF assms(1) _ assms(2)]) (use that assms(3) in simp)
    then show ?thesis by (simp add: add.assoc)
  qed
  then have "phdr_at m (a + of_nat j) = phdr_at ?f (a + of_nat j)" by (rule phdr_at_cong)
  also have "\<dots> = phdr_at (file_mem bs) (of_nat j)" by (simp add: phdr_at_def load32_def add.assoc)
  finally show ?thesis .
qed

lemma image_phdrs:
  assumes img: "image_at m a bs" and len: "length bs < 2147483648" and ok: "elf_program bs"
  shows "phdrs m a = phdrs (file_mem bs) 0"
proof -
  have h: "header_at m a = header_at (file_mem bs) 0" by (rule image_header [OF img len]) (use ok in \<open>simp add: elf_program_def\<close>)
  let ?h = "header_at (file_mem bs) 0"
  have off: "e_phoff ?h \<noteq> 0" using ok by (simp add: elf_program_def elf_image_def header_at_def)
  have "phdr_at m (elf_program_header m a (int i)) = phdr_at (file_mem bs) (elf_program_header (file_mem bs) 0 (int i))"
    if i: "i < unat (e_phnum ?h)" for i
  proof -
    let ?j = "unat (e_phoff ?h) + 32 * i"
    have "?j + 32 \<le> length bs" using ok i by (simp add: elf_program_def)
    from image_phdr [OF img len this] show ?thesis
      using off by (simp add: elf_program_header_def elf_pheader_def h add.assoc)
  qed
  then show ?thesis by (simp add: phdrs_def h)
qed

lemma image_elf:
  assumes "image_at m a bs" and "length bs < 2147483648"
  shows "flat_file bs \<Longrightarrow> \<not> elf_image m a" and "elf_program bs \<Longrightarrow> elf_image m a \<and> \<not> flat_file bs"
proof -
  have m: "m (a + of_nat j) = bs ! j" if "j < length bs" for j using assms(1) that by (simp add: image_at_def)
  note m0 = m [of 0, simplified] and m1 = m [of 1, simplified] and m2 = m [of 2, simplified] and m3 = m [of 3, simplified]
  show "flat_file bs \<Longrightarrow> \<not> elf_image m a"
    using m0 m1 m2 m3 by (auto simp: flat_iff elf_image_def)
  assume ok: "elf_program bs"
  then have len: "52 \<le> length bs" by (simp add: elf_program_def)
  have f: "file_mem bs (0 + of_nat j) = bs ! j" if "j < 52" for j using file_mem_at [of j bs] that len by simp
  have fm: "m (a + of_nat j) = file_mem bs (0 + of_nat j)" if "j < 52" for j
    using image_byte [OF assms(1) _ assms(2)] that len by simp
  have "elf_image (file_mem bs) 0" using ok by (simp add: elf_program_def)
  moreover have "load32 m (a + 28) = load32 (file_mem bs) (0 + 28)"
    using fm [of 28] fm [of 29] fm [of 30] fm [of 31] by (simp add: load32_def add.assoc)
  ultimately have "elf_image m a"
    using fm [of 0] fm [of 1] fm [of 2] fm [of 3] fm [of 4] fm [of 5] by (simp add: elf_image_def)
  moreover have "\<not> flat_file bs"
    using \<open>elf_image (file_mem bs) 0\<close> f [of 0] f [of 1] f [of 2] f [of 3] len
    by (auto simp: flat_iff elf_image_def)
  ultimately show "elf_image m a \<and> \<not> flat_file bs" ..
qed

subsection \<open>Loading the data\<close>

text \<open>
  \<open>data_loaded\<close>: from \<open>k\<close> to \<open>k'\<close> the file was read to block \<open>b\<close>, and nothing the clients of the file layer keep, below the state
  of processes and files, changed.
\<close>

definition data_loaded :: "(u32 \<Rightarrow> bool) \<Rightarrow> 'a process_state_scheme \<Rightarrow> (nat \<rightharpoonup> nat) \<Rightarrow> nat \<Rightarrow> nat \<Rightarrow> u8 list
    \<Rightarrow> (nat \<rightharpoonup> nat) \<Rightarrow> 'a process_state_scheme \<Rightarrow> bool" where
  "data_loaded scratch k A b n bs A' k' \<longleftrightarrow> A \<subseteq>\<^sub>m A' \<and> A b = None \<and> A' b = Some n \<and> file_inv k' A'
     \<and> file_descriptors k' = file_descriptors k \<and> the_disk k' = the_disk k \<and> disk_addr k' = disk_addr k
     \<and> kept scratch A (ram k) (ram k') \<and> image_at (ram k') (blk_addr b) bs"

lemma data_loaded_trans:
  assumes "data_loaded scratch k A b n bs A' k'" and "data_loaded scratch k' A' b' n' bs' A'' k''"
  shows "data_loaded scratch k A b' n' bs' A'' k''"
proof -
  have "A b' = None" using assms by (auto simp: data_loaded_def map_le_def dom_def)
  then show ?thesis
    using assms kept_le [of A A'] unfolding data_loaded_def by (auto intro: kept_trans map_le_trans)
qed

lemma file_loaded_data:
  fixes k :: "'a process_state_scheme"
  assumes "file_loaded scratch k A parts b n bs k'"
  shows "data_loaded scratch k A b n bs ((A ++ ones parts)(b \<mapsto> n)) k'"
proof -
  have "A \<subseteq>\<^sub>m (A ++ ones parts)(b \<mapsto> n)"
    using assms by (auto simp: file_loaded_def map_le_def ones_def map_add_def split: if_splits)
  then show ?thesis using assms by (simp add: file_loaded_def data_loaded_def image_at_def)
qed

definition below :: "'a process_state_scheme \<Rightarrow> 'a process_state_scheme \<Rightarrow> bool" where
  \<comment> \<open>the states agree above the table of ELF files\<close>
  "below k k' \<longleftrightarrow> elf_state.more k' = elf_state.more k"

lemma belowD:
  assumes "below k k'"
  shows "tasks k' = tasks k" "task_head k' = task_head k" "task_tail k' = task_tail k" "procs k' = procs k"
    "processes k' = processes k" "current_process k' = current_process k"
  using assms unfolding below_def by (cases k; cases k'; simp)+

lemma more_elf:
  fixes k :: "'a process_state_scheme"
  shows "file_state.more k' = file_state.more k \<Longrightarrow> below k k' \<and> elf_files k' = elf_files k"
  by (cases k; cases k') (simp add: below_def)

lemma above_elf:
  fixes k :: "'a process_state_scheme"
  shows "above k (k\<lparr>elf_files := x\<rparr>)" "above k (set_proc p y k)" "below k (k\<lparr>elf_files := x\<rparr>)"
  by (cases k; simp add: above_def below_def set_proc_def file_state.truncate_def)+

text \<open>
  \<open>program_started\<close>: the process \<open>p\<close> in slot \<open>slot\<close> has the task \<open>t\<close>, last in the ring \<open>ts\<close>, about to enter the program; the file is at
  block \<open>b\<close>, the stack of zeros at block \<open>s\<close>, and both are mapped by the task's page directory at block \<open>d\<close>, all other pages
  being where physical memory has them.
\<close>

definition program_started :: "'a process_state_scheme \<Rightarrow> u32 list \<Rightarrow> nat \<Rightarrow> u8 list \<Rightarrow> u32 \<Rightarrow> nat \<Rightarrow> nat \<Rightarrow> u32 \<Rightarrow> nat
    \<Rightarrow> 'a process_state_scheme \<Rightarrow> bool" where
  "program_started k ts slot bs p b s t d k' \<longleftrightarrow>
     processes k' = (processes k)[slot := p] \<and> current_process k' = current_process k
   \<and> process_id (procs k' p) = of_nat slot \<and> process_task (procs k' p) = t
   \<and> task_ring k' (ts @ [t]) \<and> task_process (tasks k' t) = p
   \<and> task_regs (tasks k' t) = zero_registers\<lparr>r_ip := file_entry bs, r_ss := 0x23, r_cs := 0x1B, r_esp := 0x3FF000\<rparr>
   \<and> image_at (ram k') (blk_addr b) bs \<and> image_at (ram k') (blk_addr s) (replicate 16384 0)
   \<and> (\<exists>A c T. process_ok k' A c d T p) \<and> dir_present (ram k') d \<and> b < 25600 \<and> s < 25600
   \<and> (\<forall>w. w mod 4096 = 0 \<longrightarrow> paging_get (blk_addr d) w (ram k') =
        mapped_range 0x3FB000 (blk_addr s) 4 7 (file_space bs b (\<lambda>w. w OR 5)) w)"

text \<open>
  \<open>program_held\<close>: the heap has the blocks of before, the process structure \<open>q\<close> in a block of its own, and the blocks that
  \<open>q\<close> holds.
\<close>

definition program_held :: "(u32 \<Rightarrow> bool) \<Rightarrow> 'a process_state_scheme \<Rightarrow> (nat \<rightharpoonup> nat) \<Rightarrow> u32 list \<Rightarrow> u32 \<Rightarrow> 'a process_state_scheme \<Rightarrow> bool" where
  "program_held scratch k A ts q k' \<longleftrightarrow> (\<exists>pb A' c d T own s t. q = blk_addr pb \<and> pb < 25600 \<and> A pb = None
     \<and> A \<subseteq>\<^sub>m A' \<and> A' pb = Some 3 \<and> process_live k' A' c d T q own s t
     \<and> set (own @ [s, t, c, d] @ T) \<inter> (insert pb (dom A)) = {}
     \<and> allocations (procs k' q) = replicate 1024 no_alloc \<and> prev_task (tasks k' (blk_addr t)) = last (0 # ts)
     \<and> kept scratch A (ram k) (ram k'))"

lemma program_heldI:
  assumes "q = blk_addr pb" and "pb < 25600" and "A pb = None" and "A \<subseteq>\<^sub>m A'" and "A' pb = Some 3"
    and "process_live k' A' c d T q own s t" and "\<And>x. x \<in> set (own @ [s, t, c, d] @ T) \<Longrightarrow> x \<notin> insert pb (dom A)"
    and "allocations (procs k' q) = replicate 1024 no_alloc" and "prev_task (tasks k' (blk_addr t)) = last (0 # ts)"
    and "kept scratch A (ram k) (ram k')"
  shows "program_held scratch k A ts q k'"
proof -
  have "set (own @ [s, t, c, d] @ T) \<inter> insert pb (dom A) = {}" using assms(7) by blast
  then show ?thesis using assms(1-6,8-10) unfolding program_held_def by blast
qed

locale program_source = filesystem_driver fs volume holds handle scratch
  for fs :: "'a process_state_scheme filesystem"
    and volume :: "'a process_state_scheme \<Rightarrow> (nat \<rightharpoonup> nat) \<Rightarrow> bool"
    and holds :: "'a process_state_scheme \<Rightarrow> u8 list \<Rightarrow> u8 list \<Rightarrow> bool"
    and handle :: "'a process_state_scheme \<Rightarrow> (nat \<rightharpoonup> nat) \<Rightarrow> u32 \<Rightarrow> nat list \<Rightarrow> u8 list \<Rightarrow> bool"
    and scratch :: "u32 \<Rightarrow> bool"
begin

lemma elf_load_run:
  assumes inv: "file_inv k A" and vol: "volume k A" and held: "holds k nm bs" and disk: "on_disk vt fs k"
    and args: "call_args scratch A (ram k) p r nm" and i: "lowest_free (file_descriptors k) i" "i < 511"
    and n: "blocks_of (of_nat (length bs)) = n" "n \<le> N" "0 < N" and room: "roomy A (K + n + 8) N" and len: "length bs < 2147483648"
    and kind: "flat_file bs \<or> elf_program bs"
  shows "\<exists>e b A' k'. elf_load vt r st p file_out k = Some (if flat_file bs then - EINFORMAT else 0, if flat_file bs then file_out else blk_addr e, k')
    \<and> data_loaded scratch k A b n bs A' k' \<and> below k k' \<and> volume k' A' \<and> (\<forall>nm bs. holds k nm bs \<longrightarrow> holds k' nm bs)
    \<and> roomy A' K N \<and> ef_memory (elf_files k' (blk_addr e)) = blk_addr b \<and> length bs \<le> n * 4096
    \<and> A e = None \<and> A' e = Some 1 \<and> e \<noteq> b"
proof -
  have one: "blocks_of 132 = 1" by (simp add: blocks_of_def)
  have room1: "roomy A (K + n + 7 + blocks_of 132) N" by (rule roomy_less [OF room]) (simp_all add: one)
  obtain e m where e: "kzalloc 132 k = (blk_addr e, k\<lparr>ram := m\<rparr>)" "A e = None" "kheap_rep (k\<lparr>ram := m\<rparr>) (A(e \<mapsto> 1))"
    "\<forall>a. stable A a \<longrightarrow> m a = ram k a" "roomy (A(e \<mapsto> 1)) (K + n + 7) N"
    by (rule kzalloc_room [OF file_invD(1) [OF inv] _ _ room1]) (use n(3) in \<open>simp_all add: one\<close>)
  define k0 where "k0 = k\<lparr>ram := m, elf_files := (elf_files k)(blk_addr e := zero_elf_file)\<rparr>"
  let ?A = "A(e \<mapsto> 1)"
  have AA: "A \<subseteq>\<^sub>m ?A" using e(2) by (auto simp: map_le_def)
  have kept0: "kept scratch A (ram k) (ram k0)" using e(4) by (simp add: kept_def k0_def)
  have io0: "same_io k k0" by (simp add: same_io_def k0_def)
  have inv0: "file_inv k0 ?A"
    by (rule file_inv_keep [OF inv]) (use e(2,3) in \<open>auto simp: k0_def kheap_rep_def\<close>)
  have vol0: "volume k0 ?A" "\<forall>nm bs. holds k nm bs \<longrightarrow> holds k0 nm bs"
    using volume_keep [OF vol io0 kept0] volume_le [OF _ AA] by blast+
  have disk0: "on_disk vt fs k0" using disk by (simp add: on_disk_def k0_def)
  have args0: "call_args scratch ?A (ram k0) p r nm" by (rule call_args_keep [OF args kept0 AA])
  have i0: "lowest_free (file_descriptors k0) i" using i(1) by (simp add: k0_def)
  have held0: "holds k0 nm bs" using held vol0(2) by blast
  obtain k1 st' b m1 parts where L: "fopen vt p r k0 = Some (int i + 1, k1)" "fstat vt (int i + 1) st k1 = Some (0, st', k1)"
    "filesize st' = of_nat (length bs)" "kzalloc (of_nat (length bs)) k1 = (blk_addr b, k1\<lparr>ram := m1\<rparr>)" "b + n \<le> 25600"
    "length bs \<le> n * 4096" "file_state.more k1 = file_state.more k0"
    and go: "\<And>k2. above (k1\<lparr>ram := m1\<rparr>) k2 \<Longrightarrow> \<exists>k3. fread vt (blk_addr b) (of_nat (length bs)) 1 (int i + 1) k2 = Some (1, k3)
       \<and> file_state.more k3 = file_state.more k2 \<and> (\<forall>x < length bs. ram k3 (blk_addr b + of_nat x) = bs ! x)
       \<and> (\<forall>k4. above k3 k4 \<longrightarrow> (\<exists>k5. fclose vt (int i + 1) k4 = Some (0, k5) \<and> file_state.more k5 = file_state.more k4
            \<and> file_loaded scratch k0 ?A parts b n bs k5 \<and> volume k5 ?A \<and> (\<forall>nm bs. holds k0 nm bs \<longrightarrow> holds k5 nm bs)
            \<and> roomy ((?A ++ ones parts)(b \<mapsto> n)) K N))"
    by (rule file_load [OF inv0 vol0(1) held0 disk0 args0 i0 i(2) n e(5), where st = st]) blast
  note m1 = more_elf [OF L(7)]
  define k2 where "k2 = k1\<lparr>ram := m1, elf_files := (elf_files k1)(blk_addr e := (elf_files k1 (blk_addr e))\<lparr>ef_memory := blk_addr b\<rparr>)\<rparr>"
  have "above (k1\<lparr>ram := m1\<rparr>) k2" using above_elf(1) [of "k1\<lparr>ram := m1\<rparr>"] by (simp add: k2_def)
  from go [OF this] obtain k3 where k3: "fread vt (blk_addr b) (of_nat (length bs)) 1 (int i + 1) k2 = Some (1, k3)"
    "file_state.more k3 = file_state.more k2" "\<forall>x < length bs. ram k3 (blk_addr b + of_nat x) = bs ! x"
    and close: "\<And>k4. above k3 k4 \<Longrightarrow> \<exists>k5. fclose vt (int i + 1) k4 = Some (0, k5) \<and> file_state.more k5 = file_state.more k4
            \<and> file_loaded scratch k0 ?A parts b n bs k5 \<and> volume k5 ?A \<and> (\<forall>nm bs. holds k0 nm bs \<longrightarrow> holds k5 nm bs)
            \<and> roomy ((?A ++ ones parts)(b \<mapsto> n)) K N"
    by blast
  note m3 = more_elf [OF k3(2)]
  have mem3: "ef_memory (elf_files k3 (blk_addr e)) = blk_addr b" using m3 by (simp add: k2_def)
  have img: "image_at (ram k3) (blk_addr b) bs" using k3(3) by (simp add: image_at_def)
  let ?res = "if flat_file bs then - 9 else 0 :: int"
  obtain k4 where k4: "elf_process_loaded (blk_addr e) k3 = (?res, k4)" "above k3 k4" "below k3 k4" "ef_memory (elf_files k4 (blk_addr e)) = blk_addr b"
  proof (cases "flat_file bs")
    case True
    then have "elf_process_loaded (blk_addr e) k3 = (- 9, k3)"
      using image_elf(1) [OF img len] mem3 by (simp add: elf_process_loaded_def elf_header_def validate_iff)
    then show thesis using that [of k3] True mem3 by (simp add: below_def)
  next
    case False
    let ?ef = "fold pt_load (loads (ram k3) (blk_addr b)) (elf_files k3 (blk_addr e))"
    have "elf_image (ram k3) (blk_addr b)" using image_elf(2) [OF img len] kind False by blast
    then have "elf_process_loaded (blk_addr e) k3 = (0, with_elf (blk_addr e) ?ef k3)"
      using process_pheaders_fold [of "blk_addr e" k3] mem3 by (simp add: elf_process_loaded_def elf_header_def validate_iff)
    then show thesis
      using that [of "with_elf (blk_addr e) ?ef k3"] False mem3 by (simp add: with_elf_def above_elf)
  qed
  obtain k5 where k5: "fclose vt (int i + 1) k4 = Some (0, k5)" "file_state.more k5 = file_state.more k4"
    "file_loaded scratch k0 ?A parts b n bs k5" "volume k5 ?A" "\<forall>nm bs. holds k0 nm bs \<longrightarrow> holds k5 nm bs" "roomy ((?A ++ ones parts)(b \<mapsto> n)) K N"
    using close [OF k4(2)] by blast
  note m5 = more_elf [OF k5(2)]
  let ?A' = "(?A ++ ones parts)(b \<mapsto> n)"
  have d: "data_loaded scratch k0 ?A b n bs ?A' k5" by (rule file_loaded_data [OF k5(3)])
  have AA': "?A \<subseteq>\<^sub>m ?A'" using d by (simp add: data_loaded_def)
  have bA: "A b = None" using d by (auto simp: data_loaded_def split: if_splits)
  have dl: "data_loaded scratch k A b n bs ?A' k5"
    using d bA map_le_trans [OF AA AA'] kept_trans [OF kept0 kept_le [OF AA]] by (simp add: data_loaded_def k0_def)
  have below: "below k k5" using m1 m3 k4(3) m5 by (simp add: below_def k2_def k0_def)
  have run: "elf_load vt r st p file_out k = Some (?res, if flat_file bs then file_out else blk_addr e, k5)"
    using k3(1) k4(1) k5(1)
    by (simp add: elf_load_def elf_load_body_def e(1) Let_def L(1-4) flip: k0_def k2_def)
  have eA: "?A' e = Some 1" using AA' by (auto simp: map_le_def)
  have eb: "e \<noteq> b" using d by (auto simp: data_loaded_def)
  have "\<forall>nm bs. holds k nm bs \<longrightarrow> holds k5 nm bs" using vol0(2) k5(5) by blast
  moreover have "volume k5 ?A'" by (rule volume_le [OF k5(4) AA'])
  ultimately show ?thesis
    using run dl below k5(6) L(6) k4(4) m5 e(2) eA eb
    by (intro exI [of _ e] exI [of _ b] exI [of _ ?A'] exI [of _ k5]) simp
qed

lemma load_binary_run:
  assumes inv: "file_inv k A" and vol: "volume k A" and held: "holds k nm bs" and disk: "on_disk vt fs k"
    and args: "call_args scratch A (ram k) p r nm" and i: "lowest_free (file_descriptors k) i" "i < 511"
    and n: "blocks_of (of_nat (length bs)) = n" "n \<le> N" "0 < N" and room: "roomy A (K + n + 7) N"
  shows "\<exists>b A' k'. process_load_binary vt r st p q k = Some (0, k')
    \<and> data_loaded scratch k A b n bs A' k' \<and> tasks k' = tasks k \<and> task_head k' = task_head k \<and> task_tail k' = task_tail k
    \<and> processes k' = processes k \<and> current_process k' = current_process k
    \<and> procs k' = (procs k)(q := (procs k q)\<lparr>process_size := of_nat (length bs), process_ptr := blk_addr b, filetype := PROCESS_FILETYPE_BINARY\<rparr>)
    \<and> volume k' A' \<and> roomy A' K N"
proof -
  obtain k1 st' b m1 parts where L: "fopen vt p r k = Some (int i + 1, k1)" "fstat vt (int i + 1) st k1 = Some (0, st', k1)"
    "filesize st' = of_nat (length bs)" "kzalloc (of_nat (length bs)) k1 = (blk_addr b, k1\<lparr>ram := m1\<rparr>)" "b + n \<le> 25600"
    "length bs \<le> n * 4096" "file_state.more k1 = file_state.more k"
    and go: "\<And>k2. above (k1\<lparr>ram := m1\<rparr>) k2 \<Longrightarrow> \<exists>k3. fread vt (blk_addr b) (of_nat (length bs)) 1 (int i + 1) k2 = Some (1, k3)
       \<and> file_state.more k3 = file_state.more k2 \<and> (\<forall>x < length bs. ram k3 (blk_addr b + of_nat x) = bs ! x)
       \<and> (\<forall>k4. above k3 k4 \<longrightarrow> (\<exists>k5. fclose vt (int i + 1) k4 = Some (0, k5) \<and> file_state.more k5 = file_state.more k4
            \<and> file_loaded scratch k A parts b n bs k5 \<and> volume k5 A \<and> (\<forall>nm bs. holds k nm bs \<longrightarrow> holds k5 nm bs)
            \<and> roomy ((A ++ ones parts)(b \<mapsto> n)) K N))"
    by (rule file_load [OF inv vol held disk args i n room, where st = st]) blast
  note m1 = more_elf [OF L(7)]
  obtain k3 where k3: "fread vt (blk_addr b) (of_nat (length bs)) 1 (int i + 1) (k1\<lparr>ram := m1\<rparr>) = Some (1, k3)"
    "file_state.more k3 = file_state.more (k1\<lparr>ram := m1\<rparr>)"
    and close: "\<And>k4. above k3 k4 \<Longrightarrow> \<exists>k5. fclose vt (int i + 1) k4 = Some (0, k5) \<and> file_state.more k5 = file_state.more k4
            \<and> file_loaded scratch k A parts b n bs k5 \<and> volume k5 A \<and> roomy ((A ++ ones parts)(b \<mapsto> n)) K N"
    using go [OF above_refl] by blast
  have b3: "below k k3" using m1 more_elf [OF k3(2)] by (simp add: below_def)
  define k4 where "k4 = set_proc q ((procs k3 q)\<lparr>process_size := of_nat (length bs), process_ptr := blk_addr b,
      filetype := PROCESS_FILETYPE_BINARY\<rparr>) k3"
  obtain k5 where k5: "fclose vt (int i + 1) k4 = Some (0, k5)" "file_state.more k5 = file_state.more k4"
    "file_loaded scratch k A parts b n bs k5" "volume k5 A" "roomy ((A ++ ones parts)(b \<mapsto> n)) K N"
    using close [of k4] by (auto simp: k4_def above_elf)
  note b5 = belowD [OF more_elf [OF k5(2), THEN conjunct1]]
  let ?A' = "(A ++ ones parts)(b \<mapsto> n)"
  have d: "data_loaded scratch k A b n bs ?A' k5" by (rule file_loaded_data [OF k5(3)])
  then have AA': "A \<subseteq>\<^sub>m ?A'" by (simp add: data_loaded_def)
  have "blk_addr b \<noteq> 0"
  proof (rule blk_addr_nonzero)
    have "kheap_rep k5 ?A'" using d by (simp add: data_loaded_def file_inv_def)
    then show "b < 25600" by (rule live_blk) simp
  qed
  moreover have "set_proc q ((procs k3 q)\<lparr>process_size := of_nat (length bs), process_ptr := blk_addr b, filetype := 1\<rparr>) k3 = k4"
    by (simp add: k4_def)
  ultimately have run: "process_load_binary vt r st p q k = Some (0, k5)"
    using k3(1) k5(1) by (simp add: process_load_binary_def load_binary_body_def L(1-4) Let_def)
  show ?thesis
    using run d b5 belowD [OF b3] k5(5) volume_le [OF k5(4) AA']
    by (intro exI [of _ b] exI [of _ ?A'] exI [of _ k5]) (simp add: k4_def set_proc_def)
qed

lemma load_data_run:
  assumes inv: "file_inv k A" and vol: "volume k A" and held: "holds k nm bs" and disk: "on_disk vt fs k"
    and args: "call_args scratch A (ram k) p r nm" and i: "lowest_free (file_descriptors k) i" "i < 511"
    and n: "blocks_of (of_nat (length bs)) = n" "n \<le> N" "0 < N" and room: "roomy A (K + 2 * n + 15) N" and len: "length bs < 2147483648"
    and kind: "flat_file bs \<or> elf_program bs"
  shows "\<exists>b A' k'. process_load_data vt r st p q k = Some (0, k') \<and> data_loaded scratch k A b n bs A' k'
    \<and> program_ok k' A' q b \<and> program_map k' q = file_space bs b \<and> entry_point k' q = file_entry bs
    \<and> tasks k' = tasks k \<and> task_head k' = task_head k \<and> task_tail k' = task_tail k
    \<and> processes k' = processes k \<and> current_process k' = current_process k
    \<and> allocations (procs k' q) = allocations (procs k q) \<and> volume k' A' \<and> roomy A' K N
    \<and> (\<exists>own. data_blocks k' q own \<and> distinct own \<and> set own \<subseteq> dom A' \<and> set own \<inter> dom A = {})"
proof -
  have room1: "roomy A (K + n + 7 + n + 8) N" by (rule roomy_less [OF room]) simp_all
  obtain e b A' k1 where E: "elf_load vt r st p 0 k = Some (if flat_file bs then - EINFORMAT else 0, if flat_file bs then 0 else blk_addr e, k1)"
    "data_loaded scratch k A b n bs A' k1" "below k k1" "volume k1 A'" "\<forall>nm bs. holds k nm bs \<longrightarrow> holds k1 nm bs"
    "roomy A' (K + n + 7) N" "ef_memory (elf_files k1 (blk_addr e)) = blk_addr b" "length bs \<le> n * 4096"
    "A e = None" "A' e = Some 1" "e \<noteq> b"
    using elf_load_run [OF inv vol held disk args i n room1 len kind, of st 0] by blast
  note D1 = E(2) [unfolded data_loaded_def] and b1 = belowD [OF E(3)]
  show ?thesis
  proof (cases "flat_file bs")
    case True
    have elf: "process_load_elf vt r st p q k = Some (- 9, k1)" by (simp add: process_load_elf_def E(1) True)
    have inv1: "file_inv k1 A'" "holds k1 nm bs" "on_disk vt fs k1" using D1 E(5) held disk by (simp_all add: on_disk_def)
    have args1: "call_args scratch A' (ram k1) p r nm" by (rule call_args_keep [OF args]) (use D1 in blast)+
    have i1: "lowest_free (file_descriptors k1) i" using i(1) D1 by simp
    obtain b' A'' k2 where B: "process_load_binary vt r st p q k1 = Some (0, k2)" "data_loaded scratch k1 A' b' n bs A'' k2"
      "tasks k2 = tasks k1" "task_head k2 = task_head k1" "task_tail k2 = task_tail k1"
      "processes k2 = processes k1" "current_process k2 = current_process k1"
      "procs k2 = (procs k1)(q := (procs k1 q)\<lparr>process_size := of_nat (length bs), process_ptr := blk_addr b', filetype := PROCESS_FILETYPE_BINARY\<rparr>)"
      "volume k2 A''" "roomy A'' K N"
      using load_binary_run [OF inv1(1) E(4) inv1(2,3) args1 i1 i(2) n E(6), of st q] by blast
    have dl: "data_loaded scratch k A b' n bs A'' k2" by (rule data_loaded_trans [OF E(2) B(2)])
    have q: "procs k2 q = (procs k1 q)\<lparr>process_size := of_nat (length bs), process_ptr := blk_addr b', filetype := 1\<rparr>" by (simp add: B(8))
    have "program_ok k2 A'' q b'" "program_map k2 q = file_space bs b'" "entry_point k2 q = file_entry bs"
      using dl n(1) True q
      by (simp_all add: program_ok_def program_image_def program_map_def file_space_def entry_point_def file_entry_def data_loaded_def fun_eq_iff)
    moreover have "\<exists>own. data_blocks k2 q own \<and> distinct own \<and> set own \<subseteq> dom A'' \<and> set own \<inter> dom A = {}"
      using q dl by (intro exI [of _ "[b']"]) (auto simp: data_blocks_def data_loaded_def)
    ultimately show ?thesis
      using B dl b1 q by (intro exI [of _ b'] exI [of _ A''] exI [of _ k2]) (simp add: process_load_data_def elf)
  next
    case False
    then have ok: "elf_program bs" using kind by blast
    define k2 where "k2 = set_proc q ((procs k1 q)\<lparr>filetype := PROCESS_FILETYPE_ELF, process_ptr := blk_addr e\<rparr>) k1"
    have elf: "process_load_elf vt r st p q k = Some (0, k2)"
      by (simp add: process_load_elf_def E(1) False k2_def)
    have k2: "ram k2 = ram k1" "elf_files k2 = elf_files k1" "file_descriptors k2 = file_descriptors k1" "the_disk k2 = the_disk k1"
      "disk_addr k2 = disk_addr k1" "tasks k2 = tasks k1" "task_head k2 = task_head k1" "task_tail k2 = task_tail k1"
      "processes k2 = processes k1" "current_process k2 = current_process k1" "drive k2 = drive k1" "streams k2 = streams k1"
      "kernel_heap k2 = kernel_heap k1" "fdescs k2 = fdescs k1"
      by (simp_all add: k2_def set_proc_def)
    have q: "procs k2 q = (procs k1 q)\<lparr>filetype := 0, process_ptr := blk_addr e\<rparr>" by (simp add: k2_def set_proc_def)
    have "file_inv k1 A'" using D1 by blast
    then have inv2: "file_inv k2 A'" by (simp add: file_inv_def kheap_rep_def k2)
    have dl: "data_loaded scratch k A b n bs A' k2" using D1 inv2 by (simp add: data_loaded_def k2)
    have img: "image_at (ram k2) (blk_addr b) bs" using dl by (simp add: data_loaded_def)
    have prog: "program_image k2 q = blk_addr b" using E(7) by (simp add: program_image_def q k2)
    have live: "A' b = Some n" using dl by (simp add: data_loaded_def)
    have b: "b < 25600" by (rule live_blk [OF file_invD(1) [OF inv2] live])
    have hdr: "header_at (ram k2) (blk_addr b) = header_at (file_mem bs) 0"
      by (rule image_header [OF img len]) (use ok in \<open>simp add: elf_program_def\<close>)
    note phs = image_phdrs [OF img len ok]
    have off: "e_phoff (header_at (file_mem bs) 0) \<noteq> 0" using ok by (simp add: elf_program_def elf_image_def header_at_def)
    have seg: "seg_ok (blk_addr b) x" if "x \<in> set (phdrs (file_mem bs) 0)" for x
      using ok that b unat_blk_addr [OF b] by (fastforce simp: elf_program_def seg_ok_def)
    have fits: "unat (e_phoff (header_at (file_mem bs) 0)) + 32 * unat (e_phnum (header_at (file_mem bs) 0)) \<le> n * 4096"
      using ok E(8) by (simp add: elf_program_def)
    have "program_ok k2 A' q b"
      using live off fits seg prog q by (simp add: program_ok_def hdr phs unat_gt_0)
    moreover have "program_map k2 q = file_space bs b"
      using False prog q by (simp add: program_map_def file_space_def phs fun_eq_iff)
    moreover have "entry_point k2 q = file_entry bs"
      using False E(7) q by (simp add: entry_point_def file_entry_def elf_header_def k2(2) hdr)
    moreover have "volume k2 A'"
      using volume_keep [OF E(4), of k2] by (simp add: same_io_def k2)
    moreover have "roomy A' K N" by (rule roomy_less [OF E(6)]) simp_all
    moreover have "\<exists>own. data_blocks k2 q own \<and> distinct own \<and> set own \<subseteq> dom A' \<and> set own \<inter> dom A = {}"
      using q k2 E(7,9-11) dl by (intro exI [of _ "[b, e]"]) (auto simp: data_blocks_def data_loaded_def)
    ultimately show ?thesis
      using dl b1 q k2 by (intro exI [of _ b] exI [of _ A'] exI [of _ k2]) (simp add: process_load_data_def elf)
  qed
qed

lemma process_load_run:
  assumes inv: "file_inv k A" and vol: "volume k A" and held: "holds k nm bs" and disk: "on_disk vt fs k"
    and args: "call_args scratch A (ram k) p r nm" and i: "lowest_free (file_descriptors k) i" "i < 511"
    and n: "blocks_of (of_nat (length bs)) \<le> N" "4 \<le> N"
    and room: "roomy A (2 * blocks_of (of_nat (length bs)) + 1050) N" and len: "length bs < 2147483648"
    and kind: "flat_file bs \<or> elf_program bs"
    and slot: "lowest_free (processes k) slot" "length (processes k) = 12"
    and ring: "task_ring k ts" "\<forall>x \<in> set ts. \<exists>b n. x = blk_addr b \<and> A b = Some n"
  shows "\<exists>q b s t d k'. process_load vt r st junk p out_p k = Some (0, q, k') \<and> program_started k ts slot bs q b s t d k'
    \<and> program_held scratch k A ts q k'"
proof -
  let ?n = "blocks_of (of_nat (length bs))"
  have three: "blocks_of 9368 = 3" by (simp add: blocks_of_def)
  have slot12: "slot < 12" "processes k ! slot = 0" using slot by (simp_all add: lowest_free_def)
  have room0: "roomy A (1032 + 2 * ?n + 15 + blocks_of 9368) N" by (rule roomy_less [OF room]) (simp_all add: three)
  obtain pb m where P: "kzalloc 9368 k = (blk_addr pb, k\<lparr>ram := m\<rparr>)" "pb < 25600" "A pb = None"
    "kheap_rep (k\<lparr>ram := m\<rparr>) (A(pb \<mapsto> 3))" "\<forall>a. stable A a \<longrightarrow> m a = ram k a" "roomy (A(pb \<mapsto> 3)) (1032 + 2 * ?n + 15) N"
    by (rule kzalloc_room [OF file_invD(1) [OF inv] _ _ room0]) (use n(2) in \<open>simp_all add: three\<close>)
  let ?q = "blk_addr pb" and ?A = "A(pb \<mapsto> 3)"
  define k1 where "k1 = process_init ?q (k\<lparr>ram := m\<rparr>)"
  have k1: "ram k1 = m" "kernel_heap k1 = kernel_heap k" "file_descriptors k1 = file_descriptors k" "fdescs k1 = fdescs k"
    "the_disk k1 = the_disk k" "disk_addr k1 = disk_addr k" "drive k1 = drive k" "streams k1 = streams k"
    "processes k1 = processes k" "current_process k1 = current_process k" "tasks k1 = tasks k" "task_head k1 = task_head k"
    "task_tail k1 = task_tail k" "procs k1 ?q = zero_process"
    by (simp_all add: k1_def process_init_def set_proc_def)
  have AA: "A \<subseteq>\<^sub>m ?A" using P(3) by (auto simp: map_le_def)
  have kept1: "kept scratch A (ram k) (ram k1)" using P(5) by (simp add: kept_def k1)
  have io1: "same_io k k1" by (simp add: same_io_def k1)
  have inv1: "file_inv k1 ?A"
    by (rule file_inv_keep [OF inv]) (use P(3,4) in \<open>auto simp: kheap_rep_def k1\<close>)
  have vol1: "volume k1 ?A" "holds k1 nm bs"
    using volume_keep [OF vol io1 kept1] volume_le [OF _ AA] held by blast+
  have disk1: "on_disk vt fs k1" using disk by (simp add: on_disk_def k1)
  have args1: "call_args scratch ?A (ram k1) p r nm" by (rule call_args_keep [OF args kept1 AA])
  have i1: "lowest_free (file_descriptors k1) i" using i(1) by (simp add: k1)
  have N: "0 < N" using n(2) by simp
  obtain b A' k2 own where D: "process_load_data vt r st p ?q k1 = Some (0, k2)" "data_loaded scratch k1 ?A b ?n bs A' k2"
    "program_ok k2 A' ?q b" "program_map k2 ?q = file_space bs b" "entry_point k2 ?q = file_entry bs"
    "tasks k2 = tasks k1" "task_head k2 = task_head k1" "task_tail k2 = task_tail k1"
    "processes k2 = processes k1" "current_process k2 = current_process k1"
    "allocations (procs k2 ?q) = allocations (procs k1 ?q)" "roomy A' 1032 N"
    and own: "data_blocks k2 ?q own" "distinct own" "set own \<subseteq> dom A'" "set own \<inter> dom ?A = {}"
    using load_data_run [OF inv1 vol1 disk1 args1 i1 i(2) refl n(1) N P(6) len kind, of st ?q] by blast
  note L = D(2) [unfolded data_loaded_def]
  have inv2: "file_inv k2 A'" using L by blast
  have rep2: "kheap_rep k2 A'" by (rule file_invD(1) [OF inv2])
  have le: "A' x = Some l" if "?A x = Some l" for x l
    using L that unfolding map_le_def by (metis domI)
  have live: "A' pb = Some 3" "pb \<noteq> b" using le [of pb 3] L by auto
  obtain s where s: "first_fit 25600 A' 4 s" using roomy_fit [OF roomy_less [OF D(12) le_refl n(2)]] by blast
  have sNone: "A' s = None" by (rule kz.fit_unused [OF rep2 _ s]) simp
  have "roomy (A'(s \<mapsto> 4)) 1028 N"
    by (rule roomy_alloc [of A' 1028 4 N s]) (rule roomy_less [OF D(12)], simp_all add: sNone)
  then have free: "1027 \<le> free_blocks 25600 (A'(s \<mapsto> 4))" using roomy_free [OF _ N] by fastforce
  have al: "allocations (procs k2 ?q) = replicate 1024 no_alloc" by (simp add: D(11) k1(14) zero_process_def)
  have ring2: "task_ring k2 ts" using ring(1) by (simp add: task_ring_def D k1)
  have live2: "\<forall>x \<in> set ts. \<exists>b n. x = blk_addr b \<and> A' b = Some n"
  proof
    fix x assume "x \<in> set ts"
    then obtain y l where y: "x = blk_addr y" "A y = Some l" using ring(2) by blast
    then have "?A y = Some l" using P(3) by auto
    then show "\<exists>b n. x = blk_addr b \<and> A' b = Some n" using le y(1) by blast
  qed
  have get: "process_get (int slot) k = 0" using slot12 by (simp add: process_get_def)
  obtain t c d T k3 where R: "process_load_for_slot vt r st junk p out_p (int slot) k = Some (0, ?q, k3)"
    "process_loaded k2 A' ts (int slot) pb s t c d T k3"
    using load_for_slot_run [OF get P(1,2) D(1) [unfolded k1_def] order_refl rep2 live D(3) al s free ring2 live2] by blast
  note Q = R(2) [unfolded process_loaded_def Let_def]
  have "find_slot (processes k) = Some slot" using slot(1) by (simp add: find_slot_Some)
  then have run: "process_load vt r st junk p out_p k = Some (0, ?q, k3)"
    using R(1) by (simp add: process_load_def process_get_free_slot_def)
  have bn: "A' b = Some ?n" using L by blast
  have b25: "b + ?n \<le> 25600" using kheap_rep_pos [OF rep2 bn] by blast
  have pb25: "pb + 3 \<le> 25600" using kheap_rep_pos [OF rep2 live(1)] by blast
  have apart: "b + ?n \<le> pb \<or> pb + 3 \<le> b"
    using heap_rep_apart [OF kheap_repD(2) [OF rep2] bn live(1)] heap_rep_apart [OF kheap_repD(2) [OF rep2] live(1) bn] live(2) by linarith
  have lenn: "length bs \<le> ?n * 4096" using len unfolding blocks_of_def by (simp add: unat_of_nat32)
  have img: "image_at (ram k3) (blk_addr b) bs"
    unfolding image_at_def
  proof (intro allI impI)
    fix x assume x: "x < length bs"
    then have xn: "x < ?n * 4096" using lenn by linarith
    have "unat (blk_addr b + of_nat x) = 16777216 + b * 4096 + x" by (rule unat_blk_byte) (use b25 xn in linarith)
    moreover have "unat (?q + 2) = 16777216 + pb * 4096 + 2" using unat_blk_byte [of pb 2] pb25 by simp
    ultimately have "108 \<le> unat (blk_addr b + of_nat x - (?q + 2))"
      unfolding unat_sub32 using apart xn b25 pb25 by simp linarith
    then have "ram k3 (blk_addr b + of_nat x) = ram k2 (blk_addr b + of_nat x)"
      using Q stable_live [OF rep2 bn xn] by blast
    then show "ram k3 (blk_addr b + of_nat x) = bs ! x" using L x by (simp add: image_at_def)
  qed
  have low: "b < 25600" "s < 25600" using live_blk [OF rep2 bn] s by (simp_all add: first_fit_def room_def)
  have stk: "image_at (ram k3) (blk_addr s) (replicate 16384 0)" using Q by (simp add: image_at_def)
  have "program_started k ts slot bs ?q b s (blk_addr t) d k3"
    unfolding program_started_def using Q img stk low D k1 by simp blast
  moreover have "program_held scratch k A ts ?q k3"
  proof -
    let ?A3 = "A'(s \<mapsto> 4) ++ ones (t # c # d # T)"
    have new: "\<forall>x \<in> set (t # c # d # T). (A'(s \<mapsto> 4)) x = None" using Q by blast
    have A'3: "A' \<subseteq>\<^sub>m ?A3"
      using new sNone by (auto simp: map_le_def ones_def map_add_def split: if_splits)
    have AA': "?A \<subseteq>\<^sub>m A'" using L by blast
    have le3: "A \<subseteq>\<^sub>m ?A3" by (rule map_le_trans [OF AA map_le_trans [OF AA' A'3]])
    have pb3: "?A3 pb = Some 3" using bspec [OF A'3 [unfolded map_le_def] domI [of A' pb 3, OF live(1)]] live(1) by simp
    have live3: "process_live k3 ?A3 c d T ?q own s t" by (rule loaded_live [OF R(2) own(1-3)])
    have fresh3: "x \<notin> insert pb (dom A)" if x: "x \<in> set (own @ [s, t, c, d] @ T)" for x
    proof -
      have "x \<in> set own \<or> A' x = None" using x new sNone by (auto split: if_splits)
      then show ?thesis
      proof
        assume "x \<in> set own"
        then show ?thesis using own(4) by auto
      next
        assume "A' x = None"
        then have "x \<notin> dom ?A" using map_le_implies_dom_le [OF AA'] by blast
        then show ?thesis by simp
      qed
    qed
    have kept3: "kept scratch A (ram k) (ram k3)"
      unfolding kept_def
    proof (intro allI impI)
      fix a assume a: "stable A a" "\<not> scratch a"
      have a': "stable A' a" by (rule stable_map_le [OF _ a(1)]) (rule map_le_trans [OF AA AA'])
      have "108 \<le> unat (a - (?q + 2))"
      proof (rule ccontr)
        let ?x = "unat (a - (?q + 2)) + 2"
        assume "\<not> 108 \<le> unat (a - (?q + 2))"
        then have "?x < 3 * 4096" by simp
        then have "\<not> stable A (?q + of_nat ?x)" by (rule fresh_unstable [OF P(4,3)])
        moreover have "?q + of_nat ?x = a" by simp
        ultimately show False using a(1) by simp
      qed
      then have "ram k3 a = ram k2 a" using Q a' by blast
      also have "\<dots> = ram k1 a" using L stable_map_le [OF AA a(1)] a(2) by (simp add: kept_def)
      also have "\<dots> = ram k a" using kept1 a by (simp add: kept_def)
      finally show "ram k3 a = ram k a" .
    qed
    have "allocations (procs k3 ?q) = replicate 1024 no_alloc" "prev_task (tasks k3 (blk_addr t)) = last (0 # ts)" using Q by blast+
    then show ?thesis by (intro program_heldI [OF refl P(2,3) le3 pb3 live3 fresh3 _ _ kept3])
  qed
  ultimately show ?thesis using run by blast
qed

end

end
