(* ===== verification/FatVolume.thy ===== *)
theory FatVolume
  imports FatOpen FileDriver
begin

text \<open>
  FAT16 keeps the contract of the file layer: the interpretation of the locale \<open>filesystem_driver\<close> on the
  functions of \<^verbatim>\<open>fat16.c\<close>.
\<close>

subsection \<open>Volumes, files and handles\<close>

text \<open>
  A mounted disk whose private structure and root directory lie in memory no allocation touches is a volume.  It
  \<open>holds\<close> a file if exactly one item of the root directory has its name and the chain of its first cluster
  delivers its contents.  A handle is the three blocks \<open>fat16_open\<close> leaves behind.
\<close>

definition fat_scratch :: "u32 \<Rightarrow> u32 \<Rightarrow> bool" where
  \<comment> \<open>\<open>char tmp_filename[PEACHOS_MAX_PATH]\<close> of \<open>fat16_find_item_in_directory\<close>\<close>
  "fat_scratch tmp a \<longleftrightarrow> unat (a - tmp) < 108"

definition root_items :: "'a io_state_scheme \<Rightarrow> u32" where
  "root_items k = dir_item (root_directory (the_private k))"

definition root_count :: "'a io_state_scheme \<Rightarrow> nat" where
  "root_count k = nat (dir_total (root_directory (the_private k)))"

definition fat_volume :: "u32 \<Rightarrow> 'a file_state_scheme \<Rightarrow> (nat \<rightharpoonup> nat) \<Rightarrow> bool" where
  "fat_volume tmp k A \<longleftrightarrow> mounted k \<and> 0 \<le> dir_total (root_directory (the_private k)) \<and> 32 * root_count k < 2147483648
     \<and> stable_bytes A (fs_private (the_disk k)) 92 \<and> disjoint_from (fs_private (the_disk k)) 92 tmp 108
     \<and> stable_bytes A (root_items k) (32 * root_count k) \<and> disjoint_from (root_items k) (32 * root_count k) tmp 108
     \<and> disjoint_from 0x7E00 25600 tmp 108 \<and> unat tmp + 108 \<le> 16777216"

definition item_holds :: "'a io_state_scheme \<Rightarrow> fat_directory_item \<Rightarrow> u8 list \<Rightarrow> bool" where
  "item_holds k item bs \<longleftrightarrow>
     (let c = unat (fat16_get_first_cluster item)
      in c < 2147483648 \<and> item_filesize item = of_nat (length bs) \<and> bs \<noteq> [] \<and> length bs < 2147483648
       \<and> readable k c 0 (length bs) \<and> bs = map (file_byte k c) [0..<length bs])"

definition fat_holds :: "'a file_state_scheme \<Rightarrow> u8 list \<Rightarrow> u8 list \<Rightarrow> bool" where
  "fat_holds k nm bs \<longleftrightarrow> length nm < 108
     \<and> (\<exists>j < root_count k. name_matches (ram k) (root_items k) j nm
          \<and> (\<forall>i < root_count k. i \<noteq> j \<longrightarrow> \<not> name_matches (ram k) (root_items k) i nm)
          \<and> attribute (fat_directory_item_at (ram k) (root_items k + of_nat (32 * j))) AND FAT_FILE_SUBDIRECTORY = 0
          \<and> item_holds k (fat_directory_item_at (ram k) (root_items k + of_nat (32 * j))) bs)"

definition fat_handle :: "u32 \<Rightarrow> 'a file_state_scheme \<Rightarrow> (nat \<rightharpoonup> nat) \<Rightarrow> u32 \<Rightarrow> nat list \<Rightarrow> u8 list \<Rightarrow> bool" where
  "fat_handle tmp k A p own bs \<longleftrightarrow> (\<exists>b f c. own = [b, f, c] \<and> distinct own \<and> (\<forall>x \<in> set own. x < 25600 \<and> A x = Some 1)
     \<and> (\<forall>x \<in> set own. stable_bytes A (blk_addr x) 32) \<and> p = blk_addr b
     \<and> fat_file_descriptor_at (ram k) (blk_addr b) = \<lparr>desc_item = blk_addr f, desc_pos = 0\<rparr>
     \<and> fat_item_at (ram k) (blk_addr f) = \<lparr>item_ptr = blk_addr c, item_type = FAT_ITEM_TYPE_FILE\<rparr>
     \<and> item_holds k (fat_directory_item_at (ram k) (blk_addr c)) bs)
     \<and> mounted k \<and> stable_bytes A (fs_private (the_disk k)) 92 \<and> disjoint_from (fs_private (the_disk k)) 92 tmp 108
     \<and> unat tmp + 108 \<le> 16777216"

subsection \<open>What they depend on\<close>

lemma kept_same:
  assumes "kept (fat_scratch tmp) A m m'" and "stable_bytes A a n" and "disjoint_from a n tmp 108"
  shows "same_bytes a n m m'"
  using assms by (auto simp: same_bytes_def kept_def stable_bytes_def disjoint_from_def fat_scratch_def) 

lemma item_holds_cong:
  assumes "the_private k' = the_private k" and "ata_image (drive k') = ata_image (drive k)"
  shows "item_holds k' item bs = item_holds k item bs"
  by (simp add: item_holds_def file_cong [OF assms])

lemma private_same:
  assumes "the_disk k' = the_disk k" and "same_bytes (fs_private (the_disk k)) 92 (ram k) (ram k')"
  shows "the_private k' = the_private k"
  using fat_private_at_same [OF assms(2)] by (simp add: the_private_def assms(1))

lemma fat_private_kept:
  assumes "same_io k k'" and "kept (fat_scratch tmp) A (ram k) (ram k')"
    and "stable_bytes A (fs_private (the_disk k)) 92" and "disjoint_from (fs_private (the_disk k)) 92 tmp 108"
  shows "the_private k' = the_private k"
  using private_same [of k' k] kept_same [OF assms(2-4)] assms(1) by (simp add: same_io_def)

lemma mounted_kept: "mounted k \<Longrightarrow> same_io k k' \<Longrightarrow> the_private k' = the_private k \<Longrightarrow> mounted k'"
  by (simp add: mounted_def same_io_def)

lemma fat_holds_cong:
  fixes k :: "'a file_state_scheme"
  assumes p: "the_private k' = the_private k" and img: "ata_image (drive k') = ata_image (drive k)"
    and same: "same_bytes (root_items k) (32 * root_count k) (ram k) (ram k')" and h: "fat_holds k nm bs"
  shows "fat_holds k' nm bs"
proof -
  have r: "root_items k' = root_items k" "root_count k' = root_count k" by (simp_all add: root_items_def root_count_def p)
  have nm: "name_matches (ram k') (root_items k) i nm = name_matches (ram k) (root_items k) i nm" if "i < root_count k" for i
    using name_matches_same [OF same that] by simp
  have it: "fat_directory_item_at (ram k') (root_items k + of_nat (32 * i)) = fat_directory_item_at (ram k) (root_items k + of_nat (32 * i))"
    if "i < root_count k" for i
    using fat_directory_item_at_same [OF same_bytes_sub [OF same, of "32 * i" 32]] that by simp
  show ?thesis
    using h unfolding fat_holds_def r item_holds_cong [OF p img] by (metis nm it)
qed

lemma fat_scratch_low:
  assumes "fat_volume tmp k A" and "fat_scratch tmp a"
  shows "unat a < 16777216 \<and> 25600 \<le> unat (a - 0x7E00)"
proof
  have apart: "disjoint_from 0x7E00 25600 tmp 108" and low: "unat tmp + 108 \<le> 16777216"
    using assms(1) unfolding fat_volume_def by blast+
  have s: "unat (a - tmp) < 108" using assms(2) by (simp add: fat_scratch_def)
  have "unat a = unat (tmp + of_nat (unat (a - tmp)))" by simp
  also have "\<dots> = (unat tmp + unat (a - tmp)) mod 4294967296" by (simp only: unat_add32 unat_of_nat32 unat_bound32)
  also have "\<dots> = unat tmp + unat (a - tmp)" using low s by simp
  finally show "unat a < 16777216" using low s by simp
  show "25600 \<le> unat (a - 0x7E00)"
  proof (rule ccontr)
    assume "\<not> 25600 \<le> unat (a - 0x7E00)"
    then have "108 \<le> unat (0x7E00 + of_nat (unat (a - 0x7E00)) - tmp)"
      using apart unfolding disjoint_from_def by (meson not_le)
    then show False using s by simp
  qed
qed

lemma fat_volume_kept:
  assumes v: "fat_volume tmp k A" and "same_io k k'" and "kept (fat_scratch tmp) A (ram k) (ram k')"
  shows "fat_volume tmp k' A \<and> (fat_holds k nm bs \<longrightarrow> fat_holds k' nm bs)"
proof -
  note V = v [unfolded fat_volume_def]
  have p: "the_private k' = the_private k" by (rule fat_private_kept [OF assms(2,3)]) (use V in blast)+
  have same: "same_bytes (root_items k) (32 * root_count k) (ram k) (ram k')"
    by (rule kept_same [OF assms(3)]) (use V in blast)+
  have "mounted k'" by (rule mounted_kept [OF _ assms(2) p]) (use V in blast)
  moreover have "root_items k' = root_items k" "root_count k' = root_count k" by (simp_all add: root_items_def root_count_def p)
  moreover have "the_disk k' = the_disk k" "drive k' = drive k" using assms(2) by (simp_all add: same_io_def)
  ultimately show ?thesis
    using V fat_holds_cong [OF p _ same] by (simp add: fat_volume_def p)
qed

lemma fat_file_descriptor_at_same:
  assumes "same_bytes b 8 m m'"
  shows "fat_file_descriptor_at m b = fat_file_descriptor_at m' b"
  using load32_same [OF same_bytes_sub [OF assms, of 0 4]] load32_same [OF same_bytes_sub [OF assms, of 4 4]]
  by (simp add: fat_file_descriptor_at_def)

lemma same_bytes_prefix: "same_bytes a n m m' \<Longrightarrow> l \<le> n \<Longrightarrow> same_bytes a l m m'"
  by (simp add: same_bytes_def)

lemma fat_handle_cong:
  fixes k :: "'a file_state_scheme"
  assumes h: "fat_handle tmp k A p own bs" and "the_private k' = the_private k" and "ata_image (drive k') = ata_image (drive k)"
    and "the_disk k' = the_disk k" and "mounted k'" and same: "\<And>x. x \<in> set own \<Longrightarrow> same_bytes (blk_addr x) 32 (ram k) (ram k')"
  shows "fat_handle tmp k' A p own bs"
proof -
  obtain b f c where own: "own = [b, f, c]" and H: "p = blk_addr b" "distinct own" "\<forall>x \<in> set own. x < 25600 \<and> A x = Some 1"
    "\<forall>x \<in> set own. stable_bytes A (blk_addr x) 32"
    "fat_file_descriptor_at (ram k) (blk_addr b) = \<lparr>desc_item = blk_addr f, desc_pos = 0\<rparr>"
    "fat_item_at (ram k) (blk_addr f) = \<lparr>item_ptr = blk_addr c, item_type = FAT_ITEM_TYPE_FILE\<rparr>"
    "item_holds k (fat_directory_item_at (ram k) (blk_addr c)) bs"
    and V: "mounted k" "stable_bytes A (fs_private (the_disk k)) 92" "disjoint_from (fs_private (the_disk k)) 92 tmp 108"
      "unat tmp + 108 \<le> 16777216"
    using h unfolding fat_handle_def by blast
  have "same_bytes (blk_addr b) 32 (ram k) (ram k')" "same_bytes (blk_addr f) 32 (ram k) (ram k')" "same_bytes (blk_addr c) 32 (ram k) (ram k')"
    using same own by simp_all
  then have "same_bytes (blk_addr b) 8 (ram k) (ram k')" "same_bytes (blk_addr f) 8 (ram k) (ram k')" "same_bytes (blk_addr c) 32 (ram k) (ram k')"
    by (auto intro: same_bytes_prefix)
  then have "fat_file_descriptor_at (ram k') (blk_addr b) = fat_file_descriptor_at (ram k) (blk_addr b)"
    "fat_item_at (ram k') (blk_addr f) = fat_item_at (ram k) (blk_addr f)"
    "fat_directory_item_at (ram k') (blk_addr c) = fat_directory_item_at (ram k) (blk_addr c)"
    using fat_file_descriptor_at_same fat_item_at_same fat_directory_item_at_same by metis+
  then show ?thesis
    unfolding fat_handle_def using own H V assms(4,5) item_holds_cong [OF assms(2,3)]
    by (intro conjI exI [of _ b] exI [of _ f] exI [of _ c]) simp_all
qed

lemma fat_handle_kept:
  assumes h: "fat_handle tmp k A p own bs" and io: "same_io k k'" and kept: "kept (fat_scratch tmp) A (ram k) (ram k')"
  shows "fat_handle tmp k' A p own bs"
proof -
  have V: "mounted k" "stable_bytes A (fs_private (the_disk k)) 92" "disjoint_from (fs_private (the_disk k)) 92 tmp 108"
    "unat tmp + 108 \<le> 16777216" "\<forall>x \<in> set own. x < 25600 \<and> stable_bytes A (blk_addr x) 32"
    using h unfolding fat_handle_def by blast+
  have p: "the_private k' = the_private k" by (rule fat_private_kept [OF io kept V(2,3)])
  have "same_bytes (blk_addr x) 32 (ram k) (ram k')" if "x \<in> set own" for x
    using kept_same [OF kept] V(5) block_off_stack [OF V(4), of x 32] that by simp
  then show ?thesis
    using io mounted_kept [OF V(1) io p] by (intro fat_handle_cong [OF h p]) (simp_all add: same_io_def)
qed

subsection \<open>The operations\<close>

lemma stable_bytes_part: "stable_bytes A a n \<Longrightarrow> j + l \<le> n \<Longrightarrow> stable_bytes A (a + of_nat j) l"
  unfolding stable_bytes_def
proof (intro allI impI)
  fix i assume st: "\<forall>i < n. stable A (a + of_nat i)" and "j + l \<le> n" "i < l"
  then have "j + i < n" by simp
  from st [rule_format, OF this] show "stable A (a + of_nat j + of_nat i)" by (simp add: add.assoc)
qed

lemma fat_open_law:
  fixes k :: "'a file_state_scheme"
  assumes rep: "kheap_rep k B" and vol: "fat_volume tmp k A" "A \<subseteq>\<^sub>m B" and held: "fat_holds k nm bs"
    and name: "cstr (ram k) (part_str (path_parts k part)) nm" "part_next (path_parts k part) = 0"
      "\<forall>i \<le> length nm. stable B (part_str (path_parts k part) + of_nat i) \<and> \<not> fat_scratch tmp (part_str (path_parts k part) + of_nat i)"
    and free: "3 \<le> free_blocks 25600 B"
  shows "\<exists>p own k'. fat16_open tmp dsk part 0 k = Some (p, k') \<and> 0 \<le> as_int p \<and> length own \<le> 3 \<and> distinct own
        \<and> (\<forall>b \<in> set own. b < 25600 \<and> B b = None) \<and> kheap_rep k' (B ++ ones own) \<and> fat_handle tmp k' (B ++ ones own) p own bs
        \<and> driver_only k k' \<and> kept (fat_scratch tmp) B (ram k) (ram k') \<and> fat_volume tmp k' A \<and> (\<forall>nm bs. fat_holds k nm bs \<longrightarrow> fat_holds k' nm bs)"
proof -
  note V = vol(1) [unfolded fat_volume_def]
  let ?D = "root_items k" and ?N = "root_count k"
  have stB: "stable_bytes A a n \<Longrightarrow> stable_bytes B a n" for a n
    using stable_map_le [OF vol(2)] by (simp add: stable_bytes_def)
  have dir: "fat_directory_at (ram k) (fs_private (the_disk k) + 64) = root_directory (the_private k)"
    by (simp add: the_private_def fat_private_at_def)
  have low: "unat tmp + 108 \<le> 16777216" using V by blast
  have ok: "directory_ok k B tmp (fs_private (the_disk k) + 64) ?D ?N (part_str (path_parts k part)) nm"
  proof -
    have "stable_bytes B (fs_private (the_disk k)) 92" using V stB by blast
    then have "stable_bytes B (fs_private (the_disk k) + of_nat 64) 16" by (rule stable_bytes_part) simp
    moreover have "disjoint_from (fs_private (the_disk k) + of_nat 64) 16 tmp 108"
      by (rule disjoint_from_part [of "fs_private (the_disk k)" 92 tmp 108]) (use V in simp_all)
    moreover have "disjoint_from (part_str (path_parts k part)) (Suc (length nm)) tmp 108"
      "stable_bytes B (part_str (path_parts k part)) (Suc (length nm))"
      using name(3) by (auto simp: disjoint_from_def stable_bytes_def fat_scratch_def less_Suc_eq_le not_less)
    ultimately show ?thesis
      using V rep name(1) held stB by (simp add: directory_ok_def dir fat_holds_def) (simp add: root_items_def root_count_def)
  qed
  obtain j where j: "j < ?N" "name_matches (ram k) ?D j nm" "\<And>i. i < ?N \<Longrightarrow> i \<noteq> j \<Longrightarrow> \<not> name_matches (ram k) ?D i nm"
    "attribute (fat_directory_item_at (ram k) (?D + of_nat (32 * j))) AND FAT_FILE_SUBDIRECTORY = 0"
    "item_holds k (fat_directory_item_at (ram k) (?D + of_nat (32 * j))) bs"
    using held unfolding fat_holds_def by blast
  obtain b f c k' where run: "fat16_open tmp dsk part FILE_MODE_READ k = Some (blk_addr b, k')"
    and o: "opened_at k B tmp (fat_directory_item_at (ram k) (?D + of_nat (32 * j))) b f c k'"
    using open_run [OF ok low name(2) j(1-4) free] by blast
  note O = o [unfolded opened_at_def]
  let ?own = "[b, f, c]"
  have C: "B(b \<mapsto> 1, f \<mapsto> 1, c \<mapsto> 1) = B ++ ones ?own" by (auto simp: ones_def map_add_def)
  have rep': "kheap_rep k' (B ++ ones ?own)" using O unfolding C by blast
  have more: "kmem.more k' = kmem.more k" using O by blast
  have drv: "driver_only k k'"
    using more kheap_repD(1) [OF rep] kheap_repD(1) [OF rep'] unfolding driver_only_iff by (cases k; cases k') simp
  have io: "same_io k k'" using more unfolding same_io_def by (cases k; cases k') simp
  have kept: "kept (fat_scratch tmp) B (ram k) (ram k')"
    unfolding kept_def
  proof (intro allI impI)
    fix a assume "stable B a" "\<not> fat_scratch tmp a"
    then have "stable_bytes B a 1" "disjoint_from a 1 tmp 108" by (simp_all add: stable_bytes_def disjoint_from_def fat_scratch_def)
    then have "same_bytes a 1 (ram k) (ram k')" using O by blast
    then show "ram k' a = ram k a" by (simp add: same_bytes_def)
  qed
  have vol': "fat_volume tmp k' A" "\<forall>nm bs. fat_holds k nm bs \<longrightarrow> fat_holds k' nm bs"
    using fat_volume_kept [OF vol(1) io kept_le [OF vol(2) kept]] by blast+
  have p: "the_private k' = the_private k"
    by (rule fat_private_kept [OF io kept_le [OF vol(2) kept]]) (use V in blast)+
  have stO: "stable_bytes (B ++ ones ?own) (blk_addr x) 32" if "x \<in> set ?own" for x
    by (rule stable_bytes_block [OF rep']) (use that in \<open>simp_all add: ones_def\<close>)
  have BO: "B \<subseteq>\<^sub>m B ++ ones ?own" using O by (auto simp: map_le_def ones_def map_add_def)
  have "stable_bytes B (fs_private (the_disk k)) 92" using V stB by blast
  then have priv: "stable_bytes (B ++ ones ?own) (fs_private (the_disk k')) 92"
    using stable_map_le [OF BO] io by (simp add: stable_bytes_def same_io_def)
  have img: "ata_image (drive k') = ata_image (drive k)" using io by (simp add: same_io_def)
  have m': "mounted k'" using vol'(1) by (simp add: fat_volume_def)
  have item': "item_holds k' (fat_directory_item_at (ram k') (blk_addr c)) bs"
    using j(5) O item_holds_cong [OF p img] by simp
  have off: "disjoint_from (fs_private (the_disk k')) 92 tmp 108" using V io by (simp add: same_io_def)
  have "fat_handle tmp k' (B ++ ones ?own) (blk_addr b) ?own bs"
    unfolding fat_handle_def using O stO priv low m' item' off
    by (intro conjI exI [of _ b] exI [of _ f] exI [of _ c]) (simp_all add: ones_def)
  moreover have "0 \<le> as_int (blk_addr b)"
    using as_int_nonneg [of "blk_addr b"] unat_blk_addr [of b] O by simp
  ultimately show ?thesis
    using run O rep' drv kept vol'
    by (intro exI [of _ "blk_addr b"] exI [of _ ?own] exI [of _ k']) simp
qed

lemma fat_handleE:
  assumes "fat_handle tmp k A p own bs"
  obtains b f c where "own = [b, f, c]" "p = blk_addr b" "b \<noteq> f" "b \<noteq> c" "f \<noteq> c" "A b = Some 1" "A f = Some 1" "A c = Some 1"
    "fat_file_descriptor_at (ram k) (blk_addr b) = \<lparr>desc_item = blk_addr f, desc_pos = 0\<rparr>"
    "fat_item_at (ram k) (blk_addr f) = \<lparr>item_ptr = blk_addr c, item_type = FAT_ITEM_TYPE_FILE\<rparr>"
    "item_holds k (fat_directory_item_at (ram k) (blk_addr c)) bs" "\<forall>x \<in> set [b, f, c]. stable_bytes A (blk_addr x) 32"
  using assms unfolding fat_handle_def by auto

lemma fat_stat_law:
  assumes "fat_handle tmp k A p own bs"
  shows "\<exists>st'. fat16_stat dsk p st k = Some (0, st', k) \<and> filesize st' = of_nat (length bs)"
  by (rule fat_handleE [OF assms]) (simp add: fat16_stat_def Let_def item_holds_def)

lemma fat_read_law:
  fixes k :: "'a file_state_scheme"
  assumes h: "fat_handle tmp k B p own bs" and vol: "fat_volume tmp k A" "A \<subseteq>\<^sub>m B"
    and out: "\<forall>i < length bs. \<not> stable B (out + of_nat i) \<and> \<not> fat_scratch tmp (out + of_nat i)"
  shows "\<exists>k'. fat16_read dsk p (of_nat (length bs)) 1 out k = Some (1, k')
        \<and> (\<forall>x. ram k' x = (if unat (x - out) < length bs then bs ! unat (x - out) else ram k x))
        \<and> driver_only k k' \<and> fat_volume tmp k' A \<and> fat_handle tmp k' B p own bs \<and> (\<forall>nm bs. fat_holds k nm bs \<longrightarrow> fat_holds k' nm bs)"
proof -
  obtain b f c where H: "own = [b, f, c]" "p = blk_addr b"
    "fat_file_descriptor_at (ram k) (blk_addr b) = \<lparr>desc_item = blk_addr f, desc_pos = 0\<rparr>"
    "fat_item_at (ram k) (blk_addr f) = \<lparr>item_ptr = blk_addr c, item_type = FAT_ITEM_TYPE_FILE\<rparr>"
    "item_holds k (fat_directory_item_at (ram k) (blk_addr c)) bs" "\<forall>x \<in> set own. stable_bytes B (blk_addr x) 32"
    by (rule fat_handleE [OF h]) simp
  note V = vol(1) [unfolded fat_volume_def]
  have m: "mounted k" using V by blast
  let ?n = "length bs" and ?item = "fat_directory_item_at (ram k) (blk_addr c)"
  let ?cl = "unat (fat16_get_first_cluster ?item)"
  have I: "?cl < 2147483648" "?n < 2147483648" "readable k ?cl 0 ?n" "bs = map (file_byte k ?cl) [0..<?n]"
    using H(5) unfolding item_holds_def Let_def by blast+
  have away: "disjoint_from a n out ?n" if st: "stable_bytes B a n" for a n
    unfolding disjoint_from_def
  proof (intro allI impI)
    fix i assume i: "i < n"
    show "?n \<le> unat (a + of_nat i - out)"
    proof (rule ccontr)
      assume "\<not> ?n \<le> unat (a + of_nat i - out)"
      then have "\<not> stable B (out + of_nat (unat (a + of_nat i - out)))" using out by (meson not_le)
      moreover have "out + of_nat (unat (a + of_nat i - out)) = a + of_nat i" by simp
      ultimately have "\<not> stable B (a + of_nat i)" by (rule back_subst [where P = "\<lambda>x. \<not> stable B x"])
      then show False using st i by (simp add: stable_bytes_def)
    qed
  qed
  have stB: "stable_bytes A a n \<Longrightarrow> stable_bytes B a n" for a n
    using stable_map_le [OF vol(2)] by (simp add: stable_bytes_def)
  have stc: "stable_bytes B (blk_addr c) 32" using H(1,6) by simp
  have priv: "stable_bytes B (fs_private (the_disk k)) 92" using V stB by blast
  have way: "out_of_the_way k (blk_addr c) out (1 * ?n)"
    using away [OF stc] away [OF priv] I(2) by (simp add: out_of_the_way_def)
  have recs: "records_readable k ?cl 0 ?n 1" using I(3) by (simp add: records_readable_def one_piece_def)
  have first: "first_cluster_at k (blk_addr c) = of_nat ?cl" by (simp add: first_cluster_at_def)
  obtain k' where k': "read_loop 1 (blk_addr c) (of_nat ?n) (int 0) out 1 k = Some (1, k')"
    "advanced k (put_bytes out (map (\<lambda>j. file_byte k ?cl (0 + j)) [0..<1 * ?n]) (ram k)) k'"
    using read_loop_run [OF m way recs first I(1) _ I(2), of 1] I(2) by auto
  let ?m = "put_bytes out bs (ram k)"
  have adv: "advanced k ?m k'" using k'(2) I(4) by simp
  have "as_int 1 = 1" using as_int_of_nat [of 1] by simp
  moreover have "as_int 0 = 0" using as_int_of_nat [of 0] by simp
  ultimately have run: "fat16_read dsk p (of_nat ?n) 1 out k = Some (1, k')"
    using k'(1) by (simp add: fat16_read_def Let_def H(2-4) del: read_loop.simps)
  have ram: "ram k' x = (if unat (x - out) < ?n then bs ! unat (x - out) else ram k x)" for x
    using I(2) by (simp add: advancedD(1) [OF adv] put_bytes_at)
  have same: "same_bytes a n (ram k) (ram k')" if "stable_bytes B a n" for a n
    unfolding advancedD(1) [OF adv] by (rule same_bytes_put [OF away [OF that]]) (use I(2) in simp)
  have keep: "keeps_private k ?m" using same [OF priv] by (simp add: keeps_private_def advancedD(1) [OF adv])
  note p = the_private_advanced [OF adv keep] and m' = mounted_advanced [OF m adv keep] and F = advancedD [OF adv]
  have "stable_bytes B (root_items k) (32 * root_count k)" using V stB by blast
  note root = same [OF this]
  have r: "root_items k' = root_items k" "root_count k' = root_count k" by (simp_all add: root_items_def root_count_def p)
  have "fat_volume tmp k' A" using V m' by (simp add: fat_volume_def p F r)
  moreover have "fat_handle tmp k' B p own bs"
    by (rule fat_handle_cong [OF h p F(4,2) m']) (use same H(6) in blast)
  moreover have "\<forall>nm bs. fat_holds k nm bs \<longrightarrow> fat_holds k' nm bs"
    using fat_holds_cong [OF p F(4) root] by blast
  moreover have "driver_only k k'" using adv unfolding advanced_def driver_only_def by (cases k) auto
  ultimately show ?thesis using run ram by blast
qed

lemma fat_close_law:
  fixes k :: "'a file_state_scheme"
  assumes h: "fat_handle tmp k B p own bs" and rep: "kheap_rep k C" and le: "B \<subseteq>\<^sub>m C"
  shows "\<exists>m. fat16_close p k = Some (0, k\<lparr>ram := m\<rparr>) \<and> kheap_rep (k\<lparr>ram := m\<rparr>) (C |` (- set own))
        \<and> (\<forall>a. 25600 \<le> unat (a - 0x7E00) \<longrightarrow> m a = ram k a)"
proof -
  obtain b f c where H: "own = [b, f, c]" "p = blk_addr b" "b \<noteq> f" "b \<noteq> c" "f \<noteq> c" "B b = Some 1" "B f = Some 1" "B c = Some 1"
    "fat_file_descriptor_at (ram k) (blk_addr b) = \<lparr>desc_item = blk_addr f, desc_pos = 0\<rparr>"
    "fat_item_at (ram k) (blk_addr f) = \<lparr>item_ptr = blk_addr c, item_type = FAT_ITEM_TYPE_FILE\<rparr>"
    by (rule fat_handleE [OF h]) simp
  have live: "C b = Some 1" "C f = Some 1" "C c = Some 1" using H(6-8) le by (auto simp: map_le_def dom_def) 
  obtain k' where k': "fat16_close (blk_addr b) k = Some (0, k')" "kheap_rep k' (C |` (- {b, f, c}))" "kmem.more k' = kmem.more k"
    "\<forall>a. 25600 \<le> unat (a - 0x7E00) \<longrightarrow> ram k' a = ram k a"
    using close_run [OF rep live H(3-5)] H(9,10) by auto
  have "k' = k\<lparr>ram := ram k'\<rparr>"
    using k'(3) kheap_repD(1) [OF rep] kheap_repD(1) [OF k'(2)] by (cases k; cases k') simp
  then show ?thesis using k' unfolding H(1,2) by (intro exI [of _ "ram k'"]) simp
qed

interpretation fat: filesystem_driver "fat16_fs fs tmp" "fat_volume tmp" fat_holds "fat_handle tmp" "fat_scratch tmp"
proof unfold_locales
  fix k k' :: "'a file_state_scheme" and A :: "nat \<rightharpoonup> nat" and nm bs
  assume "fat_volume tmp k A" "same_io k k'" "kept (fat_scratch tmp) A (ram k) (ram k')"
  then show "fat_volume tmp k' A \<and> (fat_holds k nm bs \<longrightarrow> fat_holds k' nm bs)" by (rule fat_volume_kept)
next
  fix k k' :: "'a file_state_scheme" and A :: "nat \<rightharpoonup> nat" and p own bs
  assume "fat_handle tmp k A p own bs" "same_io k k'" "kept (fat_scratch tmp) A (ram k) (ram k')"
  then show "fat_handle tmp k' A p own bs" by (rule fat_handle_kept)
next
  fix k :: "'a file_state_scheme" and A :: "nat \<rightharpoonup> nat" and p own bs
  assume "fat_handle tmp k A p own bs"
  then show "bs \<noteq> [] \<and> length bs < 2147483648 \<and> (\<forall>b \<in> set own. A b = Some 1)"
    by (elim fat_handleE) (simp add: item_holds_def Let_def)
next
  fix k :: "'a file_state_scheme" and A B :: "nat \<rightharpoonup> nat"
  assume "fat_volume tmp k A" "A \<subseteq>\<^sub>m B"
  then show "fat_volume tmp k B" using stable_map_le by (auto simp: fat_volume_def stable_bytes_def)
next
  fix k :: "'a file_state_scheme" and A :: "nat \<rightharpoonup> nat" and a
  assume "fat_volume tmp k A" "fat_scratch tmp a"
  then show "unat a < 16777216 \<and> 25600 \<le> unat (a - 0x7E00)" by (rule fat_scratch_low)
next
  fix k :: "'a file_state_scheme" and A :: "nat \<rightharpoonup> nat" and p own bs dsk st
  assume "fat_handle tmp k A p own bs"
  then show "\<exists>st'. fs_stat_fn (fat16_fs fs tmp) dsk p st k = Some (0, st', k) \<and> filesize st' = of_nat (length bs)"
    using fat_stat_law by (simp add: fat16_fs_def)
qed (simp_all add: fat16_fs_def fat_open_law fat_read_law fat_close_law)

end
