(* ===== verification/Programs.thy ===== *)
theory Programs
  imports LoadProgram FatVolume
begin

text \<open>
  Programs on the FAT16 disk: what \<open>process_load\<close> achieves for flat binaries and for ELF files, read through
  the page tables of the new task.
\<close>

subsection \<open>Reading through a task's page tables\<close>

lemma aligned_sum: "(a :: u32) mod 4096 = 0 \<Longrightarrow> b mod 4096 = 0 \<Longrightarrow> (a + b) mod 4096 = 0"
  unfolding unat_aligned_dvd unat_add32 by (rule dvd_mod) simp_all

lemma aligned_diff: "(a :: u32) mod 4096 = 0 \<Longrightarrow> b mod 4096 = 0 \<Longrightarrow> (a - b) mod 4096 = 0"
  unfolding unat_aligned_dvd unat_sub32 by (auto intro: dvd_diff_nat)

lemma mapped_read:
  fixes k :: "'a task_state_scheme"
  assumes wf: "chunk_wf (ram k) c d T" and pres: "dir_present (ram k) d"
    and entry: "paging_get (blk_addr d) (paging_align_to_lower_page va) (ram k) = (phys + (paging_align_to_lower_page va - virt)) OR fl"
    and fl: "fl = 5 \<or> fl = 7" and al: "phys mod 4096 = 0" "virt mod 4096 = 0"
  shows "virt_read (paging_switch (blk_addr c) k) va = Some (ram k (phys + (va - virt)))"
proof -
  define k' where "k' = paging_switch (blk_addr c) k"
  let ?v = "paging_align_to_lower_page va"
  let ?f = "phys + (?v - virt)"
  have cr3: "ram k' = ram k" "cr3 k' = blk_addr d"
    using chunk_wfD(5) [OF wf] by (simp_all add: k'_def paging_switch_def paging_load_directory_def)
  have v: "?v mod 4096 = 0" by (rule aligned_to_lower)
  have pg: "page_of ?v = page_of va" by (simp add: page_of_def aligned_to_lower(2))
  have "load32 (ram k) (entry_cell T (page_of va)) = ?f OR fl"
    using paging_get_eq [OF chunk_wfD(1) [OF wf] v] entry pg by simp
  then have t: "translate k' va = entry_to_phys (?f OR fl) va"
    using translate_eq [of k' d T va] chunk_wfD(1) [OF wf] pres by (simp add: cr3)
  have al': "?f mod 4096 = 0" by (intro aligned_sum aligned_diff al v)
  have mask: "(?f OR fl) AND 0xfffff000 = ?f"
    by (rule frame_mask [OF al']) (use fl in auto)
  have "bit (?f OR fl) 0" using fl by (auto simp: bit_or_iff)
  moreover have sum: "?f + va mod 4096 = phys + (va - virt)" by (simp add: paging_align_to_lower_page_def)
  ultimately show ?thesis unfolding k'_def [symmetric]
    by (simp only: virt_read_def t entry_to_phys_def mask cr3 sum if_True option.map)
qed

text \<open>
  \<open>covers ph va\<close>: mapping the segment redirects the page of \<open>va\<close>.
\<close>

definition covers :: "elf32_phdr \<Rightarrow> u32 \<Rightarrow> bool" where
  "covers ph va \<longleftrightarrow> unat (paging_align_to_lower_page va - paging_align_to_lower_page (p_vaddr ph)) < 4096 * seg_pages 0 ph"

definition on_stack :: "u32 \<Rightarrow> bool" where
  "on_stack va \<longleftrightarrow> unat (va - 0x3FB000) < 16384"

lemma mod_blk: "b < 25600 \<Longrightarrow> (blk_addr b + off) mod 4096 = off mod 4096"
proof -
  assume "b < 25600"
  then have "4096 dvd unat (blk_addr b)" using blk_addr_aligned unat_aligned_dvd by blast
  then obtain q where q: "unat (blk_addr b) = 4096 * q" by blast
  have "unat (blk_addr b + off) mod 4096 = unat off mod 4096"
    unfolding unat_add32 by (simp add: mod_mod_cancel q)
  then show ?thesis by (simp add: word32_eq_iff_unat unat_mod)
qed

lemma seg_pages_blk: "b < 25600 \<Longrightarrow> seg_pages (blk_addr b) ph = seg_pages 0 ph"
  using mod_blk [of b "p_offset ph"] by (simp add: seg_pages_def word32_eq_iff_unat unat_mod)

lemma elf_space_split:
  assumes "b < 25600" and "\<forall>ph' \<in> set l2. \<not> covers ph' va"
  shows "elf_space (blk_addr b) (l1 @ ph # l2) f (paging_align_to_lower_page va) =
    seg_map (blk_addr b) ph (elf_space (blk_addr b) l1 f) (paging_align_to_lower_page va)"
proof -
  have "fold (seg_map (blk_addr b)) l2 g (paging_align_to_lower_page va) = g (paging_align_to_lower_page va)" for g
    using assms(2)
  proof (induction l2 arbitrary: g)
    case (Cons x l2)
    have "\<not> covers x va" using Cons.prems by simp
    then have "seg_map (blk_addr b) x g (paging_align_to_lower_page va) = g (paging_align_to_lower_page va)"
      by (simp only: seg_map_def mapped_range_def seg_pages_blk [OF assms(1)] covers_def if_False)
    moreover have "\<forall>ph' \<in> set l2. \<not> covers ph' va" using Cons.prems by simp
    ultimately show ?case using Cons.IH [of "seg_map (blk_addr b) x g"] by simp
  qed simp
  then show ?thesis by (simp add: elf_space_def)
qed

lemma page_in_range:
  assumes "n < 4294967296" and "virt mod 4096 = (0 :: u32)"
  shows "paging_align_to_lower_page (virt + of_nat n) - virt = of_nat (n div 4096 * 4096)"
proof -
  have "4096 dvd unat virt" using assms(2) unfolding unat_aligned_dvd .
  then obtain q where q: "unat virt = 4096 * q" by blast
  have "unat (virt + of_nat n) mod 4096 = (4096 * q + n) mod 4294967296 mod 4096"
    unfolding unat_add32 unat_of_nat32 [OF assms(1)] q ..
  also have "\<dots> = (4096 * q + n) mod 4096" by (rule mod_mod_cancel) simp
  also have "\<dots> = n mod 4096" by simp
  finally have "unat (virt + of_nat n) mod 4096 = n mod 4096" .
  then have "(virt + of_nat n) mod 4096 = of_nat (n mod 4096)"
    by (simp add: word32_eq_iff_unat unat_mod unat_of_nat32)
  then have "paging_align_to_lower_page (virt + of_nat n) - virt = of_nat n - of_nat (n mod 4096)"
    by (simp add: paging_align_to_lower_page_def)
  also have "\<dots> = of_nat (n - n mod 4096)" by (rule of_nat_diff [symmetric]) simp
  finally show ?thesis by (simp add: minus_mod_eq_div_mult)
qed

lemma in_range_iff:
  assumes "virt mod 4096 = (0 :: u32)"
  shows "unat (paging_align_to_lower_page va - virt) < 4096 * n \<longleftrightarrow> unat (va - virt) < 4096 * n"
proof -
  let ?y = "unat (va - virt)"
  have y: "?y < 4294967296" by (rule unat_bound32)
  have "paging_align_to_lower_page (virt + of_nat ?y) - virt = of_nat (?y div 4096 * 4096)"
    by (rule page_in_range [OF y assms])
  then have "paging_align_to_lower_page va - virt = of_nat (?y div 4096 * 4096)" by simp
  moreover have "?y div 4096 * 4096 < 4294967296" using y by (metis div_times_less_eq_dividend le_less_trans)
  ultimately have "unat (paging_align_to_lower_page va - virt) = ?y div 4096 * 4096" by (simp only: unat_of_nat32)
  then show ?thesis by (simp add: less_mult_imp_div_less div_less_iff_less_mult mult.commute)
qed

lemma flags_5_or_7: "seg_flags ph = 5 \<or> seg_flags ph = 7" by (simp add: seg_flags_def)

subsection \<open>The address space of a started program\<close>

lemma started_space:
  fixes k :: "'a process_state_scheme"
  assumes s: "program_started k ts slot bs q b s t d k'"
  obtains c T where "chunk_wf (ram k') c d T" "page_directory (tasks k' t) = blk_addr c" "dir_present (ram k') d"
    "\<And>va. paging_get (blk_addr d) (paging_align_to_lower_page va) (ram k') =
      mapped_range 0x3FB000 (blk_addr s) 4 7 (file_space bs b (\<lambda>w. w OR 5)) (paging_align_to_lower_page va)"
proof -
  obtain A c T where "process_ok k' A c d T q" using s unfolding program_started_def by blast
  then have "chunk_wf (ram k') c d T" "page_directory (tasks k' t) = blk_addr c"
    using s by (auto simp: process_ok_def process_directory_def program_started_def)
  then show thesis using that s aligned_to_lower(1) unfolding program_started_def by blast
qed

lemma read_stack:
  fixes k :: "'a process_state_scheme"
  assumes s: "program_started k ts slot bs q b s t d k'" and x: "x < 16384"
  shows "virt_read (paging_switch (page_directory (tasks k' t)) k') (0x3FB000 + of_nat x) = Some 0"
proof -
  obtain c T where S: "chunk_wf (ram k') c d T" "page_directory (tasks k' t) = blk_addr c" "dir_present (ram k') d"
    "\<And>va. paging_get (blk_addr d) (paging_align_to_lower_page va) (ram k') =
      mapped_range 0x3FB000 (blk_addr s) 4 7 (file_space bs b (\<lambda>w. w OR 5)) (paging_align_to_lower_page va)"
    by (rule started_space [OF s]) blast
  let ?va = "0x3FB000 + of_nat x :: u32"
  have al: "(0x3FB000 :: u32) mod 4096 = 0" by simp
  have "paging_get (blk_addr d) (paging_align_to_lower_page ?va) (ram k') = (blk_addr s + (paging_align_to_lower_page ?va - 0x3FB000)) OR 7"
    using S(4) [of ?va] x by (simp add: mapped_range_def in_range_iff [OF al, of ?va 4, simplified] unat_of_nat32)
  moreover have "blk_addr s mod 4096 = 0" using s blk_addr_aligned by (simp add: program_started_def)
  ultimately have "virt_read (paging_switch (blk_addr c) k') ?va = Some (ram k' (blk_addr s + (?va - 0x3FB000)))"
    by (rule mapped_read [OF S(1,3) _ disjI2 [OF refl] _ al])
  then show ?thesis using s x by (simp add: S(2) program_started_def image_at_def)
qed

lemma read_flat:
  fixes k :: "'a process_state_scheme"
  assumes s: "program_started k ts slot bs q b s t d k'" and flat: "flat_file bs" and x: "x < length bs" "length bs < 2147483648"
  shows "virt_read (paging_switch (page_directory (tasks k' t)) k') (0x400000 + of_nat x) = Some (bs ! x)"
proof -
  obtain c T where S: "chunk_wf (ram k') c d T" "page_directory (tasks k' t) = blk_addr c" "dir_present (ram k') d"
    "\<And>va. paging_get (blk_addr d) (paging_align_to_lower_page va) (ram k') =
      mapped_range 0x3FB000 (blk_addr s) 4 7 (file_space bs b (\<lambda>w. w OR 5)) (paging_align_to_lower_page va)"
    by (rule started_space [OF s]) blast
  let ?va = "0x400000 + of_nat x :: u32" and ?n = "blocks_of (of_nat (length bs))"
  have al: "(0x3FB000 :: u32) mod 4096 = 0" "(0x400000 :: u32) mod 4096 = 0" by simp_all
  have "unat (?va - 0x3FB000) = 20480 + x"
    using x by (simp add: unat_add32 unat_sub32 unat_of_nat32)
  then have off: "\<not> unat (paging_align_to_lower_page ?va - 0x3FB000) < 4096 * 4"
    unfolding in_range_iff [OF al(1)] by simp
  have "x < 4096 * ?n" using x unfolding blocks_of_def by (simp add: unat_of_nat32)
  then have within: "unat (paging_align_to_lower_page ?va - 0x400000) < 4096 * ?n"
    unfolding in_range_iff [OF al(2)] using x by (simp add: unat_of_nat32)
  have "paging_get (blk_addr d) (paging_align_to_lower_page ?va) (ram k') = (blk_addr b + (paging_align_to_lower_page ?va - 0x400000)) OR 7"
    unfolding S(4) mapped_range_def if_not_P [OF off] file_space_def if_P [OF flat] if_P [OF within] ..
  moreover have "blk_addr b mod 4096 = 0" using s blk_addr_aligned by (simp add: program_started_def)
  ultimately have "virt_read (paging_switch (blk_addr c) k') ?va = Some (ram k' (blk_addr b + (?va - 0x400000)))"
    by (rule mapped_read [OF S(1,3) _ disjI2 [OF refl] _ al(2)])
  then show ?thesis using s x by (simp add: S(2) program_started_def image_at_def)
qed

lemma read_segment:
  fixes k :: "'a process_state_scheme"
  assumes s: "program_started k ts slot bs q b s t d k'" and elf: "elf_program bs" and len: "length bs < 2147483648"
    and ph: "phdrs (file_mem bs) 0 = l1 @ ph # l2" and x: "x < unat (p_memsz ph)" "unat (p_offset ph) + x < length bs"
    and al: "p_vaddr ph mod 4096 = p_offset ph mod 4096"
    and later: "\<forall>ph' \<in> set l2. \<not> covers ph' (p_vaddr ph + of_nat x)" and off: "\<not> on_stack (p_vaddr ph + of_nat x)"
  shows "virt_read (paging_switch (page_directory (tasks k' t)) k') (p_vaddr ph + of_nat x) = Some (bs ! (unat (p_offset ph) + x))"
proof -
  obtain c T where S: "chunk_wf (ram k') c d T" "page_directory (tasks k' t) = blk_addr c" "dir_present (ram k') d"
    "\<And>va. paging_get (blk_addr d) (paging_align_to_lower_page va) (ram k') =
      mapped_range 0x3FB000 (blk_addr s) 4 7 (file_space bs b (\<lambda>w. w OR 5)) (paging_align_to_lower_page va)"
    by (rule started_space [OF s]) blast
  have b: "b < 25600" and img: "image_at (ram k') (blk_addr b) bs" using s by (simp_all add: program_started_def)
  have flat: "\<not> flat_file bs" using image_elf(2) [OF img len elf] by blast
  let ?va = "p_vaddr ph + of_nat x" and ?base = "paging_align_to_lower_page (p_vaddr ph)"
  let ?w = "paging_align_to_lower_page ?va" and ?p = "blk_addr b + p_offset ph"
  have base: "?base mod 4096 = 0" by (rule aligned_to_lower)
  have stack: "\<not> unat (?w - 0x3FB000) < 4096 * 4"
    using off in_range_iff [of "0x3FB000" ?va 4] by (simp add: on_stack_def)
  have m: "unat (p_offset ph) + unat (p_memsz ph) \<le> 4173000000"
    using elf ph by (simp add: elf_program_def)
  let ?r = "unat (p_vaddr ph) mod 4096"
  have rr: "unat (p_offset ph) mod 4096 = ?r" using al by (simp add: word32_eq_iff_unat unat_mod)
  have vr: "p_vaddr ph mod 4096 = of_nat ?r" by (simp add: word32_eq_iff_unat unat_mod unat_of_nat32)
  then have va: "?va - ?base = of_nat (?r + x)"
    by (simp add: paging_align_to_lower_page_def)
  have rx: "?r + x < 4294967296" using x(1) m mod_less_divisor [of 4096 "unat (p_vaddr ph)"] by linarith
  have "?r + x < 4096 * seg_pages 0 ph"
    unfolding seg_pages_def using x(1) by (simp add: rr)
  then have within: "unat (?w - ?base) < 4096 * seg_pages (blk_addr b) ph"
    unfolding in_range_iff [OF base] va seg_pages_blk [OF b] unat_of_nat32 [OF rx] .
  have "paging_get (blk_addr d) ?w (ram k') = (paging_align_to_lower_page ?p + (?w - ?base)) OR seg_flags ph"
    unfolding S(4) mapped_range_def if_not_P [OF stack] file_space_def if_not_P [OF flat] ph elf_space_split [OF b later]
      seg_map_def if_P [OF within] ..
  then have "virt_read (paging_switch (blk_addr c) k') ?va = Some (ram k' (paging_align_to_lower_page ?p + (?va - ?base)))"
    by (rule mapped_read [OF S(1,3) _ flags_5_or_7 aligned_to_lower(1) base])
  moreover have "paging_align_to_lower_page ?p + (?va - ?base) = blk_addr b + of_nat (unat (p_offset ph) + x)"
    using mod_blk [OF b, of "p_offset ph"] al vr unfolding va by (simp add: paging_align_to_lower_page_def)
  moreover have "ram k' (blk_addr b + of_nat (unat (p_offset ph) + x)) = bs ! (unat (p_offset ph) + x)"
    using img x(2) unfolding image_at_def by blast
  ultimately show ?thesis by (simp only: S(2))
qed

subsection \<open>Programs on a FAT16 disk\<close>

interpretation fat_programs: program_source "fat16_fs fs tmp" "fat_volume tmp" fat_holds "fat_handle tmp" "fat_scratch tmp"
  by unfold_locales

text \<open>
  \<open>ready_to_load\<close>: the root directory of the mounted FAT16 disk has a file \<open>nm\<close> with the bytes \<open>bs\<close>, the path \<open>0:/nm\<close>
  and the mode \<open>r\<close> are strings at \<open>p\<close> and \<open>r\<close>, a file descriptor and the process slot \<open>slot\<close> are free, the tasks are the ring
  \<open>ts\<close>, and the heap \<open>A\<close> has room for the program, whichever of the blocks in between it hands out first.
\<close>

definition ready_to_load :: "u32 \<Rightarrow> u32 \<Rightarrow> (u32 \<Rightarrow> 'a process_state_scheme filesystem) \<Rightarrow> 'a process_state_scheme \<Rightarrow> (nat \<rightharpoonup> nat)
    \<Rightarrow> u32 \<Rightarrow> u32 \<Rightarrow> u8 list \<Rightarrow> u8 list \<Rightarrow> u32 list \<Rightarrow> nat \<Rightarrow> bool" where
  "ready_to_load fs tmp vt k A p r nm bs ts slot \<longleftrightarrow>
     file_inv k A \<and> fat_volume tmp k A \<and> fat_holds k nm bs \<and> on_disk vt (fat16_fs fs tmp) k \<and> call_args (fat_scratch tmp) A (ram k) p r nm
   \<and> (\<exists>i < 511. lowest_free (file_descriptors k) i) \<and> lowest_free (processes k) slot \<and> length (processes k) = 12
   \<and> task_ring k ts \<and> (\<forall>x \<in> set ts. \<exists>b n. x = blk_addr b \<and> A b = Some n)
   \<and> roomy A (2 * blocks_of (of_nat (length bs)) + 1050) (max 4 (blocks_of (of_nat (length bs))))"

lemma ready_length: "ready_to_load fs tmp vt k A p r nm bs ts slot \<Longrightarrow> length bs < 2147483648"
  by (auto simp: ready_to_load_def fat_holds_def item_holds_def Let_def)

lemma program_load_run:
  fixes k :: "'a process_state_scheme"
  assumes ready: "ready_to_load fs tmp vt k A p r nm bs ts slot" and kind: "flat_file bs \<or> elf_program bs"
  obtains q b s t d k' where "process_load vt r st junk p out_p k = Some (0, q, k')" "program_started k ts slot bs q b s t d k'"
    "program_held (fat_scratch tmp) k A ts q k'"
proof -
  obtain i where i: "i < 511" "lowest_free (file_descriptors k) i" using ready by (auto simp: ready_to_load_def)
  show thesis
    using fat_programs.process_load_run [OF _ _ _ _ _ i(2,1) max.cobounded2 max.cobounded1 _ ready_length [OF ready] kind] ready that
    unfolding ready_to_load_def by blast
qed

definition running :: "u32 \<Rightarrow> u32 \<Rightarrow> 'a process_state_scheme \<Rightarrow> u32 \<Rightarrow> 'a process_state_scheme \<Rightarrow> u32 list \<Rightarrow> nat \<Rightarrow> bool" where
  \<comment> \<open>the process \<open>q\<close>, new in \<open>slot\<close>, has the task \<open>t\<close>, last in the ring, about to enter at \<open>entry\<close> on an empty stack of zeros\<close>
  "running q t k entry k' ts slot \<longleftrightarrow>
     processes k' = (processes k)[slot := q] \<and> process_id (procs k' q) = of_nat slot \<and> current_process k' = current_process k
   \<and> process_task (procs k' q) = t \<and> task_process (tasks k' t) = q \<and> task_ring k' (ts @ [t])
   \<and> task_regs (tasks k' t) = zero_registers\<lparr>r_ip := entry, r_ss := 0x23, r_cs := 0x1B, r_esp := 0x3FF000\<rparr>
   \<and> (\<forall>x < 16384. virt_read (paging_switch (page_directory (tasks k' t)) k') (0x3FB000 + of_nat x) = Some 0)"

lemma started_running:
  fixes k :: "'a process_state_scheme"
  assumes s: "program_started k ts slot bs q b s t d k'"
  shows "running q t k (file_entry bs) k' ts slot"
  using s [unfolded program_started_def] read_stack [OF s] unfolding running_def by blast

text \<open>C1: Loading a flat program.  If the root directory of the mounted FAT16 disk has a file that is not an ELF image,
  \<open>process_load\<close> of its path returns 0 and a new process in the lowest free slot; its task is the last of the ring and enters
  at 0x400000 with the stack pointer at the top of a stack of zeros, and through the page directory of the
  task every byte of the file stands at its offset from 0x400000.  A file longer than one cluster has to be chained where
  the code looks its links up (\<open>readable\<close>).
\<close>
theorem process_load_flat:
  fixes k :: "'a process_state_scheme"
  assumes "ready_to_load fs tmp vt k A p r nm bs ts slot" and "flat_file bs"
  shows "\<exists>q t k'. process_load vt r st junk p out_p k = Some (0, q, k') \<and> running q t k 0x400000 k' ts slot
    \<and> (\<forall>x < length bs. virt_read (paging_switch (page_directory (tasks k' t)) k') (0x400000 + of_nat x) = Some (bs ! x))"
proof -
  obtain q b s t d k' where run: "process_load vt r st junk p out_p k = Some (0, q, k')" "program_started k ts slot bs q b s t d k'"
    by (rule program_load_run [OF assms(1) disjI1 [OF assms(2)]])
  moreover have "running q t k 0x400000 k' ts slot" using started_running [OF run(2)] assms(2) by (simp add: file_entry_def)
  moreover have "\<forall>x < length bs. virt_read (paging_switch (page_directory (tasks k' t)) k') (0x400000 + of_nat x) = Some (bs ! x)"
    using read_flat [OF run(2) assms(2) _ ready_length [OF assms(1)]] by blast
  ultimately show ?thesis by blast
qed

text \<open>C2: Loading an ELF program.  If the file is an ELF image, \<open>process_load\<close> starts it at its entry point, and the byte at
  offset \<open>x\<close> of every segment is the file's byte at that offset behind \<open>p_offset\<close>, as long as the segment's address and
  offset agree within a page, no later segment and not the stack is mapped over it.  The file is one the code can read,
  as for a flat program.
\<close>
theorem process_load_elf:
  fixes k :: "'a process_state_scheme"
  assumes "ready_to_load fs tmp vt k A p r nm bs ts slot" and "elf_program bs"
  shows "\<exists>q t k'. process_load vt r st junk p out_p k = Some (0, q, k')
    \<and> running q t k (e_entry (header_at (file_mem bs) 0)) k' ts slot
    \<and> (\<forall>l1 ph l2 x. phdrs (file_mem bs) 0 = l1 @ ph # l2 \<longrightarrow> x < unat (p_memsz ph) \<longrightarrow> unat (p_offset ph) + x < length bs
         \<longrightarrow> p_vaddr ph mod 4096 = p_offset ph mod 4096 \<longrightarrow> (\<forall>ph' \<in> set l2. \<not> covers ph' (p_vaddr ph + of_nat x))
         \<longrightarrow> \<not> on_stack (p_vaddr ph + of_nat x)
         \<longrightarrow> virt_read (paging_switch (page_directory (tasks k' t)) k') (p_vaddr ph + of_nat x) = Some (bs ! (unat (p_offset ph) + x)))"
proof -
  obtain q b s t d k' where run: "process_load vt r st junk p out_p k = Some (0, q, k')" "program_started k ts slot bs q b s t d k'"
    by (rule program_load_run [OF assms(1) disjI2 [OF assms(2)]])
  have "image_at (ram k') (blk_addr b) bs" using run(2) by (simp add: program_started_def)
  then have "\<not> flat_file bs" using image_elf(2) ready_length [OF assms(1)] assms(2) by blast
  then have "running q t k (e_entry (header_at (file_mem bs) 0)) k' ts slot"
    using started_running [OF run(2)] by (simp add: file_entry_def)
  then show ?thesis using run(1) read_segment [OF run(2) assms(2) ready_length [OF assms(1)]] by blast
qed

subsection \<open>The end of a program\<close>

lemma started_terminate:
  fixes k :: "'a process_state_scheme"
  assumes started: "program_started k ts slot bs q b s t d k1" and held: "program_held scratch k A ts q k1"
    and slot: "slot < 12" "processes k ! slot = 0"
    and entry: "ram k 0x6E00 AND HEAP_BLOCK_HAS_NEXT = 0" "\<not> scratch 0x6E00"
    and cur: "current_process k = 0 \<or> (\<exists>b n. b < 25600 \<and> current_process k = blk_addr b \<and> A b = Some n)"
  shows "\<exists>k2 pb A2. process_terminate q k1 = Some (0, k2) \<and> processes k2 = processes k \<and> current_process k2 = current_process k
    \<and> task_ring k2 ts \<and> kheap_rep k2 A2 \<and> A \<subseteq>\<^sub>m A2 \<and> q = blk_addr pb \<and> A pb = None \<and> A2 pb = Some 3"
proof -
  obtain pb A' c d' T own s' t' where H: "q = blk_addr pb" "pb < 25600" "A pb = None" "A \<subseteq>\<^sub>m A'" "A' pb = Some 3"
    "process_live k1 A' c d' T q own s' t'" "set (own @ [s', t', c, d'] @ T) \<inter> (insert pb (dom A)) = {}"
    "allocations (procs k1 q) = replicate 1024 no_alloc" "prev_task (tasks k1 (blk_addr t')) = last (0 # ts)"
    "kept scratch A (ram k) (ram k1)"
    using held unfolding program_held_def by blast
  have S: "processes k1 = (processes k)[slot := q]" "current_process k1 = current_process k" "process_id (procs k1 q) = of_nat slot"
    "process_task (procs k1 q) = t" "task_ring k1 (ts @ [t])"
    using started unfolding program_started_def by blast+
  have "process_task (procs k1 q) = blk_addr t'" using H(6) unfolding process_live_def by blast
  then have ring: "task_ring k1 (ts @ blk_addr t' # [])" using S(4,5) by simp
  have "stable A 0x6E00" by (rule stable_low) simp
  then have e1: "ram k1 0x6E00 AND HEAP_BLOCK_HAS_NEXT = 0" using H(10) entry unfolding kept_def by simp
  have ne: "current_process k1 \<noteq> q"
  proof -
    have "q \<noteq> 0" unfolding H(1) by (rule blk_addr_nonzero [OF H(2)])
    moreover have "blk_addr b' \<noteq> q" if "b' < 25600" "A b' = Some n" for b' n
      using blk_addr_inj [OF that(1) H(2)] that(2) H(1,3) by auto
    ultimately show ?thesis using cur S(2) by metis
  qed
  have id: "unat (process_id (procs k1 q)) = slot" using S(3) slot(1) by (simp add: unsigned_of_nat take_bit_eq_mod)
  let ?A2 = "A' |` {b. (\<forall>a \<in> set (allocations (procs k1 q)). alloc_ptr a \<noteq> blk_addr b) \<and> b \<notin> set (own @ [s', t', c, d'] @ T)}"
  obtain k2 where k2: "process_terminate q k1 = Some (0, k2)" "kheap_rep k2 ?A2" "task_ring k2 (ts @ [])"
    "processes k2 = (processes k1)[slot := 0]" "current_process k2 = current_process k1"
    using terminate_run [OF H(6) e1 ring H(9)] ne unfolding id by auto
  have "processes k2 = (processes k)[slot := 0]" using k2(4) S(1) by simp
  then have procs: "processes k2 = processes k" using slot(2) by (metis list_update_id)
  have keep: "?A2 b = A' b" if "b \<in> insert pb (dom A)" "b < 25600" for b
  proof -
    have "b \<notin> set (own @ [s', t', c, d'] @ T)" using H(7) that(1) by blast
    moreover have "alloc_ptr a \<noteq> blk_addr b" if "a \<in> set (allocations (procs k1 q))" for a
      using that blk_addr_nonzero [OF \<open>b < 25600\<close>] unfolding H(8) by auto
    ultimately show ?thesis by simp
  qed
  have rep: "kheap_rep k1 A'" using H(6) unfolding process_live_def by (blast intro: process_okD(1))
  have "A \<subseteq>\<^sub>m ?A2"
    unfolding map_le_def
  proof
    fix b assume b: "b \<in> dom A"
    then have e: "A' b = A b" using H(4) unfolding map_le_def by simp
    then obtain n where "A' b = Some n" using b by auto
    then have "b < 25600" by (rule live_blk [OF rep])
    then show "A b = ?A2 b" using keep [of b] b e by simp
  qed
  moreover have "?A2 pb = Some 3" using keep [OF insertI1 H(2)] H(5) by simp
  ultimately show ?thesis
    using k2(1,2,3,5) procs S(2) H(1,3) by (intro exI [of _ k2] exI [of _ pb] exI [of _ ?A2]) simp
qed

text \<open>C8: Terminating a process.  \<open>process_terminate\<close> of a process with an address space, program, stack and task of its own
  returns 0; of the live allocations exactly the regions the process has allocated, its program, its stack, its page tables and its task are
  gone; the ring of tasks loses its task, the next one running if it was current; its slot is free, and if it was the current
  process the first remaining one is.  The task's \<open>prev\<close> pointer has to be right, which an earlier removal may have
  spoilt, and the byte at 0x6E00, which every \<open>kfree(0)\<close> clears as if it were a block's entry, must not continue a run.
\<close>
theorem process_terminate_spec:
  fixes k :: "'a process_state_scheme"
  assumes "process_live k A c d T p own s t" and "ram k 0x6E00 AND HEAP_BLOCK_HAS_NEXT = 0"
    and "task_ring k (xs @ blk_addr t # ys)" and "prev_task (tasks k (blk_addr t)) = last (0 # xs)"
    and "current_process k = p \<Longrightarrow> \<exists>q \<in> set ((processes k)[unat (process_id (procs k p)) := 0]). q \<noteq> 0"
  shows "\<exists>k'. process_terminate p k = Some (0, k')
    \<and> kheap_rep k' (A |` {b. (\<forall>a \<in> set (allocations (procs k p)). alloc_ptr a \<noteq> blk_addr b) \<and> b \<notin> set (own @ [s, t, c, d] @ T)})
    \<and> task_ring k' (xs @ ys) \<and> current_task k' = (if current_task k = blk_addr t then hd (ys @ xs @ [0]) else current_task k)
    \<and> processes k' = (processes k)[unat (process_id (procs k p)) := 0]
    \<and> current_process k' = (if current_process k = p then the (find (\<lambda>q. q \<noteq> 0) (processes k')) else current_process k)"
  by (rule terminate_run [OF assms])

text \<open>C9: Starting and ending a program.  If a program of the FAT16 disk is loaded and its process terminated before it runs, the
  table of processes, the current process and the ring of tasks are what they were, and all allocations of before are
  live with their sizes; but the process structure itself, three blocks, is never released.
\<close>
theorem process_load_terminate:
  fixes k :: "'a process_state_scheme"
  assumes ready: "ready_to_load fs tmp vt k A p r nm bs ts slot" and kind: "flat_file bs \<or> elf_program bs"
    and entry: "ram k 0x6E00 AND HEAP_BLOCK_HAS_NEXT = 0" "\<not> fat_scratch tmp 0x6E00"
    and cur: "current_process k = 0 \<or> (\<exists>b n. b < 25600 \<and> current_process k = blk_addr b \<and> A b = Some n)"
  shows "\<exists>q k1 k2 pb A2. process_load vt r st junk p out_p k = Some (0, q, k1) \<and> process_terminate q k1 = Some (0, k2)
    \<and> processes k2 = processes k \<and> current_process k2 = current_process k \<and> task_ring k2 ts
    \<and> kheap_rep k2 A2 \<and> A \<subseteq>\<^sub>m A2 \<and> q = blk_addr pb \<and> A pb = None \<and> A2 pb = Some 3"
proof -
  obtain q b s t d k1 where run: "process_load vt r st junk p out_p k = Some (0, q, k1)" "program_started k ts slot bs q b s t d k1"
    "program_held (fat_scratch tmp) k A ts q k1"
    by (rule program_load_run [OF ready kind])
  have "slot < 12" "processes k ! slot = 0" using ready by (auto simp: ready_to_load_def lowest_free_def)
  from started_terminate [OF run(2,3) this entry cur] run(1) show ?thesis by blast
qed

subsection \<open>A disk with one program\<close>

text \<open>
  The volume of \<open>fat_test\<close>, its root directory at 0x2300 with the one item \<open>HI.C\<close>, whose file begins in cluster 2, byte 3072 of the
  disk; the path is at 0x2500, the mode at 0x2600, and the heap is empty.
\<close>

definition loader_bytes :: "u8 \<Rightarrow> u32 \<Rightarrow> u8" where
  "loader_bytes n a = case_option 0 id (map_of
     [(0x100D, 1), (0x100E, 1), (0x1041, 0x23), (0x1044, 1), (0x104C, 6), (0x1051, 0x40), (0x1055, 0x41), (0x1059, 0x42),
      (0x2300, 0x48), (0x2301, 0x49), (0x2302, 0x20), (0x2308, 0x43), (0x2309, 0x20), (0x230B, 0x20), (0x231A, 2), (0x231C, n),
      (0x2500, 0x30), (0x2501, 0x3A), (0x2502, 0x2F), (0x2503, 0x68), (0x2504, 0x69), (0x2505, 0x2E), (0x2506, 0x63),
      (0x2600, 0x72)] a)"

definition loader_test :: "u8 list \<Rightarrow> process_state" where
  "loader_test bs = \<lparr>ram = loader_bytes (of_nat (length bs)), kernel_heap = the_heap, current_directory = 0, cr3 = 0,
     drive = test_drive\<lparr>ata_image := (\<lambda>n. if 3072 \<le> n \<and> n < 3072 + length bs then bs ! (n - 3072) else 0)\<rparr>,
     the_disk = \<lparr>disk_type = 0, sector_size = 512, disk_id = 0, disk_filesystem = 0x5000, fs_private = 0x1000\<rparr>,
     disk_addr = 0x200000, streams = (\<lambda>_. \<lparr>pos = 0, stream_disk = 0x200000\<rparr>),
     path_roots = (\<lambda>_. \<lparr>drive_no = 0, first_part = 0\<rparr>), path_parts = (\<lambda>_. \<lparr>part_str = 0, part_next = 0\<rparr>),
     filesystems = replicate 12 0, file_descriptors = replicate 512 0,
     fdescs = (\<lambda>_. \<lparr>fd_index = 0, fd_filesystem = 0, fd_private = 0, fd_disk = 0\<rparr>),
     elf_files = (\<lambda>_. zero_elf_file), kernel_chunk = 0, data_selector = 0x10, current_task = 0, task_head = 0, task_tail = 0,
     tasks = (\<lambda>_. zero_task), procs = (\<lambda>_. zero_process), current_process = 0, processes = replicate 12 0\<rparr>"

lemma loader_heap: "kheap_rep (loader_test bs) Map.empty"
proof -
  have "entry_at (loader_bytes n) kernel_table i = 0" if "i < 25600" for i n
  proof -
    have "0x7E00 + of_nat i \<noteq> w" if "unat w < 32256" for w :: u32
      by (rule table_cell_not_low [OF \<open>i < 25600\<close> that])
    then show ?thesis by (simp add: entry_at_def kernel_table_def loader_bytes_def)
  qed
  then have "heap_rep kernel_table (loader_bytes (of_nat (length bs))) Map.empty" by (intro heap_rep_empty) (simp_all add: kernel_table_def)
  then show ?thesis by (simp add: kheap_rep_def loader_test_def)
qed

lemma loader_private:
  "sectors_per_cluster (primary_header (header (the_private (loader_test bs)))) = 1"
  "reserved_sectors (primary_header (header (the_private (loader_test bs)))) = 1"
  "ending_sector_pos (root_directory (the_private (loader_test bs))) = 6"
  "cluster_read_stream (the_private (loader_test bs)) = 0x4000" "fat_read_stream (the_private (loader_test bs)) = 0x4100"
  "directory_stream (the_private (loader_test bs)) = 0x4200"
  "dir_item (root_directory (the_private (loader_test bs))) = 0x2300" "dir_total (root_directory (the_private (loader_test bs))) = 1"
  by (simp_all only: the_private_def fat_private_at_def fat_h_at_def fat_header_at_def fat_directory_at_def
      fat_private.simps fat_h.simps fat_header.simps fat_directory.simps)
    (simp_all add: load16_def load32_def loader_test_def loader_bytes_def as_int_def)

lemma loader_mounted: "mounted (loader_test bs)"
  using test_drive_responsive
  by (simp add: mounted_def loader_private) (simp add: loader_test_def ata_responsive_def)

lemma loader_volume: "fat_volume 0x7000 (loader_test bs) Map.empty"
  unfolding fat_volume_def root_items_def root_count_def
  by (simp add: loader_mounted loader_private) (simp add: loader_test_def low_stable_bytes disjoint_from_below disjoint_from_above)

lemma loader_content:
  assumes "bs \<noteq> []" and "length bs < 256"
  shows "readable (loader_test bs) 2 0 (length bs)" and "bs = map (file_byte (loader_test bs) 2) [0..<length bs]"
proof -
  have c: "cluster_bytes (loader_test bs) = 512" by (simp add: cluster_bytes_def loader_private)
  have s: "cluster_start (loader_test bs) 2 = 3072"
    by (simp add: cluster_start_def fat16_cluster_to_sector_def loader_private)
  have "(length bs - 1) div 512 = 0" using assms by simp
  then show "readable (loader_test bs) 2 0 (length bs)"
    using assms by (auto simp: readable_def lookup_readable_def c s lookups_ok_def Let_def)
  show "bs = map (file_byte (loader_test bs) 2) [0..<length bs]"
  proof (rule nth_equalityI)
    fix j assume "j < length bs"
    then have "j < 512" "j < length bs" using assms by simp_all
    then show "bs ! j = map (file_byte (loader_test bs) 2) [0..<length bs] ! j"
      by (simp add: file_byte_def c s) (simp add: loader_test_def)
  qed simp
qed

lemma loader_holds:
  assumes "bs \<noteq> []" and "length bs < 256"
  shows "fat_holds (loader_test bs) [0x68, 0x69, 0x2E, 0x63] bs"
proof -
  have n: "root_count (loader_test bs) = 1" "root_items (loader_test bs) = 0x2300"
    by (simp_all add: root_count_def root_items_def loader_private)
  let ?item = "fat_directory_item_at (ram (loader_test bs)) 0x2300"
  have item: "item_filename (ram (loader_test bs)) 0x2300 = [0x48, 0x49, 0x2E, 0x43]"
    by (simp add: item_filename_def full_name_def trim_name_def fat_directory_item_at_def load_bytes_def upt_rec
        loader_test_def loader_bytes_def)
  then have nm: "name_matches (ram (loader_test bs)) 0x2300 0 [0x68, 0x69, 0x2E, 0x63]"
    by (simp add: name_matches_def tolower_def sgn_char_def)
  have attr: "attribute ?item AND FAT_FILE_SUBDIRECTORY = 0"
    by (simp add: fat_directory_item_at_def loader_test_def loader_bytes_def)
  have clus: "fat16_get_first_cluster ?item = 2" 
    by (simp add: fat16_get_first_cluster_def fat_directory_item_at_def load16_def loader_test_def loader_bytes_def)
  have size8: "ucast (of_nat (length bs) :: u8) = (of_nat (length bs) :: u32)"
    using assms(2) by (simp add: unsigned_of_nat take_bit_eq_mod)
  have "item_filesize ?item = of_nat (length bs)"
    by (simp add: fat_directory_item_at_def load32_def loader_test_def loader_bytes_def size8)
  then have "item_holds (loader_test bs) ?item bs"
    using loader_content [OF assms] assms by (simp add: item_holds_def clus)
  then show ?thesis using nm attr by (simp add: fat_holds_def n)
qed

lemma loader_args: "call_args (fat_scratch 0x7000) Map.empty (ram (loader_test bs)) 0x2500 0x2600 [0x68, 0x69, 0x2E, 0x63]"
proof -
  have low: "stable Map.empty (0x2500 + of_nat i)" "\<not> fat_scratch 0x7000 (0x2500 + of_nat i)" if "i \<le> 7" for i :: nat
  proof -
    have u: "unat (0x2500 + of_nat i :: u32) = 0x2500 + i" using that by (simp add: unat_add32 unat_of_nat32)
    then show "stable Map.empty (0x2500 + of_nat i)" by (intro stable_low) (use that in simp)
    show "\<not> fat_scratch 0x7000 (0x2500 + of_nat i)" using that by (simp add: fat_scratch_def unat_sub32 unat_of_nat32)
  qed
  have "cstr (ram (loader_test bs)) 0x2500 (path_of [0x68, 0x69, 0x2E, 0x63])"
    by (simp add: path_of_def loader_test_def loader_bytes_def)
  then show ?thesis using low by (auto simp: call_args_def path_of_def loader_test_def loader_bytes_def fat_scratch_def stable_low)
qed

lemma loader_ready:
  assumes "bs \<noteq> []" and "length bs < 256"
  shows "ready_to_load 0x5000 0x7000 (\<lambda>_. fat16_fs 0x5000 0x7000) (loader_test bs) Map.empty 0x2500 0x2600 [0x68, 0x69, 0x2E, 0x63] bs [] 0"
  unfolding ready_to_load_def
proof (intro conjI)
  show "file_inv (loader_test bs) Map.empty" using loader_heap by (simp add: file_inv_def loader_test_def)
  show "fat_volume 0x7000 (loader_test bs) Map.empty" by (rule loader_volume)
  show "fat_holds (loader_test bs) [0x68, 0x69, 0x2E, 0x63] bs" by (rule loader_holds [OF assms])
  show "on_disk (\<lambda>_. fat16_fs 0x5000 0x7000) (fat16_fs 0x5000 0x7000) (loader_test bs)" by (simp add: on_disk_def loader_test_def)
  show "call_args (fat_scratch 0x7000) Map.empty (ram (loader_test bs)) 0x2500 0x2600 [0x68, 0x69, 0x2E, 0x63]"
    by (rule loader_args)
  show "\<exists>i < 511. lowest_free (file_descriptors (loader_test bs)) i"
    by (rule exI [of _ 0]) (simp add: lowest_free_def loader_test_def)
  show "lowest_free (processes (loader_test bs)) 0" by (simp add: lowest_free_def loader_test_def)
  show "length (processes (loader_test bs)) = 12" by (simp add: loader_test_def)
  show "task_ring (loader_test bs) []" by (simp add: task_ring_def loader_test_def)
  have "0 < length bs" using assms(1) by simp
  then have "(length bs + 4095) div 4096 = 1" using assms(2) by (intro div_nat_eqI) (simp_all add: Suc_le_eq)
  then have "blocks_of (of_nat (length bs)) = 1" using assms(2) unfolding blocks_of_def by (simp add: unat_of_nat32)
  then show "roomy Map.empty (2 * blocks_of (of_nat (length bs)) + 1050) (max 4 (blocks_of (of_nat (length bs))))"
    by (simp add: roomy_empty)
qed simp

theorem process_load_flat_witness:
  "\<exists>q t k'. process_load (\<lambda>_. fat16_fs 0x5000 0x7000) 0x2600 \<lparr>stat_flags = 0, filesize = 0\<rparr> 0 0x2500 0 (loader_test [0xEB, 0xFE]) = Some (0, q, k')
    \<and> virt_read (paging_switch (page_directory (tasks k' t)) k') 0x400001 = Some 0xFE"
proof -
  have "flat_file [0xEB, 0xFE]" by (simp add: flat_iff)
  from process_load_flat [OF loader_ready this]
  show ?thesis by fastforce
qed

lemma loader_flat:
  "flat_file [0xEB, 0xFE]" "ram (loader_test [0xEB, 0xFE]) 0x6E00 AND HEAP_BLOCK_HAS_NEXT = 0" "\<not> fat_scratch 0x7000 0x6E00"
  "current_process (loader_test [0xEB, 0xFE]) = 0" "processes (loader_test [0xEB, 0xFE]) = replicate 12 0"
  "ready_to_load 0x5000 0x7000 (\<lambda>_. fat16_fs 0x5000 0x7000) (loader_test [0xEB, 0xFE]) Map.empty 0x2500 0x2600
      [0x68, 0x69, 0x2E, 0x63] [0xEB, 0xFE] [] 0"
proof -
  show "flat_file [0xEB, 0xFE]" by (simp add: flat_iff)
  show "ram (loader_test [0xEB, 0xFE]) 0x6E00 AND HEAP_BLOCK_HAS_NEXT = 0" "\<not> fat_scratch 0x7000 0x6E00"
    "current_process (loader_test [0xEB, 0xFE]) = 0" "processes (loader_test [0xEB, 0xFE]) = replicate 12 0"
    by (simp_all only: loader_test_def process_state.simps task_state.simps elf_state.simps file_state.simps path_state.simps
        io_state.simps paging_state.simps kmem.simps) (simp_all add: loader_bytes_def fat_scratch_def)
  show "ready_to_load 0x5000 0x7000 (\<lambda>_. fat16_fs 0x5000 0x7000) (loader_test [0xEB, 0xFE]) Map.empty 0x2500 0x2600
      [0x68, 0x69, 0x2E, 0x63] [0xEB, 0xFE] [] 0"
    by (rule loader_ready) simp_all
qed

theorem process_load_terminate_witness:
  "\<exists>q k1 k2. process_load (\<lambda>_. fat16_fs 0x5000 0x7000) 0x2600 \<lparr>stat_flags = 0, filesize = 0\<rparr> 0 0x2500 0 (loader_test [0xEB, 0xFE]) = Some (0, q, k1)
    \<and> process_terminate q k1 = Some (0, k2) \<and> processes k2 = replicate 12 0 \<and> task_ring k2 []"
proof -
  from process_load_terminate [OF loader_flat(6) disjI1 [OF loader_flat(1)] loader_flat(2,3) disjI1 [OF loader_flat(4)]]
  show ?thesis unfolding loader_flat(5) by blast
qed

theorem process_terminate_spec_witness:
  "\<exists>q (k :: process_state) k'. process_terminate q k = Some (0, k') \<and> processes k = (replicate 12 0)[0 := q] \<and> processes k' ! 0 = 0
    \<and> length (allocations (procs k q)) = 1024 \<and> task_ring k' []"
proof -
  obtain q b s t d and k :: process_state where run: "program_started (loader_test [0xEB, 0xFE]) [] 0 [0xEB, 0xFE] q b s t d k"
    "program_held (fat_scratch 0x7000) (loader_test [0xEB, 0xFE]) Map.empty [] q k"
    by (rule program_load_run [OF loader_flat(6) disjI1 [OF loader_flat(1)], of "\<lparr>stat_flags = 0, filesize = 0\<rparr>" 0 0]) blast
  obtain pb A' c d' T own s' t' where H: "q = blk_addr pb" "pb < 25600" "process_live k A' c d' T q own s' t'"
    "allocations (procs k q) = replicate 1024 no_alloc" "prev_task (tasks k (blk_addr t')) = last (0 # [])"
    "kept (fat_scratch 0x7000) Map.empty (ram (loader_test [0xEB, 0xFE])) (ram k)"
    using run(2) unfolding program_held_def by blast
  have S: "processes k = (replicate 12 0)[0 := q]" "current_process k = 0" "process_task (procs k q) = t" "task_ring k ([] @ [t])"
    "process_id (procs k q) = of_nat 0"
    using run(1) loader_flat(4,5) unfolding program_started_def by auto
  have "process_task (procs k q) = blk_addr t'" using H(3) unfolding process_live_def by blast
  then have ring: "task_ring k ([] @ blk_addr t' # [])" using S(3,4) by simp
  have "stable Map.empty 0x6E00" by (rule stable_low) simp
  then have e: "ram k 0x6E00 AND HEAP_BLOCK_HAS_NEXT = 0" using H(6) loader_flat(2,3) unfolding kept_def by simp
  have "current_process k \<noteq> q" using S(2) blk_addr_nonzero [OF H(2)] H(1) by simp
  then obtain k' where "process_terminate q k = Some (0, k')" "task_ring k' ([] @ [])" "processes k' = (processes k)[0 := 0]"
    using process_terminate_spec [OF H(3) e ring H(5)] unfolding S(5) by auto
  then show ?thesis using S(1) H(4) by (intro exI [of _ q] exI [of _ k] exI [of _ k']) (simp add: numeral_eq_Suc)
qed

text \<open>An ELF file of 88 bytes with one segment: from offset 0 on, at address 0x401000, where also the entry point lies, behind the headers.\<close>

definition elf_bytes :: "nat \<Rightarrow> u8" where
  "elf_bytes n = case_option 0 id (map_of
     [(0, 0x7F), (1, 0x45), (2, 0x4C), (3, 0x46), (4, 1), (5, 1), (24, 0x54), (25, 0x10), (26, 0x40), (28, 52), (44, 1),
      (52, 1), (61, 0x10), (62, 0x40), (68, 88), (72, 88), (84, 0xEB), (85, 0xFE)] n)"

definition elf_test :: "u8 list" where
  "elf_test = map elf_bytes [0..<88]"

lemma elf_test_mem: "unat a < 88 \<Longrightarrow> file_mem elf_test a = elf_bytes (unat a)"
  by (simp add: file_mem_def elf_test_def)

lemma elf_test_header:
  "e_phoff (header_at (file_mem elf_test) 0) = 52" "e_phnum (header_at (file_mem elf_test) 0) = 1"
  "e_entry (header_at (file_mem elf_test) 0) = 0x401054"
  by (simp_all add: header_at_def ElfLoader.load16_def load32_def elf_test_mem elf_bytes_def)

lemma elf_test_phdrs:
  "phdrs (file_mem elf_test) 0 = [\<lparr>p_type = 1, p_offset = 0, p_vaddr = 0x401000, p_paddr = 0, p_filesz = 88, p_memsz = 88,
      p_flags = 0, p_align = 0\<rparr>]"
  by (simp add: phdrs_def elf_test_header phdr_at_def elf_program_header_def
      elf_pheader_def load32_def elf_test_mem elf_bytes_def as_u32_def)

lemma elf_test_program: "elf_program elf_test"
proof -
  have "elf_image (file_mem elf_test) 0"
    by (simp add: elf_image_def load32_def elf_test_mem elf_bytes_def)
  moreover have "length elf_test = 88" by (simp add: elf_test_def)
  ultimately show ?thesis by (simp add: elf_program_def elf_test_header elf_test_phdrs)
qed

theorem process_load_elf_witness:
  "\<exists>q t k'. process_load (\<lambda>_. fat16_fs 0x5000 0x7000) 0x2600 \<lparr>stat_flags = 0, filesize = 0\<rparr> 0 0x2500 0 (loader_test elf_test) = Some (0, q, k')
    \<and> r_ip (task_regs (tasks k' t)) = 0x401054
    \<and> virt_read (paging_switch (page_directory (tasks k' t)) k') 0x401054 = Some 0xEB"
proof -
  let ?ph = "\<lparr>p_type = 1, p_offset = 0, p_vaddr = 0x401000, p_paddr = 0, p_filesz = 88, p_memsz = 88, p_flags = 0, p_align = 0\<rparr> :: elf32_phdr"
  have len: "length elf_test = 88" by (simp add: elf_test_def)
  have "ready_to_load 0x5000 0x7000 (\<lambda>_. fat16_fs 0x5000 0x7000) (loader_test elf_test) Map.empty 0x2500 0x2600
      [0x68, 0x69, 0x2E, 0x63] elf_test [] 0"
    by (rule loader_ready) (use len in auto)
  from process_load_elf [OF this elf_test_program, of "\<lparr>stat_flags = 0, filesize = 0\<rparr>" 0 0]
  obtain q t k' where L: "process_load (\<lambda>_. fat16_fs 0x5000 0x7000) 0x2600 \<lparr>stat_flags = 0, filesize = 0\<rparr> 0 0x2500 0 (loader_test elf_test) = Some (0, q, k')"
    "running q t (loader_test elf_test) 0x401054 k' [] 0"
    and seg: "\<And>l1 ph l2 x. phdrs (file_mem elf_test) 0 = l1 @ ph # l2 \<Longrightarrow> x < unat (p_memsz ph) \<Longrightarrow> unat (p_offset ph) + x < length elf_test
         \<Longrightarrow> p_vaddr ph mod 4096 = p_offset ph mod 4096 \<Longrightarrow> (\<forall>ph' \<in> set l2. \<not> covers ph' (p_vaddr ph + of_nat x))
         \<Longrightarrow> \<not> on_stack (p_vaddr ph + of_nat x)
         \<Longrightarrow> virt_read (paging_switch (page_directory (tasks k' t)) k') (p_vaddr ph + of_nat x) = Some (elf_test ! (unat (p_offset ph) + x))"
    unfolding elf_test_header by blast
  have "virt_read (paging_switch (page_directory (tasks k' t)) k') (p_vaddr ?ph + of_nat 84) = Some (elf_test ! (unat (p_offset ?ph) + 84))"
    by (rule seg [of "[]" ?ph "[]"]) (simp_all add: elf_test_phdrs len on_stack_def)
  moreover have "elf_test ! 84 = 0xEB" by (simp add: elf_test_def elf_bytes_def)
  ultimately have "virt_read (paging_switch (page_directory (tasks k' t)) k') 0x401054 = Some 0xEB" by simp
  moreover have "r_ip (task_regs (tasks k' t)) = 0x401054" using L(2) by (simp add: running_def)
  ultimately show ?thesis using L(1) by blast
qed

end
