(* ===== verification/Spec2Isabelle.thy ===== *)
theory Spec2Isabelle
  imports Boot Rtc UserShell Programs
begin

text \<open>
  \<^bold>\<open>PeachOS: a verification library of the kernel and its programs.\<close>

  PeachOS is a 32-bit kernel for i686: it manages its own heap and page tables, reads a FAT16 disk by
  programmed I/O, loads ELF and flat programs from it, switches tasks at the clock interrupt, and serves
  ten system calls; up to twelve shells share the text screen and the keyboard.  This library models the
  C sources of the kernel (\<^verbatim>\<open>src/src/\<close>) and of its user programs (\<^verbatim>\<open>src/programs/\<close>) function by function and
  proves what the parts promise each other.

  \<^bold>\<open>State.\<close>  Memory is one function from 32-bit addresses to bytes (\<^verbatim>\<open>ram\<close>); the block table of the heap, page
  tables, page directories, strings, ELF images, FAT16 structures and text buffers are bytes of it.  Objects the code
  only reaches through typed pointers (streams, path parts, file descriptors, ELF files, tasks, processes,
  shells) are kept at their addresses in maps of their own, while the heap still allocates their blocks.
  The kernel's global variables are fields of one record, which each layer extends:
  \<^verbatim>\<open>kmem\<close> (KHeap), \<^verbatim>\<open>paging_state\<close>, \<^verbatim>\<open>io_state\<close> (Disk), \<^verbatim>\<open>path_state\<close>, \<^verbatim>\<open>file_state\<close>, \<^verbatim>\<open>elf_state\<close>, \<^verbatim>\<open>task_state\<close>,
  \<^verbatim>\<open>process_state\<close>, \<^verbatim>\<open>screen_state\<close>, \<^verbatim>\<open>kernel_state\<close>, \<^verbatim>\<open>sys_state\<close>.  An operation is a function on the
  layer it needs and so applies to every later one.  Errors are the negative codes of
  \<^verbatim>\<open>status.h\<close>; \<^verbatim>\<open>None\<close> is a run that never ends, traps or leaves C's defined behaviour.

  \<^bold>\<open>Parts.\<close>
  \<^item> \<^verbatim>\<open>Prelude\<close>: machine integers, status codes, word arithmetic.
  \<^item> \<^verbatim>\<open>Memory\<close> (\<^verbatim>\<open>memory/memory.c\<close>), \<^verbatim>\<open>CString\<close> (\<^verbatim>\<open>string/string.c\<close>): the byte and string loops with their
    closed forms; \<^verbatim>\<open>itoa\<close> writes the decimal digits.
  \<^item> \<^verbatim>\<open>Allocator\<close>: the contract of an allocator as a locale.  \<^verbatim>\<open>Heap\<close> (\<^verbatim>\<open>memory/heap/heap.c\<close>): the block table
    represents the set of live allocations; allocation is first fit, freeing removes exactly one
    allocation.  \<^verbatim>\<open>KHeap\<close> (\<^verbatim>\<open>kheap.c\<close>): the kernel's heap of 25600 blocks, which interprets the contract twice,
    for \<^verbatim>\<open>kmalloc\<close> and \<^verbatim>\<open>kzalloc\<close>.
  \<^item> \<^verbatim>\<open>Paging\<close> (\<^verbatim>\<open>memory/paging/paging.c\<close>): two-level tables; mapping one page changes one page of the
    translation; creating and freeing a directory restores the heap.
  \<^item> \<^verbatim>\<open>Gdt\<close> (\<^verbatim>\<open>gdt/gdt.c\<close> and the table of \<^verbatim>\<open>kernel.c\<close>), \<^verbatim>\<open>Rtc\<close> (\<^verbatim>\<open>rtc/rtc.c\<close>): descriptors decode to what
    they encode; a clock register is read exactly if the chip is ever idle.
  \<^item> \<^verbatim>\<open>Disk\<close> (\<^verbatim>\<open>disk/disk.c\<close>, \<^verbatim>\<open>disk/streamer.c\<close>): the block device contract, provided by the ATA driver, and byte
    streams over it.  \<^verbatim>\<open>Pparser\<close> (\<^verbatim>\<open>fs/pparser.c\<close>): parsing a path builds the chain of its parts, freeing it
    gives back every block.  \<^verbatim>\<open>Slots\<close>, \<^verbatim>\<open>File\<close> (\<^verbatim>\<open>fs/file.c\<close>): tables of descriptors as a locale, and the calls of
    the file layer over any table of filesystem functions.  \<^verbatim>\<open>Fat16\<close> (\<^verbatim>\<open>fs/fat/fat16.c\<close>): the FAT16 implementation
    of that table; \<^verbatim>\<open>FatRead\<close>: what reading through it delivers,
    where the file is what the allocation table chains and a hypothesis says where the code finds the same links; \<^verbatim>\<open>FatDir\<close>, \<^verbatim>\<open>FatOpen\<close>: names, directory scans,
    opening and closing; \<^verbatim>\<open>FatMount\<close>: mounting a disk and opening a file of it.
    \<^verbatim>\<open>FileDriver\<close>: the contract between the file layer and a filesystem as a locale, and what opening, measuring, reading and
    closing a file achieves under it; \<^verbatim>\<open>FatVolume\<close>: FAT16 interprets it.  \<^verbatim>\<open>Room\<close>: how much room the heap is sure to have after
    allocations whose places are not known.
  \<^item> \<^verbatim>\<open>ElfLoader\<close> (\<^verbatim>\<open>loader/formats/elfloader.c\<close>, \<^verbatim>\<open>elf.c\<close>): validation and segment bounds.  \<^verbatim>\<open>Task\<close> (\<^verbatim>\<open>task/task.c\<close>,
    \<^verbatim>\<open>task.asm\<close>): the ring of tasks, saving and resuming registers; \<^verbatim>\<open>UserCopy\<close>: copying a string out of a task's
    address space.  \<^verbatim>\<open>Process\<close>, \<^verbatim>\<open>ProcessMemory\<close> (\<^verbatim>\<open>task/process.c\<close>): loading, arguments, the memory a
    process allocates and its release; \<^verbatim>\<open>ProcessEnd\<close>: what termination gives back; \<^verbatim>\<open>ProcessLoad\<close>: a new process around program data already in memory; \<^verbatim>\<open>LoadProgram\<close>: from
    the path to the started program over any filesystem of the contract (the locale \<^verbatim>\<open>program_source\<close>); \<^verbatim>\<open>Programs\<close>: the same for
    FAT16, stated by what the new task reads through its page tables, and what terminating it leaves behind.
  \<^item> \<^verbatim>\<open>Screen\<close>, \<^verbatim>\<open>Terminal\<close> (\<^verbatim>\<open>video/video.c\<close>, \<^verbatim>\<open>task/shell.c\<close>): each shell has a window, writing refines a cursor
    automaton on it, and the screen shows the current shell.  \<^verbatim>\<open>Keyboard\<close> (\<^verbatim>\<open>keyboard/\<close>): scan codes, and the
    ring buffers as queues (a locale of sources extended to queues).
  \<^item> \<^verbatim>\<open>Interrupts\<close> (\<^verbatim>\<open>idt/\<close>, \<^verbatim>\<open>isr80h/\<close>): descriptors, stubs, callbacks and system calls; \<^verbatim>\<open>Scheduling\<close>: interrupts,
    exceptions and system calls as a step relation (all but the two calls that load a program, which \<^verbatim>\<open>Programs\<close> covers),
    and the fact that a task resumes with its own registers; \<^verbatim>\<open>Syscalls\<close>, \<^verbatim>\<open>Console\<close>: whole
    system calls, from the \<^verbatim>\<open>int 0x80\<close> of a program to its resumption.
  \<^item> \<^verbatim>\<open>Boot\<close> (\<^verbatim>\<open>kernel.c\<close>): \<^verbatim>\<open>kernel_main\<close> composes the parts; on a FAT16 disk it reaches the start of the shells
    with every structure the other theories start from in place.
  \<^item> User programs: \<^verbatim>\<open>UserString\<close> (\<^verbatim>\<open>programs/stdlib\<close>, strings, memory and numbers) models the library of the
    programs, which behaves as the kernel's own routines do; \<^verbatim>\<open>UserLib\<close> (\<^verbatim>\<open>peachos.c\<close>, \<^verbatim>\<open>peachos.asm\<close>, \<^verbatim>\<open>stdio.c\<close>, \<^verbatim>\<open>start.c\<close>): the stubs of
    the system calls, reading a line; \<^verbatim>\<open>UserParse\<close>: a line becomes a chain of arguments; \<^verbatim>\<open>UserShell\<close>
    (\<^verbatim>\<open>programs/shell\<close>, \<^verbatim>\<open>programs/blank\<close>): rounds of the shell.  The address space of a program and the kernel behind
    \<^verbatim>\<open>int 0x80\<close> are separate: the instruction is a parameter of these definitions, and a theorem names what it
    needs of it (\<^verbatim>\<open>print_serves\<close>, \<^verbatim>\<open>getkey_serves\<close>, \<^verbatim>\<open>putchar_serves\<close>, \<^verbatim>\<open>malloc_serves\<close>).  \<^verbatim>\<open>print_serves\<close>
    is what the kernel delivers while the heap has a free block and the window a line left (\<^verbatim>\<open>Console.isr80h_print\<close>).

  \<^bold>\<open>Bounds and loops.\<close>  C's \<^verbatim>\<open>int\<close> is an integer of HOL, its unsigned types and pointers are words; each cast is
  written out.  Loops over a counter are structural or come with a measure.  Loops that wait for a device
  (\<^verbatim>\<open>wait_ready\<close>, \<^verbatim>\<open>wait_update\<close>), run to a terminator (\<^verbatim>\<open>strlen\<close>, \<^verbatim>\<open>strcpy\<close>, directory scans) or follow
  pointers are partial functions with value \<^verbatim>\<open>None\<close> when they do not end; each theorem about them proves that
  they return.  Devices are the environment: a disk image with a status that turns ready again and again, the
  sequence of scan codes, the registers of the clock chip.  No fuel is used.

  \<^bold>\<open>Not modelled.\<close>  The boot sector (\<^verbatim>\<open>boot/boot.asm\<close>), the assembly that loads descriptor tables, the task register
  and \<^verbatim>\<open>cr0\<close>: they have no state of the C program.  The endless loops of
  \<^verbatim>\<open>panic\<close> and of \<^verbatim>\<open>kernel_main\<close> are \<^verbatim>\<open>None\<close>.  The theorem about the start ends where the first program is loaded from the disk.
\<close>

end
